(* ===== verification/C_Float.thy ===== *)
theory C_Float
  imports Complex_Main
begin

text \<open>
  Floating-point numbers of the C types \<^verbatim>\<open>double\<close> and \<^verbatim>\<open>float\<close>, as far as the firmware computes with
  them: positive numbers, multiplication, division and truncation, rounded to the nearest
  number of 53 or 24 significant bits, to the even one on a tie. The ranges of the exponents are never left.
\<close>

subsection \<open>Double precision\<close>

text \<open>\<open>Dbl m e\<close> is the number \<open>m / 2 ^ e\<close>; \<open>round_even n d\<close> is the integer nearest to \<open>n / d\<close>, the even one on a tie.\<close>

datatype double = Dbl nat nat

definition round_even :: "nat \<Rightarrow> nat \<Rightarrow> nat" where
  "round_even n d = (let q = n div d; r = n mod d in
     if 2 * r < d \<or> 2 * r = d \<and> even q then q else q + 1)"

text \<open>The double nearest to \<open>n / d\<close>, for \<open>2 ^ k \<le> n / d < 2 ^ (k + 1)\<close>.\<close>

fun log2 :: "nat \<Rightarrow> nat" where
  "log2 n = (if n < 2 then 0 else 1 + log2 (n div 2))"

declare log2.simps [simp del]

lemma log2_less [simp]: "n < 2 \<Longrightarrow> log2 n = 0"
  by (simp add: log2.simps)

lemma log2_numeral [simp]: "2 \<le> n \<Longrightarrow> log2 n = Suc (log2 (n div 2))"
  by (simp add: log2.simps)

definition double_of_ratio :: "nat \<Rightarrow> nat \<Rightarrow> double" where
  "double_of_ratio n d = (let k = log2 (n div d) in Dbl (round_even (n * 2 ^ (52 - k)) d) (52 - k))"

fun double_mult :: "double \<Rightarrow> double \<Rightarrow> double" where
  "double_mult (Dbl m e) (Dbl m' e') = double_of_ratio (m * m') (2 ^ (e + e'))"

fun double_less_nat :: "double \<Rightarrow> nat \<Rightarrow> bool" where
  "double_less_nat (Dbl m e) n \<longleftrightarrow> m < n * 2 ^ e"

fun double_trunc :: "double \<Rightarrow> nat" where
  "double_trunc (Dbl m e) = m div 2 ^ e"

subsection \<open>Rounding errors of doubles\<close>

lemma not_double_less_nat: "\<not> double_less_nat d n \<longleftrightarrow> n \<le> double_trunc d"
  by (cases d) (simp add: not_less less_eq_div_iff_mult_less_eq)

fun double_real :: "double \<Rightarrow> real" where
  "double_real (Dbl m e) = real m / 2 ^ e"

lemma double_trunc_le: "real (double_trunc d) \<le> double_real d"
proof (cases d)
  case (Dbl m e)
  then show ?thesis using of_nat_div_le_of_nat [of m "2 ^ e"] by simp
qed

lemma log2_bound: "n < 2 ^ Suc k \<Longrightarrow> log2 n \<le> k"
proof (induction k arbitrary: n)
  case 0
  then show ?case by simp
next
  case (Suc k)
  show ?case
  proof (cases "n < 2")
    case False
    have "n div 2 < 2 ^ Suc k" using Suc.prems by (simp add: div_less_iff_less_mult mult.commute)
    then show ?thesis using Suc.IH [of "n div 2"] False by simp
  qed simp
qed

lemma round_even_le: "0 < d \<Longrightarrow> real (round_even n d) \<le> real n / real d + 1 / 2"
proof -
  assume d: "0 < d"
  let ?q = "n div d" and ?r = "n mod d"
  have n: "real n = real ?q * real d + real ?r"
    by (metis div_mult_mod_eq of_nat_add of_nat_mult)
  have "2 * d * round_even n d \<le> 2 * n + d"
  proof (cases "2 * ?r < d \<or> 2 * ?r = d \<and> even ?q")
    case True
    then have "round_even n d = ?q" by (simp add: round_even_def)
    moreover have "2 * (d * ?q) \<le> 2 * n" by simp
    ultimately show ?thesis by (metis le_add1 le_trans mult.assoc)
  next
    case False
    then have re: "round_even n d = ?q + 1" and "d \<le> 2 * ?r"
      by (auto simp: round_even_def Let_def)
    moreover have "2 * d * (?q + 1) + 2 * ?r = 2 * n + 2 * d"
    proof -
      have "2 * (d * ?q + ?r) = 2 * n" by simp
      then show ?thesis unfolding distrib_left mult.assoc mult_1_right by linarith
    qed
    ultimately show ?thesis unfolding re by linarith
  qed
  then have "real (2 * d * round_even n d) \<le> real (2 * n + d)" by (simp only: of_nat_le_iff)
  then show ?thesis using d by (simp add: field_simps)
qed

lemma double_of_ratio_le:
  assumes "0 < d" and "n div d < 2 ^ 20"
  shows "double_real (double_of_ratio n d) \<le> real n / real d + 1 / 2 ^ 34"
proof -
  let ?e = "52 - log2 (n div d)"
  have "log2 (n div d) \<le> 19" by (rule log2_bound) (use assms in simp)
  then have e: "33 \<le> ?e" by simp
  have "double_real (double_of_ratio n d) = real (round_even (n * 2 ^ ?e) d) / 2 ^ ?e"
    by (simp add: double_of_ratio_def Let_def)
  also have "\<dots> \<le> (real (n * 2 ^ ?e) / real d + 1 / 2) / 2 ^ ?e"
    by (intro divide_right_mono round_even_le assms(1)) simp
  also have "\<dots> = real n / real d + (1 / 2) / 2 ^ ?e"
    by (simp add: add_divide_distrib)
  also have "\<dots> \<le> real n / real d + (1 / 2) / 2 ^ 33"
    using power_increasing [OF e, of "2 :: real"] by (intro add_left_mono divide_left_mono) simp_all
  finally show ?thesis by simp
qed

lemma double_mult_le:
  assumes "double_real x * double_real y < 2 ^ 20"
  shows "double_real (double_mult x y) \<le> double_real x * double_real y + 1 / 2 ^ 34"
proof -
  obtain m e m' e' where xy: "x = Dbl m e" "y = Dbl m' e'" by (cases x; cases y)
  have eq: "real (m * m') / real (2 ^ (e + e')) = double_real x * double_real y"
    by (simp add: xy power_add)
  have "real (m * m' div 2 ^ (e + e')) \<le> double_real x * double_real y"
    unfolding eq [symmetric] by (rule of_nat_div_le_of_nat)
  then have "real (m * m' div 2 ^ (e + e')) < real (2 ^ 20)" using assms by simp
  then have "m * m' div 2 ^ (e + e') < 2 ^ 20" by (simp only: of_nat_less_iff)
  then show ?thesis
    using double_of_ratio_le [of "2 ^ (e + e')" "m * m'"] by (simp only: eq xy double_mult.simps) simp
qed

subsection \<open>Single precision\<close>

text \<open>Numbers of 24 significant bits are written in the same way; the ratio may be smaller than one.\<close>

definition single_of_ratio :: "nat \<Rightarrow> nat \<Rightarrow> double" where
  "single_of_ratio n d =
    (if n = 0 then Dbl 0 0
     else if d \<le> n then
       (let k = log2 (n div d) in
        if k \<le> 23 then Dbl (round_even (n * 2 ^ (23 - k)) d) (23 - k)
        else Dbl (round_even n (d * 2 ^ (k - 23)) * 2 ^ (k - 23)) 0)
     else (let j = log2 ((d - 1) div n) + 24 in Dbl (round_even (n * 2 ^ j) d) j))"

fun single_mult :: "double \<Rightarrow> double \<Rightarrow> double" where
  "single_mult (Dbl m e) (Dbl m' e') = single_of_ratio (m * m') (2 ^ (e + e'))"

fun single_div :: "double \<Rightarrow> double \<Rightarrow> double" where
  "single_div (Dbl m e) (Dbl m' e') = single_of_ratio (m * 2 ^ e') (m' * 2 ^ e)"

lemma log2_le: "0 < n \<Longrightarrow> 2 ^ log2 n \<le> n"
proof (induction n rule: log2.induct)
  case (1 n)
  then show ?case by (cases "n < 2") (auto simp: le_div_geq less_eq_div_iff_mult_less_eq mult.commute)
qed

lemma log2_ge: "n < 2 ^ Suc (log2 n)"
proof (induction n rule: log2.induct)
  case (1 n)
  then show ?case by (cases "n < 2") auto
qed

text \<open>A rounded number is at most the exact one and a relative error of \<open>1 / 2 ^ 24\<close>.\<close>

lemma round_even_rel:
  assumes "0 < d" "2 ^ 23 * d \<le> n"
  shows "real (round_even n d) \<le> real n / real d * (1 + 1 / 2 ^ 24)"
proof -
  have "2 ^ 23 \<le> real n / real d" using assms by (simp add: pos_le_divide_eq flip: of_nat_mult of_nat_le_iff) 
  then have "1 / 2 \<le> real n / real d * (1 / 2 ^ 24)" by simp
  then show ?thesis using round_even_le [OF assms(1), of n] by (simp add: distrib_left)
qed

lemma single_of_ratio_le:
  assumes d: "0 < d"
  shows "double_real (single_of_ratio n d) \<le> real n / real d * (1 + 1 / 2 ^ 24)"
proof -
  consider "n = 0" | "0 < n" "d \<le> n" "log2 (n div d) \<le> 23" | "0 < n" "d \<le> n" "23 < log2 (n div d)" | "0 < n" "n < d"
    by linarith
  then show ?thesis
  proof cases
    case 2
    let ?k = "log2 (n div d)"
    have "2 ^ ?k \<le> n div d" using 2 d by (intro log2_le) (simp add: div_greater_zero_iff)
    then have "2 ^ ?k * d \<le> n" using d by (simp add: less_eq_div_iff_mult_less_eq)
    then have "2 ^ ?k * d * 2 ^ (23 - ?k) \<le> n * 2 ^ (23 - ?k)" by simp
    then have "2 ^ 23 * d \<le> n * 2 ^ (23 - ?k)" using 2(3) by (simp add: ac_simps flip: power_add)
    from round_even_rel [OF d this] show ?thesis using 2
      by (simp add: single_of_ratio_def Let_def field_simps)
  next
    case 3
    let ?k = "log2 (n div d)"
    have "2 ^ ?k \<le> n div d" using 3 d by (intro log2_le) (simp add: div_greater_zero_iff)
    then have "2 ^ ?k * d \<le> n" using d by (simp add: less_eq_div_iff_mult_less_eq)
    moreover have "(2 :: nat) ^ 23 * 2 ^ (?k - 23) = 2 ^ ?k" using 3(3) by (simp only: flip: power_add) simp
    ultimately have "2 ^ 23 * (d * 2 ^ (?k - 23)) \<le> n" by (metis mult.assoc mult.commute)
    from round_even_rel [OF _ this] show ?thesis using 3 d
      by (simp add: single_of_ratio_def Let_def field_simps)
  next
    case 4
    let ?j = "log2 ((d - 1) div n)"
    have "(d - 1) div n < 2 ^ Suc ?j" by (rule log2_ge)
    then have "d \<le> n * 2 ^ Suc ?j" using 4 by (simp add: div_less_iff_less_mult mult.commute) 
    then have "2 ^ 23 * d \<le> n * 2 ^ (?j + 24)" by (simp add: power_add)
    from round_even_rel [OF d this] show ?thesis using 4
      by (simp add: single_of_ratio_def Let_def field_simps)
  qed (simp add: single_of_ratio_def)
qed

lemma single_mult_le: "double_real (single_mult x y) \<le> double_real x * double_real y * (1 + 1 / 2 ^ 24)"
proof (cases x; cases y)
  fix m e m' e'
  assume xy: "x = Dbl m e" "y = Dbl m' e'"
  show ?thesis using single_of_ratio_le [of "2 ^ (e + e')" "m * m'"] by (simp add: xy power_add)
qed

subsection \<open>Monotonicity\<close>

text \<open>Rounding a real number to the nearest integer, the even one on a tie.\<close>

definition real_round_even :: "real \<Rightarrow> int" where
  "real_round_even x =
    (if frac x < 1 / 2 \<or> frac x = 1 / 2 \<and> even \<lfloor>x\<rfloor> then \<lfloor>x\<rfloor> else \<lfloor>x\<rfloor> + 1)"

lemma round_even_real: "0 < d \<Longrightarrow> int (round_even n d) = real_round_even (real n / real d)"
proof -
  assume d: "0 < d"
  have fl: "\<lfloor>real n / real d\<rfloor> = int (n div d)" by (simp add: floor_divide_of_nat_eq)
  have fr: "frac (real n / real d) = real (n mod d) / real d"
  proof -
    have "real n = real (n div d) * real d + real (n mod d)"
      by (metis div_mult_mod_eq of_nat_add of_nat_mult)
    then show ?thesis using d unfolding frac_def fl by (simp add: field_simps)
  qed
  have "frac (real n / real d) < 1 / 2 \<longleftrightarrow> real (2 * (n mod d)) < real d"
    using d unfolding fr by (simp add: pos_divide_less_eq mult.commute)
  then have "frac (real n / real d) < 1 / 2 \<longleftrightarrow> 2 * (n mod d) < d" by (simp only: of_nat_less_iff)
  moreover have "frac (real n / real d) = 1 / 2 \<longleftrightarrow> real (2 * (n mod d)) = real d"
    using d unfolding fr by (simp add: divide_eq_eq mult.commute)
  then have "frac (real n / real d) = 1 / 2 \<longleftrightarrow> 2 * (n mod d) = d" by (simp only: of_nat_eq_iff)
  ultimately show ?thesis by (simp add: real_round_even_def round_even_def fl Let_def)
qed

lemma real_round_even_bounds: "\<lfloor>x\<rfloor> \<le> real_round_even x" "real_round_even x \<le> \<lfloor>x\<rfloor> + 1"
  by (simp_all add: real_round_even_def)

lemma real_round_even_int [simp]: "real_round_even (of_int i) = i"
  by (simp add: real_round_even_def)

lemma real_round_even_numeral [simp]: "real_round_even (numeral n) = numeral n"
  using real_round_even_int [of "numeral n"] by simp

lemma real_round_even_mono:
  assumes "x \<le> y"
  shows "real_round_even x \<le> real_round_even y"
proof (cases "\<lfloor>x\<rfloor> = \<lfloor>y\<rfloor>")
  case True
  then have "frac x \<le> frac y" using assms by (simp add: frac_def)
  then show ?thesis using True by (auto simp: real_round_even_def)
next
  case False
  then have "\<lfloor>x\<rfloor> + 1 \<le> \<lfloor>y\<rfloor>" using floor_mono [OF assms] by linarith
  then show ?thesis using real_round_even_bounds [of x] real_round_even_bounds [of y] by linarith
qed

text \<open>The number of 24 significant bits nearest to a real number between \<open>2 ^ k\<close> and \<open>2 ^ (k + 1)\<close>.\<close>

definition single_round :: "int \<Rightarrow> real \<Rightarrow> real" where
  "single_round k x = of_int (real_round_even (x * 2 powi (23 - k))) * 2 powi (k - 23)"

lemma single_round_binade:
  assumes "2 powi k \<le> x" "x \<le> 2 powi (k + 1)"
  shows "2 powi k \<le> single_round k x" "single_round k x \<le> 2 powi (k + 1)"
proof -
  have scaled: "2 powi k * 2 powi (23 - k) = (of_int (2 ^ 23) :: real)"
    "2 powi (k + 1) * 2 powi (23 - k) = (of_int (2 ^ 24) :: real)"
    by (simp_all flip: power_int_add)
  have "of_int (2 ^ 23) \<le> x * 2 powi (23 - k)"
    unfolding scaled(1) [symmetric] using assms(1) by (intro mult_right_mono) simp_all
  from real_round_even_mono [OF this] have lo: "2 ^ 23 \<le> real_round_even (x * 2 powi (23 - k))" by simp
  have "x * 2 powi (23 - k) \<le> of_int (2 ^ 24)"
    unfolding scaled(2) [symmetric] using assms(2) by (intro mult_right_mono) simp_all
  from real_round_even_mono [OF this] have hi: "real_round_even (x * 2 powi (23 - k)) \<le> 2 ^ 24" by simp
  have "2 powi k = of_int (2 ^ 23) * (2 :: real) powi (k - 23)"
    "2 powi (k + 1) = of_int (2 ^ 24) * (2 :: real) powi (k - 23)"
    using power_int_add [of "2 :: real" 23 "k - 23"] power_int_add [of "2 :: real" 24 "k - 23"]
    by (simp_all add: add.commute)
  then show "2 powi k \<le> single_round k x" "single_round k x \<le> 2 powi (k + 1)"
    unfolding single_round_def using lo hi by (simp_all only: mult_right_mono of_int_le_iff zero_le_power_int zero_le_numeral)
qed

lemma single_round_mono:
  assumes "2 powi k \<le> x" "x < 2 powi (k + 1)" "2 powi l \<le> y" "y < 2 powi (l + 1)" "x \<le> y"
  shows "single_round k x \<le> single_round l y"
proof (cases "k = l")
  case True
  have "x * 2 powi (23 - k) \<le> y * 2 powi (23 - k)" using assms(5) by (intro mult_right_mono) simp_all
  then show ?thesis unfolding True single_round_def
    using True by (intro mult_right_mono) (simp_all add: real_round_even_mono)
next
  case False
  have "(2 :: real) powi k < 2 powi (l + 1)" using assms by linarith
  then have "\<not> l + 1 \<le> k" using power_int_increasing [of "l + 1" k "2 :: real"] by linarith
  then have "k + 1 \<le> l" using False by simp
  then have "(2 :: real) powi (k + 1) \<le> 2 powi l" by (intro power_int_increasing) simp_all
  then show ?thesis
    using single_round_binade(2) [of k x] single_round_binade(1) [of l y] assms by linarith
qed

lemma binade_ge:
  assumes "d \<le> n" "0 < d"
  shows "2 ^ log2 (n div d) \<le> real n / real d" "real n / real d < 2 * 2 ^ log2 (n div d)"
proof -
  have "2 ^ log2 (n div d) \<le> n div d" using assms by (intro log2_le) (simp add: div_greater_zero_iff)
  then have "2 ^ log2 (n div d) * d \<le> n" using assms(2) by (simp add: less_eq_div_iff_mult_less_eq)
  then have "real (2 ^ log2 (n div d) * d) \<le> real n" by (simp only: of_nat_le_iff)
  then show "2 ^ log2 (n div d) \<le> real n / real d" using assms(2) by (simp add: pos_le_divide_eq)
  have "n div d < 2 ^ Suc (log2 (n div d))" by (rule log2_ge)
  then have "n < 2 ^ Suc (log2 (n div d)) * d" using assms(2) by (simp only: div_less_iff_less_mult)
  then have "real n < real (2 ^ Suc (log2 (n div d)) * d)" by (simp only: of_nat_less_iff)
  then show "real n / real d < 2 * 2 ^ log2 (n div d)" using assms(2) by (simp add: pos_divide_less_eq mult.commute)
qed

lemma binade_less:
  assumes "0 < n" "n < d"
  shows "2 powi (- (int (log2 ((d - 1) div n)) + 1)) \<le> real n / real d"
    "real n / real d < 2 powi (- int (log2 ((d - 1) div n)))"
proof -
  let ?l = "log2 ((d - 1) div n)"
  have "(d - 1) div n < 2 ^ Suc ?l" by (rule log2_ge)
  then have "d \<le> 2 ^ Suc ?l * n" using assms by (simp add: div_less_iff_less_mult)
  then have "real d \<le> real (2 ^ Suc ?l * n)" by (simp only: of_nat_le_iff)
  then show "2 powi (- (int ?l + 1)) \<le> real n / real d"
    using assms by (simp add: power_int_minus nat_add_distrib power_int_def field_simps)
  have "2 ^ ?l \<le> (d - 1) div n" using assms by (intro log2_le) (simp add: div_greater_zero_iff)
  then have "2 ^ ?l * n < d" using assms by (simp add: less_eq_div_iff_mult_less_eq)
  then have "real (2 ^ ?l * n) < real d" by (simp only: of_nat_less_iff)
  then show "real n / real d < 2 powi (- int ?l)"
    using assms by (simp add: power_int_minus power_int_def field_simps)
qed

text \<open>A ratio is rounded in its own binade.\<close>

lemma single_of_ratio_round:
  assumes "0 < n" "0 < d"
  obtains k where "2 powi k \<le> real n / real d" "real n / real d < 2 powi (k + 1)"
    "double_real (single_of_ratio n d) = single_round k (real n / real d)"
proof -
  consider "d \<le> n" "log2 (n div d) \<le> 23" | "d \<le> n" "23 < log2 (n div d)" | "n < d" by linarith
  then show thesis
  proof cases
    case 1
    let ?k = "log2 (n div d)"
    have k: "2 powi (int ?k) \<le> real n / real d" "real n / real d < 2 powi (int ?k + 1)"
      using binade_ge [OF 1(1) assms(2)] by (simp_all add: power_int_def nat_add_distrib)
    have "double_real (single_of_ratio n d) = of_int (int (round_even (n * 2 ^ (23 - ?k)) d)) / 2 ^ (23 - ?k)"
      using 1 assms by (simp add: single_of_ratio_def Let_def)
    also have "\<dots> = single_round (int ?k) (real n / real d)"
    proof -
      have "(2 :: real) powi (23 - int ?k) = 2 ^ (23 - ?k)"
        using 1(2) by (simp add: power_int_def nat_diff_distrib)
      moreover have "(2 :: real) powi (int ?k - 23) = 1 / 2 ^ (23 - ?k)"
        using 1(2) power_int_minus [of "2 :: real" "23 - int ?k"] calculation by (simp add: divide_inverse)
      ultimately show ?thesis unfolding round_even_real [OF assms(2)] single_round_def by simp
    qed
    finally show ?thesis using that k by blast
  next
    case 2
    let ?k = "log2 (n div d)"
    have k: "2 powi (int ?k) \<le> real n / real d" "real n / real d < 2 powi (int ?k + 1)"
      using binade_ge [OF 2(1) assms(2)] by (simp_all add: power_int_def nat_add_distrib)
    have "double_real (single_of_ratio n d) = of_int (int (round_even n (d * 2 ^ (?k - 23)))) * 2 ^ (?k - 23)"
      using 2 assms by (simp add: single_of_ratio_def Let_def)
    also have "\<dots> = single_round (int ?k) (real n / real d)"
    proof -
      have "(2 :: real) powi (int ?k - 23) = 2 ^ (?k - 23)"
        using 2(2) by (simp add: power_int_def nat_diff_distrib)
      moreover have "(2 :: real) powi (23 - int ?k) = 1 / 2 ^ (?k - 23)"
        using power_int_minus [of "2 :: real" "int ?k - 23"] calculation by (simp add: divide_inverse)
      moreover have "0 < d * 2 ^ (?k - 23)" using assms(2) by simp
      ultimately show ?thesis using round_even_real [of "d * 2 ^ (?k - 23)" n]
        unfolding single_round_def by simp
    qed
    finally show ?thesis using that k by blast
  next
    case 3
    let ?l = "log2 ((d - 1) div n)"
    let ?k = "- (int ?l + 1)"
    have k: "2 powi ?k \<le> real n / real d" "real n / real d < 2 powi (?k + 1)"
      using binade_less [OF assms(1) 3] by simp_all
    have "double_real (single_of_ratio n d) = of_int (int (round_even (n * 2 ^ (?l + 24)) d)) / 2 ^ (?l + 24)"
      using 3 assms by (simp add: single_of_ratio_def Let_def)
    also have "\<dots> = single_round ?k (real n / real d)"
    proof -
      have "(2 :: real) powi (23 - ?k) = 2 ^ (?l + 24)" by (simp add: power_int_def nat_add_distrib)
      moreover have "(2 :: real) powi (?k - 23) = 1 / 2 ^ (?l + 24)"
        using power_int_minus [of "2 :: real" "23 - ?k"] calculation by (simp only: minus_diff_eq divide_inverse mult_1)
      ultimately show ?thesis unfolding round_even_real [OF assms(2)] single_round_def by simp
    qed
    finally show ?thesis using that k by blast
  qed
qed

lemma single_of_ratio_mono:
  assumes "0 < d" "0 < d'" "real n / real d \<le> real n' / real d'"
  shows "double_real (single_of_ratio n d) \<le> double_real (single_of_ratio n' d')"
proof (cases "n = 0")
  case True
  then show ?thesis by (cases "single_of_ratio n' d'") (simp add: single_of_ratio_def)
next
  case False
  then have "0 < real n / real d" using assms(1) by simp
  then have "0 < n'" using assms(3) by (cases n') auto
  obtain k where k: "2 powi k \<le> real n / real d" "real n / real d < 2 powi (k + 1)"
      "double_real (single_of_ratio n d) = single_round k (real n / real d)"
    using single_of_ratio_round [of n d] False assms(1) by blast
  obtain l where l: "2 powi l \<le> real n' / real d'" "real n' / real d' < 2 powi (l + 1)"
      "double_real (single_of_ratio n' d') = single_round l (real n' / real d')"
    using single_of_ratio_round [OF \<open>0 < n'\<close> assms(2)] by blast
  show ?thesis unfolding k(3) l(3) by (rule single_round_mono) (use k l assms(3) in simp_all)
qed

lemma single_mult_mono:
  assumes "double_real x \<le> double_real x'"
  shows "double_real (single_mult x y) \<le> double_real (single_mult x' y)"
proof (cases x; cases x'; cases y)
  fix m e m' e' l f
  assume xy: "x = Dbl m e" "x' = Dbl m' e'" "y = Dbl l f"
  have "real m / 2 ^ e * (real l / 2 ^ f) \<le> real m' / 2 ^ e' * (real l / 2 ^ f)"
    using assms by (intro mult_right_mono) (simp_all add: xy)
  then show ?thesis
    using single_of_ratio_mono [of "2 ^ (e + f)" "2 ^ (e' + f)" "m * l" "m' * l"] by (simp add: xy power_add)
qed

lemma double_trunc_floor: "int (double_trunc x) = \<lfloor>double_real x\<rfloor>"
  using floor_divide_of_nat_eq [of _ "2 ^ _", where 'a = real] by (cases x) simp

lemma double_trunc_mono: "double_real x \<le> double_real y \<Longrightarrow> double_trunc x \<le> double_trunc y"
  using floor_mono [of "double_real x" "double_real y"] by (simp add: double_trunc_floor [symmetric])

end
