(* ===== verification/Orb_Prelude.thy ===== *)
theory Orb_Prelude
  imports Main "HOL-Library.Word"
begin

text \<open>
  Shared vocabulary of the development: the C integer types, the return codes
  of \<^verbatim>\<open>lib/include/errors.h\<close>, the board the firmware is built for, and generic
  lemmas on lists that the component theories use.

  C integers are \<^typ>\<open>8 word\<close>, \<^typ>\<open>16 word\<close> and \<^typ>\<open>32 word\<close> where the bits or the wrap-around matter; sizes and
  flash offsets are \<^typ>\<open>nat\<close>, with the lemmas that keep them in range; values of C
  type \<^verbatim>\<open>int\<close> are \<^typ>\<open>int\<close>.
\<close>

type_synonym u8 = "8 word"
type_synonym u16 = "16 word"
type_synonym u32 = "32 word"

named_theorems flash_laws \<open>rewrite rules about the contents of a flash area\<close>
named_theorems inv_intros \<open>preservation of component invariants\<close>

text \<open>The error numbers the code returns with a minus sign.\<close>

definition EIO :: int where "EIO = 5"
definition ENXIO :: int where "ENXIO = 6"
definition ENODEV :: int where "ENODEV = 19"
definition EINVAL :: int where "EINVAL = 22"

lemma errno_not_0 [simp]: "EIO \<noteq> 0" "ENODEV \<noteq> 0"
  by (simp_all add: EIO_def ENODEV_def)

text \<open>\<^verbatim>\<open>enum ret_code_e\<close>; \<open>rc\<close> is the value the C compiler gives each enumerator.\<close>

datatype ret_code_t =
    RET_SUCCESS
  | RET_ERROR_INTERNAL
  | RET_ERROR_NO_MEM
  | RET_ERROR_NOT_FOUND
  | RET_ERROR_INVALID_PARAM
  | RET_ERROR_INVALID_STATE
  | RET_ERROR_INVALID_ADDR
  | RET_ERROR_BUSY
  | RET_ERROR_OFFLINE
  | RET_ERROR_FORBIDDEN
  | RET_ERROR_TIMEOUT
  | RET_ERROR_NOT_INITIALIZED
  | RET_ERROR_ASSERT_FAILS
  | RET_ERROR_ALREADY_INITIALIZED
  | RET_ERROR_NOT_SUPPORTED
  | RET_ERROR_UNSAFE

primrec rc :: "ret_code_t \<Rightarrow> int" where
  "rc RET_SUCCESS = 0"
| "rc RET_ERROR_INTERNAL = 1"
| "rc RET_ERROR_NO_MEM = 2"
| "rc RET_ERROR_NOT_FOUND = 3"
| "rc RET_ERROR_INVALID_PARAM = 4"
| "rc RET_ERROR_INVALID_STATE = 5"
| "rc RET_ERROR_INVALID_ADDR = 6"
| "rc RET_ERROR_BUSY = 7"
| "rc RET_ERROR_OFFLINE = 8"
| "rc RET_ERROR_FORBIDDEN = 9"
| "rc RET_ERROR_TIMEOUT = 10"
| "rc RET_ERROR_NOT_INITIALIZED = 11"
| "rc RET_ERROR_ASSERT_FAILS = 12"
| "rc RET_ERROR_ALREADY_INITIALIZED = 13"
| "rc RET_ERROR_NOT_SUPPORTED = 14"
| "rc RET_ERROR_UNSAFE = 15"

text \<open>
  The two hardware versions, \<^verbatim>\<open>CONFIG_BOARD_PEARL_MAIN\<close> and
  \<^verbatim>\<open>CONFIG_BOARD_DIAMOND_MAIN\<close>: code under a board's \<^verbatim>\<open>#if\<close> is a branch on this type.
\<close>

datatype board = Pearl | Diamond

text \<open>
  The limits of the liquid lens' current (\<^verbatim>\<open>optics/liquid_lens/liquid_lens.h\<close>), which the lens and the runner
  use, and the macro \<^verbatim>\<open>CLAMP\<close>.
\<close>

definition LIQUID_LENS_MIN_CURRENT_MA :: int where "LIQUID_LENS_MIN_CURRENT_MA = -400"
definition LIQUID_LENS_MAX_CURRENT_MA :: int where "LIQUID_LENS_MAX_CURRENT_MA = 400"

definition clamp :: "int \<Rightarrow> int \<Rightarrow> int \<Rightarrow> int" where
  "clamp v lo hi = (if v < lo then lo else if hi < v then hi else v)"

text \<open>The steps of the boot animation and the full circle (\<^verbatim>\<open>ui/rgb_leds/front_leds/front_leds.h\<close>), used by the front LEDs and the runner.\<close>

definition BOOT_PROGRESS_STEP_JETSON_VALUEGET :: nat where "BOOT_PROGRESS_STEP_JETSON_VALUEGET = 3"
definition BOOT_PROGRESS_STEP_DATE_SET :: nat where "BOOT_PROGRESS_STEP_DATE_SET = 4"
definition BOOT_PROGRESS_STEP_DONE :: nat where "BOOT_PROGRESS_STEP_DONE = 5"
definition FULL_RING_DEGREES :: nat where "FULL_RING_DEGREES = 360"

text \<open>
  \<open>mem_put off data m\<close> is the memory \<open>m\<close> with \<open>data\<close> stored at offset \<open>off\<close>;
  \<open>mem_get off n m\<close> are the \<open>n\<close> bytes of \<open>m\<close> at offset \<open>off\<close>.
\<close>

definition mem_put :: "nat \<Rightarrow> 'a list \<Rightarrow> 'a list \<Rightarrow> 'a list" where
  "mem_put off xs m = take off m @ xs @ drop (off + length xs) m"

definition mem_get :: "nat \<Rightarrow> nat \<Rightarrow> 'a list \<Rightarrow> 'a list" where
  "mem_get off n m = take n (drop off m)"

lemma rc_inject [simp]: "rc a = rc b \<longleftrightarrow> a = b"
  by (cases a; cases b) simp_all

lemma rc_eq_0 [simp]: "rc a = 0 \<longleftrightarrow> a = RET_SUCCESS"
  by (cases a) simp_all

lemma rc_nonneg [simp]: "0 \<le> rc a"
  by (cases a) simp_all

lemma length_mem_put [simp]:
  "off + length xs \<le> length m \<Longrightarrow> length (mem_put off xs m) = length m"
  by (simp add: mem_put_def)

lemma length_mem_get [simp]: "off + n \<le> length m \<Longrightarrow> length (mem_get off n m) = n"
  by (simp add: mem_get_def)

lemma mem_get_0 [simp]: "mem_get off 0 m = []"
  by (simp add: mem_get_def)

lemma mem_get_mem_put_same [simp]:
  "off + length xs \<le> length m \<Longrightarrow> n = length xs \<Longrightarrow> mem_get off n (mem_put off xs m) = xs"
  by (simp add: mem_get_def mem_put_def)

lemma mem_get_mem_put_before:
  assumes "a + n \<le> off" and "off + length xs \<le> length m"
  shows "mem_get a n (mem_put off xs m) = mem_get a n m"
proof -
  have "n \<le> length (drop a (take off m))" and "a \<le> length (take off m)"
    using assms by simp_all
  then have "mem_get a n (mem_put off xs m) = take n (drop a (take off m))"
    by (simp add: mem_get_def mem_put_def)
  also have "\<dots> = mem_get a n m" using assms(1) by (simp add: mem_get_def drop_take min_def)
  finally show ?thesis .
qed

lemma mem_get_mem_put_after:
  assumes "off + length xs \<le> a" and "off + length xs \<le> length m"
  shows "mem_get a n (mem_put off xs m) = mem_get a n m"
  using assms by (simp add: mem_get_def mem_put_def)

lemma mem_get_mem_get:
  "i + k \<le> n \<Longrightarrow> mem_get i k (mem_get a n m) = mem_get (a + i) k m"
  by (simp add: mem_get_def drop_take min_def add.commute)

lemma mem_get_append:
  "mem_get off n m @ mem_get (off + n) k m = mem_get off (n + k) m"
  by (simp add: mem_get_def take_add) (simp add: add.commute)

lemma mem_get_all [simp]: "n = length m \<Longrightarrow> mem_get 0 n m = m"
  by (simp add: mem_get_def)

lemma mem_put_all [simp]: "length xs = length m \<Longrightarrow> mem_put 0 xs m = xs"
  by (simp add: mem_put_def)

lemma mem_put_append:
  "off + length xs \<le> length m \<Longrightarrow> mem_put (off + length xs) ys (mem_put off xs m) = mem_put off (xs @ ys) m"
  by (simp add: mem_put_def ac_simps)

lemma mem_put_Nil [simp]: "mem_put off [] m = m"
  by (simp add: mem_put_def)

text \<open>A block is erased when every byte of it is \<open>v\<close>.\<close>

lemma mem_get_replicateI:
  "set (drop off m) \<subseteq> {v} \<Longrightarrow> off + n \<le> length m \<Longrightarrow> mem_get off n m = replicate n v"
proof -
  assume "set (drop off m) \<subseteq> {v}" and le: "off + n \<le> length m"
  then have "\<forall>x\<in>set (mem_get off n m). x = v"
    by (auto simp: mem_get_def dest: in_set_takeD)
  then show "mem_get off n m = replicate n v"
    using le by (metis length_mem_get replicate_length_same)
qed

text \<open>The C library's view of characters, as the functions of \<^verbatim>\<open>strtol\<close> need it.\<close>

definition hex_digit :: "u8 \<Rightarrow> nat option" where
  "hex_digit c =
    (let n = unat c in
     if 48 \<le> n \<and> n \<le> 57 then Some (n - 48)
     else if 65 \<le> n \<and> n \<le> 70 then Some (n - 55)
     else if 97 \<le> n \<and> n \<le> 102 then Some (n - 87) else None)"

definition is_space :: "u8 \<Rightarrow> bool" where
  "is_space c \<longleftrightarrow> c = 32 \<or> (9 \<le> c \<and> c \<le> 13)"

end
