(* ===== verification/Fan.thy ===== *)
theory Fan
  imports C_Float Orb_Prelude
begin

text \<open>
  The fans (\<^verbatim>\<open>temperature/fan/fan.c\<close>) and their tachometers
  (\<^verbatim>\<open>temperature/fan/fan_tach.c\<close>). The main and the auxiliary fan of Pearl always get the
  same pulse and the same enable signal, so the model has one of each. Results of the drivers that the
  code ignores are left out. C type \<^verbatim>\<open>float\<close> is modelled exactly.
\<close>

subsection \<open>Fan\<close>

definition UINT16_MAX :: nat where "UINT16_MAX = 65535"

text \<open>The PWM period of the device tree, in nanoseconds.\<close>

definition fan_period :: nat where "fan_period = 40000"

record fan_duty_cycle_specs =
  min_duty_cycle_percent :: nat
  max_duty_cycle_percent :: nat

definition fan_ev1_2_specs :: fan_duty_cycle_specs where
  "fan_ev1_2_specs = \<lparr>min_duty_cycle_percent = 0, max_duty_cycle_percent = 80\<rparr>"

definition fan_ev3_specs :: fan_duty_cycle_specs where
  "fan_ev3_specs = \<lparr>min_duty_cycle_percent = 40, max_duty_cycle_percent = 100\<rparr>"

definition fan_diamond_specs :: fan_duty_cycle_specs where
  "fan_diamond_specs = \<lparr>min_duty_cycle_percent = 30, max_duty_cycle_percent = 100\<rparr>"

definition fan_no_specs :: fan_duty_cycle_specs where
  "fan_no_specs = \<lparr>min_duty_cycle_percent = 0, max_duty_cycle_percent = 0\<rparr>"

record fan =
  fan_speed_by_value :: nat
  fan_specs :: fan_duty_cycle_specs
  fan_is_off :: bool
  fan_enable_pin :: bool
  fan_pwm_pulse :: nat

definition fan_power_on :: fan where
  "fan_power_on = \<lparr>fan_speed_by_value = 0, fan_specs = fan_no_specs, fan_is_off = False,
     fan_enable_pin = False, fan_pwm_pulse = 0\<rparr>"

definition compute_pulse_width_ns :: "fan_duty_cycle_specs \<Rightarrow> nat \<Rightarrow> nat" where
  "compute_pulse_width_ns sp value =
    (let range = single_of_ratio (max_duty_cycle_percent sp - min_duty_cycle_percent sp) 100;
         scaled_fan_speed = double_trunc (single_mult (single_of_ratio (value * fan_period) 1) range) div UINT16_MAX;
         min_period = min_duty_cycle_percent sp * fan_period div 100
     in scaled_fan_speed + min_period)"

definition fan_set_speed_by_value :: "nat \<Rightarrow> fan \<Rightarrow> fan" where
  "fan_set_speed_by_value value f =
    (let f1 = (if value \<noteq> 0
               then f\<lparr>fan_pwm_pulse := nat ((int fan_period - int (compute_pulse_width_ns (fan_specs f) value)) mod 2 ^ 32)\<rparr>
               else f);
         f2 = f1\<lparr>fan_speed_by_value := value\<rparr>
     in f2\<lparr>fan_enable_pin := \<not> fan_is_off f2 \<and> 0 < value\<rparr>)"

definition fan_set_speed_by_percentage :: "nat \<Rightarrow> fan \<Rightarrow> fan" where
  "fan_set_speed_by_percentage percentage f =
     fan_set_speed_by_value
       (double_trunc (single_mult (Dbl UINT16_MAX 0) (single_of_ratio (min percentage 100) 100)) mod 2 ^ 16) f"

definition fan_set_max_speed :: "fan \<Rightarrow> fan" where
  "fan_set_max_speed f = fan_set_speed_by_percentage 100 f"

definition fan_get_speed_setting :: "fan \<Rightarrow> nat" where
  "fan_get_speed_setting f = fan_speed_by_value f"

definition fan_turn_off :: "fan \<Rightarrow> fan" where
  "fan_turn_off f = f\<lparr>fan_enable_pin := False, fan_is_off := True\<rparr>"

definition fan_turn_on :: "fan \<Rightarrow> fan" where
  "fan_turn_on f =
    (let f1 = f\<lparr>fan_enable_pin := True, fan_is_off := False\<rparr>
     in fan_set_speed_by_value (fan_speed_by_value f1) f1)"

text \<open>The hardware versions the code names, and any other.\<close>

datatype hw_version =
    HW_VERSION_PEARL_EV1 | HW_VERSION_PEARL_EV2 | HW_VERSION_PEARL_EV3 | HW_VERSION_PEARL_EV4
  | HW_VERSION_PEARL_EV5 | HW_VERSION_OTHER

definition FAN_INITIAL_SPEED_PERCENT :: nat where "FAN_INITIAL_SPEED_PERCENT = 1"

fun fan_specs_for :: "board \<Rightarrow> hw_version \<Rightarrow> fan_duty_cycle_specs \<Rightarrow> fan_duty_cycle_specs" where
  "fan_specs_for Diamond v sp = fan_diamond_specs"
| "fan_specs_for Pearl HW_VERSION_PEARL_EV1 sp = fan_ev1_2_specs"
| "fan_specs_for Pearl HW_VERSION_PEARL_EV2 sp = fan_ev1_2_specs"
| "fan_specs_for Pearl HW_VERSION_PEARL_EV3 sp = fan_ev3_specs"
| "fan_specs_for Pearl HW_VERSION_PEARL_EV4 sp = fan_ev3_specs"
| "fan_specs_for Pearl HW_VERSION_PEARL_EV5 sp = fan_ev3_specs"
| "fan_specs_for Pearl HW_VERSION_OTHER sp = sp"

text \<open>\<open>ready\<close>: the PWM and pin devices are ready; \<open>main_pin\<close> and \<open>aux_pin\<close>: what configuring the pins returns.\<close>

definition fan_init :: "board \<Rightarrow> hw_version \<Rightarrow> bool \<Rightarrow> int \<Rightarrow> int \<Rightarrow> fan \<Rightarrow> ret_code_t \<times> fan" where
  "fan_init b v ready main_pin aux_pin f =
    (if \<not> ready then (RET_ERROR_INTERNAL, f)
     else if main_pin \<noteq> 0 then (RET_ERROR_INTERNAL, f)
     else if b = Pearl \<and> aux_pin \<noteq> 0 then (RET_ERROR_INTERNAL, f)
     else (RET_SUCCESS, fan_set_speed_by_percentage FAN_INITIAL_SPEED_PERCENT
                          (f\<lparr>fan_specs := fan_specs_for b v (fan_specs f)\<rparr>)))"

subsection \<open>Tachometer\<close>

datatype isr_state = AWAITING_FIRST_SAMPLE | AWAITING_SECOND_SAMPLE | AWAITING_TIMER_EXPIRATION

record timer_info =
  tach_state :: isr_state
  first_cc_value :: nat
  second_cc_value :: nat
  rpm :: nat
  capture_enabled :: bool

text \<open>The flags and the capture register the handler reads.\<close>

record tach_flags =
  cc_overrun :: bool
  tach_update :: bool
  cc_active :: bool
  cc_value :: nat

definition UINT32_MAX :: nat where "UINT32_MAX = 4294967295"
definition ASSUMED_TIMER_CLOCK_FREQ :: nat where "ASSUMED_TIMER_CLOCK_FREQ = 170000000"
definition TACHOMETER_TIMER_PRESCALER :: nat where "TACHOMETER_TIMER_PRESCALER = 2593"

definition tach_rpm :: "nat \<Rightarrow> nat" where
  "tach_rpm tot =
    (let hz = single_div (single_of_ratio ASSUMED_TIMER_CLOCK_FREQ 1)
                (single_of_ratio ((TACHOMETER_TIMER_PRESCALER + 1) * tot mod 2 ^ 32) 1)
     in double_trunc (single_mult hz (Dbl 60 0)) mod 2 ^ 32)"

definition fan_tachometer_isr :: "tach_flags \<Rightarrow> timer_info \<Rightarrow> timer_info" where
  "fan_tachometer_isr r t =
    (if cc_overrun r then t\<lparr>tach_state := AWAITING_FIRST_SAMPLE\<rparr>
     else if tach_update r then
       (let t1 = (if tach_state t \<noteq> AWAITING_TIMER_EXPIRATION then t\<lparr>rpm := 0\<rparr>
                  else t\<lparr>rpm := (if second_cc_value t \<le> first_cc_value t then UINT32_MAX
                                 else tach_rpm (second_cc_value t - first_cc_value t)),
                         capture_enabled := True\<rparr>)
        in t1\<lparr>tach_state := AWAITING_FIRST_SAMPLE\<rparr>)
     else if cc_active r then
       (case tach_state t of
          AWAITING_FIRST_SAMPLE \<Rightarrow> t\<lparr>first_cc_value := cc_value r, tach_state := AWAITING_SECOND_SAMPLE\<rparr>
        | AWAITING_SECOND_SAMPLE \<Rightarrow> t\<lparr>second_cc_value := cc_value r, tach_state := AWAITING_TIMER_EXPIRATION,
                                     capture_enabled := False\<rparr>
        | AWAITING_TIMER_EXPIRATION \<Rightarrow> t)
     else t)"

datatype fan_id = FanID_MAIN | FanID_AUX

text \<open>One turn of the thread: the speeds published, after the sleep of a second.\<close>

definition fan_tach_turn :: "board \<Rightarrow> timer_info \<Rightarrow> timer_info \<Rightarrow> (fan_id \<times> nat) list" where
  "fan_tach_turn b main aux =
    (let main_speed = rpm main; aux_speed = (if b = Pearl then rpm aux else 0);
         m = (if main_speed \<noteq> 0 \<and> main_speed \<noteq> UINT32_MAX then [(FanID_MAIN, main_speed)] else []);
         a = (if aux_speed \<noteq> 0 \<and> aux_speed \<noteq> UINT32_MAX then [(FanID_AUX, aux_speed)] else [])
     in if m @ a = [] then [(FanID_MAIN, 0), (FanID_AUX, 0)] else m @ a)"


subsection \<open>The pulse\<close>

lemma double_trunc_less: "double_real x < real n \<Longrightarrow> double_trunc x < n"
  using double_trunc_le [of x] by (metis le_less_trans of_nat_less_iff)

text \<open>
  Three roundings add less than one part in \<open>2 ^ 22\<close>, less than a nanosecond of the period.
\<close>

lemma scaled_fan_speed_le:
  assumes "value \<le> 65535" and "r \<le> 100"
  shows "double_trunc (single_mult (single_of_ratio (value * fan_period) 1) (single_of_ratio r 100)) div UINT16_MAX \<le> r * 400"
proof -
  let ?a = "single_of_ratio (value * fan_period) 1" and ?x = "single_of_ratio r 100"
  let ?u = "1 + 1 / 2 ^ 24 :: real"
  have a: "double_real ?a \<le> 2621400000 * ?u"
  proof -
    have "real (value * fan_period) / real 1 \<le> 2621400000" using assms(1) by (simp add: fan_period_def)
    then have "real (value * fan_period) / real 1 * ?u \<le> 2621400000 * ?u" by (rule mult_right_mono) simp
    with single_of_ratio_le [of 1 "value * fan_period"] show ?thesis by (rule order_trans [OF _ _]) simp
  qed
  have x: "double_real ?x \<le> real r / 100 * ?u" using single_of_ratio_le [of 100 r] by simp
  have pos: "0 \<le> double_real d" for d by (cases d) simp
  have "double_real (single_mult ?a ?x) \<le> double_real ?a * double_real ?x * ?u" by (rule single_mult_le)
  also have "\<dots> \<le> (2621400000 * ?u) * (real r / 100 * ?u) * ?u"
    by (intro mult_right_mono mult_mono a x pos) simp_all
  also have "\<dots> = 26214000 * real r * (?u * ?u * ?u)" by simp
  also have "\<dots> \<le> 26214000 * real r * (1 + 1 / 10 ^ 6)"
    by (rule mult_left_mono [of "?u * ?u * ?u"]) simp_all
  also have "\<dots> < real ((r * 400 + 1) * 65535)"
  proof -
    have "real r \<le> 100" using assms(2) by simp
    then show ?thesis by simp
  qed
  finally have "double_trunc (single_mult ?a ?x) < (r * 400 + 1) * 65535" by (rule double_trunc_less)
  then show ?thesis by (simp add: UINT16_MAX_def less_mult_imp_div_less flip: Suc_eq_plus1 less_Suc_eq_le)
qed

definition fan_specs_ok :: "fan_duty_cycle_specs \<Rightarrow> bool" where
  "fan_specs_ok sp \<longleftrightarrow> min_duty_cycle_percent sp \<le> max_duty_cycle_percent sp \<and> max_duty_cycle_percent sp \<le> 100"

lemma pulse_width_bounds:
  assumes "fan_specs_ok sp" "v \<le> 65535"
  shows "min_duty_cycle_percent sp * 400 \<le> compute_pulse_width_ns sp v \<and>
    compute_pulse_width_ns sp v \<le> max_duty_cycle_percent sp * 400"
proof -
  let ?r = "max_duty_cycle_percent sp - min_duty_cycle_percent sp"
  have r: "?r \<le> 100" and sp: "min_duty_cycle_percent sp \<le> max_duty_cycle_percent sp"
    using assms(1) by (auto simp: fan_specs_ok_def)
  have p: "min_duty_cycle_percent sp * fan_period div 100 = min_duty_cycle_percent sp * 400"
    by (simp add: fan_period_def)
  show ?thesis using scaled_fan_speed_le [OF assms(2) r] sp unfolding compute_pulse_width_ns_def Let_def p by simp
qed

lemma pulse_width_max:
  "compute_pulse_width_ns fan_ev1_2_specs 65535 = 32000"
  "compute_pulse_width_ns fan_ev3_specs 65535 = 40000"
  "compute_pulse_width_ns fan_diamond_specs 65535 = 39999"
  "compute_pulse_width_ns fan_no_specs 65535 = 0"
  by (simp_all add: compute_pulse_width_ns_def fan_ev1_2_specs_def fan_ev3_specs_def fan_diamond_specs_def fan_no_specs_def
      fan_period_def UINT16_MAX_def single_of_ratio_def round_even_def Let_def)

text \<open>In single precision every percentage gives its exact share of the range, rounded down.\<close>

definition percentage_to_value :: "nat \<Rightarrow> nat" where
  "percentage_to_value p = double_trunc (single_mult (Dbl 65535 0) (single_of_ratio p 100)) mod 2 ^ 16"

lemmas percentage_eval = percentage_to_value_def single_of_ratio_def round_even_def Let_def

lemma percentages_0:
  "percentage_to_value 0 = 0" "percentage_to_value 1 = 655" "percentage_to_value 2 = 1310"
  "percentage_to_value 3 = 1966" "percentage_to_value 4 = 2621" "percentage_to_value 5 = 3276"
  "percentage_to_value 6 = 3932" "percentage_to_value 7 = 4587" "percentage_to_value 8 = 5242"
  "percentage_to_value 9 = 5898" "percentage_to_value 10 = 6553" "percentage_to_value 11 = 7208"
  "percentage_to_value 12 = 7864" "percentage_to_value 13 = 8519" "percentage_to_value 14 = 9174"
  "percentage_to_value 15 = 9830" "percentage_to_value 16 = 10485" "percentage_to_value 17 = 11140"
  "percentage_to_value 18 = 11796" "percentage_to_value 19 = 12451" "percentage_to_value 20 = 13107"
  "percentage_to_value 21 = 13762" "percentage_to_value 22 = 14417" "percentage_to_value 23 = 15073"
  "percentage_to_value 24 = 15728"
  by (simp_all add: percentage_eval)

lemma percentage_from_0: "\<forall>p\<in>set [0..<25]. percentage_to_value p = 65535 * p div 100"
proof -
  have l: "[0..<25] =
    [0, 1, 2, 3, 4, 5, 6, 7, 8, 9, 10, 11, 12, 13, 14, 15, 16, 17, 18, 19, 20, 21, 22, 23, 24]" by (simp add: upt_rec)
  show ?thesis unfolding l by (simp add: percentages_0 del: One_nat_def)
qed

lemma percentages_25:
  "percentage_to_value 25 = 16383" "percentage_to_value 26 = 17039" "percentage_to_value 27 = 17694"
  "percentage_to_value 28 = 18349" "percentage_to_value 29 = 19005" "percentage_to_value 30 = 19660"
  "percentage_to_value 31 = 20315" "percentage_to_value 32 = 20971" "percentage_to_value 33 = 21626"
  "percentage_to_value 34 = 22281" "percentage_to_value 35 = 22937" "percentage_to_value 36 = 23592"
  "percentage_to_value 37 = 24247" "percentage_to_value 38 = 24903" "percentage_to_value 39 = 25558"
  "percentage_to_value 40 = 26214" "percentage_to_value 41 = 26869" "percentage_to_value 42 = 27524"
  "percentage_to_value 43 = 28180" "percentage_to_value 44 = 28835" "percentage_to_value 45 = 29490"
  "percentage_to_value 46 = 30146" "percentage_to_value 47 = 30801" "percentage_to_value 48 = 31456"
  "percentage_to_value 49 = 32112"
  by (simp_all add: percentage_eval)

lemma percentage_from_25: "\<forall>p\<in>set [25..<50]. percentage_to_value p = 65535 * p div 100"
proof -
  have l: "[25..<50] =
    [25, 26, 27, 28, 29, 30, 31, 32, 33, 34, 35, 36, 37, 38, 39, 40, 41, 42, 43, 44, 45, 46, 47, 48,
    49]" by (simp add: upt_rec)
  show ?thesis unfolding l by (simp add: percentages_25 del: One_nat_def)
qed

lemma percentages_50:
  "percentage_to_value 50 = 32767" "percentage_to_value 51 = 33422" "percentage_to_value 52 = 34078"
  "percentage_to_value 53 = 34733" "percentage_to_value 54 = 35388" "percentage_to_value 55 = 36044"
  "percentage_to_value 56 = 36699" "percentage_to_value 57 = 37354" "percentage_to_value 58 = 38010"
  "percentage_to_value 59 = 38665" "percentage_to_value 60 = 39321" "percentage_to_value 61 = 39976"
  "percentage_to_value 62 = 40631" "percentage_to_value 63 = 41287" "percentage_to_value 64 = 41942"
  "percentage_to_value 65 = 42597" "percentage_to_value 66 = 43253" "percentage_to_value 67 = 43908"
  "percentage_to_value 68 = 44563" "percentage_to_value 69 = 45219" "percentage_to_value 70 = 45874"
  "percentage_to_value 71 = 46529" "percentage_to_value 72 = 47185" "percentage_to_value 73 = 47840"
  "percentage_to_value 74 = 48495"
  by (simp_all add: percentage_eval)

lemma percentage_from_50: "\<forall>p\<in>set [50..<75]. percentage_to_value p = 65535 * p div 100"
proof -
  have l: "[50..<75] =
    [50, 51, 52, 53, 54, 55, 56, 57, 58, 59, 60, 61, 62, 63, 64, 65, 66, 67, 68, 69, 70, 71, 72, 73,
    74]" by (simp add: upt_rec)
  show ?thesis unfolding l by (simp add: percentages_50 del: One_nat_def)
qed

lemma percentages_75:
  "percentage_to_value 75 = 49151" "percentage_to_value 76 = 49806" "percentage_to_value 77 = 50461"
  "percentage_to_value 78 = 51117" "percentage_to_value 79 = 51772" "percentage_to_value 80 = 52428"
  "percentage_to_value 81 = 53083" "percentage_to_value 82 = 53738" "percentage_to_value 83 = 54394"
  "percentage_to_value 84 = 55049" "percentage_to_value 85 = 55704" "percentage_to_value 86 = 56360"
  "percentage_to_value 87 = 57015" "percentage_to_value 88 = 57670" "percentage_to_value 89 = 58326"
  "percentage_to_value 90 = 58981" "percentage_to_value 91 = 59636" "percentage_to_value 92 = 60292"
  "percentage_to_value 93 = 60947" "percentage_to_value 94 = 61602" "percentage_to_value 95 = 62258"
  "percentage_to_value 96 = 62913" "percentage_to_value 97 = 63568" "percentage_to_value 98 = 64224"
  "percentage_to_value 99 = 64879" "percentage_to_value 100 = 65535"
  by (simp_all add: percentage_eval)

lemma percentage_from_75: "\<forall>p\<in>set [75..<101]. percentage_to_value p = 65535 * p div 100"
proof -
  have l: "[75..<101] =
    [75, 76, 77, 78, 79, 80, 81, 82, 83, 84, 85, 86, 87, 88, 89, 90, 91, 92, 93, 94, 95, 96, 97, 98,
    99, 100]" by (simp add: upt_rec)
  show ?thesis unfolding l by (simp add: percentages_75 del: One_nat_def)
qed

lemma percentage_value:
  assumes "p \<le> 100"
  shows "fan_speed_by_value (fan_set_speed_by_percentage p f) = 65535 * p div 100"
proof -
  have "percentage_to_value p = 65535 * p div 100"
  proof -
    have "p \<in> set [0..<25] \<or> p \<in> set [25..<50] \<or> p \<in> set [50..<75] \<or> p \<in> set [75..<101]"
      using assms unfolding set_upt atLeastLessThan_iff by linarith
    then show ?thesis using percentage_from_0 percentage_from_25 percentage_from_50 percentage_from_75 by blast
  qed
  then show ?thesis using assms
    by (simp add: fan_set_speed_by_percentage_def fan_set_speed_by_value_def UINT16_MAX_def
        percentage_to_value_def min_def Let_def)
qed

lemma percentage_above: "100 \<le> p \<Longrightarrow> fan_set_speed_by_percentage p f = fan_set_speed_by_percentage 100 f"
  by (simp add: fan_set_speed_by_percentage_def)

subsection \<open>Executions\<close>

datatype fan_op = Fan_value nat | Fan_percentage nat | Fan_max | Fan_off | Fan_on

text \<open>The argument of \<open>fan_set_speed_by_value\<close> is converted to 16 bits.\<close>

fun fan_exec :: "fan_op \<Rightarrow> fan \<Rightarrow> fan" where
  "fan_exec (Fan_value n) f = fan_set_speed_by_value (n mod 2 ^ 16) f"
| "fan_exec (Fan_percentage n) f = fan_set_speed_by_percentage n f"
| "fan_exec Fan_max f = fan_set_max_speed f"
| "fan_exec Fan_off f = fan_turn_off f"
| "fan_exec Fan_on f = fan_turn_on f"

definition fan_run :: "fan_op list \<Rightarrow> fan \<Rightarrow> fan" where
  "fan_run ops f = fold fan_exec ops f"

definition fan_ok :: "fan \<Rightarrow> bool" where
  "fan_ok f \<longleftrightarrow> fan_specs_ok (fan_specs f) \<and> fan_speed_by_value f \<le> 65535 \<and>
     (fan_enable_pin f \<longleftrightarrow> \<not> fan_is_off f \<and> 0 < fan_speed_by_value f) \<and>
     fan_pwm_pulse f \<in> {(100 - max_duty_cycle_percent (fan_specs f)) * 400..(100 - min_duty_cycle_percent (fan_specs f)) * 400}"

lemma set_speed_fields [simp]:
  "fan_specs (fan_set_speed_by_value v f) = fan_specs f"
  "fan_speed_by_value (fan_set_speed_by_value v f) = v" "fan_is_off (fan_set_speed_by_value v f) = fan_is_off f"
  "fan_enable_pin (fan_set_speed_by_value v f) = (\<not> fan_is_off f \<and> 0 < v)"
  "fan_pwm_pulse (fan_set_speed_by_value v f) =
    (if v = 0 then fan_pwm_pulse f
     else nat ((int fan_period - int (compute_pulse_width_ns (fan_specs f) v)) mod 2 ^ 32))"
  by (simp_all add: fan_set_speed_by_value_def Let_def)

text \<open>The pulse is set without wrap-around; setting a speed keeps a fan in order.\<close>

definition fan_pulse_ok :: "fan \<Rightarrow> bool" where
  "fan_pulse_ok f \<longleftrightarrow> fan_specs_ok (fan_specs f) \<and>
     fan_pwm_pulse f \<in> {(100 - max_duty_cycle_percent (fan_specs f)) * 400..(100 - min_duty_cycle_percent (fan_specs f)) * 400}"

lemma pulse_no_wrap: "w \<le> 40000 \<Longrightarrow> nat ((int fan_period - int w) mod 2 ^ 32) = 40000 - w"
  by (simp add: fan_period_def)

lemma set_speed_pulse_ok:
  assumes "fan_specs_ok (fan_specs f)" "v \<le> 65535" "v \<noteq> 0 \<or> fan_pulse_ok f"
  shows "fan_pulse_ok (fan_set_speed_by_value v f)"
proof (cases "v = 0")
  case False
  let ?w = "compute_pulse_width_ns (fan_specs f) v"
  note w = pulse_width_bounds [OF assms(1,2)]
  have m: "max_duty_cycle_percent (fan_specs f) \<le> 100" using assms(1) by (simp add: fan_specs_ok_def)
  then have "?w \<le> 40000" using w by simp
  then have p: "fan_pwm_pulse (fan_set_speed_by_value v f) = 40000 - ?w" using False pulse_no_wrap by simp
  show ?thesis using w m assms(1) unfolding fan_pulse_ok_def p by auto
qed (use assms(1,3) in \<open>simp add: fan_pulse_ok_def\<close>)

lemma fan_ok_iff:
  "fan_ok f \<longleftrightarrow> fan_pulse_ok f \<and> fan_speed_by_value f \<le> 65535 \<and>
     (fan_enable_pin f \<longleftrightarrow> \<not> fan_is_off f \<and> 0 < fan_speed_by_value f)"
  by (auto simp: fan_ok_def fan_pulse_ok_def)

lemma set_speed_ok:
  assumes "fan_specs_ok (fan_specs f)" "v \<le> 65535" "v \<noteq> 0 \<or> fan_pulse_ok f"
  shows "fan_ok (fan_set_speed_by_value v f)"
  using set_speed_pulse_ok [OF assms] assms(2) by (simp add: fan_ok_iff)

lemma fan_okD: "fan_ok f \<Longrightarrow> fan_specs_ok (fan_specs f)" "fan_ok f \<Longrightarrow> fan_pulse_ok f" "fan_ok f \<Longrightarrow> fan_speed_by_value f \<le> 65535"
  by (simp_all add: fan_ok_iff fan_pulse_ok_def)

lemma u16_le: "n mod 2 ^ 16 \<le> (65535 :: nat)"
  using mod_less_divisor [of "2 ^ 16" n] by (simp only: flip: less_Suc_eq_le) simp

lemma percentage_ok: "fan_ok f \<Longrightarrow> fan_ok (fan_set_speed_by_percentage p f)"
  unfolding fan_set_speed_by_percentage_def by (intro set_speed_ok fan_okD disjI2 u16_le) assumption+

lemma turn_on_ok:
  assumes "fan_ok f"
  shows "fan_ok (fan_turn_on f)"
proof -
  have "fan_pulse_ok (f\<lparr>fan_enable_pin := True, fan_is_off := False\<rparr>)"
    using fan_okD(2) [OF assms] by (simp add: fan_pulse_ok_def)
  then show ?thesis unfolding fan_turn_on_def Let_def
    using fan_okD [OF assms] by (intro set_speed_ok) simp_all
qed

lemma exec_ok: "fan_ok f \<Longrightarrow> fan_ok (fan_exec op f)"
proof (cases op)
  case (Fan_value n)
  assume "fan_ok f"
  then show ?thesis unfolding Fan_value fan_exec.simps by (intro set_speed_ok fan_okD disjI2 u16_le)
qed (simp_all add: percentage_ok fan_set_max_speed_def turn_on_ok, simp add: fan_ok_def fan_turn_off_def)

lemma fan_init_ok:
  assumes "fan_init b v ready p a fan_power_on = (RET_SUCCESS, f)" "b = Diamond \<or> v = HW_VERSION_PEARL_EV1 \<or>
      v = HW_VERSION_PEARL_EV2 \<or> v = HW_VERSION_PEARL_EV3 \<or> v = HW_VERSION_PEARL_EV4 \<or> v = HW_VERSION_PEARL_EV5"
  shows "fan_ok f" and "fan_specs f = fan_specs_for b v fan_no_specs" and "\<not> fan_is_off f"
proof -
  define sp where "sp = fan_specs_for b v fan_no_specs"
  have sp: "sp \<in> {fan_ev1_2_specs, fan_ev3_specs, fan_diamond_specs}"
    using assms(2) by (cases b) (auto simp: sp_def)
  have f: "f = fan_set_speed_by_percentage 1 (fan_power_on\<lparr>fan_specs := sp\<rparr>)"
    using assms(1) by (simp add: fan_init_def FAN_INITIAL_SPEED_PERCENT_def sp_def fan_power_on_def split: if_splits)
  have v: "fan_speed_by_value f = 655" unfolding f by (simp add: percentage_value)
  have f': "f = fan_set_speed_by_value 655 (fan_power_on\<lparr>fan_specs := sp\<rparr>)"
    using f v by (simp add: fan_set_speed_by_percentage_def)
  show "fan_ok f" unfolding f' using sp
    by (intro set_speed_ok) (auto simp: fan_specs_ok_def fan_ev1_2_specs_def fan_ev3_specs_def fan_diamond_specs_def)
  show "fan_specs f = fan_specs_for b v fan_no_specs" "\<not> fan_is_off f"
    by (simp_all add: f' sp_def) (simp_all add: fan_power_on_def)
qed

lemma specs_fixed: "fan_specs (fan_exec op f) = fan_specs f"
  by (cases op) (simp_all add: fan_set_speed_by_percentage_def fan_set_max_speed_def fan_turn_off_def fan_turn_on_def Let_def)

text \<open>
  After a successful initialisation on a supported board, whatever speeds are set and
  however often the fan is turned off and on: the PWM pulse keeps the share of the period within the duty cycles
  of the specifications, without wrap-around, although it is computed in single precision; and
  the fan has power exactly when it is not turned off and its speed is not 0.
\<close>

theorem fan_duty_in_range:
  assumes "fan_init b v ready p a fan_power_on = (RET_SUCCESS, f0)"
    and "b = Diamond \<or> v = HW_VERSION_PEARL_EV1 \<or> v = HW_VERSION_PEARL_EV2 \<or> v = HW_VERSION_PEARL_EV3 \<or>
      v = HW_VERSION_PEARL_EV4 \<or> v = HW_VERSION_PEARL_EV5"
    and "f = fan_run ops f0" and "sp = fan_specs_for b v fan_no_specs"
  shows "fan_pwm_pulse f \<in> {(100 - max_duty_cycle_percent sp) * 400..(100 - min_duty_cycle_percent sp) * 400} \<and>
    fan_pwm_pulse f \<le> fan_period \<and> fan_speed_by_value f \<le> 65535 \<and>
    (fan_enable_pin f \<longleftrightarrow> \<not> fan_is_off f \<and> 0 < fan_speed_by_value f)"
proof -
  have "fan_ok (fan_run ops f0) \<and> fan_specs (fan_run ops f0) = sp"
    using fan_init_ok(1,2) [OF assms(1,2)] unfolding fan_run_def assms(4)
    by (induction ops arbitrary: f0 rule: rev_induct) (simp_all add: exec_ok specs_fixed)
  then show ?thesis by (auto simp: fan_ok_def assms(3) fan_period_def)
qed

subsection \<open>Tachometer\<close>

definition tach_run :: "tach_flags list \<Rightarrow> timer_info \<Rightarrow> timer_info" where
  "tach_run rs t = fold fan_tachometer_isr rs t"

text \<open>A disabled channel captures nothing.\<close>

fun tach_captures_ok :: "tach_flags list \<Rightarrow> timer_info \<Rightarrow> bool" where
  "tach_captures_ok [] t \<longleftrightarrow> True"
| "tach_captures_ok (r # rs) t \<longleftrightarrow>
     (capture_enabled t \<or> \<not> cc_active r \<and> \<not> cc_overrun r) \<and> tach_captures_ok rs (fan_tachometer_isr r t)"

text \<open>The speed of two captures is the one they measure, rounded: at the shortest and the longest time and at one revolution in a second.\<close>

lemma tach_rpm_values: "tach_rpm 1 = 3932151" "tach_rpm 65534 = 60" "tach_rpm 2000 = 1966"
  by (simp_all add: tach_rpm_def single_of_ratio_def round_even_def ASSUMED_TIMER_CLOCK_FREQ_def
      TACHOMETER_TIMER_PRESCALER_def Let_def)

text \<open>Two captures in order and the update of a period give their speed, whatever came before.\<close>

lemma tach_measures:
  assumes "tach_state t = AWAITING_FIRST_SAMPLE" "\<not> cc_overrun a" "\<not> tach_update a" "cc_active a"
    "\<not> cc_overrun b" "\<not> tach_update b" "cc_active b" "\<not> cc_overrun c" "tach_update c" "cc_value a < cc_value b"
  shows "tach_run [a, b, c] t = t\<lparr>tach_state := AWAITING_FIRST_SAMPLE, first_cc_value := cc_value a,
    second_cc_value := cc_value b, rpm := tach_rpm (cc_value b - cc_value a), capture_enabled := True\<rparr>"
  using assms by (simp add: tach_run_def fan_tachometer_isr_def Let_def)

lemma tach_stuck:
  assumes "tach_state t = AWAITING_FIRST_SAMPLE" "\<not> capture_enabled t" "tach_captures_ok rs t"
  shows "\<not> capture_enabled (tach_run rs t) \<and> rpm (tach_run rs t) = (if \<exists>r\<in>set rs. tach_update r then 0 else rpm t)"
  using assms
proof (induction rs arbitrary: t)
  case (Cons r rs)
  then have "\<not> cc_active r" "\<not> cc_overrun r" by auto
  then have t: "fan_tachometer_isr r t = (if tach_update r then t\<lparr>rpm := 0\<rparr> else t)"
    using Cons.prems(1) by (simp add: fan_tachometer_isr_def Let_def)
  show ?case
  proof (cases "tach_update r")
    case True
    then show ?thesis using Cons.IH [of "t\<lparr>rpm := 0\<rparr>"] Cons.prems t by (auto simp: tach_run_def)
  next
    case False
    then show ?thesis using Cons.IH [of t] Cons.prems t by (auto simp: tach_run_def)
  qed
qed (simp add: tach_run_def)

text \<open>
  When an overrun is seen after the second capture of a period, the tachometer is dead: the channel that
  the second capture disabled is enabled again only by an update in the state the overrun has
  left. Whatever interrupts follow, nothing is captured any more and the speed is 0 from the next update on.
\<close>

theorem tach_dead_after_overrun:
  assumes "tach_state t = AWAITING_SECOND_SAMPLE" and "\<not> cc_overrun c" "\<not> tach_update c" "cc_active c"
    and "cc_overrun r" and "tach_captures_ok rs (fan_tachometer_isr r (fan_tachometer_isr c t))"
    and "u \<in> set rs" "tach_update u"
  shows "rpm (tach_run (c # r # rs) t) = 0 \<and> \<not> capture_enabled (tach_run (c # r # rs) t)"
proof -
  let ?t = "fan_tachometer_isr r (fan_tachometer_isr c t)"
  have "tach_state ?t = AWAITING_FIRST_SAMPLE" "\<not> capture_enabled ?t"
    using assms(1-5) by (simp_all add: fan_tachometer_isr_def)
  from tach_stuck [OF this assms(6)] assms(7,8) show ?thesis by (auto simp: tach_run_def)
qed

subsection \<open>Witnesses\<close>

lemma fan_duty_in_range_witness:
  "\<exists>f0. fan_init Diamond HW_VERSION_OTHER True 0 0 fan_power_on = (RET_SUCCESS, f0) \<and>
     fan_pwm_pulse (fan_run [Fan_max, Fan_off, Fan_percentage 5, Fan_on] f0) \<in> {0..28000}"
proof -
  obtain f0 where f0: "fan_init Diamond HW_VERSION_OTHER True 0 0 fan_power_on = (RET_SUCCESS, f0)"
    by (simp add: fan_init_def)
  from fan_duty_in_range [OF f0 _ refl refl, of "[Fan_max, Fan_off, Fan_percentage 5, Fan_on]"] f0
  show ?thesis by (auto simp: fan_diamond_specs_def)
qed

definition tach_example :: timer_info where
  "tach_example = \<lparr>tach_state = AWAITING_SECOND_SAMPLE, first_cc_value = 100, second_cc_value = 0,
     rpm = 3000, capture_enabled = True\<rparr>"

definition tach_irq :: "bool \<Rightarrow> bool \<Rightarrow> bool \<Rightarrow> tach_flags" where
  "tach_irq o_r u c = \<lparr>cc_overrun = o_r, tach_update = u, cc_active = c, cc_value = 1400\<rparr>"

lemma tach_dead_after_overrun_witness:
  "rpm (tach_run [tach_irq False False True, tach_irq True True False, tach_irq False True False] tach_example) = 0 \<and>
   \<not> capture_enabled (tach_run [tach_irq False False True, tach_irq True True False, tach_irq False True False] tach_example)"
  by (rule tach_dead_after_overrun [where u = "tach_irq False True False"])
    (simp_all add: tach_example_def tach_irq_def fan_tachometer_isr_def)

end
