(* ===== verification/Kernel.thy ===== *)
theory Kernel
  imports Orb_Prelude
begin

text \<open>
  The kernel objects the firmware shares between its threads. The kernel is not part of the
  repository: its objects are abstract types, its functions the fields of a record that
  the models take as a parameter, and what its documentation promises is stated in the
  locales. Each locale has a model, so that the promises are known to be consistent.
\<close>

subsection \<open>Semaphores\<close>

text \<open>
  \<open>k_sem_take\<close> is a take that does not wait: whether the semaphore was taken, and the
  semaphore after it. A take that waits is a step that is possible only when this one succeeds.
\<close>

record 's sem_api =
  k_sem_take :: "'s \<Rightarrow> bool \<times> 's"
  k_sem_give :: "'s \<Rightarrow> 's"

locale binary_semaphore =
  fixes k :: "'s sem_api"
    and count :: "'s \<Rightarrow> nat"
  assumes take_available: "0 < count s \<Longrightarrow> fst (k_sem_take k s) \<and> count (snd (k_sem_take k s)) = count s - 1"
    and take_empty: "count s = 0 \<Longrightarrow> k_sem_take k s = (False, s)"
    and count_give: "count (k_sem_give k s) = 1"
    and count_le: "count s \<le> 1"
begin

lemma take_iff: "fst (k_sem_take k s) \<longleftrightarrow> count s = 1"
  using take_available [of s] take_empty [of s] count_le [of s] by (cases "count s") auto

lemma count_take: "count (snd (k_sem_take k s)) = 0"
  using take_available [of s] take_empty [of s] count_le [of s] by (cases "count s") auto

end

definition sim_sem :: "bool sem_api" where
  "sim_sem = \<lparr>k_sem_take = (\<lambda>s. (s, False)), k_sem_give = (\<lambda>s. True)\<rparr>"

interpretation sim_sem: binary_semaphore sim_sem "of_bool :: bool \<Rightarrow> nat"
  by unfold_locales (auto simp: sim_sem_def)

subsection \<open>Message queues\<close>

text \<open>\<open>k_msgq_put\<close> tells whether the message was queued; \<open>k_msgq_get\<close> is \<open>None\<close> on an empty queue.\<close>

record ('q, 'm) msgq_api =
  k_msgq_put :: "'m \<Rightarrow> 'q \<Rightarrow> bool \<times> 'q"
  k_msgq_get :: "'q \<Rightarrow> 'm option \<times> 'q"
  k_msgq_purge :: "'q \<Rightarrow> 'q"

locale message_queue =
  fixes mq :: "('q, 'm) msgq_api"
    and contents :: "'q \<Rightarrow> 'm list"
    and capacity :: nat
  assumes put_room: "length (contents q) < capacity \<Longrightarrow>
      fst (k_msgq_put mq m q) \<and> contents (snd (k_msgq_put mq m q)) = contents q @ [m]"
    and put_full: "capacity \<le> length (contents q) \<Longrightarrow> k_msgq_put mq m q = (False, q)"
    and get_head: "k_msgq_get mq q = (Some m, q') \<Longrightarrow> contents q = m # contents q'"
    and get_empty: "k_msgq_get mq q = (None, q') \<longleftrightarrow> contents q = [] \<and> q' = q"
    and purge: "contents (k_msgq_purge mq q) = []"
begin

lemma put_cases:
  obtains (queued) q' where "k_msgq_put mq m q = (True, q')" "contents q' = contents q @ [m]"
    | (full) "k_msgq_put mq m q = (False, q)" "capacity \<le> length (contents q)"
  using put_room [of q m] put_full [of q m] by (cases "length (contents q) < capacity"; cases "k_msgq_put mq m q") auto

end

definition sim_msgq :: "nat \<Rightarrow> ('m list, 'm) msgq_api" where
  "sim_msgq n = \<lparr>
     k_msgq_put = (\<lambda>m q. if length q < n then (True, q @ [m]) else (False, q)),
     k_msgq_get = (\<lambda>q. case q of [] \<Rightarrow> (None, []) | m # q' \<Rightarrow> (Some m, q')),
     k_msgq_purge = (\<lambda>q. [])\<rparr>"

lemma message_queue_sim: "message_queue (sim_msgq n) (\<lambda>q. q) n"
  by unfold_locales (auto simp: sim_msgq_def split: list.splits)

subsection \<open>Memory pools\<close>

text \<open>
  A memory slab or heap: \<open>pool_alloc\<close> gives the address of a block of the wanted size, or
  \<open>None\<close>; \<open>pool_init\<close> makes the whole pool free again. \<open>live\<close> are the blocks handed out. The
  effect of freeing a block that is not live is not documented, hence not stated.
\<close>

record 'b pool_api =
  pool_alloc :: "nat \<Rightarrow> 'b \<Rightarrow> nat option \<times> 'b"
  pool_free :: "nat \<Rightarrow> 'b \<Rightarrow> 'b"
  pool_init :: "'b \<Rightarrow> 'b"

locale memory_pool =
  fixes mp :: "'b pool_api"
    and live :: "'b \<Rightarrow> nat set"
  assumes alloc_some: "pool_alloc mp n p = (Some a, p') \<Longrightarrow> a \<notin> live p \<and> live p' = insert a (live p)"
    and alloc_none: "pool_alloc mp n p = (None, p') \<Longrightarrow> live p' = live p"
    and free_live: "a \<in> live p \<Longrightarrow> live (pool_free mp a p) = live p - {a}"
    and init_live: "live (pool_init mp p) = {}"

text \<open>A slab of \<open>n\<close> blocks: the state lists the blocks in use.\<close>

definition sim_pool :: "nat \<Rightarrow> nat list pool_api" where
  "sim_pool n = \<lparr>
     pool_alloc = (\<lambda>_ p. case filter (\<lambda>a. a \<notin> set p) [0..<n] of [] \<Rightarrow> (None, p) | a # _ \<Rightarrow> (Some a, a # p)),
     pool_free = (\<lambda>a p. removeAll a p),
     pool_init = (\<lambda>p. [])\<rparr>"

lemma memory_pool_sim: "memory_pool (sim_pool n) set"
proof
  fix k p a p'
  assume "pool_alloc (sim_pool n) k p = (Some a, p')"
  then obtain xs where f: "filter (\<lambda>a. a \<notin> set p) [0..<n] = a # xs" and p': "p' = a # p"
    by (auto simp: sim_pool_def split: list.splits)
  have "a \<in> set (filter (\<lambda>a. a \<notin> set p) [0..<n])" unfolding f by simp
  then show "a \<notin> set p \<and> set p' = insert a (set p)" using p' by simp
qed (auto simp: sim_pool_def split: list.splits)

interpretation sim_pool4: memory_pool "sim_pool 4" set
  by (rule memory_pool_sim)

interpretation sim_msgq4: message_queue "sim_msgq 4" "\<lambda>q. q" 4
  by (rule message_queue_sim)

end
