(* ===== verification/Health.thy ===== *)
theory Health
  imports Kernel
begin

text \<open>
  Health monitoring: the heartbeat and the ping of the security MCU
  (\<^verbatim>\<open>lib/health_monitoring\<close>, \<^verbatim>\<open>main_board/src/system/ping_sec.c\<close>), the table of component states
  (\<^verbatim>\<open>orb_state.c\<close>), the watchdog (\<^verbatim>\<open>lib/watchdog\<close>) and the battery-backed registers
  (\<^verbatim>\<open>lib/storage/backup_regs.c\<close>).
\<close>

subsection \<open>Heartbeat\<close>

text \<open>
  Where the monitoring thread is: it does not exist, waits for the semaphore until a deadline, is about
  to look at the delay, or has left its loop but not yet cleared \<^verbatim>\<open>thread_id\<close>.
\<close>

datatype hb_pc = HB_NONE | HB_CREATED | HB_WAITING nat | HB_CHECK | HB_LEFT

text \<open>
  \<open>hb_now\<close> is the time in seconds; \<open>hb_log\<close> has the calls of the timeout callback, newest first,
  each with the time, the last boom and its delay; \<open>last_boom\<close> is history as well.
\<close>

record heartbeat =
  global_delay_s :: nat
  hb_thread :: hb_pc
  heartbeat_sem :: bool
  heartbeat_timeout_cb :: "nat option"
  hb_now :: nat
  last_boom :: "nat \<times> nat"
  hb_log :: "(nat \<times> nat \<times> nat) list"

definition heartbeat_start :: "nat \<Rightarrow> heartbeat" where
  "heartbeat_start now = \<lparr>global_delay_s = 0, hb_thread = HB_NONE, heartbeat_sem = False,
     heartbeat_timeout_cb = None, hb_now = now, last_boom = (now, 0), hb_log = []\<rparr>"

definition timeout_default_handler :: nat where "timeout_default_handler = 0"

definition heartbeat_boom :: "nat \<Rightarrow> heartbeat \<Rightarrow> heartbeat" where
  "heartbeat_boom delay_s s =
    (let s1 = s\<lparr>global_delay_s := delay_s, last_boom := (hb_now s, delay_s)\<rparr>;
         s2 = (if hb_thread s1 = HB_NONE \<and> delay_s \<noteq> 0
               then s1\<lparr>hb_thread := HB_CREATED,
                       heartbeat_timeout_cb := (case heartbeat_timeout_cb s1 of
                          None \<Rightarrow> Some timeout_default_handler | Some cb \<Rightarrow> Some cb)\<rparr>
               else s1)
     in s2\<lparr>heartbeat_sem := True\<rparr>)"

definition heartbeat_register_cb :: "nat option \<Rightarrow> heartbeat \<Rightarrow> heartbeat" where
  "heartbeat_register_cb cb s = s\<lparr>heartbeat_timeout_cb :=
     (case cb of Some f \<Rightarrow> Some f | None \<Rightarrow> Some timeout_default_handler)\<rparr>"

text \<open>
  The next step of \<^verbatim>\<open>heartbeat_thread\<close>, or \<open>None\<close> while it has nothing to do. The call of
  the callback with the reset of the delay before it is one step.
\<close>

definition heartbeat_thread :: "heartbeat \<Rightarrow> heartbeat option" where
  "heartbeat_thread s =
    (case hb_thread s of
       HB_NONE \<Rightarrow> None
     | HB_CREATED \<Rightarrow> Some (s\<lparr>hb_thread := HB_WAITING (hb_now s + global_delay_s s)\<rparr>)
     | HB_WAITING deadline \<Rightarrow>
         if heartbeat_sem s then Some (s\<lparr>heartbeat_sem := False, hb_thread := HB_CHECK\<rparr>)
         else if deadline \<le> hb_now s
         then Some (s\<lparr>global_delay_s := 0, hb_thread := HB_CHECK, hb_log := (hb_now s, last_boom s) # hb_log s\<rparr>)
         else None
     | HB_CHECK \<Rightarrow>
         if global_delay_s s = 0 then Some (s\<lparr>hb_thread := HB_LEFT\<rparr>)
         else Some (s\<lparr>hb_thread := HB_WAITING (hb_now s + global_delay_s s)\<rparr>)
     | HB_LEFT \<Rightarrow> Some (s\<lparr>hb_thread := HB_NONE\<rparr>))"

text \<open>
  The system: calls from other threads at any point, and time that passes when the thread
  has nothing to do. \<open>meets\<close> tells whether a boom may come when the thread has left its loop.
\<close>

inductive heartbeat_step :: "bool \<Rightarrow> heartbeat \<Rightarrow> heartbeat \<Rightarrow> bool" for meets where
  hb_boom: "hb_thread s = HB_LEFT \<longrightarrow> meets \<Longrightarrow> heartbeat_step meets s (heartbeat_boom d s)"
| hb_register: "heartbeat_step meets s (heartbeat_register_cb cb s)"
| hb_turn: "heartbeat_thread s = Some s' \<Longrightarrow> heartbeat_step meets s s'"
| hb_tick: "heartbeat_thread s = None \<Longrightarrow> heartbeat_step meets s (s\<lparr>hb_now := Suc (hb_now s)\<rparr>)"

inductive_cases heartbeat_stepE: "heartbeat_step meets s s'"

abbreviation heartbeat_reaches :: "bool \<Rightarrow> heartbeat \<Rightarrow> heartbeat \<Rightarrow> bool" where
  "heartbeat_reaches meets \<equiv> (heartbeat_step meets)\<^sup>*\<^sup>*"

text \<open>
  The deadline that counts is the last boom and its delay; while a boom is not yet seen
  no time passes.
\<close>

definition heartbeat_inv :: "heartbeat \<Rightarrow> bool" where
  "heartbeat_inv s \<longleftrightarrow>
     (0 < global_delay_s s \<longrightarrow> global_delay_s s = snd (last_boom s)) \<and>
     fst (last_boom s) \<le> hb_now s \<and>
     (case hb_thread s of
        HB_NONE \<Rightarrow> global_delay_s s = 0
      | HB_CREATED \<Rightarrow> fst (last_boom s) = hb_now s \<and> heartbeat_sem s \<and> heartbeat_timeout_cb s \<noteq> None
      | HB_WAITING deadline \<Rightarrow> heartbeat_timeout_cb s \<noteq> None \<and>
          (if heartbeat_sem s then fst (last_boom s) = hb_now s
           else 0 < global_delay_s s \<and> hb_now s \<le> deadline \<and> deadline = fst (last_boom s) + snd (last_boom s))
      | HB_CHECK \<Rightarrow> heartbeat_timeout_cb s \<noteq> None \<and> (0 < global_delay_s s \<longrightarrow> fst (last_boom s) = hb_now s)
      | HB_LEFT \<Rightarrow> global_delay_s s = 0) \<and>
     (\<forall>e\<in>set (hb_log s). 0 < snd (snd e) \<and> fst e = fst (snd e) + snd (snd e))"

lemma heartbeat_inv_start: "heartbeat_inv (heartbeat_start now)"
  by (simp add: heartbeat_inv_def heartbeat_start_def)

lemma heartbeat_inv_boom: "heartbeat_inv s \<Longrightarrow> hb_thread s \<noteq> HB_LEFT \<Longrightarrow> heartbeat_inv (heartbeat_boom d s)"
  by (cases "hb_thread s") (auto simp: heartbeat_inv_def heartbeat_boom_def Let_def split: option.splits)

lemma heartbeat_inv_turn: "heartbeat_inv s \<Longrightarrow> heartbeat_thread s = Some s' \<Longrightarrow> heartbeat_inv s'"
  by (cases "hb_thread s") (auto simp: heartbeat_inv_def heartbeat_thread_def split: if_splits)

lemma heartbeat_inv_tick: "heartbeat_inv s \<Longrightarrow> heartbeat_thread s = None \<Longrightarrow> heartbeat_inv (s\<lparr>hb_now := Suc (hb_now s)\<rparr>)"
  by (cases "hb_thread s") (auto simp: heartbeat_inv_def heartbeat_thread_def split: if_splits)

lemma heartbeat_inv_step: "heartbeat_inv s \<Longrightarrow> heartbeat_step False s s' \<Longrightarrow> heartbeat_inv s'"
  by (erule heartbeat_stepE)
    (auto intro: heartbeat_inv_boom heartbeat_inv_turn heartbeat_inv_tick,
     auto simp: heartbeat_inv_def heartbeat_register_cb_def split: hb_pc.splits option.splits)

lemma heartbeat_inv_reach: "heartbeat_reaches False (heartbeat_start now) s \<Longrightarrow> heartbeat_inv s"
  by (induction rule: rtranclp_induct) (auto intro: heartbeat_inv_start heartbeat_inv_step)

text \<open>
  In every order of calls, thread steps and passing seconds in which no boom meets the
  thread between its loop and its end, the callback is called exactly when the
  delay of the last boom has passed, never for a delay of 0; and while monitoring is on that time has not yet gone by, so
  a silent remote is always noticed.
\<close>

theorem heartbeat_on_time:
  assumes "heartbeat_reaches False (heartbeat_start now) s"
  shows "(\<forall>(t, b, d)\<in>set (hb_log s). 0 < d \<and> t = b + d) \<and>
    (global_delay_s s = 0 \<or>
      global_delay_s s = snd (last_boom s) \<and> hb_now s \<le> fst (last_boom s) + global_delay_s s)"
proof -
  have inv: "heartbeat_inv s" by (rule heartbeat_inv_reach [OF assms])
  then show ?thesis by (cases "hb_thread s") (auto simp: heartbeat_inv_def split: if_splits)
qed

text \<open>A boom of two seconds, and three seconds without another.\<close>

lemma heartbeat_reaches_turn: "heartbeat_thread s = Some s' \<Longrightarrow> heartbeat_reaches m t s \<Longrightarrow> heartbeat_reaches m t s'"
  by (rule rtranclp.rtrancl_into_rtrancl) (auto intro: hb_turn)

lemma heartbeat_reaches_tick:
  "heartbeat_thread s = None \<Longrightarrow> heartbeat_reaches m t s \<Longrightarrow> s' = s\<lparr>hb_now := Suc (hb_now s)\<rparr> \<Longrightarrow> heartbeat_reaches m t s'"
  by (rule rtranclp.rtrancl_into_rtrancl) (auto intro: hb_tick)

lemma heartbeat_reaches_boom:
  "hb_thread s = HB_LEFT \<longrightarrow> m \<Longrightarrow> heartbeat_reaches m t s \<Longrightarrow> s' = heartbeat_boom d s \<Longrightarrow> heartbeat_reaches m t s'"
  by (rule rtranclp.rtrancl_into_rtrancl) (auto intro: hb_boom)

abbreviation hb_state :: "nat \<Rightarrow> hb_pc \<Rightarrow> bool \<Rightarrow> nat \<Rightarrow> (nat \<times> nat \<times> nat) list \<Rightarrow> heartbeat" where
  "hb_state d pc sem now l \<equiv> \<lparr>global_delay_s = d, hb_thread = pc, heartbeat_sem = sem,
     heartbeat_timeout_cb = Some 0, hb_now = now, last_boom = (0, 2), hb_log = l\<rparr>"

lemma heartbeat_example: "heartbeat_reaches False (heartbeat_start 0) (hb_state 0 HB_LEFT False 2 [(2, 0, 2)])"
proof -
  note [simp] = numeral_2_eq_2 timeout_default_handler_def heartbeat_thread_def heartbeat_boom_def heartbeat_start_def Let_def
  have "heartbeat_reaches False (heartbeat_start 0) (hb_state 2 HB_CREATED True 0 [])"
    by (rule heartbeat_reaches_boom [where s = "heartbeat_start 0" and d = 2]) simp_all
  from heartbeat_reaches_turn [OF _ this] have "heartbeat_reaches False (heartbeat_start 0) (hb_state 2 (HB_WAITING 2) True 0 [])"
    by simp
  from heartbeat_reaches_turn [OF _ this] have "heartbeat_reaches False (heartbeat_start 0) (hb_state 2 HB_CHECK False 0 [])"
    by simp
  from heartbeat_reaches_turn [OF _ this] have "heartbeat_reaches False (heartbeat_start 0) (hb_state 2 (HB_WAITING 2) False 0 [])"
    by simp
  from heartbeat_reaches_tick [OF _ this] have "heartbeat_reaches False (heartbeat_start 0) (hb_state 2 (HB_WAITING 2) False 1 [])"
    by simp
  from heartbeat_reaches_tick [OF _ this] have "heartbeat_reaches False (heartbeat_start 0) (hb_state 2 (HB_WAITING 2) False 2 [])"
    by simp
  from heartbeat_reaches_turn [OF _ this] have "heartbeat_reaches False (heartbeat_start 0) (hb_state 0 HB_CHECK False 2 [(2, 0, 2)])"
    by simp
  from heartbeat_reaches_turn [OF _ this] show ?thesis by simp
qed

lemma heartbeat_on_time_witness:
  "hb_log (hb_state 0 HB_LEFT False 2 [(2, 0, 2)]) = [(2, 0, 2)] \<and> (0 :: nat) < 2 \<and> (2 :: nat) = 0 + 2"
  using heartbeat_on_time [OF heartbeat_example] by simp

text \<open>
  A boom that meets the thread after its loop and before it clears \<^verbatim>\<open>thread_id\<close> starts nothing: the
  delay is set, but the thread ends, and however many seconds pass no callback is called until another boom.
\<close>

theorem heartbeat_boom_lost:
  assumes "hb_thread s = HB_LEFT" and "0 < d"
  shows "\<exists>s1. heartbeat_thread (heartbeat_boom d s) = Some s1 \<and> global_delay_s s1 = d \<and>
    (\<forall>n. heartbeat_thread (s1\<lparr>hb_now := hb_now s1 + n\<rparr>) = None)"
  using assms by (simp add: heartbeat_thread_def heartbeat_boom_def)

lemma heartbeat_boom_lost_witness:
  "\<exists>s1. heartbeat_thread (heartbeat_boom 5 (hb_state 0 HB_LEFT False 2 [(2, 0, 2)])) = Some s1 \<and> global_delay_s s1 = 5 \<and>
    (\<forall>n. heartbeat_thread (s1\<lparr>hb_now := hb_now s1 + n\<rparr>) = None)"
  by (rule heartbeat_boom_lost) simp_all

subsection \<open>Ping and pong with the security MCU\<close>

record ping_msg =
  counter :: u32
  test :: "u8 list"

datatype ping_state_t = PING_STATE_IDLE | PING_STATE_WAITING_FOR_PONG | PING_STATE_PONG_RECEIVED

record ping =
  ping_last_sent_counter :: u32
  ping_state :: ping_state_t
  ping_out :: "ping_msg list"

definition ping_test_bytes :: "u8 list" where
  "ping_test_bytes = [0x48, 0x65, 0x6c, 0x6c, 0x6f]"

text \<open>
  \<open>send_cb\<close> is what the registered function returns for a message, \<open>None\<close> when none is registered; \<open>tmax\<close> the
  size of the test field and \<open>rnd\<close> the next value of \<^verbatim>\<open>rand\<close>. \<open>ping_out\<close> lists what was passed to
  the function successfully, newest first.
\<close>

type_synonym send_fn = "(ping_msg \<Rightarrow> int) option"

definition ping_send :: "(ping_msg \<Rightarrow> int) \<Rightarrow> ping_msg \<Rightarrow> ping \<Rightarrow> int \<times> ping" where
  "ping_send send_cb m p =
    (let ret = send_cb m in (ret, if ret = rc RET_SUCCESS then p\<lparr>ping_out := m # ping_out p\<rparr> else p))"

definition ping_pong_send_mcu :: "send_fn \<Rightarrow> nat \<Rightarrow> nat \<Rightarrow> ping_msg option \<Rightarrow> ping \<Rightarrow> int \<times> ping" where
  "ping_pong_send_mcu send_cb tmax rnd m p =
    (if m = None \<and> ping_state p = PING_STATE_WAITING_FOR_PONG then (rc RET_ERROR_BUSY, p)
     else case send_cb of
       None \<Rightarrow> (rc RET_ERROR_NOT_INITIALIZED, p)
     | Some send \<Rightarrow>
         (case m of
            Some q \<Rightarrow>
              if tmax < length (test q) then (rc RET_ERROR_INVALID_PARAM, p)
              else ping_send send \<lparr>counter = counter q, test = test q\<rparr> p
          | None \<Rightarrow>
              let p1 = (if ping_state p = PING_STATE_PONG_RECEIVED then p\<lparr>ping_state := PING_STATE_IDLE\<rparr> else p);
                  c = word_of_nat (rnd mod (2 ^ 32 - 1));
                  previous_state = ping_state p1;
                  p2 = p1\<lparr>ping_state := PING_STATE_WAITING_FOR_PONG, ping_last_sent_counter := c\<rparr>;
                  (ret, p3) = ping_send send \<lparr>counter = c, test = ping_test_bytes\<rparr> p2
              in if ret \<noteq> rc RET_SUCCESS then (ret, p3\<lparr>ping_state := previous_state\<rparr>) else (ret, p3)))"

definition ping_received :: "send_fn \<Rightarrow> nat \<Rightarrow> ping_msg option \<Rightarrow> ping \<Rightarrow> int \<times> ping" where
  "ping_received send_cb tmax m p =
    (case m of
       None \<Rightarrow> (rc RET_ERROR_INVALID_PARAM, p)
     | Some q \<Rightarrow>
         if ping_state p = PING_STATE_WAITING_FOR_PONG \<and> counter q = ping_last_sent_counter p
         then if test q \<noteq> ping_test_bytes then (rc RET_ERROR_INVALID_PARAM, p)
              else (rc RET_SUCCESS, p\<lparr>ping_state := PING_STATE_PONG_RECEIVED\<rparr>)
         else ping_pong_send_mcu send_cb tmax 0 (Some q) p)"

definition pong_received :: "ping \<Rightarrow> bool" where
  "pong_received p \<longleftrightarrow> ping_state p = PING_STATE_PONG_RECEIVED"

definition ping_pong_reset :: "ping \<Rightarrow> ping" where
  "ping_pong_reset p = p\<lparr>ping_state := PING_STATE_IDLE\<rparr>"

text \<open>
  \<^verbatim>\<open>ping_sec\<close>: \<open>sem\<close> is the semaphore, \<open>ms\<close> are the messages received from
  the security MCU during the 500 ms of the wait. The last component is the state recorded for the bus, if one is.
\<close>

record ping_sec =
  ping_sem :: bool
  ping_sec_ping :: ping
  canbus_sec :: ret_code_t

definition pings_received :: "send_fn \<Rightarrow> nat \<Rightarrow> ping_msg list \<Rightarrow> ping \<Rightarrow> ping" where
  "pings_received send_cb tmax ms p = fold (\<lambda>m p. snd (ping_received send_cb tmax (Some m) p)) ms p"

definition ping_sec :: "send_fn \<Rightarrow> nat \<Rightarrow> nat \<Rightarrow> ping_msg list \<Rightarrow> ping_sec \<Rightarrow> int \<times> ping_sec" where
  "ping_sec send_cb tmax rnd ms s =
    (if \<not> ping_sem s then (rc RET_ERROR_BUSY, s)
     else
      let s1 = s\<lparr>ping_sem := False, ping_sec_ping := ping_pong_reset (ping_sec_ping s)\<rparr>;
          (ret, p) = ping_pong_send_mcu send_cb tmax rnd None (ping_sec_ping s1);
          s2 = s1\<lparr>ping_sec_ping := p\<rparr>
      in if ret \<noteq> 0 then (ret, s2\<lparr>canbus_sec := RET_ERROR_INVALID_STATE, ping_sem := True\<rparr>)
         else
          let s3 = s2\<lparr>ping_sec_ping := pings_received send_cb tmax ms p\<rparr>
          in if pong_received (ping_sec_ping s3)
             then (rc RET_SUCCESS, s3\<lparr>canbus_sec := RET_SUCCESS, ping_sem := True\<rparr>)
             else (rc RET_ERROR_TIMEOUT, s3\<lparr>canbus_sec := RET_ERROR_TIMEOUT, ping_sem := True\<rparr>))"

lemma ping_send_state: "ping_state (snd (ping_send f m p)) = ping_state p \<and>
    ping_last_sent_counter (snd (ping_send f m p)) = ping_last_sent_counter p"
  by (simp add: ping_send_def Let_def)

lemma pong_send_state: "ping_state (snd (ping_pong_send_mcu f tmax r (Some q) p)) = ping_state p \<and>
    ping_last_sent_counter (snd (ping_pong_send_mcu f tmax r (Some q) p)) = ping_last_sent_counter p"
  by (cases f) (simp_all add: ping_pong_send_mcu_def ping_send_state)

text \<open>Waiting ends with the first reply that has the counter and the bytes of the ping.\<close>

lemma pings_received_waiting:
  "ping_state p = PING_STATE_WAITING_FOR_PONG \<Longrightarrow> ping_last_sent_counter p = c \<Longrightarrow>
    pong_received (pings_received f tmax ms p) \<longleftrightarrow> \<lparr>counter = c, test = ping_test_bytes\<rparr> \<in> set ms"
proof (induction ms arbitrary: p)
  case (Cons m ms)
  have got: "ping_state p' = PING_STATE_PONG_RECEIVED \<Longrightarrow> pong_received (pings_received f tmax ms p')" for p' and ms :: "ping_msg list"
    by (induction ms arbitrary: p') (simp_all add: pings_received_def pong_received_def ping_received_def pong_send_state)
  have m: "m = \<lparr>counter = c, test = ping_test_bytes\<rparr> \<longleftrightarrow> counter m = c \<and> test m = ping_test_bytes"
    by (cases m) auto
  have fold: "pings_received f tmax (m # ms) p = pings_received f tmax ms (snd (ping_received f tmax (Some m) p))"
    by (simp add: pings_received_def)
  show ?case
  proof (cases "counter m = c \<and> test m = ping_test_bytes")
    case True
    then show ?thesis using Cons.prems m by (simp add: fold ping_received_def got)
  next
    case False
    have "ping_state (snd (ping_received f tmax (Some m) p)) = PING_STATE_WAITING_FOR_PONG"
      "ping_last_sent_counter (snd (ping_received f tmax (Some m) p)) = c"
      using False Cons.prems by (auto simp: ping_received_def pong_send_state)
    from Cons.IH [OF this] show ?thesis using False m by (auto simp: fold)
  qed
qed (simp add: pings_received_def pong_received_def)

text \<open>The message of a new ping.\<close>

abbreviation new_ping :: "nat \<Rightarrow> ping_msg" where
  "new_ping rnd \<equiv> \<lparr>counter = word_of_nat (rnd mod (2 ^ 32 - 1)), test = ping_test_bytes\<rparr>"

text \<open>
  Pinging the security MCU succeeds exactly when no other ping is under way, the ping can be
  sent and a message with its counter and its bytes arrives during the wait, whatever
  was received before and whatever else arrives; the recorded state of the bus tells the outcome and the semaphore is free again.
\<close>

theorem ping_sec_result:
  assumes "ping_sem s"
  shows "ping_sem (snd (ping_sec send_cb tmax rnd ms s)) \<and>
    (case send_cb of
       None \<Rightarrow> fst (ping_sec send_cb tmax rnd ms s) = rc RET_ERROR_NOT_INITIALIZED
     | Some send \<Rightarrow>
         if send (new_ping rnd) \<noteq> 0
         then fst (ping_sec send_cb tmax rnd ms s) = send (new_ping rnd) \<and>
              canbus_sec (snd (ping_sec send_cb tmax rnd ms s)) = RET_ERROR_INVALID_STATE \<and>
              ping_state (ping_sec_ping (snd (ping_sec send_cb tmax rnd ms s))) = PING_STATE_IDLE
         else (let r = (if new_ping rnd \<in> set ms then RET_SUCCESS else RET_ERROR_TIMEOUT)
               in fst (ping_sec send_cb tmax rnd ms s) = rc r \<and> canbus_sec (snd (ping_sec send_cb tmax rnd ms s)) = r))"
proof (cases send_cb)
  case None
  then show ?thesis using assms by (simp add: ping_sec_def ping_pong_send_mcu_def ping_pong_reset_def)
next
  case (Some send)
  let ?start = "ping_pong_reset (ping_sec_ping s)"
  let ?p = "?start\<lparr>ping_state := PING_STATE_WAITING_FOR_PONG, ping_last_sent_counter := counter (new_ping rnd)\<rparr>"
  have send: "ping_pong_send_mcu send_cb tmax rnd None ?start =
      (if send (new_ping rnd) \<noteq> 0 then (send (new_ping rnd), ?p\<lparr>ping_state := PING_STATE_IDLE\<rparr>)
       else (0, ?p\<lparr>ping_out := new_ping rnd # ping_out ?p\<rparr>))"
    by (simp add: Some ping_pong_send_mcu_def ping_pong_reset_def ping_send_def Let_def)
  show ?thesis
  proof (cases "send (new_ping rnd) = 0")
    case False
    then have "ping_sec send_cb tmax rnd ms s = (send (new_ping rnd), s\<lparr>ping_sem := True,
        ping_sec_ping := ?p\<lparr>ping_state := PING_STATE_IDLE\<rparr>, canbus_sec := RET_ERROR_INVALID_STATE\<rparr>)"
      using assms send by (simp add: ping_sec_def)
    then show ?thesis using False by (simp add: Some)
  next
    case True
    let ?q = "pings_received send_cb tmax ms (?p\<lparr>ping_out := new_ping rnd # ping_out ?p\<rparr>)"
    have "pong_received ?q \<longleftrightarrow> new_ping rnd \<in> set ms" by (rule pings_received_waiting) simp_all
    moreover have "ping_sec send_cb tmax rnd ms s = (let r = (if pong_received ?q then RET_SUCCESS else RET_ERROR_TIMEOUT)
        in (rc r, s\<lparr>ping_sem := True, ping_sec_ping := ?q, canbus_sec := r\<rparr>))"
      using assms send True by (simp add: ping_sec_def Let_def)
    ultimately show ?thesis using True by (simp add: Some Let_def)
  qed
qed

definition ping_example :: ping_sec where
  "ping_example = \<lparr>ping_sem = True, ping_sec_ping = \<lparr>ping_last_sent_counter = 3, ping_state = PING_STATE_PONG_RECEIVED, ping_out = []\<rparr>,
     canbus_sec = RET_ERROR_NOT_INITIALIZED\<rparr>"

lemma ping_sec_result_witness:
  "fst (ping_sec (Some (\<lambda>_. 0)) 32 7 [\<lparr>counter = 3, test = ping_test_bytes\<rparr>] ping_example) = rc RET_ERROR_TIMEOUT"
  using ping_sec_result [of ping_example "Some (\<lambda>_. 0)" 32 7 "[\<lparr>counter = 3, test = ping_test_bytes\<rparr>]"]
  by (simp add: ping_example_def Let_def)

subsection \<open>States of the components\<close>

definition ORB_STATE_MESSAGE_MAX_LENGTH :: nat where "ORB_STATE_MESSAGE_MAX_LENGTH = 36"

text \<open>Characters are bytes; a message buffer has the text before the first zero byte.\<close>

record orb_state_dynamic_data =
  status :: ret_code_t
  message :: "u8 list"

record orb_state_const_data =
  name :: string
  dynamic_data :: orb_state_dynamic_data

text \<open>
  The registered states are the section of the linker, a list; \<open>data_ptr\<close> is the caller's pointer,
  \<open>None\<close> for NULL, and at the end it points behind the last state.
\<close>

definition orb_state_iter :: "orb_state_const_data list \<Rightarrow> nat option \<Rightarrow> bool \<times> nat option" where
  "orb_state_iter states data_ptr =
    (case data_ptr of
       None \<Rightarrow> (True, Some 0)
     | Some i \<Rightarrow> if length states \<le> i + 1 then (False, Some (i + 1)) else (True, Some (i + 1)))"

text \<open>The loop over the states; \<open>None\<close> stands for an access outside the section.\<close>

function orb_state_init_loop :: "nat option \<Rightarrow> orb_state_const_data list \<Rightarrow> orb_state_const_data list option" where
  "orb_state_init_loop data_ptr states =
    (let (more, data_ptr') = orb_state_iter states data_ptr in
     if \<not> more then Some states
     else case data_ptr' of
       None \<Rightarrow> None
     | Some i \<Rightarrow>
         if length states \<le> i then None
         else let d = dynamic_data (states ! i);
                  d' = d\<lparr>status := RET_ERROR_NOT_INITIALIZED,
                         message := mem_put 0 (replicate ORB_STATE_MESSAGE_MAX_LENGTH 0) (message d)\<rparr>
              in orb_state_init_loop (Some i) (states[i := (states ! i)\<lparr>dynamic_data := d'\<rparr>]))"
  by pat_completeness auto
termination
  by (relation "measure (\<lambda>(p, states). case p of None \<Rightarrow> length states + 1 | Some i \<Rightarrow> length states - i)")
    (auto simp: orb_state_iter_def split: option.splits if_splits)

declare orb_state_init_loop.simps [simp del]

definition orb_state_init :: "orb_state_const_data list \<Rightarrow> orb_state_const_data list option" where
  "orb_state_init states = orb_state_init_loop None states"


text \<open>
  \<open>fmt\<close> is \<open>None\<close> for a null format, else what \<^verbatim>\<open>vsnprintf\<close> makes of it: a
  negative result or the whole text, of which it stores what fits.
\<close>

definition orb_state_set_impl ::
    "ret_code_t \<Rightarrow> (int + u8 list) option \<Rightarrow> orb_state_dynamic_data option \<Rightarrow> int \<times> orb_state_dynamic_data option" where
  "orb_state_set_impl state fmt data =
    (case data of
       None \<Rightarrow> (- ENXIO, None)
     | Some d \<Rightarrow>
         let d1 = (if status d \<noteq> state then d\<lparr>status := state\<rparr> else d)
         in case fmt of
              None \<Rightarrow> (0, Some (d1\<lparr>message := mem_put 0 [0] (message d1)\<rparr>))
            | Some (Inl _) \<Rightarrow> (- EIO, Some (d1\<lparr>message := mem_put 0 [0] (message d1)\<rparr>))
            | Some (Inr chars) \<Rightarrow>
                (0, Some (d1\<lparr>message := mem_put 0 (take (ORB_STATE_MESSAGE_MAX_LENGTH - 1) chars @ [0]) (message d1)\<rparr>)))"

definition message_text :: "orb_state_dynamic_data \<Rightarrow> u8 list" where
  "message_text d = takeWhile (\<lambda>c. c \<noteq> 0) (message d)"

definition state_ok :: "orb_state_dynamic_data \<Rightarrow> bool" where
  "state_ok d \<longleftrightarrow> length (message d) = ORB_STATE_MESSAGE_MAX_LENGTH \<and> 0 \<in> set (message d)"

text \<open>The initial data of a state.\<close>

definition fresh_state :: "orb_state_const_data \<Rightarrow> orb_state_const_data" where
  "fresh_state c = c\<lparr>dynamic_data := \<lparr>status = RET_ERROR_NOT_INITIALIZED, message = replicate ORB_STATE_MESSAGE_MAX_LENGTH 0\<rparr>\<rparr>"

lemma orb_state_init_loop_from:
  assumes "\<forall>c\<in>set states. length (message (dynamic_data c)) = ORB_STATE_MESSAGE_MAX_LENGTH"
  shows "length (xs @ states) = n \<Longrightarrow> xs \<noteq> [] \<Longrightarrow>
    orb_state_init_loop (Some (length xs - 1)) (xs @ states) = Some (xs @ map fresh_state states)"
  using assms
proof (induction states arbitrary: xs)
  case Nil
  then obtain x ys where "xs = x # ys" by (cases xs) auto
  then show ?case by (subst orb_state_init_loop.simps) (simp add: orb_state_iter_def)
next
  case (Cons c cs)
  have "orb_state_init_loop (Some (length xs - 1)) (xs @ c # cs) =
      orb_state_init_loop (Some (length xs)) (xs @ fresh_state c # cs)"
    using Cons.prems by (subst orb_state_init_loop.simps)
      (cases "dynamic_data c", simp add: orb_state_iter_def fresh_state_def Let_def)
  also have "\<dots> = orb_state_init_loop (Some (length (xs @ [fresh_state c]) - 1)) ((xs @ [fresh_state c]) @ cs)"
    by simp
  also have "\<dots> = Some ((xs @ [fresh_state c]) @ map fresh_state cs)"
    using Cons.prems by (intro Cons.IH) simp_all
  finally show ?case by simp
qed

lemma orb_state_init_all:
  assumes "states \<noteq> []" and "\<forall>c\<in>set states. length (message (dynamic_data c)) = ORB_STATE_MESSAGE_MAX_LENGTH"
  shows "orb_state_init states = Some (map fresh_state states)"
proof -
  obtain c cs where s: "states = c # cs" using assms(1) by (cases states) auto
  have "orb_state_init states = orb_state_init_loop (Some 0) ([fresh_state c] @ cs)"
    using assms(2) unfolding orb_state_init_def s
    by (subst orb_state_init_loop.simps) (cases "dynamic_data c", simp add: orb_state_iter_def fresh_state_def Let_def)
  also have "\<dots> = Some ([fresh_state c] @ map fresh_state cs)"
    using orb_state_init_loop_from [of cs "[fresh_state c]"] assms(2) s by simp
  finally show ?thesis by (simp add: s)
qed

lemma orb_state_init_none: "orb_state_init [] = None"
  unfolding orb_state_init_def by (subst orb_state_init_loop.simps) (simp add: orb_state_iter_def)

lemma takeWhile_text: "0 \<notin> set chars \<Longrightarrow> takeWhile (\<lambda>c. c \<noteq> 0) (chars @ 0 # rest) = (chars :: u8 list)"
  by (induction chars) auto

lemma orb_state_message:
  assumes "state_ok d" and "0 \<notin> set chars"
  shows "\<exists>d'. orb_state_set_impl state (Some (Inr chars)) (Some d) = (0, Some d') \<and> state_ok d' \<and>
    status d' = state \<and> message_text d' = take 35 chars"
proof -
  let ?d = "d\<lparr>status := state, message := mem_put 0 (take 35 chars @ [0]) (message d)\<rparr>"
  have s: "orb_state_set_impl state (Some (Inr chars)) (Some d) = (0, Some ?d)"
    by (cases d) (simp add: orb_state_set_impl_def ORB_STATE_MESSAGE_MAX_LENGTH_def)
  have "message_text ?d = take 35 chars"
    using takeWhile_text [of "take 35 chars"] assms(2) by (auto simp: message_text_def mem_put_def dest: in_set_takeD)
  moreover have "state_ok ?d"
    using assms(1) by (simp add: state_ok_def ORB_STATE_MESSAGE_MAX_LENGTH_def mem_put_def)
  ultimately show ?thesis using s by (intro exI [of _ ?d]) simp
qed

subsection \<open>Watchdog\<close>

record watchdog =
  wdt_channel_id :: int
  feed :: bool
  watchdog_thread_runs :: bool
  wdt_feeds :: nat

definition watchdog_start :: watchdog where
  "watchdog_start = \<lparr>wdt_channel_id = -1, feed = True, watchdog_thread_runs = False, wdt_feeds = 0\<rparr>"

text \<open>\<open>ready\<close>, \<open>install\<close> and \<open>setup\<close> are what the calls of the driver return.\<close>

definition watchdog_init :: "bool \<Rightarrow> int \<Rightarrow> int \<Rightarrow> watchdog \<Rightarrow> ret_code_t \<times> watchdog" where
  "watchdog_init ready install setup s =
    (if \<not> ready then (RET_ERROR_NOT_INITIALIZED, s)
     else if 0 \<le> wdt_channel_id s then (RET_ERROR_ALREADY_INITIALIZED, s)
     else let s1 = s\<lparr>wdt_channel_id := install\<rparr> in
       if wdt_channel_id s1 < 0 then (RET_ERROR_NOT_INITIALIZED, s1)
       else if setup < 0 then (RET_ERROR_NOT_INITIALIZED, s1)
       else (RET_SUCCESS, s1\<lparr>watchdog_thread_runs := True\<rparr>))"

definition watchdog_stop_feed :: "watchdog \<Rightarrow> watchdog" where
  "watchdog_stop_feed s = s\<lparr>feed := False\<rparr>"

text \<open>A turn of the thread; \<open>checks\<close> is the result of \<^verbatim>\<open>watchdog_perform_checks\<close>.\<close>

definition watchdog_thread :: "bool \<Rightarrow> watchdog \<Rightarrow> watchdog" where
  "watchdog_thread checks s =
    (if \<not> watchdog_thread_runs s then s
     else if 0 \<le> wdt_channel_id s
     then (if feed s \<and> checks = True then s\<lparr>wdt_feeds := wdt_feeds s + 1\<rparr> else s)
     else s\<lparr>watchdog_thread_runs := False\<rparr>)"

datatype watchdog_op = WD_INIT bool int int | WD_STOP | WD_TURN bool

fun watchdog_do :: "watchdog_op \<Rightarrow> watchdog \<Rightarrow> watchdog" where
  "watchdog_do (WD_INIT ready install setup) s = snd (watchdog_init ready install setup s)"
| "watchdog_do WD_STOP s = watchdog_stop_feed s"
| "watchdog_do (WD_TURN checks) s = watchdog_thread checks s"

text \<open>
  After the set-up failed the channel stays recorded, so that no later initialisation starts
  the thread: the watchdog is not fed.
\<close>

lemma watchdog_setup_fails:
  assumes "wdt_channel_id s < 0" "\<not> watchdog_thread_runs s" and "0 \<le> channel" "setup < 0"
  shows "wdt_feeds (fold watchdog_do ops (snd (watchdog_init True channel setup s))) = wdt_feeds s"
proof -
  have "0 \<le> wdt_channel_id t \<Longrightarrow> \<not> watchdog_thread_runs t \<Longrightarrow> wdt_feeds (fold watchdog_do ops t) = wdt_feeds t" for t
  proof (induction ops arbitrary: t)
    case (Cons x ops)
    then show ?case
      by (cases x) (simp_all add: watchdog_init_def watchdog_stop_feed_def watchdog_thread_def)
  qed simp
  then show ?thesis using assms by (simp add: watchdog_init_def)
qed

text \<open>Once feeding has been stopped nothing feeds the watchdog again.\<close>

lemma watchdog_stopped: "\<not> feed s \<Longrightarrow> wdt_feeds (fold watchdog_do ops s) = wdt_feeds s"
proof (induction ops arbitrary: s)
  case (Cons x ops)
  then show ?case
    by (cases x) (auto simp: watchdog_init_def watchdog_stop_feed_def watchdog_thread_def Let_def)
qed simp

subsection \<open>Battery-backed registers\<close>


text \<open>
  \<open>bb_size\<close> is the result and the size \<^verbatim>\<open>bbram_get_size\<close> returns; \<open>bb_read\<close> and \<open>bb_write\<close>
  are the other functions of the driver. \<open>mem\<close> is the memory from the caller's pointer on. The number of bytes read is
  the size of a pointer.
\<close>

definition backup_regs_read_byte :: "int \<times> nat \<Rightarrow> (nat \<Rightarrow> nat \<Rightarrow> int \<times> u8 list) \<Rightarrow> nat \<Rightarrow> u8 list \<Rightarrow> int \<times> u8 list" where
  "backup_regs_read_byte bb_size bb_read offset mem =
    (if fst bb_size = 0 \<and> snd bb_size \<le> offset then (- EINVAL, mem)
     else let (ret, bytes) = bb_read offset 4 in (ret, mem_put 0 bytes mem))"

definition backup_regs_write_byte :: "int \<times> nat \<Rightarrow> (nat \<Rightarrow> u8 list \<Rightarrow> 'd \<Rightarrow> int \<times> 'd) \<Rightarrow> nat \<Rightarrow> u8 \<Rightarrow> 'd \<Rightarrow> int \<times> 'd" where
  "backup_regs_write_byte bb_size bb_write offset data dev =
    (if fst bb_size = 0 \<and> snd bb_size \<le> offset then (- EINVAL, dev) else bb_write offset [data] dev)"

text \<open>The driver of registers that are a list of bytes.\<close>

definition sim_bbram_read :: "u8 list \<Rightarrow> nat \<Rightarrow> nat \<Rightarrow> int \<times> u8 list" where
  "sim_bbram_read regs offset n = (if n = 0 \<or> length regs < offset + n then (-14, []) else (0, mem_get offset n regs))"

definition sim_bbram_write :: "nat \<Rightarrow> u8 list \<Rightarrow> u8 list \<Rightarrow> int \<times> u8 list" where
  "sim_bbram_write offset data regs =
    (if data = [] \<or> length regs < offset + length data then (-14, regs) else (0, mem_put offset data regs))"

text \<open>
  A byte written is read back by a successful read, which however overwrites the three bytes of
  memory behind the caller's byte with the next registers; the last three registers can be written but not read.
\<close>

theorem backup_regs_byte:
  assumes "backup_regs_write_byte (0, length regs) sim_bbram_write offset data regs = (0, regs')"
    and "backup_regs_read_byte (0, length regs') (sim_bbram_read regs') offset (b # mem) = (ret, mem')"
    and "3 \<le> length mem"
  shows "if offset + 3 < length regs then ret = 0 \<and> mem' = data # mem_get (offset + 1) 3 regs @ drop 3 mem
    else offset < length regs \<and> ret \<noteq> 0 \<and> mem' = b # mem"
proof -
  have o: "offset < length regs" and r: "regs' = mem_put offset [data] regs"
    using assms(1) by (auto simp: backup_regs_write_byte_def sim_bbram_write_def EINVAL_def split: if_splits)
  have len: "length regs' = length regs" using o unfolding r by (intro length_mem_put) simp
  show ?thesis
  proof (cases "offset + 3 < length regs")
    case True
    have "mem_get offset 4 regs' = mem_get offset 1 regs' @ mem_get (offset + 1) 3 regs'"
      using mem_get_append [of offset 1 regs' 3] by simp
    also have "mem_get offset 1 regs' = [data]" unfolding r using o by (intro mem_get_mem_put_same) simp_all
    also have "mem_get (offset + 1) 3 regs' = mem_get (offset + 1) 3 regs"
      unfolding r using o by (intro mem_get_mem_put_after) simp_all
    finally have g: "mem_get offset 4 regs' = data # mem_get (offset + 1) 3 regs" by simp
    have "length (mem_get (offset + 1) 3 regs) = 3" using True by (intro length_mem_get) simp
    then show ?thesis using assms(2) True o len g
      by (auto simp: backup_regs_read_byte_def sim_bbram_read_def mem_put_def)
  next
    case False
    then show ?thesis using assms(2) o len
      by (auto simp: backup_regs_read_byte_def sim_bbram_read_def)
  qed
qed

lemma backup_regs_byte_witness:
  "backup_regs_write_byte (0, 6) sim_bbram_write 1 9 [1, 2, 3, 4, 5, 6] = (0, [1, 9, 3, 4, 5, 6 :: u8]) \<and>
    [9, 3, 4, 5, 70] = (9 :: u8) # mem_get (1 + 1) 3 [1, 2, 3, 4, 5, 6] @ drop 3 [11, 12, 13, 70]"
  using backup_regs_byte [of "[1, 2, 3, 4, 5, 6]" 1 9 "[1, 9, 3, 4, 5, 6]" 10 "[11, 12, 13, 70]" 0 "[9, 3, 4, 5, 70]"]
  by (simp add: backup_regs_write_byte_def sim_bbram_write_def backup_regs_read_byte_def sim_bbram_read_def mem_put_def mem_get_def)

end
