(* ===== verification/Boot.thy ===== *)
theory Boot
  imports Fan Health
begin

text \<open>
  Power supplies, boot and reboot (\<^verbatim>\<open>power/boot/boot.c\<close>) and the power button
  (\<^verbatim>\<open>ui/button/button.c\<close>). Pins of the power supplies are a map from pin to its
  configuration; results of the pin driver are a parameter, one for each pin.
\<close>

unbundle bit_operations_syntax

subsection \<open>Pins\<close>

datatype power_pin =
    SUPPLY_VBAT_SW | SUPPLY_12V | SUPPLY_12V_CAPS | SUPPLY_5V | SUPPLY_3V8_RFID_IRQ | LTE_GPS_USB_RESET
  | PULLING_3V3 nat | SUPPLY_3V3 | SUPPLY_1V8 | SUPPLY_SUPER_CAP | SUPPLY_PVCC | POWER_BUTTON
  | JETSON_SLEEP_WAKE | JETSON_POWER_ENABLE | JETSON_SYSTEM_RESET | JETSON_SHUTDOWN_REQUEST
  | SUPPLY_MEAS_ENABLE | SUPPLY_3V3_SSD | SUPPLY_3V3_WIFI | USER_LED0_3V3 | USER_LED1_3V3
  | SUPPLY_3V3_LTE_RESET | SUPPLY_3V3_LTE | SUPPLY_2V8 | SUPPLY_3V6 | SUPPLY_5V_RGB | USB_HUB_RESET | PVCC_IN

datatype pin_mode = GPIO_INPUT | GPIO_OUTPUT bool | GPIO_DISCONNECTED

abbreviation GPIO_OUTPUT_INACTIVE :: pin_mode where "GPIO_OUTPUT_INACTIVE \<equiv> GPIO_OUTPUT False"
abbreviation GPIO_OUTPUT_ACTIVE :: pin_mode where "GPIO_OUTPUT_ACTIVE \<equiv> GPIO_OUTPUT True"

type_synonym pins = "power_pin \<Rightarrow> pin_mode option"
type_synonym gpio = "power_pin \<Rightarrow> int"

definition gpio_pin_configure :: "gpio \<Rightarrow> power_pin \<Rightarrow> pin_mode \<Rightarrow> pins \<Rightarrow> pins" where
  "gpio_pin_configure gpio p m ps = (if gpio p = 0 then ps(p \<mapsto> m) else ps)"

definition gpio_pin_set :: "gpio \<Rightarrow> power_pin \<Rightarrow> bool \<Rightarrow> pins \<Rightarrow> pins" where
  "gpio_pin_set gpio p v ps = (if gpio p = 0 then ps(p \<mapsto> GPIO_OUTPUT v) else ps)"

subsection \<open>Configuration of the pins\<close>

text \<open>
  The calls of \<^verbatim>\<open>power_configure_gpios\<close> in their order: a check that devices are ready, a
  configuration whose failure ends the function, or one whose failure is only reported.
\<close>

datatype gpio_op = READY "power_pin list" | CONFIGURE power_pin pin_mode | CONFIGURE_SOFT power_pin pin_mode

fun run_gpio_ops :: "(power_pin \<Rightarrow> bool) \<Rightarrow> gpio \<Rightarrow> gpio_op list \<Rightarrow> pins \<Rightarrow> ret_code_t \<times> pins" where
  "run_gpio_ops ready gpio [] ps = (RET_SUCCESS, ps)"
| "run_gpio_ops ready gpio (READY qs # cs) ps =
    (if list_all ready qs then run_gpio_ops ready gpio cs ps else (RET_ERROR_INTERNAL, ps))"
| "run_gpio_ops ready gpio (CONFIGURE p m # cs) ps =
    (if gpio p \<noteq> 0 then (RET_ERROR_INTERNAL, ps) else run_gpio_ops ready gpio cs (gpio_pin_configure gpio p m ps))"
| "run_gpio_ops ready gpio (CONFIGURE_SOFT p m # cs) ps = run_gpio_ops ready gpio cs (gpio_pin_configure gpio p m ps)"

definition has_3v8 :: "hw_version \<Rightarrow> bool" where
  "has_3v8 v \<longleftrightarrow> v = HW_VERSION_PEARL_EV1 \<or> v = HW_VERSION_PEARL_EV2 \<or> v = HW_VERSION_PEARL_EV3 \<or> v = HW_VERSION_PEARL_EV4"

text \<open>\<open>evt\<close>: the version is \<^verbatim>\<open>HW_VERSION_DIAMOND_EVT\<close> or later.\<close>

definition has_ssd_wifi :: "hw_version \<Rightarrow> bool \<Rightarrow> bool" where
  "has_ssd_wifi v evt \<longleftrightarrow> v = HW_VERSION_PEARL_EV5 \<or> evt"

definition power_gpio_ops_common :: "board \<Rightarrow> hw_version \<Rightarrow> gpio_op list" where
  "power_gpio_ops_common b v =
    [READY ([SUPPLY_VBAT_SW, SUPPLY_5V] @
        (case b of Pearl \<Rightarrow> [SUPPLY_12V, SUPPLY_3V8_RFID_IRQ] | Diamond \<Rightarrow> [SUPPLY_12V_CAPS]) @
        [SUPPLY_3V3, SUPPLY_1V8, SUPPLY_SUPER_CAP, SUPPLY_PVCC, POWER_BUTTON, JETSON_SLEEP_WAKE,
         JETSON_POWER_ENABLE, JETSON_SYSTEM_RESET, JETSON_SHUTDOWN_REQUEST, SUPPLY_MEAS_ENABLE]),
     CONFIGURE SUPPLY_VBAT_SW GPIO_OUTPUT_INACTIVE] @
    (case b of
       Pearl \<Rightarrow> [CONFIGURE SUPPLY_12V GPIO_OUTPUT_INACTIVE]
     | Diamond \<Rightarrow> [CONFIGURE_SOFT USER_LED0_3V3 GPIO_OUTPUT_INACTIVE, CONFIGURE_SOFT USER_LED1_3V3 GPIO_OUTPUT_INACTIVE,
                  CONFIGURE SUPPLY_12V_CAPS GPIO_OUTPUT_INACTIVE]) @
    [CONFIGURE SUPPLY_5V GPIO_OUTPUT_INACTIVE] @
    (if b = Pearl
     then (if has_3v8 v then [CONFIGURE SUPPLY_3V8_RFID_IRQ GPIO_OUTPUT_INACTIVE] else []) @
       [CONFIGURE LTE_GPS_USB_RESET GPIO_OUTPUT_INACTIVE] @
       map (\<lambda>i. CONFIGURE_SOFT (PULLING_3V3 0) GPIO_OUTPUT_INACTIVE) [0..<3]
     else []) @
    [CONFIGURE SUPPLY_3V3 GPIO_OUTPUT_INACTIVE, CONFIGURE SUPPLY_1V8 GPIO_OUTPUT_INACTIVE,
     CONFIGURE SUPPLY_SUPER_CAP GPIO_OUTPUT_INACTIVE, CONFIGURE SUPPLY_PVCC GPIO_OUTPUT_INACTIVE,
     CONFIGURE POWER_BUTTON GPIO_INPUT, CONFIGURE JETSON_SLEEP_WAKE GPIO_OUTPUT_INACTIVE,
     CONFIGURE JETSON_POWER_ENABLE GPIO_OUTPUT_INACTIVE, CONFIGURE JETSON_SYSTEM_RESET GPIO_INPUT,
     CONFIGURE JETSON_SHUTDOWN_REQUEST GPIO_INPUT, CONFIGURE SUPPLY_MEAS_ENABLE GPIO_OUTPUT_INACTIVE]"

definition power_gpio_ops_extra :: "board \<Rightarrow> hw_version \<Rightarrow> bool \<Rightarrow> gpio_op list" where
  "power_gpio_ops_extra b v evt =
    (if has_ssd_wifi v evt
     then [READY [SUPPLY_3V3_SSD, SUPPLY_3V3_WIFI], CONFIGURE SUPPLY_3V3_SSD GPIO_OUTPUT_INACTIVE,
           CONFIGURE SUPPLY_3V3_WIFI GPIO_OUTPUT_INACTIVE]
     else []) @
    (if b = Diamond
     then [READY [SUPPLY_3V3_LTE_RESET, SUPPLY_3V3_LTE, SUPPLY_2V8, SUPPLY_3V6, SUPPLY_5V_RGB, USB_HUB_RESET],
           CONFIGURE SUPPLY_3V3_LTE_RESET GPIO_OUTPUT_INACTIVE, CONFIGURE SUPPLY_3V3_LTE GPIO_OUTPUT_INACTIVE,
           CONFIGURE SUPPLY_2V8 GPIO_OUTPUT_INACTIVE, CONFIGURE SUPPLY_3V6 GPIO_OUTPUT_INACTIVE,
           CONFIGURE SUPPLY_5V_RGB GPIO_OUTPUT_INACTIVE, CONFIGURE USB_HUB_RESET GPIO_OUTPUT_ACTIVE]
     else [])"

definition power_gpio_ops :: "board \<Rightarrow> hw_version \<Rightarrow> bool \<Rightarrow> gpio_op list" where
  "power_gpio_ops b v evt = power_gpio_ops_common b v @ power_gpio_ops_extra b v evt"

lemmas power_gpio_ops_defs = power_gpio_ops_def power_gpio_ops_common_def power_gpio_ops_extra_def

definition power_configure_gpios :: "board \<Rightarrow> hw_version \<Rightarrow> bool \<Rightarrow> (power_pin \<Rightarrow> bool) \<Rightarrow> gpio \<Rightarrow> pins \<Rightarrow> ret_code_t \<times> pins" where
  "power_configure_gpios b v evt ready gpio ps = run_gpio_ops ready gpio (power_gpio_ops b v evt) ps"

subsection \<open>Switching the supplies\<close>

definition power_vbat_5v_3v3_supplies_on :: "gpio \<Rightarrow> pins \<Rightarrow> pins" where
  "power_vbat_5v_3v3_supplies_on gpio ps =
    gpio_pin_set gpio SUPPLY_3V3 True (gpio_pin_set gpio SUPPLY_5V True (gpio_pin_set gpio SUPPLY_VBAT_SW True ps))"

definition power_vbat_5v_3v3_supplies_off :: "board \<Rightarrow> gpio \<Rightarrow> pins \<Rightarrow> pins" where
  "power_vbat_5v_3v3_supplies_off b gpio ps =
    (let ps1 = (if b = Pearl
                then fold (\<lambda>i. gpio_pin_configure gpio (PULLING_3V3 0) GPIO_OUTPUT_INACTIVE) [0..<3] ps else ps)
     in gpio_pin_set gpio SUPPLY_3V3 False (gpio_pin_set gpio SUPPLY_5V False (gpio_pin_set gpio SUPPLY_VBAT_SW False ps1)))"

text \<open>The supplies of the second phase, in their order.\<close>

definition phase2_supplies :: "board \<Rightarrow> hw_version \<Rightarrow> power_pin list" where
  "phase2_supplies b v =
    (case b of
       Diamond \<Rightarrow> [SUPPLY_12V_CAPS, SUPPLY_5V_RGB, SUPPLY_3V6, SUPPLY_3V3_LTE, SUPPLY_2V8, SUPPLY_3V3_SSD, SUPPLY_3V3_WIFI]
     | Pearl \<Rightarrow> [SUPPLY_12V] @ (if has_3v8 v then [SUPPLY_3V8_RFID_IRQ] else []) @
         (if v = HW_VERSION_PEARL_EV5 then [SUPPLY_3V3_SSD, SUPPLY_3V3_WIFI] else []))
    @ [SUPPLY_1V8]"

definition turn_on_power_supplies :: "board \<Rightarrow> hw_version \<Rightarrow> gpio \<Rightarrow> pins \<Rightarrow> int \<times> pins" where
  "turn_on_power_supplies b v gpio ps =
    (0, fold (\<lambda>p. gpio_pin_set gpio p True) (phase2_supplies b v) (power_vbat_5v_3v3_supplies_on gpio ps))"

definition boot_turn_on_super_cap_charger :: "gpio \<Rightarrow> pins \<Rightarrow> int \<times> pins" where
  "boot_turn_on_super_cap_charger gpio ps =
    (let ps1 = gpio_pin_set gpio SUPPLY_SUPER_CAP True ps; ret = gpio SUPPLY_SUPER_CAP
     in if ret \<noteq> 0 then (ret, ps1) else (rc RET_SUCCESS, ps1))"

definition boot_turn_off_pvcc :: "gpio \<Rightarrow> pins \<Rightarrow> ret_code_t \<times> pins" where
  "boot_turn_off_pvcc gpio ps = (RET_SUCCESS, gpio_pin_set gpio SUPPLY_PVCC False ps)"

definition boot_turn_on_pvcc :: "gpio \<Rightarrow> pins \<Rightarrow> ret_code_t \<times> pins" where
  "boot_turn_on_pvcc gpio ps = (RET_SUCCESS, gpio_pin_set gpio SUPPLY_PVCC True ps)"

text \<open>The configurations a list has for a pin.\<close>

definition configures :: "power_pin \<Rightarrow> gpio_op list \<Rightarrow> pin_mode set" where
  "configures p cs = {m. CONFIGURE p m \<in> set cs \<or> CONFIGURE_SOFT p m \<in> set cs}"

lemma configures_simps [simp]:
  "configures p [] = {}"
  "configures p (READY qs # cs) = configures p cs"
  "configures p (CONFIGURE q m # cs) = (if p = q then insert m (configures p cs) else configures p cs)"
  "configures p (CONFIGURE_SOFT q m # cs) = (if p = q then insert m (configures p cs) else configures p cs)"
  "configures p (cs @ ds) = configures p cs \<union> configures p ds"
  by (auto simp: configures_def)

lemma run_gpio_ops_pins:
  "run_gpio_ops ready gpio cs ps = (ret, ps') \<Longrightarrow> ps' p = ps p \<or> ps' p \<in> Some ` configures p cs"
proof (induction ready gpio cs ps rule: run_gpio_ops.induct)
  case (3 ready gpio q m cs ps)
  show ?case
  proof (cases "gpio q = 0")
    case True
    then have "ps' p = gpio_pin_configure gpio q m ps p \<or> ps' p \<in> Some ` configures p cs" using 3 by simp
    then show ?thesis by (cases "p = q") (auto simp: gpio_pin_configure_def split: if_splits)
  qed (use 3(2) in simp)
next
  case (4 ready gpio q m cs ps)
  then have "ps' p = gpio_pin_configure gpio q m ps p \<or> ps' p \<in> Some ` configures p cs" by simp
  then show ?case by (cases "p = q") (auto simp: gpio_pin_configure_def split: if_splits)
qed (auto split: if_splits)

text \<open>A pin that every entry of the list configures the same way has that configuration after a success.\<close>

lemma run_gpio_ops_sets:
  "run_gpio_ops ready gpio cs ps = (RET_SUCCESS, ps') \<Longrightarrow> CONFIGURE p m \<in> set cs \<Longrightarrow> configures p cs \<subseteq> {m} \<Longrightarrow> ps' p = Some m"
proof (induction ready gpio cs ps rule: run_gpio_ops.induct)
  case (3 ready gpio q m1 cs ps)
  have g: "gpio q = 0" and r: "run_gpio_ops ready gpio cs (gpio_pin_configure gpio q m1 ps) = (RET_SUCCESS, ps')"
    using 3(2) by (simp_all split: if_splits)
  have sub: "configures p cs \<subseteq> {m}" using 3(4) by (simp split: if_splits)
  show ?case
  proof (cases "CONFIGURE p m \<in> set cs")
    case True
    then show ?thesis using 3(1) r g sub by simp
  next
    case False
    then have "q = p" "m1 = m" using 3(3) by simp_all
    then have "gpio_pin_configure gpio q m1 ps p = Some m" using g by (simp add: gpio_pin_configure_def)
    then show ?thesis using run_gpio_ops_pins [OF r, of p] sub by auto
  qed
next
  case (4 ready gpio q m1 cs ps)
  have "configures p cs \<subseteq> {m}" using 4(4) by (simp split: if_splits)
  then show ?case using 4 by simp
qed (simp_all split: if_splits)

text \<open>The supplies a board has.\<close>

definition board_supplies :: "board \<Rightarrow> hw_version \<Rightarrow> bool \<Rightarrow> power_pin set" where
  "board_supplies b v evt = {SUPPLY_VBAT_SW, SUPPLY_5V, SUPPLY_3V3, SUPPLY_1V8, SUPPLY_SUPER_CAP, SUPPLY_PVCC, JETSON_POWER_ENABLE} \<union>
    (if b = Pearl then {SUPPLY_12V} else {SUPPLY_12V_CAPS, SUPPLY_3V3_LTE, SUPPLY_2V8, SUPPLY_3V6, SUPPLY_5V_RGB}) \<union>
    (if has_ssd_wifi v evt then {SUPPLY_3V3_SSD, SUPPLY_3V3_WIFI} else {})"

text \<open>
  Whatever fails, configuring the pins never makes a pin an active output, but for the reset of the USB hub; when it
  succeeds every supply of the board, also that of the Jetson, is an inactive output.
\<close>

theorem power_configure_safe:
  assumes "power_configure_gpios b v evt ready gpio ps = (ret, ps')"
  shows "(p \<noteq> USB_HUB_RESET \<and> ps' p \<noteq> ps p \<longrightarrow> ps' p \<noteq> Some GPIO_OUTPUT_ACTIVE) \<and>
    (ret = RET_SUCCESS \<and> p \<in> board_supplies b v evt \<longrightarrow> ps' p = Some GPIO_OUTPUT_INACTIVE)"
proof (intro conjI impI)
  assume "p \<noteq> USB_HUB_RESET \<and> ps' p \<noteq> ps p"
  then have "ps' p \<in> Some ` configures p (power_gpio_ops b v evt)" and p: "p \<noteq> USB_HUB_RESET"
    using run_gpio_ops_pins [OF assms [unfolded power_configure_gpios_def], of p] by auto
  moreover have "GPIO_OUTPUT_ACTIVE \<notin> configures p (power_gpio_ops b v evt)"
    using p by (cases b) (simp_all add: power_gpio_ops_defs upt_rec)
  ultimately show "ps' p \<noteq> Some GPIO_OUTPUT_ACTIVE" by auto
next
  assume a: "ret = RET_SUCCESS \<and> p \<in> board_supplies b v evt"
  then have "CONFIGURE p GPIO_OUTPUT_INACTIVE \<in> set (power_gpio_ops b v evt)"
    by (cases b) (auto simp: board_supplies_def power_gpio_ops_defs split: if_splits)
  moreover have "configures p (power_gpio_ops b v evt) \<subseteq> {GPIO_OUTPUT_INACTIVE}"
    using a by (cases b) (auto simp: board_supplies_def power_gpio_ops_defs upt_rec split: if_splits)
  ultimately show "ps' p = Some GPIO_OUTPUT_INACTIVE"
    using run_gpio_ops_sets assms a unfolding power_configure_gpios_def by blast
qed

lemma power_configure_safe_witness:
  "snd (power_configure_gpios Diamond HW_VERSION_OTHER True (\<lambda>_. True) (\<lambda>_. 0) Map.empty) SUPPLY_PVCC = Some GPIO_OUTPUT_INACTIVE"
proof -
  have ok: "fst (power_configure_gpios Diamond HW_VERSION_OTHER True (\<lambda>_. True) (\<lambda>_. 0) Map.empty) = RET_SUCCESS"
    by (simp add: power_configure_gpios_def power_gpio_ops_defs has_ssd_wifi_def)
  have "power_configure_gpios Diamond HW_VERSION_OTHER True (\<lambda>_. True) (\<lambda>_. 0) Map.empty =
      (fst (power_configure_gpios Diamond HW_VERSION_OTHER True (\<lambda>_. True) (\<lambda>_. 0) Map.empty),
       snd (power_configure_gpios Diamond HW_VERSION_OTHER True (\<lambda>_. True) (\<lambda>_. 0) Map.empty))" by simp
  from power_configure_safe [OF this, of SUPPLY_PVCC] ok show ?thesis by (simp add: board_supplies_def)
qed

text \<open>Of the pins that pull to 3.3 V, only the first is ever configured.\<close>

lemma power_pulls_only_first:
  "0 < i \<Longrightarrow> snd (power_configure_gpios b v evt ready gpio ps) (PULLING_3V3 i) = ps (PULLING_3V3 i) \<and>
    power_vbat_5v_3v3_supplies_off b gpio ps (PULLING_3V3 i) = ps (PULLING_3V3 i)"
proof
  assume i: "0 < i"
  obtain ret ps' where r: "run_gpio_ops ready gpio (power_gpio_ops b v evt) ps = (ret, ps')" by fastforce
  have "configures (PULLING_3V3 i) (power_gpio_ops b v evt) = {}"
    using i by (cases b) (simp_all add: power_gpio_ops_defs upt_rec)
  then show "snd (power_configure_gpios b v evt ready gpio ps) (PULLING_3V3 i) = ps (PULLING_3V3 i)"
    using run_gpio_ops_pins [OF r, of "PULLING_3V3 i"] by (auto simp: power_configure_gpios_def r)
  show "power_vbat_5v_3v3_supplies_off b gpio ps (PULLING_3V3 i) = ps (PULLING_3V3 i)"
    using i by (simp add: power_vbat_5v_3v3_supplies_off_def gpio_pin_configure_def gpio_pin_set_def Let_def upt_rec)
qed

subsection \<open>Power cycling of a line\<close>

datatype power_line = WIFI_3V3 | LTE_3V3 | SD_SSD_3V3 | HEAT_CAMERA_2V8 | LINE_OTHER

text \<open>\<open>line_work\<close> is when the work that turns a line on again is due.\<close>

record power_cycle =
  line_pins :: pins
  line_work :: "power_line \<Rightarrow> nat option"

text \<open>The pin of a line; \<open>debug\<close>: the build is a debug build.\<close>

definition power_cycle_pin :: "board \<Rightarrow> bool \<Rightarrow> power_line \<Rightarrow> power_pin option" where
  "power_cycle_pin b debug line =
    (case line of
       WIFI_3V3 \<Rightarrow> if debug then Some SUPPLY_3V3_WIFI else None
     | LTE_3V3 \<Rightarrow> (case b of Pearl \<Rightarrow> if debug then Some LTE_GPS_USB_RESET else None | Diamond \<Rightarrow> Some SUPPLY_3V3_LTE)
     | SD_SSD_3V3 \<Rightarrow> if debug then Some SUPPLY_3V3_SSD else None
     | HEAT_CAMERA_2V8 \<Rightarrow> (case b of Pearl \<Rightarrow> None | Diamond \<Rightarrow> Some SUPPLY_2V8)
     | LINE_OTHER \<Rightarrow> None)"

definition power_cycle_supply ::
    "board \<Rightarrow> bool \<Rightarrow> gpio \<Rightarrow> power_line \<Rightarrow> nat \<Rightarrow> nat \<Rightarrow> power_cycle \<Rightarrow> int \<times> power_cycle" where
  "power_cycle_supply b debug gpio line duration_off_ms now s =
    (if 60000 < duration_off_ms then (rc RET_ERROR_INVALID_PARAM, s)
     else case power_cycle_pin b debug line of
       Some p \<Rightarrow>
         (gpio p, s\<lparr>line_pins := gpio_pin_configure gpio p GPIO_OUTPUT_INACTIVE (line_pins s),
                    line_work := (case line_work s line of
                       None \<Rightarrow> (line_work s)(line \<mapsto> now + (if duration_off_ms \<noteq> 0 then duration_off_ms else 3000))
                     | Some t \<Rightarrow> line_work s)\<rparr>)
     | None \<Rightarrow> if b = Pearl \<and> line = HEAT_CAMERA_2V8 then (rc RET_ERROR_NOT_FOUND, s) else (rc RET_ERROR_FORBIDDEN, s))"

definition power_cycle_line_work_handler :: "board \<Rightarrow> bool \<Rightarrow> gpio \<Rightarrow> power_line \<Rightarrow> power_cycle \<Rightarrow> power_cycle" where
  "power_cycle_line_work_handler b debug gpio line s =
    (case power_cycle_pin b debug line of
       Some p \<Rightarrow> s\<lparr>line_pins := gpio_pin_configure gpio p GPIO_OUTPUT_ACTIVE (line_pins s), line_work := (line_work s)(line := None)\<rparr>
     | None \<Rightarrow> s)"

text \<open>
  A second command for a line that is off already does not prolong the time it is off: the
  work of the first command turns the line on.
\<close>

lemma power_cycle_not_prolonged:
  "power_cycle_pin b debug line = Some p \<Longrightarrow> line_work s line = Some t \<Longrightarrow>
    line_work (snd (power_cycle_supply b debug gpio line d now s)) line = Some t"
  by (simp add: power_cycle_supply_def)

lemma power_cycle_back_on:
  assumes "power_cycle_pin b debug line = Some p" and "gpio p = 0" and "d \<le> 60000"
  shows "line_pins (snd (power_cycle_supply b debug gpio line d now s)) p = Some GPIO_OUTPUT_INACTIVE \<and>
    line_pins (power_cycle_line_work_handler b debug gpio line (snd (power_cycle_supply b debug gpio line d now s))) p =
      Some GPIO_OUTPUT_ACTIVE"
  using assms by (simp add: power_cycle_supply_def power_cycle_line_work_handler_def gpio_pin_configure_def)

subsection \<open>Waiting for the button\<close>

text \<open>
  \<open>leds\<close> is \<^verbatim>\<open>OPERATOR_LEDS_COUNT\<close>. What an iteration reads: the button, whether the PVCC is
  low, and whether the self-test succeeds.
\<close>

definition OPERATOR_LEDS_ITERATIONS_COUNT :: "nat \<Rightarrow> nat" where
  "OPERATOR_LEDS_ITERATIONS_COUNT leds = (if 1 < leds then leds else 12)"

record button_reads =
  power_button :: int
  pvcc_in :: int
  self_test_ret :: int

record button_wait =
  bw_i :: nat
  self_test_pending :: bool
  operator_led_mask :: u32
  bw_pins :: pins

definition button_iteration :: "board \<Rightarrow> nat \<Rightarrow> gpio \<Rightarrow> button_reads \<Rightarrow> button_wait \<Rightarrow> button_wait" where
  "button_iteration b leds gpio r s =
    (let s1 = (if self_test_pending s \<and> operator_led_mask s = 0 \<and> pvcc_in r = 0 \<and> self_test_ret r = 0
               then s\<lparr>self_test_pending := False, bw_pins := gpio_pin_set gpio SUPPLY_MEAS_ENABLE False (bw_pins s)\<rparr> else s);
         s2 = (if power_button r = 0
               then (if 1 < bw_i s1
                     then s1\<lparr>bw_pins := power_vbat_5v_3v3_supplies_off b gpio (bw_pins s1)\<rparr> else s1)
                 \<lparr>operator_led_mask := 0, bw_i := 0\<rparr>
               else s1\<lparr>operator_led_mask := (if 1 < leds then push_bit 1 (operator_led_mask s1) OR 1 else 1)\<rparr>);
         s3 = (if bw_i s2 = 1 then s2\<lparr>bw_pins := power_vbat_5v_3v3_supplies_on gpio (bw_pins s2)\<rparr> else s2)
     in s3\<lparr>bw_i := bw_i s3 + 1\<rparr>)"

text \<open>The loop from iteration \<open>k\<close> on; \<open>None\<close> when it never ends.\<close>

partial_function (option) button_loop ::
    "board \<Rightarrow> nat \<Rightarrow> gpio \<Rightarrow> (nat \<Rightarrow> button_reads) \<Rightarrow> nat \<Rightarrow> button_wait \<Rightarrow> (nat \<times> button_wait) option" where
  "button_loop b leds gpio reads k s =
    (if bw_i s \<le> OPERATOR_LEDS_ITERATIONS_COUNT leds
     then button_loop b leds gpio reads (k + 1) (button_iteration b leds gpio (reads k) s)
     else Some (k, s))"

definition power_until_button_press ::
    "board \<Rightarrow> nat \<Rightarrow> gpio \<Rightarrow> (nat \<Rightarrow> button_reads) \<Rightarrow> pins \<Rightarrow> (ret_code_t \<times> pins) option" where
  "power_until_button_press b leds gpio reads ps =
    (let ps1 = gpio_pin_configure gpio PVCC_IN GPIO_INPUT (gpio_pin_set gpio SUPPLY_MEAS_ENABLE True ps) in
     if gpio PVCC_IN \<noteq> 0 then Some (RET_ERROR_INVALID_STATE, ps1)
     else case button_loop b leds gpio reads 0 \<lparr>bw_i = 0, self_test_pending = True, operator_led_mask = 0, bw_pins = ps1\<rparr> of
       None \<Rightarrow> None
     | Some (k, s) \<Rightarrow>
         let ps2 = gpio_pin_configure gpio PVCC_IN GPIO_DISCONNECTED (bw_pins s)
         in Some (if gpio PVCC_IN \<noteq> 0 then RET_ERROR_INVALID_STATE else RET_SUCCESS, ps2))"

abbreviation pressed :: "(nat \<Rightarrow> button_reads) \<Rightarrow> nat \<Rightarrow> bool" where
  "pressed reads k \<equiv> power_button (reads k) \<noteq> 0"

definition supplies_on :: "pins \<Rightarrow> bool" where
  "supplies_on ps \<longleftrightarrow> (\<forall>p\<in>{SUPPLY_VBAT_SW, SUPPLY_5V, SUPPLY_3V3}. ps p = Some GPIO_OUTPUT_ACTIVE)"

definition supplies_off :: "pins \<Rightarrow> bool" where
  "supplies_off ps \<longleftrightarrow> (\<forall>p\<in>{SUPPLY_VBAT_SW, SUPPLY_5V, SUPPLY_3V3}. ps p = Some GPIO_OUTPUT_INACTIVE)"

text \<open>Before iteration \<open>k\<close> the button has been pressed for \<open>bw_i - 1\<close> iterations, or since the start.\<close>

definition button_wait_inv :: "(nat \<Rightarrow> button_reads) \<Rightarrow> nat \<Rightarrow> button_wait \<Rightarrow> bool" where
  "button_wait_inv reads k s \<longleftrightarrow> bw_i s \<le> k \<and>
     (\<forall>j. k - bw_i s < j \<and> j < k \<longrightarrow> pressed reads j) \<and>
     (0 < k \<longrightarrow> 0 < bw_i s) \<and>
     (if 2 \<le> bw_i s then supplies_on (bw_pins s) else supplies_off (bw_pins s))"

definition supply_pins_work :: "gpio \<Rightarrow> bool" where
  "supply_pins_work gpio \<longleftrightarrow> gpio SUPPLY_VBAT_SW = 0 \<and> gpio SUPPLY_5V = 0 \<and> gpio SUPPLY_3V3 = 0"

lemma supplies_set:
  assumes "supply_pins_work gpio"
  shows "supplies_on (power_vbat_5v_3v3_supplies_on gpio ps)" "supplies_off (power_vbat_5v_3v3_supplies_off b gpio ps)"
    "supplies_on (gpio_pin_set gpio SUPPLY_MEAS_ENABLE v ps) = supplies_on ps"
    "supplies_off (gpio_pin_set gpio SUPPLY_MEAS_ENABLE v ps) = supplies_off ps"
    "supplies_on (gpio_pin_configure gpio PVCC_IN m ps) = supplies_on ps"
    "supplies_off (gpio_pin_configure gpio PVCC_IN m ps) = supplies_off ps"
  using assms by (simp_all add: supply_pins_work_def supplies_on_def supplies_off_def power_vbat_5v_3v3_supplies_on_def
      power_vbat_5v_3v3_supplies_off_def gpio_pin_set_def gpio_pin_configure_def Let_def)

lemma button_inv_iteration:
  assumes g: "supply_pins_work gpio" and inv: "button_wait_inv reads k s"
  shows "button_wait_inv reads (k + 1) (button_iteration b leds gpio (reads k) s)"
proof -
  define s1 where "s1 = (if self_test_pending s \<and> operator_led_mask s = 0 \<and> pvcc_in (reads k) = 0 \<and> self_test_ret (reads k) = 0
      then s\<lparr>self_test_pending := False, bw_pins := gpio_pin_set gpio SUPPLY_MEAS_ENABLE False (bw_pins s)\<rparr> else s)"
  have s1: "bw_i s1 = bw_i s" "supplies_on (bw_pins s1) = supplies_on (bw_pins s)" "supplies_off (bw_pins s1) = supplies_off (bw_pins s)"
    by (simp_all add: s1_def supplies_set [OF g])
  show ?thesis
  proof (cases "pressed reads k")
    case False
    let ?t = "button_iteration b leds gpio (reads k) s"
    have "bw_i ?t = 1" using False by (simp add: button_iteration_def Let_def)
    moreover have "supplies_off (bw_pins ?t)"
    proof (cases "1 < bw_i s")
      case True
      then show ?thesis using False by (simp add: button_iteration_def s1_def [symmetric] s1 supplies_set [OF g] Let_def)
    next
      case neg: False
      then show ?thesis using False inv by (simp add: button_iteration_def s1_def [symmetric] s1 button_wait_inv_def Let_def)
    qed
    ultimately show ?thesis using False by (simp add: button_wait_inv_def)
  next
    case True
    let ?t = "button_iteration b leds gpio (reads k) s"
    have i: "bw_i ?t = bw_i s + 1"
      using True by (simp add: button_iteration_def s1_def [symmetric] s1 Let_def)
    have p: "bw_pins ?t = (if bw_i s = 1 then power_vbat_5v_3v3_supplies_on gpio (bw_pins s1) else bw_pins s1)"
      using True by (simp add: button_iteration_def s1_def [symmetric] s1 Let_def)
    have "if 2 \<le> bw_i ?t then supplies_on (bw_pins ?t) else supplies_off (bw_pins ?t)"
      using inv unfolding i p by (auto simp: button_wait_inv_def s1 supplies_set [OF g])
    moreover have "pressed reads j" if "k + 1 - bw_i ?t < j" "j < k + 1" for j
      using that inv True unfolding i by (cases "j = k") (auto simp: button_wait_inv_def)
    ultimately show ?thesis using inv unfolding button_wait_inv_def i by auto
  qed
qed

lemma button_loop_inv:
  assumes "button_loop b leds gpio reads k s = Some r" and "supply_pins_work gpio" and "button_wait_inv reads k s"
  shows "button_wait_inv reads (fst r) (snd r) \<and> OPERATOR_LEDS_ITERATIONS_COUNT leds < bw_i (snd r)"
proof -
  have "supply_pins_work gpio \<longrightarrow> button_wait_inv reads k s \<longrightarrow>
      button_wait_inv reads (fst r) (snd r) \<and> OPERATOR_LEDS_ITERATIONS_COUNT leds < bw_i (snd r)"
  proof (rule button_loop.raw_induct [where P = "\<lambda>b leds gpio reads k s r. supply_pins_work gpio \<longrightarrow> button_wait_inv reads k s \<longrightarrow>
      button_wait_inv reads (fst r) (snd r) \<and> OPERATOR_LEDS_ITERATIONS_COUNT leds < bw_i (snd r)", OF _ assms(1)])
    fix rec :: "board \<Rightarrow> nat \<Rightarrow> gpio \<Rightarrow> (nat \<Rightarrow> button_reads) \<Rightarrow> nat \<Rightarrow> button_wait \<Rightarrow> (nat \<times> button_wait) option"
      and b leds gpio reads k s r
    assume ih: "\<And>b leds gpio reads k s r. rec b leds gpio reads k s = Some r \<Longrightarrow> supply_pins_work gpio \<longrightarrow> button_wait_inv reads k s \<longrightarrow>
        button_wait_inv reads (fst r) (snd r) \<and> OPERATOR_LEDS_ITERATIONS_COUNT leds < bw_i (snd r)"
      and r: "(if bw_i s \<le> OPERATOR_LEDS_ITERATIONS_COUNT leds
          then rec b leds gpio reads (k + 1) (button_iteration b leds gpio (reads k) s) else Some (k, s)) = Some r"
    show "supply_pins_work gpio \<longrightarrow> button_wait_inv reads k s \<longrightarrow>
        button_wait_inv reads (fst r) (snd r) \<and> OPERATOR_LEDS_ITERATIONS_COUNT leds < bw_i (snd r)"
    proof (cases "bw_i s \<le> OPERATOR_LEDS_ITERATIONS_COUNT leds")
      case True
      then have "rec b leds gpio reads (k + 1) (button_iteration b leds gpio (reads k) s) = Some r" using r by simp
      then show ?thesis using ih button_inv_iteration by blast
    next
      case False
      then have "r = (k, s)" using r by simp
      then show ?thesis using False by simp
    qed
  qed
  then show ?thesis using assms(2,3) by blast
qed

text \<open>Pressed often enough in a row, the loop ends.\<close>

lemma button_iteration_i: "bw_i (button_iteration b leds gpio r s) = (if power_button r = 0 then 1 else bw_i s + 1)"
  by (simp add: button_iteration_def Let_def)

lemma button_loop_pressed:
  assumes "\<forall>j. k \<le> j \<and> j < n + OPERATOR_LEDS_ITERATIONS_COUNT leds \<longrightarrow> pressed reads j"
    and "OPERATOR_LEDS_ITERATIONS_COUNT leds + 1 \<le> bw_i s + (n + OPERATOR_LEDS_ITERATIONS_COUNT leds - k)"
  shows "\<exists>r. button_loop b leds gpio reads k s = Some r"
  using assms
proof (induction "n + OPERATOR_LEDS_ITERATIONS_COUNT leds - k" arbitrary: k s)
  case 0
  then have "\<not> bw_i s \<le> OPERATOR_LEDS_ITERATIONS_COUNT leds" by simp
  then show ?case by (subst button_loop.simps) simp
next
  case (Suc x)
  show ?case
  proof (cases "bw_i s \<le> OPERATOR_LEDS_ITERATIONS_COUNT leds")
    case True
    let ?t = "button_iteration b leds gpio (reads k) s"
    have p: "pressed reads k" using Suc(2,3) by simp
    have "x = n + OPERATOR_LEDS_ITERATIONS_COUNT leds - (k + 1)" using Suc(2) by simp
    moreover have "\<forall>j. k + 1 \<le> j \<and> j < n + OPERATOR_LEDS_ITERATIONS_COUNT leds \<longrightarrow> pressed reads j" using Suc(3) by simp
    moreover have "OPERATOR_LEDS_ITERATIONS_COUNT leds + 1 \<le> bw_i ?t + (n + OPERATOR_LEDS_ITERATIONS_COUNT leds - (k + 1))"
      using p Suc(2,4) by (simp add: button_iteration_i)
    ultimately have "\<exists>r. button_loop b leds gpio reads (k + 1) ?t = Some r" by (rule Suc(1))
    then show ?thesis using True by (subst button_loop.simps) simp
  next
    case False
    then show ?thesis by (subst button_loop.simps) simp
  qed
qed

lemma button_loop_reaches:
  assumes "1 \<le> n" and "\<forall>j. n \<le> j \<and> j < n + OPERATOR_LEDS_ITERATIONS_COUNT leds \<longrightarrow> pressed reads j"
  shows "k \<le> n \<Longrightarrow> 0 < k \<longrightarrow> 0 < bw_i s \<Longrightarrow> \<exists>r. button_loop b leds gpio reads k s = Some r"
proof (induction "n - k" arbitrary: k s)
  case 0
  then show ?case using assms by (intro button_loop_pressed [where n = n]) auto
next
  case (Suc x)
  show ?case
  proof (cases "bw_i s \<le> OPERATOR_LEDS_ITERATIONS_COUNT leds")
    case True
    have "\<exists>r. button_loop b leds gpio reads (k + 1) (button_iteration b leds gpio (reads k) s) = Some r"
      using Suc(2,3) by (intro Suc(1)) (simp_all add: button_iteration_i)
    then show ?thesis using True by (subst button_loop.simps) simp
  next
    case False
    then show ?thesis by (subst button_loop.simps) simp
  qed
qed

text \<open>
  With working supply pins the wait for the button ends exactly when, after the first read, as many reads
  in a row as there are iterations find the button not released, errors of the read included, and the supplies
  are then on.
\<close>

lemma power_until_button_wait:
  assumes "supply_pins_work gpio" and "gpio PVCC_IN = 0" and "supplies_off ps"
  shows "case power_until_button_press b leds gpio reads ps of
      Some (ret, ps') \<Rightarrow> ret = RET_SUCCESS \<and> supplies_on ps' \<and>
        (\<exists>n\<ge>1. \<forall>j. n \<le> j \<and> j < n + OPERATOR_LEDS_ITERATIONS_COUNT leds \<longrightarrow> pressed reads j)
    | None \<Rightarrow> \<not> (\<exists>n\<ge>1. \<forall>j. n \<le> j \<and> j < n + OPERATOR_LEDS_ITERATIONS_COUNT leds \<longrightarrow> pressed reads j)"
proof -
  let ?s = "\<lparr>bw_i = 0, self_test_pending = True, operator_led_mask = 0,
      bw_pins = gpio_pin_configure gpio PVCC_IN GPIO_INPUT (gpio_pin_set gpio SUPPLY_MEAS_ENABLE True ps)\<rparr>"
  let ?n = "OPERATOR_LEDS_ITERATIONS_COUNT leds"
  have n: "1 < ?n" by (simp add: OPERATOR_LEDS_ITERATIONS_COUNT_def)
  have inv: "button_wait_inv reads 0 ?s" using assms(3) by (simp add: button_wait_inv_def supplies_set [OF assms(1)])
  show ?thesis
  proof (cases "button_loop b leds gpio reads 0 ?s")
    case None
    then have "\<not> (\<exists>n\<ge>1. \<forall>j. n \<le> j \<and> j < n + ?n \<longrightarrow> pressed reads j)"
      using button_loop_reaches [of _ leds reads 0 ?s b gpio] by force
    then show ?thesis using None assms(2) by (simp add: power_until_button_press_def)
  next
    case (Some r)
    obtain k t where r: "r = (k, t)" by (cases r)
    have t: "button_wait_inv reads k t" "?n < bw_i t" using button_loop_inv [OF Some assms(1) inv] r by simp_all
    then have "k - ?n \<ge> 1 \<and> (\<forall>j. k - ?n \<le> j \<and> j < k - ?n + ?n \<longrightarrow> pressed reads j)" by (auto simp: button_wait_inv_def)
    moreover have "supplies_on (bw_pins t)" using t n by (simp add: button_wait_inv_def)
    ultimately show ?thesis using Some assms(2) r
      by (auto simp: power_until_button_press_def supplies_set [OF assms(1)] intro: exI [of _ "k - ?n"])
  qed
qed

subsection \<open>Boot without the button\<close>

definition REBOOT_FLAG_OFFSET_BYTE :: nat where "REBOOT_FLAG_OFFSET_BYTE = 0"
definition REBOOT_INSTABOOT :: u8 where "REBOOT_INSTABOOT = 0xB0"

record boot_flags =
  post_update :: bool
  latched_reboot_cmd :: bool
  config_auto_boot :: bool

text \<open>
  What \<^verbatim>\<open>app_init_state\<close> reads: the state of the image in the primary slot, the driver of the
  backup registers (\<open>stack\<close> is the memory behind the flag), and the configuration. The calls into the firmware update are
  returned: whether the image is confirmed or else read-back protection requested.
\<close>

record boot_inputs =
  image_ok_unset :: bool
  magic_unset :: bool
  bb_size :: "int \<times> nat"
  bb_read :: "nat \<Rightarrow> nat \<Rightarrow> int \<times> u8 list"
  boot_stack :: "u8 list"
  config_init_ret :: int
  boot_auto_always_on :: bool
  insta_boot :: bool

datatype boot_dfu = DFU_PRIMARY_CONFIRM | DFU_READBACK_PROTECTION

definition read_boot_flags :: "boot_inputs \<Rightarrow> boot_flags" where
  "read_boot_flags i =
    (let (ret, mem) = backup_regs_read_byte (bb_size i) (bb_read i) REBOOT_FLAG_OFFSET_BYTE (0 # boot_stack i)
     in \<lparr>post_update = image_ok_unset i \<and> \<not> magic_unset i,
         latched_reboot_cmd = (ret = 0 \<and> hd mem = REBOOT_INSTABOOT),
         config_auto_boot = (config_init_ret i = 0 \<and> boot_auto_always_on i)\<rparr>)"

definition app_init_state ::
    "board \<Rightarrow> nat \<Rightarrow> gpio \<Rightarrow> (nat \<Rightarrow> button_reads) \<Rightarrow> boot_inputs \<Rightarrow> pins \<Rightarrow> (int \<times> boot_flags \<times> boot_dfu \<times> pins) option" where
  "app_init_state b leds gpio reads i ps =
    (let fl = read_boot_flags i in
     if post_update fl \<or> latched_reboot_cmd fl \<or> config_auto_boot fl \<or> insta_boot i
     then Some (config_init_ret i, fl, DFU_PRIMARY_CONFIRM, power_vbat_5v_3v3_supplies_on gpio ps)
     else map_option (\<lambda>(ret, ps'). (rc ret, fl, DFU_READBACK_PROTECTION, ps')) (power_until_button_press b leds gpio reads ps))"



subsection \<open>Turning on the Jetson\<close>

record jetson =
  jetson_pins :: pins
  jetson_state :: ret_code_t
  shutdown_interrupt :: bool
  reboot_tid :: bool

datatype boot_result = BOOT_RETURNS ret_code_t | BOOT_SYSTEM_RESET

text \<open>
  The loop that awaits the reset signal: \<open>resets k\<close> is what the \<open>k\<close>-th read of the pin returns. The
  result is a negative read, or the value of the timeout at the end.
\<close>

fun await_reset :: "(nat \<Rightarrow> int) \<Rightarrow> nat \<Rightarrow> nat \<Rightarrow> int + nat" where
  "await_reset resets k timeout_ms =
    (let reset = resets k in
     if reset < 0 then Inl reset
     else if reset \<noteq> 0 \<and> 1 < timeout_ms then await_reset resets (k + 1) (timeout_ms - 1)
     else if reset \<noteq> 0 then Inr (timeout_ms - 1)
     else Inr timeout_ms)"

declare await_reset.simps [simp del]

text \<open>\<open>irq\<close> and \<open>cb\<close> are what enabling the interrupt and adding its callback return.\<close>

definition shutdown_req_init :: "int \<Rightarrow> int \<Rightarrow> jetson \<Rightarrow> ret_code_t \<times> jetson" where
  "shutdown_req_init irq cb s =
    (if irq \<noteq> 0 then (RET_ERROR_INTERNAL, s)
     else if cb \<noteq> 0 then (RET_ERROR_INTERNAL, s)
     else (RET_SUCCESS, s\<lparr>shutdown_interrupt := True\<rparr>))"

definition boot_turn_on_jetson ::
    "board \<Rightarrow> gpio \<Rightarrow> (nat \<Rightarrow> int) \<Rightarrow> int \<Rightarrow> int \<Rightarrow> jetson \<Rightarrow> boot_result \<times> jetson" where
  "boot_turn_on_jetson b gpio resets irq cb s =
    (let s1 = s\<lparr>jetson_state := RET_ERROR_NOT_INITIALIZED, jetson_pins := gpio_pin_set gpio JETSON_POWER_ENABLE True (jetson_pins s)\<rparr>
     in case await_reset resets 0 1000 of
          Inl e \<Rightarrow> (BOOT_RETURNS RET_ERROR_INTERNAL, s1\<lparr>jetson_state := RET_ERROR_INTERNAL\<rparr>)
        | Inr timeout_ms \<Rightarrow>
            if timeout_ms = 0 then (BOOT_SYSTEM_RESET, s1\<lparr>jetson_state := RET_ERROR_TIMEOUT\<rparr>)
            else
              let s2 = s1\<lparr>jetson_pins := gpio_pin_set gpio JETSON_SLEEP_WAKE True (jetson_pins s1), jetson_state := RET_SUCCESS\<rparr>;
                  p = (case b of Pearl \<Rightarrow> LTE_GPS_USB_RESET | Diamond \<Rightarrow> USB_HUB_RESET);
                  s3 = s2\<lparr>jetson_pins := gpio_pin_set gpio p False (jetson_pins s2)\<rparr>;
                  s4 = snd (shutdown_req_init irq cb s3)
              in (BOOT_RETURNS RET_SUCCESS, s4\<lparr>reboot_tid := True\<rparr>))"

lemma await_reset_result:
  "0 < n \<Longrightarrow> await_reset resets k n =
    (case find (\<lambda>j. resets j \<le> 0) [k..<k + n] of
       None \<Rightarrow> Inr 0
     | Some j \<Rightarrow> if resets j < 0 then Inl (resets j) else Inr (n - (j - k)))"
proof (induction n arbitrary: k)
  case (Suc n)
  have u: "[k..<k + Suc n] = k # [k + 1..<k + 1 + n]" by (subst upt_rec) simp
  show ?case
  proof (cases "resets k \<le> 0")
    case True
    then show ?thesis unfolding u by (subst await_reset.simps) (simp add: Let_def)
  next
    case False
    then have "await_reset resets k (Suc n) = (if 0 < n then await_reset resets (k + 1) n else Inr 0)"
      by (subst await_reset.simps) (simp add: Let_def)
    also have "\<dots> = (case find (\<lambda>j. resets j \<le> 0) [k + 1..<k + 1 + n] of
        None \<Rightarrow> Inr 0 | Some j \<Rightarrow> if resets j < 0 then Inl (resets j) else Inr (n - (j - (k + 1))))"
      using Suc.IH [of "k + 1"] by simp
    also have "\<dots> = (case find (\<lambda>j. resets j \<le> 0) [k..<k + Suc n] of
        None \<Rightarrow> Inr 0 | Some j \<Rightarrow> if resets j < 0 then Inl (resets j) else Inr (Suc n - (j - k)))"
    proof (cases "find (\<lambda>j. resets j \<le> 0) [k + 1..<k + 1 + n]")
      case None
      moreover have "find (\<lambda>j. resets j \<le> 0) [k..<k + Suc n] = find (\<lambda>j. resets j \<le> 0) [k + 1..<k + 1 + n]"
        using False unfolding u by (simp only: find.simps if_False)
      ultimately show ?thesis by (simp only: option.case)
    next
      case (Some j)
      then have "j \<in> set [k + 1..<k + 1 + n]" by (metis find_Some_iff nth_mem)
      then have j: "k + 1 \<le> j" by (simp only: set_upt atLeastLessThan_iff)
      moreover have "find (\<lambda>j. resets j \<le> 0) [k..<k + Suc n] = find (\<lambda>j. resets j \<le> 0) [k + 1..<k + 1 + n]"
        using False unfolding u by (simp only: find.simps if_False)
      moreover have "n - (j - (k + 1)) = Suc n - (j - k)" using j by linarith
      ultimately show ?thesis using Some by (simp only: option.case)
    qed
    finally show ?thesis .
  qed
qed simp

text \<open>
  The Jetson is woken, and the thread that reboots the system created, exactly when one of the first
  1000 reads of the reset pin is 0 and no read before it failed; the system is reset when
  all of them are positive, and after a failed read the Jetson keeps its power but no reboot can be requested.
\<close>

theorem boot_turn_on_jetson_result:
  assumes "boot_turn_on_jetson b gpio resets irq cb s = (r, t)" and "\<not> reboot_tid s" and "gpio JETSON_POWER_ENABLE = 0"
  shows "jetson_pins t JETSON_POWER_ENABLE = Some GPIO_OUTPUT_ACTIVE \<and>
    (case find (\<lambda>j. resets j \<le> 0) [0..<1000] of
       None \<Rightarrow> r = BOOT_SYSTEM_RESET \<and> jetson_state t = RET_ERROR_TIMEOUT
     | Some j \<Rightarrow>
         if resets j = 0 then r = BOOT_RETURNS RET_SUCCESS \<and> reboot_tid t \<and> jetson_state t = RET_SUCCESS
         else r = BOOT_RETURNS RET_ERROR_INTERNAL \<and> \<not> reboot_tid t \<and> jetson_state t = RET_ERROR_INTERNAL)"
proof (cases "find (\<lambda>j. resets j \<le> 0) [0..<1000]")
  case None
  then have "await_reset resets 0 1000 = Inr 0" using await_reset_result [of 1000 resets 0] by simp
  then show ?thesis using assms None by (auto simp: boot_turn_on_jetson_def gpio_pin_set_def)
next
  case (Some j)
  have j: "j < 1000" "resets j \<le> 0" using Some by (auto simp: find_Some_iff)
  show ?thesis
  proof (cases "resets j = 0")
    case True
    then have "await_reset resets 0 1000 = Inr (1000 - j)" using await_reset_result [of 1000 resets 0] Some by simp
    then show ?thesis using assms Some True j
      by (cases b) (auto simp: boot_turn_on_jetson_def gpio_pin_set_def Let_def shutdown_req_init_def split: if_splits)
  next
    case False
    then have "await_reset resets 0 1000 = Inl (resets j)" using await_reset_result [of 1000 resets 0] Some j by simp
    then show ?thesis using assms Some False by (auto simp: boot_turn_on_jetson_def gpio_pin_set_def)
  qed
qed

lemma boot_turn_on_jetson_result_witness:
  "fst (boot_turn_on_jetson Pearl (\<lambda>_. 0) (\<lambda>k. if k = 2 then 0 else 1) 0 0
      \<lparr>jetson_pins = Map.empty, jetson_state = RET_ERROR_NOT_INITIALIZED, shutdown_interrupt = False, reboot_tid = False\<rparr>) =
    BOOT_RETURNS RET_SUCCESS"
proof -
  let ?s = "\<lparr>jetson_pins = Map.empty, jetson_state = RET_ERROR_NOT_INITIALIZED, shutdown_interrupt = False, reboot_tid = False\<rparr>"
  let ?resets = "\<lambda>k :: nat. (if k = 2 then 0 else 1) :: int"
  obtain r t where b: "boot_turn_on_jetson Pearl (\<lambda>_. 0) ?resets 0 0 ?s = (r, t)" by fastforce
  have "find (\<lambda>j. ?resets j \<le> 0) [0..<1000] = Some 2"
    unfolding find_Some_iff by (rule exI [of _ 2]) simp
  then show ?thesis using boot_turn_on_jetson_result [OF b] b by simp
qed

subsection \<open>Rebooting\<close>

text \<open>
  Where the reboot thread is: waiting for the semaphore, in the first second of a long delay
  (with its end and the delay it has read), waiting for the reset signal of the Jetson, in the sleep before
  the reset, in the last 200 ms, and after the reset.
\<close>

datatype reboot_pc = RB_WAIT | RB_FIRST nat nat | RB_AWAIT_RESET | RB_SLEEP nat | RB_LAST nat | RB_RESET nat

record reboot_ctl =
  reboot_pc :: reboot_pc
  reboot_delay_s :: nat
  jetson_shutdown_req :: bool
  sem_reboot :: bool
  system_reset_pin :: bool
  reboot_pins :: pins
  reboot_fan :: fan
  reboot_now :: nat

definition SYSTEM_RESET_UI_DELAY_MS :: nat where "SYSTEM_RESET_UI_DELAY_MS = 200"

text \<open>
  The argument of \<^verbatim>\<open>k_msleep\<close> is computed with 32 bits and taken as signed; a negative time is no sleep.
\<close>

definition reboot_sleep_ms :: "nat \<Rightarrow> nat" where
  "reboot_sleep_ms delay = nat (sint (word_of_int (int delay * 1000 - int SYSTEM_RESET_UI_DELAY_MS) :: u32))"

text \<open>The body of the loop, up to the sleep.\<close>

definition reboot_loop :: "gpio \<Rightarrow> hw_version \<Rightarrow> bool \<Rightarrow> reboot_ctl \<Rightarrow> reboot_ctl" where
  "reboot_loop gpio v evt s =
    (if jetson_shutdown_req s \<and> \<not> system_reset_pin s then s\<lparr>reboot_pc := RB_AWAIT_RESET\<rparr>
     else
      let s1 = (if jetson_shutdown_req s
                then s\<lparr>reboot_pins :=
                       gpio_pin_set gpio SUPPLY_1V8 False
                        ((if has_ssd_wifi v evt
                          then gpio_pin_set gpio SUPPLY_3V3_WIFI False \<circ> gpio_pin_set gpio SUPPLY_3V3_SSD False else id)
                         (gpio_pin_set gpio SUPPLY_3V3 False (reboot_pins s)))\<rparr>
                else s)
      in s1\<lparr>reboot_pc := RB_SLEEP (reboot_now s1 + reboot_sleep_ms (reboot_delay_s s1))\<rparr>)"

text \<open>The thread after it has taken the semaphore, and its next step when a sleep has ended.\<close>

definition reboot_taken :: "gpio \<Rightarrow> hw_version \<Rightarrow> bool \<Rightarrow> reboot_ctl \<Rightarrow> reboot_ctl" where
  "reboot_taken gpio v evt s =
    (let delay = reboot_delay_s s; s1 = s\<lparr>sem_reboot := False\<rparr> in
     if 1 < delay then s1\<lparr>reboot_pc := RB_FIRST (reboot_now s1 + 1000) delay\<rparr> else reboot_loop gpio v evt s1)"

definition reboot_first_done :: "gpio \<Rightarrow> hw_version \<Rightarrow> bool \<Rightarrow> nat \<Rightarrow> reboot_ctl \<Rightarrow> reboot_ctl" where
  "reboot_first_done gpio v evt delay s = reboot_loop gpio v evt (s\<lparr>reboot_delay_s := delay - 1\<rparr>)"

definition reboot_slept :: "reboot_ctl \<Rightarrow> reboot_ctl" where
  "reboot_slept s = s\<lparr>reboot_fan := fan_turn_off (reboot_fan s), reboot_pc := RB_LAST (reboot_now s + SYSTEM_RESET_UI_DELAY_MS)\<rparr>"

definition reboot_reset :: "reboot_ctl \<Rightarrow> reboot_ctl" where
  "reboot_reset s = s\<lparr>reboot_pc := RB_RESET (reboot_now s)\<rparr>"

definition reboot_thread :: "gpio \<Rightarrow> hw_version \<Rightarrow> bool \<Rightarrow> reboot_ctl \<Rightarrow> reboot_ctl" where
  "reboot_thread gpio v evt s =
    (case reboot_pc s of
       RB_WAIT \<Rightarrow> if sem_reboot s then reboot_taken gpio v evt s else s
     | RB_FIRST t delay \<Rightarrow> reboot_first_done gpio v evt delay (s\<lparr>reboot_now := t\<rparr>)
     | RB_AWAIT_RESET \<Rightarrow> if system_reset_pin s then reboot_loop gpio v evt s else s
     | RB_SLEEP t \<Rightarrow> reboot_slept (s\<lparr>reboot_now := t\<rparr>)
     | RB_LAST t \<Rightarrow> reboot_reset (s\<lparr>reboot_now := t\<rparr>)
     | RB_RESET t \<Rightarrow> s)"

text \<open>\<^verbatim>\<open>k_wakeup\<close> ends a sleep early; the sleep before the reset then starts again.\<close>

definition reboot_wakeup :: "gpio \<Rightarrow> hw_version \<Rightarrow> bool \<Rightarrow> reboot_ctl \<Rightarrow> reboot_ctl" where
  "reboot_wakeup gpio v evt s =
    (case reboot_pc s of
       RB_FIRST t delay \<Rightarrow> reboot_first_done gpio v evt delay s
     | RB_SLEEP t \<Rightarrow> reboot_loop gpio v evt s
     | RB_LAST t \<Rightarrow> reboot_reset s
     | _ \<Rightarrow> s)"

text \<open>
  \<^verbatim>\<open>reboot\<close> and the handler of a shutdown request, with what the thread does before it waits again. The thread exists.
\<close>

definition reboot :: "gpio \<Rightarrow> hw_version \<Rightarrow> bool \<Rightarrow> bool \<Rightarrow> nat \<Rightarrow> reboot_ctl \<Rightarrow> ret_code_t \<times> reboot_ctl" where
  "reboot gpio v evt tid delay_s s =
    (if \<not> tid then (RET_ERROR_NOT_INITIALIZED, s)
     else
      let s1 = reboot_wakeup gpio v evt (s\<lparr>reboot_delay_s := delay_s\<rparr>);
          s2 = s1\<lparr>sem_reboot := True\<rparr>
      in (RET_SUCCESS, if reboot_pc s2 = RB_WAIT then reboot_thread gpio v evt s2 else s2))"

definition shutdown_requested_work_handler :: "gpio \<Rightarrow> hw_version \<Rightarrow> bool \<Rightarrow> reboot_ctl \<Rightarrow> reboot_ctl" where
  "shutdown_requested_work_handler gpio v evt s =
    (let s0 = s\<lparr>reboot_pins := gpio_pin_set gpio JETSON_POWER_ENABLE False (reboot_pins s), jetson_shutdown_req := True,
                reboot_delay_s := 1\<rparr>;
         s1 = (reboot_wakeup gpio v evt s0)\<lparr>sem_reboot := True\<rparr>
     in if reboot_pc s1 = RB_WAIT then reboot_thread gpio v evt s1 else s1)"

text \<open>Time passes up to \<open>t\<close>: the sleeps that end before are followed by the steps of the thread.\<close>

definition reboot_due :: "nat \<Rightarrow> reboot_pc \<Rightarrow> bool" where
  "reboot_due t pc = (case pc of RB_FIRST u _ \<Rightarrow> u \<le> t | RB_SLEEP u \<Rightarrow> u \<le> t | RB_LAST u \<Rightarrow> u \<le> t | _ \<Rightarrow> False)"

definition reboot_step_due :: "gpio \<Rightarrow> hw_version \<Rightarrow> bool \<Rightarrow> nat \<Rightarrow> reboot_ctl \<Rightarrow> reboot_ctl" where
  "reboot_step_due gpio v evt t s = (if reboot_due t (reboot_pc s) then reboot_thread gpio v evt s else s)"

definition reboot_until :: "gpio \<Rightarrow> hw_version \<Rightarrow> bool \<Rightarrow> nat \<Rightarrow> reboot_ctl \<Rightarrow> reboot_ctl" where
  "reboot_until gpio v evt t s =
    (let s1 = (reboot_step_due gpio v evt t ^^ 3) s in case reboot_pc s1 of RB_RESET _ \<Rightarrow> s1 | _ \<Rightarrow> s1\<lparr>reboot_now := t\<rparr>)"


lemma reboot_sleep_ms_eq:
  assumes "1 \<le> d" "d \<le> 2147483"
  shows "reboot_sleep_ms d = 1000 * d - 200"
proof -
  have "sint (word_of_int (int d * 1000 - 200) :: u32) = int d * 1000 - 200"
    unfolding sint_sbintrunc' using assms by (intro signed_take_bit_int_eq_self) simp_all
  then show ?thesis using assms by (simp add: reboot_sleep_ms_def SYSTEM_RESET_UI_DELAY_MS_def nat_diff_distrib nat_mult_distrib)
qed

text \<open>When the system will be reset if nothing else happens.\<close>

definition reset_at :: "reboot_pc \<Rightarrow> nat option" where
  "reset_at pc =
    (case pc of
       RB_FIRST t delay \<Rightarrow> Some (t + reboot_sleep_ms (delay - 1) + 200)
     | RB_SLEEP t \<Rightarrow> Some (t + 200)
     | RB_LAST t \<Rightarrow> Some t
     | RB_RESET t \<Rightarrow> Some t
     | _ \<Rightarrow> None)"

definition reboot_stage :: "reboot_pc \<Rightarrow> nat" where
  "reboot_stage pc = (case pc of RB_FIRST _ _ \<Rightarrow> 3 | RB_SLEEP _ \<Rightarrow> 2 | RB_LAST _ \<Rightarrow> 1 | _ \<Rightarrow> 0)"

abbreviation no_shutdown :: "reboot_ctl \<Rightarrow> bool" where
  "no_shutdown s \<equiv> jetson_shutdown_req s \<longrightarrow> system_reset_pin s"

lemma reboot_loop_sleeps:
  "no_shutdown s \<Longrightarrow> reboot_pc (reboot_loop gpio v evt s) = RB_SLEEP (reboot_now s + reboot_sleep_ms (reboot_delay_s s)) \<and>
    no_shutdown (reboot_loop gpio v evt s) \<and> reboot_now (reboot_loop gpio v evt s) = reboot_now s"
  by (auto simp: reboot_loop_def Let_def)

lemma reboot_thread_step:
  assumes "no_shutdown s" and "reset_at (reboot_pc s) = Some r" and "0 < reboot_stage (reboot_pc s)"
  shows "no_shutdown (reboot_thread gpio v evt s) \<and> reset_at (reboot_pc (reboot_thread gpio v evt s)) = Some r \<and>
    reboot_stage (reboot_pc (reboot_thread gpio v evt s)) = reboot_stage (reboot_pc s) - 1"
proof (cases "reboot_pc s")
  case (RB_FIRST t delay)
  have "no_shutdown (s\<lparr>reboot_now := t, reboot_delay_s := delay - 1\<rparr>)" using assms(1) by simp
  from reboot_loop_sleeps [OF this, of gpio v evt] show ?thesis using assms RB_FIRST
    by (simp add: reboot_thread_def reboot_first_done_def reset_at_def reboot_stage_def)
qed (use assms in \<open>simp_all add: reboot_thread_def reboot_slept_def reboot_reset_def reset_at_def reboot_stage_def
      SYSTEM_RESET_UI_DELAY_MS_def\<close>)

lemma reboot_due_reset: "reset_at pc = Some r \<Longrightarrow> r \<le> t \<Longrightarrow> 0 < reboot_stage pc \<Longrightarrow> reboot_due t pc"
  by (cases pc) (auto simp: reset_at_def reboot_due_def reboot_stage_def)

lemma reboot_stage_0: "reboot_stage pc = 0 \<Longrightarrow> reset_at pc = Some r \<Longrightarrow> pc = RB_RESET r"
  by (cases pc) (auto simp: reset_at_def reboot_stage_def)

lemma reboot_steps:
  "no_shutdown s \<Longrightarrow> reset_at (reboot_pc s) = Some r \<Longrightarrow>
    no_shutdown ((reboot_step_due gpio v evt t ^^ n) s) \<and> reset_at (reboot_pc ((reboot_step_due gpio v evt t ^^ n) s)) = Some r \<and>
    (r \<le> t \<longrightarrow> reboot_stage (reboot_pc ((reboot_step_due gpio v evt t ^^ n) s)) = reboot_stage (reboot_pc s) - n)"
proof (induction n)
  case (Suc n)
  let ?s = "(reboot_step_due gpio v evt t ^^ n) s"
  have ih: "no_shutdown ?s" "reset_at (reboot_pc ?s) = Some r"
    "r \<le> t \<longrightarrow> reboot_stage (reboot_pc ?s) = reboot_stage (reboot_pc s) - n" using Suc by simp_all
  show ?case
  proof (cases "reboot_due t (reboot_pc ?s)")
    case True
    then have "0 < reboot_stage (reboot_pc ?s)" by (cases "reboot_pc ?s") (simp_all add: reboot_due_def reboot_stage_def)
    moreover have "(reboot_step_due gpio v evt t ^^ Suc n) s = reboot_thread gpio v evt ?s"
      using True by (simp, subst reboot_step_due_def, simp)
    ultimately show ?thesis using reboot_thread_step [OF ih(1,2), of gpio v evt] ih(3) by simp
  next
    case False
    have "(reboot_step_due gpio v evt t ^^ Suc n) s = ?s" using False by (simp, subst reboot_step_due_def, simp)
    moreover have "r \<le> t \<longrightarrow> reboot_stage (reboot_pc ?s) = 0" using reboot_due_reset [OF ih(2), of t] False by auto
    ultimately show ?thesis using ih by auto
  qed
qed simp

lemma reboot_not_before:
  "no_shutdown s \<Longrightarrow> reset_at (reboot_pc s) = Some r \<Longrightarrow> t < r \<Longrightarrow> 0 < reboot_stage (reboot_pc s) \<Longrightarrow>
    0 < reboot_stage (reboot_pc ((reboot_step_due gpio v evt t ^^ n) s))"
proof (induction n)
  case (Suc n)
  let ?s = "(reboot_step_due gpio v evt t ^^ n) s"
  have st: "0 < reboot_stage (reboot_pc ?s)" using Suc by simp
  have ih: "no_shutdown ?s" "reset_at (reboot_pc ?s) = Some r" using reboot_steps [of s r n gpio v evt t] Suc.prems by simp_all
  show ?case
  proof (cases "reboot_due t (reboot_pc ?s)")
    case True
    then have "reboot_stage (reboot_pc ?s) \<noteq> 1" using ih(2) Suc.prems(3)
      by (cases "reboot_pc ?s") (auto simp: reboot_due_def reboot_stage_def reset_at_def)
    moreover have "(reboot_step_due gpio v evt t ^^ Suc n) s = reboot_thread gpio v evt ?s"
      using True by (simp, subst reboot_step_due_def, simp)
    ultimately show ?thesis using reboot_thread_step [OF ih st, of gpio v evt] st by simp
  next
    case False
    have "(reboot_step_due gpio v evt t ^^ Suc n) s = ?s" using False by (simp, subst reboot_step_due_def, simp)
    then show ?thesis using st by simp
  qed
qed simp

lemma reboot_until_reset:
  assumes "no_shutdown s" and "reset_at (reboot_pc s) = Some r" and "0 < reboot_stage (reboot_pc s)"
  shows "(\<exists>u. reboot_pc (reboot_until gpio v evt t s) = RB_RESET u) \<longleftrightarrow> r \<le> t"
    and "r \<le> t \<Longrightarrow> reboot_pc (reboot_until gpio v evt t s) = RB_RESET r"
proof -
  let ?s = "(reboot_step_due gpio v evt t ^^ 3) s"
  have pc: "reboot_pc (reboot_until gpio v evt t s) = reboot_pc ?s"
    by (simp add: reboot_until_def Let_def split: reboot_pc.split)
  have le: "reboot_stage (reboot_pc s) \<le> 3" by (cases "reboot_pc s") (simp_all add: reboot_stage_def)
  show r: "reboot_pc (reboot_until gpio v evt t s) = RB_RESET r" if "r \<le> t"
    using reboot_steps [OF assms(1,2), of 3 gpio v evt t] reboot_stage_0 [of "reboot_pc ?s" r] le that by (simp add: pc)
  show "(\<exists>u. reboot_pc (reboot_until gpio v evt t s) = RB_RESET u) \<longleftrightarrow> r \<le> t"
  proof
    assume "\<exists>u. reboot_pc (reboot_until gpio v evt t s) = RB_RESET u"
    then have "reboot_stage (reboot_pc ?s) = 0" by (auto simp: pc reboot_stage_def)
    then show "r \<le> t" using reboot_not_before [OF assms(1,2) _ assms(3), of t 3 gpio v evt] by linarith
  qed (use r in blast)
qed

text \<open>The state after a request, and at a time before the reset.\<close>

lemma reboot_requested:
  assumes "reboot_pc s = RB_WAIT" and "no_shutdown s" and "1 \<le> d" and "d \<le> 2147483"
  shows "reboot_pc (snd (reboot gpio v evt True d s)) =
      (if 1 < d then RB_FIRST (reboot_now s + 1000) d else RB_SLEEP (reboot_now s + 800))"
    and "no_shutdown (snd (reboot gpio v evt True d s))" and "reboot_now (snd (reboot gpio v evt True d s)) = reboot_now s"
proof -
  let ?s = "s\<lparr>reboot_delay_s := d, sem_reboot := False\<rparr>"
  have sl: "reboot_pc (reboot_loop gpio v evt ?s) = RB_SLEEP (reboot_now s + reboot_sleep_ms d) \<and>
      no_shutdown (reboot_loop gpio v evt ?s) \<and> reboot_now (reboot_loop gpio v evt ?s) = reboot_now s"
    using reboot_loop_sleeps [of ?s gpio v evt] assms(2) by simp
  have ms: "reboot_sleep_ms d = 1000 * d - 200" by (rule reboot_sleep_ms_eq [OF assms(3,4)])
  have r: "snd (reboot gpio v evt True d s) =
      (if 1 < d then ?s\<lparr>reboot_pc := RB_FIRST (reboot_now s + 1000) d\<rparr> else reboot_loop gpio v evt ?s)"
    using assms(1) by (simp add: reboot_def reboot_wakeup_def reboot_thread_def reboot_taken_def Let_def)
  show "reboot_pc (snd (reboot gpio v evt True d s)) =
      (if 1 < d then RB_FIRST (reboot_now s + 1000) d else RB_SLEEP (reboot_now s + 800))"
    using sl ms assms(3) unfolding r by auto
  show "no_shutdown (snd (reboot gpio v evt True d s))" using sl assms(2) unfolding r by simp
  show "reboot_now (snd (reboot gpio v evt True d s)) = reboot_now s" using sl unfolding r by simp
qed

lemma reboot_requested_reset_at:
  assumes "reboot_pc s = RB_WAIT" and "no_shutdown s" and "1 \<le> d" and "d \<le> 2147483"
  shows "reset_at (reboot_pc (snd (reboot gpio v evt True d s))) = Some (reboot_now s + 1000 * d)"
  using reboot_requested [OF assms, of gpio v evt] reboot_sleep_ms_eq [of "d - 1"] assms(3,4)
  by (auto simp: reset_at_def)

lemma reboot_requested_stage:
  assumes "reboot_pc s = RB_WAIT" and "no_shutdown s" and "1 \<le> d" and "d \<le> 2147483"
  shows "0 < reboot_stage (reboot_pc (snd (reboot gpio v evt True d s)))"
  using reboot_requested(1) [OF assms, of gpio v evt] by (simp add: reboot_stage_def)

text \<open>
  When the thread waits and no shutdown of the Jetson is under way, a request with a delay of 1 to
  2147483 seconds resets the system exactly when that delay has passed, unless another call intervenes.
\<close>

theorem reboot_on_time:
  assumes "reboot_pc s = RB_WAIT" and "no_shutdown s" and "1 \<le> d" and "d \<le> 2147483"
  shows "fst (reboot gpio v evt True d s) = RET_SUCCESS \<and>
    ((\<exists>u. reboot_pc (reboot_until gpio v evt t (snd (reboot gpio v evt True d s))) = RB_RESET u) \<longleftrightarrow>
      reboot_now s + 1000 * d \<le> t)"
proof
  show "fst (reboot gpio v evt True d s) = RET_SUCCESS" by (simp add: reboot_def Let_def)
qed (rule reboot_until_reset(1) [OF reboot_requested(2) reboot_requested_reset_at reboot_requested_stage, OF assms assms assms])

text \<open>A request during the first second of a long delay, and during the sleep before the reset.\<close>

lemma reboot_again_first:
  assumes "reboot_pc s = RB_FIRST u d" and "no_shutdown s"
  shows "reboot_pc (snd (reboot gpio v evt True d' s)) = RB_SLEEP (reboot_now s + reboot_sleep_ms (d - 1)) \<and>
    no_shutdown (snd (reboot gpio v evt True d' s))"
  using assms reboot_loop_sleeps [of "s\<lparr>reboot_delay_s := d - 1\<rparr>" gpio v evt]
  by (simp add: reboot_def reboot_wakeup_def reboot_first_done_def Let_def)

lemma reboot_again_sleep:
  assumes "reboot_pc s = RB_SLEEP u" and "no_shutdown s"
  shows "reboot_pc (snd (reboot gpio v evt True d' s)) = RB_SLEEP (reboot_now s + reboot_sleep_ms d') \<and>
    no_shutdown (snd (reboot gpio v evt True d' s))"
  using assms reboot_loop_sleeps [of "s\<lparr>reboot_delay_s := d'\<rparr>" gpio v evt]
  by (simp add: reboot_def reboot_wakeup_def Let_def)

lemma reboot_until_first:
  assumes "reboot_pc s = RB_FIRST u d" and "t < u"
  shows "reboot_until gpio v evt t s = s\<lparr>reboot_now := t\<rparr>"
  using assms by (simp add: reboot_until_def reboot_step_due_def reboot_due_def eval_nat_numeral)

lemma reboot_until_sleep:
  assumes "reboot_pc s = RB_SLEEP u" and "t < u"
  shows "reboot_until gpio v evt t s = s\<lparr>reboot_now := t\<rparr>"
  using assms by (simp add: reboot_until_def reboot_step_due_def reboot_due_def eval_nat_numeral)

lemma reboot_until_second:
  assumes "reboot_pc s = RB_FIRST u d" and "u \<le> t" and "t < u + reboot_sleep_ms (d - 1)" and "no_shutdown s"
  shows "reboot_pc (reboot_until gpio v evt t s) = RB_SLEEP (u + reboot_sleep_ms (d - 1)) \<and>
    no_shutdown (reboot_until gpio v evt t s) \<and> reboot_now (reboot_until gpio v evt t s) = t"
proof -
  let ?s = "reboot_loop gpio v evt (s\<lparr>reboot_now := u, reboot_delay_s := d - 1\<rparr>)"
  have l: "reboot_pc ?s = RB_SLEEP (u + reboot_sleep_ms (d - 1))" "no_shutdown ?s"
    using reboot_loop_sleeps [of "s\<lparr>reboot_now := u, reboot_delay_s := d - 1\<rparr>" gpio v evt] assms(4) by simp_all
  have "reboot_step_due gpio v evt t s = ?s"
    using assms(1,2) by (simp add: reboot_step_due_def reboot_due_def reboot_thread_def reboot_first_done_def)
  moreover have "reboot_step_due gpio v evt t ?s = ?s"
    using l(1) assms(3) by (simp add: reboot_step_due_def reboot_due_def)
  ultimately have "reboot_until gpio v evt t s = ?s\<lparr>reboot_now := t\<rparr>"
    using l(1) by (simp add: reboot_until_def eval_nat_numeral)
  then show ?thesis using l by simp
qed

text \<open>
  C18. With the thread waiting, no shutdown of the Jetson pending and delays of 1 to 2147483 seconds: a second request that comes more than
  200 ms before the first is due replaces it and resets the system when its own delay has passed since; but in
  the first second of a delay above one second it only makes the reboot come the first delay less one
  second after the second request, and its own delay is lost.
\<close>

theorem reboot_request_replaced:
  assumes "reboot_pc s = RB_WAIT" and "no_shutdown s" and "1 \<le> d" and "d \<le> 2147483" and "1 \<le> d'" and "d' \<le> 2147483"
    and "reboot_now s \<le> t'" and "t' + 200 < reboot_now s + 1000 * d"
  shows "(\<exists>u. reboot_pc (reboot_until gpio v evt t (snd (reboot gpio v evt True d'
        (reboot_until gpio v evt t' (snd (reboot gpio v evt True d s)))))) = RB_RESET u) \<longleftrightarrow>
    (if 1 < d \<and> t' < reboot_now s + 1000 then t' + 1000 * (d - 1) else t' + 1000 * d') \<le> t"
proof -
  let ?s1 = "snd (reboot gpio v evt True d s)"
  let ?s2 = "reboot_until gpio v evt t' ?s1"
  let ?s3 = "snd (reboot gpio v evt True d' ?s2)"
  note r = reboot_requested [OF assms(1-4), of gpio v evt]
  have ms': "reboot_sleep_ms d' = 1000 * d' - 200" by (rule reboot_sleep_ms_eq [OF assms(5,6)])
  have "reboot_pc ?s3 = RB_SLEEP (if 1 < d \<and> t' < reboot_now s + 1000 then t' + reboot_sleep_ms (d - 1) else t' + reboot_sleep_ms d') \<and>
      no_shutdown ?s3"
  proof (cases "1 < d")
    case True
    have ms: "reboot_sleep_ms (d - 1) = 1000 * (d - 1) - 200" using True assms(4) by (intro reboot_sleep_ms_eq) simp_all
    have pc: "reboot_pc ?s1 = RB_FIRST (reboot_now s + 1000) d" using r(1) True by simp
    show ?thesis
    proof (cases "t' < reboot_now s + 1000")
      case early: True
      then have s2: "?s2 = ?s1\<lparr>reboot_now := t'\<rparr>" by (rule reboot_until_first [OF pc])
      have "reboot_pc ?s2 = RB_FIRST (reboot_now s + 1000) d" "no_shutdown ?s2" "reboot_now ?s2 = t'"
        unfolding s2 using pc r(2) by simp_all
      then show ?thesis using reboot_again_first [of ?s2 _ d gpio v evt d'] True early by simp
    next
      case late: False
      then have s2: "reboot_pc ?s2 = RB_SLEEP (reboot_now s + 1000 + reboot_sleep_ms (d - 1)) \<and> no_shutdown ?s2 \<and> reboot_now ?s2 = t'"
        using assms(8) True unfolding ms by (intro reboot_until_second [OF pc _ _ r(2), unfolded ms]) linarith+
      then show ?thesis using reboot_again_sleep [of ?s2 _ gpio v evt d'] late by simp
    qed
  next
    case False
    then have pc: "reboot_pc ?s1 = RB_SLEEP (reboot_now s + 800)" and d: "d = 1" using r(1) assms(3) by simp_all
    have s2: "?s2 = ?s1\<lparr>reboot_now := t'\<rparr>" using assms(8) d by (intro reboot_until_sleep [OF pc]) simp
    have "reboot_pc ?s2 = RB_SLEEP (reboot_now s + 800)" "no_shutdown ?s2" "reboot_now ?s2 = t'"
      unfolding s2 using pc r(2) by simp_all
    then show ?thesis using reboot_again_sleep [of ?s2 _ gpio v evt d'] False by simp
  qed
  then obtain u where u: "reboot_pc ?s3 = RB_SLEEP u" "no_shutdown ?s3"
      "u + 200 = (if 1 < d \<and> t' < reboot_now s + 1000 then t' + 1000 * (d - 1) else t' + 1000 * d')"
    using ms' assms(3-6) reboot_sleep_ms_eq [of "d - 1"] by (cases "1 < d \<and> t' < reboot_now s + 1000") auto
  then show ?thesis
    using reboot_until_reset(1) [of ?s3 "u + 200" gpio v evt t] by (simp add: reset_at_def reboot_stage_def)
qed

definition reboot_example :: reboot_ctl where
  "reboot_example = \<lparr>reboot_pc = RB_WAIT, reboot_delay_s = 0, jetson_shutdown_req = False, sem_reboot = False,
     system_reset_pin = False, reboot_pins = Map.empty, reboot_fan = fan_power_on, reboot_now = 50\<rparr>"

lemma reboot_on_time_witness:
  "(\<exists>u. reboot_pc (reboot_until (\<lambda>_. 0) HW_VERSION_OTHER True 10050 (snd (reboot (\<lambda>_. 0) HW_VERSION_OTHER True True 10 reboot_example))) = RB_RESET u)"
  using reboot_on_time [of reboot_example 10 "\<lambda>_. 0" HW_VERSION_OTHER True 10050] by (simp add: reboot_example_def)

lemma reboot_request_replaced_witness:
  "(\<exists>u. reboot_pc (reboot_until (\<lambda>_. 0) HW_VERSION_OTHER True 9550 (snd (reboot (\<lambda>_. 0) HW_VERSION_OTHER True True 1
      (reboot_until (\<lambda>_. 0) HW_VERSION_OTHER True 550 (snd (reboot (\<lambda>_. 0) HW_VERSION_OTHER True True 10 reboot_example)))))) = RB_RESET u)"
  using reboot_request_replaced [of reboot_example 10 1 550 "\<lambda>_. 0" HW_VERSION_OTHER True 9550] by (simp add: reboot_example_def)

end
