(* ===== verification/Flash_Driver.thy ===== *)
theory Flash_Driver
  imports Orb_Prelude
begin

text \<open>
  The flash map API of the operating system, which the storage and the firmware update
  libraries call and which is not part of the repository. It is a parameter of their
  models: a record of its functions over an abstract device state \<open>'f\<close>. The locale
  \<open>nor_flash\<close> states what its documentation promises of a call that reports success; the
  locale \<open>reliable_flash\<close> adds when a call must succeed. A byte-accurate NOR flash
  (erase to ones, program whole blocks, refuse to program a block twice except with zeros,
  as the comment at the top of \<^verbatim>\<open>lib/storage/include/storage.h\<close> describes for the
  STM32) satisfies both.
\<close>

subsection \<open>The interface\<close>

text \<open>
  \<open>flash_area_read d f off buf\<close> is the return value and the buffer after a read of
  \<open>length buf\<close> bytes at \<open>off\<close>; a failing read may leave anything in the buffer.
  \<open>flash_area_open\<close> is the return value of opening the partition.
\<close>

record 'f flash_driver =
  fa_size :: nat
  write_block_size :: nat
  flash_area_open :: int
  flash_area_read :: "'f \<Rightarrow> nat \<Rightarrow> u8 list \<Rightarrow> int \<times> u8 list"
  flash_area_write :: "'f \<Rightarrow> nat \<Rightarrow> u8 list \<Rightarrow> int \<times> 'f"
  flash_area_erase :: "'f \<Rightarrow> nat \<Rightarrow> nat \<Rightarrow> int \<times> 'f"

abbreviation erased_byte :: u8 where
  "erased_byte \<equiv> 0xFF"

definition erased_from :: "nat \<Rightarrow> u8 list \<Rightarrow> bool" where
  "erased_from off m \<longleftrightarrow> list_all (\<lambda>b. b = erased_byte) (drop off m)"

definition erased_range :: "nat \<Rightarrow> nat \<Rightarrow> u8 list \<Rightarrow> bool" where
  "erased_range off n m \<longleftrightarrow> mem_get off n m = replicate n erased_byte"

text \<open>\<open>mem\<close> gives the bytes a device state holds.\<close>

locale nor_flash =
  fixes d :: "'f flash_driver"
    and mem :: "'f \<Rightarrow> u8 list"
  assumes block_pos: "0 < write_block_size d"
    and length_mem [simp]: "length (mem f) = fa_size d"
    and read_sound: "flash_area_read d f off buf = (0, buf') \<Longrightarrow>
      off + length buf \<le> fa_size d \<and> buf' = mem_get off (length buf) (mem f)"
    and write_sound: "flash_area_write d f off xs = (0, f') \<Longrightarrow>
      off + length xs \<le> fa_size d \<and> mem f' = mem_put off xs (mem f)"
    and erase_sound: "flash_area_erase d f off n = (0, f') \<Longrightarrow>
      off + n \<le> fa_size d \<and> mem f' = mem_put off (replicate n erased_byte) (mem f)"

locale reliable_flash = nor_flash +
  assumes read_ok: "off + length buf \<le> fa_size d \<Longrightarrow> fst (flash_area_read d f off buf) = 0"
    and write_erased_ok: "write_block_size d dvd off \<Longrightarrow> write_block_size d dvd length xs \<Longrightarrow>
      off + length xs \<le> fa_size d \<Longrightarrow> erased_range off (length xs) (mem f) \<Longrightarrow>
      fst (flash_area_write d f off xs) = 0"
    and write_zeros_ok: "write_block_size d dvd off \<Longrightarrow> write_block_size d dvd n \<Longrightarrow>
      off + n \<le> fa_size d \<Longrightarrow> fst (flash_area_write d f off (replicate n 0)) = 0"
    and erase_all_ok: "fst (flash_area_erase d f 0 (fa_size d)) = 0"

subsection \<open>A NOR flash device\<close>

text \<open>
  The device state is the list of its bytes, read through \<open>sim_mem\<close>, which fixes its
  length; \<open>-22\<close> and \<open>-5\<close> stand for \<^verbatim>\<open>-EINVAL\<close> and \<^verbatim>\<open>-EIO\<close>.
\<close>

definition sim_mem :: "nat \<Rightarrow> u8 list \<Rightarrow> u8 list" where
  "sim_mem n f = take n (f @ replicate n erased_byte)"

fun sim_blocks_ok :: "nat \<Rightarrow> u8 list \<Rightarrow> u8 list \<Rightarrow> bool" where
  "sim_blocks_ok b old new =
     (if old = [] \<or> b = 0 then True
      else (take b old = replicate (length (take b old)) erased_byte \<or>
            take b new = replicate (length (take b new)) 0) \<and>
           sim_blocks_ok b (drop b old) (drop b new))"

declare sim_blocks_ok.simps [simp del]

definition sim_flash :: "nat \<Rightarrow> nat \<Rightarrow> u8 list flash_driver" where
  "sim_flash n b = \<lparr>
     fa_size = n,
     write_block_size = b,
     flash_area_open = 0,
     flash_area_read = (\<lambda>f off buf.
       if off + length buf \<le> n then (0, mem_get off (length buf) (sim_mem n f)) else (-22, buf)),
     flash_area_write = (\<lambda>f off xs.
       if off + length xs \<le> n \<and> off mod b = 0 \<and> length xs mod b = 0
       then if sim_blocks_ok b (mem_get off (length xs) (sim_mem n f)) xs
            then (0, mem_put off xs (sim_mem n f)) else (-5, f)
       else (-22, f)),
     flash_area_erase = (\<lambda>f off k.
       if off + k \<le> n then (0, mem_put off (replicate k erased_byte) (sim_mem n f)) else (-22, f))\<rparr>"

lemma sim_flash_simps [simp]:
  "fa_size (sim_flash n b) = n" "write_block_size (sim_flash n b) = b"
  "flash_area_open (sim_flash n b) = 0"
  by (simp_all add: sim_flash_def)

lemma length_sim_mem [simp]: "length (sim_mem n f) = n"
  by (simp add: sim_mem_def)

lemma sim_mem_id [simp]: "length f = n \<Longrightarrow> sim_mem n f = f"
  by (simp add: sim_mem_def)

lemma sim_blocks_ok_erased: "sim_blocks_ok b (replicate k erased_byte) xs"
proof (induction b "replicate k erased_byte" xs arbitrary: k rule: sim_blocks_ok.induct)
  case (1 b xs)
  then show ?case
    by (subst sim_blocks_ok.simps) (auto simp: min_def)
qed

lemma sim_blocks_ok_zeros: "sim_blocks_ok b old (replicate k 0)"
proof (induction b old "replicate k (0 :: u8)" arbitrary: k rule: sim_blocks_ok.induct)
  case (1 b old)
  then show ?case
    by (subst sim_blocks_ok.simps) (auto simp: min_def)
qed

lemma reliable_sim: "0 < b \<Longrightarrow> reliable_flash (sim_flash n b) (sim_mem n)"
  by unfold_locales
    (auto simp: sim_flash_def erased_range_def mod_eq_0_iff_dvd sim_blocks_ok_erased
      sim_blocks_ok_zeros split: if_splits)

interpretation pearl_flash: reliable_flash "sim_flash 4096 8" "sim_mem 4096"
  by (rule reliable_sim) simp

subsection \<open>Consequences of the laws\<close>

lemma erased_from_mono: "erased_from off m \<Longrightarrow> off \<le> a \<Longrightarrow> erased_from a m"
  unfolding erased_from_def list_all_iff using set_drop_subset_set_drop by fastforce

lemma erased_from_range:
  assumes "erased_from off m" and "off \<le> a" and "a + n \<le> length m"
  shows "erased_range a n m"
proof -
  have "set (drop a m) \<subseteq> {erased_byte}"
    using erased_from_mono [OF assms(1,2)] by (auto simp: erased_from_def list_all_iff)
  then show ?thesis unfolding erased_range_def using assms(3) by (rule mem_get_replicateI)
qed

lemma erased_from_put:
  assumes "erased_from off m" and "off \<le> a" and "a + length xs \<le> length m"
  shows "erased_from (a + length xs) (mem_put a xs m)"
  using erased_from_mono [OF assms(1), of "a + length xs"] assms(2,3)
  by (simp add: erased_from_def mem_put_def)

lemma erased_range_prefix:
  "erased_range a n m \<Longrightarrow> k \<le> n \<Longrightarrow> erased_range a k m"
  using mem_get_mem_get [of 0 k n a m] by (simp add: erased_range_def mem_get_def)

lemma erased_range_suffix:
  "erased_range a n m \<Longrightarrow> i \<le> n \<Longrightarrow> erased_range (a + i) (n - i) m"
  using mem_get_mem_get [of i "n - i" n a m] by (simp add: erased_range_def mem_get_def)

lemma erased_range_append:
  "erased_range a n m \<Longrightarrow> erased_range (a + n) k m \<Longrightarrow> erased_range a (n + k) m"
  using mem_get_append [of a n m k] by (simp add: erased_range_def replicate_add)

lemma erased_range_put_before:
  "off + length xs \<le> a \<Longrightarrow> off + length xs \<le> length m \<Longrightarrow>
   erased_range a n (mem_put off xs m) \<longleftrightarrow> erased_range a n m"
  by (simp add: erased_range_def mem_get_mem_put_after)

lemma erased_range_put_after:
  "a + n \<le> off \<Longrightarrow> off + length xs \<le> length m \<Longrightarrow>
   erased_range a n (mem_put off xs m) \<longleftrightarrow> erased_range a n m"
  by (simp add: erased_range_def mem_get_mem_put_before)

context nor_flash
begin

lemma read_get [flash_laws]:
  "flash_area_read d f off buf = (0, buf') \<Longrightarrow> buf' = mem_get off (length buf) (mem f)"
  using read_sound by blast

lemma write_put [flash_laws]:
  "flash_area_write d f off xs = (0, f') \<Longrightarrow> mem f' = mem_put off xs (mem f)"
  using write_sound by blast

lemma erase_all [flash_laws]:
  "flash_area_erase d f 0 (fa_size d) = (0, f') \<Longrightarrow> mem f' = replicate (fa_size d) erased_byte"
  using erase_sound by fastforce

end

context reliable_flash
begin

lemma read_total:
  "off + length buf \<le> fa_size d \<Longrightarrow>
   flash_area_read d f off buf = (0, mem_get off (length buf) (mem f))"
  using read_ok [of off buf f] read_get [of f off buf] by (cases "flash_area_read d f off buf") auto

lemma erase_total:
  obtains f' where "flash_area_erase d f 0 (fa_size d) = (0, f')"
    and "mem f' = replicate (fa_size d) erased_byte"
  using erase_all_ok [of f] erase_all [of f] by (cases "flash_area_erase d f 0 (fa_size d)") auto

end

end
