(* ===== verification/Dfu.thy ===== *)
theory Dfu
  imports Kernel Flash_Driver
begin

text \<open>
  \<^verbatim>\<open>lib/dfu\<close>: the firmware update. Image blocks arrive one by one through
  \<open>dfu_load\<close>, are gathered in a buffer, and a thread writes them in 64-byte chunks to
  the secondary slot, erasing sector by sector. When the last block is written the image
  can be checked against a CRC and activated.

  Parameters: the flash driver \<open>d\<close> of the slot, the semaphores \<open>k\<close>, the sizes that come from
  the message definitions and the devicetree (\<open>dfu_cfg\<close>), the image format of the boot
  loader (\<open>mcuboot\<close>) and the checksum. The two semaphores hand the state from the calls, which run in the
  thread of the job runner, to the processing thread. A call is one step; a turn of the processing
  thread is one step in \<open>process_dfu_blocks_thread\<close> and is taken apart in \<open>dfu_thread_step\<close>,
  since activation clears the state without a semaphore.
\<close>

subsection \<open>Configuration and state\<close>

record dfu_cfg =
  DFU_BLOCK_SIZE_MAX :: nat
  DFU_FLASH_SECTOR_SIZE :: nat
  DFU_FLASH_PAGE_SIZE :: nat

abbreviation DFU_BLOCKS_WRITE_SIZE :: nat where
  "DFU_BLOCKS_WRITE_SIZE \<equiv> 64"

definition DFU_BLOCKS_BUFFER_MIN_SIZE :: "dfu_cfg \<Rightarrow> nat" where
  "DFU_BLOCKS_BUFFER_MIN_SIZE c = DFU_BLOCKS_WRITE_SIZE - 1 + DFU_BLOCK_SIZE_MAX c"

definition DFU_BLOCKS_BUFFER_SIZE :: "dfu_cfg \<Rightarrow> nat" where
  "DFU_BLOCKS_BUFFER_SIZE c = DFU_BLOCKS_BUFFER_MIN_SIZE c + 8 - DFU_BLOCKS_BUFFER_MIN_SIZE c mod 8"

datatype dfu_state_e = DFU_IN_PROGRESS | DFU_FINISHED_VERIFY

text \<open>\<open>dfu_cb\<close> holds the callback together with its context.\<close>

record 'cb dfu_state_t =
  dfu_bytes :: "u8 list"
  dfu_wr_idx :: nat
  block_number :: u32
  block_count :: u32
  flash_offset :: nat
  expected_crc32 :: u32
  dfu_cb :: "'cb option"
  dfu_phase :: dfu_state_e

definition dfu_state_zero :: "dfu_cfg \<Rightarrow> 'cb dfu_state_t" where
  "dfu_state_zero c = \<lparr>dfu_bytes = replicate (DFU_BLOCKS_BUFFER_SIZE c) 0, dfu_wr_idx = 0,
     block_number = 0, block_count = 0, flash_offset = 0, expected_crc32 = 0, dfu_cb = None,
     dfu_phase = DFU_IN_PROGRESS\<rparr>"

text \<open>The part of the boot loader's image header the code uses.\<close>

record image_version =
  iv_major :: u8
  iv_minor :: u8
  iv_revision :: u16
  iv_build_num :: u32

record image_header =
  ih_magic :: u32
  ih_hdr_size :: u16
  ih_img_size :: u32
  ih_ver :: image_version

text \<open>Layout and constants of the boot loader.\<close>

record mcuboot =
  header_len :: nat
  parse_header :: "u8 list \<Rightarrow> image_header"
  IMAGE_MAGIC :: u32
  tlv_len :: nat
  parse_tlv :: "u8 list \<Rightarrow> u16 \<times> u16"
  IMAGE_TLV_INFO_MAGIC :: u16
  IMAGE_TLV_PROT_INFO_MAGIC :: u16
  BOOT_SWAP_TYPE_TEST :: int
  BOOT_SWAP_TYPE_PERM :: int

text \<open>
  The module's variables. The two headers are kept as the bytes read from flash;
  \<open>slot0\<close> and \<open>slot1\<close> are the primary and the secondary slot.
\<close>

record ('s, 'f, 'cb) dfu =
  dfu_state :: "'cb dfu_state_t"
  sem_dfu_free_space :: 's
  sem_dfu_full :: 's
  tid_dfu :: bool
  slot0 :: 'f
  slot1 :: 'f
  primary_slot_header :: "u8 list"
  secondary_slot_header :: "u8 list"

datatype dfu_ret = Ret ret_code_t | In_Progress

subsection \<open>Receiving blocks\<close>

definition dfu_load_params_ok :: "dfu_cfg \<Rightarrow> u32 \<Rightarrow> u32 \<Rightarrow> nat \<Rightarrow> 'cb dfu_state_t \<Rightarrow> bool" where
  "dfu_load_params_ok c n count sz st \<longleftrightarrow>
     \<not> ((n \<noteq> 0 \<and> n \<noteq> block_number st + 1) \<or> count < n \<or> DFU_BLOCK_SIZE_MAX c < sz \<or>
        DFU_BLOCKS_BUFFER_SIZE c < sz \<or> (block_count st = 0 \<and> n \<noteq> 0))"

definition dfu_new_image :: "u32 \<Rightarrow> 'cb dfu_state_t \<Rightarrow> 'cb dfu_state_t" where
  "dfu_new_image count st = st\<lparr>block_count := count, flash_offset := 0, dfu_wr_idx := 0,
     expected_crc32 := 0, dfu_phase := DFU_IN_PROGRESS\<rparr>"

definition dfu_load ::
  "dfu_cfg \<Rightarrow> 's sem_api \<Rightarrow> u32 \<Rightarrow> u32 \<Rightarrow> u8 list \<Rightarrow> 'cb option \<Rightarrow> ('s, 'f, 'cb) dfu
   \<Rightarrow> dfu_ret \<times> ('s, 'f, 'cb) dfu" where
  "dfu_load c k n count data cb s =
     (if \<not> dfu_load_params_ok c n count (length data) (dfu_state s) then (Ret RET_ERROR_INVALID_PARAM, s)
      else
        let (taken, free) = k_sem_take k (sem_dfu_free_space s)
        in if \<not> taken then (Ret RET_ERROR_BUSY, s\<lparr>sem_dfu_free_space := free\<rparr>)
           else
             let st = (if n = 0 then dfu_new_image count (dfu_state s) else dfu_state s)\<lparr>block_number := n\<rparr>;
                 s1 = s\<lparr>sem_dfu_free_space := free, dfu_state := st, tid_dfu := tid_dfu s \<or> n = 0\<rparr>
             in if DFU_BLOCKS_BUFFER_SIZE c < dfu_wr_idx st + length data
                then (Ret RET_ERROR_NO_MEM, s1\<lparr>sem_dfu_free_space := k_sem_give k free\<rparr>)
                else
                  let st1 = st\<lparr>dfu_bytes := mem_put (dfu_wr_idx st) data (dfu_bytes st),
                              dfu_wr_idx := dfu_wr_idx st + length data, dfu_cb := cb\<rparr>;
                      s2 = s1\<lparr>dfu_state := st1\<rparr>
                  in if DFU_BLOCKS_WRITE_SIZE \<le> dfu_wr_idx st1 \<or> block_number st1 = block_count st1 - 1
                     then (In_Progress, s2\<lparr>sem_dfu_full := k_sem_give k (sem_dfu_full s2)\<rparr>)
                     else (Ret RET_SUCCESS, s2\<lparr>sem_dfu_free_space := k_sem_give k free\<rparr>))"

subsection \<open>Writing blocks\<close>

text \<open>The bytes to write; the last block is padded to a double word and ends the transfer.\<close>

definition dfu_bytes_to_write :: "'cb dfu_state_t \<Rightarrow> nat \<times> 'cb dfu_state_t" where
  "dfu_bytes_to_write st =
     (if block_number st = block_count st - 1
      then let w = dfu_wr_idx st; pad = (if w mod 8 \<noteq> 0 then 8 - w mod 8 else 0)
           in (w + pad, st\<lparr>dfu_bytes := mem_put w (replicate pad erased_byte) (dfu_bytes st),
                           dfu_phase := DFU_FINISHED_VERIFY\<rparr>)
      else (DFU_BLOCKS_WRITE_SIZE, st))"

definition dfu_must_erase :: "dfu_cfg \<Rightarrow> nat \<Rightarrow> nat \<Rightarrow> bool" where
  "dfu_must_erase c off n \<longleftrightarrow>
     off mod DFU_FLASH_SECTOR_SIZE c = 0 \<or>
     (DFU_BLOCKS_WRITE_SIZE < n \<and> DFU_FLASH_SECTOR_SIZE c < off mod DFU_FLASH_SECTOR_SIZE c + n)"

text \<open>\<^verbatim>\<open>NEXT_SECTOR_BOUNDARY\<close>: the mask clears the offset within the sector.\<close>

definition NEXT_SECTOR_BOUNDARY :: "dfu_cfg \<Rightarrow> nat \<Rightarrow> nat" where
  "NEXT_SECTOR_BOUNDARY c off = off - off mod DFU_FLASH_SECTOR_SIZE c + DFU_FLASH_SECTOR_SIZE c"

definition dfu_erase :: "dfu_cfg \<Rightarrow> 'f flash_driver \<Rightarrow> nat \<Rightarrow> nat \<Rightarrow> 'f \<Rightarrow> int \<times> 'f" where
  "dfu_erase c d off n f =
     (if dfu_must_erase c off n
      then flash_area_erase d f (if off mod DFU_FLASH_SECTOR_SIZE c \<noteq> 0 then NEXT_SECTOR_BOUNDARY c off else off)
             (DFU_FLASH_SECTOR_SIZE c)
      else (0, f))"

text \<open>Dropping the written bytes from the buffer.\<close>

definition dfu_consume :: "nat \<Rightarrow> 'cb dfu_state_t \<Rightarrow> 'cb dfu_state_t" where
  "dfu_consume n st =
     (if n \<le> dfu_wr_idx st
      then st\<lparr>dfu_bytes := mem_put 0 (mem_get n (dfu_wr_idx st - n) (dfu_bytes st)) (dfu_bytes st),
              dfu_wr_idx := dfu_wr_idx st - n\<rparr>
      else st\<lparr>dfu_wr_idx := 0\<rparr>)\<lparr>flash_offset := flash_offset st + n\<rparr>"

text \<open>The \<^verbatim>\<open>DFU_IN_PROGRESS\<close> case. The size check multiplies in 32 bits.\<close>

definition dfu_write_blocks ::
  "dfu_cfg \<Rightarrow> 'f flash_driver \<Rightarrow> 'cb dfu_state_t \<Rightarrow> 'f \<Rightarrow> ret_code_t \<times> 'cb dfu_state_t \<times> 'f" where
  "dfu_write_blocks c d st f =
     (if flash_area_open d \<noteq> 0 then (RET_ERROR_INVALID_STATE, st, f)
      else if flash_offset st = 0 \<and> fa_size d < (unat (block_count st) * DFU_BLOCK_SIZE_MAX c) mod 2 ^ 32
      then (RET_ERROR_INVALID_PARAM, dfu_state_zero c, f)
      else
        let (n, st1) = dfu_bytes_to_write st;
            (err, f1) = dfu_erase c d (flash_offset st1) n f
        in if err \<noteq> 0 then (RET_ERROR_INTERNAL, st1, f1)
           else
             let (err, f2) = flash_area_write d f1 (flash_offset st1) (take n (dfu_bytes st1))
             in if err \<noteq> 0 then (RET_ERROR_INTERNAL, st1, f2)
                else (RET_SUCCESS, dfu_consume n st1, f2))"

subsection \<open>Image headers\<close>

text \<open>
  \<^verbatim>\<open>sem_headers\<close> is taken with \<^verbatim>\<open>K_FOREVER\<close> and released within each call. The
  argument \<open>ptr\<close> is false for a null pointer; the version is written only on success.
\<close>

definition dfu_version_primary_get ::
  "mcuboot \<Rightarrow> 'f flash_driver \<Rightarrow> bool \<Rightarrow> ('s, 'f, 'cb) dfu
   \<Rightarrow> (ret_code_t \<times> image_version option) \<times> ('s, 'f, 'cb) dfu" where
  "dfu_version_primary_get mb d ptr s =
     (if \<not> ptr then ((RET_ERROR_INVALID_PARAM, None), s)
      else
        let s1 = s\<lparr>primary_slot_header := replicate (header_len mb) 0\<rparr>
        in if flash_area_open d \<noteq> 0 then ((RET_ERROR_INTERNAL, None), s1)
           else
             let (ret, bs) = flash_area_read d (slot0 s) 0 (primary_slot_header s1);
                 s2 = s1\<lparr>primary_slot_header := bs\<rparr>
             in if ret \<noteq> 0 then ((RET_ERROR_INTERNAL, None), s2)
                else ((RET_SUCCESS, Some (ih_ver (parse_header mb bs))), s2))"

definition dfu_version_secondary_get ::
  "mcuboot \<Rightarrow> 'f flash_driver \<Rightarrow> bool \<Rightarrow> ('s, 'f, 'cb) dfu
   \<Rightarrow> (ret_code_t \<times> image_version option) \<times> ('s, 'f, 'cb) dfu" where
  "dfu_version_secondary_get mb d ptr s =
     (if \<not> ptr then ((RET_ERROR_INVALID_PARAM, None), s)
      else if flash_area_open d \<noteq> 0 then ((RET_ERROR_INTERNAL, None), s)
      else
        let (ret, bs) = flash_area_read d (slot1 s) 0 (secondary_slot_header s);
            s1 = s\<lparr>secondary_slot_header := bs\<rparr>;
            ver = ih_ver (parse_header mb bs)
        in if ret \<noteq> 0 then ((RET_ERROR_INTERNAL, None), s1)
           else if iv_build_num ver = 0xFFFFFFFF \<and> iv_revision ver = 0xFFFF
           then ((RET_ERROR_NOT_FOUND, None), s1)
           else ((RET_SUCCESS, Some ver), s1))"

subsection \<open>Checking the image\<close>

text \<open>The reading loop; a zero page size is no device and ends it. \<open>None\<close> is a failed read.\<close>

function dfu_crc_loop ::
  "dfu_cfg \<Rightarrow> 'f flash_driver \<Rightarrow> (u32 \<Rightarrow> u8 list \<Rightarrow> u32) \<Rightarrow> 'f \<Rightarrow> nat \<Rightarrow> nat \<Rightarrow> u8 list \<Rightarrow> u32
   \<Rightarrow> u32 option" where
  "dfu_crc_loop c d crc32_update f img_size off buf acc =
     (if off < img_size \<and> 0 < DFU_FLASH_PAGE_SIZE c then
        let len = (if img_size - off < DFU_FLASH_PAGE_SIZE c then img_size - off else DFU_FLASH_PAGE_SIZE c);
            (ret, bs) = flash_area_read d f off (take len buf)
        in if ret \<noteq> 0 then None
           else dfu_crc_loop c d crc32_update f img_size (off + DFU_FLASH_PAGE_SIZE c)
                  (bs @ drop len buf) (crc32_update acc bs)
      else Some acc)"
  by pat_completeness auto
termination
  by (relation "measure (\<lambda>(c, d, u, f, n, off, buf, acc). n - off)") auto

declare dfu_crc_loop.simps [simp del]

text \<open>
  \<open>hdr_free\<close> is whether \<^verbatim>\<open>sem_headers\<close> could be taken without waiting. The image
  size is a 32-bit sum.
\<close>

definition dfu_image_size :: "mcuboot \<Rightarrow> 'f flash_driver \<Rightarrow> 'f \<Rightarrow> image_header \<Rightarrow> u32" where
  "dfu_image_size mb d f h =
     (let n = ucast (ih_hdr_size h) + ih_img_size h;
          (_, bs) = flash_area_read d f (unat n) (replicate (tlv_len mb) 0);
          (it_magic, it_tlv_tot) = parse_tlv mb bs
      in if it_magic = IMAGE_TLV_INFO_MAGIC mb \<or> it_magic = IMAGE_TLV_PROT_INFO_MAGIC mb
         then n + ucast it_tlv_tot else n)"

definition dfu_secondary_check ::
  "dfu_cfg \<Rightarrow> mcuboot \<Rightarrow> 'f flash_driver \<Rightarrow> (u32 \<Rightarrow> u8 list \<Rightarrow> u32) \<Rightarrow> bool \<Rightarrow> u32 \<Rightarrow> ('s, 'f, 'cb) dfu
   \<Rightarrow> ret_code_t \<times> ('s, 'f, 'cb) dfu" where
  "dfu_secondary_check c mb d crc32_update hdr_free crc32 s =
     (let s1 = snd (dfu_version_secondary_get mb d True s);
          h = parse_header mb (secondary_slot_header s1)
      in if \<not> hdr_free then (RET_ERROR_BUSY, s1)
         else if ih_img_size h = 0 then (RET_ERROR_INVALID_STATE, s1)
         else if flash_area_open d \<noteq> 0 then (RET_ERROR_INTERNAL, s1)
         else
           case dfu_crc_loop c d crc32_update (slot1 s1) (unat (dfu_image_size mb d (slot1 s1) h)) 0
                  (replicate (DFU_FLASH_PAGE_SIZE c) 0) 0 of
             None \<Rightarrow> (RET_ERROR_INTERNAL, s1)
           | Some computed_crc \<Rightarrow>
               (if computed_crc \<noteq> crc32 then RET_ERROR_INVALID_STATE else RET_SUCCESS, s1))"

definition dfu_secondary_check_async ::
  "'s sem_api \<Rightarrow> u32 \<Rightarrow> 'cb option \<Rightarrow> ('s, 'f, 'cb) dfu \<Rightarrow> dfu_ret \<times> ('s, 'f, 'cb) dfu" where
  "dfu_secondary_check_async k crc32 cb s =
     (let (taken, free) = k_sem_take k (sem_dfu_free_space s)
      in if taken
         then if dfu_phase (dfu_state s) = DFU_FINISHED_VERIFY
              then (In_Progress, s\<lparr>sem_dfu_free_space := free,
                      dfu_state := (dfu_state s)\<lparr>dfu_cb := cb, expected_crc32 := crc32\<rparr>,
                      sem_dfu_full := k_sem_give k (sem_dfu_full s)\<rparr>)
              else (Ret RET_SUCCESS, s\<lparr>sem_dfu_free_space := k_sem_give k free\<rparr>)
         else (Ret RET_ERROR_INVALID_STATE, s\<lparr>sem_dfu_free_space := free\<rparr>))"

subsection \<open>The processing thread\<close>

text \<open>
  One turn of \<^verbatim>\<open>process_dfu_blocks_thread\<close>: \<open>None\<close> while the thread waits for
  \<^verbatim>\<open>sem_dfu_full\<close>; otherwise the new state and the callback with the code it is given.
\<close>

definition process_dfu_blocks_thread ::
  "dfu_cfg \<Rightarrow> 's sem_api \<Rightarrow> mcuboot \<Rightarrow> 'f flash_driver \<Rightarrow> (u32 \<Rightarrow> u8 list \<Rightarrow> u32) \<Rightarrow> bool
   \<Rightarrow> ('s, 'f, 'cb) dfu \<Rightarrow> (('s, 'f, 'cb) dfu \<times> ('cb \<times> ret_code_t) option) option" where
  "process_dfu_blocks_thread c k mb d crc32_update hdr_free s =
     (let (taken, full) = k_sem_take k (sem_dfu_full s)
      in if \<not> taken then None
         else
           let s1 = s\<lparr>sem_dfu_full := full\<rparr>;
               (err_code, s2) =
                 (case dfu_phase (dfu_state s1) of
                    DFU_IN_PROGRESS \<Rightarrow>
                      let (err, st, f) = dfu_write_blocks c d (dfu_state s1) (slot1 s1)
                      in (err, s1\<lparr>dfu_state := st, slot1 := f\<rparr>)
                  | DFU_FINISHED_VERIFY \<Rightarrow>
                      dfu_secondary_check c mb d crc32_update hdr_free (expected_crc32 (dfu_state s1)) s1)
           in Some (s2\<lparr>sem_dfu_free_space := k_sem_give k (sem_dfu_free_space s2)\<rparr>,
                    map_option (\<lambda>cb. (cb, err_code)) (dfu_cb (dfu_state s2))))"

text \<open>
  A whole transfer: the sender hands in the blocks in order, the thread runs after each. The
  result lists what each call returned and what the callback was given.
\<close>

definition dfu_turn where
  "dfu_turn c k mb d crc32_update s =
     (case process_dfu_blocks_thread c k mb d crc32_update True s of
        None \<Rightarrow> (None, s) | Some (s', ev) \<Rightarrow> (ev, s'))"

fun dfu_transfer ::
  "dfu_cfg \<Rightarrow> 's sem_api \<Rightarrow> mcuboot \<Rightarrow> 'f flash_driver \<Rightarrow> (u32 \<Rightarrow> u8 list \<Rightarrow> u32) \<Rightarrow> u32 \<Rightarrow> 'cb \<Rightarrow> nat
   \<Rightarrow> u8 list list \<Rightarrow> ('s, 'f, 'cb) dfu \<Rightarrow> (dfu_ret \<times> ('cb \<times> ret_code_t) option) list \<times> ('s, 'f, 'cb) dfu" where
  "dfu_transfer c k mb d u count cb n [] s = ([], s)"
| "dfu_transfer c k mb d u count cb n (b # bs) s =
     (let (r, s1) = dfu_load c k (of_nat n) count b (Some cb) s;
          (ev, s2) = dfu_turn c k mb d u s1;
          (rest, s3) = dfu_transfer c k mb d u count cb (Suc n) bs s2
      in ((r, ev) # rest, s3))"

subsection \<open>Activation, confirmation and start-up\<close>

text \<open>
  \<open>set_pending\<close> and \<open>swap_type\<close> are what \<^verbatim>\<open>boot_set_pending\<close> and
  \<^verbatim>\<open>boot_swap_type_multi\<close> return. Codes are integers here because the first is passed on.
\<close>

definition dfu_secondary_activate ::
  "dfu_cfg \<Rightarrow> mcuboot \<Rightarrow> 'f flash_driver \<Rightarrow> bool \<Rightarrow> int \<Rightarrow> int \<Rightarrow> bool \<Rightarrow> ('s, 'f, 'cb) dfu
   \<Rightarrow> int \<times> ('s, 'f, 'cb) dfu" where
  "dfu_secondary_activate c mb d hdr_free set_pending swap_type permanent s =
     (let s1 = snd (dfu_version_secondary_get mb d True s);
          h = parse_header mb (secondary_slot_header s1);
          img_is_valid = (ih_img_size h \<noteq> 0 \<and> ih_magic h \<noteq> IMAGE_MAGIC mb)
      in if \<not> hdr_free then (rc RET_ERROR_BUSY, s1)
         else if img_is_valid then (rc RET_ERROR_INVALID_STATE, s1)
         else if set_pending \<noteq> 0 then (set_pending, s1)
         else if swap_type < 0 then (rc RET_ERROR_ASSERT_FAILS, s1)
         else if \<not> ((permanent \<and> swap_type = BOOT_SWAP_TYPE_PERM mb) \<or>
                    (\<not> permanent \<and> swap_type = BOOT_SWAP_TYPE_TEST mb))
         then (rc RET_ERROR_INTERNAL, s1)
         else (rc RET_SUCCESS, s1\<lparr>dfu_state := dfu_state_zero c\<rparr>))"

definition dfu_secondary_activate_permanently where
  "dfu_secondary_activate_permanently c mb d hdr_free set_pending swap_type s =
     dfu_secondary_activate c mb d hdr_free set_pending swap_type True s"

definition dfu_secondary_activate_temporarily where
  "dfu_secondary_activate_temporarily c mb d hdr_free set_pending swap_type s =
     dfu_secondary_activate c mb d hdr_free set_pending swap_type False s"

text \<open>
  \<open>image_ok\<close> is the result and the flag of \<^verbatim>\<open>boot_read_image_ok\<close>, \<open>unset\<close> the
  value \<^verbatim>\<open>BOOT_FLAG_UNSET\<close>.
\<close>

definition dfu_primary_is_confirmed :: "'f flash_driver \<Rightarrow> int \<times> u8 \<Rightarrow> u8 \<Rightarrow> bool" where
  "dfu_primary_is_confirmed d image_ok unset =
     (if flash_area_open d \<noteq> 0 then False
      else let (ret, flag) = image_ok in ret = 0 \<and> flag \<noteq> unset)"

text \<open>
  \<^verbatim>\<open>dfu_init\<close>: \<open>d0\<close> and \<open>d1\<close> are the drivers of the two slots, whose sizes are
  the partition sizes of the devicetree.
\<close>

definition dfu_init ::
  "mcuboot \<Rightarrow> 'f flash_driver \<Rightarrow> 'f flash_driver \<Rightarrow> ('s, 'f, 'cb) dfu \<Rightarrow> ret_code_t \<times> ('s, 'f, 'cb) dfu" where
  "dfu_init mb d0 d1 s =
     (let ((ret, _), s1) = dfu_version_primary_get mb d0 True s
      in if ret \<noteq> RET_SUCCESS then (RET_ERROR_INVALID_STATE, s1)
         else
           let s2 = snd (dfu_version_secondary_get mb d1 True s1);
               p = parse_header mb (primary_slot_header s2);
               q = parse_header mb (secondary_slot_header s2);
               zero = replicate (header_len mb) 0
           in if fa_size d0 < unat (ucast (ih_hdr_size p) + ih_img_size p :: u32)
              then (RET_ERROR_INVALID_STATE, s2\<lparr>primary_slot_header := zero\<rparr>)
              else if ih_img_size q \<noteq> 0 \<and> ih_magic q \<noteq> IMAGE_MAGIC mb
              then (RET_SUCCESS, s2\<lparr>secondary_slot_header := zero\<rparr>)
              else if fa_size d1 < unat (ucast (ih_hdr_size q) + ih_img_size q :: u32)
              then (RET_SUCCESS, s2\<lparr>secondary_slot_header := zero\<rparr>)
              else (RET_SUCCESS, s2))"

text \<open>
  \<^verbatim>\<open>dfu_readback_protection\<close> (release builds). \<open>status\<close> is what reading the option
  bytes gives: the return code and the two flags; \<open>dbg_bits\<close> the low-power debug bits of
  \<^verbatim>\<open>DBGMCU->CR\<close>; \<open>program\<close> what programming the option bytes returns, should the
  controller not reset. The result holds the code, the register, the slot and whether the
  protection was requested.
\<close>

definition dfu_readback_protection ::
  "dfu_cfg \<Rightarrow> 'f flash_driver \<Rightarrow> int \<times> bool \<times> bool \<Rightarrow> u32 \<Rightarrow> int \<Rightarrow> u32 \<Rightarrow> 'f \<Rightarrow> int \<times> u32 \<times> 'f \<times> bool" where
  "dfu_readback_protection c d status dbg_bits program cr f =
     (let (ret, enable, permanent) = status
      in if ret = 0 \<and> (enable \<noteq> True \<or> permanent \<noteq> False)
         then let f' = (if flash_area_open d = 0
                        then snd (flash_area_erase d f 0 (DFU_FLASH_SECTOR_SIZE c * 2)) else f)
              in (program, and cr (not dbg_bits), f', True)
         else (ret, cr, f, False))"

subsection \<open>Buffer sizes\<close>

lemma buffer_size: "DFU_BLOCKS_WRITE_SIZE + DFU_BLOCK_SIZE_MAX c \<le> DFU_BLOCKS_BUFFER_SIZE c"
  "8 dvd DFU_BLOCKS_BUFFER_SIZE c"
proof -
  let ?m = "DFU_BLOCKS_BUFFER_MIN_SIZE c"
  have "?m mod 8 < 8" by simp
  then show "DFU_BLOCKS_WRITE_SIZE + DFU_BLOCK_SIZE_MAX c \<le> DFU_BLOCKS_BUFFER_SIZE c"
    unfolding DFU_BLOCKS_BUFFER_SIZE_def by (simp add: DFU_BLOCKS_BUFFER_MIN_SIZE_def)
  have "DFU_BLOCKS_BUFFER_SIZE c = 8 * (?m div 8) + 8"
    unfolding DFU_BLOCKS_BUFFER_SIZE_def using div_mult_mod_eq [of ?m 8] by linarith
  then show "8 dvd DFU_BLOCKS_BUFFER_SIZE c" by simp
qed

text \<open>The space left in the sector of an offset.\<close>

definition sector_room :: "dfu_cfg \<Rightarrow> nat \<Rightarrow> nat" where
  "sector_room c off = DFU_FLASH_SECTOR_SIZE c - off mod DFU_FLASH_SECTOR_SIZE c"

text \<open>
  \<open>dfu_image c d mem acc st f\<close>: the bytes \<open>acc\<close> received so far are the flash up to
  \<open>flash_offset\<close> followed by the buffer, and the rest of the sector being filled is erased.
\<close>

definition dfu_image ::
  "dfu_cfg \<Rightarrow> ('f \<Rightarrow> u8 list) \<Rightarrow> u8 list \<Rightarrow> 'cb dfu_state_t \<Rightarrow> 'f \<Rightarrow> bool" where
  "dfu_image c mem acc st f \<longleftrightarrow>
     length (dfu_bytes st) = DFU_BLOCKS_BUFFER_SIZE c \<and>
     dfu_wr_idx st \<le> DFU_BLOCKS_BUFFER_SIZE c \<and>
     DFU_BLOCKS_WRITE_SIZE dvd flash_offset st \<and>
     acc = mem_get 0 (flash_offset st) (mem f) @ mem_get 0 (dfu_wr_idx st) (dfu_bytes st) \<and>
     flash_offset st + dfu_wr_idx st = length acc \<and>
     (flash_offset st mod DFU_FLASH_SECTOR_SIZE c \<noteq> 0 \<longrightarrow>
        erased_range (flash_offset st) (sector_room c (flash_offset st)) (mem f))"

text \<open>The padding of an image to whole double words.\<close>

definition dfu_pad :: "nat \<Rightarrow> nat" where
  "dfu_pad w = (if w mod 8 \<noteq> 0 then 8 - w mod 8 else 0)"

lemma dfu_pad_dvd: "8 dvd w + dfu_pad w" "dfu_pad w < 8"
  unfolding dfu_pad_def by presburger+

lemma pad_fits: "w + dfu_pad w \<le> n" if "w \<le> n" and "8 dvd n"
proof -
  have "w + dfu_pad w < n + 8" using that(1) dfu_pad_dvd(2) [of w] by linarith
  then show ?thesis using dfu_pad_dvd(1) [of w] that(2) by presburger
qed

text \<open>A block was taken, and its callback, if due, reported success.\<close>

definition step_ok :: "'cb \<Rightarrow> dfu_ret \<times> ('cb \<times> ret_code_t) option \<Rightarrow> bool" where
  "step_ok cb x \<longleftrightarrow> x = (Ret RET_SUCCESS, None) \<or> x = (In_Progress, Some (cb, RET_SUCCESS))"

locale dfu_platform = reliable_flash d mem + binary_semaphore k count
  for d :: "'f flash_driver" and mem :: "'f \<Rightarrow> u8 list" and k :: "'s sem_api" and count :: "'s \<Rightarrow> nat" +
  fixes c :: dfu_cfg
  assumes sector: "2 * DFU_BLOCKS_WRITE_SIZE \<le> DFU_FLASH_SECTOR_SIZE c"
      "DFU_BLOCKS_WRITE_SIZE dvd DFU_FLASH_SECTOR_SIZE c" "DFU_FLASH_SECTOR_SIZE c dvd fa_size d"
    and block_size: "DFU_BLOCK_SIZE_MAX c \<le> DFU_BLOCKS_WRITE_SIZE"
    and dword: "write_block_size d dvd 8"
    and opened: "flash_area_open d = 0"
    and erase_sector_ok: "DFU_FLASH_SECTOR_SIZE c dvd off \<Longrightarrow> off + DFU_FLASH_SECTOR_SIZE c \<le> fa_size d \<Longrightarrow>
      fst (flash_area_erase d f off (DFU_FLASH_SECTOR_SIZE c)) = 0"
begin

abbreviation sec :: nat where
  "sec \<equiv> DFU_FLASH_SECTOR_SIZE c"

lemma sec_pos: "0 < sec"
  using sector(1) by linarith

lemma chunk_in_sector:
  assumes "DFU_BLOCKS_WRITE_SIZE dvd off"
  shows "DFU_BLOCKS_WRITE_SIZE \<le> sector_room c off"
    and "(off + DFU_BLOCKS_WRITE_SIZE) mod sec \<noteq> 0 \<Longrightarrow>
      sector_room c (off + DFU_BLOCKS_WRITE_SIZE) = sector_room c off - DFU_BLOCKS_WRITE_SIZE"
proof -
  have lt: "off mod sec < sec" using sec_pos by simp
  have "DFU_BLOCKS_WRITE_SIZE dvd sector_room c off"
    unfolding sector_room_def using assms sector(2) by (intro dvd_diff_nat) (auto simp: dvd_mod)
  then show le: "DFU_BLOCKS_WRITE_SIZE \<le> sector_room c off"
    by (rule dvd_imp_le) (use lt in \<open>simp add: sector_room_def\<close>)
  assume ne: "(off + DFU_BLOCKS_WRITE_SIZE) mod sec \<noteq> 0"
  have "(off + DFU_BLOCKS_WRITE_SIZE) mod sec = (off mod sec + DFU_BLOCKS_WRITE_SIZE) mod sec"
    by (simp add: mod_add_left_eq)
  moreover have "off mod sec + DFU_BLOCKS_WRITE_SIZE \<le> sec"
    using le lt unfolding sector_room_def by linarith
  ultimately have "(off + DFU_BLOCKS_WRITE_SIZE) mod sec = off mod sec + DFU_BLOCKS_WRITE_SIZE"
    using ne by (cases "off mod sec + DFU_BLOCKS_WRITE_SIZE = sec") auto
  then show "sector_room c (off + DFU_BLOCKS_WRITE_SIZE) = sector_room c off - DFU_BLOCKS_WRITE_SIZE"
    unfolding sector_room_def by linarith
qed

lemma next_boundary: "NEXT_SECTOR_BOUNDARY c off = off + sector_room c off" "sec dvd NEXT_SECTOR_BOUNDARY c off"
proof -
  have "off mod sec \<le> off" and "off mod sec < sec" using sec_pos by simp_all
  then show "NEXT_SECTOR_BOUNDARY c off = off + sector_room c off"
    unfolding NEXT_SECTOR_BOUNDARY_def sector_room_def by linarith
  show "sec dvd NEXT_SECTOR_BOUNDARY c off"
    unfolding NEXT_SECTOR_BOUNDARY_def by (intro dvd_add dvd_minus_mod dvd_refl)
qed

lemma sector_fits: "sec dvd off \<Longrightarrow> off < fa_size d \<Longrightarrow> off + sec \<le> fa_size d"
  using sector(3) by (metis dvd_add_right_iff dvd_diff_nat dvd_imp_le le_add_diff_inverse less_imp_le_nat
      nat_add_left_cancel_le zero_less_diff)

lemma erase_sector:
  assumes "sec dvd off" and "off < fa_size d"
  obtains f' where "flash_area_erase d f off sec = (0, f')"
    and "mem f' = mem_put off (replicate sec erased_byte) (mem f)" and "off + sec \<le> fa_size d"
proof -
  have "off + sec \<le> fa_size d" by (rule sector_fits [OF assms])
  then have "fst (flash_area_erase d f off sec) = 0" using assms(1) by (intro erase_sector_ok)
  then show thesis using that erase_sound by (metis prod.collapse)
qed

lemma erase_total_room:
  assumes al: "DFU_BLOCKS_WRITE_SIZE dvd off" and n: "0 < n" "n \<le> 2 * DFU_BLOCKS_WRITE_SIZE"
    and fits: "off + n \<le> fa_size d"
    and er: "off mod sec \<noteq> 0 \<longrightarrow> erased_range off (sector_room c off) (mem f)"
  obtains f' where "dfu_erase c d off n f = (0, f')" and "erased_range off (max n (sector_room c off)) (mem f')"
    and "mem_get 0 off (mem f') = mem_get 0 off (mem f)"
proof (cases "off mod sec = 0")
  case True
  then have dvd: "sec dvd off" by (simp add: dvd_eq_mod_eq_0)
  obtain f' where e: "flash_area_erase d f off sec = (0, f')"
    and m: "mem f' = mem_put off (replicate sec erased_byte) (mem f)" and le: "off + sec \<le> fa_size d"
    using erase_sector [OF dvd, of f] n(1) fits by auto
  have "erased_range off sec (mem f')" using le by (simp add: m erased_range_def)
  then have "erased_range off (max n (sector_room c off)) (mem f')"
    by (rule erased_range_prefix) (use n(2) sector(1) in \<open>simp add: sector_room_def True\<close>)
  then show thesis
    using that e le True by (simp add: dfu_erase_def dfu_must_erase_def m mem_get_mem_put_before)
next
  case False
  let ?room = "sector_room c off"
  have er': "erased_range off ?room (mem f)" using er False by simp
  show thesis
  proof (cases "dfu_must_erase c off n")
    case must: True
    then have cross: "?room < n"
      using False unfolding dfu_must_erase_def sector_room_def by linarith
    obtain f' where e: "flash_area_erase d f (NEXT_SECTOR_BOUNDARY c off) sec = (0, f')"
      and m: "mem f' = mem_put (off + ?room) (replicate sec erased_byte) (mem f)" and le: "off + ?room + sec \<le> fa_size d"
      using erase_sector [OF next_boundary(2), of off f] cross fits by (auto simp: next_boundary(1))
    have "erased_range off ?room (mem f')" using er' le by (simp add: m erased_range_put_after)
    moreover have "erased_range (off + ?room) sec (mem f')" using le by (simp add: m erased_range_def)
    ultimately have "erased_range off (?room + sec) (mem f')" by (rule erased_range_append)
    then have "erased_range off (max n ?room) (mem f')"
      by (rule erased_range_prefix) (use n(2) sector(1) in auto)
    then show thesis
      using that e must False le by (simp add: dfu_erase_def m mem_get_mem_put_before)
  next
    case no: False
    have "n \<le> ?room"
      using no False chunk_in_sector(1) [OF al] unfolding dfu_must_erase_def sector_room_def by linarith
    then show thesis using that no er' by (simp add: dfu_erase_def max_def)
  qed
qed

lemma write_total:
  assumes al: "DFU_BLOCKS_WRITE_SIZE dvd off" and n: "0 < length xs" "length xs \<le> 2 * DFU_BLOCKS_WRITE_SIZE"
      "8 dvd length xs"
    and fits: "off + length xs \<le> fa_size d"
    and er: "off mod sec \<noteq> 0 \<longrightarrow> erased_range off (sector_room c off) (mem f)"
  obtains f1 f2 where "dfu_erase c d off (length xs) f = (0, f1)" and "flash_area_write d f1 off xs = (0, f2)"
    and "mem_get 0 (off + length xs) (mem f2) = mem_get 0 off (mem f) @ xs"
    and "length xs \<le> sector_room c off \<Longrightarrow>
      erased_range (off + length xs) (sector_room c off - length xs) (mem f2)"
proof -
  obtain f1 where e: "dfu_erase c d off (length xs) f = (0, f1)"
    and er1: "erased_range off (max (length xs) (sector_room c off)) (mem f1)"
    and pre: "mem_get 0 off (mem f1) = mem_get 0 off (mem f)"
    by (rule erase_total_room [OF al n(1,2) fits er])
  have "write_block_size d dvd DFU_BLOCKS_WRITE_SIZE" by (rule dvd_trans [OF dword]) simp
  then have "write_block_size d dvd off" and "write_block_size d dvd length xs"
    using al n(3) dword by (auto intro: dvd_trans)
  moreover have "erased_range off (length xs) (mem f1)" by (rule erased_range_prefix [OF er1]) simp
  ultimately have "fst (flash_area_write d f1 off xs) = 0" using fits by (intro write_erased_ok)
  then obtain f2 where w: "flash_area_write d f1 off xs = (0, f2)" by (metis prod.collapse)
  have m2: "mem f2 = mem_put off xs (mem f1)" by (rule write_put [OF w])
  have "mem_get 0 (off + length xs) (mem f2) = mem_get 0 off (mem f2) @ mem_get (0 + off) (length xs) (mem f2)"
    by (rule mem_get_append [symmetric])
  then have "mem_get 0 (off + length xs) (mem f2) = mem_get 0 off (mem f) @ xs"
    using fits pre by (simp add: m2 mem_get_mem_put_before)
  moreover have "erased_range (off + length xs) (sector_room c off - length xs) (mem f2)"
    if "length xs \<le> sector_room c off"
    using erased_range_suffix [OF er1, of "length xs"] that fits
    by (simp add: m2 erased_range_put_before max_def)
  ultimately show thesis using that e w by blast
qed

abbreviation fits_slot :: "'cb dfu_state_t \<Rightarrow> bool" where
  "fits_slot st \<equiv> flash_offset st = 0 \<longrightarrow> (unat (block_count st) * DFU_BLOCK_SIZE_MAX c) mod 2 ^ 32 \<le> fa_size d"

lemma write_chunk:
  assumes img: "dfu_image c mem acc st f" and wr: "DFU_BLOCKS_WRITE_SIZE \<le> dfu_wr_idx st"
    and last: "block_number st \<noteq> block_count st - 1" and fit: "fits_slot st" "length acc \<le> fa_size d"
  shows "\<exists>st' f'. dfu_write_blocks c d st f = (RET_SUCCESS, st', f') \<and> dfu_image c mem acc st' f' \<and>
    st' = dfu_consume DFU_BLOCKS_WRITE_SIZE st"
proof -
  let ?off = "flash_offset st" and ?n = "DFU_BLOCKS_WRITE_SIZE" and ?w = "dfu_wr_idx st" and ?b = "dfu_bytes st"
  let ?xs = "take ?n ?b"
  have b: "length ?b = DFU_BLOCKS_BUFFER_SIZE c" "?w \<le> length ?b" and al: "?n dvd ?off"
    and acc: "acc = mem_get 0 ?off (mem f) @ mem_get 0 ?w ?b" "?off + ?w = length acc"
    and er: "?off mod sec \<noteq> 0 \<longrightarrow> erased_range ?off (sector_room c ?off) (mem f)"
    using img by (auto simp: dfu_image_def)
  have xs: "length ?xs = ?n" using b wr by simp
  have n: "0 < length ?xs" "length ?xs \<le> 2 * ?n" "8 dvd length ?xs" "?off + length ?xs \<le> fa_size d"
    unfolding xs using acc(2) wr fit(2) by simp_all
  obtain f1 f2 where e: "dfu_erase c d ?off ?n f = (0, f1)" and w: "flash_area_write d f1 ?off ?xs = (0, f2)"
    and m2: "mem_get 0 (?off + ?n) (mem f2) = mem_get 0 ?off (mem f) @ ?xs"
    and er2: "erased_range (?off + ?n) (sector_room c ?off - ?n) (mem f2)"
    using write_total [OF al n er] chunk_in_sector(1) [OF al] unfolding xs by metis
  let ?st' = "dfu_consume ?n st"
  have res: "dfu_write_blocks c d st f = (RET_SUCCESS, ?st', f2)"
    using opened fit(1) last e w
    by (cases "?off = 0") (simp_all add: dfu_write_blocks_def dfu_bytes_to_write_def)
  have "mem_get 0 ?w ?b = mem_get 0 ?n ?b @ mem_get ?n (?w - ?n) ?b"
    using mem_get_append [of 0 ?n ?b "?w - ?n"] wr by simp
  moreover have "mem_get 0 (?w - ?n) (mem_put 0 (mem_get ?n (?w - ?n) ?b) ?b) = mem_get ?n (?w - ?n) ?b"
    using b wr by simp
  ultimately have "dfu_image c mem acc ?st' f2"
    using b wr al acc m2 er2 chunk_in_sector(2) [OF al]
    by (auto simp: dfu_image_def dfu_consume_def mem_get_def)
  then show ?thesis using res by blast
qed

lemma write_last:
  assumes img: "dfu_image c mem acc st f" and wr: "0 < dfu_wr_idx st" "dfu_wr_idx st \<le> 2 * DFU_BLOCKS_WRITE_SIZE"
    and last: "block_number st = block_count st - 1" and fit: "fits_slot st" "length acc \<le> fa_size d"
  shows "\<exists>st' f'. dfu_write_blocks c d st f = (RET_SUCCESS, st', f') \<and>
    dfu_phase st' = DFU_FINISHED_VERIFY \<and> dfu_wr_idx st' = 0 \<and> dfu_cb st' = dfu_cb st \<and>
    mem_get 0 (length acc + dfu_pad (length acc)) (mem f') = acc @ replicate (dfu_pad (length acc)) erased_byte"
proof -
  let ?off = "flash_offset st" and ?w = "dfu_wr_idx st" and ?b = "dfu_bytes st"
  let ?p = "dfu_pad ?w" and ?b' = "mem_put ?w (replicate (dfu_pad ?w) erased_byte) ?b"
  let ?xs = "take (?w + ?p) ?b'"
  have b: "length ?b = DFU_BLOCKS_BUFFER_SIZE c" "?w \<le> length ?b" and al: "DFU_BLOCKS_WRITE_SIZE dvd ?off"
    and acc: "acc = mem_get 0 ?off (mem f) @ mem_get 0 ?w ?b" "?off + ?w = length acc"
    and er: "?off mod sec \<noteq> 0 \<longrightarrow> erased_range ?off (sector_room c ?off) (mem f)"
    using img by (auto simp: dfu_image_def)
  have le: "?w + ?p \<le> length ?b" using b buffer_size(2) [of c] by (auto intro: pad_fits)
  have xs: "length ?xs = ?w + ?p" using le by simp
  have "8 dvd ?off" by (rule dvd_trans [OF _ al]) simp
  then have "length acc mod 8 = ?w mod 8" unfolding acc(2) [symmetric] by (auto elim!: dvdE)
  then have p': "dfu_pad (length acc) = ?p" by (simp add: dfu_pad_def)
  have "DFU_BLOCKS_WRITE_SIZE dvd fa_size d" using sector(2,3) by (rule dvd_trans)
  then have "8 dvd fa_size d" by (rule dvd_trans [rotated]) simp
  then have fits: "?off + length ?xs \<le> fa_size d"
    using pad_fits [OF fit(2)] acc(2) unfolding p' xs by simp
  have small: "length ?xs \<le> 2 * DFU_BLOCKS_WRITE_SIZE"
    unfolding xs by (rule pad_fits [OF wr(2)]) simp
  have xs8: "8 dvd length ?xs" unfolding xs by (rule dfu_pad_dvd(1))
  have xs0: "0 < length ?xs" unfolding xs using wr(1) by simp
  obtain f1 f2 where e: "dfu_erase c d ?off (length ?xs) f = (0, f1)" and w: "flash_area_write d f1 ?off ?xs = (0, f2)"
    and m2: "mem_get 0 (?off + length ?xs) (mem f2) = mem_get 0 ?off (mem f) @ ?xs"
    by (rule write_total [OF al xs0 small xs8 fits er])
  have "?xs = mem_get 0 ?w ?b @ replicate ?p erased_byte"
    using le b by (simp add: mem_put_def mem_get_def)
  then have "mem_get 0 (length acc + dfu_pad (length acc)) (mem f2) = acc @ replicate (dfu_pad (length acc)) erased_byte"
    using m2 acc p' xs by (simp add: add.assoc)
  moreover have "dfu_write_blocks c d st f = (RET_SUCCESS,
      dfu_consume (?w + ?p) (st\<lparr>dfu_bytes := ?b', dfu_phase := DFU_FINISHED_VERIFY\<rparr>), f2)"
    using opened fit(1) last e w xs
    by (cases "?off = 0") (simp_all add: dfu_write_blocks_def dfu_bytes_to_write_def Let_def dfu_pad_def)
  ultimately show ?thesis by (auto simp: dfu_consume_def)
qed

text \<open>\<open>ready N n acc s\<close>: \<open>n\<close> of \<open>N\<close> blocks are in, their bytes are \<open>acc\<close>, and the next may come.\<close>

definition ready :: "nat \<Rightarrow> nat \<Rightarrow> u8 list \<Rightarrow> ('s, 'f, 'cb) dfu \<Rightarrow> bool" where
  "ready N n acc s \<longleftrightarrow> count (sem_dfu_free_space s) = 1 \<and> count (sem_dfu_full s) = 0 \<and>
     length (dfu_bytes (dfu_state s)) = DFU_BLOCKS_BUFFER_SIZE c \<and>
     (if n = 0 then acc = []
      else dfu_image c mem acc (dfu_state s) (slot1 s) \<and> dfu_wr_idx (dfu_state s) < DFU_BLOCKS_WRITE_SIZE \<and>
        block_number (dfu_state s) = of_nat (n - 1) \<and> block_count (dfu_state s) = of_nat N \<and>
        dfu_phase (dfu_state s) = DFU_IN_PROGRESS)"

lemma of_nat_u32_inj: "a < 2 ^ 32 \<Longrightarrow> b < 2 ^ 32 \<Longrightarrow> (of_nat a :: u32) = of_nat b \<longleftrightarrow> a = b"
  by (simp add: word_of_nat_eq_iff take_bit_nat_eq_self)

lemma of_nat_u32_less: "a < 2 ^ 32 \<Longrightarrow> b < 2 ^ 32 \<Longrightarrow> (of_nat a :: u32) < of_nat b \<longleftrightarrow> a < b"
  by (simp add: word_of_nat_less_iff take_bit_nat_eq_self)

lemma append_image:
  assumes img: "dfu_image c mem acc st f" and fit: "dfu_wr_idx st + length b \<le> DFU_BLOCKS_BUFFER_SIZE c"
    and st': "dfu_bytes st' = mem_put (dfu_wr_idx st) b (dfu_bytes st)" "dfu_wr_idx st' = dfu_wr_idx st + length b"
      "flash_offset st' = flash_offset st"
  shows "dfu_image c mem (acc @ b) st' f"
proof -
  let ?w = "dfu_wr_idx st" and ?b = "dfu_bytes st"
  have len: "length ?b = DFU_BLOCKS_BUFFER_SIZE c" using img by (simp add: dfu_image_def)
  have "mem_get 0 (?w + length b) (mem_put ?w b ?b) = mem_get 0 ?w ?b @ b"
    using mem_get_append [of 0 ?w "mem_put ?w b ?b" "length b"] fit len by (simp add: mem_get_mem_put_before)
  then show ?thesis using img fit by (auto simp: dfu_image_def st')
qed

lemma load_block:
  assumes r: "ready N n acc s" and n: "n < N" "N < 2 ^ 32" and b: "length b \<le> DFU_BLOCK_SIZE_MAX c"
  shows "\<exists>s1 st1. dfu_load c k (of_nat n) (of_nat N) b cb s =
      (if DFU_BLOCKS_WRITE_SIZE \<le> dfu_wr_idx st1 \<or> n = N - 1 then In_Progress else Ret RET_SUCCESS, s1) \<and>
    st1 = dfu_state s1 \<and> dfu_image c mem (acc @ b) st1 (slot1 s1) \<and> slot1 s1 = slot1 s \<and>
    length b \<le> dfu_wr_idx st1 \<and> dfu_wr_idx st1 < 2 * DFU_BLOCKS_WRITE_SIZE \<and> block_number st1 = of_nat n \<and>
    block_count st1 = of_nat N \<and> dfu_phase st1 = DFU_IN_PROGRESS \<and> dfu_cb st1 = cb \<and>
    (if DFU_BLOCKS_WRITE_SIZE \<le> dfu_wr_idx st1 \<or> n = N - 1
     then count (sem_dfu_free_space s1) = 0 \<and> count (sem_dfu_full s1) = 1
     else count (sem_dfu_free_space s1) = 1 \<and> count (sem_dfu_full s1) = 0)"
proof -
  let ?st = "(if n = 0 then dfu_new_image (of_nat N) (dfu_state s) else dfu_state s)\<lparr>block_number := of_nat n\<rparr>"
  let ?st1 = "?st\<lparr>dfu_bytes := mem_put (dfu_wr_idx ?st) b (dfu_bytes ?st),
      dfu_wr_idx := dfu_wr_idx ?st + length b, dfu_cb := cb\<rparr>"
  have n0: "(of_nat n :: u32) = 0 \<longleftrightarrow> n = 0" using of_nat_u32_inj [of n 0] n by simp
  have N0: "(of_nat N :: u32) \<noteq> 0" using of_nat_u32_inj [of N 0] n by simp
  have last: "(of_nat n :: u32) = of_nat N - 1 \<longleftrightarrow> n = N - 1"
    using of_nat_u32_inj [of n "N - 1"] n by (simp add: of_nat_diff)
  have next_n: "n \<noteq> 0 \<Longrightarrow> (of_nat n :: u32) = of_nat (n - 1) + 1" by (cases n) simp_all
  have len: "length (dfu_bytes (dfu_state s)) = DFU_BLOCKS_BUFFER_SIZE c"
    and free: "count (sem_dfu_free_space s) = 1" and full: "count (sem_dfu_full s) = 0"
    using r by (auto simp: ready_def)
  have "dfu_image c mem acc ?st (slot1 s)" and wr: "dfu_wr_idx ?st < DFU_BLOCKS_WRITE_SIZE"
    using r by (auto simp: ready_def dfu_image_def dfu_new_image_def split: if_splits)
  moreover have fit: "dfu_wr_idx ?st + length b \<le> DFU_BLOCKS_BUFFER_SIZE c"
    using buffer_size(1) [of c] b wr by linarith
  ultimately have img: "dfu_image c mem (acc @ b) ?st1 (slot1 s)" by (auto intro: append_image)
  have params: "dfu_load_params_ok c (of_nat n) (of_nat N) (length b) (dfu_state s)"
    using r n b buffer_size(1) [of c] n0 N0 next_n of_nat_u32_less [of N n]
    by (auto simp: dfu_load_params_ok_def ready_def)
  have taken: "fst (k_sem_take k (sem_dfu_free_space s))" using free by (simp add: take_iff)
  obtain fr where t: "k_sem_take k (sem_dfu_free_space s) = (True, fr)" and fr: "count fr = 0"
    using taken count_take [of "sem_dfu_free_space s"] by (metis prod.collapse)
  have fields: "block_number ?st1 = of_nat n" "block_count ?st1 = of_nat N" "dfu_phase ?st1 = DFU_IN_PROGRESS"
    using r by (auto simp: ready_def dfu_new_image_def)
  define s1 where "s1 = (if DFU_BLOCKS_WRITE_SIZE \<le> dfu_wr_idx ?st1 \<or> n = N - 1
     then s\<lparr>sem_dfu_free_space := fr, dfu_state := ?st1, tid_dfu := tid_dfu s \<or> n = 0,
       sem_dfu_full := k_sem_give k (sem_dfu_full s)\<rparr>
     else s\<lparr>sem_dfu_free_space := k_sem_give k fr, dfu_state := ?st1, tid_dfu := tid_dfu s \<or> n = 0\<rparr>)"
  have "dfu_load c k (of_nat n) (of_nat N) b cb s =
      (if DFU_BLOCKS_WRITE_SIZE \<le> dfu_wr_idx ?st1 \<or> n = N - 1 then In_Progress else Ret RET_SUCCESS, s1)"
    using params t fit fields last n0 by (simp add: dfu_load_def Let_def s1_def)
  moreover have "dfu_state s1 = ?st1" "slot1 s1 = slot1 s" by (simp_all add: s1_def)
  ultimately show ?thesis
    using img wr b block_size fields fr full count_give
    by (intro exI [of _ s1] exI [of _ ?st1]) (auto simp: s1_def)
qed

lemma turn_idle:
  assumes "count (sem_dfu_full s) = 0"
  shows "dfu_turn c k mb d u s = (None, s)"
  using take_empty [OF assms] by (simp add: dfu_turn_def process_dfu_blocks_thread_def)

lemma turn_write:
  assumes "count (sem_dfu_full s) = 1" and "dfu_phase (dfu_state s) = DFU_IN_PROGRESS"
    and "dfu_write_blocks c d (dfu_state s) (slot1 s) = (err, st, f)"
  shows "\<exists>s'. dfu_turn c k mb d u s = (map_option (\<lambda>cb. (cb, err)) (dfu_cb st), s') \<and>
    dfu_state s' = st \<and> slot1 s' = f \<and> count (sem_dfu_free_space s') = 1 \<and> count (sem_dfu_full s') = 0"
proof -
  have "fst (k_sem_take k (sem_dfu_full s))" using assms(1) by (simp add: take_iff)
  then obtain fu where "k_sem_take k (sem_dfu_full s) = (True, fu)" and "count fu = 0"
    using count_take [of "sem_dfu_full s"] by (metis prod.collapse)
  then show ?thesis
    using assms(2,3) count_give by (auto simp: dfu_turn_def process_dfu_blocks_thread_def Let_def)
qed

lemma transfer_block:
  assumes r: "ready N n acc s" and n: "Suc n < N" "N < 2 ^ 32"
    and b: "length b \<le> DFU_BLOCK_SIZE_MAX c" "length (acc @ b) \<le> fa_size d"
    and slot: "N * DFU_BLOCK_SIZE_MAX c \<le> fa_size d"
  obtains x s1 s2 ev where "dfu_load c k (of_nat n) (of_nat N) b (Some cb) s = (x, s1)"
    and "dfu_turn c k mb d u s1 = (ev, s2)" and "step_ok cb (x, ev)" and "ready N (Suc n) (acc @ b) s2"
proof -
  have last: "n \<noteq> N - 1" using n(1) by simp
  from load_block [OF r _ n(2) b(1), of "Some cb"] n(1) obtain s1 where
      ld: "dfu_load c k (of_nat n) (of_nat N) b (Some cb) s =
        (if DFU_BLOCKS_WRITE_SIZE \<le> dfu_wr_idx (dfu_state s1) then In_Progress else Ret RET_SUCCESS, s1)"
    and img: "dfu_image c mem (acc @ b) (dfu_state s1) (slot1 s1)"
    and wr: "dfu_wr_idx (dfu_state s1) < 2 * DFU_BLOCKS_WRITE_SIZE"
    and st: "block_number (dfu_state s1) = of_nat n" "block_count (dfu_state s1) = of_nat N"
      "dfu_phase (dfu_state s1) = DFU_IN_PROGRESS" "dfu_cb (dfu_state s1) = Some cb"
    and sems: "if DFU_BLOCKS_WRITE_SIZE \<le> dfu_wr_idx (dfu_state s1)
      then count (sem_dfu_free_space s1) = 0 \<and> count (sem_dfu_full s1) = 1
      else count (sem_dfu_free_space s1) = 1 \<and> count (sem_dfu_full s1) = 0"
    using last by auto
  have len: "length (dfu_bytes (dfu_state s1)) = DFU_BLOCKS_BUFFER_SIZE c" using img by (simp add: dfu_image_def)
  show thesis
  proof (cases "DFU_BLOCKS_WRITE_SIZE \<le> dfu_wr_idx (dfu_state s1)")
    case True
    have "(of_nat n :: u32) \<noteq> of_nat N - 1"
      using of_nat_u32_inj [of n "N - 1"] n last by (simp add: of_nat_diff)
    moreover have "fits_slot (dfu_state s1)"
      using slot n(2) by (auto simp: st unat_of_nat take_bit_nat_eq_self intro: le_trans [OF mod_less_eq_dividend])
    ultimately obtain st' f' where w: "dfu_write_blocks c d (dfu_state s1) (slot1 s1) = (RET_SUCCESS, st', f')"
      and img': "dfu_image c mem (acc @ b) st' f'" and st': "st' = dfu_consume DFU_BLOCKS_WRITE_SIZE (dfu_state s1)"
      using write_chunk [OF img True _ _ b(2)] st by auto
    have f: "dfu_wr_idx st' < DFU_BLOCKS_WRITE_SIZE" "block_number st' = of_nat n" "block_count st' = of_nat N"
      "dfu_phase st' = DFU_IN_PROGRESS" "dfu_cb st' = Some cb"
      using wr st True by (auto simp: st' dfu_consume_def)
    obtain s2 where "dfu_turn c k mb d u s1 = (Some (cb, RET_SUCCESS), s2)" "dfu_state s2 = st'" "slot1 s2 = f'"
      "count (sem_dfu_free_space s2) = 1" "count (sem_dfu_full s2) = 0"
      using turn_write [OF _ st(3) w, of mb u] sems True f(5) by auto
    then show thesis
      using that [OF ld] True img' f by (auto simp: step_ok_def ready_def dfu_image_def)
  next
    case False
    then show thesis
      using that [OF ld turn_idle] sems img wr st len by (auto simp: step_ok_def ready_def)
  qed
qed

lemma transfer_last:
  assumes r: "ready N n acc s" and n: "Suc n = N" "N < 2 ^ 32"
    and b: "0 < length b" "length b \<le> DFU_BLOCK_SIZE_MAX c" "length (acc @ b) \<le> fa_size d"
    and slot: "N * DFU_BLOCK_SIZE_MAX c \<le> fa_size d"
  obtains s1 s2 where "dfu_load c k (of_nat n) (of_nat N) b (Some cb) s = (In_Progress, s1)"
    and "dfu_turn c k mb d u s1 = (Some (cb, RET_SUCCESS), s2)"
    and "dfu_phase (dfu_state s2) = DFU_FINISHED_VERIFY"
    and "count (sem_dfu_free_space s2) = 1" and "count (sem_dfu_full s2) = 0"
    and "mem_get 0 (length (acc @ b) + dfu_pad (length (acc @ b))) (mem (slot1 s2)) =
      (acc @ b) @ replicate (dfu_pad (length (acc @ b))) erased_byte"
proof -
  have last: "n = N - 1" "n < N" using n(1) by simp_all
  from load_block [OF r last(2) n(2) b(2), of "Some cb"] obtain s1 where
      ld: "dfu_load c k (of_nat n) (of_nat N) b (Some cb) s = (In_Progress, s1)"
    and img: "dfu_image c mem (acc @ b) (dfu_state s1) (slot1 s1)"
    and wr: "length b \<le> dfu_wr_idx (dfu_state s1)" "dfu_wr_idx (dfu_state s1) < 2 * DFU_BLOCKS_WRITE_SIZE"
    and st: "block_number (dfu_state s1) = of_nat n" "block_count (dfu_state s1) = of_nat N"
      "dfu_phase (dfu_state s1) = DFU_IN_PROGRESS" "dfu_cb (dfu_state s1) = Some cb"
    and sem: "count (sem_dfu_full s1) = 1"
    using last(1) by auto
  have "block_number (dfu_state s1) = block_count (dfu_state s1) - 1"
    using n(1) by (auto simp: st)
  moreover have "fits_slot (dfu_state s1)"
    using slot n(2) by (auto simp: st unat_of_nat take_bit_nat_eq_self intro: le_trans [OF mod_less_eq_dividend])
  moreover have "0 < dfu_wr_idx (dfu_state s1)" using b(1) wr(1) by linarith
  ultimately obtain st' f' where w: "dfu_write_blocks c d (dfu_state s1) (slot1 s1) = (RET_SUCCESS, st', f')"
    and fin: "dfu_phase st' = DFU_FINISHED_VERIFY" "dfu_cb st' = Some cb"
      "mem_get 0 (length (acc @ b) + dfu_pad (length (acc @ b))) (mem f') =
        (acc @ b) @ replicate (dfu_pad (length (acc @ b))) erased_byte"
    using write_last [OF img _ _ _ _ b(3)] wr(2) st(4) by auto
  then show thesis using that [OF ld] turn_write [OF sem st(3) w, of mb u] by auto
qed

lemma transfer_total:
  assumes r: "ready N n acc s" and N: "n + length bs = N" "bs \<noteq> []" "N < 2 ^ 32"
    and bs: "list_all (\<lambda>b. 0 < length b \<and> length b \<le> DFU_BLOCK_SIZE_MAX c) bs"
    and slot: "N * DFU_BLOCK_SIZE_MAX c \<le> fa_size d" "length acc \<le> n * DFU_BLOCK_SIZE_MAX c"
  shows "\<exists>xs s'. dfu_transfer c k mb d u (of_nat N) cb n bs s = (xs, s') \<and> list_all (step_ok cb) xs \<and>
    dfu_phase (dfu_state s') = DFU_FINISHED_VERIFY \<and>
    count (sem_dfu_free_space s') = 1 \<and> count (sem_dfu_full s') = 0 \<and>
    mem_get 0 (length (acc @ concat bs) + dfu_pad (length (acc @ concat bs))) (mem (slot1 s')) =
      (acc @ concat bs) @ replicate (dfu_pad (length (acc @ concat bs))) erased_byte"
  using assms
proof (induction bs arbitrary: n acc s)
  case (Cons b bs)
  have b: "0 < length b" "length b \<le> DFU_BLOCK_SIZE_MAX c" using Cons.prems(5) by simp_all
  have acc': "length (acc @ b) \<le> Suc n * DFU_BLOCK_SIZE_MAX c" using Cons.prems(7) b(2) by simp
  have "Suc n * DFU_BLOCK_SIZE_MAX c \<le> N * DFU_BLOCK_SIZE_MAX c"
    using Cons.prems(2) by (intro mult_le_mono1) simp
  then have fit: "length (acc @ b) \<le> fa_size d" using acc' Cons.prems(6) by linarith
  show ?case
  proof (cases "bs = []")
    case True
    obtain s1 s2 where "dfu_load c k (of_nat n) (of_nat N) b (Some cb) s = (In_Progress, s1)"
      and "dfu_turn c k mb d u s1 = (Some (cb, RET_SUCCESS), s2)"
      and "dfu_phase (dfu_state s2) = DFU_FINISHED_VERIFY"
      and "count (sem_dfu_free_space s2) = 1" and "count (sem_dfu_full s2) = 0"
      and "mem_get 0 (length (acc @ b) + dfu_pad (length (acc @ b))) (mem (slot1 s2)) =
        (acc @ b) @ replicate (dfu_pad (length (acc @ b))) erased_byte"
      using transfer_last [OF Cons.prems(1) _ Cons.prems(4) b fit Cons.prems(6), of cb mb u] Cons.prems(2) True
      by auto
    then show ?thesis using True by (simp add: step_ok_def)
  next
    case False
    have n': "Suc n < N" using Cons.prems(2) False by (cases bs) auto
    obtain x s1 s2 ev where l: "dfu_load c k (of_nat n) (of_nat N) b (Some cb) s = (x, s1)"
      and t: "dfu_turn c k mb d u s1 = (ev, s2)" and ok: "step_ok cb (x, ev)" and r: "ready N (Suc n) (acc @ b) s2"
      by (rule transfer_block [OF Cons.prems(1) n' Cons.prems(4) b(2) fit Cons.prems(6)])
    have "\<exists>xs s'. dfu_transfer c k mb d u (of_nat N) cb (Suc n) bs s2 = (xs, s') \<and> list_all (step_ok cb) xs \<and>
        dfu_phase (dfu_state s') = DFU_FINISHED_VERIFY \<and>
        count (sem_dfu_free_space s') = 1 \<and> count (sem_dfu_full s') = 0 \<and>
        mem_get 0 (length ((acc @ b) @ concat bs) + dfu_pad (length ((acc @ b) @ concat bs))) (mem (slot1 s')) =
          ((acc @ b) @ concat bs) @ replicate (dfu_pad (length ((acc @ b) @ concat bs))) erased_byte"
      by (rule Cons.IH [OF r]) (use Cons.prems False acc' in auto)
    then show ?thesis using l t ok by auto
  qed
qed simp

end

subsection \<open>The image check\<close>

context reliable_flash
begin

lemma crc_loop:
  assumes crc: "\<And>a xs ys. u (u a xs) ys = u a (xs @ ys)" and pg: "0 < DFU_FLASH_PAGE_SIZE c"
    and le: "n \<le> fa_size d" and off: "off < n" and buf: "length buf = DFU_FLASH_PAGE_SIZE c"
  shows "dfu_crc_loop c d u f n off buf acc = Some (u acc (mem_get off (n - off) (mem f)))"
  using off buf
proof (induction "n - off" arbitrary: off buf acc rule: less_induct)
  case less
  let ?pg = "DFU_FLASH_PAGE_SIZE c"
  show ?case
  proof (cases "n - off \<le> ?pg")
    case True
    have "flash_area_read d f off (take (n - off) buf) = (0, mem_get off (n - off) (mem f))"
      using read_total [of off "take (n - off) buf" f] less.prems le True by (simp add: min_def)
    moreover have "dfu_crc_loop c d u f n (off + ?pg) x a = Some a" for x a
      using True less.prems(1) by (subst dfu_crc_loop.simps) auto
    moreover have "(if n - off < ?pg then n - off else ?pg) = n - off" using True by simp
    ultimately show ?thesis
      using less.prems pg by (subst dfu_crc_loop.simps) (simp add: Let_def)
  next
    case False
    let ?chunk = "mem_get off ?pg (mem f)"
    have rd: "flash_area_read d f off (take ?pg buf) = (0, ?chunk)"
      using read_total [of off "take ?pg buf" f] less.prems le False by simp
    have len: "length ?chunk = ?pg" using le False by simp
    have "dfu_crc_loop c d u f n off buf acc = dfu_crc_loop c d u f n (off + ?pg) (?chunk @ drop ?pg buf) (u acc ?chunk)"
      using rd False less.prems pg by (subst dfu_crc_loop.simps) (simp add: Let_def)
    also have "\<dots> = Some (u (u acc ?chunk) (mem_get (off + ?pg) (n - (off + ?pg)) (mem f)))"
      by (rule less.hyps) (use False less.prems pg len in auto)
    also have "\<dots> = Some (u acc (mem_get off (n - off) (mem f)))"
      using crc mem_get_append [of off ?pg "mem f" "n - (off + ?pg)"] False by simp
    finally show ?thesis .
  qed
qed

end

context nor_flash
begin

lemma crc_loop_too_large:
  assumes pg: "0 < DFU_FLASH_PAGE_SIZE c" and big: "fa_size d < n" and "off < n" and "length buf = DFU_FLASH_PAGE_SIZE c"
  shows "dfu_crc_loop c d u f n off buf acc = None"
  using assms(3,4)
proof (induction "n - off" arbitrary: off buf acc rule: less_induct)
  case less
  let ?pg = "DFU_FLASH_PAGE_SIZE c"
  define len where "len = (if n - off < ?pg then n - off else ?pg)"
  obtain ret bs where rd: "flash_area_read d f off (take len buf) = (ret, bs)"
    by (cases "flash_area_read d f off (take len buf)")
  show ?case
  proof (cases "ret = 0")
    case True
    have l: "length (take len buf) = len" using less.prems(2) by (simp add: len_def)
    have le: "off + len \<le> fa_size d" and bs: "bs = mem_get off len (mem f)"
      using read_sound [of f off "take len buf" bs] rd True unfolding l by auto
    then have pg': "len = ?pg" using big less.prems(1) by (auto simp: len_def split: if_splits)
    then have "dfu_crc_loop c d u f n (off + ?pg) (bs @ drop len buf) (u acc bs) = None"
      using le big bs less.prems pg by (intro less.hyps) auto
    then show ?thesis
      using rd True less.prems(1) pg by (subst dfu_crc_loop.simps) (simp add: Let_def len_def [symmetric])
  next
    case False
    then show ?thesis
      using rd less.prems(1) pg by (subst dfu_crc_loop.simps) (simp add: Let_def len_def [symmetric])
  qed
qed

end

subsection \<open>The thread, statement by statement\<close>

text \<open>
  The calls run in the thread of the job runner, which preempts the processing thread. So a turn of the
  processing thread is split where a call may come in between: a program point \<open>dfu_pc\<close> and one
  transition from each. \<open>Compared n\<close> stands between the comparison of \<^verbatim>\<open>wr_idx\<close> with the \<open>n\<close>
  bytes written and the \<^verbatim>\<open>memcpy\<close> of the rest, whose length is computed anew; \<open>Overrun\<close> is that copy
  with a length below zero. The third component is the callback that a transition makes.
\<close>

datatype dfu_pc = Waiting | Taken | Sized nat | Erased nat | Written nat | Compared nat | Moved nat
  | Release ret_code_t | Notify ret_code_t | Overrun

fun dfu_thread_step ::
  "dfu_cfg \<Rightarrow> 's sem_api \<Rightarrow> mcuboot \<Rightarrow> 'f flash_driver \<Rightarrow> (u32 \<Rightarrow> u8 list \<Rightarrow> u32) \<Rightarrow> bool \<Rightarrow> dfu_pc
   \<Rightarrow> ('s, 'f, 'cb) dfu \<Rightarrow> (dfu_pc \<times> ('s, 'f, 'cb) dfu \<times> ('cb \<times> ret_code_t) option) option" where
  "dfu_thread_step c k mb d u hdr_free Waiting s =
     (let (taken, full) = k_sem_take k (sem_dfu_full s)
      in if taken then Some (Taken, s\<lparr>sem_dfu_full := full\<rparr>, None) else None)"
| "dfu_thread_step c k mb d u hdr_free Taken s =
     (case dfu_phase (dfu_state s) of
        DFU_IN_PROGRESS \<Rightarrow>
          if flash_area_open d \<noteq> 0 then Some (Release RET_ERROR_INVALID_STATE, s, None)
          else if flash_offset (dfu_state s) = 0 \<and>
                  fa_size d < (unat (block_count (dfu_state s)) * DFU_BLOCK_SIZE_MAX c) mod 2 ^ 32
          then Some (Release RET_ERROR_INVALID_PARAM, s\<lparr>dfu_state := dfu_state_zero c\<rparr>, None)
          else let (n, st) = dfu_bytes_to_write (dfu_state s) in Some (Sized n, s\<lparr>dfu_state := st\<rparr>, None)
      | DFU_FINISHED_VERIFY \<Rightarrow>
          let (err, s1) = dfu_secondary_check c mb d u hdr_free (expected_crc32 (dfu_state s)) s
          in Some (Release err, s1, None))"
| "dfu_thread_step c k mb d u hdr_free (Sized n) s =
     (let (err, f) = dfu_erase c d (flash_offset (dfu_state s)) n (slot1 s)
      in Some (if err \<noteq> 0 then Release RET_ERROR_INTERNAL else Erased n, s\<lparr>slot1 := f\<rparr>, None))"
| "dfu_thread_step c k mb d u hdr_free (Erased n) s =
     (let (err, f) = flash_area_write d (slot1 s) (flash_offset (dfu_state s)) (take n (dfu_bytes (dfu_state s)))
      in Some (if err \<noteq> 0 then Release RET_ERROR_INTERNAL else Written n, s\<lparr>slot1 := f\<rparr>, None))"
| "dfu_thread_step c k mb d u hdr_free (Written n) s =
     Some (if n \<le> dfu_wr_idx (dfu_state s) then (Compared n, s, None)
           else (Moved n, s\<lparr>dfu_state := (dfu_state s)\<lparr>dfu_wr_idx := 0\<rparr>\<rparr>, None))"
| "dfu_thread_step c k mb d u hdr_free (Compared n) s =
     (let st = dfu_state s
      in if n \<le> dfu_wr_idx st
         then Some (Moved n, s\<lparr>dfu_state := st\<lparr>
                dfu_bytes := mem_put 0 (mem_get n (dfu_wr_idx st - n) (dfu_bytes st)) (dfu_bytes st),
                dfu_wr_idx := dfu_wr_idx st - n\<rparr>\<rparr>, None)
         else Some (Overrun, s, None))"
| "dfu_thread_step c k mb d u hdr_free (Moved n) s =
     Some (Release RET_SUCCESS,
       s\<lparr>dfu_state := (dfu_state s)\<lparr>flash_offset := flash_offset (dfu_state s) + n\<rparr>\<rparr>, None)"
| "dfu_thread_step c k mb d u hdr_free (Release err) s =
     Some (Notify err, s\<lparr>sem_dfu_free_space := k_sem_give k (sem_dfu_free_space s)\<rparr>, None)"
| "dfu_thread_step c k mb d u hdr_free (Notify err) s =
     Some (Waiting, s, map_option (\<lambda>cb. (cb, err)) (dfu_cb (dfu_state s)))"
| "dfu_thread_step c k mb d u hdr_free Overrun s = None"

text \<open>Transitions up to the next wait, at most as many as the first argument says.\<close>

fun dfu_thread_run ::
  "nat \<Rightarrow> dfu_cfg \<Rightarrow> 's sem_api \<Rightarrow> mcuboot \<Rightarrow> 'f flash_driver \<Rightarrow> (u32 \<Rightarrow> u8 list \<Rightarrow> u32) \<Rightarrow> bool \<Rightarrow> dfu_pc
   \<Rightarrow> ('s, 'f, 'cb) dfu \<Rightarrow> (('s, 'f, 'cb) dfu \<times> ('cb \<times> ret_code_t) option) option" where
  "dfu_thread_run 0 c k mb d u hdr_free pc s = None"
| "dfu_thread_run (Suc m) c k mb d u hdr_free pc s =
     (case dfu_thread_step c k mb d u hdr_free pc s of
        None \<Rightarrow> None
      | Some (pc', s', ev) \<Rightarrow> if pc' = Waiting then Some (s', ev) else dfu_thread_run m c k mb d u hdr_free pc' s')"

lemma dfu_thread_run_nine: "(9 :: nat) = Suc (Suc (Suc (Suc (Suc (Suc (Suc (Suc (Suc 0))))))))"
  by simp

text \<open>Nothing in between, the nine transitions are a turn of the thread.\<close>

lemma thread_run_turn:
  "dfu_thread_run 9 c k mb d u hdr_free Waiting s = process_dfu_blocks_thread c k mb d u hdr_free s"
proof (cases "k_sem_take k (sem_dfu_full s)")
  case (Pair taken full)
  let ?s1 = "s\<lparr>sem_dfu_full := full\<rparr>"
  show ?thesis
  proof (cases "taken \<and> dfu_phase (dfu_state s) = DFU_IN_PROGRESS \<and> flash_area_open d = 0 \<and>
      \<not> (flash_offset (dfu_state s) = 0 \<and>
         fa_size d < (unat (block_count (dfu_state s)) * DFU_BLOCK_SIZE_MAX c) mod 2 ^ 32)")
    case False
    then show ?thesis
      unfolding dfu_thread_run_nine process_dfu_blocks_thread_def dfu_write_blocks_def
      by (cases taken; cases "dfu_phase (dfu_state s)";
          cases "dfu_secondary_check c mb d u hdr_free (expected_crc32 (dfu_state s)) ?s1")
        (auto simp: Pair Let_def)
  next
    case True
    obtain n st where w: "dfu_bytes_to_write (dfu_state s) = (n, st)" by (cases "dfu_bytes_to_write (dfu_state s)")
    obtain e f where er: "dfu_erase c d (flash_offset st) n (slot1 s) = (e, f)"
      by (cases "dfu_erase c d (flash_offset st) n (slot1 s)")
    obtain e' f' where wr: "flash_area_write d f (flash_offset st) (take n (dfu_bytes st)) = (e', f')"
      by (cases "flash_area_write d f (flash_offset st) (take n (dfu_bytes st))")
    show ?thesis
      using True unfolding dfu_thread_run_nine process_dfu_blocks_thread_def dfu_write_blocks_def
      by (cases "e = 0"; cases "e' = 0"; cases "n \<le> dfu_wr_idx st")
        (auto simp: Pair w er wr Let_def dfu_consume_def)
  qed
qed

subsection \<open>Every interleaving\<close>

text \<open>
  The calls, with any arguments, at any program point of the thread. Activation ends by clearing
  \<^verbatim>\<open>dfu_state\<close> without taking a semaphore; where its reads and writes of flash wait for the
  thread's, the clearing comes as a transition of its own. With \<open>window\<close> false it does
  not come between the comparison and the copy.
\<close>

inductive dfu_step ::
  "dfu_cfg \<Rightarrow> 's sem_api \<Rightarrow> mcuboot \<Rightarrow> 'f flash_driver \<Rightarrow> (u32 \<Rightarrow> u8 list \<Rightarrow> u32) \<Rightarrow> bool
   \<Rightarrow> dfu_pc \<times> ('s, 'f, 'cb) dfu \<Rightarrow> dfu_pc \<times> ('s, 'f, 'cb) dfu \<Rightarrow> bool"
  for c k mb d u window where
  thread: "dfu_thread_step c k mb d u hdr pc s = Some (pc', s', ev) \<Longrightarrow> dfu_step c k mb d u window (pc, s) (pc', s')"
| load: "dfu_load c k n cnt data cb s = (r, s') \<Longrightarrow> dfu_step c k mb d u window (pc, s) (pc, s')"
| check: "dfu_secondary_check_async k crc32 cb s = (r, s') \<Longrightarrow> dfu_step c k mb d u window (pc, s) (pc, s')"
| activate: "dfu_secondary_activate c mb d hdr pending swap perm s = (r', s') \<Longrightarrow> window \<or> (\<forall>n. pc \<noteq> Compared n) \<Longrightarrow>
    dfu_step c k mb d u window (pc, s) (pc, s')"
| clear: "window \<or> (\<forall>n. pc \<noteq> Compared n) \<Longrightarrow>
    dfu_step c k mb d u window (pc, s) (pc, s\<lparr>dfu_state := dfu_state_zero c\<rparr>)"
| version: "dfu_version_secondary_get mb d ptr s = (v, s') \<Longrightarrow> dfu_step c k mb d u window (pc, s) (pc, s')"

inductive_cases dfu_stepE: "dfu_step c k mb d u window (pc, s) (pc', s')"

definition dfu_bounds :: "dfu_cfg \<Rightarrow> ('s, 'f, 'cb) dfu \<Rightarrow> bool" where
  "dfu_bounds c s \<longleftrightarrow> length (dfu_bytes (dfu_state s)) = DFU_BLOCKS_BUFFER_SIZE c \<and>
     dfu_wr_idx (dfu_state s) \<le> DFU_BLOCKS_BUFFER_SIZE c"

definition dfu_pc_holds :: "dfu_pc \<Rightarrow> nat" where
  "dfu_pc_holds pc = (case pc of Waiting \<Rightarrow> 0 | Notify _ \<Rightarrow> 0 | _ \<Rightarrow> 1)"

definition dfu_pc_ok :: "dfu_cfg \<Rightarrow> dfu_pc \<Rightarrow> ('s, 'f, 'cb) dfu \<Rightarrow> bool" where
  "dfu_pc_ok c pc s = (case pc of
     Sized n \<Rightarrow> n \<le> DFU_BLOCKS_BUFFER_SIZE c | Erased n \<Rightarrow> n \<le> DFU_BLOCKS_BUFFER_SIZE c
   | Compared n \<Rightarrow> n \<le> dfu_wr_idx (dfu_state s) | Overrun \<Rightarrow> False | _ \<Rightarrow> True)"

text \<open>
  \<open>dfu_inv\<close>: the buffer keeps its size and the write index stays inside; the bytes to write are
  in the buffer, and the rest that is copied is not negative; the right to
  touch the buffer is in exactly one place: free, handed over, or with the thread.
\<close>

definition dfu_inv :: "dfu_cfg \<Rightarrow> ('s \<Rightarrow> nat) \<Rightarrow> dfu_pc \<Rightarrow> ('s, 'f, 'cb) dfu \<Rightarrow> bool" where
  "dfu_inv c count pc s \<longleftrightarrow> dfu_bounds c s \<and> dfu_pc_ok c pc s \<and>
     count (sem_dfu_free_space s) + count (sem_dfu_full s) + dfu_pc_holds pc = 1"

lemma version_secondary_frame:
  "dfu_version_secondary_get mb d ptr s = (v, s') \<Longrightarrow>
   dfu_state s' = dfu_state s \<and> sem_dfu_free_space s' = sem_dfu_free_space s \<and> sem_dfu_full s' = sem_dfu_full s \<and>
   slot1 s' = slot1 s"
  by (auto simp: dfu_version_secondary_get_def Let_def split: if_splits prod.splits)

lemma secondary_check_frame:
  "dfu_secondary_check c mb d u hdr crc32 s = (r, s') \<Longrightarrow>
   dfu_state s' = dfu_state s \<and> sem_dfu_free_space s' = sem_dfu_free_space s \<and> sem_dfu_full s' = sem_dfu_full s"
  using version_secondary_frame [of mb d True s]
  by (cases "dfu_version_secondary_get mb d True s")
    (auto simp: dfu_secondary_check_def Let_def split: if_splits option.splits)

lemma activate_frame:
  assumes "dfu_secondary_activate c mb d hdr pending swap perm s = (r, s')"
  shows "(dfu_state s' = dfu_state s \<or> dfu_state s' = dfu_state_zero c) \<and>
    sem_dfu_free_space s' = sem_dfu_free_space s \<and> sem_dfu_full s' = sem_dfu_full s"
proof -
  obtain v s1 where v: "dfu_version_secondary_get mb d True s = (v, s1)"
    by (cases "dfu_version_secondary_get mb d True s")
  then have "s' = s1 \<or> s' = s1\<lparr>dfu_state := dfu_state_zero c\<rparr>"
    using assms unfolding dfu_secondary_activate_def Let_def by (simp split: if_splits)
  then show ?thesis using version_secondary_frame [OF v] by auto
qed

lemma activate_success_zero:
  "dfu_secondary_activate c mb d hdr 0 swap perm s = (rc RET_SUCCESS, s') \<Longrightarrow> dfu_state s' = dfu_state_zero c"
  by (auto simp: dfu_secondary_activate_def Let_def split: if_splits)

lemma zero_state_bounds:
  "length (dfu_bytes (dfu_state_zero c)) = DFU_BLOCKS_BUFFER_SIZE c" "dfu_wr_idx (dfu_state_zero c) = 0"
  by (simp_all add: dfu_state_zero_def)

lemma bytes_to_write_bounds:
  assumes "dfu_bytes_to_write st = (n, st')" and "length (dfu_bytes st) = DFU_BLOCKS_BUFFER_SIZE c"
    and "dfu_wr_idx st \<le> DFU_BLOCKS_BUFFER_SIZE c"
  shows "length (dfu_bytes st') = DFU_BLOCKS_BUFFER_SIZE c \<and> dfu_wr_idx st' = dfu_wr_idx st \<and>
    n \<le> DFU_BLOCKS_BUFFER_SIZE c"
proof -
  have pad: "dfu_wr_idx st + dfu_pad (dfu_wr_idx st) \<le> DFU_BLOCKS_BUFFER_SIZE c"
    by (rule pad_fits [OF assms(3) buffer_size(2)])
  have "DFU_BLOCKS_WRITE_SIZE \<le> DFU_BLOCKS_BUFFER_SIZE c" using buffer_size(1) [of c] by linarith
  then show ?thesis
    using assms pad by (auto simp: dfu_bytes_to_write_def Let_def dfu_pad_def split: if_splits)
qed

text \<open>A call that leaves bounds and semaphores alone keeps the invariant, unless it moves the index under a copy.\<close>

lemma inv_frame:
  "dfu_inv c count pc s \<Longrightarrow> dfu_bounds c s' \<Longrightarrow> sem_dfu_free_space s' = sem_dfu_free_space s \<Longrightarrow>
   sem_dfu_full s' = sem_dfu_full s \<Longrightarrow>
   dfu_wr_idx (dfu_state s') = dfu_wr_idx (dfu_state s) \<or> (\<forall>n. pc \<noteq> Compared n) \<Longrightarrow> dfu_inv c count pc s'"
  by (auto simp: dfu_inv_def dfu_pc_ok_def split: dfu_pc.splits)

context binary_semaphore
begin

lemma free_only:
  "dfu_inv c count pc s \<Longrightarrow> fst (k_sem_take k (sem_dfu_free_space s)) \<Longrightarrow>
   count (sem_dfu_full s) = 0 \<and> dfu_pc_holds pc = 0"
  by (auto simp: take_iff dfu_inv_def)

lemma holds_0: "dfu_pc_holds pc = 0 \<Longrightarrow> dfu_pc_ok c pc s"
  by (auto simp: dfu_pc_holds_def dfu_pc_ok_def split: dfu_pc.splits)

lemma load_inv:
  assumes "dfu_inv c count pc s" and "dfu_load c k n cnt data cb s = (r, s')"
  shows "dfu_inv c count pc s'"
proof (cases "fst (k_sem_take k (sem_dfu_free_space s))")
  case True
  then show ?thesis
    using assms free_only [OF assms(1) True] holds_0 [of pc] count_take [of "sem_dfu_free_space s"] count_give
    by (auto simp: dfu_load_def dfu_inv_def dfu_bounds_def Let_def dfu_new_image_def split: if_splits prod.splits)
next
  case False
  then have "k_sem_take k (sem_dfu_free_space s) = (False, sem_dfu_free_space s)"
    using take_iff [of "sem_dfu_free_space s"] count_le [of "sem_dfu_free_space s"]
    by (intro take_empty) linarith
  then show ?thesis using assms by (auto simp: dfu_load_def split: if_splits)
qed

lemma check_inv:
  assumes "dfu_inv c count pc s" and "dfu_secondary_check_async k crc32 cb s = (r, s')"
  shows "dfu_inv c count pc s'"
proof (cases "fst (k_sem_take k (sem_dfu_free_space s))")
  case True
  then show ?thesis
    using assms free_only [OF assms(1) True] holds_0 [of pc] count_take [of "sem_dfu_free_space s"] count_give
    by (auto simp: dfu_secondary_check_async_def dfu_inv_def dfu_bounds_def Let_def split: if_splits prod.splits)
next
  case False
  then have "k_sem_take k (sem_dfu_free_space s) = (False, sem_dfu_free_space s)"
    using take_iff [of "sem_dfu_free_space s"] count_le [of "sem_dfu_free_space s"]
    by (intro take_empty) linarith
  then show ?thesis using assms by (auto simp: dfu_secondary_check_async_def)
qed

lemma taken_inv:
  assumes inv: "dfu_inv c count Taken s" and run: "dfu_thread_step c k mb d u hdr Taken s = Some (pc', s', ev)"
  shows "dfu_inv c count pc' s'"
proof (cases "dfu_phase (dfu_state s)")
  case DFU_IN_PROGRESS
  obtain n st where w: "dfu_bytes_to_write (dfu_state s) = (n, st)" by (cases "dfu_bytes_to_write (dfu_state s)")
  then show ?thesis
    using run inv DFU_IN_PROGRESS bytes_to_write_bounds [OF w, of c]
    by (auto simp: dfu_inv_def dfu_bounds_def dfu_pc_ok_def dfu_pc_holds_def zero_state_bounds split: if_splits)
next
  case DFU_FINISHED_VERIFY
  obtain r s2 where "dfu_secondary_check c mb d u hdr (expected_crc32 (dfu_state s)) s = (r, s2)"
    by (cases "dfu_secondary_check c mb d u hdr (expected_crc32 (dfu_state s)) s")
  then show ?thesis
    using run inv DFU_FINISHED_VERIFY secondary_check_frame
    by (fastforce simp: dfu_inv_def dfu_bounds_def dfu_pc_ok_def dfu_pc_holds_def)
qed

lemma thread_inv:
  assumes inv: "dfu_inv c count pc s" and run: "dfu_thread_step c k mb d u hdr pc s = Some (pc', s', ev)"
  shows "dfu_inv c count pc' s'"
proof (cases pc)
  case Waiting
  then show ?thesis
    using inv run take_iff [of "sem_dfu_full s"] count_take [of "sem_dfu_full s"]
    by (auto simp: dfu_inv_def dfu_bounds_def dfu_pc_ok_def dfu_pc_holds_def split: if_splits prod.splits)
next
  case Taken
  then show ?thesis using taken_inv inv run by simp
next
  case (Release err)
  then show ?thesis
    using inv run count_give by (auto simp: dfu_inv_def dfu_bounds_def dfu_pc_ok_def dfu_pc_holds_def)
qed (use inv run in \<open>auto simp: dfu_inv_def dfu_bounds_def dfu_pc_ok_def dfu_pc_holds_def Let_def split: if_splits prod.splits\<close>)

lemma activate_inv:
  assumes inv: "dfu_inv c count pc s" and "dfu_secondary_activate c mb d hdr pending swap perm s = (r, s')"
    and "\<forall>n. pc \<noteq> Compared n"
  shows "dfu_inv c count pc s'"
  using inv activate_frame [OF assms(2)] assms(3)
  by (intro inv_frame [OF inv]) (auto simp: dfu_inv_def dfu_bounds_def zero_state_bounds)

lemma clear_inv:
  assumes inv: "dfu_inv c count pc s" and "\<forall>n. pc \<noteq> Compared n"
  shows "dfu_inv c count pc (s\<lparr>dfu_state := dfu_state_zero c\<rparr>)"
  using assms(2) by (intro inv_frame [OF inv]) (auto simp: dfu_bounds_def zero_state_bounds)

lemma version_inv:
  assumes inv: "dfu_inv c count pc s" and "dfu_version_secondary_get mb d ptr s = (v, s')"
  shows "dfu_inv c count pc s'"
  using inv version_secondary_frame [OF assms(2)]
  by (intro inv_frame [OF inv]) (auto simp: dfu_inv_def dfu_bounds_def)

lemmas all_inv = thread_inv load_inv check_inv activate_inv clear_inv version_inv

lemma step_inv:
  assumes "dfu_step c k mb d u False (pc, s) (pc', s')" and inv: "dfu_inv c count pc s"
  shows "dfu_inv c count pc' s'"
  using assms(1) by (rule dfu_stepE) (use all_inv [OF inv] in auto)

lemma reachable_inv:
  "(dfu_step c k mb d u False)\<^sup>*\<^sup>* x y \<Longrightarrow> dfu_inv c count (fst x) (snd x) \<Longrightarrow> dfu_inv c count (fst y) (snd y)"
proof (induction rule: rtranclp_induct)
  case (step y z)
  then show ?case using step_inv [of c mb d u "fst y" "snd y" "fst z" "snd z"] by simp
qed

end

text \<open>
  What the window does: an activation that succeeds between the comparison and the copy
  leaves the copy with a length below zero.
\<close>

lemma activation_in_window:
  assumes "dfu_secondary_activate c mb d hdr 0 swap perm s = (rc RET_SUCCESS, s')" "0 < n"
  shows "(dfu_step c k mb d u True)\<^sup>*\<^sup>* (Compared n, s) (Overrun, s')"
proof -
  have "dfu_step c k mb d u True (Compared n, s) (Compared n, s')"
    using assms(1) by (intro dfu_step.activate) simp_all
  moreover have "dfu_step c k mb d u True (Compared n, s') (Overrun, s')"
    using activate_success_zero [OF assms(1)] assms(2)
    by (intro dfu_step.thread [where hdr = True and ev = None]) (simp add: Let_def zero_state_bounds)
  ultimately show ?thesis by (meson converse_rtranclp_into_rtranclp r_into_rtranclp)
qed

text \<open>A number of the thread's transitions in a row.\<close>

fun dfu_thread_steps ::
  "nat \<Rightarrow> dfu_cfg \<Rightarrow> 's sem_api \<Rightarrow> mcuboot \<Rightarrow> 'f flash_driver \<Rightarrow> (u32 \<Rightarrow> u8 list \<Rightarrow> u32) \<Rightarrow> bool
   \<Rightarrow> dfu_pc \<times> ('s, 'f, 'cb) dfu \<Rightarrow> (dfu_pc \<times> ('s, 'f, 'cb) dfu) option" where
  "dfu_thread_steps 0 c k mb d u hdr_free x = Some x"
| "dfu_thread_steps (Suc m) c k mb d u hdr_free x =
     (case dfu_thread_step c k mb d u hdr_free (fst x) (snd x) of
        None \<Rightarrow> None | Some (pc, s, ev) \<Rightarrow> dfu_thread_steps m c k mb d u hdr_free (pc, s))"

lemma thread_steps_star:
  "dfu_thread_steps m c k mb d u hdr_free x = Some y \<Longrightarrow> (dfu_step c k mb d u window)\<^sup>*\<^sup>* x y"
proof (induction m arbitrary: x)
  case (Suc m)
  then show ?case
    using dfu_step.thread [of c k mb d u hdr_free "fst x" "snd x"]
    by (fastforce split: option.splits prod.splits intro: converse_rtranclp_into_rtranclp)
qed simp

lemma steps_to_compared:
  assumes "k_sem_take k (sem_dfu_full s) = (True, full)" "dfu_phase (dfu_state s) = DFU_IN_PROGRESS"
    and "dfu_write_blocks c d (dfu_state s) (slot1 s) = (RET_SUCCESS, st', f')"
    and "dfu_bytes_to_write (dfu_state s) = (n, st)" "n \<le> dfu_wr_idx st"
  shows "\<exists>s'. dfu_thread_steps 5 c k mb d u hdr_free (Waiting, s) = Some (Compared n, s')"
proof -
  have five: "(5 :: nat) = Suc (Suc (Suc (Suc (Suc 0))))" by simp
  show ?thesis
    using assms unfolding five by (auto simp: dfu_write_blocks_def Let_def split: if_splits prod.splits)
qed

subsection \<open>An instance\<close>

definition sim_cfg :: dfu_cfg where
  "sim_cfg = \<lparr>DFU_BLOCK_SIZE_MAX = 40, DFU_FLASH_SECTOR_SIZE = 128, DFU_FLASH_PAGE_SIZE = 16\<rparr>"

lemma sim_erase_ok: "off + n \<le> N \<Longrightarrow> fst (flash_area_erase (sim_flash N b) f off n) = 0"
  by (simp add: sim_flash_def)

lemma dfu_platform_sim:
  "dfu_platform (sim_flash 512 8) (sim_mem 512) sim_sem (of_bool :: bool \<Rightarrow> nat) sim_cfg"
  by (intro dfu_platform.intro dfu_platform_axioms.intro reliable_sim sim_sem.binary_semaphore_axioms)
    (simp_all add: sim_cfg_def sim_erase_ok)

interpretation sim_dfu: dfu_platform "sim_flash 512 8" "sim_mem 512" sim_sem "of_bool :: bool \<Rightarrow> nat" sim_cfg
  by (rule dfu_platform_sim)

definition sim_dfu_start :: "u8 list \<Rightarrow> (bool, u8 list, unit) dfu" where
  "sim_dfu_start f = \<lparr>dfu_state = dfu_state_zero sim_cfg, sem_dfu_free_space = True, sem_dfu_full = False,
     tid_dfu = False, slot0 = [], slot1 = f, primary_slot_header = [0, 0], secondary_slot_header = [0, 0]\<rparr>"

text \<open>An image format with a two-byte header: the image size and the header size; the version is fixed.\<close>

definition sim_mcuboot :: mcuboot where
  "sim_mcuboot = \<lparr>header_len = 2,
     parse_header = (\<lambda>bs. \<lparr>ih_magic = 1, ih_hdr_size = ucast (bs ! 1), ih_img_size = ucast (bs ! 0),
       ih_ver = \<lparr>iv_major = 0, iv_minor = 0, iv_revision = 0, iv_build_num = 0\<rparr>\<rparr>),
     IMAGE_MAGIC = 1, tlv_len = 2, parse_tlv = (\<lambda>bs. (ucast (bs ! 0), ucast (bs ! 1))),
     IMAGE_TLV_INFO_MAGIC = 0x69, IMAGE_TLV_PROT_INFO_MAGIC = 0x68,
     BOOT_SWAP_TYPE_TEST = 2, BOOT_SWAP_TYPE_PERM = 3\<rparr>"

definition sim_blocks :: "u8 list list" where
  "sim_blocks = [replicate 40 1, replicate 40 2, [3, 4]]"

subsection \<open>Properties\<close>

text \<open>
  C3. A transfer writes the image: when every block is non-empty and no larger than the
  maximum, and the image fits the slot, every block is accepted, every callback reports success,
  and at the end the secondary slot starts with the blocks in order, padded with
  \<open>0xFF\<close> to a double word, whatever the slot held before, with the state ready for the check.
\<close>

theorem dfu_transfer_writes_image:
  assumes "dfu_platform d mem k count c"
    and "count (sem_dfu_free_space s) = 1" and "count (sem_dfu_full s) = 0"
    and "length (dfu_bytes (dfu_state s)) = DFU_BLOCKS_BUFFER_SIZE c"
    and "bs \<noteq> []" and "length bs < 2 ^ 32"
    and "list_all (\<lambda>b. 0 < length b \<and> length b \<le> DFU_BLOCK_SIZE_MAX c) bs"
    and "length bs * DFU_BLOCK_SIZE_MAX c \<le> fa_size d"
  shows "\<exists>xs s'. dfu_transfer c k mb d u (of_nat (length bs)) cb 0 bs s = (xs, s') \<and> list_all (step_ok cb) xs \<and>
    dfu_phase (dfu_state s') = DFU_FINISHED_VERIFY \<and>
    count (sem_dfu_free_space s') = 1 \<and> count (sem_dfu_full s') = 0 \<and>
    mem_get 0 (length (concat bs) + dfu_pad (length (concat bs))) (mem (slot1 s')) =
      concat bs @ replicate (dfu_pad (length (concat bs))) erased_byte"
proof -
  have "dfu_platform.ready mem count c (length bs) 0 [] s"
    using assms(2-4) by (simp add: dfu_platform.ready_def [OF assms(1)])
  then show ?thesis
    using dfu_platform.transfer_total [OF assms(1), of "length bs" 0 "[]" s bs] assms by simp
qed

theorem dfu_transfer_writes_image_witness:
  "\<exists>xs s'. dfu_transfer sim_cfg sim_sem sim_mcuboot (sim_flash 512 8) (\<lambda>a xs. a)
     (of_nat (length sim_blocks)) () 0 sim_blocks (sim_dfu_start (replicate 512 0)) = (xs, s') \<and>
   list_all (step_ok ()) xs \<and> dfu_phase (dfu_state s') = DFU_FINISHED_VERIFY \<and>
   of_bool (sem_dfu_free_space s') = (1 :: nat) \<and> of_bool (sem_dfu_full s') = (0 :: nat) \<and>
   mem_get 0 (length (concat sim_blocks) + dfu_pad (length (concat sim_blocks))) (sim_mem 512 (slot1 s')) =
     concat sim_blocks @ replicate (dfu_pad (length (concat sim_blocks))) erased_byte"
  by (rule dfu_transfer_writes_image [OF dfu_platform_sim])
    (simp_all add: sim_dfu_start_def zero_state_bounds sim_cfg_def sim_blocks_def)

text \<open>
  C4. In every interleaving of calls, with any arguments, and transitions of the thread the receive buffer is never
  overrun, and the right to touch it is in exactly one place: free, handed over or with the thread.
  An activation, which clears the state without a semaphore, may come at any program
  point but the one between the comparison and the copy of the rest: what happens there is
  \<^verbatim>\<open>dfu_activation_overruns\<close>.
\<close>

theorem dfu_buffer_safe:
  assumes "binary_semaphore k count" and "(dfu_step c k mb d u False)\<^sup>*\<^sup>* (pc, s) (pc', s')"
    and "dfu_inv c count pc s"
  shows "dfu_inv c count pc' s'"
  using binary_semaphore.reachable_inv [OF assms(1,2)] assms(3) by simp

text \<open>A block of forty bytes, and the thread's first transition.\<close>

theorem dfu_buffer_safe_witness:
  "dfu_inv sim_cfg (of_bool :: bool \<Rightarrow> nat) Taken
     ((snd (dfu_load sim_cfg sim_sem 0 1 (replicate 40 1) (Some ()) (sim_dfu_start [])))\<lparr>sem_dfu_full := False\<rparr>)"
proof (rule dfu_buffer_safe [OF sim_sem.binary_semaphore_axioms])
  let ?s = "snd (dfu_load sim_cfg sim_sem 0 1 (replicate 40 1) (Some ()) (sim_dfu_start []))"
  let ?step = "dfu_step sim_cfg sim_sem sim_mcuboot (sim_flash 512 8) (\<lambda>a xs. a) False"
  have "?step (Waiting, sim_dfu_start []) (Waiting, ?s)"
    by (rule dfu_step.load, rule prod.collapse [symmetric])
  moreover have "sem_dfu_full ?s"
    by (simp add: dfu_load_def dfu_load_params_ok_def sim_dfu_start_def sim_cfg_def sim_sem_def
        dfu_state_zero_def dfu_new_image_def DFU_BLOCKS_BUFFER_SIZE_def DFU_BLOCKS_BUFFER_MIN_SIZE_def)
  then have "?step (Waiting, ?s) (Taken, ?s\<lparr>sem_dfu_full := False\<rparr>)"
    by (intro dfu_step.thread [where hdr = True and ev = None]) (simp add: sim_sem_def)
  ultimately show "?step\<^sup>*\<^sup>* (Waiting, sim_dfu_start []) (Taken, ?s\<lparr>sem_dfu_full := False\<rparr>)"
    by (meson converse_rtranclp_into_rtranclp r_into_rtranclp)
  show "dfu_inv sim_cfg of_bool Waiting (sim_dfu_start [])"
    by (simp add: dfu_inv_def dfu_bounds_def dfu_pc_ok_def dfu_pc_holds_def sim_dfu_start_def zero_state_bounds)
qed

text \<open>
  A successful activation between the comparison and the copy: the index is zero when the length of the rest
  is computed, which is then below zero. It is reached from the start: one block of an image, five
  transitions of the thread, the activation.
\<close>

lemma dfu_activation_overruns:
  "\<exists>s. (dfu_step sim_cfg sim_sem sim_mcuboot (sim_flash 512 8) (\<lambda>a xs. a) True)\<^sup>*\<^sup>*
    (Waiting, sim_dfu_start (replicate 512 0)) (Overrun, s)"
proof -
  let ?step = "dfu_step sim_cfg sim_sem sim_mcuboot (sim_flash 512 8) (\<lambda>a xs. a) True"
  let ?start = "sim_dfu_start (replicate 512 0)"
  have "sim_dfu.ready 1 0 [] ?start" by (simp add: sim_dfu.ready_def sim_dfu_start_def zero_state_bounds)
  from sim_dfu.load_block [OF this, of "replicate 40 1" "Some ()"] obtain s1 where
      ld: "dfu_load sim_cfg sim_sem (of_nat 0) (of_nat 1) (replicate 40 1) (Some ()) ?start = (In_Progress, s1)"
    and img: "dfu_image sim_cfg (sim_mem 512) ([] @ replicate 40 1) (dfu_state s1) (slot1 s1)"
    and st: "block_number (dfu_state s1) = 0" "block_count (dfu_state s1) = 1" "dfu_phase (dfu_state s1) = DFU_IN_PROGRESS"
    and sem: "of_bool (sem_dfu_full s1) = (1 :: nat)"
    by (auto simp: sim_cfg_def)
  have wr: "dfu_wr_idx (dfu_state s1) = 40"
    using ld by (auto simp: dfu_load_def dfu_new_image_def Let_def split: if_splits prod.splits)
  have last: "block_number (dfu_state s1) = block_count (dfu_state s1) - 1" by (simp add: st)
  then obtain st' f' where w: "dfu_write_blocks sim_cfg (sim_flash 512 8) (dfu_state s1) (slot1 s1) = (RET_SUCCESS, st', f')"
    using sim_dfu.write_last [OF img _ _ last] by (auto simp: wr st sim_cfg_def)
  obtain n st1 where n: "dfu_bytes_to_write (dfu_state s1) = (n, st1)" "n = 40" "dfu_wr_idx st1 = 40"
    using last wr by (simp add: dfu_bytes_to_write_def Let_def)
  from sem have "sem_dfu_full s1" by (cases "sem_dfu_full s1") simp_all
  then have "k_sem_take sim_sem (sem_dfu_full s1) = (True, False)" by (simp add: sim_sem_def)
  from steps_to_compared [OF this st(3) w n(1), of sim_mcuboot "\<lambda>a xs. a" True] obtain s where
    "dfu_thread_steps 5 sim_cfg sim_sem sim_mcuboot (sim_flash 512 8) (\<lambda>a xs. a) True (Waiting, s1) = Some (Compared 40, s)"
    using n by auto
  then have "?step\<^sup>*\<^sup>* (Waiting, s1) (Compared 40, s)" by (rule thread_steps_star)
  moreover have "?step (Waiting, ?start) (Waiting, s1)" by (rule dfu_step.load [OF ld])
  moreover obtain s' where "dfu_secondary_activate sim_cfg sim_mcuboot (sim_flash 512 8) True 0 3 True s = (rc RET_SUCCESS, s')"
    by (cases "dfu_secondary_activate sim_cfg sim_mcuboot (sim_flash 512 8) True 0 3 True s")
      (simp add: dfu_secondary_activate_def sim_mcuboot_def Let_def split: if_splits)
  then have "?step\<^sup>*\<^sup>* (Compared 40, s) (Overrun, s')" by (rule activation_in_window) simp
  ultimately show ?thesis by (meson converse_rtranclp_into_rtranclp rtranclp_trans)
qed

text \<open>
  C5. The image check succeeds exactly when the checksum of the image in flash, from its first
  byte to the end of its trailer, is the expected one; an image that claims to be larger than the
  slot is refused.
\<close>

theorem dfu_secondary_check_correct:
  assumes "reliable_flash d mem" and "flash_area_open d = 0" and "0 < DFU_FLASH_PAGE_SIZE c"
    and "\<And>a xs ys. u (u a xs) ys = u a (xs @ ys)" and "length (secondary_slot_header s) \<le> fa_size d"
    and h: "h = parse_header mb (mem_get 0 (length (secondary_slot_header s)) (mem (slot1 s)))" "ih_img_size h \<noteq> 0"
    and n: "n = unat (dfu_image_size mb d (slot1 s) h)" "0 < n"
  shows "fst (dfu_secondary_check c mb d u True crc32 s) =
    (if fa_size d < n then RET_ERROR_INTERNAL
     else if u 0 (mem_get 0 n (mem (slot1 s))) = crc32 then RET_SUCCESS else RET_ERROR_INVALID_STATE)"
proof -
  have "flash_area_read d (slot1 s) 0 (secondary_slot_header s) =
      (0, mem_get 0 (length (secondary_slot_header s)) (mem (slot1 s)))"
    using reliable_flash.read_total [OF assms(1), of 0 "secondary_slot_header s" "slot1 s"] assms(5) by simp
  then have v: "snd (dfu_version_secondary_get mb d True s) =
      s\<lparr>secondary_slot_header := mem_get 0 (length (secondary_slot_header s)) (mem (slot1 s))\<rparr>"
    using assms(2) by (simp add: dfu_version_secondary_get_def Let_def)
  let ?loop = "dfu_crc_loop c d u (slot1 s) n 0 (replicate (DFU_FLASH_PAGE_SIZE c) 0) 0"
  have "?loop = (if fa_size d < n then None else Some (u 0 (mem_get 0 n (mem (slot1 s)))))"
    using reliable_flash.crc_loop [OF assms(1), of u c n 0]
      nor_flash.crc_loop_too_large [OF reliable_flash.axioms(1) [OF assms(1)], of c n 0] assms(3,4) n(2) by simp
  then show ?thesis
    using v h assms(2) n(1) by (simp add: dfu_secondary_check_def)
qed

theorem dfu_secondary_check_correct_witness:
  "fst (dfu_secondary_check sim_cfg sim_mcuboot (sim_flash 64 8) (\<lambda>a xs. fold (\<lambda>x a. a + ucast x) xs a) True 17
     (sim_dfu_start ([3, 2, 5, 4, 3] @ replicate 59 255))) = RET_SUCCESS"
  by (subst dfu_secondary_check_correct [OF reliable_sim, where
        h = "\<lparr>ih_magic = 1, ih_hdr_size = 2, ih_img_size = 3, ih_ver = \<lparr>iv_major = 0, iv_minor = 0, iv_revision = 0, iv_build_num = 0\<rparr>\<rparr>" and n = 5])
    (simp_all add: sim_cfg_def sim_mcuboot_def sim_dfu_start_def mem_get_def dfu_image_size_def sim_flash_def)

text \<open>
  An image that does not fit is refused without a word: \<open>dfu_load\<close> has returned
  in-progress, but the thread clears the whole state, callback included, before it reports, so
  the callback that was to carry the error is never called.
\<close>

theorem dfu_oversize_drops_callback:
  assumes "binary_semaphore k count" and "count (sem_dfu_free_space s) = 1" and "flash_area_open d = 0"
    and "DFU_BLOCKS_WRITE_SIZE \<le> length data \<or> cnt = 1" and "length data \<le> DFU_BLOCK_SIZE_MAX c"
    and "fa_size d < (unat cnt * DFU_BLOCK_SIZE_MAX c) mod 2 ^ 32"
  shows "\<exists>s1 s2. dfu_load c k 0 cnt data (Some cb) s = (In_Progress, s1) \<and>
    process_dfu_blocks_thread c k mb d u hdr s1 = Some (s2, None) \<and> dfu_state s2 = dfu_state_zero c"
proof -
  have "fst (k_sem_take k (sem_dfu_free_space s))"
    using assms(1,2) by (simp add: binary_semaphore.take_iff)
  then obtain fr where t: "k_sem_take k (sem_dfu_free_space s) = (True, fr)" by (metis prod.collapse)
  have fit: "length data \<le> DFU_BLOCKS_BUFFER_SIZE c" using assms(5) buffer_size(1) [of c] by linarith
  let ?full = "k_sem_give k (sem_dfu_full s)"
  have "fst (k_sem_take k ?full)"
    using assms(1) by (simp add: binary_semaphore.take_iff binary_semaphore.count_give)
  then obtain fu where t2: "k_sem_take k ?full = (True, fu)" by (metis prod.collapse)
  show ?thesis
    using t t2 fit assms(3-6)
    by (auto simp: dfu_load_def dfu_load_params_ok_def Let_def dfu_new_image_def process_dfu_blocks_thread_def
        dfu_write_blocks_def dfu_state_zero_def)
qed

theorem dfu_oversize_drops_callback_witness:
  "\<exists>s1 s2. dfu_load sim_cfg sim_sem 0 1 [7] (Some ()) (sim_dfu_start []) = (In_Progress, s1) \<and>
    process_dfu_blocks_thread sim_cfg sim_sem sim_mcuboot (sim_flash 32 8) (\<lambda>a xs. a) True s1 = Some (s2, None) \<and>
    dfu_state s2 = dfu_state_zero sim_cfg"
  by (rule dfu_oversize_drops_callback [OF sim_sem.binary_semaphore_axioms])
    (simp_all add: sim_dfu_start_def sim_cfg_def)

text \<open>
  What activation requires: it succeeds exactly when the headers are not being read, the header
  in the secondary slot has the image magic or an image size of zero, the boot loader accepts
  the request and then reports the requested kind of swap. An empty header (image size
  zero) passes.
\<close>

theorem dfu_secondary_activate_success:
  "fst (dfu_secondary_activate c mb d hdr_free set_pending swap_type permanent s) = rc RET_SUCCESS \<longleftrightarrow>
   hdr_free \<and>
   (let h = parse_header mb (secondary_slot_header (snd (dfu_version_secondary_get mb d True s)))
    in ih_img_size h = 0 \<or> ih_magic h = IMAGE_MAGIC mb) \<and>
   set_pending = 0 \<and> 0 \<le> swap_type \<and>
   swap_type = (if permanent then BOOT_SWAP_TYPE_PERM mb else BOOT_SWAP_TYPE_TEST mb)"
  by (auto simp: dfu_secondary_activate_def Let_def)

text \<open>
  Asking for the image check before the last block is written returns success, changes
  nothing and queues nothing: no callback will follow.
\<close>

theorem dfu_check_async_not_finished:
  assumes "binary_semaphore k count" and "count (sem_dfu_free_space s) = 1"
    and "dfu_phase (dfu_state s) = DFU_IN_PROGRESS"
  shows "\<exists>s'. dfu_secondary_check_async k crc32 cb s = (Ret RET_SUCCESS, s') \<and> dfu_state s' = dfu_state s \<and>
    sem_dfu_full s' = sem_dfu_full s \<and> count (sem_dfu_free_space s') = 1"
proof -
  have "fst (k_sem_take k (sem_dfu_free_space s))"
    using assms(1,2) by (simp add: binary_semaphore.take_iff)
  then show ?thesis
    using assms by (cases "k_sem_take k (sem_dfu_free_space s)")
      (simp add: dfu_secondary_check_async_def binary_semaphore.count_give)
qed

theorem dfu_check_async_not_finished_witness:
  "\<exists>s'. dfu_secondary_check_async sim_sem 5 (Some ()) (sim_dfu_start []) = (Ret RET_SUCCESS, s') \<and>
    dfu_state s' = dfu_state (sim_dfu_start []) \<and> sem_dfu_full s' = sem_dfu_full (sim_dfu_start []) \<and>
    of_bool (sem_dfu_free_space s') = (1 :: nat)"
  by (rule dfu_check_async_not_finished [OF sim_sem.binary_semaphore_axioms])
    (simp_all add: sim_dfu_start_def dfu_state_zero_def)

text \<open>
  After a successful \<^verbatim>\<open>dfu_init\<close> neither header describes an image larger than its
  partition: a header that does is cleared.
\<close>

theorem dfu_init_headers_bounded:
  assumes "dfu_init mb d0 d1 s = (RET_SUCCESS, s')"
    and "ih_img_size (parse_header mb (replicate (header_len mb) 0)) = 0"
    and "ih_hdr_size (parse_header mb (replicate (header_len mb) 0)) = 0"
  shows "unat (ucast (ih_hdr_size (parse_header mb (primary_slot_header s'))) +
      ih_img_size (parse_header mb (primary_slot_header s')) :: u32) \<le> fa_size d0 \<and>
    unat (ucast (ih_hdr_size (parse_header mb (secondary_slot_header s'))) +
      ih_img_size (parse_header mb (secondary_slot_header s')) :: u32) \<le> fa_size d1"
  using assms by (auto simp: dfu_init_def Let_def split: prod.splits if_splits)

theorem dfu_init_headers_bounded_witness:
  "let s' = snd (dfu_init sim_mcuboot (sim_flash 600 8) (sim_flash 64 8) (sim_dfu_start ([3, 2] @ replicate 62 255)))
   in unat (ucast (ih_hdr_size (parse_header sim_mcuboot (primary_slot_header s'))) +
        ih_img_size (parse_header sim_mcuboot (primary_slot_header s')) :: u32) \<le> fa_size (sim_flash 600 8) \<and>
      unat (ucast (ih_hdr_size (parse_header sim_mcuboot (secondary_slot_header s'))) +
        ih_img_size (parse_header sim_mcuboot (secondary_slot_header s')) :: u32) \<le> fa_size (sim_flash 64 8)"
proof -
  let ?r = "dfu_init sim_mcuboot (sim_flash 600 8) (sim_flash 64 8) (sim_dfu_start ([3, 2] @ replicate 62 255))"
  have "fst ?r = RET_SUCCESS"
    by (simp add: dfu_init_def dfu_version_primary_get_def dfu_version_secondary_get_def sim_mcuboot_def sim_flash_def
        sim_dfu_start_def mem_get_def sim_mem_def Let_def)
  then have "?r = (RET_SUCCESS, snd ?r)" by (metis prod.collapse)
  from dfu_init_headers_bounded [OF this] show ?thesis
    unfolding Let_def by (simp add: sim_mcuboot_def)
qed

end
