(* ===== verification/Storage.thy ===== *)
theory Storage
  imports Flash_Driver
begin

unbundle bit_operations_syntax

text \<open>
  \<^verbatim>\<open>lib/storage\<close>: a first-in first-out store of variable-size records in a flash
  partition. Each record is an 8-byte header followed by the payload, padded to the flash
  write block; freeing a record zeroes its header. The two indices \<open>rd_idx\<close> and
  \<open>wr_idx\<close> are kept in RAM and found again after a reset by walking the partition.

  The driver \<open>d\<close> and the checksum \<open>crc\<close> (the OS's \<^verbatim>\<open>crc16_ccitt\<close>) are
  parameters. Every operation runs under the semaphore \<^verbatim>\<open>sem_storage\<close> and is one step;
  \<^verbatim>\<open>storage_push\<close> releases and retakes it between its parameter check and the write,
  so its two sections are separate definitions. Log output is left out.
\<close>

subsection \<open>Headers\<close>

definition RECORD_UNUSED :: u16 where "RECORD_UNUSED = 0xFFFF"
definition RECORD_VALID :: u16 where "RECORD_VALID = 0xFEFE"
definition RECORD_INVALID :: u16 where "RECORD_INVALID = 0"

record storage_header_t =
  magic_state :: u16
  record_size :: u16
  crc16 :: u16
  unused :: u16

abbreviation header_size :: nat where
  "header_size \<equiv> 8"

text \<open>The packed little-endian layout of the struct in memory.\<close>

definition u16_bytes :: "u16 \<Rightarrow> u8 list" where
  "u16_bytes w = [ucast w, ucast (drop_bit 8 w)]"

definition u16_of :: "u8 \<Rightarrow> u8 \<Rightarrow> u16" where
  "u16_of lo hi = ucast lo OR push_bit 8 (ucast hi)"

definition header_bytes :: "storage_header_t \<Rightarrow> u8 list" where
  "header_bytes h = u16_bytes (magic_state h) @ u16_bytes (record_size h) @
     u16_bytes (crc16 h) @ u16_bytes (unused h)"

definition header_of :: "u8 list \<Rightarrow> storage_header_t" where
  "header_of bs = \<lparr>
     magic_state = u16_of (bs ! 0) (bs ! 1),
     record_size = u16_of (bs ! 2) (bs ! 3),
     crc16 = u16_of (bs ! 4) (bs ! 5),
     unused = u16_of (bs ! 6) (bs ! 7)\<rparr>"

subsection \<open>The storage area\<close>

text \<open>
  \<open>area_fa\<close> is false while \<^verbatim>\<open>area->fa\<close> is \<^verbatim>\<open>NULL\<close>; \<open>area_flash\<close> is the
  device behind it. Outside \<open>init_area\<close> the indices are never \<^verbatim>\<open>INVALID_INDEX\<close>;
  inside it that value is \<open>None\<close>.
\<close>

record 'f storage_area_s =
  area_fa :: bool
  area_flash :: 'f
  wr_idx :: nat
  rd_idx :: nat

definition record_padding :: "'f flash_driver \<Rightarrow> nat \<Rightarrow> nat" where
  "record_padding d n =
     (if n mod write_block_size d \<noteq> 0
      then write_block_size d - n mod write_block_size d else 0)"

text \<open>
  The checksum loop of \<^verbatim>\<open>init_area\<close>: the record is read in chunks of 64 bytes and
  a chunk that cannot be read is skipped.
\<close>

abbreviation INIT_AREA_READ_BUFFER_SIZE :: nat where
  "INIT_AREA_READ_BUFFER_SIZE \<equiv> 64"

function init_area_crc ::
  "'f flash_driver \<Rightarrow> (u16 \<Rightarrow> u8 list \<Rightarrow> u16) \<Rightarrow> 'f \<Rightarrow> nat \<Rightarrow> nat \<Rightarrow> nat \<Rightarrow> u16 \<Rightarrow> u16" where
  "init_area_crc d crc f base sz i acc =
     (if i < sz then
        (let size_to_read = (if i + INIT_AREA_READ_BUFFER_SIZE < sz
                             then INIT_AREA_READ_BUFFER_SIZE else sz - i);
             (ret, read_buffer) = flash_area_read d f (base + i) (replicate size_to_read 0);
             acc' = (if ret = 0 then crc acc read_buffer else acc)
         in init_area_crc d crc f base sz (i + INIT_AREA_READ_BUFFER_SIZE) acc')
      else acc)"
  by pat_completeness auto
termination
  by (relation "measure (\<lambda>(d, crc, f, base, sz, i, acc). sz - i)") auto

declare init_area_crc.simps [simp del]

text \<open>
  The do-while loop of \<^verbatim>\<open>init_area\<close>, with \<^verbatim>\<open>area->rd_idx\<close> as \<open>rd\<close>; the loop is
  left as soon as \<^verbatim>\<open>area->wr_idx\<close> is set, so that index is \<open>None\<close> at every turn. A
  zero write block size does not compile (the \<^verbatim>\<open>BUILD_ASSERT\<close> of the file divides by
  it) and ends the loop here.
\<close>

function init_area_loop ::
  "'f flash_driver \<Rightarrow> (u16 \<Rightarrow> u8 list \<Rightarrow> u16) \<Rightarrow> 'f \<Rightarrow> nat \<Rightarrow> u8 list \<Rightarrow> nat option
   \<Rightarrow> nat option \<times> nat option" where
  "init_area_loop d crc f index hdr rd =
     (let (ret, hdr') = flash_area_read d f index hdr;
          header = header_of hdr';
          sz = unat (record_size header)
      in if ret \<noteq> 0 then (None, None)
         else
           let rd' = (if rd = None \<and> magic_state header = RECORD_VALID \<and>
                         crc16 header = init_area_crc d crc f (index + header_size) sz 0 0xFFFF
                      then Some index else rd)
           in if magic_state header = RECORD_UNUSED then (rd', Some index)
              else
                let index' = (if magic_state header = RECORD_VALID
                              then index + header_size + sz + record_padding d sz
                              else index + write_block_size d)
                in if index' + header_size < fa_size d \<and> 0 < write_block_size d
                   then init_area_loop d crc f index' hdr' rd'
                   else (rd', None))"
  by pat_completeness auto
termination
  by (relation "measure (\<lambda>(d, crc, f, index, hdr, rd). fa_size d - index)") (auto split: if_splits)

declare init_area_loop.simps [simp del]

definition init_area ::
  "'f flash_driver \<Rightarrow> (u16 \<Rightarrow> u8 list \<Rightarrow> u16) \<Rightarrow> 'f storage_area_s \<Rightarrow> ret_code_t \<times> 'f storage_area_s" where
  "init_area d crc a =
     (let (ret, hdr) = flash_area_read d (area_flash a) 0 (replicate header_size 0);
          m = magic_state (header_of hdr)
      in if ret \<noteq> 0 \<or> (m \<noteq> RECORD_UNUSED \<and> m \<noteq> RECORD_VALID \<and> m \<noteq> RECORD_INVALID)
         then (RET_ERROR_INVALID_STATE, a\<lparr>rd_idx := 0, wr_idx := 0\<rparr>)
         else
           case init_area_loop d crc (area_flash a) 0 hdr None of
             (None, None) \<Rightarrow> (RET_ERROR_INVALID_STATE, a\<lparr>rd_idx := 0, wr_idx := 0\<rparr>)
           | (Some rd, None) \<Rightarrow> (RET_SUCCESS, a\<lparr>rd_idx := rd, wr_idx := fa_size d\<rparr>)
           | (None, Some wr) \<Rightarrow> (RET_SUCCESS, a\<lparr>rd_idx := wr, wr_idx := wr\<rparr>)
           | (Some rd, Some wr) \<Rightarrow> (RET_SUCCESS, a\<lparr>rd_idx := rd, wr_idx := wr\<rparr>))"

definition reset_area ::
  "'f flash_driver \<Rightarrow> (u16 \<Rightarrow> u8 list \<Rightarrow> u16) \<Rightarrow> 'f storage_area_s \<Rightarrow> 'f storage_area_s" where
  "reset_area d crc a =
     (let (_, f') = flash_area_erase d (area_flash a) 0 (fa_size d)
      in snd (init_area d crc (a\<lparr>area_flash := f'\<rparr>)))"

subsection \<open>Operations\<close>

text \<open>
  \<open>storage_peek d crc a buffer sz\<close> returns the code, the area, the buffer and
  \<^verbatim>\<open>*size\<close>. \<open>peek_exit\<close> is the code after the \<^verbatim>\<open>exit\<close> label.
\<close>

definition peek_exit ::
  "'f flash_driver \<Rightarrow> (u16 \<Rightarrow> u8 list \<Rightarrow> u16) \<Rightarrow> 'f storage_area_s \<Rightarrow> int \<Rightarrow> ret_code_t
   \<Rightarrow> ret_code_t \<times> 'f storage_area_s" where
  "peek_exit d crc a flash_read_ret err_code =
     (if flash_read_ret \<noteq> 0 \<or> err_code = RET_ERROR_INVALID_STATE
      then (RET_ERROR_INVALID_STATE, reset_area d crc a)
      else (err_code, a))"

definition storage_peek ::
  "'f flash_driver \<Rightarrow> (u16 \<Rightarrow> u8 list \<Rightarrow> u16) \<Rightarrow> 'f storage_area_s \<Rightarrow> u8 list \<Rightarrow> nat
   \<Rightarrow> (ret_code_t \<times> 'f storage_area_s) \<times> u8 list \<times> nat" where
  "storage_peek d crc a buffer sz =
     (if \<not> area_fa a then (peek_exit d crc a 0 RET_ERROR_NOT_INITIALIZED, buffer, sz)
      else if rd_idx a = wr_idx a then (peek_exit d crc a 0 RET_ERROR_NOT_FOUND, buffer, sz)
      else
        let (ret, hdr) = flash_area_read d (area_flash a) (rd_idx a) (replicate header_size 0);
            header = header_of hdr;
            n = unat (record_size header)
        in if ret \<noteq> 0 then (peek_exit d crc a ret RET_SUCCESS, buffer, sz)
           else if sz < n then (peek_exit d crc a 0 RET_ERROR_NO_MEM, buffer, sz)
           else
             let (ret, bytes) = flash_area_read d (area_flash a) (rd_idx a + header_size) (take n buffer);
                 buffer' = bytes @ drop n buffer
             in if ret \<noteq> 0 then (peek_exit d crc a ret RET_SUCCESS, buffer', sz)
                else if magic_state header \<noteq> RECORD_VALID \<or> crc16 header \<noteq> crc 0xFFFF (take n buffer')
                then (peek_exit d crc a 0 RET_ERROR_INVALID_STATE, buffer', sz)
                else (peek_exit d crc a 0 RET_SUCCESS, buffer', n))"

abbreviation MINIMUM_EMPTY_SPACE :: nat where
  "MINIMUM_EMPTY_SPACE \<equiv> 512"

definition storage_free ::
  "'f flash_driver \<Rightarrow> (u16 \<Rightarrow> u8 list \<Rightarrow> u16) \<Rightarrow> 'f storage_area_s \<Rightarrow> ret_code_t \<times> 'f storage_area_s" where
  "storage_free d crc a =
     (if \<not> area_fa a then (RET_ERROR_NOT_INITIALIZED, a)
      else
        let (_, hdr) = flash_area_read d (area_flash a) (rd_idx a) (replicate header_size 0);
            header = header_of hdr
        in if magic_state header \<noteq> RECORD_VALID then (RET_ERROR_NOT_FOUND, a)
           else
             let n = unat (record_size header);
                 (ret, f') = flash_area_write d (area_flash a) (rd_idx a) (replicate header_size 0);
                 a1 = a\<lparr>area_flash := f'\<rparr>
             in if ret \<noteq> 0 then (RET_ERROR_INTERNAL, a1)
                else
                  let a2 = a1\<lparr>rd_idx := rd_idx a + header_size + n + record_padding d n\<rparr>
                  in if wr_idx a2 \<le> rd_idx a2 \<and> fa_size d - wr_idx a2 < MINIMUM_EMPTY_SPACE
                     then (RET_SUCCESS, reset_area d crc a2)
                     else (RET_SUCCESS, a2))"

text \<open>
  \<open>storage_push\<close>: the checks made first, then the section that writes. The record
  buffer is reused for the read-back; its contents on return are the third component.
  Its length is the parameter \<^verbatim>\<open>size\<close>.
\<close>

definition storage_push_check :: "'f flash_driver \<Rightarrow> 'f storage_area_s \<Rightarrow> u8 list option \<Rightarrow> ret_code_t" where
  "storage_push_check d a rec =
     (case rec of
        None \<Rightarrow> RET_ERROR_INVALID_PARAM
      | Some r \<Rightarrow>
          if length r = 0 then RET_ERROR_INVALID_PARAM
          else if \<not> area_fa a then RET_ERROR_NOT_INITIALIZED
          else if length r > fa_size d then RET_ERROR_INVALID_PARAM
          else RET_SUCCESS)"

definition size_to_write_trunc :: "'f flash_driver \<Rightarrow> u8 list \<Rightarrow> nat" where
  "size_to_write_trunc d r = length r - length r mod write_block_size d"

definition padding_block :: "'f flash_driver \<Rightarrow> u8 list \<Rightarrow> u8 list" where
  "padding_block d r =
     (let t = drop (size_to_write_trunc d r) r
      in t @ replicate (write_block_size d - length t) erased_byte)"

definition push_header :: "(u16 \<Rightarrow> u8 list \<Rightarrow> u16) \<Rightarrow> u8 list \<Rightarrow> storage_header_t" where
  "push_header crc r = \<lparr>magic_state = RECORD_VALID, record_size = of_nat (length r),
     crc16 = crc 0xFFFF r, unused = 0xFFFF\<rparr>"

definition push_write_tail :: "'f flash_driver \<Rightarrow> 'f \<Rightarrow> nat \<Rightarrow> u8 list \<Rightarrow> int \<times> 'f" where
  "push_write_tail d f wr r =
     (if length r mod write_block_size d \<noteq> 0
      then flash_area_write d f (wr + header_size + size_to_write_trunc d r) (padding_block d r)
      else (0, f))"

definition push_read_back :: "'f flash_driver \<Rightarrow> 'f \<Rightarrow> nat \<Rightarrow> u8 list \<Rightarrow> u8 list" where
  "push_read_back d f wr r =
     (let t = size_to_write_trunc d r;
          (_, r1) = flash_area_read d f (wr + header_size) (replicate t 0)
      in if length r mod write_block_size d \<noteq> 0
         then r1 @ snd (flash_area_read d f (wr + header_size + t) (replicate (length r - t) 0))
         else r1)"

definition storage_push_commit ::
  "'f flash_driver \<Rightarrow> (u16 \<Rightarrow> u8 list \<Rightarrow> u16) \<Rightarrow> 'f storage_area_s \<Rightarrow> u8 list
   \<Rightarrow> ret_code_t \<times> 'f storage_area_s \<times> u8 list" where
  "storage_push_commit d crc a r =
     (let size_in_flash = length r + record_padding d (length r)
      in if wr_idx a + header_size + size_in_flash > fa_size d then (RET_ERROR_NO_MEM, a, r)
         else
           let (ret, f1) = flash_area_write d (area_flash a) (wr_idx a + header_size)
                             (take (size_to_write_trunc d r) r)
           in if ret \<noteq> 0 then (RET_ERROR_INTERNAL, reset_area d crc (a\<lparr>area_flash := f1\<rparr>), r)
              else
                let (ret, f2) = push_write_tail d f1 (wr_idx a) r
                in if ret \<noteq> 0 then (RET_ERROR_INTERNAL, reset_area d crc (a\<lparr>area_flash := f2\<rparr>), r)
                   else
                     let r' = push_read_back d f2 (wr_idx a) r
                     in if crc16 (push_header crc r) \<noteq> crc 0xFFFF r'
                        then (RET_ERROR_INVALID_STATE, reset_area d crc (a\<lparr>area_flash := f2\<rparr>), r')
                        else
                          let (ret, f3) = flash_area_write d f2 (wr_idx a) (header_bytes (push_header crc r))
                          in if ret \<noteq> 0
                             then (RET_ERROR_INTERNAL, reset_area d crc (a\<lparr>area_flash := f3\<rparr>), r')
                             else (RET_SUCCESS,
                                   a\<lparr>area_flash := f3, wr_idx := wr_idx a + (header_size + size_in_flash)\<rparr>,
                                   r'))"

definition storage_push ::
  "'f flash_driver \<Rightarrow> (u16 \<Rightarrow> u8 list \<Rightarrow> u16) \<Rightarrow> 'f storage_area_s \<Rightarrow> u8 list option
   \<Rightarrow> ret_code_t \<times> 'f storage_area_s \<times> u8 list option" where
  "storage_push d crc a rec =
     (let ret = storage_push_check d a rec
      in if ret \<noteq> RET_SUCCESS then (ret, a, rec)
         else let (ret, a', r') = storage_push_commit d crc a (the rec) in (ret, a', Some r'))"

definition storage_is_last_record :: "'f flash_driver \<Rightarrow> 'f storage_area_s \<Rightarrow> bool" where
  "storage_is_last_record d a =
     (if \<not> area_fa a \<or> rd_idx a = wr_idx a then False
      else
        let (ret, hdr) = flash_area_read d (area_flash a) (rd_idx a) (replicate header_size 0);
            header = header_of hdr;
            n = unat (record_size header)
        in if ret \<noteq> 0 \<or> magic_state header \<noteq> RECORD_VALID then False
           else wr_idx a \<le> rd_idx a + header_size + n + record_padding d n)"

definition storage_has_data :: "'f storage_area_s \<Rightarrow> bool" where
  "storage_has_data a = (if \<not> area_fa a then False else rd_idx a \<noteq> wr_idx a)"

definition storage_init ::
  "'f flash_driver \<Rightarrow> (u16 \<Rightarrow> u8 list \<Rightarrow> u16) \<Rightarrow> 'f \<Rightarrow> ret_code_t \<times> 'f storage_area_s" where
  "storage_init d crc f =
     (let a = \<lparr>area_fa = False, area_flash = f, wr_idx = 0, rd_idx = 0\<rparr>
      in if flash_area_open d \<noteq> 0 then (RET_ERROR_NOT_INITIALIZED, a)
         else
           let (ret, a1) = init_area d crc (a\<lparr>area_fa := True\<rparr>)
           in if ret \<noteq> RET_SUCCESS
              then let (ret, f') = flash_area_erase d (area_flash a1) 0 (fa_size d)
                   in (if ret \<noteq> 0 then RET_ERROR_INTERNAL else RET_SUCCESS, a1\<lparr>area_flash := f'\<rparr>)
              else (RET_SUCCESS, a1))"


subsection \<open>What the store holds\<close>

text \<open>
  \<open>rec_at d crc m a r\<close>: the memory \<open>m\<close> holds the record \<open>r\<close> at offset \<open>a\<close>.
  \<open>stored d crc m a rs b\<close>: the records \<open>rs\<close> lie one after the other from \<open>a\<close> to \<open>b\<close>.
  \<open>fifo d crc mem a rs\<close> is the abstraction: the area \<open>a\<close> holds the queue \<open>rs\<close>, oldest
  first, and everything from the write index on is erased.
\<close>

definition slot_size :: "'f flash_driver \<Rightarrow> u8 list \<Rightarrow> nat" where
  "slot_size d r = header_size + length r + record_padding d (length r)"

definition rec_at ::
  "'f flash_driver \<Rightarrow> (u16 \<Rightarrow> u8 list \<Rightarrow> u16) \<Rightarrow> u8 list \<Rightarrow> nat \<Rightarrow> u8 list \<Rightarrow> bool" where
  "rec_at d crc m a r \<longleftrightarrow> 0 < length r \<and> length r < 2 ^ 16 \<and> a + slot_size d r \<le> length m \<and>
     mem_get a header_size m = header_bytes (push_header crc r) \<and>
     mem_get (a + header_size) (length r) m = r"

fun stored ::
  "'f flash_driver \<Rightarrow> (u16 \<Rightarrow> u8 list \<Rightarrow> u16) \<Rightarrow> u8 list \<Rightarrow> nat \<Rightarrow> u8 list list \<Rightarrow> nat \<Rightarrow> bool" where
  "stored d crc m a [] b \<longleftrightarrow> a = b"
| "stored d crc m a (r # rs) b \<longleftrightarrow> rec_at d crc m a r \<and> stored d crc m (a + slot_size d r) rs b"

definition fifo ::
  "'f flash_driver \<Rightarrow> (u16 \<Rightarrow> u8 list \<Rightarrow> u16) \<Rightarrow> ('f \<Rightarrow> u8 list) \<Rightarrow> 'f storage_area_s \<Rightarrow> u8 list list \<Rightarrow> bool" where
  "fifo d crc mem a rs \<longleftrightarrow> area_fa a \<and> wr_idx a \<le> fa_size d \<and>
     write_block_size d dvd rd_idx a \<and> write_block_size d dvd wr_idx a \<and>
     stored d crc (mem (area_flash a)) (rd_idx a) rs (wr_idx a) \<and>
     erased_from (wr_idx a) (mem (area_flash a))"

text \<open>
  \<open>skippable d m x\<close>: the walk of \<^verbatim>\<open>init_area\<close> steps over the block at \<open>x\<close>, neither
  taking it for a record nor for the end of the data. \<open>freed_ok d m rd\<close>: everything in
  front of \<open>rd\<close> is skipped, and the walk is not refused at offset 0.
\<close>

definition magic_at :: "u8 list \<Rightarrow> nat \<Rightarrow> u16" where
  "magic_at m x = magic_state (header_of (mem_get x header_size m))"

definition skippable :: "u8 list \<Rightarrow> nat \<Rightarrow> bool" where
  "skippable m x \<longleftrightarrow> magic_at m x \<noteq> RECORD_UNUSED \<and> magic_at m x \<noteq> RECORD_VALID"

definition freed_ok :: "'f flash_driver \<Rightarrow> u8 list \<Rightarrow> nat \<Rightarrow> bool" where
  "freed_ok d m rd \<longleftrightarrow> (0 < rd \<longrightarrow> magic_at m 0 = RECORD_INVALID) \<and>
     list_all (\<lambda>x. write_block_size d dvd x \<longrightarrow> skippable m x) [0..<rd]"

text \<open>
  The contract of the store. A client sees a queue of records and one number, the bytes of
  the partition used so far: freed records give their space back only when the
  queue is empty and less than \<^verbatim>\<open>MINIMUM_EMPTY_SPACE\<close> is left.
\<close>

datatype storage_op = Push "u8 list" | Peek nat | Free | Has_Data | Is_Last

datatype storage_result = Code ret_code_t | Bytes "ret_code_t" "u8 list" | Flag bool

record queue_spec =
  queue :: "u8 list list"
  used :: nat

definition spec_step :: "'f flash_driver \<Rightarrow> storage_op \<Rightarrow> queue_spec \<Rightarrow> storage_result \<times> queue_spec" where
  "spec_step d op q = (case op of
     Push r \<Rightarrow>
       if r = [] \<or> fa_size d < length r then (Code RET_ERROR_INVALID_PARAM, q)
       else if fa_size d < used q + slot_size d r then (Code RET_ERROR_NO_MEM, q)
       else (Code RET_SUCCESS, \<lparr>queue = queue q @ [r], used = used q + slot_size d r\<rparr>)
   | Peek n \<Rightarrow>
       (case queue q of
          [] \<Rightarrow> (Bytes RET_ERROR_NOT_FOUND [], q)
        | r # _ \<Rightarrow> (if length r \<le> n then Bytes RET_SUCCESS r else Bytes RET_ERROR_NO_MEM [], q))
   | Free \<Rightarrow>
       (case queue q of
          [] \<Rightarrow> (Code RET_ERROR_NOT_FOUND, q)
        | r # rs \<Rightarrow> (Code RET_SUCCESS,
            \<lparr>queue = rs, used = (if rs = [] \<and> fa_size d - used q < MINIMUM_EMPTY_SPACE then 0 else used q)\<rparr>))
   | Has_Data \<Rightarrow> (Flag (queue q \<noteq> []), q)
   | Is_Last \<Rightarrow> (Flag (length (queue q) = 1), q))"

definition storage_step ::
  "'f flash_driver \<Rightarrow> (u16 \<Rightarrow> u8 list \<Rightarrow> u16) \<Rightarrow> storage_op \<Rightarrow> 'f storage_area_s
   \<Rightarrow> storage_result \<times> 'f storage_area_s" where
  "storage_step d crc op a = (case op of
     Push r \<Rightarrow> (let (ret, a', _) = storage_push d crc a (Some r) in (Code ret, a'))
   | Peek n \<Rightarrow> (let ((ret, a'), buf, sz) = storage_peek d crc a (replicate n 0) n
       in (Bytes ret (if ret = RET_SUCCESS then take sz buf else []), a'))
   | Free \<Rightarrow> (let (ret, a') = storage_free d crc a in (Code ret, a'))
   | Has_Data \<Rightarrow> (Flag (storage_has_data a), a)
   | Is_Last \<Rightarrow> (Flag (storage_is_last_record d a), a))"

fun run_ops :: "('o \<Rightarrow> 's \<Rightarrow> 'r \<times> 's) \<Rightarrow> 'o list \<Rightarrow> 's \<Rightarrow> 'r list \<times> 's" where
  "run_ops step [] s = ([], s)"
| "run_ops step (op # ops) s =
     (let (r, s1) = step op s; (rs, s2) = run_ops step ops s1 in (r # rs, s2))"

text \<open>The relation between an area and its specification.\<close>

definition represents ::
  "'f flash_driver \<Rightarrow> (u16 \<Rightarrow> u8 list \<Rightarrow> u16) \<Rightarrow> ('f \<Rightarrow> u8 list) \<Rightarrow> 'f storage_area_s \<Rightarrow> queue_spec \<Rightarrow> bool" where
  "represents d crc mem a q \<longleftrightarrow> fifo d crc mem a (queue q) \<and> used q = wr_idx a \<and>
     (queue q = [] \<longrightarrow> wr_idx a + header_size \<le> fa_size d)"

subsection \<open>Layout lemmas\<close>

lemma u16_of_bytes [simp]: "u16_of (ucast w) (ucast (drop_bit 8 w)) = w"
  by (rule bit_word_eqI) (auto simp: u16_of_def bit_simps)

lemma length_u16_bytes [simp]: "length (u16_bytes w) = 2"
  by (simp add: u16_bytes_def)

lemma length_header_bytes [simp]: "length (header_bytes h) = header_size"
  by (simp add: header_bytes_def)

lemma header_of_bytes [simp]: "header_of (header_bytes h) = h"
  by (simp add: header_of_def header_bytes_def u16_bytes_def)

lemma magic_distinct [simp]:
  "RECORD_VALID \<noteq> RECORD_UNUSED" "RECORD_UNUSED \<noteq> RECORD_VALID"
  "RECORD_VALID \<noteq> RECORD_INVALID" "RECORD_INVALID \<noteq> RECORD_VALID"
  "RECORD_UNUSED \<noteq> RECORD_INVALID" "RECORD_INVALID \<noteq> RECORD_UNUSED"
  by (simp_all add: RECORD_VALID_def RECORD_UNUSED_def RECORD_INVALID_def)

lemma push_header_simps [simp]:
  "magic_state (push_header crc r) = RECORD_VALID" "crc16 (push_header crc r) = crc 0xFFFF r"
  "length r < 2 ^ 16 \<Longrightarrow> unat (record_size (push_header crc r)) = length r"
  by (simp_all add: push_header_def take_bit_nat_eq_self unat_of_nat)

lemma magic_erased [simp]:
  "magic_state (header_of (replicate header_size erased_byte)) = RECORD_UNUSED"
  "record_size (header_of (replicate header_size erased_byte)) = 0xFFFF"
  by (simp_all add: header_of_def u16_of_def RECORD_UNUSED_def)

lemma magic_zeros [simp]: "magic_state (header_of (replicate header_size 0)) = RECORD_INVALID"
  by (simp add: header_of_def u16_of_def RECORD_INVALID_def)

lemma padding_dvd:
  assumes "0 < write_block_size d"
  shows "write_block_size d dvd n + record_padding d n"
proof (cases "n mod write_block_size d = 0")
  case True
  then show ?thesis by (simp add: record_padding_def dvd_eq_mod_eq_0)
next
  case False
  let ?b = "write_block_size d"
  have "n mod ?b < ?b" using assms by simp
  then have "n + (?b - n mod ?b) = ?b * (n div ?b) + ?b"
    by (metis add.assoc add_diff_inverse_nat div_mult_mod_eq less_imp_le_nat mult.commute not_less)
  then show ?thesis using False by (simp add: record_padding_def)
qed

lemma slot_size_dvd:
  "0 < write_block_size d \<Longrightarrow> write_block_size d dvd header_size \<Longrightarrow> write_block_size d dvd slot_size d r"
  using padding_dvd [of d "length r"] by (simp add: slot_size_def add.assoc)

lemma slot_size_ge: "header_size \<le> slot_size d r" "header_size + length r \<le> slot_size d r"
  by (simp_all add: slot_size_def)

text \<open>What \<^verbatim>\<open>storage_push\<close> writes behind the header is the record and its padding.\<close>

lemma trunc_tail:
  assumes "0 < write_block_size d"
  shows "take (size_to_write_trunc d r) r @ (if length r mod write_block_size d \<noteq> 0 then padding_block d r else [])
     = r @ replicate (record_padding d (length r)) erased_byte"
proof -
  have "length (drop (size_to_write_trunc d r) r) = length r mod write_block_size d"
    by (simp add: size_to_write_trunc_def)
  then show ?thesis
    by (simp add: padding_block_def record_padding_def Let_def size_to_write_trunc_def)
qed

lemma length_padding_block:
  "0 < write_block_size d \<Longrightarrow> length (padding_block d r) = write_block_size d"
  by (simp add: padding_block_def size_to_write_trunc_def Let_def min_def)

lemma length_trunc [simp]: "size_to_write_trunc d r \<le> length r"
  by (simp add: size_to_write_trunc_def)

lemma trunc_dvd: "write_block_size d dvd size_to_write_trunc d r"
  by (simp add: size_to_write_trunc_def dvd_minus_mod)


lemma stored_bounds:
  "stored d crc m a rs b \<Longrightarrow> a \<le> b \<and> (rs \<noteq> [] \<longrightarrow> a + header_size < b \<and> b \<le> length m)"
proof (induction rs arbitrary: a)
  case (Cons r rs)
  then have "rec_at d crc m a r" and "a + slot_size d r \<le> b" and "rs \<noteq> [] \<longrightarrow> b \<le> length m"
    and "rs = [] \<longrightarrow> a + slot_size d r = b"
    by auto
  moreover from this(1) have "a + header_size < a + slot_size d r" and "a + slot_size d r \<le> length m"
    unfolding rec_at_def slot_size_def by linarith+
  ultimately show ?case by auto
qed simp

lemma stored_append:
  "stored d crc m a (rs @ [r]) b \<longleftrightarrow>
   (\<exists>c. stored d crc m a rs c \<and> rec_at d crc m c r \<and> b = c + slot_size d r)"
  by (induction rs arbitrary: a) auto

lemma rec_at_frame:
  assumes "rec_at d crc m a r" and "length m' = length m"
    and "\<And>x n. a \<le> x \<Longrightarrow> x + n \<le> a + slot_size d r \<Longrightarrow> mem_get x n m' = mem_get x n m"
  shows "rec_at d crc m' a r"
  using assms by (simp add: rec_at_def slot_size_def)

lemma stored_frame:
  assumes "stored d crc m a rs b" and "length m' = length m"
    and "\<And>x n. a \<le> x \<Longrightarrow> x + n \<le> b \<Longrightarrow> mem_get x n m' = mem_get x n m"
  shows "stored d crc m' a rs b"
  using assms
proof (induction rs arbitrary: a)
  case (Cons r rs)
  then have tail: "stored d crc m (a + slot_size d r) rs b" by simp
  then have "a + slot_size d r \<le> b" using stored_bounds by blast
  then have "rec_at d crc m' a r" using Cons.prems by (auto intro: rec_at_frame)
  moreover have "stored d crc m' (a + slot_size d r) rs b"
    by (rule Cons.IH [OF tail]) (use Cons.prems in auto)
  ultimately show ?case by simp
qed simp

subsection \<open>The platform the store runs on\<close>

text \<open>
  What the store relies on: a flash driver as in \<open>nor_flash\<close>, a header that is a whole
  number of write blocks (the \<^verbatim>\<open>BUILD_ASSERT\<close> of \<^verbatim>\<open>storage.c\<close>), a partition whose
  sizes fit the 16-bit \<open>record_size\<close> field (4 KiB on both boards) and a
  checksum that may be continued over chunks.
\<close>

locale storage_platform = nor_flash d mem
  for d :: "'f flash_driver" and mem :: "'f \<Rightarrow> u8 list" +
  fixes crc :: "u16 \<Rightarrow> u8 list \<Rightarrow> u16"
  assumes block_dvd: "write_block_size d dvd header_size"
    and size_lower: "header_size \<le> fa_size d"
    and size_upper: "fa_size d < 2 ^ 16"
    and crc_append: "crc (crc acc xs) ys = crc acc (xs @ ys)"
begin

lemmas slot_dvd = slot_size_dvd [OF block_pos block_dvd]

lemma body_written:
  assumes w1: "flash_area_write d f (wr + header_size) (take (size_to_write_trunc d r) r) = (0, f1)"
    and w2: "push_write_tail d f1 wr r = (0, f2)"
  shows "mem f2 = mem_put (wr + header_size) (r @ replicate (record_padding d (length r)) erased_byte) (mem f)"
proof -
  let ?t = "take (size_to_write_trunc d r) r"
  have len: "length ?t = size_to_write_trunc d r" by simp
  have m1: "mem f1 = mem_put (wr + header_size) ?t (mem f)" and le: "wr + header_size + length ?t \<le> fa_size d"
    using write_sound [OF w1] by auto
  let ?p = "if length r mod write_block_size d \<noteq> 0 then padding_block d r else []"
  have "mem f2 = mem_put (wr + header_size + length ?t) ?p (mem f1)"
    using w2 by (auto simp: push_write_tail_def len split: if_splits dest: write_put)
  also have "\<dots> = mem_put (wr + header_size) (?t @ ?p) (mem f)"
    using le by (simp only: m1 mem_put_append length_mem)
  also have "?t @ ?p = r @ replicate (record_padding d (length r)) erased_byte"
    by (rule trunc_tail [OF block_pos])
  finally show "mem f2 = mem_put (wr + header_size)
      (r @ replicate (record_padding d (length r)) erased_byte) (mem f)" .
qed

lemma commit_writes:
  assumes "storage_push_commit d crc a r = (RET_SUCCESS, a', r')"
  shows "wr_idx a + slot_size d r \<le> fa_size d"
    and "rd_idx a' = rd_idx a" and "area_fa a' = area_fa a" and "wr_idx a' = wr_idx a + slot_size d r"
    and "mem (area_flash a') = mem_put (wr_idx a) (header_bytes (push_header crc r))
      (mem_put (wr_idx a + header_size) (r @ replicate (record_padding d (length r)) erased_byte)
        (mem (area_flash a)))"
proof -
  from assms obtain f1 f2 f3 where
      fits: "wr_idx a + slot_size d r \<le> fa_size d"
    and w1: "flash_area_write d (area_flash a) (wr_idx a + header_size) (take (size_to_write_trunc d r) r) = (0, f1)"
    and w2: "push_write_tail d f1 (wr_idx a) r = (0, f2)"
    and w3: "flash_area_write d f2 (wr_idx a) (header_bytes (push_header crc r)) = (0, f3)"
    and a': "a' = a\<lparr>area_flash := f3, wr_idx := wr_idx a + slot_size d r\<rparr>"
    by (auto simp: storage_push_commit_def slot_size_def Let_def ac_simps split: if_splits prod.splits)
  show "wr_idx a + slot_size d r \<le> fa_size d" by (rule fits)
  show "rd_idx a' = rd_idx a" "area_fa a' = area_fa a" "wr_idx a' = wr_idx a + slot_size d r"
    using a' by simp_all
  show "mem (area_flash a') = mem_put (wr_idx a) (header_bytes (push_header crc r))
      (mem_put (wr_idx a + header_size) (r @ replicate (record_padding d (length r)) erased_byte)
        (mem (area_flash a)))"
    using write_put [OF w3] body_written [OF w1 w2] by (simp add: a')
qed

lemma commit_fifo:
  assumes inv: "fifo d crc mem a rs"
    and ok: "storage_push_commit d crc a r = (RET_SUCCESS, a', r')"
    and r: "r \<noteq> []"
  shows "fifo d crc mem a' (rs @ [r])"
proof -
  note w = commit_writes [OF ok]
  let ?m = "mem (area_flash a)" and ?wr = "wr_idx a"
  let ?body = "r @ replicate (record_padding d (length r)) erased_byte"
  let ?hdr = "header_bytes (push_header crc r)"
  let ?m' = "mem_put ?wr ?hdr (mem_put (?wr + header_size) ?body ?m)"
  have fits: "?wr + header_size + length ?body \<le> length ?m" using w(1) by (simp add: slot_size_def)
  have len: "length ?m' = length ?m" using fits by simp
  have before: "mem_get x n ?m' = mem_get x n ?m" if "x + n \<le> ?wr" for x n
    using that fits by (simp add: mem_get_mem_put_before)
  have "mem_get (?wr + header_size) (length ?body) ?m' = ?body"
    using fits by (simp add: mem_get_mem_put_after)
  then have "mem_get (?wr + header_size) (length r) ?m' = r"
    using mem_get_mem_get [of 0 "length r" "length ?body" "?wr + header_size" ?m']
    by (simp add: mem_get_def)
  moreover have "mem_get ?wr header_size ?m' = ?hdr" using fits by simp
  ultimately have at: "rec_at d crc ?m' ?wr r"
    using r w(1) size_upper fits by (simp add: rec_at_def slot_size_def)
  have "stored d crc ?m' (rd_idx a) rs ?wr"
    using inv len before by (auto simp: fifo_def intro: stored_frame)
  moreover have "erased_from (?wr + slot_size d r) ?m'"
  proof -
    have "erased_from (?wr + header_size + length ?body) (mem_put (?wr + header_size) ?body ?m)"
      using inv fits by (intro erased_from_put [of ?wr]) (auto simp: fifo_def)
    then show ?thesis using fits
      by (simp add: erased_from_def mem_put_def slot_size_def ac_simps)
  qed
  ultimately show ?thesis
    using inv at w slot_dvd [of r] by (auto simp: fifo_def stored_append)
qed

lemma push_fifo:
  assumes "fifo d crc mem a rs" and "storage_push d crc a (Some r) = (RET_SUCCESS, a', r')"
  shows "fifo d crc mem a' (rs @ [r])"
  using assms
  by (auto simp: storage_push_def storage_push_check_def Let_def split: if_splits prod.splits
      intro: commit_fifo)

end


subsection \<open>A platform whose flash does not fail\<close>

locale reliable_platform = storage_platform d mem crc + reliable_flash d mem
  for d :: "'f flash_driver" and mem :: "'f \<Rightarrow> u8 list" and crc :: "u16 \<Rightarrow> u8 list \<Rightarrow> u16"
begin

lemma header_dvd: "write_block_size d dvd a \<Longrightarrow> write_block_size d dvd a + header_size"
  using block_dvd by simp

lemma write_erased:
  assumes "write_block_size d dvd off" and "write_block_size d dvd length xs"
    and "off + length xs \<le> fa_size d" and "erased_from a (mem f)" and "a \<le> off"
  obtains f' where "flash_area_write d f off xs = (0, f')" and "mem f' = mem_put off xs (mem f)"
proof -
  have "erased_range off (length xs) (mem f)"
    using assms by (auto intro: erased_from_range)
  then have "fst (flash_area_write d f off xs) = 0" using assms by (intro write_erased_ok) auto
  then show thesis using that write_put by (cases "flash_area_write d f off xs") auto
qed

lemma body_total:
  assumes dvd: "write_block_size d dvd wr" and fits: "wr + slot_size d r \<le> fa_size d"
    and er: "erased_from wr (mem f)"
  obtains f1 f2 where
    "flash_area_write d f (wr + header_size) (take (size_to_write_trunc d r) r) = (0, f1)"
    and "push_write_tail d f1 wr r = (0, f2)"
proof -
  let ?t = "take (size_to_write_trunc d r) r" and ?b = "write_block_size d"
  have len: "length ?t = size_to_write_trunc d r" by simp
  have le: "wr + header_size + length ?t \<le> fa_size d"
    using fits length_trunc [of d r] unfolding len slot_size_def by linarith
  obtain f1 where w1: "flash_area_write d f (wr + header_size) ?t = (0, f1)"
    and m1: "mem f1 = mem_put (wr + header_size) ?t (mem f)"
    using write_erased [of "wr + header_size" ?t wr f] header_dvd [OF dvd] trunc_dvd [of d r] le er len by auto
  show thesis
  proof (cases "length r mod ?b = 0")
    case True
    then show thesis using that w1 by (simp add: push_write_tail_def)
  next
    case False
    let ?off = "wr + header_size + size_to_write_trunc d r"
    have "length r mod ?b < ?b" and "length r mod ?b \<le> length r" using block_pos by simp_all
    then have "?off + ?b \<le> fa_size d"
      using fits unfolding slot_size_def record_padding_def size_to_write_trunc_def if_P [OF False] by linarith
    moreover have "erased_from ?off (mem f1)"
      using erased_from_put [OF er, of "wr + header_size" ?t] le by (simp add: m1 len)
    moreover have "?b dvd ?off" using header_dvd [OF dvd] trunc_dvd [of d r] by simp
    ultimately obtain f2 where "flash_area_write d f1 ?off (padding_block d r) = (0, f2)"
      using write_erased [of ?off "padding_block d r" ?off f1] length_padding_block [OF block_pos, of r] by auto
    then show thesis using that w1 False by (simp add: push_write_tail_def)
  qed
qed

lemma read_back_total:
  assumes fits: "wr + slot_size d r \<le> fa_size d"
    and m: "mem_get (wr + header_size) (length r) (mem f) = r"
  shows "push_read_back d f wr r = r"
proof -
  let ?t = "size_to_write_trunc d r"
  have le: "?t \<le> length r" by simp
  have fit: "wr + header_size + length r \<le> fa_size d" using fits by (simp add: slot_size_def)
  have "mem_get (wr + header_size) ?t (mem f) @ mem_get (wr + header_size + ?t) (length r - ?t) (mem f) = r"
    using mem_get_append [of "wr + header_size" ?t "mem f" "length r - ?t"] m le by simp
  moreover have "?t = length r" if "length r mod write_block_size d = 0"
    using that by (simp add: size_to_write_trunc_def)
  moreover have "flash_area_read d f (wr + header_size) (replicate ?t 0) =
      (0, mem_get (wr + header_size) ?t (mem f))"
    using read_total [of "wr + header_size" "replicate ?t 0" f] fit le unfolding length_replicate by linarith
  moreover have "flash_area_read d f (wr + header_size + ?t) (replicate (length r - ?t) 0) =
      (0, mem_get (wr + header_size + ?t) (length r - ?t) (mem f))"
    using read_total [of "wr + header_size + ?t" "replicate (length r - ?t) 0" f] fit le
    unfolding length_replicate by linarith
  ultimately show ?thesis
    by (cases "length r mod write_block_size d = 0") (simp_all add: push_read_back_def Let_def)
qed

lemma commit_total:
  assumes inv: "fifo d crc mem a rs"
  shows "if wr_idx a + slot_size d r \<le> fa_size d
     then \<exists>a'. storage_push_commit d crc a r = (RET_SUCCESS, a', r)
     else storage_push_commit d crc a r = (RET_ERROR_NO_MEM, a, r)"
proof (cases "wr_idx a + slot_size d r \<le> fa_size d")
  case fits: True
  let ?wr = "wr_idx a" and ?m = "mem (area_flash a)"
  let ?body = "r @ replicate (record_padding d (length r)) erased_byte"
  have dvd: "write_block_size d dvd ?wr" and er: "erased_from ?wr ?m" using inv by (auto simp: fifo_def)
  obtain f1 f2 where w1: "flash_area_write d (area_flash a) (?wr + header_size) (take (size_to_write_trunc d r) r) = (0, f1)"
    and w2: "push_write_tail d f1 ?wr r = (0, f2)"
    by (rule body_total [OF dvd fits er])
  have m2: "mem f2 = mem_put (?wr + header_size) ?body ?m" by (rule body_written [OF w1 w2])
  have le: "?wr + header_size + length ?body \<le> length ?m" using fits by (simp add: slot_size_def)
  have "mem_get (?wr + header_size) (length ?body) (mem f2) = ?body" using le by (simp add: m2)
  then have "mem_get (?wr + header_size) (length r) (mem f2) = r"
    using mem_get_mem_get [of 0 "length r" "length ?body" "?wr + header_size" "mem f2"]
    by (simp add: mem_get_def)
  then have rb: "push_read_back d f2 ?wr r = r" by (rule read_back_total [OF fits])
  have "erased_range ?wr header_size (mem f2)"
    using erased_from_range [OF er, of ?wr header_size] le
    by (simp add: erased_range_def m2 mem_get_mem_put_before)
  then have "fst (flash_area_write d f2 ?wr (header_bytes (push_header crc r))) = 0"
    using dvd block_dvd le by (intro write_erased_ok) auto
  then obtain f3 where "flash_area_write d f2 ?wr (header_bytes (push_header crc r)) = (0, f3)"
    by (metis prod.collapse)
  then show ?thesis
    using fits w1 w2 rb by (simp add: storage_push_commit_def slot_size_def add.assoc)
next
  case False
  then show ?thesis by (simp add: storage_push_commit_def slot_size_def add.assoc)
qed

lemma push_total:
  assumes inv: "fifo d crc mem a rs" and r: "r \<noteq> []" "length r \<le> fa_size d"
  shows "if wr_idx a + slot_size d r \<le> fa_size d
     then \<exists>a'. storage_push d crc a (Some r) = (RET_SUCCESS, a', Some r) \<and> fifo d crc mem a' (rs @ [r])
     else storage_push d crc a (Some r) = (RET_ERROR_NO_MEM, a, Some r)"
proof -
  have "storage_push_check d a (Some r) = RET_SUCCESS"
    using inv r by (simp add: storage_push_check_def fifo_def)
  then have "storage_push d crc a (Some r) = (let (ret, a', r') = storage_push_commit d crc a r in (ret, a', Some r'))"
    by (simp add: storage_push_def)
  then show ?thesis
    using commit_total [OF inv, of r] commit_fifo [OF inv _ r(1)] by (auto split: if_splits)
qed

lemma header_read:
  assumes "rec_at d crc (mem f) a r"
  shows "flash_area_read d f a (replicate header_size 0) = (0, header_bytes (push_header crc r))"
  using assms read_total [of a "replicate header_size 0" f] slot_size_ge(1) [of d r]
  by (simp add: rec_at_def slot_size_def)

lemma payload_read:
  assumes "rec_at d crc (mem f) a r" and "length buf = length r"
  shows "flash_area_read d f (a + header_size) buf = (0, r)"
  using assms read_total [of "a + header_size" buf f] by (simp add: rec_at_def slot_size_def)

lemma rec_at_unat: "rec_at d crc m a r \<Longrightarrow> unat (record_size (push_header crc r)) = length r"
  by (simp add: rec_at_def)

lemma peek_total:
  assumes inv: "fifo d crc mem a rs" and buf: "length buffer = sz"
  shows "storage_peek d crc a buffer sz = (case rs of
       [] \<Rightarrow> ((RET_ERROR_NOT_FOUND, a), buffer, sz)
     | r # _ \<Rightarrow> if length r \<le> sz then ((RET_SUCCESS, a), r @ drop (length r) buffer, length r)
                else ((RET_ERROR_NO_MEM, a), buffer, sz))"
proof (cases rs)
  case Nil
  then show ?thesis using inv by (simp add: storage_peek_def fifo_def peek_exit_def)
next
  case (Cons r rs')
  then have at: "rec_at d crc (mem (area_flash a)) (rd_idx a) r" and ne: "rd_idx a \<noteq> wr_idx a" and fa: "area_fa a"
    using inv stored_bounds [of d crc "mem (area_flash a)" "rd_idx a" rs "wr_idx a"] by (auto simp: fifo_def)
  show ?thesis
  proof (cases "length r \<le> sz")
    case True
    then have "flash_area_read d (area_flash a) (rd_idx a + header_size) (take (length r) buffer) = (0, r)"
      using buf by (intro payload_read [OF at]) simp
    then show ?thesis
      using header_read [OF at] rec_at_unat [OF at] Cons ne fa True
      by (simp add: storage_peek_def peek_exit_def Let_def)
  next
    case False
    then show ?thesis
      using header_read [OF at] rec_at_unat [OF at] Cons ne fa
      by (simp add: storage_peek_def peek_exit_def Let_def)
  qed
qed

lemma is_last_total:
  assumes inv: "fifo d crc mem a rs"
  shows "storage_is_last_record d a \<longleftrightarrow> length rs = 1" and "storage_has_data a \<longleftrightarrow> rs \<noteq> []"
proof -
  show "storage_has_data a \<longleftrightarrow> rs \<noteq> []"
    using inv stored_bounds [of d crc "mem (area_flash a)" "rd_idx a" rs "wr_idx a"]
    by (cases rs) (auto simp: fifo_def storage_has_data_def)
  show "storage_is_last_record d a \<longleftrightarrow> length rs = 1"
  proof (cases rs)
    case Nil
    then show ?thesis using inv by (simp add: storage_is_last_record_def fifo_def)
  next
    case (Cons r rs')
    let ?next = "rd_idx a + slot_size d r"
    from Cons have at: "rec_at d crc (mem (area_flash a)) (rd_idx a) r" and fa: "area_fa a"
      and st: "stored d crc (mem (area_flash a)) ?next rs' (wr_idx a)"
      using inv by (auto simp: fifo_def)
    have le: "?next \<le> wr_idx a" and lt: "rs' \<noteq> [] \<longrightarrow> ?next < wr_idx a"
      using stored_bounds [OF st] by auto
    then have "rd_idx a \<noteq> wr_idx a" using slot_size_ge(1) [of d r] by linarith
    moreover have "wr_idx a \<le> ?next \<longleftrightarrow> rs' = []" using lt st by auto
    ultimately show ?thesis
      using header_read [OF at] rec_at_unat [OF at] Cons fa
      by (simp add: storage_is_last_record_def slot_size_def add.assoc)
  qed
qed

lemma loop_read:
  assumes "index + header_size \<le> fa_size d" and "length hdr = header_size"
  shows "flash_area_read d f index hdr = (0, mem_get index header_size (mem f))"
  using assms read_total [of index hdr f] by simp

lemma chunked_crc:
  assumes "base + sz \<le> fa_size d" and "i < sz"
  shows "init_area_crc d crc f base sz i acc = crc acc (mem_get (base + i) (sz - i) (mem f))"
  using assms
proof (induction "sz - i" arbitrary: i acc rule: less_induct)
  case less
  show ?case
  proof (cases "i + INIT_AREA_READ_BUFFER_SIZE < sz")
    case True
    let ?chunk = "mem_get (base + i) INIT_AREA_READ_BUFFER_SIZE (mem f)"
    have "flash_area_read d f (base + i) (replicate INIT_AREA_READ_BUFFER_SIZE 0) = (0, ?chunk)"
      using True less.prems read_total [of "base + i" "replicate INIT_AREA_READ_BUFFER_SIZE 0" f] by simp
    then have "init_area_crc d crc f base sz i acc =
        init_area_crc d crc f base sz (i + INIT_AREA_READ_BUFFER_SIZE) (crc acc ?chunk)"
      using True by (subst init_area_crc.simps) (simp add: Let_def)
    also have "\<dots> = crc (crc acc ?chunk) (mem_get (base + (i + INIT_AREA_READ_BUFFER_SIZE))
        (sz - (i + INIT_AREA_READ_BUFFER_SIZE)) (mem f))"
      using True less.prems by (intro less.hyps) auto
    also have "\<dots> = crc acc (mem_get (base + i) (sz - i) (mem f))"
      using True mem_get_append [of "base + i" INIT_AREA_READ_BUFFER_SIZE "mem f" "sz - (i + INIT_AREA_READ_BUFFER_SIZE)"]
      by (simp add: crc_append add.assoc)
    finally show ?thesis .
  next
    case False
    have "flash_area_read d f (base + i) (replicate (sz - i) 0) = (0, mem_get (base + i) (sz - i) (mem f))"
      using less.prems read_total [of "base + i" "replicate (sz - i) 0" f] by simp
    moreover have "init_area_crc d crc f base sz (i + INIT_AREA_READ_BUFFER_SIZE) x = x" for x
      using False by (subst init_area_crc.simps) simp
    ultimately show ?thesis using False less.prems
      by (subst init_area_crc.simps) (simp add: Let_def)
  qed
qed

lemma loop_record:
  fixes rd :: "nat option"
  assumes at: "rec_at d crc (mem f) a r" and "length hdr = header_size"
  defines "rd' \<equiv> if rd = None then Some a else rd"
  shows "init_area_loop d crc f a hdr rd =
    (if a + slot_size d r + header_size < fa_size d
     then init_area_loop d crc f (a + slot_size d r) (header_bytes (push_header crc r)) rd' else (rd', None))"
proof -
  have hdr: "flash_area_read d f a hdr = (0, header_bytes (push_header crc r))"
    using assms loop_read [of a hdr f] slot_size_ge(1) [of d r] by (simp add: rec_at_def slot_size_def)
  have "init_area_crc d crc f (a + header_size) (length r) 0 0xFFFF = crc 0xFFFF r"
    using at chunked_crc [of "a + header_size" "length r" 0 f "0xFFFF"] by (simp add: rec_at_def slot_size_def)
  then show ?thesis
    using hdr rec_at_unat [OF at] block_pos unfolding rd'_def
    by (subst init_area_loop.simps) (simp add: Let_def slot_size_def add.assoc)
qed

lemma loop_stored:
  assumes "stored d crc (mem f) a rs b" and "erased_from b (mem f)" and "a + header_size \<le> fa_size d"
    and "b + header_size < fa_size d \<or> b = fa_size d" and "length hdr = header_size"
  shows "init_area_loop d crc f a hdr rd =
    (if rd = None \<and> rs \<noteq> [] then Some a else rd, if b = fa_size d then None else Some b)"
  using assms
proof (induction rs arbitrary: a hdr rd)
  case Nil
  then have "mem_get a header_size (mem f) = replicate header_size erased_byte"
    using erased_from_range [of a "mem f" a header_size] by (simp add: erased_range_def)
  then show ?case
    using Nil loop_read [of a hdr f]
    by (subst init_area_loop.simps) auto
next
  case (Cons r rs)
  have at: "rec_at d crc (mem f) a r" and st: "stored d crc (mem f) (a + slot_size d r) rs b"
    using Cons.prems by auto
  have "rs = [] \<and> b = fa_size d" if "\<not> a + slot_size d r + header_size < fa_size d"
    using that stored_bounds [OF st] Cons.prems(4) st by (cases rs) auto
  then show ?case
    using Cons.IH [OF st, of "header_bytes (push_header crc r)"] Cons.prems loop_record [OF at, of hdr rd]
    by (auto split: if_splits)
qed

lemma loop_freed:
  assumes "list_all (\<lambda>x. write_block_size d dvd x \<longrightarrow> skippable (mem f) x) [0..<rd]"
    and "write_block_size d dvd rd" and "rd + header_size < fa_size d"
    and "write_block_size d dvd index" and "index \<le> rd" and "length hdr = header_size"
  shows "\<exists>hdr'. length hdr' = header_size \<and>
    init_area_loop d crc f index hdr None = init_area_loop d crc f rd hdr' None"
  using assms
proof (induction "rd - index" arbitrary: index hdr rule: less_induct)
  case less
  show ?case
  proof (cases "index = rd")
    case True
    then show ?thesis using less.prems by blast
  next
    case False
    let ?b = "write_block_size d"
    let ?hdr = "mem_get index header_size (mem f)"
    have le: "index + ?b \<le> rd"
      using less.prems False block_pos
      by (metis dvd_add_right_iff dvd_imp_le le_add_diff_inverse nat_add_left_cancel_le zero_less_diff le_neq_implies_less)
    have "skippable (mem f) index"
      using less.prems False by (simp add: list_all_iff)
    then have "init_area_loop d crc f index hdr None = init_area_loop d crc f (index + ?b) ?hdr None"
      using loop_read [of index hdr f] less.prems le block_pos
      by (subst init_area_loop.simps) (simp add: skippable_def magic_at_def)
    moreover have "\<exists>hdr'. length hdr' = header_size \<and>
        init_area_loop d crc f (index + ?b) ?hdr None = init_area_loop d crc f rd hdr' None"
      by (rule less.hyps) (use less.prems le False block_pos in auto)
    ultimately show ?thesis by simp
  qed
qed

lemma init_area_erased:
  assumes "mem (area_flash a) = replicate (fa_size d) erased_byte"
  shows "init_area d crc a = (RET_SUCCESS, a\<lparr>rd_idx := 0, wr_idx := 0\<rparr>)"
proof -
  let ?m = "mem (area_flash a)"
  have "mem_get 0 header_size ?m = replicate header_size erased_byte"
    using assms size_lower by (simp add: mem_get_def min_def)
  then have rd: "flash_area_read d (area_flash a) 0 hdr = (0, replicate header_size erased_byte)"
    if "length hdr = header_size" for hdr
    using loop_read [of 0 hdr "area_flash a"] size_lower that by simp
  then have "init_area_loop d crc (area_flash a) 0 (replicate header_size erased_byte) None = (None, Some 0)"
    by (subst init_area_loop.simps) simp
  then show ?thesis using rd [of "replicate header_size 0"] by (simp add: init_area_def)
qed

lemma reset_total:
  assumes "area_fa a"
  shows "fifo d crc mem (reset_area d crc a) []" and "rd_idx (reset_area d crc a) = 0"
proof -
  obtain f' where e: "flash_area_erase d (area_flash a) 0 (fa_size d) = (0, f')"
    and m: "mem f' = replicate (fa_size d) erased_byte"
    by (rule erase_total)
  then have "reset_area d crc a = a\<lparr>area_flash := f', rd_idx := 0, wr_idx := 0\<rparr>"
    using init_area_erased [of "a\<lparr>area_flash := f'\<rparr>"] by (simp add: reset_area_def)
  then show "fifo d crc mem (reset_area d crc a) []" "rd_idx (reset_area d crc a) = 0"
    using assms m by (simp_all add: fifo_def erased_from_def list_all_iff)
qed

lemma free_writes:
  assumes inv: "fifo d crc mem a (r # rs)"
  shows "\<exists>f'. storage_free d crc a = (RET_SUCCESS,
      let a' = a\<lparr>area_flash := f', rd_idx := rd_idx a + slot_size d r\<rparr>
      in if rs = [] \<and> fa_size d - wr_idx a < MINIMUM_EMPTY_SPACE then reset_area d crc a' else a') \<and>
    mem f' = mem_put (rd_idx a) (replicate header_size 0) (mem (area_flash a))"
proof -
  let ?rd = "rd_idx a"
  have at: "rec_at d crc (mem (area_flash a)) ?rd r" and fa: "area_fa a" and dvd: "write_block_size d dvd ?rd"
    and st: "stored d crc (mem (area_flash a)) (?rd + slot_size d r) rs (wr_idx a)"
    using inv by (auto simp: fifo_def)
  have "?rd + header_size \<le> fa_size d" using at slot_size_ge(1) [of d r] by (simp add: rec_at_def)
  then have "fst (flash_area_write d (area_flash a) ?rd (replicate header_size 0)) = 0"
    using dvd block_dvd by (intro write_zeros_ok)
  then obtain f' where w: "flash_area_write d (area_flash a) ?rd (replicate header_size 0) = (0, f')"
    by (metis prod.collapse)
  moreover have "wr_idx a \<le> ?rd + slot_size d r \<longleftrightarrow> rs = []"
    using stored_bounds [OF st] st by (cases rs) auto
  ultimately have "storage_free d crc a = (RET_SUCCESS,
      let a' = a\<lparr>area_flash := f', rd_idx := ?rd + slot_size d r\<rparr>
      in if rs = [] \<and> fa_size d - wr_idx a < MINIMUM_EMPTY_SPACE then reset_area d crc a' else a')"
    using header_read [OF at] rec_at_unat [OF at] fa
    by (simp add: storage_free_def Let_def slot_size_def add.assoc)
  then show ?thesis using write_put [OF w] by blast
qed

lemma free_total:
  assumes inv: "fifo d crc mem a (r # rs)"
  shows "\<exists>a'. storage_free d crc a = (RET_SUCCESS, a') \<and> fifo d crc mem a' rs \<and>
    wr_idx a' = (if rs = [] \<and> fa_size d - wr_idx a < MINIMUM_EMPTY_SPACE then 0 else wr_idx a)"
proof -
  let ?rd = "rd_idx a" and ?wr = "wr_idx a" and ?next = "rd_idx a + slot_size d r"
  obtain f' where free: "storage_free d crc a = (RET_SUCCESS,
      let a' = a\<lparr>area_flash := f', rd_idx := ?next\<rparr>
      in if rs = [] \<and> fa_size d - ?wr < MINIMUM_EMPTY_SPACE then reset_area d crc a' else a')"
    and m': "mem f' = mem_put ?rd (replicate header_size 0) (mem (area_flash a))"
    using free_writes [OF inv] by blast
  have st: "stored d crc (mem (area_flash a)) ?next rs ?wr" and i: "area_fa a" "write_block_size d dvd ?rd"
    and wr: "?wr \<le> fa_size d" "erased_from ?wr (mem (area_flash a))" "write_block_size d dvd ?wr"
    using inv by (auto simp: fifo_def)
  have le: "?next \<le> ?wr" using stored_bounds [OF st] by simp
  then have "mem_get x n (mem f') = mem_get x n (mem (area_flash a))" if "?next \<le> x" for x n
    using that wr(1) slot_size_ge(1) [of d r] by (simp add: m' mem_get_mem_put_after)
  then have "stored d crc (mem f') ?next rs ?wr" using st by (auto intro: stored_frame)
  moreover have "erased_from ?wr (mem f')"
    using wr le slot_size_ge(1) [of d r] by (simp add: erased_from_def m' mem_put_def)
  ultimately have "fifo d crc mem (a\<lparr>area_flash := f', rd_idx := ?next\<rparr>) rs"
    using i wr slot_dvd [of r] by (simp add: fifo_def)
  then show ?thesis
    using free i(1) reset_total [of "a\<lparr>area_flash := f', rd_idx := ?next\<rparr>"] by (auto simp: Let_def fifo_def)
qed

lemma init_total:
  assumes inv: "fifo d crc mem a rs" and freed: "freed_ok d (mem (area_flash a)) (rd_idx a)"
    and tail: "wr_idx a + header_size < fa_size d \<or> wr_idx a = fa_size d \<and> rs \<noteq> []"
    and opened: "flash_area_open d = 0"
  shows "storage_init d crc (area_flash a) = (RET_SUCCESS,
    \<lparr>area_fa = True, area_flash = area_flash a, wr_idx = wr_idx a, rd_idx = rd_idx a\<rparr>)"
proof -
  let ?f = "area_flash a" and ?rd = "rd_idx a" and ?wr = "wr_idx a"
  have st: "stored d crc (mem ?f) ?rd rs ?wr" and er: "erased_from ?wr (mem ?f)"
    and dvd: "write_block_size d dvd ?rd" and wr: "?wr \<le> fa_size d" using inv by (auto simp: fifo_def)
  have rd: "?rd + header_size < fa_size d"
    using stored_bounds [OF st] tail wr st by (cases rs) auto
  have read0: "flash_area_read d ?f 0 (replicate header_size 0) = (0, mem_get 0 header_size (mem ?f))"
    using rd by (intro loop_read) auto
  have len0: "length (mem_get 0 header_size (mem ?f)) = header_size" using size_lower by simp
  have loop: "init_area_loop d crc ?f 0 (mem_get 0 header_size (mem ?f)) None =
      (if rs \<noteq> [] then Some ?rd else None, if ?wr = fa_size d then None else Some ?wr)"
    using loop_freed [of ?f ?rd 0 "mem_get 0 header_size (mem ?f)"] freed dvd rd len0
      loop_stored [OF st er] tail
    by (fastforce simp: freed_ok_def)
  have magic0: "magic_at (mem ?f) 0 \<in> {RECORD_UNUSED, RECORD_VALID, RECORD_INVALID}"
  proof (cases "?rd = 0")
    case True
    then show ?thesis
      using st er erased_from_range [of ?wr "mem ?f" 0 header_size] rd
      by (cases rs) (auto simp: magic_at_def rec_at_def erased_range_def)
  next
    case False
    then show ?thesis using freed by (simp add: freed_ok_def)
  qed
  have "rs = [] \<Longrightarrow> ?rd = ?wr" using st by simp
  then show ?thesis
    using read0 loop magic0 tail opened
    by (auto simp: storage_init_def init_area_def magic_at_def Let_def)
qed

lemma free_empty:
  assumes "fifo d crc mem a []" and "wr_idx a + header_size \<le> fa_size d"
  shows "storage_free d crc a = (RET_ERROR_NOT_FOUND, a)"
proof -
  have "mem_get (wr_idx a) header_size (mem (area_flash a)) = replicate header_size erased_byte"
    using assms erased_from_range [of "wr_idx a" "mem (area_flash a)" "wr_idx a" header_size]
    by (simp add: fifo_def erased_range_def)
  then show ?thesis
    using assms loop_read [of "wr_idx a" "replicate header_size 0" "area_flash a"]
    by (simp add: storage_free_def fifo_def)
qed

lemma step_refines:
  assumes rep: "represents d crc mem a q"
  shows "fst (storage_step d crc op a) = fst (spec_step d op q) \<and>
    represents d crc mem (snd (storage_step d crc op a)) (snd (spec_step d op q))"
proof -
  have inv: "fifo d crc mem a (queue q)" and u: "used q = wr_idx a" and fa: "area_fa a"
    and e: "queue q = [] \<longrightarrow> wr_idx a + header_size \<le> fa_size d"
    using rep by (auto simp: represents_def fifo_def)
  show ?thesis
  proof (cases op)
    case (Push r)
    show ?thesis
    proof (cases "r = [] \<or> fa_size d < length r")
      case True
      then have "storage_push d crc a (Some r) = (RET_ERROR_INVALID_PARAM, a, Some r)"
        using fa by (auto simp: storage_push_def storage_push_check_def)
      then show ?thesis using True rep Push by (simp add: storage_step_def spec_step_def)
    next
      case False
      then show ?thesis
        using push_total [OF inv, of r] commit_writes(4) [of a r] rep u Push fa
        by (auto simp: storage_step_def spec_step_def represents_def storage_push_def
            storage_push_check_def split: if_splits prod.splits)
    qed
  next
    case (Peek n)
    then show ?thesis
      using peek_total [OF inv, of "replicate n 0" n] rep
      by (auto simp: storage_step_def spec_step_def split: list.splits)
  next
    case Free
    show ?thesis
    proof (cases "queue q")
      case Nil
      then have "storage_free d crc a = (RET_ERROR_NOT_FOUND, a)" using free_empty inv e by simp
      then show ?thesis using Nil Free rep by (simp add: storage_step_def spec_step_def)
    next
      case (Cons r rs)
      then show ?thesis
        using free_total [of a r rs] inv u Free size_lower
        by (auto simp: storage_step_def spec_step_def represents_def)
    qed
  qed (use is_last_total [OF inv] rep in \<open>simp_all add: storage_step_def spec_step_def\<close>)
qed

lemma run_refines:
  "represents d crc mem a q \<Longrightarrow>
   fst (run_ops (storage_step d crc) ops a) = fst (run_ops (spec_step d) ops q) \<and>
   represents d crc mem (snd (run_ops (storage_step d crc) ops a)) (snd (run_ops (spec_step d) ops q))"
proof (induction ops arbitrary: a q)
  case (Cons op ops)
  then show ?case
    using step_refines [OF Cons.prems, of op] by (fastforce simp: Let_def split: prod.splits)
qed simp

lemma init_ff_payload:
  assumes b: "write_block_size d = header_size" and z: "mem_get 0 header_size (mem f) = replicate header_size 0"
    and ff: "magic_at (mem f) header_size = RECORD_UNUSED" and le: "2 * header_size < fa_size d"
    and opened: "flash_area_open d = 0"
  shows "storage_init d crc f = (RET_SUCCESS,
    \<lparr>area_fa = True, area_flash = f, wr_idx = header_size, rd_idx = header_size\<rparr>)"
proof -
  have r0: "flash_area_read d f 0 hdr = (0, replicate header_size 0)" if "length hdr = header_size" for hdr
    using that loop_read [of 0 hdr f] le z by simp
  have r8: "flash_area_read d f header_size hdr = (0, mem_get header_size header_size (mem f))"
    if "length hdr = header_size" for hdr
    using that loop_read [of header_size hdr f] le by simp
  have "init_area_loop d crc f header_size (replicate header_size 0) None = (None, Some header_size)"
    using r8 [of "replicate header_size 0"] ff by (subst init_area_loop.simps) (simp add: magic_at_def)
  then have "init_area_loop d crc f 0 (replicate header_size 0) None = (None, Some header_size)"
    using r0 [of "replicate header_size 0"] b le by (subst init_area_loop.simps) simp
  then show ?thesis
    using r0 [of "replicate header_size 0"] opened by (simp add: storage_init_def init_area_def)
qed

lemma free_reboot:
  assumes inv: "fifo d crc mem a (r # rs)" and rs: "rs \<noteq> []" and rd: "rd_idx a = 0"
    and b: "write_block_size d = header_size" and r: "2 \<le> length r" "r ! 0 = 0xFF" "r ! 1 = 0xFF"
    and opened: "flash_area_open d = 0"
  shows "\<exists>a' a''. storage_free d crc a = (RET_SUCCESS, a') \<and> fifo d crc mem a' rs \<and>
    storage_init d crc (area_flash a') = (RET_SUCCESS, a'') \<and> \<not> storage_has_data a''"
proof -
  let ?m = "mem (area_flash a)"
  obtain f' where free: "storage_free d crc a = (RET_SUCCESS, a\<lparr>area_flash := f', rd_idx := slot_size d r\<rparr>)"
    and m': "mem f' = mem_put 0 (replicate header_size 0) ?m"
    using free_writes [OF inv] rs rd by auto
  have at: "rec_at d crc ?m 0 r" and le: "slot_size d r \<le> fa_size d" and st: "stored d crc ?m (slot_size d r) rs (wr_idx a)"
    using inv rd by (auto simp: fifo_def rec_at_def)
  have "2 * header_size < fa_size d"
    using stored_bounds [OF st] rs inv slot_size_ge(1) [of d r] by (simp add: fifo_def)
  moreover have "mem_get 0 header_size (mem f') = replicate header_size 0"
    using le slot_size_ge(1) [of d r] by (simp add: m')
  moreover have "magic_at (mem f') header_size = RECORD_UNUSED"
  proof -
    have r': "mem_get header_size (length r) ?m = r" using at by (simp add: rec_at_def)
    have *: "mem_get header_size header_size ?m ! k = r ! k" if "k < 2" for k
    proof -
      have "r ! k = mem_get header_size (length r) ?m ! k" by (simp only: r')
      also have "\<dots> = drop header_size ?m ! k" using that r(1) by (simp add: mem_get_def)
      also have "\<dots> = mem_get header_size header_size ?m ! k" using that by (simp add: mem_get_def)
      finally show ?thesis by simp
    qed
    have "magic_at (mem f') header_size = magic_at ?m header_size"
      using le slot_size_ge(1) [of d r] by (simp add: magic_at_def m' mem_get_mem_put_after)
    also have "\<dots> = RECORD_UNUSED"
      using * [of 0] * [of 1] r by (simp add: magic_at_def header_of_def u16_of_def RECORD_UNUSED_def)
    finally show ?thesis .
  qed
  ultimately have "storage_init d crc f' = (RET_SUCCESS,
      \<lparr>area_fa = True, area_flash = f', wr_idx = header_size, rd_idx = header_size\<rparr>)"
    using b opened by (intro init_ff_payload)
  then show ?thesis using free free_total [OF inv] by (auto simp: storage_has_data_def)
qed

lemma tail_stuck:
  assumes inv: "fifo d crc mem a [r]" and rd: "rd_idx a = 0" and wr: "wr_idx a + header_size = fa_size d"
    and opened: "flash_area_open d = 0" and buf: "length buffer = sz" "sz < 0xFFFF"
  shows "\<exists>a' a''. storage_init d crc (area_flash a) = (RET_SUCCESS, a') \<and>
    storage_free d crc a' = (RET_SUCCESS, a'') \<and> storage_has_data a'' \<and>
    storage_peek d crc a'' buffer sz = ((RET_ERROR_NO_MEM, a''), buffer, sz) \<and>
    storage_free d crc a'' = (RET_ERROR_NOT_FOUND, a'')"
proof -
  let ?f = "area_flash a" and ?wr = "wr_idx a"
  let ?h = "header_bytes (push_header crc r)"
  have at: "rec_at d crc (mem ?f) 0 r" and eq: "slot_size d r = ?wr" and er: "erased_from ?wr (mem ?f)"
    using inv rd by (auto simp: fifo_def)
  have "init_area_loop d crc ?f 0 ?h None = (Some 0, None)"
    using loop_record [OF at, of ?h None] eq wr by simp
  then have init: "storage_init d crc ?f = (RET_SUCCESS,
      \<lparr>area_fa = True, area_flash = ?f, wr_idx = fa_size d, rd_idx = 0\<rparr>)"
    using header_read [OF at] opened by (simp add: storage_init_def init_area_def)
  let ?a' = "\<lparr>area_fa = True, area_flash = ?f, wr_idx = fa_size d, rd_idx = 0\<rparr>"
  have "fst (flash_area_write d ?f 0 (replicate header_size 0)) = 0"
    using block_dvd size_lower by (intro write_zeros_ok) auto
  then obtain f' where w: "flash_area_write d ?f 0 (replicate header_size 0) = (0, f')"
    by (metis prod.collapse)
  let ?a'' = "\<lparr>area_fa = True, area_flash = f', wr_idx = fa_size d, rd_idx = ?wr\<rparr>"
  have free: "storage_free d crc ?a' = (RET_SUCCESS, ?a'')"
    using header_read [OF at] rec_at_unat [OF at] w eq wr
    by (simp add: storage_free_def Let_def slot_size_def add.assoc)
  have "mem_get ?wr header_size (mem f') = replicate header_size erased_byte"
    using write_put [OF w] er wr eq slot_size_ge(1) [of d r] erased_from_range [of ?wr "mem ?f" ?wr header_size]
    by (simp add: mem_get_mem_put_after erased_range_def)
  then have rd': "flash_area_read d f' ?wr (replicate header_size 0) = (0, replicate header_size erased_byte)"
    using loop_read [of ?wr "replicate header_size 0" f'] wr by simp
  have "storage_peek d crc ?a'' buffer sz = ((RET_ERROR_NO_MEM, ?a''), buffer, sz)"
    using rd' buf wr by (simp add: storage_peek_def peek_exit_def)
  moreover have "storage_free d crc ?a'' = (RET_ERROR_NOT_FOUND, ?a'')"
    using rd' by (simp add: storage_free_def)
  moreover have "storage_has_data ?a''" using wr by (simp add: storage_has_data_def)
  ultimately show ?thesis using init free by blast
qed

end

subsection \<open>Recovery after a reset\<close>

text \<open>
  \<open>plain_record d r\<close>: no write block of the padded record starts with the two bytes of a valid
  header or of unused flash. \<open>payloads_ok\<close>: that is so of the records in flash.
\<close>

definition padded_record :: "'f flash_driver \<Rightarrow> u8 list \<Rightarrow> u8 list" where
  "padded_record d r = r @ replicate (record_padding d (length r)) erased_byte"

definition plain_record :: "'f flash_driver \<Rightarrow> u8 list \<Rightarrow> bool" where
  "plain_record d r \<longleftrightarrow>
     (let p = padded_record d r
      in list_all (\<lambda>k. write_block_size d dvd k \<longrightarrow>
        u16_of (p ! k) (p ! Suc k) \<noteq> RECORD_UNUSED \<and> u16_of (p ! k) (p ! Suc k) \<noteq> RECORD_VALID) [0..<length p])"

fun payloads_ok :: "'f flash_driver \<Rightarrow> u8 list \<Rightarrow> nat \<Rightarrow> u8 list list \<Rightarrow> bool" where
  "payloads_ok d m a [] \<longleftrightarrow> True"
| "payloads_ok d m a (r # rs) \<longleftrightarrow>
     list_all (\<lambda>x. write_block_size d dvd x \<longrightarrow> skippable m x) [a + header_size..<a + slot_size d r] \<and>
     payloads_ok d m (a + slot_size d r) rs"

definition recoverable ::
  "'f flash_driver \<Rightarrow> (u16 \<Rightarrow> u8 list \<Rightarrow> u16) \<Rightarrow> ('f \<Rightarrow> u8 list) \<Rightarrow> 'f storage_area_s \<Rightarrow> queue_spec \<Rightarrow> bool" where
  "recoverable d crc mem a q \<longleftrightarrow> represents d crc mem a q \<and> freed_ok d (mem (area_flash a)) (rd_idx a) \<and>
     payloads_ok d (mem (area_flash a)) (rd_idx a) (queue q)"

lemma magic_at_nth: "Suc x < length m \<Longrightarrow> magic_at m x = u16_of (m ! x) (m ! Suc x)"
  by (simp add: magic_at_def header_of_def mem_get_def)

lemma block_pair:
  fixes b x y :: nat
  assumes "b dvd x" "b dvd y" "x < y" "2 \<le> b"
  shows "Suc x < y"
proof -
  have "b dvd y - x" using assms(1,2) by (simp add: dvd_diff_nat)
  then have "b \<le> y - x" using assms(3) by (intro dvd_imp_le) auto
  then show ?thesis using assms(4) by linarith
qed

lemma skippable_frame:
  assumes "\<And>i. x \<le> i \<Longrightarrow> i < e \<Longrightarrow> m' ! i = m ! i" "length m' = length m" "Suc x < e" "e \<le> length m"
  shows "magic_at m' x = magic_at m x" "skippable m' x \<longleftrightarrow> skippable m x"
proof -
  show "magic_at m' x = magic_at m x" using assms by (simp add: magic_at_nth)
  then show "skippable m' x \<longleftrightarrow> skippable m x" by (simp add: skippable_def)
qed

lemma nth_mem_put_before: "i < off \<Longrightarrow> off \<le> length m \<Longrightarrow> mem_put off xs m ! i = m ! i"
  by (simp add: mem_put_def nth_append)

lemma nth_mem_put_after: "off + length xs \<le> i \<Longrightarrow> off + length xs \<le> length m \<Longrightarrow> mem_put off xs m ! i = m ! i"
  using less_diff_conv2 [of off i "length xs"] by (simp add: mem_put_def nth_append not_less)

lemma nth_mem_put_in: "off \<le> i \<Longrightarrow> i < off + length xs \<Longrightarrow> off \<le> length m \<Longrightarrow> mem_put off xs m ! i = xs ! (i - off)"
  unfolding mem_put_def by (simp add: nth_append less_diff_conv2)

lemma freed_ok_frame:
  assumes f: "freed_ok d m rd" and m': "\<And>i. i < rd \<Longrightarrow> m' ! i = m ! i" "length m' = length m" "rd \<le> length m"
    and b: "2 \<le> write_block_size d" "write_block_size d dvd rd"
  shows "freed_ok d m' rd"
proof -
  have "magic_at m' x = magic_at m x" if "x < rd" "write_block_size d dvd x" for x
    using skippable_frame(1) [of x rd m' m] m' block_pair [OF that(2) b(2) that(1) b(1)] by simp
  then show ?thesis using f by (auto simp: freed_ok_def list_all_iff skippable_def)
qed

context reliable_platform
begin

lemma payloads_ok_frame:
  assumes "payloads_ok d m a rs" "stored d crc m a rs e" "\<And>i. a \<le> i \<Longrightarrow> i < e \<Longrightarrow> m' ! i = m ! i"
    and len: "length m' = length m" and b: "2 \<le> write_block_size d" and dvd: "write_block_size d dvd a" "e \<le> length m"
  shows "payloads_ok d m' a rs"
  using assms(1-3) dvd
proof (induction rs arbitrary: a)
  case (Cons r rs)
  have st: "stored d crc m (a + slot_size d r) rs e" using Cons.prems(2) by simp
  have le: "a + slot_size d r \<le> e" using stored_bounds [OF st] by simp
  have dvd': "write_block_size d dvd a + slot_size d r" using Cons.prems(4) slot_dvd [of r] by simp
  have "payloads_ok d m' (a + slot_size d r) rs"
    by (rule Cons.IH [OF _ st _ dvd']) (use Cons.prems in auto)
  moreover have "skippable m' x"
    if x: "a + header_size \<le> x" "x < a + slot_size d r" "write_block_size d dvd x" for x
  proof -
    have "skippable m x" using Cons.prems(1) x by (auto simp: list_all_iff)
    moreover have "Suc x < a + slot_size d r" by (rule block_pair [OF x(3) dvd' x(2) b])
    ultimately show ?thesis
      using skippable_frame(2) [of x "a + slot_size d r" m' m] Cons.prems(3,5) le len x(1) by simp
  qed
  ultimately show ?case by (auto simp: list_all_iff)
qed simp

lemma payloads_ok_append:
  "stored d crc m a rs e \<Longrightarrow> payloads_ok d m a (rs @ [r]) \<longleftrightarrow> payloads_ok d m a rs \<and> payloads_ok d m e [r]"
  by (induction rs arbitrary: a) auto

lemma plain_payload:
  assumes plain: "plain_record d r" and b: "2 \<le> write_block_size d" and dvd: "write_block_size d dvd wr"
    and m: "\<And>i. i < length (padded_record d r) \<Longrightarrow> m ! (wr + header_size + i) = padded_record d r ! i"
    and le: "wr + slot_size d r \<le> length m"
  shows "payloads_ok d m wr [r]"
proof -
  let ?p = "padded_record d r"
  have len: "header_size + length ?p = slot_size d r" by (simp add: padded_record_def slot_size_def)
  have "skippable m x" if x: "wr + header_size \<le> x" "x < wr + slot_size d r" "write_block_size d dvd x" for x
  proof -
    define k where "k = x - (wr + header_size)"
    have xk: "x = wr + header_size + k" using x(1) by (simp add: k_def)
    have "write_block_size d dvd (wr + header_size)" using dvd block_dvd by simp
    then have kd: "write_block_size d dvd k" using x(3) unfolding k_def by (intro dvd_diff_nat)
    have "Suc x < wr + slot_size d r" using block_pair [OF x(3) _ x(2) b] dvd slot_dvd [of r] by simp
    then have k: "Suc k < length ?p" using len xk by linarith
    have "magic_at m x = u16_of (?p ! k) (?p ! Suc k)"
      using magic_at_nth [of x m] m [of k] m [of "Suc k"] k le len xk by simp
    then show ?thesis
      using plain k kd by (auto simp: plain_record_def Let_def list_all_iff skippable_def)
  qed
  then show ?thesis by (auto simp: list_all_iff)
qed

lemma push_recoverable:
  assumes rec: "recoverable d crc mem a q" and b: "2 \<le> write_block_size d" and plain: "plain_record d r"
    and push: "storage_push d crc a (Some r) = (RET_SUCCESS, a', r')"
  shows "freed_ok d (mem (area_flash a')) (rd_idx a')" and "payloads_ok d (mem (area_flash a')) (rd_idx a') (queue q @ [r])"
proof -
  let ?wr = "wr_idx a" and ?m = "mem (area_flash a)" and ?m' = "mem (area_flash a')" and ?p = "padded_record d r"
  have inv: "fifo d crc mem a (queue q)" and f: "freed_ok d ?m (rd_idx a)" and p: "payloads_ok d ?m (rd_idx a) (queue q)"
    using rec by (simp_all add: recoverable_def represents_def)
  have st: "stored d crc ?m (rd_idx a) (queue q) ?wr" and dvd: "write_block_size d dvd rd_idx a" "write_block_size d dvd ?wr"
    using inv by (simp_all add: fifo_def)
  obtain r'' where "storage_push_commit d crc a r = (RET_SUCCESS, a', r'')"
    using push by (auto simp: storage_push_def Let_def split: if_splits prod.splits)
  note w = commit_writes [OF this]
  have len: "header_size + length ?p = slot_size d r" by (simp add: padded_record_def slot_size_def)
  have m': "?m' = mem_put ?wr (header_bytes (push_header crc r)) (mem_put (?wr + header_size) ?p ?m)"
    using w(5) by (simp add: padded_record_def)
  have before: "?m' ! i = ?m ! i" if "i < ?wr" for i
    using that w(1) len by (simp add: m' nth_mem_put_before)
  have le: "rd_idx a \<le> ?wr" using stored_bounds [OF st] by simp
  have wr: "?wr \<le> fa_size d" using w(1) by simp
  show "freed_ok d ?m' (rd_idx a')"
    using freed_ok_frame [OF f _ _ _ b dvd(1), of ?m'] before le wr w(2) by simp
  have "payloads_ok d ?m' (rd_idx a) (queue q)"
    by (rule payloads_ok_frame [OF p st _ _ b dvd(1)]) (use before wr in simp_all)
  moreover have "payloads_ok d ?m' ?wr [r]"
  proof (rule plain_payload [OF plain b dvd(2)])
    show "?m' ! (?wr + header_size + i) = ?p ! i" if "i < length ?p" for i
      using that w(1) len by (simp add: m' nth_mem_put_after nth_mem_put_in)
  qed (use w(1) in simp)
  moreover have "stored d crc ?m' (rd_idx a) (queue q) ?wr"
  proof (rule stored_frame [OF st])
    show "mem_get x n ?m' = mem_get x n ?m" if "x + n \<le> ?wr" for x n
      using that w(1) len by (simp add: m' mem_get_mem_put_before)
  qed simp
  ultimately show "payloads_ok d ?m' (rd_idx a') (queue q @ [r])"
    using w(2) by (simp add: payloads_ok_append)
qed

lemma free_recoverable:
  assumes rec: "recoverable d crc mem a q" and b: "2 \<le> write_block_size d" and q: "queue q = r # rs"
    and free: "storage_free d crc a = (RET_SUCCESS, a')"
  shows "freed_ok d (mem (area_flash a')) (rd_idx a')" and "payloads_ok d (mem (area_flash a')) (rd_idx a') rs"
proof -
  let ?rd = "rd_idx a" and ?m = "mem (area_flash a)" and ?next = "rd_idx a + slot_size d r"
  have inv: "fifo d crc mem a (r # rs)" and f: "freed_ok d ?m ?rd"
    and p: "payloads_ok d ?m ?rd (r # rs)"
    using rec q by (simp_all add: recoverable_def represents_def)
  have at: "rec_at d crc ?m ?rd r" and st: "stored d crc ?m ?next rs (wr_idx a)" and fa: "area_fa a"
    and dvd: "write_block_size d dvd ?rd" and wr: "wr_idx a \<le> fa_size d" using inv by (simp_all add: fifo_def)
  have le: "?next \<le> wr_idx a" using stored_bounds [OF st] by simp
  have ge: "header_size \<le> slot_size d r" by (rule slot_size_ge)
  obtain f' where eq: "storage_free d crc a = (RET_SUCCESS,
      let a' = a\<lparr>area_flash := f', rd_idx := ?next\<rparr>
      in if rs = [] \<and> fa_size d - wr_idx a < MINIMUM_EMPTY_SPACE then reset_area d crc a' else a')"
    and m': "mem f' = mem_put ?rd (replicate header_size 0) ?m"
    using free_writes [OF inv] by blast
  have dvd': "write_block_size d dvd ?next" using dvd slot_dvd [of r] by simp
  have after: "mem f' ! i = ?m ! i" if "?rd + header_size \<le> i" for i
    using that le wr ge by (simp add: m' nth_mem_put_after)
  have before: "mem f' ! i = ?m ! i" if "i < ?rd" for i
    using that le wr by (simp add: m' nth_mem_put_before)
  have zero: "mem f' ! i = 0" if "?rd \<le> i" "i < ?rd + header_size" for i
    using that le wr ge by (simp add: m' nth_mem_put_in)
  have hdr: "magic_at (mem f') x = RECORD_INVALID"
    if x: "?rd \<le> x" "x < ?rd + header_size" "write_block_size d dvd x" for x
  proof -
    have "Suc x < ?rd + header_size" using block_pair [OF x(3) header_dvd [OF dvd] x(2) b] .
    then show ?thesis using zero [of x] zero [of "Suc x"] x le wr ge
      by (simp add: magic_at_nth u16_of_def RECORD_INVALID_def)
  qed
  have freed: "freed_ok d (mem f') ?next"
  proof -
    have f': "freed_ok d (mem f') ?rd"
      using freed_ok_frame [OF f _ _ _ b dvd, of "mem f'"] before le wr by simp
    have pay: "skippable (mem f') x"
      if x: "?rd + header_size \<le> x" "x < ?next" "write_block_size d dvd x" for x
    proof -
      have "skippable ?m x" using p x by (auto simp: list_all_iff)
      then show ?thesis
        using skippable_frame(2) [of x ?next "mem f'" ?m] after x block_pair [OF x(3) dvd' x(2) b] le wr by simp
    qed
    have "skippable (mem f') x" if "x < ?next" "write_block_size d dvd x" for x
      using that f' hdr [of x] pay [of x]
      by (cases "x < ?rd"; cases "x < ?rd + header_size") (auto simp: freed_ok_def list_all_iff skippable_def)
    moreover have "magic_at (mem f') 0 = RECORD_INVALID"
      using f' hdr [of 0] by (cases "?rd = 0") (auto simp: freed_ok_def)
    ultimately show ?thesis by (simp add: freed_ok_def list_all_iff)
  qed
  have payl: "payloads_ok d (mem f') ?next rs"
    by (rule payloads_ok_frame [OF _ st _ _ b dvd']) (use p after ge wr in auto)
  show "freed_ok d (mem (area_flash a')) (rd_idx a')"
    using eq free freed reset_total(2) [of "a\<lparr>area_flash := f', rd_idx := ?next\<rparr>"] fa
    by (auto simp: Let_def freed_ok_def split: if_splits)
  show "payloads_ok d (mem (area_flash a')) (rd_idx a') rs"
    using eq free payl by (auto simp: Let_def split: if_splits)
qed

lemma step_recoverable:
  assumes rec: "recoverable d crc mem a q" and b: "2 \<le> write_block_size d"
    and plain: "\<And>r. op = Push r \<Longrightarrow> plain_record d r"
  shows "recoverable d crc mem (snd (storage_step d crc op a)) (snd (spec_step d op q))"
proof -
  have rep: "represents d crc mem a q" and inv: "fifo d crc mem a (queue q)" and u: "used q = wr_idx a"
    and e: "queue q = [] \<longrightarrow> wr_idx a + header_size \<le> fa_size d" and fa: "area_fa a"
    using rec by (auto simp: recoverable_def represents_def fifo_def)
  have rep': "represents d crc mem (snd (storage_step d crc op a)) (snd (spec_step d op q))"
    using step_refines [OF rep] by blast
  have same: ?thesis if "snd (storage_step d crc op a) = a" "snd (spec_step d op q) = q"
    using that rec by simp
  show ?thesis
  proof (cases op)
    case (Push r)
    show ?thesis
    proof (cases "r = [] \<or> fa_size d < length r \<or> fa_size d < used q + slot_size d r")
      case True
      then show ?thesis using push_total [OF inv, of r] fa u Push
        by (intro same) (auto simp: storage_step_def spec_step_def storage_push_def storage_push_check_def)
    next
      case False
      then obtain a' where p: "storage_push d crc a (Some r) = (RET_SUCCESS, a', Some r)"
        using push_total [OF inv, of r] u by auto
      then show ?thesis using push_recoverable [OF rec b plain [OF Push] p] rep' False Push
        by (simp add: recoverable_def storage_step_def spec_step_def)
    qed
  next
    case (Peek n)
    then show ?thesis using peek_total [OF inv, of "replicate n 0" n]
      by (intro same) (auto simp: storage_step_def spec_step_def split: list.splits)
  next
    case Free
    show ?thesis
    proof (cases "queue q")
      case Nil
      then show ?thesis using free_empty [of a] inv e Free by (intro same) (simp_all add: storage_step_def spec_step_def)
    next
      case (Cons r rs)
      obtain a' where f: "storage_free d crc a = (RET_SUCCESS, a')" using free_total [of a r rs] inv Cons by auto
      then show ?thesis using free_recoverable [OF rec b Cons f] rep' Cons Free
        by (simp add: recoverable_def storage_step_def spec_step_def)
    qed
  qed (use same in \<open>simp_all add: storage_step_def spec_step_def\<close>)
qed

lemma run_recoverable:
  "recoverable d crc mem a q \<Longrightarrow> 2 \<le> write_block_size d \<Longrightarrow> (\<And>r. Push r \<in> set ops \<Longrightarrow> plain_record d r) \<Longrightarrow>
   recoverable d crc mem (snd (run_ops (storage_step d crc) ops a)) (snd (run_ops (spec_step d) ops q))"
proof (induction ops arbitrary: a q)
  case (Cons op ops)
  then show ?case
    using step_recoverable [of a q op] by (fastforce simp: Let_def split: prod.splits)
qed simp

lemma run_init:
  assumes "represents d crc mem a0 \<lparr>queue = [], used = 0\<rparr>" and b: "2 \<le> write_block_size d"
    and "\<And>r. Push r \<in> set ops \<Longrightarrow> plain_record d r"
    and a: "a = snd (run_ops (storage_step d crc) ops a0)"
    and room: "wr_idx a + header_size < fa_size d \<or> wr_idx a = fa_size d" and opened: "flash_area_open d = 0"
  shows "storage_init d crc (area_flash a) = (RET_SUCCESS, a)"
proof -
  let ?q = "snd (run_ops (spec_step d) ops \<lparr>queue = [], used = 0\<rparr>)"
  have "rd_idx a0 = 0" using assms(1) by (simp add: represents_def fifo_def)
  then have "recoverable d crc mem a0 \<lparr>queue = [], used = 0\<rparr>"
    using assms(1) by (simp add: recoverable_def freed_ok_def)
  then have rec: "recoverable d crc mem a ?q" using run_recoverable assms(2,3) a by blast
  then have "storage_init d crc (area_flash a) = (RET_SUCCESS,
      \<lparr>area_fa = True, area_flash = area_flash a, wr_idx = wr_idx a, rd_idx = rd_idx a\<rparr>)"
    using room opened by (intro init_total [of a "queue ?q"]) (auto simp: recoverable_def represents_def)
  moreover have "area_fa a" using rec by (simp add: recoverable_def represents_def fifo_def)
  ultimately show ?thesis by simp
qed

end

subsection \<open>The store on the NOR flash device\<close>

text \<open>A CRC-16 with the polynomial and bit order of the OS's \<^verbatim>\<open>crc16_ccitt\<close>.\<close>

definition sim_crc_bit :: "u16 \<Rightarrow> u16" where
  "sim_crc_bit c = (if bit c 0 then drop_bit 1 c XOR 0x8408 else drop_bit 1 c)"

definition sim_crc_byte :: "u8 \<Rightarrow> u16 \<Rightarrow> u16" where
  "sim_crc_byte b c = (sim_crc_bit ^^ 8) (c XOR ucast b)"

definition sim_crc :: "u16 \<Rightarrow> u8 list \<Rightarrow> u16" where
  "sim_crc acc xs = fold sim_crc_byte xs acc"

lemma reliable_platform_sim:
  assumes "0 < b" and "b dvd header_size" and "header_size \<le> n" and "n < 2 ^ 16"
  shows "reliable_platform (sim_flash n b) (sim_mem n) sim_crc"
proof -
  have r: "reliable_flash (sim_flash n b) (sim_mem n)" by (rule reliable_sim [OF assms(1)])
  have "storage_platform_axioms (sim_flash n b) sim_crc"
    by (rule storage_platform_axioms.intro) (use assms in \<open>auto simp: sim_crc_def\<close>)
  then show ?thesis
    using r reliable_flash.axioms(1) [OF r] by (intro reliable_platform.intro storage_platform.intro)
qed

interpretation pearl_storage: reliable_platform "sim_flash 4096 8" "sim_mem 4096" sim_crc
  by (rule reliable_platform_sim) simp_all

definition sim_area :: "nat \<Rightarrow> u8 list storage_area_s" where
  "sim_area n = \<lparr>area_fa = True, area_flash = replicate n erased_byte, wr_idx = 0, rd_idx = 0\<rparr>"

lemma sim_area_represents:
  "header_size \<le> n \<Longrightarrow>
   represents (sim_flash n b) sim_crc (sim_mem n) (sim_area n) \<lparr>queue = [], used = 0\<rparr>"
  by (simp add: represents_def fifo_def sim_area_def erased_from_def list_all_iff)

subsection \<open>Properties\<close>

text \<open>
  C1. The store implements its contract: on a flash whose driver does not fail, any sequence of
  pushes, peeks, frees and queries returns exactly what the bounded queue returns (codes and
  bytes, every error included), and the flash holds the queue afterwards.
\<close>

theorem storage_refines_queue:
  assumes "reliable_platform d mem crc" and "represents d crc mem a q"
  shows "fst (run_ops (storage_step d crc) ops a) = fst (run_ops (spec_step d) ops q) \<and>
    represents d crc mem (snd (run_ops (storage_step d crc) ops a)) (snd (run_ops (spec_step d) ops q))"
  by (rule reliable_platform.run_refines [OF assms])

theorem storage_refines_queue_witness:
  "fst (run_ops (storage_step (sim_flash 64 8) sim_crc)
     [Push [1, 2, 3], Push [4], Peek 2, Peek 10, Free, Is_Last, Free, Free] (sim_area 64)) =
   [Code RET_SUCCESS, Code RET_SUCCESS, Bytes RET_ERROR_NO_MEM [], Bytes RET_SUCCESS [1, 2, 3],
    Code RET_SUCCESS, Flag True, Code RET_SUCCESS, Code RET_ERROR_NOT_FOUND]"
  by (subst storage_refines_queue [THEN conjunct1, OF reliable_platform_sim sim_area_represents])
    (simp_all add: spec_step_def slot_size_def record_padding_def)

text \<open>
  A push that reports success has appended the record, whatever earlier driver calls
  returned: the queue in flash is the old one followed by the record.
\<close>

theorem storage_push_appends:
  assumes "storage_platform d mem crc" and "fifo d crc mem a rs"
    and "storage_push d crc a (Some r) = (RET_SUCCESS, a', r')"
  shows "fifo d crc mem a' (rs @ [r])"
  by (rule storage_platform.push_fifo [OF assms])

text \<open>
  C2. After a reset \<^verbatim>\<open>storage_init\<close> finds the area again, indices and records: for every history of
  operations from an erased partition on, on a flash that does not fail and that is written in blocks of
  at least two bytes, when no block of a pushed record starts like a valid header or like
  unused flash, and the space left is nothing or more than a header.
\<close>

theorem storage_init_recovers:
  assumes "reliable_platform d mem crc" and "2 \<le> write_block_size d"
    and "represents d crc mem a0 \<lparr>queue = [], used = 0\<rparr>"
    and "\<And>r. Push r \<in> set ops \<Longrightarrow> plain_record d r"
    and "a = snd (run_ops (storage_step d crc) ops a0)"
    and "wr_idx a + header_size < fa_size d \<or> wr_idx a = fa_size d"
    and "flash_area_open d = 0"
  shows "storage_init d crc (area_flash a) = (RET_SUCCESS, a)"
  by (rule reliable_platform.run_init [OF assms(1,3,2,4,5,6,7)])

lemma platform64: "reliable_platform (sim_flash 64 8) (sim_mem 64) sim_crc"
  by (rule reliable_platform_sim) simp_all

lemmas sim_storage_platform = reliable_platform.axioms(1) [OF platform64]

text \<open>Areas reached by pushing records into an empty one.\<close>

definition sim_store :: "u8 list list \<Rightarrow> u8 list storage_area_s" where
  "sim_store rs = snd (run_ops (storage_step (sim_flash 64 8) sim_crc) (map Push rs) (sim_area 64))"

lemma spec_pushes:
  assumes "list_all (\<lambda>r. r \<noteq> []) rs" and "u + sum_list (map (slot_size d) rs) \<le> fa_size d"
  shows "snd (run_ops (spec_step d) (map Push rs) \<lparr>queue = qs, used = u\<rparr>) =
    \<lparr>queue = qs @ rs, used = u + sum_list (map (slot_size d) rs)\<rparr>"
  using assms
proof (induction rs arbitrary: qs u)
  case (Cons r rs)
  have "length r \<le> slot_size d r" by (simp add: slot_size_def)
  then have "spec_step d (Push r) \<lparr>queue = qs, used = u\<rparr> =
      (Code RET_SUCCESS, \<lparr>queue = qs @ [r], used = u + slot_size d r\<rparr>)"
    using Cons.prems by (simp add: spec_step_def)
  then show ?case
    using Cons.IH [of "u + slot_size d r" "qs @ [r]"] Cons.prems
    by (auto simp: Let_def add.assoc split: prod.splits)
qed simp

lemma stored_end: "stored d crc m a rs b \<Longrightarrow> b = a + sum_list (map (slot_size d) rs)"
  by (induction rs arbitrary: a) (auto simp: add.assoc [symmetric])

lemma sim_store_fifo:
  assumes "list_all (\<lambda>r. r \<noteq> []) rs" and "sum_list (map (slot_size (sim_flash 64 8)) rs) \<le> 64"
  shows "fifo (sim_flash 64 8) sim_crc (sim_mem 64) (sim_store rs) rs"
    and "wr_idx (sim_store rs) = sum_list (map (slot_size (sim_flash 64 8)) rs)"
    and "rd_idx (sim_store rs) = 0"
proof -
  have "represents (sim_flash 64 8) sim_crc (sim_mem 64) (sim_store rs)
      (snd (run_ops (spec_step (sim_flash 64 8)) (map Push rs) \<lparr>queue = [], used = 0\<rparr>))"
    unfolding sim_store_def
    using reliable_platform.run_refines [OF platform64 sim_area_represents] by simp
  then have r: "represents (sim_flash 64 8) sim_crc (sim_mem 64) (sim_store rs)
      \<lparr>queue = rs, used = sum_list (map (slot_size (sim_flash 64 8)) rs)\<rparr>"
    using spec_pushes [of rs 0 "sim_flash 64 8" "[]"] assms by simp
  then show f: "fifo (sim_flash 64 8) sim_crc (sim_mem 64) (sim_store rs) rs"
    and wr: "wr_idx (sim_store rs) = sum_list (map (slot_size (sim_flash 64 8)) rs)"
    by (simp_all add: represents_def)
  have "wr_idx (sim_store rs) = rd_idx (sim_store rs) + sum_list (map (slot_size (sim_flash 64 8)) rs)"
    using f stored_end unfolding fifo_def by blast
  then show "rd_idx (sim_store rs) = 0" using wr by simp
qed

lemmas slot_eval = slot_size_def record_padding_def

theorem storage_push_appends_witness:
  "\<exists>a'. storage_push (sim_flash 64 8) sim_crc (sim_store []) (Some [7, 8]) = (RET_SUCCESS, a', Some [7, 8]) \<and>
     fifo (sim_flash 64 8) sim_crc (sim_mem 64) a' ([] @ [[7, 8]])"
proof -
  note f = sim_store_fifo [of "[]", simplified]
  obtain a' where "storage_push (sim_flash 64 8) sim_crc (sim_store []) (Some [7, 8]) = (RET_SUCCESS, a', Some [7, 8])"
    using reliable_platform.push_total [OF platform64 f(1), of "[7, 8]"] f(2) by (auto simp: slot_eval)
  then show ?thesis
    using storage_push_appends [OF sim_storage_platform f(1)] by auto
qed

text \<open>Three records, the first of them freed again: the read index is behind the zeroed header and payload.\<close>

definition sim_used :: "u8 list storage_area_s" where
  "sim_used = snd (run_ops (storage_step (sim_flash 64 8) sim_crc) [Push [1, 2, 3], Push [4], Push [5], Peek 3, Free] (sim_area 64))"

lemma sim_used_idx: "rd_idx sim_used = 16" "wr_idx sim_used = 48"
proof -
  have r: "represents (sim_flash 64 8) sim_crc (sim_mem 64) sim_used \<lparr>queue = [[4], [5]], used = 48\<rparr>"
    using reliable_platform.run_refines [OF platform64 sim_area_represents,
        where ops = "[Push [1, 2, 3], Push [4], Push [5], Peek 3, Free]"]
    by (simp add: sim_used_def spec_step_def slot_eval)
  then show "wr_idx sim_used = 48" by (simp add: represents_def)
  have "stored (sim_flash 64 8) sim_crc (sim_mem 64 (area_flash sim_used)) (rd_idx sim_used) [[4], [5]] 48"
    using r by (auto simp: represents_def fifo_def)
  then show "rd_idx sim_used = 16" using stored_end by (fastforce simp: slot_eval)
qed

lemma plain_single_block:
  assumes "length (padded_record d r) = write_block_size d"
    and "magic = u16_of (padded_record d r ! 0) (padded_record d r ! 1)" "magic \<noteq> RECORD_UNUSED" "magic \<noteq> RECORD_VALID"
  shows "plain_record d r"
proof -
  have "k = 0" if "write_block_size d dvd k" "k < write_block_size d" for k
    using that nat_dvd_not_less [of k "write_block_size d"] by auto
  then show ?thesis using assms unfolding plain_record_def Let_def list_all_iff
    by (metis One_nat_def atLeastLessThan_iff set_upt)
qed

lemma sim_plain: "r = [1, 2, 3] \<or> r = [4] \<or> r = [5] \<Longrightarrow> plain_record (sim_flash 64 8) r"
proof -
  have "plain_record (sim_flash 64 8) [1, 2, 3]" "plain_record (sim_flash 64 8) [4]" "plain_record (sim_flash 64 8) [5]"
    by (rule plain_single_block [OF _ refl];
        simp add: padded_record_def record_padding_def u16_of_def RECORD_UNUSED_def RECORD_VALID_def)+
  then show "r = [1, 2, 3] \<or> r = [4] \<or> r = [5] \<Longrightarrow> plain_record (sim_flash 64 8) r" by auto
qed

theorem storage_init_recovers_witness:
  "rd_idx sim_used = 16 \<and> storage_init (sim_flash 64 8) sim_crc (area_flash sim_used) = (RET_SUCCESS, sim_used)"
proof
  show "storage_init (sim_flash 64 8) sim_crc (area_flash sim_used) = (RET_SUCCESS, sim_used)"
    by (rule storage_init_recovers [OF platform64 _ sim_area_represents _ sim_used_def])
      (auto simp: sim_used_idx intro: sim_plain)
qed (rule sim_used_idx)

text \<open>
  A limit of the recovery. When the payload of the first freed record starts with two bytes
  \<open>0xFF\<close> (and the flash write block is 8 bytes), \<^verbatim>\<open>init_area\<close> takes that payload for unused
  flash: after a reset the store reports no data although records were pending.
\<close>

theorem storage_init_loses_pending:
  assumes "reliable_platform d mem crc" and "fifo d crc mem a (r # rs)" and "rs \<noteq> []" and "rd_idx a = 0"
    and "write_block_size d = header_size" and "2 \<le> length r" "r ! 0 = 0xFF" "r ! 1 = 0xFF"
    and "flash_area_open d = 0"
  shows "\<exists>a' a''. storage_free d crc a = (RET_SUCCESS, a') \<and> fifo d crc mem a' rs \<and>
    storage_init d crc (area_flash a') = (RET_SUCCESS, a'') \<and> \<not> storage_has_data a''"
  by (rule reliable_platform.free_reboot [OF assms])

theorem storage_init_loses_pending_witness:
  "\<exists>a' a''. storage_free (sim_flash 64 8) sim_crc (sim_store [[0xFF, 0xFF], [1]]) = (RET_SUCCESS, a') \<and>
    fifo (sim_flash 64 8) sim_crc (sim_mem 64) a' [[1]] \<and>
    storage_init (sim_flash 64 8) sim_crc (area_flash a') = (RET_SUCCESS, a'') \<and> \<not> storage_has_data a''"
  by (rule storage_init_loses_pending [OF platform64 sim_store_fifo(1)]) (simp_all add: sim_store_fifo slot_eval)

text \<open>
  A second limit. When exactly one header's worth of flash is left behind the last record,
  the store is stuck after a reset: once that record is freed the store still
  claims to hold data, a peek reports \<^verbatim>\<open>RET_ERROR_NO_MEM\<close>, a free \<^verbatim>\<open>RET_ERROR_NOT_FOUND\<close>, and
  neither changes anything.
\<close>

theorem storage_stuck_after_reset:
  assumes "reliable_platform d mem crc" and "fifo d crc mem a [r]" and "rd_idx a = 0"
    and "wr_idx a + header_size = fa_size d" and "flash_area_open d = 0"
    and "length buffer = sz" "sz < 0xFFFF"
  shows "\<exists>a' a''. storage_init d crc (area_flash a) = (RET_SUCCESS, a') \<and>
    storage_free d crc a' = (RET_SUCCESS, a'') \<and> storage_has_data a'' \<and>
    storage_peek d crc a'' buffer sz = ((RET_ERROR_NO_MEM, a''), buffer, sz) \<and>
    storage_free d crc a'' = (RET_ERROR_NOT_FOUND, a'')"
  by (rule reliable_platform.tail_stuck [OF assms])

theorem storage_stuck_after_reset_witness:
  "\<exists>a' a''. storage_init (sim_flash 64 8) sim_crc (area_flash (sim_store [replicate 48 1])) = (RET_SUCCESS, a') \<and>
    storage_free (sim_flash 64 8) sim_crc a' = (RET_SUCCESS, a'') \<and> storage_has_data a'' \<and>
    storage_peek (sim_flash 64 8) sim_crc a'' [0] 1 = ((RET_ERROR_NO_MEM, a''), [0], 1) \<and>
    storage_free (sim_flash 64 8) sim_crc a'' = (RET_ERROR_NOT_FOUND, a'')"
  by (rule storage_stuck_after_reset [OF platform64 sim_store_fifo(1)]) (simp_all add: sim_store_fifo slot_eval)

end
