(* ===== verification/Can_Messaging.thy ===== *)
theory Can_Messaging
  imports Kernel "HOL-Library.Sublist"
begin

unbundle bit_operations_syntax

text \<open>
  \<^verbatim>\<open>lib/can_messaging\<close>: sending and receiving messages over CAN-FD and over ISO-TP.
  A caller's message is copied into a block of a memory pool, its descriptor is queued, and
  a thread takes the descriptors in order and hands the frames to the driver. The thread is a
  state machine whose states are the places where it waits.

  Parameters: the kernel objects (\<^theory_text>\<open>Kernel\<close>), what the CAN driver and the ISO-TP stack
  return, and the length code of a frame. A failed hard assertion restarts the controller;
  functions that can hit one return an \<open>option\<close>.
\<close>

subsection \<open>Messages and addresses\<close>

abbreviation CAN_FRAME_MAX_SIZE :: nat where
  "CAN_FRAME_MAX_SIZE \<equiv> 64"

definition CAN_ADDR_IS_ISOTP :: u32 where "CAN_ADDR_IS_ISOTP = 0x100"
definition CAN_ADDR_IS_DEST :: u32 where "CAN_ADDR_IS_DEST = 0x200"

definition CAN_ISOTP_STDID_DESTINATION :: "u32 \<Rightarrow> u32 \<Rightarrow> u32" where
  "CAN_ISOTP_STDID_DESTINATION src dest = (CAN_ADDR_IS_ISOTP OR CAN_ADDR_IS_DEST) OR push_bit 4 src OR dest"

definition CAN_ISOTP_STDID_SOURCE :: "u32 \<Rightarrow> u32 \<Rightarrow> u32" where
  "CAN_ISOTP_STDID_SOURCE src dest = CAN_ADDR_IS_ISOTP OR push_bit 4 src OR dest"

text \<open>\<open>bytes_ptr\<close> is the address of the block that holds the payload.\<close>

record can_message_t =
  destination :: u32
  bytes_ptr :: nat
  msg_size :: nat

record can_frame =
  frame_id :: u32
  frame_dlc :: nat
  frame_data :: "u8 list"

subsection \<open>CAN-FD transmission\<close>

record ('s, 'q, 'b) can_os =
  os_sem :: "'s sem_api"
  os_msgq :: "('q, can_message_t) msgq_api"
  os_pool :: "'b pool_api"
  can_bytes_to_dlc :: "nat \<Rightarrow> nat"

datatype tx_thread = At_Sem | At_Queue | Sending can_message_t

text \<open>
  \<open>tx_mem\<close> are the pool's blocks; \<open>tx_log\<close> what was handed to the driver, with the driver's
  answer. \<open>reset_pending\<close> is the submitted \<^verbatim>\<open>can_reset_work\<close> and \<open>reset_ready\<close> whether that
  work item has been initialised.
\<close>

record ('s, 'q, 'b) can_tx =
  tx_sem :: 's
  can_tx_msg_queue :: 'q
  can_tx_memory_slab :: 'b
  tx_mem :: "nat \<Rightarrow> u8 list"
  tx_is_init :: bool
  tx_thread :: tx_thread
  tx_log :: "(can_frame \<times> int) list"
  reset_ready :: bool
  reset_pending :: bool

definition can_messaging_reset_async :: "('s, 'q, 'b) can_tx \<Rightarrow> int \<Rightarrow> ret_code_t \<times> ('s, 'q, 'b) can_tx" where
  "can_messaging_reset_async s submit =
     (if reset_ready s \<and> submit < 0 then (RET_ERROR_INTERNAL, s)
      else if \<not> reset_ready s then (RET_ERROR_INVALID_STATE, s)
      else (RET_SUCCESS, s\<lparr>reset_pending := True\<rparr>))"

text \<open>
  \<open>start\<close> is the result of \<^verbatim>\<open>can_start\<close> and \<open>EALREADY\<close> the errno value; \<open>None\<close> is a failed hard assertion.
\<close>

definition can_messaging_resume ::
  "int \<Rightarrow> int \<Rightarrow> int \<Rightarrow> bool \<Rightarrow> ('s, 'q, 'b) can_tx \<Rightarrow> (ret_code_t \<times> ('s, 'q, 'b) can_tx) option" where
  "can_messaging_resume EALREADY submit start can_dev s =
     (let (err_code, s1) = can_messaging_reset_async s submit
      in if err_code \<noteq> RET_SUCCESS then None
         else if can_dev \<and> start \<noteq> - EALREADY \<and> start \<noteq> 0 then None
         else Some (RET_SUCCESS, s1))"

definition can_messaging_suspend :: "int \<Rightarrow> int \<Rightarrow> bool \<Rightarrow> int option" where
  "can_messaging_suspend EALREADY stop can_dev =
     (if can_dev then (if stop \<noteq> - EALREADY \<and> stop \<noteq> 0 then None else Some stop)
      else Some (rc RET_SUCCESS))"

text \<open>
  \<^verbatim>\<open>send\<close>: the frame, zero-filled to the maximum size. A payload that is too long fails a
  hard assertion; the descriptors queued by \<open>can_messaging_async_tx\<close> are never too long.
\<close>

definition make_frame :: "('s, 'q, 'b) can_os \<Rightarrow> u32 \<Rightarrow> u8 list \<Rightarrow> can_frame option" where
  "make_frame os dest data =
     (if length data \<le> CAN_FRAME_MAX_SIZE
      then Some \<lparr>frame_id = dest, frame_dlc = can_bytes_to_dlc os (length data),
                 frame_data = data @ replicate (CAN_FRAME_MAX_SIZE - length data) 0\<rparr>
      else None)"

text \<open>\<open>off\<close> is whether the controller is bus-off or stopped.\<close>

definition can_messaging_async_tx ::
  "('s, 'q, 'b) can_os \<Rightarrow> int \<Rightarrow> int \<Rightarrow> int \<Rightarrow> bool \<Rightarrow> u32 \<Rightarrow> u8 list \<Rightarrow> ('s, 'q, 'b) can_tx
   \<Rightarrow> (ret_code_t \<times> ('s, 'q, 'b) can_tx) option" where
  "can_messaging_async_tx os EALREADY submit start off dest data s =
     (if \<not> tx_is_init s then Some (RET_ERROR_INVALID_STATE, s)
      else if off
      then map_option (\<lambda>(_, s1). (RET_ERROR_INVALID_STATE, s1)) (can_messaging_resume EALREADY submit start True s)
      else if CAN_FRAME_MAX_SIZE < length data then Some (RET_ERROR_INVALID_PARAM, s)
      else
        case pool_alloc (os_pool os) CAN_FRAME_MAX_SIZE (can_tx_memory_slab s) of
          (None, p) \<Rightarrow> Some (RET_ERROR_NO_MEM, s\<lparr>can_tx_memory_slab := p\<rparr>)
        | (Some a, p) \<Rightarrow>
            let to_send = \<lparr>destination = dest, bytes_ptr = a, msg_size = length data\<rparr>;
                s1 = s\<lparr>can_tx_memory_slab := p, tx_mem := (tx_mem s)(a := data)\<rparr>;
                (queued, q) = k_msgq_put (os_msgq os) to_send (can_tx_msg_queue s)
            in if queued then Some (RET_SUCCESS, s1\<lparr>can_tx_msg_queue := q\<rparr>)
               else Some (RET_ERROR_BUSY, s1\<lparr>can_tx_msg_queue := q, can_tx_memory_slab := pool_free (os_pool os) a p\<rparr>))"

text \<open>\<open>in_isr\<close>, \<open>off\<close> and \<open>ret\<close>: the context, the bus state and the driver's answer.\<close>

definition can_messaging_blocking_tx ::
  "('s, 'q, 'b) can_os \<Rightarrow> u32 \<Rightarrow> bool \<Rightarrow> bool \<Rightarrow> int \<Rightarrow> u8 list \<Rightarrow> (int \<times> can_frame option) option" where
  "can_messaging_blocking_tx os jetson_addr in_isr off ret data =
     (if in_isr then Some (rc RET_ERROR_FORBIDDEN, None)
      else if off then Some (rc RET_ERROR_INVALID_STATE, None)
      else case make_frame os jetson_addr data of
             None \<Rightarrow> None
           | Some fr \<Rightarrow> Some (ret, Some fr))"

text \<open>The thread: taking the semaphore (or timing out), taking a message, sending it.\<close>

definition tx_step_sem :: "('s, 'q, 'b) can_os \<Rightarrow> ('s, 'q, 'b) can_tx \<Rightarrow> ('s, 'q, 'b) can_tx" where
  "tx_step_sem os s =
     (let (taken, m) = k_sem_take (os_sem os) (tx_sem s)
      in if taken then s\<lparr>tx_sem := m, tx_thread := At_Queue\<rparr>
         else s\<lparr>tx_sem := k_sem_give (os_sem os) m\<rparr>)"

text \<open>\<open>purged\<close>: the wait ends with an error because the queue was purged.\<close>

definition tx_step_queue :: "('s, 'q, 'b) can_os \<Rightarrow> bool \<Rightarrow> ('s, 'q, 'b) can_tx \<Rightarrow> ('s, 'q, 'b) can_tx" where
  "tx_step_queue os purged s =
     (if purged then s\<lparr>tx_sem := k_sem_give (os_sem os) (tx_sem s), tx_thread := At_Sem\<rparr>
      else case k_msgq_get (os_msgq os) (can_tx_msg_queue s) of
             (None, _) \<Rightarrow> s
           | (Some m, q) \<Rightarrow> s\<lparr>can_tx_msg_queue := q, tx_thread := Sending m\<rparr>)"

text \<open>
  \<open>ret\<close> is the answer of \<^verbatim>\<open>can_send\<close>; on \<open>- ENETUNREACH\<close> the bus is resumed.
\<close>

definition tx_step_send ::
  "('s, 'q, 'b) can_os \<Rightarrow> int \<Rightarrow> int \<Rightarrow> int \<Rightarrow> int \<Rightarrow> int \<Rightarrow> can_message_t \<Rightarrow> ('s, 'q, 'b) can_tx
   \<Rightarrow> ('s, 'q, 'b) can_tx option" where
  "tx_step_send os EALREADY ENETUNREACH submit start ret m s =
     (case make_frame os (destination m) (take (msg_size m) (tx_mem s (bytes_ptr m))) of
        None \<Rightarrow> None
      | Some fr \<Rightarrow>
          let s1 = s\<lparr>tx_log := tx_log s @ [(fr, ret)]\<rparr>;
              resumed = (if ret = - ENETUNREACH
                         then map_option snd (can_messaging_resume EALREADY submit start True s1) else Some s1)
          in map_option (\<lambda>s2.
               let s3 = s2\<lparr>can_tx_memory_slab := pool_free (os_pool os) (bytes_ptr m) (can_tx_memory_slab s2),
                           tx_thread := At_Sem\<rparr>
               in if ret \<noteq> 0 then s3\<lparr>tx_sem := k_sem_give (os_sem os) (tx_sem s3)\<rparr> else s3) resumed)"

definition tx_complete_cb :: "('s, 'q, 'b) can_os \<Rightarrow> ('s, 'q, 'b) can_tx \<Rightarrow> ('s, 'q, 'b) can_tx" where
  "tx_complete_cb os s = s\<lparr>tx_sem := k_sem_give (os_sem os) (tx_sem s)\<rparr>"

definition canbus_tx_init ::
  "('s, 'q, 'b) can_os \<Rightarrow> bool \<Rightarrow> ('s, 'q, 'b) can_tx \<Rightarrow> ret_code_t \<times> ('s, 'q, 'b) can_tx" where
  "canbus_tx_init os can_dev s =
     (if \<not> can_dev then (RET_ERROR_NOT_FOUND, s)
      else (RET_SUCCESS, s\<lparr>can_tx_msg_queue := k_msgq_purge (os_msgq os) (can_tx_msg_queue s),
              tx_sem := k_sem_give (os_sem os) (tx_sem s),
              can_tx_memory_slab := pool_init (os_pool os) (can_tx_memory_slab s),
              tx_is_init := True\<rparr>))"

subsection \<open>ISO-TP transmission\<close>

text \<open>
  The buffers come from a heap and are freed by the completion callback. \<open>iso_sent\<close> lists the
  accepted transmissions: the two addresses and the payload.
\<close>

record ('s, 'q, 'b) isotp_tx =
  iso_sem :: 's
  isotp_tx_msg_queue :: 'q
  iso_heap :: 'b
  iso_mem :: "nat \<Rightarrow> u8 list"
  iso_is_init :: bool
  iso_thread :: tx_thread
  iso_sent :: "(u32 \<times> u32 \<times> u8 list) list"

definition can_isotp_messaging_async_tx ::
  "('s, 'q, 'b) can_os \<Rightarrow> u32 \<Rightarrow> u8 list \<Rightarrow> ('s, 'q, 'b) isotp_tx \<Rightarrow> ret_code_t \<times> ('s, 'q, 'b) isotp_tx" where
  "can_isotp_messaging_async_tx os dest data s =
     (if \<not> iso_is_init s then (RET_ERROR_INVALID_STATE, s)
      else
        case pool_alloc (os_pool os) (length data) (iso_heap s) of
          (None, p) \<Rightarrow> (RET_ERROR_NO_MEM, s\<lparr>iso_heap := p\<rparr>)
        | (Some a, p) \<Rightarrow>
            let to_send = \<lparr>destination = dest, bytes_ptr = a, msg_size = length data\<rparr>;
                s1 = s\<lparr>iso_heap := p, iso_mem := (iso_mem s)(a := data)\<rparr>;
                (queued, q) = k_msgq_put (os_msgq os) to_send (isotp_tx_msg_queue s)
            in if queued then (RET_SUCCESS, s1\<lparr>isotp_tx_msg_queue := q\<rparr>)
               else (RET_ERROR_BUSY, s1\<lparr>isotp_tx_msg_queue := q, iso_heap := pool_free (os_pool os) a p\<rparr>))"

text \<open>The head of the loop sets the flag again, then waits for the semaphore.\<close>

definition iso_step_sem :: "('s, 'q, 'b) can_os \<Rightarrow> ('s, 'q, 'b) isotp_tx \<Rightarrow> ('s, 'q, 'b) isotp_tx" where
  "iso_step_sem os s =
     (let (taken, m) = k_sem_take (os_sem os) (iso_sem s);
          s1 = s\<lparr>iso_is_init := True\<rparr>
      in if taken then s1\<lparr>iso_sem := m, iso_thread := At_Queue\<rparr>
         else s1\<lparr>iso_sem := k_sem_give (os_sem os) m\<rparr>)"

definition iso_step_queue :: "('s, 'q, 'b) can_os \<Rightarrow> bool \<Rightarrow> ('s, 'q, 'b) isotp_tx \<Rightarrow> ('s, 'q, 'b) isotp_tx" where
  "iso_step_queue os purged s =
     (let back = (\<lambda>s. s\<lparr>iso_sem := k_sem_give (os_sem os) (iso_sem s), iso_thread := At_Sem\<rparr>)
      in if purged then back s
         else case k_msgq_get (os_msgq os) (isotp_tx_msg_queue s) of
                (None, _) \<Rightarrow> s
              | (Some m, q) \<Rightarrow>
                  let s1 = s\<lparr>isotp_tx_msg_queue := q\<rparr>
                  in if \<not> iso_is_init s then back s1 else s1\<lparr>iso_thread := Sending m\<rparr>)"

definition iso_step_send ::
  "('s, 'q, 'b) can_os \<Rightarrow> bool \<Rightarrow> can_message_t \<Rightarrow> ('s, 'q, 'b) isotp_tx \<Rightarrow> ('s, 'q, 'b) isotp_tx" where
  "iso_step_send os send_ok m s =
     (let s1 = s\<lparr>iso_thread := At_Sem\<rparr>
      in if send_ok
         then s1\<lparr>iso_sent := iso_sent s @ [(destination m, destination m AND NOT CAN_ADDR_IS_DEST,
                                      take (msg_size m) (iso_mem s (bytes_ptr m)))]\<rparr>
         else s1\<lparr>iso_heap := pool_free (os_pool os) (bytes_ptr m) (iso_heap s),
                 iso_sem := k_sem_give (os_sem os) (iso_sem s)\<rparr>)"

definition iso_complete_cb :: "('s, 'q, 'b) can_os \<Rightarrow> nat \<Rightarrow> ('s, 'q, 'b) isotp_tx \<Rightarrow> ('s, 'q, 'b) isotp_tx" where
  "iso_complete_cb os buffer_to_free s =
     s\<lparr>iso_heap := pool_free (os_pool os) buffer_to_free (iso_heap s),
       iso_sem := k_sem_give (os_sem os) (iso_sem s)\<rparr>"

definition canbus_isotp_tx_init ::
  "('s, 'q, 'b) can_os \<Rightarrow> bool \<Rightarrow> ('s, 'q, 'b) isotp_tx \<Rightarrow> ret_code_t \<times> ('s, 'q, 'b) isotp_tx" where
  "canbus_isotp_tx_init os can_dev s =
     (let s1 = s\<lparr>iso_is_init := False\<rparr>
      in if \<not> can_dev then (RET_ERROR_NOT_FOUND, s1)
         else (RET_SUCCESS, s1\<lparr>iso_sem := k_sem_give (os_sem os) (iso_sem s),
                 isotp_tx_msg_queue := k_msgq_purge (os_msgq os) (isotp_tx_msg_queue s),
                 iso_heap := pool_init (os_pool os) (iso_heap s)\<rparr>))"

subsection \<open>Resetting and monitoring the bus\<close>

text \<open>The two transmitters together, with the work item of \<^verbatim>\<open>can_messaging.c\<close> in the first.\<close>

record ('s, 'q, 'b) can =
  fd :: "('s, 'q, 'b) can_tx"
  iso :: "('s, 'q, 'b) isotp_tx"

definition can_reset_work_handler ::
  "('s, 'q, 'b) can_os \<Rightarrow> bool \<Rightarrow> ('s, 'q, 'b) can \<Rightarrow> ('s, 'q, 'b) can option" where
  "can_reset_work_handler os can_dev s =
     (let (e1, f) = canbus_tx_init os can_dev (fd s)
      in if e1 \<noteq> RET_SUCCESS then None
         else let (e2, i) = canbus_isotp_tx_init os can_dev (iso s)
              in if e2 \<noteq> RET_SUCCESS then None
                 else Some (s\<lparr>fd := f\<lparr>reset_pending := False\<rparr>, iso := i\<rparr>))"

text \<open>The controller's states, in the driver's order.\<close>

datatype can_state = CAN_STATE_ERROR_ACTIVE | CAN_STATE_ERROR_WARNING | CAN_STATE_ERROR_PASSIVE
  | CAN_STATE_BUS_OFF | CAN_STATE_STOPPED

record can_monitor =
  off_recover_count :: u32
  monitor_delay :: nat

abbreviation CAN_MONITOR_INITIAL_INTERVAL_MS :: nat where
  "CAN_MONITOR_INITIAL_INTERVAL_MS \<equiv> 10000"

abbreviation CAN_MONITOR_ERROR_STATE_INTERVAL_MS :: nat where
  "CAN_MONITOR_ERROR_STATE_INTERVAL_MS \<equiv> 2000"

text \<open>
  One turn of \<^verbatim>\<open>can_monitor_thread\<close> after its sleep: \<open>start\<close> is the result of
  \<^verbatim>\<open>can_start\<close>; \<open>None\<close> is a hard assertion, which restarts the controller.
\<close>

definition can_monitor_thread ::
  "('s, 'q, 'b) can_os \<Rightarrow> int \<Rightarrow> can_state \<Rightarrow> int \<Rightarrow> can_monitor \<times> ('s, 'q, 'b) can
   \<Rightarrow> (can_monitor \<times> ('s, 'q, 'b) can) option" where
  "can_monitor_thread os EALREADY current_state start ms =
     (let (m, s) = ms
      in case current_state of
           CAN_STATE_BUS_OFF \<Rightarrow>
             if start \<noteq> - EALREADY \<and> start \<noteq> 0 then None
             else
               let n = off_recover_count m + 1
               in if 10 < n then None
                  else Some (\<lparr>off_recover_count = n, monitor_delay = CAN_MONITOR_ERROR_STATE_INTERVAL_MS\<rparr>,
                             s\<lparr>fd := snd (canbus_tx_init os True (fd s)),
                               iso := snd (canbus_isotp_tx_init os True (iso s))\<rparr>)
         | CAN_STATE_ERROR_PASSIVE \<Rightarrow> Some (m\<lparr>monitor_delay := CAN_MONITOR_ERROR_STATE_INTERVAL_MS\<rparr>, s)
         | _ \<Rightarrow> Some (\<lparr>off_recover_count = 0, monitor_delay = CAN_MONITOR_INITIAL_INTERVAL_MS\<rparr>, s))"

text \<open>
  \<^verbatim>\<open>canbus_rx_init\<close> and \<^verbatim>\<open>canbus_isotp_rx_init\<close> have the same body: the handler
  installed and the code. The handler stays installed even if the device is missing.
\<close>

definition canbus_rx_init :: "bool \<Rightarrow> bool \<Rightarrow> 'h option \<Rightarrow> 'h option \<Rightarrow> ret_code_t \<times> 'h option" where
  "canbus_rx_init can_dev is_ready in_handler handler =
     (case in_handler of
        None \<Rightarrow> (RET_ERROR_INVALID_PARAM, handler)
      | Some h \<Rightarrow>
          if \<not> can_dev then (RET_ERROR_NOT_FOUND, Some h)
          else if \<not> is_ready then (RET_ERROR_BUSY, Some h)
          else (RET_SUCCESS, Some h))"

definition canbus_isotp_rx_init :: "bool \<Rightarrow> bool \<Rightarrow> 'h option \<Rightarrow> 'h option \<Rightarrow> ret_code_t \<times> 'h option" where
  "canbus_isotp_rx_init can_dev is_ready in_handler handler =
     (case in_handler of
        None \<Rightarrow> (RET_ERROR_INVALID_PARAM, handler)
      | Some h \<Rightarrow>
          if \<not> can_dev then (RET_ERROR_NOT_FOUND, Some h)
          else if \<not> is_ready then (RET_ERROR_BUSY, Some h)
          else (RET_SUCCESS, Some h))"

text \<open>
  \<^verbatim>\<open>can_messaging_init\<close> on a board with a CAN device. The codes are combined with a
  bitwise or, so they are integers here; \<open>set_mode\<close> and \<open>start\<close> are the driver's answers.
\<close>

definition can_messaging_init ::
  "('s, 'q, 'b) can_os \<Rightarrow> bool \<Rightarrow> bool \<Rightarrow> int \<Rightarrow> int \<Rightarrow> 'h option
   \<Rightarrow> 'h option \<times> 'h option \<times> ('s, 'q, 'b) can \<Rightarrow> int \<times> 'h option \<times> 'h option \<times> ('s, 'q, 'b) can" where
  "can_messaging_init os can_dev is_ready set_mode start in_handler st =
     (let (h1, h2, s) = st
      in if \<not> can_dev then (rc RET_ERROR_NOT_INITIALIZED, h1, h2, s)
         else if set_mode \<noteq> 0 then (set_mode, h1, h2, s)
         else
           let (e1, h1') = canbus_rx_init can_dev is_ready in_handler h1;
               (e2, h2') = canbus_isotp_rx_init can_dev is_ready in_handler h2;
               (e3, f) = canbus_tx_init os can_dev (fd s);
               (e4, i) = canbus_isotp_tx_init os can_dev (iso s);
               err = rc e1 OR rc e2 OR rc e3 OR rc e4
           in (if err = 0 then start else rc RET_ERROR_INTERNAL, h1', h2',
               s\<lparr>fd := f\<lparr>reset_ready := True\<rparr>, iso := i\<rparr>))"

subsection \<open>Reception\<close>

text \<open>
  One turn of the CAN-FD receive thread: the frames available in the two queues (Jetson first)
  become messages for the handler. The message is the identifier and the bytes of the frame.
\<close>

definition rx_message :: "(nat \<Rightarrow> nat) \<Rightarrow> can_frame \<Rightarrow> u32 \<times> u8 list" where
  "rx_message can_dlc_to_bytes fr = (frame_id fr, take (can_dlc_to_bytes (frame_dlc fr)) (frame_data fr))"

definition rx_thread ::
  "(nat \<Rightarrow> nat) \<Rightarrow> bool \<Rightarrow> can_frame list \<Rightarrow> can_frame list \<Rightarrow> (u32 \<times> u8 list) list \<times> can_frame list \<times> can_frame list" where
  "rx_thread can_dlc_to_bytes handler main_queue mcu_queue =
     (let deliver = (\<lambda>fr. if handler then [rx_message can_dlc_to_bytes fr] else []);
          (out1, q1) = (case main_queue of [] \<Rightarrow> ([], []) | fr # q \<Rightarrow> (deliver fr, q));
          (out2, q2) = (case mcu_queue of [] \<Rightarrow> ([], []) | fr # q \<Rightarrow> (deliver fr, q))
      in (out1 @ out2, q1, q2))"

text \<open>
  The receiving loop of ISO-TP: each turn gets what the stack returns, the remaining length and the
  block's bytes; a negative length is an error. The list is what the stack returns until the
  loop ends; a list that ends too early means the loop still waits (\<open>None\<close>). The result is the last
  remaining length and the bytes copied, \<open>sz\<close> being the size of the buffer.
\<close>

fun isotp_recv_loop :: "nat \<Rightarrow> (int \<times> u8 list) list \<Rightarrow> u8 list \<Rightarrow> (int \<times> u8 list) option" where
  "isotp_recv_loop sz [] buf = None"
| "isotp_recv_loop sz ((rem_len, blk) # rest) buf =
     (if rem_len < 0 then Some (rem_len, buf)
      else
        let buf' = (if length buf + length blk \<le> sz then buf @ blk else buf)
        in if rem_len > 0 then isotp_recv_loop sz rest buf' else Some (rem_len, buf'))"

definition isotp_rx_dispatch :: "nat \<Rightarrow> u32 \<Rightarrow> (int \<times> u8 list) list \<Rightarrow> (u32 \<times> u8 list) list" where
  "isotp_rx_dispatch sz rx_addr blocks =
     (case isotp_recv_loop sz blocks [] of
        None \<Rightarrow> []
      | Some (rem_len, buf) \<Rightarrow> if rem_len = 0 then [(rx_addr, buf)] else [])"

text \<open>The addresses \<^verbatim>\<open>bind_to_remotes\<close> listens on: one pair per application.\<close>

definition bind_to_remotes :: "u32 \<Rightarrow> u32 \<Rightarrow> nat \<Rightarrow> (u32 \<times> u32) list" where
  "bind_to_remotes remote_id local_id app_count =
     map (\<lambda>app_id. (CAN_ISOTP_STDID_DESTINATION (remote_id + of_nat app_id) local_id,
                    CAN_ISOTP_STDID_SOURCE (remote_id + of_nat app_id) local_id)) [0..<Suc app_count]"

subsection \<open>Transmission in every interleaving\<close>

text \<open>
  The callers, the thread, the driver's completion callback and resets, in any order. The
  second component is the list of messages accepted with \<^verbatim>\<open>RET_SUCCESS\<close> (and not dropped
  by a reset). A reset while the thread is sending is left out here and treated below.
\<close>

definition thread_idle :: "tx_thread \<Rightarrow> bool" where
  "thread_idle t \<longleftrightarrow> t = At_Sem \<or> t = At_Queue"

inductive can_tx_step ::
  "('s, 'q, 'b) can_os \<Rightarrow> ('s, 'q, 'b) can_tx \<times> (u32 \<times> u8 list) list \<Rightarrow> ('s, 'q, 'b) can_tx \<times> (u32 \<times> u8 list) list \<Rightarrow> bool"
  for os where
  submit: "can_messaging_async_tx os ea sub st off dest data s = Some (r, s') \<Longrightarrow>
    can_tx_step os (s, acc) (s', if r = RET_SUCCESS then acc @ [(dest, data)] else acc)"
| sem: "tx_thread s = At_Sem \<Longrightarrow> can_tx_step os (s, acc) (tx_step_sem os s, acc)"
| queue: "tx_thread s = At_Queue \<Longrightarrow> can_tx_step os (s, acc) (tx_step_queue os purged s, acc)"
| send: "tx_thread s = Sending m \<Longrightarrow> tx_step_send os ea en sub st ret m s = Some s' \<Longrightarrow>
    can_tx_step os (s, acc) (s', acc)"
| complete: "can_tx_step os (s, acc) (tx_complete_cb os s, acc)"
| reset: "thread_idle (tx_thread s) \<Longrightarrow> canbus_tx_init os True s = (r, s') \<Longrightarrow>
    can_tx_step os (s, acc) (s', take (length (tx_log s)) acc)"

definition outstanding :: "('q \<Rightarrow> can_message_t list) \<Rightarrow> ('s, 'q, 'b) can_tx \<Rightarrow> can_message_t list" where
  "outstanding contents s =
     (case tx_thread s of Sending m \<Rightarrow> [m] | _ \<Rightarrow> []) @ contents (can_tx_msg_queue s)"

definition msg_payload :: "(nat \<Rightarrow> u8 list) \<Rightarrow> can_message_t \<Rightarrow> u32 \<times> u8 list" where
  "msg_payload m msg = (destination msg, take (msg_size msg) (m (bytes_ptr msg)))"

text \<open>
  \<open>tx_inv\<close>: the frames handed to the driver are the first accepted messages, the outstanding
  descriptors hold the others in order, and each owns its own block of the pool.
\<close>

definition tx_inv ::
  "('s, 'q, 'b) can_os \<Rightarrow> ('q \<Rightarrow> can_message_t list) \<Rightarrow> ('b \<Rightarrow> nat set)
   \<Rightarrow> ('s, 'q, 'b) can_tx \<times> (u32 \<times> u8 list) list \<Rightarrow> bool" where
  "tx_inv os contents live sa \<longleftrightarrow> (let (s, acc) = sa in
     live (can_tx_memory_slab s) = set (map bytes_ptr (outstanding contents s)) \<and>
     distinct (map bytes_ptr (outstanding contents s)) \<and>
     length (tx_log s) \<le> length acc \<and>
     map (Some \<circ> fst) (tx_log s) = map (\<lambda>(d, x). make_frame os d x) (take (length (tx_log s)) acc) \<and>
     map (msg_payload (tx_mem s)) (outstanding contents s) = drop (length (tx_log s)) acc)"

locale can_platform = message_queue "os_msgq os" contents cap + memory_pool "os_pool os" live
  for os :: "('s, 'q, 'b) can_os" and contents :: "'q \<Rightarrow> can_message_t list" and cap :: nat
    and live :: "'b \<Rightarrow> nat set"
begin

lemma payload_fresh:
  "a \<notin> set (map bytes_ptr ms) \<Longrightarrow> map (msg_payload (mm(a := data))) ms = map (msg_payload mm) ms"
  by (induction ms) (auto simp: msg_payload_def)

lemma reset_async_frame:
  "can_messaging_reset_async s submit = (r, s') \<Longrightarrow> s' = s \<or> s' = s\<lparr>reset_pending := True\<rparr>"
  by (auto simp: can_messaging_reset_async_def split: if_splits)

lemma resume_frame:
  "can_messaging_resume ea sub st dev s = Some (r, s') \<Longrightarrow> s' = s \<or> s' = s\<lparr>reset_pending := True\<rparr>"
  using reset_async_frame [of s sub]
  by (auto simp: can_messaging_resume_def split: if_splits prod.splits)

lemma tx_inv_frame:
  assumes "tx_inv os contents live (s, acc)" and "live (can_tx_memory_slab s') = live (can_tx_memory_slab s)"
    and "outstanding contents s' = outstanding contents s" and "tx_mem s' = tx_mem s" and "tx_log s' = tx_log s"
  shows "tx_inv os contents live (s', acc)"
  using assms by (simp add: tx_inv_def)

lemma async_tx_refused:
  assumes "\<not> tx_is_init s \<or> off \<or> CAN_FRAME_MAX_SIZE < length data"
    and "can_messaging_async_tx os ea sub st off dest data s = Some (r, s')"
  shows "(s' = s \<or> s' = s\<lparr>reset_pending := True\<rparr>) \<and> r \<noteq> RET_SUCCESS"
proof (cases "tx_is_init s \<and> off")
  case True
  then obtain r0 where "can_messaging_resume ea sub st True s = Some (r0, s')" and "r = RET_ERROR_INVALID_STATE"
    using assms(2) by (auto simp: can_messaging_async_tx_def)
  then show ?thesis using resume_frame [of ea sub st True s r0 s'] by simp
next
  case False
  then show ?thesis using assms by (auto simp: can_messaging_async_tx_def split: if_splits)
qed

lemma submit_inv:
  assumes inv: "tx_inv os contents live (s, acc)"
    and tx: "can_messaging_async_tx os ea sub st off dest data s = Some (r, s')"
  shows "tx_inv os contents live (s', if r = RET_SUCCESS then acc @ [(dest, data)] else acc)"
proof (cases "\<not> tx_is_init s \<or> off \<or> CAN_FRAME_MAX_SIZE < length data")
  case True
  then have "s' = s \<or> s' = s\<lparr>reset_pending := True\<rparr>" and "r \<noteq> RET_SUCCESS"
    using async_tx_refused [OF True tx] by simp_all
  then show ?thesis using tx_inv_frame [OF inv, of s'] by (auto simp: outstanding_def)
next
  case go: False
  obtain blk p where al: "pool_alloc (os_pool os) CAN_FRAME_MAX_SIZE (can_tx_memory_slab s) = (blk, p)"
    by (cases "pool_alloc (os_pool os) CAN_FRAME_MAX_SIZE (can_tx_memory_slab s)")
  show ?thesis
  proof (cases blk)
    case None
    then have "s' = s\<lparr>can_tx_memory_slab := p\<rparr>" and "r = RET_ERROR_NO_MEM"
      using tx go al by (simp_all add: can_messaging_async_tx_def)
    then show ?thesis
      using tx_inv_frame [OF inv, of s'] alloc_none [of CAN_FRAME_MAX_SIZE "can_tx_memory_slab s" p] al None
      by (simp add: outstanding_def)
  next
    case (Some a)
    note some = al [unfolded Some] go
    let ?m = "\<lparr>destination = dest, bytes_ptr = a, msg_size = length data\<rparr>"
    have fresh: "a \<notin> live (can_tx_memory_slab s)" and lp: "live p = insert a (live (can_tx_memory_slab s))"
      using alloc_some [OF some(1)] by auto
    then have fr: "a \<notin> set (map bytes_ptr (outstanding contents s))" using inv by (simp add: tx_inv_def)
    show ?thesis
    proof (cases rule: put_cases [of ?m "can_tx_msg_queue s"])
      case (queued q')
      then have s': "s' = s\<lparr>can_tx_memory_slab := p, tx_mem := (tx_mem s)(a := data), can_tx_msg_queue := q'\<rparr>"
        and r: "r = RET_SUCCESS"
        using tx some by (simp_all add: can_messaging_async_tx_def)
      have "outstanding contents s' = outstanding contents s @ [?m]"
        using queued(2) by (simp add: s' outstanding_def)
      then show ?thesis
        using inv lp fr r payload_fresh [OF fr, of "tx_mem s" data]
        by (auto simp: tx_inv_def s' msg_payload_def)
    next
      case full
      then have s': "s' = s\<lparr>can_tx_memory_slab := pool_free (os_pool os) a p, tx_mem := (tx_mem s)(a := data),
          can_tx_msg_queue := can_tx_msg_queue s\<rparr>" and r: "r = RET_ERROR_BUSY"
        using tx some by (auto simp: can_messaging_async_tx_def)
      have "live (pool_free (os_pool os) a p) = live (can_tx_memory_slab s)"
        using free_live [of a p] lp fresh by auto
      moreover have "outstanding contents s' = outstanding contents s" by (simp add: s' outstanding_def)
      ultimately show ?thesis
        using inv r payload_fresh [OF fr, of "tx_mem s" data] by (auto simp: tx_inv_def s')
    qed
  qed
qed

lemma sem_inv:
  assumes inv: "tx_inv os contents live (s, acc)" and th: "tx_thread s = At_Sem"
  shows "tx_inv os contents live (tx_step_sem os s, acc)"
  by (rule tx_inv_frame [OF inv])
    (simp_all add: tx_step_sem_def Let_def outstanding_def th split: prod.split)

lemma complete_inv:
  assumes inv: "tx_inv os contents live (s, acc)"
  shows "tx_inv os contents live (tx_complete_cb os s, acc)"
  by (rule tx_inv_frame [OF inv]) (simp_all add: tx_complete_cb_def outstanding_def)

lemma queue_inv:
  assumes inv: "tx_inv os contents live (s, acc)" and th: "tx_thread s = At_Queue"
  shows "tx_inv os contents live (tx_step_queue os purged s, acc)"
proof (cases "k_msgq_get (os_msgq os) (can_tx_msg_queue s)")
  case (Pair m q)
  then show ?thesis
    using th get_head [of "can_tx_msg_queue s" _ q]
    by (cases m) (auto intro!: tx_inv_frame [OF inv] simp: tx_step_queue_def outstanding_def)
qed

lemma send_inv:
  assumes inv: "tx_inv os contents live (s, acc)" and th: "tx_thread s = Sending m"
    and st: "tx_step_send os ea en sub st ret m s = Some s'"
  shows "tx_inv os contents live (s', acc)"
proof -
  let ?pl = "take (msg_size m) (tx_mem s (bytes_ptr m))"
  obtain fr where fr: "make_frame os (destination m) ?pl = Some fr"
    using st by (auto simp: tx_step_send_def split: option.splits)
  have out: "outstanding contents s = m # contents (can_tx_msg_queue s)" using th by (simp add: outstanding_def)
  let ?s1 = "s\<lparr>tx_log := tx_log s @ [(fr, ret)]\<rparr>"
  obtain s2 where s2: "s2 = ?s1 \<or> s2 = ?s1\<lparr>reset_pending := True\<rparr>"
    and s': "s' = (let s3 = s2\<lparr>can_tx_memory_slab := pool_free (os_pool os) (bytes_ptr m) (can_tx_memory_slab s2),
                           tx_thread := At_Sem\<rparr>
               in if ret \<noteq> 0 then s3\<lparr>tx_sem := k_sem_give (os_sem os) (tx_sem s3)\<rparr> else s3)"
    using st fr resume_frame [of ea sub st True ?s1]
    by (fastforce simp: tx_step_send_def Let_def split: if_splits)
  have f: "live (can_tx_memory_slab s') = live (pool_free (os_pool os) (bytes_ptr m) (can_tx_memory_slab s))"
    "outstanding contents s' = contents (can_tx_msg_queue s)" "tx_mem s' = tx_mem s"
    "tx_log s' = tx_log s @ [(fr, ret)]"
    using s2 by (auto simp: s' Let_def outstanding_def)
  have "live (pool_free (os_pool os) (bytes_ptr m) (can_tx_memory_slab s)) = live (can_tx_memory_slab s) - {bytes_ptr m}"
    using inv out by (intro free_live) (simp add: tx_inv_def)
  moreover have dr: "drop (length (tx_log s)) acc = msg_payload (tx_mem s) m # map (msg_payload (tx_mem s)) (contents (can_tx_msg_queue s))"
    using inv out by (simp add: tx_inv_def)
  then have "length (tx_log s) < length acc" by (metis drop_eq_Nil list.distinct(1) not_less)
  moreover from this have "take (Suc (length (tx_log s))) acc = take (length (tx_log s)) acc @ [msg_payload (tx_mem s) m]"
    using dr by (metis Cons_nth_drop_Suc list.inject take_Suc_conv_app_nth)
  moreover have "drop (Suc (length (tx_log s))) acc = map (msg_payload (tx_mem s)) (contents (can_tx_msg_queue s))"
    using dr by (metis drop_Suc list.sel(3) tl_drop)
  ultimately show ?thesis
    using inv out fr by (auto simp: tx_inv_def f msg_payload_def)
qed

lemma reset_inv:
  assumes inv: "tx_inv os contents live (s, acc)" and th: "thread_idle (tx_thread s)"
    and r: "canbus_tx_init os True s = (r, s')"
  shows "tx_inv os contents live (s', take (length (tx_log s)) acc)"
proof -
  have "outstanding contents s' = []" "live (can_tx_memory_slab s') = {}" "tx_log s' = tx_log s"
    using r th purge init_live by (auto simp: canbus_tx_init_def outstanding_def thread_idle_def)
  then show ?thesis using inv by (auto simp: tx_inv_def min_def)
qed

lemma can_step_inv:
  assumes "can_tx_step os sa sa'" and "tx_inv os contents live sa"
  shows "tx_inv os contents live sa'"
  using assms(1)
proof (cases rule: can_tx_step.cases)
  case (submit ea sub st off dest data s r s' acc)
  then show ?thesis using assms(2) submit_inv by blast
next
  case (sem s acc)
  then show ?thesis using assms(2) sem_inv by blast
next
  case (queue s acc purged)
  then show ?thesis using assms(2) queue_inv by blast
next
  case (send s m ea en sub st ret s' acc)
  then show ?thesis using assms(2) send_inv by blast
next
  case (complete s acc)
  then show ?thesis using assms(2) complete_inv by blast
next
  case (reset s r s' acc)
  then show ?thesis using assms(2) reset_inv by blast
qed

lemma can_reach_inv: "(can_tx_step os)\<^sup>*\<^sup>* sa sa' \<Longrightarrow> tx_inv os contents live sa \<Longrightarrow> tx_inv os contents live sa'"
  by (induction rule: rtranclp_induct) (auto intro: can_step_inv)

end

subsection \<open>An instance\<close>

definition sim_can_os :: "(bool, can_message_t list, nat list) can_os" where
  "sim_can_os = \<lparr>os_sem = sim_sem, os_msgq = sim_msgq 4, os_pool = sim_pool 4, can_bytes_to_dlc = (\<lambda>n. n)\<rparr>"

lemma can_platform_sim: "can_platform sim_can_os (\<lambda>q. q) 4 set"
  by (intro can_platform.intro) (simp_all add: sim_can_os_def message_queue_sim memory_pool_sim)

interpretation sim_can: can_platform sim_can_os "\<lambda>q. q" 4 set
  by (rule can_platform_sim)

definition sim_tx :: "(bool, can_message_t list, nat list) can_tx" where
  "sim_tx = \<lparr>tx_sem = True, can_tx_msg_queue = [], can_tx_memory_slab = [], tx_mem = (\<lambda>_. []), tx_is_init = True,
     tx_thread = At_Sem, tx_log = [], reset_ready = True, reset_pending = False\<rparr>"

definition sim_iso :: "(bool, can_message_t list, nat list) isotp_tx" where
  "sim_iso = \<lparr>iso_sem = True, isotp_tx_msg_queue = [], iso_heap = [], iso_mem = (\<lambda>_. []), iso_is_init = True,
     iso_thread = At_Sem, iso_sent = []\<rparr>"

subsection \<open>Properties\<close>



text \<open>A message is taken by the thread, then the queues are reset and another message is sent.\<close>

definition reset_while_sending :: "(can_frame \<times> int) list option" where
  "reset_while_sending =
     (case can_messaging_async_tx sim_can_os 120 0 0 False 7 [1, 2] sim_tx of None \<Rightarrow> None
      | Some (_, s1) \<Rightarrow>
        (let s2 = tx_step_queue sim_can_os False (tx_step_sem sim_can_os s1);
             s3 = snd (canbus_tx_init sim_can_os True s2)
         in case can_messaging_async_tx sim_can_os 120 0 0 False 9 [3, 4] s3 of None \<Rightarrow> None
            | Some (_, s4) \<Rightarrow>
              (case tx_thread s4 of
                 Sending m \<Rightarrow> map_option tx_log (tx_step_send sim_can_os 120 118 0 0 0 m s4)
               | _ \<Rightarrow> None)))"

text \<open>
  A reset while the thread is between taking a message and sending it breaks this: the pool is
  made free under the thread's feet, the next message gets the same block, and the thread then
  sends the new payload to the old destination.
\<close>

theorem can_tx_reset_while_sending:
  "\<exists>log. reset_while_sending = Some log \<and>
     map (\<lambda>(fr, _). (frame_id fr, take 2 (frame_data fr))) log = [(7, [3, 4])]"
  by (simp add: reset_while_sending_def can_messaging_async_tx_def tx_step_sem_def tx_step_queue_def canbus_tx_init_def
      tx_step_send_def make_frame_def sim_tx_def sim_can_os_def sim_sem_def sim_pool_def sim_msgq_def upt_rec)

lemma nibble_bit: "(x :: u32) < 16 \<Longrightarrow> 4 \<le> n \<Longrightarrow> \<not> bit x n"
proof -
  assume "x < 16" and n: "4 \<le> n"
  then have "take_bit 4 x = x" using less_mask_eq [of x 4] by (simp add: take_bit_eq_mask)
  then show "\<not> bit x n" using n by (metis bit_take_bit_iff not_le)
qed

lemma addr_flags: "CAN_ADDR_IS_ISOTP = 2 ^ 8" "CAN_ADDR_IS_DEST = 2 ^ 9"
  by (simp_all add: CAN_ADDR_IS_ISOTP_def CAN_ADDR_IS_DEST_def)

lemma destination_bit:
  "bit (CAN_ISOTP_STDID_DESTINATION src dst) n \<longleftrightarrow>
   n < 32 \<and> (n = 8 \<or> n = 9 \<or> 4 \<le> n \<and> bit src (n - 4) \<or> bit dst n)"
  by (auto simp: CAN_ISOTP_STDID_DESTINATION_def addr_flags bit_simps simp del: power_numeral dest: bit_imp_le_length)

lemma source_bit:
  "bit (CAN_ISOTP_STDID_SOURCE src dst) n \<longleftrightarrow> n < 32 \<and> (n = 8 \<or> 4 \<le> n \<and> bit src (n - 4) \<or> bit dst n)"
  by (auto simp: CAN_ISOTP_STDID_SOURCE_def addr_flags bit_simps simp del: power_numeral dest: bit_imp_le_length)

lemma destination_inj:
  assumes "src < 16" "dst < 16" "src' < 16" "dst' < 16"
    and eq: "CAN_ISOTP_STDID_DESTINATION src dst = CAN_ISOTP_STDID_DESTINATION src' dst'"
  shows "src = src' \<and> dst = dst'"
proof
  have bits: "bit (CAN_ISOTP_STDID_DESTINATION src dst) n = bit (CAN_ISOTP_STDID_DESTINATION src' dst') n" for n
    by (simp add: eq)
  show "src = src'"
  proof (rule bit_word_eqI)
    fix n assume "n < LENGTH(32)"
    show "bit src n \<longleftrightarrow> bit src' n"
    proof (cases "n < 4")
      case True
      then show ?thesis
        using bits [of "n + 4"] nibble_bit [OF assms(2), of "n + 4"] nibble_bit [OF assms(4), of "n + 4"]
        by (simp add: destination_bit)
    qed (use nibble_bit assms in auto)
  qed
  show "dst = dst'"
  proof (rule bit_word_eqI)
    fix n assume "n < LENGTH(32)"
    show "bit dst n \<longleftrightarrow> bit dst' n"
    proof (cases "n < 4")
      case True
      then show ?thesis using bits [of n] by (simp add: destination_bit)
    qed (use nibble_bit assms in auto)
  qed
qed

text \<open>
  ISO-TP addressing: for four-bit identifiers, clearing the destination flag of a destination
  address gives exactly the matching source address, so the addresses the sender derives are the
  ones the receiver binds; and different pairs of identifiers have different addresses.
\<close>

theorem isotp_addresses:
  assumes "src < 16" and "dst < 16" and "src' < 16" and "dst' < 16"
  shows "CAN_ISOTP_STDID_DESTINATION src dst AND NOT CAN_ADDR_IS_DEST = CAN_ISOTP_STDID_SOURCE src dst \<and>
    (CAN_ISOTP_STDID_DESTINATION src dst = CAN_ISOTP_STDID_DESTINATION src' dst' \<longleftrightarrow> src = src' \<and> dst = dst')"
proof
  show "CAN_ISOTP_STDID_DESTINATION src dst AND NOT CAN_ADDR_IS_DEST = CAN_ISOTP_STDID_SOURCE src dst"
  proof (rule bit_word_eqI)
    fix n assume "n < LENGTH(32)"
    then show "bit (CAN_ISOTP_STDID_DESTINATION src dst AND NOT CAN_ADDR_IS_DEST) n =
        bit (CAN_ISOTP_STDID_SOURCE src dst) n"
      using nibble_bit [OF assms(1), of "n - 4"] nibble_bit [OF assms(2), of n]
      by (auto simp: bit_and_iff bit_not_iff destination_bit source_bit addr_flags bit_exp_iff
          simp del: power_numeral)
  qed
  show "CAN_ISOTP_STDID_DESTINATION src dst = CAN_ISOTP_STDID_DESTINATION src' dst' \<longleftrightarrow> src = src' \<and> dst = dst'"
    using destination_inj [OF assms] by auto
qed

theorem isotp_addresses_witness:
  "CAN_ISOTP_STDID_DESTINATION 8 1 AND NOT CAN_ADDR_IS_DEST = CAN_ISOTP_STDID_SOURCE 8 1 \<and>
   (CAN_ISOTP_STDID_DESTINATION 8 1 = CAN_ISOTP_STDID_DESTINATION 9 1 \<longleftrightarrow> (8 :: u32) = 9 \<and> (1 :: u32) = 1)"
  by (rule isotp_addresses) simp_all

text \<open>\<open>ks\<close> are the blocks that found room: any block that does not fit is left out, and later ones may fit again.\<close>

lemma recv_loop_kept:
  assumes "list_all (\<lambda>(l, _). 0 < l) bs" and "length buf \<le> sz"
  shows "\<exists>ks. subseq ks (map snd bs) \<and> length (buf @ concat ks) \<le> sz \<and>
    (length buf + length (concat (map snd bs)) \<le> sz \<longrightarrow> ks = map snd bs) \<and>
    (\<forall>rest. isotp_recv_loop sz (bs @ rest) buf = isotp_recv_loop sz rest (buf @ concat ks))"
  using assms
proof (induction bs arbitrary: buf)
  case (Cons b bs)
  obtain l x where b: "b = (l, x)" "0 < l" using Cons.prems(1) by (cases b) auto
  show ?case
  proof (cases "length buf + length x \<le> sz")
    case True
    then obtain ks where "subseq ks (map snd bs)" "length ((buf @ x) @ concat ks) \<le> sz"
      "length (buf @ x) + length (concat (map snd bs)) \<le> sz \<longrightarrow> ks = map snd bs"
      "\<forall>rest. isotp_recv_loop sz (bs @ rest) (buf @ x) = isotp_recv_loop sz rest ((buf @ x) @ concat ks)"
      using Cons.IH [of "buf @ x"] Cons.prems(1) by auto
    then show ?thesis using True b by (intro exI [of _ "x # ks"]) auto
  next
    case False
    obtain ks where "subseq ks (map snd bs)" "length (buf @ concat ks) \<le> sz"
      "\<forall>rest. isotp_recv_loop sz (bs @ rest) buf = isotp_recv_loop sz rest (buf @ concat ks)"
      using Cons.IH [of buf] Cons.prems by auto
    then show ?thesis using False b by (intro exI [of _ ks]) auto
  qed
qed simp

lemma recv_loop_last:
  assumes bs: "list_all (\<lambda>(l, _). 0 < l) bs"
  shows "\<exists>ks. isotp_recv_loop sz (bs @ (0, lst) # rest) [] = Some (0, concat ks) \<and> subseq ks (map snd bs @ [lst]) \<and>
    length (concat ks) \<le> sz \<and> (ks = map snd bs @ [lst] \<longleftrightarrow> length (concat (map snd bs @ [lst])) \<le> sz)"
proof -
  from recv_loop_kept [OF bs, of "[]" sz] obtain ks where
      ks: "subseq ks (map snd bs)" "length (concat ks) \<le> sz" "length (concat (map snd bs)) \<le> sz \<longrightarrow> ks = map snd bs"
    and loop: "isotp_recv_loop sz (bs @ (0, lst) # rest) [] = isotp_recv_loop sz ((0, lst) # rest) (concat ks)"
    by auto
  show ?thesis
  proof (cases "length (concat ks) + length lst \<le> sz")
    case True
    moreover have "subseq (ks @ [lst]) (map snd bs @ [lst])" using ks(1) by (intro list_emb_append_mono) auto
    ultimately show ?thesis using ks loop by (intro exI [of _ "ks @ [lst]"]) auto
  next
    case False
    have "subseq ks (map snd bs @ [lst])" using ks(1) by (rule subseq_order.trans) auto
    moreover have "\<not> length (concat (map snd bs @ [lst])) \<le> sz" using ks(3) False by auto
    moreover from this have "ks \<noteq> map snd bs @ [lst]" using ks(2) by blast
    ultimately show ?thesis using ks(2) loop False by (intro exI [of _ ks]) simp
  qed
qed

lemma recv_loop_open:
  "list_all (\<lambda>(l, _). 0 < l) bs \<Longrightarrow> isotp_recv_loop sz bs buf = None"
  "list_all (\<lambda>(l, _). 0 < l) bs \<Longrightarrow> err < 0 \<Longrightarrow> \<exists>buf'. isotp_recv_loop sz (bs @ (err, x) # rest) buf = Some (err, buf')"
  by (induction bs arbitrary: buf) (auto simp: Let_def)



text \<open>A hole in the middle: the second block does not fit, the third does.\<close>

lemma isotp_oversize_hole: "isotp_rx_dispatch 3 5 [(4, [1, 2]), (2, [3, 4]), (0, [5])] = [(5, [1, 2, 5])]"
  by (simp add: isotp_rx_dispatch_def)

text \<open>Turns of the monitoring thread in which the controller accepts every restart.\<close>

fun monitor_turns ::
  "('s, 'q, 'b) can_os \<Rightarrow> int \<Rightarrow> can_state list \<Rightarrow> can_monitor \<times> ('s, 'q, 'b) can
   \<Rightarrow> (can_monitor \<times> ('s, 'q, 'b) can) option" where
  "monitor_turns os ea [] ms = Some ms"
| "monitor_turns os ea (x # xs) ms =
     (case can_monitor_thread os ea x 0 ms of None \<Rightarrow> None | Some ms' \<Rightarrow> monitor_turns os ea xs ms')"

lemma small_count: "n \<le> 10 \<Longrightarrow> (10 :: u32) < of_nat n + 1 \<longleftrightarrow> n = 10"
proof -
  assume "n \<le> 10"
  then have "n \<in> {0..10}" by simp
  then show ?thesis by (auto simp: atLeastAtMost_upt upt_rec)
qed

text \<open>
  The monitor restarts the controller after eleven bus-off turns that are not separated by
  a turn that finds the bus in order: from a count of \<open>n\<close>, \<open>k\<close> bus-off turns in a row end in a
  restart exactly when \<open>n + k\<close> exceeds ten; a turn that finds the bus active, in warning or stopped sets the count to zero.
\<close>

theorem can_monitor_restarts:
  assumes "n \<le> 10" and "off_recover_count m = of_nat n"
    and "x \<in> {CAN_STATE_ERROR_ACTIVE, CAN_STATE_ERROR_WARNING, CAN_STATE_STOPPED}"
  shows "(monitor_turns os ea (replicate k CAN_STATE_BUS_OFF) (m, s) = None \<longleftrightarrow> 10 < n + k) \<and>
    (\<exists>m'. monitor_turns os ea [x] (m, s) = Some (m', s) \<and> off_recover_count m' = 0)"
proof
  show "monitor_turns os ea (replicate k CAN_STATE_BUS_OFF) (m, s) = None \<longleftrightarrow> 10 < n + k"
    using assms(1,2)
  proof (induction k arbitrary: n m s)
    case (Suc k)
    show ?case
    proof (cases "n = 10")
      case True
      then show ?thesis using Suc.prems small_count [of n] by (simp add: can_monitor_thread_def)
    next
      case False
      have "of_nat n + 1 = (of_nat (Suc n) :: u32)" by simp
      then show ?thesis
        using Suc.IH [of "Suc n"] Suc.prems False small_count [of n] by (simp add: can_monitor_thread_def Let_def)
    qed
  qed simp
qed (use assms(3) in \<open>auto simp: can_monitor_thread_def\<close>)

theorem can_monitor_restarts_witness:
  "(monitor_turns sim_can_os 120 (replicate 11 CAN_STATE_BUS_OFF)
      (\<lparr>off_recover_count = of_nat 0, monitor_delay = 0\<rparr>, \<lparr>fd = sim_tx, iso = sim_iso\<rparr>) = None \<longleftrightarrow> 10 < 0 + (11 :: nat)) \<and>
    (\<exists>m'. monitor_turns sim_can_os 120 [CAN_STATE_STOPPED]
      (\<lparr>off_recover_count = of_nat 0, monitor_delay = 0\<rparr>, \<lparr>fd = sim_tx, iso = sim_iso\<rparr>) =
        Some (m', \<lparr>fd = sim_tx, iso = sim_iso\<rparr>) \<and> off_recover_count m' = 0)"
  by (rule can_monitor_restarts) simp_all

end
