(* ===== verification/Pubsub.thy ===== *)
theory Pubsub
  imports Storage Can_Messaging
begin

text \<open>
  \<^verbatim>\<open>main_board/src/pubsub\<close>: every message the main board sends goes through \<open>publish\<close>, which
  encodes it and sends it, stores it in flash for later, or drops it, depending on whether the
  remote has subscribed and on the priority of the message; \<open>pub_stored_thread\<close> sends what was
  stored.

  Parameters: the sizes and numbers generated from the message definitions and the encoder
  (\<open>pubsub_cfg\<close>), the transmit function \<open>tx\<close> (the two CAN transmitters, see \<open>can_tx_route\<close>), and
  the storage platform. Reading or writing outside an array is the outcome \<open>Memory_Fault\<close>.
\<close>

subsection \<open>Priorities\<close>

datatype sub_priority_e = SUB_PRIO_STORE | SUB_PRIO_TRY_SENDING | SUB_PRIO_DISCARD

text \<open>The payload tags of \<^verbatim>\<open>orb_mcu_main_McuToJetson\<close> that the table lists.\<close>

datatype jetson_tag =
    ack_tag | power_button_tag | battery_voltage_tag | battery_capacity_tag | gnss_tag | versions_tag
  | temperature_tag | fan_status_tag | imu_data_tag | voltage_tag | log_tag | motor_range_tag | fatal_error_tag
  | battery_is_charging_tag | battery_diag_common_tag | tof_1d_tag | gnss_partial_tag | front_als_tag
  | hardware_tag | hardware_diag_tag | battery_reset_reason_tag | battery_diag_safety_tag
  | battery_diag_permanent_fail_tag | battery_info_hw_fw_tag | battery_info_max_values_tag
  | battery_info_soc_and_statistics_tag | cone_present_tag | memfault_event_tag
  | battery_state_of_health_tag | shutdown_tag | hw_state_tag

definition sub_prio_table :: "bool \<Rightarrow> (jetson_tag \<times> sub_priority_e) list" where
  "sub_prio_table debug = [
     (ack_tag, SUB_PRIO_TRY_SENDING), (power_button_tag, SUB_PRIO_TRY_SENDING),
     (battery_voltage_tag, SUB_PRIO_DISCARD), (battery_capacity_tag, SUB_PRIO_DISCARD),
     (gnss_tag, SUB_PRIO_DISCARD), (versions_tag, SUB_PRIO_DISCARD), (temperature_tag, SUB_PRIO_DISCARD),
     (fan_status_tag, SUB_PRIO_DISCARD), (imu_data_tag, SUB_PRIO_DISCARD), (voltage_tag, SUB_PRIO_DISCARD),
     (log_tag, if debug then SUB_PRIO_TRY_SENDING else SUB_PRIO_STORE),
     (motor_range_tag, SUB_PRIO_DISCARD), (fatal_error_tag, SUB_PRIO_STORE),
     (battery_is_charging_tag, SUB_PRIO_DISCARD), (battery_diag_common_tag, SUB_PRIO_DISCARD),
     (tof_1d_tag, SUB_PRIO_DISCARD), (gnss_partial_tag, SUB_PRIO_DISCARD), (front_als_tag, SUB_PRIO_DISCARD),
     (hardware_tag, SUB_PRIO_DISCARD), (hardware_diag_tag, SUB_PRIO_DISCARD),
     (battery_reset_reason_tag, SUB_PRIO_STORE), (battery_diag_safety_tag, SUB_PRIO_DISCARD),
     (battery_diag_permanent_fail_tag, SUB_PRIO_DISCARD), (battery_info_hw_fw_tag, SUB_PRIO_TRY_SENDING),
     (battery_info_max_values_tag, SUB_PRIO_TRY_SENDING),
     (battery_info_soc_and_statistics_tag, SUB_PRIO_TRY_SENDING), (cone_present_tag, SUB_PRIO_DISCARD),
     (memfault_event_tag, SUB_PRIO_DISCARD), (battery_state_of_health_tag, SUB_PRIO_DISCARD),
     (shutdown_tag, SUB_PRIO_TRY_SENDING), (hw_state_tag, SUB_PRIO_DISCARD)]"

text \<open>
  \<open>tag_no\<close> gives the generated tag numbers. \<open>encode mcu which payload\<close> is the encoded message, or
  \<open>None\<close> when encoding fails; \<open>mcu\<close> selects the wrapper for the security board.
\<close>

record pubsub_cfg =
  tag_no :: "jetson_tag \<Rightarrow> nat"
  debug_build :: bool
  CAN_ADDRESS_MCU_TO_MCU_TX :: u32
  main_to_sec_payload_size :: nat
  mcu_to_jetson_payload_size :: nat
  entry_data_size :: nat
  encode :: "bool \<Rightarrow> nat \<Rightarrow> u8 list \<Rightarrow> u8 list option"

text \<open>
  The array \<^verbatim>\<open>sub_prios\<close>: designated initialisers at the tag numbers, zero
  (\<open>SUB_PRIO_STORE\<close>) in the gaps, as long as the largest tag requires; \<open>None\<close> outside.
\<close>

definition sub_prios_size :: "pubsub_cfg \<Rightarrow> nat" where
  "sub_prios_size c = Suc (fold max (map (tag_no c \<circ> fst) (sub_prio_table (debug_build c))) 0)"

definition sub_prios :: "pubsub_cfg \<Rightarrow> nat \<Rightarrow> sub_priority_e option" where
  "sub_prios c which =
     (if which < sub_prios_size c
      then Some (case find (\<lambda>(t, _). tag_no c t = which) (sub_prio_table (debug_build c)) of
                   None \<Rightarrow> SUB_PRIO_STORE | Some (_, p) \<Rightarrow> p)
      else None)"

subsection \<open>State\<close>

text \<open>\<open>active_remotes\<close> has a fixed length and zeros in the free places; \<open>chan\<close> is the state of the transmitters.\<close>

record ('f, 'c) pubsub =
  pubsub_storage_area :: "'f storage_area_s"
  active_remotes :: "u32 list"
  chan :: 'c

datatype pub_outcome = Returned ret_code_t | Restarted | Memory_Fault

type_synonym 'c tx_fun = "u32 \<Rightarrow> u8 list \<Rightarrow> 'c \<Rightarrow> (ret_code_t \<times> 'c) option"

text \<open>The choice between the two transmitters; \<open>None\<close> is a failed hard assertion.\<close>

definition can_tx_route ::
  "('s, 'q, 'b) can_os \<Rightarrow> int \<Rightarrow> int \<Rightarrow> int \<Rightarrow> bool \<Rightarrow> ('s, 'q, 'b) can tx_fun" where
  "can_tx_route os EALREADY submit start off dest data s =
     (if dest AND CAN_ADDR_IS_ISOTP \<noteq> 0
      then let (r, i) = can_isotp_messaging_async_tx os dest data (iso s) in Some (r, s\<lparr>iso := i\<rparr>)
      else map_option (\<lambda>(r, f). (r, s\<lparr>fd := f\<rparr>))
             (can_messaging_async_tx os EALREADY submit start off dest data (fd s)))"

definition u32_bytes :: "u32 \<Rightarrow> u8 list" where
  "u32_bytes w = [ucast w, ucast (drop_bit 8 w), ucast (drop_bit 16 w), ucast (drop_bit 24 w)]"

definition u32_of :: "u8 list \<Rightarrow> u32" where
  "u32_of bs = ucast (bs ! 0) OR push_bit 8 (ucast (bs ! 1)) OR push_bit 16 (ucast (bs ! 2)) OR push_bit 24 (ucast (bs ! 3))"

subsection \<open>Subscribers\<close>

definition publish_is_started :: "u32 \<Rightarrow> ('f, 'c) pubsub \<Rightarrow> bool" where
  "publish_is_started remote s = list_ex (\<lambda>a. a = remote) (active_remotes s)"

fun subscribe_slot :: "u32 \<Rightarrow> u32 list \<Rightarrow> u32 list option" where
  "subscribe_slot remote [] = None"
| "subscribe_slot remote (a # as) =
     (if a = 0 \<or> a = remote then Some (remote # as) else map_option ((#) a) (subscribe_slot remote as))"

definition subscribe_add :: "u32 \<Rightarrow> ('f, 'c) pubsub \<Rightarrow> ret_code_t \<times> ('f, 'c) pubsub" where
  "subscribe_add remote s =
     (case subscribe_slot remote (active_remotes s) of
        None \<Rightarrow> (RET_ERROR_NO_MEM, s)
      | Some as \<Rightarrow> (RET_SUCCESS, s\<lparr>active_remotes := as\<rparr>))"

definition pubsub_storage_init ::
  "'f flash_driver \<Rightarrow> (u16 \<Rightarrow> u8 list \<Rightarrow> u16) \<Rightarrow> 'f \<Rightarrow> ('f, 'c) pubsub \<Rightarrow> ret_code_t \<times> ('f, 'c) pubsub" where
  "pubsub_storage_init d crc f s =
     (let (r, a) = storage_init d crc f in (r, s\<lparr>pubsub_storage_area := a\<rparr>))"

subsection \<open>Publishing\<close>

definition publish_params_rejected :: "pubsub_cfg \<Rightarrow> nat \<Rightarrow> nat \<Rightarrow> u32 \<Rightarrow> bool" where
  "publish_params_rejected c sz which remote \<longleftrightarrow>
     (remote = CAN_ADDRESS_MCU_TO_MCU_TX c \<and> main_to_sec_payload_size c < sz) \<or>
     (remote \<noteq> CAN_ADDRESS_MCU_TO_MCU_TX c \<and> sub_prios_size c \<le> which \<and> mcu_to_jetson_payload_size c < sz)"

text \<open>The section under the semaphore, given whether the message is to be stored.\<close>

definition publish_encoded ::
  "'f flash_driver \<Rightarrow> (u16 \<Rightarrow> u8 list \<Rightarrow> u16) \<Rightarrow> 'c tx_fun \<Rightarrow> bool \<Rightarrow> bool \<Rightarrow> u32 \<Rightarrow> u8 list option
   \<Rightarrow> ('f, 'c) pubsub \<Rightarrow> pub_outcome \<times> ('f, 'c) pubsub" where
  "publish_encoded d crc tx store force_store remote enc s =
     (case enc of
        None \<Rightarrow> (Returned RET_ERROR_INTERNAL, s)
      | Some data \<Rightarrow>
          if store
          then let (err, a, _) = storage_push d crc (pubsub_storage_area s) (Some (u32_bytes remote @ data))
               in (Returned (if force_store then err else RET_ERROR_OFFLINE), s\<lparr>pubsub_storage_area := a\<rparr>)
          else case tx remote data (chan s) of
                 None \<Rightarrow> (Restarted, s)
               | Some (err, ch) \<Rightarrow> (Returned err, s\<lparr>chan := ch\<rparr>))"

text \<open>\<open>sem_ok\<close> is whether \<^verbatim>\<open>pub_buffers_sem\<close> could be taken in time.\<close>

definition publish ::
  "pubsub_cfg \<Rightarrow> 'f flash_driver \<Rightarrow> (u16 \<Rightarrow> u8 list \<Rightarrow> u16) \<Rightarrow> 'c tx_fun \<Rightarrow> bool \<Rightarrow> u8 list \<Rightarrow> nat \<Rightarrow> u32 \<Rightarrow> bool
   \<Rightarrow> ('f, 'c) pubsub \<Rightarrow> pub_outcome \<times> ('f, 'c) pubsub" where
  "publish c d crc tx sem_ok payload which remote force_store s =
     (let mcu = (remote = CAN_ADDRESS_MCU_TO_MCU_TX c);
          started = publish_is_started remote s
      in if publish_params_rejected c (length payload) which remote then (Returned RET_ERROR_INVALID_PARAM, s)
         else if \<not> force_store \<and> \<not> started \<and> \<not> mcu \<and> sub_prios c which = None then (Memory_Fault, s)
         else if \<not> force_store \<and> \<not> started \<and> \<not> mcu \<and> sub_prios c which = Some SUB_PRIO_DISCARD
         then (Returned RET_ERROR_OFFLINE, s)
         else if \<not> sem_ok then (Returned RET_ERROR_BUSY, s)
         else if (if mcu then main_to_sec_payload_size c else mcu_to_jetson_payload_size c) < length payload
         then (Memory_Fault, s)
         else
           let store = (\<not> mcu \<and> (force_store \<or> (\<not> started \<and> sub_prios c which = Some SUB_PRIO_STORE)))
           in publish_encoded d crc tx store force_store remote (encode c mcu which payload) s)"

definition publish_new where
  "publish_new c d crc tx sem_ok payload which remote s = publish c d crc tx sem_ok payload which remote False s"

definition publish_store where
  "publish_store c d crc tx sem_ok payload which remote s = publish c d crc tx sem_ok payload which remote True s"

subsection \<open>Sending what was stored\<close>

text \<open>
  The bytes a stored record of size \<open>n\<close> is sent with: \<open>n\<close> bytes from behind the destination in
  the thread's buffer \<open>rbuf\<close>, and from the memory \<open>beyond\<close> it when the buffer is too short.
\<close>

definition stored_bytes :: "nat \<Rightarrow> u8 list \<Rightarrow> u8 list \<Rightarrow> u8 list" where
  "stored_bytes n rbuf beyond = take n (drop 4 rbuf @ beyond)"

text \<open>
  One turn of the loop of \<^verbatim>\<open>pub_stored_thread\<close>; \<open>Inl\<close> when the thread returns. The
  message is sent with the size of the whole record, destination included.
\<close>

definition pub_stored_turn ::
  "'f flash_driver \<Rightarrow> (u16 \<Rightarrow> u8 list \<Rightarrow> u16) \<Rightarrow> 'c tx_fun \<Rightarrow> u8 list \<Rightarrow> u8 list \<times> ('f, 'c) pubsub
   \<Rightarrow> ('f, 'c) pubsub + u8 list \<times> ('f, 'c) pubsub" where
  "pub_stored_turn d crc tx beyond rs =
     (let (rbuf, s) = rs;
          ((err, a), rbuf', n) = storage_peek d crc (pubsub_storage_area s) rbuf (length rbuf);
          s1 = s\<lparr>pubsub_storage_area := a\<rparr>;
          free = (\<lambda>s. s\<lparr>pubsub_storage_area := snd (storage_free d crc (pubsub_storage_area s))\<rparr>)
      in case err of
           RET_SUCCESS \<Rightarrow>
             let dest = u32_of rbuf'
             in if \<not> publish_is_started dest s1 then Inl s1
                else (case tx dest (stored_bytes n rbuf' beyond) (chan s1) of
                        None \<Rightarrow> Inl s1
                      | Some (e, ch) \<Rightarrow>
                          let s2 = s1\<lparr>chan := ch\<rparr>
                          in if e = RET_SUCCESS \<or> e = RET_ERROR_INVALID_PARAM then Inr (rbuf', free s2)
                             else if e = RET_ERROR_INVALID_STATE \<or> e = RET_ERROR_BUSY \<or> e = RET_ERROR_NO_MEM then Inl s2
                             else Inr (rbuf', s2))
         | RET_ERROR_NO_MEM \<Rightarrow> Inr (rbuf', free s1)
         | _ \<Rightarrow> Inl s1)"

text \<open>At most \<open>k\<close> turns; \<open>None\<close> if the thread is still running after them.\<close>

fun pub_stored_thread ::
  "'f flash_driver \<Rightarrow> (u16 \<Rightarrow> u8 list \<Rightarrow> u16) \<Rightarrow> 'c tx_fun \<Rightarrow> u8 list \<Rightarrow> nat \<Rightarrow> u8 list \<times> ('f, 'c) pubsub
   \<Rightarrow> ('f, 'c) pubsub option" where
  "pub_stored_thread d crc tx beyond 0 rs = None"
| "pub_stored_thread d crc tx beyond (Suc k) rs =
     (case pub_stored_turn d crc tx beyond rs of
        Inl s \<Rightarrow> Some s
      | Inr rs' \<Rightarrow> pub_stored_thread d crc tx beyond k rs')"

text \<open>
  \<^verbatim>\<open>publish_flush\<close>: whether a new thread is created; \<open>joined\<close> tells that the previous one has ended.
\<close>

definition publish_flush :: "bool \<Rightarrow> bool \<Rightarrow> bool \<times> bool" where
  "publish_flush started_once joined =
     (if \<not> started_once \<or> joined then (True, True) else (False, started_once))"

subsection \<open>Encoding of destinations and priorities\<close>

lemma u32_of_bytes [simp]: "u32_of (u32_bytes w @ xs) = w"
proof (rule bit_word_eqI)
  fix n assume n: "n < LENGTH(32)"
  consider "n < 8" | "8 \<le> n" "n < 16" | "16 \<le> n" "n < 24" | "24 \<le> n" by linarith
  then show "bit (u32_of (u32_bytes w @ xs)) n = bit w n"
    by cases (use n in \<open>auto simp: u32_of_def u32_bytes_def bit_simps\<close>)
qed

lemma length_u32_bytes [simp]: "length (u32_bytes w) = 4"
  by (simp add: u32_bytes_def)

lemma u32_of_append: "4 \<le> length r \<Longrightarrow> u32_of (r @ xs) = u32_of r"
  by (auto simp: u32_of_def nth_append)

lemma find_tag:
  assumes "inj f" and "distinct (map fst xs)" and "(t, p) \<in> set xs"
  shows "find (\<lambda>(t', _). f t' = f t) xs = Some (t, p)"
  using assms(2,3)
proof (induction xs)
  case (Cons x xs)
  obtain t' p' where x: "x = (t', p')" by (cases x)
  show ?case
  proof (cases "t' = t")
    case True
    then have "p = p'" using Cons.prems by (auto simp: x image_iff)
    then show ?thesis using True by (simp add: x)
  next
    case False
    then show ?thesis using Cons inj_eq [OF assms(1)] by (simp add: x)
  qed
qed simp

lemma fold_max_ge: "x \<in> set xs \<or> x \<le> a \<Longrightarrow> x \<le> fold max xs a" for x a :: nat
proof (induction xs arbitrary: a)
  case (Cons y ys)
  then have "x \<in> set ys \<or> x \<le> max y a" by (metis le_max_iff_disj order_refl set_ConsD)
  then have "x \<le> fold max ys (max y a)" by (rule Cons.IH)
  then show ?case by (simp only: fold_simps)
qed simp

lemma sub_prio_tags_distinct: "distinct (map fst (sub_prio_table debug))"
proof -
  have "distinct (map fst (sub_prio_table True))" by code_simp
  moreover have "map fst (sub_prio_table debug) = map fst (sub_prio_table True)"
    by (simp only: sub_prio_table_def list.map fst_conv)
  ultimately show ?thesis by simp
qed

lemma sub_prios_listed:
  assumes "inj (tag_no c)" and "(t, p) \<in> set (sub_prio_table (debug_build c))"
  shows "sub_prios c (tag_no c t) = Some p"
proof -
  have "distinct (map fst (sub_prio_table (debug_build c)))" by (rule sub_prio_tags_distinct)
  then have "find (\<lambda>(t', _). tag_no c t' = tag_no c t) (sub_prio_table (debug_build c)) = Some (t, p)"
    by (rule find_tag [OF assms(1) _ assms(2)])
  moreover have "tag_no c t \<in> set (map (tag_no c \<circ> fst) (sub_prio_table (debug_build c)))"
    using assms(2) by force
  then have "tag_no c t < sub_prios_size c"
    using fold_max_ge by (auto simp: sub_prios_size_def less_Suc_eq_le)
  ultimately show ?thesis by (simp add: sub_prios_def)
qed

subsection \<open>Flushing the store\<close>

text \<open>
  \<open>tx_accepts tx log\<close>: the transmitter takes every message; \<open>log\<close> lists what it took. \<open>sent_as r dx\<close>:
  the record \<open>r\<close> went out as \<open>dx\<close>: to its destination, its message followed by four more bytes.
\<close>

definition tx_accepts :: "'c tx_fun \<Rightarrow> ('c \<Rightarrow> (u32 \<times> u8 list) list) \<Rightarrow> bool" where
  "tx_accepts tx log \<longleftrightarrow> (\<forall>d x ch. \<exists>ch'. tx d x ch = Some (RET_SUCCESS, ch') \<and> log ch' = log ch @ [(d, x)])"

definition sent_as :: "u8 list \<Rightarrow> u32 \<times> u8 list \<Rightarrow> bool" where
  "sent_as r dx \<longleftrightarrow> fst dx = u32_of r \<and> length (snd dx) = length r \<and> take (length r - 4) (snd dx) = drop 4 r"

lemma sent_as_bytes:
  assumes "4 \<le> length r" and "4 \<le> length beyond"
  shows "sent_as r (u32_of r, stored_bytes (length r) (r @ rest) beyond)"
proof -
  let ?y = "drop 4 (r @ rest) @ beyond"
  have "length r \<le> length ?y" using assms by simp
  then have "length (take (length r) ?y) = length r" unfolding length_take by linarith
  moreover have "take (length r - 4) (take (length r) ?y) = drop 4 r" using assms by simp
  ultimately show ?thesis by (simp only: sent_as_def stored_bytes_def fst_conv snd_conv)
qed

context reliable_platform
begin

lemma turn_sends:
  assumes inv: "fifo d crc mem (pubsub_storage_area s) (r # rs)"
    and len: "4 \<le> length r" "length r \<le> length rbuf" "4 \<le> length beyond"
    and started: "publish_is_started (u32_of r) s" and tx: "tx_accepts tx log"
  shows "\<exists>rbuf' s' dx. pub_stored_turn d crc tx beyond (rbuf, s) = Inr (rbuf', s') \<and>
    length rbuf' = length rbuf \<and> fifo d crc mem (pubsub_storage_area s') rs \<and>
    active_remotes s' = active_remotes s \<and> log (chan s') = log (chan s) @ [dx] \<and> sent_as r dx"
proof -
  let ?rec = "r @ drop (length r) rbuf"
  let ?x = "stored_bytes (length r) ?rec beyond"
  have peek: "storage_peek d crc (pubsub_storage_area s) rbuf (length rbuf) =
      ((RET_SUCCESS, pubsub_storage_area s), ?rec, length r)"
    using peek_total [OF inv, of rbuf "length rbuf"] len by simp
  obtain ch where ch: "tx (u32_of r) ?x (chan s) = Some (RET_SUCCESS, ch)" "log ch = log (chan s) @ [(u32_of r, ?x)]"
    using tx unfolding tx_accepts_def by blast
  obtain a' where free: "storage_free d crc (pubsub_storage_area s) = (RET_SUCCESS, a')"
    and inv': "fifo d crc mem a' rs"
    using free_total [OF inv] by auto
  let ?s' = "s\<lparr>chan := ch, pubsub_storage_area := a'\<rparr>"
  have "pub_stored_turn d crc tx beyond (rbuf, s) = Inr (?rec, ?s')"
    using peek ch(1) free started len u32_of_append [OF len(1), of "drop (length r) rbuf"]
    by (simp add: pub_stored_turn_def Let_def publish_is_started_def)
  then show ?thesis
    using inv' ch(2) len sent_as_bytes [OF len(1,3), of "drop (length r) rbuf"] by auto
qed

lemma thread_sends_all:
  assumes "fifo d crc mem (pubsub_storage_area s) rs" and "4 \<le> length beyond" and "tx_accepts tx log"
    and "list_all (\<lambda>r. 4 \<le> length r \<and> length r \<le> length rbuf \<and> u32_of r \<in> set (active_remotes s)) rs"
  shows "\<exists>s' xs. pub_stored_thread d crc tx beyond (Suc (length rs)) (rbuf, s) = Some s' \<and>
    fifo d crc mem (pubsub_storage_area s') [] \<and> log (chan s') = log (chan s) @ xs \<and> list_all2 sent_as rs xs"
  using assms
proof (induction rs arbitrary: rbuf s)
  case Nil
  have "pub_stored_turn d crc tx beyond (rbuf, s) = Inl s"
    using peek_total [OF Nil.prems(1), of rbuf "length rbuf"]
    by (simp add: pub_stored_turn_def)
  then show ?case using Nil.prems(1) by simp
next
  case (Cons r rs)
  have "publish_is_started (u32_of r) s" using Cons.prems(4) by (simp add: publish_is_started_def list_ex_iff)
  then obtain rbuf' s1 dx where t: "pub_stored_turn d crc tx beyond (rbuf, s) = Inr (rbuf', s1)"
    and s1: "length rbuf' = length rbuf" "fifo d crc mem (pubsub_storage_area s1) rs"
      "active_remotes s1 = active_remotes s" "log (chan s1) = log (chan s) @ [dx]" "sent_as r dx"
    using turn_sends [OF Cons.prems(1) _ _ Cons.prems(2) _ Cons.prems(3), of rbuf] Cons.prems(4) by auto
  obtain s' xs where "pub_stored_thread d crc tx beyond (Suc (length rs)) (rbuf', s1) = Some s'"
    "fifo d crc mem (pubsub_storage_area s') []" "log (chan s') = log (chan s1) @ xs" "list_all2 sent_as rs xs"
    using Cons.IH [OF s1(2) Cons.prems(2,3), of rbuf'] Cons.prems(4) s1 by auto
  then show ?case using t s1 by (intro exI [of _ s'] exI [of _ "dx # xs"]) simp
qed

lemma thread_stuck:
  assumes inv: "fifo d crc mem a [r]" and rd: "rd_idx a = 0" and wr: "wr_idx a + header_size = fa_size d"
    and opened: "flash_area_open d = 0" and buf: "length rbuf < 0xFFFF"
  shows "\<exists>a' a''. storage_init d crc (area_flash a) = (RET_SUCCESS, a') \<and> storage_free d crc a' = (RET_SUCCESS, a'') \<and>
    (\<forall>k rem ch. pub_stored_thread d crc tx beyond k
      (rbuf, \<lparr>pubsub_storage_area = a'', active_remotes = rem, chan = ch\<rparr>) = None)"
proof -
  obtain a' a'' where i: "storage_init d crc (area_flash a) = (RET_SUCCESS, a')"
    and f: "storage_free d crc a' = (RET_SUCCESS, a'')"
    and peek: "storage_peek d crc a'' rbuf (length rbuf) = ((RET_ERROR_NO_MEM, a''), rbuf, length rbuf)"
    and f2: "storage_free d crc a'' = (RET_ERROR_NOT_FOUND, a'')"
    using tail_stuck [OF inv rd wr opened refl buf] by auto
  have turn: "pub_stored_turn d crc tx beyond (rbuf, s) = Inr (rbuf, s)" if "pubsub_storage_area s = a''" for s
    using peek f2 that by (auto simp: pub_stored_turn_def Let_def)
  have "pub_stored_thread d crc tx beyond k (rbuf, s) = None" if "pubsub_storage_area s = a''" for k s
    by (induction k) (use turn [OF that] in simp_all)
  then show ?thesis using i f by fastforce
qed

end

subsection \<open>Properties\<close>

text \<open>
  C8. Flushing delivers everything: if the flash does not fail, the transmitter takes every message and
  every destination has subscribed, the thread returns after one turn per stored record and
  one more, having sent the records oldest first to their destinations, and the store is
  empty. Each message is sent with four bytes too many: the encoded message is followed by
  four bytes that are not part of it.
\<close>

theorem pub_stored_thread_flushes:
  assumes "reliable_platform d mem crc" and "fifo d crc mem (pubsub_storage_area s) rs"
    and "4 \<le> length beyond" and "tx_accepts tx log"
    and "list_all (\<lambda>r. 4 \<le> length r \<and> length r \<le> length rbuf \<and> u32_of r \<in> set (active_remotes s)) rs"
  shows "\<exists>s' xs. pub_stored_thread d crc tx beyond (Suc (length rs)) (rbuf, s) = Some s' \<and>
    fifo d crc mem (pubsub_storage_area s') [] \<and> log (chan s') = log (chan s) @ xs \<and> list_all2 sent_as rs xs"
  by (rule reliable_platform.thread_sends_all [OF assms])

definition log_tx :: "(u32 \<times> u8 list) list tx_fun" where
  "log_tx d x ch = Some (RET_SUCCESS, ch @ [(d, x)])"

definition sim_pubsub :: "u8 list list \<Rightarrow> (u8 list, (u32 \<times> u8 list) list) pubsub" where
  "sim_pubsub rs = \<lparr>pubsub_storage_area = sim_store rs, active_remotes = [5, 0], chan = []\<rparr>"

theorem pub_stored_thread_flushes_witness:
  "\<exists>s' xs. pub_stored_thread (sim_flash 64 8) sim_crc log_tx [9, 9, 9, 9]
      (Suc (length [u32_bytes 5 @ [1], u32_bytes 5 @ [2]])) (replicate 8 0, sim_pubsub [u32_bytes 5 @ [1], u32_bytes 5 @ [2]]) = Some s' \<and>
    fifo (sim_flash 64 8) sim_crc (sim_mem 64) (pubsub_storage_area s') [] \<and>
    chan s' = chan (sim_pubsub [u32_bytes 5 @ [1], u32_bytes 5 @ [2]]) @ xs \<and>
    list_all2 sent_as [u32_bytes 5 @ [1], u32_bytes 5 @ [2]] xs"
  by (rule pub_stored_thread_flushes [where log = "\<lambda>x. x", OF platform64])
    (simp_all add: sim_pubsub_def sim_store_fifo slot_eval u32_bytes_def [symmetric] tx_accepts_def log_tx_def)

text \<open>
  The thread can run forever: in the stuck store that a reset can leave behind (one header of
  free flash behind the last record), no number of turns makes it return, and it never sleeps.
\<close>

theorem pub_stored_thread_livelock:
  assumes "reliable_platform d mem crc" and "fifo d crc mem a [r]" and "rd_idx a = 0"
    and "wr_idx a + header_size = fa_size d" and "flash_area_open d = 0" and "length rbuf < 0xFFFF"
  shows "\<exists>a' a''. storage_init d crc (area_flash a) = (RET_SUCCESS, a') \<and> storage_free d crc a' = (RET_SUCCESS, a'') \<and>
    (\<forall>k rem ch. pub_stored_thread d crc tx beyond k
      (rbuf, \<lparr>pubsub_storage_area = a'', active_remotes = rem, chan = ch\<rparr>) = None)"
  by (rule reliable_platform.thread_stuck [OF assms])

theorem pub_stored_thread_livelock_witness:
  "\<exists>a' a''. storage_init (sim_flash 64 8) sim_crc (area_flash (sim_store [replicate 48 1])) = (RET_SUCCESS, a') \<and>
    storage_free (sim_flash 64 8) sim_crc a' = (RET_SUCCESS, a'') \<and>
    (\<forall>k rem ch. pub_stored_thread (sim_flash 64 8) sim_crc log_tx [] k
       (replicate 60 0, \<lparr>pubsub_storage_area = a'', active_remotes = rem, chan = ch\<rparr>) = None)"
  by (rule pub_stored_thread_livelock [OF platform64 sim_store_fifo(1)]) (simp_all add: sim_store_fifo slot_eval)

text \<open>
  C9. What is published while the remote is offline: for every message of the priority table
  (with distinct tag numbers), a discardable message is refused and changes nothing, a storable
  one is appended to the store with its destination in front (and the caller is told the remote is offline), and the
  others are handed to the transmitter at once.
\<close>

theorem publish_offline_by_priority:
  assumes "inj (tag_no c)" and "(t, p) \<in> set (sub_prio_table (debug_build c))"
    and "remote \<noteq> CAN_ADDRESS_MCU_TO_MCU_TX c" and "\<not> publish_is_started remote s"
    and "length payload \<le> mcu_to_jetson_payload_size c" and "encode c False (tag_no c t) payload = Some data"
  shows "publish_new c d crc tx True payload (tag_no c t) remote s =
    (case p of
       SUB_PRIO_DISCARD \<Rightarrow> (Returned RET_ERROR_OFFLINE, s)
     | SUB_PRIO_STORE \<Rightarrow> (Returned RET_ERROR_OFFLINE, s\<lparr>pubsub_storage_area :=
         fst (snd (storage_push d crc (pubsub_storage_area s) (Some (u32_bytes remote @ data))))\<rparr>)
     | SUB_PRIO_TRY_SENDING \<Rightarrow>
         (case tx remote data (chan s) of
            None \<Rightarrow> (Restarted, s) | Some (err, ch) \<Rightarrow> (Returned err, s\<lparr>chan := ch\<rparr>)))"
  using assms sub_prios_listed [OF assms(1,2)]
  by (auto simp: publish_new_def publish_def publish_params_rejected_def publish_encoded_def Let_def
      split: sub_priority_e.splits prod.splits)

definition sim_tag :: "jetson_tag \<Rightarrow> nat" where
  "sim_tag t = length (takeWhile (\<lambda>t'. t' \<noteq> t) (map fst (sub_prio_table True)))"

lemma all_tags_listed: "t \<in> set (map fst (sub_prio_table True))"
  by (cases t) (simp_all add: sub_prio_table_def)

lemma takeWhile_index:
  "x \<in> set xs \<Longrightarrow> xs ! length (takeWhile (\<lambda>y. y \<noteq> x) xs) = x"
  by (induction xs) auto

lemma inj_sim_tag: "inj sim_tag"
proof (rule inj_on_inverseI)
  fix t
  show "map fst (sub_prio_table True) ! sim_tag t = t"
    unfolding sim_tag_def by (rule takeWhile_index) (rule all_tags_listed)
qed

definition sim_pubsub_cfg :: pubsub_cfg where
  "sim_pubsub_cfg = \<lparr>tag_no = sim_tag, debug_build = False, CAN_ADDRESS_MCU_TO_MCU_TX = 1,
     main_to_sec_payload_size = 16, mcu_to_jetson_payload_size = 16, entry_data_size = 24,
     encode = (\<lambda>mcu which p. Some (of_nat which # p))\<rparr>"

theorem publish_offline_by_priority_witness:
  "publish_new sim_pubsub_cfg (sim_flash 64 8) sim_crc log_tx True [1, 2]
     (tag_no sim_pubsub_cfg gnss_tag) 6 (sim_pubsub []) =
   (case SUB_PRIO_DISCARD of
      SUB_PRIO_DISCARD \<Rightarrow> (Returned RET_ERROR_OFFLINE, sim_pubsub [])
    | SUB_PRIO_STORE \<Rightarrow> (Returned RET_ERROR_OFFLINE, (sim_pubsub [])\<lparr>pubsub_storage_area :=
        fst (snd (storage_push (sim_flash 64 8) sim_crc (pubsub_storage_area (sim_pubsub []))
          (Some (u32_bytes 6 @ of_nat (sim_tag gnss_tag) # [1, 2]))))\<rparr>)
    | SUB_PRIO_TRY_SENDING \<Rightarrow>
        (case log_tx 6 (of_nat (sim_tag gnss_tag) # [1, 2]) (chan (sim_pubsub [])) of
           None \<Rightarrow> (Restarted, sim_pubsub [])
         | Some (err, ch) \<Rightarrow> (Returned err, (sim_pubsub [])\<lparr>chan := ch\<rparr>)))"
  by (rule publish_offline_by_priority)
    (simp_all add: sim_pubsub_cfg_def inj_sim_tag sub_prio_table_def publish_is_started_def sim_pubsub_def)

text \<open>
  A call whose tag is in the table and whose payload is no larger than the message's payload
  never touches memory outside its arrays.
\<close>

theorem publish_memory_safe:
  assumes "which < sub_prios_size c"
    and "length payload \<le> (if remote = CAN_ADDRESS_MCU_TO_MCU_TX c then main_to_sec_payload_size c
                            else mcu_to_jetson_payload_size c)"
  shows "fst (publish c d crc tx sem_ok payload which remote force_store s) \<noteq> Memory_Fault"
  using assms
  by (auto simp: publish_def publish_params_rejected_def publish_encoded_def Let_def sub_prios_def
      split: option.splits prod.splits)

theorem publish_memory_safe_witness:
  "fst (publish sim_pubsub_cfg (sim_flash 64 8) sim_crc log_tx True [1] 0 6 False (sim_pubsub [])) \<noteq> Memory_Fault"
  by (rule publish_memory_safe) (simp_all add: sim_pubsub_cfg_def sub_prios_size_def)

text \<open>
  The parameter check joins its two conditions with a conjunction: for a subscribed remote an
  over-long payload with a tag in the table is not refused and is copied past the end of the message,
  and for an unsubscribed one a short payload with a tag outside the table reads past the end of the
  table.
\<close>

theorem publish_check_gap:
  assumes "remote \<noteq> CAN_ADDRESS_MCU_TO_MCU_TX c"
    and "(which < sub_prios_size c \<and> mcu_to_jetson_payload_size c < length payload \<and> publish_is_started remote s) \<or>
      (sub_prios_size c \<le> which \<and> length payload \<le> mcu_to_jetson_payload_size c \<and> \<not> publish_is_started remote s)"
  shows "fst (publish_new c d crc tx True payload which remote s) = Memory_Fault"
  using assms
  by (auto simp: publish_new_def publish_def publish_params_rejected_def publish_encoded_def Let_def sub_prios_def
      split: option.splits prod.splits)

theorem publish_check_gap_witness:
  "fst (publish_new sim_pubsub_cfg (sim_flash 64 8) sim_crc log_tx True (replicate 17 0) 0 5 (sim_pubsub [])) = Memory_Fault"
  by (rule publish_check_gap) (simp_all add: sim_pubsub_cfg_def sub_prios_size_def publish_is_started_def sim_pubsub_def)

text \<open>
  A message stored on request is in the store with its destination: \<open>publish_store\<close> returning
  success has appended one record, whose first four bytes are the destination and whose rest is the encoded message.
\<close>

theorem publish_store_appends:
  assumes "storage_platform d mem crc" and "fifo d crc mem (pubsub_storage_area s) rs"
    and "remote \<noteq> CAN_ADDRESS_MCU_TO_MCU_TX c"
    and "publish_store c d crc tx sem_ok payload which remote s = (Returned RET_SUCCESS, s')"
  shows "\<exists>data. encode c False which payload = Some data \<and>
    fifo d crc mem (pubsub_storage_area s') (rs @ [u32_bytes remote @ data]) \<and>
    u32_of (u32_bytes remote @ data) = remote \<and> chan s' = chan s"
proof -
  obtain data where enc: "encode c False which payload = Some data"
    and res: "publish_encoded d crc tx True True remote (Some data) s = (Returned RET_SUCCESS, s')"
    using assms(3,4)
    by (auto simp: publish_store_def publish_def publish_encoded_def Let_def split: if_splits option.splits)
  obtain err a r' where p: "storage_push d crc (pubsub_storage_area s) (Some (u32_bytes remote @ data)) = (err, a, r')"
    by (cases "storage_push d crc (pubsub_storage_area s) (Some (u32_bytes remote @ data))") auto
  then have "err = RET_SUCCESS" and s': "s' = s\<lparr>pubsub_storage_area := a\<rparr>"
    using res by (simp_all add: publish_encoded_def)
  then have "fifo d crc mem a (rs @ [u32_bytes remote @ data])"
    using storage_platform.push_fifo [OF assms(1,2)] p by blast
  then show ?thesis using enc s' by simp
qed

theorem publish_store_appends_witness:
  "\<exists>s' data. publish_store sim_pubsub_cfg (sim_flash 64 8) sim_crc log_tx True [1] 0 6 (sim_pubsub []) = (Returned RET_SUCCESS, s') \<and>
    encode sim_pubsub_cfg False 0 [1] = Some data \<and>
    fifo (sim_flash 64 8) sim_crc (sim_mem 64) (pubsub_storage_area s') ([] @ [u32_bytes 6 @ data]) \<and>
    u32_of (u32_bytes 6 @ data) = 6 \<and> chan s' = chan (sim_pubsub [])"
proof -
  have f: "fifo (sim_flash 64 8) sim_crc (sim_mem 64) (pubsub_storage_area (sim_pubsub [])) []"
    using sim_store_fifo(1) [of "[]"] by (simp add: sim_pubsub_def)
  have "wr_idx (pubsub_storage_area (sim_pubsub [])) = 0"
    using sim_store_fifo(2) [of "[]"] by (simp add: sim_pubsub_def)
  then obtain a where a: "storage_push (sim_flash 64 8) sim_crc (pubsub_storage_area (sim_pubsub [])) (Some (u32_bytes 6 @ [0, 1])) =
      (RET_SUCCESS, a, Some (u32_bytes 6 @ [0, 1]))"
    using reliable_platform.push_total [OF platform64 f, of "u32_bytes 6 @ [0, 1]"] by (auto simp: slot_eval)
  have "publish_store sim_pubsub_cfg (sim_flash 64 8) sim_crc log_tx True [1] 0 6 (sim_pubsub []) =
      (Returned RET_SUCCESS, (sim_pubsub [])\<lparr>pubsub_storage_area := a\<rparr>)"
    using a by (simp add: publish_store_def publish_def publish_params_rejected_def publish_encoded_def sim_pubsub_cfg_def)
  moreover from this publish_store_appends [OF sim_storage_platform f, of 6 sim_pubsub_cfg log_tx True "[1]" 0]
  have "\<exists>data. encode sim_pubsub_cfg False 0 [1] = Some data \<and>
      fifo (sim_flash 64 8) sim_crc (sim_mem 64) (pubsub_storage_area ((sim_pubsub [])\<lparr>pubsub_storage_area := a\<rparr>))
        ([] @ [u32_bytes 6 @ data]) \<and>
      u32_of (u32_bytes 6 @ data) = 6 \<and> chan ((sim_pubsub [])\<lparr>pubsub_storage_area := a\<rparr>) = chan (sim_pubsub [])"
    by (simp add: sim_pubsub_cfg_def)
  ultimately show ?thesis by blast
qed

lemma subscribe_slot_some:
  "subscribe_slot remote as = Some as' \<Longrightarrow>
   length as' = length as \<and> remote \<in> set as' \<and> set as' - {0} = insert remote (set as) - {0}"
proof (induction "as" arbitrary: as')
  case (Cons a "as")
  show ?case
  proof (cases "a = 0 \<or> a = remote")
    case True
    then have as': "as' = remote # as" using Cons.prems by simp
    have "insert remote (set as) - {0} = insert remote (insert a (set as)) - {0}" using True by blast
    then show ?thesis by (simp add: as')
  next
    case False
    then obtain bs where bs: "subscribe_slot remote as = Some bs" and as': "as' = a # bs"
      using Cons.prems by auto
    have "insert a (set bs) - {0} = insert remote (insert a (set as)) - {0}"
      using Cons.IH [OF bs] by blast
    then show ?thesis using Cons.IH [OF bs] by (simp add: as')
  qed
qed simp

lemma subscribe_slot_none: "subscribe_slot remote as = None \<longleftrightarrow> 0 \<notin> set as \<and> remote \<notin> set as"
  by (induction "as") auto

text \<open>
  Subscribing fails exactly when the table is full of other remotes, and then changes nothing;
  otherwise the known remotes are the old ones and the new one, in a table of unchanged length.
\<close>

theorem subscribe_add_correct:
  "case subscribe_add remote s of (r, s') \<Rightarrow>
     r = (if 0 \<notin> set (active_remotes s) \<and> remote \<notin> set (active_remotes s) then RET_ERROR_NO_MEM else RET_SUCCESS) \<and>
     length (active_remotes s') = length (active_remotes s) \<and>
     publish_is_started remote s' = (r = RET_SUCCESS) \<and>
     set (active_remotes s') - {0} =
       (if r = RET_SUCCESS then insert remote (set (active_remotes s)) else set (active_remotes s)) - {0}"
proof (cases "subscribe_slot remote (active_remotes s)")
  case None
  then have "0 \<notin> set (active_remotes s) \<and> remote \<notin> set (active_remotes s)" using subscribe_slot_none by blast
  then have "0 \<notin> set (active_remotes s)" and "\<not> publish_is_started remote s"
    by (auto simp: publish_is_started_def list_ex_iff)
  moreover have "subscribe_add remote s = (RET_ERROR_NO_MEM, s)" using None by (simp add: subscribe_add_def)
  ultimately show ?thesis by (auto simp: publish_is_started_def list_ex_iff)
next
  case (Some as')
  then have "\<not> (0 \<notin> set (active_remotes s) \<and> remote \<notin> set (active_remotes s))"
    using subscribe_slot_none [of remote "active_remotes s"] by simp
  then show ?thesis
    using Some subscribe_slot_some [OF Some] by (simp add: subscribe_add_def publish_is_started_def list_ex_iff)
qed

end
