(* ===== verification/Mirror.thy ===== *)
theory Mirror
  imports Complex_Main Orb_Prelude
begin

text \<open>
  The mirror that points the eye camera: two stepper motors behind a TMC5041 controller
  (\<^verbatim>\<open>optics/mirror/mirror.c\<close>, \<^verbatim>\<open>mirror_private.c\<close>, \<^verbatim>\<open>homing_pearl.c\<close> and
  \<^verbatim>\<open>homing_diamond.c\<close>). Angles are in thousandths of a degree and positions in microsteps.
  The conversion between them, in C type \<^verbatim>\<open>double\<close>, is modelled over the reals. What the
  code writes to the controller is the list \<open>spi_out\<close>; what it reads is an argument.
\<close>

subsection \<open>Geometry\<close>

datatype motor_t = MOTOR_THETA_ANGLE | MOTOR_PHI_ANGLE

primrec mirror_center_angles :: "motor_t \<Rightarrow> int" where
  "mirror_center_angles MOTOR_THETA_ANGLE = 90000"
| "mirror_center_angles MOTOR_PHI_ANGLE = 45000"

fun mirror_angle_min :: "board \<Rightarrow> motor_t \<Rightarrow> int" where
  "mirror_angle_min Pearl MOTOR_THETA_ANGLE = 90000 - 17500"
| "mirror_angle_min Diamond MOTOR_THETA_ANGLE = 90000 - 20000"
| "mirror_angle_min Pearl MOTOR_PHI_ANGLE = 45000 - 9500"
| "mirror_angle_min Diamond MOTOR_PHI_ANGLE = 0"

fun mirror_angle_max :: "board \<Rightarrow> motor_t \<Rightarrow> int" where
  "mirror_angle_max Pearl MOTOR_THETA_ANGLE = 90000 + 17500"
| "mirror_angle_max Diamond MOTOR_THETA_ANGLE = 90000 + 20000"
| "mirror_angle_max Pearl MOTOR_PHI_ANGLE = 45000 + 9500"
| "mirror_angle_max Diamond MOTOR_PHI_ANGLE = 45000 + 23000"

fun motors_arm_length_mm :: "board \<Rightarrow> motor_t \<Rightarrow> real" where
  "motors_arm_length_mm Pearl MOTOR_THETA_ANGLE = 12"
| "motors_arm_length_mm Pearl MOTOR_PHI_ANGLE = 1871 / 100"
| "motors_arm_length_mm Diamond MOTOR_THETA_ANGLE = 18"
| "motors_arm_length_mm Diamond MOTOR_PHI_ANGLE = 16"

text \<open>
  On Diamond these are products of turns, steps and microsteps in C type \<^verbatim>\<open>double\<close> that
  are converted to integers; the full range of phi is 237951.99999999997 there.
\<close>

fun MOTOR_CENTER_FROM_END_STEPS :: "board \<Rightarrow> motor_t \<Rightarrow> int" where
  "MOTOR_CENTER_FROM_END_STEPS Pearl MOTOR_THETA_ANGLE = 55000"
| "MOTOR_CENTER_FROM_END_STEPS Pearl MOTOR_PHI_ANGLE = 87000"
| "MOTOR_CENTER_FROM_END_STEPS Diamond MOTOR_THETA_ANGLE = 78848"
| "MOTOR_CENTER_FROM_END_STEPS Diamond MOTOR_PHI_ANGLE = 83584"

fun MOTOR_FULL_RANGE_STEPS :: "board \<Rightarrow> motor_t \<Rightarrow> int" where
  "MOTOR_FULL_RANGE_STEPS Pearl m = 2 * MOTOR_CENTER_FROM_END_STEPS Pearl m"
| "MOTOR_FULL_RANGE_STEPS Diamond MOTOR_THETA_ANGLE = 2 * 78848"
| "MOTOR_FULL_RANGE_STEPS Diamond MOTOR_PHI_ANGLE = 237951"

definition MOTOR_PHI_CENTER_FROM_FLAT_END_STEPS :: int where "MOTOR_PHI_CENTER_FROM_FLAT_END_STEPS = 154368"

definition MOTOR_PHI_OFF_THE_WALL_STEPS :: int where "MOTOR_PHI_OFF_THE_WALL_STEPS = 10240"

definition microsteps_per_mm :: real where "microsteps_per_mm = 12800"

text \<open>\<^verbatim>\<open>roundl\<close> rounds halves away from zero; the conversion to an integer truncates.\<close>

definition c_round :: "real \<Rightarrow> int" where
  "c_round x = (if x < 0 then - \<lfloor>- x + 1 / 2\<rfloor> else \<lfloor>x + 1 / 2\<rfloor>)"

definition c_trunc :: "real \<Rightarrow> int" where
  "c_trunc x = (if x < 0 then - \<lfloor>- x\<rfloor> else \<lfloor>x\<rfloor>)"

definition calculate_millidegrees_from_center_position :: "int \<Rightarrow> real \<Rightarrow> int" where
  "calculate_millidegrees_from_center_position n arm =
     c_trunc (arcsin (real_of_int n / microsteps_per_mm / arm) * 180000 / pi)"

definition calculate_microsteps_from_center_position :: "int \<Rightarrow> real \<Rightarrow> int" where
  "calculate_microsteps_from_center_position a arm =
     c_round (sin (real_of_int a * pi / 180000) * arm * microsteps_per_mm)"

subsection \<open>The motor controller\<close>

datatype motor_reg = REG_IDX_XACTUAL | REG_IDX_XTARGET | REG_IDX_DRV_STATUS

text \<open>The two columns of the register table; the order of the motors depends on the board.\<close>

fun motor_index :: "board \<Rightarrow> motor_t \<Rightarrow> nat" where
  "motor_index Pearl MOTOR_THETA_ANGLE = 0"
| "motor_index Pearl MOTOR_PHI_ANGLE = 1"
| "motor_index Diamond MOTOR_PHI_ANGLE = 0"
| "motor_index Diamond MOTOR_THETA_ANGLE = 1"

primrec TMC5041_REGISTERS :: "motor_reg \<Rightarrow> u8 list" where
  "TMC5041_REGISTERS REG_IDX_XACTUAL = [0x21, 0x41]"
| "TMC5041_REGISTERS REG_IDX_XTARGET = [0x2D, 0x4D]"
| "TMC5041_REGISTERS REG_IDX_DRV_STATUS = [0x6F, 0x7F]"

definition MOTOR_FS_VMAX :: "64 word" where "MOTOR_FS_VMAX = 800000"

definition position_mode_full_speed :: "nat \<Rightarrow> 64 word list" where
  "position_mode_full_speed i =
    (if i = 0 then
       [0xEC000100C5, 0xB000011000, 0xA400008000, 0xA500000000 + MOTOR_FS_VMAX * 3 div 4, 0xA600001000,
        0xA700000000 + MOTOR_FS_VMAX, 0xA800001000, 0xAA00008000, 0xAB00000010, 0xA000000000]
     else
       [0xFC000100C5, 0xD000011000, 0xC400008000, 0xC500000000 + MOTOR_FS_VMAX * 3 div 4, 0xC600001000,
        0xC700000000 + MOTOR_FS_VMAX, 0xC800001000, 0xCA00008000, 0xCB00000010, 0xC000000000])"

unbundle bit_operations_syntax

text \<open>
  The datagrams sent to the controller, five bytes each: the register with the write flag in
  its top bit, and the value in big-endian order.
\<close>

definition spi_byte :: "nat \<Rightarrow> 'a::len word \<Rightarrow> u8" where
  "spi_byte k w = ucast (drop_bit (8 * k) w)"

definition motor_controller_spi_write :: "u8 \<Rightarrow> u32 \<Rightarrow> u8 list" where
  "motor_controller_spi_write reg v = [reg OR 0x80, spi_byte 3 v, spi_byte 2 v, spi_byte 1 v, spi_byte 0 v]"

text \<open>\<^verbatim>\<open>sys_cpu_to_be64\<close> on the little-endian processor: the first five bytes of the big-endian number.\<close>

definition motor_controller_spi_send_command :: "64 word \<Rightarrow> u8 list" where
  "motor_controller_spi_send_command cmd =
    (let c = push_bit 24 cmd in [spi_byte 7 c, spi_byte 6 c, spi_byte 5 c, spi_byte 4 c, spi_byte 3 c])"

text \<open>A read sends its register twice and takes the value from the second answer.\<close>

definition motor_controller_spi_read_request :: "u8 \<Rightarrow> u8 list" where
  "motor_controller_spi_read_request reg = [reg AND NOT 0x80, 0, 0, 0, 0]"

definition motor_controller_spi_read_value :: "u8 list \<Rightarrow> u32" where
  "motor_controller_spi_read_value rx =
     push_bit 24 (ucast (rx ! 1)) OR push_bit 16 (ucast (rx ! 2)) OR push_bit 8 (ucast (rx ! 3)) OR ucast (rx ! 4)"

subsection \<open>State\<close>

datatype homing_state =
    AH_UNINIT
  | AH_SHIFTED_SIDEWAYS
  | AH_UP_TO_WALL
  | AH_THETA_TO_CENTER
  | AH_THETA_HOMED
  | AH_GO_HOME
  | AH_WAIT_STANDSTILL
  | AH_SUCCESS

record motors_refs_t =
  steps_at_center_position :: int
  full_stroke_steps :: int
  motor_state :: ret_code_t
  angle_millidegrees :: int

datatype spi_event =
    Write_reg motor_reg motor_t int
  | Write_gconf int
  | Send_position_mode motor_t
  | Publish_motor_range motor_t int

record mirror =
  motors :: "motor_t \<Rightarrow> motors_refs_t"
  homing_sem :: "motor_t \<Rightarrow> bool"
  homing_init :: bool
  homing_started :: "(motor_t \<times> nat) list"
  angle_item :: "motor_t \<Rightarrow> int option"
  spi_out :: "spi_event list"

text \<open>
  The state at start: \<^verbatim>\<open>motor_state\<close> is not initialised in the table of the motors, so it
  is 0, the value of \<^verbatim>\<open>RET_SUCCESS\<close>.
\<close>

definition mirror_start :: "board \<Rightarrow> mirror" where
  "mirror_start b = \<lparr>motors = (\<lambda>m. \<lparr>steps_at_center_position = MOTOR_CENTER_FROM_END_STEPS b m,
       full_stroke_steps = MOTOR_FULL_RANGE_STEPS b m, motor_state = RET_SUCCESS, angle_millidegrees = 0\<rparr>),
     homing_sem = (\<lambda>m. False), homing_init = False, homing_started = [], angle_item = (\<lambda>m. None), spi_out = []\<rparr>"

definition spi_emit :: "spi_event list \<Rightarrow> mirror \<Rightarrow> mirror" where
  "spi_emit es s = s\<lparr>spi_out := spi_out s @ es\<rparr>"

definition set_motor :: "motor_t \<Rightarrow> (motors_refs_t \<Rightarrow> motors_refs_t) \<Rightarrow> mirror \<Rightarrow> mirror" where
  "set_motor m f s = s\<lparr>motors := (motors s)(m := f (motors s m))\<rparr>"

subsection \<open>Positioning\<close>

definition mirror_set_stepper_position :: "int \<Rightarrow> motor_t \<Rightarrow> mirror \<Rightarrow> mirror" where
  "mirror_set_stepper_position n m s = spi_emit [Write_reg REG_IDX_XTARGET m n] s"

definition mirror_set_angle_from_center :: "board \<Rightarrow> int \<Rightarrow> motor_t \<Rightarrow> mirror \<Rightarrow> ret_code_t \<times> mirror" where
  "mirror_set_angle_from_center b a m s =
    (if motor_state (motors s m) \<noteq> RET_SUCCESS then (motor_state (motors s m), s)
     else
      let a' = (if m = MOTOR_PHI_ANGLE then - a else a);
          from_center = calculate_microsteps_from_center_position a' (motors_arm_length_mm b m);
          absolute = steps_at_center_position (motors s m) + from_center;
          s1 = set_motor m (\<lambda>r. r\<lparr>angle_millidegrees := (a' + mirror_center_angles m) mod 2 ^ 32\<rparr>) s
      in (RET_SUCCESS, mirror_set_stepper_position absolute m s1))"

text \<open>The angle has C type \<^verbatim>\<open>uint32_t\<close>: a negative argument wraps.\<close>

definition mirror_check_angle :: "board \<Rightarrow> int \<Rightarrow> motor_t \<Rightarrow> ret_code_t" where
  "mirror_check_angle b a m =
    (let u = a mod 2 ^ 32 in
     if mirror_angle_max b m < u \<or> u < mirror_angle_min b m then RET_ERROR_INVALID_PARAM else RET_SUCCESS)"

definition mirror_set_angle_relative :: "board \<Rightarrow> int \<Rightarrow> int \<Rightarrow> motor_t \<Rightarrow> mirror \<Rightarrow> ret_code_t \<times> mirror" where
  "mirror_set_angle_relative b xactual a m s =
    (let from_center = xactual - steps_at_center_position (motors s m);
         from_center' = (if m = MOTOR_PHI_ANGLE then - from_center else from_center);
         angle = calculate_millidegrees_from_center_position from_center' (motors_arm_length_mm b m);
         target = clamp (angle + a) (mirror_center_angles m - mirror_angle_max b m)
                    (mirror_center_angles m - mirror_angle_min b m)
     in mirror_set_angle_from_center b target m s)"

definition mirror_set_angle :: "board \<Rightarrow> int \<Rightarrow> motor_t \<Rightarrow> mirror \<Rightarrow> ret_code_t \<times> mirror" where
  "mirror_set_angle b a m s =
    (let ret = mirror_check_angle b a m in
     if ret \<noteq> RET_SUCCESS then (ret, s)
     else mirror_set_angle_from_center b (a mod 2 ^ 32 - mirror_center_angles m) m s)"

definition mirror_set_angle_async :: "board \<Rightarrow> int \<Rightarrow> motor_t \<Rightarrow> mirror \<Rightarrow> ret_code_t \<times> mirror" where
  "mirror_set_angle_async b a m s =
    (let ret = mirror_check_angle b a m in
     if ret \<noteq> RET_SUCCESS then (ret, s)
     else if angle_item s m \<noteq> None then (RET_ERROR_BUSY, s)
     else (RET_SUCCESS, s\<lparr>angle_item := (angle_item s)(m := Some a)\<rparr>))"

text \<open>The work queue runs a scheduled item; its result is only logged.\<close>

definition mirror_angle_work_wrapper :: "board \<Rightarrow> motor_t \<Rightarrow> mirror \<Rightarrow> mirror" where
  "mirror_angle_work_wrapper b m s =
    (case angle_item s m of
       None \<Rightarrow> s
     | Some a \<Rightarrow> snd (mirror_set_angle b a m (s\<lparr>angle_item := (angle_item s)(m := None)\<rparr>)))"

definition mirror_homed_successfully :: "mirror \<Rightarrow> bool" where
  "mirror_homed_successfully s \<longleftrightarrow>
     motor_state (motors s MOTOR_PHI_ANGLE) = RET_SUCCESS \<and> motor_state (motors s MOTOR_THETA_ANGLE) = RET_SUCCESS"

definition mirror_get_angle_millidegrees :: "motor_t \<Rightarrow> mirror \<Rightarrow> int" where
  "mirror_get_angle_millidegrees m s = angle_millidegrees (motors s m)"

definition mirror_go_home :: "board \<Rightarrow> mirror \<Rightarrow> int \<times> mirror" where
  "mirror_go_home b s =
    (if b = Pearl then
       let (r1, s1) = mirror_set_angle b (mirror_center_angles MOTOR_THETA_ANGLE) MOTOR_THETA_ANGLE s;
           (r2, s2) = mirror_set_angle b (mirror_center_angles MOTOR_PHI_ANGLE) MOTOR_PHI_ANGLE s1
       in (rc r1 OR rc r2, s2)
     else
       let (r1, s1) = mirror_set_angle_async b (mirror_center_angles MOTOR_THETA_ANGLE) MOTOR_THETA_ANGLE s;
           (r2, s2) = mirror_set_angle_async b 0 MOTOR_PHI_ANGLE s1
       in (rc r1 OR rc r2, s2))"

subsection \<open>Homing\<close>

text \<open>
  The homing threads poll the status of the motors; \<open>poll i\<close> tells whether the motors stand
  still at the \<open>i\<close>-th poll. The loop ends at the last state or after the given number of
  polls, and returns how many were left.
\<close>

fun homing_loop :: "(homing_state \<Rightarrow> bool \<Rightarrow> mirror \<Rightarrow> homing_state \<times> mirror) \<Rightarrow> (nat \<Rightarrow> bool) \<Rightarrow>
    nat \<Rightarrow> nat \<Rightarrow> homing_state \<Rightarrow> mirror \<Rightarrow> nat \<times> mirror" where
  "homing_loop step poll i 0 st s = (0, s)"
| "homing_loop step poll i (Suc t) st s =
    (if st = AH_SUCCESS then (Suc t, s)
     else let (st', s') = step st (poll i) s in homing_loop step poll (Suc i) t st' s')"

primrec motors_full_stroke_steps_maximum_steps :: "motor_t \<Rightarrow> int" where
  "motors_full_stroke_steps_maximum_steps MOTOR_THETA_ANGLE = 500 * 256"
| "motors_full_stroke_steps_maximum_steps MOTOR_PHI_ANGLE = 700 * 256"

primrec AUTOHOMING_TIMEOUT_LOOP_COUNT :: "board \<Rightarrow> nat" where
  "AUTOHOMING_TIMEOUT_LOOP_COUNT Pearl = 7000 div 30"
| "AUTOHOMING_TIMEOUT_LOOP_COUNT Diamond = 10000 div 30"

definition motor_range :: "board \<Rightarrow> motor_t \<Rightarrow> mirror \<Rightarrow> int" where
  "motor_range b m s = 2 * calculate_millidegrees_from_center_position
     (full_stroke_steps (motors s m) div 2) (motors_arm_length_mm b m)"

fun pearl_homing_step :: "motor_t \<Rightarrow> homing_state \<Rightarrow> bool \<Rightarrow> mirror \<Rightarrow> homing_state \<times> mirror" where
  "pearl_homing_step m AH_UNINIT standstill s =
     (AH_GO_HOME, spi_emit [Write_reg REG_IDX_XACTUAL m 0, Send_position_mode m,
        Write_reg REG_IDX_XTARGET m (- motors_full_stroke_steps_maximum_steps m)] s)"
| "pearl_homing_step m AH_GO_HOME standstill s =
     (if standstill then
        let s1 = set_motor m (\<lambda>r. r\<lparr>steps_at_center_position := MOTOR_CENTER_FROM_END_STEPS Pearl m,
                   full_stroke_steps := MOTOR_FULL_RANGE_STEPS Pearl m\<rparr>)
                   (spi_emit [Write_reg REG_IDX_XACTUAL m 0] s)
        in (AH_WAIT_STANDSTILL, spi_emit [Write_reg REG_IDX_XTARGET m (steps_at_center_position (motors s1 m))] s1)
      else (AH_GO_HOME, s))"
| "pearl_homing_step m AH_WAIT_STANDSTILL standstill s =
     (if standstill then (AH_SUCCESS, spi_emit [Publish_motor_range m (motor_range Pearl m s)] s)
      else (AH_WAIT_STANDSTILL, s))"
| "pearl_homing_step m st standstill s = (st, s)"

definition mirror_auto_homing_one_end_thread :: "(nat \<Rightarrow> bool) \<Rightarrow> motor_t \<Rightarrow> mirror \<Rightarrow> mirror" where
  "mirror_auto_homing_one_end_thread poll m s =
    (let (timeout, s1) = homing_loop (pearl_homing_step m) poll 0 (AUTOHOMING_TIMEOUT_LOOP_COUNT Pearl) AH_UNINIT s;
         s2 = spi_emit [Send_position_mode m] s1;
         s3 = set_motor m (\<lambda>r. r\<lparr>motor_state := if timeout = 0 then RET_ERROR_INVALID_STATE else RET_SUCCESS,
                angle_millidegrees := mirror_center_angles m\<rparr>) s2
     in s3\<lparr>homing_sem := (homing_sem s3)(m := True)\<rparr>)"

fun diamond_homing_step :: "homing_state \<Rightarrow> bool \<Rightarrow> mirror \<Rightarrow> homing_state \<times> mirror" where
  "diamond_homing_step AH_UNINIT standstill s =
     (AH_SHIFTED_SIDEWAYS, spi_emit [Write_reg REG_IDX_XACTUAL MOTOR_PHI_ANGLE 0,
        Send_position_mode MOTOR_PHI_ANGLE, Send_position_mode MOTOR_THETA_ANGLE,
        Write_reg REG_IDX_XTARGET MOTOR_PHI_ANGLE (- MOTOR_PHI_CENTER_FROM_FLAT_END_STEPS)] s)"
| "diamond_homing_step AH_SHIFTED_SIDEWAYS standstill s =
     (if standstill then (AH_UP_TO_WALL, spi_emit [Write_reg REG_IDX_XACTUAL MOTOR_PHI_ANGLE 0,
        Write_reg REG_IDX_XTARGET MOTOR_PHI_ANGLE MOTOR_PHI_OFF_THE_WALL_STEPS] s)
      else (AH_SHIFTED_SIDEWAYS, s))"
| "diamond_homing_step AH_UP_TO_WALL standstill s =
     (if standstill then (AH_THETA_TO_CENTER, spi_emit [Write_reg REG_IDX_XACTUAL MOTOR_THETA_ANGLE 0,
        Write_reg REG_IDX_XTARGET MOTOR_THETA_ANGLE (- MOTOR_FULL_RANGE_STEPS Diamond MOTOR_THETA_ANGLE)] s)
      else (AH_UP_TO_WALL, s))"
| "diamond_homing_step AH_THETA_TO_CENTER standstill s =
     (if standstill then (AH_THETA_HOMED, spi_emit [Write_reg REG_IDX_XACTUAL MOTOR_THETA_ANGLE 0,
        Write_reg REG_IDX_XTARGET MOTOR_THETA_ANGLE (steps_at_center_position (motors s MOTOR_THETA_ANGLE))] s)
      else (AH_THETA_TO_CENTER, s))"
| "diamond_homing_step AH_THETA_HOMED standstill s =
     (if standstill then (AH_GO_HOME,
        spi_emit [Publish_motor_range MOTOR_THETA_ANGLE (motor_range Diamond MOTOR_THETA_ANGLE s)] s)
      else (AH_THETA_HOMED, s))"
| "diamond_homing_step AH_GO_HOME standstill s =
     (if standstill then (AH_WAIT_STANDSTILL,
        spi_emit [Write_reg REG_IDX_XTARGET MOTOR_PHI_ANGLE (MOTOR_FULL_RANGE_STEPS Diamond MOTOR_PHI_ANGLE)] s)
      else (AH_GO_HOME, s))"
| "diamond_homing_step AH_WAIT_STANDSTILL standstill s =
     (if standstill then (AH_SUCCESS,
        spi_emit [Write_reg REG_IDX_XACTUAL MOTOR_PHI_ANGLE (MOTOR_FULL_RANGE_STEPS Diamond MOTOR_PHI_ANGLE),
          Publish_motor_range MOTOR_PHI_ANGLE (motor_range Diamond MOTOR_PHI_ANGLE s)] s)
      else (AH_WAIT_STANDSTILL, s))"
| "diamond_homing_step AH_SUCCESS standstill s = (AH_SUCCESS, s)"

text \<open>On Diamond one thread homes both motors, under the semaphore kept here for phi.\<close>

definition mirror_auto_homing_overreach_end_thread :: "(nat \<Rightarrow> bool) \<Rightarrow> mirror \<Rightarrow> mirror" where
  "mirror_auto_homing_overreach_end_thread poll s =
    (let (timeout, s1) = homing_loop diamond_homing_step poll 0 (AUTOHOMING_TIMEOUT_LOOP_COUNT Diamond) AH_UNINIT s;
         s2 = spi_emit [Send_position_mode MOTOR_THETA_ANGLE, Send_position_mode MOTOR_PHI_ANGLE] s1;
         e = (if timeout = 0 then RET_ERROR_INVALID_STATE else RET_SUCCESS);
         s3 = set_motor MOTOR_THETA_ANGLE (\<lambda>r. r\<lparr>motor_state := e,
                angle_millidegrees := mirror_center_angles MOTOR_THETA_ANGLE\<rparr>) s2;
         s4 = set_motor MOTOR_PHI_ANGLE (\<lambda>r. r\<lparr>motor_state := e, angle_millidegrees := 0\<rparr>) s3
     in s4\<lparr>homing_sem := (homing_sem s4)(MOTOR_PHI_ANGLE := True)\<rparr>)"

definition mirror_auto_homing_in_progress :: "board \<Rightarrow> mirror \<Rightarrow> bool" where
  "mirror_auto_homing_in_progress b s \<longleftrightarrow>
    (if b = Pearl then \<not> homing_sem s MOTOR_THETA_ANGLE \<or> \<not> homing_sem s MOTOR_PHI_ANGLE
     else \<not> homing_sem s MOTOR_PHI_ANGLE)"

text \<open>Starting a homing thread, with its delay in milliseconds.\<close>

definition mirror_homing_one_end :: "motor_t \<Rightarrow> mirror \<Rightarrow> ret_code_t \<times> mirror" where
  "mirror_homing_one_end m s =
    (if \<not> homing_sem s m then (RET_ERROR_BUSY, s)
     else
      let delay = (if motor_state (motors s m) = RET_ERROR_NOT_INITIALIZED then 2000 * (motor_index Pearl m + 1) else 0)
      in (RET_SUCCESS, s\<lparr>homing_sem := (homing_sem s)(m := False), homing_started := homing_started s @ [(m, delay)]\<rparr>))"

text \<open>\<open>e1\<close> and \<open>e2\<close> are the results of \<^verbatim>\<open>k_sem_init\<close>.\<close>

definition pearl_homing_async :: "int \<Rightarrow> int \<Rightarrow> mirror \<Rightarrow> ret_code_t \<times> mirror" where
  "pearl_homing_async e1 e2 s =
    (if \<not> homing_init s \<and> e1 \<noteq> 0 then (RET_ERROR_INTERNAL, s)
     else
      let s1 = (if homing_init s then s else s\<lparr>homing_sem := (homing_sem s)(MOTOR_PHI_ANGLE := True)\<rparr>) in
      if \<not> homing_init s \<and> e2 \<noteq> 0 then (RET_ERROR_INTERNAL, s1)
      else
       let s2 = (if homing_init s then s1
                 else s1\<lparr>homing_sem := (homing_sem s1)(MOTOR_THETA_ANGLE := True), homing_init := True\<rparr>);
           (r1, s3) = mirror_homing_one_end MOTOR_THETA_ANGLE
             (set_motor MOTOR_THETA_ANGLE (\<lambda>r. r\<lparr>motor_state := RET_ERROR_NOT_INITIALIZED\<rparr>) s2)
       in if r1 \<noteq> RET_SUCCESS then (RET_ERROR_INTERNAL, s3)
          else
           let (r2, s4) = mirror_homing_one_end MOTOR_PHI_ANGLE
             (set_motor MOTOR_PHI_ANGLE (\<lambda>r. r\<lparr>motor_state := RET_ERROR_NOT_INITIALIZED\<rparr>) s3)
           in if r2 \<noteq> RET_SUCCESS then (RET_ERROR_INTERNAL, s4) else (RET_SUCCESS, s4))"

definition diamond_homing_async :: "int \<Rightarrow> mirror \<Rightarrow> ret_code_t \<times> mirror" where
  "diamond_homing_async e s =
    (if \<not> homing_init s \<and> e \<noteq> 0 then (RET_ERROR_INTERNAL, s)
     else
      let s1 = (if homing_init s then s
                else s\<lparr>homing_sem := (homing_sem s)(MOTOR_PHI_ANGLE := True), homing_init := True\<rparr>)
      in if \<not> homing_sem s1 MOTOR_PHI_ANGLE then (RET_ERROR_BUSY, s1)
         else
          let delay = (if motor_state (motors s1 MOTOR_PHI_ANGLE) = RET_ERROR_NOT_INITIALIZED \<or>
                          motor_state (motors s1 MOTOR_THETA_ANGLE) = RET_ERROR_NOT_INITIALIZED then 2000 else 0)
          in (RET_SUCCESS, s1\<lparr>homing_sem := (homing_sem s1)(MOTOR_PHI_ANGLE := False),
                homing_started := homing_started s1 @ [(MOTOR_PHI_ANGLE, delay)]\<rparr>))"

definition mirror_homing_overreach_ends_async :: "board \<Rightarrow> int \<Rightarrow> int \<Rightarrow> mirror \<Rightarrow> ret_code_t \<times> mirror" where
  "mirror_homing_overreach_ends_async b e1 e2 s =
    (if b = Pearl then pearl_homing_async e1 e2 s else diamond_homing_async e1 s)"

definition mirror_autohoming :: "board \<Rightarrow> motor_t option \<Rightarrow> mirror \<Rightarrow> ret_code_t \<times> mirror" where
  "mirror_autohoming b motor s =
    (if b = Pearl then (case motor of None \<Rightarrow> (RET_ERROR_INVALID_PARAM, s) | Some m \<Rightarrow> mirror_homing_one_end m s)
     else mirror_homing_overreach_ends_async b 0 0 s)"

definition TMC5041_IC_VERSION :: u32 where "TMC5041_IC_VERSION = 0x10"

text \<open>\<open>input\<close> is the value of the register that holds the version of the controller.\<close>

definition mirror_init :: "board \<Rightarrow> bool \<Rightarrow> u32 \<Rightarrow> int \<Rightarrow> int \<Rightarrow> mirror \<Rightarrow> ret_code_t \<times> mirror" where
  "mirror_init b spi_ready input e1 e2 s =
    (if \<not> spi_ready then (RET_ERROR_INVALID_STATE, s)
     else
      let s1 = (if b = Diamond then spi_emit [Write_gconf 0x300] s else s) in
      if drop_bit 24 input AND 0xFF \<noteq> TMC5041_IC_VERSION then (RET_ERROR_OFFLINE, s1)
      else
       let s2 = spi_emit [Send_position_mode MOTOR_PHI_ANGLE, Send_position_mode MOTOR_THETA_ANGLE] s1;
           (r, s3) = mirror_homing_overreach_ends_async b e1 e2 s2
       in if r \<noteq> RET_SUCCESS then (RET_ERROR_INVALID_STATE, s3) else (RET_SUCCESS, s3))"

subsection \<open>Bounds on positions\<close>

lemma sin_treble: "sin (3 * x) = 3 * sin x - 4 * sin x ^ 3" for x :: real
proof -
  have "sin (3 * x) = sin (2 * x + x)" by simp
  also have "\<dots> = 2 * sin x * cos x * cos x + (1 - 2 * (sin x)\<^sup>2) * sin x"
    by (simp only: sin_add sin_double cos_double_sin)
  also have "\<dots> = 2 * sin x * (1 - (sin x)\<^sup>2) + (1 - 2 * (sin x)\<^sup>2) * sin x"
    by (simp add: cos_squared_eq power2_eq_square [symmetric] mult.assoc)
  finally show ?thesis by (simp add: power3_eq_cube power2_eq_square algebra_simps)
qed

text \<open>\<open>3 s - 4 s\<^sup>3\<close> is increasing below one half.\<close>

lemma treble_less:
  fixes s t :: real
  assumes "0 \<le> s" "t < s" "0 \<le> t" "s \<le> 1 / 2"
  shows "3 * t - 4 * t ^ 3 < 3 * s - 4 * s ^ 3"
proof -
  have "s\<^sup>2 + s * t + t\<^sup>2 < 3 / 4"
  proof -
    have "s\<^sup>2 \<le> (1 / 2)\<^sup>2" using assms by (intro power_mono) simp_all
    moreover have "s * t < 1 / 2 * (1 / 2)"
      using assms by (intro mult_le_less_imp_less) simp_all
    moreover have "t\<^sup>2 < (1 / 2)\<^sup>2" using assms by (intro power_strict_mono) simp_all
    ultimately show ?thesis by (simp add: power2_eq_square)
  qed
  moreover have "q < 3 / 4 \<Longrightarrow> 0 < 3 - 4 * q" for q :: real by simp
  ultimately have "0 < (s - t) * (3 - 4 * (s\<^sup>2 + s * t + t\<^sup>2))" using assms(2) by (intro mult_pos_pos) auto
  then show ?thesis by (simp add: power2_eq_square power3_eq_cube algebra_simps)
qed

lemma sin_degrees_le:
  assumes "0 \<le> d" "d \<le> 30" "sin (3 * d * pi / 180) \<le> c" "0 \<le> t" "t \<le> 1 / 2" "c \<le> 3 * t - 4 * t ^ 3"
  shows "sin (d * pi / 180) \<le> t"
proof (rule ccontr)
  assume less: "\<not> sin (d * pi / 180) \<le> t"
  have "0 \<le> sin (d * pi / 180)" using assms(1,2) by (intro sin_ge_zero) (simp_all add: field_simps)
  moreover have "sin (d * pi / 180) \<le> sin (pi / 6)"
  proof (rule sin_monotone_2pi_le)
    have "0 \<le> d * pi / 180" using assms(1) by simp
    then show "- (pi / 2) \<le> d * pi / 180" using pi_gt_zero by linarith
    show "d * pi / 180 \<le> pi / 6" using assms(2) by simp
  qed simp
  ultimately have "3 * t - 4 * t ^ 3 < 3 * sin (d * pi / 180) - 4 * sin (d * pi / 180) ^ 3"
    using assms(4) less by (intro treble_less) (simp_all add: sin_30)
  also have "\<dots> = sin (3 * d * pi / 180)" using sin_treble [of "d * pi / 180"] by simp
  finally show False using assms(3,6) by linarith
qed

lemma sin_20: "sin (20 * pi / 180) \<le> (342223 / 1000000 :: real)"
proof (rule sin_degrees_le)
  show "sin (3 * 20 * pi / 180) \<le> sqrt 3 / 2" using sin_60 by simp
  have "sqrt 3 \<le> 1732051 / 1000000" by (rule real_le_lsqrt) (simp_all add: power2_eq_square)
  then show "sqrt 3 / 2 \<le> 3 * (342223 / 1000000 :: real) - 4 * (342223 / 1000000) ^ 3"
    by (simp add: power3_eq_cube)
qed simp_all

lemma sin_10_ge: "1 / 6 \<le> sin (10 * pi / 180)"
proof -
  have "sin (pi / 6) = sin (3 * (10 * pi / 180))" by simp
  then have "1 / 2 = 3 * sin (10 * pi / 180) - 4 * sin (10 * pi / 180) ^ 3" by (simp only: sin_treble sin_30)
  moreover have "0 \<le> sin (10 * pi / 180)" by (rule sin_ge_zero) (simp_all add: field_simps)
  ultimately show ?thesis using zero_le_power [of "sin (10 * pi / 180)" 3] by linarith
qed

lemma sin_69: "sin (69 * pi / 180) \<le> 17 / 18"
proof -
  have "sin (69 * pi / 180) = cos (2 * (105 / 10 * pi / 180))"
    using sin_cos_eq [of "69 * pi / 180"] by (simp add: field_simps)
  also have "\<dots> = 1 - 2 * (sin (105 / 10 * pi / 180))\<^sup>2" by (rule cos_double_sin)
  finally have e: "sin (69 * pi / 180) = 1 - 2 * (sin (105 / 10 * pi / 180))\<^sup>2" .
  have "sin (10 * pi / 180) \<le> sin (105 / 10 * pi / 180)"
    by (intro sin_monotone_2pi_le) (simp_all add: field_simps)
  then have "1 / 6 \<le> sin (105 / 10 * pi / 180)" using sin_10_ge by linarith
  then have "(1 / 6)\<^sup>2 \<le> (sin (105 / 10 * pi / 180))\<^sup>2" by (intro power_mono) simp_all
  moreover have "(1 / 6)\<^sup>2 = (1 / 36 :: real)" by (simp add: power2_eq_square)
  ultimately show ?thesis unfolding e by linarith
qed

lemma sin_23: "sin (23 * pi / 180) \<le> (408 / 1000 :: real)"
proof (rule sin_degrees_le)
  show "sin (3 * 23 * pi / 180) \<le> 17 / 18" using sin_69 by simp
qed (simp_all add: power3_eq_cube)

lemma sin_45_le: "sin (45 * pi / 180) \<le> (70711 / 100000 :: real)"
proof -
  have "sqrt 2 \<le> 141422 / 100000" by (rule real_le_lsqrt) (simp_all add: power2_eq_square)
  then show ?thesis using sin_45 by simp
qed

text \<open>Rounding keeps integer bounds.\<close>

lemma c_round_le: "x \<le> real_of_int n + 4 / 10 \<Longrightarrow> c_round x \<le> n"
  by (auto simp: c_round_def; linarith)

lemma c_round_minus: "c_round (- x) = - c_round x"
  by (auto simp: c_round_def)

lemma c_round_mono: "x \<le> y \<Longrightarrow> c_round x \<le> c_round y"
  by (auto simp: c_round_def; linarith)

lemma microsteps_minus:
  "calculate_microsteps_from_center_position (- a) arm = - calculate_microsteps_from_center_position a arm"
  by (simp add: calculate_microsteps_from_center_position_def c_round_minus [symmetric])

lemma microsteps_mono:
  assumes "- 90000 \<le> a" "a \<le> a'" "a' \<le> 90000" "0 \<le> arm"
  shows "calculate_microsteps_from_center_position a arm \<le> calculate_microsteps_from_center_position a' arm"
proof -
  have "sin (real_of_int a * pi / 180000) \<le> sin (real_of_int a' * pi / 180000)"
  proof (rule sin_monotone_2pi_le)
    have "- 90000 * pi \<le> real_of_int a * pi" using assms(1) by (intro mult_right_mono) simp_all
    then show "- (pi / 2) \<le> real_of_int a * pi / 180000" by simp
    show "real_of_int a * pi / 180000 \<le> real_of_int a' * pi / 180000"
      using assms(2) by (intro divide_right_mono mult_right_mono) simp_all
    have "real_of_int a' * pi \<le> 90000 * pi" using assms(3) by (intro mult_right_mono) simp_all
    then show "real_of_int a' * pi / 180000 \<le> pi / 2" by simp
  qed
  then show ?thesis
    unfolding calculate_microsteps_from_center_position_def
    using assms(4) by (intro c_round_mono mult_right_mono) (simp_all add: microsteps_per_mm_def)
qed

lemma microsteps_le:
  assumes "sin (d * pi / 180) \<le> t" "real_of_int a = 1000 * d" "0 \<le> arm" "t * arm * 12800 \<le> real_of_int n + 4 / 10"
  shows "calculate_microsteps_from_center_position a arm \<le> n"
proof -
  have "real_of_int a * pi / 180000 = d * pi / 180" unfolding assms(2) by simp
  then have "sin (real_of_int a * pi / 180000) \<le> t" using assms(1) by (simp only:)
  then have "sin (real_of_int a * pi / 180000) * arm * microsteps_per_mm \<le> t * arm * 12800"
    unfolding microsteps_per_mm_def using assms(3) by (intro mult_right_mono) simp_all
  then show ?thesis unfolding calculate_microsteps_from_center_position_def
    using assms(4) by (intro c_round_le) linarith
qed

lemma extreme_microsteps:
  "calculate_microsteps_from_center_position 17500 12 \<le> 55000"
  "calculate_microsteps_from_center_position 9500 (1871 / 100) \<le> 87000"
  "calculate_microsteps_from_center_position 20000 18 \<le> 78848"
  "calculate_microsteps_from_center_position 23000 16 \<le> 83584"
  "calculate_microsteps_from_center_position 45000 16 \<le> 154367"
proof -
  have s: "calculate_microsteps_from_center_position 20000 12 \<le> 55000"
    "calculate_microsteps_from_center_position 20000 (1871 / 100) \<le> 87000"
    by (rule microsteps_le [OF sin_20]; simp)+
  show "calculate_microsteps_from_center_position 17500 12 \<le> 55000"
    "calculate_microsteps_from_center_position 9500 (1871 / 100) \<le> 87000"
    using microsteps_mono [of 17500 20000 12] microsteps_mono [of 9500 20000 "1871 / 100"] s by simp_all
  show "calculate_microsteps_from_center_position 20000 18 \<le> 78848"
    by (rule microsteps_le [OF sin_20]; simp)
  show "calculate_microsteps_from_center_position 23000 16 \<le> 83584"
    by (rule microsteps_le [OF sin_23]; simp)
  show "calculate_microsteps_from_center_position 45000 16 \<le> 154367"
    by (rule microsteps_le [OF sin_45_le]; simp)
qed

lemma stroke_bounds:
  assumes "mirror_angle_min b m \<le> a" "a \<le> mirror_angle_max b m"
  defines "a' \<equiv> if m = MOTOR_PHI_ANGLE then mirror_center_angles m - a else a - mirror_center_angles m"
  defines "p \<equiv> MOTOR_CENTER_FROM_END_STEPS b m + calculate_microsteps_from_center_position a' (motors_arm_length_mm b m)"
  shows "0 \<le> p \<and> p \<le> MOTOR_FULL_RANGE_STEPS b m"
proof -
  have range: "- n \<le> calculate_microsteps_from_center_position x arm \<and> calculate_microsteps_from_center_position x arm \<le> k"
    if "- lo \<le> x" "x \<le> hi" "0 \<le> arm" "lo \<le> 90000" "hi \<le> 90000" "0 \<le> lo" "0 \<le> hi"
      "calculate_microsteps_from_center_position lo arm \<le> n" "calculate_microsteps_from_center_position hi arm \<le> k"
    for x lo hi n k arm
    using microsteps_mono [of "- lo" x arm] microsteps_mono [of x hi arm] microsteps_minus [of lo arm] that by force
  note e = extreme_microsteps
  show ?thesis
  proof (cases b; cases m)
    assume "b = Pearl" "m = MOTOR_THETA_ANGLE"
    then show ?thesis using assms(1,2) range [OF _ _ _ _ _ _ _ e(1) e(1), of a'] by (simp add: p_def a'_def)
  next
    assume "b = Pearl" "m = MOTOR_PHI_ANGLE"
    then show ?thesis using assms(1,2) range [OF _ _ _ _ _ _ _ e(2) e(2), of a'] by (simp add: p_def a'_def)
  next
    assume "b = Diamond" "m = MOTOR_THETA_ANGLE"
    then show ?thesis using assms(1,2) range [OF _ _ _ _ _ _ _ e(3) e(3), of a'] by (simp add: p_def a'_def)
  next
    assume "b = Diamond" "m = MOTOR_PHI_ANGLE"
    then show ?thesis using assms(1,2) range [OF _ _ _ _ _ _ _ e(4) e(5), of a'] by (simp add: p_def a'_def)
  qed
qed

subsection \<open>Homing takes a number of stops\<close>

text \<open>
  Apart from the first poll, which starts the movement, the loop advances exactly at the polls
  that find the motors standing still; \<open>stops\<close> counts those still needed.
\<close>

primrec pearl_stops :: "homing_state \<Rightarrow> nat" where
  "pearl_stops AH_GO_HOME = 2"
| "pearl_stops AH_WAIT_STANDSTILL = 1"
| "pearl_stops AH_SUCCESS = 0"
| "pearl_stops AH_UNINIT = 3"
| "pearl_stops AH_SHIFTED_SIDEWAYS = 3"
| "pearl_stops AH_UP_TO_WALL = 3"
| "pearl_stops AH_THETA_TO_CENTER = 3"
| "pearl_stops AH_THETA_HOMED = 3"

primrec diamond_stops :: "homing_state \<Rightarrow> nat" where
  "diamond_stops AH_UNINIT = 7"
| "diamond_stops AH_SHIFTED_SIDEWAYS = 6"
| "diamond_stops AH_UP_TO_WALL = 5"
| "diamond_stops AH_THETA_TO_CENTER = 4"
| "diamond_stops AH_THETA_HOMED = 3"
| "diamond_stops AH_GO_HOME = 2"
| "diamond_stops AH_WAIT_STANDSTILL = 1"
| "diamond_stops AH_SUCCESS = 0"

definition stops_in :: "(nat \<Rightarrow> bool) \<Rightarrow> nat \<Rightarrow> nat \<Rightarrow> nat" where
  "stops_in poll i j = length (filter poll [i..<j])"

lemma homing_loop_stops:
  assumes step: "\<And>st p s. good st \<Longrightarrow> st \<noteq> AH_SUCCESS \<Longrightarrow>
      good (fst (step st p s)) \<and> stops (fst (step st p s)) = (if p then stops st - 1 else stops st)"
    and stops: "\<And>st. good st \<Longrightarrow> stops st = 0 \<longleftrightarrow> st = AH_SUCCESS"
    and "good st"
  shows "0 < fst (homing_loop step poll i t st s) \<longleftrightarrow> 0 < t \<and> stops st \<le> stops_in poll i (i + t - 1)"
  using assms(3)
proof (induction t arbitrary: i st s)
  case (Suc t)
  show ?case
  proof (cases "st = AH_SUCCESS")
    case True
    then show ?thesis using stops [OF Suc.prems] by simp
  next
    case False
    obtain st' s' where st': "step st (poll i) s = (st', s')" by force
    have g: "good st'" "stops st' = (if poll i then stops st - 1 else stops st)"
      using step [OF Suc.prems False, of "poll i" s] st' by simp_all
    have pos: "0 < stops st" using stops [OF Suc.prems] False by simp
    have "0 < t \<Longrightarrow> stops_in poll i (i + t) = of_bool (poll i) + stops_in poll (Suc i) (i + t)"
      by (simp add: stops_in_def upt_conv_Cons)
    moreover have "t = 0 \<Longrightarrow> stops_in poll i (i + t) = 0" by (simp add: stops_in_def)
    ultimately show ?thesis
      using Suc.IH [OF g(1), of "Suc i" s'] False st' g(2) pos by (cases "t = 0") auto
  qed
qed simp

text \<open>What the loop writes does not touch the semaphores, the other motor or its result.\<close>

lemma spi_emit_simps [simp]:
  "motors (spi_emit es s) = motors s" "homing_sem (spi_emit es s) = homing_sem s"
  "spi_out (spi_emit es s) = spi_out s @ es" "homing_init (spi_emit es s) = homing_init s"
  "homing_started (spi_emit es s) = homing_started s"
  by (simp_all add: spi_emit_def)

lemma set_motor_simps [simp]:
  "motors (set_motor m f s) = (motors s)(m := f (motors s m))" "homing_sem (set_motor m f s) = homing_sem s"
  "spi_out (set_motor m f s) = spi_out s" "homing_init (set_motor m f s) = homing_init s"
  "homing_started (set_motor m f s) = homing_started s"
  by (simp_all add: set_motor_def)

lemma pearl_step_sem: "homing_sem (snd (pearl_homing_step m st p s)) = homing_sem s"
  by (cases "(m, st, p, s)" rule: pearl_homing_step.cases) (simp_all add: Let_def)

lemma diamond_step_sem: "homing_sem (snd (diamond_homing_step st p s)) = homing_sem s"
  by (cases "(st, p, s)" rule: diamond_homing_step.cases) simp_all

lemma pearl_step_other: "m' \<noteq> m \<Longrightarrow> motors (snd (pearl_homing_step m st p s)) m' = motors s m'"
  by (cases "(m, st, p, s)" rule: pearl_homing_step.cases) (simp_all add: Let_def)

lemma homing_loop_keeps:
  assumes "\<And>st p s. f (snd (step st p s)) = f s"
  shows "f (snd (homing_loop step poll i t st s)) = f s"
proof (induction t arbitrary: i st s)
  case (Suc t)
  obtain st' s' where st': "step st (poll i) s = (st', s')" by force
  then have "f s' = f s" using assms [of st "poll i" s] by simp
  then show ?case using Suc.IH [of "Suc i" st' s'] st' by simp
qed simp

lemma pearl_timeout:
  "0 < fst (homing_loop (pearl_homing_step m) poll 0 233 AH_UNINIT s) \<longleftrightarrow> 2 \<le> stops_in poll 1 232"
proof -
  obtain s' where s': "pearl_homing_step m AH_UNINIT (poll 0) s = (AH_GO_HOME, s')" by simp
  have "0 < fst (homing_loop (pearl_homing_step m) poll (Suc 0) 232 AH_GO_HOME s') \<longleftrightarrow>
      0 < (232 :: nat) \<and> pearl_stops AH_GO_HOME \<le> stops_in poll (Suc 0) (Suc 0 + 232 - 1)"
  proof (rule homing_loop_stops [where good = "\<lambda>st. st \<in> {AH_GO_HOME, AH_WAIT_STANDSTILL, AH_SUCCESS}"])
    fix st p s assume "st \<in> {AH_GO_HOME, AH_WAIT_STANDSTILL, AH_SUCCESS}" "st \<noteq> AH_SUCCESS"
    then show "fst (pearl_homing_step m st p s) \<in> {AH_GO_HOME, AH_WAIT_STANDSTILL, AH_SUCCESS} \<and>
      pearl_stops (fst (pearl_homing_step m st p s)) = (if p then pearl_stops st - 1 else pearl_stops st)"
      by (auto simp: Let_def)
  qed auto
  then show ?thesis using s' by (simp add: numeral_eq_Suc del: pearl_homing_step.simps)
qed

lemma diamond_timeout:
  "0 < fst (homing_loop diamond_homing_step poll 0 333 AH_UNINIT s) \<longleftrightarrow> 6 \<le> stops_in poll 1 332"
proof -
  obtain s' where s': "diamond_homing_step AH_UNINIT (poll 0) s = (AH_SHIFTED_SIDEWAYS, s')" by simp
  have "0 < fst (homing_loop diamond_homing_step poll (Suc 0) 332 AH_SHIFTED_SIDEWAYS s') \<longleftrightarrow>
      0 < (332 :: nat) \<and> diamond_stops AH_SHIFTED_SIDEWAYS \<le> stops_in poll (Suc 0) (Suc 0 + 332 - 1)"
  proof (rule homing_loop_stops [where good = "\<lambda>st. st \<noteq> AH_UNINIT"])
    fix st p s assume "st \<noteq> AH_UNINIT" "st \<noteq> AH_SUCCESS"
    then show "fst (diamond_homing_step st p s) \<noteq> AH_UNINIT \<and>
      diamond_stops (fst (diamond_homing_step st p s)) = (if p then diamond_stops st - 1 else diamond_stops st)"
      by (cases st) simp_all
  next
    fix st show "st \<noteq> AH_UNINIT \<Longrightarrow> (diamond_stops st = 0) = (st = AH_SUCCESS)" by (cases st) simp_all
  qed auto
  then show ?thesis using s' by (simp add: numeral_eq_Suc del: diamond_homing_step.simps)
qed

subsection \<open>Properties\<close>

text \<open>
  C13. Setting an absolute angle either fails and leaves everything as it was, or writes one
  target position, which lies within the mechanical stroke of the motor. It fails for an angle
  outside the range of the board and while the motor's last homing has failed. The recorded
  angle is the one given for theta, but its mirror image about the centre for phi.
\<close>

theorem mirror_set_angle_in_stroke:
  assumes "0 \<le> a" and "a < 2 ^ 32"
    and "steps_at_center_position (motors s m) = MOTOR_CENTER_FROM_END_STEPS b m"
  shows "\<exists>p. 0 \<le> p \<and> p \<le> MOTOR_FULL_RANGE_STEPS b m \<and>
    mirror_set_angle b a m s =
      (if a < mirror_angle_min b m \<or> mirror_angle_max b m < a then (RET_ERROR_INVALID_PARAM, s)
       else if motor_state (motors s m) \<noteq> RET_SUCCESS then (motor_state (motors s m), s)
       else (RET_SUCCESS, spi_emit [Write_reg REG_IDX_XTARGET m p]
         (set_motor m (\<lambda>r. r\<lparr>angle_millidegrees := if m = MOTOR_PHI_ANGLE then 90000 - a else a\<rparr>) s)))"
proof (cases "a < mirror_angle_min b m \<or> mirror_angle_max b m < a")
  case True
  have "mirror_set_angle b a m s = (RET_ERROR_INVALID_PARAM, s)"
    using True assms(1,2) by (auto simp: mirror_set_angle_def mirror_check_angle_def Let_def)
  moreover have "0 \<le> MOTOR_FULL_RANGE_STEPS b m" by (cases b; cases m) simp_all
  ultimately show ?thesis using True by (intro exI [of _ 0]) simp
next
  case False
  define a' where "a' = (if m = MOTOR_PHI_ANGLE then mirror_center_angles m - a else a - mirror_center_angles m)"
  define p where "p = MOTOR_CENTER_FROM_END_STEPS b m + calculate_microsteps_from_center_position a' (motors_arm_length_mm b m)"
  have p: "0 \<le> p \<and> p \<le> MOTOR_FULL_RANGE_STEPS b m"
    unfolding p_def a'_def by (rule stroke_bounds) (use False in simp_all)
  have neg: "(if m = MOTOR_PHI_ANGLE then - (a - mirror_center_angles m) else a - mirror_center_angles m) = a'"
    by (simp add: a'_def)
  have "(a' + mirror_center_angles m) mod 2 ^ 32 = (if m = MOTOR_PHI_ANGLE then 90000 - a else a)"
    using False assms(1,2) by (cases b; cases m) (simp_all add: a'_def)
  then have "mirror_set_angle b a m s =
      (if motor_state (motors s m) \<noteq> RET_SUCCESS then (motor_state (motors s m), s)
       else (RET_SUCCESS, spi_emit [Write_reg REG_IDX_XTARGET m p]
         (set_motor m (\<lambda>r. r\<lparr>angle_millidegrees := if m = MOTOR_PHI_ANGLE then 90000 - a else a\<rparr>) s)))"
    using False assms
    by (simp add: mirror_set_angle_def mirror_check_angle_def Let_def mirror_set_angle_from_center_def neg p_def
        mirror_set_stepper_position_def)
  then show ?thesis using p False by (intro exI [of _ p]) simp
qed

lemma mirror_set_angle_in_stroke_witness:
  "\<exists>p. 0 \<le> p \<and> p \<le> 237951 \<and> mirror_set_angle Diamond 0 MOTOR_PHI_ANGLE (mirror_start Diamond) =
     (RET_SUCCESS, spi_emit [Write_reg REG_IDX_XTARGET MOTOR_PHI_ANGLE p]
       (set_motor MOTOR_PHI_ANGLE (\<lambda>r. r\<lparr>angle_millidegrees := 90000\<rparr>) (mirror_start Diamond)))"
  using mirror_set_angle_in_stroke [of 0 "mirror_start Diamond" MOTOR_PHI_ANGLE Diamond]
  by (simp add: mirror_start_def)

text \<open>
  C14. Homing always ends, gives the semaphore back and puts the motors in positioning mode. On
  Pearl it succeeds exactly when the motor is found standing still at two of the polls 1 to
  231, on Diamond when both motors are at six of the polls 1 to 331; a stop that completes the
  procedure at the very last poll still counts as a failure.
\<close>

theorem mirror_homing_result:
  "motor_state (motors (mirror_auto_homing_one_end_thread poll m s) m) =
     (if 2 \<le> stops_in poll 1 232 then RET_SUCCESS else RET_ERROR_INVALID_STATE) \<and>
   homing_sem (mirror_auto_homing_one_end_thread poll m s) = (homing_sem s)(m := True) \<and>
   (\<forall>m'. motor_state (motors (mirror_auto_homing_overreach_end_thread poll s) m') =
     (if 6 \<le> stops_in poll 1 332 then RET_SUCCESS else RET_ERROR_INVALID_STATE)) \<and>
   homing_sem (mirror_auto_homing_overreach_end_thread poll s) = (homing_sem s)(MOTOR_PHI_ANGLE := True)"
proof -
  obtain t1 s1 where l1: "homing_loop (pearl_homing_step m) poll 0 233 AH_UNINIT s = (t1, s1)" by force
  obtain t2 s2 where l2: "homing_loop diamond_homing_step poll 0 333 AH_UNINIT s = (t2, s2)" by force
  have "t1 = 0 \<longleftrightarrow> \<not> 2 \<le> stops_in poll 1 232" using pearl_timeout [of m poll s] l1 by auto
  moreover have "t2 = 0 \<longleftrightarrow> \<not> 6 \<le> stops_in poll 1 332" using diamond_timeout [of poll s] l2 by auto
  moreover have "homing_sem s1 = homing_sem s"
    using homing_loop_keeps [of homing_sem "pearl_homing_step m", OF pearl_step_sem, of poll 0 233 AH_UNINIT s] l1 by simp
  moreover have "homing_sem s2 = homing_sem s"
    using homing_loop_keeps [of homing_sem diamond_homing_step, OF diamond_step_sem, of poll 0 333 AH_UNINIT s] l2 by simp
  moreover have "m' = MOTOR_PHI_ANGLE \<or> m' = MOTOR_THETA_ANGLE" for m' by (cases m') simp_all
  ultimately show ?thesis
    by (auto simp: mirror_auto_homing_one_end_thread_def mirror_auto_homing_overreach_end_thread_def l1 l2 Let_def)
qed

text \<open>
  After a successful initialisation the homing threads are only started. On Pearl both
  motors are then marked as not initialised and every positioning request is refused, and the
  threads wait for the supply to come up; on Diamond the mirror already counts as homed, requests
  move it during homing, and the thread starts without delay.
\<close>

theorem mirror_init_homed_early:
  assumes "mirror_init b True input 0 0 (mirror_start b) = (RET_SUCCESS, s)"
  shows "mirror_auto_homing_in_progress b s \<and> (mirror_homed_successfully s \<longleftrightarrow> b = Diamond) \<and>
    fst (mirror_set_angle b (mirror_center_angles m) m s) = (if b = Diamond then RET_SUCCESS else RET_ERROR_NOT_INITIALIZED) \<and>
    homing_started s = (if b = Pearl then [(MOTOR_THETA_ANGLE, 2000), (MOTOR_PHI_ANGLE, 4000)] else [(MOTOR_PHI_ANGLE, 0)])"
proof (cases b)
  case Pearl
  have "motor_state (motors s x) = RET_ERROR_NOT_INITIALIZED" for x
    using assms Pearl
    by (cases x) (auto simp: mirror_init_def mirror_homing_overreach_ends_async_def pearl_homing_async_def
        mirror_homing_one_end_def mirror_start_def Let_def split: if_splits)
  moreover have "homing_started s = [(MOTOR_THETA_ANGLE, 2000), (MOTOR_PHI_ANGLE, 4000)] \<and> \<not> homing_sem s MOTOR_PHI_ANGLE"
    using assms Pearl
    by (auto simp: mirror_init_def mirror_homing_overreach_ends_async_def pearl_homing_async_def
        mirror_homing_one_end_def mirror_start_def Let_def split: if_splits)
  ultimately show ?thesis using Pearl
    by (cases m) (simp_all add: mirror_homed_successfully_def mirror_auto_homing_in_progress_def mirror_set_angle_def
        mirror_check_angle_def mirror_set_angle_from_center_def)
next
  case Diamond
  have "motor_state (motors s x) = RET_SUCCESS" for x
    using assms Diamond
    by (auto simp: mirror_init_def mirror_homing_overreach_ends_async_def diamond_homing_async_def
        mirror_start_def Let_def spi_emit_def split: if_splits)
  moreover have "homing_started s = [(MOTOR_PHI_ANGLE, 0)] \<and> \<not> homing_sem s MOTOR_PHI_ANGLE"
    using assms Diamond
    by (auto simp: mirror_init_def mirror_homing_overreach_ends_async_def diamond_homing_async_def
        mirror_start_def Let_def spi_emit_def split: if_splits)
  ultimately show ?thesis using Diamond
    by (cases m) (simp_all add: mirror_homed_successfully_def mirror_auto_homing_in_progress_def mirror_set_angle_def
        mirror_check_angle_def mirror_set_angle_from_center_def Let_def)
qed

lemma mirror_init_homed_early_witness:
  "\<exists>s. mirror_init Diamond True 0x10000000 0 0 (mirror_start Diamond) = (RET_SUCCESS, s) \<and>
     mirror_auto_homing_in_progress Diamond s \<and> mirror_homed_successfully s"
proof -
  have "fst (mirror_init Diamond True 0x10000000 0 0 (mirror_start Diamond)) = RET_SUCCESS"
    by (simp add: mirror_init_def mirror_homing_overreach_ends_async_def diamond_homing_async_def
        mirror_start_def Let_def spi_emit_def TMC5041_IC_VERSION_def)
  then obtain s where s: "mirror_init Diamond True 0x10000000 0 0 (mirror_start Diamond) = (RET_SUCCESS, s)"
    by (metis prod.collapse)
  from mirror_init_homed_early [OF s] s show ?thesis by simp
qed

text \<open>
  On Diamond a relative movement of phi is limited to the wrong range: from the centre, a
  request for 45 degrees or more is accepted and drives the motor below position 0, out of its
  stroke, although the largest angle from the centre is 23 degrees.
\<close>

theorem mirror_relative_leaves_stroke:
  assumes "45000 \<le> a" and "motors s MOTOR_PHI_ANGLE = motors (mirror_start Diamond) MOTOR_PHI_ANGLE"
  defines "r \<equiv> mirror_set_angle_relative Diamond (MOTOR_CENTER_FROM_END_STEPS Diamond MOTOR_PHI_ANGLE) a MOTOR_PHI_ANGLE s"
  shows "fst r = RET_SUCCESS \<and> (\<exists>p < 0. last (spi_out (snd r)) = Write_reg REG_IDX_XTARGET MOTOR_PHI_ANGLE p)"
proof -
  have z: "calculate_millidegrees_from_center_position 0 arm = 0" for arm
    by (simp add: calculate_millidegrees_from_center_position_def c_trunc_def)
  let ?p = "83584 + calculate_microsteps_from_center_position (- 45000) 16"
  have "141421 / 100000 \<le> sqrt 2" by (rule real_le_rsqrt) (simp add: power2_eq_square)
  then have "sin (45 * pi / 180) \<ge> (70710 / 100000 :: real)" using sin_45 by simp
  then have "(70710 / 100000) * 16 * 12800 \<le> sin (real_of_int 45000 * pi / 180000) * 16 * microsteps_per_mm"
    unfolding microsteps_per_mm_def by simp
  then have "c_round ((70710 / 100000) * 16 * 12800) \<le> calculate_microsteps_from_center_position 45000 16"
    unfolding calculate_microsteps_from_center_position_def by (rule c_round_mono)
  then have "144814 \<le> calculate_microsteps_from_center_position 45000 16"
    by (simp add: c_round_def)
  then have "?p < 0" using microsteps_minus [of 45000 16] by simp
  then show ?thesis
    using assms(1,2) by (auto simp: r_def mirror_set_angle_relative_def z clamp_def mirror_set_angle_from_center_def
        mirror_start_def Let_def mirror_set_stepper_position_def)
qed

lemma mirror_relative_leaves_stroke_witness:
  "fst (mirror_set_angle_relative Diamond 83584 45000 MOTOR_PHI_ANGLE (mirror_start Diamond)) = RET_SUCCESS"
  using mirror_relative_leaves_stroke [OF order_refl refl] by simp

text \<open>
  The motor controller's datagrams. Reading back the value bytes of a write gives the value
  written; a write sets the top bit of the register byte and a read clears it; and a
  command word sent as a block is the datagram of the write it stands for.
\<close>

theorem mirror_spi_roundtrip:
  "motor_controller_spi_read_value (motor_controller_spi_write reg v) = v \<and>
   length (motor_controller_spi_write reg v) = 5 \<and>
   bit (hd (motor_controller_spi_write reg v)) 7 \<and> \<not> bit (hd (motor_controller_spi_read_request reg)) 7 \<and>
   motor_controller_spi_send_command (push_bit 32 (ucast (reg OR 0x80)) OR ucast v) = motor_controller_spi_write reg v"
proof (intro conjI)
  show "motor_controller_spi_read_value (motor_controller_spi_write reg v) = v"
  proof (rule bit_word_eqI)
    fix n assume "n < LENGTH(32)"
    then show "bit (motor_controller_spi_read_value (motor_controller_spi_write reg v)) n \<longleftrightarrow> bit v n"
      by (cases "n < 8"; cases "n < 16"; cases "n < 24")
        (auto simp: motor_controller_spi_read_value_def motor_controller_spi_write_def spi_byte_def bit_simps)
  qed
  show "length (motor_controller_spi_write reg v) = 5" by (simp add: motor_controller_spi_write_def)
  show "bit (hd (motor_controller_spi_write reg v)) 7"
    by (simp add: motor_controller_spi_write_def bit_simps)
  show "\<not> bit (hd (motor_controller_spi_read_request reg)) 7"
    by (simp add: motor_controller_spi_read_request_def bit_simps)
  show "motor_controller_spi_send_command (push_bit 32 (ucast (reg OR 0x80)) OR ucast v) = motor_controller_spi_write reg v"
    unfolding motor_controller_spi_send_command_def motor_controller_spi_write_def Let_def spi_byte_def list.inject
    by (intro conjI refl TrueI; rule bit_word_eqI) (auto simp: bit_simps dest: bit_imp_le_length)
qed

end
