(* ===== verification/Temperature.thy ===== *)
theory Temperature
  imports Fan "HOL-Library.Signed_Division"
begin

text \<open>
  The temperature sensors and the over-temperature response
  (\<^verbatim>\<open>temperature/sensors/temperature.c\<close>), and the fan command of
  \<^verbatim>\<open>runner/runner.c\<close>. What the drivers, the analog-digital converter and the clock return is an
  argument; the C \<^verbatim>\<open>float\<close> conversion of a sensor's value to degrees is taken as part of the reading.
\<close>

subsection \<open>State\<close>

definition OVERTEMP_TO_NOMINAL_DROP_C :: int where "OVERTEMP_TO_NOMINAL_DROP_C = 5"
definition OVERTEMP_TO_CRITICAL_RISE_C :: int where "OVERTEMP_TO_CRITICAL_RISE_C = 5"
definition CRITICAL_TO_SHUTDOWN_DELAY_MS :: nat where "CRITICAL_TO_SHUTDOWN_DELAY_MS = 10000"
definition TEMPERATURE_AVERAGE_SAMPLE_COUNT :: nat where "TEMPERATURE_AVERAGE_SAMPLE_COUNT = 3"
definition TEMPERATURE_SAMPLE_RETRY_COUNT :: nat where "TEMPERATURE_SAMPLE_RETRY_COUNT = 5"
definition TEMPERATURE_SENTINEL_VALUE :: int where "TEMPERATURE_SENTINEL_VALUE = - 2147483648"

definition MAIN_BOARD_OVERTEMP_C :: int where "MAIN_BOARD_OVERTEMP_C = 80"
definition LIQUID_LENS_OVERTEMP_C :: int where "LIQUID_LENS_OVERTEMP_C = 80"

primrec FRONT_UNIT_OVERTEMP_C :: "board \<Rightarrow> int" where
  "FRONT_UNIT_OVERTEMP_C Pearl = 70"
| "FRONT_UNIT_OVERTEMP_C Diamond = 80"

primrec MCU_DIE_OVERTEMP_C :: "board \<Rightarrow> int" where
  "MCU_DIE_OVERTEMP_C Pearl = 65"
| "MCU_DIE_OVERTEMP_C Diamond = 80"

record overtemp_info =
  overtemp_c :: int
  overtemp_drop_c :: int
  in_overtemp :: bool
  critical_timer :: nat

datatype temp_channel = SENSOR_CHAN_AMBIENT_TEMP | SENSOR_CHAN_DIE_TEMP

datatype temperature_source =
    Src_MAIN_BOARD | Src_LIQUID_LENS | Src_MAIN_MCU | Src_FRONT_UNIT
  | Src_USB_HUB_BOT | Src_USB_HUB_TOP | Src_SECURITY_SUPPLY | Src_AUDIO_AMPLIFIER
  | Src_SUPER_CAP_CHARGER | Src_PVCC_SUPPLY | Src_SUPER_CAPS_BOT | Src_12V_CAPS_BOT
  | Src_850_LEFT_TOP | Src_850_LEFT_BOTTOM | Src_850_RIGHT_TOP | Src_940_LEFT_TOP | Src_940_LEFT_BOTTOM
  | Src_940_RIGHT_TOP | Src_940_RIGHT_BOTTOM | Src_850_CENTER_BOTTOM | Src_WHITE_RGB_LEFT_BOT
  | Src_WHITE_RGB_RIGHT_BOT | Src_SHROUD_RGB_TOP

text \<open>
  \<open>sensor_state\<close> is the published state, \<open>None\<close> where the sensor has none; a sensor has the
  over-temperature callback exactly when it has data for it, except in \<open>has_cb\<close> without data.
\<close>

record sensor_and_channel =
  channel :: temp_channel
  temperature_source :: temperature_source
  sensor_state :: "ret_code_t option"
  has_cb :: bool
  cb_data :: "overtemp_info option"
  history :: "int list"
  history_idx :: nat
  average :: int

definition sensor_entry ::
  "temp_channel \<Rightarrow> temperature_source \<Rightarrow> bool \<Rightarrow> int option \<Rightarrow> sensor_and_channel" where
  "sensor_entry ch src st limit = \<lparr>channel = ch, temperature_source = src,
     sensor_state = (if st then Some RET_ERROR_NOT_INITIALIZED else None), has_cb = (limit \<noteq> None),
     cb_data = map_option (\<lambda>c. \<lparr>overtemp_c = c, overtemp_drop_c = OVERTEMP_TO_NOMINAL_DROP_C,
                                in_overtemp = False, critical_timer = 0\<rparr>) limit,
     history = [0, 0, 0], history_idx = 0, average = TEMPERATURE_SENTINEL_VALUE\<rparr>"

abbreviation ambient :: "temperature_source \<Rightarrow> sensor_and_channel" where
  "ambient src \<equiv> sensor_entry SENSOR_CHAN_AMBIENT_TEMP src False None"

abbreviation ambient_limit :: "temperature_source \<Rightarrow> bool \<Rightarrow> int \<Rightarrow> sensor_and_channel" where
  "ambient_limit src st c \<equiv> sensor_entry SENSOR_CHAN_AMBIENT_TEMP src st (Some c)"

definition fu_avg_entry :: "board \<Rightarrow> sensor_and_channel" where
  "fu_avg_entry b = ambient_limit Src_FRONT_UNIT True (FRONT_UNIT_OVERTEMP_C b)"

definition common_sensors :: "board \<Rightarrow> sensor_and_channel list" where
  "common_sensors b =
    [ambient_limit Src_MAIN_BOARD True MAIN_BOARD_OVERTEMP_C,
     ambient_limit Src_LIQUID_LENS True LIQUID_LENS_OVERTEMP_C,
     sensor_entry SENSOR_CHAN_DIE_TEMP Src_MAIN_MCU False (Some (MCU_DIE_OVERTEMP_C b))]"

fun sensors_and_channels :: "board \<Rightarrow> sensor_and_channel list" where
  "sensors_and_channels Pearl =
     common_sensors Pearl @ [ambient_limit Src_FRONT_UNIT True (FRONT_UNIT_OVERTEMP_C Pearl)]"
| "sensors_and_channels Diamond =
     common_sensors Diamond @
     map ambient [Src_USB_HUB_BOT, Src_USB_HUB_TOP, Src_SECURITY_SUPPLY, Src_AUDIO_AMPLIFIER,
       Src_SUPER_CAP_CHARGER, Src_PVCC_SUPPLY, Src_SUPER_CAPS_BOT, Src_12V_CAPS_BOT] @
     [ambient_limit Src_850_LEFT_TOP False (FRONT_UNIT_OVERTEMP_C Diamond), ambient Src_850_LEFT_BOTTOM,
      ambient_limit Src_850_RIGHT_TOP False (FRONT_UNIT_OVERTEMP_C Diamond),
      ambient_limit Src_940_LEFT_TOP False (FRONT_UNIT_OVERTEMP_C Diamond), ambient Src_940_LEFT_BOTTOM,
      ambient_limit Src_940_RIGHT_TOP False (FRONT_UNIT_OVERTEMP_C Diamond), ambient Src_940_RIGHT_BOTTOM,
      ambient Src_850_CENTER_BOTTOM, ambient Src_WHITE_RGB_LEFT_BOT, ambient Src_WHITE_RGB_RIGHT_BOT,
      ambient_limit Src_SHROUD_RGB_TOP False (FRONT_UNIT_OVERTEMP_C Diamond)]"

datatype temp_event =
    Temperature_report temperature_source int
  | Store_fatal_critical temperature_source
  | Temp_sleep int

text \<open>
  The variables shared by the over-temperature handling of all sensors, with the static
  variables of its functions; \<open>rebooted\<close> is set by \<^verbatim>\<open>sys_reboot\<close>, after which nothing runs.
\<close>

record overtemp_ctl =
  num_sensors_in_overtemp :: nat
  old_num_sensors_in_overtemp :: nat
  fan_speed_before_overtemperature :: nat
  last_system_time :: nat
  global_sample_period :: nat
  temp_fan :: fan
  rebooted :: bool
  temp_out :: "temp_event list"

record thermal =
  sensors :: "sensor_and_channel list"
  fu_avg_sensors :: sensor_and_channel
  ctl :: overtemp_ctl

text \<open>The kernel's conversion of milliseconds to ticks and its tick rate.\<close>

record kernel_clock =
  k_msec :: "nat \<Rightarrow> nat"
  ticks_per_sec :: nat

definition temp_emit :: "temp_event \<Rightarrow> overtemp_ctl \<Rightarrow> overtemp_ctl" where
  "temp_emit e c = c\<lparr>temp_out := temp_out c @ [e]\<rparr>"

definition set_sensor_state :: "ret_code_t \<Rightarrow> sensor_and_channel \<Rightarrow> sensor_and_channel" where
  "set_sensor_state r s = s\<lparr>sensor_state := map_option (\<lambda>_. r) (sensor_state s)\<rparr>"

subsection \<open>Reading a sensor\<close>

text \<open>What one attempt to read a sensor meets; \<open>dev_value\<close> is in whole degrees.\<close>

record temp_reading =
  dev_ready :: bool
  dev_lock :: bool
  dev_fetch :: int
  dev_get :: int
  dev_value :: int
  adc_result :: int
  adc_raw :: nat
  adc_vref_mv :: nat

text \<open>The calibration values of the die sensor, in read-only memory.\<close>

record die_calibration =
  cal1 :: int
  cal1_temp :: int
  cal2 :: int
  cal2_temp :: int
  cal_vref_mv :: int

definition to_int16 :: "int \<Rightarrow> int" where
  "to_int16 x = (x + 2 ^ 15) mod 2 ^ 16 - 2 ^ 15"

definition calculate_die_temperature :: "die_calibration \<Rightarrow> nat \<Rightarrow> nat \<Rightarrow> int" where
  "calculate_die_temperature k vref_mv raw =
    (let t1 = ((cal2_temp k - cal1_temp k) * int raw * int vref_mv sdiv cal_vref_mv k) sdiv (cal2 k - cal1 k);
         t2 = t1 - ((cal2_temp k - cal1_temp k) * cal1 k sdiv (cal2 k - cal1 k))
     in to_int16 (t2 + 30))"

definition get_die_temperature_degree :: "die_calibration \<Rightarrow> temp_reading \<Rightarrow> int \<times> int option" where
  "get_die_temperature_degree k r =
    (if adc_result r \<noteq> 0 then (adc_result r, None)
     else (0, Some (calculate_die_temperature k (adc_vref_mv r) (adc_raw r))))"

definition get_ambient_temperature ::
  "die_calibration \<Rightarrow> temp_channel \<Rightarrow> temp_reading \<Rightarrow> int \<times> int option" where
  "get_ambient_temperature k ch r =
    (if ch = SENSOR_CHAN_DIE_TEMP then get_die_temperature_degree k r
     else if \<not> dev_ready r then (rc RET_ERROR_NOT_INITIALIZED, None)
     else if \<not> dev_lock r then (rc RET_ERROR_BUSY, None)
     else if dev_fetch r \<noteq> 0 then (rc RET_ERROR_INTERNAL, None)
     else if dev_get r \<noteq> 0 then (rc RET_ERROR_INTERNAL, None)
     else (rc RET_SUCCESS, Some (dev_value r)))"

definition init_sensor_and_channel :: "sensor_and_channel \<Rightarrow> sensor_and_channel" where
  "init_sensor_and_channel s =
     s\<lparr>history_idx := 0, history := map (\<lambda>_. TEMPERATURE_SENTINEL_VALUE) (history s)\<rparr>"

text \<open>The mean of the samples rounded to the nearest integer; the mean of three is never halfway.\<close>

definition average_of :: "int list \<Rightarrow> int" where
  "average_of xs = (sum_list xs + 1) div 3"

definition sample_accepted :: "int \<Rightarrow> int \<Rightarrow> bool" where
  "sample_accepted avg x =
    (if avg = TEMPERATURE_SENTINEL_VALUE then - 25 < x \<and> x < 120 else \<bar>x - avg\<bar> < 8)"

text \<open>The attempts from number \<open>RETRY_COUNT - k\<close> on: whether one was accepted.\<close>

fun sample_attempts ::
  "die_calibration \<Rightarrow> (nat \<Rightarrow> temp_reading) \<Rightarrow> nat \<Rightarrow> sensor_and_channel \<Rightarrow> bool \<times> sensor_and_channel" where
  "sample_attempts k rd 0 s = (False, s)"
| "sample_attempts k rd (Suc n) s =
    (let (ret, v) = get_ambient_temperature k (channel s) (rd (TEMPERATURE_SAMPLE_RETRY_COUNT - Suc n));
         s1 = (case v of None \<Rightarrow> s | Some x \<Rightarrow> s\<lparr>history := (history s)[history_idx s := x]\<rparr>)
     in if ret = rc RET_SUCCESS \<and> sample_accepted (average s1) (history s1 ! history_idx s1) then (True, s1)
        else sample_attempts k rd n s1)"

subsection \<open>Over-temperature\<close>

definition temperature_is_in_overtemp :: "overtemp_ctl \<Rightarrow> bool" where
  "temperature_is_in_overtemp c \<longleftrightarrow> 0 < num_sensors_in_overtemp c"

definition check_overtemp_conditions :: "overtemp_ctl \<Rightarrow> overtemp_ctl" where
  "check_overtemp_conditions c =
    (if old_num_sensors_in_overtemp c = 1 \<and> num_sensors_in_overtemp c = 0
     then c\<lparr>temp_fan := fan_set_speed_by_value (fan_speed_before_overtemperature c) (temp_fan c)\<rparr>
     else if old_num_sensors_in_overtemp c = 0 \<and> 0 < num_sensors_in_overtemp c
     then c\<lparr>fan_speed_before_overtemperature := fan_get_speed_setting (temp_fan c),
            temp_fan := fan_set_max_speed (temp_fan c)\<rparr>
     else c)"

definition inc_overtemp_condition :: "overtemp_ctl \<Rightarrow> overtemp_ctl" where
  "inc_overtemp_condition c = check_overtemp_conditions
    (c\<lparr>old_num_sensors_in_overtemp := num_sensors_in_overtemp c,
       num_sensors_in_overtemp := (num_sensors_in_overtemp c + 1) mod 2 ^ 8\<rparr>)"

definition dec_overtemp_condition :: "overtemp_ctl \<Rightarrow> overtemp_ctl" where
  "dec_overtemp_condition c = check_overtemp_conditions
    (c\<lparr>old_num_sensors_in_overtemp := num_sensors_in_overtemp c,
       num_sensors_in_overtemp := (num_sensors_in_overtemp c + 255) mod 2 ^ 8\<rparr>)"

definition report_period_ms :: "kernel_clock \<Rightarrow> overtemp_ctl \<Rightarrow> nat" where
  "report_period_ms clk c =
     global_sample_period c * TEMPERATURE_AVERAGE_SAMPLE_COUNT * 1000 div ticks_per_sec clk"

text \<open>The critical timer after a report above the critical temperature at time \<open>now\<close>.\<close>

definition advance_critical_timer ::
  "kernel_clock \<Rightarrow> nat \<Rightarrow> overtemp_ctl \<Rightarrow> nat \<Rightarrow> nat" where
  "advance_critical_timer clk now c t =
    (let t1 = (if t = 0 then t else nat ((int t + (int now - int (last_system_time c))) mod 2 ^ 32))
     in (t1 + report_period_ms clk c) mod 2 ^ 32)"

definition overtemp_callback ::
  "kernel_clock \<Rightarrow> nat \<Rightarrow> sensor_and_channel \<Rightarrow> overtemp_ctl \<Rightarrow> ret_code_t \<times> sensor_and_channel \<times> overtemp_ctl" where
  "overtemp_callback clk now s c =
    (case cb_data s of
       None \<Rightarrow> (RET_ERROR_INVALID_PARAM, s, c)
     | Some info \<Rightarrow>
       let s1 = (if average s \<le> overtemp_c info then set_sensor_state RET_SUCCESS s else s);
           critical = overtemp_c info + OVERTEMP_TO_CRITICAL_RISE_C < average s;
           info1 = info\<lparr>critical_timer :=
             (if critical then advance_critical_timer clk now c (critical_timer info) else 0)\<rparr>;
           c1 = (if critical then c\<lparr>last_system_time := now\<rparr> else c);
           s2 = (if critical then set_sensor_state RET_ERROR_UNSAFE s1 else s1)
       in if critical \<and> CRITICAL_TO_SHUTDOWN_DELAY_MS < critical_timer info1
          then (RET_SUCCESS, s2\<lparr>cb_data := Some info1\<rparr>,
                (temp_emit (Store_fatal_critical (temperature_source s)) c1)\<lparr>rebooted := True\<rparr>)
          else if \<not> in_overtemp info1 \<and> overtemp_c info1 < average s
          then (RET_SUCCESS, (set_sensor_state RET_ERROR_UNSAFE s2)\<lparr>cb_data := Some (info1\<lparr>in_overtemp := True\<rparr>)\<rparr>,
                inc_overtemp_condition c1)
          else if in_overtemp info1 \<and> average s < overtemp_c info1 - overtemp_drop_c info1
          then (RET_SUCCESS, (set_sensor_state RET_SUCCESS s2)\<lparr>cb_data := Some (info1\<lparr>in_overtemp := False\<rparr>)\<rparr>,
                dec_overtemp_condition c1)
          else (RET_SUCCESS, s2\<lparr>cb_data := Some info1\<rparr>, c1))"

subsection \<open>The thread\<close>

definition temperature_report_internal ::
  "kernel_clock \<Rightarrow> nat \<Rightarrow> sensor_and_channel \<Rightarrow> overtemp_ctl \<Rightarrow> sensor_and_channel \<times> overtemp_ctl" where
  "temperature_report_internal clk now s c =
    (let c1 = temp_emit (Temperature_report (temperature_source s) (average s)) c
     in if has_cb s then snd (overtemp_callback clk now s c1) else (s, c1))"

text \<open>What an accepted sample at the current place does.\<close>

definition sample_done ::
  "kernel_clock \<Rightarrow> nat \<Rightarrow> sensor_and_channel \<Rightarrow> overtemp_ctl \<Rightarrow> sensor_and_channel \<times> overtemp_ctl" where
  "sample_done clk now s c =
    (let s1 = s\<lparr>history_idx := (history_idx s + 1) mod TEMPERATURE_AVERAGE_SAMPLE_COUNT\<rparr>
     in if history_idx s1 = 0
        then temperature_report_internal clk now (s1\<lparr>average := average_of (history s1)\<rparr>) c
        else (s1, c))"

definition sample_and_report_temperature ::
  "die_calibration \<Rightarrow> kernel_clock \<Rightarrow> nat \<Rightarrow> (nat \<Rightarrow> temp_reading) \<Rightarrow>
   sensor_and_channel \<Rightarrow> overtemp_ctl \<Rightarrow> sensor_and_channel \<times> overtemp_ctl" where
  "sample_and_report_temperature k clk now rd s c =
    (let (ok, s1) = sample_attempts k rd TEMPERATURE_SAMPLE_RETRY_COUNT s
     in if \<not> ok then (set_sensor_state RET_ERROR_TIMEOUT (init_sensor_and_channel s1), c)
        else sample_done clk now s1 c)"

text \<open>One turn's readings, for each sensor and attempt, the times of the reports, and how long the turn took in ticks.\<close>

record temp_turn =
  turn_reading :: "nat \<Rightarrow> nat \<Rightarrow> temp_reading"
  turn_time :: "nat \<Rightarrow> nat"
  turn_elapsed :: int

fun sample_all ::
  "die_calibration \<Rightarrow> kernel_clock \<Rightarrow> temp_turn \<Rightarrow> nat \<Rightarrow> sensor_and_channel list \<Rightarrow> overtemp_ctl \<Rightarrow>
   sensor_and_channel list \<times> overtemp_ctl" where
  "sample_all k clk i n [] c = ([], c)"
| "sample_all k clk i n (s # ss) c =
    (if rebooted c then (s # ss, c)
     else let (s', c1) = sample_and_report_temperature k clk (turn_time i n) (turn_reading i n) s c;
              (ss', c2) = sample_all k clk i (n + 1) ss c1
          in (s' # ss', c2))"

text \<open>
  The average of the front unit's sensors on Diamond; the numbers of the sources come from
  the generated message definitions, so which sources are in the range is a parameter.
\<close>

definition front_unit_average ::
  "(temperature_source \<Rightarrow> bool) \<Rightarrow> kernel_clock \<Rightarrow> nat \<Rightarrow> sensor_and_channel list \<Rightarrow>
   sensor_and_channel \<Rightarrow> overtemp_ctl \<Rightarrow> sensor_and_channel \<times> overtemp_ctl" where
  "front_unit_average front clk now ss fu c =
    (let vs = [average s. s \<leftarrow> ss, front (temperature_source s) \<and> average s \<noteq> TEMPERATURE_SENTINEL_VALUE]
     in if vs = [] then (fu, c)
        else sample_done clk now
               (fu\<lparr>history := (history fu)[history_idx fu := sum_list vs sdiv int (length vs)]\<rparr>) c)"

definition temperature_turn ::
  "board \<Rightarrow> (temperature_source \<Rightarrow> bool) \<Rightarrow> die_calibration \<Rightarrow> kernel_clock \<Rightarrow> temp_turn \<Rightarrow> thermal \<Rightarrow> thermal" where
  "temperature_turn b front k clk i th =
    (let c0 = temp_emit (Temp_sleep (int (global_sample_period (ctl th)) - turn_elapsed i)) (ctl th);
         (ss, c1) = sample_all k clk i 0 (sensors th) c0;
         (fu, c2) = (if b = Diamond \<and> \<not> rebooted c1
                     then front_unit_average front clk (turn_time i (length ss)) ss (fu_avg_sensors th) c1
                     else (fu_avg_sensors th, c1))
     in \<lparr>sensors = ss, fu_avg_sensors = fu, ctl = c2\<rparr>)"

subsection \<open>Calls\<close>

definition temperature_set_sampling_period_ms ::
  "kernel_clock \<Rightarrow> nat \<Rightarrow> overtemp_ctl \<Rightarrow> ret_code_t \<times> overtemp_ctl" where
  "temperature_set_sampling_period_ms clk p c =
    (if p < 100 \<or> 15000 < p then (RET_ERROR_INVALID_PARAM, c)
     else (RET_SUCCESS, c\<lparr>global_sample_period := k_msec clk (p div TEMPERATURE_AVERAGE_SAMPLE_COUNT)\<rparr>))"

definition check_ready_sensor :: "bool \<Rightarrow> sensor_and_channel \<Rightarrow> sensor_and_channel" where
  "check_ready_sensor ready s =
     set_sensor_state (if channel s \<noteq> SENSOR_CHAN_DIE_TEMP \<and> \<not> ready then RET_ERROR_NOT_INITIALIZED else RET_SUCCESS) s"

definition temp_check_ready :: "(nat \<Rightarrow> bool) \<Rightarrow> sensor_and_channel list \<Rightarrow> ret_code_t \<times> sensor_and_channel list" where
  "temp_check_ready ready ss =
    ((if \<exists>n\<in>set [0..<length ss]. channel (ss ! n) \<noteq> SENSOR_CHAN_DIE_TEMP \<and> \<not> ready n
      then RET_ERROR_INVALID_STATE else RET_SUCCESS),
     map2 (\<lambda>n. check_ready_sensor (ready n)) [0..<length ss] ss)"

definition temperature_init :: "kernel_clock \<Rightarrow> (nat \<Rightarrow> bool) \<Rightarrow> thermal \<Rightarrow> thermal" where
  "temperature_init clk ready th = th
     \<lparr>sensors := map init_sensor_and_channel (snd (temp_check_ready ready (sensors th))),
      ctl := (ctl th)\<lparr>global_sample_period := k_msec clk (1000 div TEMPERATURE_AVERAGE_SAMPLE_COUNT)\<rparr>\<rparr>"

definition thermal_power_on :: "board \<Rightarrow> fan \<Rightarrow> thermal" where
  "thermal_power_on b f = \<lparr>sensors = sensors_and_channels b, fu_avg_sensors = fu_avg_entry b,
     ctl = \<lparr>num_sensors_in_overtemp = 0, old_num_sensors_in_overtemp = 0, fan_speed_before_overtemperature = 0,
            last_system_time = 0, global_sample_period = 0, temp_fan = f, rebooted = False, temp_out = []\<rparr>\<rparr>"

text \<open>The fan command: the payload's tag, its value, and the acknowledgement.\<close>

datatype fan_payload = Payload_none | Payload_percentage | Payload_value | Payload_other

datatype fan_ack = Ack_SUCCESS | Ack_RANGE | Ack_OVER_TEMPERATURE | Ack_OPERATION_NOT_SUPPORTED

definition handle_fan_speed :: "fan_payload \<Rightarrow> nat \<Rightarrow> overtemp_ctl \<Rightarrow> fan_ack \<times> overtemp_ctl" where
  "handle_fan_speed tag speed c =
    (if temperature_is_in_overtemp c then (Ack_OVER_TEMPERATURE, c)
     else case tag of
       Payload_other \<Rightarrow> (Ack_OPERATION_NOT_SUPPORTED, c)
     | Payload_value \<Rightarrow>
         (if UINT16_MAX < speed then (Ack_RANGE, c)
          else (Ack_SUCCESS, c\<lparr>temp_fan := fan_set_speed_by_value speed (temp_fan c)\<rparr>))
     | _ \<Rightarrow>
         (if 100 < speed then (Ack_RANGE, c)
          else (Ack_SUCCESS, c\<lparr>temp_fan := fan_set_speed_by_percentage speed (temp_fan c)\<rparr>)))"

text \<open>Turns of the thread and commands, in any order.\<close>

datatype thermal_op = Thermal_turn temp_turn | Fan_command fan_payload nat | Period_command nat

fun thermal_exec ::
  "board \<Rightarrow> (temperature_source \<Rightarrow> bool) \<Rightarrow> die_calibration \<Rightarrow> kernel_clock \<Rightarrow> thermal_op \<Rightarrow> thermal \<Rightarrow> thermal" where
  "thermal_exec b front k clk (Thermal_turn i) th = temperature_turn b front k clk i th"
| "thermal_exec b front k clk (Fan_command tag v) th = th\<lparr>ctl := snd (handle_fan_speed tag v (ctl th))\<rparr>"
| "thermal_exec b front k clk (Period_command p) th =
     th\<lparr>ctl := snd (temperature_set_sampling_period_ms clk p (ctl th))\<rparr>"

definition thermal_step ::
  "board \<Rightarrow> (temperature_source \<Rightarrow> bool) \<Rightarrow> die_calibration \<Rightarrow> kernel_clock \<Rightarrow> thermal_op \<Rightarrow> thermal \<Rightarrow> thermal" where
  "thermal_step b front k clk op th = (if rebooted (ctl th) then th else thermal_exec b front k clk op th)"

definition thermal_run ::
  "board \<Rightarrow> (temperature_source \<Rightarrow> bool) \<Rightarrow> die_calibration \<Rightarrow> kernel_clock \<Rightarrow> thermal_op list \<Rightarrow> thermal \<Rightarrow> thermal" where
  "thermal_run b front k clk ops th = fold (thermal_step b front k clk) ops th"


subsection \<open>Effects of the operations\<close>

definition hot :: "sensor_and_channel \<Rightarrow> bool" where
  "hot s \<longleftrightarrow> (case cb_data s of None \<Rightarrow> False | Some info \<Rightarrow> in_overtemp info)"

lemma set_sensor_state_frame [simp]:
  "channel (set_sensor_state r s) = channel s" "temperature_source (set_sensor_state r s) = temperature_source s"
  "has_cb (set_sensor_state r s) = has_cb s" "cb_data (set_sensor_state r s) = cb_data s"
  "history (set_sensor_state r s) = history s" "history_idx (set_sensor_state r s) = history_idx s"
  "average (set_sensor_state r s) = average s" "hot (set_sensor_state r s) = hot s"
  by (simp_all add: set_sensor_state_def hot_def)

lemma init_sensor_frame [simp]:
  "channel (init_sensor_and_channel s) = channel s" "temperature_source (init_sensor_and_channel s) = temperature_source s"
  "has_cb (init_sensor_and_channel s) = has_cb s" "cb_data (init_sensor_and_channel s) = cb_data s"
  "history_idx (init_sensor_and_channel s) = 0" "length (history (init_sensor_and_channel s)) = length (history s)"
  "average (init_sensor_and_channel s) = average s" "hot (init_sensor_and_channel s) = hot s"
  by (simp_all add: init_sensor_and_channel_def hot_def)

lemma check_ready_frame [simp]:
  "hot (check_ready_sensor r s) = hot s" "average (check_ready_sensor r s) = average s"
  "cb_data (check_ready_sensor r s) = cb_data s" "history (check_ready_sensor r s) = history s"
  by (simp_all add: check_ready_sensor_def)

lemma temp_emit_frame [simp]:
  "num_sensors_in_overtemp (temp_emit e c) = num_sensors_in_overtemp c"
  "fan_speed_before_overtemperature (temp_emit e c) = fan_speed_before_overtemperature c"
  "temp_fan (temp_emit e c) = temp_fan c" "rebooted (temp_emit e c) = rebooted c"
  "last_system_time (temp_emit e c) = last_system_time c" "global_sample_period (temp_emit e c) = global_sample_period c"
  by (simp_all add: temp_emit_def)

text \<open>An attempt changes at most the current place of the history.\<close>

lemma sample_attempts_shape:
  assumes "sample_attempts k rd n s = (ok, t)" "history_idx s < length (history s)"
  shows "\<exists>x. t = s\<lparr>history := (history s)[history_idx s := x]\<rparr> \<and> (ok \<longrightarrow> sample_accepted (average s) x)"
  using assms
proof (induction k rd n s rule: sample_attempts.induct)
  case (1 k rd s)
  then have "t = s\<lparr>history := (history s)[history_idx s := history s ! history_idx s]\<rparr> \<and> \<not> ok" by simp
  then show ?case by blast
next
  case (2 k rd n s)
  obtain ret v where g: "get_ambient_temperature k (channel s) (rd (TEMPERATURE_SAMPLE_RETRY_COUNT - Suc n)) = (ret, v)"
    by fastforce
  define x where "x = (case v of None \<Rightarrow> history s ! history_idx s | Some x \<Rightarrow> x)"
  define s1 where "s1 = s\<lparr>history := (history s)[history_idx s := x]\<rparr>"
  have s1: "(case v of None \<Rightarrow> s | Some x \<Rightarrow> s\<lparr>history := (history s)[history_idx s := x]\<rparr>) = s1"
    by (simp add: s1_def x_def split: option.split)
  have x: "history s1 ! history_idx s1 = x" using "2.prems"(2) by (simp add: s1_def)
  show ?case
  proof (cases "ret = rc RET_SUCCESS \<and> sample_accepted (average s1) x")
    case True
    then have "t = s1" using "2.prems"(1) g by (simp add: s1 x)
    then show ?thesis using True unfolding s1_def by auto
  next
    case False
    then have t: "sample_attempts k rd n s1 = (ok, t)" using "2.prems"(1) g by (auto simp: s1 x)
    have "\<exists>y. t = s1\<lparr>history := (history s1)[history_idx s1 := y]\<rparr> \<and> (ok \<longrightarrow> sample_accepted (average s1) y)"
      by (rule "2.IH" [OF refl g [symmetric] s1 [symmetric]]) (use False x t "2.prems"(2) in \<open>auto simp: s1_def\<close>)
    then show ?thesis by (auto simp: s1_def)
  qed
qed

lemma callback_frame:
  assumes "overtemp_callback clk now s c = (r, t, d)"
  shows "channel t = channel s \<and> temperature_source t = temperature_source s \<and> has_cb t = has_cb s \<and>
    history t = history s \<and> history_idx t = history_idx s \<and> average t = average s"
  using assms by (auto simp: overtemp_callback_def Let_def split: option.splits if_splits)

text \<open>The sensor is in over-temperature after a report exactly when it is above its threshold, or was in and has not dropped enough.\<close>

lemma callback_hot:
  assumes "overtemp_callback clk now s c = (r, t, d)" "cb_data s = Some info" "\<not> rebooted d"
    and "0 \<le> overtemp_drop_c info"
  shows "hot t \<longleftrightarrow> overtemp_c info < average s \<or> hot s \<and> overtemp_c info - overtemp_drop_c info \<le> average s"
  using assms by (auto simp: overtemp_callback_def hot_def Let_def split: option.splits if_splits)

lemma callback_data:
  assumes "overtemp_callback clk now s c = (r, t, d)"
  shows "map_option overtemp_c (cb_data t) = map_option overtemp_c (cb_data s) \<and>
    map_option overtemp_drop_c (cb_data t) = map_option overtemp_drop_c (cb_data s)"
  using assms by (auto simp: overtemp_callback_def Let_def split: option.splits if_splits)

subsection \<open>The number of sensors in over-temperature and the fan\<close>

text \<open>The speed asked for, which the fan has, or will get back.\<close>

definition requested :: "overtemp_ctl \<Rightarrow> nat" where
  "requested c = (if 0 < num_sensors_in_overtemp c then fan_speed_before_overtemperature c
                  else fan_speed_by_value (temp_fan c))"

definition fan_emergency :: "overtemp_ctl \<Rightarrow> bool" where
  "fan_emergency c \<longleftrightarrow> (0 < num_sensors_in_overtemp c \<longrightarrow> fan_speed_by_value (temp_fan c) = 65535)"

lemma fan_max_value [simp]: "fan_speed_by_value (fan_set_max_speed f) = 65535"
  by (simp add: fan_set_max_speed_def percentage_value)

lemma inc_effect:
  assumes "num_sensors_in_overtemp c < 255"
  shows "num_sensors_in_overtemp (inc_overtemp_condition c) = num_sensors_in_overtemp c + 1"
    and "requested (inc_overtemp_condition c) = requested c"
    and "fan_emergency c \<Longrightarrow> fan_emergency (inc_overtemp_condition c)"
  using assms by (auto simp: inc_overtemp_condition_def check_overtemp_conditions_def requested_def fan_emergency_def
      fan_get_speed_setting_def)

lemma dec_effect:
  assumes "0 < num_sensors_in_overtemp c" "num_sensors_in_overtemp c < 256"
  shows "num_sensors_in_overtemp (dec_overtemp_condition c) = num_sensors_in_overtemp c - 1"
    and "requested (dec_overtemp_condition c) = requested c"
    and "fan_emergency c \<Longrightarrow> fan_emergency (dec_overtemp_condition c)"
proof -
  have m: "(num_sensors_in_overtemp c + 255) mod 256 = num_sensors_in_overtemp c - 1"
    using assms by (simp add: mod_if)
  then show "num_sensors_in_overtemp (dec_overtemp_condition c) = num_sensors_in_overtemp c - 1"
    by (simp add: dec_overtemp_condition_def check_overtemp_conditions_def)
  show "requested (dec_overtemp_condition c) = requested c"
    "fan_emergency c \<Longrightarrow> fan_emergency (dec_overtemp_condition c)"
    using m assms by (auto simp: dec_overtemp_condition_def check_overtemp_conditions_def requested_def fan_emergency_def)
qed

text \<open>\<open>n0\<close> is the number of other sensors in over-temperature.\<close>

lemma callback_count:
  assumes "overtemp_callback clk now s c = (r, t, d)"
    and "num_sensors_in_overtemp c = n0 + of_bool (hot s)" "n0 < 255"
  shows "num_sensors_in_overtemp d = n0 + of_bool (hot t) \<and> requested d = requested c \<and>
    (fan_emergency c \<longrightarrow> fan_emergency d)"
proof (cases "cb_data s")
  case None
  then show ?thesis using assms by (auto simp: overtemp_callback_def)
next
  case (Some info)
  define c1 where "c1 = (if overtemp_c info + OVERTEMP_TO_CRITICAL_RISE_C < average s then c\<lparr>last_system_time := now\<rparr> else c)"
  have c1: "num_sensors_in_overtemp c1 = n0 + of_bool (in_overtemp info)" "requested c1 = requested c"
    "fan_emergency c1 = fan_emergency c"
    using assms(2) Some by (simp_all add: c1_def hot_def requested_def fan_emergency_def)
  have "d = inc_overtemp_condition c1 \<and> \<not> in_overtemp info \<and> hot t
      \<or> d = dec_overtemp_condition c1 \<and> in_overtemp info \<and> \<not> hot t
      \<or> num_sensors_in_overtemp d = num_sensors_in_overtemp c1 \<and> requested d = requested c1 \<and>
        fan_emergency d = fan_emergency c1 \<and> hot t = in_overtemp info"
    using assms(1) unfolding overtemp_callback_def Let_def Some option.case c1_def [symmetric]
    by (auto simp: hot_def temp_emit_def requested_def fan_emergency_def split: if_splits)
  then show ?thesis
    using c1 inc_effect [of c1] dec_effect [of c1] assms(3) by auto
qed

subsection \<open>Samples\<close>

text \<open>The places before the current one hold accepted samples.\<close>

definition sensor_ok :: "sensor_and_channel \<Rightarrow> bool" where
  "sensor_ok s \<longleftrightarrow> length (history s) = 3 \<and> history_idx s < 3 \<and>
     (\<forall>j<history_idx s. sample_accepted (average s) (history s ! j))"

lemma sensor_ok_cong:
  "history t = history s \<Longrightarrow> history_idx t = history_idx s \<Longrightarrow> average t = average s \<Longrightarrow> sensor_ok t = sensor_ok s"
  by (simp add: sensor_ok_def)

lemma hot_cong: "cb_data t = cb_data s \<Longrightarrow> hot t = hot s"
  by (simp add: hot_def)

text \<open>How an average can change: the mean of three accepted samples.\<close>

definition average_moves :: "int \<Rightarrow> int \<Rightarrow> bool" where
  "average_moves a a' \<longleftrightarrow> a' = a \<or>
     (if a = TEMPERATURE_SENTINEL_VALUE then - 24 \<le> a' \<and> a' \<le> 119 else \<bar>a' - a\<bar> \<le> 7)"

lemma average_accepted:
  assumes "length h = 3" "\<forall>j<3. sample_accepted a (h ! j)"
  shows "average_moves a (average_of h)"
proof -
  obtain x y z where h: "h = [x, y, z]" using assms(1) by (auto simp: numeral_3_eq_3 length_Suc_conv)
  have "sample_accepted a x" "sample_accepted a y" "sample_accepted a z"
    using assms(2) by (simp_all add: h numeral_3_eq_3 All_less_Suc)
  then show ?thesis
    by (auto simp: average_moves_def average_of_def sample_accepted_def h split: if_splits)
qed

lemma report_internal_effect:
  assumes "temperature_report_internal clk now s c = (t, d)"
  shows "history t = history s \<and> history_idx t = history_idx s \<and> average t = average s \<and> has_cb t = has_cb s \<and>
      map_option overtemp_c (cb_data t) = map_option overtemp_c (cb_data s) \<and>
      map_option overtemp_drop_c (cb_data t) = map_option overtemp_drop_c (cb_data s)"
    and "num_sensors_in_overtemp c = n0 + of_bool (hot s) \<Longrightarrow> n0 < 255 \<Longrightarrow>
      num_sensors_in_overtemp d = n0 + of_bool (hot t) \<and> requested d = requested c \<and>
      (fan_emergency c \<longrightarrow> fan_emergency d)"
proof -
  define c1 where "c1 = temp_emit (Temperature_report (temperature_source s) (average s)) c"
  have c1: "num_sensors_in_overtemp c1 = num_sensors_in_overtemp c" "requested c1 = requested c"
    "fan_emergency c1 = fan_emergency c"
    by (simp_all add: c1_def requested_def fan_emergency_def)
  have td: "has_cb s \<and> overtemp_callback clk now s c1 = (fst (overtemp_callback clk now s c1), t, d)
      \<or> \<not> has_cb s \<and> t = s \<and> d = c1"
    using assms by (auto simp: temperature_report_internal_def c1_def [symmetric] Let_def split: if_splits)
      (metis prod.collapse)
  then show "history t = history s \<and> history_idx t = history_idx s \<and> average t = average s \<and> has_cb t = has_cb s \<and>
      map_option overtemp_c (cb_data t) = map_option overtemp_c (cb_data s) \<and>
      map_option overtemp_drop_c (cb_data t) = map_option overtemp_drop_c (cb_data s)"
    using callback_frame [of clk now s c1 _ t d] callback_data [of clk now s c1 _ t d] by blast
  assume "num_sensors_in_overtemp c = n0 + of_bool (hot s)" "n0 < 255"
  then show "num_sensors_in_overtemp d = n0 + of_bool (hot t) \<and> requested d = requested c \<and>
      (fan_emergency c \<longrightarrow> fan_emergency d)"
    using td callback_count [of clk now s c1 _ t d n0] c1 by auto
qed

lemma sample_done_sensor:
  assumes "sample_done clk now s c = (t, d)" "length (history s) = 3" "history_idx s < 3"
    and "\<forall>j\<le>history_idx s. sample_accepted (average s) (history s ! j)"
  shows "sensor_ok t \<and> average_moves (average s) (average t)"
proof -
  define s1 where "s1 = s\<lparr>history_idx := (history_idx s + 1) mod 3\<rparr>"
  define s2 where "s2 = s1\<lparr>average := average_of (history s1)\<rparr>"
  have d: "sample_done clk now s c = (if history_idx s1 = 0 then temperature_report_internal clk now s2 c else (s1, c))"
    by (simp add: sample_done_def TEMPERATURE_AVERAGE_SAMPLE_COUNT_def Let_def s1_def s2_def)
  show ?thesis
  proof (cases "history_idx s1 = 0")
    case True
    then have r: "temperature_report_internal clk now s2 c = (t, d)" using d assms(1) by simp
    have "history_idx s = 2" using True assms(3) by (simp add: s1_def) presburger
    then have "\<forall>j<3. sample_accepted (average s) (history s ! j)" using assms(4) by simp
    then have "average_moves (average s) (average_of (history s))" using average_accepted assms(2) by blast
    then show ?thesis using report_internal_effect(1) [OF r] True assms(2)
      by (simp add: sensor_ok_def s1_def s2_def)
  next
    case False
    then have "t = s1" using d assms(1) by simp
    then show ?thesis using False assms(2-4) by (auto simp: sensor_ok_def s1_def average_moves_def mod_Suc split: if_splits)
  qed
qed

lemma sample_done_count:
  assumes "sample_done clk now s c = (t, d)"
    and n: "num_sensors_in_overtemp c = n0 + of_bool (hot s)" "n0 < 255"
  shows "num_sensors_in_overtemp d = n0 + of_bool (hot t) \<and> requested d = requested c \<and>
      (fan_emergency c \<longrightarrow> fan_emergency d)"
proof -
  define s1 where "s1 = s\<lparr>history_idx := (history_idx s + 1) mod 3\<rparr>"
  define s2 where "s2 = s1\<lparr>average := average_of (history s1)\<rparr>"
  have d: "sample_done clk now s c = (if history_idx s1 = 0 then temperature_report_internal clk now s2 c else (s1, c))"
    by (simp add: sample_done_def TEMPERATURE_AVERAGE_SAMPLE_COUNT_def Let_def s1_def s2_def)
  have hot: "hot s1 = hot s" "hot s2 = hot s" by (simp_all add: s1_def s2_def hot_def)
  show ?thesis
  proof (cases "history_idx s1 = 0")
    case True
    then show ?thesis using d assms(1) n report_internal_effect(2) [of clk now s2 c t d n0] hot by simp
  next
    case False
    then have "t = s1" "d = c" using d assms(1) by auto
    then show ?thesis using n hot by simp
  qed
qed

lemma sample_and_report_effect:
  assumes "sample_and_report_temperature k clk now rd s c = (t, d)" "sensor_ok s"
  shows "sensor_ok t \<and> average_moves (average s) (average t)"
    and "num_sensors_in_overtemp c = n0 + of_bool (hot s) \<Longrightarrow> n0 < 255 \<Longrightarrow>
      num_sensors_in_overtemp d = n0 + of_bool (hot t) \<and> requested d = requested c \<and>
      (fan_emergency c \<longrightarrow> fan_emergency d)"
proof -
  obtain ok s1 where a: "sample_attempts k rd TEMPERATURE_SAMPLE_RETRY_COUNT s = (ok, s1)" by fastforce
  obtain x where s1: "s1 = s\<lparr>history := (history s)[history_idx s := x]\<rparr>" and x: "ok \<longrightarrow> sample_accepted (average s) x"
    using sample_attempts_shape [OF a] assms(2) by (auto simp: sensor_ok_def)
  have td: "(t, d) = (if \<not> ok then (set_sensor_state RET_ERROR_TIMEOUT (init_sensor_and_channel s1), c)
      else sample_done clk now s1 c)"
    using assms(1) a by (simp add: sample_and_report_temperature_def)
  have h: "hot s1 = hot s" by (simp add: s1 hot_def)
  have ok: "length (history s1) = 3" "history_idx s1 < 3" "average s1 = average s"
    "ok \<Longrightarrow> \<forall>j\<le>history_idx s1. sample_accepted (average s1) (history s1 ! j)"
    using assms(2) x by (auto simp: sensor_ok_def s1 nth_list_update)
  show "sensor_ok t \<and> average_moves (average s) (average t)"
  proof (cases ok)
    case True
    then show ?thesis using td ok sample_done_sensor [of clk now s1 c t d] by simp
  next
    case False
    then show ?thesis using td ok by (simp add: sensor_ok_def average_moves_def)
  qed
  assume n: "num_sensors_in_overtemp c = n0 + of_bool (hot s)" "n0 < 255"
  show "num_sensors_in_overtemp d = n0 + of_bool (hot t) \<and> requested d = requested c \<and>
      (fan_emergency c \<longrightarrow> fan_emergency d)"
  proof (cases ok)
    case True
    then show ?thesis using td ok n h sample_done_count [of clk now s1 c t d n0] by simp
  next
    case False
    then show ?thesis using td n h by simp
  qed
qed

definition hot_count :: "sensor_and_channel list \<Rightarrow> nat" where
  "hot_count ss = length (filter hot ss)"

lemma hot_count_simps [simp]:
  "hot_count [] = 0" "hot_count (s # ss) = of_bool (hot s) + hot_count ss" "hot_count (ss @ ts) = hot_count ss + hot_count ts"
  by (simp_all add: hot_count_def)

lemma hot_count_le: "hot_count ss \<le> length ss"
  by (simp add: hot_count_def)

lemma sample_all_Cons:
  assumes "sample_all k clk i n (s # ss) c = (ts, d)" "\<not> rebooted c"
  obtains s' c1 ss' where "sample_and_report_temperature k clk (turn_time i n) (turn_reading i n) s c = (s', c1)"
    and "sample_all k clk i (n + 1) ss c1 = (ss', d)" and "ts = s' # ss'"
  using assms by (auto split: prod.splits)

lemma sample_all_sensors:
  "sample_all k clk i n ss c = (ts, d) \<Longrightarrow> \<forall>s\<in>set ss. sensor_ok s \<Longrightarrow>
    length ts = length ss \<and> (\<forall>s\<in>set ts. sensor_ok s) \<and>
    (\<forall>j<length ss. average_moves (average (ss ! j)) (average (ts ! j)))"
proof (induction ss arbitrary: n c ts)
  case (Cons s ss)
  have refl: "average_moves a a" for a by (simp add: average_moves_def)
  show ?case
  proof (cases "rebooted c")
    case True
    then show ?thesis using Cons.prems refl by auto
  next
    case False
    obtain s' c1 ss' where r: "sample_and_report_temperature k clk (turn_time i n) (turn_reading i n) s c = (s', c1)"
      and a: "sample_all k clk i (n + 1) ss c1 = (ss', d)" and ts: "ts = s' # ss'"
      by (rule sample_all_Cons [OF Cons.prems(1) False])
    have "sensor_ok s' \<and> average_moves (average s) (average s')"
      using sample_and_report_effect(1) [OF r] Cons.prems(2) by simp
    then show ?thesis using Cons.IH [OF a] Cons.prems(2) by (auto simp: ts nth_Cons split: nat.split)
  qed
qed simp

lemma sample_all_count:
  "sample_all k clk i n ss c = (ts, d) \<Longrightarrow> \<forall>s\<in>set ss. sensor_ok s \<Longrightarrow>
    num_sensors_in_overtemp c = n0 + hot_count ss \<Longrightarrow> n0 + length ss \<le> 255 \<Longrightarrow>
    num_sensors_in_overtemp d = n0 + hot_count ts \<and> requested d = requested c \<and> (fan_emergency c \<longrightarrow> fan_emergency d)"
proof (induction ss arbitrary: n c ts n0)
  case (Cons s ss)
  show ?case
  proof (cases "rebooted c")
    case True
    then show ?thesis using Cons.prems by auto
  next
    case False
    obtain s' c1 ss' where r: "sample_and_report_temperature k clk (turn_time i n) (turn_reading i n) s c = (s', c1)"
      and a: "sample_all k clk i (n + 1) ss c1 = (ss', d)" and ts: "ts = s' # ss'"
      by (rule sample_all_Cons [OF Cons.prems(1) False])
    have n: "n0 + hot_count ss < 255" "num_sensors_in_overtemp c = n0 + hot_count ss + of_bool (hot s)"
      using Cons.prems(3,4) hot_count_le [of ss] by simp_all
    have c1: "num_sensors_in_overtemp c1 = n0 + hot_count ss + of_bool (hot s')" "requested c1 = requested c"
      "fan_emergency c \<longrightarrow> fan_emergency c1"
      using sample_and_report_effect(2) [OF r _ n(2,1)] Cons.prems(2) by simp_all
    have "num_sensors_in_overtemp c1 = (n0 + of_bool (hot s')) + hot_count ss" using c1(1) by simp
    moreover have "n0 + of_bool (hot s') + length ss \<le> 255" using Cons.prems(4) by simp
    ultimately have "num_sensors_in_overtemp d = n0 + of_bool (hot s') + hot_count ss' \<and>
        requested d = requested c1 \<and> (fan_emergency c1 \<longrightarrow> fan_emergency d)"
      using Cons.IH [OF a] Cons.prems(2) by simp
    then show ?thesis using c1(2,3) by (simp add: ts)
  qed
qed simp

subsection \<open>The whole response\<close>

definition thermal_ok :: "thermal \<Rightarrow> bool" where
  "thermal_ok th \<longleftrightarrow> (\<forall>s\<in>set (sensors th). sensor_ok s) \<and> length (sensors th) \<le> 22 \<and>
     num_sensors_in_overtemp (ctl th) = hot_count (sensors th @ [fu_avg_sensors th]) \<and> fan_emergency (ctl th)"

lemma front_unit_count:
  assumes "front_unit_average front clk now ss fu c = (t, d)"
    and "num_sensors_in_overtemp c = n0 + of_bool (hot fu)" "n0 < 255"
  shows "num_sensors_in_overtemp d = n0 + of_bool (hot t) \<and> requested d = requested c \<and>
      (fan_emergency c \<longrightarrow> fan_emergency d)"
  using assms sample_done_count [of clk now _ c t d n0]
  by (auto simp: front_unit_average_def Let_def hot_def split: if_splits)

lemma turn_effect:
  assumes "thermal_ok th"
  shows "thermal_ok (temperature_turn b front k clk i th)"
    and "requested (ctl (temperature_turn b front k clk i th)) = requested (ctl th)"
    and "length (sensors (temperature_turn b front k clk i th)) = length (sensors th)"
    and "\<forall>j<length (sensors th). average_moves (average (sensors th ! j))
      (average (sensors (temperature_turn b front k clk i th) ! j))"
proof -
  define c0 where "c0 = temp_emit (Temp_sleep (int (global_sample_period (ctl th)) - turn_elapsed i)) (ctl th)"
  obtain ss c1 where a: "sample_all k clk i 0 (sensors th) c0 = (ss, c1)" by fastforce
  define q where "q = (if b = Diamond \<and> \<not> rebooted c1
      then front_unit_average front clk (turn_time i (length ss)) ss (fu_avg_sensors th) c1 else (fu_avg_sensors th, c1))"
  obtain fu c2 where q: "q = (fu, c2)" by fastforce
  have t: "temperature_turn b front k clk i th = \<lparr>sensors = ss, fu_avg_sensors = fu, ctl = c2\<rparr>"
    using a q by (simp add: temperature_turn_def c0_def [symmetric] q_def [symmetric] Let_def)
  have ok: "\<forall>s\<in>set (sensors th). sensor_ok s" "length (sensors th) \<le> 22" "fan_emergency c0"
    "num_sensors_in_overtemp c0 = of_bool (hot (fu_avg_sensors th)) + hot_count (sensors th)"
    "requested c0 = requested (ctl th)"
    using assms by (simp_all add: thermal_ok_def c0_def fan_emergency_def requested_def)
  have s: "length ss = length (sensors th)" "\<forall>s\<in>set ss. sensor_ok s"
    "\<forall>j<length (sensors th). average_moves (average (sensors th ! j)) (average (ss ! j))"
    using sample_all_sensors [OF a ok(1)] by simp_all
  have "of_bool (hot (fu_avg_sensors th)) + length (sensors th) \<le> 255" using ok(2) by simp
  from sample_all_count [OF a ok(1,4) this]
  have c1: "num_sensors_in_overtemp c1 = hot_count ss + of_bool (hot (fu_avg_sensors th))"
    "requested c1 = requested (ctl th)" "fan_emergency c1" using ok(3,5) by simp_all
  have "hot_count ss < 255" using hot_count_le [of ss] s(1) ok(2) by linarith
  then have c2: "num_sensors_in_overtemp c2 = hot_count ss + of_bool (hot fu) \<and> requested c2 = requested c1 \<and> fan_emergency c2"
    using q c1 front_unit_count [of front clk "turn_time i (length ss)" ss "fu_avg_sensors th" c1 fu c2 "hot_count ss"]
    by (auto simp: q_def split: if_splits)
  show "thermal_ok (temperature_turn b front k clk i th)"
    "requested (ctl (temperature_turn b front k clk i th)) = requested (ctl th)"
    "length (sensors (temperature_turn b front k clk i th)) = length (sensors th)"
    "\<forall>j<length (sensors th). average_moves (average (sensors th ! j))
      (average (sensors (temperature_turn b front k clk i th) ! j))"
    using s c1 c2 ok(2) by (simp_all add: t thermal_ok_def)
qed

text \<open>A command changes the requested speed when it is acknowledged as a success.\<close>

definition requested_after :: "thermal_op \<Rightarrow> overtemp_ctl \<Rightarrow> nat \<Rightarrow> nat" where
  "requested_after op c r =
    (case op of Fan_command tag v \<Rightarrow>
       (if \<not> rebooted c \<and> fst (handle_fan_speed tag v c) = Ack_SUCCESS
        then (if tag = Payload_value then v else 65535 * v div 100) else r)
     | _ \<Rightarrow> r)"

fun requested_by ::
  "board \<Rightarrow> (temperature_source \<Rightarrow> bool) \<Rightarrow> die_calibration \<Rightarrow> kernel_clock \<Rightarrow> thermal_op list \<Rightarrow> thermal \<Rightarrow> nat \<Rightarrow> nat" where
  "requested_by b front k clk [] th r = r"
| "requested_by b front k clk (op # ops) th r =
     requested_by b front k clk ops (thermal_step b front k clk op th) (requested_after op (ctl th) r)"

lemma fan_command_effect:
  "num_sensors_in_overtemp (snd (handle_fan_speed tag v c)) = num_sensors_in_overtemp c"
  "fan_emergency c \<Longrightarrow> fan_emergency (snd (handle_fan_speed tag v c))"
  "\<not> rebooted c \<Longrightarrow> requested (snd (handle_fan_speed tag v c)) = requested_after (Fan_command tag v) c (requested c)"
  by (auto simp: handle_fan_speed_def temperature_is_in_overtemp_def fan_emergency_def requested_def requested_after_def
      percentage_value UINT16_MAX_def split: fan_payload.split)

lemma period_effect:
  "num_sensors_in_overtemp (snd (temperature_set_sampling_period_ms clk p c)) = num_sensors_in_overtemp c"
  "fan_emergency (snd (temperature_set_sampling_period_ms clk p c)) = fan_emergency c"
  "requested (snd (temperature_set_sampling_period_ms clk p c)) = requested c"
  by (simp_all add: temperature_set_sampling_period_ms_def fan_emergency_def requested_def)

lemma step_effect:
  assumes "thermal_ok th"
  shows "thermal_ok (thermal_step b front k clk op th)"
    and "requested (ctl (thermal_step b front k clk op th)) = requested_after op (ctl th) (requested (ctl th))"
    and "length (sensors (thermal_step b front k clk op th)) = length (sensors th)"
    and "\<forall>j<length (sensors th). average_moves (average (sensors th ! j))
      (average (sensors (thermal_step b front k clk op th) ! j))"
proof -
  have refl: "average_moves a a" for a by (simp add: average_moves_def)
  show "thermal_ok (thermal_step b front k clk op th)"
  proof (cases op)
    case (Thermal_turn i)
    then show ?thesis using assms turn_effect(1) by (simp add: thermal_step_def)
  qed (use assms in \<open>simp_all add: thermal_step_def thermal_ok_def fan_command_effect period_effect\<close>)
  show "requested (ctl (thermal_step b front k clk op th)) = requested_after op (ctl th) (requested (ctl th))"
    using assms turn_effect(2) fan_command_effect(3)
    by (cases op) (simp_all add: thermal_step_def period_effect, simp_all add: requested_after_def)
  show "length (sensors (thermal_step b front k clk op th)) = length (sensors th)"
    using turn_effect(3) [OF assms] by (cases op) (simp_all add: thermal_step_def)
  show "\<forall>j<length (sensors th). average_moves (average (sensors th ! j))
      (average (sensors (thermal_step b front k clk op th) ! j))"
    using turn_effect(4) [OF assms] refl by (cases op) (simp_all add: thermal_step_def)
qed

lemma run_effect:
  assumes "thermal_ok th"
  shows "thermal_ok (thermal_run b front k clk ops th) \<and>
    requested (ctl (thermal_run b front k clk ops th)) = requested_by b front k clk ops th (requested (ctl th)) \<and>
    length (sensors (thermal_run b front k clk ops th)) = length (sensors th)"
  using assms
  by (induction ops arbitrary: th) (simp_all add: thermal_run_def step_effect)

lemma init_history: "length (history s) = 3 \<Longrightarrow> sensor_ok (init_sensor_and_channel s)"
  by (simp add: sensor_ok_def)

lemma check_ready_sensors:
  "snd (temp_check_ready ready ss) = map2 (\<lambda>n. check_ready_sensor (ready n)) [0..<length ss] ss"
  by (simp add: temp_check_ready_def)

lemma sensor_table:
  "\<forall>s\<in>set (sensors_and_channels b). length (history s) = 3 \<and> \<not> hot s"
  "length (sensors_and_channels b) \<le> 22" "\<not> hot (fu_avg_entry b)"
  by (cases b; simp add: common_sensors_def sensor_entry_def hot_def fu_avg_entry_def)+

lemma init_thermal_ok:
  "thermal_ok (temperature_init clk ready (thermal_power_on b f))"
  "requested (ctl (temperature_init clk ready (thermal_power_on b f))) = fan_speed_by_value f"
proof -
  let ?ss = "sensors_and_channels b"
  let ?ts = "map2 (\<lambda>n. check_ready_sensor (ready n)) [0..<length ?ss] ?ss"
  have "\<forall>s\<in>set (map init_sensor_and_channel ?ts). sensor_ok s \<and> \<not> hot s"
    using sensor_table(1) [of b] by (auto intro!: init_history dest: set_zip_rightD)
  moreover from this have "hot_count (map init_sensor_and_channel ?ts) = 0"
    unfolding hot_count_def by (metis (no_types, lifting) filter_False length_0_conv)
  ultimately show "thermal_ok (temperature_init clk ready (thermal_power_on b f))"
    "requested (ctl (temperature_init clk ready (thermal_power_on b f))) = fan_speed_by_value f"
    using sensor_table(2,3) [of b]
    by (simp_all add: thermal_ok_def temperature_init_def thermal_power_on_def check_ready_sensors fan_emergency_def
        requested_def del: sensors_and_channels.simps)
qed


text \<open>
  Whatever the sensors return, the average of a sensor is first set to a value from -24 to
  119 degrees, and from one turn to the next it moves by at most 7 degrees.
\<close>

theorem temperature_average_moves:
  assumes "th = thermal_run b front k clk ops (temperature_init clk ready (thermal_power_on b f))"
    and "j < length (sensors th)"
  shows "average_moves (average (sensors th ! j)) (average (sensors (thermal_step b front k clk op th) ! j))"
  using step_effect(4) [of th b front k clk op] run_effect [OF init_thermal_ok(1)] assms by blast

subsection \<open>Rejected samples\<close>

text \<open>An attempt with this reading is not accepted, with the average \<open>a\<close>.\<close>

definition reading_rejected :: "die_calibration \<Rightarrow> temp_channel \<Rightarrow> int \<Rightarrow> temp_reading \<Rightarrow> bool" where
  "reading_rejected k ch a r =
    (case get_ambient_temperature k ch r of (ret, v) \<Rightarrow>
       ret \<noteq> rc RET_SUCCESS \<or> v = None \<or> \<not> sample_accepted a (the v))"

lemma ambient_value: "get_ambient_temperature k ch r = (rc RET_SUCCESS, v) \<Longrightarrow> v \<noteq> None"
  by (auto simp: get_ambient_temperature_def get_die_temperature_degree_def simp del: rc.simps split: if_splits)

lemma attempts_rejected:
  assumes "\<forall>m. reading_rejected k (channel s) (average s) (rd m)" "history_idx s < length (history s)"
  shows "\<not> fst (sample_attempts k rd n s)"
  using assms
proof (induction k rd n s rule: sample_attempts.induct)
  case (2 k rd n s)
  obtain ret v where g: "get_ambient_temperature k (channel s) (rd (TEMPERATURE_SAMPLE_RETRY_COUNT - Suc n)) = (ret, v)"
    by fastforce
  have r: "ret \<noteq> rc RET_SUCCESS \<or> v = None \<or> \<not> sample_accepted (average s) (the v)"
    using "2.prems"(1) g by (metis (mono_tags, lifting) case_prod_conv reading_rejected_def)
  have rej: "ret \<noteq> rc RET_SUCCESS \<or> (\<exists>x. v = Some x \<and> \<not> sample_accepted (average s) x)"
  proof (cases v)
    case None
    then show ?thesis using ambient_value [of k "channel s" _ v] g by blast
  next
    case (Some x)
    then show ?thesis using r by simp
  qed
  define s1 where "s1 = (case v of None \<Rightarrow> s | Some x \<Rightarrow> s\<lparr>history := (history s)[history_idx s := x]\<rparr>)"
  have s1: "channel s1 = channel s" "average s1 = average s" "history_idx s1 < length (history s1)"
    "v = Some x \<Longrightarrow> history s1 ! history_idx s1 = x" for x
    using "2.prems"(2) by (auto simp: s1_def split: option.split)
  have c: "\<not> (ret = rc RET_SUCCESS \<and> sample_accepted (average s1) (history s1 ! history_idx s1))"
    using rej s1 by auto
  have "\<not> fst (sample_attempts k rd n s1)"
    by (rule "2.IH" [OF refl g [symmetric] s1_def c]) (use "2.prems"(1) s1 in simp_all)
  then show ?case using g c by (simp add: s1_def [symmetric] Let_def)
qed simp

lemma sample_rejected:
  assumes "\<forall>m. reading_rejected k (channel s) (average s) (rd m)" "sensor_ok s"
    and "sample_and_report_temperature k clk now rd s c = (t, d)"
  shows "d = c \<and> average t = average s \<and> cb_data t = cb_data s \<and> channel t = channel s"
proof -
  obtain ok s1 where a: "sample_attempts k rd TEMPERATURE_SAMPLE_RETRY_COUNT s = (ok, s1)" by fastforce
  have i: "history_idx s < length (history s)" using assms(2) by (simp add: sensor_ok_def)
  have "\<not> ok" using attempts_rejected [OF assms(1) i, of TEMPERATURE_SAMPLE_RETRY_COUNT] a by simp
  moreover obtain x where "s1 = s\<lparr>history := (history s)[history_idx s := x]\<rparr>"
    using sample_attempts_shape [OF a i] by blast
  ultimately show ?thesis using assms(3) a by (auto simp: sample_and_report_temperature_def)
qed

lemma sample_all_rejected:
  "sample_all k clk i n ss c = (ts, d) \<Longrightarrow> \<forall>s\<in>set ss. sensor_ok s \<Longrightarrow> j < length ss \<Longrightarrow>
   \<forall>m. reading_rejected k (channel (ss ! j)) (average (ss ! j)) (turn_reading i (n + j) m) \<Longrightarrow>
   average (ts ! j) = average (ss ! j) \<and> cb_data (ts ! j) = cb_data (ss ! j) \<and> channel (ts ! j) = channel (ss ! j)"
proof (induction ss arbitrary: n c ts j)
  case (Cons s ss)
  show ?case
  proof (cases "rebooted c")
    case True
    then show ?thesis using Cons.prems by auto
  next
    case False
    obtain s' c1 ss' where r: "sample_and_report_temperature k clk (turn_time i n) (turn_reading i n) s c = (s', c1)"
      and a: "sample_all k clk i (n + 1) ss c1 = (ss', d)" and ts: "ts = s' # ss'"
      by (rule sample_all_Cons [OF Cons.prems(1) False])
    show ?thesis
    proof (cases j)
      case 0
      then show ?thesis using sample_rejected [OF _ _ r] Cons.prems(2,4) by (simp add: ts)
    next
      case (Suc j')
      then show ?thesis using Cons.IH [OF a, of j'] Cons.prems by (simp add: ts)
    qed
  qed
qed simp

lemma turn_rejected:
  assumes "thermal_ok th" "j < length (sensors th)"
    and "\<forall>m. reading_rejected k (channel (sensors th ! j)) (average (sensors th ! j)) (turn_reading i j m)"
  shows "average (sensors (temperature_turn b front k clk i th) ! j) = average (sensors th ! j) \<and>
    cb_data (sensors (temperature_turn b front k clk i th) ! j) = cb_data (sensors th ! j) \<and>
    channel (sensors (temperature_turn b front k clk i th) ! j) = channel (sensors th ! j)"
proof -
  define c0 where "c0 = temp_emit (Temp_sleep (int (global_sample_period (ctl th)) - turn_elapsed i)) (ctl th)"
  obtain ss c1 where a: "sample_all k clk i 0 (sensors th) c0 = (ss, c1)" by fastforce
  have "sensors (temperature_turn b front k clk i th) = ss"
    using a by (simp add: temperature_turn_def c0_def [symmetric] Let_def split: prod.split)
  then show ?thesis using sample_all_rejected [OF a _ assms(2)] assms(1,3) by (simp add: thermal_ok_def)
qed

text \<open>
  A sensor whose temperature has moved away from its average by 8 degrees or more between two accepted
  samples, or that fails, is never heard again: as long as every reading is rejected the
  average and the over-temperature data stay what they were, however many turns there are, so
  neither the emergency nor the shutdown can be triggered by it. Only the history is reset
  after a failed turn, never the average the readings are compared with.
\<close>

theorem temperature_jump_locks_out:
  assumes "th = thermal_run b front k clk ops (temperature_init clk ready (thermal_power_on b f))"
    and "j < length (sensors th)" and "s = sensors th ! j"
    and "\<forall>i\<in>set is. \<forall>m. reading_rejected k (channel s) (average s) (turn_reading i j m)"
    and "th' = thermal_run b front k clk (map Thermal_turn is) th"
  shows "average (sensors th' ! j) = average s \<and> cb_data (sensors th' ! j) = cb_data s"
proof -
  have ok: "thermal_ok th" using run_effect [OF init_thermal_ok(1)] assms(1) by blast
  have "average (sensors (thermal_run b front k clk (map Thermal_turn is) th) ! j) = average s \<and>
      cb_data (sensors (thermal_run b front k clk (map Thermal_turn is) th) ! j) = cb_data s"
    using ok assms(2-4)
  proof (induction "is" arbitrary: th s)
    case (Cons i "is")
    let ?t = "thermal_step b front k clk (Thermal_turn i) th"
    have t: "average (sensors ?t ! j) = average s \<and> cb_data (sensors ?t ! j) = cb_data s \<and> channel (sensors ?t ! j) = channel s"
      using turn_rejected [OF Cons.prems(1,2), of k i] Cons.prems(3,4) by (simp add: thermal_step_def)
    have "thermal_ok ?t" "j < length (sensors ?t)" using step_effect(1,3) [OF Cons.prems(1)] Cons.prems(2) by simp_all
    from Cons.IH [OF this refl] show ?case using Cons.prems(4) t by (simp add: thermal_run_def)
  qed (simp add: thermal_run_def)
  then show ?thesis using assms(5) by simp
qed

subsection \<open>Critical temperature\<close>

text \<open>The first \<open>n\<close> reports of one sensor, \<open>p\<close> milliseconds apart.\<close>

primrec critical_reports ::
  "kernel_clock \<Rightarrow> nat \<Rightarrow> nat \<Rightarrow> sensor_and_channel \<Rightarrow> overtemp_ctl \<Rightarrow> nat \<Rightarrow> sensor_and_channel \<times> overtemp_ctl" where
  "critical_reports clk t0 p s c 0 = (s, c)"
| "critical_reports clk t0 p s c (Suc n) =
    (let (s1, c1) = critical_reports clk t0 p s c n
     in if rebooted c1 then (s1, c1) else snd (overtemp_callback clk (t0 + n * p) s1 c1))"

lemma check_overtemp_frame [simp]:
  "rebooted (check_overtemp_conditions c) = rebooted c" "last_system_time (check_overtemp_conditions c) = last_system_time c"
  "global_sample_period (check_overtemp_conditions c) = global_sample_period c"
  by (simp_all add: check_overtemp_conditions_def)

lemma inc_dec_frame [simp]:
  "rebooted (inc_overtemp_condition c) = rebooted c" "last_system_time (inc_overtemp_condition c) = last_system_time c"
  "global_sample_period (inc_overtemp_condition c) = global_sample_period c"
  "rebooted (dec_overtemp_condition c) = rebooted c" "last_system_time (dec_overtemp_condition c) = last_system_time c"
  "global_sample_period (dec_overtemp_condition c) = global_sample_period c"
  by (simp_all add: inc_overtemp_condition_def dec_overtemp_condition_def)

text \<open>One report of a critical temperature.\<close>

lemma callback_critical:
  assumes "cb_data s = Some info" "overtemp_c info + OVERTEMP_TO_CRITICAL_RISE_C < average s" "\<not> rebooted c"
    and "overtemp_callback clk now s c = (r, t, d)" and "x = advance_critical_timer clk now c (critical_timer info)"
    and "0 \<le> overtemp_drop_c info"
  shows "rebooted d = (10000 < x) \<and> last_system_time d = now \<and> global_sample_period d = global_sample_period c \<and>
    average t = average s \<and>
    (\<exists>info'. cb_data t = Some info' \<and> critical_timer info' = x \<and> overtemp_c info' = overtemp_c info \<and>
       overtemp_drop_c info' = overtemp_drop_c info)"
proof -
  have "overtemp_c info < average s" "\<not> average s \<le> overtemp_c info"
    "\<not> average s < overtemp_c info - overtemp_drop_c info"
    using assms(2,6) by (simp_all add: OVERTEMP_TO_CRITICAL_RISE_C_def)
  then show ?thesis using assms(1-5)
    by (cases "10000 < x"; cases "in_overtemp info")
      (simp_all add: overtemp_callback_def CRITICAL_TO_SHUTDOWN_DELAY_MS_def Let_def temp_emit_def set_sensor_state_def
        split: prod.splits, auto)
qed

lemma nat_int_mod: "a + b < 2 ^ 32 \<Longrightarrow> nat ((int a + int b) mod 2 ^ 32) = a + b"
proof -
  assume "a + b < 2 ^ 32"
  then have "int (a + b) < 2 ^ 32" by (metis of_nat_less_iff of_nat_numeral of_nat_power)
  then have "(int a + int b) mod 2 ^ 32 = int (a + b)" by (simp only: of_nat_add mod_pos_pos_trivial)
  then show ?thesis by simp
qed

lemma critical_reports_state:
  assumes "cb_data s = Some info" "overtemp_c info + OVERTEMP_TO_CRITICAL_RISE_C < average s" "critical_timer info = 0"
    and "\<not> rebooted c" "report_period_ms clk c = p" "0 < p" "p \<le> 15000" "0 \<le> overtemp_drop_c info"
  shows "case critical_reports clk t0 p s c n of (t, d) \<Rightarrow>
    (rebooted d \<longleftrightarrow> 0 < n \<and> 10000 < (2 * n - 1) * p) \<and>
    (\<not> rebooted d \<longrightarrow> average t = average s \<and> global_sample_period d = global_sample_period c \<and>
       (0 < n \<longrightarrow> last_system_time d = t0 + (n - 1) * p) \<and>
       (\<exists>info'. cb_data t = Some info' \<and> critical_timer info' = (if n = 0 then 0 else (2 * n - 1) * p) \<and>
          overtemp_c info' = overtemp_c info \<and> overtemp_drop_c info' = overtemp_drop_c info))"
proof (induction n)
  case 0
  then show ?case using assms by simp
next
  case (Suc n)
  obtain t d where td: "critical_reports clk t0 p s c n = (t, d)" by fastforce
  show ?case
  proof (cases "rebooted d")
    case True
    then have "0 < n" "10000 < (2 * n - 1) * p" using Suc.IH td by simp_all
    moreover have "(2 * n - 1) * p \<le> (2 * Suc n - 1) * p" by (intro mult_right_mono) simp_all
    ultimately show ?thesis using td True by simp
  next
    case False
    obtain info' where i: "average t = average s" "cb_data t = Some info'" "global_sample_period d = global_sample_period c"
      "critical_timer info' = (if n = 0 then 0 else (2 * n - 1) * p)" "overtemp_c info' = overtemp_c info"
      "overtemp_drop_c info' = overtemp_drop_c info" "0 < n \<Longrightarrow> last_system_time d = t0 + (n - 1) * p"
      using Suc.IH td False by auto
    have small: "(2 * n - 1) * p \<le> 10000" using Suc.IH td False by (cases n) simp_all
    have p: "report_period_ms clk d = p" using i(3) assms(5) by (simp add: report_period_ms_def)
    have adv: "advance_critical_timer clk (t0 + n * p) d (critical_timer info') = (2 * Suc n - 1) * p"
    proof (cases n)
      case 0
      then show ?thesis using i(4) p assms(7) by (simp add: advance_critical_timer_def)
    next
      case (Suc m)
      have t: "critical_timer info' = (2 * m + 1) * p" using i(4) Suc by simp
      have l: "int (t0 + n * p) - int (last_system_time d) = int p" using i(7) Suc by (simp add: algebra_simps)
      have "(2 * m + 1) * p \<le> 10000" using small Suc by simp
      then have "(2 * m + 1) * p + p < 2 ^ 32" "(2 * m + 1) * p + p + p < 2 ^ 32" using assms(7) by simp_all
      moreover have "0 < (2 * m + 1) * p" using assms(6) by simp
      ultimately have "advance_critical_timer clk (t0 + n * p) d (critical_timer info') = (2 * m + 1) * p + p + p"
        unfolding advance_critical_timer_def t l p Let_def by (simp only: nat_int_mod mod_less if_False split: if_split) simp
      then show ?thesis using Suc by (simp add: algebra_simps)
    qed
    obtain r t' d' where cb: "overtemp_callback clk (t0 + n * p) t d = (r, t', d')" by (metis prod_cases3)
    have crit: "overtemp_c info' + OVERTEMP_TO_CRITICAL_RISE_C < average t" using i(1,5) assms(2) by simp
    have drop: "0 \<le> overtemp_drop_c info'" using i(6) assms(8) by simp
    have step: "critical_reports clk t0 p s c (Suc n) = (t', d')" using td False cb by simp
    obtain info'' where res: "rebooted d' = (10000 < (2 * Suc n - 1) * p)" "last_system_time d' = t0 + n * p"
      "global_sample_period d' = global_sample_period c" "average t' = average s" "cb_data t' = Some info''"
      "critical_timer info'' = (2 * Suc n - 1) * p" "overtemp_c info'' = overtemp_c info"
      "overtemp_drop_c info'' = overtemp_drop_c info"
      using callback_critical [OF i(2) crit False cb adv [symmetric] drop] unfolding i(1,3,5,6) by blast
    show ?thesis unfolding step prod.case res using res(5-8) by simp
  qed
qed

text \<open>
  A sensor that stays critical with reports \<open>p\<close> milliseconds apart makes the system reboot,
  at the first report \<open>n\<close> with \<open>(2 n - 1) p\<close> above 10000: the critical timer advances by
  both the time since the last report and the period of reports. With the default period of 999
  milliseconds that is at the sixth report, five seconds after the first one, and with a period
  above 10 seconds at the first report, not after the delay of 10 seconds.
\<close>

theorem critical_reboots_early:
  assumes "cb_data s = Some info" "overtemp_c info + OVERTEMP_TO_CRITICAL_RISE_C < average s" "critical_timer info = 0"
    and "\<not> rebooted c" "report_period_ms clk c = p" "0 < p" "p \<le> 15000" "overtemp_drop_c info = OVERTEMP_TO_NOMINAL_DROP_C"
  shows "(rebooted (snd (critical_reports clk t0 p s c n)) \<longleftrightarrow> 0 < n \<and> 10000 < (2 * n - 1) * p) \<and>
    (\<exists>n. rebooted (snd (critical_reports clk t0 p s c n)) \<and> 2 * ((n - 1) * p) \<le> 10000 + p)"
proof -
  have iff: "rebooted (snd (critical_reports clk t0 p s c n)) \<longleftrightarrow> 0 < n \<and> 10000 < (2 * n - 1) * p" for n
  proof -
    have drop: "0 \<le> overtemp_drop_c info" using assms(8) by (simp add: OVERTEMP_TO_NOMINAL_DROP_C_def)
    have "case critical_reports clk t0 p s c n of (t, d) \<Rightarrow> (rebooted d \<longleftrightarrow> 0 < n \<and> 10000 < (2 * n - 1) * p)"
      using critical_reports_state [OF assms(1-7) drop, of n t0] unfolding case_prod_beta by blast
    then show ?thesis by (simp add: case_prod_beta)
  qed
  let ?n = "LEAST n. 10000 < (2 * n - 1) * p"
  have "10000 < (2 * 10001 - 1) * p" using assms(6) by simp
  then have n: "10000 < (2 * ?n - 1) * p" by (rule LeastI)
  have n0: "0 < ?n" using n by (cases "?n = 0") auto
  have l: "(2 * (?n - 1) - 1) * p \<le> 10000" using not_less_Least [of "?n - 1" "\<lambda>n. 10000 < (2 * n - 1) * p"] n0 by simp
  have "2 * ((?n - 1) * p) \<le> 10000 + p"
  proof (cases "?n - 1")
    case (Suc m)
    then show ?thesis using l by (simp add: algebra_simps)
  qed simp
  then show ?thesis using iff n n0 by blast
qed

subsection \<open>The sleep of the thread\<close>

text \<open>
  The ticks the thread sleeps are the period minus the time of the last turn, also when the turn
  took longer; a turn one tick longer than the period gives the value \<open>-1\<close>, which the kernel
  reads as waiting forever.
\<close>

lemma thread_sleep_negative:
  "turn_elapsed i = int (global_sample_period (ctl th)) + 1 \<Longrightarrow>
   \<exists>es. temp_out (temp_emit (Temp_sleep (int (global_sample_period (ctl th)) - turn_elapsed i)) (ctl th)) = es @ [Temp_sleep (- 1)]"
  by (simp add: temp_emit_def)

subsection \<open>Witnesses\<close>

definition sim_clock :: kernel_clock where
  "sim_clock = \<lparr>k_msec = (\<lambda>n. 10 * n), ticks_per_sec = 10000\<rparr>"

definition sim_die :: die_calibration where
  "sim_die = \<lparr>cal1 = 1000, cal1_temp = 30, cal2 = 1400, cal2_temp = 130, cal_vref_mv = 3000\<rparr>"

definition steady :: "int \<Rightarrow> temp_turn" where
  "steady x = \<lparr>turn_reading = (\<lambda>j m. \<lparr>dev_ready = True, dev_lock = True, dev_fetch = 0, dev_get = 0, dev_value = x,
       adc_result = -5, adc_raw = 0, adc_vref_mv = 0\<rparr>), turn_time = (\<lambda>j. 0), turn_elapsed = 0\<rparr>"

definition thermal_start :: thermal where
  "thermal_start = temperature_init sim_clock (\<lambda>_. True) (thermal_power_on Pearl fan_power_on)"

lemma temperature_average_moves_witness:
  "average_moves (average (sensors (thermal_run Pearl (\<lambda>_. False) sim_die sim_clock [Fan_command Payload_percentage 50] thermal_start) ! 1))
     (average (sensors (thermal_step Pearl (\<lambda>_. False) sim_die sim_clock (Thermal_turn (steady 20))
       (thermal_run Pearl (\<lambda>_. False) sim_die sim_clock [Fan_command Payload_percentage 50] thermal_start)) ! 1))"
  unfolding thermal_start_def by (rule temperature_average_moves [OF refl])
    (simp add: thermal_run_def thermal_step_def thermal_start_def temperature_init_def thermal_power_on_def
      common_sensors_def check_ready_sensors)

lemma critical_reboots_early_witness:
  "rebooted (snd (critical_reports sim_clock 1000 999
     ((ambient_limit Src_MAIN_BOARD True 80)\<lparr>average := 90\<rparr>) (ctl thermal_start) 6)) \<and>
   \<not> rebooted (snd (critical_reports sim_clock 1000 999
     ((ambient_limit Src_MAIN_BOARD True 80)\<lparr>average := 90\<rparr>) (ctl thermal_start) 5))"
  using critical_reboots_early [of "(ambient_limit Src_MAIN_BOARD True 80)\<lparr>average := 90\<rparr>" _ "ctl thermal_start" sim_clock 999 1000 6]
    critical_reboots_early [of "(ambient_limit Src_MAIN_BOARD True 80)\<lparr>average := 90\<rparr>" _ "ctl thermal_start" sim_clock 999 1000 5]
  by (simp add: sensor_entry_def OVERTEMP_TO_CRITICAL_RISE_C_def thermal_start_def temperature_init_def thermal_power_on_def
      report_period_ms_def sim_clock_def TEMPERATURE_AVERAGE_SAMPLE_COUNT_def)

text \<open>Three turns at 20 degrees, with a die sensor that cannot be read.\<close>

lemma steady_sample:
  "channel s = SENSOR_CHAN_AMBIENT_TEMP \<Longrightarrow> sample_accepted (average s) x \<Longrightarrow> history_idx s < length (history s) \<Longrightarrow>
   sample_and_report_temperature k clk now (turn_reading (steady x) j) s c =
     sample_done clk now (s\<lparr>history := (history s)[history_idx s := x]\<rparr>) c"
  by (simp add: sample_and_report_temperature_def TEMPERATURE_SAMPLE_RETRY_COUNT_def eval_nat_numeral
      get_ambient_temperature_def steady_def)

lemma steady_die:
  "channel s = SENSOR_CHAN_DIE_TEMP \<Longrightarrow> sample_and_report_temperature k clk now (turn_reading (steady x) j) s c =
     (set_sensor_state RET_ERROR_TIMEOUT (init_sensor_and_channel s), c)"
  by (simp add: sample_and_report_temperature_def TEMPERATURE_SAMPLE_RETRY_COUNT_def eval_nat_numeral
      get_ambient_temperature_def get_die_temperature_degree_def steady_def)

lemma steady_time [simp]: "turn_time (steady x) j = 0"
  by (simp add: steady_def)

definition thermal_20 :: thermal where
  "thermal_20 = thermal_run Pearl (\<lambda>_. False) sim_die sim_clock [Thermal_turn (steady 20), Thermal_turn (steady 20),
     Thermal_turn (steady 20)] thermal_start"

lemmas steady_eval = thermal_run_def thermal_step_def temperature_turn_def steady_sample steady_die sample_done_def
  temperature_report_internal_def overtemp_callback_def sample_accepted_def average_of_def
  TEMPERATURE_AVERAGE_SAMPLE_COUNT_def TEMPERATURE_SENTINEL_VALUE_def OVERTEMP_TO_CRITICAL_RISE_C_def
  MAIN_BOARD_OVERTEMP_C_def LIQUID_LENS_OVERTEMP_C_def OVERTEMP_TO_NOMINAL_DROP_C_def set_sensor_state_def
  init_sensor_and_channel_def sensor_entry_def common_sensors_def thermal_power_on_def temperature_init_def
  check_ready_sensors check_ready_sensor_def temp_emit_def

lemma thermal_20_first:
  "average (sensors thermal_20 ! 0) = 20" "channel (sensors thermal_20 ! 0) = SENSOR_CHAN_AMBIENT_TEMP"
  "length (sensors thermal_20) = 4"
  unfolding thermal_20_def thermal_start_def by (simp_all add: steady_eval Let_def)

lemma temperature_jump_locks_out_witness:
  "average (sensors (thermal_run Pearl (\<lambda>_. False) sim_die sim_clock
     (map Thermal_turn (replicate 100 (steady 95))) thermal_20) ! 0) = 20"
proof -
  have "reading_rejected sim_die (channel (sensors thermal_20 ! 0)) (average (sensors thermal_20 ! 0))
      (turn_reading (steady 95) 0 m)" for m
    unfolding thermal_20_first
    by (simp add: reading_rejected_def get_ambient_temperature_def steady_def sample_accepted_def TEMPERATURE_SENTINEL_VALUE_def)
  then show ?thesis
    using temperature_jump_locks_out [OF thermal_20_def [unfolded thermal_start_def], of 0 _ "replicate 100 (steady 95)"] thermal_20_first
    by simp
qed

end
