(* ===== verification/Uart.thy ===== *)
theory Uart
  imports Kernel
begin

unbundle bit_operations_syntax

text \<open>
  Reception of messages over the UART (\<^verbatim>\<open>lib/uart_messaging/uart_messaging.c\<close>): the DMA writes
  received bytes to a ring buffer, the interrupt handler finds the messages in it and queues where they are, and a thread takes
  them from the queue and reads them out of the ring buffer. The size
  of the buffer is a parameter, a power of two.
\<close>

subsection \<open>State\<close>

definition SIZE_MAX :: nat where "SIZE_MAX = 4294967295"
definition UART_MESSAGE_HEADER_SIZE :: nat where "UART_MESSAGE_HEADER_SIZE = 4"
definition HEADER_MAGIC_U16 :: nat where "HEADER_MAGIC_U16 = 44430"

text \<open>A message is where it lies in the ring buffer.\<close>

record uart_message_t =
  start_idx :: nat
  message_length :: nat

record uart_rx =
  uart_rx_ring_buf :: "u8 list"
  read_index :: nat
  write_index :: nat

definition uart_rx_start :: "nat \<Rightarrow> uart_rx" where
  "uart_rx_start n = \<lparr>uart_rx_ring_buf = replicate n 0, read_index = SIZE_MAX, write_index = SIZE_MAX\<rparr>"

definition UART_RX_RING_BUFFER_USED_BYTES :: "nat \<Rightarrow> nat \<Rightarrow> nat \<Rightarrow> nat" where
  "UART_RX_RING_BUFFER_USED_BYTES n s e = nat ((int e - int s) mod int n)"

abbreviation used_bytes :: "nat \<Rightarrow> nat \<Rightarrow> nat \<Rightarrow> nat" where
  "used_bytes \<equiv> UART_RX_RING_BUFFER_USED_BYTES"

subsection \<open>The interrupt handler\<close>

text \<open>Two bytes of the buffer, the first the least significant.\<close>

definition ring_u16 :: "u8 list \<Rightarrow> nat \<Rightarrow> nat" where
  "ring_u16 buf i = (unat (buf ! ((i + 1) mod length buf)) * 256 + unat (buf ! (i mod length buf))) mod 2 ^ 16"

text \<open>
  The loop over the received bytes: the messages put in the queue, in order, and the new
  read index; \<open>None\<close> when the loop never ends. What the queue returns is only logged.
\<close>

partial_function (option) uart_loop :: "u8 list \<Rightarrow> nat \<Rightarrow> nat \<Rightarrow> (uart_message_t list \<times> nat) option" where
  "uart_loop buf w r =
    (if r = w then Some ([], r)
     else
      let n = length buf;
          payload_size = ring_u16 buf (r + 2);
          header_magic = ring_u16 buf r;
          used = UART_RX_RING_BUFFER_USED_BYTES n r w
      in if UART_MESSAGE_HEADER_SIZE < used \<and> header_magic = HEADER_MAGIC_U16 \<and>
            payload_size + UART_MESSAGE_HEADER_SIZE \<le> used
         then Option.bind (uart_loop buf w ((r + payload_size + UART_MESSAGE_HEADER_SIZE) mod n))
                (\<lambda>(ms, r'). Some (\<lparr>start_idx = (r + UART_MESSAGE_HEADER_SIZE) mod n, message_length = payload_size\<rparr> # ms, r'))
         else if used < UART_MESSAGE_HEADER_SIZE \<or>
                 UART_MESSAGE_HEADER_SIZE \<le> used \<and> header_magic = HEADER_MAGIC_U16 \<and>
                 used < payload_size + UART_MESSAGE_HEADER_SIZE
         then Some ([], r)
         else uart_loop buf w ((r + 1) mod n))"

datatype uart_event = UART_RX_RDY nat nat | UART_RX_BUF_RELEASED | UART_RX_BUF_REQUEST

definition uart_event_callback :: "uart_event \<Rightarrow> uart_rx \<Rightarrow> (uart_message_t list \<times> uart_rx) option" where
  "uart_event_callback ev s =
    (case ev of
       UART_RX_RDY offset len \<Rightarrow>
         let s1 = (if read_index s = SIZE_MAX \<and> write_index s = SIZE_MAX
                   then s\<lparr>read_index := offset, write_index := offset\<rparr> else s);
             s2 = s1\<lparr>write_index := (write_index s1 + len) mod length (uart_rx_ring_buf s1)\<rparr>
         in Option.bind (uart_loop (uart_rx_ring_buf s2) (write_index s2) (read_index s2))
              (\<lambda>(ms, r). Some (ms, s2\<lparr>read_index := r\<rparr>))
     | _ \<Rightarrow> Some ([], s))"

text \<open>Queueing the messages: the ones that do not fit are dropped.\<close>

definition uart_queue_messages :: "('q, uart_message_t) msgq_api \<Rightarrow> uart_message_t list \<Rightarrow> 'q \<Rightarrow> 'q" where
  "uart_queue_messages mq ms q = fold (\<lambda>m q. snd (k_msgq_put mq m q)) ms q"

subsection \<open>Initialisation and power management\<close>

text \<open>\<open>dev\<close>: the device exists; \<open>ready\<close>; what setting the callback and enabling reception return.\<close>

definition uart_messaging_init :: "bool \<Rightarrow> bool \<Rightarrow> bool \<Rightarrow> int \<Rightarrow> bool \<Rightarrow> int \<Rightarrow> ret_code_t" where
  "uart_messaging_init has_handler dev ready callback_set config_pm rx_enable =
    (if \<not> has_handler then RET_ERROR_INVALID_PARAM
     else if \<not> dev then RET_ERROR_NOT_INITIALIZED
     else if \<not> ready then RET_ERROR_INVALID_STATE
     else if callback_set \<noteq> 0 then RET_ERROR_INTERNAL
     else if \<not> config_pm \<and> rx_enable \<noteq> 0 then RET_ERROR_INTERNAL
     else RET_SUCCESS)"

text \<open>\<open>busy\<close> is the power management state of the device: reception is on.\<close>

definition uart_messaging_suspend :: "int \<Rightarrow> bool \<Rightarrow> ret_code_t \<times> bool" where
  "uart_messaging_suspend rx_disable busy =
    (if busy then (if rx_disable \<noteq> 0 then (RET_ERROR_INVALID_STATE, busy) else (RET_SUCCESS, False))
     else (RET_SUCCESS, busy))"

definition uart_messaging_resume :: "int \<Rightarrow> bool \<Rightarrow> ret_code_t \<times> bool" where
  "uart_messaging_resume rx_enable busy =
    (if \<not> busy then (if rx_enable \<noteq> 0 then (RET_ERROR_INVALID_STATE, busy) else (RET_SUCCESS, True))
     else (RET_SUCCESS, busy))"

subsection \<open>Reading a message from the ring buffer\<close>

text \<open>
  The byte source given to the message decoder (\<^verbatim>\<open>buf_read_circular\<close> in
  \<^verbatim>\<open>runner/runner.c\<close>): \<open>source\<close> is the place of the next byte. The result is the bytes copied and the new
  place.
\<close>

definition buf_read_circular :: "u8 list \<Rightarrow> nat \<Rightarrow> nat \<Rightarrow> u8 list \<times> nat" where
  "buf_read_circular buf source cnt =
    (let n = length buf; end_ptr = (source + cnt) mod n in
     if end_ptr < source
     then let copy_idx = n - source
       in (take copy_idx (drop source buf) @ take (cnt - copy_idx) buf, end_ptr)
     else (take cnt (drop source buf), end_ptr))"



subsection \<open>The handler parses the received stream\<close>

text \<open>The bytes received and not yet read, and the bytes of a message.\<close>

definition ring_bytes :: "u8 list \<Rightarrow> nat \<Rightarrow> nat \<Rightarrow> u8 list" where
  "ring_bytes buf r u = map (\<lambda>i. buf ! ((r + i) mod length buf)) [0..<u]"

abbreviation message_bytes :: "u8 list \<Rightarrow> uart_message_t \<Rightarrow> u8 list" where
  "message_bytes buf m \<equiv> ring_bytes buf (start_idx m) (message_length m)"

text \<open>
  The specification: messages in a stream of bytes and the rest of it, where no message is
  complete. A header is the bytes 0x8E and 0xAD and the length in two bytes.
\<close>

definition has_magic :: "u8 list \<Rightarrow> bool" where
  "has_magic bs \<longleftrightarrow> bs ! 0 = 0x8E \<and> bs ! 1 = 0xAD"

definition length_field :: "u8 list \<Rightarrow> nat" where
  "length_field bs = unat (bs ! 3) * 256 + unat (bs ! 2)"

function uart_parse :: "u8 list \<Rightarrow> u8 list list \<times> u8 list" where
  "uart_parse bs =
    (if length bs < 4 then ([], bs)
     else if \<not> has_magic bs then uart_parse (tl bs)
     else if length bs < length_field bs + 4 then ([], bs)
     else if length bs = 4 then uart_parse (tl bs)
     else let (ms, rest) = uart_parse (drop (length_field bs + 4) bs)
       in (take (length_field bs) (drop 4 bs) # ms, rest))"
  by pat_completeness auto
termination by (relation "measure length") auto

declare uart_parse.simps [simp del]

text \<open>The mask of the source is this, for a size that is a power of two and indices of 32 bits.\<close>

lemma used_bytes_mask:
  assumes "n = 2 ^ k" "k \<le> 32"
  shows "unat ((word_of_nat e - word_of_nat s :: u32) AND (word_of_nat n - 1)) = used_bytes n s e"
proof -
  have m: "(word_of_nat n - 1 :: u32) = mask k" using assms(1) by (simp add: mask_eq_exp_minus_1)
  have d: "uint (word_of_nat e - word_of_nat s :: u32) = take_bit 32 (int e - int s)"
  proof -
    have "(word_of_nat e - word_of_nat s :: u32) = word_of_int (int e - int s)" by simp
    then have "uint (word_of_nat e - word_of_nat s :: u32) = take_bit LENGTH(32) (int e - int s)"
      by (simp only: uint_word_of_int_eq)
    moreover have "LENGTH(32) = 32" by simp
    ultimately show ?thesis by (simp only:)
  qed
  have "uint ((word_of_nat e - word_of_nat s :: u32) AND mask k) = take_bit k (take_bit 32 (int e - int s))"
    by (simp only: take_bit_eq_mask [symmetric] unsigned_take_bit_eq d)
  also have "\<dots> = take_bit k (int e - int s)" using assms(2) by (simp only: take_bit_take_bit min_def if_True)
  also have "\<dots> = (int e - int s) mod int n" by (simp add: assms(1) take_bit_eq_mod)
  finally show ?thesis unfolding m UART_RX_RING_BUFFER_USED_BYTES_def by (metis unat_eq_nat_uint)
qed

lemma used_less: "0 < n \<Longrightarrow> used_bytes n r w < n"
  by (simp add: UART_RX_RING_BUFFER_USED_BYTES_def nat_less_iff)

lemma used_cases: "r < n \<Longrightarrow> w < n \<Longrightarrow> used_bytes n r w = (if r \<le> w then w - r else w + n - r)"
proof (cases "r \<le> w")
  case False
  assume "r < n" "w < n"
  have "(int w - int r) mod int n = (int w - int r + int n) mod int n" by simp
  also have "\<dots> = int w - int r + int n" using False \<open>r < n\<close> by (intro mod_pos_pos_trivial) auto
  finally have "used_bytes n r w = nat (int w - int r + int n)" by (simp only: UART_RX_RING_BUFFER_USED_BYTES_def)
  then show ?thesis using False \<open>r < n\<close> by auto
qed (simp add: UART_RX_RING_BUFFER_USED_BYTES_def mod_pos_pos_trivial nat_diff_distrib)

lemma used_eq_0: "r < n \<Longrightarrow> w < n \<Longrightarrow> used_bytes n r w = 0 \<longleftrightarrow> r = w"
  by (auto simp: used_cases)

lemma used_advance:
  assumes "r < n" "w < n" "k \<le> used_bytes n r w"
  shows "used_bytes n ((r + k) mod n) w = used_bytes n r w - k"
proof -
  have m: "(r + k) mod n = (if r + k < n then r + k else r + k - n)"
    using assms used_less [of n r w] by (auto simp: mod_if le_mod_geq)
  have "(r + k) mod n < n" using assms(1) by simp
  then show ?thesis using assms used_cases [of r n w] used_cases [of "(r + k) mod n" n w] unfolding m
    by (auto split: if_splits)
qed

lemma length_ring [simp]: "length (ring_bytes buf r u) = u"
  by (simp add: ring_bytes_def)

lemma nth_ring [simp]: "i < u \<Longrightarrow> ring_bytes buf r u ! i = buf ! ((r + i) mod length buf)"
  by (simp add: ring_bytes_def)

lemma drop_ring: "drop k (ring_bytes buf r u) = ring_bytes buf ((r + k) mod length buf) (u - k)"
  by (rule nth_equalityI) (simp_all add: mod_add_left_eq add.assoc)

lemma take_ring: "k \<le> u \<Longrightarrow> take k (ring_bytes buf r u) = ring_bytes buf r k"
  by (rule nth_equalityI) simp_all

lemma ring_mod: "ring_bytes buf (r mod length buf) u = ring_bytes buf r u"
  by (rule nth_equalityI) (simp_all add: mod_add_left_eq)

lemma u8_256: "unat (b :: u8) < 256"
  using unsigned_less [of b] by simp

lemma ring_u16_eq: "ring_u16 buf i = unat (buf ! ((i + 1) mod length buf)) * 256 + unat (buf ! (i mod length buf))"
  using u8_256 [of "buf ! ((i + 1) mod length buf)"] u8_256 [of "buf ! (i mod length buf)"] by (simp add: ring_u16_def)

lemma magic_iff:
  "unat (b :: u8) * 256 + unat (a :: u8) = HEADER_MAGIC_U16 \<longleftrightarrow> a = 0x8E \<and> b = 0xAD"
proof -
  have "unat b * 256 + unat a = HEADER_MAGIC_U16 \<longleftrightarrow> unat a = 142 \<and> unat b = 173"
  proof
    assume h: "unat b * 256 + unat a = HEADER_MAGIC_U16"
    have "unat b = (unat b * 256 + unat a) div 256" "unat a = (unat b * 256 + unat a) mod 256"
      using u8_256 [of a] by simp_all
    then show "unat a = 142 \<and> unat b = 173" unfolding h by (simp add: HEADER_MAGIC_U16_def)
  qed (simp add: HEADER_MAGIC_U16_def)
  also have "\<dots> \<longleftrightarrow> a = 0x8E \<and> b = 0xAD" by (simp add: word_unat_eq_iff)
  finally show ?thesis .
qed

text \<open>What the handler reads at the read index is the beginning of the received bytes.\<close>

lemma header_of_ring:
  assumes "r < length buf" "4 \<le> u"
  shows "ring_u16 buf r = HEADER_MAGIC_U16 \<longleftrightarrow> has_magic (ring_bytes buf r u)"
    and "ring_u16 buf (r + 2) = length_field (ring_bytes buf r u)"
  using assms magic_iff by (simp_all add: ring_u16_eq has_magic_def length_field_def add.assoc numeral_3_eq_3)

lemma loop_refines_parse:
  assumes "w < length buf"
  shows "r < length buf \<Longrightarrow> \<exists>ms r'. uart_loop buf w r = Some (ms, r') \<and> r' < length buf \<and>
    (map (message_bytes buf) ms, ring_bytes buf r' (used_bytes (length buf) r' w)) =
      uart_parse (ring_bytes buf r (used_bytes (length buf) r w))"
proof (induction "used_bytes (length buf) r w" arbitrary: r rule: less_induct)
  case less
  let ?n = "length buf" and ?u = "used_bytes (length buf) r w"
  let ?bs = "ring_bytes buf r ?u"
  let ?k = "ring_u16 buf (r + 2)"
  show ?case
  proof (cases "?u < 4")
    case True
    then have "uart_loop buf w r = Some ([], r)"
      by (subst uart_loop.simps) (simp add: Let_def UART_MESSAGE_HEADER_SIZE_def)
    moreover have "uart_parse ?bs = ([], ?bs)" using True by (subst uart_parse.simps) simp
    ultimately show ?thesis using less.prems by simp
  next
    case False
    then have u: "4 \<le> ?u" and rw: "r \<noteq> w" using used_eq_0 [OF less.prems assms] by auto
    note h = header_of_ring [OF less.prems u]
    have adv: "\<exists>ms r'. uart_loop buf w ((r + k) mod ?n) = Some (ms, r') \<and> r' < ?n \<and>
        (map (message_bytes buf) ms, ring_bytes buf r' (used_bytes ?n r' w)) = uart_parse (drop k ?bs)"
      if "0 < k" "k \<le> ?u" for k
    proof -
      have "(r + k) mod ?n < ?n" using less.prems by (intro mod_less_divisor) linarith
      moreover have "used_bytes ?n ((r + k) mod ?n) w = ?u - k"
        by (rule used_advance [OF less.prems assms that(2)])
      ultimately show ?thesis using less.hyps [of "(r + k) mod ?n"] that by (simp add: drop_ring)
    qed
    consider (skip) "\<not> has_magic ?bs \<or> has_magic ?bs \<and> ?u = 4 \<and> ?k = 0"
      | (wait) "has_magic ?bs" "?u < ?k + 4"
      | (message) "has_magic ?bs" "?k + 4 \<le> ?u" "4 < ?u"
      using u by linarith
    then show ?thesis
    proof cases
      case skip
      then have l: "uart_loop buf w r = uart_loop buf w ((r + 1) mod ?n)"
        using u rw h by (subst uart_loop.simps) (auto simp: Let_def UART_MESSAGE_HEADER_SIZE_def)
      have p: "uart_parse ?bs = uart_parse (drop 1 ?bs)"
        using skip u h by (subst uart_parse.simps) (auto simp: drop_Suc)
      show ?thesis unfolding l p by (rule adv) (use u in simp_all)
    next
      case wait
      then have "uart_loop buf w r = Some ([], r)"
        using u rw h by (subst uart_loop.simps) (simp add: Let_def UART_MESSAGE_HEADER_SIZE_def)
      moreover have "uart_parse ?bs = ([], ?bs)" using wait u h by (subst uart_parse.simps) simp
      ultimately show ?thesis using less.prems by simp
    next
      case message
      obtain ms r' where rec: "uart_loop buf w ((r + (?k + 4)) mod ?n) = Some (ms, r')" "r' < ?n"
        "(map (message_bytes buf) ms, ring_bytes buf r' (used_bytes ?n r' w)) = uart_parse (drop (?k + 4) ?bs)"
        using adv [of "?k + 4"] message by auto
      let ?m = "\<lparr>start_idx = (r + 4) mod ?n, message_length = ?k\<rparr>"
      have l: "uart_loop buf w r = Some (?m # ms, r')"
        using u rw h message rec(1) by (subst uart_loop.simps) (simp add: Let_def UART_MESSAGE_HEADER_SIZE_def add.assoc)
      have m: "message_bytes buf ?m = take ?k (drop 4 ?bs)"
        using message by (simp add: drop_ring take_ring ring_mod)
      have "uart_parse ?bs = (take ?k (drop 4 ?bs) # fst (uart_parse (drop (?k + 4) ?bs)), snd (uart_parse (drop (?k + 4) ?bs)))"
        using message u h by (subst uart_parse.simps) (simp add: case_prod_beta Let_def)
      then have "uart_parse ?bs = (map (message_bytes buf) (?m # ms), ring_bytes buf r' (used_bytes ?n r' w))"
        unfolding rec(3) [symmetric] list.map m by simp
      then show ?thesis using l rec(2) by (intro exI [of _ "?m # ms"] exI [of _ r']) simp
    qed
  qed
qed

subsection \<open>Streams of messages\<close>

text \<open>What a sender sends for a message.\<close>

definition uart_frame :: "u8 list \<Rightarrow> u8 list" where
  "uart_frame p = [0x8E, 0xAD, of_nat (length p mod 256), of_nat (length p div 256)] @ p"

lemma frame_fields:
  assumes "length p < 65536"
  shows "length (uart_frame p @ xs) = length p + 4 + length xs" "has_magic (uart_frame p @ xs)"
    "length_field (uart_frame p @ xs) = length p"
proof -
  have "unat (of_nat (length p mod 256) :: u8) = length p mod 256"
    by (simp add: unat_of_nat)
  moreover have "length p div 256 < 256" using assms by (simp add: div_less_iff_less_mult)
  then have "unat (of_nat (length p div 256) :: u8) = length p div 256"
    by (simp add: unat_of_nat)
  ultimately show "length (uart_frame p @ xs) = length p + 4 + length xs" "has_magic (uart_frame p @ xs)"
    "length_field (uart_frame p @ xs) = length p"
    by (simp_all add: uart_frame_def has_magic_def length_field_def)
qed

lemma parse_frame:
  assumes "length p < 65536" "p \<noteq> []"
  shows "uart_parse (uart_frame p @ xs) = (p # fst (uart_parse xs), snd (uart_parse xs))"
  using frame_fields [OF assms(1), of xs] assms(2)
  by (subst uart_parse.simps) (simp add: case_prod_beta Let_def, simp add: uart_frame_def)

text \<open>A part of a message is not a message yet.\<close>

lemma parse_part:
  assumes "length p < 65536" "p \<noteq> []" "k < length (uart_frame p)"
  shows "uart_parse (take k (uart_frame p)) = ([], take k (uart_frame p))"
proof (cases "k < 4")
  case False
  let ?bs = "take k (uart_frame p)"
  have len: "length ?bs = k" "4 \<le> k" using False assms(3) by simp_all
  have "has_magic ?bs = has_magic (uart_frame p @ [])" "length_field ?bs = length_field (uart_frame p @ [])"
    using len(2) by (simp_all add: has_magic_def length_field_def)
  then have "has_magic ?bs" "length_field ?bs = length p" using frame_fields [OF assms(1), of "[]"] by simp_all
  moreover have "k < length p + 4" using assms(3) by (simp add: uart_frame_def)
  ultimately show ?thesis using len by (subst uart_parse.simps) simp
qed (subst uart_parse.simps, simp add: min_less_iff_disj)

text \<open>What is received is a part of the stream that is left; its messages are the ones complete in it.\<close>

definition uart_stream :: "u8 list list \<Rightarrow> u8 list" where
  "uart_stream ps = concat (map uart_frame ps)"

definition messages_ok :: "nat \<Rightarrow> u8 list list \<Rightarrow> bool" where
  "messages_ok k ps \<longleftrightarrow> (\<forall>p\<in>set ps. p \<noteq> [] \<and> length p < 65536 \<and> length p + 4 \<le> k)"

lemma parse_prefix:
  assumes "messages_ok k ps" "bs @ rest = uart_stream ps"
  shows "\<exists>ps1 ps2 t. ps = ps1 @ ps2 \<and> uart_parse bs = (ps1, t) \<and> t @ rest = uart_stream ps2 \<and>
    (t = [] \<or> length t < k)"
  using assms
proof (induction ps arbitrary: bs)
  case Nil
  then have "uart_parse bs = ([], [])" by (subst uart_parse.simps) (simp add: uart_stream_def)
  then show ?case using Nil by (auto simp: uart_stream_def)
next
  case (Cons p ps)
  have p: "p \<noteq> []" "length p < 65536" "length p + 4 \<le> k" and ok: "messages_ok k ps"
    using Cons.prems(1) by (simp_all add: messages_ok_def)
  have s: "bs @ rest = uart_frame p @ uart_stream ps" using Cons.prems(2) by (simp add: uart_stream_def)
  show ?case
  proof (cases "length bs < length (uart_frame p)")
    case True
    then have b: "bs = take (length bs) (uart_frame p)"
      using s by (metis append_eq_append_conv_if append_eq_conv_conj nat_less_le)
    have "uart_parse bs = ([], bs)" using parse_part [OF p(2,1) True] b by simp
    moreover have "length bs < k" using True p(3) by (simp add: uart_frame_def)
    ultimately show ?thesis using Cons.prems(2) by (intro exI [of _ "[]"] exI [of _ "p # ps"] exI [of _ bs]) simp
  next
    case False
    then obtain bs' where b: "bs = uart_frame p @ bs'" "bs' @ rest = uart_stream ps"
      using s by (metis append_eq_append_conv2 append.right_neutral append_eq_append_conv_if append_take_drop_id le_less_linear)
    obtain ps1 ps2 t where "ps = ps1 @ ps2" "uart_parse bs' = (ps1, t)" "t @ rest = uart_stream ps2" "t = [] \<or> length t < k"
      using Cons.IH [OF ok b(2)] by blast
    then show ?thesis using parse_frame [OF p(2,1), of bs'] b(1)
      by (intro exI [of _ "p # ps1"] exI [of _ ps2] exI [of _ t]) simp
  qed
qed

subsection \<open>Reception\<close>

text \<open>The DMA writes a chunk behind the last one and the handler is called; the buffer is not overrun.\<close>

definition dma_write :: "nat \<Rightarrow> u8 list \<Rightarrow> u8 list \<Rightarrow> u8 list" where
  "dma_write w c buf = map (\<lambda>i. let k = used_bytes (length buf) w i in if k < length c then c ! k else buf ! i) [0..<length buf]"

text \<open>The messages of a call, as the bytes they have in the buffer when it returns.\<close>

fun uart_receive :: "u8 list list \<Rightarrow> uart_rx \<Rightarrow> (u8 list list \<times> uart_rx) option" where
  "uart_receive [] s = Some ([], s)"
| "uart_receive (c # cs) s =
    (let w = (if write_index s = SIZE_MAX then 0 else write_index s);
         buf = dma_write w c (uart_rx_ring_buf s)
     in case uart_event_callback (UART_RX_RDY w (length c)) (s\<lparr>uart_rx_ring_buf := buf\<rparr>) of
          None \<Rightarrow> None
        | Some (ms, s1) \<Rightarrow>
            map_option (\<lambda>(ps, t). (map (message_bytes buf) ms @ ps, t)) (uart_receive cs s1))"

lemma length_dma [simp]: "length (dma_write w c buf) = length buf"
  by (simp add: dma_write_def)

lemma used_offset: "w < n \<Longrightarrow> k < n \<Longrightarrow> used_bytes n w ((w + k) mod n) = k"
proof -
  assume a: "w < n" "k < n"
  have "(w + k) mod n = (if w + k < n then w + k else w + k - n)" using a by (auto simp: mod_if le_mod_geq)
  then show ?thesis using a used_cases [of w n "(w + k) mod n"] by (auto split: if_splits)
qed

lemma nth_dma: "j < length buf \<Longrightarrow> dma_write w c buf ! j =
    (let k = used_bytes (length buf) w j in if k < length c then c ! k else buf ! j)"
  using nth_upt [of 0 j "length buf"] unfolding dma_write_def by (simp only: nth_map length_upt add_0 diff_zero)

lemma ring_after_dma:
  assumes "r < length buf" "w < length buf" "used_bytes (length buf) r w + length c < length buf"
  shows "ring_bytes (dma_write w c buf) r (used_bytes (length buf) r w + length c) =
    ring_bytes buf r (used_bytes (length buf) r w) @ c"
proof (rule nth_equalityI)
  let ?n = "length buf" and ?u = "used_bytes (length buf) r w"
  show "length (ring_bytes (dma_write w c buf) r (?u + length c)) = length (ring_bytes buf r ?u @ c)" by simp
  fix i assume "i < length (ring_bytes (dma_write w c buf) r (?u + length c))"
  then have i: "i < ?u + length c" by simp
  have n: "0 < ?n" using assms(1) by linarith
  have w: "(r + ?u) mod ?n = w"
    using used_cases [OF assms(1,2)] assms(1,2) by (auto simp: mod_if le_mod_geq)
  let ?j = "(r + i) mod ?n"
  have j: "?j < ?n" using n by simp
  have "ring_bytes (dma_write w c buf) r (?u + length c) ! i =
      (let k = used_bytes ?n w ?j in if k < length c then c ! k else buf ! ?j)"
    using i nth_dma [OF j, of w c] by simp
  also have "\<dots> = (ring_bytes buf r ?u @ c) ! i"
  proof (cases "i < ?u")
    case True
    have "?j = (w + (?n - (?u - i))) mod ?n"
    proof -
      have "(w + (?n - (?u - i))) mod ?n = ((r + ?u) mod ?n + (?n - (?u - i))) mod ?n" by (simp only: w)
      also have "\<dots> = (r + i + ?n) mod ?n" using True assms(3) by (simp only: mod_add_left_eq) (simp add: ac_simps)
      finally show ?thesis by simp
    qed
    moreover have lt: "?n - (?u - i) < ?n" using True n by linarith
    ultimately have "used_bytes ?n w ?j = ?n - (?u - i)" by (simp only: used_offset [OF assms(2) lt])
    moreover have "\<not> ?n - (?u - i) < length c" using assms(3) True by linarith
    ultimately show ?thesis using True by (simp add: nth_append Let_def)
  next
    case False
    have "?j = (w + (i - ?u)) mod ?n"
    proof -
      have "(w + (i - ?u)) mod ?n = ((r + ?u) mod ?n + (i - ?u)) mod ?n" by (simp only: w)
      also have "\<dots> = (r + i) mod ?n" using False by (simp only: mod_add_left_eq) simp
      finally show ?thesis by simp
    qed
    moreover have lt: "i - ?u < ?n" using i assms(3) by linarith
    ultimately have "used_bytes ?n w ?j = i - ?u" by (simp only: used_offset [OF assms(2) lt])
    moreover have "i - ?u < length c" using False i by linarith
    ultimately show ?thesis using False by (simp add: nth_append Let_def)
  qed
  finally show "ring_bytes (dma_write w c buf) r (?u + length c) ! i = (ring_bytes buf r ?u @ c) ! i" .
qed

definition uart_pending :: "uart_rx \<Rightarrow> u8 list" where
  "uart_pending s = (if write_index s = SIZE_MAX then []
     else ring_bytes (uart_rx_ring_buf s) (read_index s) (used_bytes (length (uart_rx_ring_buf s)) (read_index s) (write_index s)))"

definition uart_rx_ok :: "nat \<Rightarrow> uart_rx \<Rightarrow> bool" where
  "uart_rx_ok n s \<longleftrightarrow> length (uart_rx_ring_buf s) = n \<and>
     (read_index s = SIZE_MAX \<and> write_index s = SIZE_MAX \<or> read_index s < n \<and> write_index s < n)"

text \<open>One chunk: the call returns the messages complete in what was pending and the chunk.\<close>

lemma receive_chunk:
  assumes s: "uart_rx_ok n s" and n: "0 < n" "n \<le> SIZE_MAX" and room: "length (uart_pending s) + length c < n"
  shows "\<exists>ms s1. uart_event_callback (UART_RX_RDY (if write_index s = SIZE_MAX then 0 else write_index s) (length c))
      (s\<lparr>uart_rx_ring_buf := dma_write (if write_index s = SIZE_MAX then 0 else write_index s) c (uart_rx_ring_buf s)\<rparr>) = Some (ms, s1) \<and>
    uart_rx_ok n s1 \<and>
    (map (message_bytes (dma_write (if write_index s = SIZE_MAX then 0 else write_index s) c (uart_rx_ring_buf s))) ms, uart_pending s1) =
      uart_parse (uart_pending s @ c)"
proof -
  define w r where "w = (if write_index s = SIZE_MAX then 0 else write_index s)"
    and "r = (if write_index s = SIZE_MAX then 0 else read_index s)"
  define buf where "buf = dma_write w c (uart_rx_ring_buf s)"
  let ?old = "uart_rx_ring_buf s" and ?w = "(w + length c) mod n"
  have len: "length ?old = n" "length buf = n" using s by (simp_all add: uart_rx_ok_def buf_def)
  have wr: "w < n" "r < n" using s n by (auto simp: uart_rx_ok_def w_def r_def)
  have pend: "uart_pending s = ring_bytes ?old r (used_bytes n r w)"
  proof (cases "write_index s = SIZE_MAX")
    case True
    then show ?thesis using used_eq_0 [of 0 n 0] n(1) by (simp add: uart_pending_def w_def r_def ring_bytes_def)
  next
    case False
    then show ?thesis by (simp add: uart_pending_def w_def r_def len)
  qed
  have room': "used_bytes n r w + length c < n" using room by (simp add: pend)
  have w': "?w < n" using n(1) by simp
  have used: "used_bytes n r ?w = used_bytes n r w + length c"
  proof -
    have "(r + used_bytes n r w) mod n = w"
      using used_cases [OF wr(2,1)] wr by (auto simp: mod_if le_mod_geq)
    then have "?w = (r + (used_bytes n r w + length c)) mod n"
      by (metis add.assoc mod_add_left_eq)
    then show ?thesis using used_offset [OF wr(2) room'] by simp
  qed
  obtain ms r' where l: "uart_loop buf ?w r = Some (ms, r')" "r' < n"
    "(map (message_bytes buf) ms, ring_bytes buf r' (used_bytes n r' ?w)) = uart_parse (ring_bytes buf r (used_bytes n r ?w))"
    using loop_refines_parse [of ?w buf r] w' wr len by auto
  have bytes: "ring_bytes buf r (used_bytes n r ?w) = uart_pending s @ c"
    using ring_after_dma [of r ?old w c] wr room' unfolding len used pend buf_def by simp
  define s0 where "s0 = s\<lparr>uart_rx_ring_buf := buf\<rparr>"
  define s1 where "s1 = s0\<lparr>read_index := r', write_index := ?w\<rparr>"
  have iff: "(read_index s = SIZE_MAX \<and> write_index s = SIZE_MAX) = (write_index s = SIZE_MAX)"
    using s n by (auto simp: uart_rx_ok_def)
  have cb: "uart_event_callback (UART_RX_RDY w (length c)) s0 = Some (ms, s1)"
  proof (cases "write_index s = SIZE_MAX")
    case True
    then show ?thesis using l(1) iff len
      by (simp add: uart_event_callback_def s0_def s1_def w_def r_def Let_def)
  next
    case False
    then show ?thesis using l(1) iff len
      by (simp add: uart_event_callback_def s0_def s1_def w_def r_def Let_def)
  qed
  have "uart_rx_ok n s1" using l(2) w' len by (simp add: uart_rx_ok_def s1_def s0_def)
  moreover have "?w \<noteq> SIZE_MAX" using w' n(2) by linarith
  then have "uart_pending s1 = ring_bytes buf r' (used_bytes n r' ?w)"
    by (simp add: uart_pending_def s1_def s0_def len)
  ultimately show ?thesis using cb l(3) unfolding w_def [symmetric] buf_def [symmetric] s0_def [symmetric] bytes
    by (intro exI [of _ ms] exI [of _ s1]) simp
qed

lemma parse_stream: "messages_ok k ps \<Longrightarrow> uart_parse (uart_stream ps) = (ps, [])"
proof (induction ps)
  case Nil
  then show ?case by (subst uart_parse.simps) (simp add: uart_stream_def)
next
  case (Cons p ps)
  then show ?case using parse_frame [of p "uart_stream ps"] by (simp add: messages_ok_def uart_stream_def)
qed

lemma receive_chunks:
  assumes n: "0 < n" "n \<le> SIZE_MAX" and k: "0 < k"
  shows "uart_rx_ok n s \<Longrightarrow> messages_ok k ps \<Longrightarrow> uart_pending s @ concat cs = uart_stream ps \<Longrightarrow>
    uart_pending s = [] \<or> length (uart_pending s) < k \<Longrightarrow> \<forall>c\<in>set cs. length c + k \<le> n \<Longrightarrow>
    \<exists>qs t. uart_receive cs s = Some (qs, t) \<and> (cs \<noteq> [] \<longrightarrow> qs = ps)"
proof (induction cs arbitrary: s ps)
  case (Cons c cs)
  let ?p = "uart_pending s"
  define w where "w = (if write_index s = SIZE_MAX then 0 else write_index s)"
  have room: "length ?p + length c < n" using Cons.prems(4,5) k n(1) by auto
  obtain ms s1 where cb: "uart_event_callback (UART_RX_RDY w (length c)) (s\<lparr>uart_rx_ring_buf := dma_write w c (uart_rx_ring_buf s)\<rparr>) = Some (ms, s1)"
    and s1: "uart_rx_ok n s1"
    and pr: "(map (message_bytes (dma_write w c (uart_rx_ring_buf s))) ms, uart_pending s1) = uart_parse (?p @ c)"
    using receive_chunk [OF Cons.prems(1) n room] unfolding w_def by blast
  have "(?p @ c) @ concat cs = uart_stream ps" using Cons.prems(3) by simp
  from parse_prefix [OF Cons.prems(2) this] obtain ps1 ps2 t where
    ps: "ps = ps1 @ ps2" "uart_parse (?p @ c) = (ps1, t)" "t @ concat cs = uart_stream ps2" "t = [] \<or> length t < k"
    by blast
  have q: "map (message_bytes (dma_write w c (uart_rx_ring_buf s))) ms = ps1" "uart_pending s1 = t" using pr ps(2) by simp_all
  have "messages_ok k ps2" using Cons.prems(2) ps(1) by (simp add: messages_ok_def)
  then obtain qs u where r: "uart_receive cs s1 = Some (qs, u)" "cs \<noteq> [] \<longrightarrow> qs = ps2"
    using Cons.IH [OF s1, of ps2] q ps(3,4) Cons.prems(5) by auto
  have "uart_receive (c # cs) s = Some (ps1 @ qs, u)"
    using cb r(1) q(1) by (simp add: w_def [symmetric] Let_def)
  moreover have "ps1 @ qs = ps"
  proof (cases "cs = []")
    case True
    then have "uart_parse (?p @ c) = (ps, [])" using parse_stream [OF Cons.prems(2)] Cons.prems(3) by simp
    then show ?thesis using ps(2) r(1) True by simp
  next
    case False
    then show ?thesis using r(2) ps(1) by simp
  qed
  ultimately show ?case by blast
qed simp

text \<open>What the handler finds in a stream, in whatever chunks it comes.\<close>

lemma uart_receive_stream:
  assumes "0 < n" "n \<le> SIZE_MAX" and "messages_ok k ps" "0 < k"
    and "concat cs = uart_stream ps" and "\<forall>c\<in>set cs. length c + k \<le> n"
  shows "\<exists>t. uart_receive cs (uart_rx_start n) = Some (ps, t)"
proof (cases "cs = []")
  case True
  then have "ps = []" using assms(5) by (cases ps) (simp_all add: uart_stream_def uart_frame_def)
  then show ?thesis using True by simp
next
  case False
  have "uart_rx_ok n (uart_rx_start n)" "uart_pending (uart_rx_start n) = []"
    by (simp_all add: uart_rx_ok_def uart_rx_start_def uart_pending_def)
  then show ?thesis using receive_chunks [OF assms(1,2,4), of "uart_rx_start n" ps cs] assms(3,5,6) False by auto
qed

text \<open>
  A header whose length does not fit the buffer stops reception: whatever follows it, also
  complete messages, no chunk that leaves room in the buffer gives a message, and the read
  index stays at the header.
\<close>

theorem uart_oversize_blocks:
  assumes "uart_rx_ok n s" "0 < n" "n \<le> SIZE_MAX" and "length (uart_pending s @ c) < n"
    and "uart_pending s = [0x8E, 0xAD, l0, l1] @ rest" and "n \<le> unat l1 * 256 + unat l0 + 4"
  shows "\<exists>s1. uart_receive [c] s = Some ([], s1) \<and> uart_rx_ok n s1 \<and> uart_pending s1 = uart_pending s @ c"
proof -
  define w where "w = (if write_index s = SIZE_MAX then 0 else write_index s)"
  have room: "length (uart_pending s) + length c < n" using assms(4) by simp
  have "uart_parse (uart_pending s @ c) = ([], uart_pending s @ c)"
    using assms(4-6) by (subst uart_parse.simps) (simp add: has_magic_def length_field_def)
  then obtain ms s1 where "uart_event_callback (UART_RX_RDY w (length c)) (s\<lparr>uart_rx_ring_buf := dma_write w c (uart_rx_ring_buf s)\<rparr>) = Some (ms, s1)"
    "uart_rx_ok n s1" "ms = []" "uart_pending s1 = uart_pending s @ c"
    using receive_chunk [OF assms(1-3) room] unfolding w_def by auto
  then show ?thesis by (simp add: w_def [symmetric] Let_def)
qed

lemma uart_oversize_blocks_witness:
  "\<exists>s1. uart_receive [[1, 2, 3]] \<lparr>uart_rx_ring_buf = [0x8E, 0xAD, 0xFF, 0xFF, 5, 0, 0, 0, 0, 0, 0, 0, 0, 0, 0, 0], read_index = 0, write_index = 5\<rparr>
      = Some ([], s1) \<and> uart_rx_ok 16 s1 \<and>
    uart_pending s1 = uart_pending \<lparr>uart_rx_ring_buf = [0x8E, 0xAD, 0xFF, 0xFF, 5, 0, 0, 0, 0, 0, 0, 0, 0, 0, 0, 0], read_index = 0, write_index = 5\<rparr> @ [1, 2, 3]"
  by (rule uart_oversize_blocks [where ?l0.0 = "0xFF" and ?l1.0 = "0xFF" and rest = "[5]"])
    (simp_all add: uart_rx_ok_def SIZE_MAX_def uart_pending_def used_cases ring_bytes_def upt_rec)

subsection \<open>Reading a queued message\<close>

lemma read_circular:
  assumes "source < length buf" and "cnt < length buf"
  shows "buf_read_circular buf source cnt = (ring_bytes buf source cnt, (source + cnt) mod length buf)"
proof (cases "source + cnt < length buf")
  case True
  then have "(source + cnt) mod length buf = source + cnt" by simp
  moreover have "take cnt (drop source buf) = ring_bytes buf source cnt"
    using True by (intro nth_equalityI) simp_all
  ultimately show ?thesis by (simp add: buf_read_circular_def)
next
  case False
  have e: "(source + cnt) mod length buf = source + cnt - length buf"
    using False assms by (simp add: mod_if)
  have "take (length buf - source) (drop source buf) @ take (cnt - (length buf - source)) buf = ring_bytes buf source cnt"
  proof (rule nth_equalityI)
    fix i assume "i < length (take (length buf - source) (drop source buf) @ take (cnt - (length buf - source)) buf)"
    then have "i < cnt" using assms False by auto
    moreover have "(source + i) mod length buf = (if source + i < length buf then source + i else source + i - length buf)"
      using assms \<open>i < cnt\<close> by (auto simp: mod_if)
    ultimately show "(take (length buf - source) (drop source buf) @ take (cnt - (length buf - source)) buf) ! i =
        ring_bytes buf source cnt ! i" using assms False
      by (auto simp: nth_append add.commute)
  qed (use assms False in auto)
  moreover have "source + cnt - length buf < source" using False assms by linarith
  ultimately show ?thesis by (simp only: buf_read_circular_def Let_def e if_True)
qed

lemma ring_append: "ring_bytes buf r (a + b) = ring_bytes buf r a @ ring_bytes buf ((r + a) mod length buf) b"
  using take_ring [of a "a + b" buf r] drop_ring [of a buf r "a + b"]
  by (metis add_diff_cancel_left' append_take_drop_id le_add1)

text \<open>
  The decoder asks for the bytes of a message in pieces; \<open>read_pieces\<close> is what it is given.
\<close>

fun read_pieces :: "u8 list \<Rightarrow> nat \<Rightarrow> nat list \<Rightarrow> u8 list \<times> nat" where
  "read_pieces buf source [] = ([], source)"
| "read_pieces buf source (k # ks) =
    (let (bs, source') = buf_read_circular buf source k; (bs', end_ptr) = read_pieces buf source' ks in (bs @ bs', end_ptr))"

text \<open>
  The decoder's byte source delivers exactly the bytes of a queued message, in whatever pieces it
  asks for them and wherever the message wraps around in the ring buffer.
\<close>

theorem buf_read_circular_bytes:
  assumes "source < length buf" and "sum_list ks < length buf"
  shows "read_pieces buf source ks = (ring_bytes buf source (sum_list ks), (source + sum_list ks) mod length buf)"
  using assms
proof (induction ks arbitrary: source)
  case Nil
  then show ?case by (simp add: ring_bytes_def)
next
  case (Cons k ks)
  have "(source + k) mod length buf < length buf" using Cons.prems(1) by (intro mod_less_divisor) linarith
  then show ?case
    using Cons.IH [of "(source + k) mod length buf"] Cons.prems read_circular [OF Cons.prems(1), of k]
    by (simp add: ring_append mod_add_left_eq add.assoc)
qed

lemma buf_read_circular_bytes_witness:
  "read_pieces [1, 2, 3, 4] 3 [1, 2] = (ring_bytes [1, 2, 3, 4] 3 (sum_list [1, 2]), (3 + sum_list [1, 2]) mod 4)"
  using buf_read_circular_bytes [of 3 "[1, 2, 3, 4]" "[1, 2]"] by simp

subsection \<open>From the wire to the handler\<close>

text \<open>
  Reception, the queue and the thread that takes the messages (\<^verbatim>\<open>rx_thread\<close>) together: a chunk arrives, with the
  interrupt it causes; the thread gets a message from the queue; the thread has read it out of
  the ring buffer. \<open>us_taken\<close> is the message the thread is at, \<open>us_handled\<close> what the handler was given.
\<close>

datatype uart_op = Uart_chunk "u8 list" | Uart_get | Uart_read

record 'q uart_system =
  us_rx :: uart_rx
  us_queue :: 'q
  us_taken :: "uart_message_t option"
  us_handled :: "u8 list list"

definition uart_chunk_rx :: "u8 list \<Rightarrow> uart_rx \<Rightarrow> (uart_message_t list \<times> uart_rx) option" where
  "uart_chunk_rx c s =
    (let w = (if write_index s = SIZE_MAX then 0 else write_index s)
     in uart_event_callback (UART_RX_RDY w (length c)) (s\<lparr>uart_rx_ring_buf := dma_write w c (uart_rx_ring_buf s)\<rparr>))"

fun uart_step :: "('q, uart_message_t) msgq_api \<Rightarrow> uart_op \<Rightarrow> 'q uart_system \<Rightarrow> 'q uart_system option" where
  "uart_step mq (Uart_chunk c) s =
    map_option (\<lambda>(ms, rx). s\<lparr>us_rx := rx, us_queue := uart_queue_messages mq ms (us_queue s)\<rparr>) (uart_chunk_rx c (us_rx s))"
| "uart_step mq Uart_get s =
    Some (case us_taken s of
            Some m \<Rightarrow> s
          | None \<Rightarrow> let (m, q) = k_msgq_get mq (us_queue s) in s\<lparr>us_taken := m, us_queue := q\<rparr>)"
| "uart_step mq Uart_read s =
    Some (case us_taken s of
            None \<Rightarrow> s
          | Some m \<Rightarrow> s\<lparr>us_taken := None, us_handled := us_handled s @
              [fst (buf_read_circular (uart_rx_ring_buf (us_rx s)) (start_idx m) (message_length m))]\<rparr>)"

fun uart_run :: "('q, uart_message_t) msgq_api \<Rightarrow> uart_op list \<Rightarrow> 'q uart_system \<Rightarrow> 'q uart_system option" where
  "uart_run mq [] s = Some s"
| "uart_run mq (op # ops) s = Option.bind (uart_step mq op s) (uart_run mq ops)"

definition uart_system_start :: "nat \<Rightarrow> 'q \<Rightarrow> 'q uart_system" where
  "uart_system_start n q = \<lparr>us_rx = uart_rx_start n, us_queue = q, us_taken = None, us_handled = []\<rparr>"

text \<open>The bytes that arrive.\<close>

fun uart_arrived :: "uart_op list \<Rightarrow> u8 list" where
  "uart_arrived [] = []"
| "uart_arrived (Uart_chunk c # ops) = c @ uart_arrived ops"
| "uart_arrived (_ # ops) = uart_arrived ops"

text \<open>
  When the thread keeps up: \<open>ws\<close> are the messages found and not yet read, \<open>busy\<close> tells whether
  the thread is at the first of them, \<open>t\<close> is what has arrived of the next. With each chunk all of this stays within the ring
  buffer, and the messages that are queued within the queue.
\<close>

fun uart_keeps_up :: "nat \<Rightarrow> nat \<Rightarrow> uart_op list \<Rightarrow> bool \<Rightarrow> u8 list list \<Rightarrow> u8 list \<Rightarrow> bool" where
  "uart_keeps_up n cap [] busy ws t \<longleftrightarrow> True"
| "uart_keeps_up n cap (Uart_chunk c # ops) busy ws t \<longleftrightarrow>
    length (uart_stream ws) + length t + length c < n \<and>
    length (if busy then tl ws else ws) + length (fst (uart_parse (t @ c))) \<le> cap \<and>
    uart_keeps_up n cap ops busy (ws @ fst (uart_parse (t @ c))) (snd (uart_parse (t @ c)))"
| "uart_keeps_up n cap (Uart_get # ops) busy ws t \<longleftrightarrow> uart_keeps_up n cap ops (ws \<noteq> []) ws t"
| "uart_keeps_up n cap (Uart_read # ops) busy ws t \<longleftrightarrow> uart_keeps_up n cap ops False (if busy then tl ws else ws) t"

text \<open>Where the messages of a stream lie that begins at \<open>a\<close>.\<close>

fun places :: "nat \<Rightarrow> nat \<Rightarrow> u8 list list \<Rightarrow> uart_message_t list" where
  "places n a [] = []"
| "places n a (p # ps) =
    \<lparr>start_idx = (a + UART_MESSAGE_HEADER_SIZE) mod n, message_length = length p\<rparr> #
    places n ((a + (length p + UART_MESSAGE_HEADER_SIZE)) mod n) ps"

lemma uart_stream_simps [simp]:
  "uart_stream [] = []" "uart_stream (p # ps) = uart_frame p @ uart_stream ps" "uart_stream (ps @ qs) = uart_stream ps @ uart_stream qs"
  by (simp_all add: uart_stream_def)

lemma length_frame [simp]: "length (uart_frame p) = length p + 4"
  by (simp add: uart_frame_def)

lemma places_append:
  "a < n \<Longrightarrow> places n a (ps @ qs) = places n a ps @ places n ((a + length (uart_stream ps)) mod n) qs"
proof (induction ps arbitrary: a)
  case (Cons p ps)
  have "(a + (length p + UART_MESSAGE_HEADER_SIZE)) mod n < n" using Cons.prems by (intro mod_less_divisor) linarith
  then show ?case using Cons.IH
    by (simp add: mod_add_left_eq mod_add_right_eq UART_MESSAGE_HEADER_SIZE_def ac_simps)
qed simp

lemma ring_split:
  assumes "ring_bytes buf a u = xs @ ys"
  shows "ring_bytes buf a (length xs) = xs" "ring_bytes buf ((a + length xs) mod length buf) (u - length xs) = ys" "u = length xs + length ys"
proof -
  have len: "length (ring_bytes buf a u) = length xs + length ys" unfolding assms by simp
  then show u: "u = length xs + length ys" by simp
  show "ring_bytes buf a (length xs) = xs" using take_ring [of "length xs" u buf a] assms u by simp
  show "ring_bytes buf ((a + length xs) mod length buf) (u - length xs) = ys"
    using drop_ring [of "length xs" buf a u] assms by simp
qed

lemma places_bytes:
  "ring_bytes buf a u = uart_stream ps @ t \<Longrightarrow> map (message_bytes buf) (places (length buf) a ps) = ps"
proof (induction ps arbitrary: a u)
  case (Cons p ps)
  have 1: "ring_bytes buf a u = uart_frame p @ (uart_stream ps @ t)" using Cons.prems by simp
  note sp = ring_split [OF 1]
  define h where "h = [0x8E, 0xAD, of_nat (length p mod 256), of_nat (length p div 256) :: u8]"
  have "ring_bytes buf a (length (uart_frame p)) = h @ p" using sp(1) by (simp add: uart_frame_def h_def)
  moreover have "length h = 4" by (simp add: h_def)
  ultimately have "ring_bytes buf ((a + 4) mod length buf) (length p) = p" using ring_split(2) by fastforce
  moreover have "map (message_bytes buf) (places (length buf) ((a + (length p + 4)) mod length buf) ps) = ps"
    using sp(2) by (intro Cons.IH [of _ "u - length (uart_frame p)"]) simp
  ultimately show ?case by (simp add: UART_MESSAGE_HEADER_SIZE_def)
qed simp

lemma parse_rest: "snd (uart_parse bs) = t \<Longrightarrow> uart_parse t = ([], t)"
proof (induction bs rule: uart_parse.induct)
  case (1 bs)
  show ?case
  proof (cases "length bs < 4 \<or> has_magic bs \<and> length bs < length_field bs + 4")
    case True
    then have "uart_parse bs = ([], bs)" by (subst uart_parse.simps) auto
    then show ?thesis using 1(4) by simp
  next
    case False
    then consider "\<not> has_magic bs \<or> length bs = 4" | "has_magic bs" "length bs \<noteq> 4" by blast
    then show ?thesis
    proof cases
      case 1
      then have "uart_parse bs = uart_parse (tl bs)" using False by (subst uart_parse.simps) auto
      then show ?thesis using "1.IH"(1,2) "1.prems" 1 False by (cases "has_magic bs") auto
    next
      case 2
      then have "snd (uart_parse bs) = snd (uart_parse (drop (length_field bs + 4) bs))"
        using False by (subst uart_parse.simps) (simp add: case_prod_beta Let_def)
      then show ?thesis using "1.IH"(3) "1.prems" 2 False by auto
    qed
  qed
qed

lemma used_inj: "r < n \<Longrightarrow> r' < n \<Longrightarrow> w < n \<Longrightarrow> used_bytes n r w = used_bytes n r' w \<Longrightarrow> r = r'"
  by (auto simp: used_cases split: if_splits)

text \<open>The handler finds the messages of a stream where they lie.\<close>

lemma loop_places:
  assumes "w < length buf" "messages_ok k ps" "uart_parse t = ([], t)"
  shows "r < length buf \<Longrightarrow> ring_bytes buf r (used_bytes (length buf) r w) = uart_stream ps @ t \<Longrightarrow>
    uart_loop buf w r = Some (places (length buf) r ps, (r + length (uart_stream ps)) mod length buf)"
  using assms(2)
proof (induction ps arbitrary: r)
  case Nil
  obtain ms r' where l: "uart_loop buf w r = Some (ms, r')" "r' < length buf"
    "(map (message_bytes buf) ms, ring_bytes buf r' (used_bytes (length buf) r' w)) = uart_parse t"
    using loop_refines_parse [OF assms(1) Nil.prems(1)] Nil.prems(2) by auto
  then have ms: "ms = []" and t: "ring_bytes buf r' (used_bytes (length buf) r' w) = t" using assms(3) by auto
  have "used_bytes (length buf) r' w = used_bytes (length buf) r w"
    using t Nil.prems(2) by (metis append_Nil length_ring uart_stream_simps(1))
  then have "r' = r" using used_inj [OF l(2) Nil.prems(1) assms(1)] by simp
  then show ?case using l(1) ms Nil.prems(1) by simp
next
  case (Cons p ps)
  let ?n = "length buf" and ?u = "used_bytes (length buf) r w"
  have p: "p \<noteq> []" "length p < 65536" and ok: "messages_ok k ps" using Cons.prems(3) by (auto simp: messages_ok_def)
  have bs: "ring_bytes buf r ?u = uart_frame p @ (uart_stream ps @ t)" using Cons.prems(2) by simp
  note sp = ring_split [OF bs] and f = frame_fields [OF p(2), of "uart_stream ps @ t"]
  have u: "length p + 4 \<le> ?u" "4 < ?u" using sp(3) p(1) by simp_all
  have rw: "r \<noteq> w" using used_eq_0 [OF Cons.prems(1) assms(1)] u by auto
  have h: "ring_u16 buf r = HEADER_MAGIC_U16" "ring_u16 buf (r + 2) = length p"
    using header_of_ring [OF Cons.prems(1), of ?u] u f(2,3) unfolding bs by simp_all
  let ?r = "(r + (length p + 4)) mod ?n"
  have r': "?r < ?n" using Cons.prems(1) by (intro mod_less_divisor) linarith
  have "used_bytes ?n ?r w = ?u - (length p + 4)" by (rule used_advance [OF Cons.prems(1) assms(1) u(1)])
  then have "ring_bytes buf ?r (used_bytes ?n ?r w) = uart_stream ps @ t" using sp(2) by simp
  then have IH: "uart_loop buf w ?r = Some (places ?n ?r ps, (?r + length (uart_stream ps)) mod ?n)"
    using Cons.IH [OF r' _ ok] by simp
  have "uart_loop buf w r =
      Some (\<lparr>start_idx = (r + 4) mod ?n, message_length = length p\<rparr> # places ?n ?r ps, (?r + length (uart_stream ps)) mod ?n)"
    using rw u h IH by (subst uart_loop.simps) (simp add: Let_def UART_MESSAGE_HEADER_SIZE_def add.assoc)
  moreover have "(?r + length (uart_stream ps)) mod ?n = (r + length (uart_stream (p # ps))) mod ?n"
    by (simp add: mod_add_left_eq mod_add_right_eq ac_simps)
  ultimately show ?case by (simp add: UART_MESSAGE_HEADER_SIZE_def)
qed

text \<open>A ring buffer of \<open>n\<close> bytes and a queue for the places of messages.\<close>

locale uart_reception = message_queue mq contents capacity
  for mq :: "('q, uart_message_t) msgq_api" and contents :: "'q \<Rightarrow> uart_message_t list" and capacity :: nat +
  fixes n :: nat
  assumes n_pos: "0 < n" and n_max: "n \<le> SIZE_MAX"
begin

lemma queue_messages:
  "length (contents q) + length ms \<le> capacity \<Longrightarrow> contents (uart_queue_messages mq ms q) = contents q @ ms"
proof (induction ms arbitrary: q)
  case (Cons m ms)
  then have "contents (snd (k_msgq_put mq m q)) = contents q @ [m]" using put_room [of q m] by simp
  then show ?case using Cons.IH [of "snd (k_msgq_put mq m q)"] Cons.prems by (simp add: uart_queue_messages_def)
qed (simp add: uart_queue_messages_def)

end

text \<open>
  The invariant: the ring buffer holds, from some place on, the messages \<open>ws\<close> not yet read and the beginning \<open>t\<close> of the next;
  the thread's message and those in the queue say where they lie.
\<close>

definition us_waiting :: "('q \<Rightarrow> uart_message_t list) \<Rightarrow> 'q uart_system \<Rightarrow> uart_message_t list" where
  "us_waiting contents s = (case us_taken s of None \<Rightarrow> [] | Some m \<Rightarrow> [m]) @ contents (us_queue s)"

definition rx_holds :: "nat \<Rightarrow> uart_rx \<Rightarrow> uart_message_t list \<Rightarrow> u8 list list \<Rightarrow> u8 list \<Rightarrow> bool" where
  "rx_holds n rx ms ws t \<longleftrightarrow> uart_rx_ok n rx \<and>
    (if write_index rx = SIZE_MAX then ms = [] \<and> ws = [] \<and> t = []
     else \<exists>a<n. ms = places n a ws \<and> read_index rx = (a + length (uart_stream ws)) mod n \<and>
       ring_bytes (uart_rx_ring_buf rx) a (used_bytes n a (write_index rx)) = uart_stream ws @ t)"

definition us_holds ::
    "('q \<Rightarrow> uart_message_t list) \<Rightarrow> nat \<Rightarrow> 'q uart_system \<Rightarrow> bool \<Rightarrow> u8 list list \<Rightarrow> u8 list \<Rightarrow> bool" where
  "us_holds contents n s busy ws t \<longleftrightarrow> (busy \<longleftrightarrow> us_taken s \<noteq> None) \<and> uart_parse t = ([], t) \<and>
     rx_holds n (us_rx s) (us_waiting contents s) ws t"

lemma rx_holds_bytes:
  assumes "rx_holds n rx ms ws t"
  shows "map (message_bytes (uart_rx_ring_buf rx)) ms = ws"
  using assms places_bytes [of "uart_rx_ring_buf rx"]
  by (auto simp: rx_holds_def uart_rx_ok_def split: if_splits)

lemma rx_holds_length: "rx_holds n rx ms ws t \<Longrightarrow> length ms = length ws"
  using rx_holds_bytes [of n rx ms ws t] by (metis length_map)

text \<open>A chunk.\<close>

lemma chunk_holds:
  assumes h: "rx_holds n rx ms ws t" and n: "0 < n" "n \<le> SIZE_MAX"
    and room: "length (uart_stream ws) + length t + length c < n"
    and new: "t @ c = uart_stream ps @ t'" "messages_ok k ps" "uart_parse t' = ([], t')"
  shows "\<exists>new rx'. uart_chunk_rx c rx = Some (new, rx') \<and> length new = length ps \<and> rx_holds n rx' (ms @ new) (ws @ ps) t'"
proof -
  define w where "w = (if write_index rx = SIZE_MAX then 0 else write_index rx)"
  let ?old = "uart_rx_ring_buf rx"
  define buf where "buf = dma_write w c ?old"
  have ok: "uart_rx_ok n rx" using h by (simp add: rx_holds_def)
  have len: "length ?old = n" "length buf = n" using ok by (simp_all add: uart_rx_ok_def buf_def)
  have w: "w < n" using ok n by (auto simp: uart_rx_ok_def w_def)
  obtain a where a: "a < n" "ms = places n a ws" "ring_bytes ?old a (used_bytes n a w) = uart_stream ws @ t"
    and r: "write_index rx \<noteq> SIZE_MAX \<Longrightarrow> read_index rx = (a + length (uart_stream ws)) mod n"
      "write_index rx = SIZE_MAX \<Longrightarrow> a = 0 \<and> ws = [] \<and> t = []"
  proof (cases "write_index rx = SIZE_MAX")
    case True
    then have "ms = []" "ws = []" "t = []" using h by (simp_all add: rx_holds_def)
    then show ?thesis using that [of 0] True n(1) used_eq_0 [of 0 n 0] by (simp add: w_def ring_bytes_def)
  next
    case False
    then show ?thesis using h that by (auto simp: rx_holds_def w_def)
  qed
  define r where "r = (a + length (uart_stream ws)) mod n"
  let ?w = "(w + length c) mod n"
  have used: "used_bytes n a w = length (uart_stream ws) + length t"
    using arg_cong [OF a(3), of length] by simp
  have aw: "(a + used_bytes n a w) mod n = w"
    using used_cases [OF a(1) w] a(1) w by (auto simp: mod_if le_mod_geq)
  have bytes: "ring_bytes buf a (length (uart_stream ws) + length t + length c) = uart_stream ws @ t @ c"
    using ring_after_dma [of a ?old w c] a w room unfolding len used buf_def by simp
  have w': "?w < n" using n(1) by simp
  have "(a + (length (uart_stream ws) + length t + length c)) mod n = ?w"
    using aw unfolding used by (metis add.assoc mod_add_left_eq)
  then have used': "used_bytes n a ?w = length (uart_stream ws) + length t + length c"
    using used_offset [OF a(1) room] by simp
  have rn: "r < n" using n(1) by (simp add: r_def)
  have "used_bytes n r ?w = length t + length c"
    unfolding r_def using used_advance [OF a(1) w', of "length (uart_stream ws)"] used' by simp
  then have "ring_bytes buf r (used_bytes n r ?w) = uart_stream ps @ t'"
    using ring_split(2) [OF bytes] new(1) len by (simp add: r_def)
  then have loop: "uart_loop buf ?w r = Some (places n r ps, (r + length (uart_stream ps)) mod n)"
    using loop_places [of ?w buf k ps t' r] w' rn new(2,3) len by simp
  define rx' where "rx' = rx\<lparr>uart_rx_ring_buf := buf, read_index := (r + length (uart_stream ps)) mod n, write_index := ?w\<rparr>"
  have iff: "(read_index rx = SIZE_MAX \<and> write_index rx = SIZE_MAX) = (write_index rx = SIZE_MAX)"
    using ok n by (auto simp: uart_rx_ok_def)
  have cb: "uart_chunk_rx c rx = Some (places n r ps, rx')"
  proof (cases "write_index rx = SIZE_MAX")
    case True
    then have "w = 0" "r = 0" using r(2) by (simp_all add: w_def r_def)
    then show ?thesis using True loop iff len
      by (simp add: uart_chunk_rx_def uart_event_callback_def Let_def rx'_def buf_def)
  next
    case False
    then have "w = write_index rx" "r = read_index rx" using r(1) by (simp_all add: w_def r_def)
    then show ?thesis using False loop iff len
      by (simp add: uart_chunk_rx_def uart_event_callback_def Let_def rx'_def buf_def)
  qed
  have "ring_bytes buf a (used_bytes n a ?w) = uart_stream (ws @ ps) @ t'" using bytes used' new(1) by simp
  moreover have "ms @ places n r ps = places n a (ws @ ps)" using places_append [OF a(1)] a(2) by (simp add: r_def)
  moreover have "uart_rx_ok n rx'" using w' n(1) len by (simp add: uart_rx_ok_def rx'_def)
  moreover have "?w \<noteq> SIZE_MAX" using w' n(2) by linarith
  moreover have "(r + length (uart_stream ps)) mod n = (a + length (uart_stream (ws @ ps))) mod n"
    by (simp add: r_def mod_add_left_eq add.assoc)
  ultimately have "rx_holds n rx' (ms @ places n r ps) (ws @ ps) t'"
    using a(1) by (auto simp: rx_holds_def rx'_def)
  moreover have "length (places n r ps) = length ps" for r by (induction ps arbitrary: r) simp_all
  ultimately show ?thesis using cb by blast
qed

lemma read_holds:
  assumes h: "rx_holds n rx (m # ms) (p # ws) t" and room: "length (uart_stream (p # ws)) + length t < n"
  shows "fst (buf_read_circular (uart_rx_ring_buf rx) (start_idx m) (message_length m)) = p" "rx_holds n rx ms ws t"
proof -
  have ok: "uart_rx_ok n rx" and ne: "write_index rx \<noteq> SIZE_MAX" using h by (auto simp: rx_holds_def split: if_splits)
  then have len: "length (uart_rx_ring_buf rx) = n" and w: "write_index rx < n" by (auto simp: uart_rx_ok_def)
  obtain a where a: "a < n" "m # ms = places n a (p # ws)" "read_index rx = (a + length (uart_stream (p # ws))) mod n"
    "ring_bytes (uart_rx_ring_buf rx) a (used_bytes n a (write_index rx)) = uart_frame p @ uart_stream ws @ t"
    using h ne by (auto simp: rx_holds_def)
  have m: "message_bytes (uart_rx_ring_buf rx) m = p" using rx_holds_bytes [OF h] by simp
  have "start_idx m < n" "message_length m < n" using a(1,2) room by auto
  then show "fst (buf_read_circular (uart_rx_ring_buf rx) (start_idx m) (message_length m)) = p"
    using m len by (simp add: read_circular)
  let ?a = "(a + (length p + 4)) mod n"
  note sp = ring_split [OF a(4)]
  have "used_bytes n ?a (write_index rx) = used_bytes n a (write_index rx) - (length p + 4)"
    using sp(3) by (intro used_advance [OF a(1) w]) simp
  then have "ring_bytes (uart_rx_ring_buf rx) ?a (used_bytes n ?a (write_index rx)) = uart_stream ws @ t"
    using sp(2) len by simp
  moreover have "ms = places n ?a ws" using a(2) by (simp add: UART_MESSAGE_HEADER_SIZE_def)
  moreover have "read_index rx = (?a + length (uart_stream ws)) mod n" using a(3) by (simp add: mod_add_left_eq mod_add_right_eq ac_simps)
  moreover have "?a < n" using a(1) by (intro mod_less_divisor) linarith
  ultimately show "rx_holds n rx ms ws t" using ok ne by (auto simp: rx_holds_def)
qed

lemma rx_holds_room: "rx_holds n rx ms ws t \<Longrightarrow> 0 < n \<Longrightarrow> length (uart_stream ws) + length t < n"
proof (cases "write_index rx = SIZE_MAX")
  case False
  assume h: "rx_holds n rx ms ws t" "0 < n"
  then obtain a where a: "ring_bytes (uart_rx_ring_buf rx) a (used_bytes n a (write_index rx)) = uart_stream ws @ t"
    using False by (auto simp: rx_holds_def)
  have "used_bytes n a (write_index rx) = length (uart_stream ws) + length t" using arg_cong [OF a, of length] by simp
  then show ?thesis using used_less [OF h(2), of a "write_index rx"] by simp
qed (simp add: rx_holds_def)

context uart_reception
begin

text \<open>The invariant along a run; \<open>hs\<close> is what was handled before.\<close>

lemma run_holds:
  "us_holds contents n s busy ws t \<Longrightarrow> uart_keeps_up n capacity ops busy ws t \<Longrightarrow> messages_ok k qs \<Longrightarrow>
    t @ uart_arrived ops @ rest = uart_stream qs \<Longrightarrow>
    \<exists>s' busy' ws' t' qs'. uart_run mq ops s = Some s' \<and> us_holds contents n s' busy' ws' t' \<and>
      us_handled s' @ ws' @ qs' = us_handled s @ ws @ qs \<and> t' @ rest = uart_stream qs'"
proof (induction ops arbitrary: s busy ws t qs)
  case Nil
  then show ?case by auto
next
  case (Cons op ops)
  let ?hist = "us_handled s @ ws @ qs"
  have h: "rx_holds n (us_rx s) (us_waiting contents s) ws t" and busy: "busy \<longleftrightarrow> us_taken s \<noteq> None"
    and pt: "uart_parse t = ([], t)"
    using Cons.prems(1) by (simp_all add: us_holds_def)
  have step: ?case
    if "uart_step mq op s = Some s1" "us_holds contents n s1 busy1 ws1 t1" "uart_keeps_up n capacity ops busy1 ws1 t1"
      "messages_ok k qs1" "t1 @ uart_arrived ops @ rest = uart_stream qs1" "us_handled s1 @ ws1 @ qs1 = ?hist"
    for s1 busy1 ws1 t1 qs1
    using Cons.IH [OF that(2-5)] that(1,6) by (auto simp: bind_eq_Some_conv)
  show ?case
  proof (cases op)
    case (Uart_chunk c)
    have "(t @ c) @ (uart_arrived ops @ rest) = uart_stream qs" using Cons.prems(4) Uart_chunk by simp
    from parse_prefix [OF Cons.prems(3) this] obtain ps qs1 t1 where
      qs: "qs = ps @ qs1" "uart_parse (t @ c) = (ps, t1)" "t1 @ uart_arrived ops @ rest = uart_stream qs1" by blast
    have tc: "t @ c = uart_stream ps @ t1" using Cons.prems(4) Uart_chunk qs(1,3) by (metis append.assoc append_same_eq uart_arrived.simps(2) uart_stream_simps(3))
    have ok: "messages_ok k ps" "messages_ok k qs1" using Cons.prems(3) qs(1) by (auto simp: messages_ok_def)
    have t1: "uart_parse t1 = ([], t1)" using parse_rest [of "t @ c"] qs(2) by simp
    have up: "length (uart_stream ws) + length t + length c < n" "length (if busy then tl ws else ws) + length ps \<le> capacity"
      "uart_keeps_up n capacity ops busy (ws @ ps) t1"
      using Cons.prems(2) Uart_chunk qs(2) by simp_all
    obtain new rx1 where new: "uart_chunk_rx c (us_rx s) = Some (new, rx1)" "length new = length ps"
      "rx_holds n rx1 (us_waiting contents s @ new) (ws @ ps) t1"
      using chunk_holds [OF h n_pos n_max up(1) tc ok(1) t1] by blast
    have "length (us_waiting contents s) = length ws" by (rule rx_holds_length [OF h])
    then have "length (contents (us_queue s)) + length new \<le> capacity"
      using up(2) busy new(2) by (auto simp: us_waiting_def split: if_splits)
    then have q: "contents (uart_queue_messages mq new (us_queue s)) = contents (us_queue s) @ new" by (rule queue_messages)
    let ?s1 = "s\<lparr>us_rx := rx1, us_queue := uart_queue_messages mq new (us_queue s)\<rparr>"
    have "us_holds contents n ?s1 busy (ws @ ps) t1"
      using new(3) busy t1 q by (simp add: us_holds_def us_waiting_def)
    then show ?thesis
      by (intro step [of ?s1 busy "ws @ ps" t1 qs1]) (use new(1) Uart_chunk up(3) ok(2) qs in simp_all)
  next
    case Uart_get
    show ?thesis
    proof (cases "us_taken s")
      case (Some m)
      then have "ws \<noteq> []" using rx_holds_length [OF h] by (auto simp: us_waiting_def)
      then show ?thesis using Some busy
        by (intro step [of s busy ws t qs]) (use Cons.prems Uart_get in simp_all)
    next
      case None
      obtain m q1 where g: "k_msgq_get mq (us_queue s) = (m, q1)" by (cases "k_msgq_get mq (us_queue s)")
      let ?s1 = "s\<lparr>us_taken := m, us_queue := q1\<rparr>"
      have wait: "us_waiting contents ?s1 = us_waiting contents s"
        using g None get_head get_empty by (cases m) (auto simp: us_waiting_def)
      then have "us_holds contents n ?s1 (m \<noteq> None) ws t" using h pt by (simp add: us_holds_def)
      moreover have "m \<noteq> None \<longleftrightarrow> ws \<noteq> []"
        using rx_holds_length [OF h] g None get_head [of "us_queue s"] get_empty [of "us_queue s" q1]
        by (cases m) (auto simp: us_waiting_def)
      ultimately show ?thesis
        by (intro step [of ?s1 "ws \<noteq> []" ws t qs]) (use Cons.prems Uart_get g None in simp_all)
    qed
  next
    case Uart_read
    show ?thesis
    proof (cases "us_taken s")
      case None
      then show ?thesis using busy
        by (intro step [of s False ws t qs]) (use Cons.prems Uart_read in simp_all)
    next
      case (Some m)
      have wait: "us_waiting contents s = m # contents (us_queue s)" using Some by (simp add: us_waiting_def)
      then obtain p ws1 where ws: "ws = p # ws1" using rx_holds_length [OF h] by (cases ws) auto
      have h': "rx_holds n (us_rx s) (m # contents (us_queue s)) (p # ws1) t" using h unfolding wait ws .
      note r = read_holds [OF h' rx_holds_room [OF h' n_pos]]
      let ?s1 = "s\<lparr>us_taken := None, us_handled := us_handled s @ [p]\<rparr>"
      have "us_holds contents n ?s1 False ws1 t" using r(2) pt by (simp add: us_holds_def us_waiting_def)
      then show ?thesis using busy
        by (intro step [of ?s1 False ws1 t qs]) (use Cons.prems Uart_read Some r(1) ws in simp_all)
    qed
  qed
qed

lemma run_from_start:
  assumes "messages_ok n ps" "uart_arrived ops @ rest = uart_stream ps"
    and "uart_keeps_up n capacity ops False [] []" "contents q = []"
  shows "\<exists>s qs. uart_run mq ops (uart_system_start n q) = Some s \<and>
    us_handled s @ map (message_bytes (uart_rx_ring_buf (us_rx s))) (us_waiting contents s) @ qs = ps \<and>
    (rest = [] \<longrightarrow> qs = [])"
proof -
  have e: "uart_parse [] = ([], [])" by (subst uart_parse.simps) simp
  have "us_holds contents n (uart_system_start n q) False [] []"
    using assms(4) e by (simp add: us_holds_def uart_system_start_def us_waiting_def rx_holds_def uart_rx_ok_def uart_rx_start_def)
  then obtain s busy ws t qs where s: "uart_run mq ops (uart_system_start n q) = Some s" "us_holds contents n s busy ws t"
    "us_handled s @ ws @ qs = ps" "t @ rest = uart_stream qs"
    using run_holds [of "uart_system_start n q" False "[]" "[]" ops n ps rest] assms(1,2,3)
    by (auto simp: uart_system_start_def)
  have "map (message_bytes (uart_rx_ring_buf (us_rx s))) (us_waiting contents s) = ws"
    using s(2) rx_holds_bytes by (auto simp: us_holds_def)
  moreover have "qs = []" if "rest = []"
  proof -
    have "messages_ok n qs" using assms(1) s(3) by (auto simp: messages_ok_def)
    then have "uart_parse t = (qs, [])" using parse_stream s(4) that by simp
    then show ?thesis using s(2) by (simp add: us_holds_def)
  qed
  ultimately show ?thesis using s(1,3) by blast
qed

end

text \<open>
  C17. Messages of at least one byte that a sender frames and sends one after the other reach the handler
  exactly as they were sent, in order and once each, in whatever chunks the bytes arrive, wherever they
  wrap around in the ring buffer and whenever the thread takes and reads them, as long as it keeps up: with each chunk the messages not yet read
  and the bytes of the next stay within the ring buffer, and the messages queued
  within the queue. At any time those handled, followed by those still waiting, are the
  first messages sent, and all of them once all bytes have arrived. Every call of the interrupt handler returns.
\<close>

theorem uart_messages_roundtrip:
  assumes "message_queue mq contents capacity" and "0 < n" "n \<le> SIZE_MAX" and "messages_ok n ps"
    and "uart_arrived ops @ rest = uart_stream ps"
    and "uart_keeps_up n capacity ops False [] []" and "contents q = []"
  shows "\<exists>s qs. uart_run mq ops (uart_system_start n q) = Some s \<and>
    us_handled s @ map (message_bytes (uart_rx_ring_buf (us_rx s))) (us_waiting contents s) @ qs = ps \<and>
    (rest = [] \<longrightarrow> qs = [])"
proof -
  have "uart_reception mq contents capacity n"
    using assms(1-3) by (intro uart_reception.intro uart_reception_axioms.intro)
  from uart_reception.run_from_start [OF this assms(4-7)] show ?thesis .
qed

interpretation sim_uart: uart_reception "sim_msgq 6" "\<lambda>q. q" 6 2048
  by (intro uart_reception.intro uart_reception_axioms.intro message_queue_sim) (simp_all add: SIZE_MAX_def)

definition sim_uart_ops :: "uart_op list" where
  "sim_uart_ops = [Uart_chunk [0x8E, 0xAD, 2, 0], Uart_chunk [7], Uart_chunk [9, 0x8E, 0xAD, 1], Uart_get, Uart_chunk [0, 0x8E],
     Uart_read, Uart_chunk [0x8E, 0xAD, 1, 0, 5], Uart_get]"

lemma uart_messages_roundtrip_witness:
  "\<exists>s qs. uart_run (sim_msgq 6) sim_uart_ops (uart_system_start 16 []) = Some s \<and>
    us_handled s @ map (message_bytes (uart_rx_ring_buf (us_rx s))) (us_waiting (\<lambda>q. q) s) @ qs = [[7, 9], [0x8E], [5]] \<and>
    qs = []"
proof -
  have "uart_arrived sim_uart_ops @ [] = uart_stream [[7, 9], [0x8E], [5]]"
    by (simp add: sim_uart_ops_def uart_frame_def)
  moreover have "uart_keeps_up 16 6 sim_uart_ops False [] []" by code_simp
  moreover have "messages_ok 16 [[7, 9], [0x8E], [5]]" by (simp add: messages_ok_def)
  ultimately show ?thesis
    using uart_messages_roundtrip [OF message_queue_sim, of 16 "[[7, 9], [0x8E], [5]]" sim_uart_ops "[]" 6 "[]"]
    by (auto simp: SIZE_MAX_def)
qed

text \<open>When the thread does not keep up, messages are lost: the queue holds six, the seventh is dropped.\<close>

lemma uart_seventh_dropped:
  "length q = 6 \<Longrightarrow> uart_queue_messages (sim_msgq 6) [m] q = q"
  by (simp add: uart_queue_messages_def sim_msgq_def)

end
