(* ===== verification/Ir_Timer_Settings.thy ===== *)
theory Ir_Timer_Settings
  imports C_Float Orb_Prelude
begin

text \<open>
  The timer settings of the infrared camera system
  (\<^verbatim>\<open>optics/ir_camera_system/ir_camera_timer_settings.c\<close>): prescaler and period of the
  master timer for a frame rate, and the limits on the LED on-time. Registers and C
  integers are natural numbers with the truncation to 16 and 32 bits written out. The
  limits are computed in C type \<^verbatim>\<open>double\<close>; positive doubles of value at least one are
  modelled exactly, as a significand and a power of two, with rounding to nearest even.
\<close>

subsection \<open>Constants\<close>

definition TIMER_CLOCK_FREQ_MHZ :: nat where "TIMER_CLOCK_FREQ_MHZ = 170"

definition TIMER_CLOCK_FREQ_HZ :: nat where "TIMER_CLOCK_FREQ_HZ = 170000000"

definition IR_CAMERA_SYSTEM_MAX_FPS :: nat where "IR_CAMERA_SYSTEM_MAX_FPS = 60"

definition IR_CAMERA_SYSTEM_NEXT_STROBE_END_MARGIN_US :: nat where
  "IR_CAMERA_SYSTEM_NEXT_STROBE_END_MARGIN_US = 50"

primrec IR_CAMERA_SYSTEM_MAX_IR_LED_ON_TIME_US :: "board \<Rightarrow> nat" where
  "IR_CAMERA_SYSTEM_MAX_IR_LED_ON_TIME_US Pearl = 5000"
| "IR_CAMERA_SYSTEM_MAX_IR_LED_ON_TIME_US Diamond = 7500"

primrec IR_LED_TURN_ON_DELAY_US :: "board \<Rightarrow> nat" where
  "IR_LED_TURN_ON_DELAY_US Pearl = 0"
| "IR_LED_TURN_ON_DELAY_US Diamond = 50"

definition IR_LED_TIMER_START_DELAY_US :: nat where "IR_LED_TIMER_START_DELAY_US = 1"

definition CAMERA_TRIGGER_TIMER_START_DELAY_US :: "board \<Rightarrow> nat" where
  "CAMERA_TRIGGER_TIMER_START_DELAY_US b = IR_LED_TURN_ON_DELAY_US b + 1"

subsection \<open>Duty cycle\<close>

text \<open>The doubles nearest to 0.15 and 0.25.\<close>

primrec IR_CAMERA_SYSTEM_MAX_IR_LED_DUTY_CYCLE :: "board \<Rightarrow> double" where
  "IR_CAMERA_SYSTEM_MAX_IR_LED_DUTY_CYCLE Pearl = Dbl 5404319552844595 55"
| "IR_CAMERA_SYSTEM_MAX_IR_LED_DUTY_CYCLE Diamond = Dbl 4503599627370496 54"

text \<open>The expression \<^verbatim>\<open>1e6 / fps * IR_CAMERA_SYSTEM_MAX_IR_LED_DUTY_CYCLE\<close>.\<close>

definition max_duty_us :: "board \<Rightarrow> nat \<Rightarrow> double" where
  "max_duty_us b fps = double_mult (double_of_ratio 1000000 fps) (IR_CAMERA_SYSTEM_MAX_IR_LED_DUTY_CYCLE b)"

subsection \<open>Settings\<close>

record ir_camera_timer_settings =
  fps :: nat
  master_psc :: nat
  master_arr :: nat
  master_initial_counter :: nat
  master_max_ir_leds_tick :: nat
  on_time_in_us :: nat

definition settings_zero :: ir_camera_timer_settings where
  "settings_zero = \<lparr>fps = 0, master_psc = 0, master_arr = 0, master_initial_counter = 0,
     master_max_ir_leds_tick = 0, on_time_in_us = 0\<rparr>"

definition trunc16 :: "nat \<Rightarrow> nat" where "trunc16 n = n mod 2 ^ 16"

definition trunc32 :: "nat \<Rightarrow> nat" where "trunc32 n = n mod 2 ^ 32"

definition minus32 :: "nat \<Rightarrow> nat \<Rightarrow> nat" where
  "minus32 a b = nat ((int a - int b) mod 2 ^ 32)"

text \<open>Only on Diamond; on Pearl the two fields do not exist and keep the value 0 here.\<close>

definition compute_master_timer_durations :: "board \<Rightarrow> ir_camera_timer_settings \<Rightarrow> ir_camera_timer_settings" where
  "compute_master_timer_durations b ts =
    (if fps ts = 0 then ts else
     let delay_us = minus32 (minus32 (1000000 div fps ts) (on_time_in_us ts)) IR_CAMERA_SYSTEM_NEXT_STROBE_END_MARGIN_US;
         tick_hz = TIMER_CLOCK_FREQ_HZ div (master_psc ts + 1);
         delay_ticks = trunc32 (tick_hz * (delay_us div 100)) div 10000;
         max_ticks = trunc32 (tick_hz * (IR_CAMERA_SYSTEM_MAX_IR_LED_ON_TIME_US b div 100)) div 10000
     in ts\<lparr>master_initial_counter :=
             (if delay_ticks < master_arr ts then trunc16 (minus32 (master_arr ts) delay_ticks)
              else trunc16 (minus32 (master_arr ts) 1)),
           master_max_ir_leds_tick := max_ticks\<rparr>)"

text \<open>
  Both functions return the new settings only when they return \<^verbatim>\<open>RET_SUCCESS\<close>; the caller
  passes the same object as current and new settings.
\<close>

definition timer_settings_from_on_time_us ::
  "board \<Rightarrow> nat \<Rightarrow> ir_camera_timer_settings \<Rightarrow> ret_code_t \<times> ir_camera_timer_settings" where
  "timer_settings_from_on_time_us b on_time_us cur =
    (if IR_CAMERA_SYSTEM_MAX_IR_LED_ON_TIME_US b < on_time_us then (RET_ERROR_INVALID_PARAM, cur)
     else if fps cur \<noteq> 0 \<and> double_less_nat (max_duty_us b (fps cur)) on_time_us
     then (RET_ERROR_INVALID_PARAM, cur)
     else let ts = cur\<lparr>on_time_in_us := on_time_us\<rparr> in
       (RET_SUCCESS, if b = Diamond \<and> fps ts \<noteq> 0 then compute_master_timer_durations b ts else ts))"

definition timer_settings_from_fps ::
  "board \<Rightarrow> nat \<Rightarrow> ir_camera_timer_settings \<Rightarrow> ret_code_t \<times> ir_camera_timer_settings" where
  "timer_settings_from_fps b f cur =
    (if f = 0 then (RET_SUCCESS, cur\<lparr>fps := 0, master_psc := 0, master_arr := 0\<rparr>)
     else if IR_CAMERA_SYSTEM_MAX_FPS < f then (RET_ERROR_INVALID_PARAM, cur)
     else
      let psc = trunc16 (TIMER_CLOCK_FREQ_HZ div (2 ^ 16 * f));
          arr = trunc16 (TIMER_CLOCK_FREQ_HZ div ((psc + 1) * f));
          ts = cur\<lparr>fps := f, master_psc := psc, master_arr := arr\<rparr>;
          d = max_duty_us b f;
          max_on = trunc16 (if double_less_nat d (IR_CAMERA_SYSTEM_MAX_IR_LED_ON_TIME_US b) then double_trunc d
                            else IR_CAMERA_SYSTEM_MAX_IR_LED_ON_TIME_US b)
      in if on_time_in_us cur \<noteq> 0 \<and> max_on < on_time_in_us cur then (RET_ERROR_INVALID_PARAM, cur)
         else (RET_SUCCESS, if b = Diamond then compute_master_timer_durations b ts else ts))"

subsection \<open>Limits\<close>

text \<open>The share of the period, in percent, during which the LEDs may be on.\<close>

primrec duty_percent :: "board \<Rightarrow> nat" where
  "duty_percent Pearl = 15"
| "duty_percent Diamond = 25"

text \<open>
  Rounding to a double of at most 20 integer bits adds at most \<open>1 / 2 ^ 34\<close>, so the limit on
  the on-time never exceeds the exact share of the period.
\<close>

lemma duty_cycle_le:
  "0 \<le> double_real (IR_CAMERA_SYSTEM_MAX_IR_LED_DUTY_CYCLE b)"
  "double_real (IR_CAMERA_SYSTEM_MAX_IR_LED_DUTY_CYCLE b) \<le> real (duty_percent b) / 100"
  by (cases b; simp)+

lemma max_duty_trunc:
  assumes f: "0 < f" "f \<le> 60"
  shows "double_trunc (max_duty_us b f) * f * 100 \<le> duty_percent b * 1000000"
proof -
  let ?x = "double_real (double_of_ratio 1000000 f)"
  let ?y = "double_real (IR_CAMERA_SYSTEM_MAX_IR_LED_DUTY_CYCLE b)"
  let ?p = "real (duty_percent b) / 100"
  let ?t = "double_trunc (max_duty_us b f)"
  have "1000000 div f \<le> 1000000" by (rule div_le_dividend)
  then have "1000000 div f < 2 ^ 20" by (rule le_less_trans) simp
  then have x: "?x \<le> 1000000 / real f + 1 / 2 ^ 34"
    using double_of_ratio_le [of f 1000000] f by simp
  have "1000000 / real f \<le> 1000000" using f by (simp add: field_simps)
  then have xm: "?x \<le> 1000001" using x by simp
  have x0: "0 \<le> ?x" by (cases "double_of_ratio 1000000 f") simp
  have p: "?p \<le> 1 / 4" by (cases b) simp_all
  have "?x * ?y \<le> ?x * ?p" using duty_cycle_le(2) x0 by (rule mult_left_mono)
  also have "\<dots> \<le> (1000000 / real f + 1 / 2 ^ 34) * ?p" using x by (intro mult_right_mono) simp_all
  finally have xy: "?x * ?y \<le> (1000000 / real f + 1 / 2 ^ 34) * ?p" .
  have "?x * ?y \<le> 1000001 * (1 / 4)"
    using xm x0 duty_cycle_le [of b] p by (intro mult_mono) simp_all
  then have "real ?t \<le> ?x * ?y + 1 / 2 ^ 34"
    using double_trunc_le [of "max_duty_us b f"] double_mult_le [of "double_of_ratio 1000000 f" "IR_CAMERA_SYSTEM_MAX_IR_LED_DUTY_CYCLE b"]
    by (simp add: max_duty_us_def)
  also have "\<dots> \<le> (1000000 / real f + 1 / 2 ^ 34) * ?p + 1 / 2 ^ 34" using xy by simp
  also have "\<dots> \<le> 1000000 / real f * ?p + 1 / 2 ^ 33"
    using p by (simp add: algebra_simps)
  finally have "real ?t * real f \<le> (1000000 / real f * ?p + 1 / 2 ^ 33) * real f"
    using f by (intro mult_right_mono) simp_all
  also have "\<dots> = 1000000 * ?p + real f / 2 ^ 33" using f by (simp add: field_simps)
  also have "\<dots> < 1000000 * ?p + 1 / 100" using f by simp
  finally have "real (?t * f * 100) < real (duty_percent b * 1000000 + 1)" by simp
  then show ?thesis by (simp only: of_nat_less_iff)
qed

lemma max_duty_sound:
  assumes "0 < f" "f \<le> 60" "n \<le> double_trunc (max_duty_us b f)"
  shows "n * f * 100 \<le> duty_percent b * 1000000"
  using max_duty_trunc [OF assms(1,2), of b] assms(3)
  by (meson le_trans mult_le_mono1)

text \<open>
  \<open>psc_of\<close> and \<open>arr_of\<close> are the prescaler and the period for a frame rate, without
  truncation; they fit the 16-bit registers.
\<close>

definition psc_of :: "nat \<Rightarrow> nat" where "psc_of f = TIMER_CLOCK_FREQ_HZ div (2 ^ 16 * f)"

definition arr_of :: "nat \<Rightarrow> nat" where "arr_of f = TIMER_CLOCK_FREQ_HZ div ((psc_of f + 1) * f)"

definition tick_hz :: "nat \<Rightarrow> nat" where "tick_hz f = TIMER_CLOCK_FREQ_HZ div (psc_of f + 1)"

lemma psc_of_less: "psc_of f < 2 ^ 16"
proof -
  have "psc_of f \<le> TIMER_CLOCK_FREQ_HZ div 2 ^ 16"
    by (cases f) (simp_all add: psc_of_def div_le_mono2)
  then show ?thesis by (simp add: TIMER_CLOCK_FREQ_HZ_def)
qed

lemma clock_less: "0 < f \<Longrightarrow> TIMER_CLOCK_FREQ_HZ < (psc_of f + 1) * (2 ^ 16 * f)"
  unfolding psc_of_def by (metis add.commute dividend_less_times_div mult.commute mult_Suc_right
    nat_0_less_mult_iff plus_1_eq_Suc zero_less_numeral zero_less_power)

lemma tick_hz_le: "0 < f \<Longrightarrow> tick_hz f \<le> 2 ^ 16 * f"
  using clock_less [of f] by (simp add: tick_hz_def less_mult_imp_div_less mult.commute less_imp_le)

lemma tick_hz_ge: "65535 \<le> tick_hz f"
proof -
  have "psc_of f + 1 \<le> 2594"
  proof -
    have "psc_of f \<le> TIMER_CLOCK_FREQ_HZ div 2 ^ 16"
      by (cases f) (simp_all add: psc_of_def div_le_mono2)
    then show ?thesis by (simp add: TIMER_CLOCK_FREQ_HZ_def)
  qed
  then have "TIMER_CLOCK_FREQ_HZ div 2594 \<le> tick_hz f" by (simp add: tick_hz_def div_le_mono2)
  then show ?thesis by (simp add: TIMER_CLOCK_FREQ_HZ_def)
qed

lemma arr_of_tick_hz: "arr_of f = tick_hz f div f"
  by (simp only: arr_of_def tick_hz_def div_mult2_eq)

lemma arr_of_less: "0 < f \<Longrightarrow> arr_of f < 2 ^ 16"
  using clock_less [of f] unfolding arr_of_def
  by (intro less_mult_imp_div_less) (simp only: ac_simps)

lemma arr_of_pos: "0 < f \<Longrightarrow> f \<le> 60 \<Longrightarrow> 1000 < arr_of f"
proof -
  assume f: "0 < f" "f \<le> 60"
  have "65535 div 60 \<le> tick_hz f div f"
    using f tick_hz_ge [of f] by (meson div_le_mono div_le_mono2 le_trans)
  then show ?thesis by (simp add: arr_of_tick_hz)
qed

text \<open>
  The settings the camera system runs with. The last clause is what the strobe handler
  relies on: counting from \<open>master_initial_counter\<close> to the end of the period takes at most
  the time that leaves the on-time and the margin before the next strobe ends.
\<close>

definition settings_valid :: "board \<Rightarrow> ir_camera_timer_settings \<Rightarrow> bool" where
  "settings_valid b ts \<longleftrightarrow>
     fps ts \<le> IR_CAMERA_SYSTEM_MAX_FPS \<and>
     on_time_in_us ts \<le> IR_CAMERA_SYSTEM_MAX_IR_LED_ON_TIME_US b \<and>
     on_time_in_us ts * fps ts * 100 \<le> duty_percent b * 1000000 \<and>
     master_psc ts = (if fps ts = 0 then 0 else psc_of (fps ts)) \<and>
     master_arr ts = (if fps ts = 0 then 0 else arr_of (fps ts))"

definition strobe_settings_valid :: "ir_camera_timer_settings \<Rightarrow> bool" where
  "strobe_settings_valid ts \<longleftrightarrow>
     (fps ts = 0 \<or>
      master_initial_counter ts \<le> master_arr ts \<and>
      (master_arr ts - master_initial_counter ts) * (master_psc ts + 1) * 1000000 \<le>
        TIMER_CLOCK_FREQ_HZ * (1000000 div fps ts - on_time_in_us ts - IR_CAMERA_SYSTEM_NEXT_STROBE_END_MARGIN_US) \<and>
      on_time_in_us ts + IR_CAMERA_SYSTEM_NEXT_STROBE_END_MARGIN_US \<le> 1000000 div fps ts)"

lemma settings_valid_zero: "settings_valid b settings_zero"
  by (simp add: settings_valid_def settings_zero_def)

lemma minus32_eq: "b \<le> a \<Longrightarrow> a < 2 ^ 32 \<Longrightarrow> minus32 a b = a - b"
  by (simp add: minus32_def nat_eq_iff of_nat_diff)

lemma compute_master_timer_durations_keeps [simp]:
  "fps (compute_master_timer_durations b ts) = fps ts"
  "master_psc (compute_master_timer_durations b ts) = master_psc ts"
  "master_arr (compute_master_timer_durations b ts) = master_arr ts"
  "on_time_in_us (compute_master_timer_durations b ts) = on_time_in_us ts"
  by (simp_all add: compute_master_timer_durations_def Let_def)

lemma settings_valid_durations [simp]:
  "settings_valid b (compute_master_timer_durations b' ts) \<longleftrightarrow> settings_valid b ts"
  by (simp add: settings_valid_def)

text \<open>The durations, without wrap-around, for valid settings.\<close>

lemma durations_no_wrap:
  assumes v: "settings_valid Diamond ts" and f: "fps ts \<noteq> 0"
  defines "D \<equiv> 1000000 div fps ts - on_time_in_us ts - 50"
  defines "n \<equiv> tick_hz (fps ts) * (D div 100) div 10000"
  shows "n < master_arr ts"
    and "n * (master_psc ts + 1) * 1000000 \<le> TIMER_CLOCK_FREQ_HZ * D"
    and "on_time_in_us ts + 50 \<le> 1000000 div fps ts"
    and "compute_master_timer_durations Diamond ts =
      ts\<lparr>master_initial_counter := master_arr ts - n,
         master_max_ir_leds_tick := tick_hz (fps ts) * 75 div 10000\<rparr>"
proof -
  let ?f = "fps ts" and ?t = "tick_hz (fps ts)" and ?on = "on_time_in_us ts"
  have f0: "0 < ?f" and f60: "?f \<le> 60" and psc: "master_psc ts = psc_of ?f" and arr: "master_arr ts = arr_of ?f"
    using v f by (simp_all add: settings_valid_def IR_CAMERA_SYSTEM_MAX_FPS_def)
  have "?on * (?f * 4) \<le> 1000000" using v by (simp add: settings_valid_def)
  then have "?on \<le> 1000000 div (?f * 4)" using f0 by (simp add: less_eq_div_iff_mult_less_eq mult.commute)
  then have on4: "?on \<le> 1000000 div ?f div 4" by (simp add: div_mult2_eq)
  have period: "16666 \<le> 1000000 div ?f"
    using f60 f0 div_le_mono2 [of ?f 60 1000000] by simp
  show on: "?on + 50 \<le> 1000000 div ?f" using on4 period by linarith
  have Dle: "D + 50 \<le> 1000000 div ?f" using on unfolding D_def by linarith
  have t: "?t \<le> 65536 * ?f" "65535 \<le> ?t" using tick_hz_le [OF f0] tick_hz_ge by simp_all
  have tpsc: "?t * (psc_of ?f + 1) \<le> TIMER_CLOCK_FREQ_HZ" unfolding tick_hz_def by (rule div_times_less_eq_dividend)
  have n1: "n * 10000 \<le> ?t * (D div 100)" unfolding n_def by (rule div_times_less_eq_dividend)
  have "n * 1000000 \<le> ?t * (D div 100) * 100" using n1 by linarith
  also have "\<dots> \<le> ?t * D" unfolding mult.assoc by (intro mult_le_mono2) simp
  finally have nD: "n * 1000000 \<le> ?t * D" .
  have "n * (psc_of ?f + 1) * 1000000 = n * 1000000 * (psc_of ?f + 1)" by (simp only: ac_simps)
  also have "\<dots> \<le> ?t * D * (psc_of ?f + 1)" using nD by (rule mult_le_mono1)
  also have "\<dots> = ?t * (psc_of ?f + 1) * D" by (simp only: ac_simps)
  also have "\<dots> \<le> TIMER_CLOCK_FREQ_HZ * D" using tpsc by (rule mult_le_mono1)
  finally show "n * (master_psc ts + 1) * 1000000 \<le> TIMER_CLOCK_FREQ_HZ * D" by (simp only: psc)
  have Df: "(D + 50) * ?f \<le> 1000000"
    using Dle by (meson div_times_less_eq_dividend le_trans mult_le_mono1)
  have "(n + 1) * ?f * 1000000 \<le> ?t * 1000000"
  proof -
    have a: "n * 1000000 * ?f \<le> ?t * D * ?f" using nD by (rule mult_le_mono1)
    have b: "?t * ((D + 50) * ?f) \<le> ?t * 1000000" using Df by (rule mult_le_mono2)
    have c: "?t * ((D + 50) * ?f) = ?t * D * ?f + 50 * (?t * ?f)" by (simp add: algebra_simps)
    have "1000000 * ?f \<le> 50 * (?t * ?f)"
    proof -
      have "20000 * ?f \<le> ?t * ?f" using t(2) by (intro mult_le_mono1) linarith
      then show ?thesis by linarith
    qed
    moreover have "(n + 1) * ?f * 1000000 = n * 1000000 * ?f + 1000000 * ?f" by (simp add: algebra_simps)
    ultimately show ?thesis using a b c by linarith
  qed
  then have "(n + 1) * ?f \<le> ?t" by simp
  then have "n + 1 \<le> arr_of ?f" unfolding arr_of_tick_hz using f0 by (simp add: less_eq_div_iff_mult_less_eq)
  then show na: "n < master_arr ts" by (simp add: arr)
  have "?f * (D div 100) * 100 \<le> ?f * (D + 50)"
    unfolding mult.assoc by (intro mult_le_mono2 trans_le_add1 div_times_less_eq_dividend)
  then have "?f * (D div 100) \<le> 10000" using Df by (simp only: mult.commute)
  then have "65536 * ?f * (D div 100) \<le> 65536 * 10000" by simp
  then have tD: "?t * (D div 100) \<le> 65536 * 10000" using t(1) by (meson le_trans mult_le_mono1)
  have d1: "minus32 (1000000 div ?f) ?on = 1000000 div ?f - ?on"
    by (rule minus32_eq) (use on in linarith, rule le_less_trans [OF div_le_dividend], simp)
  have d2: "minus32 (1000000 div ?f - ?on) 50 = D"
    unfolding D_def by (rule minus32_eq) (use on in linarith, rule le_less_trans [OF diff_le_self], rule le_less_trans [OF div_le_dividend], simp)
  have t32: "trunc32 (?t * (D div 100)) = ?t * (D div 100)" using tD by (simp add: trunc32_def)
  have m32: "trunc32 (?t * 75) = ?t * 75" using t(1) f60 by (simp add: trunc32_def)
  have arr16: "arr_of ?f < 2 ^ 16" by (rule arr_of_less [OF f0])
  then have a16: "trunc16 (minus32 (arr_of ?f) n) = arr_of ?f - n"
    using na by (simp add: minus32_eq arr trunc16_def)
  show "compute_master_timer_durations Diamond ts =
      ts\<lparr>master_initial_counter := master_arr ts - n,
         master_max_ir_leds_tick := tick_hz (fps ts) * 75 div 10000\<rparr>"
    using f na unfolding compute_master_timer_durations_def IR_CAMERA_SYSTEM_NEXT_STROBE_END_MARGIN_US_def
      d1 d2 psc tick_hz_def [symmetric] Let_def t32 n_def [symmetric]
    by (simp add: m32 arr a16)
qed

lemma strobe_settings_durations:
  assumes "settings_valid Diamond ts" and "fps ts \<noteq> 0"
  shows "strobe_settings_valid (compute_master_timer_durations Diamond ts)"
  using durations_no_wrap [OF assms] assms(2)
  by (simp add: strobe_settings_valid_def IR_CAMERA_SYSTEM_NEXT_STROBE_END_MARGIN_US_def)

lemma timer_settings_from_on_time_us_valid:
  assumes "settings_valid b cur"
  shows "settings_valid b (snd (timer_settings_from_on_time_us b n cur))"
proof -
  have "n * fps cur * 100 \<le> duty_percent b * 1000000"
    if "fps cur \<noteq> 0" "\<not> double_less_nat (max_duty_us b (fps cur)) n"
    using that assms by (intro max_duty_sound)
      (simp_all add: settings_valid_def IR_CAMERA_SYSTEM_MAX_FPS_def not_double_less_nat)
  then show ?thesis
    using assms by (auto simp: timer_settings_from_on_time_us_def settings_valid_def Let_def mult.commute)
qed

lemma timer_settings_from_fps_valid:
  assumes "settings_valid b cur"
  shows "settings_valid b (snd (timer_settings_from_fps b f cur))"
proof (cases "f = 0 \<or> IR_CAMERA_SYSTEM_MAX_FPS < f")
  case True
  then show ?thesis using assms by (auto simp: timer_settings_from_fps_def settings_valid_def)
next
  case False
  then have f: "0 < f" "f \<le> 60" by (simp_all add: IR_CAMERA_SYSTEM_MAX_FPS_def)
  let ?d = "max_duty_us b f" and ?m = "IR_CAMERA_SYSTEM_MAX_IR_LED_ON_TIME_US b"
  let ?max = "trunc16 (if double_less_nat ?d ?m then double_trunc ?d else ?m)"
  have psc: "trunc16 (TIMER_CLOCK_FREQ_HZ div (2 ^ 16 * f)) = psc_of f"
    using psc_of_less [of f] by (simp add: trunc16_def psc_of_def)
  have arr: "trunc16 (TIMER_CLOCK_FREQ_HZ div ((psc_of f + 1) * f)) = arr_of f"
    using arr_of_less [OF f(1)] by (simp add: trunc16_def arr_of_def)
  have "?max \<le> double_trunc ?d"
    by (cases "double_less_nat ?d ?m") (auto simp: trunc16_def not_double_less_nat intro: le_trans [OF mod_less_eq_dividend])
  then have "on_time_in_us cur * f * 100 \<le> duty_percent b * 1000000" if "\<not> ?max < on_time_in_us cur"
    using that by (intro max_duty_sound [OF f]) simp
  then show ?thesis
    using assms False unfolding timer_settings_from_fps_def psc Let_def arr
    by (auto simp: settings_valid_def not_less)
qed

text \<open>Every successful change leaves settings the strobe handler can use; frame rate 0 stops it.\<close>

lemma strobe_settings_zero: "strobe_settings_valid settings_zero"
  by (simp add: strobe_settings_valid_def settings_zero_def)

lemma timer_settings_from_on_time_us_shape:
  "timer_settings_from_on_time_us b n cur \<in>
     {(RET_ERROR_INVALID_PARAM, cur),
      (RET_SUCCESS, if b = Diamond \<and> fps cur \<noteq> 0 then compute_master_timer_durations b (cur\<lparr>on_time_in_us := n\<rparr>)
                    else cur\<lparr>on_time_in_us := n\<rparr>)}"
proof -
  have r: "(if P then e else if Q then e else z) \<in> {e, z}" for P Q and e z :: "ret_code_t \<times> ir_camera_timer_settings"
    by simp
  have f: "fps (cur\<lparr>on_time_in_us := n\<rparr>) = fps cur" by simp
  show ?thesis unfolding timer_settings_from_on_time_us_def Let_def f by (rule r)
qed

lemma timer_settings_from_on_time_us_strobe:
  assumes v: "settings_valid Diamond cur" and s: "strobe_settings_valid cur"
  shows "strobe_settings_valid (snd (timer_settings_from_on_time_us Diamond n cur))"
proof -
  let ?r = "timer_settings_from_on_time_us Diamond n cur" and ?ts = "cur\<lparr>on_time_in_us := n\<rparr>"
  have v': "settings_valid Diamond (snd ?r)" by (rule timer_settings_from_on_time_us_valid [OF v])
  consider "snd ?r = cur" | "fps (snd ?r) = 0" | "snd ?r = compute_master_timer_durations Diamond ?ts" "fps ?ts \<noteq> 0"
    using timer_settings_from_on_time_us_shape [of Diamond n cur] by (cases "fps cur = 0") auto
  then show ?thesis
  proof cases
    case 1
    then show ?thesis using s by (simp only:)
  next
    case 2
    then show ?thesis by (simp add: strobe_settings_valid_def)
  next
    case 3
    then show ?thesis using v' by (simp only: settings_valid_durations strobe_settings_durations not_False_eq_True)
  qed
qed

lemma timer_settings_from_fps_shape:
  "\<exists>ts. fps ts = f \<and>
     timer_settings_from_fps b f cur \<in>
       {(RET_SUCCESS, cur\<lparr>fps := 0, master_psc := 0, master_arr := 0\<rparr>), (RET_ERROR_INVALID_PARAM, cur),
        (RET_SUCCESS, if b = Diamond then compute_master_timer_durations b ts else ts)}"
proof -
  let ?g = "\<lambda>ts. if b = Diamond then compute_master_timer_durations b ts else ts"
  have shape: "\<exists>ts. fps ts = f \<and> (if P then e else (RET_SUCCESS, ?g (cur\<lparr>fps := f, master_psc := p, master_arr := a\<rparr>))) \<in> {z, e, (RET_SUCCESS, ?g ts)}"
    for P e z p a
    by (intro exI [of _ "cur\<lparr>fps := f, master_psc := p, master_arr := a\<rparr>"]) simp
  show ?thesis
  proof (cases "f = 0 \<or> IR_CAMERA_SYSTEM_MAX_FPS < f")
    case True
    then show ?thesis
      by (auto simp: timer_settings_from_fps_def intro: exI [of _ "cur\<lparr>fps := f\<rparr>"])
  next
    case False
    then show ?thesis unfolding timer_settings_from_fps_def Let_def by (simp only: if_False de_Morgan_disj shape)
  qed
qed

lemma timer_settings_from_fps_strobe:
  assumes v: "settings_valid Diamond cur" and s: "strobe_settings_valid cur"
  shows "strobe_settings_valid (snd (timer_settings_from_fps Diamond f cur))"
proof -
  let ?r = "timer_settings_from_fps Diamond f cur"
  obtain ts where ts: "?r \<in> {(RET_SUCCESS, cur\<lparr>fps := 0, master_psc := 0, master_arr := 0\<rparr>),
      (RET_ERROR_INVALID_PARAM, cur), (RET_SUCCESS, compute_master_timer_durations Diamond ts)}"
    using timer_settings_from_fps_shape [of f Diamond cur] by auto
  have v': "settings_valid Diamond (snd ?r)" by (rule timer_settings_from_fps_valid [OF v])
  consider "snd ?r = cur" | "fps (snd ?r) = 0"
    | "snd ?r = compute_master_timer_durations Diamond ts" "fps ts \<noteq> 0"
    using ts by (cases "fps ts = 0") auto
  then show ?thesis
  proof cases
    case 3
    then show ?thesis using v' by (simp add: strobe_settings_durations)
  next
    case 1
    then show ?thesis using s by (simp only:)
  qed (simp add: strobe_settings_valid_def)
qed

text \<open>The distance override: shortening the pulse to 0 keeps both.\<close>

lemma settings_no_on_time:
  "settings_valid b ts \<Longrightarrow> settings_valid b (ts\<lparr>on_time_in_us := 0\<rparr>)"
  by (simp add: settings_valid_def)

lemma strobe_settings_no_on_time:
  "strobe_settings_valid ts \<Longrightarrow> strobe_settings_valid (ts\<lparr>on_time_in_us := 0\<rparr>)"
  by (auto simp: strobe_settings_valid_def intro!: mult_le_mono2 elim!: le_trans)

end
