(* ===== verification/Ir_Camera.thy ===== *)
theory Ir_Camera
  imports Ir_Timer_Settings
begin

text \<open>
  The infrared camera system (\<^verbatim>\<open>optics/ir_camera_system/ir_camera_system.c\<close> and
  \<^verbatim>\<open>ir_camera_system_hw.c\<close>): cameras and infrared LEDs are driven by one-pulse timers that a
  master timer triggers. The state holds the module's variables and the timer registers it
  writes (the two LED timers always get the same period, so they share \<open>led_arr\<close>); what it asks of other modules is the list of events \<open>ir_out\<close>. Results of driver
  calls and measurements are arguments.
\<close>

subsection \<open>State\<close>

text \<open>The wavelengths of \<^verbatim>\<open>orb_mcu_main_InfraredLEDs_Wavelength\<close> the code names.\<close>

datatype wavelength =
    WAVELENGTH_NONE | WAVELENGTH_740NM
  | WAVELENGTH_850NM | WAVELENGTH_850NM_LEFT | WAVELENGTH_850NM_RIGHT
  | WAVELENGTH_850NM_CENTER | WAVELENGTH_850NM_SIDE
  | WAVELENGTH_940NM | WAVELENGTH_940NM_LEFT | WAVELENGTH_940NM_RIGHT | WAVELENGTH_940NM_SINGLE

datatype camera = Ir_eye | Ir_face | Tof_2d | Rgb_face

text \<open>On Diamond the left and right channels of the 850 nm timer drive the centre and side LEDs.\<close>

datatype led_channel = LED_850_LEFT | LED_850_RIGHT | LED_940_LEFT | LED_940_RIGHT | LED_940_SINGLE

abbreviation LED_850_CENTER :: led_channel where "LED_850_CENTER \<equiv> LED_850_LEFT"
abbreviation LED_850_SIDE :: led_channel where "LED_850_SIDE \<equiv> LED_850_RIGHT"

datatype led_timer = TIMER_850 | TIMER_940

datatype ir_event =
    Lens_current int
  | Mirror_phi int
  | Mirror_theta int
  | Master_update
  | Front_leds_ir_off
  | Trigger_rgb_ir_face
  | Msleep

text \<open>
  A sweep polynomial is its number of frames and its values; the evaluation in C type
  \<^verbatim>\<open>float\<close> is left abstract.
\<close>

record 'v sweep_polynomial =
  number_of_frames :: nat
  value_at :: "nat \<Rightarrow> 'v"

record ir_camera =
  ir_initialized :: bool
  focus_sweep :: bool
  mirror_sweep :: bool
  cam_enabled :: "camera set"
  led_wavelength :: wavelength
  timer_settings :: ir_camera_timer_settings
  old_timer_settings :: ir_camera_timer_settings
  sweep_index :: nat
  use_focus_sweep_polynomial :: bool
  num_focus_values :: nat
  focus_values :: "int list"
  focus_sweep_polynomial :: "int sweep_polynomial"
  mirror_sweep_polynomial :: "(int \<times> int) sweep_polynomial"
  initial_phi :: int
  initial_theta :: int
  master_enabled :: bool
  reg_psc :: nat
  reg_arr :: nat
  reg_cnt :: nat
  trigger_arr :: nat
  trigger_on :: "camera set"
  trigger_it :: bool
  led_arr :: nat
  led_on :: "led_channel set"
  led_it :: "led_timer set"
  pvcc_high :: bool
  strobe_irq :: bool
  auto_off :: bool
  ir_out :: "ir_event list"

text \<open>
  What a call reads from outside: \<^verbatim>\<open>distance_is_safe\<close>, the safety circuit, whether an LED
  timer is still running, and the mirror's angles.
\<close>

record ir_env =
  distance_is_safe :: bool
  safety_triggered :: bool
  led_timers_running :: bool
  phi_angle :: int
  theta_angle :: int

definition emit :: "ir_event \<Rightarrow> ir_camera \<Rightarrow> ir_camera" where
  "emit e s = s\<lparr>ir_out := ir_out s @ [e]\<rparr>"

abbreviation "eye_is_enabled s \<equiv> Ir_eye \<in> cam_enabled s"
abbreviation "face_is_enabled s \<equiv> Ir_face \<in> cam_enabled s"
abbreviation "tof_is_enabled s \<equiv> Tof_2d \<in> cam_enabled s"

subsection \<open>LEDs and triggers\<close>

definition set_pvcc_converter_into_low_power_mode :: "ir_camera \<Rightarrow> ir_camera" where
  "set_pvcc_converter_into_low_power_mode s = (if pvcc_high s then s\<lparr>pvcc_high := False\<rparr> else s)"

definition set_pvcc_converter_into_high_demand_mode :: "ir_camera \<Rightarrow> ir_camera" where
  "set_pvcc_converter_into_high_demand_mode s =
    (if led_wavelength s \<noteq> WAVELENGTH_NONE \<and> \<not> pvcc_high s then emit Msleep (s\<lparr>pvcc_high := True\<rparr>) else s)"

primrec board_leds :: "board \<Rightarrow> led_channel set" where
  "board_leds Pearl = {LED_850_LEFT, LED_850_RIGHT, LED_940_LEFT, LED_940_RIGHT}"
| "board_leds Diamond = {LED_850_LEFT, LED_850_RIGHT, LED_940_LEFT, LED_940_RIGHT, LED_940_SINGLE}"

definition ir_leds_disable_all :: "board \<Rightarrow> ir_camera \<Rightarrow> ir_camera" where
  "ir_leds_disable_all b s = s\<lparr>led_on := led_on s - board_leds b\<rparr>"

definition trigger_delay :: "board \<Rightarrow> nat" where
  "trigger_delay b = max (CAMERA_TRIGGER_TIMER_START_DELAY_US b) IR_LED_TIMER_START_DELAY_US"

definition ir_leds_set_pulse_length :: "board \<Rightarrow> ir_env \<Rightarrow> ir_camera \<Rightarrow> ir_camera" where
  "ir_leds_set_pulse_length b env s =
    (let s1 = (if distance_is_safe env then s
               else s\<lparr>timer_settings := (timer_settings s)\<lparr>on_time_in_us := 0\<rparr>\<rparr>);
         s2 = ir_leds_disable_all b s1;
         on = on_time_in_us (timer_settings s2);
         s3 = (if on \<noteq> 0 then s2\<lparr>led_arr := on + trigger_delay b\<rparr> else s2)
     in if 0 < on \<and> 0 < fps (timer_settings s3) then set_pvcc_converter_into_high_demand_mode s3
        else set_pvcc_converter_into_low_power_mode s3)"

definition ir_leds_pulse_finished_isr :: "ir_env \<Rightarrow> ir_camera \<Rightarrow> ir_camera" where
  "ir_leds_pulse_finished_isr env s = (if led_timers_running env then s else emit Front_leds_ir_off s)"

text \<open>The channels of a wavelength, \<open>None\<close> where the board has no such LEDs.\<close>

fun wavelength_channels :: "board \<Rightarrow> wavelength \<Rightarrow> led_channel set option" where
  "wavelength_channels Pearl WAVELENGTH_850NM = Some {LED_850_LEFT, LED_850_RIGHT}"
| "wavelength_channels Pearl WAVELENGTH_850NM_LEFT = Some {LED_850_LEFT}"
| "wavelength_channels Pearl WAVELENGTH_850NM_RIGHT = Some {LED_850_RIGHT}"
| "wavelength_channels Pearl WAVELENGTH_940NM = Some {LED_940_LEFT, LED_940_RIGHT}"
| "wavelength_channels Pearl WAVELENGTH_940NM_LEFT = Some {LED_940_LEFT}"
| "wavelength_channels Pearl WAVELENGTH_940NM_RIGHT = Some {LED_940_RIGHT}"
| "wavelength_channels Diamond WAVELENGTH_850NM = Some {LED_850_CENTER, LED_850_SIDE}"
| "wavelength_channels Diamond WAVELENGTH_850NM_CENTER = Some {LED_850_CENTER}"
| "wavelength_channels Diamond WAVELENGTH_850NM_SIDE = Some {LED_850_SIDE}"
| "wavelength_channels Diamond WAVELENGTH_940NM = Some {LED_940_LEFT, LED_940_RIGHT, LED_940_SINGLE}"
| "wavelength_channels Diamond WAVELENGTH_940NM_LEFT = Some {LED_940_LEFT}"
| "wavelength_channels Diamond WAVELENGTH_940NM_RIGHT = Some {LED_940_RIGHT}"
| "wavelength_channels Diamond WAVELENGTH_940NM_SINGLE = Some {LED_940_SINGLE}"
| "wavelength_channels _ _ = None"

primrec led_timer_of :: "led_channel \<Rightarrow> led_timer" where
  "led_timer_of LED_850_LEFT = TIMER_850"
| "led_timer_of LED_850_RIGHT = TIMER_850"
| "led_timer_of LED_940_LEFT = TIMER_940"
| "led_timer_of LED_940_RIGHT = TIMER_940"
| "led_timer_of LED_940_SINGLE = TIMER_940"

definition ir_leds_enable_pulse :: "board \<Rightarrow> ir_env \<Rightarrow> ir_camera \<Rightarrow> ir_camera" where
  "ir_leds_enable_pulse b env s =
    (let s1 = s\<lparr>led_it := {}\<rparr> in
     if on_time_in_us (timer_settings s1) = 0
     then (if b = Pearl then ir_leds_pulse_finished_isr env s1 else s1)
     else case wavelength_channels b (led_wavelength s1) of
       Some ch \<Rightarrow> s1\<lparr>led_on := led_on s1 \<union> ch, led_it := if b = Pearl then led_timer_of ` ch else {}\<rparr>
     | None \<Rightarrow> if b = Pearl then ir_leds_pulse_finished_isr env s1 else s1)"

definition camera_enable_trigger :: "board \<Rightarrow> bool \<Rightarrow> camera \<Rightarrow> ir_camera \<Rightarrow> ir_camera" where
  "camera_enable_trigger b enabled ch s =
    (let s1 = s\<lparr>trigger_arr := on_time_in_us (timer_settings s) + trigger_delay b\<rparr>
     in if enabled \<and> 0 < fps (timer_settings s1) then s1\<lparr>trigger_on := insert ch (trigger_on s1)\<rparr>
        else s1\<lparr>trigger_on := trigger_on s1 - {ch}\<rparr>)"

definition ir_leds_are_on :: "ir_camera \<Rightarrow> bool" where
  "ir_leds_are_on s \<longleftrightarrow> led_wavelength s \<noteq> WAVELENGTH_NONE \<and> led_wavelength s \<noteq> WAVELENGTH_740NM \<and>
     0 < fps (timer_settings s) \<and> 0 < on_time_in_us (timer_settings s)"

definition configure_timeout :: "ir_camera \<Rightarrow> ir_camera" where
  "configure_timeout s = s\<lparr>auto_off :=
     ir_leds_are_on s \<or> eye_is_enabled s \<or> face_is_enabled s \<or> tof_is_enabled s\<rparr>"

definition apply_new_timer_settings :: "board \<Rightarrow> ir_env \<Rightarrow> ir_camera \<Rightarrow> ir_camera" where
  "apply_new_timer_settings b env s =
    (let ts = timer_settings s;
         s1 = (if fps ts = 0 \<and> master_enabled s then s\<lparr>master_enabled := False\<rparr>
               else if 0 < fps ts \<and> \<not> master_enabled s then s\<lparr>master_enabled := True\<rparr> else s);
         s2 = s1\<lparr>reg_psc := master_psc ts, reg_arr := master_arr ts\<rparr>;
         s3 = (if b = Diamond then
                 (if \<not> face_is_enabled s2 then camera_enable_trigger b (eye_is_enabled s2) Ir_eye s2 else s2)
               else camera_enable_trigger b (face_is_enabled s2) Ir_face
                      (camera_enable_trigger b (eye_is_enabled s2) Ir_eye s2));
         s4 = camera_enable_trigger b (tof_is_enabled s3) Tof_2d s3;
         s5 = ir_leds_set_pulse_length b env s4;
         triggered = (b = Pearl \<or> \<not> face_is_enabled s5);
         s6 = (if triggered then ir_leds_enable_pulse b env s5 else s5);
         s7 = (if triggered \<and> master_arr (old_timer_settings s6) = 0 \<and> 0 < master_arr (timer_settings s6)
               then emit Master_update s6 else s6)
     in s7\<lparr>old_timer_settings := timer_settings s7\<rparr>)"

subsection \<open>Cameras\<close>

definition camera_trigger_rgb_ir_face_cam :: "ir_camera \<Rightarrow> ir_camera" where
  "camera_trigger_rgb_ir_face_cam s = emit Msleep (emit Trigger_rgb_ir_face s)"

fun camera_enable_hw :: "board \<Rightarrow> camera \<Rightarrow> ir_camera \<Rightarrow> ir_camera" where
  "camera_enable_hw b Ir_eye s = configure_timeout (camera_enable_trigger b True Ir_eye s)"
| "camera_enable_hw Diamond Ir_face s = configure_timeout (camera_trigger_rgb_ir_face_cam (s\<lparr>strobe_irq := True\<rparr>))"
| "camera_enable_hw Pearl Ir_face s = configure_timeout (camera_enable_trigger Pearl True Ir_face s)"
| "camera_enable_hw b Tof_2d s = configure_timeout (camera_enable_trigger b True Tof_2d s)"
| "camera_enable_hw Diamond Rgb_face s = camera_trigger_rgb_ir_face_cam s"
| "camera_enable_hw Pearl Rgb_face s = s"

fun camera_disable_hw :: "board \<Rightarrow> camera \<Rightarrow> ir_camera \<Rightarrow> ir_camera" where
  "camera_disable_hw b Ir_eye s = configure_timeout (camera_enable_trigger b False Ir_eye s)"
| "camera_disable_hw Diamond Ir_face s = configure_timeout (s\<lparr>strobe_irq := False\<rparr>)"
| "camera_disable_hw Pearl Ir_face s = configure_timeout (camera_enable_trigger Pearl False Ir_face s)"
| "camera_disable_hw b Tof_2d s = configure_timeout (camera_enable_trigger b False Tof_2d s)"
| "camera_disable_hw b Rgb_face s = s"

definition ir_camera_enable_force :: "board \<Rightarrow> camera \<Rightarrow> ir_camera \<Rightarrow> ir_camera" where
  "ir_camera_enable_force b c s = camera_enable_hw b c (s\<lparr>cam_enabled := insert c (cam_enabled s)\<rparr>)"

definition ir_camera_disable_force :: "board \<Rightarrow> camera \<Rightarrow> ir_camera \<Rightarrow> ir_camera" where
  "ir_camera_disable_force b c s = camera_disable_hw b c (s\<lparr>cam_enabled := cam_enabled s - {c}\<rparr>)"

definition ir_camera_enable :: "board \<Rightarrow> camera \<Rightarrow> ir_camera \<Rightarrow> ret_code_t \<times> ir_camera" where
  "ir_camera_enable b c s =
    (if \<not> ir_initialized s then (RET_ERROR_NOT_INITIALIZED, s)
     else if focus_sweep s then (RET_ERROR_BUSY, s)
     else (RET_SUCCESS, ir_camera_enable_force b c s))"

definition ir_camera_disable :: "board \<Rightarrow> camera \<Rightarrow> ir_camera \<Rightarrow> ret_code_t \<times> ir_camera" where
  "ir_camera_disable b c s =
    (if \<not> ir_initialized s then (RET_ERROR_NOT_INITIALIZED, s)
     else if focus_sweep s then (RET_ERROR_BUSY, s)
     else (RET_SUCCESS, ir_camera_disable_force b c s))"

definition ir_camera_system_get_status :: "ir_env \<Rightarrow> ir_camera \<Rightarrow> ret_code_t" where
  "ir_camera_system_get_status env s =
    (if \<not> ir_initialized s then RET_ERROR_NOT_INITIALIZED
     else if safety_triggered env then RET_ERROR_FORBIDDEN
     else if focus_sweep s \<or> mirror_sweep s then RET_ERROR_BUSY
     else RET_SUCCESS)"

subsection \<open>LED wavelength, frame rate and on-time\<close>

definition ir_camera_system_enable_leds_hw :: "board \<Rightarrow> ir_env \<Rightarrow> ir_camera \<Rightarrow> ir_camera" where
  "ir_camera_system_enable_leds_hw b env s =
     configure_timeout (ir_leds_enable_pulse b env (ir_leds_set_pulse_length b env s))"

fun wavelength_deprecated :: "board \<Rightarrow> wavelength \<Rightarrow> bool" where
  "wavelength_deprecated Pearl w \<longleftrightarrow>
     w = WAVELENGTH_740NM \<or> w = WAVELENGTH_850NM_CENTER \<or> w = WAVELENGTH_850NM_SIDE \<or> w = WAVELENGTH_940NM_SINGLE"
| "wavelength_deprecated Diamond w \<longleftrightarrow>
     w = WAVELENGTH_740NM \<or> w = WAVELENGTH_850NM_RIGHT \<or> w = WAVELENGTH_850NM_LEFT"

definition ir_camera_system_enable_leds :: "board \<Rightarrow> ir_env \<Rightarrow> wavelength \<Rightarrow> ir_camera \<Rightarrow> ret_code_t \<times> ir_camera" where
  "ir_camera_system_enable_leds b env w s =
    (let ret = (if w \<noteq> WAVELENGTH_NONE then ir_camera_system_get_status env s else RET_SUCCESS) in
     if ret \<noteq> RET_SUCCESS then (ret, s)
     else if wavelength_deprecated b w then (RET_ERROR_INVALID_PARAM, s)
     else (RET_SUCCESS, if led_wavelength s \<noteq> w
                        then ir_camera_system_enable_leds_hw b env (s\<lparr>led_wavelength := w\<rparr>) else s))"

definition ir_camera_system_set_fps_hw :: "board \<Rightarrow> ir_env \<Rightarrow> nat \<Rightarrow> ir_camera \<Rightarrow> ret_code_t \<times> ir_camera" where
  "ir_camera_system_set_fps_hw b env f s =
    (let (ret, ts) = timer_settings_from_fps b f (timer_settings s) in
     (ret, configure_timeout
       (if ret \<noteq> RET_SUCCESS then s else apply_new_timer_settings b env (s\<lparr>timer_settings := ts\<rparr>))))"

definition ir_camera_system_set_fps :: "board \<Rightarrow> ir_env \<Rightarrow> nat \<Rightarrow> ir_camera \<Rightarrow> ret_code_t \<times> ir_camera" where
  "ir_camera_system_set_fps b env f s =
    (let ret = (if IR_CAMERA_SYSTEM_MAX_FPS < f then RET_ERROR_INVALID_PARAM
                else if f \<noteq> 0 then ir_camera_system_get_status env s else RET_SUCCESS) in
     if ret = RET_SUCCESS then ir_camera_system_set_fps_hw b env f s else (ret, s))"

definition ir_camera_system_set_on_time_us_hw :: "board \<Rightarrow> ir_env \<Rightarrow> nat \<Rightarrow> ir_camera \<Rightarrow> ret_code_t \<times> ir_camera" where
  "ir_camera_system_set_on_time_us_hw b env n s =
    (let (ret, ts) = timer_settings_from_on_time_us b n (timer_settings s);
         s1 = (if ret \<noteq> RET_SUCCESS then s
               else let s0 = s\<lparr>timer_settings := ts\<rparr> in
                 if b = Pearl \<or> \<not> face_is_enabled s0 then apply_new_timer_settings b env s0 else s0)
     in (ret, if n \<noteq> 0 then configure_timeout s1 else s1))"

definition ir_camera_system_set_on_time_us :: "board \<Rightarrow> ir_env \<Rightarrow> nat \<Rightarrow> ir_camera \<Rightarrow> ret_code_t \<times> ir_camera" where
  "ir_camera_system_set_on_time_us b env n s =
    (let ret = (if IR_CAMERA_SYSTEM_MAX_IR_LED_ON_TIME_US b < n then RET_ERROR_INVALID_PARAM
                else if n \<noteq> 0 then
                  (let r = ir_camera_system_get_status env s in if r = RET_ERROR_BUSY then RET_SUCCESS else r)
                else RET_SUCCESS) in
     if ret = RET_SUCCESS then ir_camera_system_set_on_time_us_hw b env n s else (ret, s))"

definition ir_camera_system_get_time_until_update_us :: "nat \<Rightarrow> ir_camera \<Rightarrow> nat" where
  "ir_camera_system_get_time_until_update_us cnt s =
    (let ticks = minus32 (master_arr (timer_settings s)) cnt
     in trunc32 ((master_psc (timer_settings s) + 1) * ticks) div TIMER_CLOCK_FREQ_MHZ)"

subsection \<open>Sweeps\<close>

definition MAX_NUMBER_OF_FOCUS_VALUES :: nat where "MAX_NUMBER_OF_FOCUS_VALUES = 200"

definition set_polynomial_for_focus_sweep :: "int sweep_polynomial \<Rightarrow> ir_camera \<Rightarrow> ret_code_t \<times> ir_camera" where
  "set_polynomial_for_focus_sweep poly s =
    (if focus_sweep s then (RET_ERROR_BUSY, s)
     else (RET_SUCCESS, s\<lparr>use_focus_sweep_polynomial := True, num_focus_values := number_of_frames poly,
                          focus_sweep_polynomial := poly\<rparr>))"

text \<open>The caller's array has \<^verbatim>\<open>MAX_NUMBER_OF_FOCUS_VALUES\<close> elements: all of it is copied.\<close>

definition set_focus_values_for_focus_sweep :: "int list \<Rightarrow> nat \<Rightarrow> ir_camera \<Rightarrow> ret_code_t \<times> ir_camera" where
  "set_focus_values_for_focus_sweep values n s =
    (if MAX_NUMBER_OF_FOCUS_VALUES < n then (RET_ERROR_INVALID_PARAM, s)
     else if focus_sweep s then (RET_ERROR_BUSY, s)
     else (RET_SUCCESS, s\<lparr>num_focus_values := n, focus_values := take MAX_NUMBER_OF_FOCUS_VALUES values,
                          use_focus_sweep_polynomial := False\<rparr>))"

definition set_polynomial_for_mirror_sweep :: "(int \<times> int) sweep_polynomial \<Rightarrow> ir_camera \<Rightarrow> ret_code_t \<times> ir_camera" where
  "set_polynomial_for_mirror_sweep poly s =
    (if mirror_sweep s then (RET_ERROR_BUSY, s)
     else (RET_SUCCESS, s\<lparr>mirror_sweep_polynomial := poly\<rparr>))"

definition focus_value :: "ir_camera \<Rightarrow> nat \<Rightarrow> int" where
  "focus_value s i = (if use_focus_sweep_polynomial s then value_at (focus_sweep_polynomial s) i
                      else focus_values s ! i)"

definition initialize_focus_sweep :: "board \<Rightarrow> ir_camera \<Rightarrow> ir_camera" where
  "initialize_focus_sweep b s =
    (let s1 = emit (Lens_current (focus_value s 0)) s
     in ir_camera_enable_force b Ir_eye (s1\<lparr>sweep_index := 1, trigger_it := True\<rparr>))"

definition ir_camera_system_perform_focus_sweep_hw :: "board \<Rightarrow> ir_camera \<Rightarrow> ir_camera" where
  "ir_camera_system_perform_focus_sweep_hw b s =
    (if 0 < num_focus_values s then initialize_focus_sweep b (s\<lparr>focus_sweep := True\<rparr>) else s)"

definition initialize_mirror_sweep :: "board \<Rightarrow> ir_env \<Rightarrow> ir_camera \<Rightarrow> ir_camera" where
  "initialize_mirror_sweep b env s =
     ir_camera_enable_force b Ir_eye
       (s\<lparr>sweep_index := 0, initial_phi := phi_angle env, initial_theta := theta_angle env, trigger_it := True\<rparr>)"

definition ir_camera_system_perform_mirror_sweep_hw :: "board \<Rightarrow> ir_env \<Rightarrow> ir_camera \<Rightarrow> ir_camera" where
  "ir_camera_system_perform_mirror_sweep_hw b env s =
    (if 0 < number_of_frames (mirror_sweep_polynomial s)
     then initialize_mirror_sweep b env (s\<lparr>mirror_sweep := True\<rparr>) else s)"

definition ir_camera_system_perform_focus_sweep :: "board \<Rightarrow> ir_env \<Rightarrow> ir_camera \<Rightarrow> ret_code_t \<times> ir_camera" where
  "ir_camera_system_perform_focus_sweep b env s =
    (let ret = ir_camera_system_get_status env s in
     if ret \<noteq> RET_SUCCESS then (ret, s)
     else if fps (timer_settings s) = 0 then (RET_ERROR_INVALID_STATE, s)
     else if eye_is_enabled s then (RET_ERROR_INVALID_STATE, s)
     else (RET_SUCCESS, ir_camera_system_perform_focus_sweep_hw b s))"

definition ir_camera_system_perform_mirror_sweep :: "board \<Rightarrow> ir_env \<Rightarrow> ir_camera \<Rightarrow> ret_code_t \<times> ir_camera" where
  "ir_camera_system_perform_mirror_sweep b env s =
    (let ret = ir_camera_system_get_status env s in
     if ret \<noteq> RET_SUCCESS then (ret, s)
     else if fps (timer_settings s) = 0 then (RET_ERROR_INVALID_STATE, s)
     else if eye_is_enabled s then (RET_ERROR_INVALID_STATE, s)
     else (RET_SUCCESS, ir_camera_system_perform_mirror_sweep_hw b env s))"

text \<open>\<open>counting\<close> tells whether the trigger timer is still enabled, that is, the pulse has not ended.\<close>

definition camera_exposure_completes_isr :: "board \<Rightarrow> bool \<Rightarrow> ir_camera \<Rightarrow> ir_camera" where
  "camera_exposure_completes_isr b counting s =
    (if counting then s
     else
      let s1 =
        (if focus_sweep s then
           (if sweep_index s = num_focus_values s
            then (ir_camera_disable_force b Ir_eye (s\<lparr>trigger_it := False\<rparr>))\<lparr>focus_sweep := False\<rparr>
            else emit (Lens_current (focus_value s (sweep_index s))) s)
         else if mirror_sweep s then
           (if sweep_index s = number_of_frames (mirror_sweep_polynomial s)
            then (ir_camera_disable_force b Ir_eye (s\<lparr>trigger_it := False\<rparr>))\<lparr>mirror_sweep := False\<rparr>
            else let (d_phi, d_theta) = value_at (mirror_sweep_polynomial s) (sweep_index s)
              in emit (Mirror_theta (d_theta + initial_theta s)) (emit (Mirror_phi (d_phi + initial_phi s)) s))
         else s)
      in s1\<lparr>sweep_index := sweep_index s1 + 1\<rparr>)"

subsection \<open>Timeout and strobe\<close>

definition ir_camera_system_timeout_disable :: "board \<Rightarrow> ir_env \<Rightarrow> ir_camera \<Rightarrow> ir_camera" where
  "ir_camera_system_timeout_disable b env s =
    (let s1 = snd (ir_camera_system_enable_leds b env WAVELENGTH_NONE (s\<lparr>auto_off := False\<rparr>));
         s2 = snd (ir_camera_disable b Ir_eye s1);
         s3 = snd (ir_camera_disable b Ir_face s2)
     in snd (ir_camera_disable b Tof_2d s3))"

text \<open>
  The strobe of the RGB camera, Diamond only; \<open>level\<close> is what the pin reads and \<open>cnt\<close> the
  counter of the master timer.
\<close>

definition strobe_falling :: "ir_env \<Rightarrow> ir_camera \<Rightarrow> ir_camera" where
  "strobe_falling env s =
    (let ts = timer_settings s;
         s1 = (if 0 < fps ts
               then s\<lparr>reg_psc := master_psc ts, reg_arr := master_arr ts, reg_cnt := master_initial_counter ts\<rparr>
               else s\<lparr>master_enabled := False\<rparr>);
         s2 = ir_leds_set_pulse_length Diamond env s1;
         s3 = camera_enable_trigger Diamond (eye_is_enabled s2) Ir_eye s2;
         s4 = camera_enable_trigger Diamond (tof_is_enabled s3) Tof_2d s3
     in ir_leds_enable_pulse Diamond env s4)"

definition strobe_rising :: "nat \<Rightarrow> ir_camera \<Rightarrow> ir_camera" where
  "strobe_rising cnt s =
    (let ts = timer_settings s; max_us = IR_CAMERA_SYSTEM_MAX_IR_LED_ON_TIME_US Diamond in
     if cnt < master_initial_counter ts then s
     else
      let remaining_ticks = minus32 (master_arr ts) cnt;
          remaining_us = trunc32 (remaining_ticks * (master_psc ts + 1) div TIMER_CLOCK_FREQ_MHZ)
      in if max_us < trunc32 (remaining_us + on_time_in_us ts)
         then s\<lparr>reg_cnt := minus32 (master_arr ts) (minus32 remaining_ticks (master_max_ir_leds_tick ts)),
                led_arr := max_us\<rparr>
         else emit Master_update (s\<lparr>led_arr := trunc32 (remaining_us + on_time_in_us ts)\<rparr>))"

definition rgb_ir_strobe_isr :: "ir_env \<Rightarrow> int \<Rightarrow> nat \<Rightarrow> ir_camera \<Rightarrow> ir_camera" where
  "rgb_ir_strobe_isr env level cnt s =
    (if level = 0 then strobe_falling env s else if level = 1 then strobe_rising cnt s else s)"

subsection \<open>Initialisation\<close>

text \<open>
  What the driver and library calls of \<^verbatim>\<open>ir_camera_system_hw_init\<close> return; each timer has
  the results of its \<^verbatim>\<open>LL_TIM_Init\<close> and of its \<^verbatim>\<open>LL_TIM_OC_Init\<close> calls in order.
\<close>

record ir_hw_results =
  pvcc_ready :: bool
  pvcc_configured :: int
  clocks_configured :: int
  led_940_results :: "bool list"
  led_850_results :: "bool list"
  trigger_results :: "bool list"
  master_result :: bool
  strobe_ready :: bool
  strobe_configured :: int
  strobe_callback :: int
  supply_5v :: int


text \<open>
  Channels are initialised with their output enabled, in order, up to the first failure.
\<close>

fun setup_channels :: "('c \<times> bool) list \<Rightarrow> 'c set \<Rightarrow> int \<times> 'c set" where
  "setup_channels [] on = (0, on)"
| "setup_channels ((c, ok) # cs) on = (if ok then setup_channels cs (insert c on) else (- EIO, on))"

definition setup_leds :: "led_channel list \<Rightarrow> bool list \<Rightarrow> ir_camera \<Rightarrow> int \<times> ir_camera" where
  "setup_leds chs oks s =
    (if \<not> hd oks then (- EIO, s)
     else let (e, on) = setup_channels (zip chs (tl oks)) (led_on s)
       in (e, s\<lparr>led_arr := 0, led_on := on\<rparr>))"

definition setup_850nm_led_timer :: "bool list \<Rightarrow> ir_camera \<Rightarrow> int \<times> ir_camera" where
  "setup_850nm_led_timer = setup_leds [LED_850_LEFT, LED_850_RIGHT]"

definition setup_940nm_led_timer :: "board \<Rightarrow> bool list \<Rightarrow> ir_camera \<Rightarrow> int \<times> ir_camera" where
  "setup_940nm_led_timer b =
     setup_leds (if b = Diamond then [LED_940_LEFT, LED_940_RIGHT, LED_940_SINGLE] else [LED_940_LEFT, LED_940_RIGHT])"

definition setup_camera_triggers :: "board \<Rightarrow> bool list \<Rightarrow> ir_camera \<Rightarrow> int \<times> ir_camera" where
  "setup_camera_triggers b oks s =
    (if \<not> hd oks then (- EIO, s)
     else let (e, on) = setup_channels (zip (if b = Pearl then [Ir_face, Tof_2d, Ir_eye] else [Tof_2d, Ir_eye]) (tl oks))
                          (trigger_on s)
       in (e, s\<lparr>trigger_arr := 0, trigger_on := on\<rparr>))"

definition setup_master_timer :: "bool \<Rightarrow> ir_camera \<Rightarrow> int \<times> ir_camera" where
  "setup_master_timer ok s =
    (if \<not> ok then (- EIO, s) else (0, s\<lparr>reg_psc := 0, reg_arr := 0, master_enabled := True\<rparr>))"

definition ir_camera_system_hw_init :: "board \<Rightarrow> ir_hw_results \<Rightarrow> ir_camera \<Rightarrow> ret_code_t \<times> ir_camera" where
  "ir_camera_system_hw_init b r s =
    (if \<not> pvcc_ready r then (RET_ERROR_INTERNAL, s)
     else if pvcc_configured r \<noteq> 0 then (RET_ERROR_INTERNAL, s)
     else let s0 = s\<lparr>pvcc_high := False\<rparr> in
     if clocks_configured r < 0 then (RET_ERROR_INTERNAL, s0)
     else let (e1, s1) = setup_940nm_led_timer b (led_940_results r) s0 in
     if e1 < 0 then (RET_ERROR_INTERNAL, s1)
     else let (e2, s2) = setup_850nm_led_timer (led_850_results r) s1 in
     if e2 < 0 then (RET_ERROR_INTERNAL, s2)
     else let (e3, s3) = setup_camera_triggers b (trigger_results r) s2 in
     if e3 < 0 then (RET_ERROR_INTERNAL, s3)
     else let (e4, s4) = setup_master_timer (master_result r) s3 in
     if e4 < 0 then (RET_ERROR_INTERNAL, s4)
     else if b = Diamond \<and> \<not> strobe_ready r then (RET_ERROR_INTERNAL, s4)
     else if b = Diamond \<and> strobe_configured r \<noteq> 0 then (RET_ERROR_INTERNAL, s4)
     else if b = Diamond \<and> strobe_callback r \<noteq> 0 then (RET_ERROR_INTERNAL, s4)
     else if b = Diamond \<and> supply_5v r \<noteq> 0 then (RET_ERROR_INTERNAL, s4)
     else (RET_SUCCESS, s4))"

definition ir_camera_system_init :: "board \<Rightarrow> ir_hw_results \<Rightarrow> ir_camera \<Rightarrow> ret_code_t \<times> ir_camera" where
  "ir_camera_system_init b r s =
    (if ir_initialized s then (RET_ERROR_ALREADY_INITIALIZED, s)
     else let (ret, s1) = ir_camera_system_hw_init b r s
       in (ret, if ret = RET_SUCCESS then s1\<lparr>ir_initialized := True\<rparr> else s1))"

text \<open>The variables and registers after power-on.\<close>

definition ir_power_on :: ir_camera where
  "ir_power_on = \<lparr>ir_initialized = False, focus_sweep = False, mirror_sweep = False, cam_enabled = {},
     led_wavelength = WAVELENGTH_NONE, timer_settings = settings_zero, old_timer_settings = settings_zero,
     sweep_index = 0, use_focus_sweep_polynomial = False, num_focus_values = 0,
     focus_values = replicate 200 0, focus_sweep_polynomial = \<lparr>number_of_frames = 0, value_at = \<lambda>_. 0\<rparr>,
     mirror_sweep_polynomial = \<lparr>number_of_frames = 0, value_at = \<lambda>_. (0, 0)\<rparr>,
     initial_phi = 0, initial_theta = 0, master_enabled = False, reg_psc = 0, reg_arr = 0, reg_cnt = 0,
     trigger_arr = 0, trigger_on = {}, trigger_it = False, led_arr = 0, led_on = {}, led_it = {},
     pvcc_high = False, strobe_irq = False, auto_off = False, ir_out = []\<rparr>"

subsection \<open>Executions\<close>

text \<open>
  Calls of the module and its interrupt and timer handlers, in any order. A handler runs
  only when its source is enabled.
\<close>

datatype ir_op =
    Ir_init ir_hw_results
  | Ir_enable camera
  | Ir_disable camera
  | Ir_leds wavelength
  | Ir_fps nat
  | Ir_on_time nat
  | Ir_focus_values "int list" nat
  | Ir_focus_poly "int sweep_polynomial"
  | Ir_mirror_poly "(int \<times> int) sweep_polynomial"
  | Ir_focus_sweep
  | Ir_mirror_sweep
  | Ir_exposure bool
  | Ir_pulse_finished
  | Ir_strobe int nat
  | Ir_timeout

fun ir_exec :: "board \<Rightarrow> ir_env \<Rightarrow> ir_op \<Rightarrow> ir_camera \<Rightarrow> ret_code_t option \<times> ir_camera" where
  "ir_exec b env (Ir_init r) s = apfst Some (ir_camera_system_init b r s)"
| "ir_exec b env (Ir_enable c) s = apfst Some (ir_camera_enable b c s)"
| "ir_exec b env (Ir_disable c) s = apfst Some (ir_camera_disable b c s)"
| "ir_exec b env (Ir_leds w) s = apfst Some (ir_camera_system_enable_leds b env w s)"
| "ir_exec b env (Ir_fps f) s = apfst Some (ir_camera_system_set_fps b env f s)"
| "ir_exec b env (Ir_on_time n) s = apfst Some (ir_camera_system_set_on_time_us b env n s)"
| "ir_exec b env (Ir_focus_values vs n) s = apfst Some (set_focus_values_for_focus_sweep vs n s)"
| "ir_exec b env (Ir_focus_poly p) s = apfst Some (set_polynomial_for_focus_sweep p s)"
| "ir_exec b env (Ir_mirror_poly p) s = apfst Some (set_polynomial_for_mirror_sweep p s)"
| "ir_exec b env Ir_focus_sweep s = apfst Some (ir_camera_system_perform_focus_sweep b env s)"
| "ir_exec b env Ir_mirror_sweep s = apfst Some (ir_camera_system_perform_mirror_sweep b env s)"
| "ir_exec b env (Ir_exposure counting) s =
     (None, if trigger_it s then camera_exposure_completes_isr b counting s else s)"
| "ir_exec b env Ir_pulse_finished s =
     (None, if b = Pearl \<and> led_it s \<noteq> {} then ir_leds_pulse_finished_isr env s else s)"
| "ir_exec b env (Ir_strobe level cnt) s =
     (None, if b = Diamond \<and> strobe_irq s then rgb_ir_strobe_isr env level cnt s else s)"
| "ir_exec b env Ir_timeout s = (None, if auto_off s then ir_camera_system_timeout_disable b env s else s)"

fun ir_run :: "board \<Rightarrow> (ir_env \<times> ir_op) list \<Rightarrow> ir_camera \<Rightarrow> ir_camera" where
  "ir_run b [] s = s"
| "ir_run b ((env, op) # ops) s = ir_run b ops (snd (ir_exec b env op s))"

end
