(* ===== verification/Polarizer.thy ===== *)
theory Polarizer
  imports Kernel
begin

text \<open>
  The polarizer wheel (\<^verbatim>\<open>optics/polarizer_wheel/polarizer_wheel.c\<close>): interrupts count the steps of a motor and
  see the bumps of the wheel, calls queue commands, and one thread homes the wheel, measures the bumps and positions the wheel. Inputs
  that change while a command runs are functions of the number of waits so far.
\<close>

subsection \<open>State\<close>

definition MICROSTEPS_PER_STEP :: nat where "MICROSTEPS_PER_STEP = 8"
definition MICROSTEPS_360 :: nat where "MICROSTEPS_360 = 48 * MICROSTEPS_PER_STEP"
definition MICROSTEPS_120 :: nat where "MICROSTEPS_120 = MICROSTEPS_360 div 3"
definition NOTCH_EDGE_TO_CENTER :: nat where "NOTCH_EDGE_TO_CENTER = MICROSTEPS_PER_STEP * 3 div 4"
definition PWM_FREQUENCY_MINIMUM :: nat where "PWM_FREQUENCY_MINIMUM = MICROSTEPS_360 div 4"
definition PWM_FREQUENCY_DEFAULT :: nat where "PWM_FREQUENCY_DEFAULT = MICROSTEPS_360 div 3"
definition ACCEL_MIN_SPEED_MS_PER_TURN :: nat where "ACCEL_MIN_SPEED_MS_PER_TURN = 2000"
definition PWM_FREQUENCY_ACCEL_MIN_SPEED :: nat where
  "PWM_FREQUENCY_ACCEL_MIN_SPEED = MICROSTEPS_360 * 1000 div ACCEL_MIN_SPEED_MS_PER_TURN"
definition LINEAR_ACCELERATION_DEFAULT :: nat where "LINEAR_ACCELERATION_DEFAULT = 8000"
definition MAX_SPEED_DEFAULT_MS_PER_TURN :: nat where "MAX_SPEED_DEFAULT_MS_PER_TURN = 200"
definition POLARIZER_IDLE_CURRENT_DELAY_MS :: nat where "POLARIZER_IDLE_CURRENT_DELAY_MS = 2000"
definition HOMING_SPIN_ATTEMPTS :: nat where "HOMING_SPIN_ATTEMPTS = 3"
definition NOTCH_DETECT_ATTEMPTS :: nat where "NOTCH_DETECT_ATTEMPTS = 9"

lemmas wheel_constants = MICROSTEPS_PER_STEP_def MICROSTEPS_360_def MICROSTEPS_120_def NOTCH_EDGE_TO_CENTER_def
  PWM_FREQUENCY_MINIMUM_def PWM_FREQUENCY_DEFAULT_def ACCEL_MIN_SPEED_MS_PER_TURN_def PWM_FREQUENCY_ACCEL_MIN_SPEED_def

text \<open>The direction is 0 until it is set for the first time.\<close>

datatype wheel_direction = NO_DIRECTION | BACKWARD | FORWARD

datatype wheel_state = STATE_UNINITIALIZED | STATE_IDLE | STATE_HOMING | STATE_CALIBRATING
  | STATE_POSITIONING_WITH_ENCODER | STATE_POSITIONING

datatype wheel_cmd = CMD_NONE | CMD_HOME | CMD_SET_ANGLE | CMD_CALIBRATE

datatype wheel_position = POS_UNKNOWN | POS_PASS_THROUGH | POS_VERTICAL | POS_HORIZONTAL

datatype encoder_int = INT_DISABLE | INT_EDGE_RISING | INT_EDGE_BOTH

record set_angle_cmd_t =
  sa_frequency :: nat
  sa_angle_decidegrees :: nat
  sa_shortest_path :: bool

record wheel_calibration =
  bump_width_pass_through :: nat
  bump_width_vertical :: nat
  bump_width_horizontal :: nat
  bump_index :: nat
  bump_entry_position :: nat
  inside_bump :: bool
  calibration_complete :: bool
  needs_calibration :: bool

record wheel_positioning =
  target_notch_edge :: int
  encoder_enabled :: bool
  encoder_triggered :: bool
  start_time_ms :: nat
  previous_position :: wheel_position
  target_position :: wheel_position
  step_diff_microsteps :: nat

record wheel_acceleration =
  min_frequency :: nat
  acceleration_active :: bool
  start_pos :: int
  total_distance :: nat

text \<open>What the pins, the timer of the steps and the semaphores are set to; a frequency of 0 is a motor that stands still.\<close>

record wheel_hw =
  step_frequency :: nat
  step_interrupt :: bool
  encoder_power :: bool
  encoder_interrupt :: encoder_int
  step_sem :: bool
  encoder_sem :: bool
  cmd_sem :: bool

record wheel_report =
  rep_previous :: wheel_position
  rep_current :: wheel_position
  rep_step_loss :: nat
  rep_transition_ms :: nat
  rep_acceleration :: nat
  rep_max_speed :: nat
  rep_calibration :: "(nat \<times> nat \<times> nat) option"

record polarizer =
  wstate :: wheel_state
  idle_current_scale_down_time_ms :: nat
  notch_count :: nat
  homing_success :: bool
  calibration :: wheel_calibration
  current :: int
  target :: int
  direction :: wheel_direction
  positioning :: wheel_positioning
  acceleration :: wheel_acceleration
  pending_cmd :: wheel_cmd
  pending_set_angle :: set_angle_cmd_t
  linear_acceleration :: nat
  max_speed :: nat
  whw :: wheel_hw
  reports :: "wheel_report list"
  waits :: nat

text \<open>
  \<open>edge_waits\<close> is what a wait for the encoder ends with: whether an edge came, and how many steps the
  motor made; \<open>spin_events\<close> is what the loop of the calibration finds at each turn until it times out: whether an edge came, the level of the encoder, and the steps.
\<close>

record wheel_rets =
  drv_enable_ret :: int
  drv_scale_ret :: int
  pwm_ret :: int
  dir_ret :: int
  enc_power_ret :: int
  enc_int_ret :: int

record wheel_env =
  rets :: "nat \<Rightarrow> wheel_rets"
  uptime_ms :: "nat \<Rightarrow> nat"
  edge_waits :: "nat \<Rightarrow> bool \<times> nat"
  spin_events :: "nat \<Rightarrow> (bool \<times> bool \<times> nat) list"

abbreviation wret :: "wheel_env \<Rightarrow> polarizer \<Rightarrow> wheel_rets" where "wret e s \<equiv> rets e (waits s)"
abbreviation wnow :: "wheel_env \<Rightarrow> polarizer \<Rightarrow> nat" where "wnow e s \<equiv> uptime_ms e (waits s)"

subsection \<open>Distances and speeds\<close>

definition circular_signed_distance :: "int \<Rightarrow> int \<Rightarrow> int" where
  "circular_signed_distance from_pos to_pos =
    (let diff = to_pos - from_pos; half_range = int MICROSTEPS_360 div 2
     in if half_range < diff then diff - int MICROSTEPS_360 else if diff < - half_range then diff + int MICROSTEPS_360 else diff)"

definition get_linear_acceleration_usteps_per_s2 :: "polarizer \<Rightarrow> nat" where
  "get_linear_acceleration_usteps_per_s2 s = (linear_acceleration s * MICROSTEPS_PER_STEP) mod 2 ^ 32"

definition get_max_frequency :: "polarizer \<Rightarrow> nat" where
  "get_max_frequency s = MICROSTEPS_360 * 1000 div max_speed s"

definition polarizer_wheel_set_acceleration :: "nat \<Rightarrow> polarizer \<Rightarrow> polarizer" where
  "polarizer_wheel_set_acceleration accel s =
     s\<lparr>linear_acceleration := if accel = 0 then LINEAR_ACCELERATION_DEFAULT else accel\<rparr>"

definition polarizer_wheel_set_max_speed :: "nat \<Rightarrow> polarizer \<Rightarrow> polarizer" where
  "polarizer_wheel_set_max_speed ms_per_turn s =
    (if ms_per_turn = 0 then s\<lparr>max_speed := MAX_SPEED_DEFAULT_MS_PER_TURN\<rparr>
     else if ms_per_turn \<le> ACCEL_MIN_SPEED_MS_PER_TURN then s\<lparr>max_speed := ms_per_turn\<rparr> else s)"

text \<open>Integer square root by Newton's method, on 64-bit numbers.\<close>

function newton_sqrt :: "nat \<Rightarrow> nat \<Rightarrow> nat \<Rightarrow> nat" where
  "newton_sqrt n x y = (if y < x then newton_sqrt n y ((y + n div y) mod 2 ^ 64 div 2) else x)"
  by pat_completeness auto
termination by (relation "measure (\<lambda>(n, x, y). x)") auto

declare newton_sqrt.simps [simp del]

definition calculate_linear_ramp_frequency :: "nat \<Rightarrow> nat \<Rightarrow> nat \<Rightarrow> polarizer \<Rightarrow> nat" where
  "calculate_linear_ramp_frequency ramp_step min_freq max_freq s =
    (let min_freq_sq = min_freq * min_freq mod 2 ^ 64;
         accel_term = 2 * get_linear_acceleration_usteps_per_s2 s * ramp_step mod 2 ^ 64;
         freq_sq = (min_freq_sq + accel_term) mod 2 ^ 64
     in min (newton_sqrt freq_sq freq_sq ((freq_sq + 1) mod 2 ^ 64 div 2)) max_freq)"

definition calculate_ramp_step :: "nat \<Rightarrow> nat \<Rightarrow> nat" where
  "calculate_ramp_step distance_traveled total_dist =
    (if total_dist = 0 \<or> total_dist \<le> distance_traveled then 0
     else if distance_traveled < total_dist div 2 then distance_traveled else total_dist - distance_traveled - 1)"

subsection \<open>Motor and encoder\<close>

definition polarizer_set_frequency :: "wheel_env \<Rightarrow> nat \<Rightarrow> polarizer \<Rightarrow> int \<times> polarizer" where
  "polarizer_set_frequency e f s =
    (if get_max_frequency s < f \<or> f < PWM_FREQUENCY_MINIMUM then (rc RET_ERROR_INVALID_PARAM, s)
     else (pwm_ret (wret e s), if pwm_ret (wret e s) = 0 then s\<lparr>whw := (whw s)\<lparr>step_frequency := f\<rparr>\<rparr> else s))"

definition polarizer_halt :: "wheel_env \<Rightarrow> polarizer \<Rightarrow> polarizer" where
  "polarizer_halt e s =
     s\<lparr>whw := (whw s)\<lparr>step_frequency := if pwm_ret (wret e s) = 0 then 0 else step_frequency (whw s), step_interrupt := False\<rparr>,
       acceleration := (acceleration s)\<lparr>acceleration_active := False, min_frequency := 0\<rparr>\<rparr>"

definition disable_drv :: "polarizer \<Rightarrow> polarizer" where
  "disable_drv s = s\<lparr>idle_current_scale_down_time_ms := 0\<rparr>"

definition enable_encoder :: "wheel_env \<Rightarrow> polarizer \<Rightarrow> polarizer" where
  "enable_encoder e s =
    (if enc_power_ret (wret e s) \<noteq> 0 then s
     else let s1 = s\<lparr>whw := (whw s)\<lparr>encoder_power := True\<rparr>\<rparr> in
       if enc_int_ret (wret e s) \<noteq> 0 then s1
       else s1\<lparr>whw := (whw s1)\<lparr>encoder_interrupt := INT_EDGE_RISING\<rparr>,
               positioning := (positioning s1)\<lparr>encoder_enabled := True\<rparr>\<rparr>)"

definition disable_encoder :: "wheel_env \<Rightarrow> polarizer \<Rightarrow> int \<times> polarizer" where
  "disable_encoder e s =
    (if enc_power_ret (wret e s) \<noteq> 0 then (enc_power_ret (wret e s), s)
     else let s1 = s\<lparr>whw := (whw s)\<lparr>encoder_power := False\<rparr>\<rparr> in
       if enc_int_ret (wret e s) \<noteq> 0 then (enc_int_ret (wret e s), s1)
       else (0, s1\<lparr>whw := (whw s1)\<lparr>encoder_interrupt := INT_DISABLE\<rparr>,
               positioning := (positioning s1)\<lparr>encoder_enabled := False\<rparr>\<rparr>))"

definition set_direction :: "wheel_env \<Rightarrow> wheel_direction \<Rightarrow> polarizer \<Rightarrow> polarizer" where
  "set_direction e d s = (if dir_ret (wret e s) = 0 then s\<lparr>direction := d\<rparr> else s)"

definition polarizer_rotate :: "wheel_env \<Rightarrow> nat \<Rightarrow> polarizer \<Rightarrow> int \<times> polarizer" where
  "polarizer_rotate e f s =
    (let s1 = s\<lparr>idle_current_scale_down_time_ms := 0\<rparr> in
     if drv_scale_ret (wret e s) \<noteq> 0 then (drv_scale_ret (wret e s), s1)
     else polarizer_set_frequency e f (s1\<lparr>whw := (whw s1)\<lparr>step_interrupt := True\<rparr>\<rparr>))"

definition report_reached_state :: "wheel_env \<Rightarrow> polarizer \<Rightarrow> polarizer" where
  "report_reached_state e s =
    (let p = positioning s; c = calibration s in
     s\<lparr>reports := reports s @
       [\<lparr>rep_previous = previous_position p, rep_current = target_position p, rep_step_loss = step_diff_microsteps p,
         rep_transition_ms = nat ((int (wnow e s) - int (start_time_ms p)) mod 2 ^ 32),
         rep_acceleration = linear_acceleration s, rep_max_speed = max_speed s,
         rep_calibration = (if calibration_complete c
           then Some (bump_width_pass_through c, bump_width_vertical c, bump_width_horizontal c) else None)\<rparr>]\<rparr>)"

definition angle_to_position :: "nat \<Rightarrow> wheel_position" where
  "angle_to_position angle =
    (if angle = 0 then POS_PASS_THROUGH else if angle = 1200 then POS_VERTICAL else if angle = 2400 then POS_HORIZONTAL else POS_UNKNOWN)"

definition get_current_position :: "polarizer \<Rightarrow> wheel_position" where
  "get_current_position s =
    (let angle = nat (current s mod 2 ^ 32) * 3600 mod 2 ^ 32 div MICROSTEPS_360; tolerance = MICROSTEPS_PER_STEP div 7
     in if angle \<le> tolerance \<or> 3600 - tolerance \<le> angle then POS_PASS_THROUGH
        else if 1200 - tolerance \<le> angle \<and> angle \<le> 1200 + tolerance then POS_VERTICAL
        else if 2400 - tolerance \<le> angle \<and> angle \<le> 2400 + tolerance then POS_HORIZONTAL
        else POS_UNKNOWN)"

definition get_edge_to_center_for_position :: "int \<Rightarrow> polarizer \<Rightarrow> nat" where
  "get_edge_to_center_for_position target_step s =
    (let c = calibration s; tolerance = int MICROSTEPS_PER_STEP in
     if \<not> calibration_complete c then NOTCH_EDGE_TO_CENTER
     else if \<bar>target_step\<bar> < tolerance \<or> \<bar>target_step - int MICROSTEPS_360\<bar> < tolerance then bump_width_pass_through c div 2
     else if \<bar>target_step - int MICROSTEPS_120\<bar> < tolerance then bump_width_vertical c div 2
     else if \<bar>target_step - int MICROSTEPS_120 * 2\<bar> < tolerance then bump_width_horizontal c div 2
     else NOTCH_EDGE_TO_CENTER)"

definition calculate_notch_edge :: "int \<Rightarrow> wheel_direction \<Rightarrow> polarizer \<Rightarrow> int" where
  "calculate_notch_edge target_step d s =
    (let edge_to_center = int (get_edge_to_center_for_position target_step s) in
     if d = FORWARD
     then let edge = target_step - edge_to_center in if edge < 0 then edge + int MICROSTEPS_360 else edge
     else let edge = target_step + edge_to_center in if int MICROSTEPS_360 \<le> edge then edge - int MICROSTEPS_360 else edge)"

subsection \<open>Interrupts\<close>

definition encoder_callback :: "bool \<Rightarrow> polarizer \<Rightarrow> polarizer" where
  "encoder_callback level s =
    (if wstate s = STATE_CALIBRATING \<or> level then s\<lparr>whw := (whw s)\<lparr>encoder_sem := True\<rparr>\<rparr> else s)"

definition polarizer_wheel_step_isr :: "polarizer \<Rightarrow> polarizer" where
  "polarizer_wheel_step_isr s =
    (let c = (if direction s = BACKWARD then current s - 1 else current s + 1);
         c' = (if int MICROSTEPS_360 \<le> c then 0 else c);
         c'' = (if c' < 0 then int MICROSTEPS_360 - 1 else c')
     in s\<lparr>current := c'', whw := (whw s)\<lparr>step_sem := True\<rparr>\<rparr>)"

subsection \<open>Events of a movement\<close>

text \<open>The target is reached: the motor is stopped, and the wheel is idle or, when no bump was seen, homed again.\<close>

definition target_reached :: "wheel_env \<Rightarrow> polarizer \<Rightarrow> polarizer" where
  "target_reached e s =
    (if wstate s = STATE_POSITIONING_WITH_ENCODER \<and> \<not> encoder_triggered (positioning s)
     then let s1 = polarizer_halt e s in s1\<lparr>pending_cmd := CMD_HOME, whw := (whw s1)\<lparr>cmd_sem := True\<rparr>\<rparr>
     else
      let s1 = polarizer_halt e s;
          is_standard_position = (target_position (positioning s1) \<noteq> POS_UNKNOWN);
          encoder_ok = (wstate s1 \<noteq> STATE_POSITIONING_WITH_ENCODER \<or> encoder_triggered (positioning s1));
          s2 = (if is_standard_position \<and> encoder_ok then report_reached_state e s1 else s1);
          s3 = (if encoder_enabled (positioning s2) then snd (disable_encoder e s2) else s2)
      in s3\<lparr>wstate := STATE_IDLE, idle_current_scale_down_time_ms := (wnow e s + POLARIZER_IDLE_CURRENT_DELAY_MS) mod 2 ^ 32\<rparr>)"

definition process_step_event :: "wheel_env \<Rightarrow> polarizer \<Rightarrow> polarizer" where
  "process_step_event e s =
    (if target s = current s then target_reached e s
     else if acceleration_active (acceleration s)
     then
      let distance_traveled = nat \<bar>circular_signed_distance (start_pos (acceleration s)) (current s)\<bar>;
          ramp_step = calculate_ramp_step distance_traveled (total_distance (acceleration s));
          new_freq = calculate_linear_ramp_frequency ramp_step (min_frequency (acceleration s)) (get_max_frequency s) s
      in snd (polarizer_set_frequency e new_freq s)
     else s)"

definition process_encoder_event_positioning :: "polarizer \<Rightarrow> polarizer" where
  "process_encoder_event_positioning s =
    (if encoder_triggered (positioning s) then s
     else
      let edge = target_notch_edge (positioning s);
          step_diff = circular_signed_distance edge (current s);
          step_loss = (if direction s = FORWARD then - step_diff else step_diff)
      in s\<lparr>positioning := (positioning s)\<lparr>encoder_triggered := True, step_diff_microsteps := nat \<bar>step_loss\<bar>\<rparr>, current := edge\<rparr>)"

definition polarizer_wheel_step_relative :: "wheel_env \<Rightarrow> nat \<Rightarrow> int \<Rightarrow> polarizer \<Rightarrow> int \<times> polarizer" where
  "polarizer_wheel_step_relative e f step_count s =
    (if f = 0 \<or> step_count = 0 \<or> int MICROSTEPS_360 < \<bar>step_count\<bar> then (rc RET_ERROR_INVALID_PARAM, s)
     else if step_count < 0
     then let s1 = set_direction e BACKWARD s; t = current s1 + step_count
       in polarizer_rotate e f (s1\<lparr>target := if t < 0 then t + int MICROSTEPS_360 else t\<rparr>)
     else let s1 = set_direction e FORWARD s
       in polarizer_rotate e f (s1\<lparr>target := (current s1 + step_count) mod int MICROSTEPS_360\<rparr>))"

subsection \<open>Homing\<close>

definition reset_encoder_sem :: "polarizer \<Rightarrow> polarizer" where
  "reset_encoder_sem s = s\<lparr>whw := (whw s)\<lparr>encoder_sem := False\<rparr>\<rparr>"

text \<open>A wait for the encoder: the steps made meanwhile are counted by the interrupt.\<close>

definition wait_encoder :: "wheel_env \<Rightarrow> polarizer \<Rightarrow> bool \<times> polarizer" where
  "wait_encoder e s =
    (let (edge_seen, n) = edge_waits e (waits s); s1 = (polarizer_wheel_step_isr ^^ n) s
     in (edge_seen, s1\<lparr>whw := (whw s1)\<lparr>encoder_sem := False\<rparr>, waits := waits s1 + 1\<rparr>))"

definition POLARIZER_HOMING_FAIL :: "wheel_env \<Rightarrow> polarizer \<Rightarrow> polarizer" where
  "POLARIZER_HOMING_FAIL e s =
     disable_drv (snd (disable_encoder e (polarizer_halt e (s\<lparr>homing_success := False, wstate := STATE_UNINITIALIZED\<rparr>))))"

datatype spin_result = Spin_failed | Spin_edge | Spin_none

function homing_spin :: "wheel_env \<Rightarrow> nat \<Rightarrow> polarizer \<Rightarrow> spin_result \<times> polarizer" where
  "homing_spin e spin_attempt s =
    (if spin_attempt < HOMING_SPIN_ATTEMPTS
     then
      let s1 = reset_encoder_sem (s\<lparr>current := 0\<rparr>);
          (ret, s2) = polarizer_wheel_step_relative e PWM_FREQUENCY_DEFAULT (int MICROSTEPS_120 * 2) s1
      in if ret \<noteq> 0 then (Spin_failed, POLARIZER_HOMING_FAIL e s2)
         else
          let (edge_seen, s3) = wait_encoder e s2
          in if edge_seen then (Spin_edge, polarizer_halt e s3) else homing_spin e (spin_attempt + 1) s3
     else (Spin_none, s))"
  by pat_completeness auto
termination by (relation "measure (\<lambda>(e, a, s). HOMING_SPIN_ATTEMPTS - a)") auto

declare homing_spin.simps [simp del]

text \<open>
  The search for two bumps that are close to each other. \<open>None\<close>: homing has failed and the function has returned.
\<close>

function homing_notches :: "wheel_env \<Rightarrow> nat \<Rightarrow> polarizer \<Rightarrow> bool option \<times> polarizer" where
  "homing_notches e n s =
    (if n < NOTCH_DETECT_ATTEMPTS
     then
      (case homing_spin e 0 s of
         (Spin_failed, s1) \<Rightarrow> (None, s1)
       | (Spin_none, s1) \<Rightarrow> (None, POLARIZER_HOMING_FAIL e s1)
       | (Spin_edge, s1) \<Rightarrow>
          let notch_0_detected = (n \<noteq> 0 \<and> current s1 < 4 * int MICROSTEPS_PER_STEP \<and> 5 * int MICROSTEPS_PER_STEP div 2 < current s1);
              s2 = s1\<lparr>notch_count := n + 1, current := 0\<rparr>
          in if notch_0_detected then (Some True, s2) else homing_notches e (n + 1) s2)
     else (Some False, s))"
  by pat_completeness auto
termination by (relation "measure (\<lambda>(e, n, s). NOTCH_DETECT_ATTEMPTS - n)") auto

declare homing_notches.simps [simp del]

definition homing_start :: "wheel_env \<Rightarrow> polarizer \<Rightarrow> polarizer" where
  "homing_start e s =
    (let s1 = s\<lparr>wstate := STATE_HOMING,
           acceleration := (acceleration s)\<lparr>acceleration_active := False\<rparr>,
           positioning := (positioning s)\<lparr>previous_position := POS_UNKNOWN, target_position := POS_PASS_THROUGH,
             step_diff_microsteps := 0, start_time_ms := wnow e s\<rparr>\<rparr>
     in set_direction e FORWARD ((enable_encoder e s1)\<lparr>notch_count := 0\<rparr>))"

text \<open>
  From the close pair to the pass-through position. The wait for the last steps, at most a second, is one
  input; the counter is cleared after it.
\<close>

definition homing_finish :: "wheel_env \<Rightarrow> polarizer \<Rightarrow> polarizer" where
  "homing_finish e s =
    (let (ret, s1) = polarizer_wheel_step_relative e PWM_FREQUENCY_DEFAULT (int NOTCH_EDGE_TO_CENTER + int MICROSTEPS_120) (reset_encoder_sem s);
         (edge_seen, s2) = wait_encoder e s1;
         s3 = (if edge_seen
               then snd (wait_encoder e (s2\<lparr>current := int MICROSTEPS_120, target := int MICROSTEPS_120 + int NOTCH_EDGE_TO_CENTER\<rparr>))
               else s2);
         s4 = polarizer_halt e (snd (disable_encoder e s3))
     in report_reached_state e (s4\<lparr>wstate := STATE_IDLE, homing_success := True, current := 0\<rparr>))"

text \<open>Homing without the calibration that may follow; the flag tells whether the wheel is homed.\<close>

definition homing_run :: "wheel_env \<Rightarrow> polarizer \<Rightarrow> bool \<times> polarizer" where
  "homing_run e s =
    (case homing_notches e 0 (homing_start e s) of
       (None, s1) \<Rightarrow> (False, s1)
     | (Some notch_0_detected, s1) \<Rightarrow>
         if notch_0_detected then (True, homing_finish e s1) else (False, POLARIZER_HOMING_FAIL e s1))"

subsection \<open>Calibration\<close>

definition store_bump_width :: "nat \<Rightarrow> wheel_calibration \<Rightarrow> wheel_calibration" where
  "store_bump_width w c =
    (let i = bump_index c mod 4 in
     if i = 0 then (if bump_width_vertical c = 0 then c\<lparr>bump_width_vertical := w\<rparr> else c)
     else if i = 2 then (if bump_width_horizontal c = 0 then c\<lparr>bump_width_horizontal := w\<rparr> else c)
     else if i = 3 then (if bump_width_pass_through c = 0 then c\<lparr>bump_width_pass_through := w\<rparr> else c)
     else c)"

definition calibration_edge :: "bool \<Rightarrow> polarizer \<Rightarrow> bool \<times> polarizer" where
  "calibration_edge is_high s =
    (let c = calibration s in
     if is_high then (False, s\<lparr>calibration := c\<lparr>bump_entry_position := nat (current s mod 2 ^ 32), inside_bump := True\<rparr>\<rparr>)
     else if inside_bump c
     then
      let width = current s - int (bump_entry_position c);
          bump_width = nat (if width < 0 then width + int MICROSTEPS_360 else width);
          c1 = (store_bump_width bump_width c)\<lparr>bump_index := (bump_index c + 1) mod 256, inside_bump := False\<rparr>
      in (MICROSTEPS_PER_STEP < bump_width_pass_through c1 \<and> MICROSTEPS_PER_STEP < bump_width_vertical c1 \<and>
            MICROSTEPS_PER_STEP < bump_width_horizontal c1, s\<lparr>calibration := c1\<rparr>)
     else (False, s))"

fun calibration_spin :: "(bool \<times> bool \<times> nat) list \<Rightarrow> polarizer \<Rightarrow> bool \<times> polarizer" where
  "calibration_spin [] s = (False, s)"
| "calibration_spin ((edge_seen, is_high, n) # evs) s =
    (let s1 = (polarizer_wheel_step_isr ^^ n) s;
         (all_measured, s2) = (if edge_seen then calibration_edge is_high (s1\<lparr>whw := (whw s1)\<lparr>encoder_sem := False\<rparr>\<rparr>) else (False, s1))
     in if all_measured then (True, s2)
        else if current s2 = target s2 then (False, s2)
        else calibration_spin evs s2)"

text \<open>The two spins; \<open>None\<close>: the motor could not be started and the function has returned.\<close>

definition calibration_one_spin :: "wheel_env \<Rightarrow> polarizer \<Rightarrow> bool option \<times> polarizer" where
  "calibration_one_spin e s =
    (let (ret, s1) = polarizer_wheel_step_relative e PWM_FREQUENCY_DEFAULT (int (MICROSTEPS_360 * 3 div 4)) (reset_encoder_sem s)
     in if ret \<noteq> 0
        then (None, s1\<lparr>whw := (whw s1)\<lparr>encoder_interrupt := if enc_int_ret (wret e s1) = 0 then INT_DISABLE else encoder_interrupt (whw s1)\<rparr>,
                      wstate := STATE_IDLE\<rparr>)
        else
          let (all_measured, s2) = calibration_spin (spin_events e (waits s1)) s1
          in (Some all_measured, polarizer_halt e (s2\<lparr>waits := waits s2 + 1\<rparr>)))"

definition calibration_start :: "polarizer \<Rightarrow> polarizer" where
  "calibration_start s =
     s\<lparr>wstate := STATE_CALIBRATING, acceleration := (acceleration s)\<lparr>acceleration_active := False\<rparr>,
       calibration := (calibration s)\<lparr>bump_width_pass_through := 0, bump_width_vertical := 0, bump_width_horizontal := 0,
         bump_index := 0, bump_entry_position := 0, inside_bump := False, calibration_complete := False\<rparr>\<rparr>"

definition calibration_end :: "wheel_env \<Rightarrow> polarizer \<Rightarrow> polarizer" where
  "calibration_end e s =
    (let s1 = polarizer_halt e s;
         s2 = s1\<lparr>whw := (whw s1)\<lparr>encoder_interrupt := if enc_int_ret (wret e s1) = 0 then INT_DISABLE else encoder_interrupt (whw s1)\<rparr>\<rparr>;
         c = calibration s2
     in s2\<lparr>calibration := c\<lparr>calibration_complete := calibration_complete c \<or>
             0 < bump_width_pass_through c \<and> 0 < bump_width_vertical c \<and> 0 < bump_width_horizontal c,
           needs_calibration := False\<rparr>,
         wstate := STATE_IDLE, homing_success := False\<rparr>)"

text \<open>Calibration without the homing at its end; the flag tells whether that is reached.\<close>

definition calibration_run :: "wheel_env \<Rightarrow> polarizer \<Rightarrow> bool \<times> polarizer" where
  "calibration_run e s =
    (if wstate s \<noteq> STATE_IDLE \<or> \<not> homing_success s \<or> get_current_position s \<noteq> POS_PASS_THROUGH then (False, s)
     else
      let s1 = calibration_start s in
      if enc_power_ret (wret e s1) \<noteq> 0 then (False, s1\<lparr>wstate := STATE_IDLE\<rparr>)
      else
       let s2 = s1\<lparr>whw := (whw s1)\<lparr>encoder_power := True\<rparr>\<rparr> in
       if enc_int_ret (wret e s2) \<noteq> 0 then (False, s2\<lparr>wstate := STATE_IDLE\<rparr>)
       else
        let s3 = set_direction e FORWARD (reset_encoder_sem (s2\<lparr>whw := (whw s2)\<lparr>encoder_interrupt := INT_EDGE_BOTH\<rparr>\<rparr>))
        in case calibration_one_spin e s3 of
             (None, s4) \<Rightarrow> (False, s4)
           | (Some True, s4) \<Rightarrow> (True, calibration_end e s4)
           | (Some False, s4) \<Rightarrow>
               (case calibration_one_spin e s4 of
                  (None, s5) \<Rightarrow> (False, s5)
                | (Some _, s5) \<Rightarrow> (True, calibration_end e s5)))"

text \<open>What homing and its parts leave as it is.\<close>

named_theorems wheel_frame

lemma isr_frame [wheel_frame]:
  "calibration (polarizer_wheel_step_isr s) = calibration s" "wstate (polarizer_wheel_step_isr s) = wstate s"
  "target (polarizer_wheel_step_isr s) = target s" "direction (polarizer_wheel_step_isr s) = direction s"
  "max_speed (polarizer_wheel_step_isr s) = max_speed s" "acceleration (polarizer_wheel_step_isr s) = acceleration s"
  "positioning (polarizer_wheel_step_isr s) = positioning s" "waits (polarizer_wheel_step_isr s) = waits s"
  "step_frequency (whw (polarizer_wheel_step_isr s)) = step_frequency (whw s)"
  "step_interrupt (whw (polarizer_wheel_step_isr s)) = step_interrupt (whw s)"
  by (simp_all add: polarizer_wheel_step_isr_def Let_def)

lemma isrs_frame [wheel_frame]:
  "calibration ((polarizer_wheel_step_isr ^^ n) s) = calibration s" "wstate ((polarizer_wheel_step_isr ^^ n) s) = wstate s"
  "target ((polarizer_wheel_step_isr ^^ n) s) = target s" "direction ((polarizer_wheel_step_isr ^^ n) s) = direction s"
  "max_speed ((polarizer_wheel_step_isr ^^ n) s) = max_speed s" "acceleration ((polarizer_wheel_step_isr ^^ n) s) = acceleration s"
  "positioning ((polarizer_wheel_step_isr ^^ n) s) = positioning s" "waits ((polarizer_wheel_step_isr ^^ n) s) = waits s"
  "step_frequency (whw ((polarizer_wheel_step_isr ^^ n) s)) = step_frequency (whw s)"
  "step_interrupt (whw ((polarizer_wheel_step_isr ^^ n) s)) = step_interrupt (whw s)"
  by (induction n) (simp_all add: isr_frame)

lemma calibration_motor [wheel_frame]:
  "calibration (snd (polarizer_set_frequency e f s)) = calibration s" "calibration (polarizer_halt e s) = calibration s"
  "calibration (disable_drv s) = calibration s" "calibration (enable_encoder e s) = calibration s"
  "calibration (snd (disable_encoder e s)) = calibration s" "calibration (set_direction e d s) = calibration s"
  "calibration (report_reached_state e s) = calibration s" "calibration (reset_encoder_sem s) = calibration s"
  by (simp_all add: polarizer_set_frequency_def polarizer_halt_def disable_drv_def enable_encoder_def disable_encoder_def
      set_direction_def report_reached_state_def reset_encoder_sem_def Let_def)

lemma calibration_rotate [wheel_frame]: "calibration (snd (polarizer_rotate e f s)) = calibration s"
  by (simp add: polarizer_rotate_def Let_def wheel_frame)

lemma calibration_step_relative [wheel_frame]: "calibration (snd (polarizer_wheel_step_relative e f n s)) = calibration s"
  by (simp add: polarizer_wheel_step_relative_def Let_def wheel_frame)

lemma calibration_wait [wheel_frame]: "calibration (snd (wait_encoder e s)) = calibration s"
  by (simp add: wait_encoder_def Let_def wheel_frame split: prod.split)

lemma calibration_homing_fail [wheel_frame]: "calibration (POLARIZER_HOMING_FAIL e s) = calibration s"
  by (simp add: POLARIZER_HOMING_FAIL_def wheel_frame)

lemma calibration_spin_homing [wheel_frame]: "calibration (snd (homing_spin e a s)) = calibration s"
proof (induction e a s rule: homing_spin.induct)
  case (1 e a s)
  show ?case
  proof (cases "a < HOMING_SPIN_ATTEMPTS")
    case True
    obtain ret s2 where r: "polarizer_wheel_step_relative e PWM_FREQUENCY_DEFAULT (int MICROSTEPS_120 * 2)
        (reset_encoder_sem (s\<lparr>current := 0\<rparr>)) = (ret, s2)" by fastforce
    obtain b s3 where w: "wait_encoder e s2 = (b, s3)" by fastforce
    have c: "calibration s2 = calibration s"
      using calibration_step_relative [of e PWM_FREQUENCY_DEFAULT "int MICROSTEPS_120 * 2" "reset_encoder_sem (s\<lparr>current := 0\<rparr>)"]
      unfolding r by (simp add: wheel_frame)
    moreover have "calibration s3 = calibration s2" using calibration_wait [of e s2] by (simp add: w)
    ultimately show ?thesis using 1 [OF True refl r [symmetric] refl _ w [symmetric] refl] True r w
      by (subst homing_spin.simps) (simp add: wheel_frame)
  qed (simp add: homing_spin.simps)
qed

lemma calibration_notches [wheel_frame]: "calibration (snd (homing_notches e n s)) = calibration s"
proof (induction e n s rule: homing_notches.induct)
  case (1 e n s)
  obtain r s1 where h: "homing_spin e 0 s = (r, s1)" by fastforce
  then have c: "calibration s1 = calibration s" using calibration_spin_homing [of e 0 s] by simp
  show ?case
    using 1 [OF _ h [symmetric]] h c
    by (subst homing_notches.simps) (auto simp: Let_def wheel_frame split: spin_result.split)
qed

lemma calibration_homing [wheel_frame]: "calibration (snd (homing_run e s)) = calibration s"
proof -
  have start: "calibration (homing_start e s) = calibration s"
    by (simp add: homing_start_def Let_def wheel_frame enable_encoder_def set_direction_def)
  have finish: "calibration (homing_finish e s) = calibration s" for s
  proof -
    have "calibration (if b then snd (wait_encoder e (s2\<lparr>current := c, target := t\<rparr>)) else s2) = calibration s2" for b s2 c t
      by (simp add: wheel_frame)
    then show ?thesis
      by (simp add: homing_finish_def Let_def case_prod_beta wheel_frame)
  qed
  obtain r s1 where h: "homing_notches e 0 (homing_start e s) = (r, s1)" by fastforce
  then have "calibration s1 = calibration s" using calibration_notches [of e 0 "homing_start e s"] start by simp
  then show ?thesis by (simp add: homing_run_def h finish wheel_frame split: option.split)
qed

lemma needs_calibration_run: "calibration_run e s = (True, s') \<Longrightarrow> \<not> needs_calibration (calibration s')"
  by (auto simp: calibration_run_def calibration_end_def Let_def split: if_splits prod.splits option.splits bool.splits)

function (sequential) execute_homing :: "wheel_env \<Rightarrow> polarizer \<Rightarrow> polarizer"
  and execute_calibration :: "wheel_env \<Rightarrow> polarizer \<Rightarrow> polarizer" where
  "execute_homing e s =
    (let (homed, s1) = homing_run e s in
     if \<not> homed then s1
     else if needs_calibration (calibration s1)
     then execute_calibration e (s1\<lparr>calibration := (calibration s1)\<lparr>needs_calibration := False\<rparr>\<rparr>)
     else s1\<lparr>idle_current_scale_down_time_ms := (wnow e s1 + POLARIZER_IDLE_CURRENT_DELAY_MS) mod 2 ^ 32\<rparr>)"
| "execute_calibration e s =
    (let (complete, s1) = calibration_run e s in if complete then execute_homing e s1 else s1)"
  by pat_completeness auto
termination
proof (relation "measure (\<lambda>x. case x of Inl (e, s) \<Rightarrow> if needs_calibration (calibration s) then 3 else 1 | Inr _ \<Rightarrow> 2)", goal_cases)
  case (2 e s r homed s1)
  have "calibration s1 = calibration s" using calibration_homing [of e s] 2 by (metis snd_conv)
  then show ?case using 2 by simp
next
  case (3 e s r complete s1)
  then show ?case using needs_calibration_run [of e s s1] by simp
qed simp

declare execute_homing.simps [simp del] execute_calibration.simps [simp del]

subsection \<open>Positioning\<close>

definition set_angle_target :: "nat \<Rightarrow> int" where
  "set_angle_target angle = int (angle * MICROSTEPS_360 div 3600 mod MICROSTEPS_360)"

text \<open>Direction and signed distance of the movement.\<close>

definition set_angle_course :: "wheel_env \<Rightarrow> bool \<Rightarrow> int \<Rightarrow> polarizer \<Rightarrow> int \<times> polarizer" where
  "set_angle_course e shortest_path target_step s =
    (if shortest_path
     then let d = circular_signed_distance (current s) target_step
       in (d, set_direction e (if 0 < d then FORWARD else BACKWARD) s)
     else let d = target_step - current s
       in (if d \<le> 0 then d + int MICROSTEPS_360 else d, set_direction e FORWARD s))"

definition execute_set_angle :: "wheel_env \<Rightarrow> nat \<Rightarrow> nat \<Rightarrow> bool \<Rightarrow> polarizer \<Rightarrow> int \<times> polarizer" where
  "execute_set_angle e f angle shortest_path s =
    (if wstate s = STATE_UNINITIALIZED then (rc RET_ERROR_NOT_INITIALIZED, s)
     else if wstate s \<noteq> STATE_IDLE then (rc RET_ERROR_BUSY, s)
     else
      let target_step = set_angle_target angle;
          s1 = s\<lparr>positioning := (positioning s)\<lparr>previous_position := get_current_position s, target_position := angle_to_position angle,
                   step_diff_microsteps := 0, start_time_ms := wnow e s\<rparr>\<rparr>;
          p = positioning s1
      in if previous_position p = target_position p \<and> previous_position p \<noteq> POS_UNKNOWN
         then (rc RET_SUCCESS, report_reached_state e s1)
         else
          let (signed_dist, s2) = set_angle_course e shortest_path target_step s1;
              use_encoder = (target_position p \<noteq> POS_UNKNOWN \<and> f \<noteq> 0);
              s3 = (if use_encoder
                    then enable_encoder e (s2\<lparr>positioning := (positioning s2)\<lparr>
                           target_notch_edge := calculate_notch_edge target_step (direction s2) s2,
                           encoder_enabled := False, encoder_triggered := False\<rparr>\<rparr>)
                    else s2);
              (f', s4) =
                (if f = 0
                 then (PWM_FREQUENCY_ACCEL_MIN_SPEED,
                       s3\<lparr>acceleration := \<lparr>min_frequency = PWM_FREQUENCY_ACCEL_MIN_SPEED, acceleration_active = True,
                             start_pos = current s3, total_distance = nat \<bar>signed_dist\<bar>\<rparr>\<rparr>)
                 else (f, s3\<lparr>acceleration := (acceleration s3)\<lparr>acceleration_active := False, min_frequency := f\<rparr>\<rparr>));
              (ret, s5) = polarizer_rotate e f' (s4\<lparr>target := target_step\<rparr>)
          in (ret, s5\<lparr>wstate := if ret = 0 then (if use_encoder then STATE_POSITIONING_WITH_ENCODER else STATE_POSITIONING)
                              else STATE_IDLE\<rparr>))"

subsection \<open>The thread\<close>

definition run_pending_cmd :: "wheel_env \<Rightarrow> polarizer \<Rightarrow> polarizer" where
  "run_pending_cmd e s =
    (let s1 = s\<lparr>pending_cmd := CMD_NONE\<rparr>; a = pending_set_angle s in
     case pending_cmd s of
       CMD_HOME \<Rightarrow> execute_homing e s1
     | CMD_SET_ANGLE \<Rightarrow> snd (execute_set_angle e (sa_frequency a) (sa_angle_decidegrees a) (sa_shortest_path a) s1)
     | CMD_CALIBRATE \<Rightarrow> execute_calibration e s1
     | CMD_NONE \<Rightarrow> s1)"

definition step_available :: "wheel_env \<Rightarrow> polarizer \<Rightarrow> polarizer" where
  "step_available e s =
    (let t = s\<lparr>whw := (whw s)\<lparr>step_sem := False\<rparr>\<rparr>
     in if wstate t = STATE_POSITIONING_WITH_ENCODER \<or> wstate t = STATE_POSITIONING \<or> wstate t = STATE_HOMING
        then process_step_event e t else t)"

definition encoder_available :: "polarizer \<Rightarrow> polarizer" where
  "encoder_available s =
    (let t = s\<lparr>whw := (whw s)\<lparr>encoder_sem := False\<rparr>\<rparr>
     in if wstate t = STATE_POSITIONING_WITH_ENCODER then process_encoder_event_positioning t else t)"

definition idle_timeout :: "wheel_env \<Rightarrow> polarizer \<Rightarrow> polarizer" where
  "idle_timeout e s =
    (if idle_current_scale_down_time_ms s \<noteq> 0 \<and> idle_current_scale_down_time_ms s \<le> wnow e s
     then s\<lparr>idle_current_scale_down_time_ms := 0\<rparr> else s)"

text \<open>One turn; which semaphores are available is found out at its beginning.\<close>

definition polarizer_wheel_thread :: "wheel_env \<Rightarrow> polarizer \<Rightarrow> polarizer" where
  "polarizer_wheel_thread e s =
    (let s1 = (if step_sem (whw s) then step_available e s else s);
         s2 = (if encoder_sem (whw s) then encoder_available s1 else s1);
         s3 = (if cmd_sem (whw s) then run_pending_cmd e (s2\<lparr>whw := (whw s2)\<lparr>cmd_sem := False\<rparr>\<rparr>) else s2)
     in idle_timeout e s3)"

subsection \<open>Calls\<close>

text \<open>\<open>locked\<close>: whether the mutex of the commands was free.\<close>

definition polarizer_wheel_set_angle :: "bool \<Rightarrow> nat \<Rightarrow> nat \<Rightarrow> bool \<Rightarrow> polarizer \<Rightarrow> ret_code_t \<times> polarizer" where
  "polarizer_wheel_set_angle locked f angle shortest_path s =
    (if 3600 < angle \<or> get_max_frequency s < f \<or> (f \<noteq> 0 \<and> f < PWM_FREQUENCY_MINIMUM) then (RET_ERROR_INVALID_PARAM, s)
     else if \<not> locked then (RET_ERROR_BUSY, s)
     else if wstate s = STATE_UNINITIALIZED then (RET_ERROR_NOT_INITIALIZED, s)
     else if wstate s \<noteq> STATE_IDLE then (RET_ERROR_BUSY, s)
     else (RET_SUCCESS, s\<lparr>pending_cmd := CMD_SET_ANGLE,
             pending_set_angle := \<lparr>sa_frequency = f, sa_angle_decidegrees = angle, sa_shortest_path = shortest_path\<rparr>,
             whw := (whw s)\<lparr>cmd_sem := True\<rparr>\<rparr>))"

definition polarizer_wheel_home_async :: "bool \<Rightarrow> polarizer \<Rightarrow> ret_code_t \<times> polarizer" where
  "polarizer_wheel_home_async locked s =
    (if \<not> locked then (RET_ERROR_BUSY, s)
     else if wstate s \<noteq> STATE_IDLE \<and> wstate s \<noteq> STATE_UNINITIALIZED then (RET_ERROR_BUSY, s)
     else (RET_SUCCESS, s\<lparr>pending_cmd := CMD_HOME, homing_success := False, whw := (whw s)\<lparr>cmd_sem := True\<rparr>\<rparr>))"

definition polarizer_wheel_calibrate_async :: "bool \<Rightarrow> polarizer \<Rightarrow> ret_code_t \<times> polarizer" where
  "polarizer_wheel_calibrate_async locked s =
    (if \<not> locked then (RET_ERROR_BUSY, s)
     else if wstate s = STATE_UNINITIALIZED \<or> \<not> homing_success s then (RET_ERROR_NOT_INITIALIZED, s)
     else if wstate s \<noteq> STATE_IDLE then (RET_ERROR_BUSY, s)
     else if get_current_position s \<noteq> POS_PASS_THROUGH then (RET_ERROR_INVALID_STATE, s)
     else (RET_SUCCESS, s\<lparr>pending_cmd := CMD_CALIBRATE, whw := (whw s)\<lparr>cmd_sem := True\<rparr>\<rparr>))"

definition polarizer_wheel_get_bump_widths :: "polarizer \<Rightarrow> ret_code_t \<times> (nat \<times> nat \<times> nat \<times> bool)" where
  "polarizer_wheel_get_bump_widths s =
    (let c = calibration s in
     if \<not> calibration_complete c then (RET_ERROR_NOT_INITIALIZED, (0, 0, 0, False))
     else (RET_SUCCESS, (bump_width_pass_through c, bump_width_vertical c, bump_width_horizontal c, True)))"

subsection \<open>Initialisation\<close>

text \<open>
  What the initialisation meets: whether the devices are ready, what the configurations of pins return, in order, and the
  four calls to the motor driver of each attempt to configure it.
\<close>

record wheel_init =
  hw_version_known :: bool
  wheel_devices_ready :: bool
  gpio_rets :: "int list"
  drv_init_ret :: int
  drv_config_rets :: "nat \<Rightarrow> int \<times> int \<times> int \<times> int"

definition drv_config_attempt :: "int \<times> int \<times> int \<times> int \<Rightarrow> int" where
  "drv_config_attempt r =
    (let (clear, write, read, verify) = r in
     if clear \<noteq> 0 then clear else if write \<noteq> 0 then write else if read \<noteq> 0 then read else verify)"

fun drv_config_loop :: "(nat \<Rightarrow> int \<times> int \<times> int \<times> int) \<Rightarrow> nat \<Rightarrow> nat \<Rightarrow> int" where
  "drv_config_loop r 0 k = drv_config_attempt (r k)"
| "drv_config_loop r (Suc timeout) k =
    (let ret = drv_config_attempt (r k) in if ret \<noteq> 0 then drv_config_loop r timeout (k + 1) else ret)"

text \<open>The instance after \<^verbatim>\<open>memset\<close>, with the default settings.\<close>

definition wheel_zero :: polarizer where
  "wheel_zero = \<lparr>wstate = STATE_UNINITIALIZED, idle_current_scale_down_time_ms = 0, notch_count = 0, homing_success = False,
     calibration = \<lparr>bump_width_pass_through = 0, bump_width_vertical = 0, bump_width_horizontal = 0, bump_index = 0,
       bump_entry_position = 0, inside_bump = False, calibration_complete = False, needs_calibration = False\<rparr>,
     current = 0, target = 0, direction = NO_DIRECTION,
     positioning = \<lparr>target_notch_edge = 0, encoder_enabled = False, encoder_triggered = False, start_time_ms = 0,
       previous_position = POS_UNKNOWN, target_position = POS_UNKNOWN, step_diff_microsteps = 0\<rparr>,
     acceleration = \<lparr>min_frequency = 0, acceleration_active = False, start_pos = 0, total_distance = 0\<rparr>,
     pending_cmd = CMD_NONE, pending_set_angle = \<lparr>sa_frequency = 0, sa_angle_decidegrees = 0, sa_shortest_path = False\<rparr>,
     linear_acceleration = LINEAR_ACCELERATION_DEFAULT, max_speed = MAX_SPEED_DEFAULT_MS_PER_TURN,
     whw = \<lparr>step_frequency = 0, step_interrupt = False, encoder_power = False, encoder_interrupt = INT_DISABLE,
       step_sem = False, encoder_sem = False, cmd_sem = False\<rparr>,
     reports = [], waits = 0\<rparr>"

text \<open>The settings, the pins and the semaphores are not part of the instance that is cleared.\<close>

definition polarizer_wheel_init :: "wheel_env \<Rightarrow> wheel_init \<Rightarrow> bool \<Rightarrow> polarizer \<Rightarrow> int \<times> polarizer" where
  "polarizer_wheel_init e i locked s =
    (if \<not> hw_version_known i then (rc RET_ERROR_INVALID_PARAM, s)
     else
      let s1 = wheel_zero\<lparr>linear_acceleration := linear_acceleration s, max_speed := max_speed s, whw := whw s, reports := reports s, waits := waits s\<rparr>;
          (ret, s2) =
            (if \<not> wheel_devices_ready i then (rc RET_ERROR_INVALID_STATE, s)
             else if list_ex (\<lambda>r. r \<noteq> 0) (gpio_rets i) then (rc RET_ERROR_INTERNAL, s1)
             else
              let (enc_ret, s2) = disable_encoder e s1 in
              if enc_ret \<noteq> 0 \<or> drv_init_ret i \<noteq> 0 then (rc RET_ERROR_INTERNAL, s2)
              else if drv_config_loop (drv_config_rets i) 3 0 \<noteq> 0 then (drv_config_loop (drv_config_rets i) 3 0, s2)
              else if drv_enable_ret (wret e s2) \<noteq> 0 then (drv_enable_ret (wret e s2), s2)
              else
                let (r, s3) = polarizer_wheel_home_async locked (s2\<lparr>calibration := (calibration s2)\<lparr>needs_calibration := True\<rparr>\<rparr>)
                in (rc r, s3))
      in (ret, if ret \<noteq> 0 then s2\<lparr>wstate := STATE_UNINITIALIZED\<rparr> else s2))"

subsection \<open>The ramp\<close>

lemma newton_next:
  fixes x n :: nat
  assumes "0 < x"
  shows "n < ((x + n div x) div 2 + 1) * ((x + n div x) div 2 + 1)"
proof -
  let ?q = "n div x" and ?y = "(x + n div x) div 2"
  have "n < x * (?q + 1)" using assms dividend_less_times_div [of x n] by simp
  then have "4 * n < 4 * (x * (?q + 1))" by linarith
  also have "\<dots> \<le> (x + (?q + 1)) * (x + (?q + 1))"
  proof -
    have "int (4 * (x * (?q + 1))) \<le> int ((x + (?q + 1)) * (x + (?q + 1)))"
      using zero_le_square [of "int x - int (?q + 1)"] by (simp add: algebra_simps)
    then show ?thesis by (simp only: of_nat_le_iff)
  qed
  also have "\<dots> \<le> (2 * (?y + 1)) * (2 * (?y + 1))"
  proof -
    have "z + 1 \<le> 2 * (z div 2 + 1)" for z :: nat by presburger
    from this [of "x + ?q"] show ?thesis by (intro mult_le_mono) (simp_all add: add.assoc)
  qed
  finally show ?thesis by simp
qed

lemma newton_sqrt_bounds:
  assumes "n < 2 ^ 63" and "0 < x" and "x \<le> n" and "n < (x + 1) * (x + 1)" and "y = (x + n div x) div 2"
  shows "newton_sqrt n x y * newton_sqrt n x y \<le> n \<and> n < (newton_sqrt n x y + 1) * (newton_sqrt n x y + 1)"
  using assms
proof (induction n x y rule: newton_sqrt.induct)
  case (1 n x y)
  show ?case
  proof (cases "y < x")
    case True
    have "1 \<le> n div x" using "1.prems" by (simp add: Suc_leI div_greater_zero_iff)
    then have y: "0 < y" "y \<le> n" using "1.prems" True by linarith+
    have "y + n div y \<le> n + n" using y(2) by (intro add_mono) simp_all
    also have "\<dots> < 2 ^ 64" using "1.prems"(1) by simp
    finally have "y + n div y < 2 ^ 64" .
    then have m: "(y + n div y) mod 2 ^ 64 = y + n div y" by (rule mod_less)
    have r: "newton_sqrt n x y = newton_sqrt n y ((y + n div y) mod 2 ^ 64 div 2)"
      using True by (simp add: newton_sqrt.simps [of n x y])
    show ?thesis unfolding r
    proof (rule "1.IH")
      show "n < (y + 1) * (y + 1)" using newton_next [OF "1.prems"(2), of n] "1.prems"(5) by simp
    qed (use True y "1.prems" m in auto)
  next
    case False
    then have "x * x \<le> x * (n div x)" using "1.prems"(5) by (intro mult_le_mono) linarith+
    also have "\<dots> \<le> n" by simp
    finally show ?thesis using False "1.prems"(4) by (simp add: newton_sqrt.simps [of n x y])
  qed
qed

lemma ramp_frequency_sqrt:
  assumes "min_freq < 2 ^ 31" and "ramp_step < 2 ^ 29"
  shows "\<exists>r. r * r \<le> min_freq * min_freq + 2 * get_linear_acceleration_usteps_per_s2 s * ramp_step \<and>
    min_freq * min_freq + 2 * get_linear_acceleration_usteps_per_s2 s * ramp_step < (r + 1) * (r + 1) \<and>
    calculate_linear_ramp_frequency ramp_step min_freq max_freq s = min r max_freq"
proof -
  let ?a = "get_linear_acceleration_usteps_per_s2 s" and ?m = "min_freq * min_freq"
  let ?n = "?m + 2 * ?a * ramp_step"
  have "?m < 2 ^ 31 * 2 ^ 31" using assms(1) by (intro mult_strict_mono) auto
  moreover have "?a * ramp_step < 2 ^ 32 * 2 ^ 29"
    using assms(2) by (intro mult_strict_mono) (auto simp: get_linear_acceleration_usteps_per_s2_def)
  ultimately have b: "?m < 4611686018427387904" "?a * ramp_step < 2305843009213693952" by simp_all
  then have "?n < 9223372036854775808" "2 * ?a * ramp_step < 18446744073709551616" unfolding mult.assoc by linarith+
  then have n: "?n < 2 ^ 63" and m: "?m < 2 ^ 64" and a: "2 * ?a * ramp_step < 2 ^ 64" using b(1) by simp_all
  let ?r = "newton_sqrt ?n ?n ((?n + 1) div 2)"
  have "calculate_linear_ramp_frequency ramp_step min_freq max_freq s = min ?r max_freq"
    using n m a by (simp add: calculate_linear_ramp_frequency_def Let_def)
  moreover have "?r * ?r \<le> ?n \<and> ?n < (?r + 1) * (?r + 1)"
  proof (cases "?n = 0")
    case True
    then show ?thesis unfolding True by (simp add: newton_sqrt.simps)
  next
    case False
    show ?thesis by (rule newton_sqrt_bounds [OF n]) (use False in simp_all)
  qed
  ultimately show ?thesis by blast
qed

text \<open>Hence a ramp stays between its minimum and the maximum.\<close>

lemma ramp_frequency_range:
  assumes "min_freq < 2 ^ 31" and "ramp_step < 2 ^ 29" and "min_freq \<le> max_freq"
  shows "min_freq \<le> calculate_linear_ramp_frequency ramp_step min_freq max_freq s \<and>
    calculate_linear_ramp_frequency ramp_step min_freq max_freq s \<le> max_freq"
proof -
  let ?n = "min_freq * min_freq + 2 * get_linear_acceleration_usteps_per_s2 s * ramp_step"
  obtain r where r: "?n < (r + 1) * (r + 1)" "calculate_linear_ramp_frequency ramp_step min_freq max_freq s = min r max_freq"
    using ramp_frequency_sqrt [OF assms(1,2), of s max_freq] by blast
  have "min_freq * min_freq < (r + 1) * (r + 1)" using r(1) by linarith
  then have "min_freq < r + 1" by (meson mult_le_mono not_le)
  then show ?thesis using r(2) assms(3) by simp
qed

text \<open>
  C26. The speed of the ramp is the integer square root of the kinematic equation, capped at the maximum: Newton's method
  on 64-bit numbers ends with it for every setting of the acceleration and every distance on the wheel.
\<close>

theorem ramp_frequency_is_sqrt:
  assumes "min_freq < 2 ^ 31" and "ramp_step < 2 ^ 29"
  shows "\<exists>r. r * r \<le> min_freq * min_freq + 2 * get_linear_acceleration_usteps_per_s2 s * ramp_step \<and>
    min_freq * min_freq + 2 * get_linear_acceleration_usteps_per_s2 s * ramp_step < (r + 1) * (r + 1) \<and>
    calculate_linear_ramp_frequency ramp_step min_freq max_freq s = min r max_freq"
  by (rule ramp_frequency_sqrt [OF assms])

lemma ramp_frequency_is_sqrt_witness:
  "\<forall>s. \<exists>r. r * r \<le> 192 * 192 + 2 * get_linear_acceleration_usteps_per_s2 s * 100 \<and>
    192 * 192 + 2 * get_linear_acceleration_usteps_per_s2 s * 100 < (r + 1) * (r + 1) \<and>
    calculate_linear_ramp_frequency 100 192 1920 s = min r 1920"
  using ramp_frequency_is_sqrt [of 192 100] by simp

subsection \<open>Invariant\<close>

abbreviation on_wheel :: "int \<Rightarrow> bool" where
  "on_wheel x \<equiv> 0 \<le> x \<and> x < 384"

definition wheel_inv :: "polarizer \<Rightarrow> bool" where
  "wheel_inv s \<longleftrightarrow>
     on_wheel (current s) \<and> on_wheel (target s) \<and> on_wheel (target_notch_edge (positioning s)) \<and>
     0 < max_speed s \<and> max_speed s \<le> 2000 \<and>
     (acceleration_active (acceleration s) \<longrightarrow> min_frequency (acceleration s) = 192 \<and> total_distance (acceleration s) \<le> 384) \<and>
     bump_width_pass_through (calibration s) < 384 \<and> bump_width_vertical (calibration s) < 384 \<and>
     bump_width_horizontal (calibration s) < 384 \<and> bump_entry_position (calibration s) < 384 \<and>
     (step_frequency (whw s) = 0 \<or> 96 \<le> step_frequency (whw s))"

lemma max_frequency_ge: "wheel_inv s \<Longrightarrow> 192 \<le> get_max_frequency s"
proof -
  assume "wheel_inv s"
  then have "384000 div 2000 \<le> 384000 div max_speed s" unfolding wheel_inv_def by (intro div_le_mono2) auto
  then show ?thesis by (simp add: get_max_frequency_def wheel_constants)
qed

lemma wheel_inv_set_frequency: "wheel_inv s \<Longrightarrow> wheel_inv (snd (polarizer_set_frequency e f s))"
  by (auto simp: wheel_inv_def polarizer_set_frequency_def wheel_constants)

lemma wheel_inv_motor:
  assumes "wheel_inv s"
  shows "wheel_inv (polarizer_halt e s)" "wheel_inv (disable_drv s)" "wheel_inv (enable_encoder e s)"
    "wheel_inv (snd (disable_encoder e s))" "wheel_inv (set_direction e d s)" "wheel_inv (report_reached_state e s)"
    "wheel_inv (reset_encoder_sem s)" "wheel_inv (encoder_callback l s)" "wheel_inv (polarizer_wheel_step_isr s)"
    "wheel_inv (polarizer_wheel_set_acceleration a s)" "wheel_inv (polarizer_wheel_set_max_speed m s)"
  using assms
  by (auto simp: wheel_inv_def polarizer_halt_def disable_drv_def enable_encoder_def disable_encoder_def set_direction_def
      report_reached_state_def reset_encoder_sem_def encoder_callback_def polarizer_wheel_step_isr_def wheel_constants
      polarizer_wheel_set_acceleration_def polarizer_wheel_set_max_speed_def MAX_SPEED_DEFAULT_MS_PER_TURN_def Let_def)

lemma wheel_inv_isrs: "wheel_inv s \<Longrightarrow> wheel_inv ((polarizer_wheel_step_isr ^^ n) s)"
  by (induction n) (simp_all add: wheel_inv_motor)

lemma wheel_inv_updates:
  "wheel_inv (s\<lparr>wstate := a\<rparr>) = wheel_inv s" "wheel_inv (s\<lparr>pending_cmd := b\<rparr>) = wheel_inv s"
  "wheel_inv (s\<lparr>pending_set_angle := c\<rparr>) = wheel_inv s" "wheel_inv (s\<lparr>homing_success := d\<rparr>) = wheel_inv s"
  "wheel_inv (s\<lparr>idle_current_scale_down_time_ms := t\<rparr>) = wheel_inv s" "wheel_inv (s\<lparr>waits := w\<rparr>) = wheel_inv s"
  "wheel_inv (s\<lparr>notch_count := w\<rparr>) = wheel_inv s"
  "wheel_inv (s\<lparr>whw := (whw s)\<lparr>cmd_sem := x\<rparr>\<rparr>) = wheel_inv s" "wheel_inv (s\<lparr>whw := (whw s)\<lparr>step_sem := x\<rparr>\<rparr>) = wheel_inv s"
  "wheel_inv (s\<lparr>whw := (whw s)\<lparr>encoder_sem := x\<rparr>\<rparr>) = wheel_inv s" "wheel_inv (s\<lparr>whw := (whw s)\<lparr>step_interrupt := x\<rparr>\<rparr>) = wheel_inv s"
  "wheel_inv (s\<lparr>whw := (whw s)\<lparr>encoder_power := x\<rparr>\<rparr>) = wheel_inv s" "wheel_inv (s\<lparr>whw := (whw s)\<lparr>encoder_interrupt := i\<rparr>\<rparr>) = wheel_inv s"
  by (simp_all add: wheel_inv_def)

lemma wheel_inv_current: "wheel_inv s \<Longrightarrow> on_wheel c \<Longrightarrow> wheel_inv (s\<lparr>current := c\<rparr>)"
  by (simp add: wheel_inv_def)

lemma wheel_inv_target: "wheel_inv s \<Longrightarrow> on_wheel c \<Longrightarrow> wheel_inv (s\<lparr>target := c\<rparr>)"
  by (simp add: wheel_inv_def)

lemma wheel_inv_rotate: "wheel_inv s \<Longrightarrow> wheel_inv (snd (polarizer_rotate e f s))"
  by (auto simp: polarizer_rotate_def Let_def wheel_inv_updates intro!: wheel_inv_set_frequency) (simp add: wheel_inv_def)

lemma wheel_inv_step_relative:
  assumes "wheel_inv s"
  shows "wheel_inv (snd (polarizer_wheel_step_relative e f n s))"
proof -
  have c: "on_wheel (current s)" using assms by (simp add: wheel_inv_def)
  have d: "current (set_direction e d s) = current s" for d by (simp add: set_direction_def)
  show ?thesis
    using c assms
    by (auto simp: polarizer_wheel_step_relative_def Let_def d wheel_constants
        intro!: wheel_inv_rotate wheel_inv_target wheel_inv_motor)
qed

lemma wheel_inv_wait: "wheel_inv s \<Longrightarrow> wheel_inv (snd (wait_encoder e s))"
  by (simp add: wait_encoder_def Let_def wheel_inv_updates wheel_inv_isrs split: prod.split)

lemma wheel_inv_homing_fail: "wheel_inv s \<Longrightarrow> wheel_inv (POLARIZER_HOMING_FAIL e s)"
  by (simp add: POLARIZER_HOMING_FAIL_def wheel_inv_motor wheel_inv_updates)

lemma wheel_inv_homing_spin: "wheel_inv s \<Longrightarrow> wheel_inv (snd (homing_spin e a s))"
proof (induction e a s rule: homing_spin.induct)
  case (1 e a s)
  show ?case
  proof (cases "a < HOMING_SPIN_ATTEMPTS")
    case True
    let ?s1 = "reset_encoder_sem (s\<lparr>current := 0\<rparr>)"
    obtain ret s2 where r: "polarizer_wheel_step_relative e PWM_FREQUENCY_DEFAULT (int MICROSTEPS_120 * 2) ?s1 = (ret, s2)" by fastforce
    obtain b s3 where w: "wait_encoder e s2 = (b, s3)" by fastforce
    have "wheel_inv ?s1" using "1.prems" by (simp add: wheel_inv_motor wheel_inv_current)
    from wheel_inv_step_relative [OF this, of e PWM_FREQUENCY_DEFAULT "int MICROSTEPS_120 * 2"] have i2: "wheel_inv s2" unfolding r by simp
    from wheel_inv_wait [OF this, of e] have i3: "wheel_inv s3" unfolding w by simp
    show ?thesis using "1.IH" [OF True refl r [symmetric] refl _ w [symmetric] refl] True r w i2 i3
      by (subst homing_spin.simps) (simp add: wheel_inv_homing_fail wheel_inv_motor)
  qed (simp add: homing_spin.simps "1.prems")
qed

lemma wheel_inv_notches: "wheel_inv s \<Longrightarrow> wheel_inv (snd (homing_notches e n s))"
proof (induction e n s rule: homing_notches.induct)
  case (1 e n s)
  obtain r s1 where h: "homing_spin e 0 s = (r, s1)" by fastforce
  from wheel_inv_homing_spin [OF "1.prems", of e 0] have "wheel_inv s1" unfolding h by simp
  then have "wheel_inv s1" "wheel_inv (s1\<lparr>notch_count := n + 1, current := 0\<rparr>)"
    by (simp_all add: wheel_inv_current wheel_inv_updates)
  then show ?case
    using "1.IH" [OF _ h [symmetric]] h "1.prems"
    by (subst homing_notches.simps) (auto simp: Let_def wheel_inv_homing_fail split: spin_result.split)
qed

lemma wheel_inv_homing_start: "wheel_inv s \<Longrightarrow> wheel_inv (homing_start e s)"
  unfolding homing_start_def Let_def
  by (intro wheel_inv_motor, subst wheel_inv_updates, intro wheel_inv_motor) (simp add: wheel_inv_def)

lemma wheel_inv_homing_finish:
  assumes "wheel_inv s"
  shows "wheel_inv (homing_finish e s)"
proof -
  let ?rel = "polarizer_wheel_step_relative e PWM_FREQUENCY_DEFAULT (int NOTCH_EDGE_TO_CENTER + int MICROSTEPS_120) (reset_encoder_sem s)"
  obtain ret s1 where r: "?rel = (ret, s1)" by fastforce
  obtain b s2 where w: "wait_encoder e s1 = (b, s2)" by fastforce
  have "wheel_inv (reset_encoder_sem s)" using assms by (rule wheel_inv_motor)
  from wheel_inv_step_relative [OF this, of e PWM_FREQUENCY_DEFAULT "int NOTCH_EDGE_TO_CENTER + int MICROSTEPS_120"]
  have "wheel_inv s1" unfolding r by simp
  from wheel_inv_wait [OF this, of e] have "wheel_inv s2" unfolding w by simp
  then have "wheel_inv (if b then snd (wait_encoder e (s2\<lparr>current := int MICROSTEPS_120, target := int MICROSTEPS_120 + int NOTCH_EDGE_TO_CENTER\<rparr>)) else s2)"
    by (auto simp: wheel_constants intro!: wheel_inv_wait wheel_inv_target wheel_inv_current)
  then show ?thesis
    unfolding homing_finish_def r w Let_def prod.case
    by (intro wheel_inv_motor wheel_inv_current) (simp_all add: wheel_inv_updates wheel_inv_motor)
qed

lemma wheel_inv_homing_run:
  assumes "wheel_inv s"
  shows "wheel_inv (snd (homing_run e s))"
proof -
  obtain r s1 where h: "homing_notches e 0 (homing_start e s) = (r, s1)" by fastforce
  from wheel_inv_notches [OF wheel_inv_homing_start [OF assms], of e 0 e] have "wheel_inv s1" unfolding h by simp
  then show ?thesis by (simp add: homing_run_def h wheel_inv_homing_finish wheel_inv_homing_fail split: option.split)
qed

lemma store_bump_width_range:
  assumes "w < 384" and "bump_width_pass_through c < 384" and "bump_width_vertical c < 384" and "bump_width_horizontal c < 384"
  shows "bump_width_pass_through (store_bump_width w c) < 384 \<and> bump_width_vertical (store_bump_width w c) < 384 \<and>
    bump_width_horizontal (store_bump_width w c) < 384 \<and> bump_entry_position (store_bump_width w c) = bump_entry_position c"
  using assms by (simp add: store_bump_width_def Let_def)

lemma wheel_inv_calibration_edge:
  assumes "wheel_inv s"
  shows "wheel_inv (snd (calibration_edge h s))"
proof -
  let ?w = "current s - int (bump_entry_position (calibration s))"
  have "nat (if ?w < 0 then ?w + int MICROSTEPS_360 else ?w) < 384"
    using assms by (auto simp: wheel_inv_def wheel_constants)
  note this [THEN store_bump_width_range, of "calibration s"]
  moreover have "nat (current s) < 384" using assms unfolding wheel_inv_def by linarith
  ultimately show ?thesis using assms by (simp add: calibration_edge_def Let_def wheel_inv_def)
qed

lemma wheel_inv_calibration_spin: "wheel_inv s \<Longrightarrow> wheel_inv (snd (calibration_spin evs s))"
proof (induction evs s rule: calibration_spin.induct)
  case (2 edge_seen is_high n evs s)
  let ?s1 = "(polarizer_wheel_step_isr ^^ n) s"
  let ?r = "if edge_seen then calibration_edge is_high (?s1\<lparr>whw := (whw ?s1)\<lparr>encoder_sem := False\<rparr>\<rparr>) else (False, ?s1)"
  obtain b s2 where r: "?r = (b, s2)" by fastforce
  have "wheel_inv (snd ?r)" using "2.prems" by (simp add: wheel_inv_calibration_edge wheel_inv_isrs wheel_inv_updates)
  then have "wheel_inv s2" unfolding r by simp
  then show ?case using "2.IH" [OF refl r [symmetric] refl] by (simp add: r Let_def)
qed simp

lemma wheel_inv_one_spin:
  assumes "wheel_inv s"
  shows "wheel_inv (snd (calibration_one_spin e s))"
proof -
  let ?rel = "polarizer_wheel_step_relative e PWM_FREQUENCY_DEFAULT (int (MICROSTEPS_360 * 3 div 4)) (reset_encoder_sem s)"
  obtain ret s1 where r: "?rel = (ret, s1)" by fastforce
  have "wheel_inv (reset_encoder_sem s)" using assms by (rule wheel_inv_motor)
  from wheel_inv_step_relative [OF this, of e PWM_FREQUENCY_DEFAULT "int (MICROSTEPS_360 * 3 div 4)"]
  have i: "wheel_inv s1" unfolding r by simp
  obtain b s2 where c: "calibration_spin (spin_events e (waits s1)) s1 = (b, s2)" by fastforce
  from wheel_inv_calibration_spin [OF i, of "spin_events e (waits s1)"] have "wheel_inv s2" unfolding c by simp
  with i show ?thesis
    by (simp add: calibration_one_spin_def r c Let_def wheel_inv_motor wheel_inv_updates)
qed

lemma wheel_inv_calibration_start: "wheel_inv s \<Longrightarrow> wheel_inv (calibration_start s)"
  by (simp add: calibration_start_def wheel_inv_def)

lemma wheel_inv_calibration_end: "wheel_inv s \<Longrightarrow> wheel_inv (calibration_end e s)"
  using wheel_inv_motor(1) [of s e] by (simp add: calibration_end_def Let_def wheel_inv_def)

lemma wheel_inv_calibration_run:
  assumes "wheel_inv s"
  shows "wheel_inv (snd (calibration_run e s))"
proof -
  let ?s1 = "calibration_start s"
  let ?s2 = "?s1\<lparr>whw := (whw ?s1)\<lparr>encoder_power := True\<rparr>\<rparr>"
  let ?s3 = "set_direction e FORWARD (reset_encoder_sem (?s2\<lparr>whw := (whw ?s2)\<lparr>encoder_interrupt := INT_EDGE_BOTH\<rparr>\<rparr>))"
  have i: "wheel_inv ?s1" "wheel_inv ?s2" using wheel_inv_calibration_start [OF assms] by (simp_all add: wheel_inv_updates)
  then have i3: "wheel_inv ?s3" by (intro wheel_inv_motor) (simp only: wheel_inv_updates)
  obtain r4 s4 where r4: "calibration_one_spin e ?s3 = (r4, s4)" by fastforce
  from wheel_inv_one_spin [OF i3, of e] have i4: "wheel_inv s4" unfolding r4 by simp
  obtain r5 s5 where r5: "calibration_one_spin e s4 = (r5, s5)" by fastforce
  from wheel_inv_one_spin [OF i4, of e] have i5: "wheel_inv s5" unfolding r5 by simp
  show ?thesis
    using assms i i4 i5 unfolding calibration_run_def Let_def r4 prod.case r5
    by (auto simp: wheel_inv_updates wheel_inv_calibration_end split: option.split bool.split)
qed

lemma wheel_inv_execute:
  "wheel_inv s \<Longrightarrow> wheel_inv (execute_homing e s)" "wheel_inv s \<Longrightarrow> wheel_inv (execute_calibration e s)"
proof (induction e s and e s rule: execute_homing_execute_calibration.induct)
  case (1 e s)
  obtain b s1 where h: "homing_run e s = (b, s1)" by fastforce
  from wheel_inv_homing_run [OF "1.prems", of e] have i: "wheel_inv s1" unfolding h by simp
  have "wheel_inv (s1\<lparr>calibration := (calibration s1)\<lparr>needs_calibration := False\<rparr>\<rparr>)" using i by (simp add: wheel_inv_def)
  with i show ?case using "1.IH" [OF h [symmetric] refl] by (simp add: execute_homing.simps [of e s] h wheel_inv_updates)
next
  case (2 e s)
  obtain b s1 where h: "calibration_run e s = (b, s1)" by fastforce
  from wheel_inv_calibration_run [OF "2.prems", of e] have i: "wheel_inv s1" unfolding h by simp
  with i show ?case using "2.IH" [OF h [symmetric] refl] by (simp add: execute_calibration.simps [of e s] h)
qed

lemma set_angle_target_on_wheel: "on_wheel (set_angle_target angle)"
  by (simp add: set_angle_target_def wheel_constants)

lemma notch_edge_on_wheel:
  assumes "wheel_inv s" and "on_wheel t"
  shows "on_wheel (calculate_notch_edge t d s)"
proof -
  have "get_edge_to_center_for_position t s < 384"
    using assms by (auto simp: get_edge_to_center_for_position_def wheel_inv_def wheel_constants Let_def)
  then show ?thesis using assms(2) by (auto simp: calculate_notch_edge_def wheel_constants Let_def)
qed

lemma circular_distance_le: "on_wheel a \<Longrightarrow> on_wheel b \<Longrightarrow> \<bar>circular_signed_distance a b\<bar> \<le> 192"
  by (auto simp: circular_signed_distance_def wheel_constants Let_def)

lemma set_angle_course_props:
  assumes "wheel_inv s" and "on_wheel t"
  shows "wheel_inv (snd (set_angle_course e sp t s)) \<and> \<bar>fst (set_angle_course e sp t s)\<bar> \<le> 384"
  using assms circular_distance_le [of "current s" t] wheel_inv_motor(5) [OF assms(1)]
  by (auto simp: set_angle_course_def Let_def wheel_constants wheel_inv_def)

lemma wheel_inv_set_angle:
  assumes "wheel_inv s"
  shows "wheel_inv (snd (execute_set_angle e f angle sp s))"
proof -
  let ?t = "set_angle_target angle"
  let ?s1 = "s\<lparr>positioning := (positioning s)\<lparr>previous_position := get_current_position s, target_position := angle_to_position angle,
                   step_diff_microsteps := 0, start_time_ms := wnow e s\<rparr>\<rparr>"
  have i1: "wheel_inv ?s1" using assms by (simp add: wheel_inv_def)
  obtain sd s2 where c: "set_angle_course e sp ?t ?s1 = (sd, s2)" by fastforce
  from set_angle_course_props [OF i1 set_angle_target_on_wheel, of e sp angle] have i2: "wheel_inv s2" and sd: "\<bar>sd\<bar> \<le> 384"
    unfolding c by simp_all
  let ?enc = "enable_encoder e (s2\<lparr>positioning := (positioning s2)\<lparr>target_notch_edge := calculate_notch_edge ?t (direction s2) s2,
      encoder_enabled := False, encoder_triggered := False\<rparr>\<rparr>)"
  have i3: "wheel_inv ?enc"
    using i2 notch_edge_on_wheel [OF i2 set_angle_target_on_wheel, of angle "direction s2"]
    by (intro wheel_inv_motor) (simp add: wheel_inv_def)
  have i4: "wheel_inv (t\<lparr>acceleration := \<lparr>min_frequency = PWM_FREQUENCY_ACCEL_MIN_SPEED, acceleration_active = True,
      start_pos = x, total_distance = nat \<bar>sd\<bar>\<rparr>, target := ?t\<rparr>)"
    "wheel_inv (t\<lparr>acceleration := (acceleration t)\<lparr>acceleration_active := False, min_frequency := y\<rparr>, target := ?t\<rparr>)"
    if "wheel_inv t" for t x y
    using that sd set_angle_target_on_wheel [of angle] by (auto simp: wheel_inv_def wheel_constants)
  show ?thesis
    unfolding execute_set_angle_def Let_def c prod.case
    using assms i1 i2 i3 by (auto simp: wheel_inv_updates case_prod_beta wheel_inv_motor(6) intro!: wheel_inv_rotate i4)
qed

lemma wheel_inv_queue_cmd: "wheel_inv s \<Longrightarrow> wheel_inv (s\<lparr>pending_cmd := c, whw := (whw s)\<lparr>cmd_sem := b\<rparr>\<rparr>)"
  by (simp add: wheel_inv_def)

lemma wheel_inv_target_reached: "wheel_inv s \<Longrightarrow> wheel_inv (target_reached e s)"
  unfolding target_reached_def Let_def by (simp add: wheel_inv_motor wheel_inv_queue_cmd wheel_inv_updates)

lemma wheel_inv_step_event: "wheel_inv s \<Longrightarrow> wheel_inv (process_step_event e s)"
  by (simp add: process_step_event_def Let_def wheel_inv_target_reached wheel_inv_set_frequency)

lemma wheel_inv_encoder_event: "wheel_inv s \<Longrightarrow> wheel_inv (process_encoder_event_positioning s)"
  by (simp add: process_encoder_event_positioning_def Let_def wheel_inv_def)

lemma wheel_inv_run_cmd: "wheel_inv s \<Longrightarrow> wheel_inv (run_pending_cmd e s)"
  by (simp add: run_pending_cmd_def Let_def wheel_inv_updates wheel_inv_execute wheel_inv_set_angle split: wheel_cmd.split)

lemma wheel_inv_available: "wheel_inv s \<Longrightarrow> wheel_inv (step_available e s)" "wheel_inv s \<Longrightarrow> wheel_inv (encoder_available s)"
  by (simp_all add: step_available_def encoder_available_def Let_def wheel_inv_updates wheel_inv_step_event wheel_inv_encoder_event)

lemma wheel_inv_thread: "wheel_inv s \<Longrightarrow> wheel_inv (polarizer_wheel_thread e s)"
  by (simp add: polarizer_wheel_thread_def Let_def idle_timeout_def wheel_inv_updates wheel_inv_run_cmd wheel_inv_available)

text \<open>Every order of interrupts, turns of the thread, whatever it meets, calls and settings.\<close>

inductive wheel_step :: "polarizer \<Rightarrow> polarizer \<Rightarrow> bool" where
  ws_isr: "step_interrupt (whw s) \<Longrightarrow> wheel_step s (polarizer_wheel_step_isr s)"
| ws_encoder: "wheel_step s (encoder_callback level s)"
| ws_thread: "wheel_step s (polarizer_wheel_thread e s)"
| ws_set_angle: "wheel_step s (snd (polarizer_wheel_set_angle locked f angle sp s))"
| ws_home: "wheel_step s (snd (polarizer_wheel_home_async locked s))"
| ws_calibrate: "wheel_step s (snd (polarizer_wheel_calibrate_async locked s))"
| ws_acceleration: "wheel_step s (polarizer_wheel_set_acceleration a s)"
| ws_max_speed: "wheel_step s (polarizer_wheel_set_max_speed m s)"

lemma wheel_inv_step: "wheel_step s s' \<Longrightarrow> wheel_inv s \<Longrightarrow> wheel_inv s'"
  by (induction rule: wheel_step.induct)
    (simp_all add: wheel_inv_motor wheel_inv_thread polarizer_wheel_set_angle_def polarizer_wheel_home_async_def
      polarizer_wheel_calibrate_async_def, simp_all add: wheel_inv_def)

lemma wheel_inv_reach: "wheel_step\<^sup>*\<^sup>* s s' \<Longrightarrow> wheel_inv s \<Longrightarrow> wheel_inv s'"
  by (induction rule: rtranclp_induct) (auto intro: wheel_inv_step)

lemma wheel_inv_zero: "wheel_inv wheel_zero"
  by (simp add: wheel_inv_def wheel_zero_def MAX_SPEED_DEFAULT_MS_PER_TURN_def)

text \<open>
  C24. In every order of interrupts, turns of the thread, calls and settings, whatever the hardware returns, the step counter and the target
  stay on the wheel and the motor never runs slower than the minimum; and every speed a
  ramp asks for is between the minimum and the maximum that is set, so that it is never refused.
\<close>

theorem wheel_stays_in_range:
  assumes "wheel_step\<^sup>*\<^sup>* wheel_zero s"
  shows "0 \<le> current s \<and> current s < int MICROSTEPS_360 \<and> 0 \<le> target s \<and> target s < int MICROSTEPS_360 \<and>
    (step_frequency (whw s) = 0 \<or> PWM_FREQUENCY_MINIMUM \<le> step_frequency (whw s)) \<and>
    (let a = acceleration s;
         d = nat \<bar>circular_signed_distance (start_pos a) (current s)\<bar>;
         f = calculate_linear_ramp_frequency (calculate_ramp_step d (total_distance a)) (min_frequency a) (get_max_frequency s) s
     in \<not> acceleration_active a \<or> PWM_FREQUENCY_MINIMUM \<le> f \<and> f \<le> get_max_frequency s)"
proof -
  have inv: "wheel_inv s" by (rule wheel_inv_reach [OF assms wheel_inv_zero])
  have "PWM_FREQUENCY_MINIMUM \<le> calculate_linear_ramp_frequency (calculate_ramp_step d (total_distance (acceleration s)))
      (min_frequency (acceleration s)) (get_max_frequency s) s \<and>
    calculate_linear_ramp_frequency (calculate_ramp_step d (total_distance (acceleration s)))
      (min_frequency (acceleration s)) (get_max_frequency s) s \<le> get_max_frequency s"
    if "acceleration_active (acceleration s)" for d
  proof -
    have a: "min_frequency (acceleration s) = 192" "total_distance (acceleration s) \<le> 384" using that inv by (simp_all add: wheel_inv_def)
    have "calculate_ramp_step d (total_distance (acceleration s)) \<le> total_distance (acceleration s)"
      by (auto simp: calculate_ramp_step_def)
    then have "calculate_ramp_step d (total_distance (acceleration s)) < 2 ^ 29" using a(2) by simp
    from ramp_frequency_range [OF _ this, of 192 "get_max_frequency s" s] show ?thesis
      using a max_frequency_ge [OF inv] by (simp add: wheel_constants)
  qed
  then show ?thesis using inv unfolding Let_def by (auto simp: wheel_inv_def wheel_constants)
qed

lemma wheel_stays_in_range_witness:
  "wheel_step wheel_zero (snd (polarizer_wheel_home_async True wheel_zero)) \<and>
    0 \<le> current (snd (polarizer_wheel_home_async True wheel_zero))"
  using wheel_stays_in_range [OF r_into_rtranclp [where r = wheel_step, OF ws_home [of wheel_zero True]]] ws_home by blast

subsection \<open>A movement reaches its target\<close>

text \<open>A step of the motor, seen by the thread before the next.\<close>

definition wheel_move :: "wheel_env \<Rightarrow> polarizer \<Rightarrow> polarizer" where
  "wheel_move e s = polarizer_wheel_thread e (polarizer_wheel_step_isr s)"

text \<open>The movement is under way, with nothing else to do for the thread, and the hardware works.\<close>

definition wheel_moving :: "wheel_env \<Rightarrow> polarizer \<Rightarrow> bool" where
  "wheel_moving e s \<longleftrightarrow> wstate s = STATE_POSITIONING \<and> \<not> encoder_sem (whw s) \<and> \<not> cmd_sem (whw s) \<and>
     idle_current_scale_down_time_ms s = 0 \<and> pwm_ret (wret e s) = 0 \<and> on_wheel (current s)"

definition wheel_next :: "polarizer \<Rightarrow> int" where
  "wheel_next s = (if direction s = BACKWARD then current s - 1 else current s + 1) mod 384"

lemma mod_wheel:
  fixes x :: int
  shows "0 \<le> x \<Longrightarrow> x < 384 \<Longrightarrow> x mod 384 = x" "384 \<le> x \<Longrightarrow> x < 768 \<Longrightarrow> x mod 384 = x - 384"
    "-384 \<le> x \<Longrightarrow> x < 0 \<Longrightarrow> x mod 384 = x + 384"
proof -
  show "0 \<le> x \<Longrightarrow> x < 384 \<Longrightarrow> x mod 384 = x" by (rule mod_pos_pos_trivial)
  show "384 \<le> x \<Longrightarrow> x < 768 \<Longrightarrow> x mod 384 = x - 384" using mod_pos_pos_trivial [of "x - 384" 384] by simp
  show "-384 \<le> x \<Longrightarrow> x < 0 \<Longrightarrow> x mod 384 = x + 384" using mod_pos_pos_trivial [of "x + 384" 384] by simp
qed

lemma isr_eq:
  "on_wheel (current s) \<Longrightarrow> polarizer_wheel_step_isr s = s\<lparr>current := wheel_next s, whw := (whw s)\<lparr>step_sem := True\<rparr>\<rparr>"
proof -
  assume c: "on_wheel (current s)"
  have "(current s + 1) mod 384 = (if 383 \<le> current s then 0 else current s + 1)"
    "(current s - 1) mod 384 = (if current s \<le> 0 then 383 else current s - 1)"
    using c by (auto simp: mod_wheel)
  then show ?thesis using c
    by (cases "direction s") (simp_all add: polarizer_wheel_step_isr_def wheel_next_def wheel_constants Let_def)
qed

lemma set_frequency_frame:
  "current (snd (polarizer_set_frequency e f s)) = current s" "target (snd (polarizer_set_frequency e f s)) = target s"
  "direction (snd (polarizer_set_frequency e f s)) = direction s" "wstate (snd (polarizer_set_frequency e f s)) = wstate s"
  "waits (snd (polarizer_set_frequency e f s)) = waits s" "step_sem (whw (snd (polarizer_set_frequency e f s))) = step_sem (whw s)"
  "encoder_sem (whw (snd (polarizer_set_frequency e f s))) = encoder_sem (whw s)"
  "cmd_sem (whw (snd (polarizer_set_frequency e f s))) = cmd_sem (whw s)"
  "idle_current_scale_down_time_ms (snd (polarizer_set_frequency e f s)) = idle_current_scale_down_time_ms s"
  by (simp_all add: polarizer_set_frequency_def)

definition wheel_stepped :: "polarizer \<Rightarrow> polarizer" where
  "wheel_stepped s = s\<lparr>current := wheel_next s, whw := (whw s)\<lparr>step_sem := False\<rparr>\<rparr>"

lemma wheel_move_event:
  assumes "wheel_moving e s"
  shows "wheel_move e s = idle_timeout e (process_step_event e (wheel_stepped s))"
proof -
  have "on_wheel (current s)" using assms by (simp add: wheel_moving_def)
  then show ?thesis using assms
    by (simp add: wheel_move_def isr_eq polarizer_wheel_thread_def step_available_def wheel_stepped_def wheel_moving_def Let_def)
qed

lemma wheel_next_on_wheel: "on_wheel (wheel_next s)"
  by (simp add: wheel_next_def)

lemma wheel_move_on:
  assumes "wheel_moving e s" and "wheel_next s \<noteq> target s"
  shows "wheel_moving e (wheel_move e s) \<and> current (wheel_move e s) = wheel_next s \<and>
    target (wheel_move e s) = target s \<and> direction (wheel_move e s) = direction s"
proof -
  have "idle_timeout e (process_step_event e (wheel_stepped s)) = process_step_event e (wheel_stepped s)"
    using assms by (simp add: idle_timeout_def process_step_event_def wheel_stepped_def wheel_moving_def Let_def set_frequency_frame)
  then show ?thesis
    unfolding wheel_move_event [OF assms(1)] using assms wheel_next_on_wheel [of s]
    by (simp add: process_step_event_def wheel_stepped_def wheel_moving_def Let_def set_frequency_frame)
qed

lemma halt_frame:
  "current (polarizer_halt e s) = current s" "waits (polarizer_halt e s) = waits s" "wstate (polarizer_halt e s) = wstate s"
  "positioning (polarizer_halt e s) = positioning s" "pwm_ret (wret e s) = 0 \<Longrightarrow> step_frequency (whw (polarizer_halt e s)) = 0"
  "step_interrupt (whw (polarizer_halt e s)) = False"
  by (simp_all add: polarizer_halt_def)

lemma report_disable_frame:
  "current (report_reached_state e s) = current s" "waits (report_reached_state e s) = waits s" "whw (report_reached_state e s) = whw s"
  "current (snd (disable_encoder e s)) = current s" "waits (snd (disable_encoder e s)) = waits s"
  "step_frequency (whw (snd (disable_encoder e s))) = step_frequency (whw s)"
  "step_interrupt (whw (snd (disable_encoder e s))) = step_interrupt (whw s)"
  by (simp_all add: report_reached_state_def disable_encoder_def Let_def)

lemma wheel_move_stops:
  assumes "wheel_moving e s" and "wheel_next s = target s"
  shows "wstate (wheel_move e s) = STATE_IDLE \<and> current (wheel_move e s) = target s \<and> step_frequency (whw (wheel_move e s)) = 0 \<and>
    \<not> step_interrupt (whw (wheel_move e s))"
proof -
  have t: "wstate (wheel_stepped s) = STATE_POSITIONING" "current (wheel_stepped s) = target s" "pwm_ret (wret e (wheel_stepped s)) = 0"
    using assms by (simp_all add: wheel_stepped_def wheel_moving_def)
  have "process_step_event e (wheel_stepped s) = target_reached e (wheel_stepped s)"
    using assms by (simp add: process_step_event_def wheel_stepped_def)
  then show ?thesis
    unfolding wheel_move_event [OF assms(1)] using t
    by (simp add: idle_timeout_def target_reached_def Let_def halt_frame report_disable_frame)
qed

text \<open>The place after \<open>k\<close> steps.\<close>

definition wheel_after :: "nat \<Rightarrow> polarizer \<Rightarrow> int" where
  "wheel_after k s = (if direction s = BACKWARD then current s - int k else current s + int k) mod 384"

lemma wheel_moves:
  assumes "wheel_moving e s" and "\<And>j. 1 \<le> j \<Longrightarrow> j \<le> k \<Longrightarrow> wheel_after j s \<noteq> target s"
  shows "wheel_moving e ((wheel_move e ^^ k) s) \<and> current ((wheel_move e ^^ k) s) = wheel_after k s \<and>
    target ((wheel_move e ^^ k) s) = target s \<and> direction ((wheel_move e ^^ k) s) = direction s"
  using assms(2)
proof (induction k)
  case 0
  then show ?case using assms(1) by (auto simp: wheel_after_def wheel_moving_def zmod_trivial_iff)
next
  case (Suc k)
  let ?t = "(wheel_move e ^^ k) s"
  have t: "wheel_moving e ?t" "current ?t = wheel_after k s" "target ?t = target s" "direction ?t = direction s"
    using Suc by auto
  have n: "wheel_next ?t = wheel_after (Suc k) s"
    unfolding wheel_next_def t wheel_after_def by (simp add: mod_simps algebra_simps)
  then have "wheel_next ?t \<noteq> target ?t" using Suc.prems [of "Suc k"] t(3) by simp
  from wheel_move_on [OF t(1) this] show ?case using n t by simp
qed

text \<open>The number of steps of a movement: along the shorter way, or forward, and a whole turn when the wheel is there already.\<close>

definition steps_to :: "bool \<Rightarrow> int \<Rightarrow> int \<Rightarrow> nat" where
  "steps_to shortest_path from_pos to_pos =
    (if shortest_path \<and> from_pos \<noteq> to_pos then nat \<bar>circular_signed_distance from_pos to_pos\<bar>
     else nat ((to_pos - from_pos - 1) mod 384) + 1)"

text \<open>What a command that starts the motor leaves behind.\<close>

lemma set_angle_moving:
  assumes "wheel_inv s" and "execute_set_angle e f angle sp s = (0, s')" and "wstate s' = STATE_POSITIONING"
    and "pwm_ret (wret e s) = 0" and "dir_ret (wret e s) = 0" and "\<not> encoder_sem (whw s)" and "\<not> cmd_sem (whw s)"
  shows "wheel_moving e s' \<and> current s' = current s \<and> target s' = set_angle_target angle \<and>
    direction s' = (if sp \<and> circular_signed_distance (current s) (set_angle_target angle) \<le> 0 then BACKWARD else FORWARD)"
proof -
  have rot: "waits (snd (polarizer_rotate e g t)) = waits t \<and> current (snd (polarizer_rotate e g t)) = current t \<and>
      target (snd (polarizer_rotate e g t)) = target t \<and> direction (snd (polarizer_rotate e g t)) = direction t \<and>
      encoder_sem (whw (snd (polarizer_rotate e g t))) = encoder_sem (whw t) \<and> cmd_sem (whw (snd (polarizer_rotate e g t))) = cmd_sem (whw t) \<and>
      idle_current_scale_down_time_ms (snd (polarizer_rotate e g t)) = 0" for g t
    by (simp add: polarizer_rotate_def Let_def set_frequency_frame)
  let ?T = "set_angle_target angle"
  let ?s1 = "s\<lparr>positioning := (positioning s)\<lparr>previous_position := get_current_position s, target_position := angle_to_position angle,
                   step_diff_microsteps := 0, start_time_ms := wnow e s\<rparr>\<rparr>"
  obtain sd s2 where c: "set_angle_course e sp ?T ?s1 = (sd, s2)" by fastforce
  have s2: "waits s2 = waits s" "current s2 = current s" "whw s2 = whw s"
    "direction s2 = (if sp \<and> circular_signed_distance (current s) ?T \<le> 0 then BACKWARD else FORWARD)"
    using c assms(5) by (auto simp: set_angle_course_def set_direction_def Let_def split: if_splits)
  have idle: "wstate s = STATE_IDLE" "\<not> (get_current_position s = angle_to_position angle \<and> get_current_position s \<noteq> POS_UNKNOWN)"
    using assms(2,3) by (auto simp: execute_set_angle_def rc_def report_reached_state_def Let_def split: if_splits ret_code_t.splits)
  have "\<exists>g t. s' = (snd (polarizer_rotate e g t))\<lparr>wstate := STATE_POSITIONING\<rparr> \<and> waits t = waits s2 \<and> current t = current s2 \<and>
      direction t = direction s2 \<and> whw t = whw s2 \<and> target t = ?T"
    using assms(2,3) idle unfolding execute_set_angle_def Let_def c prod.case
    by (auto simp: case_prod_beta split: if_splits) fastforce+
  then obtain g t where "s' = (snd (polarizer_rotate e g t))\<lparr>wstate := STATE_POSITIONING\<rparr>"
    "waits t = waits s2" "current t = current s2" "direction t = direction s2" "whw t = whw s2" "target t = ?T" by blast
  then show ?thesis using assms s2 rot [of g t] by (simp add: wheel_moving_def wheel_inv_def)
qed

lemma steps_to_first:
  assumes "on_wheel c" and "on_wheel t" and "c = current s"
    and "direction s = (if sp \<and> circular_signed_distance c t \<le> 0 then BACKWARD else FORWARD)"
  shows "wheel_after (steps_to sp c t) s = t \<and> 0 < steps_to sp c t \<and> (\<forall>j. 1 \<le> j \<and> j < steps_to sp c t \<longrightarrow> wheel_after j s \<noteq> t)"
proof (cases "sp \<and> circular_signed_distance c t \<le> 0")
  case True
  then have d: "direction s = BACKWARD" using assms(4) by simp
  have n: "int (steps_to sp c t) = (if t < c then c - t else c - t + 384)" and "0 < steps_to sp c t"
    using True assms(1,2) by (auto simp: steps_to_def circular_signed_distance_def wheel_constants Let_def mod_wheel split: if_splits)
  moreover have "(c - int j) mod 384 = (if int j \<le> c then c - int j else c - int j + 384)" if "j \<le> steps_to sp c t" for j
    using that n assms(1,2) by (auto simp: mod_wheel split: if_splits)
  ultimately show ?thesis using d assms by (auto simp: wheel_after_def split: if_splits)
next
  case False
  then have d: "direction s = FORWARD" using assms(4) by simp
  have n: "int (steps_to sp c t) = (if c < t then t - c else t - c + 384)" and "0 < steps_to sp c t"
    using False assms(1,2) by (auto simp: steps_to_def circular_signed_distance_def wheel_constants Let_def mod_wheel split: if_splits)
  moreover have "(c + int j) mod 384 = (if c + int j < 384 then c + int j else c + int j - 384)" if "j \<le> steps_to sp c t" for j
    using that n assms(1,2) by (auto simp: mod_wheel split: if_splits)
  ultimately show ?thesis using d assms by (auto simp: wheel_after_def split: if_splits)
qed

text \<open>
  C25. A movement without the encoder ends: when the thread runs after every step and before the next, and the calls to the PWM and the
  direction pin succeed, the wheel stops exactly at the angle asked for, after as many steps as the
  distance in the direction chosen and not before. When the wheel is there already
  that is a whole turn, also along the shortest path. A step that the thread does not see at the target is not covered: the code
  compares for equality, and the wheel goes on.
\<close>

theorem set_angle_reaches_target:
  assumes "wheel_inv s" and "execute_set_angle e f angle sp s = (0, s')" and "wstate s' = STATE_POSITIONING"
    and "pwm_ret (wret e s) = 0" and "dir_ret (wret e s) = 0" and "\<not> encoder_sem (whw s)" and "\<not> cmd_sem (whw s)"
    and d: "d = steps_to sp (current s) (set_angle_target angle)" and stop: "stop = (wheel_move e ^^ d) s'"
  shows "(\<forall>k<d. wstate ((wheel_move e ^^ k) s') = STATE_POSITIONING) \<and> wstate stop = STATE_IDLE \<and>
    current stop = set_angle_target angle \<and> step_frequency (whw stop) = 0"
proof -
  have c: "on_wheel (current s)" using assms(1) by (simp add: wheel_inv_def)
  have s': "wheel_moving e s'" "current s' = current s" "target s' = set_angle_target angle"
    "direction s' = (if sp \<and> circular_signed_distance (current s) (set_angle_target angle) \<le> 0 then BACKWARD else FORWARD)"
    using set_angle_moving [OF assms(1-7)] by auto
  note first = steps_to_first [OF c set_angle_target_on_wheel s'(2) [symmetric] s'(4), folded d]
  have moves: "wheel_moving e ((wheel_move e ^^ k) s') \<and> current ((wheel_move e ^^ k) s') = wheel_after k s' \<and>
      target ((wheel_move e ^^ k) s') = target s' \<and> direction ((wheel_move e ^^ k) s') = direction s'" if "k < d" for k
    using that first s'(3) by (intro wheel_moves [OF s'(1)]) auto
  obtain k where k: "d = Suc k" using first by (metis gr0_implies_Suc)
  let ?t = "(wheel_move e ^^ k) s'"
  have t: "wheel_moving e ?t" "current ?t = wheel_after k s'" "target ?t = target s'" "direction ?t = direction s'"
    using moves k by auto
  have "wheel_next ?t = wheel_after (Suc k) s'"
    unfolding wheel_next_def t wheel_after_def by (simp add: mod_simps algebra_simps)
  then have "wheel_next ?t = target ?t" using first k s'(3) t(3) by simp
  from wheel_move_stops [OF t(1) this] moves show ?thesis using t(3) s'(3) k by (auto simp: stop wheel_moving_def)
qed

subsection \<open>The end of a long ramp\<close>

lemma wheel_inv_ramp:
  assumes "wheel_inv s" and "acceleration_active (acceleration s)"
  shows "let f = calculate_linear_ramp_frequency (calculate_ramp_step d (total_distance (acceleration s))) 192 (get_max_frequency s) s
    in min_frequency (acceleration s) = 192 \<and> 192 \<le> f \<and> f \<le> get_max_frequency s"
proof -
  have a: "min_frequency (acceleration s) = 192" "total_distance (acceleration s) \<le> 384" using assms by (simp_all add: wheel_inv_def)
  have "calculate_ramp_step d (total_distance (acceleration s)) \<le> total_distance (acceleration s)"
    by (auto simp: calculate_ramp_step_def)
  then have "calculate_ramp_step d (total_distance (acceleration s)) < 2 ^ 29" using a(2) by simp
  from ramp_frequency_range [OF _ this, of 192 "get_max_frequency s" s] show ?thesis
    using a max_frequency_ge [OF assms(1)] by (simp add: Let_def)
qed

text \<open>
  A ramp that goes forward more than half a turn does not slow down to its minimum, where a ramp ends by its definition: the distance
  travelled is measured the short way round, so at the last step before the target the motor still runs at the speed of a place in the middle of the ramp.
\<close>

theorem long_ramp_ends_fast:
  assumes "wheel_inv s" and "acceleration_active (acceleration s)" and "start_pos (acceleration s) = p"
    and "0 \<le> p" and "p < 384" and len: "total_distance (acceleration s) = len" "193 < len" "len < 384"
    and "current s = (p + int len - 1) mod 384" and "target s = (p + int len) mod 384" and "pwm_ret (wret e s) = 0"
    and r: "r = (if 385 - len < len div 2 then 385 - len else 2 * len - 386)"
  shows "step_frequency (whw (process_step_event e s)) = calculate_linear_ramp_frequency r 192 (get_max_frequency s) s \<and>
    0 < r \<and> calculate_ramp_step (len - 1) len = 0"
proof -
  have "current s = (if p + int len < 385 then p + int len - 1 else p + int len - 385)"
    unfolding assms(9) using assms(4,5) len(2,3) by (auto simp: mod_wheel)
  then have t: "nat \<bar>circular_signed_distance p (current s)\<bar> = 385 - len"
    using assms(4,5) len(2,3) by (auto simp: circular_signed_distance_def wheel_constants Let_def)
  have ramp: "calculate_ramp_step (385 - len) len = r" using len r by (auto simp: calculate_ramp_step_def)
  have "target s \<noteq> current s"
  proof
    assume "target s = current s"
    then have "(p + int len) mod 384 = (p + int len - 1) mod 384" using assms(9,10) by simp
    then have "(384 :: int) dvd 1" by (simp add: mod_eq_dvd_iff)
    then show False by simp
  qed
  moreover note wheel_inv_ramp [OF assms(1,2), of "385 - len"]
  ultimately have "step_frequency (whw (process_step_event e s)) = calculate_linear_ramp_frequency r 192 (get_max_frequency s) s"
    using assms(2,3,11) t ramp len(1)
    by (simp add: process_step_event_def polarizer_set_frequency_def wheel_constants Let_def)
  then show ?thesis using len r by (auto simp: calculate_ramp_step_def)
qed

text \<open>From the pass-through to the horizontal position, 240 degrees forward, the last step is at full speed.\<close>

abbreviation ramp_example :: polarizer where
  "ramp_example \<equiv> wheel_zero\<lparr>wstate := STATE_POSITIONING, current := 255, target := 256,
     acceleration := \<lparr>min_frequency = 192, acceleration_active = True, start_pos = 0, total_distance = 256\<rparr>\<rparr>"

abbreviation good_rets :: wheel_rets where
  "good_rets \<equiv> \<lparr>drv_enable_ret = 0, drv_scale_ret = 0, pwm_ret = 0, dir_ret = 0, enc_power_ret = 0, enc_int_ret = 0\<rparr>"

abbreviation good_env :: wheel_env where
  "good_env \<equiv> \<lparr>rets = (\<lambda>_. good_rets), uptime_ms = (\<lambda>_. 0), edge_waits = (\<lambda>_. (False, 0)), spin_events = (\<lambda>_. [])\<rparr>"

lemma long_ramp_ends_fast_witness:
  "step_frequency (whw (process_step_event good_env ramp_example)) = 1920 \<and> get_max_frequency ramp_example = 1920 \<and>
    calculate_ramp_step 255 256 = 0"
proof -
  have inv: "wheel_inv ramp_example" by (simp add: wheel_inv_def wheel_zero_def MAX_SPEED_DEFAULT_MS_PER_TURN_def)
  have max: "get_max_frequency ramp_example = 1920"
    by (simp add: get_max_frequency_def wheel_zero_def MAX_SPEED_DEFAULT_MS_PER_TURN_def wheel_constants)
  have "get_linear_acceleration_usteps_per_s2 ramp_example = 64000"
    by (simp add: get_linear_acceleration_usteps_per_s2_def wheel_zero_def LINEAR_ACCELERATION_DEFAULT_def wheel_constants)
  with ramp_frequency_sqrt [of 192 126 ramp_example 1920]
  obtain r where r: "16164864 < (r + 1) * (r + 1)" "calculate_linear_ramp_frequency 126 192 1920 ramp_example = min r 1920" by auto
  have "1920 \<le> r"
  proof (rule ccontr)
    assume "\<not> 1920 \<le> r"
    then have "(r + 1) * (r + 1) \<le> 1920 * 1920" by (intro mult_le_mono) simp_all
    then show False using r(1) by simp
  qed
  then have "calculate_linear_ramp_frequency 126 192 1920 ramp_example = 1920" using r(2) by simp
  then show ?thesis
    using long_ramp_ends_fast [OF inv, where p = 0 and len = 256 and e = good_env and r = 126] max by simp
qed

lemma set_angle_reaches_target_witness:
  "let s = wheel_zero\<lparr>wstate := STATE_IDLE\<rparr>; r = execute_set_angle good_env 0 900 False s in
    fst r = 0 \<and> current ((wheel_move good_env ^^ 96) (snd r)) = 96 \<and> wstate ((wheel_move good_env ^^ 96) (snd r)) = STATE_IDLE"
proof -
  let ?s = "wheel_zero\<lparr>wstate := STATE_IDLE\<rparr>"
  have inv: "wheel_inv ?s" using wheel_inv_zero by (simp add: wheel_inv_updates)
  obtain ret s' where r: "execute_set_angle good_env 0 900 False ?s = (ret, s')" by fastforce
  have t: "set_angle_target 900 = 96" "steps_to False 0 96 = 96" "current ?s = 0"
    by (simp_all add: set_angle_target_def steps_to_def wheel_constants wheel_zero_def)
  have "ret = 0 \<and> wstate s' = STATE_POSITIONING"
    using r by (auto simp: execute_set_angle_def wheel_zero_def get_current_position_def angle_to_position_def set_angle_course_def
        set_direction_def polarizer_rotate_def polarizer_set_frequency_def get_max_frequency_def MAX_SPEED_DEFAULT_MS_PER_TURN_def
        wheel_constants Let_def)
  then show ?thesis
    using set_angle_reaches_target [OF inv, of good_env 0 900 False s', OF _ _ _ _ _ _ refl refl] r t
    by (simp add: wheel_zero_def)
qed

subsection \<open>Homing\<close>

lemma waits_motor:
  "waits (polarizer_halt e s) = waits s" "waits (disable_drv s) = waits s" "waits (enable_encoder e s) = waits s"
  "waits (snd (disable_encoder e s)) = waits s" "waits (set_direction e d s) = waits s" "waits (report_reached_state e s) = waits s"
  "waits (reset_encoder_sem s) = waits s" "waits (snd (wait_encoder e s)) = waits s + 1" "waits (POLARIZER_HOMING_FAIL e s) = waits s"
  by (simp_all add: polarizer_halt_def disable_drv_def enable_encoder_def disable_encoder_def set_direction_def report_reached_state_def
      reset_encoder_sem_def wait_encoder_def POLARIZER_HOMING_FAIL_def Let_def isrs_frame split: prod.split)

lemma waits_rotate: "waits (snd (polarizer_rotate e f s)) = waits s"
  by (simp add: polarizer_rotate_def Let_def set_frequency_frame)

lemma waits_step_relative: "waits (snd (polarizer_wheel_step_relative e f n s)) = waits s"
  by (simp add: polarizer_wheel_step_relative_def Let_def waits_rotate waits_motor)

lemma homing_failed: "wstate (POLARIZER_HOMING_FAIL e s) = STATE_UNINITIALIZED \<and> \<not> homing_success (POLARIZER_HOMING_FAIL e s)"
  by (simp add: POLARIZER_HOMING_FAIL_def polarizer_halt_def disable_drv_def disable_encoder_def Let_def)

lemma homing_spin_result:
  "homing_spin e a s = (r, s') \<Longrightarrow> waits s' \<le> waits s + (3 - a) \<and>
    (r = Spin_failed \<longrightarrow> wstate s' = STATE_UNINITIALIZED \<and> \<not> homing_success s')"
proof (induction e a s arbitrary: r s' rule: homing_spin.induct)
  case (1 e a s)
  show ?case
  proof (cases "a < HOMING_SPIN_ATTEMPTS")
    case True
    let ?s1 = "reset_encoder_sem (s\<lparr>current := 0\<rparr>)"
    obtain ret s2 where rel: "polarizer_wheel_step_relative e PWM_FREQUENCY_DEFAULT (int MICROSTEPS_120 * 2) ?s1 = (ret, s2)" by fastforce
    obtain b s3 where w: "wait_encoder e s2 = (b, s3)" by fastforce
    have "waits s2 = waits s" using waits_step_relative [of e PWM_FREQUENCY_DEFAULT "int MICROSTEPS_120 * 2" ?s1]
      unfolding rel by (simp add: waits_motor)
    moreover have "waits s3 = waits s2 + 1" using waits_motor(8) [of e s2] unfolding w by simp
    moreover have "(r, s') =
        (if ret \<noteq> 0 then (Spin_failed, POLARIZER_HOMING_FAIL e s2)
         else if b then (Spin_edge, polarizer_halt e s3) else homing_spin e (a + 1) s3)"
      using "1.prems" by (auto simp: homing_spin.simps [of e a s] True rel w split: if_splits)
    ultimately show ?thesis
      using "1.IH" [OF True refl rel [symmetric] refl _ w [symmetric] refl, of r s'] True
      by (auto simp: waits_motor homing_failed HOMING_SPIN_ATTEMPTS_def split: if_splits)
  qed (use "1.prems" in \<open>simp add: homing_spin.simps\<close>)
qed

lemma homing_notches_result:
  "homing_notches e n s = (r, s') \<Longrightarrow> waits s' \<le> waits s + 3 * (9 - n) \<and>
    (r = None \<longrightarrow> wstate s' = STATE_UNINITIALIZED \<and> \<not> homing_success s')"
proof (induction e n s arbitrary: r s' rule: homing_notches.induct)
  case (1 e n s)
  obtain q s1 where h: "homing_spin e 0 s = (q, s1)" by fastforce
  note spin = homing_spin_result [OF h]
  show ?case
  proof (cases "n < NOTCH_DETECT_ATTEMPTS")
    case True
    then have n: "n < 9" by (simp add: NOTCH_DETECT_ATTEMPTS_def)
    let ?s2 = "s1\<lparr>notch_count := n + 1, current := 0\<rparr>"
    let ?hit = "n \<noteq> 0 \<and> current s1 < 4 * int MICROSTEPS_PER_STEP \<and> 5 * int MICROSTEPS_PER_STEP div 2 < current s1"
    have eq: "homing_notches e n s =
        (case q of Spin_failed \<Rightarrow> (None, s1) | Spin_none \<Rightarrow> (None, POLARIZER_HOMING_FAIL e s1)
         | Spin_edge \<Rightarrow> if ?hit then (Some True, ?s2) else homing_notches e (n + 1) ?s2)"
      by (simp add: homing_notches.simps [of e n s] True h Let_def split: spin_result.split)
    show ?thesis
    proof (cases q)
      case Spin_edge
      then show ?thesis
        using "1.IH" [OF True h [symmetric] Spin_edge refl refl] "1.prems" spin n unfolding eq by (auto split: if_splits)
    qed (use "1.prems" spin eq n in \<open>auto simp: waits_motor homing_failed\<close>)
  qed (use "1.prems" in \<open>auto simp: homing_notches.simps\<close>)
qed

lemma homing_finish_result:
  "wstate (homing_finish e s) = STATE_IDLE \<and> homing_success (homing_finish e s) \<and> current (homing_finish e s) = 0 \<and>
    waits (homing_finish e s) \<le> waits s + 2"
  by (simp add: homing_finish_def report_reached_state_def Let_def case_prod_beta waits_motor waits_step_relative)

lemma homing_run_result:
  assumes "homing_run e s = (homed, s')"
  shows "waits s' \<le> waits s + 29 \<and>
    (if homed then wstate s' = STATE_IDLE \<and> homing_success s' \<and> current s' = 0
     else wstate s' = STATE_UNINITIALIZED \<and> \<not> homing_success s')"
proof -
  obtain r s1 where h: "homing_notches e 0 (homing_start e s) = (r, s1)" by fastforce
  have "waits (homing_start e s) = waits s" by (simp add: homing_start_def Let_def waits_motor)
  then show ?thesis
    using assms homing_notches_result [OF h] homing_finish_result [of e s1]
    by (auto simp: homing_run_def h waits_motor homing_failed split: option.splits if_splits)
qed

lemma waits_calibration_spin: "waits (snd (calibration_spin evs s)) = waits s"
proof (induction evs s rule: calibration_spin.induct)
  case (2 edge_seen is_high n evs s)
  let ?s1 = "(polarizer_wheel_step_isr ^^ n) s"
  let ?r = "if edge_seen then calibration_edge is_high (?s1\<lparr>whw := (whw ?s1)\<lparr>encoder_sem := False\<rparr>\<rparr>) else (False, ?s1)"
  obtain b s2 where r: "?r = (b, s2)" by fastforce
  have "waits (snd ?r) = waits s" by (simp add: calibration_edge_def Let_def isrs_frame)
  then have "waits s2 = waits s" unfolding r by simp
  then show ?case using "2.IH" [OF refl r [symmetric] refl] by (simp add: r Let_def)
qed simp

lemma calibration_one_spin_result:
  "calibration_one_spin e s = (r, s') \<Longrightarrow> waits s' \<le> waits s + 1 \<and> (r = None \<longrightarrow> wstate s' = STATE_IDLE)"
  by (auto simp: calibration_one_spin_def Let_def case_prod_beta waits_motor waits_step_relative waits_calibration_spin split: if_splits)

lemma calibration_run_result:
  assumes "calibration_run e s = (complete, s')" and "wstate s = STATE_IDLE"
  shows "wstate s' = STATE_IDLE \<and> waits s' \<le> waits s + 2 \<and> (complete \<longrightarrow> \<not> needs_calibration (calibration s'))"
proof -
  let ?s1 = "calibration_start s"
  let ?s2 = "?s1\<lparr>whw := (whw ?s1)\<lparr>encoder_power := True\<rparr>\<rparr>"
  let ?s3 = "set_direction e FORWARD (reset_encoder_sem (?s2\<lparr>whw := (whw ?s2)\<lparr>encoder_interrupt := INT_EDGE_BOTH\<rparr>\<rparr>))"
  obtain r4 s4 where r4: "calibration_one_spin e ?s3 = (r4, s4)" by fastforce
  obtain r5 s5 where r5: "calibration_one_spin e s4 = (r5, s5)" by fastforce
  have w: "waits ?s3 = waits s" by (simp add: calibration_start_def waits_motor)
  have cend: "wstate (calibration_end e t) = STATE_IDLE" "waits (calibration_end e t) = waits t"
    "\<not> needs_calibration (calibration (calibration_end e t))" for t
    by (simp_all add: calibration_end_def Let_def waits_motor)
  show ?thesis
    using assms calibration_one_spin_result [OF r4] calibration_one_spin_result [OF r5] w
    unfolding calibration_run_def Let_def r4 prod.case r5
    by (auto simp: cend calibration_start_def split: option.splits bool.splits if_splits)
qed

text \<open>
  C27. Homing always ends, after at most 60 waits, a calibration and the homing after it included; the wheel is then idle, or not initialised and not
  homed. When no calibration is due, the wheel is idle exactly if it is homed, and then stands at 0.
\<close>

theorem homing_ends:
  "waits (execute_homing e s) \<le> waits s + 60 \<and>
    (wstate (execute_homing e s) = STATE_IDLE \<or> wstate (execute_homing e s) = STATE_UNINITIALIZED \<and> \<not> homing_success (execute_homing e s)) \<and>
    (needs_calibration (calibration s) \<or>
      (if homing_success (execute_homing e s) then wstate (execute_homing e s) = STATE_IDLE \<and> current (execute_homing e s) = 0
       else wstate (execute_homing e s) = STATE_UNINITIALIZED))"
proof -
  have plain: "waits (execute_homing e t) \<le> waits t + 29 \<and>
      (if homing_success (execute_homing e t) then wstate (execute_homing e t) = STATE_IDLE \<and> current (execute_homing e t) = 0
       else wstate (execute_homing e t) = STATE_UNINITIALIZED)" if "\<not> needs_calibration (calibration t)" for t
  proof -
    obtain b t1 where h: "homing_run e t = (b, t1)" by fastforce
    have "calibration t1 = calibration t" using calibration_homing [of e t] h by simp
    then show ?thesis using homing_run_result [OF h] that by (simp add: execute_homing.simps [of e t] h split: if_splits)
  qed
  show ?thesis
  proof (cases "needs_calibration (calibration s)")
    case False
    then show ?thesis using plain [OF False] by (auto split: if_splits)
  next
    case True
    obtain b s1 where h: "homing_run e s = (b, s1)" by fastforce
    note run = homing_run_result [OF h]
    show ?thesis
    proof (cases b)
      case False
      then show ?thesis using run True by (simp add: execute_homing.simps [of e s] h)
    next
      case homed: True
      have "calibration s1 = calibration s" using calibration_homing [of e s] h by simp
      then have eq: "execute_homing e s = execute_calibration e (s1\<lparr>calibration := (calibration s1)\<lparr>needs_calibration := False\<rparr>\<rparr>)"
        using homed True by (simp add: execute_homing.simps [of e s] h)
      let ?c = "s1\<lparr>calibration := (calibration s1)\<lparr>needs_calibration := False\<rparr>\<rparr>"
      obtain k s2 where c: "calibration_run e ?c = (k, s2)" by fastforce
      have "wstate ?c = STATE_IDLE" using run homed by simp
      note cal = calibration_run_result [OF c this]
      show ?thesis
      proof (cases k)
        case False
        then show ?thesis using cal run True by (simp add: eq execute_calibration.simps c)
      next
        case k: True
        then have "\<not> needs_calibration (calibration s2)" using cal by simp
        from plain [OF this] k show ?thesis using cal run True by (auto simp: eq execute_calibration.simps c split: if_splits)
      qed
    qed
  qed
qed

end
