(* ===== verification/Runner.thy ===== *)
theory Runner
  imports Boot Dfu Pubsub Mirror Temperature Uart Ir_Camera Polarizer
begin

unbundle bit_operations_syntax

text \<open>
  The runner (\<^verbatim>\<open>runner/runner.c\<close>): jobs from the CAN bus, the UART and the shell are queued, and one
  thread dispatches each to the component it is for and acknowledges it. The state gathers the components
  the handlers call; a call into a component without a model is an entry of \<open>calls\<close>, with what it returns a parameter.
\<close>

subsection \<open>Jobs and acknowledgements\<close>

datatype remote_type_e = CAN_JETSON_MESSAGING | CAN_SEC_MCU_MESSAGING | UART_MESSAGING | CLI

datatype ack_code =
    ACK_SUCCESS | ACK_FAIL | ACK_RANGE | ACK_IN_PROGRESS | ACK_OPERATION_NOT_SUPPORTED | ACK_OVER_TEMPERATURE
  | ACK_INVALID_STATE | ACK_FORBIDDEN | ACK_VERSION

text \<open>Formats of LED sequences: the bytes, or a format that is not known.\<close>

datatype led_data = Rgb_uncompressed "u8 list" | Argb32_uncompressed "u8 list" | Led_data_other

datatype led_group = Center_leds | Ring_leds | Distributor_leds | Cone_leds

text \<open>Calls into components that are not modelled.\<close>

datatype runner_call =
    Call_front_leds_set_pattern nat nat int
  | Call_leds_sequence led_group led_data
  | Call_cone_leds_set_pattern nat
  | Call_white_leds_set_brightness nat
  | Call_front_leds_set_brightness nat
  | Call_operator_leds_set_pattern nat nat bool
  | Call_operator_leds_set_brightness nat
  | Call_front_leds_boot_progress_set nat
  | Call_config_set_reboot_behavior nat
  | Call_liquid_set_target_current_ma int
  | Call_liquid_lens_enable bool
  | Call_voltage_measurement_set_publish_period nat
  | Call_version_fw_send u32
  | Call_version_hw_send u32
  | Call_ui_cone_present_send u32
  | Call_date_set_time "int list"
  | Call_date_set_time_epoch nat
  | Call_publish_flush
  | Call_fatal_errors_trigger nat
  | Call_dfu_primary_confirm

datatype mirror_angles = Horizontal_vertical nat int | Phi_theta nat nat | Angles_other
datatype mirror_deltas = Rel_horizontal_vertical int int | Rel_phi_theta int int | Deltas_other
datatype homing_mode = ONE_BLOCKING_END | STALL_DETECTION | WITH_KNOWN_COORDINATES | HOMING_OTHER
datatype homing_axis = AXIS_BOTH | AXIS_HORIZONTAL_PHI | AXIS_VERTICAL_THETA
datatype polarizer_command = POLARIZER_HOME | POLARIZER_PASS_THROUGH | POLARIZER_0_HORIZONTAL
  | POLARIZER_90_VERTICAL | POLARIZER_CUSTOM_ANGLE int | POLARIZER_CALIBRATE_HOME | POLARIZER_OTHER
datatype value_get = FIRMWARE_VERSIONS | HARDWARE_VERSIONS | CONE_PRESENT | VALUE_OTHER
datatype time_format = Human_readable nat nat nat nat nat nat | Epoch_time nat | Time_other

text \<open>The messages of the Jetson with the fields the handlers read; \<open>Msg_other\<close> is a tag without a handler.\<close>

datatype jetson_cmd =
    Msg_shutdown nat | Msg_reboot nat | Msg_reboot_orb nat
  | Msg_mirror_angle mirror_angles | Msg_mirror_angle_relative mirror_deltas | Msg_do_homing homing_mode homing_axis
  | Msg_infrared_leds wavelength | Msg_led_on_time nat | Msg_fps nat
  | Msg_start_triggering camera | Msg_stop_triggering camera
  | Msg_user_leds_pattern nat nat int | Msg_leds_sequence led_group led_data | Msg_cone_leds_pattern nat
  | Msg_white_leds_brightness nat | Msg_user_leds_brightness nat | Msg_distributor_leds_pattern nat nat bool
  | Msg_distributor_leds_brightness nat
  | Msg_fan_speed fan_payload nat | Msg_temperature_sample_period nat
  | Msg_dfu_block u32 u32 "u8 list" | Msg_fw_image_check u32 | Msg_fw_image_secondary_activate bool
  | Msg_fw_image_primary_confirm
  | Msg_liquid_lens int bool | Msg_power_cycle power_line nat
  | Msg_polarizer polarizer_command nat bool | Msg_polarizer_wheel_settings nat nat
  | Msg_voltage_request nat | Msg_heartbeat nat | Msg_value_get value_get
  | Msg_focus_sweep_lens_values "u8 list" | Msg_focus_sweep_values_polynomial "int sweep_polynomial"
  | Msg_perform_focus_sweep | Msg_mirror_sweep_values_polynomial "(int \<times> int) sweep_polynomial" | Msg_perform_mirror_sweep
  | Msg_sync_diag_data nat | Msg_diag_test nat | Msg_set_time time_format | Msg_boot_complete
  | Msg_set_config "nat option" | Msg_other nat

datatype sec_cmd = Sec_ping_pong ping_msg | Sec_other nat

datatype job_message = Jetson_cmd jetson_cmd | Sec_cmd sec_cmd

record job_t =
  remote :: remote_type_e
  remote_addr :: u32
  ack_number :: u32
  job_msg :: job_message

record handle_error_context_s =
  ctx_remote :: remote_type_e
  ctx_remote_addr :: u32
  ctx_ack_number :: u32

text \<open>What is published: acknowledgements, and the announcement of a shutdown with its time.\<close>

datatype runner_event = Ack u32 u32 ack_code | Shutdown_scheduled nat

datatype dfu_context = DFU_BLOCK_CONTEXT | FW_CRC_CONTEXT

record ('s, 'f) runner =
  job_counter :: nat
  published :: "runner_event list"
  calls :: "runner_call list"
  subscribers :: "u32 list"
  r_ir :: ir_camera
  r_mirror :: mirror
  r_wheel :: polarizer
  r_ctl :: overtemp_ctl
  r_heartbeat :: heartbeat
  r_ping :: ping
  r_reboot :: reboot_ctl
  r_power :: power_cycle
  r_bbram :: "u8 list"
  r_dfu :: "('s, 'f, dfu_context) dfu"
  dfu_block_context :: handle_error_context_s
  fw_crc_context :: handle_error_context_s

text \<open>
  What does not change during a job. \<open>call_ret\<close> is what a call into a component without a model returns;
  versions are major, minor and revision.
\<close>

record ('s, 'f) runner_env =
  brd :: board
  irenv :: ir_env
  xactual :: "motor_t \<Rightarrow> int"
  wheel_mutex_free :: bool
  clk :: kernel_clock
  pin_ret :: gpio
  hw :: hw_version
  hw_evt :: bool
  debug_cfg :: bool
  cone_cfg :: bool
  from_ci :: bool
  operator_leds :: nat
  reboot_thread_exists :: bool
  uptime :: nat
  bbram_size :: "int \<times> nat"
  bbram_write :: "nat \<Rightarrow> u8 list \<Rightarrow> u8 list \<Rightarrow> int \<times> u8 list"
  dfu_config :: dfu_cfg
  sems :: "'s sem_api"
  dfu_activate :: "bool \<Rightarrow> ('s, 'f, dfu_context) dfu \<Rightarrow> int \<times> ('s, 'f, dfu_context) dfu"
  secondary_version :: "(nat \<times> nat \<times> nat) option"
  primary_version :: "nat \<times> nat \<times> nat"
  primary_is_confirmed :: bool
  ping_send_fn :: send_fn
  ping_test_max :: nat
  call_ret :: "runner_call \<Rightarrow> int"

definition job_ack :: "ack_code \<Rightarrow> job_t \<Rightarrow> ('s, 'f) runner \<Rightarrow> ('s, 'f) runner" where
  "job_ack err job s =
    (let s1 = (if remote job = CAN_JETSON_MESSAGING
               then s\<lparr>published := published s @ [Ack (remote_addr job) (ack_number job) err]\<rparr> else s)
     in if err = ACK_SUCCESS then s1\<lparr>job_counter := (job_counter s1 + 1) mod 2 ^ 32\<rparr> else s1)"

fun ack_of_err :: "ret_code_t \<Rightarrow> ack_code" where
  "ack_of_err RET_SUCCESS = ACK_SUCCESS"
| "ack_of_err RET_ERROR_INVALID_PARAM = ACK_RANGE"
| "ack_of_err RET_ERROR_NOT_FOUND = ACK_RANGE"
| "ack_of_err RET_ERROR_BUSY = ACK_IN_PROGRESS"
| "ack_of_err RET_ERROR_INVALID_STATE = ACK_IN_PROGRESS"
| "ack_of_err RET_ERROR_FORBIDDEN = ACK_OPERATION_NOT_SUPPORTED"
| "ack_of_err _ = ACK_FAIL"

text \<open>The callback of the firmware update reads the context when it is called.\<close>

definition handle_err_code :: "dfu_context \<Rightarrow> ret_code_t \<Rightarrow> ('s, 'f) runner \<Rightarrow> ('s, 'f) runner" where
  "handle_err_code ctx err s =
    (let c = (case ctx of DFU_BLOCK_CONTEXT \<Rightarrow> dfu_block_context s | FW_CRC_CONTEXT \<Rightarrow> fw_crc_context s);
         s1 = (if ctx_remote c = CAN_JETSON_MESSAGING
               then s\<lparr>published := published s @ [Ack (ctx_remote_addr c) (ctx_ack_number c) (ack_of_err err)]\<rparr> else s)
     in if err = RET_SUCCESS then s1\<lparr>job_counter := (job_counter s1 + 1) mod 2 ^ 32\<rparr> else s1)"

definition call :: "runner_call \<Rightarrow> ('s, 'f) runner \<Rightarrow> ('s, 'f) runner" where
  "call c s = s\<lparr>calls := calls s @ [c]\<rparr>"

text \<open>A call whose success decides the acknowledgement.\<close>

definition call_ack :: "('s, 'f) runner_env \<Rightarrow> runner_call \<Rightarrow> job_t \<Rightarrow> ('s, 'f) runner \<Rightarrow> ('s, 'f) runner" where
  "call_ack e c job s = job_ack (if call_ret e c = rc RET_SUCCESS then ACK_SUCCESS else ACK_FAIL) job (call c s)"

subsection \<open>Infrared camera system\<close>

definition handle_infrared_leds_message :: "('s, 'f) runner_env \<Rightarrow> wavelength \<Rightarrow> job_t \<Rightarrow> ('s, 'f) runner \<Rightarrow> ('s, 'f) runner" where
  "handle_infrared_leds_message e w job s =
    (let (err, ir) = ir_camera_system_enable_leds (brd e) (irenv e) w (r_ir s)
     in job_ack (case err of RET_SUCCESS \<Rightarrow> ACK_SUCCESS | RET_ERROR_BUSY \<Rightarrow> ACK_INVALID_STATE
          | RET_ERROR_FORBIDDEN \<Rightarrow> ACK_FORBIDDEN | RET_ERROR_INVALID_PARAM \<Rightarrow> ACK_OPERATION_NOT_SUPPORTED
          | _ \<Rightarrow> ACK_FAIL) job (s\<lparr>r_ir := ir\<rparr>))"

definition handle_led_on_time_message :: "('s, 'f) runner_env \<Rightarrow> nat \<Rightarrow> job_t \<Rightarrow> ('s, 'f) runner \<Rightarrow> ('s, 'f) runner" where
  "handle_led_on_time_message e on_time_us job s =
    (let (ret, ir) = ir_camera_system_set_on_time_us (brd e) (irenv e) on_time_us (r_ir s)
     in job_ack (case ret of RET_SUCCESS \<Rightarrow> ACK_SUCCESS | RET_ERROR_FORBIDDEN \<Rightarrow> ACK_FORBIDDEN
          | RET_ERROR_INVALID_PARAM \<Rightarrow> ACK_RANGE | _ \<Rightarrow> ACK_FAIL) job (s\<lparr>r_ir := ir\<rparr>))"

text \<open>Only the handlers of the eye camera look at the result.\<close>

definition ack_of_eye_camera :: "ret_code_t \<Rightarrow> ack_code" where
  "ack_of_eye_camera err = (case err of RET_SUCCESS \<Rightarrow> ACK_SUCCESS | RET_ERROR_BUSY \<Rightarrow> ACK_INVALID_STATE | _ \<Rightarrow> ACK_FAIL)"

definition handle_start_triggering_ir_eye_camera_message ::
    "('s, 'f) runner_env \<Rightarrow> job_t \<Rightarrow> ('s, 'f) runner \<Rightarrow> ('s, 'f) runner" where
  "handle_start_triggering_ir_eye_camera_message e job s =
    (let (err, ir) = ir_camera_enable (brd e) Ir_eye (r_ir s) in job_ack (ack_of_eye_camera err) job (s\<lparr>r_ir := ir\<rparr>))"

definition handle_stop_triggering_ir_eye_camera_message ::
    "('s, 'f) runner_env \<Rightarrow> job_t \<Rightarrow> ('s, 'f) runner \<Rightarrow> ('s, 'f) runner" where
  "handle_stop_triggering_ir_eye_camera_message e job s =
    (let (err, ir) = ir_camera_disable (brd e) Ir_eye (r_ir s) in job_ack (ack_of_eye_camera err) job (s\<lparr>r_ir := ir\<rparr>))"

definition handle_start_triggering_ir_face_camera_message ::
    "('s, 'f) runner_env \<Rightarrow> job_t \<Rightarrow> ('s, 'f) runner \<Rightarrow> ('s, 'f) runner" where
  "handle_start_triggering_ir_face_camera_message e job s =
     job_ack ACK_SUCCESS job (s\<lparr>r_ir := snd (ir_camera_enable (brd e) Ir_face (r_ir s))\<rparr>)"

definition handle_start_triggering_rgb_face_camera_message ::
    "('s, 'f) runner_env \<Rightarrow> job_t \<Rightarrow> ('s, 'f) runner \<Rightarrow> ('s, 'f) runner" where
  "handle_start_triggering_rgb_face_camera_message e job s =
     job_ack ACK_SUCCESS job (s\<lparr>r_ir := snd (ir_camera_enable (brd e) Rgb_face (r_ir s))\<rparr>)"

definition handle_start_triggering_2dtof_camera_message ::
    "('s, 'f) runner_env \<Rightarrow> job_t \<Rightarrow> ('s, 'f) runner \<Rightarrow> ('s, 'f) runner" where
  "handle_start_triggering_2dtof_camera_message e job s =
     job_ack ACK_SUCCESS job (s\<lparr>r_ir := snd (ir_camera_enable (brd e) Tof_2d (r_ir s))\<rparr>)"

definition handle_stop_triggering_ir_face_camera_message ::
    "('s, 'f) runner_env \<Rightarrow> job_t \<Rightarrow> ('s, 'f) runner \<Rightarrow> ('s, 'f) runner" where
  "handle_stop_triggering_ir_face_camera_message e job s =
     job_ack ACK_SUCCESS job (s\<lparr>r_ir := snd (ir_camera_disable (brd e) Ir_face (r_ir s))\<rparr>)"

definition handle_stop_triggering_rgb_face_camera_message ::
    "('s, 'f) runner_env \<Rightarrow> job_t \<Rightarrow> ('s, 'f) runner \<Rightarrow> ('s, 'f) runner" where
  "handle_stop_triggering_rgb_face_camera_message e job s =
     job_ack ACK_SUCCESS job (s\<lparr>r_ir := snd (ir_camera_disable (brd e) Rgb_face (r_ir s))\<rparr>)"

definition handle_stop_triggering_2dtof_camera_message ::
    "('s, 'f) runner_env \<Rightarrow> job_t \<Rightarrow> ('s, 'f) runner \<Rightarrow> ('s, 'f) runner" where
  "handle_stop_triggering_2dtof_camera_message e job s =
     job_ack ACK_SUCCESS job (s\<lparr>r_ir := snd (ir_camera_disable (brd e) Tof_2d (r_ir s))\<rparr>)"

text \<open>The frame rate is cut to 16 bits.\<close>

definition handle_fps :: "('s, 'f) runner_env \<Rightarrow> nat \<Rightarrow> job_t \<Rightarrow> ('s, 'f) runner \<Rightarrow> ('s, 'f) runner" where
  "handle_fps e f job s =
    (let (ret, ir) = ir_camera_system_set_fps (brd e) (irenv e) (f mod 2 ^ 16) (r_ir s)
     in job_ack (case ret of RET_SUCCESS \<Rightarrow> ACK_SUCCESS | RET_ERROR_BUSY \<Rightarrow> ACK_INVALID_STATE
          | RET_ERROR_FORBIDDEN \<Rightarrow> ACK_FORBIDDEN | RET_ERROR_INVALID_PARAM \<Rightarrow> ACK_RANGE | _ \<Rightarrow> ACK_FAIL)
          job (s\<lparr>r_ir := ir\<rparr>))"

text \<open>The values are pairs of bytes, the first the least significant, read as signed numbers.\<close>

fun le_i16s :: "u8 list \<Rightarrow> int list" where
  "le_i16s (a # b # bs) = sint (word_of_nat (unat b * 256 + unat a) :: 16 word) # le_i16s bs"
| "le_i16s _ = []"

definition handle_ir_eye_camera_focus_sweep_lens_values :: "u8 list \<Rightarrow> job_t \<Rightarrow> ('s, 'f) runner \<Rightarrow> ('s, 'f) runner" where
  "handle_ir_eye_camera_focus_sweep_lens_values bytes job s =
    (let (ret, ir) = set_focus_values_for_focus_sweep (le_i16s bytes) (length bytes div 2) (r_ir s)
     in job_ack (case ret of RET_SUCCESS \<Rightarrow> ACK_SUCCESS | RET_ERROR_BUSY \<Rightarrow> ACK_INVALID_STATE
          | RET_ERROR_INVALID_PARAM \<Rightarrow> ACK_RANGE | _ \<Rightarrow> ACK_FAIL) job (s\<lparr>r_ir := ir\<rparr>))"

definition handle_ir_eye_camera_focus_sweep_values_polynomial ::
    "int sweep_polynomial \<Rightarrow> job_t \<Rightarrow> ('s, 'f) runner \<Rightarrow> ('s, 'f) runner" where
  "handle_ir_eye_camera_focus_sweep_values_polynomial p job s =
    (let (err, ir) = set_polynomial_for_focus_sweep p (r_ir s)
     in job_ack (case err of RET_SUCCESS \<Rightarrow> ACK_SUCCESS | RET_ERROR_BUSY \<Rightarrow> ACK_INVALID_STATE | _ \<Rightarrow> ACK_FAIL) job (s\<lparr>r_ir := ir\<rparr>))"

definition handle_ir_eye_camera_mirror_sweep_values_polynomial ::
    "(int \<times> int) sweep_polynomial \<Rightarrow> job_t \<Rightarrow> ('s, 'f) runner \<Rightarrow> ('s, 'f) runner" where
  "handle_ir_eye_camera_mirror_sweep_values_polynomial p job s =
    (let (err, ir) = set_polynomial_for_mirror_sweep p (r_ir s)
     in job_ack (case err of RET_SUCCESS \<Rightarrow> ACK_SUCCESS | RET_ERROR_BUSY \<Rightarrow> ACK_INVALID_STATE | _ \<Rightarrow> ACK_FAIL) job (s\<lparr>r_ir := ir\<rparr>))"

definition ack_of_sweep :: "ret_code_t \<Rightarrow> ack_code" where
  "ack_of_sweep ret =
    (case ret of RET_ERROR_BUSY \<Rightarrow> ACK_IN_PROGRESS | RET_ERROR_INVALID_STATE \<Rightarrow> ACK_INVALID_STATE
     | RET_ERROR_FORBIDDEN \<Rightarrow> ACK_FORBIDDEN | RET_SUCCESS \<Rightarrow> ACK_SUCCESS | _ \<Rightarrow> ACK_FAIL)"

definition handle_perform_ir_eye_camera_focus_sweep :: "('s, 'f) runner_env \<Rightarrow> job_t \<Rightarrow> ('s, 'f) runner \<Rightarrow> ('s, 'f) runner" where
  "handle_perform_ir_eye_camera_focus_sweep e job s =
    (let (ret, ir) = ir_camera_system_perform_focus_sweep (brd e) (irenv e) (r_ir s) in job_ack (ack_of_sweep ret) job (s\<lparr>r_ir := ir\<rparr>))"

definition handle_perform_ir_eye_camera_mirror_sweep :: "('s, 'f) runner_env \<Rightarrow> job_t \<Rightarrow> ('s, 'f) runner \<Rightarrow> ('s, 'f) runner" where
  "handle_perform_ir_eye_camera_mirror_sweep e job s =
    (let (ret, ir) = ir_camera_system_perform_mirror_sweep (brd e) (irenv e) (r_ir s) in job_ack (ack_of_sweep ret) job (s\<lparr>r_ir := ir\<rparr>))"

subsection \<open>Power\<close>

definition runner_reboot :: "('s, 'f) runner_env \<Rightarrow> nat \<Rightarrow> ('s, 'f) runner \<Rightarrow> ret_code_t \<times> ('s, 'f) runner" where
  "runner_reboot e delay s =
    (let (ret, r) = reboot (pin_ret e) (hw e) (hw_evt e) (reboot_thread_exists e) delay (r_reboot s) in (ret, s\<lparr>r_reboot := r\<rparr>))"

definition handle_shutdown :: "('s, 'f) runner_env \<Rightarrow> nat \<Rightarrow> job_t \<Rightarrow> ('s, 'f) runner \<Rightarrow> ('s, 'f) runner" where
  "handle_shutdown e delay job s =
    (if 30 < delay then job_ack ACK_RANGE job s
     else let (ret, s1) = runner_reboot e delay s
       in if ret = RET_SUCCESS then job_ack ACK_SUCCESS job s1 else job_ack ACK_FAIL job s1)"

definition handle_reboot_message :: "('s, 'f) runner_env \<Rightarrow> nat \<Rightarrow> job_t \<Rightarrow> ('s, 'f) runner \<Rightarrow> ('s, 'f) runner" where
  "handle_reboot_message e delay job s =
    (if 60 < delay then job_ack ACK_RANGE job s
     else let (ret, s1) = runner_reboot e delay s
       in if ret = RET_SUCCESS
          then let s2 = job_ack ACK_SUCCESS job s1 in s2\<lparr>published := published s2 @ [Shutdown_scheduled (delay * 1000)]\<rparr>
          else job_ack ACK_FAIL job s1)"

text \<open>The end of the handler, reached from every failure, is \<open>reboot_orb_fail\<close>.\<close>

definition reboot_orb_fail :: "('s, 'f) runner_env \<Rightarrow> job_t \<Rightarrow> ('s, 'f) runner \<Rightarrow> ('s, 'f) runner" where
  "reboot_orb_fail e job s =
     job_ack ACK_FAIL job
       (s\<lparr>r_bbram := snd (backup_regs_write_byte (bbram_size e) (bbram_write e) REBOOT_FLAG_OFFSET_BYTE 0 (r_bbram s))\<rparr>)"

definition handle_reboot_orb :: "('s, 'f) runner_env \<Rightarrow> nat \<Rightarrow> job_t \<Rightarrow> ('s, 'f) runner \<Rightarrow> ('s, 'f) runner" where
  "handle_reboot_orb e delay job s =
    (if delay \<noteq> 0 \<and> (60 < delay \<or> delay < 10) then reboot_orb_fail e job (job_ack ACK_RANGE job s)
     else
      let (ret, regs) = backup_regs_write_byte (bbram_size e) (bbram_write e) REBOOT_FLAG_OFFSET_BYTE REBOOT_INSTABOOT (r_bbram s);
          s1 = s\<lparr>r_bbram := regs\<rparr>
      in if ret = 0
         then let (ret2, s2) = (if delay \<noteq> 0 then runner_reboot e delay s1 else (RET_SUCCESS, s1))
           in if ret2 = RET_SUCCESS then job_ack ACK_SUCCESS job s2 else reboot_orb_fail e job s2
         else reboot_orb_fail e job s1)"

definition handle_power_cycle :: "('s, 'f) runner_env \<Rightarrow> power_line \<Rightarrow> nat \<Rightarrow> job_t \<Rightarrow> ('s, 'f) runner \<Rightarrow> ('s, 'f) runner" where
  "handle_power_cycle e line duration_ms job s =
    (let (ret, p) = power_cycle_supply (brd e) (debug_cfg e) (pin_ret e) line duration_ms (uptime e) (r_power s)
     in job_ack (if ret = rc RET_SUCCESS then ACK_SUCCESS
          else if ret = rc RET_ERROR_NOT_FOUND then ACK_OPERATION_NOT_SUPPORTED
          else if ret = rc RET_ERROR_INVALID_PARAM then ACK_RANGE
          else if ret = rc RET_ERROR_FORBIDDEN then ACK_FORBIDDEN else ACK_FAIL) job (s\<lparr>r_power := p\<rparr>))"

definition handle_set_config :: "('s, 'f) runner_env \<Rightarrow> nat option \<Rightarrow> job_t \<Rightarrow> ('s, 'f) runner \<Rightarrow> ('s, 'f) runner" where
  "handle_set_config e cfg job s =
    (case cfg of Some b \<Rightarrow> call_ack e (Call_config_set_reboot_behavior b) job s | None \<Rightarrow> job_ack ACK_RANGE job s)"

definition handle_boot_complete :: "('s, 'f) runner_env \<Rightarrow> job_t \<Rightarrow> ('s, 'f) runner \<Rightarrow> ('s, 'f) runner" where
  "handle_boot_complete e job s = call_ack e (Call_front_leds_boot_progress_set BOOT_PROGRESS_STEP_DONE) job s"

subsection \<open>Mirror\<close>

text \<open>Division in C rounds towards 0.\<close>

definition half :: "int \<Rightarrow> int" where
  "half x = (if x < 0 then - (- x div 2) else x div 2)"

definition to_i32 :: "int \<Rightarrow> int" where
  "to_i32 x = sint (word_of_int x :: u32)"

definition mirror_result_ack :: "ret_code_t \<Rightarrow> ack_code" where
  "mirror_result_ack ret =
    (if ret \<noteq> RET_SUCCESS then (if ret = RET_ERROR_INVALID_PARAM then ACK_RANGE else ACK_FAIL) else ACK_SUCCESS)"

definition mirror_targets :: "mirror_angles \<Rightarrow> (int \<times> int) option" where
  "mirror_targets a =
    (case a of
       Horizontal_vertical h v \<Rightarrow> Some (- half (to_i32 (int h) - 45000) + 45000, half v + 90000)
     | Phi_theta phi theta \<Rightarrow> Some (int phi, int theta)
     | Angles_other \<Rightarrow> None)"

definition handle_mirror_angle_message :: "('s, 'f) runner_env \<Rightarrow> mirror_angles \<Rightarrow> job_t \<Rightarrow> ('s, 'f) runner \<Rightarrow> ('s, 'f) runner" where
  "handle_mirror_angle_message e a job s =
    (case mirror_targets a of
       None \<Rightarrow> job_ack ACK_FAIL job s
     | Some (phi, theta) \<Rightarrow>
         if mirror_auto_homing_in_progress (brd e) (r_mirror s) then job_ack ACK_IN_PROGRESS job s
         else
          let (r1, m1) = mirror_set_angle (brd e) phi MOTOR_PHI_ANGLE (r_mirror s);
              (r2, m2) = (if r1 = RET_SUCCESS then mirror_set_angle (brd e) theta MOTOR_THETA_ANGLE m1 else (r1, m1))
          in job_ack (mirror_result_ack r2) job (s\<lparr>r_mirror := m2\<rparr>))"

definition mirror_deltas_of :: "mirror_deltas \<Rightarrow> (int \<times> int) option" where
  "mirror_deltas_of a =
    (case a of
       Rel_horizontal_vertical h v \<Rightarrow> Some (- half h, half v)
     | Rel_phi_theta phi theta \<Rightarrow> Some (phi, theta)
     | Deltas_other \<Rightarrow> None)"

definition handle_mirror_angle_relative_message ::
    "('s, 'f) runner_env \<Rightarrow> mirror_deltas \<Rightarrow> job_t \<Rightarrow> ('s, 'f) runner \<Rightarrow> ('s, 'f) runner" where
  "handle_mirror_angle_relative_message e a job s =
    (case mirror_deltas_of a of
       None \<Rightarrow> job_ack ACK_FAIL job s
     | Some (phi, theta) \<Rightarrow>
         if mirror_auto_homing_in_progress (brd e) (r_mirror s) then job_ack ACK_IN_PROGRESS job s
         else
          let (r1, m1) = mirror_set_angle_relative (brd e) (xactual e MOTOR_PHI_ANGLE) phi MOTOR_PHI_ANGLE (r_mirror s);
              (r2, m2) = (if r1 = RET_SUCCESS
                          then mirror_set_angle_relative (brd e) (xactual e MOTOR_THETA_ANGLE) theta MOTOR_THETA_ANGLE m1 else (r1, m1))
          in job_ack (mirror_result_ack r2) job (s\<lparr>r_mirror := m2\<rparr>))"

definition handle_do_mirror_homing ::
    "('s, 'f) runner_env \<Rightarrow> homing_mode \<Rightarrow> homing_axis \<Rightarrow> job_t \<Rightarrow> ('s, 'f) runner \<Rightarrow> ('s, 'f) runner" where
  "handle_do_mirror_homing e mode axis job s =
    (if mirror_auto_homing_in_progress (brd e) (r_mirror s) then job_ack ACK_IN_PROGRESS job s
     else if mode = STALL_DETECTION then job_ack ACK_OPERATION_NOT_SUPPORTED job s
     else if mode = ONE_BLOCKING_END
     then
      (case brd e of
         Pearl \<Rightarrow>
           let (r1, m1) = (if axis = AXIS_BOTH \<or> axis = AXIS_HORIZONTAL_PHI
                           then mirror_autohoming Pearl (Some MOTOR_PHI_ANGLE) (r_mirror s) else (RET_SUCCESS, r_mirror s));
               (r2, m2) = (if axis = AXIS_BOTH \<or> axis = AXIS_VERTICAL_THETA
                           then mirror_autohoming Pearl (Some MOTOR_THETA_ANGLE) m1 else (RET_SUCCESS, m1))
           in job_ack (if r1 = RET_SUCCESS \<and> r2 = RET_SUCCESS then ACK_SUCCESS else ACK_FAIL) job (s\<lparr>r_mirror := m2\<rparr>)
       | Diamond \<Rightarrow>
           let (r, m) = mirror_autohoming Diamond None (r_mirror s)
           in job_ack (if r = RET_SUCCESS then ACK_SUCCESS else ACK_FAIL) job (s\<lparr>r_mirror := m\<rparr>))
     else if mode = WITH_KNOWN_COORDINATES
     then
      (case brd e of
         Pearl \<Rightarrow> job_ack ACK_SUCCESS job s
       | Diamond \<Rightarrow>
           let (r, m) = mirror_go_home Diamond (r_mirror s)
           in job_ack (if r = 0 then ACK_SUCCESS else ACK_FAIL) job (s\<lparr>r_mirror := m\<rparr>))
     else job_ack ACK_OPERATION_NOT_SUPPORTED job s)"

subsection \<open>LEDs and the other optics\<close>

definition OPERATOR_LEDS_ALL_MASK :: "nat \<Rightarrow> nat" where "OPERATOR_LEDS_ALL_MASK leds = 2 ^ leds - 1"

definition handle_user_leds_pattern :: "('s, 'f) runner_env \<Rightarrow> nat \<Rightarrow> nat \<Rightarrow> int \<Rightarrow> job_t \<Rightarrow> ('s, 'f) runner \<Rightarrow> ('s, 'f) runner" where
  "handle_user_leds_pattern e pattern start_angle angle_length job s =
    (if FULL_RING_DEGREES < start_angle \<or> int FULL_RING_DEGREES < to_i32 \<bar>angle_length\<bar> then job_ack ACK_RANGE job s
     else call_ack e (Call_front_leds_set_pattern pattern start_angle angle_length) job s)"

definition leds_sequence :: "('s, 'f) runner_env \<Rightarrow> led_group \<Rightarrow> led_data \<Rightarrow> job_t \<Rightarrow> ('s, 'f) runner \<Rightarrow> ('s, 'f) runner" where
  "leds_sequence e g d job s =
    (case d of Led_data_other \<Rightarrow> job_ack ACK_FAIL job s | _ \<Rightarrow> call_ack e (Call_leds_sequence g d) job s)"

definition handle_user_center_leds_sequence :: "('s, 'f) runner_env \<Rightarrow> led_data \<Rightarrow> job_t \<Rightarrow> ('s, 'f) runner \<Rightarrow> ('s, 'f) runner" where
  "handle_user_center_leds_sequence e d job s = leds_sequence e Center_leds d job s"

definition handle_user_ring_leds_sequence :: "('s, 'f) runner_env \<Rightarrow> led_data \<Rightarrow> job_t \<Rightarrow> ('s, 'f) runner \<Rightarrow> ('s, 'f) runner" where
  "handle_user_ring_leds_sequence e d job s = leds_sequence e Ring_leds d job s"

definition handle_distributor_leds_sequence :: "('s, 'f) runner_env \<Rightarrow> led_data \<Rightarrow> job_t \<Rightarrow> ('s, 'f) runner \<Rightarrow> ('s, 'f) runner" where
  "handle_distributor_leds_sequence e d job s = leds_sequence e Distributor_leds d job s"

definition handle_cone_leds_sequence :: "('s, 'f) runner_env \<Rightarrow> led_data \<Rightarrow> job_t \<Rightarrow> ('s, 'f) runner \<Rightarrow> ('s, 'f) runner" where
  "handle_cone_leds_sequence e d job s =
    (if \<not> cone_cfg e then job_ack ACK_FAIL job s else leds_sequence e Cone_leds d job s)"

definition handle_cone_leds_pattern :: "('s, 'f) runner_env \<Rightarrow> nat \<Rightarrow> job_t \<Rightarrow> ('s, 'f) runner \<Rightarrow> ('s, 'f) runner" where
  "handle_cone_leds_pattern e p job s =
    (if \<not> cone_cfg e then job_ack ACK_OPERATION_NOT_SUPPORTED job s
     else job_ack ACK_SUCCESS job (call (Call_cone_leds_set_pattern p) s))"

definition handle_white_leds_brightness :: "nat \<Rightarrow> job_t \<Rightarrow> ('s, 'f) runner \<Rightarrow> ('s, 'f) runner" where
  "handle_white_leds_brightness n job s =
    (if 1000 < n then job_ack ACK_RANGE job s else job_ack ACK_SUCCESS job (call (Call_white_leds_set_brightness n) s))"

definition handle_user_leds_brightness :: "nat \<Rightarrow> job_t \<Rightarrow> ('s, 'f) runner \<Rightarrow> ('s, 'f) runner" where
  "handle_user_leds_brightness n job s =
    (if 255 < n then job_ack ACK_RANGE job s else job_ack ACK_SUCCESS job (call (Call_front_leds_set_brightness n) s))"

text \<open>\<open>rgb\<close>: the pattern is the one with a custom colour, which is passed on only then.\<close>

definition handle_distributor_leds_pattern ::
    "('s, 'f) runner_env \<Rightarrow> nat \<Rightarrow> nat \<Rightarrow> bool \<Rightarrow> job_t \<Rightarrow> ('s, 'f) runner \<Rightarrow> ('s, 'f) runner" where
  "handle_distributor_leds_pattern e p m rgb job s =
    (if OPERATOR_LEDS_ALL_MASK (operator_leds e) < m then job_ack ACK_RANGE job s
     else call_ack e (Call_operator_leds_set_pattern p m rgb) job s)"

definition handle_distributor_leds_brightness :: "('s, 'f) runner_env \<Rightarrow> nat \<Rightarrow> job_t \<Rightarrow> ('s, 'f) runner \<Rightarrow> ('s, 'f) runner" where
  "handle_distributor_leds_brightness e n job s =
    (if 255 < n then job_ack ACK_RANGE job s else call_ack e (Call_operator_leds_set_brightness n) job s)"

definition handle_liquid_lens :: "('s, 'f) runner_env \<Rightarrow> int \<Rightarrow> bool \<Rightarrow> job_t \<Rightarrow> ('s, 'f) runner \<Rightarrow> ('s, 'f) runner" where
  "handle_liquid_lens e current_ma enable job s =
    (if \<not> (LIQUID_LENS_MIN_CURRENT_MA \<le> current_ma \<and> current_ma \<le> LIQUID_LENS_MAX_CURRENT_MA) then job_ack ACK_RANGE job s
     else
      let err = call_ret e (Call_liquid_set_target_current_ma current_ma); s1 = call (Call_liquid_set_target_current_ma current_ma) s
      in if err = rc RET_SUCCESS then call (Call_liquid_lens_enable enable) (job_ack ACK_SUCCESS job s1)
         else if err = rc RET_ERROR_BUSY then job_ack ACK_INVALID_STATE job s1
         else job_ack ACK_FAIL job s1)"

definition polarizer_async_ack :: "ret_code_t \<Rightarrow> ack_code" where
  "polarizer_async_ack err =
    (if err = RET_SUCCESS then ACK_SUCCESS else if err = RET_ERROR_BUSY then ACK_IN_PROGRESS else ACK_INVALID_STATE)"

definition polarizer_angle_ack :: "ret_code_t \<Rightarrow> ack_code" where
  "polarizer_angle_ack err =
    (if err = RET_SUCCESS then ACK_SUCCESS else if err = RET_ERROR_BUSY then ACK_IN_PROGRESS
     else if err = RET_ERROR_INVALID_PARAM then ACK_RANGE else ACK_FAIL)"

text \<open>The angle of a message is converted to an unsigned number.\<close>

definition handle_polarizer ::
    "('s, 'f) runner_env \<Rightarrow> polarizer_command \<Rightarrow> nat \<Rightarrow> bool \<Rightarrow> job_t \<Rightarrow> ('s, 'f) runner \<Rightarrow> ('s, 'f) runner" where
  "handle_polarizer e command speed shortest_path job s =
    (let freq = (if speed \<noteq> 0 then MICROSTEPS_360 * 1000 div speed else 0);
         set_angle = (\<lambda>a. let (err, w) = polarizer_wheel_set_angle (wheel_mutex_free e) freq a shortest_path (r_wheel s)
                          in job_ack (polarizer_angle_ack err) job (s\<lparr>r_wheel := w\<rparr>));
         async = (\<lambda>(err, w). job_ack (polarizer_async_ack err) job (s\<lparr>r_wheel := w\<rparr>))
     in case command of
          POLARIZER_HOME \<Rightarrow> async (polarizer_wheel_home_async (wheel_mutex_free e) (r_wheel s))
        | POLARIZER_PASS_THROUGH \<Rightarrow> set_angle 0
        | POLARIZER_0_HORIZONTAL \<Rightarrow> set_angle 2400
        | POLARIZER_90_VERTICAL \<Rightarrow> set_angle 1200
        | POLARIZER_CUSTOM_ANGLE a \<Rightarrow> set_angle (nat (a mod 2 ^ 32))
        | POLARIZER_CALIBRATE_HOME \<Rightarrow> async (polarizer_wheel_calibrate_async (wheel_mutex_free e) (r_wheel s))
        | POLARIZER_OTHER \<Rightarrow> job_ack ACK_OPERATION_NOT_SUPPORTED job s)"

definition handle_polarizer_wheel_settings :: "nat \<Rightarrow> nat \<Rightarrow> job_t \<Rightarrow> ('s, 'f) runner \<Rightarrow> ('s, 'f) runner" where
  "handle_polarizer_wheel_settings accel max_speed_ms job s =
     job_ack ACK_SUCCESS job
       (s\<lparr>r_wheel := polarizer_wheel_set_max_speed max_speed_ms (polarizer_wheel_set_acceleration accel (r_wheel s))\<rparr>)"

subsection \<open>Firmware update\<close>

definition job_context :: "job_t \<Rightarrow> handle_error_context_s" where
  "job_context job = \<lparr>ctx_remote = remote job, ctx_remote_addr = remote_addr job, ctx_ack_number = ack_number job\<rparr>"

definition handle_dfu_block_message ::
    "('s, 'f) runner_env \<Rightarrow> u32 \<Rightarrow> u32 \<Rightarrow> u8 list \<Rightarrow> job_t \<Rightarrow> ('s, 'f) runner \<Rightarrow> ('s, 'f) runner" where
  "handle_dfu_block_message e n count bytes job s =
    (let s1 = s\<lparr>dfu_block_context := job_context job\<rparr>;
         (ret, d) = dfu_load (dfu_config e) (sems e) n count bytes (Some DFU_BLOCK_CONTEXT) (r_dfu s1);
         s2 = s1\<lparr>r_dfu := d\<rparr>
     in case ret of
          In_Progress \<Rightarrow> s2
        | Ret r \<Rightarrow> job_ack (case r of RET_SUCCESS \<Rightarrow> ACK_SUCCESS | RET_ERROR_NO_MEM \<Rightarrow> ACK_INVALID_STATE
            | RET_ERROR_INVALID_PARAM \<Rightarrow> ACK_RANGE | RET_ERROR_BUSY \<Rightarrow> ACK_IN_PROGRESS | _ \<Rightarrow> ACK_FAIL) job s2)"

definition handle_fw_img_crc :: "('s, 'f) runner_env \<Rightarrow> u32 \<Rightarrow> job_t \<Rightarrow> ('s, 'f) runner \<Rightarrow> ('s, 'f) runner" where
  "handle_fw_img_crc e crc32 job s =
    (let s1 = s\<lparr>fw_crc_context := job_context job\<rparr>;
         (ret, d) = dfu_secondary_check_async (sems e) crc32 (Some FW_CRC_CONTEXT) (r_dfu s1);
         s2 = s1\<lparr>r_dfu := d\<rparr>
     in case ret of
          In_Progress \<Rightarrow> s2
        | Ret r \<Rightarrow> job_ack (if r = RET_ERROR_INVALID_STATE then ACK_INVALID_STATE else ACK_FAIL) job s2)"

definition handle_fw_img_sec_activate :: "('s, 'f) runner_env \<Rightarrow> bool \<Rightarrow> job_t \<Rightarrow> ('s, 'f) runner \<Rightarrow> ('s, 'f) runner" where
  "handle_fw_img_sec_activate e permanent job s =
    (let (ret, d) = dfu_activate e permanent (r_dfu s)
     in job_ack (if ret \<noteq> 0 then ACK_FAIL else ACK_SUCCESS) job (s\<lparr>r_dfu := d\<rparr>))"

definition version_less :: "nat \<times> nat \<times> nat \<Rightarrow> nat \<times> nat \<times> nat \<Rightarrow> bool" where
  "version_less p q =
    (let (p1, p2, p3) = p; (q1, q2, q3) = q
     in p1 < q1 \<or> (p1 = q1 \<and> p2 < q2) \<or> (p1 = q1 \<and> p2 = q2 \<and> p3 < q3))"

definition handle_fw_img_primary_confirm :: "('s, 'f) runner_env \<Rightarrow> job_t \<Rightarrow> ('s, 'f) runner \<Rightarrow> ('s, 'f) runner" where
  "handle_fw_img_primary_confirm e job s =
    (if (case secondary_version e of None \<Rightarrow> False | Some v \<Rightarrow> version_less (primary_version e) v)
     then job_ack ACK_VERSION job s
     else if primary_is_confirmed e then job_ack ACK_INVALID_STATE job s
     else job_ack (if call_ret e Call_dfu_primary_confirm \<noteq> 0 then ACK_FAIL else ACK_SUCCESS) job (call Call_dfu_primary_confirm s))"

subsection \<open>Temperature, health and the rest\<close>

fun ack_of_fan :: "fan_ack \<Rightarrow> ack_code" where
  "ack_of_fan Ack_SUCCESS = ACK_SUCCESS"
| "ack_of_fan Ack_RANGE = ACK_RANGE"
| "ack_of_fan Ack_OVER_TEMPERATURE = ACK_OVER_TEMPERATURE"
| "ack_of_fan Ack_OPERATION_NOT_SUPPORTED = ACK_OPERATION_NOT_SUPPORTED"

definition runner_fan_speed :: "fan_payload \<Rightarrow> nat \<Rightarrow> job_t \<Rightarrow> ('s, 'f) runner \<Rightarrow> ('s, 'f) runner" where
  "runner_fan_speed tag speed job s =
    (let (a, c) = handle_fan_speed tag speed (r_ctl s) in job_ack (ack_of_fan a) job (s\<lparr>r_ctl := c\<rparr>))"

definition handle_temperature_sample_period_message ::
    "('s, 'f) runner_env \<Rightarrow> nat \<Rightarrow> job_t \<Rightarrow> ('s, 'f) runner \<Rightarrow> ('s, 'f) runner" where
  "handle_temperature_sample_period_message e ms job s =
    (let (ret, c) = temperature_set_sampling_period_ms (clk e) ms (r_ctl s)
     in job_ack (if ret = RET_SUCCESS then ACK_SUCCESS else ACK_RANGE) job (s\<lparr>r_ctl := c\<rparr>))"

definition handle_voltage_request :: "nat \<Rightarrow> job_t \<Rightarrow> ('s, 'f) runner \<Rightarrow> ('s, 'f) runner" where
  "handle_voltage_request period job s = job_ack ACK_SUCCESS job (call (Call_voltage_measurement_set_publish_period period) s)"

text \<open>A boom always succeeds.\<close>

definition handle_heartbeat :: "nat \<Rightarrow> job_t \<Rightarrow> ('s, 'f) runner \<Rightarrow> ('s, 'f) runner" where
  "handle_heartbeat timeout job s = job_ack ACK_SUCCESS job (s\<lparr>r_heartbeat := heartbeat_boom timeout (r_heartbeat s)\<rparr>)"

definition handle_value_get_message :: "value_get \<Rightarrow> job_t \<Rightarrow> ('s, 'f) runner \<Rightarrow> ('s, 'f) runner" where
  "handle_value_get_message v job s =
    (let s1 = call (Call_front_leds_boot_progress_set BOOT_PROGRESS_STEP_JETSON_VALUEGET) s in
     case v of
       FIRMWARE_VERSIONS \<Rightarrow> job_ack ACK_SUCCESS job (call (Call_version_fw_send (remote_addr job)) s1)
     | HARDWARE_VERSIONS \<Rightarrow> job_ack ACK_SUCCESS job (call (Call_version_hw_send (remote_addr job)) s1)
     | CONE_PRESENT \<Rightarrow> job_ack ACK_SUCCESS job (call (Call_ui_cone_present_send (remote_addr job)) s1)
     | VALUE_OTHER \<Rightarrow> job_ack ACK_RANGE job s1)"

definition handle_sync_diag_data :: "job_t \<Rightarrow> ('s, 'f) runner \<Rightarrow> ('s, 'f) runner" where
  "handle_sync_diag_data job s = job_ack ACK_SUCCESS job (call Call_publish_flush s)"

text \<open>Only the faults that are triggered after the acknowledgement are recorded, by their number.\<close>

definition handle_diag_test_data :: "('s, 'f) runner_env \<Rightarrow> nat \<Rightarrow> job_t \<Rightarrow> ('s, 'f) runner \<Rightarrow> ('s, 'f) runner" where
  "handle_diag_test_data e action job s =
    (if from_ci e then job_ack ACK_OPERATION_NOT_SUPPORTED job s
     else call (Call_fatal_errors_trigger action) (job_ack ACK_SUCCESS job s))"

definition handle_set_time :: "('s, 'f) runner_env \<Rightarrow> time_format \<Rightarrow> job_t \<Rightarrow> ('s, 'f) runner \<Rightarrow> ('s, 'f) runner" where
  "handle_set_time e t job s =
    (let s1 = call (Call_front_leds_boot_progress_set BOOT_PROGRESS_STEP_DATE_SET) s;
         (ret, s2) =
           (case t of
              Human_readable y mo d h mi sec \<Rightarrow>
                let c = Call_date_set_time [to_i32 (int y) - 1900, to_i32 (int mo) - 1, int d, int h, int mi, int sec]
                in (call_ret e c, call c s1)
            | Epoch_time n \<Rightarrow> (call_ret e (Call_date_set_time_epoch n), call (Call_date_set_time_epoch n) s1)
            | Time_other \<Rightarrow> (rc RET_ERROR_INVALID_PARAM, s1))
     in job_ack (if ret = rc RET_SUCCESS then ACK_SUCCESS
          else if ret = rc RET_ERROR_INVALID_PARAM \<or> ret = - EINVAL then ACK_RANGE else ACK_FAIL) job s2)"

definition handle_not_supported :: "job_t \<Rightarrow> ('s, 'f) runner \<Rightarrow> ('s, 'f) runner" where
  "handle_not_supported job s = job_ack ACK_OPERATION_NOT_SUPPORTED job s"

definition handle_sec_to_main_ping :: "('s, 'f) runner_env \<Rightarrow> ping_msg \<Rightarrow> ('s, 'f) runner \<Rightarrow> ('s, 'f) runner" where
  "handle_sec_to_main_ping e m s =
     s\<lparr>r_ping := snd (ping_received (ping_send_fn e) (ping_test_max e) (Some m) (r_ping s))\<rparr>"

subsection \<open>Dispatch\<close>

text \<open>The table \<^verbatim>\<open>handle_message_callbacks\<close>; its last entries depend on the board.\<close>

fun handle_message_callbacks :: "('s, 'f) runner_env \<Rightarrow> jetson_cmd \<Rightarrow> job_t \<Rightarrow> ('s, 'f) runner \<Rightarrow> ('s, 'f) runner" where
  "handle_message_callbacks e (Msg_shutdown d) job s = handle_shutdown e d job s"
| "handle_message_callbacks e (Msg_reboot d) job s = handle_reboot_message e d job s"
| "handle_message_callbacks e (Msg_reboot_orb d) job s = handle_reboot_orb e d job s"
| "handle_message_callbacks e (Msg_mirror_angle a) job s = handle_mirror_angle_message e a job s"
| "handle_message_callbacks e (Msg_mirror_angle_relative a) job s = handle_mirror_angle_relative_message e a job s"
| "handle_message_callbacks e (Msg_do_homing m a) job s = handle_do_mirror_homing e m a job s"
| "handle_message_callbacks e (Msg_infrared_leds w) job s = handle_infrared_leds_message e w job s"
| "handle_message_callbacks e (Msg_led_on_time t) job s = handle_led_on_time_message e t job s"
| "handle_message_callbacks e (Msg_fps f) job s = handle_fps e f job s"
| "handle_message_callbacks e (Msg_start_triggering c) job s =
    (case c of
       Ir_eye \<Rightarrow> handle_start_triggering_ir_eye_camera_message e job s
     | Ir_face \<Rightarrow> handle_start_triggering_ir_face_camera_message e job s
     | Rgb_face \<Rightarrow> handle_start_triggering_rgb_face_camera_message e job s
     | Tof_2d \<Rightarrow> handle_start_triggering_2dtof_camera_message e job s)"
| "handle_message_callbacks e (Msg_stop_triggering c) job s =
    (case c of
       Ir_eye \<Rightarrow> handle_stop_triggering_ir_eye_camera_message e job s
     | Ir_face \<Rightarrow> handle_stop_triggering_ir_face_camera_message e job s
     | Rgb_face \<Rightarrow> handle_stop_triggering_rgb_face_camera_message e job s
     | Tof_2d \<Rightarrow> handle_stop_triggering_2dtof_camera_message e job s)"
| "handle_message_callbacks e (Msg_user_leds_pattern p a l) job s = handle_user_leds_pattern e p a l job s"
| "handle_message_callbacks e (Msg_leds_sequence g d) job s =
    (case g of
       Center_leds \<Rightarrow> handle_user_center_leds_sequence e d job s
     | Ring_leds \<Rightarrow> handle_user_ring_leds_sequence e d job s
     | Distributor_leds \<Rightarrow> handle_distributor_leds_sequence e d job s
     | Cone_leds \<Rightarrow> if brd e = Diamond then handle_cone_leds_sequence e d job s else handle_not_supported job s)"
| "handle_message_callbacks e (Msg_cone_leds_pattern p) job s =
    (if brd e = Diamond then handle_cone_leds_pattern e p job s else handle_not_supported job s)"
| "handle_message_callbacks e (Msg_white_leds_brightness n) job s =
    (if brd e = Diamond then handle_white_leds_brightness n job s else handle_not_supported job s)"
| "handle_message_callbacks e (Msg_user_leds_brightness n) job s = handle_user_leds_brightness n job s"
| "handle_message_callbacks e (Msg_distributor_leds_pattern p m rgb) job s = handle_distributor_leds_pattern e p m rgb job s"
| "handle_message_callbacks e (Msg_distributor_leds_brightness n) job s = handle_distributor_leds_brightness e n job s"
| "handle_message_callbacks e (Msg_fan_speed p v) job s = runner_fan_speed p v job s"
| "handle_message_callbacks e (Msg_temperature_sample_period t) job s = handle_temperature_sample_period_message e t job s"
| "handle_message_callbacks e (Msg_dfu_block n c bytes) job s = handle_dfu_block_message e n c bytes job s"
| "handle_message_callbacks e (Msg_fw_image_check crc) job s = handle_fw_img_crc e crc job s"
| "handle_message_callbacks e (Msg_fw_image_secondary_activate p) job s = handle_fw_img_sec_activate e p job s"
| "handle_message_callbacks e Msg_fw_image_primary_confirm job s = handle_fw_img_primary_confirm e job s"
| "handle_message_callbacks e (Msg_liquid_lens c en) job s = handle_liquid_lens e c en job s"
| "handle_message_callbacks e (Msg_power_cycle l d) job s = handle_power_cycle e l d job s"
| "handle_message_callbacks e (Msg_polarizer c v sp) job s =
    (if brd e = Diamond then handle_polarizer e c v sp job s else job_ack ACK_OPERATION_NOT_SUPPORTED job s)"
| "handle_message_callbacks e (Msg_polarizer_wheel_settings a m) job s =
    (if brd e = Diamond then handle_polarizer_wheel_settings a m job s else job_ack ACK_OPERATION_NOT_SUPPORTED job s)"
| "handle_message_callbacks e (Msg_voltage_request p) job s = handle_voltage_request p job s"
| "handle_message_callbacks e (Msg_heartbeat t) job s = handle_heartbeat t job s"
| "handle_message_callbacks e (Msg_value_get v) job s = handle_value_get_message v job s"
| "handle_message_callbacks e (Msg_focus_sweep_lens_values bytes) job s = handle_ir_eye_camera_focus_sweep_lens_values bytes job s"
| "handle_message_callbacks e (Msg_focus_sweep_values_polynomial p) job s = handle_ir_eye_camera_focus_sweep_values_polynomial p job s"
| "handle_message_callbacks e Msg_perform_focus_sweep job s = handle_perform_ir_eye_camera_focus_sweep e job s"
| "handle_message_callbacks e (Msg_mirror_sweep_values_polynomial p) job s = handle_ir_eye_camera_mirror_sweep_values_polynomial p job s"
| "handle_message_callbacks e Msg_perform_mirror_sweep job s = handle_perform_ir_eye_camera_mirror_sweep e job s"
| "handle_message_callbacks e (Msg_sync_diag_data i) job s = handle_sync_diag_data job s"
| "handle_message_callbacks e (Msg_diag_test a) job s = handle_diag_test_data e a job s"
| "handle_message_callbacks e (Msg_set_time t) job s = handle_set_time e t job s"
| "handle_message_callbacks e Msg_boot_complete job s = handle_boot_complete e job s"
| "handle_message_callbacks e (Msg_set_config c) job s = handle_set_config e c job s"
| "handle_message_callbacks e (Msg_other _) job s = job_ack ACK_OPERATION_NOT_SUPPORTED job s"

fun handle_sec_message_callbacks :: "('s, 'f) runner_env \<Rightarrow> sec_cmd \<Rightarrow> job_t \<Rightarrow> ('s, 'f) runner \<Rightarrow> ('s, 'f) runner" where
  "handle_sec_message_callbacks e (Sec_ping_pong m) job s = handle_sec_to_main_ping e m s"
| "handle_sec_message_callbacks e (Sec_other _) job s = job_ack ACK_OPERATION_NOT_SUPPORTED job s"

text \<open>
  One turn of the thread with a job. The message is a union read as the member the remote stands for; \<open>None\<close> when
  the other member was written. A remote that cannot be added to the subscribers is only logged.
\<close>

definition runner_process_job :: "('s, 'f) runner_env \<Rightarrow> job_t \<Rightarrow> ('s, 'f) runner \<Rightarrow> ('s, 'f) runner option" where
  "runner_process_job e job s =
    (let s1 = (if remote_addr job \<noteq> 0
               then s\<lparr>subscribers := (case subscribe_slot (remote_addr job) (subscribers s) of
                                       None \<Rightarrow> subscribers s | Some as \<Rightarrow> as)\<rparr> else s)
     in if remote job = CAN_SEC_MCU_MESSAGING
        then (case job_msg job of Sec_cmd m \<Rightarrow> Some (handle_sec_message_callbacks e m job s1) | Jetson_cmd _ \<Rightarrow> None)
        else (case job_msg job of Jetson_cmd m \<Rightarrow> Some (handle_message_callbacks e m job s1) | Sec_cmd _ \<Rightarrow> None))"

subsection \<open>Jobs coming in\<close>

datatype mcu_message = J_message u32 jetson_cmd | Sec_to_main_message sec_cmd | Other_message

record ('s, 'q) ingress =
  new_job_sem :: 's
  process_queue :: 'q
  new_job :: job_t
  runner_tid :: bool

record can_addresses =
  MCU_TO_JETSON_TX :: u32
  MCU_TO_MCU_TX :: u32

definition job_reply_addr :: "can_addresses \<Rightarrow> u32 \<Rightarrow> u32" where
  "job_reply_addr c dest =
    (if dest AND CAN_ADDR_IS_ISOTP \<noteq> 0
     then (dest AND NOT 0xFF) OR push_bit 4 (dest AND 0xF) OR drop_bit 4 (dest AND 0xF0)
     else MCU_TO_JETSON_TX c)"

definition put_job :: "('q, job_t) msgq_api \<Rightarrow> job_t \<Rightarrow> ('s, 'q) ingress \<Rightarrow> ret_code_t \<times> ('s, 'q) ingress" where
  "put_job mq j s =
    (let (queued, q) = k_msgq_put mq j (process_queue s)
     in (if queued then RET_SUCCESS else RET_ERROR_BUSY, s\<lparr>new_job := j, process_queue := q\<rparr>))"

definition cli_job :: "jetson_cmd \<Rightarrow> job_t" where
  "cli_job m = \<lparr>remote = CLI, remote_addr = 0, ack_number = 0, job_msg = Jetson_cmd m\<rparr>"

definition can_job :: "can_addresses \<Rightarrow> u32 \<Rightarrow> mcu_message \<Rightarrow> job_t option" where
  "can_job c dest m =
    (case m of
       J_message n cmd \<Rightarrow>
         Some \<lparr>remote = CAN_JETSON_MESSAGING, remote_addr = job_reply_addr c dest, ack_number = n, job_msg = Jetson_cmd cmd\<rparr>
     | Sec_to_main_message cmd \<Rightarrow>
         Some \<lparr>remote = CAN_SEC_MCU_MESSAGING, remote_addr = MCU_TO_MCU_TX c, ack_number = 0, job_msg = Sec_cmd cmd\<rparr>
     | Other_message \<Rightarrow> None)"

definition uart_job :: "mcu_message \<Rightarrow> job_t option" where
  "uart_job m =
    (case m of
       J_message n cmd \<Rightarrow> Some \<lparr>remote = UART_MESSAGING, remote_addr = 0, ack_number = 0, job_msg = Jetson_cmd cmd\<rparr>
     | _ \<Rightarrow> None)"

definition runner_handle_new_cli ::
    "'s sem_api \<Rightarrow> ('q, job_t) msgq_api \<Rightarrow> jetson_cmd \<Rightarrow> ('s, 'q) ingress \<Rightarrow> ret_code_t \<times> ('s, 'q) ingress" where
  "runner_handle_new_cli k mq m s =
    (let (taken, sem) = k_sem_take k (new_job_sem s);
         s1 = s\<lparr>new_job_sem := sem\<rparr>;
         (err_code, s2) = (if taken then put_job mq (cli_job m) s1 else (RET_SUCCESS, s1))
     in (err_code, s2\<lparr>new_job_sem := k_sem_give k (new_job_sem s2)\<rparr>))"

text \<open>A message decoded while the semaphore is held; \<open>to_job\<close> makes the job, if the message is for this controller.\<close>

definition handle_decoded ::
    "'s sem_api \<Rightarrow> ('q, job_t) msgq_api \<Rightarrow> mcu_message option \<Rightarrow> (mcu_message \<Rightarrow> job_t option) \<Rightarrow> ('s, 'q) ingress
      \<Rightarrow> ret_code_t \<times> ('s, 'q) ingress" where
  "handle_decoded k mq decoded to_job s =
    (if \<not> runner_tid s then (RET_ERROR_INVALID_STATE, s)
     else
      let (taken, sem) = k_sem_take k (new_job_sem s);
          s1 = s\<lparr>new_job_sem := sem\<rparr>
      in if taken
         then
          let (err_code, s2) =
                (case decoded of
                   None \<Rightarrow> (RET_ERROR_INVALID_PARAM, s1)
                 | Some m \<Rightarrow> (case to_job m of None \<Rightarrow> (RET_ERROR_INVALID_ADDR, s1) | Some j \<Rightarrow> put_job mq j s1))
          in (err_code, s2\<lparr>new_job_sem := k_sem_give k (new_job_sem s2)\<rparr>)
         else (RET_ERROR_BUSY, s1))"

definition runner_handle_new_can ::
    "'s sem_api \<Rightarrow> ('q, job_t) msgq_api \<Rightarrow> can_addresses \<Rightarrow> (u8 list \<Rightarrow> mcu_message option) \<Rightarrow> u32 \<Rightarrow> u8 list
      \<Rightarrow> ('s, 'q) ingress \<Rightarrow> ret_code_t \<times> ('s, 'q) ingress" where
  "runner_handle_new_can k mq c pb_decode dest msg_bytes s = handle_decoded k mq (pb_decode msg_bytes) (can_job c dest) s"

text \<open>The decoder is given the bytes of the message, read in pieces from the ring buffer.\<close>

definition runner_handle_new_uart ::
    "'s sem_api \<Rightarrow> ('q, job_t) msgq_api \<Rightarrow> (u8 list \<Rightarrow> mcu_message option) \<Rightarrow> u8 list \<Rightarrow> uart_message_t
      \<Rightarrow> ('s, 'q) ingress \<Rightarrow> ret_code_t \<times> ('s, 'q) ingress" where
  "runner_handle_new_uart k mq pb_decode buf m s =
     handle_decoded k mq (pb_decode (fst (buf_read_circular buf (start_idx m) (message_length m)))) uart_job s"

definition runner_init :: "can_addresses \<Rightarrow> ('s, 'q) ingress \<times> ('s, 'f) runner \<Rightarrow> ('s, 'q) ingress \<times> ('s, 'f) runner" where
  "runner_init c p =
    (let (i, s) = p
     in (i\<lparr>runner_tid := True\<rparr>,
         s\<lparr>subscribers := (case subscribe_slot (MCU_TO_MCU_TX c) (subscribers s) of None \<Rightarrow> subscribers s | Some as \<Rightarrow> as)\<rparr>))"

text \<open>One turn of \<^verbatim>\<open>runner_process_jobs_thread\<close>: the outer \<open>None\<close> is a wait for a job.\<close>

definition runner_process_jobs_thread ::
    "('q, job_t) msgq_api \<Rightarrow> ('s, 'f) runner_env \<Rightarrow> ('s, 'q) ingress \<times> ('s, 'f) runner
      \<Rightarrow> (('s, 'q) ingress \<times> ('s, 'f) runner) option option" where
  "runner_process_jobs_thread mq e p =
    (let (i, s) = p in
     case k_msgq_get mq (process_queue i) of
       (None, _) \<Rightarrow> None
     | (Some job, q) \<Rightarrow> Some (map_option (Pair (i\<lparr>process_queue := q\<rparr>)) (runner_process_job e job s)))"

subsection \<open>Acknowledgements\<close>

fun is_ack :: "runner_event \<Rightarrow> bool" where
  "is_ack (Ack _ _ _) = True"
| "is_ack (Shutdown_scheduled _) = False"

text \<open>\<open>acked codes job s s'\<close>: from \<open>s\<close> to \<open>s'\<close> the job was acknowledged with these codes, and nothing else was.\<close>

definition acked :: "ack_code list \<Rightarrow> job_t \<Rightarrow> ('s, 'f) runner \<Rightarrow> ('s, 'f) runner \<Rightarrow> bool" where
  "acked codes job s s' \<longleftrightarrow>
     filter is_ack (published s') = filter is_ack (published s) @ map (Ack (remote_addr job) (ack_number job)) codes"

definition acked_once :: "job_t \<Rightarrow> ('s, 'f) runner \<Rightarrow> ('s, 'f) runner \<Rightarrow> bool" where
  "acked_once job s s' \<longleftrightarrow> (\<exists>c. acked [c] job s s')"

lemma acked_job_ack: "remote job = CAN_JETSON_MESSAGING \<Longrightarrow> published s' = published s \<Longrightarrow> acked [c] job s (job_ack c job s')"
  by (simp add: acked_def job_ack_def Let_def)

lemma published_call [simp]: "published (call c s) = published s"
  by (simp add: call_def)

lemma acked_once_ack:
  "remote job = CAN_JETSON_MESSAGING \<Longrightarrow> published s' = published s \<Longrightarrow> acked_once job s (job_ack c job s')"
  unfolding acked_once_def by (blast intro: acked_job_ack)

lemma acked_once_call_ack: "remote job = CAN_JETSON_MESSAGING \<Longrightarrow> acked_once job s (call_ack e c job s)"
  by (simp add: call_ack_def acked_once_ack)

lemma acked_once_call: "acked_once job s s' \<Longrightarrow> acked_once job s (call c s')"
  by (simp add: acked_once_def acked_def)

lemma acked_once_announced:
  "acked_once job s s' \<Longrightarrow> acked_once job s (s'\<lparr>published := published s' @ [Shutdown_scheduled n]\<rparr>)"
  by (simp add: acked_once_def acked_def)

lemma published_runner_reboot: "runner_reboot e d s = (ret, s') \<Longrightarrow> published s' = published s"
  by (auto simp: runner_reboot_def split: prod.splits)

lemmas acked_once_intros = acked_once_call acked_once_announced acked_once_ack acked_once_call_ack

lemmas ir_handler_defs = handle_infrared_leds_message_def handle_led_on_time_message_def handle_fps_def
  handle_start_triggering_ir_eye_camera_message_def handle_start_triggering_ir_face_camera_message_def
  handle_start_triggering_rgb_face_camera_message_def handle_start_triggering_2dtof_camera_message_def
  handle_stop_triggering_ir_eye_camera_message_def handle_stop_triggering_ir_face_camera_message_def
  handle_stop_triggering_rgb_face_camera_message_def handle_stop_triggering_2dtof_camera_message_def
  handle_ir_eye_camera_focus_sweep_lens_values_def
  handle_ir_eye_camera_focus_sweep_values_polynomial_def handle_ir_eye_camera_mirror_sweep_values_polynomial_def
  handle_perform_ir_eye_camera_focus_sweep_def handle_perform_ir_eye_camera_mirror_sweep_def

lemmas led_handler_defs = handle_user_leds_pattern_def handle_user_center_leds_sequence_def handle_user_ring_leds_sequence_def
  handle_distributor_leds_sequence_def handle_cone_leds_sequence_def handle_cone_leds_pattern_def handle_white_leds_brightness_def
  handle_user_leds_brightness_def handle_distributor_leds_pattern_def handle_distributor_leds_brightness_def leds_sequence_def

lemmas misc_handler_defs = runner_fan_speed_def handle_temperature_sample_period_message_def handle_voltage_request_def
  handle_heartbeat_def handle_value_get_message_def handle_sync_diag_data_def handle_diag_test_data_def handle_not_supported_def
  handle_fw_img_sec_activate_def handle_fw_img_primary_confirm_def handle_liquid_lens_def handle_polarizer_def
  handle_polarizer_wheel_settings_def handle_power_cycle_def handle_set_config_def handle_boot_complete_def

text \<open>What a handler leaves to be acknowledged later, and the one it acknowledges twice.\<close>

definition ack_deferred :: "('s, 'f) runner_env \<Rightarrow> jetson_cmd \<Rightarrow> ('s, 'f) runner \<Rightarrow> bool" where
  "ack_deferred e cmd s =
    (case cmd of
       Msg_dfu_block n c bytes \<Rightarrow> fst (dfu_load (dfu_config e) (sems e) n c bytes (Some DFU_BLOCK_CONTEXT) (r_dfu s)) = In_Progress
     | Msg_fw_image_check crc \<Rightarrow> fst (dfu_secondary_check_async (sems e) crc (Some FW_CRC_CONTEXT) (r_dfu s)) = In_Progress
     | _ \<Rightarrow> False)"

definition reboot_orb_range :: "jetson_cmd \<Rightarrow> bool" where
  "reboot_orb_range cmd = (case cmd of Msg_reboot_orb d \<Rightarrow> d \<noteq> 0 \<and> (60 < d \<or> d < 10) | _ \<Rightarrow> False)"

lemma acked_ir:
  assumes can: "remote job = CAN_JETSON_MESSAGING"
  shows "acked_once job s (handle_infrared_leds_message e w job s)" "acked_once job s (handle_led_on_time_message e t job s)"
    "acked_once job s (handle_fps e f job s)"
    "acked_once job s (handle_start_triggering_ir_eye_camera_message e job s)"
    "acked_once job s (handle_start_triggering_ir_face_camera_message e job s)"
    "acked_once job s (handle_start_triggering_rgb_face_camera_message e job s)"
    "acked_once job s (handle_start_triggering_2dtof_camera_message e job s)"
    "acked_once job s (handle_stop_triggering_ir_eye_camera_message e job s)"
    "acked_once job s (handle_stop_triggering_ir_face_camera_message e job s)"
    "acked_once job s (handle_stop_triggering_rgb_face_camera_message e job s)"
    "acked_once job s (handle_stop_triggering_2dtof_camera_message e job s)"
    "acked_once job s (handle_ir_eye_camera_focus_sweep_lens_values bs job s)"
    "acked_once job s (handle_ir_eye_camera_focus_sweep_values_polynomial p job s)"
    "acked_once job s (handle_ir_eye_camera_mirror_sweep_values_polynomial q job s)"
    "acked_once job s (handle_perform_ir_eye_camera_focus_sweep e job s)"
    "acked_once job s (handle_perform_ir_eye_camera_mirror_sweep e job s)"
  by (simp_all add: ir_handler_defs acked_once_ack [OF can] split: prod.splits)

lemma acked_leds:
  assumes can: "remote job = CAN_JETSON_MESSAGING"
  shows "acked_once job s (handle_user_leds_pattern e p a l job s)" "acked_once job s (handle_user_center_leds_sequence e d job s)"
    "acked_once job s (handle_user_ring_leds_sequence e d job s)" "acked_once job s (handle_distributor_leds_sequence e d job s)"
    "acked_once job s (handle_cone_leds_sequence e d job s)" "acked_once job s (handle_cone_leds_pattern e p job s)"
    "acked_once job s (handle_white_leds_brightness n job s)" "acked_once job s (handle_user_leds_brightness n job s)"
    "acked_once job s (handle_distributor_leds_pattern e p m rgb job s)"
    "acked_once job s (handle_distributor_leds_brightness e n job s)"
  by (simp_all add: led_handler_defs acked_once_ack [OF can] acked_once_call_ack [OF can] split: led_data.split)

lemma acked_power:
  assumes can: "remote job = CAN_JETSON_MESSAGING"
  shows "acked_once job s (handle_shutdown e d job s)" "acked_once job s (handle_reboot_message e d job s)"
    "acked_once job s (handle_power_cycle e l t job s)" "acked_once job s (handle_set_config e cfg job s)"
    "acked_once job s (handle_boot_complete e job s)"
  by (auto simp: handle_shutdown_def handle_reboot_message_def handle_power_cycle_def handle_set_config_def handle_boot_complete_def
      Let_def can published_runner_reboot intro!: acked_once_intros split: prod.splits option.split)

lemma acked_mirror:
  assumes can: "remote job = CAN_JETSON_MESSAGING"
  shows "acked_once job s (handle_mirror_angle_message e a job s)" "acked_once job s (handle_mirror_angle_relative_message e b job s)"
    "acked_once job s (handle_do_mirror_homing e m x job s)"
  by (simp_all add: handle_mirror_angle_message_def handle_mirror_angle_relative_message_def handle_do_mirror_homing_def Let_def
      acked_once_ack [OF can] split: prod.split option.split board.split)

lemma acked_misc:
  assumes can: "remote job = CAN_JETSON_MESSAGING"
  shows "acked_once job s (runner_fan_speed f v job s)" "acked_once job s (handle_temperature_sample_period_message e t job s)"
    "acked_once job s (handle_voltage_request t job s)" "acked_once job s (handle_heartbeat t job s)"
    "acked_once job s (handle_value_get_message g job s)" "acked_once job s (handle_sync_diag_data job s)"
    "acked_once job s (handle_diag_test_data e a job s)" "acked_once job s (handle_not_supported job s)"
    "acked_once job s (handle_fw_img_sec_activate e p job s)" "acked_once job s (handle_fw_img_primary_confirm e job s)"
    "acked_once job s (handle_liquid_lens e c en job s)" "acked_once job s (handle_polarizer e pc sp b job s)"
    "acked_once job s (handle_polarizer_wheel_settings x y job s)"
  by (simp_all add: misc_handler_defs Let_def acked_once_call acked_once_ack [OF can]
      split: prod.split option.split value_get.split polarizer_command.split)

lemma acked_set_time:
  "remote job = CAN_JETSON_MESSAGING \<Longrightarrow> acked_once job s (handle_set_time e t job s)"
  by (simp add: handle_set_time_def Let_def acked_once_ack split: time_format.split)

lemma acked_dfu:
  assumes can: "remote job = CAN_JETSON_MESSAGING"
  shows "if ack_deferred e (Msg_dfu_block n c bytes) s then acked [] job s (handle_dfu_block_message e n c bytes job s)
      else acked_once job s (handle_dfu_block_message e n c bytes job s)" (is ?block)
    and "if ack_deferred e (Msg_fw_image_check crc) s then acked [] job s (handle_fw_img_crc e crc job s)
      else acked_once job s (handle_fw_img_crc e crc job s)" (is ?check)
proof -
  show ?block
    by (simp add: handle_dfu_block_message_def ack_deferred_def Let_def acked_def acked_once_ack [OF can]
        split: prod.split dfu_ret.split)
  show ?check
    by (simp add: handle_fw_img_crc_def ack_deferred_def Let_def acked_def acked_once_ack [OF can]
        split: prod.split dfu_ret.split)
qed

lemma acked_reboot_fail:
  assumes can: "remote job = CAN_JETSON_MESSAGING"
  shows "published s' = published s \<Longrightarrow> acked_once job s (reboot_orb_fail e job s')"
    and "acked [c] job s s' \<Longrightarrow> acked [c, ACK_FAIL] job s (reboot_orb_fail e job s')"
  by (simp_all add: reboot_orb_fail_def acked_once_ack [OF can]) (simp add: acked_def job_ack_def can Let_def)

lemma acked_reboot_orb:
  assumes can: "remote job = CAN_JETSON_MESSAGING"
  shows "if reboot_orb_range (Msg_reboot_orb d) then acked [ACK_RANGE, ACK_FAIL] job s (handle_reboot_orb e d job s)
    else acked_once job s (handle_reboot_orb e d job s)"
  by (auto simp: handle_reboot_orb_def reboot_orb_range_def Let_def can published_runner_reboot
      intro!: acked_once_ack acked_reboot_fail acked_job_ack split: prod.splits)

lemmas acked_handlers = acked_ir acked_leds acked_power acked_mirror acked_misc acked_set_time

lemma handle_message_acked:
  assumes can: "remote job = CAN_JETSON_MESSAGING"
  shows "if ack_deferred e cmd s then acked [] job s (handle_message_callbacks e cmd job s)
    else if reboot_orb_range cmd then acked [ACK_RANGE, ACK_FAIL] job s (handle_message_callbacks e cmd job s)
    else acked_once job s (handle_message_callbacks e cmd job s)"
proof (cases cmd)
  case (Msg_dfu_block n c bytes)
  then show ?thesis using acked_dfu(1) [OF can, of e n c bytes s] by (simp add: reboot_orb_range_def)
next
  case (Msg_fw_image_check crc)
  then show ?thesis using acked_dfu(2) [OF can, of e crc s] by (simp add: reboot_orb_range_def)
next
  case (Msg_reboot_orb d)
  then show ?thesis using acked_reboot_orb [OF can, of d s e] by (simp add: ack_deferred_def)
qed (simp_all add: ack_deferred_def reboot_orb_range_def acked_handlers [OF can] acked_once_ack [OF can] split: led_group.split camera.split)

lemma acked_subscribers: "acked codes job (s\<lparr>subscribers := as\<rparr>) s' = acked codes job s s'"
  by (simp add: acked_def)

lemma ack_deferred_subscribers: "ack_deferred e cmd (s\<lparr>subscribers := as\<rparr>) = ack_deferred e cmd s"
  by (cases cmd) (simp_all add: ack_deferred_def)

text \<open>
  C21. A job of the Jetson is acknowledged under its own number to the address it came from, exactly once, when it is handled.
  There are two exceptions: a firmware block or image check that is in progress is not acknowledged then, but
  by its callback (and not always rightly, as the next theorem shows), and a reboot of the orb with a delay
  out of range is acknowledged twice, as out of range and as failed.
\<close>

theorem runner_process_job_acked:
  assumes can: "remote job = CAN_JETSON_MESSAGING" and msg: "job_msg job = Jetson_cmd cmd"
  shows "\<exists>s'. runner_process_job e job s = Some s' \<and>
    (if ack_deferred e cmd s then acked [] job s s'
     else if reboot_orb_range cmd then acked [ACK_RANGE, ACK_FAIL] job s s'
     else \<exists>c. acked [c] job s s')"
proof -
  let ?subscribed = "\<lambda>as. s\<lparr>subscribers := as\<rparr>"
  obtain as where "runner_process_job e job s = Some (handle_message_callbacks e cmd job (?subscribed as))"
  proof
    show "runner_process_job e job s = Some (handle_message_callbacks e cmd job (?subscribed
      (if remote_addr job \<noteq> 0 then (case subscribe_slot (remote_addr job) (subscribers s) of None \<Rightarrow> subscribers s | Some as \<Rightarrow> as)
       else subscribers s)))"
      by (simp add: runner_process_job_def can msg split: option.split)
  qed
  then show ?thesis
    using handle_message_acked [OF can, of e cmd "?subscribed as"]
    by (auto simp: acked_subscribers ack_deferred_subscribers acked_once_def split: if_splits)
qed

lemma runner_process_job_acked_witness:
  "\<forall>(e :: (bool, bool) runner_env) s.
    let job = \<lparr>remote = CAN_JETSON_MESSAGING, remote_addr = 0x80, ack_number = 7, job_msg = Jetson_cmd (Msg_reboot_orb 5)\<rparr>
    in \<exists>s'. runner_process_job e job s = Some s' \<and> acked [ACK_RANGE, ACK_FAIL] job s s'"
proof (intro allI)
  fix e :: "(bool, bool) runner_env" and s
  let ?job = "\<lparr>remote = CAN_JETSON_MESSAGING, remote_addr = 0x80, ack_number = 7, job_msg = Jetson_cmd (Msg_reboot_orb 5)\<rparr>"
  from runner_process_job_acked [of ?job "Msg_reboot_orb 5" e s]
  show "let job = ?job in \<exists>s'. runner_process_job e job s = Some s' \<and> acked [ACK_RANGE, ACK_FAIL] job s s'"
    by (simp add: ack_deferred_def reboot_orb_range_def)
qed

text \<open>
  A second firmware block that is refused because the first is being written takes over its acknowledgement: the handler has already stored
  the number of the second where the callback of the first will read it, so the second is acknowledged twice and the first never.
\<close>

theorem dfu_busy_takes_over_ack:
  assumes "remote job = CAN_JETSON_MESSAGING"
    and "dfu_load (dfu_config e) (sems e) n c bytes (Some DFU_BLOCK_CONTEXT) (r_dfu s) = (Ret RET_ERROR_BUSY, d)"
  shows "published (handle_err_code DFU_BLOCK_CONTEXT err (handle_dfu_block_message e n c bytes job s)) =
    published s @ [Ack (remote_addr job) (ack_number job) ACK_IN_PROGRESS, Ack (remote_addr job) (ack_number job) (ack_of_err err)]"
  using assms by (simp add: handle_dfu_block_message_def handle_err_code_def job_context_def job_ack_def Let_def)

subsection \<open>A reboot of the orb\<close>

lemma latched_after_write:
  assumes "4 \<le> length regs" and "bb_size i = (0, length regs)" and "bb_read i = sim_bbram_read (mem_put 0 [v] regs)"
  shows "latched_reboot_cmd (read_boot_flags i) \<longleftrightarrow> v = REBOOT_INSTABOOT"
proof -
  obtain a b c d rs where regs: "regs = a # b # c # d # rs" using assms(1)
    by (auto simp: numeral_eq_Suc Suc_le_length_iff)
  then show ?thesis using assms
    by (simp add: read_boot_flags_def backup_regs_read_byte_def REBOOT_FLAG_OFFSET_BYTE_def sim_bbram_read_def mem_put_def mem_get_def)
qed

lemma bbram_flag_write:
  assumes "4 \<le> length regs"
  shows "backup_regs_write_byte (0, length regs) sim_bbram_write REBOOT_FLAG_OFFSET_BYTE v regs = (0, mem_put 0 [v] regs)"
    "backup_regs_write_byte (0, length regs) sim_bbram_write REBOOT_FLAG_OFFSET_BYTE v (mem_put 0 [w] regs) = (0, mem_put 0 [v] regs)"
  using assms by (cases regs; simp add: backup_regs_write_byte_def sim_bbram_write_def REBOOT_FLAG_OFFSET_BYTE_def mem_put_def)+

lemma runner_reboot_frame: "runner_reboot e d s = (ret, s1) \<Longrightarrow> r_bbram s1 = r_bbram s \<and> published s1 = published s"
  by (auto simp: runner_reboot_def split: prod.splits)

lemma r_bbram_job_ack [simp]: "r_bbram (job_ack c job s) = r_bbram s"
  by (simp add: job_ack_def Let_def)

lemma acked_unique: "acked cs job s s' \<Longrightarrow> acked ds job s s' \<Longrightarrow> cs = ds"
  by (auto simp: acked_def inj_map_eq_map inj_def)

lemma reboot_orb_result:
  assumes can: "remote job = CAN_JETSON_MESSAGING"
    and bb: "4 \<le> length (r_bbram s)" "bbram_size e = (0, length (r_bbram s))" "bbram_write e = sim_bbram_write"
  shows "acked [ACK_SUCCESS] job s (handle_reboot_orb e delay job s) \<and>
      r_bbram (handle_reboot_orb e delay job s) = mem_put 0 [REBOOT_INSTABOOT] (r_bbram s) \<or>
    \<not> acked [ACK_SUCCESS] job s (handle_reboot_orb e delay job s) \<and>
      r_bbram (handle_reboot_orb e delay job s) = mem_put 0 [0] (r_bbram s)"
proof -
  have fail: "\<not> acked [ACK_SUCCESS] job s (reboot_orb_fail e job s1)" if "acked cs job s s1" for cs s1
    using that can by (auto simp: acked_def reboot_orb_fail_def job_ack_def)
  have none: "acked [] job s s1" if "published s1 = published s" for s1 using that by (simp add: acked_def)
  consider (range) "delay \<noteq> 0 \<and> (60 < delay \<or> delay < 10)" | (now) "delay = 0" | (later) "10 \<le> delay" "delay \<le> 60" by linarith
  then show ?thesis
  proof cases
    case range
    then show ?thesis using fail [OF acked_job_ack [OF can], of s ACK_RANGE] bb
      by (simp add: handle_reboot_orb_def) (simp add: reboot_orb_fail_def bbram_flag_write)
  next
    case now
    then show ?thesis
      using acked_job_ack [OF can, of "s\<lparr>r_bbram := mem_put 0 [REBOOT_INSTABOOT] (r_bbram s)\<rparr>" s ACK_SUCCESS] bb
      by (simp add: handle_reboot_orb_def bbram_flag_write)
  next
    case later
    let ?s = "s\<lparr>r_bbram := mem_put 0 [REBOOT_INSTABOOT] (r_bbram s)\<rparr>"
    obtain ret s2 where r: "runner_reboot e delay ?s = (ret, s2)" by fastforce
    show ?thesis using later r runner_reboot_frame [OF r] bb fail [OF none, of s2] acked_job_ack [OF can, of s2 s ACK_SUCCESS]
      by (cases "ret = RET_SUCCESS") (simp_all add: handle_reboot_orb_def bbram_flag_write, simp_all add: reboot_orb_fail_def bbram_flag_write)
  qed
qed

end
