(* ===== verification/Runner_Jobs.thy ===== *)
theory Runner_Jobs
  imports Runner "HOL-Library.Sublist"
begin

text \<open>
  The threads that bring jobs to the runner (\<^verbatim>\<open>runner_handle_new_cli\<close>, \<^verbatim>\<open>runner_handle_new_can\<close>,
  \<^verbatim>\<open>runner_handle_new_uart\<close> in \<^verbatim>\<open>runner/runner.c\<close>) run at the same time and build their jobs in one static variable
  under a semaphore. Here they are taken step by step, one assignment at a time.
\<close>

subsection \<open>Steps\<close>

datatype job_field = F_remote | F_message | F_ack_number | F_remote_addr

text \<open>The assignments in the order of the code.\<close>

definition job_writes :: "job_t \<Rightarrow> job_field list" where
  "job_writes j =
    (if remote j = CAN_JETSON_MESSAGING \<or> remote j = CAN_SEC_MCU_MESSAGING
     then [F_remote, F_message, F_ack_number, F_remote_addr] else [F_remote, F_message, F_remote_addr, F_ack_number])"

fun write_field :: "job_t \<Rightarrow> job_field \<Rightarrow> job_t \<Rightarrow> job_t" where
  "write_field j F_remote new = new\<lparr>remote := remote j\<rparr>"
| "write_field j F_message new = new\<lparr>job_msg := job_msg j\<rparr>"
| "write_field j F_ack_number new = new\<lparr>ack_number := ack_number j\<rparr>"
| "write_field j F_remote_addr new = new\<lparr>remote_addr := remote_addr j\<rparr>"

text \<open>A thread holds the semaphore and has these fields left to write before it queues the job, or is about to give it back.\<close>

datatype producer = P_idle | P_write job_t "job_field list" | P_give

record ('s, 'q) job_sys =
  ing :: "('s, 'q) ingress"
  producers :: "nat \<Rightarrow> producer"
  offered :: "job_t list"
  handled :: "job_t list"

definition job_source :: "can_addresses \<Rightarrow> job_t \<Rightarrow> bool" where
  "job_source c j \<longleftrightarrow> (\<exists>m. j = cli_job m) \<or> (\<exists>dest m. can_job c dest m = Some j) \<or> (\<exists>m. uart_job m = Some j)"

text \<open>
  \<open>cli_timeout\<close>: a command of the shell may find the semaphore taken. A message that is not decoded, or not for this
  controller, takes the semaphore only to give it back; one from the CAN bus or the UART that finds it taken does nothing.
\<close>

inductive job_step ::
    "'s sem_api \<Rightarrow> ('q, job_t) msgq_api \<Rightarrow> can_addresses \<Rightarrow> bool \<Rightarrow> ('s, 'q) job_sys \<Rightarrow> ('s, 'q) job_sys \<Rightarrow> bool"
  for k mq c cli_timeout where
  js_take: "producers s p = P_idle \<Longrightarrow> k_sem_take k (new_job_sem (ing s)) = (True, sem) \<Longrightarrow> job_source c j \<Longrightarrow>
    job_step k mq c cli_timeout s (s\<lparr>ing := (ing s)\<lparr>new_job_sem := sem\<rparr>,
      producers := (producers s)(p := P_write j (job_writes j)), offered := offered s @ [j]\<rparr>)"
| js_refuse: "producers s p = P_idle \<Longrightarrow> k_sem_take k (new_job_sem (ing s)) = (True, sem) \<Longrightarrow>
    job_step k mq c cli_timeout s (s\<lparr>ing := (ing s)\<lparr>new_job_sem := sem\<rparr>, producers := (producers s)(p := P_give)\<rparr>)"
| js_cli_timeout: "cli_timeout \<Longrightarrow> producers s p = P_idle \<Longrightarrow> k_sem_take k (new_job_sem (ing s)) = (False, sem) \<Longrightarrow>
    job_step k mq c cli_timeout s (s\<lparr>ing := (ing s)\<lparr>new_job_sem := k_sem_give k sem\<rparr>\<rparr>)"
| js_write: "producers s p = P_write j (f # fs) \<Longrightarrow>
    job_step k mq c cli_timeout s (s\<lparr>ing := (ing s)\<lparr>new_job := write_field j f (new_job (ing s))\<rparr>,
      producers := (producers s)(p := P_write j fs)\<rparr>)"
| js_put: "producers s p = P_write j [] \<Longrightarrow> k_msgq_put mq (new_job (ing s)) (process_queue (ing s)) = (queued, q) \<Longrightarrow>
    job_step k mq c cli_timeout s (s\<lparr>ing := (ing s)\<lparr>process_queue := q\<rparr>, producers := (producers s)(p := P_give)\<rparr>)"
| js_give: "producers s p = P_give \<Longrightarrow>
    job_step k mq c cli_timeout s (s\<lparr>ing := (ing s)\<lparr>new_job_sem := k_sem_give k (new_job_sem (ing s))\<rparr>,
      producers := (producers s)(p := P_idle)\<rparr>)"
| js_get: "k_msgq_get mq (process_queue (ing s)) = (Some j, q) \<Longrightarrow>
    job_step k mq c cli_timeout s (s\<lparr>ing := (ing s)\<lparr>process_queue := q\<rparr>, handled := handled s @ [j]\<rparr>)"

inductive_cases job_step_cases: "job_step k mq c cli_timeout s s'"

definition well_typed :: "job_t \<Rightarrow> bool" where
  "well_typed j \<longleftrightarrow> (remote j = CAN_SEC_MCU_MESSAGING) = (case job_msg j of Sec_cmd _ \<Rightarrow> True | Jetson_cmd _ \<Rightarrow> False)"

lemma well_typed_source: "job_source c j \<Longrightarrow> well_typed j"
  unfolding job_source_def
proof (elim disjE exE)
  show "uart_job m = Some j \<Longrightarrow> well_typed j" for m by (cases m) (auto simp: uart_job_def well_typed_def)
  show "can_job c dest m = Some j \<Longrightarrow> well_typed j" for dest m by (cases m) (auto simp: can_job_def well_typed_def)
qed (simp add: cli_job_def well_typed_def)

lemma well_typed_progress: "well_typed j \<longleftrightarrow> (\<exists>s'. runner_process_job e j s = Some s')"
  by (auto simp: well_typed_def runner_process_job_def Let_def split: job_message.split)

subsection \<open>The jobs handled are jobs offered\<close>

text \<open>The fields a writer has already written are those of its job, which is the last one offered and not yet queued.\<close>

definition written :: "job_t \<Rightarrow> job_field list \<Rightarrow> job_t \<Rightarrow> bool" where
  "written j fs new \<longleftrightarrow>
     (F_remote \<in> set fs \<or> remote new = remote j) \<and> (F_message \<in> set fs \<or> job_msg new = job_msg j) \<and>
     (F_ack_number \<in> set fs \<or> ack_number new = ack_number j) \<and> (F_remote_addr \<in> set fs \<or> remote_addr new = remote_addr j)"

lemma written_start: "written j (job_writes j) new"
  by (simp add: written_def job_writes_def)

lemma written_field: "written j (f # fs) new \<Longrightarrow> written j fs (write_field j f new)"
  by (cases f) (auto simp: written_def)

lemma written_all: "written j [] new \<longleftrightarrow> new = j"
  by (auto simp: written_def)

text \<open>
  The semaphore is free and no thread holds it, or one does. \<open>queued\<close> are the jobs that came out of the queue and those still in it.
\<close>

definition producer_inv :: "job_t list \<Rightarrow> ('s, 'q) job_sys \<Rightarrow> producer \<Rightarrow> bool" where
  "producer_inv queued s pc =
    (case pc of
       P_idle \<Rightarrow> False
     | P_give \<Rightarrow> subseq queued (offered s)
     | P_write j fs \<Rightarrow> written j fs (new_job (ing s)) \<and> (\<exists>js. offered s = js @ [j] \<and> subseq queued js))"

definition job_inv :: "('s \<Rightarrow> nat) \<Rightarrow> ('q \<Rightarrow> job_t list) \<Rightarrow> can_addresses \<Rightarrow> ('s, 'q) job_sys \<Rightarrow> bool" where
  "job_inv count contents c s \<longleftrightarrow>
     list_all (job_source c) (offered s) \<and>
     (let queued = handled s @ contents (process_queue (ing s)) in
      (\<forall>p. producers s p = P_idle) \<and> count (new_job_sem (ing s)) = 1 \<and> subseq queued (offered s) \<or>
      (\<exists>p. (\<forall>p'. p' \<noteq> p \<longrightarrow> producers s p' = P_idle) \<and> count (new_job_sem (ing s)) = 0 \<and> producer_inv queued s (producers s p)))"

lemma job_inv_idle:
  "list_all (job_source c) (offered s) \<Longrightarrow> (\<And>p. producers s p = P_idle) \<Longrightarrow> count (new_job_sem (ing s)) = 1 \<Longrightarrow>
    subseq (handled s @ contents (process_queue (ing s))) (offered s) \<Longrightarrow> job_inv count contents c s"
  by (simp add: job_inv_def)

lemma job_inv_busy:
  "list_all (job_source c) (offered s) \<Longrightarrow> (\<And>p'. p' \<noteq> p \<Longrightarrow> producers s p' = P_idle) \<Longrightarrow> count (new_job_sem (ing s)) = 0 \<Longrightarrow>
    producer_inv (handled s @ contents (process_queue (ing s))) s (producers s p) \<Longrightarrow> job_inv count contents c s"
  unfolding job_inv_def Let_def by blast

text \<open>What a thread finds when it holds the semaphore, and when the semaphore is free.\<close>

lemma job_inv_holder:
  assumes "job_inv count contents c s" and "producers s p \<noteq> P_idle"
  shows "count (new_job_sem (ing s)) = 0 \<and> (\<forall>p'. p' \<noteq> p \<longrightarrow> producers s p' = P_idle) \<and>
    producer_inv (handled s @ contents (process_queue (ing s))) s (producers s p)"
  using assms unfolding job_inv_def Let_def by metis

lemma job_inv_free:
  assumes "job_inv count contents c s" and "count (new_job_sem (ing s)) = 1"
  shows "(\<forall>p. producers s p = P_idle) \<and> subseq (handled s @ contents (process_queue (ing s))) (offered s)"
  using assms unfolding job_inv_def Let_def by (metis zero_neq_one)

lemma job_inv_sources: "job_inv count contents c s \<Longrightarrow> list_all (job_source c) (offered s)"
  by (simp add: job_inv_def)

lemma subseq_snoc: "subseq xs ys \<Longrightarrow> subseq xs (ys @ [y])"
  by (rule list_emb_prefix)

locale job_platform = binary_semaphore k count + message_queue mq contents capacity
  for k :: "'s sem_api" and count :: "'s \<Rightarrow> nat" and mq :: "('q, job_t) msgq_api" and contents :: "'q \<Rightarrow> job_t list" and capacity :: nat
begin

lemma take_true: "k_sem_take k sem = (True, sem') \<Longrightarrow> count sem = 1 \<and> count sem' = 0"
  using take_iff [of sem] count_take [of sem] by simp

lemma job_inv_step:
  assumes "job_step k mq c False s s'" and inv: "job_inv count contents c s"
  shows "job_inv count contents c s'"
  using assms(1)
proof cases
  case (js_take p sem j)
  note free = take_true [OF js_take(3)] job_inv_free [OF inv]
  show ?thesis
    by (rule job_inv_busy [where p = p])
      (use js_take free job_inv_sources [OF inv] in \<open>auto simp: producer_inv_def written_start\<close>)
next
  case (js_refuse p sem)
  note free = take_true [OF js_refuse(3)] job_inv_free [OF inv]
  show ?thesis
    by (rule job_inv_busy [where p = p])
      (use js_refuse free job_inv_sources [OF inv] in \<open>auto simp: producer_inv_def\<close>)
next
  case (js_write p j f fs)
  then have "producers s p \<noteq> P_idle" by simp
  note holder = job_inv_holder [OF inv this]
  show ?thesis
    by (rule job_inv_busy [where p = p])
      (use js_write holder job_inv_sources [OF inv] written_field in \<open>auto simp: producer_inv_def\<close>)
next
  case (js_put p j queued q)
  then have "producers s p \<noteq> P_idle" by simp
  note holder = job_inv_holder [OF inv this]
  then obtain js where js: "new_job (ing s) = j" "offered s = js @ [j]" "subseq (handled s @ contents (process_queue (ing s))) js"
    using js_put by (auto simp: producer_inv_def written_all)
  have "subseq (handled s @ contents q) (offered s)"
  proof (cases rule: put_cases [of j "process_queue (ing s)"])
    case (queued q')
    then show ?thesis using js_put js list_emb_append_mono [OF js(3), of "[j]" "[j]"] by simp
  next
    case full
    then show ?thesis using js_put js subseq_snoc by simp
  qed
  then show ?thesis
    by (intro job_inv_busy [where p = p])
      (use js_put holder job_inv_sources [OF inv] in \<open>auto simp: producer_inv_def\<close>)
next
  case (js_give p)
  then have "producers s p \<noteq> P_idle" by simp
  note holder = job_inv_holder [OF inv this]
  show ?thesis
    by (rule job_inv_idle)
      (use js_give holder job_inv_sources [OF inv] in \<open>auto simp: producer_inv_def count_give\<close>)
next
  case (js_get j q)
  then have "handled s @ contents (process_queue (ing s)) = (handled s @ [j]) @ contents q" using get_head by simp
  moreover have "producer_inv xs s' = producer_inv xs s" for xs using js_get by (simp add: producer_inv_def fun_eq_iff split: producer.split)
  ultimately show ?thesis using inv js_get unfolding job_inv_def Let_def by simp
qed simp_all

lemma job_inv_reach: "(job_step k mq c False)\<^sup>*\<^sup>* s s' \<Longrightarrow> job_inv count contents c s \<Longrightarrow> job_inv count contents c s'"
  by (induction rule: rtranclp_induct) (auto intro: job_inv_step)

lemma job_inv_result:
  assumes "job_inv count contents c s"
  shows "subseq (handled s) (offered s) \<and> list_all (job_source c) (handled s)"
proof -
  have busy: "subseq xs (offered s)" if "producer_inv xs s pc" for xs pc
    using that by (cases pc) (auto simp: producer_inv_def intro: subseq_snoc)
  have "subseq (handled s @ contents (process_queue (ing s))) (offered s)"
    using assms busy unfolding job_inv_def Let_def by blast
  then have "subseq (handled s) (offered s)" using list_emb_appendD subseq_order.trans by blast
  then show ?thesis using job_inv_sources [OF assms] by (auto simp: list_all_iff dest: list_emb_set)
qed

end

text \<open>Before any job: the semaphore is free and the queue empty.\<close>

definition jobs_start :: "'s \<Rightarrow> 'q \<Rightarrow> job_t \<Rightarrow> ('s, 'q) job_sys" where
  "jobs_start sem q new = \<lparr>ing = \<lparr>new_job_sem = sem, process_queue = q, new_job = new, runner_tid = True\<rparr>,
     producers = (\<lambda>_. P_idle), offered = [], handled = []\<rparr>"

lemma job_inv_start: "count sem = 1 \<Longrightarrow> contents q = [] \<Longrightarrow> job_inv count contents c (jobs_start sem q new)"
  by (simp add: job_inv_def jobs_start_def)

interpretation sim_jobs: job_platform sim_sem "of_bool :: bool \<Rightarrow> nat" "sim_msgq 8" "\<lambda>q. q" 8
  by (intro job_platform.intro sim_sem.binary_semaphore_axioms message_queue_sim)

text \<open>
  C22. As long as no shell command times out on the semaphore, then in every interleaving of the threads that bring jobs, assignment by assignment,
  the runner handles jobs that were offered, each whole, once and in the order offered; each is well typed,
  that is, its message is of the kind its remote sends, so the runner never reads a message as
  what it is not.
\<close>

theorem runner_jobs_typed:
  assumes "job_platform k count mq contents capacity" and "count sem = 1" and "contents q = []"
    and "(job_step k mq c False)\<^sup>*\<^sup>* (jobs_start sem q new) s"
  shows "subseq (handled s) (offered s) \<and>
    list_all (\<lambda>j. well_typed j \<and> (\<exists>r'. runner_process_job e j r = Some r')) (handled s)"
proof -
  note inv = job_platform.job_inv_reach [OF assms(1,4) job_inv_start [where count = count and contents = contents, OF assms(2,3)]]
  from job_platform.job_inv_result [OF assms(1) inv] show ?thesis
    by (auto simp: list_all_iff simp flip: well_typed_progress dest: well_typed_source)
qed

text \<open>Two threads on the simulated kernel.\<close>

abbreviation sim_addresses :: can_addresses where
  "sim_addresses \<equiv> \<lparr>MCU_TO_JETSON_TX = 0x80, MCU_TO_MCU_TX = 0x40\<rparr>"

definition two_producers :: "bool \<Rightarrow> job_t list \<Rightarrow> job_t \<Rightarrow> producer \<Rightarrow> producer \<Rightarrow> job_t list \<Rightarrow> job_t list \<Rightarrow> (bool, job_t list) job_sys" where
  "two_producers sem q new p0 p1 off han =
     \<lparr>ing = \<lparr>new_job_sem = sem, process_queue = q, new_job = new, runner_tid = True\<rparr>,
      producers = (\<lambda>p. if p = 0 then p0 else if p = 1 then p1 else P_idle), offered = off, handled = han\<rparr>"

abbreviation sim_reaches :: "bool \<Rightarrow> (bool, job_t list) job_sys \<Rightarrow> bool" where
  "sim_reaches t \<equiv> (job_step sim_sem (sim_msgq 8) sim_addresses t)\<^sup>*\<^sup>* (jobs_start True [] (cli_job Msg_boot_complete))"

lemma sim_reaches_step:
  "sim_reaches t s \<Longrightarrow> job_step sim_sem (sim_msgq 8) sim_addresses t s s' \<Longrightarrow> s' = s'' \<Longrightarrow> sim_reaches t s''"
  by (auto intro: rtranclp.rtrancl_into_rtrancl)

lemma two_producers_start: "sim_reaches t (two_producers True [] (cli_job Msg_boot_complete) P_idle P_idle [] [])"
proof -
  have "jobs_start True [] (cli_job Msg_boot_complete) = two_producers True [] (cli_job Msg_boot_complete) P_idle P_idle [] []"
    by (simp add: jobs_start_def two_producers_def fun_eq_iff)
  then show ?thesis by simp
qed

lemma two_producers_take:
  assumes "job_source sim_addresses j"
  shows "sim_reaches t (two_producers True q new P_idle p1 off han) \<Longrightarrow>
      sim_reaches t (two_producers False q new (P_write j (job_writes j)) p1 (off @ [j]) han)"
    and "sim_reaches t (two_producers True q new p0 P_idle off han) \<Longrightarrow>
      sim_reaches t (two_producers False q new p0 (P_write j (job_writes j)) (off @ [j]) han)"
  by (erule sim_reaches_step, rule js_take [where p = 0 and sem = False and j = j];
      simp add: assms two_producers_def sim_sem_def fun_eq_iff)
    (erule sim_reaches_step, rule js_take [where p = 1 and sem = False and j = j];
      simp add: assms two_producers_def sim_sem_def fun_eq_iff)

lemma two_producers_write:
  "sim_reaches t (two_producers sem q new (P_write j (f # fs)) p1 off han) \<Longrightarrow>
      sim_reaches t (two_producers sem q (write_field j f new) (P_write j fs) p1 off han)"
  "sim_reaches t (two_producers sem q new p0 (P_write j (f # fs)) off han) \<Longrightarrow>
      sim_reaches t (two_producers sem q (write_field j f new) p0 (P_write j fs) off han)"
  by (erule sim_reaches_step, rule js_write [where p = 0]; simp add: two_producers_def fun_eq_iff)
    (erule sim_reaches_step, rule js_write [where p = 1]; simp add: two_producers_def fun_eq_iff)

lemma two_producers_put:
  assumes "length q < 8"
  shows "sim_reaches t (two_producers sem q new p0 (P_write j []) off han) \<Longrightarrow>
      sim_reaches t (two_producers sem (q @ [new]) new p0 P_give off han)"
  by (erule sim_reaches_step, rule js_put [where p = 1 and queued = True and q = "q @ [new]"];
      simp add: assms two_producers_def fun_eq_iff sim_msgq_def)

lemma two_producers_get:
  "sim_reaches t (two_producers sem (j # q) new p0 p1 off han) \<Longrightarrow> sim_reaches t (two_producers sem q new p0 p1 off (han @ [j]))"
  by (erule sim_reaches_step, rule js_get [where j = j and q = q]; simp add: two_producers_def sim_msgq_def)

lemma two_producers_timeout:
  "sim_reaches True (two_producers False q new p0 P_idle off han) \<Longrightarrow> sim_reaches True (two_producers True q new p0 P_idle off han)"
  by (erule sim_reaches_step, rule js_cli_timeout [where p = 1 and sem = False]; simp add: two_producers_def sim_sem_def)

lemma job_writes_cases: obtains a b where "job_writes j = [F_remote, F_message, a, b]" "{a, b} = {F_ack_number, F_remote_addr}"
  by (cases "remote j") (auto simp: job_writes_def)

text \<open>A thread that is not interrupted queues its job.\<close>

lemma two_producers_job:
  assumes "job_source sim_addresses j" and "length q < 8" and "sim_reaches t (two_producers True q new p0 P_idle off han)"
  shows "sim_reaches t (two_producers False (q @ [j]) j p0 P_give (off @ [j]) han)"
proof -
  obtain a b where w: "job_writes j = [F_remote, F_message, a, b]" "{a, b} = {F_ack_number, F_remote_addr}"
    by (rule job_writes_cases)
  have "sim_reaches t (two_producers False q (write_field j b (write_field j a (write_field j F_message (write_field j F_remote new))))
      p0 (P_write j []) (off @ [j]) han)"
    using two_producers_take(2) [OF assms(1,3)] unfolding w by (intro two_producers_write)
  moreover have "write_field j b (write_field j a (write_field j F_message (write_field j F_remote new))) = j"
    using w(2) by (auto simp: doubleton_eq_iff)
  ultimately show ?thesis using two_producers_put [OF assms(2)] by simp
qed

lemma runner_jobs_typed_witness:
  "well_typed (cli_job (Msg_heartbeat 5)) \<and> subseq [cli_job (Msg_heartbeat 5)] [cli_job (Msg_heartbeat 5)] \<and>
    (\<forall>(e :: (bool, bool) runner_env) r. \<exists>r'. runner_process_job e (cli_job (Msg_heartbeat 5)) r = Some r')"
proof -
  let ?j = "cli_job (Msg_heartbeat 5)"
  have "job_source sim_addresses ?j" by (auto simp: job_source_def)
  from two_producers_job [OF this _ two_producers_start]
  have "sim_reaches False (two_producers False [?j] ?j P_idle P_give [?j] [])" by simp
  from two_producers_get [OF this] have "sim_reaches False (two_producers False [] ?j P_idle P_give [?j] [?j])" by simp
  from runner_jobs_typed [OF sim_jobs.job_platform_axioms _ _ this] show ?thesis
    by (auto simp: two_producers_def)
qed

subsection \<open>A shell command that times out\<close>

text \<open>
  A shell command that finds the semaphore taken gives it although it does not have it. A second one then writes to the job another
  thread is writing, and the runner is given a job whose message is not of the kind its remote sends.
\<close>

theorem cli_timeout_mixes_jobs:
  "\<exists>s j. sim_reaches True s \<and> handled s = [j] \<and> j \<notin> set (offered s) \<and> runner_process_job e j r = None"
proof -
  let ?sec = "\<lparr>remote = CAN_SEC_MCU_MESSAGING, remote_addr = 0x40, ack_number = 0, job_msg = Sec_cmd (Sec_other 7)\<rparr>"
  let ?cli = "cli_job (Msg_heartbeat 5)" and ?new = "cli_job Msg_boot_complete"
  let ?mixed = "?cli\<lparr>job_msg := Sec_cmd (Sec_other 7)\<rparr>"
  have can: "can_job sim_addresses 0 (Sec_to_main_message (Sec_other 7)) = Some ?sec" by (simp add: can_job_def)
  have src: "job_source sim_addresses ?sec" "job_source sim_addresses ?cli"
    unfolding job_source_def using can by blast+
  have w: "job_writes ?sec = [F_remote, F_message, F_ack_number, F_remote_addr]"
    "job_writes ?cli = [F_remote, F_message, F_remote_addr, F_ack_number]"
    by (simp_all add: job_writes_def cli_job_def)
  let ?fs = "[F_message, F_ack_number, F_remote_addr]"
  have "sim_reaches True (two_producers False [] (write_field ?sec F_remote ?new) (P_write ?sec ?fs) P_idle [?sec] [])"
    using two_producers_take(1) [OF src(1) two_producers_start] unfolding w by (intro two_producers_write(1)) simp
  from two_producers_take(2) [OF src(2) two_producers_timeout [OF this], unfolded w]
  have "sim_reaches True (two_producers False [] (write_field ?cli F_message (write_field ?cli F_remote (write_field ?sec F_remote ?new)))
      (P_write ?sec ?fs) (P_write ?cli [F_remote_addr, F_ack_number]) [?sec, ?cli] [])"
    by (intro two_producers_write(2)) simp
  from two_producers_write(2) [OF two_producers_write(2) [OF two_producers_write(1) [OF this]]]
  have "sim_reaches True (two_producers False [] ?mixed (P_write ?sec [F_ack_number, F_remote_addr]) (P_write ?cli []) [?sec, ?cli] [])"
    by (simp add: cli_job_def)
  from two_producers_put [OF _ this]
  have "sim_reaches True (two_producers False [?mixed] ?mixed (P_write ?sec [F_ack_number, F_remote_addr]) P_give [?sec, ?cli] [])"
    by simp
  from two_producers_get [OF this]
  have "sim_reaches True (two_producers False [] ?mixed (P_write ?sec [F_ack_number, F_remote_addr]) P_give [?sec, ?cli] [?mixed])"
    by simp
  then show ?thesis
    by (intro exI [of _ "two_producers False [] ?mixed (P_write ?sec [F_ack_number, F_remote_addr]) P_give [?sec, ?cli] [?mixed]"]
        exI [of _ ?mixed]) (simp add: two_producers_def cli_job_def runner_process_job_def)
qed

end
