(* ===== verification/Ir_Camera_Safety.thy ===== *)
theory Ir_Camera_Safety
  imports Ir_Camera
begin

text \<open>
  Correctness of the infrared camera system: what each operation changes, the limits on the
  LED pulses in every order of calls and interrupts, the frames of a sweep, and the
  behaviours that depart from the documentation.
\<close>

subsection \<open>What each operation leaves alone\<close>

lemma emit_frame [simp]:
  "ir_initialized (emit e s) = ir_initialized s"
  "focus_sweep (emit e s) = focus_sweep s"
  "mirror_sweep (emit e s) = mirror_sweep s"
  "cam_enabled (emit e s) = cam_enabled s"
  "led_wavelength (emit e s) = led_wavelength s"
  "timer_settings (emit e s) = timer_settings s"
  "sweep_index (emit e s) = sweep_index s"
  "num_focus_values (emit e s) = num_focus_values s"
  "mirror_sweep_polynomial (emit e s) = mirror_sweep_polynomial s"
  "initial_phi (emit e s) = initial_phi s"
  "initial_theta (emit e s) = initial_theta s"
  "focus_value (emit e s) = focus_value s"
  "master_enabled (emit e s) = master_enabled s"
  "trigger_it (emit e s) = trigger_it s"
  "led_arr (emit e s) = led_arr s"
  "led_on (emit e s) = led_on s"
  "strobe_irq (emit e s) = strobe_irq s"
  by (simp_all add: emit_def focus_value_def fun_eq_iff)

lemma configure_timeout_frame [simp]:
  "ir_initialized (configure_timeout s) = ir_initialized s"
  "focus_sweep (configure_timeout s) = focus_sweep s"
  "mirror_sweep (configure_timeout s) = mirror_sweep s"
  "cam_enabled (configure_timeout s) = cam_enabled s"
  "led_wavelength (configure_timeout s) = led_wavelength s"
  "timer_settings (configure_timeout s) = timer_settings s"
  "sweep_index (configure_timeout s) = sweep_index s"
  "num_focus_values (configure_timeout s) = num_focus_values s"
  "mirror_sweep_polynomial (configure_timeout s) = mirror_sweep_polynomial s"
  "initial_phi (configure_timeout s) = initial_phi s"
  "initial_theta (configure_timeout s) = initial_theta s"
  "focus_value (configure_timeout s) = focus_value s"
  "master_enabled (configure_timeout s) = master_enabled s"
  "trigger_it (configure_timeout s) = trigger_it s"
  "led_arr (configure_timeout s) = led_arr s"
  "led_on (configure_timeout s) = led_on s"
  "strobe_irq (configure_timeout s) = strobe_irq s"
  "ir_out (configure_timeout s) = ir_out s"
  by (simp_all add: configure_timeout_def focus_value_def fun_eq_iff)

lemma camera_enable_trigger_frame [simp]:
  "ir_initialized (camera_enable_trigger b e c s) = ir_initialized s"
  "focus_sweep (camera_enable_trigger b e c s) = focus_sweep s"
  "mirror_sweep (camera_enable_trigger b e c s) = mirror_sweep s"
  "cam_enabled (camera_enable_trigger b e c s) = cam_enabled s"
  "led_wavelength (camera_enable_trigger b e c s) = led_wavelength s"
  "timer_settings (camera_enable_trigger b e c s) = timer_settings s"
  "sweep_index (camera_enable_trigger b e c s) = sweep_index s"
  "num_focus_values (camera_enable_trigger b e c s) = num_focus_values s"
  "mirror_sweep_polynomial (camera_enable_trigger b e c s) = mirror_sweep_polynomial s"
  "initial_phi (camera_enable_trigger b e c s) = initial_phi s"
  "initial_theta (camera_enable_trigger b e c s) = initial_theta s"
  "focus_value (camera_enable_trigger b e c s) = focus_value s"
  "master_enabled (camera_enable_trigger b e c s) = master_enabled s"
  "trigger_it (camera_enable_trigger b e c s) = trigger_it s"
  "led_arr (camera_enable_trigger b e c s) = led_arr s"
  "led_on (camera_enable_trigger b e c s) = led_on s"
  "strobe_irq (camera_enable_trigger b e c s) = strobe_irq s"
  "ir_out (camera_enable_trigger b e c s) = ir_out s"
  by (simp_all add: camera_enable_trigger_def Let_def focus_value_def fun_eq_iff)

lemma ir_leds_pulse_finished_isr_frame [simp]:
  "ir_initialized (ir_leds_pulse_finished_isr env s) = ir_initialized s"
  "focus_sweep (ir_leds_pulse_finished_isr env s) = focus_sweep s"
  "mirror_sweep (ir_leds_pulse_finished_isr env s) = mirror_sweep s"
  "cam_enabled (ir_leds_pulse_finished_isr env s) = cam_enabled s"
  "led_wavelength (ir_leds_pulse_finished_isr env s) = led_wavelength s"
  "timer_settings (ir_leds_pulse_finished_isr env s) = timer_settings s"
  "sweep_index (ir_leds_pulse_finished_isr env s) = sweep_index s"
  "num_focus_values (ir_leds_pulse_finished_isr env s) = num_focus_values s"
  "mirror_sweep_polynomial (ir_leds_pulse_finished_isr env s) = mirror_sweep_polynomial s"
  "initial_phi (ir_leds_pulse_finished_isr env s) = initial_phi s"
  "initial_theta (ir_leds_pulse_finished_isr env s) = initial_theta s"
  "focus_value (ir_leds_pulse_finished_isr env s) = focus_value s"
  "master_enabled (ir_leds_pulse_finished_isr env s) = master_enabled s"
  "trigger_it (ir_leds_pulse_finished_isr env s) = trigger_it s"
  "led_arr (ir_leds_pulse_finished_isr env s) = led_arr s"
  "led_on (ir_leds_pulse_finished_isr env s) = led_on s"
  "strobe_irq (ir_leds_pulse_finished_isr env s) = strobe_irq s"
  by (simp_all add: ir_leds_pulse_finished_isr_def)

lemma low_power_frame [simp]:
  "ir_initialized (set_pvcc_converter_into_low_power_mode s) = ir_initialized s"
  "focus_sweep (set_pvcc_converter_into_low_power_mode s) = focus_sweep s"
  "mirror_sweep (set_pvcc_converter_into_low_power_mode s) = mirror_sweep s"
  "cam_enabled (set_pvcc_converter_into_low_power_mode s) = cam_enabled s"
  "led_wavelength (set_pvcc_converter_into_low_power_mode s) = led_wavelength s"
  "timer_settings (set_pvcc_converter_into_low_power_mode s) = timer_settings s"
  "sweep_index (set_pvcc_converter_into_low_power_mode s) = sweep_index s"
  "num_focus_values (set_pvcc_converter_into_low_power_mode s) = num_focus_values s"
  "mirror_sweep_polynomial (set_pvcc_converter_into_low_power_mode s) = mirror_sweep_polynomial s"
  "initial_phi (set_pvcc_converter_into_low_power_mode s) = initial_phi s"
  "initial_theta (set_pvcc_converter_into_low_power_mode s) = initial_theta s"
  "focus_value (set_pvcc_converter_into_low_power_mode s) = focus_value s"
  "master_enabled (set_pvcc_converter_into_low_power_mode s) = master_enabled s"
  "trigger_it (set_pvcc_converter_into_low_power_mode s) = trigger_it s"
  "led_arr (set_pvcc_converter_into_low_power_mode s) = led_arr s"
  "led_on (set_pvcc_converter_into_low_power_mode s) = led_on s"
  "strobe_irq (set_pvcc_converter_into_low_power_mode s) = strobe_irq s"
  "ir_out (set_pvcc_converter_into_low_power_mode s) = ir_out s"
  by (simp_all add: set_pvcc_converter_into_low_power_mode_def focus_value_def fun_eq_iff)

lemma high_demand_frame [simp]:
  "ir_initialized (set_pvcc_converter_into_high_demand_mode s) = ir_initialized s"
  "focus_sweep (set_pvcc_converter_into_high_demand_mode s) = focus_sweep s"
  "mirror_sweep (set_pvcc_converter_into_high_demand_mode s) = mirror_sweep s"
  "cam_enabled (set_pvcc_converter_into_high_demand_mode s) = cam_enabled s"
  "led_wavelength (set_pvcc_converter_into_high_demand_mode s) = led_wavelength s"
  "timer_settings (set_pvcc_converter_into_high_demand_mode s) = timer_settings s"
  "sweep_index (set_pvcc_converter_into_high_demand_mode s) = sweep_index s"
  "num_focus_values (set_pvcc_converter_into_high_demand_mode s) = num_focus_values s"
  "mirror_sweep_polynomial (set_pvcc_converter_into_high_demand_mode s) = mirror_sweep_polynomial s"
  "initial_phi (set_pvcc_converter_into_high_demand_mode s) = initial_phi s"
  "initial_theta (set_pvcc_converter_into_high_demand_mode s) = initial_theta s"
  "master_enabled (set_pvcc_converter_into_high_demand_mode s) = master_enabled s"
  "trigger_it (set_pvcc_converter_into_high_demand_mode s) = trigger_it s"
  "led_arr (set_pvcc_converter_into_high_demand_mode s) = led_arr s"
  "led_on (set_pvcc_converter_into_high_demand_mode s) = led_on s"
  "strobe_irq (set_pvcc_converter_into_high_demand_mode s) = strobe_irq s"
  by (simp_all add: set_pvcc_converter_into_high_demand_mode_def)

lemma ir_leds_set_pulse_length_frame [simp]:
  "ir_initialized (ir_leds_set_pulse_length b env s) = ir_initialized s"
  "focus_sweep (ir_leds_set_pulse_length b env s) = focus_sweep s"
  "mirror_sweep (ir_leds_set_pulse_length b env s) = mirror_sweep s"
  "cam_enabled (ir_leds_set_pulse_length b env s) = cam_enabled s"
  "led_wavelength (ir_leds_set_pulse_length b env s) = led_wavelength s"
  "master_enabled (ir_leds_set_pulse_length b env s) = master_enabled s"
  "trigger_it (ir_leds_set_pulse_length b env s) = trigger_it s"
  "strobe_irq (ir_leds_set_pulse_length b env s) = strobe_irq s"
  by (simp_all add: ir_leds_set_pulse_length_def ir_leds_disable_all_def Let_def)

lemma ir_leds_enable_pulse_frame [simp]:
  "ir_initialized (ir_leds_enable_pulse b env s) = ir_initialized s"
  "focus_sweep (ir_leds_enable_pulse b env s) = focus_sweep s"
  "mirror_sweep (ir_leds_enable_pulse b env s) = mirror_sweep s"
  "cam_enabled (ir_leds_enable_pulse b env s) = cam_enabled s"
  "led_wavelength (ir_leds_enable_pulse b env s) = led_wavelength s"
  "timer_settings (ir_leds_enable_pulse b env s) = timer_settings s"
  "led_arr (ir_leds_enable_pulse b env s) = led_arr s"
  "master_enabled (ir_leds_enable_pulse b env s) = master_enabled s"
  "trigger_it (ir_leds_enable_pulse b env s) = trigger_it s"
  "strobe_irq (ir_leds_enable_pulse b env s) = strobe_irq s"
  by (simp_all add: ir_leds_enable_pulse_def Let_def split: option.split)

lemma apply_new_timer_settings_frame [simp]:
  "ir_initialized (apply_new_timer_settings b env s) = ir_initialized s"
  "focus_sweep (apply_new_timer_settings b env s) = focus_sweep s"
  "mirror_sweep (apply_new_timer_settings b env s) = mirror_sweep s"
  "cam_enabled (apply_new_timer_settings b env s) = cam_enabled s"
  "led_wavelength (apply_new_timer_settings b env s) = led_wavelength s"
  "trigger_it (apply_new_timer_settings b env s) = trigger_it s"
  "strobe_irq (apply_new_timer_settings b env s) = strobe_irq s"
  by (simp_all add: apply_new_timer_settings_def Let_def)

lemma camera_enable_hw_frame [simp]:
  "ir_initialized (camera_enable_hw b c s) = ir_initialized s"
  "focus_sweep (camera_enable_hw b c s) = focus_sweep s"
  "mirror_sweep (camera_enable_hw b c s) = mirror_sweep s"
  "cam_enabled (camera_enable_hw b c s) = cam_enabled s"
  "led_wavelength (camera_enable_hw b c s) = led_wavelength s"
  "timer_settings (camera_enable_hw b c s) = timer_settings s"
  "led_arr (camera_enable_hw b c s) = led_arr s"
  "led_on (camera_enable_hw b c s) = led_on s"
  "master_enabled (camera_enable_hw b c s) = master_enabled s"
  "trigger_it (camera_enable_hw b c s) = trigger_it s"
  by (induction b c s rule: camera_enable_hw.induct, simp_all add: camera_trigger_rgb_ir_face_cam_def)

lemma camera_disable_hw_frame [simp]:
  "ir_initialized (camera_disable_hw b c s) = ir_initialized s"
  "focus_sweep (camera_disable_hw b c s) = focus_sweep s"
  "mirror_sweep (camera_disable_hw b c s) = mirror_sweep s"
  "cam_enabled (camera_disable_hw b c s) = cam_enabled s"
  "led_wavelength (camera_disable_hw b c s) = led_wavelength s"
  "timer_settings (camera_disable_hw b c s) = timer_settings s"
  "led_arr (camera_disable_hw b c s) = led_arr s"
  "led_on (camera_disable_hw b c s) = led_on s"
  "master_enabled (camera_disable_hw b c s) = master_enabled s"
  "trigger_it (camera_disable_hw b c s) = trigger_it s"
  "sweep_index (camera_disable_hw b c s) = sweep_index s"
  "num_focus_values (camera_disable_hw b c s) = num_focus_values s"
  "mirror_sweep_polynomial (camera_disable_hw b c s) = mirror_sweep_polynomial s"
  "ir_out (camera_disable_hw b c s) = ir_out s"
  by (induction b c s rule: camera_disable_hw.induct, simp_all add: configure_timeout_def)

lemma ir_camera_enable_force_frame [simp]:
  "ir_initialized (ir_camera_enable_force b c s) = ir_initialized s"
  "focus_sweep (ir_camera_enable_force b c s) = focus_sweep s"
  "mirror_sweep (ir_camera_enable_force b c s) = mirror_sweep s"
  "led_wavelength (ir_camera_enable_force b c s) = led_wavelength s"
  "timer_settings (ir_camera_enable_force b c s) = timer_settings s"
  "led_arr (ir_camera_enable_force b c s) = led_arr s"
  "led_on (ir_camera_enable_force b c s) = led_on s"
  "master_enabled (ir_camera_enable_force b c s) = master_enabled s"
  "trigger_it (ir_camera_enable_force b c s) = trigger_it s"
  by (simp_all add: ir_camera_enable_force_def)

lemma ir_camera_disable_force_frame [simp]:
  "ir_initialized (ir_camera_disable_force b c s) = ir_initialized s"
  "focus_sweep (ir_camera_disable_force b c s) = focus_sweep s"
  "mirror_sweep (ir_camera_disable_force b c s) = mirror_sweep s"
  "led_wavelength (ir_camera_disable_force b c s) = led_wavelength s"
  "timer_settings (ir_camera_disable_force b c s) = timer_settings s"
  "led_arr (ir_camera_disable_force b c s) = led_arr s"
  "led_on (ir_camera_disable_force b c s) = led_on s"
  "master_enabled (ir_camera_disable_force b c s) = master_enabled s"
  "trigger_it (ir_camera_disable_force b c s) = trigger_it s"
  "sweep_index (ir_camera_disable_force b c s) = sweep_index s"
  "num_focus_values (ir_camera_disable_force b c s) = num_focus_values s"
  "mirror_sweep_polynomial (ir_camera_disable_force b c s) = mirror_sweep_polynomial s"
  "ir_out (ir_camera_disable_force b c s) = ir_out s"
  by (simp_all add: ir_camera_disable_force_def)

subsection \<open>Settings and LEDs\<close>

definition safe_settings :: "ir_env \<Rightarrow> ir_camera_timer_settings \<Rightarrow> ir_camera_timer_settings" where
  "safe_settings env ts = (if distance_is_safe env then ts else ts\<lparr>on_time_in_us := 0\<rparr>)"

definition enabled_channels :: "board \<Rightarrow> wavelength \<Rightarrow> led_channel set" where
  "enabled_channels b w = (case wavelength_channels b w of Some ch \<Rightarrow> ch | None \<Rightarrow> {})"

lemma pulse_length_effect:
  "timer_settings (ir_leds_set_pulse_length b env s) = safe_settings env (timer_settings s)"
  "led_on (ir_leds_set_pulse_length b env s) = led_on s - board_leds b"
  "led_arr (ir_leds_set_pulse_length b env s) =
     (let on = on_time_in_us (safe_settings env (timer_settings s))
      in if on = 0 then led_arr s else on + trigger_delay b)"
  by (simp_all add: ir_leds_set_pulse_length_def ir_leds_disable_all_def safe_settings_def Let_def)

lemma enable_pulse_effect:
  "led_on (ir_leds_enable_pulse b env s) =
     (if on_time_in_us (timer_settings s) = 0 then led_on s
      else led_on s \<union> enabled_channels b (led_wavelength s))"
  by (simp add: ir_leds_enable_pulse_def enabled_channels_def Let_def split: option.split)

lemma apply_effect:
  "timer_settings (apply_new_timer_settings b env s) = safe_settings env (timer_settings s)"
  "led_on (apply_new_timer_settings b env s) =
     (led_on s - board_leds b) \<union>
     (if (b = Pearl \<or> \<not> face_is_enabled s) \<and> on_time_in_us (safe_settings env (timer_settings s)) \<noteq> 0
      then enabled_channels b (led_wavelength s) else {})"
  "led_arr (apply_new_timer_settings b env s) =
     (let on = on_time_in_us (safe_settings env (timer_settings s))
      in if on = 0 then led_arr s else on + trigger_delay b)"
  "master_enabled (apply_new_timer_settings b env s) \<longleftrightarrow> 0 < fps (timer_settings s)"
  by (auto simp: apply_new_timer_settings_def Let_def pulse_length_effect enable_pulse_effect)

lemma fps_safe_settings [simp]: "fps (safe_settings env ts) = fps ts"
  by (simp add: safe_settings_def)

definition ir_settings_ok :: "board \<Rightarrow> ir_camera_timer_settings \<Rightarrow> bool" where
  "ir_settings_ok b ts \<longleftrightarrow> settings_valid b ts \<and> (b = Diamond \<longrightarrow> strobe_settings_valid ts)"

lemma ir_settings_ok_simps [simp]:
  "ir_settings_ok b ts \<Longrightarrow> ir_settings_ok b (safe_settings env ts)"
  "ir_settings_ok b ts \<Longrightarrow> ir_settings_ok b (snd (timer_settings_from_fps b f ts))"
  "ir_settings_ok b ts \<Longrightarrow> ir_settings_ok b (snd (timer_settings_from_on_time_us b n ts))"
  by (auto simp: ir_settings_ok_def safe_settings_def settings_no_on_time strobe_settings_no_on_time
      timer_settings_from_fps_valid timer_settings_from_fps_strobe
      timer_settings_from_on_time_us_valid timer_settings_from_on_time_us_strobe)

lemma enable_leds_hw_effect:
  "timer_settings (ir_camera_system_enable_leds_hw b env s) = safe_settings env (timer_settings s)"
  "led_on (ir_camera_system_enable_leds_hw b env s) =
     (led_on s - board_leds b) \<union>
     (if on_time_in_us (safe_settings env (timer_settings s)) \<noteq> 0 then enabled_channels b (led_wavelength s) else {})"
  "led_arr (ir_camera_system_enable_leds_hw b env s) =
     (let on = on_time_in_us (safe_settings env (timer_settings s))
      in if on = 0 then led_arr s else on + trigger_delay b)"
  "led_wavelength (ir_camera_system_enable_leds_hw b env s) = led_wavelength s"
  "ir_initialized (ir_camera_system_enable_leds_hw b env s) = ir_initialized s"
  "cam_enabled (ir_camera_system_enable_leds_hw b env s) = cam_enabled s"
  "focus_sweep (ir_camera_system_enable_leds_hw b env s) = focus_sweep s"
  "mirror_sweep (ir_camera_system_enable_leds_hw b env s) = mirror_sweep s"
  "master_enabled (ir_camera_system_enable_leds_hw b env s) = master_enabled s"
  "trigger_it (ir_camera_system_enable_leds_hw b env s) = trigger_it s"
  by (auto simp: ir_camera_system_enable_leds_hw_def pulse_length_effect enable_pulse_effect)

text \<open>
  \<open>led_limits\<close> is the safety invariant: valid settings, and a pulse no longer than the limit
  plus the start delay; \<open>led_channels_ok\<close> says that only channels of the enabled wavelength
  are connected to their timer.
\<close>

definition led_limits :: "board \<Rightarrow> ir_camera \<Rightarrow> bool" where
  "led_limits b s \<longleftrightarrow> ir_settings_ok b (timer_settings s) \<and>
     led_arr s \<le> IR_CAMERA_SYSTEM_MAX_IR_LED_ON_TIME_US b + trigger_delay b"

definition led_channels_ok :: "board \<Rightarrow> ir_camera \<Rightarrow> bool" where
  "led_channels_ok b s \<longleftrightarrow> led_on s \<subseteq> enabled_channels b (led_wavelength s) \<and> ir_initialized s"

lemma enabled_channels_board: "enabled_channels b w \<subseteq> board_leds b"
  by (cases b; cases w) (simp_all add: enabled_channels_def)

lemma led_limits_on_time:
  "ir_settings_ok b ts \<Longrightarrow> on_time_in_us ts \<le> IR_CAMERA_SYSTEM_MAX_IR_LED_ON_TIME_US b"
  by (simp add: ir_settings_ok_def settings_valid_def)

lemma apply_limits:
  "ir_settings_ok b (timer_settings s) \<Longrightarrow> led_arr s \<le> IR_CAMERA_SYSTEM_MAX_IR_LED_ON_TIME_US b + trigger_delay b \<Longrightarrow>
   led_limits b (apply_new_timer_settings b env s)"
  by (simp add: led_limits_def apply_effect Let_def led_limits_on_time)

lemma enable_leds_hw_limits: "led_limits b s \<Longrightarrow> led_limits b (ir_camera_system_enable_leds_hw b env s)"
  by (simp add: led_limits_def enable_leds_hw_effect Let_def led_limits_on_time)

lemma led_limits_frame:
  "timer_settings t = timer_settings s \<Longrightarrow> led_arr t = led_arr s \<Longrightarrow> led_limits b t = led_limits b s"
  by (simp add: led_limits_def)

lemma led_channels_frame:
  "led_on t = led_on s \<Longrightarrow> led_wavelength t = led_wavelength s \<Longrightarrow> ir_initialized t = ir_initialized s \<Longrightarrow>
   led_channels_ok b t = led_channels_ok b s"
  by (simp add: led_channels_ok_def)

lemma enable_leds_cases:
  "snd (ir_camera_system_enable_leds b env w s) \<in>
     {s, ir_camera_system_enable_leds_hw b env (s\<lparr>led_wavelength := w\<rparr>)}"
  by (simp add: ir_camera_system_enable_leds_def Let_def)

lemma camera_disable_cases: "snd (ir_camera_disable b c s) \<in> {s, ir_camera_disable_force b c s}"
  by (simp add: ir_camera_disable_def)

lemma camera_enable_cases: "snd (ir_camera_enable b c s) \<in> {s, ir_camera_enable_force b c s}"
  by (simp add: ir_camera_enable_def)

lemma set_fps_cases:
  "snd (ir_camera_system_set_fps b env f s) \<in>
     {s, configure_timeout s, configure_timeout (apply_new_timer_settings b env
        (s\<lparr>timer_settings := snd (timer_settings_from_fps b f (timer_settings s))\<rparr>))}"
  by (simp add: ir_camera_system_set_fps_def ir_camera_system_set_fps_hw_def Let_def split: prod.split)

definition with_on_time :: "board \<Rightarrow> nat \<Rightarrow> ir_camera \<Rightarrow> ir_camera" where
  "with_on_time b n s = s\<lparr>timer_settings := snd (timer_settings_from_on_time_us b n (timer_settings s))\<rparr>"

lemma set_on_time_cases:
  "\<exists>t \<in> {s, with_on_time b n s, apply_new_timer_settings b env (with_on_time b n s)}.
     snd (ir_camera_system_set_on_time_us b env n s) \<in> {t, configure_timeout t}"
proof -
  obtain r ts where ts: "timer_settings_from_on_time_us b n (timer_settings s) = (r, ts)" by force
  have w: "with_on_time b n s = s\<lparr>timer_settings := ts\<rparr>" by (simp add: with_on_time_def ts)
  have "(if P then (r, if Q then configure_timeout (if r \<noteq> RET_SUCCESS then s else if R then x else y)
                       else (if r \<noteq> RET_SUCCESS then s else if R then x else y)) else (e, s))
        \<in> {(e, s)} \<union> (\<Union>t\<in>{s, y, x}. {(r, t), (r, configure_timeout t)})" for P Q R x y and e :: ret_code_t
    by simp
  then have "\<exists>t \<in> {s, y, x}. snd (if P then (r, if Q then configure_timeout (if r \<noteq> RET_SUCCESS then s else if R then x else y)
                       else (if r \<noteq> RET_SUCCESS then s else if R then x else y)) else (e, s))
        \<in> {t, configure_timeout t}" for P Q R x y and e :: ret_code_t
    by simp
  then show ?thesis
    unfolding w ir_camera_system_set_on_time_us_def ir_camera_system_set_on_time_us_hw_def ts Let_def split .
qed

lemma setup_leds_frame [simp]:
  "timer_settings (snd (setup_leds chs oks s)) = timer_settings s"
  "led_wavelength (snd (setup_leds chs oks s)) = led_wavelength s"
  "ir_initialized (snd (setup_leds chs oks s)) = ir_initialized s"
  "focus_sweep (snd (setup_leds chs oks s)) = focus_sweep s"
  "mirror_sweep (snd (setup_leds chs oks s)) = mirror_sweep s"
  "cam_enabled (snd (setup_leds chs oks s)) = cam_enabled s"
  "led_arr (snd (setup_leds chs oks s)) \<le> led_arr s"
  by (simp_all add: setup_leds_def case_prod_beta Let_def)

lemma setup_850nm_frame [simp]:
  "timer_settings (snd (setup_850nm_led_timer oks s)) = timer_settings s"
  "led_wavelength (snd (setup_850nm_led_timer oks s)) = led_wavelength s"
  "ir_initialized (snd (setup_850nm_led_timer oks s)) = ir_initialized s"
  "focus_sweep (snd (setup_850nm_led_timer oks s)) = focus_sweep s"
  "mirror_sweep (snd (setup_850nm_led_timer oks s)) = mirror_sweep s"
  "cam_enabled (snd (setup_850nm_led_timer oks s)) = cam_enabled s"
  "led_arr (snd (setup_850nm_led_timer oks s)) \<le> led_arr s"
  by (simp_all add: setup_850nm_led_timer_def case_prod_beta Let_def)

lemma setup_940nm_frame [simp]:
  "timer_settings (snd (setup_940nm_led_timer b oks s)) = timer_settings s"
  "led_wavelength (snd (setup_940nm_led_timer b oks s)) = led_wavelength s"
  "ir_initialized (snd (setup_940nm_led_timer b oks s)) = ir_initialized s"
  "focus_sweep (snd (setup_940nm_led_timer b oks s)) = focus_sweep s"
  "mirror_sweep (snd (setup_940nm_led_timer b oks s)) = mirror_sweep s"
  "cam_enabled (snd (setup_940nm_led_timer b oks s)) = cam_enabled s"
  "led_arr (snd (setup_940nm_led_timer b oks s)) \<le> led_arr s"
  by (simp_all add: setup_940nm_led_timer_def case_prod_beta Let_def)

lemma setup_triggers_frame [simp]:
  "timer_settings (snd (setup_camera_triggers b oks s)) = timer_settings s"
  "led_wavelength (snd (setup_camera_triggers b oks s)) = led_wavelength s"
  "ir_initialized (snd (setup_camera_triggers b oks s)) = ir_initialized s"
  "focus_sweep (snd (setup_camera_triggers b oks s)) = focus_sweep s"
  "mirror_sweep (snd (setup_camera_triggers b oks s)) = mirror_sweep s"
  "cam_enabled (snd (setup_camera_triggers b oks s)) = cam_enabled s"
  "led_arr (snd (setup_camera_triggers b oks s)) \<le> led_arr s"
  by (simp_all add: setup_camera_triggers_def case_prod_beta Let_def)

lemma setup_master_frame [simp]:
  "timer_settings (snd (setup_master_timer ok s)) = timer_settings s"
  "led_wavelength (snd (setup_master_timer ok s)) = led_wavelength s"
  "ir_initialized (snd (setup_master_timer ok s)) = ir_initialized s"
  "focus_sweep (snd (setup_master_timer ok s)) = focus_sweep s"
  "mirror_sweep (snd (setup_master_timer ok s)) = mirror_sweep s"
  "cam_enabled (snd (setup_master_timer ok s)) = cam_enabled s"
  "led_arr (snd (setup_master_timer ok s)) \<le> led_arr s"
  by (simp_all add: setup_master_timer_def case_prod_beta Let_def)

lemma ir_init_effect:
  "timer_settings (snd (ir_camera_system_hw_init b r s)) = timer_settings s"
  "led_wavelength (snd (ir_camera_system_hw_init b r s)) = led_wavelength s"
  "ir_initialized (snd (ir_camera_system_hw_init b r s)) = ir_initialized s"
  "focus_sweep (snd (ir_camera_system_hw_init b r s)) = focus_sweep s"
  "mirror_sweep (snd (ir_camera_system_hw_init b r s)) = mirror_sweep s"
  "cam_enabled (snd (ir_camera_system_hw_init b r s)) = cam_enabled s"
  by (simp_all add: ir_camera_system_hw_init_def case_prod_beta Let_def)

lemma ir_init_led_arr: "led_arr (snd (ir_camera_system_hw_init b r s)) \<le> led_arr s"
proof -
  define s0 where "s0 = s\<lparr>pvcc_high := False\<rparr>"
  define s1 where "s1 = snd (setup_940nm_led_timer b (led_940_results r) s0)"
  define s2 where "s2 = snd (setup_850nm_led_timer (led_850_results r) s1)"
  define s3 where "s3 = snd (setup_camera_triggers b (trigger_results r) s2)"
  define s4 where "s4 = snd (setup_master_timer (master_result r) s3)"
  have "led_arr s0 = led_arr s" "led_arr s1 \<le> led_arr s0" "led_arr s2 \<le> led_arr s1"
    "led_arr s3 \<le> led_arr s2" "led_arr s4 \<le> led_arr s3"
    unfolding s1_def s2_def s3_def s4_def by (simp add: s0_def) simp_all
  moreover have "snd (ir_camera_system_hw_init b r s) \<in> {s, s0, s1, s2, s3, s4}"
    unfolding ir_camera_system_hw_init_def Let_def case_prod_beta s0_def [symmetric] s1_def [symmetric]
      s2_def [symmetric] s3_def [symmetric] s4_def [symmetric] by simp
  ultimately show ?thesis by auto
qed

lemma exposure_effect:
  "timer_settings (camera_exposure_completes_isr b k s) = timer_settings s"
  "led_on (camera_exposure_completes_isr b k s) = led_on s"
  "led_arr (camera_exposure_completes_isr b k s) = led_arr s"
  "led_wavelength (camera_exposure_completes_isr b k s) = led_wavelength s"
  "ir_initialized (camera_exposure_completes_isr b k s) = ir_initialized s"
  by (simp_all add: camera_exposure_completes_isr_def Let_def split: prod.split)

lemma sweep_ops_effect:
  "timer_settings (snd (ir_camera_system_perform_focus_sweep b env s)) = timer_settings s"
  "led_on (snd (ir_camera_system_perform_focus_sweep b env s)) = led_on s"
  "led_arr (snd (ir_camera_system_perform_focus_sweep b env s)) = led_arr s"
  "led_wavelength (snd (ir_camera_system_perform_focus_sweep b env s)) = led_wavelength s"
  "ir_initialized (snd (ir_camera_system_perform_focus_sweep b env s)) = ir_initialized s"
  "timer_settings (snd (ir_camera_system_perform_mirror_sweep b env s)) = timer_settings s"
  "led_on (snd (ir_camera_system_perform_mirror_sweep b env s)) = led_on s"
  "led_arr (snd (ir_camera_system_perform_mirror_sweep b env s)) = led_arr s"
  "led_wavelength (snd (ir_camera_system_perform_mirror_sweep b env s)) = led_wavelength s"
  "ir_initialized (snd (ir_camera_system_perform_mirror_sweep b env s)) = ir_initialized s"
  by (simp_all add: ir_camera_system_perform_focus_sweep_def ir_camera_system_perform_focus_sweep_hw_def
      initialize_focus_sweep_def ir_camera_system_perform_mirror_sweep_def
      ir_camera_system_perform_mirror_sweep_hw_def initialize_mirror_sweep_def Let_def)

lemma setter_effect:
  "timer_settings (snd (set_focus_values_for_focus_sweep vs n s)) = timer_settings s"
  "led_on (snd (set_focus_values_for_focus_sweep vs n s)) = led_on s"
  "led_arr (snd (set_focus_values_for_focus_sweep vs n s)) = led_arr s"
  "led_wavelength (snd (set_focus_values_for_focus_sweep vs n s)) = led_wavelength s"
  "ir_initialized (snd (set_focus_values_for_focus_sweep vs n s)) = ir_initialized s"
  "timer_settings (snd (set_polynomial_for_focus_sweep p s)) = timer_settings s"
  "led_on (snd (set_polynomial_for_focus_sweep p s)) = led_on s"
  "led_arr (snd (set_polynomial_for_focus_sweep p s)) = led_arr s"
  "led_wavelength (snd (set_polynomial_for_focus_sweep p s)) = led_wavelength s"
  "ir_initialized (snd (set_polynomial_for_focus_sweep p s)) = ir_initialized s"
  "timer_settings (snd (set_polynomial_for_mirror_sweep q s)) = timer_settings s"
  "led_on (snd (set_polynomial_for_mirror_sweep q s)) = led_on s"
  "led_arr (snd (set_polynomial_for_mirror_sweep q s)) = led_arr s"
  "led_wavelength (snd (set_polynomial_for_mirror_sweep q s)) = led_wavelength s"
  "ir_initialized (snd (set_polynomial_for_mirror_sweep q s)) = ir_initialized s"
  by (simp_all add: set_focus_values_for_focus_sweep_def set_polynomial_for_focus_sweep_def set_polynomial_for_mirror_sweep_def)

lemma camera_calls_effect:
  "timer_settings (snd (ir_camera_enable b c s)) = timer_settings s"
  "led_on (snd (ir_camera_enable b c s)) = led_on s"
  "led_arr (snd (ir_camera_enable b c s)) = led_arr s"
  "led_wavelength (snd (ir_camera_enable b c s)) = led_wavelength s"
  "ir_initialized (snd (ir_camera_enable b c s)) = ir_initialized s"
  "timer_settings (snd (ir_camera_disable b c s)) = timer_settings s"
  "led_on (snd (ir_camera_disable b c s)) = led_on s"
  "led_arr (snd (ir_camera_disable b c s)) = led_arr s"
  "led_wavelength (snd (ir_camera_disable b c s)) = led_wavelength s"
  "ir_initialized (snd (ir_camera_disable b c s)) = ir_initialized s"
  by (simp_all add: ir_camera_enable_def ir_camera_disable_def)

lemma strobe_rising_limits: "led_limits Diamond s \<Longrightarrow> led_limits Diamond (strobe_rising cnt s)"
  by (simp add: led_limits_def strobe_rising_def Let_def)

lemma strobe_falling_effect:
  "timer_settings (strobe_falling env s) = safe_settings env (timer_settings s)"
  "led_on (strobe_falling env s) =
     (led_on s - board_leds Diamond) \<union>
     (if on_time_in_us (safe_settings env (timer_settings s)) \<noteq> 0 then enabled_channels Diamond (led_wavelength s) else {})"
  "led_arr (strobe_falling env s) =
     (let on = on_time_in_us (safe_settings env (timer_settings s))
      in if on = 0 then led_arr s else on + trigger_delay Diamond)"
  "led_wavelength (strobe_falling env s) = led_wavelength s"
  "ir_initialized (strobe_falling env s) = ir_initialized s"
  by (auto simp: strobe_falling_def Let_def pulse_length_effect enable_pulse_effect)

lemma strobe_isr_limits: "led_limits Diamond s \<Longrightarrow> led_limits Diamond (rgb_ir_strobe_isr env level cnt s)"
proof -
  assume l: "led_limits Diamond s"
  then have "ir_settings_ok Diamond (safe_settings env (timer_settings s))" by (simp add: led_limits_def)
  from led_limits_on_time [OF this] have "led_limits Diamond (strobe_falling env s)"
    using l by (simp add: led_limits_def strobe_falling_effect Let_def)
  then show ?thesis using l by (simp add: rgb_ir_strobe_isr_def strobe_rising_limits)
qed

lemma timeout_limits: "led_limits b s \<Longrightarrow> led_limits b (ir_camera_system_timeout_disable b env s)"
proof -
  assume l: "led_limits b s"
  let ?s0 = "s\<lparr>auto_off := False\<rparr>"
  have "led_limits b ?s0" and "led_limits b (?s0\<lparr>led_wavelength := WAVELENGTH_NONE\<rparr>)"
    using l by (simp_all add: led_limits_def)
  then have "led_limits b (snd (ir_camera_system_enable_leds b env WAVELENGTH_NONE ?s0))"
    using enable_leds_cases [of b env WAVELENGTH_NONE ?s0] by (auto dest: enable_leds_hw_limits)
  then show ?thesis
    by (simp add: ir_camera_system_timeout_disable_def Let_def led_limits_def camera_calls_effect)
qed

lemma exec_limits: "led_limits b s \<Longrightarrow> led_limits b (snd (ir_exec b env op s))"
proof (cases op)
  case (Ir_init r)
  assume l: "led_limits b s"
  have "led_limits b (snd (ir_camera_system_hw_init b r s))"
    using l ir_init_led_arr [of b r s] by (simp add: led_limits_def ir_init_effect)
  then show ?thesis using l Ir_init
    by (cases "ir_camera_system_hw_init b r s") (auto simp: ir_camera_system_init_def led_limits_def)
next
  case (Ir_leds w)
  assume "led_limits b s"
  then have "led_limits b (s\<lparr>led_wavelength := w\<rparr>)" and "led_limits b s" by (simp_all add: led_limits_def)
  then show ?thesis using Ir_leds enable_leds_cases [of b env w s] by (auto dest: enable_leds_hw_limits)
next
  case (Ir_fps f)
  assume l: "led_limits b s"
  then have "led_limits b (apply_new_timer_settings b env (s\<lparr>timer_settings := snd (timer_settings_from_fps b f (timer_settings s))\<rparr>))"
    by (intro apply_limits) (simp_all add: led_limits_def)
  then show ?thesis using l Ir_fps set_fps_cases [of b env f s]
    by (auto simp: led_limits_def)
next
  case (Ir_on_time n)
  assume l: "led_limits b s"
  then have w: "led_limits b (with_on_time b n s)"
    by (simp add: with_on_time_def led_limits_def)
  then have "led_limits b (apply_new_timer_settings b env (with_on_time b n s))"
    by (intro apply_limits) (simp_all add: led_limits_def)
  with w show ?thesis using l Ir_on_time set_on_time_cases [of s b n env] by (auto simp: led_limits_def)
next
  case (Ir_strobe level cnt)
  assume "led_limits b s"
  then show ?thesis using Ir_strobe by (auto simp: strobe_isr_limits)
next
  case Ir_timeout
  assume "led_limits b s"
  then show ?thesis using Ir_timeout by (simp add: timeout_limits)
next
  case Ir_pulse_finished
  assume "led_limits b s"
  then show ?thesis using Ir_pulse_finished by (cases b) (simp_all add: led_limits_def)
qed (simp_all add: led_limits_def camera_calls_effect setter_effect sweep_ops_effect exposure_effect)

lemma power_on_limits: "led_limits b ir_power_on"
  by (simp add: led_limits_def ir_power_on_def ir_settings_ok_def settings_valid_zero strobe_settings_zero)

lemma run_limits: "led_limits b s \<Longrightarrow> led_limits b (ir_run b ops s)"
  by (induction b ops s rule: ir_run.induct) (simp_all add: exec_limits)

subsection \<open>Only the enabled wavelength\<close>

definition led_board_ok :: "board \<Rightarrow> ir_camera \<Rightarrow> bool" where
  "led_board_ok b s \<longleftrightarrow> led_on s \<subseteq> board_leds b"

lemma setup_channels_subset: "snd (setup_channels cs on) \<subseteq> on \<union> fst ` set cs"
  by (induction cs on rule: setup_channels.induct) auto

lemma setup_leds_board:
  "set chs \<subseteq> board_leds b \<Longrightarrow> led_board_ok b s \<Longrightarrow> led_board_ok b (snd (setup_leds chs oks s))"
  using setup_channels_subset [of "zip chs (tl oks)" "led_on s"]
  by (auto simp: setup_leds_def led_board_ok_def case_prod_beta Let_def dest!: set_zip_leftD subsetD)

lemma init_board:
  assumes s: "led_board_ok b s"
  shows "led_board_ok b (snd (ir_camera_system_hw_init b r s))"
proof -
  define s0 where "s0 = s\<lparr>pvcc_high := False\<rparr>"
  define s1 where "s1 = snd (setup_940nm_led_timer b (led_940_results r) s0)"
  define s2 where "s2 = snd (setup_850nm_led_timer (led_850_results r) s1)"
  define s3 where "s3 = snd (setup_camera_triggers b (trigger_results r) s2)"
  define s4 where "s4 = snd (setup_master_timer (master_result r) s3)"
  have s0: "led_board_ok b s0" using s by (simp add: led_board_ok_def s0_def)
  have s1: "led_board_ok b s1"
    unfolding s1_def setup_940nm_led_timer_def by (rule setup_leds_board [OF _ s0]) (cases b; simp)
  have s2: "led_board_ok b s2"
    unfolding s2_def setup_850nm_led_timer_def by (rule setup_leds_board [OF _ s1]) (cases b; simp)
  have s3: "led_board_ok b s3"
    using s2 by (simp add: s3_def led_board_ok_def setup_camera_triggers_def case_prod_beta Let_def)
  have s4: "led_board_ok b s4"
    using s3 by (simp add: s4_def led_board_ok_def setup_master_timer_def)
  have "snd (ir_camera_system_hw_init b r s) \<in> {s, s0, s1, s2, s3, s4}"
    unfolding ir_camera_system_hw_init_def Let_def case_prod_beta s0_def [symmetric] s1_def [symmetric]
      s2_def [symmetric] s3_def [symmetric] s4_def [symmetric] by simp
  then show ?thesis using s s0 s1 s2 s3 s4 by auto
qed

text \<open>
  Both invariants are about the connected channels, the wavelength and the initialisation flag,
  and every operation leaves these alone or sets the channels anew.
\<close>

lemma fresh_channels:
  assumes "led_board_ok b s"
  shows "led_on (apply_new_timer_settings b env s) \<subseteq> enabled_channels b (led_wavelength s)"
    and "led_on (ir_camera_system_enable_leds_hw b env s) \<subseteq> enabled_channels b (led_wavelength s)"
  using assms by (auto simp: led_board_ok_def apply_effect enable_leds_hw_effect)

lemma strobe_isr_channels:
  assumes "led_board_ok Diamond s" "led_on s \<subseteq> C" "enabled_channels Diamond (led_wavelength s) \<subseteq> C"
  shows "led_on (rgb_ir_strobe_isr env level cnt s) \<subseteq> C"
  using assms by (auto simp: rgb_ir_strobe_isr_def strobe_rising_def strobe_falling_effect led_board_ok_def Let_def)

lemma strobe_isr_wavelength:
  "led_wavelength (rgb_ir_strobe_isr env level cnt s) = led_wavelength s"
  "ir_initialized (rgb_ir_strobe_isr env level cnt s) = ir_initialized s"
  by (simp_all add: rgb_ir_strobe_isr_def strobe_rising_def strobe_falling_effect Let_def)

lemma timeout_channels:
  "led_on (ir_camera_system_timeout_disable b env s) =
     led_on (snd (ir_camera_system_enable_leds b env WAVELENGTH_NONE (s\<lparr>auto_off := False\<rparr>)))"
  "led_wavelength (ir_camera_system_timeout_disable b env s) =
     led_wavelength (snd (ir_camera_system_enable_leds b env WAVELENGTH_NONE (s\<lparr>auto_off := False\<rparr>)))"
  "ir_initialized (ir_camera_system_timeout_disable b env s) =
     ir_initialized (snd (ir_camera_system_enable_leds b env WAVELENGTH_NONE (s\<lparr>auto_off := False\<rparr>)))"
  by (simp_all add: ir_camera_system_timeout_disable_def Let_def camera_calls_effect)

lemma fresh_channels_settings:
  assumes "led_board_ok b s"
  shows "led_on (apply_new_timer_settings b env (s\<lparr>timer_settings := ts\<rparr>)) \<subseteq> enabled_channels b (led_wavelength s)"
  using fresh_channels(1) [of b "s\<lparr>timer_settings := ts\<rparr>" env] assms by (simp add: led_board_ok_def)

lemma fps_result:
  assumes "\<And>t. t \<in> {s, apply_new_timer_settings b env (s\<lparr>timer_settings := snd (timer_settings_from_fps b f (timer_settings s))\<rparr>)} \<Longrightarrow>
      P (led_on t) (led_wavelength t) (ir_initialized t)"
  shows "P (led_on (snd (ir_camera_system_set_fps b env f s)))
    (led_wavelength (snd (ir_camera_system_set_fps b env f s)))
    (ir_initialized (snd (ir_camera_system_set_fps b env f s)))"
proof -
  let ?a = "apply_new_timer_settings b env (s\<lparr>timer_settings := snd (timer_settings_from_fps b f (timer_settings s))\<rparr>)"
  obtain t where t: "t \<in> {s, ?a}" and r: "snd (ir_camera_system_set_fps b env f s) \<in> {t, configure_timeout t}"
    using set_fps_cases [of b env f s] by blast
  from assms [OF t] r show ?thesis by auto
qed

lemma on_time_result:
  assumes "\<And>t. t \<in> {s, with_on_time b n s, apply_new_timer_settings b env (with_on_time b n s)} \<Longrightarrow>
      P (led_on t) (led_wavelength t) (ir_initialized t)"
  shows "P (led_on (snd (ir_camera_system_set_on_time_us b env n s)))
    (led_wavelength (snd (ir_camera_system_set_on_time_us b env n s)))
    (ir_initialized (snd (ir_camera_system_set_on_time_us b env n s)))"
proof -
  obtain t where t: "t \<in> {s, with_on_time b n s, apply_new_timer_settings b env (with_on_time b n s)}"
    and r: "snd (ir_camera_system_set_on_time_us b env n s) \<in> {t, configure_timeout t}"
    using set_on_time_cases [of s b n env] by blast
  from assms [OF t] r show ?thesis by auto
qed

lemma enable_leds_channels:
  assumes "led_board_ok b s"
  shows "led_on (snd (ir_camera_system_enable_leds b env w s)) \<subseteq> board_leds b"
    and "led_channels_ok b s \<Longrightarrow> led_channels_ok b (snd (ir_camera_system_enable_leds b env w s))"
proof -
  let ?t = "s\<lparr>led_wavelength := w\<rparr>"
  have t: "led_board_ok b ?t" using assms by (simp add: led_board_ok_def)
  have sub: "led_on (ir_camera_system_enable_leds_hw b env ?t) \<subseteq> enabled_channels b w"
    using fresh_channels(2) [OF t, of env] by simp
  show "led_on (snd (ir_camera_system_enable_leds b env w s)) \<subseteq> board_leds b"
    using enable_leds_cases [of b env w s] sub assms enabled_channels_board [of b w]
    by (auto simp: led_board_ok_def)
  show "led_channels_ok b s \<Longrightarrow> led_channels_ok b (snd (ir_camera_system_enable_leds b env w s))"
    using enable_leds_cases [of b env w s] sub by (auto simp: led_channels_ok_def enable_leds_hw_effect)
qed

lemma exec_board: "led_board_ok b s \<Longrightarrow> led_board_ok b (snd (ir_exec b env op s))"
proof (cases op)
  case (Ir_init r)
  assume l: "led_board_ok b s"
  then show ?thesis using Ir_init init_board [OF l, of r]
    by (cases "ir_camera_system_hw_init b r s") (auto simp: ir_camera_system_init_def led_board_ok_def)
next
  case (Ir_leds w)
  assume "led_board_ok b s"
  then show ?thesis using Ir_leds enable_leds_channels(1) by (simp add: led_board_ok_def)
next
  case (Ir_fps f)
  assume "led_board_ok b s"
  then have "led_on t \<subseteq> board_leds b"
    if "t \<in> {s, apply_new_timer_settings b env (s\<lparr>timer_settings := snd (timer_settings_from_fps b f (timer_settings s))\<rparr>)}" for t
    using that enabled_channels_board [of b "led_wavelength s"]
    by (auto simp: led_board_ok_def dest: subsetD [OF fresh_channels_settings [unfolded led_board_ok_def]])
  then show ?thesis unfolding led_board_ok_def Ir_fps ir_exec.simps snd_apfst
    by (rule fps_result [where P = "\<lambda>l w i. l \<subseteq> board_leds b"])
next
  case (Ir_on_time n)
  assume l: "led_board_ok b s"
  have "led_on t \<subseteq> board_leds b"
    if "t \<in> {s, with_on_time b n s, apply_new_timer_settings b env (with_on_time b n s)}" for t
    using that l enabled_channels_board [of b "led_wavelength s"]
    by (auto simp: led_board_ok_def with_on_time_def dest: subsetD [OF fresh_channels_settings [unfolded led_board_ok_def]])
  then show ?thesis unfolding led_board_ok_def Ir_on_time ir_exec.simps snd_apfst
    by (rule on_time_result [where P = "\<lambda>l w i. l \<subseteq> board_leds b"])
next
  case (Ir_strobe level cnt)
  assume l: "led_board_ok b s"
  then have "led_on (rgb_ir_strobe_isr env level cnt s) \<subseteq> board_leds Diamond" if "b = Diamond"
    using that by (intro strobe_isr_channels [OF _ _ enabled_channels_board]) (simp_all only: led_board_ok_def)
  then show ?thesis using Ir_strobe l by (auto simp: led_board_ok_def simp del: board_leds.simps)
next
  case Ir_pulse_finished
  assume "led_board_ok b s"
  then show ?thesis using Ir_pulse_finished by (cases b) (simp_all add: led_board_ok_def)
next
  case Ir_timeout
  assume "led_board_ok b s"
  then have "led_board_ok b (s\<lparr>auto_off := False\<rparr>)" and "led_board_ok b s" by (simp_all add: led_board_ok_def)
  then show ?thesis using Ir_timeout enable_leds_channels(1)
    by (simp add: led_board_ok_def timeout_channels)
qed (simp_all add: led_board_ok_def camera_calls_effect setter_effect sweep_ops_effect exposure_effect)

lemma exec_channels:
  "led_board_ok b s \<Longrightarrow> led_channels_ok b s \<Longrightarrow> led_channels_ok b (snd (ir_exec b env op s))"
proof (cases op)
  case (Ir_init r)
  assume "led_channels_ok b s"
  then show ?thesis using Ir_init by (simp add: ir_camera_system_init_def led_channels_ok_def)
next
  case (Ir_leds w)
  assume "led_board_ok b s" "led_channels_ok b s"
  then show ?thesis using Ir_leds enable_leds_channels(2) by simp
next
  case (Ir_fps f)
  assume l: "led_board_ok b s" "led_channels_ok b s"
  have "led_on t \<subseteq> enabled_channels b (led_wavelength t) \<and> ir_initialized t"
    if "t \<in> {s, apply_new_timer_settings b env (s\<lparr>timer_settings := snd (timer_settings_from_fps b f (timer_settings s))\<rparr>)}" for t
    using that l fresh_channels_settings [OF l(1), of env "snd (timer_settings_from_fps b f (timer_settings s))"]
    unfolding led_channels_ok_def by (elim insertE emptyE) simp_all
  then show ?thesis unfolding led_channels_ok_def Ir_fps ir_exec.simps snd_apfst
    by (rule fps_result [where P = "\<lambda>l w i. l \<subseteq> enabled_channels b w \<and> i"])
next
  case (Ir_on_time n)
  assume l: "led_board_ok b s" "led_channels_ok b s"
  have "led_on t \<subseteq> enabled_channels b (led_wavelength t) \<and> ir_initialized t"
    if "t \<in> {s, with_on_time b n s, apply_new_timer_settings b env (with_on_time b n s)}" for t
    using that l fresh_channels_settings [OF l(1), of env "snd (timer_settings_from_on_time_us b n (timer_settings s))"]
    unfolding with_on_time_def led_channels_ok_def by (elim insertE emptyE) simp_all
  then show ?thesis unfolding led_channels_ok_def Ir_on_time ir_exec.simps snd_apfst
    by (rule on_time_result [where P = "\<lambda>l w i. l \<subseteq> enabled_channels b w \<and> i"])
next
  case (Ir_strobe level cnt)
  assume "led_board_ok b s" "led_channels_ok b s"
  then have "led_channels_ok Diamond (rgb_ir_strobe_isr env level cnt s)" if "b = Diamond"
    using that strobe_isr_channels [of s "enabled_channels Diamond (led_wavelength s)"]
    by (simp add: led_channels_ok_def strobe_isr_wavelength)
  then show ?thesis using Ir_strobe \<open>led_channels_ok b s\<close> by auto
next
  case Ir_pulse_finished
  assume "led_channels_ok b s"
  then show ?thesis using Ir_pulse_finished by (cases b) (simp_all add: led_channels_ok_def)
next
  case Ir_timeout
  assume "led_board_ok b s" "led_channels_ok b s"
  moreover from this have "led_board_ok b (s\<lparr>auto_off := False\<rparr>)" "led_channels_ok b (s\<lparr>auto_off := False\<rparr>)"
    by (simp_all add: led_board_ok_def led_channels_ok_def)
  ultimately show ?thesis using Ir_timeout enable_leds_channels(2) [of b "s\<lparr>auto_off := False\<rparr>" env WAVELENGTH_NONE]
    by (simp add: led_channels_ok_def timeout_channels)
qed (simp_all add: led_channels_ok_def camera_calls_effect setter_effect sweep_ops_effect exposure_effect)

lemma run_board: "led_board_ok b s \<Longrightarrow> led_board_ok b (ir_run b ops s)"
  by (induction b ops s rule: ir_run.induct) (simp_all add: exec_board)

lemma run_channels: "led_board_ok b s \<Longrightarrow> led_channels_ok b s \<Longrightarrow> led_channels_ok b (ir_run b ops s)"
  by (induction b ops s rule: ir_run.induct) (simp_all add: exec_board exec_channels)

lemma power_on_board: "led_board_ok b ir_power_on"
  by (simp add: led_board_ok_def ir_power_on_def)

subsection \<open>Sweeps\<close>

lemma exposure_focus_step:
  assumes "focus_sweep s" "sweep_index s \<noteq> num_focus_values s"
  shows "camera_exposure_completes_isr b False s =
    (emit (Lens_current (focus_value s (sweep_index s))) s)\<lparr>sweep_index := sweep_index s + 1\<rparr>"
  using assms by (simp add: camera_exposure_completes_isr_def Let_def emit_def)

lemma exposure_focus_end:
  assumes "focus_sweep s" "sweep_index s = num_focus_values s"
  shows "focus_sweep (camera_exposure_completes_isr b False s) = False"
    and "trigger_it (camera_exposure_completes_isr b False s) = False"
    and "cam_enabled (camera_exposure_completes_isr b False s) = cam_enabled s - {Ir_eye}"
    and "ir_out (camera_exposure_completes_isr b False s) = ir_out s"
  using assms by (simp_all add: camera_exposure_completes_isr_def Let_def ir_camera_disable_force_def)

lemma focus_sweep_frames:
  assumes "focus_sweep s" "trigger_it s" "sweep_index s + k \<le> num_focus_values s"
  shows "(camera_exposure_completes_isr b False ^^ k) s =
    s\<lparr>sweep_index := sweep_index s + k,
      ir_out := ir_out s @ map (\<lambda>i. Lens_current (focus_value s i)) [sweep_index s..<sweep_index s + k]\<rparr>"
  using assms(3)
proof (induction k)
  case (Suc k)
  then show ?case using assms(1)
    by (simp add: exposure_focus_step emit_def focus_value_def)
qed simp

lemma focus_start_effect:
  assumes "fst (ir_camera_system_perform_focus_sweep b env s) = RET_SUCCESS" "0 < num_focus_values s"
  defines "t \<equiv> snd (ir_camera_system_perform_focus_sweep b env s)"
  shows "focus_sweep t" "trigger_it t" "sweep_index t = 1" "num_focus_values t = num_focus_values s"
    "ir_out t = ir_out s @ [Lens_current (focus_value s 0)]" "focus_value t = focus_value s"
    "Ir_eye \<in> cam_enabled t"
proof -
  have t: "t = initialize_focus_sweep b (s\<lparr>focus_sweep := True\<rparr>)"
    using assms(1,2) unfolding t_def
    by (auto simp: ir_camera_system_perform_focus_sweep_def ir_camera_system_perform_focus_sweep_hw_def Let_def split: if_splits)
  have f: "focus_value (s\<lparr>focus_sweep := True\<rparr>) = focus_value s" by (simp add: focus_value_def fun_eq_iff)
  show "focus_sweep t" "trigger_it t" "sweep_index t = 1" "num_focus_values t = num_focus_values s"
    "ir_out t = ir_out s @ [Lens_current (focus_value s 0)]" "focus_value t = focus_value s"
    "Ir_eye \<in> cam_enabled t"
    unfolding t initialize_focus_sweep_def Let_def f
    by (simp_all add: ir_camera_enable_force_def emit_def camera_enable_trigger_def configure_timeout_def
        focus_value_def fun_eq_iff Let_def)
qed

lemma exposure_mirror_step:
  assumes "\<not> focus_sweep s" "mirror_sweep s" "sweep_index s \<noteq> number_of_frames (mirror_sweep_polynomial s)"
  shows "camera_exposure_completes_isr b False s =
    (let v = value_at (mirror_sweep_polynomial s) (sweep_index s) in
     s\<lparr>ir_out := ir_out s @ [Mirror_phi (fst v + initial_phi s), Mirror_theta (snd v + initial_theta s)],
       sweep_index := sweep_index s + 1\<rparr>)"
  using assms by (simp add: camera_exposure_completes_isr_def Let_def emit_def case_prod_beta)

lemma exposure_mirror_end:
  assumes "\<not> focus_sweep s" "mirror_sweep s" "sweep_index s = number_of_frames (mirror_sweep_polynomial s)"
  shows "mirror_sweep (camera_exposure_completes_isr b False s) = False"
    and "trigger_it (camera_exposure_completes_isr b False s) = False"
    and "cam_enabled (camera_exposure_completes_isr b False s) = cam_enabled s - {Ir_eye}"
    and "ir_out (camera_exposure_completes_isr b False s) = ir_out s"
  using assms by (simp_all add: camera_exposure_completes_isr_def Let_def ir_camera_disable_force_def)

definition mirror_moves :: "ir_camera \<Rightarrow> nat \<Rightarrow> ir_event list" where
  "mirror_moves s i = (let v = value_at (mirror_sweep_polynomial s) i in
     [Mirror_phi (fst v + initial_phi s), Mirror_theta (snd v + initial_theta s)])"

lemma mirror_sweep_frames:
  assumes "\<not> focus_sweep s" "mirror_sweep s" "sweep_index s + k \<le> number_of_frames (mirror_sweep_polynomial s)"
  shows "(camera_exposure_completes_isr b False ^^ k) s =
    s\<lparr>sweep_index := sweep_index s + k,
      ir_out := ir_out s @ concat (map (mirror_moves s) [sweep_index s..<sweep_index s + k])\<rparr>"
  using assms(3)
proof (induction k)
  case (Suc k)
  then show ?case using assms(1,2)
    by (simp add: exposure_mirror_step mirror_moves_def Let_def)
qed simp

lemma mirror_start_effect:
  assumes "fst (ir_camera_system_perform_mirror_sweep b env s) = RET_SUCCESS"
    "0 < number_of_frames (mirror_sweep_polynomial s)"
  defines "t \<equiv> snd (ir_camera_system_perform_mirror_sweep b env s)"
  shows "\<not> focus_sweep t" "mirror_sweep t" "trigger_it t" "sweep_index t = 0"
    "mirror_sweep_polynomial t = mirror_sweep_polynomial s" "ir_out t = ir_out s"
    "initial_phi t = phi_angle env" "initial_theta t = theta_angle env"
proof -
  have "\<not> focus_sweep s" and t: "t = initialize_mirror_sweep b env (s\<lparr>mirror_sweep := True\<rparr>)"
    using assms(1,2) unfolding t_def
    by (auto simp: ir_camera_system_perform_mirror_sweep_def ir_camera_system_perform_mirror_sweep_hw_def
        ir_camera_system_get_status_def Let_def split: if_splits)
  then show "\<not> focus_sweep t" "mirror_sweep t" "trigger_it t" "sweep_index t = 0"
    "mirror_sweep_polynomial t = mirror_sweep_polynomial s" "ir_out t = ir_out s"
    "initial_phi t = phi_angle env" "initial_theta t = theta_angle env"
    unfolding t initialize_mirror_sweep_def
    by (simp_all add: ir_camera_enable_force_def emit_def camera_enable_trigger_def configure_timeout_def Let_def)
qed

subsection \<open>A sweep without frames\<close>

text \<open>While a sweep is in progress and the frame rate is 0, no call can set a frame rate again.\<close>

definition sweep_stalled :: "ir_camera \<Rightarrow> bool" where
  "sweep_stalled s \<longleftrightarrow> ir_initialized s \<and> (focus_sweep s \<or> mirror_sweep s) \<and>
     fps (timer_settings s) = 0 \<and> \<not> master_enabled s"

fun is_exposure :: "ir_env \<times> ir_op \<Rightarrow> bool" where
  "is_exposure (env, Ir_exposure counting) \<longleftrightarrow> True"
| "is_exposure _ \<longleftrightarrow> False"

lemma status_stalled: "sweep_stalled s \<Longrightarrow> ir_camera_system_get_status env s \<noteq> RET_SUCCESS"
  by (auto simp: sweep_stalled_def ir_camera_system_get_status_def)

lemma from_on_time_fps [simp]: "fps (snd (timer_settings_from_on_time_us b n ts)) = fps ts"
  by (simp add: timer_settings_from_on_time_us_def Let_def)

lemma sweep_stalled_frame:
  "ir_initialized t = ir_initialized s \<Longrightarrow> focus_sweep t = focus_sweep s \<Longrightarrow> mirror_sweep t = mirror_sweep s \<Longrightarrow>
   fps (timer_settings t) = fps (timer_settings s) \<Longrightarrow> master_enabled t = master_enabled s \<Longrightarrow>
   sweep_stalled t = sweep_stalled s"
  by (simp add: sweep_stalled_def)

lemma camera_calls_frame:
  "focus_sweep (snd (ir_camera_enable b c s)) = focus_sweep s"
  "mirror_sweep (snd (ir_camera_enable b c s)) = mirror_sweep s"
  "master_enabled (snd (ir_camera_enable b c s)) = master_enabled s"
  "focus_sweep (snd (ir_camera_disable b c s)) = focus_sweep s"
  "mirror_sweep (snd (ir_camera_disable b c s)) = mirror_sweep s"
  "master_enabled (snd (ir_camera_disable b c s)) = master_enabled s"
  by (simp_all add: ir_camera_enable_def ir_camera_disable_def)

lemma enable_leds_stalled:
  "sweep_stalled (snd (ir_camera_system_enable_leds b env w s)) = sweep_stalled s"
  using enable_leds_cases [of b env w s] by (auto simp: sweep_stalled_def enable_leds_hw_effect)

lemma strobe_stalled: "sweep_stalled s \<Longrightarrow> sweep_stalled (rgb_ir_strobe_isr env level cnt s)"
  by (auto simp: sweep_stalled_def rgb_ir_strobe_isr_def strobe_falling_def strobe_rising_def Let_def
      pulse_length_effect)

lemma set_fps_stalled: "sweep_stalled s \<Longrightarrow> sweep_stalled (snd (ir_camera_system_set_fps b env f s))"
proof (cases "f = 0")
  case True
  assume s: "sweep_stalled s"
  have "snd (ir_camera_system_set_fps b env 0 s) =
      configure_timeout (apply_new_timer_settings b env
        (s\<lparr>timer_settings := (timer_settings s)\<lparr>fps := 0, master_psc := 0, master_arr := 0\<rparr>\<rparr>))"
    by (simp add: ir_camera_system_set_fps_def ir_camera_system_set_fps_hw_def timer_settings_from_fps_def
        IR_CAMERA_SYSTEM_MAX_FPS_def)
  then show ?thesis using s True by (simp add: sweep_stalled_def apply_effect)
next
  case False
  assume "sweep_stalled s"
  then show ?thesis using False status_stalled [of s env] by (simp add: ir_camera_system_set_fps_def Let_def)
qed

lemma set_on_time_stalled: "sweep_stalled s \<Longrightarrow> sweep_stalled (snd (ir_camera_system_set_on_time_us b env n s))"
proof -
  assume s: "sweep_stalled s"
  obtain t where t: "t \<in> {s, with_on_time b n s, apply_new_timer_settings b env (with_on_time b n s)}"
    and r: "snd (ir_camera_system_set_on_time_us b env n s) \<in> {t, configure_timeout t}"
    using set_on_time_cases [of s b n env] by blast
  have "sweep_stalled t" using t s
    by (auto simp: sweep_stalled_def with_on_time_def apply_effect)
  then show ?thesis using r by (auto simp: sweep_stalled_def)
qed

lemma setters_stalled:
  "sweep_stalled s \<Longrightarrow> sweep_stalled (snd (set_focus_values_for_focus_sweep vs n s))"
  "sweep_stalled s \<Longrightarrow> sweep_stalled (snd (set_polynomial_for_focus_sweep p s))"
  "sweep_stalled s \<Longrightarrow> sweep_stalled (snd (set_polynomial_for_mirror_sweep q s))"
  by (auto simp: sweep_stalled_def set_focus_values_for_focus_sweep_def set_polynomial_for_focus_sweep_def
      set_polynomial_for_mirror_sweep_def)

lemma sweeps_stalled:
  "sweep_stalled s \<Longrightarrow> snd (ir_camera_system_perform_focus_sweep b env s) = s"
  "sweep_stalled s \<Longrightarrow> snd (ir_camera_system_perform_mirror_sweep b env s) = s"
  using status_stalled [of s env]
  by (simp_all add: ir_camera_system_perform_focus_sweep_def ir_camera_system_perform_mirror_sweep_def)

lemma timeout_stalled: "sweep_stalled s \<Longrightarrow> sweep_stalled (ir_camera_system_timeout_disable b env s)"
proof -
  assume "sweep_stalled s"
  then have "sweep_stalled (snd (ir_camera_system_enable_leds b env WAVELENGTH_NONE (s\<lparr>auto_off := False\<rparr>)))"
    by (simp add: enable_leds_stalled) (simp add: sweep_stalled_def)
  then show ?thesis
    by (simp add: ir_camera_system_timeout_disable_def Let_def sweep_stalled_def camera_calls_effect camera_calls_frame)
qed

lemma exec_stalled:
  assumes "sweep_stalled s" "\<not> is_exposure (env, op)"
  shows "sweep_stalled (snd (ir_exec b env op s))"
proof (cases op)
  case (Ir_init r)
  then show ?thesis using assms by (simp add: ir_camera_system_init_def sweep_stalled_def)
next
  case (Ir_enable c)
  then show ?thesis using assms by (simp add: sweep_stalled_def camera_calls_effect camera_calls_frame)
next
  case (Ir_disable c)
  then show ?thesis using assms by (simp add: sweep_stalled_def camera_calls_effect camera_calls_frame)
next
  case Ir_pulse_finished
  then show ?thesis using assms by (cases b) (simp_all add: sweep_stalled_def)
qed (use assms in \<open>simp_all add: enable_leds_stalled strobe_stalled set_fps_stalled set_on_time_stalled
      setters_stalled sweeps_stalled timeout_stalled\<close>)

lemma run_stalled:
  "sweep_stalled s \<Longrightarrow> list_all (\<lambda>x. \<not> is_exposure x) ops \<Longrightarrow> sweep_stalled (ir_run b ops s)"
  by (induction b ops s rule: ir_run.induct) (simp_all add: exec_stalled)

lemma set_fps_0_stalls:
  assumes "ir_initialized s" "focus_sweep s \<or> mirror_sweep s"
  shows "fst (ir_camera_system_set_fps b env 0 s) = RET_SUCCESS"
    and "sweep_stalled (snd (ir_camera_system_set_fps b env 0 s))"
  using assms
  by (simp_all add: ir_camera_system_set_fps_def ir_camera_system_set_fps_hw_def timer_settings_from_fps_def
        IR_CAMERA_SYSTEM_MAX_FPS_def sweep_stalled_def apply_effect)

subsection \<open>Properties\<close>

text \<open>
  C10. Safety limits. Whatever calls, interrupts and timeouts occur after power-on, in any
  order and with any distance measurements, the frame rate is at most 60, the on-time of the
  infrared LEDs is at most the limit of the board and at most 15 (25) percent of the period,
  prescaler and period fit their 16-bit registers, and the LED timers are never programmed
  for a pulse longer than the limit plus the start delay.
\<close>

theorem ir_pulses_within_limits:
  fixes b :: board and ops :: "(ir_env \<times> ir_op) list"
  defines "s \<equiv> ir_run b ops ir_power_on"
  shows "fps (timer_settings s) \<le> 60 \<and>
    on_time_in_us (timer_settings s) \<le> IR_CAMERA_SYSTEM_MAX_IR_LED_ON_TIME_US b \<and>
    on_time_in_us (timer_settings s) * fps (timer_settings s) * 100 \<le> duty_percent b * 1000000 \<and>
    led_arr s \<le> IR_CAMERA_SYSTEM_MAX_IR_LED_ON_TIME_US b + trigger_delay b \<and>
    master_psc (timer_settings s) < 2 ^ 16 \<and> master_arr (timer_settings s) < 2 ^ 16"
proof (intro conjI)
  have l: "led_limits b s" unfolding s_def by (rule run_limits [OF power_on_limits])
  then show "fps (timer_settings s) \<le> 60"
    and "on_time_in_us (timer_settings s) \<le> IR_CAMERA_SYSTEM_MAX_IR_LED_ON_TIME_US b"
    and "on_time_in_us (timer_settings s) * fps (timer_settings s) * 100 \<le> duty_percent b * 1000000"
    and "led_arr s \<le> IR_CAMERA_SYSTEM_MAX_IR_LED_ON_TIME_US b + trigger_delay b"
    unfolding led_limits_def ir_settings_ok_def settings_valid_def IR_CAMERA_SYSTEM_MAX_FPS_def by blast+
  show "master_psc (timer_settings s) < 2 ^ 16" and "master_arr (timer_settings s) < 2 ^ 16"
    using l psc_of_less arr_of_less by (simp_all add: led_limits_def ir_settings_ok_def settings_valid_def)
qed

text \<open>
  C11. Once a frame rate has been set, and whatever follows, only LED channels of the
  currently enabled wavelength are connected to their timer; with no wavelength enabled, none.
\<close>

theorem ir_leds_only_enabled:
  assumes "s = ir_run b ops ir_power_on"
    and "ir_initialized s"
    and "ir_camera_system_set_fps b env f s = (RET_SUCCESS, t)"
  shows "led_on (ir_run b ops' t) \<subseteq> enabled_channels b (led_wavelength (ir_run b ops' t))"
proof -
  have s: "led_board_ok b s" unfolding assms(1) by (rule run_board [OF power_on_board])
  then have t: "led_board_ok b t" using exec_board [OF s, of env "Ir_fps f"] assms(3) by simp
  let ?ts = "snd (timer_settings_from_fps b f (timer_settings s))"
  have "t = configure_timeout (apply_new_timer_settings b env (s\<lparr>timer_settings := ?ts\<rparr>))"
    using assms(3) by (auto simp: ir_camera_system_set_fps_def ir_camera_system_set_fps_hw_def Let_def
        split: if_splits prod.splits)
  then have "led_channels_ok b t"
    using fresh_channels_settings [OF s, of env ?ts] assms(2) by (simp add: led_channels_ok_def)
  then have "led_channels_ok b (ir_run b ops' t)" by (rule run_channels [OF t])
  then show ?thesis by (simp add: led_channels_ok_def)
qed

text \<open>
  When the object in front is too close, applying new settings, enabling a wavelength and
  the strobe of the RGB camera all clear the on-time and disconnect every LED.
\<close>

theorem ir_unsafe_distance_leds_off:
  assumes "\<not> distance_is_safe env" and "s = ir_run b ops ir_power_on"
    and "t \<in> {apply_new_timer_settings b env s, ir_camera_system_enable_leds_hw b env s} \<union>
      (if b = Diamond then {strobe_falling env s} else {})"
  shows "led_on t = {} \<and> on_time_in_us (timer_settings t) = 0"
proof -
  have s: "led_on s \<subseteq> board_leds b"
    unfolding assms(2) using run_board [OF power_on_board] by (simp add: led_board_ok_def)
  have "on_time_in_us (safe_settings env ts) = 0" for ts using assms(1) by (simp add: safe_settings_def)
  then have "led_on t = led_on s - board_leds b \<and> on_time_in_us (timer_settings t) = 0"
    using assms(3) by (auto simp: apply_effect enable_leds_hw_effect strobe_falling_effect split: if_splits)
  then show ?thesis using s by auto
qed

text \<open>
  C12. A focus sweep that was started takes exactly one frame per focus value: after the first
  frames each exposure sets the next value, in order, and the exposure after the last one ends
  the sweep and disables the eye camera. A mirror sweep moves the mirror along its polynomial,
  relative to where it was, and ends one exposure later than its number of frames.
\<close>

theorem ir_sweeps_terminate:
  assumes "ir_camera_system_perform_focus_sweep b env s = (RET_SUCCESS, t)" and "0 < num_focus_values s"
    and "ir_camera_system_perform_mirror_sweep b env s' = (RET_SUCCESS, t')"
    and "0 < number_of_frames (mirror_sweep_polynomial s')"
  defines "n \<equiv> num_focus_values s" and "m \<equiv> number_of_frames (mirror_sweep_polynomial s')"
  defines "isr \<equiv> camera_exposure_completes_isr b False"
  shows "(focus_sweep ((isr ^^ (n - 1)) t) \<and> \<not> focus_sweep ((isr ^^ n) t) \<and>
      Ir_eye \<notin> cam_enabled ((isr ^^ n) t) \<and> \<not> trigger_it ((isr ^^ n) t) \<and>
      ir_out ((isr ^^ n) t) = ir_out s @ map (\<lambda>i. Lens_current (focus_value s i)) [0..<n]) \<and>
    (mirror_sweep ((isr ^^ m) t') \<and> \<not> mirror_sweep ((isr ^^ (m + 1)) t') \<and>
      Ir_eye \<notin> cam_enabled ((isr ^^ (m + 1)) t') \<and> \<not> trigger_it ((isr ^^ (m + 1)) t') \<and>
      ir_out ((isr ^^ (m + 1)) t') = ir_out s' @
        concat (map (\<lambda>i. let v = value_at (mirror_sweep_polynomial s') i in
          [Mirror_phi (fst v + phi_angle env), Mirror_theta (snd v + theta_angle env)]) [0..<m]))"
proof (rule conjI)
  obtain k where n: "n = Suc k" using assms(2) by (cases n) (simp_all add: n_def)
  note st = focus_start_effect [of b env s, unfolded assms(1) fst_conv snd_conv, OF refl assms(2)]
  have fk: "(isr ^^ k) t = t\<lparr>sweep_index := sweep_index t + k,
      ir_out := ir_out t @ map (\<lambda>i. Lens_current (focus_value t i)) [sweep_index t..<sweep_index t + k]\<rparr>"
    unfolding isr_def by (rule focus_sweep_frames) (use st n in \<open>simp_all add: n_def\<close>)
  let ?u = "(isr ^^ k) t"
  have u: "focus_sweep ?u" "sweep_index ?u = num_focus_values ?u" and
    out: "ir_out ?u = ir_out s @ map (\<lambda>i. Lens_current (focus_value s i)) [0..<n]"
    unfolding fk using st n by (simp_all add: n_def [symmetric] upt_conv_Cons del: upt_Suc)
  have "(isr ^^ n) t = isr ?u" by (simp add: n)
  then show "focus_sweep ((isr ^^ (n - 1)) t) \<and> \<not> focus_sweep ((isr ^^ n) t) \<and>
      Ir_eye \<notin> cam_enabled ((isr ^^ n) t) \<and> \<not> trigger_it ((isr ^^ n) t) \<and>
      ir_out ((isr ^^ n) t) = ir_out s @ map (\<lambda>i. Lens_current (focus_value s i)) [0..<n]"
    using exposure_focus_end [OF u, of b] u(1) out by (simp add: isr_def [symmetric] n)
  note mt = mirror_start_effect [of b env s', unfolded assms(3) fst_conv snd_conv, OF refl assms(4)]
  have mk: "(isr ^^ m) t' = t'\<lparr>sweep_index := sweep_index t' + m,
      ir_out := ir_out t' @ concat (map (mirror_moves t') [sweep_index t'..<sweep_index t' + m])\<rparr>"
    unfolding isr_def by (rule mirror_sweep_frames) (use mt in \<open>simp_all add: m_def\<close>)
  let ?v = "(isr ^^ m) t'"
  have v: "\<not> focus_sweep ?v" "mirror_sweep ?v" "sweep_index ?v = number_of_frames (mirror_sweep_polynomial ?v)" and
    vout: "ir_out ?v = ir_out s' @ concat (map (\<lambda>i. let v = value_at (mirror_sweep_polynomial s') i in
          [Mirror_phi (fst v + phi_angle env), Mirror_theta (snd v + theta_angle env)]) [0..<m])"
    unfolding mk using mt by (simp_all add: m_def mirror_moves_def [abs_def])
  have "(isr ^^ (m + 1)) t' = isr ?v" by simp
  then show "mirror_sweep ((isr ^^ m) t') \<and> \<not> mirror_sweep ((isr ^^ (m + 1)) t') \<and>
      Ir_eye \<notin> cam_enabled ((isr ^^ (m + 1)) t') \<and> \<not> trigger_it ((isr ^^ (m + 1)) t') \<and>
      ir_out ((isr ^^ (m + 1)) t') = ir_out s' @
        concat (map (\<lambda>i. let v = value_at (mirror_sweep_polynomial s') i in
          [Mirror_phi (fst v + phi_angle env), Mirror_theta (snd v + theta_angle env)]) [0..<m])"
    using exposure_mirror_end [OF v, of b] v(2) vout by (simp add: isr_def [symmetric])
qed

text \<open>
  Setting the frame rate to 0 is accepted during a sweep and stops the master timer. As
  no frame follows, the sweep does not end, and no later call, in any number, starts the timer
  again or ends the sweep: the system stays busy.
\<close>

theorem ir_sweep_stuck_at_fps_0:
  fixes b :: board and env env' :: ir_env
  assumes "ir_initialized s" "focus_sweep s \<or> mirror_sweep s"
    and "list_all (\<lambda>x. \<not> is_exposure x) ops"
  defines "t \<equiv> ir_run b ops (snd (ir_camera_system_set_fps b env 0 s))"
  shows "fst (ir_camera_system_set_fps b env 0 s) = RET_SUCCESS \<and> \<not> master_enabled t \<and>
    (focus_sweep t \<or> mirror_sweep t) \<and>
    ir_camera_system_get_status env' t \<in> {RET_ERROR_BUSY, RET_ERROR_FORBIDDEN}"
proof -
  have "sweep_stalled t"
    unfolding t_def by (rule run_stalled [OF set_fps_0_stalls(2) [OF assms(1,2)] assms(3)])
  then show ?thesis using set_fps_0_stalls(1) [OF assms(1,2)]
    by (auto simp: sweep_stalled_def ir_camera_system_get_status_def)
qed

text \<open>
  When the inactivity timer fires outside a focus sweep it disables every camera and all
  LEDs; during a focus sweep the LEDs go off but every camera stays enabled.
\<close>

theorem ir_timeout_turns_off:
  fixes b :: board and env :: ir_env
  assumes "led_channels_ok b s" and "led_board_ok b s"
  defines "t \<equiv> ir_camera_system_timeout_disable b env s"
  shows "led_on t = {} \<and> led_wavelength t = WAVELENGTH_NONE \<and>
    cam_enabled t = (if focus_sweep s then cam_enabled s else cam_enabled s - {Ir_eye, Ir_face, Tof_2d})"
proof -
  let ?s0 = "s\<lparr>auto_off := False\<rparr>"
  let ?u = "snd (ir_camera_system_enable_leds b env WAVELENGTH_NONE ?s0)"
  have e: "enabled_channels b WAVELENGTH_NONE = {}" by (cases b) (simp_all add: enabled_channels_def)
  have d: "\<not> wavelength_deprecated b WAVELENGTH_NONE" by (cases b) simp_all
  have w: "led_wavelength ?u = WAVELENGTH_NONE" and c: "cam_enabled ?u = cam_enabled s"
    and f: "focus_sweep ?u = focus_sweep s" and i: "ir_initialized ?u"
    using assms(1) d by (simp_all add: ir_camera_system_enable_leds_def Let_def enable_leds_hw_effect led_channels_ok_def)
  have "led_channels_ok b ?u"
    by (rule enable_leds_channels(2)) (use assms in \<open>simp_all add: led_board_ok_def led_channels_ok_def\<close>)
  then have l: "led_on ?u = {}" by (simp add: led_channels_ok_def w e)
  have dis: "cam_enabled (snd (ir_camera_disable b cam v)) = (if focus_sweep v then cam_enabled v else cam_enabled v - {cam})"
    if "ir_initialized v" for cam v
    using that by (simp add: ir_camera_disable_def ir_camera_disable_force_def)
  show ?thesis
    unfolding t_def ir_camera_system_timeout_disable_def Let_def
    using w c f i l by (auto simp: camera_calls_effect camera_calls_frame dis)
qed

text \<open>
  On the rising edge of the strobe, when less than the longest pulse is left of the period
  but the remaining time and the on-time together exceed it, the handler sets the counter of
  the master timer beyond the end of the period, so the pulse it means to bring forward does
  not come in this period.
\<close>

theorem ir_strobe_overruns_period:
  assumes "ts = timer_settings s" and "master_initial_counter ts \<le> cnt" and "cnt \<le> master_arr ts"
    and "master_arr ts < 2 ^ 16" and "master_psc ts < 2 ^ 16" and "on_time_in_us ts \<le> 7500"
    and "7500 < (master_arr ts - cnt) * (master_psc ts + 1) div TIMER_CLOCK_FREQ_MHZ + on_time_in_us ts"
    and "master_arr ts - cnt < master_max_ir_leds_tick ts" and "master_max_ir_leds_tick ts < 2 ^ 16"
  shows "reg_cnt (strobe_rising cnt s) = master_arr ts + (master_max_ir_leds_tick ts - (master_arr ts - cnt)) \<and>
    master_arr ts < reg_cnt (strobe_rising cnt s)"
proof -
  let ?r = "master_arr ts - cnt" and ?m = "master_max_ir_leds_tick ts"
  have r: "minus32 (master_arr ts) cnt = ?r" using assms by (simp add: minus32_eq)
  have "?r * (master_psc ts + 1) \<le> 2 ^ 16 * 2 ^ 16" using assms by (intro mult_mono) simp_all
  then have us: "?r * (master_psc ts + 1) div TIMER_CLOCK_FREQ_MHZ \<le> 2 ^ 32 div 170"
    unfolding TIMER_CLOCK_FREQ_MHZ_def by (intro div_le_mono) simp
  then have t1: "trunc32 (?r * (master_psc ts + 1) div TIMER_CLOCK_FREQ_MHZ) = ?r * (master_psc ts + 1) div TIMER_CLOCK_FREQ_MHZ"
    unfolding trunc32_def by (intro mod_less) simp
  have t2: "trunc32 (?r * (master_psc ts + 1) div TIMER_CLOCK_FREQ_MHZ + on_time_in_us ts) =
      ?r * (master_psc ts + 1) div TIMER_CLOCK_FREQ_MHZ + on_time_in_us ts"
    using us assms(6) unfolding trunc32_def by (intro mod_less) simp
  have "minus32 (master_arr ts) (minus32 ?r ?m) = nat ((int (master_arr ts) - int ?r + int ?m) mod 2 ^ 32)"
    by (simp add: minus32_def mod_diff_right_eq diff_diff_eq2 diff_add_eq)
  also have "\<dots> = master_arr ts + (?m - ?r)"
    using assms(3,4,8,9) by (simp add: of_nat_diff nat_eq_iff)
  finally have "minus32 (master_arr ts) (minus32 ?r ?m) = master_arr ts + (?m - ?r)" .
  then show ?thesis
    using assms(2,7,8) unfolding strobe_rising_def Let_def assms(1) [symmetric] r t1 t2 by simp
qed

text \<open>The exposure of a pulse that ends exactly at 15 percent of the period is refused: the limit is rounded down.\<close>

lemma ir_on_time_rounding:
  "3125 * 48 * 100 = duty_percent Pearl * 1000000 \<and>
   fst (timer_settings_from_on_time_us Pearl 3125 (settings_zero\<lparr>fps := 48\<rparr>)) = RET_ERROR_INVALID_PARAM"
  by (simp add: timer_settings_from_on_time_us_def max_duty_us_def double_of_ratio_def round_even_def)

lemma pulse_length_sleeps:
  assumes "distance_is_safe env" "0 < on_time_in_us (timer_settings s)" "0 < fps (timer_settings s)"
    "led_wavelength s \<noteq> WAVELENGTH_NONE" "\<not> pvcc_high s"
  shows "Msleep \<in> set (ir_out (ir_leds_set_pulse_length b env s))"
  using assms by (simp add: ir_leds_set_pulse_length_def ir_leds_disable_all_def
      set_pvcc_converter_into_high_demand_mode_def emit_def Let_def)

lemma enable_pulse_diamond_out [simp]: "ir_out (ir_leds_enable_pulse Diamond env s) = ir_out s"
  by (simp add: ir_leds_enable_pulse_def Let_def split: option.split)

text \<open>The strobe handler, an interrupt handler, can sleep for a millisecond.\<close>

lemma ir_strobe_sleeps:
  assumes "distance_is_safe env" "0 < on_time_in_us (timer_settings s)" "0 < fps (timer_settings s)"
    "led_wavelength s \<noteq> WAVELENGTH_NONE" "\<not> pvcc_high s"
  shows "Msleep \<in> set (ir_out (strobe_falling env s))"
  unfolding strobe_falling_def Let_def enable_pulse_diamond_out camera_enable_trigger_frame
  by (rule pulse_length_sleeps) (use assms in simp_all)

lemma mirror_sweep_allows_cameras:
  "ir_initialized s \<Longrightarrow> mirror_sweep s \<Longrightarrow> \<not> focus_sweep s \<Longrightarrow>
   fst (ir_camera_disable b Ir_eye s) = RET_SUCCESS \<and> Ir_eye \<notin> cam_enabled (snd (ir_camera_disable b Ir_eye s))"
  by (simp add: ir_camera_disable_def ir_camera_disable_force_def)

definition hw_all_ok :: ir_hw_results where
  "hw_all_ok = \<lparr>pvcc_ready = True, pvcc_configured = 0, clocks_configured = 0,
     led_940_results = [True, True, True, True], led_850_results = [True, True, True],
     trigger_results = [True, True, True, True], master_result = True, strobe_ready = True,
     strobe_configured = 0, strobe_callback = 0, supply_5v = 0\<rparr>"

text \<open>
  On Diamond the LED channels are left enabled by the initialisation. If the face camera
  is enabled and an on-time set before any frame rate or wavelength, the first rising strobe
  fires all LEDs for that time, with no wavelength enabled and whatever the distance.
\<close>

theorem ir_first_strobe_flashes:
  assumes "0 < n" and "n \<le> 7500" and "\<not> safety_triggered env"
  defines "s \<equiv> ir_run Diamond
     [(env, Ir_init hw_all_ok), (env, Ir_enable Ir_face), (env, Ir_on_time n), (env, Ir_strobe 1 0)] ir_power_on"
  shows "led_on s = board_leds Diamond \<and> led_arr s = n \<and> Master_update \<in> set (ir_out s) \<and>
    led_wavelength s = WAVELENGTH_NONE"
proof -
  define s1 where "s1 = snd (ir_camera_system_init Diamond hw_all_ok ir_power_on)"
  define s2 where "s2 = snd (ir_camera_enable Diamond Ir_face s1)"
  define s3 where "s3 = snd (ir_camera_system_set_on_time_us Diamond env n s2)"
  have s1: "ir_initialized s1" "led_on s1 = board_leds Diamond" "timer_settings s1 = settings_zero"
    "\<not> focus_sweep s1" "\<not> mirror_sweep s1" "led_wavelength s1 = WAVELENGTH_NONE"
    by (auto simp: s1_def ir_camera_system_init_def ir_camera_system_hw_init_def hw_all_ok_def ir_power_on_def
        setup_940nm_led_timer_def setup_850nm_led_timer_def setup_leds_def setup_camera_triggers_def setup_master_timer_def)
  have s2: "ir_initialized s2" "led_on s2 = board_leds Diamond" "timer_settings s2 = settings_zero"
    "\<not> focus_sweep s2" "\<not> mirror_sweep s2" "led_wavelength s2 = WAVELENGTH_NONE" "Ir_face \<in> cam_enabled s2" "strobe_irq s2"
    using s1 by (simp_all add: s2_def ir_camera_enable_def ir_camera_enable_force_def camera_trigger_rgb_ir_face_cam_def)
  have ts: "timer_settings_from_on_time_us Diamond n settings_zero = (RET_SUCCESS, settings_zero\<lparr>on_time_in_us := n\<rparr>)"
    using assms(2) by (simp add: timer_settings_from_on_time_us_def settings_zero_def)
  have "ir_camera_system_get_status env s2 = RET_SUCCESS"
    using s2 assms(3) by (simp add: ir_camera_system_get_status_def)
  then have s3': "s3 = configure_timeout (s2\<lparr>timer_settings := settings_zero\<lparr>on_time_in_us := n\<rparr>\<rparr>)"
    using assms(1,2) s2
    by (simp add: s3_def ir_camera_system_set_on_time_us_def ir_camera_system_set_on_time_us_hw_def Let_def ts)
  have "s = strobe_rising 0 s3"
    using s2 by (simp add: s_def s1_def [symmetric] s2_def [symmetric] s3_def [symmetric] rgb_ir_strobe_isr_def s3')
  then show ?thesis
    using s2 assms(2) by (simp add: s3' strobe_rising_def Let_def settings_zero_def minus32_def trunc32_def
        TIMER_CLOCK_FREQ_MHZ_def emit_def)
qed

subsection \<open>Witnesses\<close>

definition quiet_env :: ir_env where
  "quiet_env = \<lparr>distance_is_safe = True, safety_triggered = False, led_timers_running = False,
     phi_angle = 0, theta_angle = 0\<rparr>"

definition ir_ready :: ir_camera where
  "ir_ready = ir_power_on\<lparr>ir_initialized := True, timer_settings := settings_zero\<lparr>fps := 30\<rparr>,
     num_focus_values := 2, mirror_sweep_polynomial := \<lparr>number_of_frames = 2, value_at = \<lambda>i. (int i, - int i)\<rparr>\<rparr>"

lemma ir_ready_simps [simp]:
  "ir_initialized ir_ready" "\<not> focus_sweep ir_ready" "\<not> mirror_sweep ir_ready" "cam_enabled ir_ready = {}"
  "timer_settings ir_ready = settings_zero\<lparr>fps := 30\<rparr>" "num_focus_values ir_ready = 2" "led_on ir_ready = {}"
  "number_of_frames (mirror_sweep_polynomial ir_ready) = 2" "led_wavelength ir_ready = WAVELENGTH_NONE"
  by (simp_all add: ir_ready_def ir_power_on_def)

lemma ir_leds_only_enabled_witness:
  "\<exists>s t. s = ir_run Pearl [(quiet_env, Ir_init hw_all_ok)] ir_power_on \<and>
     ir_camera_system_set_fps Pearl quiet_env 30 s = (RET_SUCCESS, t) \<and>
     led_on (ir_run Pearl [(quiet_env, Ir_leds WAVELENGTH_850NM)] t) \<subseteq>
       enabled_channels Pearl (led_wavelength (ir_run Pearl [(quiet_env, Ir_leds WAVELENGTH_850NM)] t))"
proof -
  let ?s = "ir_run Pearl [(quiet_env, Ir_init hw_all_ok)] ir_power_on"
  have i: "ir_initialized ?s" "timer_settings ?s = settings_zero" "\<not> focus_sweep ?s" "\<not> mirror_sweep ?s"
    by (simp_all add: ir_camera_system_init_def ir_camera_system_hw_init_def hw_all_ok_def ir_power_on_def
        setup_940nm_led_timer_def setup_850nm_led_timer_def setup_leds_def setup_camera_triggers_def setup_master_timer_def)
  have "fst (timer_settings_from_fps Pearl 30 settings_zero) = RET_SUCCESS"
    by (simp add: timer_settings_from_fps_def settings_zero_def IR_CAMERA_SYSTEM_MAX_FPS_def Let_def)
  then have "fst (ir_camera_system_set_fps Pearl quiet_env 30 ?s) = RET_SUCCESS"
    using i unfolding ir_camera_system_set_fps_def ir_camera_system_set_fps_hw_def Let_def case_prod_beta i(2)
    by (simp add: IR_CAMERA_SYSTEM_MAX_FPS_def ir_camera_system_get_status_def quiet_env_def)
  then obtain t where t: "ir_camera_system_set_fps Pearl quiet_env 30 ?s = (RET_SUCCESS, t)"
    by (metis prod.collapse)
  from ir_leds_only_enabled [OF refl i(1) t] t show ?thesis by blast
qed

lemma ir_unsafe_distance_leds_off_witness:
  "led_on (apply_new_timer_settings Pearl (quiet_env\<lparr>distance_is_safe := False\<rparr>) (ir_run Pearl [] ir_power_on)) = {} \<and>
   on_time_in_us (timer_settings (apply_new_timer_settings Pearl (quiet_env\<lparr>distance_is_safe := False\<rparr>) (ir_run Pearl [] ir_power_on))) = 0"
  by (rule ir_unsafe_distance_leds_off [where b = Pearl and ops = "[]" and env = "quiet_env\<lparr>distance_is_safe := False\<rparr>",
      OF _ refl UnI1 [OF insertI1]]) simp

lemma ir_sweeps_terminate_witness:
  "\<exists>t t'. ir_camera_system_perform_focus_sweep Pearl quiet_env ir_ready = (RET_SUCCESS, t) \<and>
     ir_camera_system_perform_mirror_sweep Pearl quiet_env ir_ready = (RET_SUCCESS, t') \<and>
     \<not> focus_sweep ((camera_exposure_completes_isr Pearl False ^^ 2) t) \<and>
     \<not> mirror_sweep ((camera_exposure_completes_isr Pearl False ^^ 3) t')"
proof -
  have "ir_camera_system_get_status quiet_env ir_ready = RET_SUCCESS"
    by (simp add: ir_camera_system_get_status_def quiet_env_def)
  then have "fst (ir_camera_system_perform_focus_sweep Pearl quiet_env ir_ready) = RET_SUCCESS"
    and "fst (ir_camera_system_perform_mirror_sweep Pearl quiet_env ir_ready) = RET_SUCCESS"
    by (simp_all add: ir_camera_system_perform_focus_sweep_def ir_camera_system_perform_mirror_sweep_def)
  then obtain t t' where t: "ir_camera_system_perform_focus_sweep Pearl quiet_env ir_ready = (RET_SUCCESS, t)"
    and t': "ir_camera_system_perform_mirror_sweep Pearl quiet_env ir_ready = (RET_SUCCESS, t')"
    by (metis prod.collapse)
  have n: "0 < num_focus_values ir_ready" "0 < number_of_frames (mirror_sweep_polynomial ir_ready)" by simp_all
  note r = ir_sweeps_terminate [OF t n(1) t' n(2), unfolded ir_ready_simps(6,8), THEN conjunct1, THEN conjunct2, THEN conjunct1]
    ir_sweeps_terminate [OF t n(1) t' n(2), unfolded ir_ready_simps(6,8), THEN conjunct2, THEN conjunct2, THEN conjunct1]
  show ?thesis
    by (rule exI [of _ t], rule exI [of _ t']) (use t t' r in \<open>simp add: numeral_3_eq_3\<close>)
qed

lemma ir_sweep_stuck_at_fps_0_witness:
  "let t = ir_run Pearl [(quiet_env, Ir_fps 30)] (snd (ir_camera_system_set_fps Pearl quiet_env 0 (ir_ready\<lparr>focus_sweep := True\<rparr>)))
   in \<not> master_enabled t \<and> (focus_sweep t \<or> mirror_sweep t)"
  using ir_sweep_stuck_at_fps_0 [of "ir_ready\<lparr>focus_sweep := True\<rparr>" "[(quiet_env, Ir_fps 30)]" Pearl quiet_env quiet_env]
  by (simp add: Let_def)

lemma ir_timeout_turns_off_witness:
  "cam_enabled (ir_camera_system_timeout_disable Pearl quiet_env (ir_ready\<lparr>cam_enabled := {Ir_eye}\<rparr>)) = {}"
  using ir_timeout_turns_off [of Pearl "ir_ready\<lparr>cam_enabled := {Ir_eye}\<rparr>" quiet_env]
  by (simp add: led_channels_ok_def led_board_ok_def)

lemma ir_strobe_overruns_period_witness:
  "reg_cnt (strobe_rising 55134 (ir_ready\<lparr>timer_settings := \<lparr>fps = 30, master_psc = 86, master_arr = 65134,
     master_initial_counter = 7100, master_max_ir_leds_tick = 14655, on_time_in_us = 3000\<rparr>\<rparr>)) = 69789"
  using ir_strobe_overruns_period [OF refl, of "ir_ready\<lparr>timer_settings := \<lparr>fps = 30, master_psc = 86, master_arr = 65134,
     master_initial_counter = 7100, master_max_ir_leds_tick = 14655, on_time_in_us = 3000\<rparr>\<rparr>" 55134]
  by (simp add: TIMER_CLOCK_FREQ_MHZ_def)

lemma ir_first_strobe_flashes_witness:
  "led_on (ir_run Diamond [(quiet_env, Ir_init hw_all_ok), (quiet_env, Ir_enable Ir_face),
     (quiet_env, Ir_on_time 3000), (quiet_env, Ir_strobe 1 0)] ir_power_on) = board_leds Diamond"
  using ir_first_strobe_flashes [of 3000 quiet_env] by (simp add: quiet_env_def)

end
