(* ===== verification/Proximity.thy ===== *)
theory Proximity
  imports Ir_Camera_Safety
begin

text \<open>
  The 1D time-of-flight sensor that watches the distance in front of the infrared LEDs
  (\<^verbatim>\<open>optics/1d_tof/tof_1d.c\<close>), the check of the LEDs' supply and the callback that
  turns the LEDs off (\<^verbatim>\<open>optics/optics.c\<close>), and their composition with the infrared
  camera system. The sensor driver is outside: what its calls return is an argument.
\<close>

subsection \<open>State\<close>

definition ORB_STATE_1D_TOF_THRESHOLD_ERROR_COUNT :: nat where "ORB_STATE_1D_TOF_THRESHOLD_ERROR_COUNT = 3"
definition TOO_CLOSE_THRESHOLD :: int where "TOO_CLOSE_THRESHOLD = 3"
definition INTER_MEASUREMENT_FREQ_HZ :: nat where "INTER_MEASUREMENT_FREQ_HZ = 3"
definition INTER_MEASUREMENT_PERIOD_MS :: nat where "INTER_MEASUREMENT_PERIOD_MS = 1000 div INTER_MEASUREMENT_FREQ_HZ"
definition FETCH_PERIOD_MS :: nat where "FETCH_PERIOD_MS = INTER_MEASUREMENT_PERIOD_MS + INTER_MEASUREMENT_PERIOD_MS div 2"
definition DISTANCE_PUBLISH_PERIOD_MS :: nat where "DISTANCE_PUBLISH_PERIOD_MS = FETCH_PERIOD_MS * 2"

text \<open>The thread's variables, the counter and callback shared with the rest, and the published state.\<close>

record tof_state =
  too_close_counter :: int
  unsafe_event_cb :: bool
  sample_count :: nat
  tof_err_count :: nat
  tof_1d_state :: ret_code_t

datatype tof_cmd = Sampling_frequency nat | Configuration nat

datatype tof_event = Tof_sleep nat | Publish_distance nat | Distance_unsafe

text \<open>What the driver returns in one turn of the thread: results are 0 or an error code.\<close>

record tof_reading =
  mode_result :: int
  fetch_result :: int
  distance_result :: int
  distance_val1 :: int
  prox_result :: int
  prox_val1 :: int

subsection \<open>Operations\<close>

definition tof_distance_is_safe :: "board \<Rightarrow> tof_state \<Rightarrow> bool" where
  "tof_distance_is_safe b s = (case b of Pearl \<Rightarrow> too_close_counter s < TOO_CLOSE_THRESHOLD | Diamond \<Rightarrow> True)"

fun tof_send :: "(tof_cmd \<Rightarrow> int) \<Rightarrow> tof_cmd list \<Rightarrow> ret_code_t" where
  "tof_send hw [] = RET_SUCCESS"
| "tof_send hw (c # cs) = (if hw c \<noteq> 0 then RET_ERROR_INTERNAL else tof_send hw cs)"

definition tof_init_config :: "(tof_cmd \<Rightarrow> int) \<Rightarrow> ret_code_t" where
  "tof_init_config hw = tof_send hw
     [Sampling_frequency 0, Configuration 1, Sampling_frequency INTER_MEASUREMENT_FREQ_HZ]"

definition set_states :: "bool \<Rightarrow> tof_state \<Rightarrow> tof_state" where
  "set_states is_error s =
    (if tof_1d_state s = RET_SUCCESS \<and> is_error then s\<lparr>tof_1d_state := RET_ERROR_INTERNAL\<rparr>
     else if tof_1d_state s \<noteq> RET_SUCCESS \<and> \<not> is_error then s\<lparr>tof_1d_state := RET_SUCCESS\<rparr>
     else s)"

text \<open>
  The loop that reconfigures the sensor, \<open>hw n\<close> being the driver at attempt \<open>n\<close>: it returns
  the number of failed attempts, \<open>None\<close> when it never ends.
\<close>

partial_function (option) tof_reconfigure :: "(nat \<Rightarrow> tof_cmd \<Rightarrow> int) \<Rightarrow> nat \<Rightarrow> nat option" where
  "tof_reconfigure hw n =
    (if tof_init_config (hw n) \<noteq> RET_SUCCESS then tof_reconfigure hw (n + 1) else Some n)"

definition tof_wait :: "(nat \<Rightarrow> tof_cmd \<Rightarrow> int) \<Rightarrow> nat \<Rightarrow> tof_state \<Rightarrow> (tof_event list \<times> tof_state) option" where
  "tof_wait hw task_duration s =
    (let s1 = set_states (ORB_STATE_1D_TOF_THRESHOLD_ERROR_COUNT \<le> tof_err_count s) s;
         sleep = (if FETCH_PERIOD_MS < task_duration then [] else [Tof_sleep (FETCH_PERIOD_MS - task_duration)])
     in if ORB_STATE_1D_TOF_THRESHOLD_ERROR_COUNT < tof_err_count s1
        then (case tof_reconfigure hw 0 of
                None \<Rightarrow> None
              | Some n \<Rightarrow> Some (replicate n (Tof_sleep 5000) @ sleep, s1\<lparr>tof_err_count := 0\<rparr>))
        else Some (sleep, s1))"

definition tof_proximity :: "int \<Rightarrow> int \<Rightarrow> int" where
  "tof_proximity val1 counter =
    (if val1 = 0 then (if 0 < counter then counter - 1 else counter)
     else if counter < TOO_CLOSE_THRESHOLD then counter + 1 else counter)"

definition tof_sample :: "tof_reading \<Rightarrow> tof_state \<Rightarrow> tof_event list \<times> tof_state" where
  "tof_sample r s =
    (if mode_result r \<noteq> 0 then ([], s\<lparr>tof_err_count := tof_err_count s + 1\<rparr>)
     else if fetch_result r \<noteq> 0 then ([], s)
     else if distance_result r \<noteq> 0 then ([], s)
     else
      let s1 = s\<lparr>sample_count := (sample_count s + 1) mod 2 ^ 32\<rparr>;
          ev = (if sample_count s1 mod (DISTANCE_PUBLISH_PERIOD_MS div FETCH_PERIOD_MS) = 0
                then [Publish_distance (nat (distance_val1 r mod 2 ^ 32))] else [])
      in if prox_result r \<noteq> 0 then (ev, s1)
      else
        let counter_prev = too_close_counter s1;
            s2 = s1\<lparr>too_close_counter := tof_proximity (prox_val1 r) counter_prev\<rparr>;
            call = unsafe_event_cb s2 \<and> counter_prev \<noteq> too_close_counter s2 \<and> \<not> tof_distance_is_safe Pearl s2
        in (ev @ (if call then [Distance_unsafe] else []), (set_states False s2)\<lparr>tof_err_count := 0\<rparr>))"

definition tof_turn ::
  "(nat \<Rightarrow> tof_cmd \<Rightarrow> int) \<Rightarrow> nat \<Rightarrow> tof_reading \<Rightarrow> tof_state \<Rightarrow> (tof_event list \<times> tof_state) option" where
  "tof_turn hw task_duration r s =
    (case tof_wait hw task_duration s of
       None \<Rightarrow> None
     | Some (ev, s1) \<Rightarrow> (let (ev', s2) = tof_sample r s1 in Some (ev @ ev', s2)))"

text \<open>What the thread does before its loop.\<close>

definition tof_1d_start :: "(tof_cmd \<Rightarrow> int) \<Rightarrow> tof_state \<Rightarrow> tof_state" where
  "tof_1d_start hw s = set_states (tof_init_config hw \<noteq> RET_SUCCESS) (s\<lparr>sample_count := 0, tof_err_count := 0\<rparr>)"

text \<open>\<open>started\<close> in the result tells whether the thread was created.\<close>

definition tof_1d_init :: "board \<Rightarrow> bool \<Rightarrow> bool \<Rightarrow> tof_state \<Rightarrow> ret_code_t \<times> bool \<times> tof_state" where
  "tof_1d_init b has_cb device_ready s =
    (if \<not> device_ready then (RET_ERROR_INVALID_STATE, False, s\<lparr>tof_1d_state := RET_ERROR_INVALID_STATE\<rparr>)
     else case b of
       Diamond \<Rightarrow> (RET_SUCCESS, False, s\<lparr>tof_1d_state := RET_SUCCESS\<rparr>)
     | Pearl \<Rightarrow> (RET_SUCCESS, True, if has_cb then s\<lparr>unsafe_event_cb := True\<rparr> else s))"

definition tof_power_on :: tof_state where
  "tof_power_on = \<lparr>too_close_counter = 0, unsafe_event_cb = False, sample_count = 0, tof_err_count = 0,
     tof_1d_state = RET_ERROR_NOT_INITIALIZED\<rparr>"

text \<open>
  The check of the LEDs' supply: the result, the value stored through the caller's pointer
  (\<open>None\<close> where nothing is stored) and the published state. \<open>mutex\<close> tells whether the bus
  mutex was set, \<open>lock\<close> whether it was free in time, \<open>pin\<close> what the pin reads.
\<close>

definition optics_safety_circuit_triggered ::
  "bool \<Rightarrow> bool \<Rightarrow> int \<Rightarrow> ret_code_t \<Rightarrow> int \<times> bool option \<times> ret_code_t" where
  "optics_safety_circuit_triggered mutex lock pin pvcc =
    (if \<not> mutex then (rc RET_ERROR_INVALID_STATE, None, pvcc)
     else if \<not> lock then (rc RET_ERROR_BUSY, None, pvcc)
     else if pin < 0 then (pin, None, pvcc)
     else (rc RET_SUCCESS, Some (pin = 0), if pin \<noteq> 0 then RET_SUCCESS else RET_ERROR_OFFLINE))"

definition distance_is_unsafe_cb :: "board \<Rightarrow> ir_env \<Rightarrow> ir_camera \<Rightarrow> ir_camera" where
  "distance_is_unsafe_cb b env s = snd (ir_camera_system_set_on_time_us b env 0 s)"


subsection \<open>The counter is a saturating counter of the good measurements\<close>

fun tof_turns :: "((nat \<Rightarrow> tof_cmd \<Rightarrow> int) \<times> nat \<times> tof_reading) list \<Rightarrow> tof_state \<Rightarrow> (tof_event list \<times> tof_state) option" where
  "tof_turns [] s = Some ([], s)"
| "tof_turns ((hw, d, r) # ins) s =
    (case tof_turn hw d r s of
       None \<Rightarrow> None
     | Some (ev, s1) \<Rightarrow> (case tof_turns ins s1 of None \<Rightarrow> None | Some (ev', s2) \<Rightarrow> Some (ev @ ev', s2)))"

text \<open>The measurements that reach the counter, and what they do to a counter from 0 to 3.\<close>

definition tof_good :: "tof_reading \<Rightarrow> bool" where
  "tof_good r \<longleftrightarrow> mode_result r = 0 \<and> fetch_result r = 0 \<and> distance_result r = 0 \<and> prox_result r = 0"

definition tof_measured :: "((nat \<Rightarrow> tof_cmd \<Rightarrow> int) \<times> nat \<times> tof_reading) list \<Rightarrow> int list" where
  "tof_measured ins = map prox_val1 (filter tof_good (map (snd \<circ> snd) ins))"

definition saturate :: "int \<Rightarrow> int \<Rightarrow> int" where
  "saturate c v = (if v = 0 then max 0 (c - 1) else min 3 (c + 1))"

fun crossings :: "int \<Rightarrow> int list \<Rightarrow> nat" where
  "crossings c [] = 0"
| "crossings c (v # vs) = (if c < 3 \<and> 3 \<le> saturate c v then 1 else 0) + crossings (saturate c v) vs"

abbreviation near_run :: "int list \<Rightarrow> nat" where
  "near_run vs \<equiv> length (takeWhile (\<lambda>v. v \<noteq> 0) (rev vs))"

lemma saturate_bounds: "0 \<le> c \<Longrightarrow> c \<le> 3 \<Longrightarrow> 0 \<le> saturate c v \<and> saturate c v \<le> 3"
  by (simp add: saturate_def)

lemma saturate_fold_bounds: "0 \<le> c \<Longrightarrow> c \<le> 3 \<Longrightarrow> 0 \<le> foldl saturate c vs \<and> foldl saturate c vs \<le> 3"
  by (induction vs arbitrary: c) (simp_all add: saturate_bounds)

lemma near_run_saturates: "0 \<le> c \<Longrightarrow> c \<le> 3 \<Longrightarrow> min 3 (int (near_run vs)) \<le> foldl saturate c vs"
proof (induction vs rule: rev_induct)
  case (snoc v vs)
  define x where "x = foldl saturate c vs"
  have "min 3 (int (near_run vs)) \<le> x" unfolding x_def by (rule snoc.IH [OF snoc.prems])
  moreover have "0 \<le> x" unfolding x_def using saturate_fold_bounds [OF snoc.prems] by blast
  ultimately have "min 3 (int (near_run (vs @ [v]))) \<le> saturate x v" by (auto simp: saturate_def)
  then show ?case by (simp add: x_def)
qed simp

lemma tof_proximity_saturate: "0 \<le> c \<Longrightarrow> c \<le> 3 \<Longrightarrow> tof_proximity v c = saturate c v"
  by (auto simp: tof_proximity_def saturate_def TOO_CLOSE_THRESHOLD_def)

lemma set_states_frame [simp]:
  "too_close_counter (set_states e s) = too_close_counter s"
  "unsafe_event_cb (set_states e s) = unsafe_event_cb s"
  "tof_err_count (set_states e s) = tof_err_count s"
  "sample_count (set_states e s) = sample_count s"
  "(tof_1d_state (set_states e s) = RET_SUCCESS) = (\<not> e)"
  by (auto simp: set_states_def)

lemma tof_wait_frame:
  assumes "tof_wait hw d s = Some (ev, t)"
  shows "too_close_counter t = too_close_counter s" "unsafe_event_cb t = unsafe_event_cb s"
    and "Distance_unsafe \<notin> set ev" and "filter ((=) Distance_unsafe) ev = []"
  using assms by (auto simp: tof_wait_def Let_def filter_empty_conv split: if_splits option.splits)

lemma tof_sample_bad: "\<not> tof_good r \<Longrightarrow> tof_sample r s = (ev, t) \<Longrightarrow>
    too_close_counter t = too_close_counter s \<and> unsafe_event_cb t = unsafe_event_cb s \<and> Distance_unsafe \<notin> set ev"
  by (auto simp: tof_sample_def tof_good_def Let_def split: if_splits)

lemma tof_sample_good:
  assumes "tof_good r" "tof_sample r s = (ev, t)"
  shows "too_close_counter t = tof_proximity (prox_val1 r) (too_close_counter s) \<and> unsafe_event_cb t = unsafe_event_cb s \<and>
    length (filter ((=) Distance_unsafe) ev) =
      (if unsafe_event_cb s \<and> too_close_counter s \<noteq> too_close_counter t \<and> 3 \<le> too_close_counter t then 1 else 0)"
  using assms by (auto simp: tof_sample_def tof_good_def Let_def tof_distance_is_safe_def TOO_CLOSE_THRESHOLD_def)

lemma tof_sample_counter:
  assumes "tof_sample r s = (ev, t)" and c: "0 \<le> too_close_counter s" "too_close_counter s \<le> 3"
  shows "too_close_counter t = (if tof_good r then saturate (too_close_counter s) (prox_val1 r) else too_close_counter s)"
    and "unsafe_event_cb t = unsafe_event_cb s"
    and "length (filter ((=) Distance_unsafe) ev) =
      (if tof_good r \<and> unsafe_event_cb s \<and> too_close_counter s < 3 \<and> 3 \<le> too_close_counter t then 1 else 0)"
proof -
  have sat: "(c \<noteq> c' \<and> 3 \<le> c') = (c < 3 \<and> 3 \<le> c')" if "c \<le> 3" "c' \<le> 3" for c c' :: int
    using that by auto
  have p: "tof_proximity (prox_val1 r) (too_close_counter s) = saturate (too_close_counter s) (prox_val1 r)"
    "saturate (too_close_counter s) (prox_val1 r) \<le> 3"
    using tof_proximity_saturate [OF c] saturate_bounds [OF c] by simp_all
  show "too_close_counter t = (if tof_good r then saturate (too_close_counter s) (prox_val1 r) else too_close_counter s)"
    "unsafe_event_cb t = unsafe_event_cb s"
    using tof_sample_good [OF _ assms(1)] tof_sample_bad [OF _ assms(1)] p by (cases "tof_good r"; simp)+
  show "length (filter ((=) Distance_unsafe) ev) =
      (if tof_good r \<and> unsafe_event_cb s \<and> too_close_counter s < 3 \<and> 3 \<le> too_close_counter t then 1 else 0)"
  proof (cases "tof_good r")
    case True
    note g = tof_sample_good [OF True assms(1), unfolded p]
    have "too_close_counter t \<le> 3" using g p(2) by simp
    from sat [OF c(2) this] g show ?thesis using True by simp
  next
    case False
    then show ?thesis using tof_sample_bad [OF False assms(1)] by (simp add: filter_empty_conv) metis
  qed
qed

lemma tof_turn_counter:
  assumes "tof_turn hw d r s = Some (ev, t)" and "0 \<le> too_close_counter s" "too_close_counter s \<le> 3"
  shows "too_close_counter t = (if tof_good r then saturate (too_close_counter s) (prox_val1 r) else too_close_counter s)"
    and "unsafe_event_cb t = unsafe_event_cb s"
    and "length (filter ((=) Distance_unsafe) ev) =
      (if tof_good r \<and> unsafe_event_cb s \<and> too_close_counter s < 3 \<and> 3 \<le> too_close_counter t then 1 else 0)"
proof -
  obtain ev1 s1 ev2 where w: "tof_wait hw d s = Some (ev1, s1)" and r: "tof_sample r s1 = (ev2, t)" and e: "ev = ev1 @ ev2"
    using assms(1) by (auto simp: tof_turn_def split: option.splits prod.splits)
  note f = tof_wait_frame [OF w]
  have b: "0 \<le> too_close_counter s1" "too_close_counter s1 \<le> 3" using assms(2,3) unfolding f by simp_all
  note g = tof_sample_counter [OF r b, unfolded f(1,2)]
  show "too_close_counter t = (if tof_good r then saturate (too_close_counter s) (prox_val1 r) else too_close_counter s)"
    by (rule g(1))
  show "unsafe_event_cb t = unsafe_event_cb s" by (rule g(2))
  show "length (filter ((=) Distance_unsafe) ev) =
      (if tof_good r \<and> unsafe_event_cb s \<and> too_close_counter s < 3 \<and> 3 \<le> too_close_counter t then 1 else 0)"
    unfolding e filter_append f(4) append_Nil by (rule g(3))
qed

lemma tof_turns_counter:
  assumes "tof_turns ins s = Some (ev, t)" "0 \<le> too_close_counter s" "too_close_counter s \<le> 3"
  shows "too_close_counter t = foldl saturate (too_close_counter s) (tof_measured ins) \<and>
    length (filter ((=) Distance_unsafe) ev) =
      (if unsafe_event_cb s then crossings (too_close_counter s) (tof_measured ins) else 0)"
  using assms
proof (induction ins s arbitrary: ev rule: tof_turns.induct)
  case (2 hw d r ins s)
  obtain ev1 s1 ev2 where t: "tof_turn hw d r s = Some (ev1, s1)" and ts: "tof_turns ins s1 = Some (ev2, t)"
    and e: "ev = ev1 @ ev2"
    using 2(2) by (auto split: option.splits prod.splits)
  note c = tof_turn_counter [OF t 2(3,4)]
  have b: "0 \<le> too_close_counter s1" "too_close_counter s1 \<le> 3"
    using c(1) 2(3,4) saturate_bounds [OF 2(3,4)] by (auto split: if_splits)
  have m: "tof_measured ((hw, d, r) # ins) = (if tof_good r then prox_val1 r # tof_measured ins else tof_measured ins)"
    by (simp add: tof_measured_def)
  have ih: "too_close_counter t = foldl saturate (too_close_counter s1) (tof_measured ins)"
    "length (filter ((=) Distance_unsafe) ev2) =
      (if unsafe_event_cb s then crossings (too_close_counter s1) (tof_measured ins) else 0)"
    using 2(1) [OF t refl ts b] c(2) by simp_all
  show ?case unfolding m e filter_append length_append ih c(3) using c(1)
    by (cases "tof_good r") simp_all
qed (simp add: tof_measured_def)

text \<open>
  Over any turns of the sensor thread that return, whatever the sensor answers, the counter of
  close measurements is the counter that saturates at 0 and 3 run over the good measurements alone;
  it is at least the number of near measurements since the last far one, up to the threshold, so three in a row make the
  distance unsafe; and the callback is called exactly once each time the counter reaches 3.
\<close>

theorem tof_counter_saturates:
  assumes "tof_turns ins s = Some (ev, t)" and "0 \<le> too_close_counter s" "too_close_counter s \<le> 3"
  shows "too_close_counter t = foldl saturate (too_close_counter s) (tof_measured ins) \<and>
    too_close_counter t \<in> {0..3} \<and>
    min 3 (int (near_run (tof_measured ins))) \<le> too_close_counter t \<and>
    tof_distance_is_safe Pearl t = (too_close_counter t \<noteq> 3) \<and>
    length (filter ((=) Distance_unsafe) ev) =
      (if unsafe_event_cb s then crossings (too_close_counter s) (tof_measured ins) else 0)"
  using tof_turns_counter [OF assms] saturate_fold_bounds [OF assms(2,3), of "tof_measured ins"]
    near_run_saturates [OF assms(2,3), of "tof_measured ins"]
  by (auto simp: tof_distance_is_safe_def TOO_CLOSE_THRESHOLD_def)

subsection \<open>Failing sensor\<close>

lemma tof_reconfigure_some:
  assumes "tof_init_config (hw n) = RET_SUCCESS" "k \<le> n"
  shows "\<exists>m. tof_reconfigure hw k = Some m"
  using assms(2)
proof (induction "n - k" arbitrary: k)
  case 0
  then show ?case using assms(1) by (subst tof_reconfigure.simps) simp
next
  case (Suc d)
  show ?case
  proof (cases "tof_init_config (hw k) = RET_SUCCESS")
    case True
    then show ?thesis by (subst tof_reconfigure.simps) simp
  next
    case False
    then show ?thesis using Suc by (subst tof_reconfigure.simps) auto
  qed
qed

lemma tof_reconfigure_result:
  assumes "tof_reconfigure hw k = Some m"
  shows "tof_init_config (hw m) = RET_SUCCESS \<and> k \<le> m \<and> (\<forall>j\<in>{k..<m}. tof_init_config (hw j) \<noteq> RET_SUCCESS)"
proof (rule tof_reconfigure.raw_induct
    [where P = "\<lambda>hw k m. tof_init_config (hw m) = RET_SUCCESS \<and> k \<le> m \<and>
       (\<forall>j\<in>{k..<m}. tof_init_config (hw j) \<noteq> RET_SUCCESS)", OF _ assms])
  fix rec :: "(nat \<Rightarrow> tof_cmd \<Rightarrow> int) \<Rightarrow> nat \<Rightarrow> nat option" and hw :: "nat \<Rightarrow> tof_cmd \<Rightarrow> int" and n m :: nat
  assume ih: "\<And>hw n m. rec hw n = Some m \<Longrightarrow> tof_init_config (hw m) = RET_SUCCESS \<and> n \<le> m \<and>
      (\<forall>j\<in>{n..<m}. tof_init_config (hw j) \<noteq> RET_SUCCESS)"
    and r: "(if tof_init_config (hw n) \<noteq> RET_SUCCESS then rec hw (n + 1) else Some n) = Some m"
  show "tof_init_config (hw m) = RET_SUCCESS \<and> n \<le> m \<and> (\<forall>j\<in>{n..<m}. tof_init_config (hw j) \<noteq> RET_SUCCESS)"
  proof (cases "tof_init_config (hw n) = RET_SUCCESS")
    case True
    then show ?thesis using r by auto
  next
    case False
    then have h: "tof_init_config (hw m) = RET_SUCCESS" "n + 1 \<le> m" "\<forall>j\<in>{n + 1..<m}. tof_init_config (hw j) \<noteq> RET_SUCCESS"
      using ih [of hw "n + 1" m] r by auto
    have "tof_init_config (hw j) \<noteq> RET_SUCCESS" if "j \<in> {n..<m}" for j
      using that h(3) False by (cases "j = n") auto
    then show ?thesis using h by auto
  qed
qed

lemma tof_reconfigure_none: "tof_reconfigure hw k = None \<longleftrightarrow> (\<forall>n\<ge>k. tof_init_config (hw n) \<noteq> RET_SUCCESS)"
  by (metis option.exhaust tof_reconfigure_result tof_reconfigure_some not_None_eq)

lemma tof_wait_none:
  "tof_wait hw d s = None \<longleftrightarrow> 3 < tof_err_count s \<and> (\<forall>n. tof_init_config (hw n) \<noteq> RET_SUCCESS)"
  using tof_reconfigure_none [of hw 0]
  by (cases "tof_reconfigure hw 0") (simp_all add: tof_wait_def Let_def ORB_STATE_1D_TOF_THRESHOLD_ERROR_COUNT_def)

lemma tof_turn_none:
  "tof_turn hw d r s = None \<longleftrightarrow> 3 < tof_err_count s \<and> (\<forall>n. tof_init_config (hw n) \<noteq> RET_SUCCESS)"
  using tof_wait_none [of hw d s] by (auto simp: tof_turn_def split: option.split prod.split)

lemma tof_turn_no_fetch:
  assumes "mode_result f = 0" "fetch_result f \<noteq> 0" "tof_err_count s < 3"
  shows "tof_turn hw d f s = Some (if FETCH_PERIOD_MS < d then [] else [Tof_sleep (FETCH_PERIOD_MS - d)], set_states False s)"
  using assms by (simp add: tof_turn_def tof_wait_def tof_sample_def Let_def ORB_STATE_1D_TOF_THRESHOLD_ERROR_COUNT_def)

lemma tof_turns_no_fetch:
  assumes "mode_result f = 0" "fetch_result f \<noteq> 0" "tof_err_count s < 3"
  shows "\<exists>ev t. tof_turns (replicate n (hw, d, f)) s = Some (ev, t) \<and>
     too_close_counter t = too_close_counter s \<and> tof_err_count t = tof_err_count s \<and>
     (tof_1d_state t = (if n = 0 then tof_1d_state s else RET_SUCCESS))"
  using assms(3)
proof (induction n arbitrary: s)
  case (Suc n)
  have s: "tof_err_count (set_states False s) < 3" using Suc by simp
  obtain ev t where "tof_turns (replicate n (hw, d, f)) (set_states False s) = Some (ev, t)"
    "too_close_counter t = too_close_counter s" "tof_err_count t = tof_err_count s"
    "tof_1d_state t = (if n = 0 then tof_1d_state (set_states False s) else RET_SUCCESS)"
    using Suc.IH [OF s] by auto
  moreover have "tof_1d_state (set_states False s) = RET_SUCCESS" by simp
  ultimately show ?case using tof_turn_no_fetch [OF assms(1,2) Suc.prems] by (auto split: option.split)
qed simp
text \<open>
  A turn of the thread fails to return exactly when more than three mode reads have failed
  since the last good reading and no attempt to reconfigure the sensor ever succeeds. A sensor
  whose samples cannot be fetched is not noticed: however many such turns there are, they
  return, leave the verdict on the distance and the error counter as they were, and the state
  published is a success.
\<close>

theorem tof_turn_returns:
  assumes "mode_result f = 0" "fetch_result f \<noteq> 0" and "tof_err_count s < 3" and "0 < n"
  shows "(\<forall>hw d r u. tof_turn hw d r u = None \<longleftrightarrow> 3 < tof_err_count u \<and> (\<forall>n. tof_init_config (hw n) \<noteq> RET_SUCCESS)) \<and>
    (\<exists>ev t. tof_turns (replicate n (hw, d, f)) s = Some (ev, t) \<and>
       tof_distance_is_safe b t = tof_distance_is_safe b s \<and> tof_err_count t = tof_err_count s \<and>
       tof_1d_state t = RET_SUCCESS)"
  using tof_turn_none tof_turns_no_fetch [OF assms(1-3), of n hw d] assms(4)
  by (auto simp: tof_distance_is_safe_def split: board.split)

subsection \<open>The distance and the infrared LEDs\<close>

text \<open>
  The sensor thread, its pending call of the callback, and the infrared camera system, on
  Pearl: the thread does its next turn after the callback has returned; calls,
  interrupts and timeouts of the camera system come at any time and read the verdict of the moment.
\<close>

type_synonym proximity_system = "tof_state \<times> bool \<times> ir_camera"

inductive proximity_step :: "proximity_system \<Rightarrow> proximity_system \<Rightarrow> bool" where
  sensor: "tof_turn hw d r t = Some (ev, t') \<Longrightarrow>
    proximity_step (t, False, i) (t', Distance_unsafe \<in> set ev, i)"
| callback: "distance_is_safe env = tof_distance_is_safe Pearl t \<Longrightarrow>
    proximity_step (t, True, i) (t, False, distance_is_unsafe_cb Pearl env i)"
| operation: "distance_is_safe env = tof_distance_is_safe Pearl t \<Longrightarrow> (\<And>r. op \<noteq> Ir_init r) \<Longrightarrow>
    proximity_step (t, p, i) (t, p, snd (ir_exec Pearl env op i))"

text \<open>The state when the thread starts: the callback is registered, the camera system in any state of use.\<close>

inductive proximity_reachable :: "proximity_system \<Rightarrow> bool" where
  start: "t = tof_1d_start hw (snd (snd (tof_1d_init Pearl True True tof_power_on))) \<Longrightarrow>
    proximity_reachable (t, False, ir_run Pearl ops ir_power_on)"
| step: "proximity_reachable x \<Longrightarrow> proximity_step x y \<Longrightarrow> proximity_reachable y"

definition leds_dark :: "ir_camera \<Rightarrow> bool" where
  "leds_dark s \<longleftrightarrow> led_on s = {} \<and> on_time_in_us (timer_settings s) = 0"

lemma safe_settings_unsafe: "\<not> distance_is_safe env \<Longrightarrow> on_time_in_us (safe_settings env ts) = 0"
  by (simp add: safe_settings_def)

lemma dark_frame: "led_on t = led_on s \<Longrightarrow> timer_settings t = timer_settings s \<Longrightarrow> leds_dark t = leds_dark s"
  by (simp add: leds_dark_def)

lemma apply_dark:
  "\<not> distance_is_safe env \<Longrightarrow> led_on s \<subseteq> board_leds b \<Longrightarrow> leds_dark (apply_new_timer_settings b env s)"
  by (simp add: leds_dark_def apply_effect safe_settings_unsafe)

lemma on_time_0_accepted: "fst (timer_settings_from_on_time_us b 0 ts) = RET_SUCCESS"
  by (cases "max_duty_us b (fps ts)") (simp add: timer_settings_from_on_time_us_def Let_def)

lemma set_on_time_pearl:
  "snd (ir_camera_system_set_on_time_us Pearl env n s) \<in>
     {s, configure_timeout s, apply_new_timer_settings Pearl env (with_on_time Pearl n s),
      configure_timeout (apply_new_timer_settings Pearl env (with_on_time Pearl n s))}"
  by (simp add: ir_camera_system_set_on_time_us_def ir_camera_system_set_on_time_us_hw_def with_on_time_def
      case_prod_beta Let_def)

lemma callback_dark:
  assumes "\<not> distance_is_safe env" "led_board_ok Pearl s"
  shows "leds_dark (distance_is_unsafe_cb Pearl env s)"
proof -
  have "distance_is_unsafe_cb Pearl env s = apply_new_timer_settings Pearl env (with_on_time Pearl 0 s)"
    using on_time_0_accepted [of Pearl "timer_settings s"]
    by (simp add: distance_is_unsafe_cb_def ir_camera_system_set_on_time_us_def
        ir_camera_system_set_on_time_us_hw_def with_on_time_def case_prod_beta Let_def)
  then show ?thesis using apply_dark [OF assms(1), of "with_on_time Pearl 0 s" Pearl] assms(2)
    by (simp add: led_board_ok_def with_on_time_def)
qed

lemma dark_frames [simp]:
  "leds_dark (configure_timeout s) = leds_dark s" "leds_dark (s\<lparr>auto_off := x\<rparr>) = leds_dark s"
  by (simp_all add: leds_dark_def)

lemma enable_leds_dark:
  assumes "\<not> distance_is_safe env" "led_board_ok b s" "leds_dark s"
  shows "leds_dark (snd (ir_camera_system_enable_leds b env w s))"
proof -
  have "leds_dark (ir_camera_system_enable_leds_hw b env (s\<lparr>led_wavelength := w\<rparr>))"
    using assms by (simp add: leds_dark_def enable_leds_hw_effect safe_settings_unsafe)
  then show ?thesis using enable_leds_cases [of b env w s] assms(3) by auto
qed

lemma exec_dark:
  assumes "\<not> distance_is_safe env" "led_board_ok Pearl s" "leds_dark s" "\<And>r. op \<noteq> Ir_init r"
  shows "leds_dark (snd (ir_exec Pearl env op s))"
proof (cases op)
  case (Ir_leds w)
  then show ?thesis using enable_leds_dark [OF assms(1-3)] by simp
next
  case (Ir_fps f)
  have "leds_dark (apply_new_timer_settings Pearl env
      (s\<lparr>timer_settings := snd (timer_settings_from_fps Pearl f (timer_settings s))\<rparr>))"
    using assms(2) by (intro apply_dark [OF assms(1)]) (simp add: led_board_ok_def)
  then show ?thesis using Ir_fps set_fps_cases [of Pearl env f s] assms(3) by auto
next
  case (Ir_on_time n)
  have "leds_dark (apply_new_timer_settings Pearl env (with_on_time Pearl n s))"
    using assms(2) by (intro apply_dark [OF assms(1)]) (simp add: led_board_ok_def with_on_time_def)
  then show ?thesis using Ir_on_time set_on_time_pearl [of env n s] assms(3) by auto
next
  case Ir_timeout
  have "leds_dark (snd (ir_camera_system_enable_leds Pearl env WAVELENGTH_NONE (s\<lparr>auto_off := False\<rparr>)))"
    using assms by (intro enable_leds_dark) (simp_all add: led_board_ok_def)
  then show ?thesis using Ir_timeout assms(3)
    by (simp add: ir_camera_system_timeout_disable_def Let_def leds_dark_def camera_calls_effect)
next
  case Ir_pulse_finished
  then show ?thesis using assms(3) by (simp add: leds_dark_def)
qed (use assms(3,4) in \<open>simp_all add: leds_dark_def camera_calls_effect setter_effect sweep_ops_effect exposure_effect\<close>)

definition proximity_inv :: "proximity_system \<Rightarrow> bool" where
  "proximity_inv x \<longleftrightarrow> (case x of (t, pending, i) \<Rightarrow>
     unsafe_event_cb t \<and> 0 \<le> too_close_counter t \<and> too_close_counter t \<le> 3 \<and> led_board_ok Pearl i \<and>
     (tof_distance_is_safe Pearl t \<or> pending \<or> leds_dark i))"

lemma distance_is_safe_pearl: "tof_distance_is_safe Pearl t \<longleftrightarrow> too_close_counter t < 3"
  by (simp add: tof_distance_is_safe_def TOO_CLOSE_THRESHOLD_def)

lemma proximity_inv_step: "proximity_step x y \<Longrightarrow> proximity_inv x \<Longrightarrow> proximity_inv y"
proof (induction rule: proximity_step.induct)
  case (sensor hw d r t ev t' i)
  then have c: "0 \<le> too_close_counter t" "too_close_counter t \<le> 3" "unsafe_event_cb t" "led_board_ok Pearl i"
    "tof_distance_is_safe Pearl t \<or> leds_dark i"
    by (auto simp: proximity_inv_def)
  note u = tof_turn_counter [OF sensor(1) c(1,2)]
  have b: "0 \<le> too_close_counter t'" "too_close_counter t' \<le> 3"
    using u(1) c(1,2) saturate_bounds [OF c(1,2)] by (auto split: if_splits)
  have "Distance_unsafe \<in> set ev" if "too_close_counter t < 3" "\<not> too_close_counter t' < 3"
  proof -
    have "tof_good r" using u(1) that by (auto split: if_splits)
    then have "length (filter ((=) Distance_unsafe) ev) = 1" using u(3) that c(3) by simp
    then show ?thesis by (metis filter_empty_conv length_0_conv zero_neq_one)
  qed
  then show ?case using b u(2) c by (auto simp: proximity_inv_def distance_is_safe_pearl)
next
  case (callback env t i)
  have "led_board_ok Pearl (distance_is_unsafe_cb Pearl env i)"
    using exec_board [of Pearl i env "Ir_on_time 0"] callback(2) by (simp add: distance_is_unsafe_cb_def proximity_inv_def)
  then show ?case using callback callback_dark [of env i] by (auto simp: proximity_inv_def)
next
  case (operation env t op p i)
  then show ?case using exec_board [of Pearl i env op] exec_dark [of env i op] by (auto simp: proximity_inv_def)
qed

lemma proximity_inv_reachable: "proximity_reachable x \<Longrightarrow> proximity_inv x"
proof (induction rule: proximity_reachable.induct)
  case (start t hw ops)
  then show ?case using run_board [OF power_on_board, of Pearl ops]
    by (simp add: proximity_inv_def tof_1d_start_def tof_1d_init_def tof_power_on_def distance_is_safe_pearl)
qed (rule proximity_inv_step)

text \<open>
  C15. On Pearl, in every order of sensor turns, camera calls, interrupts and timeouts after the
  start: while the distance counts as unsafe and the callback has run, the on-time is 0 and no LED is
  connected to its timer; the callback is pending from the turn that makes the distance unsafe until it has run.
\<close>

theorem proximity_leds_stay_off:
  assumes "proximity_reachable (t, pending, i)" and "\<not> tof_distance_is_safe Pearl t" and "\<not> pending"
  shows "led_on i = {} \<and> on_time_in_us (timer_settings i) = 0"
  using proximity_inv_reachable [OF assms(1)] assms(2,3) by (simp add: proximity_inv_def leds_dark_def)

text \<open>
  On Diamond the distance always counts as safe, whatever happened: no thread is created, and the state
  published is a success although the sensor measures nothing.
\<close>

theorem proximity_diamond_unwatched:
  "tof_distance_is_safe Diamond s \<and>
   tof_1d_init Diamond cb True s = (RET_SUCCESS, False, s\<lparr>tof_1d_state := RET_SUCCESS\<rparr>) \<and>
   unsafe_event_cb (snd (snd (tof_1d_init Diamond cb ready s))) = unsafe_event_cb s"
  by (simp add: tof_distance_is_safe_def tof_1d_init_def)

subsection \<open>Witnesses\<close>

definition near_reading :: tof_reading where
  "near_reading = \<lparr>mode_result = 0, fetch_result = 0, distance_result = 0, distance_val1 = 20,
     prox_result = 0, prox_val1 = 1\<rparr>"

definition tof_hw_ok :: "nat \<Rightarrow> tof_cmd \<Rightarrow> int" where "tof_hw_ok n c = 0"

definition tof_ready :: tof_state where
  "tof_ready = tof_power_on\<lparr>unsafe_event_cb := True, tof_1d_state := RET_SUCCESS\<rparr>"

lemma near_turn:
  "tof_err_count s = 0 \<Longrightarrow> tof_1d_state s = RET_SUCCESS \<Longrightarrow> too_close_counter s = 0 \<or> too_close_counter s = 1 \<Longrightarrow>
   sample_count s = 0 \<or> sample_count s = 1 \<Longrightarrow> 
   tof_turn tof_hw_ok 0 near_reading s = Some (Tof_sleep 499 # (if sample_count s = 1 then [Publish_distance 20] else []),
     s\<lparr>sample_count := sample_count s + 1, too_close_counter := too_close_counter s + 1, tof_err_count := 0\<rparr>)"
  by (auto simp: tof_turn_def tof_wait_def tof_sample_def near_reading_def set_states_def tof_proximity_def
      tof_distance_is_safe_def Let_def
      ORB_STATE_1D_TOF_THRESHOLD_ERROR_COUNT_def TOO_CLOSE_THRESHOLD_def FETCH_PERIOD_MS_def
      INTER_MEASUREMENT_PERIOD_MS_def INTER_MEASUREMENT_FREQ_HZ_def DISTANCE_PUBLISH_PERIOD_MS_def)

lemma third_near_turn:
  "tof_err_count s = 0 \<Longrightarrow> tof_1d_state s = RET_SUCCESS \<Longrightarrow> too_close_counter s = 2 \<Longrightarrow> sample_count s = 2 \<Longrightarrow>
   unsafe_event_cb s \<Longrightarrow>
   tof_turn tof_hw_ok 0 near_reading s = Some ([Tof_sleep 499, Distance_unsafe],
     s\<lparr>sample_count := 3, too_close_counter := 3, tof_err_count := 0\<rparr>)"
  by (auto simp: tof_turn_def tof_wait_def tof_sample_def near_reading_def set_states_def tof_proximity_def
      tof_distance_is_safe_def Let_def
      ORB_STATE_1D_TOF_THRESHOLD_ERROR_COUNT_def TOO_CLOSE_THRESHOLD_def FETCH_PERIOD_MS_def
      INTER_MEASUREMENT_PERIOD_MS_def INTER_MEASUREMENT_FREQ_HZ_def DISTANCE_PUBLISH_PERIOD_MS_def)

lemma three_near_turns:
  "tof_turns (replicate 3 (tof_hw_ok, 0, near_reading)) tof_ready =
    Some ([Tof_sleep 499, Tof_sleep 499, Publish_distance 20, Tof_sleep 499, Distance_unsafe],
      tof_ready\<lparr>sample_count := 3, too_close_counter := 3, tof_err_count := 0\<rparr>)"
  by (simp add: numeral_3_eq_3 near_turn third_near_turn tof_ready_def tof_power_on_def)

lemma tof_counter_saturates_witness:
  "\<exists>ev t. tof_turns (replicate 3 (tof_hw_ok, 0, near_reading)) tof_ready = Some (ev, t) \<and>
     too_close_counter t = 3 \<and> \<not> tof_distance_is_safe Pearl t \<and> length (filter ((=) Distance_unsafe) ev) = 1"
proof -
  have m: "tof_measured (replicate 3 (tof_hw_ok, 0, near_reading)) = [1, 1, 1]"
    by (simp add: tof_measured_def tof_good_def near_reading_def numeral_3_eq_3)
  show ?thesis
    using tof_counter_saturates [OF three_near_turns] three_near_turns m
    by (simp add: distance_is_safe_pearl tof_ready_def [unfolded tof_power_on_def] saturate_def del: tof_turns.simps)
qed

lemma tof_turn_returns_witness:
  "\<exists>ev t. tof_turns (replicate 1000 (tof_hw_ok, 0, near_reading\<lparr>fetch_result := -5\<rparr>)) tof_ready = Some (ev, t) \<and>
     tof_distance_is_safe Pearl t \<and> tof_1d_state t = RET_SUCCESS"
  using tof_turn_returns [of "near_reading\<lparr>fetch_result := -5\<rparr>" tof_ready 1000 tof_hw_ok 0 Pearl]
  by (auto simp: near_reading_def tof_ready_def tof_power_on_def distance_is_safe_pearl)

lemma proximity_sensor_step:
  "tof_turn hw d r t = Some (ev, t') \<Longrightarrow> p = (Distance_unsafe \<in> set ev) \<Longrightarrow>
   proximity_step (t, False, i) (t', p, i)"
  by (simp add: proximity_step.sensor)

lemma proximity_leds_stay_off_witness:
  "\<exists>t i. proximity_reachable (t, False, i) \<and> \<not> tof_distance_is_safe Pearl t \<and>
     led_on i = {} \<and> on_time_in_us (timer_settings i) = 0"
proof -
  let ?s = "tof_1d_start (tof_hw_ok 0) (snd (snd (tof_1d_init Pearl True True tof_power_on)))"
  have s: "?s = tof_ready"
    by (simp add: tof_1d_start_def tof_1d_init_def tof_power_on_def tof_ready_def set_states_def
        tof_init_config_def tof_hw_ok_def)
  let ?e = "quiet_env\<lparr>distance_is_safe := False\<rparr>"
  let ?t = "\<lambda>n. tof_ready\<lparr>sample_count := nat n, too_close_counter := n, tof_err_count := 0\<rparr>"
  have 0: "proximity_reachable (tof_ready, False, ir_run Pearl [] ir_power_on)"
    using proximity_reachable.start [of ?s "tof_hw_ok 0" "[]"] s by simp
  have turns: "tof_turn tof_hw_ok 0 near_reading tof_ready = Some ([Tof_sleep 499], ?t 1)"
    "tof_turn tof_hw_ok 0 near_reading (?t 1) = Some ([Tof_sleep 499, Publish_distance 20], ?t 2)"
    "tof_turn tof_hw_ok 0 near_reading (?t 2) = Some ([Tof_sleep 499, Distance_unsafe], ?t 3)"
    by (simp_all add: near_turn third_near_turn tof_ready_def tof_power_on_def)
  have 1: "proximity_step (tof_ready, False, i) (?t 1, False, i)" for i
    by (rule proximity_sensor_step [OF turns(1)]) simp
  have 2: "proximity_step (?t 1, False, i) (?t 2, False, i)" for i
    by (rule proximity_sensor_step [OF turns(2)]) simp
  have 3: "proximity_step (?t 2, False, i) (?t 3, True, i)" for i
    by (rule proximity_sensor_step [OF turns(3)]) simp
  have 4: "proximity_step (?t 3, True, i) (?t 3, False, distance_is_unsafe_cb Pearl ?e i)" for i
    by (rule proximity_step.callback) (simp add: distance_is_safe_pearl)
  have r: "proximity_reachable (?t 3, False, distance_is_unsafe_cb Pearl ?e (ir_run Pearl [] ir_power_on))"
    using 0 1 2 3 4 by (meson proximity_reachable.step)
  have "\<not> tof_distance_is_safe Pearl (?t 3)" by (simp add: distance_is_safe_pearl)
  from proximity_leds_stay_off [OF r this] r this show ?thesis by blast
qed

end
