(* ===== verification/Button.thy ===== *)
theory Button
  imports Fan
begin

text \<open>
  The power button (\<^verbatim>\<open>ui/button/button.c\<close>): the interrupt handler queues work that publishes
  the state and, on Diamond, schedules the reset of a long press.
\<close>

definition LONG_PRESS_HARD_RESET_TIMEOUT_MS :: nat where "LONG_PRESS_HARD_RESET_TIMEOUT_MS = 6000"

datatype button_work = BUTTON_PRESSED_WORK | BUTTON_RELEASED_WORK

text \<open>
  \<open>button_queue\<close> is the work submitted and not yet run, \<open>long_press_work\<close> when the long press is due.
  \<open>button_published\<close> lists the published states, the last one at the end. \<open>button_level\<close> is the button
  itself, \<open>pressed_since\<close> and \<open>button_resets\<close> are history.
\<close>

record button =
  button_is_init :: bool
  button_irq :: bool
  button_queue :: "button_work list"
  long_press_work :: "nat option"
  button_published :: "bool list"
  button_fan :: fan
  button_level :: bool
  button_now :: nat
  pressed_since :: "nat option"
  button_resets :: "(nat \<times> nat option) list"

text \<open>Work that is pending already is not queued again, and a delayed one not delayed anew.\<close>

definition k_work_submit :: "'w \<Rightarrow> 'w list \<Rightarrow> 'w list" where
  "k_work_submit w q = (if w \<in> set q then q else q @ [w])"

definition k_work_schedule :: "nat \<Rightarrow> nat option \<Rightarrow> nat option" where
  "k_work_schedule t d = (case d of None \<Rightarrow> Some t | Some _ \<Rightarrow> d)"

text \<open>\<open>pin\<close> is what reading the pin returns.\<close>

definition button_event_handler :: "board \<Rightarrow> int \<Rightarrow> button \<Rightarrow> button" where
  "button_event_handler b pin s =
    (if pin = 1
     then (let s1 = s\<lparr>button_queue := k_work_submit BUTTON_PRESSED_WORK (button_queue s)\<rparr>
           in if b = Diamond
              then s1\<lparr>long_press_work := k_work_schedule (button_now s1 + LONG_PRESS_HARD_RESET_TIMEOUT_MS) (long_press_work s1)\<rparr>
              else s1)
     else if pin = 0
     then (let s1 = s\<lparr>button_queue := k_work_submit BUTTON_RELEASED_WORK (button_queue s)\<rparr>
           in if b = Diamond then s1\<lparr>long_press_work := None\<rparr> else s1)
     else s)"

definition button_pressed :: "button \<Rightarrow> button" where
  "button_pressed s = s\<lparr>button_published := button_published s @ [True]\<rparr>"

definition button_released :: "button \<Rightarrow> button" where
  "button_released s = s\<lparr>button_published := button_published s @ [False]\<rparr>"

definition button_run_work :: "button \<Rightarrow> button" where
  "button_run_work s =
    (case button_queue s of
       [] \<Rightarrow> s
     | BUTTON_PRESSED_WORK # q \<Rightarrow> button_pressed (s\<lparr>button_queue := q\<rparr>)
     | BUTTON_RELEASED_WORK # q \<Rightarrow> button_released (s\<lparr>button_queue := q\<rparr>))"

text \<open>Either \<^verbatim>\<open>reboot\<close> accepts the request or the system is reset at once.\<close>

definition button_long_pressed :: "int \<Rightarrow> button \<Rightarrow> button" where
  "button_long_pressed value s =
    (let s1 = s\<lparr>long_press_work := None\<rparr> in
     if value = 1
     then s1\<lparr>button_fan := fan_turn_off (button_fan s1), button_resets := (button_now s1, pressed_since s1) # button_resets s1\<rparr>
     else s1)"

text \<open>\<open>disable\<close>, \<open>remove\<close>, \<open>config\<close>, \<open>irq\<close> and \<open>add\<close> are what the pin driver returns.\<close>

definition button_uninit :: "int \<Rightarrow> int \<Rightarrow> button \<Rightarrow> int \<times> button" where
  "button_uninit disable remove s =
    (if \<not> button_is_init s then (rc RET_ERROR_INVALID_STATE, s)
     else if disable \<noteq> 0 then (disable, s)
     else if remove \<noteq> 0 then (remove, s\<lparr>button_irq := False\<rparr>)
     else (0, s\<lparr>button_irq := False, button_is_init := False\<rparr>))"

definition button_init :: "bool \<Rightarrow> int \<Rightarrow> int \<Rightarrow> int \<Rightarrow> button \<Rightarrow> ret_code_t \<times> button" where
  "button_init ready config irq add s =
    (if button_is_init s then (RET_SUCCESS, s)
     else if \<not> ready then (RET_ERROR_INVALID_STATE, s)
     else if config \<noteq> 0 then (RET_ERROR_INTERNAL, s)
     else if irq \<noteq> 0 then (RET_ERROR_INTERNAL, s)
     else let s1 = s\<lparr>button_queue := []\<rparr> in
       if add \<noteq> 0 then (RET_ERROR_INTERNAL, s1)
       else (RET_SUCCESS, s1\<lparr>button_irq := True, button_is_init := True\<rparr>))"

text \<open>A turn of the thread that polls the button of the cone; \<open>old\<close> is the state it remembers.\<close>

definition cone_button_turn :: "int \<Rightarrow> bool \<times> button \<Rightarrow> bool \<times> button" where
  "cone_button_turn pin st =
    (let (old, s) = st; new = (pin \<noteq> 0) in
     (new, if \<not> old \<and> new then s\<lparr>button_queue := k_work_submit BUTTON_PRESSED_WORK (button_queue s)\<rparr>
           else if old \<and> \<not> new then s\<lparr>button_queue := k_work_submit BUTTON_RELEASED_WORK (button_queue s)\<rparr>
           else s))"

subsection \<open>Long presses\<close>

text \<open>
  An edge of the button, with the interrupt; its pin can be read. \<open>pressed_since\<close> is the time of the last edge that was a
  press: a button held when the system starts has had none. The delayed work runs at most
  \<open>lat\<close> milliseconds late.
\<close>

definition button_edge :: "board \<Rightarrow> button \<Rightarrow> button" where
  "button_edge b s =
    (let s1 = s\<lparr>button_level := \<not> button_level s, pressed_since := (if button_level s then None else Some (button_now s))\<rparr>
     in if button_irq s1 then button_event_handler b (if button_level s1 then 1 else 0) s1 else s1)"

inductive button_step :: "board \<Rightarrow> nat \<Rightarrow> button \<Rightarrow> button \<Rightarrow> bool" for b lat where
  button_step_edge: "button_step b lat s (button_edge b s)"
| button_step_work: "button_step b lat s (button_run_work s)"
| button_step_long: "long_press_work s = Some t \<Longrightarrow> t \<le> button_now s \<Longrightarrow>
    button_step b lat s (button_long_pressed (if button_level s then 1 else 0) s)"
| button_step_tick: "(\<And>t. long_press_work s = Some t \<Longrightarrow> button_now s < t + lat) \<Longrightarrow>
    button_step b lat s (s\<lparr>button_now := Suc (button_now s)\<rparr>)"

inductive_cases button_stepE: "button_step b lat s s'"

definition reset_in_time :: "nat \<Rightarrow> nat \<Rightarrow> nat \<times> nat option \<Rightarrow> bool" where
  "reset_in_time lat p e \<longleftrightarrow> snd e = Some p \<and> p + 6000 \<le> fst e \<and> fst e \<le> p + 6000 + lat"

definition button_inv :: "nat \<Rightarrow> bool \<Rightarrow> button \<Rightarrow> bool" where
  "button_inv lat held s \<longleftrightarrow> button_irq s \<and> (pressed_since s \<noteq> None \<longrightarrow> button_level s) \<and>
     (button_level s \<and> pressed_since s = None \<longrightarrow> held \<and> button_resets s = []) \<and>
     (\<forall>t. long_press_work s = Some t \<longrightarrow> button_now s \<le> t + lat \<and> (\<exists>p. pressed_since s = Some p \<and> t = p + 6000)) \<and>
     (\<forall>p. pressed_since s = Some p \<and> long_press_work s = None \<longrightarrow> (\<exists>e\<in>set (button_resets s). reset_in_time lat p e)) \<and>
     (\<forall>e\<in>set (button_resets s). \<exists>p. reset_in_time lat p e)"

lemma button_inv_edge: "button_inv lat held s \<Longrightarrow> button_inv lat held (button_edge Diamond s)"
  by (cases "long_press_work s"; cases "button_level s"; cases "pressed_since s")
    (auto simp: button_inv_def button_edge_def button_event_handler_def k_work_schedule_def LONG_PRESS_HARD_RESET_TIMEOUT_MS_def Let_def)

lemma button_inv_work: "button_inv lat held s \<Longrightarrow> button_inv lat held (button_run_work s)"
  by (auto simp: button_run_work_def button_inv_def button_pressed_def button_released_def
      split: list.splits button_work.splits)

lemma button_inv_long:
  "button_inv lat held s \<Longrightarrow> long_press_work s = Some t \<Longrightarrow> t \<le> button_now s \<Longrightarrow>
    button_inv lat held (button_long_pressed (if button_level s then 1 else 0) s)"
  by (auto simp: button_inv_def button_long_pressed_def reset_in_time_def Let_def)

lemma button_inv_step: "button_step Diamond lat s s' \<Longrightarrow> button_inv lat held s \<Longrightarrow> button_inv lat held s'"
proof (erule button_stepE)
  assume i: "button_inv lat held s" and s': "s' = s\<lparr>button_now := Suc (button_now s)\<rparr>"
    and lt: "\<And>t. long_press_work s = Some t \<Longrightarrow> button_now s < t + lat"
  have "Suc (button_now s) \<le> t + lat" if "long_press_work s = Some t" for t using lt [OF that] by simp
  then show "button_inv lat held s'" using i unfolding s' by (simp add: button_inv_def)
qed (blast intro: button_inv_edge button_inv_work button_inv_long)+

text \<open>After the initialization; \<open>held\<close> tells whether the button is held at that time, which is not read.\<close>

definition button_ready :: "nat \<Rightarrow> bool \<Rightarrow> fan \<Rightarrow> button" where
  "button_ready now held f = \<lparr>button_is_init = True, button_irq = True, button_queue = [], long_press_work = None,
     button_published = [], button_fan = f, button_level = held, button_now = now, pressed_since = None, button_resets = []\<rparr>"

text \<open>
  C20. On Diamond, in every order of presses, releases, work and passing time, the system is reset only when the button
  has been held for six seconds since it was pressed, no later than the work queue is late, and whenever it
  has been held longer than that the reset has been requested. A button held since before the initialization does
  not count as pressed: it gives no reset until it is released.
\<close>

theorem button_long_press_resets:
  assumes "(button_step Diamond lat)\<^sup>*\<^sup>* (button_ready now held f) s"
  shows "(\<forall>e\<in>set (button_resets s). \<exists>p. snd e = Some p \<and> p + 6000 \<le> fst e \<and> fst e \<le> p + 6000 + lat) \<and>
    (case pressed_since s of
       None \<Rightarrow> \<not> button_level s \<or> held \<and> button_resets s = []
     | Some p \<Rightarrow> button_level s \<and>
         (button_now s \<le> p + 6000 + lat \<or> (\<exists>t. p + 6000 \<le> t \<and> t \<le> p + 6000 + lat \<and> (t, Some p) \<in> set (button_resets s))))"
proof -
  have inv: "button_inv lat held s" using assms
  proof (induction rule: rtranclp_induct)
    case base
    show ?case by (simp add: button_inv_def button_ready_def)
  qed (auto intro: button_inv_step)
  have all: "\<forall>e\<in>set (button_resets s). \<exists>p. snd e = Some p \<and> p + 6000 \<le> fst e \<and> fst e \<le> p + 6000 + lat"
    using inv by (simp add: button_inv_def reset_in_time_def)
  show ?thesis
  proof (cases "pressed_since s")
    case None
    then show ?thesis using inv all by (auto simp: button_inv_def)
  next
    case (Some p)
    have "\<exists>t. p + 6000 \<le> t \<and> t \<le> p + 6000 + lat \<and> (t, Some p) \<in> set (button_resets s)" if "long_press_work s = None"
      using inv Some that by (fastforce simp: button_inv_def reset_in_time_def)
    moreover have "button_now s \<le> p + 6000 + lat" if "long_press_work s = Some t" for t
      using inv Some that by (auto simp: button_inv_def)
    moreover have "button_level s" using inv Some by (simp add: button_inv_def)
    ultimately show ?thesis using all Some by (cases "long_press_work s") simp_all
  qed
qed

lemma button_long_press_resets_witness:
  "\<exists>s. (button_step Diamond 20)\<^sup>*\<^sup>* (button_ready 0 False fan_power_on) s \<and> pressed_since s = Some 0 \<and>
    (button_now s \<le> 6020 \<or> (\<exists>t. 6000 \<le> t \<and> t \<le> 6020 \<and> (t, Some 0) \<in> set (button_resets s)))"
proof (intro exI conjI)
  let ?s = "button_edge Diamond (button_ready 0 False fan_power_on)"
  show r: "(button_step Diamond 20)\<^sup>*\<^sup>* (button_ready 0 False fan_power_on) ?s"
    by (rule r_into_rtranclp) (rule button_step_edge)
  show p: "pressed_since ?s = Some 0"
    by (simp add: button_edge_def button_ready_def button_event_handler_def Let_def)
  show "button_now ?s \<le> 6020 \<or> (\<exists>t. 6000 \<le> t \<and> t \<le> 6020 \<and> (t, Some 0) \<in> set (button_resets ?s))"
    using button_long_press_resets [OF r] p by simp
qed

text \<open>
  Edges that come before the work has run: of a press, a release and a press only the
  first two are published, and the button counts as released while it is held.
\<close>

lemma button_press_unpublished:
  assumes "button_queue s = []" and "button_irq s" and "\<not> button_level s"
  shows "let t = (button_run_work ^^ n) (button_edge b (button_edge b (button_edge b s)))
    in 2 \<le> n \<longrightarrow> button_level t \<and> button_queue t = [] \<and> button_published t = button_published s @ [True, False]"
proof -
  let ?s = "button_edge b (button_edge b (button_edge b s))"
  have q: "button_queue ?s = [BUTTON_PRESSED_WORK, BUTTON_RELEASED_WORK]" "button_published ?s = button_published s" "button_level ?s"
    using assms by (simp_all add: button_edge_def button_event_handler_def k_work_submit_def Let_def)
  have two: "(button_run_work ^^ 2) ?s = button_run_work (button_run_work ?s)" by (simp add: eval_nat_numeral)
  have e: "button_queue (button_run_work (button_run_work ?s)) = []" "button_level (button_run_work (button_run_work ?s))"
    "button_published (button_run_work (button_run_work ?s)) = button_published s @ [True, False]"
    using q by (simp_all add: button_run_work_def button_pressed_def button_released_def)
  have idle: "button_queue t = [] \<Longrightarrow> (button_run_work ^^ k) t = t" for k t
    by (induction k) (simp_all add: button_run_work_def)
  have "(button_run_work ^^ n) ?s = (button_run_work ^^ 2) ?s" if "2 \<le> n"
  proof -
    have "(button_run_work ^^ n) ?s = (button_run_work ^^ (n - 2)) ((button_run_work ^^ 2) ?s)"
      using that by (metis funpow_add comp_apply le_add_diff_inverse2)
    then show ?thesis using idle e(1) two by simp
  qed
  then show ?thesis using e two by (simp add: Let_def)
qed

end
