(* ===== verification/Voltage.thy ===== *)
theory Voltage
  imports Boot C_Float
begin

text \<open>
  Voltage measurement of the main board (\<^verbatim>\<open>voltage_measurement.c\<close>): the buffers the three
  ADC callbacks fill from interrupts, with the smallest and largest value of each channel since the
  last publication; the conversion to millivolts; the publication to the Jetson; the super
  capacitors sampled through an analog multiplexer on Diamond; the self test; the initialization.

  The order of the protobuf enumeration of the voltage sources, \<^verbatim>\<open>adc_raw_to_millivolts\<close> and the
  vendor's reference voltage macro are not part of the repository: they are fields of
  \<open>voltage_cfg\<close>. Interrupts are explicit lists of \<open>adc_event\<close> at the points where a thread sleeps
  or publishes; the loops between these points take less than a sampling period.
\<close>

subsection \<open>Channels and buffers\<close>

datatype channel =
    CHANNEL_VBAT_SW | CHANNEL_PVCC | CHANNEL_12V | CHANNEL_12V_CAPS | CHANNEL_DIE_TEMP | CHANNEL_3V3_UC
  | CHANNEL_1V8 | CHANNEL_3V3 | CHANNEL_5V | CHANNEL_3V3_SSD_3V8 | CHANNEL_VREFINT | CHANNEL_3V3_WIFI
  | CHANNEL_V_SCAP_LOW | CHANNEL_V_SCAP_HIGH | CHANNEL_1V8_SEC | CHANNEL_4V7_SEC | CHANNEL_3V6
  | CHANNEL_3V3_LTE | CHANNEL_3V3_LDO | CHANNEL_2V8

fun voltage_channels :: "board \<Rightarrow> channel list" where
  "voltage_channels Pearl =
    [CHANNEL_VBAT_SW, CHANNEL_PVCC, CHANNEL_12V, CHANNEL_12V_CAPS, CHANNEL_DIE_TEMP, CHANNEL_3V3_UC,
     CHANNEL_1V8, CHANNEL_3V3, CHANNEL_5V, CHANNEL_3V3_SSD_3V8, CHANNEL_VREFINT]"
| "voltage_channels Diamond =
    [CHANNEL_VBAT_SW, CHANNEL_3V3_SSD_3V8, CHANNEL_3V3_WIFI, CHANNEL_PVCC, CHANNEL_12V_CAPS,
     CHANNEL_V_SCAP_LOW, CHANNEL_V_SCAP_HIGH, CHANNEL_DIE_TEMP, CHANNEL_3V3_UC, CHANNEL_1V8_SEC,
     CHANNEL_4V7_SEC, CHANNEL_1V8, CHANNEL_3V3, CHANNEL_5V, CHANNEL_3V6, CHANNEL_3V3_LTE,
     CHANNEL_3V3_LDO, CHANNEL_2V8, CHANNEL_VREFINT]"

text \<open>The number the enumeration gives a channel; \<open>CHANNEL_COUNT\<close> for one the board does not have.\<close>

definition channel_index :: "board \<Rightarrow> channel \<Rightarrow> nat" where
  "channel_index b c = length (takeWhile (\<lambda>c'. c' \<noteq> c) (voltage_channels b))"

fun NUMBER_OF_CHANNELS_ADC_1 :: "board \<Rightarrow> nat" where
  "NUMBER_OF_CHANNELS_ADC_1 Diamond = 9"
| "NUMBER_OF_CHANNELS_ADC_1 Pearl = 6"

fun NUMBER_OF_CHANNELS_ADC_4 :: "board \<Rightarrow> nat" where
  "NUMBER_OF_CHANNELS_ADC_4 Diamond = 2"
| "NUMBER_OF_CHANNELS_ADC_4 Pearl = 0"

fun NUMBER_OF_CHANNELS_ADC_5 :: "board \<Rightarrow> nat" where
  "NUMBER_OF_CHANNELS_ADC_5 Diamond = 8"
| "NUMBER_OF_CHANNELS_ADC_5 Pearl = 5"

definition NUMBER_OF_CHANNELS :: "board \<Rightarrow> nat" where
  "NUMBER_OF_CHANNELS b = NUMBER_OF_CHANNELS_ADC_1 b + NUMBER_OF_CHANNELS_ADC_4 b + NUMBER_OF_CHANNELS_ADC_5 b"

record adc_samples_buffers =
  raw :: "u16 list"
  raw_min :: "u16 list"
  raw_max :: "u16 list"

text \<open>One channel of a callback, after the samples have been copied.\<close>

definition adc_track :: "nat \<Rightarrow> adc_samples_buffers \<Rightarrow> adc_samples_buffers" where
  "adc_track i a =
    (let a1 = (if raw a ! i < raw_min a ! i then a\<lparr>raw_min := (raw_min a)[i := raw a ! i]\<rparr> else a)
     in if raw a1 ! i > raw_max a1 ! i then a1\<lparr>raw_max := (raw_max a1)[i := raw a1 ! i]\<rparr> else a1)"

definition adc_callback :: "nat \<Rightarrow> nat \<Rightarrow> u16 list \<Rightarrow> adc_samples_buffers \<Rightarrow> adc_samples_buffers" where
  "adc_callback off n samples a =
    fold adc_track [off..<off + n] (a\<lparr>raw := mem_put off samples (raw a)\<rparr>)"

definition adc1_callback :: "board \<Rightarrow> u16 list \<Rightarrow> adc_samples_buffers \<Rightarrow> adc_samples_buffers" where
  "adc1_callback b = adc_callback 0 (NUMBER_OF_CHANNELS_ADC_1 b)"

definition adc4_callback :: "board \<Rightarrow> u16 list \<Rightarrow> adc_samples_buffers \<Rightarrow> adc_samples_buffers" where
  "adc4_callback b = adc_callback (NUMBER_OF_CHANNELS_ADC_1 b) (NUMBER_OF_CHANNELS_ADC_4 b)"

definition adc5_callback :: "board \<Rightarrow> u16 list \<Rightarrow> adc_samples_buffers \<Rightarrow> adc_samples_buffers" where
  "adc5_callback b =
    adc_callback (NUMBER_OF_CHANNELS_ADC_1 b + NUMBER_OF_CHANNELS_ADC_4 b) (NUMBER_OF_CHANNELS_ADC_5 b)"

text \<open>The channels of the devicetree, and the mask each sampling thread passes to \<^verbatim>\<open>adc_read\<close>.\<close>

datatype adc_dev = ADC_1 | ADC_4 | ADC_5

fun adc_channels :: "board \<Rightarrow> (adc_dev \<times> nat) list" where
  "adc_channels Diamond =
    [(ADC_1, 1), (ADC_1, 2), (ADC_1, 3), (ADC_1, 7), (ADC_1, 9), (ADC_1, 11), (ADC_1, 14), (ADC_1, 16),
     (ADC_1, 17), (ADC_4, 1), (ADC_4, 2), (ADC_5, 7), (ADC_5, 8), (ADC_5, 9), (ADC_5, 12), (ADC_5, 13),
     (ADC_5, 14), (ADC_5, 15), (ADC_5, 18)]"
| "adc_channels Pearl =
    [(ADC_1, 1), (ADC_1, 7), (ADC_1, 8), (ADC_1, 9), (ADC_1, 16), (ADC_1, 17), (ADC_5, 7), (ADC_5, 8),
     (ADC_5, 9), (ADC_5, 13), (ADC_5, 18)]"

unbundle bit_operations_syntax

definition adc_sequence_channels :: "board \<Rightarrow> adc_dev \<Rightarrow> u32" where
  "adc_sequence_channels b dev =
    fold (\<lambda>(d, ch) m. if d = dev then m OR push_bit ch 1 else m) (adc_channels b) 0"

definition reset_statistics :: "adc_samples_buffers \<Rightarrow> adc_samples_buffers" where
  "reset_statistics a =
    a\<lparr>raw_min := replicate (length (raw_min a)) 0xFFFF, raw_max := replicate (length (raw_max a)) 0\<rparr>"

definition update_min_max_from_adc_samples_buffer ::
    "adc_samples_buffers \<Rightarrow> adc_samples_buffers \<Rightarrow> adc_samples_buffers" where
  "update_min_max_from_adc_samples_buffer to_update inp =
    fold (\<lambda>i a.
      let a1 = (if raw_min inp ! i < raw_min a ! i then a\<lparr>raw_min := (raw_min a)[i := raw_min inp ! i]\<rparr> else a)
      in if raw_max inp ! i > raw_max a1 ! i then a1\<lparr>raw_max := (raw_max a1)[i := raw_max inp ! i]\<rparr> else a1)
    [0..<length (raw_min to_update)] to_update"

subsection \<open>Millivolts\<close>

datatype source =
    VS_MAIN_MCU_INTERNAL | VS_SECURITY_MCU_INTERNAL | VS_SUPPLY_12V | VS_SUPPLY_5V | VS_SUPPLY_3V8
  | VS_SUPPLY_3V3 | VS_SUPPLY_1V8 | VS_VBAT | VS_PVCC | VS_CAPS_12V | VS_VBAT_SW | VS_SUPPLY_3V3_SSD
  | VS_SUPPLY_3V3_WIFI | VS_SUPPLY_3V3_LTE | VS_SUPPLY_3V6 | VS_SUPPLY_1V2 | VS_SUPPLY_3V3_LDO
  | VS_SUPPLY_2V8 | VS_SUPPLY_1V8_SEC | VS_SUPPLY_4V7_SEC | VS_SUPPLY_17V_CAPS | VS_SUPER_CAP nat | VS_OTHER

record voltage_cfg =
  vcfg_board :: board
  no_super_caps :: bool
  voltage_sources :: "source list"
  calc_vrefanalog :: "nat \<Rightarrow> nat"
  raw_to_millivolts :: "nat \<Rightarrow> nat \<Rightarrow> nat"

text \<open>The hardware version is \<open>None\<close> while it is unknown.\<close>

definition vref_mv_from_raw :: "voltage_cfg \<Rightarrow> hw_version option \<Rightarrow> u16 \<Rightarrow> nat" where
  "vref_mv_from_raw cfg v vrefint_raw =
    (case vcfg_board cfg of
       Pearl \<Rightarrow>
         (if v = Some HW_VERSION_PEARL_EV5 then 2048
          else calc_vrefanalog cfg (if vrefint_raw = 0 then 1 else unat vrefint_raw)) mod 65536
     | Diamond \<Rightarrow> 2048)"

fun voltage_divider_scalings :: "board \<Rightarrow> double list" where
  "voltage_divider_scalings Diamond =
    [single_of_ratio 104 10, single_of_ratio 2 1, single_of_ratio 2 1, single_of_ratio 1981 100,
     single_of_ratio 67 10, single_of_ratio 1 1, single_of_ratio 1 1, single_of_ratio 1 1,
     single_of_ratio 3 1, single_of_ratio 1 1, single_of_ratio 3 1, single_of_ratio 1 1,
     single_of_ratio 2 1, single_of_ratio 3 1, single_of_ratio 2 1, single_of_ratio 2 1,
     single_of_ratio 2 1, single_of_ratio 2 1, single_of_ratio 1 1]"
| "voltage_divider_scalings Pearl =
    [single_of_ratio 542 100, single_of_ratio 1040 100, single_of_ratio 57 10, single_of_ratio 57 10,
     single_of_ratio 1 1, single_of_ratio 3 1, single_of_ratio 1 1, single_of_ratio 1213 1000,
     single_of_ratio 2 1, single_of_ratio 1213 1000, single_of_ratio 1 1]"

definition voltage_divider_scalings_ev5 :: "double list" where
  "voltage_divider_scalings_ev5 =
    [single_of_ratio 104 10, single_of_ratio 1981 100, single_of_ratio 67 10, single_of_ratio 67 10,
     single_of_ratio 1 1, single_of_ratio 3 1, single_of_ratio 1 1, single_of_ratio 2 1,
     single_of_ratio 3 1, single_of_ratio 2 1, single_of_ratio 1 1]"

definition voltage_scaling :: "board \<Rightarrow> hw_version option \<Rightarrow> nat \<Rightarrow> double" where
  "voltage_scaling b v ch =
    (if b = Pearl \<and> v = Some HW_VERSION_PEARL_EV5 then voltage_divider_scalings_ev5 ! ch
     else voltage_divider_scalings b ! ch)"

text \<open>\<^verbatim>\<open>(int32_t)((float)raw_value * scaling)\<close>.\<close>

definition scale_mv :: "double \<Rightarrow> nat \<Rightarrow> int" where
  "scale_mv scaling mv = int (double_trunc (single_mult (single_of_ratio mv 1) scaling))"

definition raw_to_scaled_mv :: "voltage_cfg \<Rightarrow> hw_version option \<Rightarrow> adc_samples_buffers \<Rightarrow> nat \<Rightarrow> u16 \<Rightarrow> int" where
  "raw_to_scaled_mv cfg v a ch x =
    (let vref_mv = vref_mv_from_raw cfg v (raw a ! channel_index (vcfg_board cfg) CHANNEL_VREFINT)
     in scale_mv (voltage_scaling (vcfg_board cfg) v ch) (raw_to_millivolts cfg vref_mv (unat x)))"

definition voltage_measurement_get_stats ::
    "voltage_cfg \<Rightarrow> hw_version option \<Rightarrow> adc_samples_buffers \<Rightarrow> nat \<Rightarrow> ret_code_t + int \<times> int \<times> int" where
  "voltage_measurement_get_stats cfg v a ch =
    (if ch \<ge> NUMBER_OF_CHANNELS (vcfg_board cfg) then Inl RET_ERROR_INVALID_PARAM
     else if v = None then Inl RET_ERROR_NOT_INITIALIZED
     else Inr (raw_to_scaled_mv cfg v a ch (raw a ! ch), raw_to_scaled_mv cfg v a ch (raw_min a ! ch),
               raw_to_scaled_mv cfg v a ch (raw_max a ! ch)))"

text \<open>The pointer arguments of the two getters are \<open>False\<close> when they are null.\<close>

definition voltage_measurement_get ::
    "voltage_cfg \<Rightarrow> hw_version option \<Rightarrow> adc_samples_buffers \<Rightarrow> nat \<Rightarrow> bool \<Rightarrow> ret_code_t + int" where
  "voltage_measurement_get cfg v a ch voltage_mv =
    (if ch \<ge> NUMBER_OF_CHANNELS (vcfg_board cfg) \<or> \<not> voltage_mv then Inl RET_ERROR_INVALID_PARAM
     else if v = None then Inl RET_ERROR_NOT_INITIALIZED
     else Inr (raw_to_scaled_mv cfg v a ch (raw a ! ch)))"

definition voltage_measurement_get_raw ::
    "voltage_cfg \<Rightarrow> hw_version option \<Rightarrow> adc_samples_buffers \<Rightarrow> nat \<Rightarrow> bool \<Rightarrow> ret_code_t + u16" where
  "voltage_measurement_get_raw cfg v a ch adc_raw_value =
    (if ch \<ge> NUMBER_OF_CHANNELS (vcfg_board cfg) then Inl RET_ERROR_INVALID_PARAM
     else if v = None then Inl RET_ERROR_NOT_INITIALIZED
     else if \<not> adc_raw_value then Inl RET_ERROR_INVALID_PARAM
     else Inr (raw a ! ch))"

definition voltage_measurement_get_vref_mv :: "voltage_cfg \<Rightarrow> hw_version option \<Rightarrow> adc_samples_buffers \<Rightarrow> nat" where
  "voltage_measurement_get_vref_mv cfg v a =
    (let vrefint_raw = raw a ! channel_index (vcfg_board cfg) CHANNEL_VREFINT
     in if vrefint_raw = 0 then 0 else vref_mv_from_raw cfg v vrefint_raw)"

subsection \<open>State\<close>

record voltage_msg =
  msg_source :: source
  voltage_current_mv :: int
  voltage_min_mv :: int
  voltage_max_mv :: int

text \<open>A status is what \<^verbatim>\<open>ORB_STATE_SET\<close> is given: the code, the format and its argument.\<close>

type_synonym orb_status = "ret_code_t \<times> string \<times> nat"

datatype voltage_thread = THREAD_ADC1 | THREAD_ADC4 | THREAD_ADC5 | THREAD_PUBLISH | THREAD_SELF_TEST

datatype adc_path = PATH_TEMPSENSOR | PATH_VBAT | PATH_VREFINT

record voltage =
  buffers :: adc_samples_buffers
  hardware_version :: "hw_version option"
  voltages_publish_period_ms :: nat
  super_cap_voltages_mv :: "int list"
  super_cap_differential_voltages :: "int list"
  mux_pins :: "bool \<times> bool"
  mux_enable :: bool
  mux_dvt :: bool
  last_msg :: voltage_msg
  sent_voltages :: "voltage_msg list"
  voltages_status :: orb_status
  supercaps_status :: orb_status
  initialized_once :: bool
  meas_enabled :: bool
  adc_paths :: "adc_dev \<Rightarrow> adc_path set"
  voltage_threads :: "voltage_thread list"

datatype adc_event = ADC1_SAMPLES "u16 list" | ADC4_SAMPLES "u16 list" | ADC5_SAMPLES "u16 list"

fun adc_isr :: "board \<Rightarrow> adc_event \<Rightarrow> adc_samples_buffers \<Rightarrow> adc_samples_buffers" where
  "adc_isr b (ADC1_SAMPLES xs) = adc1_callback b xs"
| "adc_isr b (ADC4_SAMPLES xs) = (if b = Diamond then adc4_callback b xs else id)"
| "adc_isr b (ADC5_SAMPLES xs) = adc5_callback b xs"

definition adc_isrs :: "board \<Rightarrow> adc_event list \<Rightarrow> voltage \<Rightarrow> voltage" where
  "adc_isrs b evs s = s\<lparr>buffers := fold (adc_isr b) evs (buffers s)\<rparr>"

text \<open>The range check of \<^verbatim>\<open>app_assert.c\<close>; its other arguments are only logged.\<close>

definition app_assert_range :: "int \<Rightarrow> int \<Rightarrow> int \<Rightarrow> bool" where
  "app_assert_range x range_min range_max =
    (if range_min \<noteq> 0 \<or> range_max \<noteq> 0 then \<not> (x < range_min \<or> x > range_max) else True)"

fun voltage_measurement_tests :: "channel \<Rightarrow> int \<times> int" where
  "voltage_measurement_tests CHANNEL_VBAT_SW = (11880, 17000)"
| "voltage_measurement_tests CHANNEL_PVCC = (30590, 32430)"
| "voltage_measurement_tests CHANNEL_12V_CAPS = (11700, 12280)"
| "voltage_measurement_tests CHANNEL_3V3_UC = (3159, 3389)"
| "voltage_measurement_tests CHANNEL_1V8 = (1710, 1890)"
| "voltage_measurement_tests CHANNEL_3V3 = (3265, 3456)"
| "voltage_measurement_tests CHANNEL_5V = (5061, 5233)"
| "voltage_measurement_tests CHANNEL_VREFINT = (1182, 1232)"
| "voltage_measurement_tests _ = (0, 0)"

definition channel_in_range :: "channel \<Rightarrow> int \<Rightarrow> bool" where
  "channel_in_range c x = app_assert_range x (fst (voltage_measurement_tests c)) (snd (voltage_measurement_tests c))"

subsection \<open>Publication\<close>

text \<open>What the switch over the sources does: \<^verbatim>\<open>continue\<close>, choose a channel, or read a super capacitor.\<close>

datatype source_case = SKIP_SOURCE | USE_CHANNEL channel | USE_CAP_VOLTAGE nat | USE_CAP_DIFFERENTIAL nat

fun source_case_of :: "board \<Rightarrow> hw_version option \<Rightarrow> source \<Rightarrow> source_case" where
  "source_case_of b v VS_MAIN_MCU_INTERNAL = USE_CHANNEL CHANNEL_3V3_UC"
| "source_case_of b v VS_SECURITY_MCU_INTERNAL = SKIP_SOURCE"
| "source_case_of b v VS_SUPPLY_12V = (if b = Pearl then USE_CHANNEL CHANNEL_12V else SKIP_SOURCE)"
| "source_case_of b v VS_SUPPLY_5V = USE_CHANNEL CHANNEL_5V"
| "source_case_of b v VS_SUPPLY_3V8 =
    (if v \<noteq> None \<and> has_3v8 (the v) then USE_CHANNEL CHANNEL_3V3_SSD_3V8 else SKIP_SOURCE)"
| "source_case_of b v VS_SUPPLY_3V3 = USE_CHANNEL CHANNEL_3V3"
| "source_case_of b v VS_SUPPLY_1V8 = USE_CHANNEL CHANNEL_1V8"
| "source_case_of b v VS_VBAT = SKIP_SOURCE"
| "source_case_of b v VS_PVCC = USE_CHANNEL CHANNEL_PVCC"
| "source_case_of b v VS_CAPS_12V = USE_CHANNEL CHANNEL_12V_CAPS"
| "source_case_of b v VS_VBAT_SW = USE_CHANNEL CHANNEL_VBAT_SW"
| "source_case_of b v VS_SUPPLY_3V3_SSD =
    (if v \<noteq> None \<and> has_3v8 (the v) then SKIP_SOURCE else USE_CHANNEL CHANNEL_3V3_SSD_3V8)"
| "source_case_of Pearl v _ = SKIP_SOURCE"
| "source_case_of Diamond v VS_SUPPLY_3V3_WIFI = USE_CHANNEL CHANNEL_3V3_WIFI"
| "source_case_of Diamond v VS_SUPPLY_3V3_LTE = USE_CHANNEL CHANNEL_3V3_LTE"
| "source_case_of Diamond v VS_SUPPLY_3V6 = USE_CHANNEL CHANNEL_3V6"
| "source_case_of Diamond v VS_SUPPLY_1V2 = USE_CHANNEL CHANNEL_3V3_UC"
| "source_case_of Diamond v VS_SUPPLY_3V3_LDO = USE_CHANNEL CHANNEL_3V3_LDO"
| "source_case_of Diamond v VS_SUPPLY_2V8 = USE_CHANNEL CHANNEL_2V8"
| "source_case_of Diamond v VS_SUPPLY_1V8_SEC = USE_CHANNEL CHANNEL_1V8_SEC"
| "source_case_of Diamond v VS_SUPPLY_4V7_SEC = USE_CHANNEL CHANNEL_4V7_SEC"
| "source_case_of Diamond v VS_SUPPLY_17V_CAPS = USE_CAP_VOLTAGE 7"
| "source_case_of Diamond v (VS_SUPER_CAP i) = (if i < 8 then USE_CAP_DIFFERENTIAL i else SKIP_SOURCE)"
| "source_case_of Diamond v VS_OTHER = SKIP_SOURCE"

text \<open>The variables of \<^verbatim>\<open>publish_all_voltages\<close>, with the messages the Jetson was sent.\<close>

record publish_vars =
  pv_msg :: voltage_msg
  is_super_cap_channel :: bool
  at_least_one_publish_successful :: bool
  self_test_fail_count :: nat
  pv_sent :: "voltage_msg list"

definition set_cap_msg :: "int \<Rightarrow> publish_vars \<Rightarrow> publish_vars" where
  "set_cap_msg mv p =
    p\<lparr>pv_msg := (pv_msg p)\<lparr>voltage_current_mv := mv, voltage_min_mv := mv, voltage_max_mv := mv\<rparr>,
      is_super_cap_channel := True\<rparr>"

text \<open>The part of an iteration after the switch. \<open>ret\<close> is what \<^verbatim>\<open>publish_new\<close> returns for the source.\<close>

definition publish_measure ::
    "voltage_cfg \<Rightarrow> hw_version option \<Rightarrow> adc_samples_buffers \<Rightarrow> channel \<Rightarrow> publish_vars \<Rightarrow> ret_code_t \<times> publish_vars" where
  "publish_measure cfg v a c p =
    (if is_super_cap_channel p then (RET_SUCCESS, p)
     else case voltage_measurement_get_stats cfg v a (channel_index (vcfg_board cfg) c) of
       Inl err \<Rightarrow> (err, p)
     | Inr (cur, mn, mx) \<Rightarrow>
         let p1 = p\<lparr>pv_msg := (pv_msg p)\<lparr>voltage_current_mv := cur, voltage_min_mv := mn, voltage_max_mv := mx\<rparr>\<rparr>
         in (RET_SUCCESS,
             if (\<not> no_super_caps cfg \<or> c \<noteq> CHANNEL_PVCC) \<and> \<not> channel_in_range c cur
             then p1\<lparr>self_test_fail_count := self_test_fail_count p1 + 1\<rparr> else p1))"

definition publish_send :: "ret_code_t \<Rightarrow> publish_vars \<Rightarrow> publish_vars" where
  "publish_send ret p =
    (if ret = RET_SUCCESS
     then p\<lparr>at_least_one_publish_successful := True, pv_sent := pv_sent p @ [pv_msg p]\<rparr> else p)"

definition publish_measured ::
    "voltage_cfg \<Rightarrow> hw_version option \<Rightarrow> adc_samples_buffers \<Rightarrow> channel \<Rightarrow> ret_code_t \<Rightarrow> publish_vars \<Rightarrow> publish_vars" where
  "publish_measured cfg v a c published p =
    (let (ret, p1) = publish_measure cfg v a c p
     in if ret = RET_SUCCESS then publish_send published p1 else p1)"

definition publish_source ::
    "voltage_cfg \<Rightarrow> (source \<Rightarrow> ret_code_t) \<Rightarrow> voltage \<Rightarrow> adc_samples_buffers \<Rightarrow> source \<Rightarrow> publish_vars \<Rightarrow> publish_vars" where
  "publish_source cfg publish_new s a i p =
    (let p1 = p\<lparr>pv_msg := (pv_msg p)\<lparr>msg_source := i\<rparr>\<rparr>;
         measured = (\<lambda>c. publish_measured cfg (hardware_version s) a c (publish_new i))
     in case source_case_of (vcfg_board cfg) (hardware_version s) i of
          SKIP_SOURCE \<Rightarrow> p1
        | USE_CHANNEL c \<Rightarrow> measured c p1
        | USE_CAP_VOLTAGE k \<Rightarrow> measured CHANNEL_3V3_UC (set_cap_msg (super_cap_voltages_mv s ! k) p1)
        | USE_CAP_DIFFERENTIAL k \<Rightarrow> measured CHANNEL_3V3_UC (set_cap_msg (super_cap_differential_voltages s ! k) p1))"

definition publish_loop ::
    "voltage_cfg \<Rightarrow> (source \<Rightarrow> ret_code_t) \<Rightarrow> voltage \<Rightarrow> adc_samples_buffers \<Rightarrow> source list \<Rightarrow> publish_vars \<Rightarrow> publish_vars" where
  "publish_loop cfg publish_new s a srcs p = fold (publish_source cfg publish_new s a) srcs p"

definition publish_vars_start :: "voltage_msg \<Rightarrow> publish_vars" where
  "publish_vars_start m =
    \<lparr>pv_msg = m, is_super_cap_channel = False, at_least_one_publish_successful = False,
     self_test_fail_count = 0, pv_sent = []\<rparr>"

text \<open>\<open>evs\<close>: the interrupts while the messages are published.\<close>

definition publish_all_voltages ::
    "voltage_cfg \<Rightarrow> (source \<Rightarrow> ret_code_t) \<Rightarrow> adc_event list \<Rightarrow> voltage \<Rightarrow> voltage" where
  "publish_all_voltages cfg publish_new evs s =
    (let publish_adc_buffers = buffers s;
         s1 = s\<lparr>buffers := reset_statistics (buffers s)\<rparr>;
         p = publish_loop cfg publish_new s1 publish_adc_buffers (voltage_sources cfg) (publish_vars_start (last_msg s1));
         s2 = adc_isrs (vcfg_board cfg) evs
                (s1\<lparr>last_msg := pv_msg p, sent_voltages := sent_voltages s1 @ pv_sent p\<rparr>);
         s3 = (if at_least_one_publish_successful p then s2
               else s2\<lparr>buffers := update_min_max_from_adc_samples_buffer (buffers s2) publish_adc_buffers\<rparr>)
     in if self_test_fail_count p > 0
        then s3\<lparr>voltages_status := (RET_ERROR_INVALID_STATE, ''voltages not in range'', self_test_fail_count p)\<rparr>
        else s3\<lparr>voltages_status := (RET_SUCCESS, ''OK'', 0)\<rparr>)"

subsection \<open>Super capacitors\<close>

definition super_cap_scaling_factors :: "double list" where
  "super_cap_scaling_factors =
    [single_of_ratio 13333 10000, single_of_ratio 2818 1000, single_of_ratio 5343 1000, single_of_ratio 5343 1000,
     single_of_ratio 6757 1000, single_of_ratio 111 10, single_of_ratio 111 10, single_of_ratio 111 10]"

text \<open>
  One position of the multiplexer. \<open>evs mux\<close>: the interrupts while the thread sleeps with the
  multiplexer at \<open>mux\<close>.
\<close>

definition sample_mux_position :: "voltage_cfg \<Rightarrow> (bool \<times> bool \<Rightarrow> adc_event list) \<Rightarrow> nat \<Rightarrow> voltage \<Rightarrow> voltage" where
  "sample_mux_position cfg evs i s =
    (let mux_position = 4 - 1 - i;
         s1 = s\<lparr>mux_pins := (mux_position mod 2 \<noteq> 0, mux_position div 2 mod 2 \<noteq> 0)\<rparr>;
         s2 = adc_isrs (vcfg_board cfg) (evs (mux_pins s1)) s1;
         read = (\<lambda>c. raw_to_millivolts cfg 2048 (unat (raw (buffers s2) ! channel_index (vcfg_board cfg) c)))
     in s2\<lparr>super_cap_voltages_mv :=
          (super_cap_voltages_mv s2)
            [i := scale_mv (super_cap_scaling_factors ! i) (read CHANNEL_V_SCAP_LOW),
             i + 4 := scale_mv (super_cap_scaling_factors ! (i + 4)) (read CHANNEL_V_SCAP_HIGH)]\<rparr>)"

text \<open>\<open>lock\<close>: what locking the mutex with a timeout of 200 ms returns.\<close>

definition voltage_measurement_sample_switched_channels ::
    "voltage_cfg \<Rightarrow> int \<Rightarrow> (bool \<times> bool \<Rightarrow> adc_event list) \<Rightarrow> voltage \<Rightarrow> ret_code_t \<times> voltage" where
  "voltage_measurement_sample_switched_channels cfg lock evs s =
    (if lock = 0 then
       (let mux_store = mux_pins s;
            s1 = fold (sample_mux_position cfg evs) [0..<4] (s\<lparr>mux_enable := True\<rparr>)
        in (RET_SUCCESS, s1\<lparr>mux_enable := False, mux_pins := mux_store\<rparr>))
     else (RET_ERROR_INTERNAL, s))"

definition cap_differentials :: "int list \<Rightarrow> int list" where
  "cap_differentials mv = map (\<lambda>i. if i = 0 then mv ! 0 else mv ! i - mv ! (i - 1)) [0..<8]"

definition check_caps_voltages ::
    "voltage_cfg \<Rightarrow> int \<Rightarrow> (bool \<times> bool \<Rightarrow> adc_event list) \<Rightarrow> voltage \<Rightarrow> nat \<times> voltage" where
  "check_caps_voltages cfg lock evs s =
    (case vcfg_board cfg of
       Pearl \<Rightarrow> (0, s)
     | Diamond \<Rightarrow>
         let (ret, s1) = voltage_measurement_sample_switched_channels cfg lock evs s;
             diffs = (if ret = RET_SUCCESS then cap_differentials (super_cap_voltages_mv s1) else replicate 8 0);
             error_count =
               (if ret = RET_SUCCESS then length (filter (\<lambda>d. \<not> app_assert_range d 1500 2500) diffs) else 0);
             s2 = s1\<lparr>super_cap_differential_voltages := diffs\<rparr>
         in (error_count,
             if error_count > 0
             then s2\<lparr>supercaps_status := (RET_ERROR_INVALID_STATE, ''voltages out of range'', error_count)\<rparr>
             else s2\<lparr>supercaps_status := (RET_SUCCESS, ''voltages in range'', 0)\<rparr>))"

subsection \<open>Threads\<close>

text \<open>
  The inputs of one turn of the publish thread after it has slept: the mutex, the interrupts while
  the capacitors are sampled, what publishing returns and the interrupts meanwhile.
\<close>

record publish_turn =
  turn_lock :: int
  turn_mux_events :: "bool \<times> bool \<Rightarrow> adc_event list"
  turn_publish :: "source \<Rightarrow> ret_code_t"
  turn_events :: "adc_event list"

definition voltage_publish_turn :: "voltage_cfg \<Rightarrow> publish_turn \<Rightarrow> voltage \<Rightarrow> voltage" where
  "voltage_publish_turn cfg t s =
    publish_all_voltages cfg (turn_publish t) (turn_events t)
      (snd (check_caps_voltages cfg (turn_lock t) (turn_mux_events t) s))"

text \<open>How long the thread sleeps before a turn, \<open>None\<close> for ever (until it is woken up).\<close>

definition voltage_publish_sleep :: "voltage \<Rightarrow> nat option" where
  "voltage_publish_sleep s =
    (if voltages_publish_period_ms s = 0 then None else Some (voltages_publish_period_ms s))"

definition voltage_measurement_set_publish_period :: "nat \<Rightarrow> voltage \<Rightarrow> voltage" where
  "voltage_measurement_set_publish_period publish_period_ms s =
    s\<lparr>voltages_publish_period_ms := min publish_period_ms 60000 mod 65536\<rparr>"

text \<open>Inputs of the self test: interrupts of the first second, then of each iteration.\<close>

record self_test_inputs =
  st_first_events :: "adc_event list"
  st_lock :: "nat \<Rightarrow> int"
  st_mux_events :: "nat \<Rightarrow> bool \<times> bool \<Rightarrow> adc_event list"
  st_events :: "nat \<Rightarrow> adc_event list"

definition self_test_channel_fails :: "voltage_cfg \<Rightarrow> voltage \<Rightarrow> nat \<Rightarrow> bool" where
  "self_test_channel_fails cfg s i \<longleftrightarrow>
    (let c = voltage_channels (vcfg_board cfg) ! i in
     if no_super_caps cfg \<and> c = CHANNEL_PVCC then False
     else case voltage_measurement_get_stats cfg (hardware_version s) (buffers s) i of
       Inl _ \<Rightarrow> False
     | Inr (cur, _, _) \<Rightarrow> \<not> channel_in_range c cur)"

definition self_test_iteration ::
    "voltage_cfg \<Rightarrow> self_test_inputs \<Rightarrow> nat \<Rightarrow> nat \<times> voltage \<Rightarrow> nat \<times> voltage" where
  "self_test_iteration cfg inp k ps =
    (let (passed_loop_count, s) = ps;
         (caps, s1) = check_caps_voltages cfg (st_lock inp k) (st_mux_events inp k) s;
         fail_count = caps + length (filter (self_test_channel_fails cfg s1) [0..<NUMBER_OF_CHANNELS (vcfg_board cfg)]);
         s2 = s1\<lparr>buffers := reset_statistics (buffers s1)\<rparr>
     in (if fail_count = 0 then passed_loop_count + 1 else passed_loop_count - 1,
         adc_isrs (vcfg_board cfg) (st_events inp k) s2))"

text \<open>The loop condition reads \<^verbatim>\<open>timeout--\<close> only when the test has not passed yet.\<close>

function self_test_loop ::
    "voltage_cfg \<Rightarrow> self_test_inputs \<Rightarrow> nat \<Rightarrow> u32 \<Rightarrow> nat \<times> voltage \<Rightarrow> u32 \<times> nat \<times> voltage" where
  "self_test_loop cfg inp k timeout ps =
    (if fst ps < 2 then
       (if timeout = 0 then (timeout - 1, ps)
        else self_test_loop cfg inp (k + 1) (timeout - 1) (self_test_iteration cfg inp k ps))
     else (timeout, ps))"
  by auto
termination
  by (relation "measure (\<lambda>(_, _, _, timeout, _). unat timeout)") (auto simp: measure_unat)

declare self_test_loop.simps [simp del]

definition self_test_start :: "voltage_cfg \<Rightarrow> self_test_inputs \<Rightarrow> voltage \<Rightarrow> nat \<times> voltage" where
  "self_test_start cfg inp s =
    (0, adc_isrs (vcfg_board cfg) (st_first_events inp) (s\<lparr>buffers := reset_statistics (buffers s)\<rparr>))"

definition voltage_measurement_self_test_thread :: "voltage_cfg \<Rightarrow> self_test_inputs \<Rightarrow> voltage \<Rightarrow> voltage" where
  "voltage_measurement_self_test_thread cfg inp s =
    (let (timeout, passed_loop_count, s1) = self_test_loop cfg inp 0 5 (self_test_start cfg inp s)
     in if timeout = 0 then s1\<lparr>voltages_status := (RET_ERROR_TIMEOUT, ''self-test failed'', 5)\<rparr>
        else if passed_loop_count = 2
        then s1\<lparr>voltages_status := (RET_SUCCESS, ''self-test passed'', passed_loop_count)\<rparr>
        else s1)"

text \<open>\<open>join\<close>: what \<^verbatim>\<open>k_thread_join\<close> returns for the previous self test.\<close>

definition voltage_measurement_selftest :: "int \<Rightarrow> voltage \<Rightarrow> ret_code_t \<times> voltage" where
  "voltage_measurement_selftest join s =
    (if \<not> initialized_once s \<or> join = 0
     then (RET_SUCCESS, s\<lparr>voltage_threads := voltage_threads s @ [THREAD_SELF_TEST]\<rparr>)
     else (RET_ERROR_INVALID_STATE, s))"

subsection \<open>Initialization\<close>

text \<open>
  \<open>conf\<close>, \<open>pin\<close>: what configuring and setting the enable pin return; \<open>dev_ready\<close> and \<open>setup\<close>:
  whether a channel's controller is ready and what setting it up returns; \<open>evs\<close>: the interrupts
  of the first two sampling periods.
\<close>

record voltage_init_inputs =
  vi_conf :: int
  vi_pin :: int
  vi_dev_ready :: "adc_dev \<Rightarrow> bool"
  vi_setup :: "nat \<Rightarrow> int"
  vi_v6_3d :: bool
  vi_events :: "adc_event list"

fun setup_channels :: "voltage_init_inputs \<Rightarrow> nat \<Rightarrow> (adc_dev \<times> nat) list \<Rightarrow> ret_code_t" where
  "setup_channels inp i [] = RET_SUCCESS"
| "setup_channels inp i ((dev, ch) # rest) =
    (if \<not> vi_dev_ready inp dev then RET_ERROR_INTERNAL
     else if vi_setup inp i < 0 then RET_ERROR_INTERNAL
     else setup_channels inp (i + 1) rest)"

definition voltage_measurement_init ::
    "voltage_cfg \<Rightarrow> hw_version option \<Rightarrow> voltage_init_inputs \<Rightarrow> voltage \<Rightarrow> int \<times> voltage" where
  "voltage_measurement_init cfg v inp s =
    (let b = vcfg_board cfg;
         s1 = s\<lparr>hardware_version := v, buffers := reset_statistics (buffers s)\<rparr>
     in if vi_conf inp \<noteq> 0 then (vi_conf inp, s1)
        else if vi_pin inp \<noteq> 0 then (vi_pin inp, s1)
        else
          (let s2 = s1\<lparr>meas_enabled := True\<rparr>; ret = setup_channels inp 0 (adc_channels b)
           in if ret \<noteq> RET_SUCCESS then (rc ret, s2)
              else
                (let paths = adc_paths s2;
                     s3 = s2\<lparr>adc_paths := paths(ADC_1 := paths ADC_1 \<union> {PATH_TEMPSENSOR, PATH_VBAT},
                                               ADC_5 := paths ADC_5 \<union> {PATH_VREFINT})\<rparr>;
                     s4 = (if b = Diamond \<and> vi_v6_3d inp then s3\<lparr>mux_dvt := True\<rparr> else s3);
                     s5 = s4\<lparr>voltage_threads := voltage_threads s4 @ [THREAD_ADC1] @
                              (if b = Diamond then [THREAD_ADC4] else []) @ [THREAD_ADC5]\<rparr>;
                     s6 = adc_isrs b (vi_events inp) s5
                 in (0, s6\<lparr>voltage_threads := voltage_threads s6 @ [THREAD_PUBLISH]\<rparr>))))"

subsection \<open>Statistics\<close>

definition buffers_ok :: "board \<Rightarrow> adc_samples_buffers \<Rightarrow> bool" where
  "buffers_ok b a \<longleftrightarrow> length (raw a) = NUMBER_OF_CHANNELS b \<and> length (raw_min a) = NUMBER_OF_CHANNELS b \<and>
    length (raw_max a) = NUMBER_OF_CHANNELS b"

text \<open>Every sampled channel has its own place in the buffer of its converter, and its name.\<close>

fun adc_event_ok :: "board \<Rightarrow> adc_event \<Rightarrow> bool" where
  "adc_event_ok b (ADC1_SAMPLES xs) \<longleftrightarrow> length xs = NUMBER_OF_CHANNELS_ADC_1 b"
| "adc_event_ok b (ADC4_SAMPLES xs) \<longleftrightarrow> length xs = NUMBER_OF_CHANNELS_ADC_4 b"
| "adc_event_ok b (ADC5_SAMPLES xs) \<longleftrightarrow> length xs = NUMBER_OF_CHANNELS_ADC_5 b"

lemma channel_counts:
  "length (voltage_channels b) = NUMBER_OF_CHANNELS b" "length (adc_channels b) = NUMBER_OF_CHANNELS b"
  by (cases b; simp add: NUMBER_OF_CHANNELS_def)+

lemma voltage_channel_index: "c \<in> set (voltage_channels b) \<Longrightarrow> channel_index b c < NUMBER_OF_CHANNELS b"
  by (cases b) (auto simp: channel_index_def NUMBER_OF_CHANNELS_def)

text \<open>The value an interrupt brings for a channel, and the values a list of interrupts brings.\<close>

fun adc_event_sample :: "board \<Rightarrow> nat \<Rightarrow> adc_event \<Rightarrow> u16 option" where
  "adc_event_sample b i (ADC1_SAMPLES xs) = (if i < NUMBER_OF_CHANNELS_ADC_1 b then Some (xs ! i) else None)"
| "adc_event_sample b i (ADC4_SAMPLES xs) =
    (if NUMBER_OF_CHANNELS_ADC_1 b \<le> i \<and> i < NUMBER_OF_CHANNELS_ADC_1 b + NUMBER_OF_CHANNELS_ADC_4 b
     then Some (xs ! (i - NUMBER_OF_CHANNELS_ADC_1 b)) else None)"
| "adc_event_sample b i (ADC5_SAMPLES xs) =
    (if NUMBER_OF_CHANNELS_ADC_1 b + NUMBER_OF_CHANNELS_ADC_4 b \<le> i
     then Some (xs ! (i - (NUMBER_OF_CHANNELS_ADC_1 b + NUMBER_OF_CHANNELS_ADC_4 b))) else None)"

definition channel_samples :: "board \<Rightarrow> nat \<Rightarrow> adc_event list \<Rightarrow> u16 list" where
  "channel_samples b i evs = List.map_filter (adc_event_sample b i) evs"

lemma channel_samples_simps [simp]:
  "channel_samples b i [] = []"
  "channel_samples b i (evs @ evs') = channel_samples b i evs @ channel_samples b i evs'"
  "channel_samples b i (e # evs) = (case adc_event_sample b i e of None \<Rightarrow> [] | Some x \<Rightarrow> [x]) @ channel_samples b i evs"
  by (simp_all add: channel_samples_def map_filter_def split: option.splits)

definition smallest :: "u16 list \<Rightarrow> u16" where "smallest xs = fold min xs 0xFFFF"
definition largest :: "u16 list \<Rightarrow> u16" where "largest xs = fold max xs 0"

text \<open>The statistics of every channel are those of the samples in \<open>evs\<close>.\<close>

definition tracks :: "board \<Rightarrow> adc_event list \<Rightarrow> adc_samples_buffers \<Rightarrow> bool" where
  "tracks b evs a \<longleftrightarrow> buffers_ok b a \<and>
    (\<forall>i < NUMBER_OF_CHANNELS b. raw_min a ! i = smallest (channel_samples b i evs) \<and>
      raw_max a ! i = largest (channel_samples b i evs))"

lemma u16_le_max: "(x :: u16) \<le> 0xFFFF"
  using unsigned_less [of x, where 'a = nat] by (simp add: word_le_nat_alt)

lemma min_u16_max [simp]: "min x 0xFFFF = (x :: u16)" "min 0xFFFF x = (x :: u16)"
  by (simp_all add: min_absorb1 min_absorb2 u16_le_max)

lemma fold_min_eq: "fold min xs (x :: u16) = min x (smallest xs)"
proof (induction xs arbitrary: x)
  case (Cons y xs)
  show ?case using Cons [of "min y x"] Cons [of "min y 0xFFFF"]
    by (simp add: smallest_def min_absorb1 u16_le_max ac_simps)
qed (simp add: smallest_def min_absorb1 u16_le_max)

lemma fold_max_eq: "fold max xs (x :: u16) = max x (largest xs)"
proof (induction xs arbitrary: x)
  case (Cons y xs)
  show ?case using Cons [of "max y x"] Cons [of "max y 0"]
    by (simp add: largest_def max_absorb1 ac_simps)
qed (simp add: largest_def max_absorb1)

lemma extremes_append [simp]:
  "smallest (xs @ ys) = min (smallest xs) (smallest ys)" "largest (xs @ ys) = max (largest xs) (largest ys)"
  by (simp_all add: smallest_def [of "xs @ ys"] largest_def [of "xs @ ys"] fold_min_eq fold_max_eq
      min_absorb2 max_absorb2 u16_le_max)

lemma extremes_simps [simp]:
  "smallest [] = 0xFFFF" "largest [] = 0" "smallest (x # xs) = min x (smallest xs)" "largest (x # xs) = max x (largest xs)"
  by (simp_all add: smallest_def [of "x # xs"] largest_def [of "x # xs"] smallest_def [of "[]"] largest_def [of "[]"]
      fold_min_eq fold_max_eq min_absorb1 u16_le_max max_absorb1)

lemma extremes_member: "x \<in> set xs \<Longrightarrow> smallest xs \<le> x \<and> x \<le> largest xs"
proof -
  assume "x \<in> set xs"
  then obtain ys zs where "xs = ys @ x # zs" by (metis in_set_conv_decomp)
  then show ?thesis by (simp add: min.coboundedI2 max.coboundedI2)
qed

lemma adc_track_step:
  assumes "i < length (raw_min a)" "i < length (raw_max a)"
  shows "raw (adc_track i a) = raw a" "length (raw_min (adc_track i a)) = length (raw_min a)"
    "length (raw_max (adc_track i a)) = length (raw_max a)"
    "raw_min (adc_track i a) ! j = (if j = i then min (raw_min a ! j) (raw a ! j) else raw_min a ! j)"
    "raw_max (adc_track i a) ! j = (if j = i then max (raw_max a ! j) (raw a ! j) else raw_max a ! j)"
  using assms by (auto simp: adc_track_def Let_def min_def max_def nth_list_update)

lemma adc_track_fold:
  assumes "list_all (\<lambda>i. i < length (raw_min a) \<and> i < length (raw_max a)) is"
  shows "raw (fold adc_track is a) = raw a \<and> length (raw_min (fold adc_track is a)) = length (raw_min a) \<and>
    length (raw_max (fold adc_track is a)) = length (raw_max a) \<and>
    raw_min (fold adc_track is a) ! j = (if j \<in> set is then min (raw_min a ! j) (raw a ! j) else raw_min a ! j) \<and>
    raw_max (fold adc_track is a) ! j = (if j \<in> set is then max (raw_max a ! j) (raw a ! j) else raw_max a ! j)"
  using assms
proof (induction "is" arbitrary: a)
  case (Cons i "is")
  note step = adc_track_step [of i a]
  have "i < length (raw_min a)" "i < length (raw_max a)" using Cons.prems by simp_all
  moreover have "list_all (\<lambda>k. k < length (raw_min (adc_track i a)) \<and> k < length (raw_max (adc_track i a))) is"
    using Cons.prems step by simp
  ultimately show ?case using Cons.IH [of "adc_track i a"] step by (auto simp: min_def max_def)
qed simp

lemma adc_callback_effect:
  assumes "buffers_ok b a" "off + n \<le> NUMBER_OF_CHANNELS b" "length xs = n" "j < NUMBER_OF_CHANNELS b"
  shows "buffers_ok b (adc_callback off n xs a)"
    "raw (adc_callback off n xs a) ! j = (if off \<le> j \<and> j < off + n then xs ! (j - off) else raw a ! j)"
    "raw_min (adc_callback off n xs a) ! j =
      (if off \<le> j \<and> j < off + n then min (raw_min a ! j) (xs ! (j - off)) else raw_min a ! j)"
    "raw_max (adc_callback off n xs a) ! j =
      (if off \<le> j \<and> j < off + n then max (raw_max a ! j) (xs ! (j - off)) else raw_max a ! j)"
proof -
  let ?a = "a\<lparr>raw := mem_put off xs (raw a)\<rparr>"
  have ok: "list_all (\<lambda>i. i < length (raw_min ?a) \<and> i < length (raw_max ?a)) [off..<off + n]"
    using assms(1,2) by (auto simp: buffers_ok_def list_all_iff)
  have nth: "mem_put off xs (raw a) ! j = (if off \<le> j \<and> j < off + n then xs ! (j - off) else raw a ! j)"
    using assms by (auto simp: mem_put_def buffers_ok_def nth_append)
  have len: "length (mem_put off xs (raw a)) = length (raw a)"
    using assms(1-3) by (intro length_mem_put) (simp add: buffers_ok_def)
  note eff = adc_track_fold [OF ok]
  show "buffers_ok b (adc_callback off n xs a)"
    using assms(1) len by (simp add: buffers_ok_def adc_callback_def eff)
  show "raw (adc_callback off n xs a) ! j = (if off \<le> j \<and> j < off + n then xs ! (j - off) else raw a ! j)"
    by (simp add: adc_callback_def eff nth)
  show "raw_min (adc_callback off n xs a) ! j =
      (if off \<le> j \<and> j < off + n then min (raw_min a ! j) (xs ! (j - off)) else raw_min a ! j)"
    by (simp add: adc_callback_def eff nth)
  show "raw_max (adc_callback off n xs a) ! j =
      (if off \<le> j \<and> j < off + n then max (raw_max a ! j) (xs ! (j - off)) else raw_max a ! j)"
    by (simp add: adc_callback_def eff nth)
qed

lemma adc_isr_effect:
  assumes "buffers_ok b a" "adc_event_ok b e" "j < NUMBER_OF_CHANNELS b"
  shows "buffers_ok b (adc_isr b e a)"
    "raw (adc_isr b e a) ! j = (case adc_event_sample b j e of None \<Rightarrow> raw a ! j | Some x \<Rightarrow> x)"
    "raw_min (adc_isr b e a) ! j = (case adc_event_sample b j e of None \<Rightarrow> raw_min a ! j | Some x \<Rightarrow> min (raw_min a ! j) x)"
    "raw_max (adc_isr b e a) ! j = (case adc_event_sample b j e of None \<Rightarrow> raw_max a ! j | Some x \<Rightarrow> max (raw_max a ! j) x)"
proof -
  have n: "NUMBER_OF_CHANNELS_ADC_1 b + NUMBER_OF_CHANNELS_ADC_4 b + NUMBER_OF_CHANNELS_ADC_5 b = NUMBER_OF_CHANNELS b"
    by (simp add: NUMBER_OF_CHANNELS_def)
  note eff = adc_callback_effect [OF assms(1) _ _ assms(3)]
  have "buffers_ok b (adc_isr b e a) \<and>
    raw (adc_isr b e a) ! j = (case adc_event_sample b j e of None \<Rightarrow> raw a ! j | Some x \<Rightarrow> x) \<and>
    raw_min (adc_isr b e a) ! j = (case adc_event_sample b j e of None \<Rightarrow> raw_min a ! j | Some x \<Rightarrow> min (raw_min a ! j) x) \<and>
    raw_max (adc_isr b e a) ! j = (case adc_event_sample b j e of None \<Rightarrow> raw_max a ! j | Some x \<Rightarrow> max (raw_max a ! j) x)"
  proof (cases e)
    case (ADC1_SAMPLES xs)
    then show ?thesis using eff [of 0 "NUMBER_OF_CHANNELS_ADC_1 b" xs] assms(2) n by (simp add: adc1_callback_def)
  next
    case (ADC4_SAMPLES xs)
    then show ?thesis
      using eff [of "NUMBER_OF_CHANNELS_ADC_1 b" "NUMBER_OF_CHANNELS_ADC_4 b" xs] assms(1,2) n
      by (cases b) (auto simp: adc4_callback_def)
  next
    case (ADC5_SAMPLES xs)
    then show ?thesis
      using eff [of "NUMBER_OF_CHANNELS_ADC_1 b + NUMBER_OF_CHANNELS_ADC_4 b" "NUMBER_OF_CHANNELS_ADC_5 b" xs]
        assms(2,3) n by (simp add: adc5_callback_def)
  qed
  then show "buffers_ok b (adc_isr b e a)"
    "raw (adc_isr b e a) ! j = (case adc_event_sample b j e of None \<Rightarrow> raw a ! j | Some x \<Rightarrow> x)"
    "raw_min (adc_isr b e a) ! j = (case adc_event_sample b j e of None \<Rightarrow> raw_min a ! j | Some x \<Rightarrow> min (raw_min a ! j) x)"
    "raw_max (adc_isr b e a) ! j = (case adc_event_sample b j e of None \<Rightarrow> raw_max a ! j | Some x \<Rightarrow> max (raw_max a ! j) x)"
    by blast+
qed

lemma adc_isrs_ok:
  assumes "buffers_ok b a" "list_all (adc_event_ok b) evs"
  shows "buffers_ok b (fold (adc_isr b) evs a)"
  using assms
proof (induction evs arbitrary: a)
  case (Cons e evs)
  then show ?case using adc_isr_effect(1) [of b a e 0] by (cases b) (simp_all add: NUMBER_OF_CHANNELS_def)
qed simp

text \<open>Interrupts add their samples to the statistics.\<close>

lemma tracks_isrs:
  assumes "tracks b evs a" "list_all (adc_event_ok b) evs'"
  shows "tracks b (evs @ evs') (fold (adc_isr b) evs' a)"
  using assms
proof (induction evs' arbitrary: evs a)
  case (Cons e evs')
  have ok: "buffers_ok b a" "adc_event_ok b e" using Cons.prems by (simp_all add: tracks_def)
  have "tracks b (evs @ [e]) (adc_isr b e a)"
    using Cons.prems(1) adc_isr_effect [OF ok] adc_isrs_ok [of b a "[e]"] ok
    by (auto simp: tracks_def split: option.splits)
  then show ?case using Cons.IH [of "evs @ [e]" "adc_isr b e a"] Cons.prems(2) by simp
qed simp

lemma tracks_reset: "buffers_ok b a \<Longrightarrow> tracks b [] (reset_statistics a)"
  by (simp add: tracks_def buffers_ok_def reset_statistics_def)

text \<open>Merging gives the statistics of both buffers.\<close>

lemma update_min_max_fold:
  assumes "list_all (\<lambda>i. i < length (raw_min a) \<and> i < length (raw_max a)) is"
  shows "(\<lambda>a'. raw a' = raw a \<and> length (raw_min a') = length (raw_min a) \<and> length (raw_max a') = length (raw_max a) \<and>
      raw_min a' ! j = (if j \<in> set is then min (raw_min a ! j) (raw_min inp ! j) else raw_min a ! j) \<and>
      raw_max a' ! j = (if j \<in> set is then max (raw_max a ! j) (raw_max inp ! j) else raw_max a ! j))
    (fold (\<lambda>i a.
      let a1 = (if raw_min inp ! i < raw_min a ! i then a\<lparr>raw_min := (raw_min a)[i := raw_min inp ! i]\<rparr> else a)
      in if raw_max inp ! i > raw_max a1 ! i then a1\<lparr>raw_max := (raw_max a1)[i := raw_max inp ! i]\<rparr> else a1) is a)"
  using assms
proof (induction "is" arbitrary: a)
  case (Cons i "is")
  let ?u = "\<lambda>a. let a1 = (if raw_min inp ! i < raw_min a ! i then a\<lparr>raw_min := (raw_min a)[i := raw_min inp ! i]\<rparr> else a)
      in if raw_max inp ! i > raw_max a1 ! i then a1\<lparr>raw_max := (raw_max a1)[i := raw_max inp ! i]\<rparr> else a1"
  have step: "raw (?u a) = raw a" "length (raw_min (?u a)) = length (raw_min a)" "length (raw_max (?u a)) = length (raw_max a)"
    "raw_min (?u a) ! j = (if j = i then min (raw_min a ! j) (raw_min inp ! j) else raw_min a ! j)"
    "raw_max (?u a) ! j = (if j = i then max (raw_max a ! j) (raw_max inp ! j) else raw_max a ! j)"
    using Cons.prems by (auto simp: Let_def min_def max_def nth_list_update)
  have "list_all (\<lambda>k. k < length (raw_min (?u a)) \<and> k < length (raw_max (?u a))) is"
    using Cons.prems unfolding step by simp
  then show ?case using Cons.IH [of "?u a"] unfolding fold.simps comp_def step by (auto simp: min_def max_def)
qed simp

lemma tracks_update:
  assumes "tracks b evs a" "tracks b evs' inp"
  shows "tracks b (evs' @ evs) (update_min_max_from_adc_samples_buffer a inp)"
proof -
  have "list_all (\<lambda>i. i < length (raw_min a) \<and> i < length (raw_max a)) [0..<length (raw_min a)]"
    using assms(1) by (auto simp: tracks_def buffers_ok_def list_all_iff)
  note eff = update_min_max_fold [OF this, where inp = inp, folded update_min_max_from_adc_samples_buffer_def]
  show ?thesis using assms eff by (auto simp: tracks_def buffers_ok_def min.commute max.commute)
qed

subsection \<open>Runs\<close>

text \<open>
  What happens to the statistics: an interrupt, a turn of the publish thread, a reset by the self
  test. \<open>voltage_run\<close> runs them and keeps the interrupts whose samples the statistics must
  cover: those since the last reset or since the last turn in which a message was sent.
\<close>

datatype voltage_op = VO_IRQ adc_event | VO_TURN publish_turn | VO_RESET

definition turn_cap_events :: "voltage_cfg \<Rightarrow> publish_turn \<Rightarrow> adc_event list" where
  "turn_cap_events cfg t =
    (if vcfg_board cfg = Diamond \<and> turn_lock t = 0
     then turn_mux_events t (True, True) @ turn_mux_events t (False, True) @
       turn_mux_events t (True, False) @ turn_mux_events t (False, False)
     else [])"

fun voltage_op_step :: "voltage_cfg \<Rightarrow> voltage_op \<Rightarrow> voltage \<times> adc_event list \<Rightarrow> voltage \<times> adc_event list" where
  "voltage_op_step cfg (VO_IRQ e) (s, evs) = (adc_isrs (vcfg_board cfg) [e] s, evs @ [e])"
| "voltage_op_step cfg (VO_TURN t) (s, evs) =
    (let s' = voltage_publish_turn cfg t s
     in (s', if length (sent_voltages s) < length (sent_voltages s') then turn_events t
             else evs @ turn_cap_events cfg t @ turn_events t))"
| "voltage_op_step cfg VO_RESET (s, evs) = (s\<lparr>buffers := reset_statistics (buffers s)\<rparr>, [])"

definition voltage_run :: "voltage_cfg \<Rightarrow> voltage_op list \<Rightarrow> voltage \<Rightarrow> voltage \<times> adc_event list" where
  "voltage_run cfg ops s = fold (voltage_op_step cfg) ops (s, [])"

fun voltage_op_ok :: "board \<Rightarrow> voltage_op \<Rightarrow> bool" where
  "voltage_op_ok b (VO_IRQ e) \<longleftrightarrow> adc_event_ok b e"
| "voltage_op_ok b (VO_TURN t) \<longleftrightarrow>
    list_all (\<lambda>mux. list_all (adc_event_ok b) (turn_mux_events t mux)) [(True, True), (False, True), (True, False), (False, False)] \<and>
    list_all (adc_event_ok b) (turn_events t)"
| "voltage_op_ok b VO_RESET \<longleftrightarrow> True"

lemma check_caps_buffers:
  "buffers (snd (check_caps_voltages cfg lock evs s)) =
    (if vcfg_board cfg = Diamond \<and> lock = 0
     then fold (adc_isr Diamond) (evs (True, True) @ evs (False, True) @ evs (True, False) @ evs (False, False)) (buffers s)
     else buffers s)"
  "sent_voltages (snd (check_caps_voltages cfg lock evs s)) = sent_voltages s"
  by (cases "vcfg_board cfg"; simp add: check_caps_voltages_def voltage_measurement_sample_switched_channels_def
      sample_mux_position_def adc_isrs_def Let_def upt_rec split: prod.splits)+

lemma publish_source_sent:
  "at_least_one_publish_successful p \<longleftrightarrow> pv_sent p \<noteq> [] \<Longrightarrow>
    at_least_one_publish_successful (publish_source cfg pub s a i p) \<longleftrightarrow> pv_sent (publish_source cfg pub s a i p) \<noteq> []"
  by (auto simp: publish_source_def publish_measured_def publish_measure_def publish_send_def set_cap_msg_def Let_def
      split: source_case.splits sum.splits prod.splits if_splits)

lemma publish_loop_sent:
  "at_least_one_publish_successful p \<longleftrightarrow> pv_sent p \<noteq> [] \<Longrightarrow>
    at_least_one_publish_successful (publish_loop cfg pub s a srcs p) \<longleftrightarrow> pv_sent (publish_loop cfg pub s a srcs p) \<noteq> []"
  unfolding publish_loop_def by (induction srcs arbitrary: p) (simp_all add: publish_source_sent)

lemma publish_all_stats:
  assumes "tracks (vcfg_board cfg) evs (buffers s)" "list_all (adc_event_ok (vcfg_board cfg)) evs'"
  shows "tracks (vcfg_board cfg)
    (if length (sent_voltages s) < length (sent_voltages (publish_all_voltages cfg pub evs' s)) then evs' else evs @ evs')
    (buffers (publish_all_voltages cfg pub evs' s))"
proof -
  let ?b = "vcfg_board cfg" and ?s1 = "s\<lparr>buffers := reset_statistics (buffers s)\<rparr>"
  define p where "p = publish_loop cfg pub ?s1 (buffers s) (voltage_sources cfg) (publish_vars_start (last_msg s))"
  let ?a = "fold (adc_isr ?b) evs' (reset_statistics (buffers s))"
  have sent: "sent_voltages (publish_all_voltages cfg pub evs' s) = sent_voltages s @ pv_sent p"
    and bufs: "buffers (publish_all_voltages cfg pub evs' s) =
      (if at_least_one_publish_successful p then ?a else update_min_max_from_adc_samples_buffer ?a (buffers s))"
    by (simp_all add: publish_all_voltages_def Let_def p_def adc_isrs_def)
  have "at_least_one_publish_successful p \<longleftrightarrow> pv_sent p \<noteq> []"
    unfolding p_def by (rule publish_loop_sent) (simp add: publish_vars_start_def)
  moreover have fresh: "tracks ?b evs' ?a"
    using tracks_isrs [OF tracks_reset, of ?b "buffers s" evs'] assms by (simp add: tracks_def)
  ultimately show ?thesis using tracks_update [OF fresh assms(1)] by (simp add: sent bufs)
qed

lemma voltage_op_stats:
  assumes "tracks (vcfg_board cfg) evs (buffers s)" "voltage_op_ok (vcfg_board cfg) x"
    "voltage_op_step cfg x (s, evs) = (s', evs')"
  shows "tracks (vcfg_board cfg) evs' (buffers s')"
proof (cases x)
  case (VO_IRQ e)
  then show ?thesis using assms tracks_isrs [of "vcfg_board cfg" evs "buffers s" "[e]"] by (auto simp: adc_isrs_def)
next
  case (VO_TURN t)
  let ?s1 = "snd (check_caps_voltages cfg (turn_lock t) (turn_mux_events t) s)"
  have "tracks (vcfg_board cfg) (evs @ turn_cap_events cfg t) (buffers ?s1)"
  proof -
    have "list_all (adc_event_ok (vcfg_board cfg)) (turn_cap_events cfg t)"
      using assms(2) by (auto simp: VO_TURN turn_cap_events_def)
    moreover have "buffers ?s1 = fold (adc_isr (vcfg_board cfg)) (turn_cap_events cfg t) (buffers s)"
      by (simp add: check_caps_buffers turn_cap_events_def)
    ultimately show ?thesis using tracks_isrs [OF assms(1)] by simp
  qed
  from publish_all_stats [OF this, of "turn_events t" "turn_publish t"] show ?thesis using assms(2,3)
    by (auto simp: VO_TURN voltage_publish_turn_def Let_def check_caps_buffers(2))
next
  case VO_RESET
  then show ?thesis using assms tracks_reset [of "vcfg_board cfg" "buffers s"] by (auto simp: tracks_def)
qed

text \<open>
  C28. No extreme value is lost: whatever interrupts, publications and self tests come after the
  start of the publish thread, the smallest and largest value of every channel are exactly those
  of the samples since the last reset or the last publication in which a message was sent. A
  publication in which every message fails keeps them, together with the samples that arrive
  while it runs.
\<close>

theorem voltage_statistics_kept:
  assumes "buffers_ok (vcfg_board cfg) (buffers s)" "list_all (voltage_op_ok (vcfg_board cfg)) ops"
  shows "tracks (vcfg_board cfg) (snd (voltage_run cfg ops (s\<lparr>buffers := reset_statistics (buffers s)\<rparr>)))
    (buffers (fst (voltage_run cfg ops (s\<lparr>buffers := reset_statistics (buffers s)\<rparr>))))"
proof -
  have "tracks (vcfg_board cfg) (snd (fold (voltage_op_step cfg) ops (s, evs)))
      (buffers (fst (fold (voltage_op_step cfg) ops (s, evs))))"
    if "tracks (vcfg_board cfg) evs (buffers s)" for s evs
    using that assms(2)
  proof (induction ops arbitrary: s evs)
    case (Cons x ops)
    obtain s' evs' where x: "voltage_op_step cfg x (s, evs) = (s', evs')" by (cases "voltage_op_step cfg x (s, evs)")
    have "tracks (vcfg_board cfg) evs' (buffers s')"
      by (rule voltage_op_stats [OF Cons.prems(1) _ x]) (use Cons.prems(2) in simp)
    then show ?case using Cons.IH Cons.prems(2) by (simp add: x)
  qed simp
  then show ?thesis unfolding voltage_run_def using tracks_reset [OF assms(1)] by simp
qed

subsection \<open>Published values\<close>

text \<open>
  What the code relies on in \<^verbatim>\<open>adc_raw_to_millivolts\<close>: a larger raw value is not a smaller voltage.
\<close>

locale adc_conversion =
  fixes to_mv :: "nat \<Rightarrow> nat \<Rightarrow> nat"
  assumes to_mv_mono: "x \<le> y \<Longrightarrow> to_mv vref x \<le> to_mv vref y"
begin

lemma scaled_mono: "x \<le> y \<Longrightarrow> scale_mv sc (to_mv vref x) \<le> scale_mv sc (to_mv vref y)"
proof -
  assume "x \<le> y"
  then have "real (to_mv vref x) / real 1 \<le> real (to_mv vref y) / real 1" by (simp add: to_mv_mono)
  then have "double_real (single_of_ratio (to_mv vref x) 1) \<le> double_real (single_of_ratio (to_mv vref y) 1)"
    by (intro single_of_ratio_mono) simp_all
  then show ?thesis unfolding scale_mv_def of_nat_le_iff by (intro double_trunc_mono single_mult_mono)
qed

text \<open>A channel that has been sampled since the last reset is reported between its extremes.\<close>

lemma stats_ordered:
  assumes "raw_to_millivolts cfg = to_mv" "raw_min a ! ch \<le> raw a ! ch" "raw a ! ch \<le> raw_max a ! ch"
    "voltage_measurement_get_stats cfg v a ch = Inr (cur, mn, mx)"
  shows "mn \<le> cur \<and> cur \<le> mx"
  using assms(2-)
  by (auto simp: voltage_measurement_get_stats_def raw_to_scaled_mv_def Let_def word_le_nat_alt assms(1) scaled_mono
      split: if_splits)

end

text \<open>The conversion of the driver interface for a gain of 1 and 12 bits.\<close>

definition adc_raw_to_millivolts_12 :: "nat \<Rightarrow> nat \<Rightarrow> nat" where
  "adc_raw_to_millivolts_12 vref_mv x = x * vref_mv div 4096"

interpretation adc12: adc_conversion adc_raw_to_millivolts_12
  by unfold_locales (simp add: adc_raw_to_millivolts_12_def div_le_mono)

text \<open>The last sample of a channel is its current value.\<close>

lemma isrs_raw:
  assumes "buffers_ok b a" "list_all (adc_event_ok b) evs" "i < NUMBER_OF_CHANNELS b" "channel_samples b i evs \<noteq> []"
  shows "raw (fold (adc_isr b) evs a) ! i = last (channel_samples b i evs)"
  using assms(2,4)
proof (induction evs rule: rev_induct)
  case (snoc e evs)
  have "buffers_ok b (fold (adc_isr b) evs a)" using adc_isrs_ok [OF assms(1)] snoc.prems(1) by simp
  then show ?case
    using snoc adc_isr_effect(2) [of b "fold (adc_isr b) evs a" e i] assms(3)
    by (auto split: option.splits)
qed simp

definition msg_ordered :: "voltage_msg \<Rightarrow> bool" where
  "msg_ordered m \<longleftrightarrow> voltage_min_mv m \<le> voltage_current_mv m \<and> voltage_current_mv m \<le> voltage_max_mv m"

text \<open>What the loop over the sources keeps.\<close>

definition publish_ordered :: "publish_vars \<Rightarrow> bool" where
  "publish_ordered p \<longleftrightarrow>
    (is_super_cap_channel p \<longrightarrow> msg_ordered (pv_msg p)) \<and> list_all msg_ordered (pv_sent p)"

definition stats_sampled :: "board \<Rightarrow> adc_samples_buffers \<Rightarrow> bool" where
  "stats_sampled b a \<longleftrightarrow> (\<forall>i < NUMBER_OF_CHANNELS b. raw_min a ! i \<le> raw a ! i \<and> raw a ! i \<le> raw_max a ! i)"

lemma stats_sampled_after:
  assumes "buffers_ok b a" "list_all (adc_event_ok b) evs" "\<forall>i < NUMBER_OF_CHANNELS b. channel_samples b i evs \<noteq> []"
  shows "stats_sampled b (fold (adc_isr b) evs (reset_statistics a))"
proof -
  have ok: "buffers_ok b (reset_statistics a)" using tracks_reset [OF assms(1)] by (simp add: tracks_def)
  have "tracks b evs (fold (adc_isr b) evs (reset_statistics a))"
    using tracks_isrs [OF tracks_reset [OF assms(1)] assms(2)] by simp
  then show ?thesis using isrs_raw [OF ok assms(2)] assms(3) extremes_member [OF last_in_set]
    by (simp add: stats_sampled_def tracks_def)
qed

context adc_conversion
begin

lemma publish_measured_ordered:
  assumes "raw_to_millivolts cfg = to_mv" "stats_sampled (vcfg_board cfg) a" "publish_ordered p"
  shows "publish_ordered (publish_measured cfg v a c published p)"
proof (cases "is_super_cap_channel p")
  case True
  then show ?thesis using assms(3)
    by (auto simp: publish_measured_def publish_measure_def publish_send_def publish_ordered_def)
next
  case False
  show ?thesis
  proof (cases "voltage_measurement_get_stats cfg v a (channel_index (vcfg_board cfg) c)")
    case (Inl err)
    moreover have "err \<noteq> RET_SUCCESS" using Inl by (auto simp: voltage_measurement_get_stats_def split: if_splits)
    ultimately show ?thesis using False assms(3) by (simp add: publish_measured_def publish_measure_def)
  next
    case (Inr t)
    obtain cur mn mx where t: "t = (cur, mn, mx)" by (cases t)
    have "channel_index (vcfg_board cfg) c < NUMBER_OF_CHANNELS (vcfg_board cfg)"
      using Inr by (auto simp: voltage_measurement_get_stats_def split: if_splits)
    then have "mn \<le> cur \<and> cur \<le> mx"
      using stats_ordered [OF assms(1) _ _ Inr [unfolded t]] assms(2) by (simp add: stats_sampled_def)
    then show ?thesis using False assms(3) Inr
      by (auto simp: t publish_measured_def publish_measure_def publish_send_def publish_ordered_def msg_ordered_def Let_def)
  qed
qed

lemma publish_source_ordered:
  assumes "raw_to_millivolts cfg = to_mv" "stats_sampled (vcfg_board cfg) a" "publish_ordered p"
  shows "publish_ordered (publish_source cfg pub s a i p)"
proof -
  have "publish_ordered (p\<lparr>pv_msg := (pv_msg p)\<lparr>msg_source := i\<rparr>\<rparr>)"
    "publish_ordered (set_cap_msg mv (p\<lparr>pv_msg := (pv_msg p)\<lparr>msg_source := i\<rparr>\<rparr>))" for mv
    using assms(3) by (auto simp: publish_ordered_def msg_ordered_def set_cap_msg_def)
  then show ?thesis
    using publish_measured_ordered [OF assms(1,2)] by (simp add: publish_source_def Let_def split: source_case.splits)
qed

lemma publish_all_ordered:
  assumes "raw_to_millivolts cfg = to_mv" "stats_sampled (vcfg_board cfg) (buffers s)"
    "list_all msg_ordered (sent_voltages s)"
  shows "list_all msg_ordered (sent_voltages (publish_all_voltages cfg pub evs s))"
proof -
  have "publish_ordered (publish_loop cfg pub s' (buffers s) srcs p)" if "publish_ordered p" for s' srcs p
    unfolding publish_loop_def using that publish_source_ordered [OF assms(1,2)]
    by (induction srcs arbitrary: p) simp_all
  note this [of "publish_vars_start (last_msg s)" "s\<lparr>buffers := reset_statistics (buffers s)\<rparr>" "voltage_sources cfg"]
  moreover have "publish_ordered (publish_vars_start (last_msg s))"
    by (simp add: publish_ordered_def publish_vars_start_def)
  ultimately show ?thesis using assms(3)
    by (simp add: publish_all_voltages_def Let_def publish_ordered_def adc_isrs_def)
qed

end

text \<open>
  A published voltage lies between the published extremes: when every channel has been sampled
  since the statistics were reset, every message the publication sends has its current value
  between its smallest and its largest value, whatever the publication of the single messages
  returns and whatever interrupts come meanwhile. The conversion of raw values is monotone;
  the scaling in single precision keeps the order.
\<close>

theorem voltage_messages_ordered:
  assumes "adc_conversion (raw_to_millivolts cfg)" "buffers_ok (vcfg_board cfg) a"
    "list_all (adc_event_ok (vcfg_board cfg)) evs"
    "\<forall>i < NUMBER_OF_CHANNELS (vcfg_board cfg). channel_samples (vcfg_board cfg) i evs \<noteq> []"
    "buffers s = fold (adc_isr (vcfg_board cfg)) evs (reset_statistics a)" "sent_voltages s = []"
  shows "list_all msg_ordered (sent_voltages (publish_all_voltages cfg pub evs' s))"
  using adc_conversion.publish_all_ordered [OF assms(1) refl] stats_sampled_after [OF assms(2-4)] assms(5,6) by simp

text \<open>Once a super capacitor has been published, nothing but another one changes the values of the message.\<close>

definition super_cap_source :: "source \<Rightarrow> bool" where
  "super_cap_source i \<longleftrightarrow> i = VS_SUPPLY_17V_CAPS \<or> (\<exists>k < 8. i = VS_SUPER_CAP k)"

lemma publish_source_after_cap:
  assumes "vcfg_board cfg = Diamond" "is_super_cap_channel p" "\<not> super_cap_source i"
  shows "is_super_cap_channel (publish_source cfg pub s a i p)"
    "pv_msg (publish_source cfg pub s a i p) = (pv_msg p)\<lparr>msg_source := i\<rparr>"
  using assms
  by (cases i; auto simp: publish_source_def publish_measured_def publish_measure_def publish_send_def super_cap_source_def
      Let_def split: source_case.splits)+

lemma publish_loop_after_cap:
  assumes "vcfg_board cfg = Diamond" "is_super_cap_channel p" "list_all (\<lambda>i. \<not> super_cap_source i) srcs"
  shows "is_super_cap_channel (publish_loop cfg pub s a srcs p) \<and>
    (\<exists>i. pv_msg (publish_loop cfg pub s a srcs p) = (pv_msg p)\<lparr>msg_source := i\<rparr>)"
  using assms(2,3) unfolding publish_loop_def
proof (induction srcs arbitrary: p)
  case Nil
  then show ?case by (intro conjI exI [of _ "msg_source (pv_msg p)"]) simp_all
next
  case (Cons i srcs)
  then show ?case using publish_source_after_cap [OF assms(1), of p i pub s a]
    Cons.IH [of "publish_source cfg pub s a i p"] by auto
qed

lemma publish_source_cap:
  assumes "vcfg_board cfg = Diamond" "k < 8"
  shows "is_super_cap_channel (publish_source cfg pub s a (VS_SUPER_CAP k) p)"
    "pv_msg (publish_source cfg pub s a (VS_SUPER_CAP k) p) =
      \<lparr>msg_source = VS_SUPER_CAP k, voltage_current_mv = super_cap_differential_voltages s ! k,
       voltage_min_mv = super_cap_differential_voltages s ! k, voltage_max_mv = super_cap_differential_voltages s ! k\<rparr>"
  using assms
  by (simp_all add: publish_source_def publish_measured_def publish_measure_def publish_send_def set_cap_msg_def Let_def)

text \<open>
  The 3.3 V LDO is never measured on Diamond: it is the last source of the loop, the flag the
  super capacitors set is not cleared, and so the message for it carries the voltage of the last
  super capacitor before it as its current, smallest and largest value, whatever the converter
  has sampled.
\<close>

theorem ldo_publishes_super_cap:
  assumes "vcfg_board cfg = Diamond" "voltage_sources cfg = pre @ [VS_SUPER_CAP k] @ mid @ [VS_SUPPLY_3V3_LDO]"
    "k < 8" "list_all (\<lambda>i. \<not> super_cap_source i) mid" "pub VS_SUPPLY_3V3_LDO = RET_SUCCESS"
  shows "last (sent_voltages (publish_all_voltages cfg pub evs s)) =
    \<lparr>msg_source = VS_SUPPLY_3V3_LDO, voltage_current_mv = super_cap_differential_voltages s ! k,
     voltage_min_mv = super_cap_differential_voltages s ! k, voltage_max_mv = super_cap_differential_voltages s ! k\<rparr>"
proof -
  define s1 where "s1 = s\<lparr>buffers := reset_statistics (buffers s)\<rparr>"
  define p0 where "p0 = publish_loop cfg pub s1 (buffers s) pre (publish_vars_start (last_msg s))"
  define p1 where "p1 = publish_source cfg pub s1 (buffers s) (VS_SUPER_CAP k) p0"
  define p2 where "p2 = publish_loop cfg pub s1 (buffers s) mid p1"
  note p1 = publish_source_cap [OF assms(1,3), of pub s1 "buffers s" p0, folded p1_def]
  obtain i where p2: "is_super_cap_channel p2" "pv_msg p2 = (pv_msg p1)\<lparr>msg_source := i\<rparr>"
    using publish_loop_after_cap [OF assms(1) p1(1) assms(4), of pub s1 "buffers s"] by (auto simp: p2_def)
  have "publish_source cfg pub s1 (buffers s) VS_SUPPLY_3V3_LDO p2 =
      publish_send RET_SUCCESS (p2\<lparr>pv_msg := (pv_msg p2)\<lparr>msg_source := VS_SUPPLY_3V3_LDO\<rparr>\<rparr>)"
    using assms(1,5) p2(1) by (simp add: publish_source_def publish_measured_def publish_measure_def)
  then have "last (pv_sent (publish_source cfg pub s1 (buffers s) VS_SUPPLY_3V3_LDO p2)) =
      (pv_msg p1)\<lparr>msg_source := VS_SUPPLY_3V3_LDO\<rparr>"
    "pv_sent (publish_source cfg pub s1 (buffers s) VS_SUPPLY_3V3_LDO p2) \<noteq> []"
    by (simp_all add: publish_send_def p2(2))
  moreover have "publish_loop cfg pub s1 (buffers s) (voltage_sources cfg) (publish_vars_start (last_msg s)) =
      publish_source cfg pub s1 (buffers s) VS_SUPPLY_3V3_LDO p2"
    by (simp add: assms(2) publish_loop_def p2_def p1_def p0_def)
  ultimately show ?thesis
    by (simp add: publish_all_voltages_def Let_def adc_isrs_def s1_def [symmetric] p1(2)) (simp add: s1_def)
qed

subsection \<open>Self test\<close>

text \<open>The state before iteration \<open>k\<close>, if the loop gets there.\<close>

primrec self_test_walk :: "voltage_cfg \<Rightarrow> self_test_inputs \<Rightarrow> voltage \<Rightarrow> nat \<Rightarrow> nat \<times> voltage" where
  "self_test_walk cfg inp s 0 = self_test_start cfg inp s"
| "self_test_walk cfg inp s (Suc k) = self_test_iteration cfg inp k (self_test_walk cfg inp s k)"

lemma check_caps_frame: "voltages_status (snd (check_caps_voltages cfg lock evs s)) = voltages_status s"
  by (cases "vcfg_board cfg"; simp add: check_caps_voltages_def voltage_measurement_sample_switched_channels_def
      sample_mux_position_def adc_isrs_def Let_def upt_rec split: prod.splits)

lemma self_test_walk_status: "voltages_status (snd (self_test_walk cfg inp s k)) = voltages_status s"
proof (induction k)
  case (Suc k)
  then show ?case using check_caps_frame [of cfg "st_lock inp k" "st_mux_events inp k" "snd (self_test_walk cfg inp s k)"]
    by (simp add: self_test_iteration_def adc_isrs_def Let_def split_def)
qed (simp add: self_test_start_def adc_isrs_def)

lemma self_test_walk_count: "fst (self_test_walk cfg inp s (Suc k)) \<le> fst (self_test_walk cfg inp s k) + 1"
  by (simp add: self_test_iteration_def Let_def split_def le_SucI)

lemma self_test_walk_0: "fst (self_test_walk cfg inp s 0) = 0"
  by (simp add: self_test_start_def)

text \<open>The count passes through every number below the one it reaches.\<close>

lemma self_test_walk_reaches:
  assumes "2 \<le> fst (self_test_walk cfg inp s n)"
  shows "2 \<in> (\<lambda>k. fst (self_test_walk cfg inp s k)) ` {..n}"
  using assms
proof (induction n)
  case (Suc n)
  show ?case
  proof (cases "2 \<le> fst (self_test_walk cfg inp s n)")
    case True
    then show ?thesis using Suc.IH by (auto simp: atMost_Suc)
  next
    case False
    then have "fst (self_test_walk cfg inp s (Suc n)) = 2" using self_test_walk_count [of cfg inp s n] Suc.prems by linarith
    then show ?thesis by force
  qed
qed (simp add: self_test_start_def)

lemma self_test_loop_walk:
  "self_test_loop cfg inp k timeout (self_test_walk cfg inp s k) =
    (if fst (self_test_walk cfg inp s k) < 2 then
       (if timeout = 0 then (timeout - 1, self_test_walk cfg inp s k)
        else self_test_loop cfg inp (Suc k) (timeout - 1) (self_test_walk cfg inp s (Suc k)))
     else (timeout, self_test_walk cfg inp s k))"
  by (subst self_test_loop.simps) simp

lemma self_test_loop_result:
  assumes "n \<le> 5" "\<forall>k < n. fst (self_test_walk cfg inp s k) < 2" "n = 5 \<or> 2 \<le> fst (self_test_walk cfg inp s n)"
  shows "self_test_loop cfg inp 0 5 (self_test_walk cfg inp s 0) =
    ((if fst (self_test_walk cfg inp s n) < 2 then 5 - of_nat n - 1 else 5 - of_nat n), self_test_walk cfg inp s n)"
proof -
  have "self_test_loop cfg inp k (5 - of_nat k) (self_test_walk cfg inp s k) =
      self_test_loop cfg inp n (5 - of_nat n) (self_test_walk cfg inp s n)" if "k \<le> n" for k
    using that
  proof (induction rule: inc_induct)
    case (step k)
    have "k \<in> {0, 1, 2, 3, 4}" using step.hyps assms(1) by auto
    then have "(5 :: u32) - of_nat k \<noteq> 0" by auto
    then show ?case
      using step assms(2) self_test_loop_walk [of cfg inp k "5 - of_nat k" s] by (simp add: diff_diff_eq add.commute)
  qed simp
  from this [of 0] show ?thesis using assms(3) self_test_loop_walk [of cfg inp n "5 - of_nat n" s] by auto
qed

text \<open>
  What the self test reports: success when its count, which an iteration in range increases
  and one out of range decreases, is two before the fifth iteration. When the fifth iteration
  makes it two, the test reports a timeout. When it runs out of iterations, which is the only
  way to fail, it reports nothing and the status stays as it was: the counter has wrapped around
  to its largest value when it is compared with zero.
\<close>

theorem self_test_verdict:
  "voltages_status (voltage_measurement_self_test_thread cfg inp s) =
    (if 2 \<in> set (map (\<lambda>k. fst (self_test_walk cfg inp s k)) [0..<5]) then (RET_SUCCESS, ''self-test passed'', 2)
     else if fst (self_test_walk cfg inp s 5) = 2 then (RET_ERROR_TIMEOUT, ''self-test failed'', 5)
     else voltages_status s)"
proof -
  let ?w = "self_test_walk cfg inp s"
  show ?thesis
  proof (cases "\<exists>k < 5. 2 \<le> fst (?w k)")
    case True
    define n where "n = (LEAST k. 2 \<le> fst (?w k))"
    from True obtain m where m: "m < 5" "2 \<le> fst (?w m)" by blast
    have n: "2 \<le> fst (?w n)" "n \<le> m" using m LeastI [of "\<lambda>k. 2 \<le> fst (?w k)" m] Least_le [of "\<lambda>k. 2 \<le> fst (?w k)" m]
      by (simp_all add: n_def)
    have less: "\<forall>k < n. fst (?w k) < 2" using not_less_Least [of _ "\<lambda>k. 2 \<le> fst (?w k)"] by (auto simp: n_def not_le)
    obtain k where k: "k \<le> n" "fst (?w k) = 2" using self_test_walk_reaches [OF n(1)] by auto
    then have eq: "fst (?w n) = 2" using less by (metis le_neq_implies_less less_irrefl)
    have "n \<in> {0, 1, 2, 3, 4}" using n m by auto
    then have "(5 :: u32) - of_nat n \<noteq> 0" by auto
    moreover have "2 \<in> set (map (\<lambda>k. fst (?w k)) [0..<5])" using eq n m by (auto intro!: image_eqI [of _ _ n])
    ultimately show ?thesis using self_test_loop_result [of n cfg inp s] less n m eq
      by (simp add: voltage_measurement_self_test_thread_def split_def Let_def)
  next
    case False
    then have less: "\<forall>k < 5. fst (?w k) < 2" by auto
    then have "2 \<notin> set (map (\<lambda>k. fst (?w k)) [0..<5])" by auto
    moreover have "fst (?w 5) \<le> 2"
      using self_test_walk_count [of cfg inp s 4] less [rule_format, of 4] by (simp add: eval_nat_numeral)
    ultimately show ?thesis using self_test_loop_result [of 5 cfg inp s] less self_test_walk_status [of cfg inp s 5]
      by (cases "fst (?w 5) < 2") (simp_all add: voltage_measurement_self_test_thread_def split_def Let_def)
  qed
qed

subsection \<open>Super capacitors, initialization and error paths\<close>

text \<open>Sampling the capacitors gives the multiplexer back as it was.\<close>

lemma switched_channels_restore_mux:
  assumes "voltage_measurement_sample_switched_channels cfg lock evs s = (ret, s')" "\<not> mux_enable s"
  shows "mux_pins s' = mux_pins s" "mux_enable s' = mux_enable s" "ret = RET_SUCCESS \<longleftrightarrow> lock = 0"
  using assms by (auto simp: voltage_measurement_sample_switched_channels_def Let_def split: if_splits)

text \<open>When the multiplexer cannot be locked, the capacitors are reported to be in range, at 0 mV.\<close>

lemma check_caps_lock_fails:
  assumes "vcfg_board cfg = Diamond" "lock \<noteq> 0"
  shows "check_caps_voltages cfg lock evs s =
    (0, s\<lparr>super_cap_differential_voltages := replicate 8 0, supercaps_status := (RET_SUCCESS, ''voltages in range'', 0)\<rparr>)"
  using assms by (simp add: check_caps_voltages_def voltage_measurement_sample_switched_channels_def)

text \<open>The self test can be started while it runs: nothing sets the flag that would prevent it.\<close>

lemma selftest_always_starts:
  assumes "\<not> initialized_once s"
  shows "fst (voltage_measurement_selftest join s) = RET_SUCCESS"
    "\<not> initialized_once (snd (voltage_measurement_selftest join s))"
  using assms by (simp_all add: voltage_measurement_selftest_def)

lemma publish_period_capped: "voltages_publish_period_ms (voltage_measurement_set_publish_period p s) = min p 60000"
  by (simp add: voltage_measurement_set_publish_period_def min_def)

text \<open>The mask of a sequence has one bit for every place in the buffer of its converter.\<close>

lemma adc_sequence_sizes:
  "map (\<lambda>dev. length (filter (bit (adc_sequence_channels Diamond dev)) [0..<32])) [ADC_1, ADC_4, ADC_5] =
    [NUMBER_OF_CHANNELS_ADC_1 Diamond, NUMBER_OF_CHANNELS_ADC_4 Diamond, NUMBER_OF_CHANNELS_ADC_5 Diamond]"
  "map (\<lambda>dev. length (filter (bit (adc_sequence_channels Pearl dev)) [0..<32])) [ADC_1, ADC_4, ADC_5] =
    [NUMBER_OF_CHANNELS_ADC_1 Pearl, NUMBER_OF_CHANNELS_ADC_4 Pearl, NUMBER_OF_CHANNELS_ADC_5 Pearl]"
  by code_simp+

lemma voltage_init_result:
  "fst (voltage_measurement_init cfg v inp s) =
    (if vi_conf inp \<noteq> 0 then vi_conf inp else if vi_pin inp \<noteq> 0 then vi_pin inp
     else rc (setup_channels inp 0 (adc_channels (vcfg_board cfg))))"
  by (simp add: voltage_measurement_init_def Let_def)

lemma publish_source_fails:
  "pub i \<noteq> RET_SUCCESS \<Longrightarrow> pv_sent (publish_source cfg pub s a i p) = pv_sent p"
  by (auto simp: publish_source_def publish_measured_def publish_measure_def publish_send_def set_cap_msg_def Let_def
      split: source_case.splits sum.splits prod.splits)

lemma publish_all_fails:
  assumes "\<And>i. pub i \<noteq> RET_SUCCESS"
  shows "sent_voltages (publish_all_voltages cfg pub evs s) = sent_voltages s"
proof -
  have "pv_sent (fold (publish_source cfg pub s' a) srcs p) = pv_sent p" for s' a srcs p
    by (induction srcs arbitrary: p) (simp_all add: publish_source_fails assms)
  then show ?thesis by (simp add: publish_all_voltages_def publish_loop_def Let_def adc_isrs_def publish_vars_start_def)
qed

subsection \<open>Witnesses\<close>

definition voltage_example_cfg :: "board \<Rightarrow> voltage_cfg" where
  "voltage_example_cfg b =
    \<lparr>vcfg_board = b, no_super_caps = False,
     voltage_sources = [VS_MAIN_MCU_INTERNAL, VS_SUPPLY_5V, VS_SUPER_CAP 6, VS_SUPER_CAP 7, VS_SUPPLY_3V3_LDO],
     calc_vrefanalog = (\<lambda>x. 3300), raw_to_millivolts = adc_raw_to_millivolts_12\<rparr>"

definition voltage_example :: "board \<Rightarrow> voltage" where
  "voltage_example b =
    \<lparr>buffers = \<lparr>raw = replicate (NUMBER_OF_CHANNELS b) 0, raw_min = replicate (NUMBER_OF_CHANNELS b) 0,
       raw_max = replicate (NUMBER_OF_CHANNELS b) 0\<rparr>,
     hardware_version = Some HW_VERSION_OTHER, voltages_publish_period_ms = 1000,
     super_cap_voltages_mv = replicate 8 0, super_cap_differential_voltages = [2000, 2001, 2002, 2003, 2004, 2005, 2006, 2007],
     mux_pins = (False, False), mux_enable = False, mux_dvt = False,
     last_msg = \<lparr>msg_source = VS_OTHER, voltage_current_mv = 0, voltage_min_mv = 0, voltage_max_mv = 0\<rparr>,
     sent_voltages = [], voltages_status = (RET_SUCCESS, ''OK'', 0), supercaps_status = (RET_SUCCESS, ''OK'', 0),
     initialized_once = False, meas_enabled = True, adc_paths = (\<lambda>_. {}), voltage_threads = []\<rparr>"

definition failing_turn :: publish_turn where
  "failing_turn = \<lparr>turn_lock = 0, turn_mux_events = (\<lambda>_. []), turn_publish = (\<lambda>_. RET_ERROR_BUSY),
    turn_events = [ADC1_SAMPLES [7, 7, 7, 7, 7, 7]]\<rparr>"

definition voltage_example_ops :: "voltage_op list" where
  "voltage_example_ops = [VO_IRQ (ADC1_SAMPLES [5, 6, 7, 8, 9, 10]), VO_TURN failing_turn, VO_IRQ (ADC1_SAMPLES [8, 8, 8, 8, 8, 8])]"

lemma voltage_example_history:
  "snd (voltage_run (voltage_example_cfg Pearl) voltage_example_ops s) =
    [ADC1_SAMPLES [5, 6, 7, 8, 9, 10], ADC1_SAMPLES [7, 7, 7, 7, 7, 7], ADC1_SAMPLES [8, 8, 8, 8, 8, 8]]"
  by (simp add: voltage_run_def voltage_example_ops_def Let_def voltage_publish_turn_def publish_all_fails failing_turn_def
      check_caps_buffers(2) turn_cap_events_def voltage_example_cfg_def adc_isrs_def)

theorem voltage_statistics_kept_witness:
  "tracks Pearl [ADC1_SAMPLES [5, 6, 7, 8, 9, 10], ADC1_SAMPLES [7, 7, 7, 7, 7, 7], ADC1_SAMPLES [8, 8, 8, 8, 8, 8]]
    (buffers (fst (voltage_run (voltage_example_cfg Pearl) voltage_example_ops
      ((voltage_example Pearl)\<lparr>buffers := reset_statistics (buffers (voltage_example Pearl))\<rparr>))))"
  using voltage_statistics_kept [of "voltage_example_cfg Pearl" "voltage_example Pearl" voltage_example_ops]
    voltage_example_history
  by (simp add: voltage_example_cfg_def [of Pearl] voltage_example_def buffers_ok_def NUMBER_OF_CHANNELS_def voltage_example_ops_def
      failing_turn_def)

definition voltage_example_events :: "adc_event list" where
  "voltage_example_events =
    [ADC1_SAMPLES [1000, 1001, 1002, 1003, 1004, 1005], ADC5_SAMPLES [2000, 2001, 2002, 2003, 1500],
     ADC1_SAMPLES [900, 1101, 1002, 1003, 1004, 1005]]"

definition voltage_sampled :: voltage where
  "voltage_sampled = (voltage_example Pearl)\<lparr>buffers :=
    fold (adc_isr Pearl) voltage_example_events (reset_statistics (buffers (voltage_example Pearl)))\<rparr>"

lemma voltage_example_sampled: "i < 11 \<Longrightarrow> channel_samples Pearl i voltage_example_events \<noteq> []"
  by (simp add: voltage_example_events_def)

theorem voltage_messages_ordered_witness:
  "list_all msg_ordered
    (sent_voltages (publish_all_voltages (voltage_example_cfg Pearl) (\<lambda>_. RET_SUCCESS) [] voltage_sampled))"
proof (rule voltage_messages_ordered [where a = "buffers (voltage_example Pearl)" and evs = voltage_example_events])
  show "adc_conversion (raw_to_millivolts (voltage_example_cfg Pearl))"
    by (simp add: voltage_example_cfg_def adc12.adc_conversion_axioms)
  show "\<forall>i < NUMBER_OF_CHANNELS (vcfg_board (voltage_example_cfg Pearl)).
      channel_samples (vcfg_board (voltage_example_cfg Pearl)) i voltage_example_events \<noteq> []"
    using voltage_example_sampled by (simp add: voltage_example_cfg_def NUMBER_OF_CHANNELS_def)
qed (simp_all add: voltage_example_cfg_def voltage_example_def buffers_ok_def voltage_example_events_def voltage_sampled_def
    NUMBER_OF_CHANNELS_def)

theorem ldo_publishes_super_cap_witness:
  "last (sent_voltages (publish_all_voltages (voltage_example_cfg Diamond) (\<lambda>_. RET_SUCCESS) [] (voltage_example Diamond))) =
    \<lparr>msg_source = VS_SUPPLY_3V3_LDO, voltage_current_mv = 2007, voltage_min_mv = 2007, voltage_max_mv = 2007\<rparr>"
  using ldo_publishes_super_cap [of "voltage_example_cfg Diamond" "[VS_MAIN_MCU_INTERNAL, VS_SUPPLY_5V, VS_SUPER_CAP 6]" 7
      "[]" "\<lambda>_. RET_SUCCESS" "[]" "voltage_example Diamond"]
  by (simp add: voltage_example_cfg_def voltage_example_def)

end
