(* ===== verification/Liquid_Lens.thy ===== *)
theory Liquid_Lens
  imports Voltage "HOL-Library.Signed_Division"
begin

text \<open>
  The liquid lens (\<^verbatim>\<open>optics/liquid_lens/liquid_lens.c\<close>): a current through a coil, driven by an H-bridge
  whose two legs are pulse-width modulated, and kept at its target by an integral controller that
  runs in the interrupt of the converter once per millisecond.

  The integral is a C \<^verbatim>\<open>float\<close> that only ever holds multiples of one half below \<open>2 ^ 23\<close>
  (\<open>lens_floats_exact\<close>), so it is kept as the number of halves. Samples that arrive while a thread sleeps
  are a list. Left out are logs, the wait for the calibration of the timer's delay line, which is taken to end, and the
  thread, whose \<^verbatim>\<open>adc_read\<close> does not return because the callback asks for a repetition.
\<close>

subsection \<open>State\<close>

definition LIQUID_LENS_TIM_PERIOD :: int where "LIQUID_LENS_TIM_PERIOD = 0x3300"
definition LIQUID_LENS_TIM_PERIOD_HALF :: int where "LIQUID_LENS_TIM_PERIOD_HALF = 0x1980"
definition LIQUID_LENS_MAX_CONTROL_OUTPUT_PER_MILLE :: int where
  "LIQUID_LENS_MAX_CONTROL_OUTPUT_PER_MILLE = 999"

text \<open>The two legs of the bridge are the timer's units B and A; each has a low side and a high side.\<close>

datatype bridge_leg = POS_BRIDGE | NEG_BRIDGE

datatype bridge_output = LS1_OUTPUT | HS1_OUTPUT | LS2_OUTPUT | HS2_OUTPUT

datatype hrtim_op =
    ConfigDLLCalibration_CONTINUOUS | StartDLLCalibration
  | SetPrescaler_MUL32 bridge_leg | SetCounterMode_CONTINUOUS bridge_leg | SetPeriod bridge_leg int
  | SetOutputSetSrc_TIMCMP2 bridge_output | SetOutputResetSrc_TIMCMP1 bridge_output
  | SetPositivePolarity bridge_output bool | SetCompare1 bridge_leg int
  | EnablePreload bridge_leg | SetUpdateTrig_RESET bridge_leg

record liquid_lens =
  target_current_ma :: int
  integral_halves :: int
  last_pwm_output_per_mille :: int
  lens_enabled :: bool
  amplifier_gain :: nat
  shunt_resistance_ohms :: double
  compare_pos :: int
  compare_neg :: int
  bridge_on :: bool
  lens_en_pin :: bool
  hrtim_config :: "hrtim_op list"
  lens_state :: "ret_code_t \<times> string"

record lens_sample =
  ina240_ref :: u16
  ina240_sig :: u16
  lens_vrefint :: u16

subsection \<open>Control loop\<close>

definition liquid_set_target_current_ma :: "int \<Rightarrow> liquid_lens \<Rightarrow> ret_code_t \<times> liquid_lens" where
  "liquid_set_target_current_ma new_target_current_ma s =
    (RET_SUCCESS,
     s\<lparr>target_current_ma := clamp new_target_current_ma LIQUID_LENS_MIN_CURRENT_MA LIQUID_LENS_MAX_CURRENT_MA\<rparr>)"

definition liquid_lens_set_pwm :: "int \<Rightarrow> liquid_lens \<Rightarrow> liquid_lens" where
  "liquid_lens_set_pwm per_mille s =
    (let p = clamp per_mille (- LIQUID_LENS_MAX_CONTROL_OUTPUT_PER_MILLE) LIQUID_LENS_MAX_CONTROL_OUTPUT_PER_MILLE
     in s\<lparr>compare_pos := LIQUID_LENS_TIM_PERIOD_HALF + LIQUID_LENS_TIM_PERIOD_HALF * p sdiv 1000,
          compare_neg := LIQUID_LENS_TIM_PERIOD_HALF - LIQUID_LENS_TIM_PERIOD_HALF * p sdiv 1000\<rparr>)"

text \<open>The current through the shunt: two divisions in C \<^verbatim>\<open>float\<close>, truncated towards zero.\<close>

definition amplifier_mv :: "nat \<Rightarrow> u16 \<Rightarrow> int" where
  "amplifier_mv vref_mv x = int (unat x * vref_mv div 2 ^ 12)"

definition lens_current_ma :: "nat \<Rightarrow> double \<Rightarrow> int \<Rightarrow> int" where
  "lens_current_ma gain shunt shunt_voltage_mv =
    sgn shunt_voltage_mv *
      int (double_trunc (single_div (single_div (Dbl (nat \<bar>shunt_voltage_mv\<bar>) 0) (Dbl gain 0)) shunt))"

definition measured_current_ma :: "voltage_cfg \<Rightarrow> hw_version option \<Rightarrow> lens_sample \<Rightarrow> liquid_lens \<Rightarrow> int" where
  "measured_current_ma cfg v x s =
    (let vref_mv = vref_mv_from_raw cfg v (lens_vrefint x)
     in lens_current_ma (amplifier_gain s) (shunt_resistance_ohms s)
          (amplifier_mv vref_mv (ina240_ref x) - amplifier_mv vref_mv (ina240_sig x)))"

text \<open>\<^verbatim>\<open>lroundf\<close> of a number of halves: to the nearest integer, away from zero on a tie.\<close>

definition lround_halves :: "int \<Rightarrow> int" where
  "lround_halves h = sgn h * ((\<bar>h\<bar> + 1) div 2)"

text \<open>
  The gain of the controller is one half, that of the feed forward one: an error of one milliampere is
  one half of a per mille of the integral.
\<close>

definition lens_integral :: "int \<Rightarrow> int \<Rightarrow> int" where
  "lens_integral error_ma h =
    (let m = 2 * LIQUID_LENS_MAX_CONTROL_OUTPUT_PER_MILLE; h' = h + error_ma
     in if h' < - m then - m else if h' > m then m else h')"

definition lens_output :: "int \<Rightarrow> int \<Rightarrow> int" where
  "lens_output target_ma h =
    clamp (lround_halves (2 * target_ma + h))
      (- LIQUID_LENS_MAX_CONTROL_OUTPUT_PER_MILLE) LIQUID_LENS_MAX_CONTROL_OUTPUT_PER_MILLE"

definition lens_adc_callback :: "voltage_cfg \<Rightarrow> hw_version option \<Rightarrow> lens_sample \<Rightarrow> liquid_lens \<Rightarrow> liquid_lens" where
  "lens_adc_callback cfg v x s =
    (if lens_enabled s then
       let target_ma = target_current_ma s;
           h = lens_integral (target_ma - measured_current_ma cfg v x s) (integral_halves s);
           pwm = lens_output target_ma h
       in liquid_lens_set_pwm pwm (s\<lparr>integral_halves := h, last_pwm_output_per_mille := pwm\<rparr>)
     else s)"

definition lens_samples :: "voltage_cfg \<Rightarrow> hw_version option \<Rightarrow> lens_sample list \<Rightarrow> liquid_lens \<Rightarrow> liquid_lens" where
  "lens_samples cfg v xs s = fold (lens_adc_callback cfg v) xs s"

subsection \<open>Operations\<close>

text \<open>The samples of the three waits of the self test are its argument.\<close>

type_synonym lens_waits = "lens_sample list \<times> lens_sample list \<times> lens_sample list"

definition lens_self_test :: "voltage_cfg \<Rightarrow> hw_version option \<Rightarrow> lens_waits \<Rightarrow> liquid_lens \<Rightarrow> ret_code_t \<times> liquid_lens" where
  "lens_self_test cfg v waits s =
    (let s1 = lens_samples cfg v (fst waits) (snd (liquid_set_target_current_ma 0 s));
         prev_pwm = last_pwm_output_per_mille s1;
         s2 = lens_samples cfg v (fst (snd waits)) (snd (liquid_set_target_current_ma 50 s1))
     in if last_pwm_output_per_mille s2 \<noteq> prev_pwm then
          let s3 = lens_samples cfg v (snd (snd waits)) s2
          in (if \<bar>last_pwm_output_per_mille s3 - last_pwm_output_per_mille s2\<bar> \<le> 10 then RET_SUCCESS
              else RET_ERROR_ASSERT_FAILS, s3)
        else (RET_ERROR_ASSERT_FAILS, s2))"

text \<open>\<open>pin\<close> is what setting the enable pin returns.\<close>

definition liquid_lens_enable :: "int \<Rightarrow> liquid_lens \<Rightarrow> liquid_lens" where
  "liquid_lens_enable pin s =
    (if lens_enabled s then s
     else let s1 = s\<lparr>integral_halves := 0, bridge_on := True\<rparr>
          in if pin \<noteq> 0 then s1 else s1\<lparr>lens_en_pin := True, lens_enabled := True\<rparr>)"

definition liquid_lens_disable ::
    "voltage_cfg \<Rightarrow> hw_version option \<Rightarrow> lens_waits \<Rightarrow> int \<Rightarrow> liquid_lens \<Rightarrow> liquid_lens" where
  "liquid_lens_disable cfg v waits pin s =
    (if \<not> lens_enabled s then s
     else let (ret, s1) = lens_self_test cfg v waits s;
              s2 = s1\<lparr>lens_state := if ret = RET_SUCCESS then (RET_SUCCESS, '''')
                                   else (RET_ERROR_INTERNAL, ''self-test failed'')\<rparr>
          in if pin \<noteq> 0 then s2
             else s2\<lparr>lens_en_pin := False, bridge_on := False, lens_enabled := False\<rparr>)"

text \<open>
  What the drivers return during the initialization: clock, pin, pin controller, then for each converter
  channel whether its device is ready and what its setup returns; then the enable pin and the samples of
  the two self tests.
\<close>

record lens_init_inputs =
  clock_ret :: int
  pin_configure_ret :: int
  pinctrl_ret :: int
  channel_rets :: "(bool \<times> int) list"
  enable_pin_ret :: int
  init_waits :: lens_waits
  disable_waits :: lens_waits
  disable_pin_ret :: int

fun lens_amplifier :: "board \<Rightarrow> hw_version option \<Rightarrow> nat \<times> double" where
  "lens_amplifier Pearl v = (if v = Some HW_VERSION_PEARL_EV5 then 10 else 20, single_of_ratio 15 100)"
| "lens_amplifier Diamond v = (10, single_of_ratio 15 100)"

definition lens_startup :: "voltage_cfg \<Rightarrow> hw_version option \<Rightarrow> lens_init_inputs \<Rightarrow> liquid_lens \<Rightarrow> liquid_lens" where
  "lens_startup cfg v i s =
    (let s1 = liquid_lens_enable (enable_pin_ret i) s;
         (ret, s2) = lens_self_test cfg v (init_waits i) s1;
         s3 = s2\<lparr>lens_state := if ret = RET_SUCCESS then (RET_SUCCESS, '''')
                              else (RET_ERROR_ASSERT_FAILS, ''self-test failed'')\<rparr>
     in liquid_lens_disable cfg v (disable_waits i) (disable_pin_ret i) s3)"

definition output_config :: "bridge_output \<Rightarrow> bool \<Rightarrow> hrtim_op list" where
  "output_config out positive =
    [SetOutputSetSrc_TIMCMP2 out, SetOutputResetSrc_TIMCMP1 out, SetPositivePolarity out positive]"

definition lens_timer_config :: "hrtim_op list" where
  "lens_timer_config =
    [ConfigDLLCalibration_CONTINUOUS, StartDLLCalibration,
     SetPrescaler_MUL32 POS_BRIDGE, SetCounterMode_CONTINUOUS POS_BRIDGE, SetPeriod POS_BRIDGE LIQUID_LENS_TIM_PERIOD,
     SetPrescaler_MUL32 NEG_BRIDGE, SetCounterMode_CONTINUOUS NEG_BRIDGE, SetPeriod NEG_BRIDGE LIQUID_LENS_TIM_PERIOD] @
    output_config LS2_OUTPUT True @ output_config HS2_OUTPUT False @
    output_config LS1_OUTPUT True @ output_config HS1_OUTPUT False @
    [SetCompare1 POS_BRIDGE 0, SetCompare1 NEG_BRIDGE 0]"

definition lens_timer_update :: "hrtim_op list" where
  "lens_timer_update =
    [EnablePreload POS_BRIDGE, EnablePreload NEG_BRIDGE, SetUpdateTrig_RESET POS_BRIDGE, SetUpdateTrig_RESET NEG_BRIDGE]"

definition lens_setup_timer :: "liquid_lens \<Rightarrow> liquid_lens" where
  "lens_setup_timer s =
    (let s1 = liquid_lens_set_pwm 0 (s\<lparr>hrtim_config := hrtim_config s @ lens_timer_config\<rparr>)
     in s1\<lparr>hrtim_config := hrtim_config s1 @ lens_timer_update\<rparr>)"

definition liquid_lens_init ::
    "voltage_cfg \<Rightarrow> hw_version option \<Rightarrow> lens_init_inputs \<Rightarrow> liquid_lens \<Rightarrow> ret_code_t \<times> liquid_lens" where
  "liquid_lens_init cfg v i s =
    (let (gain, shunt) = lens_amplifier (vcfg_board cfg) v;
         s1 = s\<lparr>lens_state := (RET_ERROR_NOT_INITIALIZED, ''''), amplifier_gain := gain, shunt_resistance_ohms := shunt\<rparr>
     in if clock_ret i \<noteq> 0 \<or> pin_configure_ret i \<noteq> 0 then (RET_ERROR_NOT_INITIALIZED, s1)
        else let s2 = s1\<lparr>lens_en_pin := False\<rparr>
             in if pinctrl_ret i < 0 then (RET_ERROR_NOT_INITIALIZED, s2)
                else let s3 = lens_setup_timer s2
                     in if \<exists>(ready, ret) \<in> set (channel_rets i). \<not> ready \<or> ret < 0 then (RET_ERROR_INTERNAL, s3)
                        else (RET_SUCCESS, lens_startup cfg v i s3))"


subsection \<open>What samples do\<close>

lemma liquid_set_target_simps [simp]:
  "fst (liquid_set_target_current_ma c s) = RET_SUCCESS"
  "snd (liquid_set_target_current_ma c s) = s\<lparr>target_current_ma := clamp c (-400) 400\<rparr>"
  by (simp_all add: liquid_set_target_current_ma_def LIQUID_LENS_MIN_CURRENT_MA_def LIQUID_LENS_MAX_CURRENT_MA_def)

lemma clamp_bounds [simp]: "lo \<le> hi \<Longrightarrow> lo \<le> clamp v lo hi" "lo \<le> hi \<Longrightarrow> clamp v lo hi \<le> hi"
  by (auto simp: clamp_def)

lemma clamp_id [simp]: "lo \<le> v \<Longrightarrow> v \<le> hi \<Longrightarrow> clamp v lo hi = v"
  by (auto simp: clamp_def)

lemma lens_integral_clamp: "lens_integral e h = clamp (h + e) (-1998) 1998"
  by (auto simp: lens_integral_def clamp_def LIQUID_LENS_MAX_CONTROL_OUTPUT_PER_MILLE_def Let_def)

lemma lens_output_clamp: "lens_output t h = clamp (lround_halves (2 * t + h)) (-999) 999"
  by (simp add: lens_output_def LIQUID_LENS_MAX_CONTROL_OUTPUT_PER_MILLE_def)

lemma liquid_lens_set_pwm_simps [simp]:
  "target_current_ma (liquid_lens_set_pwm p s) = target_current_ma s"
  "integral_halves (liquid_lens_set_pwm p s) = integral_halves s"
  "last_pwm_output_per_mille (liquid_lens_set_pwm p s) = last_pwm_output_per_mille s"
  "lens_enabled (liquid_lens_set_pwm p s) = lens_enabled s"
  "amplifier_gain (liquid_lens_set_pwm p s) = amplifier_gain s"
  "shunt_resistance_ohms (liquid_lens_set_pwm p s) = shunt_resistance_ohms s"
  "bridge_on (liquid_lens_set_pwm p s) = bridge_on s"
  by (simp_all add: liquid_lens_set_pwm_def Let_def)

lemma measured_current_cong:
  "amplifier_gain s' = amplifier_gain s \<Longrightarrow> shunt_resistance_ohms s' = shunt_resistance_ohms s \<Longrightarrow>
    measured_current_ma cfg v x s' = measured_current_ma cfg v x s"
  by (simp add: measured_current_ma_def)

lemma lens_adc_callback_keeps [simp]:
  "target_current_ma (lens_adc_callback cfg v x s) = target_current_ma s"
  "lens_enabled (lens_adc_callback cfg v x s) = lens_enabled s"
  "amplifier_gain (lens_adc_callback cfg v x s) = amplifier_gain s"
  "shunt_resistance_ohms (lens_adc_callback cfg v x s) = shunt_resistance_ohms s"
  "bridge_on (lens_adc_callback cfg v x s) = bridge_on s"
  by (simp_all add: lens_adc_callback_def Let_def)

lemma lens_samples_simps [simp]:
  "lens_samples cfg v [] s = s"
  "lens_samples cfg v (x # xs) s = lens_samples cfg v xs (lens_adc_callback cfg v x s)"
  "lens_samples cfg v (xs @ ys) s = lens_samples cfg v ys (lens_samples cfg v xs s)"
  by (simp_all add: lens_samples_def)

lemma lens_samples_keeps [simp]:
  "target_current_ma (lens_samples cfg v xs s) = target_current_ma s"
  "lens_enabled (lens_samples cfg v xs s) = lens_enabled s"
  "amplifier_gain (lens_samples cfg v xs s) = amplifier_gain s"
  "shunt_resistance_ohms (lens_samples cfg v xs s) = shunt_resistance_ohms s"
  "bridge_on (lens_samples cfg v xs s) = bridge_on s"
  by (induction xs arbitrary: s) simp_all

text \<open>While the lens is enabled the output is a function of the target and of the errors measured.\<close>

definition lens_errors :: "voltage_cfg \<Rightarrow> hw_version option \<Rightarrow> lens_sample list \<Rightarrow> liquid_lens \<Rightarrow> int list" where
  "lens_errors cfg v xs s = map (\<lambda>x. target_current_ma s - measured_current_ma cfg v x s) xs"

lemma lens_samples_enabled:
  assumes "lens_enabled s"
  shows "integral_halves (lens_samples cfg v xs s) = fold lens_integral (lens_errors cfg v xs s) (integral_halves s) \<and>
    (xs \<noteq> [] \<longrightarrow> last_pwm_output_per_mille (lens_samples cfg v xs s) =
       lens_output (target_current_ma s) (fold lens_integral (lens_errors cfg v xs s) (integral_halves s)))"
proof (induction xs rule: rev_induct)
  case (snoc x xs)
  have m: "measured_current_ma cfg v x (lens_samples cfg v xs s) = measured_current_ma cfg v x s"
    by (rule measured_current_cong) simp_all
  show ?case using snoc assms by (simp add: lens_adc_callback_def Let_def lens_errors_def m)
qed (simp add: lens_errors_def)

lemma lens_integral_range [simp]: "\<bar>lens_integral e h\<bar> \<le> 1998"
  by (auto simp: lens_integral_clamp clamp_def min_def)

lemma lens_output_range [simp]: "\<bar>lens_output t h\<bar> \<le> 999"
  by (auto simp: lens_output_clamp clamp_def min_def)

subsection \<open>The output stays in range\<close>

text \<open>The calls and the samples in any order, after a successful initialization.\<close>

inductive lens_step :: "voltage_cfg \<Rightarrow> hw_version option \<Rightarrow> liquid_lens \<Rightarrow> liquid_lens \<Rightarrow> bool" for cfg v where
  set_target: "lens_step cfg v s (snd (liquid_set_target_current_ma c s))"
| enable: "lens_step cfg v s (liquid_lens_enable pin s)"
| disable: "lens_step cfg v s (liquid_lens_disable cfg v waits pin s)"
| sample: "lens_step cfg v s (lens_adc_callback cfg v x s)"

definition lens_bounded :: "liquid_lens \<Rightarrow> bool" where
  "lens_bounded s \<longleftrightarrow> \<bar>target_current_ma s\<bar> \<le> 400 \<and> \<bar>integral_halves s\<bar> \<le> 1998 \<and>
     \<bar>last_pwm_output_per_mille s\<bar> \<le> 999 \<and>
     7 \<le> compare_pos s \<and> 7 \<le> compare_neg s \<and> compare_pos s + compare_neg s = LIQUID_LENS_TIM_PERIOD \<and>
     (lens_enabled s \<longrightarrow> bridge_on s)"

lemma sdiv_range: "\<bar>p\<bar> \<le> 999 \<Longrightarrow> \<bar>6528 * p sdiv 1000\<bar> \<le> (6521 :: int)"
  by (simp add: signed_divide_int_def abs_mult abs_sgn_eq) linarith

lemma set_pwm_bridges:
  "7 \<le> compare_pos (liquid_lens_set_pwm p s)" "7 \<le> compare_neg (liquid_lens_set_pwm p s)"
  "compare_pos (liquid_lens_set_pwm p s) + compare_neg (liquid_lens_set_pwm p s) = LIQUID_LENS_TIM_PERIOD"
proof -
  have "\<bar>6528 * clamp p (-999) 999 sdiv 1000\<bar> \<le> 6521"
    by (rule sdiv_range) (simp add: abs_le_iff minus_le_iff)
  then show "7 \<le> compare_pos (liquid_lens_set_pwm p s)" "7 \<le> compare_neg (liquid_lens_set_pwm p s)"
    "compare_pos (liquid_lens_set_pwm p s) + compare_neg (liquid_lens_set_pwm p s) = LIQUID_LENS_TIM_PERIOD"
    by (simp_all add: liquid_lens_set_pwm_def Let_def LIQUID_LENS_TIM_PERIOD_HALF_def LIQUID_LENS_TIM_PERIOD_def
        LIQUID_LENS_MAX_CONTROL_OUTPUT_PER_MILLE_def abs_le_iff)
qed

lemma lens_bounded_target [inv_intros]:
  "lens_bounded s \<Longrightarrow> lens_bounded (snd (liquid_set_target_current_ma c s))"
  by (auto simp: lens_bounded_def clamp_def)

lemma lens_bounded_sample [inv_intros]: "lens_bounded s \<Longrightarrow> lens_bounded (lens_adc_callback cfg v x s)"
proof (cases "lens_enabled s")
  case True
  assume b: "lens_bounded s"
  let ?s = "lens_adc_callback cfg v x s"
  have "\<bar>integral_halves ?s\<bar> \<le> 1998"
    using True by (simp add: lens_adc_callback_def Let_def)
  moreover have "\<bar>last_pwm_output_per_mille ?s\<bar> \<le> 999"
    using True by (simp add: lens_adc_callback_def Let_def)
  moreover have "7 \<le> compare_pos ?s \<and> 7 \<le> compare_neg ?s \<and> compare_pos ?s + compare_neg ?s = LIQUID_LENS_TIM_PERIOD"
    using True by (simp add: lens_adc_callback_def Let_def set_pwm_bridges)
  ultimately show ?thesis using b by (simp add: lens_bounded_def)
qed (simp add: lens_adc_callback_def)

lemma lens_bounded_samples [inv_intros]: "lens_bounded s \<Longrightarrow> lens_bounded (lens_samples cfg v xs s)"
  by (induction xs arbitrary: s) (simp_all add: lens_bounded_sample)

lemma lens_bounded_state [simp]: "lens_bounded (s\<lparr>lens_state := st\<rparr>) \<longleftrightarrow> lens_bounded s"
  by (simp add: lens_bounded_def)

lemma lens_bounded_self_test [inv_intros]: "lens_bounded s \<Longrightarrow> lens_bounded (snd (lens_self_test cfg v waits s))"
  unfolding lens_self_test_def Let_def
  by (simp del: liquid_set_target_simps add: lens_bounded_samples lens_bounded_target)

lemma lens_bounded_enable [inv_intros]: "lens_bounded s \<Longrightarrow> lens_bounded (liquid_lens_enable pin s)"
  by (auto simp: liquid_lens_enable_def lens_bounded_def Let_def)

lemma lens_bounded_disable [inv_intros]:
  assumes "lens_bounded s"
  shows "lens_bounded (liquid_lens_disable cfg v waits pin s)"
proof -
  have "lens_bounded (snd (lens_self_test cfg v waits s))" using assms by (rule lens_bounded_self_test)
  then show ?thesis using assms
    by (auto simp: liquid_lens_disable_def lens_bounded_def Let_def split_def)
qed

lemma lens_bounded_step: "lens_step cfg v s s' \<Longrightarrow> lens_bounded s \<Longrightarrow> lens_bounded s'"
  by (erule lens_step.cases) (auto simp del: liquid_set_target_simps intro: inv_intros)

text \<open>The variables as they are before the initialization.\<close>

definition lens_static :: "liquid_lens \<Rightarrow> bool" where
  "lens_static s \<longleftrightarrow> target_current_ma s = 0 \<and> integral_halves s = 0 \<and> last_pwm_output_per_mille s = 0 \<and>
     \<not> lens_enabled s"

lemma lens_init_bounded:
  assumes "lens_static s" "fst (liquid_lens_init cfg v i s) = RET_SUCCESS"
  shows "lens_bounded (snd (liquid_lens_init cfg v i s))"
proof -
  obtain gain shunt where amp: "lens_amplifier (vcfg_board cfg) v = (gain, shunt)" by fastforce
  let ?s3 = "lens_setup_timer (s\<lparr>lens_state := (RET_ERROR_NOT_INITIALIZED, ''''), amplifier_gain := gain,
    shunt_resistance_ohms := shunt, lens_en_pin := False\<rparr>)"
  have "lens_bounded ?s3" using assms(1)
    by (simp add: lens_setup_timer_def Let_def lens_bounded_def lens_static_def set_pwm_bridges)
  then have "lens_bounded (lens_startup cfg v i ?s3)"
    by (simp add: lens_startup_def Let_def split_def inv_intros)
  moreover have "snd (liquid_lens_init cfg v i s) = lens_startup cfg v i ?s3"
    using assms(2) by (auto simp: liquid_lens_init_def amp Let_def split: if_splits)
  ultimately show ?thesis by simp
qed

text \<open>
  C31. Whatever the samples, the hardware and the order of calls after a successful initialization: the target
  stays within 400 mA, the integral and the output within 999 per mille, and the two legs of the bridge
  are complementary and never within seven ticks of always on or off.
\<close>

theorem lens_output_in_range:
  assumes "lens_static s\<^sub>0" "fst (liquid_lens_init cfg v i s\<^sub>0) = RET_SUCCESS"
    and "(lens_step cfg v)\<^sup>*\<^sup>* (snd (liquid_lens_init cfg v i s\<^sub>0)) s"
  shows "\<bar>target_current_ma s\<bar> \<le> 400 \<and> \<bar>integral_halves s\<bar> \<le> 2 * 999 \<and> \<bar>last_pwm_output_per_mille s\<bar> \<le> 999 \<and>
    7 \<le> compare_pos s \<and> 7 \<le> compare_neg s \<and> compare_pos s + compare_neg s = LIQUID_LENS_TIM_PERIOD \<and>
    (bridge_on s \<or> \<not> lens_enabled s)"
proof -
  from assms(3) have "lens_bounded s"
    by (induction rule: rtranclp_induct) (auto intro: lens_init_bounded [OF assms(1,2)] lens_bounded_step)
  then show ?thesis by (auto simp: lens_bounded_def)
qed

text \<open>
  An output is active from its second compare value to the end of the period, the other way round with negative
  polarity: the two sides of a leg share the compare values and never conduct together.
\<close>

definition output_active :: "hrtim_op list \<Rightarrow> int \<Rightarrow> bridge_output \<Rightarrow> int \<Rightarrow> bool" where
  "output_active ops compare2 out t \<longleftrightarrow>
    SetOutputSetSrc_TIMCMP2 out \<in> set ops \<and> SetOutputResetSrc_TIMCMP1 out \<in> set ops \<and>
    (if SetPositivePolarity out True \<in> set ops then compare2 \<le> t else t < compare2)"

lemma lens_no_shoot_through:
  "\<not> (output_active lens_timer_config c LS1_OUTPUT t \<and> output_active lens_timer_config c HS1_OUTPUT t)"
  "\<not> (output_active lens_timer_config c LS2_OUTPUT t \<and> output_active lens_timer_config c HS2_OUTPUT t)"
  by (auto simp: output_active_def lens_timer_config_def output_config_def)

subsection \<open>A persistent error\<close>

lemma fold_lens_integral_up:
  "\<forall>e\<in>set es. 1 \<le> e \<Longrightarrow> \<bar>h\<bar> \<le> 1998 \<Longrightarrow> min 1998 (h + int (length es)) \<le> fold lens_integral es h"
proof (induction es arbitrary: h)
  case (Cons e es)
  have "min 1998 (h + int (length (e # es))) \<le> min 1998 (lens_integral e h + int (length es))"
    using Cons.prems by (auto simp: lens_integral_clamp clamp_def)
  also have "\<dots> \<le> fold lens_integral es (lens_integral e h)"
    using Cons by simp
  finally show ?case by simp
qed simp

lemma fold_lens_integral_range:
  "\<bar>h\<bar> \<le> 1998 \<Longrightarrow> \<bar>fold lens_integral es h\<bar> \<le> 1998"
  by (induction es arbitrary: h) simp_all

lemma fold_lens_integral_full:
  assumes "\<forall>e\<in>set es. 1 \<le> e" "\<bar>h\<bar> \<le> 1998" "3996 \<le> length es"
  shows "fold lens_integral es h = 1998"
  using fold_lens_integral_up [OF assms(1), of h] fold_lens_integral_range [OF assms(2), of es] assms(2,3) by linarith

text \<open>
  When 3996 samples in a row measure a current below the target, as with a lens that draws too little,
  the integral and the output are at their limit: about four seconds after any state.
\<close>

theorem lens_error_saturates:
  assumes "lens_enabled s" "\<bar>integral_halves s\<bar> \<le> 2 * 999" "\<bar>target_current_ma s\<bar> \<le> 400"
    and "3996 \<le> length xs" "\<forall>x\<in>set xs. measured_current_ma cfg v x s < target_current_ma s"
  shows "integral_halves (lens_samples cfg v xs s) = 2 * 999 \<and>
    last_pwm_output_per_mille (lens_samples cfg v xs s) = min 999 (999 + target_current_ma s)"
proof -
  have full: "fold lens_integral (lens_errors cfg v xs s) (integral_halves s) = 1998"
    using assms by (intro fold_lens_integral_full) (auto simp: lens_errors_def int_one_le_iff_zero_less)
  have "xs \<noteq> []" using assms(4) by auto
  moreover have "lens_output (target_current_ma s) 1998 = min 999 (999 + target_current_ma s)"
    using assms(3) by (auto simp: lens_output_clamp clamp_def lround_halves_def sgn_if min_def)
  ultimately show ?thesis using lens_samples_enabled [OF assms(1), of cfg v xs] full by simp
qed

subsection \<open>The self test of an open circuit\<close>

text \<open>Without a current the voltage of the shunt is zero.\<close>

definition no_current :: "lens_sample list \<Rightarrow> bool" where
  "no_current xs \<longleftrightarrow> (\<forall>x\<in>set xs. ina240_sig x = ina240_ref x)"

lemma lens_errors_open:
  "no_current xs \<Longrightarrow> lens_errors cfg v xs s = replicate (length xs) (target_current_ma s)"
  by (induction xs) (simp_all add: no_current_def lens_errors_def measured_current_ma_def lens_current_ma_def Let_def)

lemma fold_lens_integral_replicate:
  "0 \<le> t \<Longrightarrow> \<bar>h\<bar> \<le> 1998 \<Longrightarrow> fold lens_integral (replicate n t) h = min 1998 (h + int n * t)"
proof (induction n arbitrary: h)
  case (Suc n)
  have "lens_integral t h = min 1998 (h + t)" using Suc.prems by (auto simp: lens_integral_clamp clamp_def)
  then have "fold lens_integral (replicate (Suc n) t) h = min 1998 (min 1998 (h + t) + int n * t)"
    using Suc.IH [of "lens_integral t h"] Suc.prems by simp
  moreover have "0 \<le> int n * t" using Suc.prems by simp
  ultimately show ?case by (simp add: min_def algebra_simps)
qed simp

lemma open_wait:
  assumes "lens_enabled s" "no_current xs" "length xs = n" "0 < n" "0 \<le> target_current_ma s" "\<bar>integral_halves s\<bar> \<le> 1998"
  shows "integral_halves (lens_samples cfg v xs s) = min 1998 (integral_halves s + int n * target_current_ma s) \<and>
    last_pwm_output_per_mille (lens_samples cfg v xs s) =
      lens_output (target_current_ma s) (min 1998 (integral_halves s + int n * target_current_ma s))"
proof -
  have "xs \<noteq> []" using assms by auto
  moreover have "fold lens_integral (lens_errors cfg v xs s) (integral_halves s) = min 1998 (integral_halves s + int n * target_current_ma s)"
    unfolding lens_errors_open [OF assms(2)] assms(3) by (rule fold_lens_integral_replicate [OF assms(5,6)])
  ultimately show ?thesis using lens_samples_enabled [OF assms(1), of cfg v xs] by simp
qed

lemma open_self_test:
  assumes s: "lens_enabled s" "\<bar>integral_halves s\<bar> \<le> 1998"
    and w: "length a = 10" "length b = 10" "length c = 10" "no_current a" "no_current b" "no_current c"
  defines "h \<equiv> integral_halves s"
  defines "out1 \<equiv> lens_output 0 h" and "out2 \<equiv> lens_output 50 (min 1998 (h + 500))"
    and "out3 \<equiv> lens_output 50 (min 1998 (h + 1000))"
  shows "fst (lens_self_test cfg v (a, b, c) s) = RET_SUCCESS \<longleftrightarrow> out2 \<noteq> out1 \<and> \<bar>out3 - out2\<bar> \<le> 10"
proof -
  let ?s1 = "lens_samples cfg v a (s\<lparr>target_current_ma := 0\<rparr>)"
  have 1: "integral_halves ?s1 = h \<and> last_pwm_output_per_mille ?s1 = out1"
  proof -
    have "min 1998 (integral_halves s) = integral_halves s" using s by simp
    then show ?thesis using open_wait [of "s\<lparr>target_current_ma := 0\<rparr>" a 10 cfg v] assms by simp
  qed
  let ?s2 = "lens_samples cfg v b (?s1\<lparr>target_current_ma := 50\<rparr>)"
  have 2: "integral_halves ?s2 = min 1998 (h + 500) \<and> last_pwm_output_per_mille ?s2 = out2"
    using open_wait [of "?s1\<lparr>target_current_ma := 50\<rparr>" b 10 cfg v] 1 assms by simp
  let ?s3 = "lens_samples cfg v c ?s2"
  have "\<bar>min 1998 (h + 500)\<bar> \<le> 1998" using s by (auto simp: h_def min_def abs_le_iff)
  then have "last_pwm_output_per_mille ?s3 = lens_output 50 (min 1998 (min 1998 (h + 500) + 500))"
    using open_wait [of ?s2 c 10 cfg v] 2 assms by simp
  moreover have "min 1998 (min 1998 (h + 500) + 500) = min 1998 (h + 1000)" by (simp add: min_def)
  ultimately have 3: "last_pwm_output_per_mille ?s3 = out3" by (simp add: out3_def)
  show ?thesis using 1 2 3 by (simp add: lens_self_test_def Let_def)
qed

lemma lens_output_cases:
  "lens_output t h = (if 1998 \<le> 2 * t + h then 999 else if 2 * t + h \<le> -1998 then -999
     else if 0 \<le> 2 * t + h then (2 * t + h + 1) div 2 else - ((1 - 2 * t - h) div 2))"
  by (auto simp: lens_output_clamp clamp_def lround_halves_def sgn_if min_def abs_if)

lemma open_verdict:
  fixes h :: int
  assumes "\<bar>h\<bar> \<le> 1998"
  defines "out1 \<equiv> lens_output 0 h" and "out2 \<equiv> lens_output 50 (min 1998 (h + 500))"
    and "out3 \<equiv> lens_output 50 (min 1998 (h + 1000))"
  shows "out2 \<noteq> out1 \<and> \<bar>out3 - out2\<bar> \<le> 10 \<longleftrightarrow> 1377 \<le> h \<and> h \<le> 1996"
proof -
  consider "1398 \<le> h" | "898 \<le> h" "h < 1398" | "-600 \<le> h" "h < 898" | "-1100 \<le> h" "h < -600" | "h < -1100"
    by linarith
  then show ?thesis
  proof cases
    case 1
    then have "out2 = 999" "out3 = 999" "out1 = (if 1998 \<le> h then 999 else (h + 1) div 2)"
      using assms(1) by (simp_all add: out1_def out2_def out3_def lens_output_cases min_def)
    then show ?thesis using 1 by simp presburger
  next
    case 2
    then have "out2 = (h + 601) div 2" "out3 = 999" "out1 = (h + 1) div 2"
      by (simp_all add: out1_def out2_def out3_def lens_output_cases min_def add.commute)
    then show ?thesis using 2 by simp presburger
  next
    case 3
    then have "out2 = (h + 601) div 2" "out3 = (h + 1101) div 2"
      by (simp_all add: out2_def out3_def lens_output_cases min_def add.commute)
    then show ?thesis using 3 by simp presburger
  next
    case 4
    then have "out2 = - ((- 599 - h) div 2)" "out3 = (h + 1101) div 2"
      by (simp_all add: out2_def out3_def lens_output_cases min_def add.commute)
    then show ?thesis using 4 by simp presburger
  next
    case 5
    then have "out2 = - ((- 599 - h) div 2)" "out3 = - ((- 1099 - h) div 2)"
      using assms(1) by (simp_all add: out2_def out3_def lens_output_cases min_def)
    then show ?thesis using 5 by simp presburger
  qed
qed

text \<open>
  A lens that is disconnected fails the self test, when each of its waits sees ten samples, unless the integral
  is between 688.5 and 998 per mille when the test starts: then the output saturates between the
  second and the third look, which the test takes for a stable output.
\<close>

theorem lens_open_circuit_verdict:
  assumes "lens_enabled s" "\<bar>integral_halves s\<bar> \<le> 2 * 999"
    and "length a = 10" "length b = 10" "length c = 10" "no_current a" "no_current b" "no_current c"
  shows "fst (lens_self_test cfg v (a, b, c) s) = (if 1377 \<le> integral_halves s \<and> integral_halves s \<le> 1996
    then RET_SUCCESS else RET_ERROR_ASSERT_FAILS)"
proof -
  have two: "fst (lens_self_test cfg v (a, b, c) s) \<in> {RET_SUCCESS, RET_ERROR_ASSERT_FAILS}"
    by (simp add: lens_self_test_def Let_def)
  have "\<bar>integral_halves s\<bar> \<le> 1998" using assms(2) by simp
  then have "fst (lens_self_test cfg v (a, b, c) s) = RET_SUCCESS \<longleftrightarrow> 1377 \<le> integral_halves s \<and> integral_halves s \<le> 1996"
    using open_self_test [of s a b c cfg v] open_verdict [of "integral_halves s"] assms by simp
  then show ?thesis using two by auto
qed

subsection \<open>Exactness of the floats\<close>

lemma single_div_le:
  assumes "0 < double_real y"
  shows "double_real (single_div x y) \<le> double_real x / double_real y * (1 + 1 / 2 ^ 24)"
proof (cases x; cases y)
  fix m e m' e'
  assume xy: "x = Dbl m e" "y = Dbl m' e'"
  then have "0 < m'" using assms by (cases m') simp_all
  then show ?thesis using single_of_ratio_le [of "m' * 2 ^ e" "m * 2 ^ e'"] by (simp add: xy field_simps)
qed

lemma shunt_value: "single_of_ratio 15 100 = Dbl 10066330 26"
  by (simp add: single_of_ratio_def round_even_def Let_def)

lemma lens_current_bound:
  assumes "10 \<le> gain"
  shows "\<bar>lens_current_ma gain (single_of_ratio 15 100) mv\<bar> \<le> \<bar>mv\<bar>"
proof -
  let ?m = "real (nat \<bar>mv\<bar>)" and ?u = "1 + 1 / 2 ^ 24 :: real"
  let ?a = "single_div (Dbl (nat \<bar>mv\<bar>) 0) (Dbl gain 0)"
  have "double_real ?a \<le> ?m / real gain * ?u"
    using single_div_le [of "Dbl gain 0" "Dbl (nat \<bar>mv\<bar>) 0"] assms by simp
  also have "\<dots> \<le> ?m / 10 * ?u" using assms by (intro mult_right_mono divide_left_mono) simp_all
  finally have a: "double_real ?a \<le> ?m / 10 * ?u" .
  have "double_real (single_div ?a (single_of_ratio 15 100)) \<le> double_real ?a / double_real (single_of_ratio 15 100) * ?u"
    by (rule single_div_le) (simp add: shunt_value)
  also have "\<dots> \<le> (?m / 10 * ?u) / (1 / 7) * ?u"
    using a by (intro mult_right_mono frac_le) (simp_all add: shunt_value)
  also have "\<dots> \<le> ?m" by simp
  finally have "real (double_trunc (single_div ?a (single_of_ratio 15 100))) \<le> ?m"
    using double_trunc_le order_trans by blast
  then have "double_trunc (single_div ?a (single_of_ratio 15 100)) \<le> nat \<bar>mv\<bar>" by (simp only: of_nat_le_iff)
  then show ?thesis by (auto simp: lens_current_ma_def abs_mult abs_sgn_eq)
qed

lemma vref_range: "vref_mv_from_raw cfg v x < 65536"
  by (cases "vcfg_board cfg") (simp_all add: vref_mv_from_raw_def)

lemma amplifier_range: "vref < 65536 \<Longrightarrow> 0 \<le> amplifier_mv vref x \<and> amplifier_mv vref x < 2 ^ 20"
proof -
  assume "vref < 65536"
  then have "unat x * vref \<le> 65535 * 65535" using unsigned_less [of x, where 'a = nat] by (intro mult_mono) simp_all
  then have "unat x * vref div 2 ^ 12 < 2 ^ 20" by (simp add: div_less_iff_less_mult)
  then have "int (unat x * vref div 2 ^ 12) < int (2 ^ 20)" by (simp only: of_nat_less_iff)
  then show ?thesis by (simp add: amplifier_mv_def)
qed

text \<open>Every number the callback forms is a multiple of one half below \<open>2 ^ 23\<close>, so C \<^verbatim>\<open>float\<close> holds it exactly.\<close>

lemma lens_floats_exact:
  assumes "lens_amplifier (vcfg_board cfg) v' = (amplifier_gain s, shunt_resistance_ohms s)"
    and "\<bar>target_current_ma s\<bar> \<le> 400" "\<bar>integral_halves s\<bar> \<le> 1998"
    and e: "e = target_current_ma s - measured_current_ma cfg v x s"
  shows "\<bar>e\<bar> < 2 ^ 23" "\<bar>integral_halves s + e\<bar> < 2 ^ 24" "\<bar>2 * target_current_ma s + lens_integral e (integral_halves s)\<bar> < 2 ^ 24"
proof -
  let ?v = "vref_mv_from_raw cfg v (lens_vrefint x)"
  let ?mv = "amplifier_mv ?v (ina240_ref x) - amplifier_mv ?v (ina240_sig x)"
  have "shunt_resistance_ohms s = single_of_ratio 15 100 \<and> 10 \<le> amplifier_gain s"
    using assms(1) by (cases "vcfg_board cfg") (auto split: if_splits)
  then have "\<bar>measured_current_ma cfg v x s\<bar> \<le> \<bar>?mv\<bar>"
    using lens_current_bound [of "amplifier_gain s" ?mv] by (simp add: measured_current_ma_def Let_def)
  moreover have "\<bar>?mv\<bar> < 2 ^ 20"
    using amplifier_range [OF vref_range, of cfg v "lens_vrefint x" "ina240_ref x"]
      amplifier_range [OF vref_range, of cfg v "lens_vrefint x" "ina240_sig x"] by linarith
  ultimately have "\<bar>measured_current_ma cfg v x s\<bar> < 2 ^ 20" by linarith
  then show "\<bar>e\<bar> < 2 ^ 23" "\<bar>integral_halves s + e\<bar> < 2 ^ 24" using assms(2,3) by (simp_all add: e)
  have "\<bar>2 * target_current_ma s + lens_integral e (integral_halves s)\<bar> \<le> 2 * 400 + 1998"
    using assms(2) lens_integral_range [of e "integral_halves s"] by linarith
  then show "\<bar>2 * target_current_ma s + lens_integral e (integral_halves s)\<bar> < 2 ^ 24" by simp
qed

subsection \<open>Examples\<close>

definition lens_example :: liquid_lens where
  "lens_example = \<lparr>target_current_ma = 0, integral_halves = 0, last_pwm_output_per_mille = 0, lens_enabled = False,
     amplifier_gain = 10, shunt_resistance_ohms = single_of_ratio 15 100, compare_pos = 0, compare_neg = 0,
     bridge_on = False, lens_en_pin = False, hrtim_config = [], lens_state = (RET_ERROR_NOT_INITIALIZED, '''')\<rparr>"

definition idle_sample :: lens_sample where
  "idle_sample = \<lparr>ina240_ref = 1650, ina240_sig = 1650, lens_vrefint = 1500\<rparr>"

definition lens_inputs :: lens_init_inputs where
  "lens_inputs = \<lparr>clock_ret = 0, pin_configure_ret = 0, pinctrl_ret = 0,
     channel_rets = [(True, 0), (True, 0), (True, 0)], enable_pin_ret = 0, init_waits = ([], [], []),
     disable_waits = ([], [], []), disable_pin_ret = 0\<rparr>"

lemma lens_output_in_range_witness:
  "\<forall>cfg v c. let s = snd (liquid_set_target_current_ma c (snd (liquid_lens_init cfg v lens_inputs lens_example)))
    in \<bar>target_current_ma s\<bar> \<le> 400 \<and> compare_pos s + compare_neg s = LIQUID_LENS_TIM_PERIOD"
proof (intro allI)
  fix cfg v c
  let ?i = "snd (liquid_lens_init cfg v lens_inputs lens_example)"
  have static: "lens_static lens_example" by (simp add: lens_static_def lens_example_def)
  have ok: "fst (liquid_lens_init cfg v lens_inputs lens_example) = RET_SUCCESS"
    by (simp add: liquid_lens_init_def lens_inputs_def split_def Let_def)
  have "(lens_step cfg v)\<^sup>*\<^sup>* ?i (snd (liquid_set_target_current_ma c ?i))"
    by (rule r_into_rtranclp) (rule lens_step.set_target)
  from lens_output_in_range [OF static ok this]
  show "let s = snd (liquid_set_target_current_ma c ?i)
    in \<bar>target_current_ma s\<bar> \<le> 400 \<and> compare_pos s + compare_neg s = LIQUID_LENS_TIM_PERIOD"
    unfolding Let_def by blast
qed

lemma idle_no_current: "measured_current_ma cfg v idle_sample s = 0"
  by (simp add: measured_current_ma_def idle_sample_def lens_current_ma_def Let_def)

lemma lens_error_saturates_witness:
  "\<forall>cfg v. integral_halves (lens_samples cfg v (replicate 4000 idle_sample) (lens_example\<lparr>lens_enabled := True, target_current_ma := 1\<rparr>)) = 2 * 999"
proof (intro allI)
  fix cfg v
  have "\<forall>x\<in>set (replicate 4000 idle_sample). measured_current_ma cfg v x (lens_example\<lparr>lens_enabled := True, target_current_ma := 1\<rparr>) < 1"
    by (auto simp: idle_no_current dest: in_set_replicate [THEN iffD1])
  then show "integral_halves (lens_samples cfg v (replicate 4000 idle_sample) (lens_example\<lparr>lens_enabled := True, target_current_ma := 1\<rparr>)) = 2 * 999"
    using lens_error_saturates [of "lens_example\<lparr>lens_enabled := True, target_current_ma := 1\<rparr>" "replicate 4000 idle_sample" cfg v]
    by (simp add: lens_example_def)
qed

lemma lens_open_circuit_verdict_witness:
  "\<forall>cfg v. let w = replicate 10 idle_sample; s = lens_example\<lparr>lens_enabled := True\<rparr>
    in fst (lens_self_test cfg v (w, w, w) s) = RET_ERROR_ASSERT_FAILS \<and>
       fst (lens_self_test cfg v (w, w, w) (s\<lparr>integral_halves := 1600\<rparr>)) = RET_SUCCESS"
proof (intro allI)
  fix cfg v
  let ?w = "replicate 10 idle_sample" and ?s = "lens_example\<lparr>lens_enabled := True\<rparr>"
  have w: "no_current ?w" by (simp add: no_current_def idle_sample_def)
  have "length ?w = 10" by simp
  from lens_open_circuit_verdict [OF _ _ this this this w w w, of ?s cfg v]
    lens_open_circuit_verdict [OF _ _ this this this w w w, of "?s\<lparr>integral_halves := 1600\<rparr>" cfg v]
  show "let w = ?w; s = ?s
    in fst (lens_self_test cfg v (w, w, w) s) = RET_ERROR_ASSERT_FAILS \<and>
       fst (lens_self_test cfg v (w, w, w) (s\<lparr>integral_halves := 1600\<rparr>)) = RET_SUCCESS"
    unfolding Let_def by (simp add: lens_example_def)
qed

end
