(* ===== verification/Drv8434s.thy ===== *)
theory Drv8434s
  imports Orb_Prelude
begin

text \<open>
  The driver of the stepper motor of the polarizer wheel
  (\<^verbatim>\<open>optics/polarizer_wheel/drv8434s/drv8434s.c\<close> and \<^verbatim>\<open>drv8434s_private.c\<close>): registers of the chip are read and
  written over SPI, and what was read last is kept in a shadow copy, on which calls that change one bit
  of a register rely. The configuration during the initialization of the wheel is repeated until
  what is read back is what was written.

  The chip is not part of the repository: a transfer is a parameter, a function from the two bytes sent
  and the state of the chip to what \<^verbatim>\<open>spi_transceive\<close> returns, the two bytes received and the new state. What the data sheet
  promises is the locale \<open>drv_chip\<close>. The chip-select pin, set around each transfer, and the null check
  of the instance, which is a static variable, are left out.
\<close>

unbundle bit_operations_syntax

subsection \<open>Registers\<close>

definition DRV8434S_REG_FAULT_ADDR :: u8 where "DRV8434S_REG_FAULT_ADDR = 0"
definition DRV8434S_REG_DIAGSTATUS1_ADDR :: u8 where "DRV8434S_REG_DIAGSTATUS1_ADDR = 1"
definition DRV8434S_REG_DIAGSTATUS2_ADDR :: u8 where "DRV8434S_REG_DIAGSTATUS2_ADDR = 2"
definition DRV8434S_REG_CTRL1_ADDR :: u8 where "DRV8434S_REG_CTRL1_ADDR = 3"
definition DRV8434S_REG_CTRL2_ADDR :: u8 where "DRV8434S_REG_CTRL2_ADDR = 4"
definition DRV8434S_REG_CTRL3_ADDR :: u8 where "DRV8434S_REG_CTRL3_ADDR = 5"
definition DRV8434S_REG_CTRL4_ADDR :: u8 where "DRV8434S_REG_CTRL4_ADDR = 6"
definition DRV8434S_REG_CTRL5_ADDR :: u8 where "DRV8434S_REG_CTRL5_ADDR = 7"
definition DRV8434S_REG_CTRL6_ADDR :: u8 where "DRV8434S_REG_CTRL6_ADDR = 8"
definition DRV8434S_REG_CTRL7_ADDR :: u8 where "DRV8434S_REG_CTRL7_ADDR = 9"
definition DRV8434S_REG_CTRL8_ADDR :: u8 where "DRV8434S_REG_CTRL8_ADDR = 10"
definition DRV8434S_REG_CTRL9_ADDR :: u8 where "DRV8434S_REG_CTRL9_ADDR = 11"

lemmas drv_addresses =
  DRV8434S_REG_FAULT_ADDR_def DRV8434S_REG_DIAGSTATUS1_ADDR_def DRV8434S_REG_DIAGSTATUS2_ADDR_def
  DRV8434S_REG_CTRL1_ADDR_def DRV8434S_REG_CTRL2_ADDR_def DRV8434S_REG_CTRL3_ADDR_def DRV8434S_REG_CTRL4_ADDR_def
  DRV8434S_REG_CTRL5_ADDR_def DRV8434S_REG_CTRL6_ADDR_def DRV8434S_REG_CTRL7_ADDR_def DRV8434S_REG_CTRL8_ADDR_def
  DRV8434S_REG_CTRL9_ADDR_def

definition DRV8434S_REG_CTRL4_VAL_LOCK :: u8 where "DRV8434S_REG_CTRL4_VAL_LOCK = 6"
definition DRV8434S_REG_CTRL4_VAL_UNLOCK :: u8 where "DRV8434S_REG_CTRL4_VAL_UNLOCK = 3"

text \<open>
  The twelve registers are kept under their address; the bit fields of the unions that the driver writes are
  \<open>EN_OUT\<close>, \<open>CLR_FLT\<close> and \<open>EN_STL\<close>, one bit each, and \<open>LOCK\<close> and \<open>TRQ_DAC\<close>.
\<close>

type_synonym drv_registers = "u8 \<Rightarrow> u8"

definition set_EN_OUT :: "bool \<Rightarrow> u8 \<Rightarrow> u8" where
  "set_EN_OUT b ctrl2 = (if b then set_bit 7 ctrl2 else unset_bit 7 ctrl2)"

definition set_CLR_FLT :: "u8 \<Rightarrow> u8" where "set_CLR_FLT ctrl4 = set_bit 7 ctrl4"

definition set_EN_STL :: "u8 \<Rightarrow> u8" where "set_EN_STL ctrl5 = set_bit 4 ctrl5"

definition LOCK :: "u8 \<Rightarrow> u8" where "LOCK ctrl4 = drop_bit 4 ctrl4 AND 7"

definition set_LOCK :: "u8 \<Rightarrow> u8 \<Rightarrow> u8" where
  "set_LOCK v ctrl4 = (ctrl4 AND 0x8F) OR push_bit 4 (v AND 7)"

definition set_TRQ_DAC :: "u8 \<Rightarrow> u8 \<Rightarrow> u8" where
  "set_TRQ_DAC v ctrl1 = (ctrl1 AND 0x0F) OR push_bit 4 (v AND 0x0F)"

record drv_config =
  cfg_ctrl2 :: u8
  cfg_ctrl3 :: u8
  cfg_ctrl4 :: u8
  cfg_ctrl7 :: u8

text \<open>\<open>chip\<close> is the state of the chip, \<open>transfers\<close> what the transfers returned so far.\<close>

record 'c drv8434s =
  device_cfg :: drv_config
  registers :: drv_registers
  chip :: 'c
  transfers :: "int list"

type_synonym 'c spi_transceive = "u8 \<times> u8 \<Rightarrow> 'c \<Rightarrow> int \<times> (u8 \<times> u8) \<times> 'c"

subsection \<open>Reading and writing a register\<close>

definition validate_register_operation :: "u8 \<Rightarrow> bool \<Rightarrow> bool" where
  "validate_register_operation address wr =
    (if address \<in> {DRV8434S_REG_CTRL1_ADDR, DRV8434S_REG_CTRL2_ADDR, DRV8434S_REG_CTRL3_ADDR, DRV8434S_REG_CTRL4_ADDR,
         DRV8434S_REG_CTRL5_ADDR, DRV8434S_REG_CTRL6_ADDR, DRV8434S_REG_CTRL7_ADDR} then True
     else if address \<in> {DRV8434S_REG_FAULT_ADDR, DRV8434S_REG_DIAGSTATUS1_ADDR, DRV8434S_REG_DIAGSTATUS2_ADDR,
         DRV8434S_REG_CTRL8_ADDR, DRV8434S_REG_CTRL9_ADDR} then \<not> wr
     else False)"

definition populate_shadow_register :: "u8 \<Rightarrow> u8 \<Rightarrow> 'c drv8434s \<Rightarrow> 'c drv8434s" where
  "populate_shadow_register address x s =
    (if address \<le> DRV8434S_REG_CTRL9_ADDR then s\<lparr>registers := (registers s)(address := x)\<rparr> else s)"

definition tx_buffer :: "u16 \<Rightarrow> u8 \<times> u8" where
  "tx_buffer tx_word = (ucast (drop_bit 8 tx_word AND 0xFF), ucast (tx_word AND 0xFF))"

definition read_word :: "u8 \<Rightarrow> u16" where
  "read_word address = push_bit 9 (ucast address) OR push_bit 14 1"

definition write_word :: "u8 \<Rightarrow> u8 \<Rightarrow> u16" where
  "write_word address x = push_bit 9 (ucast address) OR ucast x"

definition drv_transfer :: "'c spi_transceive \<Rightarrow> u16 \<Rightarrow> 'c drv8434s \<Rightarrow> int \<times> (u8 \<times> u8) \<times> 'c drv8434s" where
  "drv_transfer spi w s =
    (let (ret, rx, c) = spi (tx_buffer w) (chip s) in (ret, rx, s\<lparr>chip := c, transfers := transfers s @ [ret]\<rparr>))"

definition drv8434s_private_reg_read :: "'c spi_transceive \<Rightarrow> u8 \<Rightarrow> 'c drv8434s \<Rightarrow> ret_code_t \<times> 'c drv8434s" where
  "drv8434s_private_reg_read spi address s =
    (if \<not> validate_register_operation address False then (RET_ERROR_INVALID_ADDR, s)
     else let (ret, rx, s1) = drv_transfer spi (read_word address) s
          in if ret \<noteq> 0 then (RET_ERROR_BUSY, s1)
             else (RET_SUCCESS, populate_shadow_register address (snd rx)
                    (s1\<lparr>registers := (registers s1)(DRV8434S_REG_FAULT_ADDR := fst rx)\<rparr>)))"

definition drv8434s_private_reg_write :: "'c spi_transceive \<Rightarrow> u8 \<Rightarrow> u8 \<Rightarrow> 'c drv8434s \<Rightarrow> ret_code_t \<times> 'c drv8434s" where
  "drv8434s_private_reg_write spi address x s =
    (if \<not> validate_register_operation address True then (RET_ERROR_INVALID_ADDR, s)
     else let (ret, rx, s1) = drv_transfer spi (write_word address x) s
          in if ret \<noteq> 0 then (RET_ERROR_BUSY, s1)
             else (RET_SUCCESS, s1\<lparr>registers := (registers s1)(DRV8434S_REG_FAULT_ADDR := fst rx)\<rparr>))"

subsection \<open>Operations\<close>

definition drv8434s_init :: "'c \<Rightarrow> 'c drv8434s" where
  "drv8434s_init c = \<lparr>device_cfg = \<lparr>cfg_ctrl2 = 0, cfg_ctrl3 = 0, cfg_ctrl4 = 0, cfg_ctrl7 = 0\<rparr>,
     registers = (\<lambda>_. 0), chip = c, transfers = []\<rparr>"

definition drv8434s_disable :: "'c spi_transceive \<Rightarrow> 'c drv8434s \<Rightarrow> ret_code_t \<times> 'c drv8434s" where
  "drv8434s_disable spi s = drv8434s_private_reg_write spi DRV8434S_REG_CTRL2_ADDR
     (set_EN_OUT False (registers s DRV8434S_REG_CTRL2_ADDR)) s"

definition drv8434s_enable :: "'c spi_transceive \<Rightarrow> 'c drv8434s \<Rightarrow> ret_code_t \<times> 'c drv8434s" where
  "drv8434s_enable spi s = drv8434s_private_reg_write spi DRV8434S_REG_CTRL2_ADDR
     (set_EN_OUT True (registers s DRV8434S_REG_CTRL2_ADDR)) s"

definition drv8434s_clear_fault :: "'c spi_transceive \<Rightarrow> 'c drv8434s \<Rightarrow> ret_code_t \<times> 'c drv8434s" where
  "drv8434s_clear_fault spi s = drv8434s_private_reg_write spi DRV8434S_REG_CTRL4_ADDR
     (set_CLR_FLT (registers s DRV8434S_REG_CTRL4_ADDR)) s"

definition drv8434s_unlock_control_registers :: "'c spi_transceive \<Rightarrow> 'c drv8434s \<Rightarrow> ret_code_t \<times> 'c drv8434s" where
  "drv8434s_unlock_control_registers spi s = drv8434s_private_reg_write spi DRV8434S_REG_CTRL4_ADDR
     (set_LOCK DRV8434S_REG_CTRL4_VAL_UNLOCK (registers s DRV8434S_REG_CTRL4_ADDR)) s"

definition drv8434s_lock_control_registers :: "'c spi_transceive \<Rightarrow> 'c drv8434s \<Rightarrow> ret_code_t \<times> 'c drv8434s" where
  "drv8434s_lock_control_registers spi s = drv8434s_private_reg_write spi DRV8434S_REG_CTRL4_ADDR
     (set_LOCK DRV8434S_REG_CTRL4_VAL_LOCK (registers s DRV8434S_REG_CTRL4_ADDR)) s"

definition drv8434s_enable_stall_guard :: "'c spi_transceive \<Rightarrow> 'c drv8434s \<Rightarrow> ret_code_t \<times> 'c drv8434s" where
  "drv8434s_enable_stall_guard spi s = drv8434s_private_reg_write spi DRV8434S_REG_CTRL5_ADDR
     (set_EN_STL (registers s DRV8434S_REG_CTRL5_ADDR)) s"

definition drv8434s_scale_current :: "'c spi_transceive \<Rightarrow> u8 \<Rightarrow> 'c drv8434s \<Rightarrow> ret_code_t \<times> 'c drv8434s" where
  "drv8434s_scale_current spi trq_dac s = drv8434s_private_reg_write spi DRV8434S_REG_CTRL1_ADDR
     (set_TRQ_DAC trq_dac (registers s DRV8434S_REG_CTRL1_ADDR)) s"

definition drv8434s_get_register_data :: "'c drv8434s \<Rightarrow> ret_code_t \<times> drv_registers" where
  "drv8434s_get_register_data s = (RET_SUCCESS, registers s)"

text \<open>Operations in a row, up to the first that fails.\<close>

fun drv_seq :: "('s \<Rightarrow> ret_code_t \<times> 's) list \<Rightarrow> 's \<Rightarrow> ret_code_t \<times> 's" where
  "drv_seq [] s = (RET_SUCCESS, s)"
| "drv_seq (f # fs) s = (let (ret, s1) = f s in if ret \<noteq> RET_SUCCESS then (ret, s1) else drv_seq fs s1)"

definition drv8434s_write_config :: "'c spi_transceive \<Rightarrow> drv_config \<Rightarrow> 'c drv8434s \<Rightarrow> ret_code_t \<times> 'c drv8434s" where
  "drv8434s_write_config spi cfg s =
    drv_seq [drv8434s_private_reg_write spi DRV8434S_REG_CTRL4_ADDR (cfg_ctrl4 cfg),
             drv8434s_private_reg_write spi DRV8434S_REG_CTRL2_ADDR (cfg_ctrl2 cfg),
             drv8434s_private_reg_write spi DRV8434S_REG_CTRL3_ADDR (cfg_ctrl3 cfg),
             drv8434s_private_reg_write spi DRV8434S_REG_CTRL7_ADDR (cfg_ctrl7 cfg)] (s\<lparr>device_cfg := cfg\<rparr>)"

definition drv8434s_read_config :: "'c spi_transceive \<Rightarrow> 'c drv8434s \<Rightarrow> ret_code_t \<times> 'c drv8434s" where
  "drv8434s_read_config spi s =
    drv_seq [drv8434s_private_reg_read spi DRV8434S_REG_CTRL2_ADDR,
             drv8434s_private_reg_read spi DRV8434S_REG_CTRL3_ADDR,
             drv8434s_private_reg_read spi DRV8434S_REG_CTRL4_ADDR,
             drv8434s_private_reg_read spi DRV8434S_REG_CTRL7_ADDR] s"

definition drv8434s_verify_config :: "'c drv8434s \<Rightarrow> ret_code_t" where
  "drv8434s_verify_config s =
    (if cfg_ctrl2 (device_cfg s) = registers s DRV8434S_REG_CTRL2_ADDR \<and>
        cfg_ctrl3 (device_cfg s) = registers s DRV8434S_REG_CTRL3_ADDR \<and>
        cfg_ctrl4 (device_cfg s) = registers s DRV8434S_REG_CTRL4_ADDR \<and>
        cfg_ctrl7 (device_cfg s) = registers s DRV8434S_REG_CTRL7_ADDR then RET_SUCCESS else RET_ERROR_INTERNAL)"

subsection \<open>Configuration of the polarizer wheel's motor\<close>

text \<open>
  Microsteps of 1/8 step have the code 5. A pass of the loop ends at its first failure; there are up
  to four.
\<close>

definition polarizer_drv_cfg :: drv_config where
  "polarizer_drv_cfg = \<lparr>cfg_ctrl2 = 0x07, cfg_ctrl3 = 0x05, cfg_ctrl4 = 0x30, cfg_ctrl7 = 0x20\<rparr>"

definition drv_configure_pass :: "'c spi_transceive \<Rightarrow> 'c drv8434s \<Rightarrow> ret_code_t \<times> 'c drv8434s" where
  "drv_configure_pass spi =
    drv_seq [drv8434s_clear_fault spi, drv8434s_write_config spi polarizer_drv_cfg, drv8434s_read_config spi,
             \<lambda>s. (drv8434s_verify_config s, s)]"

fun drv_configure :: "'c spi_transceive \<Rightarrow> nat \<Rightarrow> 'c drv8434s \<Rightarrow> ret_code_t \<times> 'c drv8434s" where
  "drv_configure spi 0 s = drv_configure_pass spi s"
| "drv_configure spi (Suc timeout) s =
    (let (ret, s1) = drv_configure_pass spi s
     in if ret \<noteq> RET_SUCCESS then drv_configure spi timeout s1 else (ret, s1))"

definition drv_start :: "'c spi_transceive \<Rightarrow> 'c \<Rightarrow> ret_code_t \<times> 'c drv8434s" where
  "drv_start spi c = drv_seq [drv_configure spi 3, drv8434s_enable spi] (drv8434s_init c)"

subsection \<open>The chip\<close>

text \<open>
  The first byte of a frame has the direction in bit 6 and the address in bits 1 to 5. \<open>regs\<close> are the contents of the
  control registers. As the data sheet has it: a read returns a register and changes none; a write
  sets it unless the registers are locked; the bit that clears the faults goes back to 0 by itself; the registers
  are locked only by writing the code of the lock to \<open>CTRL4\<close>. A transfer that fails may or may not have
  reached the chip.
\<close>

definition frame_address :: "u8 \<Rightarrow> u8" where "frame_address hi = drop_bit 1 hi AND 31"

locale drv_chip =
  fixes spi :: "'c spi_transceive" and regs :: "'c \<Rightarrow> u8 \<Rightarrow> u8"
  assumes reads: "\<lbrakk>spi (hi, lo) c = (ret, (f, x), c'); bit hi 6\<rbrakk> \<Longrightarrow> regs c' = regs c"
    and read_value: "\<lbrakk>spi (hi, lo) c = (0, (f, x), c'); bit hi 6; frame_address hi \<in> {3, 4, 5, 6, 7, 8, 9}\<rbrakk> \<Longrightarrow>
      x = regs c (frame_address hi)"
    and writes: "\<lbrakk>spi (hi, lo) c = (0, rx, c'); \<not> bit hi 6; frame_address hi \<in> {3, 4, 5, 7, 8, 9}; LOCK (regs c 6) \<noteq> 6\<rbrakk> \<Longrightarrow>
      regs c' = (regs c)(frame_address hi := lo)"
    and writes_ctrl4: "\<lbrakk>spi (hi, lo) c = (0, rx, c'); \<not> bit hi 6; frame_address hi = 6; LOCK lo = 3\<rbrakk> \<Longrightarrow>
      regs c' = (regs c)(6 := unset_bit 7 lo)"
    and stays_unlocked: "\<lbrakk>spi (hi, lo) c = (ret, rx, c'); LOCK (regs c 6) \<noteq> 6; bit hi 6 \<or> frame_address hi \<noteq> 6 \<or> LOCK lo \<noteq> 6\<rbrakk> \<Longrightarrow>
      LOCK (regs c' 6) \<noteq> 6"

subsection \<open>Steps that succeed or fail with one transfer\<close>

definition failures :: "'c drv8434s \<Rightarrow> nat" where
  "failures s = length (filter (\<lambda>r. r \<noteq> 0) (transfers s))"

text \<open>The shadow registers but for the one of the faults, which every transfer overwrites.\<close>

definition shadow :: "'c drv8434s \<Rightarrow> drv_registers" where
  "shadow s = (registers s)(0 := 0)"

definition unlocked :: "('c \<Rightarrow> u8 \<Rightarrow> u8) \<Rightarrow> 'c drv8434s \<Rightarrow> bool" where
  "unlocked regs s \<longleftrightarrow> LOCK (regs (chip s) 6) \<noteq> 6 \<and> LOCK (shadow s 6) \<noteq> 6"

text \<open>
  \<open>drv_triple regs P f Q\<close>: from an unlocked state with \<open>P\<close>, \<open>f\<close> succeeds without a failed transfer and establishes \<open>Q\<close>, or
  reports \<^const>\<open>RET_ERROR_BUSY\<close> after exactly one.
\<close>

type_synonym drv_pred = "drv_registers \<Rightarrow> drv_registers \<Rightarrow> drv_config \<Rightarrow> bool"

definition drv_at :: "('c \<Rightarrow> u8 \<Rightarrow> u8) \<Rightarrow> drv_pred \<Rightarrow> 'c drv8434s \<Rightarrow> bool" where
  "drv_at regs P s \<longleftrightarrow> unlocked regs s \<and> P (regs (chip s)) (shadow s) (device_cfg s)"

definition drv_outcome ::
    "('c \<Rightarrow> u8 \<Rightarrow> u8) \<Rightarrow> drv_pred \<Rightarrow> 'c drv8434s \<Rightarrow> ret_code_t \<times> 'c drv8434s \<Rightarrow> bool" where
  "drv_outcome regs Q s r \<longleftrightarrow>
    fst r = RET_SUCCESS \<and> failures (snd r) = failures s \<and> drv_at regs Q (snd r) \<or>
    fst r = RET_ERROR_BUSY \<and> failures (snd r) = Suc (failures s) \<and> unlocked regs (snd r)"

definition drv_triple ::
    "('c \<Rightarrow> u8 \<Rightarrow> u8) \<Rightarrow> drv_pred \<Rightarrow> ('c drv8434s \<Rightarrow> ret_code_t \<times> 'c drv8434s) \<Rightarrow> drv_pred \<Rightarrow> bool" where
  "drv_triple regs P f Q \<longleftrightarrow> (\<forall>s. drv_at regs P s \<longrightarrow> drv_outcome regs Q s (f s))"

lemma drv_triple_Nil: "drv_triple regs P (drv_seq []) P"
  by (simp add: drv_triple_def drv_outcome_def)

lemma drv_triple_seq:
  assumes "drv_triple regs P f Q" "drv_triple regs Q (drv_seq fs) R"
  shows "drv_triple regs P (drv_seq (f # fs)) R"
  unfolding drv_triple_def
proof (intro allI impI)
  fix s assume "drv_at regs P s"
  then have 1: "drv_outcome regs Q s (f s)" using assms(1) by (simp add: drv_triple_def)
  show "drv_outcome regs R s (drv_seq (f # fs) s)"
  proof (cases "fst (f s) = RET_SUCCESS")
    case True
    then have at: "drv_at regs Q (snd (f s))" and n: "failures (snd (f s)) = failures s"
      using 1 by (simp_all add: drv_outcome_def)
    have "drv_outcome regs R (snd (f s)) (drv_seq fs (snd (f s)))" using assms(2) at by (simp add: drv_triple_def)
    then show ?thesis using True n by (simp add: split_def drv_outcome_def)
  next
    case False
    then show ?thesis using 1 by (simp add: split_def Let_def drv_outcome_def)
  qed
qed

lemma drv_triple_pre:
  assumes "drv_triple regs P f Q" "\<And>r sh c. P' r sh c \<Longrightarrow> P r sh c"
  shows "drv_triple regs P' f Q"
  using assms by (simp add: drv_triple_def drv_at_def)

text \<open>The frames of the accesses.\<close>

lemma read_frame:
  "a \<in> {4, 5, 6, 9} \<Longrightarrow>
    bit (fst (tx_buffer (read_word a))) 6 \<and> frame_address (fst (tx_buffer (read_word a))) = a"
  by (auto simp: tx_buffer_def read_word_def frame_address_def)

lemma drop_ucast: "drop_bit 8 (ucast (x :: u8) :: u16) = 0"
  by (rule bit_word_eqI) (auto simp: bit_simps dest: bit_imp_le_length)

lemma low_byte: "(w :: u16) AND 0xFF = take_bit 8 w"
  by (simp add: take_bit_eq_mask mask_eq_exp_minus_1)

lemma write_frame:
  assumes "a \<in> {3, 4, 5, 6, 7, 8, 9}"
  shows "\<not> bit (fst (tx_buffer (write_word a x))) 6 \<and> frame_address (fst (tx_buffer (write_word a x))) = a \<and>
    snd (tx_buffer (write_word a x)) = x"
proof -
  have "drop_bit 8 (write_word a x) = drop_bit 8 (push_bit 9 (ucast a))"
    by (simp add: write_word_def drop_ucast)
  then have "\<not> bit (fst (tx_buffer (write_word a x))) 6 \<and> frame_address (fst (tx_buffer (write_word a x))) = a"
    using assms by (auto simp: tx_buffer_def frame_address_def)
  moreover have "snd (tx_buffer (write_word a x)) = x"
    using assms by (intro bit_word_eqI) (auto simp: tx_buffer_def write_word_def low_byte bit_simps)
  ultimately show ?thesis by blast
qed

subsection \<open>What one access does\<close>

lemma drv_transfer_simps [simp]:
  "failures (snd (snd (drv_transfer spi w s))) = failures s + (if fst (drv_transfer spi w s) \<noteq> 0 then 1 else 0)"
  "registers (snd (snd (drv_transfer spi w s))) = registers s"
  "device_cfg (snd (snd (drv_transfer spi w s))) = device_cfg s"
  by (simp_all add: drv_transfer_def failures_def split_def Let_def)

lemma shadow_populate:
  "0 < a \<Longrightarrow> a \<le> DRV8434S_REG_CTRL9_ADDR \<Longrightarrow>
    shadow (populate_shadow_register a x s) = (shadow s)(a := x)"
  by (auto simp: populate_shadow_register_def shadow_def)

context drv_chip
begin

text \<open>A write, whatever it does to the contents of the chip.\<close>

lemma write_outcome:
  assumes a: "a \<in> {3, 4, 5, 6, 7, 8, 9}" "a \<noteq> 6 \<or> LOCK x \<noteq> 6" and s: "unlocked regs s"
    and Q: "\<And>hi rx c'. \<lbrakk>spi (hi, x) (chip s) = (0, rx, c'); \<not> bit hi 6; frame_address hi = a\<rbrakk> \<Longrightarrow>
      Q (regs c') (shadow s) (device_cfg s)"
  shows "drv_outcome regs Q s (drv8434s_private_reg_write spi a x s)"
proof -
  obtain hi lo where f: "tx_buffer (write_word a x) = (hi, lo)" by fastforce
  obtain ret rx c' where t: "spi (hi, lo) (chip s) = (ret, rx, c')" by (metis surj_pair)
  have hl: "\<not> bit hi 6" "frame_address hi = a" "lo = x" using write_frame [of a x] f a by auto
  have ok: "validate_register_operation a True"
    using a by (auto simp: validate_register_operation_def drv_addresses)
  have u: "LOCK (regs c' 6) \<noteq> 6" using stays_unlocked [OF t] s hl a by (auto simp: unlocked_def)
  show ?thesis
  proof (cases "ret = 0")
    case True
    then have "Q (regs c') (shadow s) (device_cfg s)" using Q [of hi rx c'] t hl by simp
    then show ?thesis using True s u
      by (simp add: drv8434s_private_reg_write_def ok drv_transfer_def f t drv_outcome_def drv_at_def unlocked_def
          failures_def shadow_def drv_addresses)
  next
    case False
    then show ?thesis using s u
      by (simp add: drv8434s_private_reg_write_def ok drv_transfer_def f t drv_outcome_def unlocked_def
          failures_def shadow_def)
  qed
qed

lemma write_triple:
  "a \<in> {3, 4, 5, 7, 8, 9} \<Longrightarrow>
    drv_triple regs (\<lambda>r sh c. Q (r(a := x)) sh c) (drv8434s_private_reg_write spi a x) Q"
  unfolding drv_triple_def drv_at_def
  by (intro allI impI write_outcome) (auto simp: unlocked_def dest!: writes)

lemma write_ctrl4_triple:
  "LOCK x = 3 \<Longrightarrow>
    drv_triple regs (\<lambda>r sh c. Q (r(6 := unset_bit 7 x)) sh c) (drv8434s_private_reg_write spi 6 x) Q"
  unfolding drv_triple_def drv_at_def
  by (intro allI impI write_outcome) (auto dest!: writes_ctrl4)

text \<open>Clearing the faults leaves the lock as it was; nothing is said of the other registers.\<close>

lemma LOCK_set_CLR_FLT [simp]: "LOCK (set_CLR_FLT x) = LOCK x"
  by (rule bit_word_eqI) (auto simp: LOCK_def set_CLR_FLT_def bit_simps)

lemma clear_fault_triple: "drv_triple regs (\<lambda>r sh c. True) (drv8434s_clear_fault spi) (\<lambda>r sh c. True)"
  unfolding drv_triple_def drv_at_def drv8434s_clear_fault_def
  by (intro allI impI write_outcome) (auto simp: unlocked_def shadow_def drv_addresses)

lemma read_triple:
  assumes a: "a \<in> {4, 5, 6, 9}"
  shows "drv_triple regs (\<lambda>r sh c. Q r (sh(a := r a)) c) (drv8434s_private_reg_read spi a) Q"
  unfolding drv_triple_def
proof (intro allI impI)
  fix s assume at: "drv_at regs (\<lambda>r sh c. Q r (sh(a := r a)) c) s"
  obtain hi lo where f: "tx_buffer (read_word a) = (hi, lo)" by fastforce
  obtain ret fx x c' where t: "spi (hi, lo) (chip s) = (ret, (fx, x), c')" by (metis surj_pair)
  have hl: "bit hi 6" "frame_address hi = a" using read_frame [of a] f a by auto
  have ok: "validate_register_operation a False" "a \<noteq> 0" "a \<le> 11"
    using a by (auto simp: validate_register_operation_def drv_addresses)
  have r: "regs c' = regs (chip s)" by (rule reads [OF t hl(1)])
  show "drv_outcome regs Q s (drv8434s_private_reg_read spi a s)"
  proof (cases "ret = 0")
    case True
    then have x: "x = regs (chip s) a" using read_value [of hi lo "chip s" fx x c'] t hl a by auto
    have sh: "((registers s)(0 := fx, a := x))(0 := 0) = (shadow s)(a := regs (chip s) a)"
      using ok by (auto simp: shadow_def x)
    show ?thesis using True at r ok sh
      by (simp add: drv8434s_private_reg_read_def drv_transfer_def f t drv_outcome_def drv_at_def unlocked_def
          failures_def populate_shadow_register_def drv_addresses) (simp add: shadow_def fun_upd_twist)
  next
    case False
    then show ?thesis using at r
      by (simp add: drv8434s_private_reg_read_def ok drv_transfer_def f t drv_outcome_def drv_at_def unlocked_def
          failures_def shadow_def)
  qed
qed

lemma write_config_triple:
  assumes "LOCK (cfg_ctrl4 cfg) = 3"
  shows "drv_triple regs
    (\<lambda>r sh c. Q (r(6 := unset_bit 7 (cfg_ctrl4 cfg), 4 := cfg_ctrl2 cfg, 5 := cfg_ctrl3 cfg, 9 := cfg_ctrl7 cfg)) sh cfg)
    (drv8434s_write_config spi cfg) Q"
proof -
  have seq: "drv_triple regs
      (\<lambda>r sh c. Q (r(6 := unset_bit 7 (cfg_ctrl4 cfg), 4 := cfg_ctrl2 cfg, 5 := cfg_ctrl3 cfg, 9 := cfg_ctrl7 cfg)) sh c)
      (drv_seq [drv8434s_private_reg_write spi 6 (cfg_ctrl4 cfg), drv8434s_private_reg_write spi 4 (cfg_ctrl2 cfg),
        drv8434s_private_reg_write spi 5 (cfg_ctrl3 cfg), drv8434s_private_reg_write spi 9 (cfg_ctrl7 cfg)]) Q"
    by (rule drv_triple_seq [OF write_ctrl4_triple [OF assms]] drv_triple_seq [OF write_triple] drv_triple_Nil | simp)+
  show ?thesis unfolding drv_triple_def
  proof (intro allI impI)
    fix s assume at: "drv_at regs (\<lambda>r sh c. Q (r(6 := unset_bit 7 (cfg_ctrl4 cfg), 4 := cfg_ctrl2 cfg, 5 := cfg_ctrl3 cfg,
      9 := cfg_ctrl7 cfg)) sh cfg) s"
    have "drv_at regs (\<lambda>r sh c. Q (r(6 := unset_bit 7 (cfg_ctrl4 cfg), 4 := cfg_ctrl2 cfg, 5 := cfg_ctrl3 cfg,
      9 := cfg_ctrl7 cfg)) sh c) (s\<lparr>device_cfg := cfg\<rparr>)"
      using at by (simp add: drv_at_def unlocked_def shadow_def)
    then have "drv_outcome regs Q (s\<lparr>device_cfg := cfg\<rparr>) (drv8434s_write_config spi cfg s)"
      using seq unfolding drv_triple_def drv8434s_write_config_def drv_addresses by blast
    then show "drv_outcome regs Q s (drv8434s_write_config spi cfg s)" by (simp add: drv_outcome_def failures_def)
  qed
qed

lemma read_config_triple:
  "drv_triple regs (\<lambda>r sh c. Q r (sh(4 := r 4, 5 := r 5, 6 := r 6, 9 := r 9)) c) (drv8434s_read_config spi) Q"
  unfolding drv8434s_read_config_def [abs_def] drv_addresses
  by (rule drv_triple_seq [OF read_triple] drv_triple_Nil | simp)+

end

lemma verify_triple:
  "drv_triple regs (\<lambda>r sh c. Q r sh c \<and> cfg_ctrl2 c = sh 4 \<and> cfg_ctrl3 c = sh 5 \<and> cfg_ctrl4 c = sh 6 \<and> cfg_ctrl7 c = sh 9)
    (\<lambda>s. (drv8434s_verify_config s, s)) Q"
  by (auto simp: drv_triple_def drv_at_def drv_outcome_def drv8434s_verify_config_def shadow_def drv_addresses)

subsection \<open>The configuration succeeds unless four transfers fail\<close>

text \<open>The registers of the chip and their shadow after a pass that succeeds.\<close>

definition wheel_configured :: drv_pred where
  "wheel_configured r sh c \<longleftrightarrow> r 4 = 0x07 \<and> r 5 = 0x05 \<and> r 6 = 0x30 \<and> r 9 = 0x20 \<and> sh 4 = 0x07"

context drv_chip
begin

lemma configure_pass_triple: "drv_triple regs (\<lambda>r sh c. True) (drv_configure_pass spi) wheel_configured"
proof -
  let ?V = "\<lambda>r sh c. wheel_configured r sh c \<and> cfg_ctrl2 c = sh 4 \<and> cfg_ctrl3 c = sh 5 \<and> cfg_ctrl4 c = sh 6 \<and> cfg_ctrl7 c = sh 9"
  let ?R = "\<lambda>r sh c. ?V r (sh(4 := r 4, 5 := r 5, 6 := r 6, 9 := r 9)) c"
  have 1: "drv_triple regs ?V (drv_seq [\<lambda>s. (drv8434s_verify_config s, s)]) wheel_configured"
    by (rule drv_triple_seq [OF verify_triple drv_triple_Nil])
  have 2: "drv_triple regs ?R (drv_seq [drv8434s_read_config spi, \<lambda>s. (drv8434s_verify_config s, s)]) wheel_configured"
    by (rule drv_triple_seq [OF read_config_triple 1])
  have "drv_triple regs (\<lambda>r sh c. True) (drv8434s_write_config spi polarizer_drv_cfg) ?R"
    by (rule drv_triple_pre [OF write_config_triple [of polarizer_drv_cfg ?R]])
      (simp_all add: polarizer_drv_cfg_def wheel_configured_def LOCK_def)
  then show ?thesis unfolding drv_configure_pass_def
    by (intro drv_triple_seq [OF clear_fault_triple] drv_triple_seq [OF _ 2])
qed

lemma configure_result:
  assumes "unlocked regs s" "drv_configure spi timeout s = (ret, s')"
  shows "ret = RET_SUCCESS \<and> failures s' \<le> failures s + timeout \<and> drv_at regs wheel_configured s' \<or>
    ret = RET_ERROR_BUSY \<and> failures s' = failures s + timeout + 1 \<and> unlocked regs s'"
  using assms
proof (induction timeout arbitrary: s)
  case 0
  then have "drv_configure_pass spi s = (ret, s')" by simp
  then have "drv_outcome regs wheel_configured s (ret, s')"
    using configure_pass_triple 0 by (metis drv_triple_def drv_at_def)
  then show ?case by (auto simp: drv_outcome_def)
next
  case (Suc timeout)
  obtain r1 s1 where p: "drv_configure_pass spi s = (r1, s1)" by fastforce
  have "drv_outcome regs wheel_configured s (r1, s1)"
    using configure_pass_triple Suc.prems(1) p by (metis drv_triple_def drv_at_def)
  then consider "r1 = RET_SUCCESS" "failures s1 = failures s" "drv_at regs wheel_configured s1"
    | "r1 = RET_ERROR_BUSY" "failures s1 = Suc (failures s)" "unlocked regs s1"
    by (auto simp: drv_outcome_def)
  then show ?case
  proof cases
    case 1
    then show ?thesis using Suc.prems(2) p by simp
  next
    case 2
    then have "drv_configure spi timeout s1 = (ret, s')" using Suc.prems(2) p by simp
    from Suc.IH [OF 2(3) this] 2(2) show ?thesis by auto
  qed
qed

lemma init_unlocked: "LOCK (regs c 6) \<noteq> 6 \<Longrightarrow> unlocked regs (drv8434s_init c)"
  by (simp add: unlocked_def drv8434s_init_def shadow_def LOCK_def)

lemma failures_init [simp]: "failures (drv8434s_init c) = 0"
  by (simp add: failures_def drv8434s_init_def)

lemma enable_triple:
  "drv_triple regs wheel_configured (drv8434s_enable spi) (\<lambda>r sh c. r 4 = 0x87 \<and> r 5 = 0x05 \<and> r 6 = 0x30 \<and> r 9 = 0x20)"
  unfolding drv_triple_def drv8434s_enable_def
proof (intro allI impI)
  fix s assume at: "drv_at regs wheel_configured s"
  then have "registers s 4 = 0x07" by (simp add: drv_at_def wheel_configured_def shadow_def)
  then have "set_EN_OUT True (registers s DRV8434S_REG_CTRL2_ADDR) = 0x87"
    by (simp add: set_EN_OUT_def drv_addresses set_bit_eq_or push_bit_eq_mult)
  moreover have "drv_triple regs (\<lambda>r sh c. (\<lambda>r sh c. r 4 = 0x87 \<and> r 5 = 0x05 \<and> r 6 = 0x30 \<and> r 9 = 0x20) (r(4 := 0x87)) sh c)
      (drv8434s_private_reg_write spi 4 0x87) (\<lambda>r sh c. r 4 = 0x87 \<and> r 5 = 0x05 \<and> r 6 = 0x30 \<and> r 9 = 0x20)"
    by (rule write_triple) simp
  ultimately show "drv_outcome regs (\<lambda>r sh c. r 4 = 0x87 \<and> r 5 = 0x05 \<and> r 6 = 0x30 \<and> r 9 = 0x20) s
      (drv8434s_private_reg_write spi DRV8434S_REG_CTRL2_ADDR (set_EN_OUT True (registers s DRV8434S_REG_CTRL2_ADDR)) s)"
    using at by (simp add: drv_triple_def drv_at_def wheel_configured_def drv_addresses)
qed

end

text \<open>
  C32. On a chip that is not locked, the configuration of the motor driver succeeds exactly when at most three of its
  transfers fail, and then the chip holds the configuration; otherwise it reports \<^const>\<open>RET_ERROR_BUSY\<close> after the
  fourth. When enabling succeeds too, the chip holds the configuration with its outputs on.
\<close>

theorem drv_configured:
  assumes "drv_chip spi regs" "LOCK (regs c 6) \<noteq> 6"
    and conf: "drv_configure spi 3 (drv8434s_init c) = (ret, s)"
    and start: "drv_start spi c = (ret', s')"
  shows "(if failures s \<le> 3
     then ret = RET_SUCCESS \<and> regs (chip s) 4 = 0x07 \<and> regs (chip s) 5 = 0x05 \<and> regs (chip s) 6 = 0x30 \<and> regs (chip s) 9 = 0x20
     else ret = RET_ERROR_BUSY \<and> failures s = 4) \<and>
    (if failures s \<le> 3 \<and> failures s' = failures s
     then ret' = RET_SUCCESS \<and> regs (chip s') 4 = 0x87 \<and> regs (chip s') 5 = 0x05 \<and> regs (chip s') 6 = 0x30 \<and> regs (chip s') 9 = 0x20
     else ret' = RET_ERROR_BUSY)"
proof -
  let ?on = "\<lambda>r sh c. r 4 = 0x87 \<and> r 5 = 0x05 \<and> r 6 = 0x30 \<and> r 9 = (0x20 :: u8)"
  have "unlocked regs (drv8434s_init c)" by (rule drv_chip.init_unlocked [OF assms(1,2)])
  from drv_chip.configure_result [OF assms(1) this conf]
  consider (ok) "ret = RET_SUCCESS" "failures s \<le> 3" "drv_at regs wheel_configured s"
    | (busy) "ret = RET_ERROR_BUSY" "failures s = 4"
    by (auto simp: drv_chip.failures_init [OF assms(1)])
  then show ?thesis
  proof cases
    case ok
    then have "drv_outcome regs ?on s (drv8434s_enable spi s)"
      using drv_chip.enable_triple [OF assms(1)] by (simp add: drv_triple_def)
    moreover have "drv8434s_enable spi s = (ret', s')"
      using start conf ok(1) by (cases "drv8434s_enable spi s") (simp add: drv_start_def split: if_splits)
    ultimately show ?thesis using ok by (auto simp: drv_outcome_def drv_at_def wheel_configured_def)
  next
    case busy
    then show ?thesis using start conf by (simp add: drv_start_def)
  qed
qed

subsection \<open>A chip that keeps its promises\<close>

text \<open>The contents of the registers and what the next transfers return.\<close>

type_synonym sim_drv = "(u8 \<Rightarrow> u8) \<times> int list"

definition sim_drv_spi :: "sim_drv spi_transceive" where
  "sim_drv_spi frame c =
    (let (hi, lo) = frame; (r, rets) = c; a = frame_address hi; ret = (case rets of [] \<Rightarrow> 0 | x # _ \<Rightarrow> x)
     in (ret, (0, r a),
         if ret \<noteq> 0 \<or> bit hi 6 then r
         else if a = 6 then (if LOCK lo \<in> {3, 6} then r(6 := unset_bit 7 lo) else r)
         else if LOCK (r 6) = 6 then r else r(a := lo),
         tl rets))"

lemma LOCK_unset_bit [simp]: "LOCK (unset_bit 7 x) = LOCK x"
  by (rule bit_word_eqI) (auto simp: LOCK_def bit_simps)

interpretation sim_drv: drv_chip sim_drv_spi fst
  by unfold_locales
    (auto simp: sim_drv_spi_def Let_def split_def split: if_splits)

text \<open>The third transfer fails: the second pass configures the chip.\<close>

lemma drv_configured_witness:
  "fst (drv_start sim_drv_spi (\<lambda>_. 0, [0, 0, -5])) = RET_SUCCESS \<and>
    fst (chip (snd (drv_start sim_drv_spi (\<lambda>_. 0, [0, 0, -5])))) 4 = 0x87"
proof -
  let ?c = "((\<lambda>_. 0) :: u8 \<Rightarrow> u8, [0, 0, -5 :: int])"
  obtain ret s where conf: "drv_configure sim_drv_spi 3 (drv8434s_init ?c) = (ret, s)" by fastforce
  obtain ret' s' where start: "drv_start sim_drv_spi ?c = (ret', s')" by fastforce
  have "failures (snd (drv_configure sim_drv_spi 3 (drv8434s_init ?c))) = 1" by code_simp
  moreover have "failures (snd (drv_start sim_drv_spi ?c)) = 1" by code_simp
  moreover have "LOCK (fst ?c 6) \<noteq> 6" by (simp add: LOCK_def)
  ultimately show ?thesis
    using drv_configured [OF sim_drv.drv_chip_axioms _ conf start] by (simp add: conf start)
qed

end
