(* ===== verification/Config.thy ===== *)
theory Config
  imports Storage
begin

text \<open>
  The persistent configuration (\<^verbatim>\<open>main_board/src/system/config/config.c\<close>): one value, kept in RAM and as
  a record of the flash store of its partition. Setting it frees the old record and pushes a
  new one; the initialization drops all records but the newest and loads that one.

  A \<^verbatim>\<open>persistent_config_t\<close> is its eight bytes, the first of which is the reboot behaviour. Every function runs
  under \<^verbatim>\<open>config_mutex\<close> and is one step; setting the behaviour may be cut short by a loss of power
  between any two calls of the flash driver.
  The value of the second enumerator is a parameter, since the message definitions are not
  part of the repository; the first is zero, as \<^verbatim>\<open>config.h\<close> says.
\<close>

subsection \<open>Definitions\<close>

record 'f config =
  config_storage_area :: "'f storage_area_s"
  current_config :: "u8 list"
  config_initialized :: bool

definition CONFIG_SIZE :: nat where "CONFIG_SIZE = 8"

definition BOOT_BUTTON_PRESS :: u8 where "BOOT_BUTTON_PRESS = 0"

text \<open>What is done with the store before the new record is pushed.\<close>

definition persist_free ::
    "'f flash_driver \<Rightarrow> (u16 \<Rightarrow> u8 list \<Rightarrow> u16) \<Rightarrow> 'f storage_area_s \<Rightarrow> 'f storage_area_s" where
  "persist_free d crc a = (if storage_has_data a then snd (storage_free d crc a) else a)"

definition persist_config ::
    "'f flash_driver \<Rightarrow> (u16 \<Rightarrow> u8 list \<Rightarrow> u16) \<Rightarrow> 'f config \<Rightarrow> ret_code_t \<times> 'f config" where
  "persist_config d crc s =
    (let a = persist_free d crc (config_storage_area s);
         (ret, a', tmp) = storage_push d crc a (Some (current_config s))
     in (ret, s\<lparr>config_storage_area := a'\<rparr>))"

text \<open>
  The loop that drops all records but the last. It need not end on a flash that misbehaves: then the value is
  \<open>None\<close>.
\<close>

partial_function (option) config_drain ::
    "'f flash_driver \<Rightarrow> (u16 \<Rightarrow> u8 list \<Rightarrow> u16) \<Rightarrow> 'f storage_area_s \<Rightarrow> 'f storage_area_s option" where
  "config_drain d crc a =
    (if storage_has_data a \<and> \<not> storage_is_last_record d a then
       (if fst (storage_free d crc a) \<noteq> RET_SUCCESS then Some (snd (storage_free d crc a))
        else config_drain d crc (snd (storage_free d crc a)))
     else Some a)"

definition config_init ::
    "'f flash_driver \<Rightarrow> (u16 \<Rightarrow> u8 list \<Rightarrow> u16) \<Rightarrow> 'f config \<Rightarrow> (ret_code_t \<times> 'f config) option" where
  "config_init d crc s =
    (let s1 = s\<lparr>current_config := replicate CONFIG_SIZE 0, config_initialized := False\<rparr>;
         (ret, a) = storage_init d crc (area_flash (config_storage_area s))
     in if ret \<noteq> RET_SUCCESS then Some (ret, s1\<lparr>config_storage_area := a\<rparr>)
        else map_option (\<lambda>a.
          let ((ret, a'), tmp, sz) = storage_peek d crc a (replicate CONFIG_SIZE 0) CONFIG_SIZE;
              s2 = s1\<lparr>config_storage_area := a', config_initialized := True\<rparr>
          in (RET_SUCCESS, if ret = RET_SUCCESS then s2\<lparr>current_config := tmp\<rparr> else s2)) (config_drain d crc a))"

text \<open>\<open>None\<close> is the failed assertion that the module is initialized.\<close>

definition config_get_reboot_behavior :: "'f config \<Rightarrow> u8 option" where
  "config_get_reboot_behavior s = (if config_initialized s then Some (hd (current_config s)) else None)"

definition config_set_reboot_behavior ::
    "'f flash_driver \<Rightarrow> (u16 \<Rightarrow> u8 list \<Rightarrow> u16) \<Rightarrow> u8 \<Rightarrow> u8 \<Rightarrow> 'f config \<Rightarrow> ret_code_t \<times> 'f config" where
  "config_set_reboot_behavior d crc always_on behavior s =
    (if \<not> config_initialized s then (RET_ERROR_NOT_INITIALIZED, s)
     else if hd (current_config s) = behavior then (RET_SUCCESS, s)
     else if behavior \<noteq> BOOT_BUTTON_PRESS \<and> behavior \<noteq> always_on then (RET_ERROR_INVALID_PARAM, s)
     else persist_config d crc (s\<lparr>current_config := (current_config s)[0 := behavior]\<rparr>))"

subsection \<open>Loss of power\<close>

text \<open>
  The contents of the flash after each write and erase that \<^verbatim>\<open>storage_free\<close>, \<^verbatim>\<open>storage_push\<close> and
  \<^verbatim>\<open>config_set_reboot_behavior\<close> make: what a loss of power can leave. A call of the
  flash driver is not divided: a write of the configuration is one write block, and the
  partition is erased as a whole.
\<close>

definition free_flashes ::
    "'f flash_driver \<Rightarrow> 'f storage_area_s \<Rightarrow> 'f list" where
  "free_flashes d a =
    (if \<not> area_fa a then []
     else
       let (_, hdr) = flash_area_read d (area_flash a) (rd_idx a) (replicate header_size 0);
           header = header_of hdr;
           n = unat (record_size header);
           (ret, f) = flash_area_write d (area_flash a) (rd_idx a) (replicate header_size 0)
       in if magic_state header \<noteq> RECORD_VALID then []
          else if ret = 0 \<and> wr_idx a \<le> rd_idx a + header_size + n + record_padding d n \<and>
            fa_size d - wr_idx a < MINIMUM_EMPTY_SPACE
          then [f, snd (flash_area_erase d f 0 (fa_size d))]
          else [f])"

definition push_flashes ::
    "'f flash_driver \<Rightarrow> (u16 \<Rightarrow> u8 list \<Rightarrow> u16) \<Rightarrow> 'f storage_area_s \<Rightarrow> u8 list \<Rightarrow> 'f list" where
  "push_flashes d crc a r =
    (let erase = (\<lambda>f. snd (flash_area_erase d f 0 (fa_size d)));
         (ret1, f1) = flash_area_write d (area_flash a) (wr_idx a + header_size) (take (size_to_write_trunc d r) r);
         (ret2, f2) = push_write_tail d f1 (wr_idx a) r;
         body = (if length r mod write_block_size d \<noteq> 0 then [f1, f2] else [f1]);
         (ret3, f3) = flash_area_write d f2 (wr_idx a) (header_bytes (push_header crc r))
     in if storage_push_check d a (Some r) \<noteq> RET_SUCCESS \<or>
           fa_size d < wr_idx a + header_size + (length r + record_padding d (length r)) then []
        else if ret1 \<noteq> 0 then [f1, erase f1]
        else if ret2 \<noteq> 0 \<or> crc16 (push_header crc r) \<noteq> crc 0xFFFF (push_read_back d f2 (wr_idx a) r) then body @ [erase f2]
        else if ret3 \<noteq> 0 then body @ [f3, erase f3]
        else body @ [f3])"

definition set_flashes ::
    "'f flash_driver \<Rightarrow> (u16 \<Rightarrow> u8 list \<Rightarrow> u16) \<Rightarrow> u8 \<Rightarrow> u8 \<Rightarrow> 'f config \<Rightarrow> 'f list" where
  "set_flashes d crc always_on behavior s =
    (let a = config_storage_area s
     in area_flash a #
       (if config_initialized s \<and> hd (current_config s) \<noteq> behavior \<and>
           (behavior = BOOT_BUTTON_PRESS \<or> behavior = always_on)
        then (if storage_has_data a then free_flashes d a else []) @
          push_flashes d crc (persist_free d crc a) ((current_config s)[0 := behavior])
        else []))"

text \<open>The power is lost after \<open>n\<close> writes and erases, or after the last if there are fewer.\<close>

definition config_set_interrupted ::
    "'f flash_driver \<Rightarrow> (u16 \<Rightarrow> u8 list \<Rightarrow> u16) \<Rightarrow> u8 \<Rightarrow> u8 \<Rightarrow> nat \<Rightarrow> 'f config \<Rightarrow> 'f config" where
  "config_set_interrupted d crc always_on behavior n s =
    (let fs = set_flashes d crc always_on behavior s
     in s\<lparr>config_storage_area := (config_storage_area s)\<lparr>area_flash := fs ! min n (length fs - 1)\<rparr>\<rparr>)"

lemma reset_area_flash: "area_flash (reset_area d crc a) = snd (flash_area_erase d (area_flash a) 0 (fa_size d))"
  by (auto simp: reset_area_def init_area_def Let_def split: prod.splits option.splits)

lemma free_flashes_last: "area_flash (snd (storage_free d crc a)) = last (area_flash a # free_flashes d a)"
  by (auto simp: storage_free_def free_flashes_def Let_def reset_area_flash split: prod.splits)

lemma push_flashes_last: "area_flash (fst (snd (storage_push d crc a (Some r)))) = last (area_flash a # push_flashes d crc a r)"
  by (auto simp: storage_push_def storage_push_commit_def push_flashes_def push_write_tail_def Let_def reset_area_flash
      split: prod.splits)

text \<open>A setting that is not interrupted ends with the last of them.\<close>

lemma set_flashes_last:
  "area_flash (config_storage_area (snd (config_set_reboot_behavior d crc on b s))) = last (set_flashes d crc on b s)"
proof (cases "storage_has_data (config_storage_area s)")
  case True
  then show ?thesis
    using free_flashes_last [of d crc "config_storage_area s"]
      push_flashes_last [of d crc "snd (storage_free d crc (config_storage_area s))" "(current_config s)[0 := b]"]
    by (auto simp: config_set_reboot_behavior_def set_flashes_def persist_config_def persist_free_def Let_def
        split: prod.splits)
next
  case False
  then show ?thesis
    using push_flashes_last [of d crc "config_storage_area s" "(current_config s)[0 := b]"]
    by (auto simp: config_set_reboot_behavior_def set_flashes_def persist_config_def persist_free_def Let_def
        split: prod.splits)
qed

subsection \<open>The contract\<close>

text \<open>
  A client sees a cell: the value in force, the value kept over a restart, and whether a loss of power has left
  flash behind that is written but not claimed. As long as that is not so, setting one of the two behaviours takes
  effect and lasts. A loss of power in the middle of a change leaves the old, the new or the default behaviour, and possibly
  such flash; then the next change may fail, after which the new value is in force but not kept.
  \<open>cell_steps\<close> lists the steps allowed.
\<close>

datatype config_op = Set_behavior u8 | Get_behavior | Reboot | Set_power_loss u8 nat

datatype config_result = Ret ret_code_t | Behavior u8

definition valid_behavior :: "u8 \<Rightarrow> u8 \<Rightarrow> bool" where
  "valid_behavior always_on b \<longleftrightarrow> b = BOOT_BUTTON_PRESS \<or> b = always_on"

record config_cell =
  cell_value :: u8
  cell_kept :: u8
  cell_unclean :: bool

definition cell_start :: "u8 \<Rightarrow> bool \<Rightarrow> config_cell" where
  "cell_start v unclean = \<lparr>cell_value = v, cell_kept = v, cell_unclean = unclean\<rparr>"

fun cell_steps :: "u8 \<Rightarrow> config_op \<Rightarrow> config_cell \<Rightarrow> (config_result \<times> config_cell) list" where
  "cell_steps on (Set_behavior b) c =
    (if b = cell_value c then [(Ret RET_SUCCESS, c)]
     else if \<not> valid_behavior on b then [(Ret RET_ERROR_INVALID_PARAM, c)]
     else (Ret RET_SUCCESS, cell_start b False) #
       (if cell_unclean c
        then [(Ret RET_ERROR_INTERNAL, \<lparr>cell_value = b, cell_kept = BOOT_BUTTON_PRESS, cell_unclean = False\<rparr>)] else []))"
| "cell_steps on Get_behavior c = [(Behavior (cell_value c), c)]"
| "cell_steps on Reboot c = [(Ret RET_SUCCESS, cell_start (cell_kept c) (cell_unclean c))]"
| "cell_steps on (Set_power_loss b n) c =
    map (Pair (Ret RET_SUCCESS)) (cell_start (cell_kept c) (cell_unclean c) #
      (if valid_behavior on b \<and> b \<noteq> cell_value c
       then [cell_start BOOT_BUTTON_PRESS False, cell_start BOOT_BUTTON_PRESS True, cell_start b False] else []))"

fun cell_runs :: "u8 \<Rightarrow> config_op list \<Rightarrow> config_cell \<Rightarrow> (config_result list \<times> config_cell) list" where
  "cell_runs on [] c = [([], c)]"
| "cell_runs on (op # ops) c =
    concat (map (\<lambda>(r, c1). map (\<lambda>(rs, c2). (r # rs, c2)) (cell_runs on ops c1)) (cell_steps on op c))"

fun config_step ::
    "'f flash_driver \<Rightarrow> (u16 \<Rightarrow> u8 list \<Rightarrow> u16) \<Rightarrow> u8 \<Rightarrow> config_op \<Rightarrow> 'f config \<Rightarrow> (config_result \<times> 'f config) option" where
  "config_step d crc on (Set_behavior b) s = Some (map_prod Ret id (config_set_reboot_behavior d crc on b s))"
| "config_step d crc on Get_behavior s = map_option (\<lambda>b. (Behavior b, s)) (config_get_reboot_behavior s)"
| "config_step d crc on Reboot s = map_option (map_prod Ret id) (config_init d crc s)"
| "config_step d crc on (Set_power_loss b n) s =
    map_option (map_prod Ret id) (config_init d crc (config_set_interrupted d crc on b n s))"

fun config_run ::
    "('s \<Rightarrow> 'o \<Rightarrow> ('r \<times> 's) option) \<Rightarrow> 'o list \<Rightarrow> 's \<Rightarrow> ('r list \<times> 's) option" where
  "config_run step [] s = Some ([], s)"
| "config_run step (op # ops) s =
    (case step s op of
       None \<Rightarrow> None
     | Some (r, s1) \<Rightarrow> map_option (\<lambda>(rs, s2). (r # rs, s2)) (config_run step ops s1))"

subsection \<open>The store with the record of the configuration\<close>

text \<open>
  The flash of both boards is written in blocks of eight bytes and the partition is a multiple of sixteen. The driver of the
  microcontroller refuses to program a block that is not erased and then leaves it as it is.
\<close>

locale config_platform = reliable_platform d mem crc
  for d :: "'f flash_driver" and mem :: "'f \<Rightarrow> u8 list" and crc :: "u16 \<Rightarrow> u8 list \<Rightarrow> u16" +
  assumes block8: "write_block_size d = 8" and size16: "16 dvd fa_size d" and opened: "flash_area_open d = 0"
    and refused: "length xs = write_block_size d \<Longrightarrow> flash_area_write d f off xs = (r, f') \<Longrightarrow> r \<noteq> 0 \<Longrightarrow> mem f' = mem f"

text \<open>\<open>config_bytes v\<close> is the record that holds \<open>v\<close>; its slot in flash takes sixteen bytes.\<close>

definition config_bytes :: "u8 \<Rightarrow> u8 list" where "config_bytes v = v # replicate 7 0"

lemma config_bytes_simps [simp]:
  "length (config_bytes v) = 8" "hd (config_bytes v) = v" "(config_bytes v)[0 := w] = config_bytes w" "config_bytes v \<noteq> []"
  "config_bytes 0 = replicate CONFIG_SIZE 0"
  by (simp_all add: config_bytes_def CONFIG_SIZE_def eval_nat_numeral)

definition area_ok ::
    "'f flash_driver \<Rightarrow> (u16 \<Rightarrow> u8 list \<Rightarrow> u16) \<Rightarrow> ('f \<Rightarrow> u8 list) \<Rightarrow> 'f storage_area_s \<Rightarrow> u8 list list \<Rightarrow> bool" where
  "area_ok d crc mem a rs \<longleftrightarrow> fifo d crc mem a rs \<and> freed_ok d (mem (area_flash a)) (rd_idx a) \<and> 16 dvd wr_idx a \<and>
     (rs = [] \<longrightarrow> wr_idx a + 16 \<le> fa_size d)"

context config_platform
begin

lemma slot16 [simp]: "slot_size d (config_bytes v) = 16"
  by (simp add: slot_size_def record_padding_def block8)

lemma magic_frame:
  "x + 8 \<le> off \<Longrightarrow> off + length xs \<le> fa_size d \<Longrightarrow> magic_at (mem_put off xs (mem f)) x = magic_at (mem f) x"
  by (simp add: magic_at_def mem_get_mem_put_before)

lemma payload_skippable:
  assumes "rec_at d crc m a (config_bytes v)"
  shows "skippable m (a + 8)"
proof -
  have "mem_get (a + 8) 8 m = config_bytes v" using assms by (simp add: rec_at_def)
  then have "magic_at m (a + 8) = u16_of v 0"
    by (simp add: magic_at_def header_of_def config_bytes_def eval_nat_numeral)
  also have "\<dots> = ucast v" by (simp add: u16_of_def)
  finally have magic: "magic_at m (a + 8) = ucast v" .
  have v: "unat v < 256" using unsigned_less [of v, where 'a = nat] by simp
  then have "take_bit 16 (unat v) = unat v" by (simp add: take_bit_nat_eq_self_iff)
  then have "unat (magic_at m (a + 8)) < 256" using v magic by (simp add: unsigned_ucast_eq)
  then show ?thesis by (auto simp: skippable_def RECORD_UNUSED_def RECORD_VALID_def)
qed

lemma freed_after_free:
  assumes freed: "freed_ok d (mem f) rd" and at: "rec_at d crc (mem f) rd (config_bytes v)" and dvd: "8 dvd rd"
    and m': "mem f' = mem_put rd (replicate 8 0) (mem f)"
  shows "freed_ok d (mem f') (rd + 16)"
proof -
  have le: "rd + 16 \<le> fa_size d" using at by (simp add: rec_at_def)
  have zero: "magic_at (mem f') rd = RECORD_INVALID" using le by (simp add: magic_at_def m')
  have pay: "skippable (mem f') (rd + 8)"
    using payload_skippable [OF at] le by (simp add: skippable_def magic_at_def m' mem_get_mem_put_after)
  have before: "magic_at (mem f') x = magic_at (mem f) x" if "x + 8 \<le> rd" for x
    using that le by (simp add: m' magic_frame)
  have skip: "skippable (mem f') x" if x: "x < rd + 16" "8 dvd x" for x
  proof -
    obtain i j where "x = 8 * i" "rd = 8 * j" using x dvd by (auto elim!: dvdE)
    moreover from this have "i < j \<or> i = j \<or> i = j + 1" using x(1) by linarith
    ultimately consider "x + 8 \<le> rd" | "x = rd" | "x = rd + 8" by auto
    then show ?thesis
    proof cases
      case 1
      then have "skippable (mem f) x" using freed x(2) block8 by (simp add: freed_ok_def list_all_iff)
      then show ?thesis using before [OF 1] by (simp add: skippable_def)
    qed (use zero pay in \<open>simp_all add: skippable_def\<close>)
  qed
  have "magic_at (mem f') 0 = RECORD_INVALID"
  proof (cases "rd = 0")
    case False
    then have "0 + 8 \<le> rd" using dvd by (auto elim!: dvdE)
    then show ?thesis using freed False before [of 0] by (simp add: freed_ok_def)
  qed (use zero in simp)
  then show ?thesis using skip by (simp add: freed_ok_def list_all_iff block8)
qed

lemma persist_free_ok:
  assumes ok: "area_ok d crc mem a rs" and rs: "rs = [] \<or> rs = [config_bytes v]"
  shows "area_ok d crc mem (persist_free d crc a) []"
proof (cases "rs = []")
  case True
  then show ?thesis using ok is_last_total(2) [of a rs] by (simp add: area_ok_def persist_free_def)
next
  case False
  then have q: "rs = [config_bytes v]" using rs by simp
  have inv: "fifo d crc mem a [config_bytes v]" using ok q by (simp add: area_ok_def)
  have fa: "area_fa a" and at: "rec_at d crc (mem (area_flash a)) (rd_idx a) (config_bytes v)" and dvd: "8 dvd rd_idx a"
    and wr: "wr_idx a = rd_idx a + 16" "wr_idx a \<le> fa_size d"
    using inv by (auto simp: fifo_def block8)
  obtain f' where free: "storage_free d crc a = (RET_SUCCESS,
      let a' = a\<lparr>area_flash := f', rd_idx := rd_idx a + 16\<rparr>
      in if fa_size d - wr_idx a < MINIMUM_EMPTY_SPACE then reset_area d crc a' else a')"
    and m': "mem f' = mem_put (rd_idx a) (replicate 8 0) (mem (area_flash a))"
    using free_writes [OF inv] by auto
  have data: "storage_has_data a" using is_last_total(2) [OF inv] by simp
  have fifo': "fifo d crc mem (snd (storage_free d crc a)) []"
    using free_total [OF inv] by auto
  show ?thesis
  proof (cases "fa_size d - wr_idx a < MINIMUM_EMPTY_SPACE")
    case True
    let ?a = "reset_area d crc (a\<lparr>area_flash := f', rd_idx := rd_idx a + 16\<rparr>)"
    have r: "fifo d crc mem ?a []" "rd_idx ?a = 0" using reset_total [of "a\<lparr>area_flash := f', rd_idx := rd_idx a + 16\<rparr>"] fa by auto
    moreover have "16 \<le> fa_size d" using at by (simp add: rec_at_def)
    ultimately show ?thesis using True data free
      by (simp add: area_ok_def persist_free_def freed_ok_def) (simp add: fifo_def)
  next
    case False
    have "freed_ok d (mem f') (rd_idx a + 16)"
      using ok by (intro freed_after_free [OF _ at dvd m']) (simp add: area_ok_def)
    moreover have "16 dvd wr_idx a" using ok by (simp add: area_ok_def)
    ultimately show ?thesis using False data free fifo' wr
      by (simp add: area_ok_def persist_free_def Let_def)
  qed
qed

lemma push_ok:
  assumes ok: "area_ok d crc mem a []"
  obtains a' where "storage_push d crc a (Some (config_bytes v)) = (RET_SUCCESS, a', Some (config_bytes v))"
    "area_ok d crc mem a' [config_bytes v]"
proof -
  have inv: "fifo d crc mem a []" and le: "wr_idx a + 16 \<le> fa_size d" using ok by (simp_all add: area_ok_def)
  obtain a' where push: "storage_push d crc a (Some (config_bytes v)) = (RET_SUCCESS, a', Some (config_bytes v))"
    and inv': "fifo d crc mem a' [config_bytes v]"
    using push_total [OF inv, of "config_bytes v"] le by auto
  then have commit: "storage_push_commit d crc a (config_bytes v) = (RET_SUCCESS, a', config_bytes v)"
    by (auto simp: storage_push_def Let_def split: if_splits prod.splits)
  note w = commit_writes [OF this]
  have rd: "rd_idx a = wr_idx a" using inv by (simp add: fifo_def)
  let ?m = "mem_put (wr_idx a + 8) (config_bytes v) (mem (area_flash a))"
  have m': "mem (area_flash a') = mem_put (wr_idx a) (header_bytes (push_header crc (config_bytes v))) ?m"
    using w(5) by (simp add: record_padding_def block8)
  have keep: "magic_at (mem (area_flash a')) x = magic_at (mem (area_flash a)) x" if "x + 8 \<le> wr_idx a" for x
    using that le by (simp add: magic_at_def m' mem_get_mem_put_before)
  have "freed_ok d (mem (area_flash a')) (rd_idx a')"
  proof -
    have f: "freed_ok d (mem (area_flash a)) (wr_idx a)" and dvd: "8 dvd wr_idx a"
      using ok rd inv by (simp_all add: area_ok_def fifo_def block8)
    have le8: "x + 8 \<le> wr_idx a" if x: "x < wr_idx a" "8 dvd x" for x
    proof -
      obtain i j where "x = 8 * i" "wr_idx a = 8 * j" using x(2) dvd unfolding dvd_def by blast
      then show ?thesis using x(1) by simp
    qed
    have "magic_at (mem (area_flash a')) 0 = magic_at (mem (area_flash a)) 0" if "0 < wr_idx a"
      using le8 [of 0] that by (intro keep) simp
    then show ?thesis using f le8 keep rd w(2) by (auto simp: freed_ok_def list_all_iff block8 skippable_def)
  qed
  moreover have "16 dvd wr_idx a'" using w(4) ok by (simp add: area_ok_def)
  ultimately have "area_ok d crc mem a' [config_bytes v]" using inv' by (simp add: area_ok_def)
  then show thesis using that push by blast
qed

lemma area_ok_init:
  assumes ok: "area_ok d crc mem a rs"
  shows "storage_init d crc (area_flash a) = (RET_SUCCESS, a)"
proof -
  have inv: "fifo d crc mem a rs" and freed: "freed_ok d (mem (area_flash a)) (rd_idx a)"
    and dvd: "16 dvd wr_idx a" and e: "rs = [] \<longrightarrow> wr_idx a + 16 \<le> fa_size d"
    using ok by (simp_all add: area_ok_def)
  have "wr_idx a \<le> fa_size d" and fa: "area_fa a" using inv by (simp_all add: fifo_def)
  obtain i j where "wr_idx a = 16 * i" "fa_size d = 16 * j" using dvd size16 unfolding dvd_def by blast
  moreover from this have "i < j \<or> i = j" using \<open>wr_idx a \<le> fa_size d\<close> by auto
  ultimately have "wr_idx a + header_size < fa_size d \<or> wr_idx a = fa_size d \<and> rs \<noteq> []" using e by auto
  from init_total [OF inv freed this opened] show ?thesis using fa by (cases a) simp
qed

text \<open>The loop that drops records keeps the newest.\<close>

lemma drain_keeps_last:
  "fifo d crc mem a rs \<Longrightarrow> \<exists>a'. config_drain d crc a = Some a' \<and> fifo d crc mem a' (if rs = [] then [] else [last rs])"
proof (induction rs arbitrary: a)
  case Nil
  then show ?case using is_last_total [OF Nil] by (subst config_drain.simps) auto
next
  case (Cons r rs)
  show ?case
  proof (cases "rs = []")
    case True
    then show ?thesis using Cons.prems is_last_total [OF Cons.prems] by (subst config_drain.simps) auto
  next
    case False
    obtain a1 where f: "storage_free d crc a = (RET_SUCCESS, a1)" "fifo d crc mem a1 rs"
      using free_total [OF Cons.prems] by blast
    have "config_drain d crc a = config_drain d crc a1"
      using is_last_total [OF Cons.prems] False f(1) by (subst config_drain.simps) simp
    then show ?thesis using Cons.IH [OF f(2)] False by simp
  qed
qed

lemma drain_single: "fifo d crc mem a rs \<Longrightarrow> length rs \<le> 1 \<Longrightarrow> config_drain d crc a = Some a"
  using is_last_total [of a rs] by (subst config_drain.simps) (cases rs; auto)

end

text \<open>
  \<open>area_room\<close>: no records, and room for one whose header is erased; what is behind
  the header need not be. \<open>area_full\<close>: freed records up to the end.
\<close>

definition area_room :: "'f flash_driver \<Rightarrow> ('f \<Rightarrow> u8 list) \<Rightarrow> 'f storage_area_s \<Rightarrow> bool" where
  "area_room d mem a \<longleftrightarrow> area_fa a \<and> rd_idx a = wr_idx a \<and> 16 dvd wr_idx a \<and> wr_idx a + 16 \<le> fa_size d \<and>
     freed_ok d (mem (area_flash a)) (wr_idx a) \<and> erased_range (wr_idx a) 8 (mem (area_flash a)) \<and>
     erased_from (wr_idx a + 16) (mem (area_flash a))"

definition area_full :: "'f flash_driver \<Rightarrow> ('f \<Rightarrow> u8 list) \<Rightarrow> 'f storage_area_s \<Rightarrow> bool" where
  "area_full d mem a \<longleftrightarrow> freed_ok d (mem (area_flash a)) (fa_size d)"

text \<open>
  \<open>config_holds\<close>: the module is in a state of the cell. \<open>boots\<close>: from this flash it gets into a state
  that keeps \<open>v\<close>.
\<close>

definition area_keeps ::
    "'f flash_driver \<Rightarrow> (u16 \<Rightarrow> u8 list \<Rightarrow> u16) \<Rightarrow> ('f \<Rightarrow> u8 list) \<Rightarrow> 'f storage_area_s \<Rightarrow> u8 \<Rightarrow> bool \<Rightarrow> bool" where
  "area_keeps d crc mem a v unclean \<longleftrightarrow>
     (if unclean then area_room d mem a \<and> v = BOOT_BUTTON_PRESS
      else area_ok d crc mem a [config_bytes v] \<or> area_ok d crc mem a [] \<and> v = BOOT_BUTTON_PRESS)"

definition config_holds ::
    "'f flash_driver \<Rightarrow> (u16 \<Rightarrow> u8 list \<Rightarrow> u16) \<Rightarrow> ('f \<Rightarrow> u8 list) \<Rightarrow> 'f config \<Rightarrow> config_cell \<Rightarrow> bool" where
  "config_holds d crc mem s c \<longleftrightarrow> config_initialized s \<and> current_config s = config_bytes (cell_value c) \<and>
     area_keeps d crc mem (config_storage_area s) (cell_kept c) (cell_unclean c)"

definition boots ::
    "'f flash_driver \<Rightarrow> (u16 \<Rightarrow> u8 list \<Rightarrow> u16) \<Rightarrow> ('f \<Rightarrow> u8 list) \<Rightarrow> 'f \<Rightarrow> u8 \<Rightarrow> bool \<Rightarrow> bool" where
  "boots d crc mem f v unclean \<longleftrightarrow>
     (\<exists>a. area_flash a = f \<and> (area_keeps d crc mem a v unclean \<or> area_full d mem a \<and> v = BOOT_BUTTON_PRESS \<and> \<not> unclean))"

context config_platform
begin

lemma dvd16_8: "16 dvd n \<Longrightarrow> (8 :: nat) dvd n"
  by (erule dvd_trans [rotated]) simp

lemma size_bounds: "16 \<le> fa_size d" "(8 :: nat) dvd fa_size d"
proof -
  show "(8 :: nat) dvd fa_size d" by (rule dvd16_8 [OF size16])
  show "16 \<le> fa_size d" using size16 size_lower by (intro dvd_imp_le) auto
qed

lemma config_write_simps [simp]:
  "size_to_write_trunc d (config_bytes v) = 8" "record_padding d 8 = 0"
  "length (config_bytes v) mod write_block_size d = 0" "8 mod write_block_size d = 0" "push_write_tail d f wr (config_bytes v) = (0, f)"
  by (simp_all add: size_to_write_trunc_def record_padding_def push_write_tail_def block8)

subsubsection \<open>Initialization\<close>

lemma room_of_ok: "area_ok d crc mem a [] \<Longrightarrow> area_room d mem a"
  using erased_from_range [of "wr_idx a" "mem (area_flash a)" "wr_idx a" 8]
    erased_from_mono [of "wr_idx a" "mem (area_flash a)" "wr_idx a + 16"]
  by (auto simp: area_ok_def area_room_def fifo_def)

lemma room_init:
  assumes room: "area_room d mem a"
  shows "storage_init d crc (area_flash a) = (RET_SUCCESS, a)"
proof -
  let ?f = "area_flash a" and ?wr = "wr_idx a"
  have freed: "freed_ok d (mem ?f) ?wr" and er: "erased_range ?wr 8 (mem ?f)" and wr: "16 dvd ?wr" "?wr + 16 \<le> fa_size d"
    and a: "area_fa a" "rd_idx a = ?wr"
    using room by (simp_all add: area_room_def)
  have "length (mem_get 0 header_size (mem ?f)) = header_size" using size_lower by simp
  then obtain hdr where h: "length hdr = header_size"
    "init_area_loop d crc ?f 0 (mem_get 0 header_size (mem ?f)) None = init_area_loop d crc ?f ?wr hdr None"
    using loop_freed [of ?f ?wr 0 "mem_get 0 header_size (mem ?f)"] freed dvd16_8 [OF wr(1)] wr(2)
    by (auto simp: freed_ok_def block8)
  have "init_area_loop d crc ?f ?wr hdr None = (None, Some ?wr)"
    using loop_read [of ?wr hdr ?f] er wr(2) h(1) by (subst init_area_loop.simps) (simp add: erased_range_def)
  moreover have "flash_area_read d ?f 0 (replicate header_size 0) = (0, mem_get 0 header_size (mem ?f))"
    using size_lower by (intro loop_read) auto
  moreover have "magic_at (mem ?f) 0 \<in> {RECORD_UNUSED, RECORD_INVALID}"
    using freed er by (cases "?wr = 0") (auto simp: freed_ok_def magic_at_def erased_range_def)
  ultimately show ?thesis
    using h(2) a opened by (cases a) (auto simp: storage_init_def init_area_def magic_at_def Let_def)
qed

lemma loop_all_freed:
  assumes "list_all (\<lambda>x. write_block_size d dvd x \<longrightarrow> skippable (mem f) x) [0..<fa_size d]"
    and "8 dvd index" and "index + header_size \<le> fa_size d" and "length hdr = header_size"
  shows "init_area_loop d crc f index hdr None = (None, None)"
  using assms
proof (induction "fa_size d - index" arbitrary: index hdr rule: less_induct)
  case less
  let ?hdr = "mem_get index header_size (mem f)"
  have "skippable (mem f) index" using less.prems by (auto simp: list_all_iff block8)
  then have *: "init_area_loop d crc f index hdr None =
      (if index + 8 + header_size < fa_size d then init_area_loop d crc f (index + 8) ?hdr None else (None, None))"
    using loop_read [of index hdr f] less.prems
    by (subst init_area_loop.simps) (simp add: skippable_def magic_at_def block8)
  show ?case
  proof (cases "index + 8 + header_size < fa_size d")
    case True
    then have "init_area_loop d crc f (index + 8) ?hdr None = (None, None)"
      by (intro less.hyps) (use less.prems in auto)
    then show ?thesis using * by simp
  qed (use * in simp)
qed

lemma full_init:
  assumes "area_full d mem a"
  obtains a' where "storage_init d crc (area_flash a) = (RET_SUCCESS, a')" "area_ok d crc mem a' []"
proof -
  let ?f = "area_flash a"
  have "flash_area_read d ?f 0 (replicate header_size 0) = (0, mem_get 0 header_size (mem ?f))"
    using size_lower by (intro loop_read) auto
  moreover have "init_area_loop d crc ?f 0 (mem_get 0 header_size (mem ?f)) None = (None, None)"
    using assms size_lower by (intro loop_all_freed) (simp_all add: area_full_def freed_ok_def)
  moreover obtain f' where e: "flash_area_erase d ?f 0 (fa_size d) = (0, f')" "mem f' = replicate (fa_size d) erased_byte"
    by (rule erase_total)
  ultimately have "storage_init d crc ?f = (RET_SUCCESS, \<lparr>area_fa = True, area_flash = f', wr_idx = 0, rd_idx = 0\<rparr>)"
    using opened by (simp add: storage_init_def init_area_def Let_def)
  moreover have "area_ok d crc mem \<lparr>area_fa = True, area_flash = f', wr_idx = 0, rd_idx = 0\<rparr> []"
    using e(2) size_bounds(1) by (simp add: area_ok_def fifo_def erased_from_def freed_ok_def list_all_iff)
  ultimately show thesis by (rule that)
qed

lemma init_empty:
  assumes "storage_init d crc (area_flash (config_storage_area s)) = (RET_SUCCESS, a)" "area_fa a" "rd_idx a = wr_idx a"
  shows "\<exists>s'. config_init d crc s = Some (RET_SUCCESS, s') \<and> config_initialized s' \<and>
    current_config s' = config_bytes BOOT_BUTTON_PRESS \<and> config_storage_area s' = a"
proof -
  have "config_drain d crc a = Some a" using assms(3) by (subst config_drain.simps) (simp add: storage_has_data_def)
  then show ?thesis using assms
    by (simp add: config_init_def storage_peek_def peek_exit_def BOOT_BUTTON_PRESS_def Let_def)
qed

lemma init_record:
  assumes ok: "area_ok d crc mem a [config_bytes v]" and f: "area_flash (config_storage_area s) = area_flash a"
  shows "\<exists>s'. config_init d crc s = Some (RET_SUCCESS, s') \<and> config_initialized s' \<and>
    current_config s' = config_bytes v \<and> config_storage_area s' = a"
proof -
  have inv: "fifo d crc mem a [config_bytes v]" using ok by (simp add: area_ok_def)
  then show ?thesis
    using area_ok_init [OF ok] f drain_single [OF inv] peek_total [OF inv, of "replicate CONFIG_SIZE 0" CONFIG_SIZE]
    by (simp add: config_init_def Let_def CONFIG_SIZE_def)
qed

lemma boots_init:
  assumes "boots d crc mem (area_flash (config_storage_area s)) v unclean"
  shows "\<exists>s'. config_init d crc s = Some (RET_SUCCESS, s') \<and> config_holds d crc mem s' (cell_start v unclean)"
proof -
  obtain a where f: "area_flash (config_storage_area s) = area_flash a"
    and a: "area_keeps d crc mem a v unclean \<or> area_full d mem a \<and> v = BOOT_BUTTON_PRESS \<and> \<not> unclean"
    using assms unfolding boots_def by metis
  then consider (room) "area_room d mem a" "v = BOOT_BUTTON_PRESS" "unclean"
    | (one) "area_ok d crc mem a [config_bytes v]" "\<not> unclean"
    | (empty) "area_ok d crc mem a []" "v = BOOT_BUTTON_PRESS" "\<not> unclean"
    | (full) "area_full d mem a" "v = BOOT_BUTTON_PRESS" "\<not> unclean"
    by (auto simp: area_keeps_def split: if_splits)
  then show ?thesis
  proof cases
    case room
    then show ?thesis
      using init_empty [of s a] room_init [OF room(1)] f
      by (auto simp: config_holds_def area_keeps_def cell_start_def) (auto simp: area_room_def)
  next
    case one
    then show ?thesis
      using init_record [OF one(1) f] by (auto simp: config_holds_def area_keeps_def cell_start_def)
  next
    case empty
    then show ?thesis
      using init_empty [of s a] area_ok_init [OF empty(1)] f
      by (auto simp: config_holds_def area_keeps_def cell_start_def) (auto simp: area_ok_def fifo_def)
  next
    case full
    obtain a' where "storage_init d crc (area_flash a) = (RET_SUCCESS, a')" "area_ok d crc mem a' []"
      by (rule full_init [OF full(1)])
    then show ?thesis
      using full init_empty [of s a'] f
      by (auto simp: config_holds_def area_keeps_def cell_start_def) (auto simp: area_ok_def fifo_def)
  qed
qed

lemma keeps_boots: "area_keeps d crc mem a v unclean \<Longrightarrow> boots d crc mem (area_flash a) v unclean"
  unfolding boots_def by blast

lemma holds_boots:
  "config_holds d crc mem s c \<Longrightarrow>
   boots d crc mem (area_flash (config_storage_area s)) (cell_kept c) (cell_unclean c)"
  by (simp add: config_holds_def keeps_boots)

lemma boots_erased:
  assumes "mem f = replicate (fa_size d) erased_byte"
  shows "boots d crc mem f BOOT_BUTTON_PRESS False"
proof -
  have "area_ok d crc mem \<lparr>area_fa = True, area_flash = f, wr_idx = 0, rd_idx = 0\<rparr> []"
    using assms size_bounds(1) by (simp add: area_ok_def fifo_def erased_from_def freed_ok_def list_all_iff)
  then show ?thesis using keeps_boots [of "\<lparr>area_fa = True, area_flash = f, wr_idx = 0, rd_idx = 0\<rparr>" BOOT_BUTTON_PRESS False]
    by (simp add: area_keeps_def)
qed

lemma erase_boots: "boots d crc mem (snd (flash_area_erase d f 0 (fa_size d))) BOOT_BUTTON_PRESS False"
  by (rule boots_erased) (metis erase_total snd_conv)

subsubsection \<open>Freeing\<close>

lemma free_boots:
  assumes ok: "area_ok d crc mem a [config_bytes v]" and f: "f \<in> set (free_flashes d a)"
  shows "boots d crc mem f BOOT_BUTTON_PRESS False"
proof -
  have inv: "fifo d crc mem a [config_bytes v]" and freed: "freed_ok d (mem (area_flash a)) (rd_idx a)"
    and dvd: "16 dvd wr_idx a"
    using ok by (simp_all add: area_ok_def)
  have at: "rec_at d crc (mem (area_flash a)) (rd_idx a) (config_bytes v)" and wr: "wr_idx a = rd_idx a + 16"
    and fa: "area_fa a" "wr_idx a \<le> fa_size d" and rd: "8 dvd rd_idx a" and er: "erased_from (wr_idx a) (mem (area_flash a))"
    using inv by (auto simp: fifo_def block8)
  obtain f1 where w: "flash_area_write d (area_flash a) (rd_idx a) (replicate header_size 0) = (0, f1)"
    using write_zeros_ok [of "rd_idx a" 8 "area_flash a"] rd wr fa(2) by (cases "flash_area_write d (area_flash a) (rd_idx a) (replicate header_size 0)") (auto simp: block8)
  have m1: "mem f1 = mem_put (rd_idx a) (replicate 8 0) (mem (area_flash a))" using write_put [OF w] by simp
  have freed1: "freed_ok d (mem f1) (wr_idx a)" using freed_after_free [OF freed at rd m1] wr by simp
  have er1: "erased_from (wr_idx a) (mem f1)" using er wr fa(2) by (simp add: m1 erased_from_def mem_put_def add.commute)
  have "f = f1 \<or> f = snd (flash_area_erase d f1 0 (fa_size d))"
    using f header_read [OF at] w fa(1) by (auto simp: free_flashes_def split: if_splits)
  moreover have "boots d crc mem f1 BOOT_BUTTON_PRESS False"
  proof (cases "wr_idx a = fa_size d")
    case True
    then have "area_full d mem (a\<lparr>area_flash := f1\<rparr>)" using freed1 by (simp add: area_full_def)
    then show ?thesis unfolding boots_def by (intro exI [of _ "a\<lparr>area_flash := f1\<rparr>"]) simp
  next
    case False
    obtain i j where "wr_idx a = 16 * i" "fa_size d = 16 * j" using dvd size16 unfolding dvd_def by blast
    then have "wr_idx a + 16 \<le> fa_size d" using False fa(2) by simp
    then have "area_ok d crc mem (a\<lparr>area_flash := f1, rd_idx := wr_idx a\<rparr>) []"
      using freed1 er1 dvd fa dvd16_8 [OF dvd] by (simp add: area_ok_def fifo_def block8)
    then show ?thesis using keeps_boots [of "a\<lparr>area_flash := f1, rd_idx := wr_idx a\<rparr>" BOOT_BUTTON_PRESS False]
      by (simp add: area_keeps_def)
  qed
  ultimately show ?thesis using erase_boots by auto
qed

subsubsection \<open>Pushing\<close>

lemma room_payload:
  assumes room: "area_room d mem a" and m: "mem f = mem_put (wr_idx a + 8) xs (mem (area_flash a))" "length xs = 8"
  shows "area_room d mem (a\<lparr>area_flash := f\<rparr>)"
proof -
  let ?m = "mem (area_flash a)"
  have wr: "wr_idx a + 16 \<le> fa_size d" "8 dvd wr_idx a" and freed: "freed_ok d ?m (wr_idx a)"
    using room dvd16_8 by (simp_all add: area_room_def)
  have "freed_ok d (mem f) (wr_idx a)"
    using wr m(2) by (intro freed_ok_frame [OF freed]) (simp_all add: m(1) nth_mem_put_before block8)
  moreover have "erased_range (wr_idx a) 8 (mem f)"
    using room wr m by (simp add: area_room_def erased_range_put_after)
  moreover have "erased_from (wr_idx a + 16) (mem f)"
    using room wr m by (simp add: area_room_def erased_from_def mem_put_def add.commute)
  ultimately show ?thesis using room by (simp add: area_room_def)
qed

lemma push_refused:
  assumes room: "area_room d mem a" and w: "flash_area_write d (area_flash a) (wr_idx a + 8) (config_bytes v) = (ret, f1)" "ret \<noteq> 0"
  shows "storage_push d crc a (Some (config_bytes v)) =
      (RET_ERROR_INTERNAL, reset_area d crc (a\<lparr>area_flash := f1\<rparr>), Some (config_bytes v))"
    and "push_flashes d crc a (config_bytes v) = [f1, snd (flash_area_erase d f1 0 (fa_size d))]"
    and "area_room d mem (a\<lparr>area_flash := f1\<rparr>)"
    and "area_ok d crc mem (reset_area d crc (a\<lparr>area_flash := f1\<rparr>)) []"
proof -
  have check: "storage_push_check d a (Some (config_bytes v)) = RET_SUCCESS" "wr_idx a + 16 \<le> fa_size d"
    and fa: "area_fa a"
    using room size_bounds(1) by (simp_all add: area_room_def storage_push_check_def)
  then show "storage_push d crc a (Some (config_bytes v)) =
      (RET_ERROR_INTERNAL, reset_area d crc (a\<lparr>area_flash := f1\<rparr>), Some (config_bytes v))"
    "push_flashes d crc a (config_bytes v) = [f1, snd (flash_area_erase d f1 0 (fa_size d))]"
    using w by (simp_all add: storage_push_def storage_push_commit_def push_flashes_def Let_def split_def)
  have "mem f1 = mem (area_flash a)" using refused [OF _ w] block8 by simp
  then show "area_room d mem (a\<lparr>area_flash := f1\<rparr>)" using room by (simp add: area_room_def)
  show "area_ok d crc mem (reset_area d crc (a\<lparr>area_flash := f1\<rparr>)) []"
    using reset_total [of "a\<lparr>area_flash := f1\<rparr>"] fa size_bounds(1)
    by (simp add: area_ok_def freed_ok_def) (simp add: fifo_def)
qed

lemma push_written:
  assumes room: "area_room d mem a" and w: "flash_area_write d (area_flash a) (wr_idx a + 8) (config_bytes v) = (0, f1)"
  obtains f3 where "storage_push d crc a (Some (config_bytes v)) =
      (RET_SUCCESS, a\<lparr>area_flash := f3, wr_idx := wr_idx a + 16\<rparr>, Some (config_bytes v))"
    and "push_flashes d crc a (config_bytes v) = [f1, f3]"
    and "area_room d mem (a\<lparr>area_flash := f1\<rparr>)"
    and "area_ok d crc mem (a\<lparr>area_flash := f3, wr_idx := wr_idx a + 16\<rparr>) [config_bytes v]"
proof -
  let ?m = "mem (area_flash a)" and ?wr = "wr_idx a" and ?hdr = "header_bytes (push_header crc (config_bytes v))"
  have check: "storage_push_check d a (Some (config_bytes v)) = RET_SUCCESS" and wr: "?wr + 16 \<le> fa_size d" "8 dvd ?wr"
    and fa: "area_fa a" and rd: "rd_idx a = ?wr" and dvd: "16 dvd ?wr"
    using room size_bounds(1) dvd16_8 by (simp_all add: area_room_def storage_push_check_def)
  have m1: "mem f1 = mem_put (?wr + 8) (config_bytes v) ?m" using write_put [OF w] .
  have room1: "area_room d mem (a\<lparr>area_flash := f1\<rparr>)" by (rule room_payload [OF room m1]) simp
  have rb: "push_read_back d f1 ?wr (config_bytes v) = config_bytes v"
    using wr by (intro read_back_total) (simp_all add: m1)
  have "fst (flash_area_write d f1 ?wr ?hdr) = 0"
    using room1 wr by (intro write_erased_ok) (simp_all add: area_room_def block8)
  then obtain f3 where w3: "flash_area_write d f1 ?wr ?hdr = (0, f3)" by (metis prod.collapse)
  have m3: "mem f3 = mem_put ?wr ?hdr (mem f1)" using write_put [OF w3] .
  let ?a = "a\<lparr>area_flash := f3, wr_idx := ?wr + 16\<rparr>"
  have "mem_get (?wr + 8) 8 (mem f3) = config_bytes v" using wr by (simp add: m3 m1 mem_get_mem_put_after)
  moreover have "mem_get ?wr 8 (mem f3) = ?hdr" using wr by (simp add: m3)
  ultimately have "rec_at d crc (mem f3) ?wr (config_bytes v)" using wr by (simp add: rec_at_def)
  moreover have "erased_from (?wr + 16) (mem f3)"
    using room1 wr by (simp add: m3 area_room_def erased_from_def mem_put_def add.commute)
  moreover have "freed_ok d (mem f3) ?wr"
    by (rule freed_ok_frame [of d "mem f1"]) (use room1 wr in \<open>simp_all add: area_room_def m3 nth_mem_put_before block8\<close>)
  moreover have "16 dvd ?wr + 16" "8 dvd ?wr + 16" using dvd wr(2) by simp_all
  ultimately have "area_ok d crc mem ?a [config_bytes v]"
    using wr fa rd by (simp add: area_ok_def fifo_def block8)
  moreover have "storage_push d crc a (Some (config_bytes v)) = (RET_SUCCESS, ?a, Some (config_bytes v))"
    using check w w3 rb wr by (simp add: storage_push_def storage_push_commit_def Let_def split_def)
  moreover have "push_flashes d crc a (config_bytes v) = [f1, f3]"
    using check w w3 rb wr by (simp add: push_flashes_def Let_def split_def)
  ultimately show thesis using that room1 by blast
qed

lemma room_keeps: "area_room d mem a \<Longrightarrow> boots d crc mem (area_flash a) BOOT_BUTTON_PRESS True"
  using keeps_boots [of a BOOT_BUTTON_PRESS True] by (simp add: area_keeps_def)

lemma record_keeps: "area_ok d crc mem a [config_bytes v] \<Longrightarrow> boots d crc mem (area_flash a) v False"
  using keeps_boots [of a v False] by (simp add: area_keeps_def)

lemma push_boots:
  assumes room: "area_room d mem a" and f: "f \<in> set (push_flashes d crc a (config_bytes b))"
  shows "boots d crc mem f BOOT_BUTTON_PRESS False \<or> boots d crc mem f BOOT_BUTTON_PRESS True \<or> boots d crc mem f b False"
proof -
  obtain ret f1 where w: "flash_area_write d (area_flash a) (wr_idx a + 8) (config_bytes b) = (ret, f1)"
    by (cases "flash_area_write d (area_flash a) (wr_idx a + 8) (config_bytes b)")
  show ?thesis
  proof (cases "ret = 0")
    case True
    obtain f3 where "push_flashes d crc a (config_bytes b) = [f1, f3]" "area_room d mem (a\<lparr>area_flash := f1\<rparr>)"
      "area_ok d crc mem (a\<lparr>area_flash := f3, wr_idx := wr_idx a + 16\<rparr>) [config_bytes b]"
      using push_written [OF room w [unfolded True]] by blast
    then show ?thesis using f room_keeps [of "a\<lparr>area_flash := f1\<rparr>"]
        record_keeps [of "a\<lparr>area_flash := f3, wr_idx := wr_idx a + 16\<rparr>" b] by auto
  next
    case False
    then show ?thesis
      using push_refused(2,3) [OF room w False] f room_keeps [of "a\<lparr>area_flash := f1\<rparr>"] erase_boots by auto
  qed
qed

text \<open>Before the record is pushed, in any state.\<close>

lemma holds_room:
  assumes "config_holds d crc mem s c"
  shows "area_room d mem (persist_free d crc (config_storage_area s))"
    and "\<not> cell_unclean c \<Longrightarrow> area_ok d crc mem (persist_free d crc (config_storage_area s)) []"
proof -
  let ?a = "config_storage_area s"
  show ok: "area_ok d crc mem (persist_free d crc ?a) []" if "\<not> cell_unclean c"
    using assms that persist_free_ok [of ?a "[config_bytes (cell_kept c)]" "cell_kept c"] persist_free_ok [of ?a "[]"]
    by (auto simp: config_holds_def area_keeps_def)
  show "area_room d mem (persist_free d crc ?a)"
  proof (cases "cell_unclean c")
    case True
    then have room: "area_room d mem ?a" using assms by (simp add: config_holds_def area_keeps_def)
    then have "persist_free d crc ?a = ?a" by (simp add: persist_free_def storage_has_data_def area_room_def)
    then show ?thesis using room by simp
  qed (use ok room_of_ok in blast)
qed

subsubsection \<open>The steps\<close>

lemma set_effect:
  assumes holds: "config_holds d crc mem s c"
  shows "\<exists>r s' c'. config_set_reboot_behavior d crc on b s = (r, s') \<and>
    (Ret r, c') \<in> set (cell_steps on (Set_behavior b) c) \<and> config_holds d crc mem s' c'"
proof (cases "b = cell_value c \<or> \<not> valid_behavior on b")
  case True
  then show ?thesis using holds
    by (auto simp: config_set_reboot_behavior_def config_holds_def valid_behavior_def)
next
  case False
  let ?a = "persist_free d crc (config_storage_area s)"
  obtain ret f1 where w: "flash_area_write d (area_flash ?a) (wr_idx ?a + 8) (config_bytes b) = (ret, f1)"
    by (cases "flash_area_write d (area_flash ?a) (wr_idx ?a + 8) (config_bytes b)")
  note room = holds_room(1) [OF holds]
  have set: "config_set_reboot_behavior d crc on b s = persist_config d crc (s\<lparr>current_config := config_bytes b\<rparr>)"
    using False holds by (auto simp: config_set_reboot_behavior_def config_holds_def valid_behavior_def)
  have i: "config_initialized s" using holds by (simp add: config_holds_def)
  show ?thesis
  proof (cases "ret = 0")
    case True
    obtain a' where "storage_push d crc ?a (Some (config_bytes b)) = (RET_SUCCESS, a', Some (config_bytes b))"
      "area_ok d crc mem a' [config_bytes b]"
      using push_written [OF room w [unfolded True]] by blast
    then show ?thesis using set False i
      by (auto simp: persist_config_def config_holds_def area_keeps_def cell_start_def Let_def)
  next
    case bad: False
    have "cell_unclean c"
    proof (rule ccontr)
      assume "\<not> cell_unclean c"
      then have "erased_from (wr_idx ?a) (mem (area_flash ?a))" "8 dvd wr_idx ?a" "wr_idx ?a + 16 \<le> fa_size d"
        using holds_room(2) [OF holds] by (simp_all add: area_ok_def fifo_def block8)
      then show False
        using write_erased [of "wr_idx ?a + 8" "config_bytes b" "wr_idx ?a" "area_flash ?a"] w bad by (auto simp: block8)
    qed
    then show ?thesis using set False i push_refused(1,4) [OF room w bad]
      by (auto simp: persist_config_def config_holds_def area_keeps_def Let_def)
  qed
qed

lemma set_flashes_boots:
  assumes holds: "config_holds d crc mem s c" and f: "f \<in> set (set_flashes d crc on b s)"
  shows "boots d crc mem f (cell_kept c) (cell_unclean c) \<or>
    valid_behavior on b \<and> b \<noteq> cell_value c \<and>
    (boots d crc mem f BOOT_BUTTON_PRESS False \<or> boots d crc mem f BOOT_BUTTON_PRESS True \<or> boots d crc mem f b False)"
proof -
  let ?a = "config_storage_area s"
  have cur: "current_config s = config_bytes (cell_value c)" and keeps: "area_keeps d crc mem ?a (cell_kept c) (cell_unclean c)"
    using holds by (simp_all add: config_holds_def)
  consider (start) "f = area_flash ?a"
    | (free) "valid_behavior on b" "b \<noteq> cell_value c" "storage_has_data ?a" "f \<in> set (free_flashes d ?a)"
    | (push) "valid_behavior on b" "b \<noteq> cell_value c" "f \<in> set (push_flashes d crc (persist_free d crc ?a) (config_bytes b))"
    using f cur by (auto simp: set_flashes_def valid_behavior_def Let_def split: if_splits)
  then show ?thesis
  proof cases
    case start
    then show ?thesis using holds_boots [OF holds] by simp
  next
    case free
    then have "area_ok d crc mem ?a [config_bytes (cell_kept c)]"
      using keeps by (auto simp: area_keeps_def storage_has_data_def area_room_def area_ok_def fifo_def split: if_splits)
    then show ?thesis using free_boots free by blast
  next
    case push
    then show ?thesis using push_boots [OF holds_room(1) [OF holds]] by blast
  qed
qed

lemma interrupted_effect:
  assumes holds: "config_holds d crc mem s c"
  shows "\<exists>s' c'. config_init d crc (config_set_interrupted d crc on b n s) = Some (RET_SUCCESS, s') \<and>
    (Ret RET_SUCCESS, c') \<in> set (cell_steps on (Set_power_loss b n) c) \<and> config_holds d crc mem s' c'"
proof -
  let ?fs = "set_flashes d crc on b s"
  have "?fs \<noteq> []" by (simp add: set_flashes_def Let_def)
  then have "?fs ! min n (length ?fs - 1) \<in> set ?fs" by (intro nth_mem) (cases ?fs; auto)
  moreover have "area_flash (config_storage_area (config_set_interrupted d crc on b n s)) = ?fs ! min n (length ?fs - 1)"
    by (simp add: config_set_interrupted_def Let_def)
  ultimately obtain v u where "boots d crc mem (area_flash (config_storage_area (config_set_interrupted d crc on b n s))) v u"
    "(Ret RET_SUCCESS, cell_start v u) \<in> set (cell_steps on (Set_power_loss b n) c)"
    using set_flashes_boots [OF holds] by fastforce
  then show ?thesis using boots_init by blast
qed

lemma step_holds:
  assumes "config_holds d crc mem s c"
  shows "\<exists>r s' c'. config_step d crc on op s = Some (r, s') \<and> (r, c') \<in> set (cell_steps on op c) \<and> config_holds d crc mem s' c'"
proof (cases op)
  case (Set_behavior b)
  then show ?thesis using set_effect [OF assms, of on b] by fastforce
next
  case Get_behavior
  then show ?thesis using assms by (simp add: config_get_reboot_behavior_def config_holds_def)
next
  case Reboot
  then show ?thesis using boots_init [OF holds_boots [OF assms]] by auto
next
  case (Set_power_loss b n)
  then show ?thesis using interrupted_effect [OF assms, of on b n] by fastforce
qed

lemma run_holds:
  assumes "config_holds d crc mem s c"
  shows "\<exists>rs s' c'. config_run (\<lambda>s op. config_step d crc on op s) ops s = Some (rs, s') \<and>
    (rs, c') \<in> set (cell_runs on ops c) \<and> config_holds d crc mem s' c'"
  using assms
proof (induction ops arbitrary: s c)
  case (Cons op ops)
  obtain r s1 c1 where 1: "config_step d crc on op s = Some (r, s1)" "(r, c1) \<in> set (cell_steps on op c)"
    "config_holds d crc mem s1 c1"
    using step_holds [OF Cons.prems] by blast
  obtain rs s2 c2 where "config_run (\<lambda>s op. config_step d crc on op s) ops s1 = Some (rs, s2)"
    "(rs, c2) \<in> set (cell_runs on ops c1)" "config_holds d crc mem s2 c2"
    using Cons.IH [OF 1(3)] by blast
  then show ?case using 1 by fastforce
qed simp

lemma history_holds:
  assumes "mem (area_flash (config_storage_area s)) = replicate (fa_size d) erased_byte"
  shows "\<exists>rs s' c'. config_run (\<lambda>s op. config_step d crc on op s) (Reboot # ops) s = Some (rs, s') \<and>
    (rs, c') \<in> set (cell_runs on (Reboot # ops) (cell_start BOOT_BUTTON_PRESS False)) \<and> config_holds d crc mem s' c'"
proof -
  obtain s1 where 1: "config_init d crc s = Some (RET_SUCCESS, s1)"
    "config_holds d crc mem s1 (cell_start BOOT_BUTTON_PRESS False)"
    using boots_init [OF boots_erased [OF assms]] by blast
  obtain rs s2 c2 where "config_run (\<lambda>s op. config_step d crc on op s) ops s1 = Some (rs, s2)"
    "(rs, c2) \<in> set (cell_runs on ops (cell_start BOOT_BUTTON_PRESS False))" "config_holds d crc mem s2 c2"
    using run_holds [OF 1(2), of on ops] by blast
  then show ?thesis using 1(1) by (fastforce simp: cell_start_def)
qed

end

subsection \<open>What the cell allows\<close>

text \<open>Without losses of power there is one run, in which every change takes effect and lasts.\<close>

lemma cell_runs_single:
  "list_all (\<lambda>op. \<forall>b n. op \<noteq> Set_power_loss b n) ops \<Longrightarrow> \<exists>rs v'. cell_runs on ops (cell_start v False) = [(rs, cell_start v' False)]"
proof (induction ops arbitrary: v)
  case (Cons op ops)
  then have ops: "\<exists>rs v'. cell_runs on ops (cell_start v False) = [(rs, cell_start v' False)]" for v by simp
  have "\<exists>r v'. cell_steps on op (cell_start v False) = [(r, cell_start v' False)]"
    using Cons.prems by (cases op) (auto simp: cell_start_def)
  then obtain r v1 where 1: "cell_steps on op (cell_start v False) = [(r, cell_start v1 False)]" by blast
  obtain rs v2 where "cell_runs on ops (cell_start v1 False) = [(rs, cell_start v2 False)]" using ops by blast
  then show ?case using 1 by auto
qed auto

lemma cell_runs_append:
  "(rs, c') \<in> set (cell_runs on (xs @ ys) c) \<Longrightarrow>
   \<exists>rs1 c1 rs2. (rs1, c1) \<in> set (cell_runs on xs c) \<and> (rs2, c') \<in> set (cell_runs on ys c1) \<and> rs = rs1 @ rs2"
proof (induction xs arbitrary: c rs)
  case (Cons op xs)
  then show ?case by fastforce
qed simp

text \<open>As long as no setting has failed, the value in force is the one kept.\<close>

lemma cell_runs_kept:
  "(rs, c') \<in> set (cell_runs on ops c) \<Longrightarrow> cell_value c = cell_kept c \<Longrightarrow> Ret RET_ERROR_INTERNAL \<notin> set rs \<Longrightarrow>
   cell_value c' = cell_kept c'"
proof (induction ops arbitrary: c rs)
  case (Cons op ops)
  then obtain r c1 rs' where 1: "(r, c1) \<in> set (cell_steps on op c)" "(rs', c') \<in> set (cell_runs on ops c1)" "rs = r # rs'"
    by auto
  then have "cell_value c1 = cell_kept c1"
    using Cons.prems by (cases op) (auto simp: cell_start_def split: if_splits)
  then show ?case using Cons.IH 1 Cons.prems by auto
qed simp

subsection \<open>The module refines its contract\<close>

text \<open>
  C33. From an erased partition on, any sequence of initializations, settings, readings and losses of power in the middle
  of a setting, at any write or erase of the flash, returns the codes and values of a run that the cell allows: without a loss of power every
  change takes effect and lasts; a loss leaves the old, the new or the default behaviour; only after
  one that left flash written but not claimed may the next change fail.
\<close>

theorem config_refines_cell:
  assumes "config_platform d mem crc"
    and "mem (area_flash (config_storage_area s)) = replicate (fa_size d) erased_byte"
  shows "\<exists>rs s' c'. config_run (\<lambda>s op. config_step d crc on op s) (Reboot # ops) s = Some (rs, s') \<and>
    (rs, c') \<in> set (cell_runs on (Reboot # ops) (cell_start BOOT_BUTTON_PRESS False))"
  using config_platform.history_holds [OF assms] by blast

text \<open>
  When the new record cannot be written the value in RAM has already changed: setting the same behaviour again
  reports success without writing anything.
\<close>

lemma config_set_retry_lost:
  assumes "config_set_reboot_behavior d crc on b s = (ret, s')" "ret \<notin> {RET_SUCCESS, RET_ERROR_NOT_INITIALIZED, RET_ERROR_INVALID_PARAM}"
    and "current_config s \<noteq> []"
  shows "config_set_reboot_behavior d crc on b s' = (RET_SUCCESS, s')"
proof -
  have "hd (current_config s') = b \<and> config_initialized s'"
    using assms by (cases "current_config s") (auto simp: config_set_reboot_behavior_def persist_config_def Let_def
        split: if_splits prod.splits)
  then show ?thesis by (simp add: config_set_reboot_behavior_def)
qed

subsection \<open>The partition of Pearl\<close>

interpretation pearl_config: config_platform "sim_flash 4096 8" "sim_mem 4096" sim_crc
  by unfold_locales (auto simp: sim_flash_def split: if_splits)

definition config_erased :: "u8 list config" where
  "config_erased = \<lparr>config_storage_area = \<lparr>area_fa = False, area_flash = replicate 4096 erased_byte, wr_idx = 0, rd_idx = 0\<rparr>,
     current_config = replicate 8 0, config_initialized = False\<rparr>"

lemma config_refines_cell_witness:
  "\<exists>v s'. v \<in> {0, 1} \<and> config_run (\<lambda>s op. config_step (sim_flash 4096 8) sim_crc 1 op s)
      [Reboot, Set_behavior 1, Set_behavior 7, Reboot, Get_behavior, Set_power_loss 0 2, Get_behavior] config_erased =
    Some ([Ret RET_SUCCESS, Ret RET_SUCCESS, Ret RET_ERROR_INVALID_PARAM, Ret RET_SUCCESS, Behavior 1, Ret RET_SUCCESS,
      Behavior v], s')"
proof -
  have "sim_mem 4096 (area_flash (config_storage_area config_erased)) = replicate (fa_size (sim_flash 4096 8)) erased_byte"
    by (simp add: config_erased_def)
  from config_refines_cell [OF pearl_config.config_platform_axioms this, of 1
      "[Set_behavior 1, Set_behavior 7, Reboot, Get_behavior, Set_power_loss 0 2, Get_behavior]"]
  show ?thesis by (auto simp: valid_behavior_def BOOT_BUTTON_PRESS_def cell_start_def simp del: config_run.simps)
qed

end
