(* ===== verification/Version.thy ===== *)
theory Version
  imports Dfu
begin

text \<open>
  Hardware and firmware versions (\<^verbatim>\<open>main_board/src/system/version/version.c\<close>). On Pearl the version of the main board is
  a voltage; on Diamond main board, front unit, power board and reset board have up to four pins each on an I/O
  expander. A version is read until it is recognised and then kept.

  What the pins and the converter return is an argument. The numbers of the enumerators belong to the message
  definitions, which are not part of the repository: the table of names takes them as a parameter.
\<close>

subsection \<open>Versions\<close>

datatype orb_version =
    HW_VERSION_UNKNOWN
  | PEARL_EV1 | PEARL_EV2 | PEARL_EV3 | PEARL_EV4 | PEARL_EV5
  | DIAMOND_POC1 | DIAMOND_POC2 | DIAMOND_B3 | DIAMOND_EVT
  | DIAMOND_V4_4 | DIAMOND_V4_5 | DIAMOND_V4_6 | DIAMOND_V4_7 | DIAMOND_V4_8

datatype front_unit_version =
    FRONT_UNIT_VERSION_UNKNOWN
  | FRONT_UNIT_VERSION_V6_0 | FRONT_UNIT_VERSION_V6_1 | FRONT_UNIT_VERSION_V6_2A | FRONT_UNIT_VERSION_V6_2B
  | FRONT_UNIT_VERSION_V6_3A | FRONT_UNIT_VERSION_V6_3B | FRONT_UNIT_VERSION_V6_3C | FRONT_UNIT_VERSION_V6_3D
  | FRONT_UNIT_VERSION_V6_4A

datatype power_board_version =
    POWER_BOARD_VERSION_UNKNOWN
  | POWER_BOARD_VERSION_V1_0 | POWER_BOARD_VERSION_V1_1 | POWER_BOARD_VERSION_V1_2 | POWER_BOARD_VERSION_V1_3
  | POWER_BOARD_VERSION_V1_4 | POWER_BOARD_VERSION_V1_5 | POWER_BOARD_VERSION_V1_6 | POWER_BOARD_VERSION_V1_7

datatype reset_board_version = RESET_BOARD_VERSION_UNKNOWN | RESET_BOARD_VERSION_V1_1

record versions =
  version :: orb_version
  front_unit :: front_unit_version
  power_board :: power_board_version
  reset_board :: reset_board_version

text \<open>Next to \<open>board_versions\<close>, each of the three getters has a static variable of its own.\<close>

record version_state =
  board_versions :: versions
  front_unit_static :: front_unit_version
  power_board_static :: power_board_version
  reset_board_static :: reset_board_version

subsection \<open>Reading\<close>

text \<open>A pin: whether its port is ready, what configuring and reading it return.\<close>

type_synonym hw_pin = "bool \<times> int \<times> int"

fun get_hw_bits_from :: "nat \<Rightarrow> hw_pin list \<Rightarrow> int \<Rightarrow> ret_code_t \<times> int" where
  "get_hw_bits_from i [] hw_bits = (RET_SUCCESS, hw_bits)"
| "get_hw_bits_from i ((ready, ret, pin) # pins) hw_bits =
    (if \<not> ready then (RET_ERROR_INVALID_STATE, hw_bits)
     else if ret \<noteq> 0 then (RET_ERROR_INTERNAL, hw_bits)
     else if pin < 0 then (RET_ERROR_INTERNAL, hw_bits)
     else get_hw_bits_from (i + 1) pins (or hw_bits (push_bit i pin)))"

definition get_hw_bits :: "hw_pin list \<Rightarrow> ret_code_t \<times> int" where
  "get_hw_bits pins = (if length pins > 4 then (RET_ERROR_FORBIDDEN, 0) else get_hw_bits_from 0 pins 0)"

text \<open>The tables. A code that is not in its table is reported and leaves the version unknown.\<close>

definition main_board_of_bits :: "int \<Rightarrow> orb_version option" where
  "main_board_of_bits =
    map_of [(0, DIAMOND_POC1), (1, DIAMOND_POC2), (2, DIAMOND_B3), (3, DIAMOND_EVT), (4, DIAMOND_V4_4),
      (5, DIAMOND_V4_5), (7, DIAMOND_V4_6), (8, DIAMOND_V4_7), (9, DIAMOND_V4_8)]"

definition front_unit_of_bits :: "int \<Rightarrow> front_unit_version option" where
  "front_unit_of_bits =
    map_of [(0, FRONT_UNIT_VERSION_V6_0), (1, FRONT_UNIT_VERSION_V6_1), (2, FRONT_UNIT_VERSION_V6_2A),
      (3, FRONT_UNIT_VERSION_V6_2B), (4, FRONT_UNIT_VERSION_V6_3A), (5, FRONT_UNIT_VERSION_V6_3B),
      (7, FRONT_UNIT_VERSION_V6_3C), (8, FRONT_UNIT_VERSION_V6_3D), (9, FRONT_UNIT_VERSION_V6_4A)]"

definition power_board_of_bits :: "int \<Rightarrow> power_board_version option" where
  "power_board_of_bits =
    map_of [(0, POWER_BOARD_VERSION_V1_0), (1, POWER_BOARD_VERSION_V1_1), (2, POWER_BOARD_VERSION_V1_2),
      (3, POWER_BOARD_VERSION_V1_3), (4, POWER_BOARD_VERSION_V1_4), (5, POWER_BOARD_VERSION_V1_5),
      (6, POWER_BOARD_VERSION_V1_6), (7, POWER_BOARD_VERSION_V1_7)]"

definition reset_board_of_bits :: "int \<Rightarrow> reset_board_version option" where
  "reset_board_of_bits = map_of [(0, RESET_BOARD_VERSION_V1_1)]"

definition main_board_of_mv :: "int \<Rightarrow> orb_version option" where
  "main_board_of_mv mv =
    (if mv > 3200 then Some PEARL_EV2
     else if mv > 2900 then Some PEARL_EV3
     else if mv < 100 then Some PEARL_EV1
     else if mv < 400 then Some PEARL_EV4
     else if mv > 930 \<and> mv < 1130 then Some PEARL_EV5
     else None)"

text \<open>
  What one call can read: on Pearl whether the converter is ready, what the conversion returns and its value in millivolts,
  on Diamond the pins of the four boards.
\<close>

record version_inputs =
  adc_ready :: bool
  adc_read_ret :: int
  hardware_version_mv :: int
  main_board_pins :: "hw_pin list"
  front_unit_pins :: "hw_pin list"
  power_board_pins :: "hw_pin list"
  reset_board_pins :: "hw_pin list"

definition version_get_front_unit_rev :: "version_inputs \<Rightarrow> version_state \<Rightarrow> front_unit_version \<times> version_state" where
  "version_get_front_unit_rev i s =
    (if front_unit_static s = FRONT_UNIT_VERSION_UNKNOWN then
       let (ret, hw_bits) = get_hw_bits (front_unit_pins i)
       in if ret \<noteq> RET_SUCCESS then (FRONT_UNIT_VERSION_UNKNOWN, s)
          else let v = (case front_unit_of_bits hw_bits of Some v \<Rightarrow> v | None \<Rightarrow> FRONT_UNIT_VERSION_UNKNOWN)
               in (v, s\<lparr>front_unit_static := v\<rparr>)
     else (front_unit_static s, s))"

definition version_get_power_board_rev :: "version_inputs \<Rightarrow> version_state \<Rightarrow> power_board_version \<times> version_state" where
  "version_get_power_board_rev i s =
    (if power_board_static s = POWER_BOARD_VERSION_UNKNOWN then
       let (ret, hw_bits) = get_hw_bits (power_board_pins i)
       in if ret \<noteq> RET_SUCCESS then (POWER_BOARD_VERSION_UNKNOWN, s)
          else let v = (case power_board_of_bits hw_bits of Some v \<Rightarrow> v | None \<Rightarrow> POWER_BOARD_VERSION_UNKNOWN)
               in (v, s\<lparr>power_board_static := v\<rparr>)
     else (power_board_static s, s))"

definition version_get_reset_board_rev :: "version_inputs \<Rightarrow> version_state \<Rightarrow> reset_board_version \<times> version_state" where
  "version_get_reset_board_rev i s =
    (if reset_board_static s = RESET_BOARD_VERSION_UNKNOWN then
       let (ret, hw_bits) = get_hw_bits (reset_board_pins i)
       in if ret \<noteq> RET_SUCCESS then (RESET_BOARD_VERSION_UNKNOWN, s)
          else let v = (case reset_board_of_bits hw_bits of Some v \<Rightarrow> v | None \<Rightarrow> RESET_BOARD_VERSION_UNKNOWN)
               in (v, s\<lparr>reset_board_static := v\<rparr>)
     else (reset_board_static s, s))"

text \<open>What reading the main board gives: an error, or a version unless the reading is not recognised.\<close>

definition fetch_main_board :: "board \<Rightarrow> version_inputs \<Rightarrow> ret_code_t + orb_version option" where
  "fetch_main_board b i =
    (case b of
       Pearl \<Rightarrow>
         (if \<not> adc_ready i then Inl RET_ERROR_INVALID_STATE
          else if adc_read_ret i < 0 then Inl RET_ERROR_INTERNAL
          else Inr (main_board_of_mv (hardware_version_mv i)))
     | Diamond \<Rightarrow>
         (let (ret, hw_bits) = get_hw_bits (main_board_pins i)
          in if ret \<noteq> RET_SUCCESS then Inl ret else Inr (main_board_of_bits hw_bits)))"

definition fetch_other_boards :: "version_inputs \<Rightarrow> version_state \<Rightarrow> version_state" where
  "fetch_other_boards i s =
    (let s1 = (if front_unit (board_versions s) = FRONT_UNIT_VERSION_UNKNOWN
               then let (v, t) = version_get_front_unit_rev i s in t\<lparr>board_versions := board_versions t\<lparr>front_unit := v\<rparr>\<rparr> else s);
         s2 = (if power_board (board_versions s1) = POWER_BOARD_VERSION_UNKNOWN
               then let (v, t) = version_get_power_board_rev i s1 in t\<lparr>board_versions := board_versions t\<lparr>power_board := v\<rparr>\<rparr> else s1)
     in if reset_board (board_versions s2) = RESET_BOARD_VERSION_UNKNOWN
        then let (v, t) = version_get_reset_board_rev i s2 in t\<lparr>board_versions := board_versions t\<lparr>reset_board := v\<rparr>\<rparr> else s2)"

definition version_fetch_hardware_rev :: "board \<Rightarrow> version_inputs \<Rightarrow> version_state \<Rightarrow> ret_code_t \<times> version_state" where
  "version_fetch_hardware_rev b i s =
    (let r = (if version (board_versions s) = HW_VERSION_UNKNOWN then fetch_main_board b i else Inr None)
     in case r of
          Inl ret \<Rightarrow> (ret, s)
        | Inr v \<Rightarrow>
            (let s1 = (case v of Some v \<Rightarrow> s\<lparr>board_versions := board_versions s\<lparr>version := v\<rparr>\<rparr> | None \<Rightarrow> s)
             in (RET_SUCCESS, if b = Diamond then fetch_other_boards i s1 else s1)))"

subsection \<open>The calls\<close>

definition version_init :: "board \<Rightarrow> version_inputs \<Rightarrow> version_state \<Rightarrow> ret_code_t \<times> version_state" where
  "version_init b i s = version_fetch_hardware_rev b i s"

definition version_get :: "board \<Rightarrow> version_inputs \<Rightarrow> version_state \<Rightarrow> versions \<times> version_state" where
  "version_get b i s = (let s' = snd (version_fetch_hardware_rev b i s) in (board_versions s', s'))"

text \<open>
  The two messages: \<open>publish\<close> is what \<^verbatim>\<open>publish_new\<close> returns for a message. The hardware is sent as it is known, without reading
  again.
\<close>

definition version_hw_send :: "(versions \<Rightarrow> int) \<Rightarrow> version_state \<Rightarrow> int" where
  "version_hw_send publish s = publish (board_versions s)"

record versions_msg =
  primary_app :: "nat \<times> nat \<times> nat \<times> u32"
  secondary_app :: "(nat \<times> nat \<times> nat \<times> u32) option"

definition app_version :: "image_version \<Rightarrow> nat \<times> nat \<times> nat \<times> u32" where
  "app_version v = (unat (iv_major v), unat (iv_minor v), unat (iv_revision v), iv_build_num v)"

definition version_fw_msg ::
    "mcuboot \<Rightarrow> 'f flash_driver \<Rightarrow> 'f flash_driver \<Rightarrow> ('s, 'f, 'cb) dfu \<Rightarrow> versions_msg \<times> ('s, 'f, 'cb) dfu" where
  "version_fw_msg mb d0 d1 s =
    (let ((ret0, v0), s1) = dfu_version_primary_get mb d0 True s;
         ((ret1, v1), s2) = dfu_version_secondary_get mb d1 True s1
     in (\<lparr>primary_app = (case v0 of Some v \<Rightarrow> app_version v | None \<Rightarrow> (0, 0, 0, 0)),
          secondary_app = (if ret1 = RET_SUCCESS then map_option app_version v1 else None)\<rparr>, s2))"

definition version_fw_send ::
    "mcuboot \<Rightarrow> 'f flash_driver \<Rightarrow> 'f flash_driver \<Rightarrow> (versions_msg \<Rightarrow> int) \<Rightarrow> ('s, 'f, 'cb) dfu \<Rightarrow> int \<times> ('s, 'f, 'cb) dfu" where
  "version_fw_send mb d0 d1 publish s = (let (msg, s') = version_fw_msg mb d0 d1 s in (publish msg, s'))"

text \<open>\<open>number\<close> are the numbers of the enumerators.\<close>

fun hardware_versions_str :: "board \<Rightarrow> string list" where
  "hardware_versions_str Pearl =
    [''PEARL_UNKNOWN'', ''PEARL_EV1'', ''PEARL_EV2'', ''PEARL_EV3'', ''PEARL_EV4'', ''PEARL_EV5'', ''PEARL_EV6'']"
| "hardware_versions_str Diamond =
    [''DIAMOND_UNKNOWN'', ''DIAMOND_POC1'', ''DIAMOND_POC2'', ''DIAMOND_B3'', ''DIAMOND_EVT_4.3'', ''DIAMOND_EVT_4.4'',
     ''DIAMOND_4.5'', ''DIAMOND_4.6'', ''DIAMOND_4.7'', ''DIAMOND_4.8'']"

definition get_string_index :: "board \<Rightarrow> (orb_version \<Rightarrow> nat) \<Rightarrow> orb_version \<Rightarrow> nat" where
  "get_string_index b number v =
    (let idx = (case b of
         Pearl \<Rightarrow> number v
       | Diamond \<Rightarrow> if number v < number DIAMOND_POC1 then 0 else number v - number DIAMOND_POC1 + 1)
     in if idx = 0 \<or> idx \<ge> length (hardware_versions_str b) then 0 else idx)"

subsection \<open>The first reading that is recognised counts\<close>

definition main_board_reading :: "board \<Rightarrow> version_inputs \<Rightarrow> orb_version option" where
  "main_board_reading b i = (case fetch_main_board b i of Inl _ \<Rightarrow> None | Inr v \<Rightarrow> v)"

definition pins_reading :: "(int \<Rightarrow> 'v option) \<Rightarrow> hw_pin list \<Rightarrow> 'v option" where
  "pins_reading table pins = (let (ret, hw_bits) = get_hw_bits pins in if ret = RET_SUCCESS then table hw_bits else None)"

fun first_known :: "('i \<Rightarrow> 'v option) \<Rightarrow> 'i list \<Rightarrow> 'v option" where
  "first_known f [] = None"
| "first_known f (i # is) = (case f i of None \<Rightarrow> first_known f is | Some v \<Rightarrow> Some v)"

definition keep :: "'v \<Rightarrow> 'v \<Rightarrow> 'v option \<Rightarrow> 'v" where
  "keep unknown x y = (if x \<noteq> unknown then x else case y of Some v \<Rightarrow> v | None \<Rightarrow> unknown)"

lemma keep_simps [simp]:
  "x \<noteq> u \<Longrightarrow> keep u x y = x" "keep u u None = u" "keep u u (Some v) = v" "keep u x None = x"
  by (simp_all add: keep_def)

text \<open>No table contains the unknown version.\<close>

lemma map_of_not: "v \<notin> set (map snd xs) \<Longrightarrow> map_of xs k \<noteq> Some v"
  by (auto dest!: map_of_SomeD simp: image_iff)

lemma readings_known [simp]:
  "main_board_of_bits n \<noteq> Some HW_VERSION_UNKNOWN" "main_board_of_mv n \<noteq> Some HW_VERSION_UNKNOWN"
  "front_unit_of_bits n \<noteq> Some FRONT_UNIT_VERSION_UNKNOWN" "power_board_of_bits n \<noteq> Some POWER_BOARD_VERSION_UNKNOWN"
  "reset_board_of_bits n \<noteq> Some RESET_BOARD_VERSION_UNKNOWN"
  unfolding main_board_of_bits_def front_unit_of_bits_def power_board_of_bits_def reset_board_of_bits_def
  by (rule map_of_not, simp | simp add: main_board_of_mv_def)+

lemma main_board_reading_known [simp]: "main_board_reading b i \<noteq> Some HW_VERSION_UNKNOWN"
  by (cases b) (simp_all add: main_board_reading_def fetch_main_board_def split_def Let_def)

lemma pins_reading_known: "(\<And>n. table n \<noteq> Some u) \<Longrightarrow> pins_reading table pins \<noteq> Some u"
  by (simp add: pins_reading_def split_def Let_def)

lemma keep_first:
  "f i \<noteq> Some u \<Longrightarrow> keep u (keep u x (f i)) (first_known f is) = keep u x (first_known f (i # is))"
  by (cases "x = u"; cases "f i") auto

text \<open>
  The history of the calls. The getters are functions of the header for Diamond: the initialisation of the front LEDs calls
  the one of the front unit (\<^verbatim>\<open>front_leds.c\<close>), and calls it before the first fetch.
\<close>

datatype version_call =
    Fetch version_inputs | Front_unit version_inputs | Power_board version_inputs | Reset_board version_inputs

fun version_step :: "board \<Rightarrow> version_call \<Rightarrow> version_state \<Rightarrow> version_state" where
  "version_step b (Fetch i) s = snd (version_fetch_hardware_rev b i s)"
| "version_step b (Front_unit i) s = (if b = Diamond then snd (version_get_front_unit_rev i s) else s)"
| "version_step b (Power_board i) s = (if b = Diamond then snd (version_get_power_board_rev i s) else s)"
| "version_step b (Reset_board i) s = (if b = Diamond then snd (version_get_reset_board_rev i s) else s)"

definition version_run :: "board \<Rightarrow> version_call list \<Rightarrow> version_state \<Rightarrow> version_state" where
  "version_run b cs s = fold (version_step b) cs s"

lemma version_run_simps [simp]:
  "version_run b [] s = s" "version_run b (c # cs) s = version_run b cs (version_step b c s)"
  by (simp_all add: version_run_def)

fun fetches :: "version_call list \<Rightarrow> version_inputs list" where
  "fetches [] = []"
| "fetches (Fetch i # cs) = i # fetches cs"
| "fetches (_ # cs) = fetches cs"

fun front_unit_call :: "version_call \<Rightarrow> version_inputs option" where
  "front_unit_call (Front_unit i) = Some i"
| "front_unit_call _ = None"

fun power_board_call :: "version_call \<Rightarrow> version_inputs option" where
  "power_board_call (Power_board i) = Some i"
| "power_board_call _ = None"

fun reset_board_call :: "version_call \<Rightarrow> version_inputs option" where
  "reset_board_call (Reset_board i) = Some i"
| "reset_board_call _ = None"

text \<open>
  The occasions to read one of the other boards, with whether they fetch: the calls of its getter, and the fetches that are
  not ended by a failure to read the main board while its version is unknown. \<open>known\<close>: the version of the main board is
  known.
\<close>

fun looks :: "board \<Rightarrow> (version_call \<Rightarrow> version_inputs option) \<Rightarrow> bool \<Rightarrow> version_call list \<Rightarrow> (bool \<times> version_inputs) list" where
  "looks b call known [] = []"
| "looks b call known (Fetch i # cs) =
    (if known \<or> (\<exists>v. fetch_main_board b i = Inr v) then (True, i) # looks b call (known \<or> main_board_reading b i \<noteq> None) cs
     else looks b call known cs)"
| "looks b call known (c # cs) =
    (case call c of Some i \<Rightarrow> (False, i) # looks b call known cs | None \<Rightarrow> looks b call known cs)"

text \<open>The occasions up to the last that fetches.\<close>

definition fetched :: "(bool \<times> version_inputs) list \<Rightarrow> version_inputs list" where
  "fetched ls = map snd (rev (dropWhile (\<lambda>(f, i). \<not> f) (rev ls)))"

lemma fetched_snoc [simp]:
  "fetched [] = []" "fetched (ls @ [(True, i)]) = map snd ls @ [i]" "fetched (ls @ [(False, i)]) = fetched ls"
  by (simp_all add: fetched_def)

text \<open>What a getter keeps and what the fetches have taken from it, over the occasions.\<close>

definition look :: "'v \<Rightarrow> (version_inputs \<Rightarrow> 'v option) \<Rightarrow> bool \<times> version_inputs \<Rightarrow> 'v \<times> 'v \<Rightarrow> 'v \<times> 'v" where
  "look u reading l k = (let own = keep u (snd k) (reading (snd l)) in (if fst l then own else fst k, own))"

lemma first_known_append:
  "first_known f (xs @ ys) = (case first_known f xs of None \<Rightarrow> first_known f ys | Some v \<Rightarrow> Some v)"
  by (induction xs) (auto split: option.splits)

lemma first_known_not: "(\<And>i. f i \<noteq> Some u) \<Longrightarrow> first_known f xs \<noteq> Some u"
  by (induction xs) (auto split: option.splits)

lemma look_all:
  assumes "\<And>i. reading i \<noteq> Some u"
  shows "fold (look u reading) ls (u, u) =
    (keep u u (first_known reading (fetched ls)), keep u u (first_known reading (map snd ls)))"
proof (induction ls rule: rev_induct)
  case (snoc l ls)
  obtain f i where l: "l = (f, i)" by (cases l)
  have "keep u (keep u u (first_known reading (map snd ls))) (reading i) = keep u u (first_known reading (map snd ls @ [i]))"
    using first_known_not [of reading u "map snd ls"] assms
    by (cases "first_known reading (map snd ls)"; cases "reading i") (auto simp: first_known_append)
  then show ?case using snoc.IH by (cases f) (simp_all add: l look_def Let_def)
qed simp

text \<open>A version the fetches have taken is the one the getter keeps.\<close>

definition versions_agree :: "version_state \<Rightarrow> bool" where
  "versions_agree s \<longleftrightarrow>
     front_unit (board_versions s) \<in> {FRONT_UNIT_VERSION_UNKNOWN, front_unit_static s} \<and>
     power_board (board_versions s) \<in> {POWER_BOARD_VERSION_UNKNOWN, power_board_static s} \<and>
     reset_board (board_versions s) \<in> {RESET_BOARD_VERSION_UNKNOWN, reset_board_static s}"

abbreviation front_unit_pair :: "version_state \<Rightarrow> front_unit_version \<times> front_unit_version" where
  "front_unit_pair s \<equiv> (front_unit (board_versions s), front_unit_static s)"

abbreviation power_board_pair :: "version_state \<Rightarrow> power_board_version \<times> power_board_version" where
  "power_board_pair s \<equiv> (power_board (board_versions s), power_board_static s)"

abbreviation reset_board_pair :: "version_state \<Rightarrow> reset_board_version \<times> reset_board_version" where
  "reset_board_pair s \<equiv> (reset_board (board_versions s), reset_board_static s)"

abbreviation look_front_unit :: "bool \<times> version_inputs \<Rightarrow> front_unit_version \<times> front_unit_version \<Rightarrow> front_unit_version \<times> front_unit_version" where
  "look_front_unit \<equiv> look FRONT_UNIT_VERSION_UNKNOWN (\<lambda>i. pins_reading front_unit_of_bits (front_unit_pins i))"

abbreviation look_power_board :: "bool \<times> version_inputs \<Rightarrow> power_board_version \<times> power_board_version \<Rightarrow> power_board_version \<times> power_board_version" where
  "look_power_board \<equiv> look POWER_BOARD_VERSION_UNKNOWN (\<lambda>i. pins_reading power_board_of_bits (power_board_pins i))"

abbreviation look_reset_board :: "bool \<times> version_inputs \<Rightarrow> reset_board_version \<times> reset_board_version \<Rightarrow> reset_board_version \<times> reset_board_version" where
  "look_reset_board \<equiv> look RESET_BOARD_VERSION_UNKNOWN (\<lambda>i. pins_reading reset_board_of_bits (reset_board_pins i))"

lemma getter_effect:
  "version_get_front_unit_rev i s = (let k = look_front_unit (False, i) (front_unit_pair s) in (snd k, s\<lparr>front_unit_static := snd k\<rparr>))"
  "version_get_power_board_rev i s = (let k = look_power_board (False, i) (power_board_pair s) in (snd k, s\<lparr>power_board_static := snd k\<rparr>))"
  "version_get_reset_board_rev i s = (let k = look_reset_board (False, i) (reset_board_pair s) in (snd k, s\<lparr>reset_board_static := snd k\<rparr>))"
  by (cases s; simp add: version_get_front_unit_rev_def version_get_power_board_rev_def version_get_reset_board_rev_def
      look_def keep_def pins_reading_def split_def Let_def split: option.splits)+

lemma other_boards_effect:
  assumes "versions_agree s"
  shows "versions_agree (fetch_other_boards i s)"
    "version (board_versions (fetch_other_boards i s)) = version (board_versions s)"
    "front_unit_pair (fetch_other_boards i s) = look_front_unit (True, i) (front_unit_pair s)"
    "power_board_pair (fetch_other_boards i s) = look_power_board (True, i) (power_board_pair s)"
    "reset_board_pair (fetch_other_boards i s) = look_reset_board (True, i) (reset_board_pair s)"
  using assms
  by (auto simp: fetch_other_boards_def getter_effect look_def keep_def versions_agree_def split_def Let_def)

definition fetch_reads :: "board \<Rightarrow> version_inputs \<Rightarrow> version_state \<Rightarrow> bool" where
  "fetch_reads b i s \<longleftrightarrow> version (board_versions s) \<noteq> HW_VERSION_UNKNOWN \<or> (\<exists>v. fetch_main_board b i = Inr v)"

lemma fetch_effect:
  assumes "versions_agree s"
  shows "versions_agree (version_step b (Fetch i) s)"
    "version (board_versions (version_step b (Fetch i) s)) = keep HW_VERSION_UNKNOWN (version (board_versions s)) (main_board_reading b i)"
    "b = Diamond \<Longrightarrow> front_unit_pair (version_step b (Fetch i) s) =
      (if fetch_reads b i s then look_front_unit (True, i) (front_unit_pair s) else front_unit_pair s)"
    "b = Diamond \<Longrightarrow> power_board_pair (version_step b (Fetch i) s) =
      (if fetch_reads b i s then look_power_board (True, i) (power_board_pair s) else power_board_pair s)"
    "b = Diamond \<Longrightarrow> reset_board_pair (version_step b (Fetch i) s) =
      (if fetch_reads b i s then look_reset_board (True, i) (reset_board_pair s) else reset_board_pair s)"
    "b = Pearl \<Longrightarrow> front_unit_pair (version_step b (Fetch i) s) = front_unit_pair s"
    "b = Pearl \<Longrightarrow> power_board_pair (version_step b (Fetch i) s) = power_board_pair s"
    "b = Pearl \<Longrightarrow> reset_board_pair (version_step b (Fetch i) s) = reset_board_pair s"
proof -
  let ?v = "if version (board_versions s) = HW_VERSION_UNKNOWN then main_board_reading b i else None"
  let ?s1 = "case ?v of Some v \<Rightarrow> s\<lparr>board_versions := board_versions s\<lparr>version := v\<rparr>\<rparr> | None \<Rightarrow> s"
  have agree: "versions_agree ?s1" using assms by (cases ?v) (simp_all add: versions_agree_def)
  have eq: "version (board_versions ?s1) = keep HW_VERSION_UNKNOWN (version (board_versions s)) (main_board_reading b i)"
    "front_unit_pair ?s1 = front_unit_pair s" "power_board_pair ?s1 = power_board_pair s"
    "reset_board_pair ?s1 = reset_board_pair s"
    by (auto simp: keep_def split: option.splits)
  have s': "version_step b (Fetch i) s = (if b = Diamond \<and> fetch_reads b i s then fetch_other_boards i ?s1 else ?s1)"
    by (cases "fetch_main_board b i"; cases b)
      (simp_all add: version_fetch_hardware_rev_def fetch_reads_def main_board_reading_def)
  note effects = other_boards_effect [OF agree, of i, unfolded eq]
  show "versions_agree (version_step b (Fetch i) s)"
    "version (board_versions (version_step b (Fetch i) s)) = keep HW_VERSION_UNKNOWN (version (board_versions s)) (main_board_reading b i)"
    unfolding s' using agree effects(1,2) eq(1) by simp_all
  show "front_unit_pair (version_step b (Fetch i) s) =
      (if fetch_reads b i s then look_front_unit (True, i) (front_unit_pair s) else front_unit_pair s)"
    "power_board_pair (version_step b (Fetch i) s) =
      (if fetch_reads b i s then look_power_board (True, i) (power_board_pair s) else power_board_pair s)"
    "reset_board_pair (version_step b (Fetch i) s) =
      (if fetch_reads b i s then look_reset_board (True, i) (reset_board_pair s) else reset_board_pair s)"
    if "b = Diamond" unfolding s' using that effects eq by (cases "fetch_reads b i s"; simp)+
  show "front_unit_pair (version_step b (Fetch i) s) = front_unit_pair s"
    "power_board_pair (version_step b (Fetch i) s) = power_board_pair s"
    "reset_board_pair (version_step b (Fetch i) s) = reset_board_pair s"
    if "b = Pearl" unfolding s' using that eq by simp_all
qed

lemma getters_effect:
  assumes "versions_agree s"
  shows "versions_agree (version_step b (Front_unit i) s)" "versions_agree (version_step b (Power_board i) s)"
    "versions_agree (version_step b (Reset_board i) s)"
  using assms by (auto simp: versions_agree_def getter_effect look_def keep_def Let_def)

lemma step_agree: "versions_agree s \<Longrightarrow> versions_agree (version_step b c s)"
  by (cases c) (simp_all only: fetch_effect(1) getters_effect)

lemma run_main:
  "versions_agree s \<Longrightarrow> version (board_versions (version_run b cs s)) =
    keep HW_VERSION_UNKNOWN (version (board_versions s)) (first_known (main_board_reading b) (fetches cs))"
proof (induction cs arbitrary: s)
  case (Cons c cs)
  note IH = Cons.IH [OF step_agree [OF Cons.prems, of b c]]
  show ?case
  proof (cases c)
    case (Fetch i)
    then show ?thesis using IH fetch_effect(2) [OF Cons.prems, of b i]
        keep_first [of "main_board_reading b" i HW_VERSION_UNKNOWN "version (board_versions s)" "fetches cs"]
      by (simp del: version_step.simps)
  qed (use IH in \<open>simp_all add: getter_effect Let_def\<close>)
qed simp

text \<open>Each of the other boards, one after the other, with the same argument: \<open>pair\<close> is what the fetches have taken and what the getter keeps.\<close>

lemma run_other:
  fixes pair :: "version_state \<Rightarrow> 'v \<times> 'v" and reading :: "version_inputs \<Rightarrow> 'v option"
  assumes fetch: "\<And>i s. versions_agree s \<Longrightarrow> pair (version_step Diamond (Fetch i) s) =
      (if fetch_reads Diamond i s then look u reading (True, i) (pair s) else pair s)"
    and other: "\<And>c s. \<nexists>i. c = Fetch i \<Longrightarrow> pair (version_step Diamond c s) =
      (case call c of Some i \<Rightarrow> look u reading (False, i) (pair s) | None \<Rightarrow> pair s)"
  shows "versions_agree s \<Longrightarrow> pair (version_run Diamond cs s) =
    fold (look u reading) (looks Diamond call (version (board_versions s) \<noteq> HW_VERSION_UNKNOWN) cs) (pair s)"
proof (induction cs arbitrary: s)
  case (Cons c cs)
  let ?s = "version_step Diamond c s" and ?k = "version (board_versions s) \<noteq> HW_VERSION_UNKNOWN"
  have IH: "pair (version_run Diamond cs ?s) =
      fold (look u reading) (looks Diamond call (version (board_versions ?s) \<noteq> HW_VERSION_UNKNOWN) cs) (pair ?s)"
    by (rule Cons.IH) (rule step_agree [OF Cons.prems])
  show ?case
  proof (cases "\<exists>i. c = Fetch i")
    case True
    then obtain i where c: "c = Fetch i" by blast
    have main: "version (board_versions ?s) \<noteq> HW_VERSION_UNKNOWN \<longleftrightarrow> ?k \<or> main_board_reading Diamond i \<noteq> None"
      using main_board_reading_known [of Diamond i] unfolding c fetch_effect(2) [OF Cons.prems]
      by (cases "main_board_reading Diamond i") (auto simp: keep_def)
    have none: "main_board_reading Diamond i = None" if "\<nexists>v. fetch_main_board Diamond i = Inr v"
      using that by (auto simp: main_board_reading_def split: sum.splits)
    show ?thesis using IH fetch [OF Cons.prems, of i] none unfolding main
      by (simp add: c fetch_reads_def del: version_step.simps)
  next
    case False
    then have same: "version (board_versions ?s) = version (board_versions s)"
      by (cases c) (simp_all add: getter_effect Let_def)
    have "looks Diamond call ?k (c # cs) = (case call c of Some i \<Rightarrow> (False, i) # looks Diamond call ?k cs | None \<Rightarrow> looks Diamond call ?k cs)"
      using False by (cases c) simp_all
    then show ?thesis using IH other [of c s] False unfolding same by (auto split: option.splits)
  qed
qed simp

definition versions_unknown :: version_state where
  "versions_unknown = \<lparr>board_versions = \<lparr>version = HW_VERSION_UNKNOWN, front_unit = FRONT_UNIT_VERSION_UNKNOWN,
       power_board = POWER_BOARD_VERSION_UNKNOWN, reset_board = RESET_BOARD_VERSION_UNKNOWN\<rparr>,
     front_unit_static = FRONT_UNIT_VERSION_UNKNOWN, power_board_static = POWER_BOARD_VERSION_UNKNOWN,
     reset_board_static = RESET_BOARD_VERSION_UNKNOWN\<rparr>"

lemma unknown_agree: "versions_agree versions_unknown"
  by (simp add: versions_agree_def versions_unknown_def)

lemma run_pearl:
  "versions_agree s \<Longrightarrow> front_unit_pair (version_run Pearl cs s) = front_unit_pair s \<and>
    power_board_pair (version_run Pearl cs s) = power_board_pair s \<and> reset_board_pair (version_run Pearl cs s) = reset_board_pair s"
proof (induction cs arbitrary: s)
  case (Cons c cs)
  have "front_unit_pair (version_step Pearl c s) = front_unit_pair s" "power_board_pair (version_step Pearl c s) = power_board_pair s"
    "reset_board_pair (version_step Pearl c s) = reset_board_pair s"
    by (cases c; simp add: fetch_effect(6-8) [OF Cons.prems refl] del: version_step.simps(1))+
  then show ?case using Cons.IH [OF step_agree [OF Cons.prems, of Pearl c]] by simp
qed simp

lemma run_boards:
  "front_unit_pair (version_run Diamond cs versions_unknown) =
    fold look_front_unit (looks Diamond front_unit_call False cs) (front_unit_pair versions_unknown)"
  "power_board_pair (version_run Diamond cs versions_unknown) =
    fold look_power_board (looks Diamond power_board_call False cs) (power_board_pair versions_unknown)"
  "reset_board_pair (version_run Diamond cs versions_unknown) =
    fold look_reset_board (looks Diamond reset_board_call False cs) (reset_board_pair versions_unknown)"
proof -
  have known: "(version (board_versions versions_unknown) \<noteq> HW_VERSION_UNKNOWN) = False"
    by (simp add: versions_unknown_def)
  note run = run_other [where s = versions_unknown and cs = cs, unfolded known, OF _ _ unknown_agree]
  show "front_unit_pair (version_run Diamond cs versions_unknown) =
      fold look_front_unit (looks Diamond front_unit_call False cs) (front_unit_pair versions_unknown)"
  proof (rule run)
    show "front_unit_pair (version_step Diamond c s) =
        (case front_unit_call c of Some i \<Rightarrow> look_front_unit (False, i) (front_unit_pair s) | None \<Rightarrow> front_unit_pair s)"
      if "\<nexists>i. c = Fetch i" for c s
      using that by (cases c) (simp_all add: getter_effect look_def Let_def)
  qed (rule fetch_effect(3) [OF _ refl])
  show "power_board_pair (version_run Diamond cs versions_unknown) =
      fold look_power_board (looks Diamond power_board_call False cs) (power_board_pair versions_unknown)"
  proof (rule run)
    show "power_board_pair (version_step Diamond c s) =
        (case power_board_call c of Some i \<Rightarrow> look_power_board (False, i) (power_board_pair s) | None \<Rightarrow> power_board_pair s)"
      if "\<nexists>i. c = Fetch i" for c s
      using that by (cases c) (simp_all add: getter_effect look_def Let_def)
  qed (rule fetch_effect(4) [OF _ refl])
  show "reset_board_pair (version_run Diamond cs versions_unknown) =
      fold look_reset_board (looks Diamond reset_board_call False cs) (reset_board_pair versions_unknown)"
  proof (rule run)
    show "reset_board_pair (version_step Diamond c s) =
        (case reset_board_call c of Some i \<Rightarrow> look_reset_board (False, i) (reset_board_pair s) | None \<Rightarrow> reset_board_pair s)"
      if "\<nexists>i. c = Fetch i" for c s
      using that by (cases c) (simp_all add: getter_effect look_def Let_def)
  qed (rule fetch_effect(5) [OF _ refl])
qed

text \<open>
  C35. Whatever the pins and the converter return over a history of fetches and of direct calls of the getters, \<open>board_versions\<close>
  has for the main board the first reading of a fetch that its table knows. For another board of Diamond it has the first known
  reading among the occasions to read it, direct calls included, up to the last fetch that is not ended by a failure to read the
  main board: a version a direct call has found is taken by the next such fetch, which need not be able to read the pins itself,
  and is not seen before. On Pearl the other boards stay unknown.
\<close>

theorem versions_first_known:
  "let s = version_run b cs versions_unknown;
       taken = (\<lambda>call. if b = Diamond then fetched (looks b call False cs) else []) in
    board_versions s = \<lparr>
      version = keep HW_VERSION_UNKNOWN HW_VERSION_UNKNOWN (first_known (main_board_reading b) (fetches cs)),
      front_unit = keep FRONT_UNIT_VERSION_UNKNOWN FRONT_UNIT_VERSION_UNKNOWN
        (first_known (\<lambda>i. pins_reading front_unit_of_bits (front_unit_pins i)) (taken front_unit_call)),
      power_board = keep POWER_BOARD_VERSION_UNKNOWN POWER_BOARD_VERSION_UNKNOWN
        (first_known (\<lambda>i. pins_reading power_board_of_bits (power_board_pins i)) (taken power_board_call)),
      reset_board = keep RESET_BOARD_VERSION_UNKNOWN RESET_BOARD_VERSION_UNKNOWN
        (first_known (\<lambda>i. pins_reading reset_board_of_bits (reset_board_pins i)) (taken reset_board_call))\<rparr>"
proof -
  have main: "version (board_versions (version_run b cs versions_unknown)) =
      keep HW_VERSION_UNKNOWN HW_VERSION_UNKNOWN (first_known (main_board_reading b) (fetches cs))"
    using run_main [OF unknown_agree, of b cs] by (simp add: versions_unknown_def)
  show ?thesis
  proof (cases b)
    case Pearl
    then show ?thesis using main run_pearl [OF unknown_agree, of cs] by (simp add: versions_unknown_def Let_def)
  next
    case Diamond
    have "front_unit_pair versions_unknown = (FRONT_UNIT_VERSION_UNKNOWN, FRONT_UNIT_VERSION_UNKNOWN)"
      "power_board_pair versions_unknown = (POWER_BOARD_VERSION_UNKNOWN, POWER_BOARD_VERSION_UNKNOWN)"
      "reset_board_pair versions_unknown = (RESET_BOARD_VERSION_UNKNOWN, RESET_BOARD_VERSION_UNKNOWN)"
      by (simp_all add: versions_unknown_def)
    then show ?thesis using Diamond main run_boards [of cs] by (simp add: look_all pins_reading_known Let_def)
  qed
qed

text \<open>A direct call that finds the version of the front unit is not seen until a fetch, which then takes it with its own pins unreadable.\<close>

lemma front_unit_taken_later:
  "let pins = \<lparr>adc_ready = False, adc_read_ret = 0, hardware_version_mv = 0, main_board_pins = [(True, 0, 0)],
         front_unit_pins = [(True, 0, 1)], power_board_pins = [], reset_board_pins = []\<rparr>;
       blind = pins\<lparr>front_unit_pins := [(False, 0, 0)]\<rparr>;
       s1 = version_run Diamond [Front_unit pins] versions_unknown;
       s2 = version_run Diamond [Front_unit pins, Fetch blind] versions_unknown
   in front_unit (board_versions s1) = FRONT_UNIT_VERSION_UNKNOWN \<and> front_unit (board_versions s2) = FRONT_UNIT_VERSION_V6_1"
  by (simp add: versions_unknown_def version_get_front_unit_rev_def version_get_power_board_rev_def version_get_reset_board_rev_def
      version_fetch_hardware_rev_def fetch_main_board_def fetch_other_boards_def get_hw_bits_def main_board_of_bits_def
      front_unit_of_bits_def power_board_of_bits_def reset_board_of_bits_def)

subsection \<open>Codes and names\<close>

text \<open>Four pins that can be read give the number they encode, and a pin that cannot ends the reading.\<close>

lemma get_hw_bits_value:
  "get_hw_bits (map (\<lambda>p. (True, 0, of_bool p)) [p0, p1, p2, p3]) =
    (RET_SUCCESS, of_bool p0 + 2 * of_bool p1 + 4 * of_bool p2 + 8 * of_bool p3)"
  by (cases p0; cases p1; cases p2; cases p3) (simp_all add: get_hw_bits_def)

lemma get_hw_bits_from_fails:
  "\<exists>(ready, ret, pin) \<in> set pins. \<not> ready \<or> ret \<noteq> 0 \<or> pin < 0 \<Longrightarrow>
    fst (get_hw_bits_from k pins n) \<in> {RET_ERROR_INVALID_STATE, RET_ERROR_INTERNAL}"
  by (induction k pins n rule: get_hw_bits_from.induct) auto

text \<open>
  With the numbers of the enumerators in the order of the type and without gaps, each version of Diamond has its
  name in the table, the one the comment of the file gives its code.
\<close>

lemma diamond_version_names:
  assumes "map number [DIAMOND_POC1, DIAMOND_POC2, DIAMOND_B3, DIAMOND_EVT, DIAMOND_V4_4, DIAMOND_V4_5, DIAMOND_V4_6,
      DIAMOND_V4_7, DIAMOND_V4_8] = [n ..< n + 9]" and "number HW_VERSION_UNKNOWN < n"
  shows "map (\<lambda>v. hardware_versions_str Diamond ! get_string_index Diamond number v)
      [HW_VERSION_UNKNOWN, DIAMOND_POC1, DIAMOND_POC2, DIAMOND_B3, DIAMOND_EVT, DIAMOND_V4_4, DIAMOND_V4_5, DIAMOND_V4_6,
       DIAMOND_V4_7, DIAMOND_V4_8] = hardware_versions_str Diamond"
proof -
  have "[n ..< n + 9] = [n, n + 1, n + 2, n + 3, n + 4, n + 5, n + 6, n + 7, n + 8]"
    by (simp add: upt_rec numeral_eq_Suc)
  then show ?thesis using assms by (simp add: get_string_index_def)
qed

end
