(* ===== verification/Mux.thy ===== *)
theory Mux
  imports Orb_Prelude
begin

unbundle bit_operations_syntax

text \<open>
  Bus multiplexers (\<^verbatim>\<open>drivers/mux_gpio/spi_mux_gpio.c\<close> and \<^verbatim>\<open>drivers/mux_gpio/i2c_mux_gpio.c\<close>): several busses share the one of
  the parent, and pins select which of them a transfer reaches. The two files do the same but for their initialisation:
  they are modelled together, with the kind of the bus as a field of the configuration.

  The pins and the parent bus are the state: the log of the parent bus has, for each transfer, the number the pins of the
  multiplexer encode at that moment, the level of the enable pin and the data. What the pin, lock and bus functions
  return is an argument of each call; a pin that cannot be written keeps its level.
\<close>


subsection \<open>Configuration and state\<close>

datatype mux_bus = Spi_Bus | I2c_Bus

record mux_config =
  mux_bus :: mux_bus
  has_enable_gpio :: bool
  number_of_mux_gpios :: nat

record 'm mux =
  selected_chan :: u8
  mux_pins :: "bool list"
  enable_pin :: bool
  bus_log :: "(u8 \<times> bool \<times> 'm) list"

text \<open>The bus the multiplexer connects.\<close>

definition connected_chan :: "bool list \<Rightarrow> u8" where
  "connected_chan pins = horner_sum of_bool 2 pins"

subsection \<open>Initialisation\<close>

record mux_init_env =
  bus_ready :: bool
  enable_port_ready :: bool
  enable_cfg_ret :: int
  mux_cfg_ret :: "nat \<Rightarrow> int"

fun configure_mux_pins :: "(nat \<Rightarrow> int) \<Rightarrow> nat list \<Rightarrow> bool list \<Rightarrow> bool \<times> bool list" where
  "configure_mux_pins ret [] pins = (True, pins)"
| "configure_mux_pins ret (i # is) pins =
    (if ret i \<noteq> 0 then (False, pins) else configure_mux_pins ret is (pins[i := False]))"

text \<open>The common end of the two functions: the enable pin, when it is there, and the pins of the multiplexer.\<close>

definition mux_init_pins :: "mux_config \<Rightarrow> mux_init_env \<Rightarrow> 'm mux \<Rightarrow> int \<times> 'm mux" where
  "mux_init_pins c e s =
    (if has_enable_gpio c \<and> enable_cfg_ret e \<noteq> 0 then (- EIO, s)
     else
       let s1 = (if has_enable_gpio c then s\<lparr>enable_pin := False\<rparr> else s);
           (ok, pins) = configure_mux_pins (mux_cfg_ret e) [0 ..< number_of_mux_gpios c] (mux_pins s1);
           s2 = s1\<lparr>mux_pins := pins\<rparr>
       in if \<not> ok then (- EIO, s2) else (0, s2\<lparr>selected_chan := 0\<rparr>))"

text \<open>
  \<open>None\<close>: without an enable pin the SPI function reports an error with the name of the port, through a pointer that is
  null.
\<close>

fun mux_gpio_root_init :: "mux_config \<Rightarrow> mux_init_env \<Rightarrow> 'm mux \<Rightarrow> (int \<times> 'm mux) option" where
  "mux_gpio_root_init c e s =
    (if \<not> bus_ready e then Some (- ENODEV, s)
     else case mux_bus c of
        Spi_Bus \<Rightarrow>
          (if \<not> has_enable_gpio c then None
           else if \<not> enable_port_ready e then Some (- ENODEV, s)
           else Some (mux_init_pins c e s))
      | I2c_Bus \<Rightarrow> Some (mux_init_pins c e s))"

definition mux_gpio_channel_init :: "bool \<Rightarrow> int" where
  "mux_gpio_channel_init root_ready = (if \<not> root_ready then - ENODEV else 0)"

subsection \<open>Transfers\<close>

text \<open>
  A call on one of the busses: its address and data, and what the lock, the pins of the multiplexer, the enable pin (before and
  after) and the parent bus return.
\<close>

record 'm mux_call =
  chan_addr :: u8
  call_data :: 'm
  lock_ret :: int
  mux_set_ret :: "nat \<Rightarrow> int"
  enable_ret :: int
  bus_ret :: int
  disable_ret :: int

fun set_mux_pins :: "(nat \<Rightarrow> int) \<Rightarrow> u8 \<Rightarrow> nat list \<Rightarrow> bool list \<Rightarrow> bool \<times> bool list" where
  "set_mux_pins ret channel_addr [] pins = (True, pins)"
| "set_mux_pins ret channel_addr (i # is) pins =
    (if ret i \<noteq> 0 then (False, pins)
     else set_mux_pins ret channel_addr is (pins[i := bit channel_addr i]))"

definition mux_gpio_set_channel :: "mux_config \<Rightarrow> 'm mux_call \<Rightarrow> 'm mux \<Rightarrow> int \<times> 'm mux" where
  "mux_gpio_set_channel c k s =
    (let (ok, s1) =
       (if selected_chan s \<noteq> chan_addr k then
          let (ok, pins) = set_mux_pins (mux_set_ret k) (chan_addr k) [0 ..< number_of_mux_gpios c] (mux_pins s)
          in (ok, if ok then s\<lparr>mux_pins := pins, selected_chan := chan_addr k\<rparr> else s\<lparr>mux_pins := pins\<rparr>)
        else (True, s))
     in if \<not> ok then (- EIO, s1)
        else if has_enable_gpio c \<and> enable_ret k \<noteq> 0 then (- EIO, s1)
        else (0, if has_enable_gpio c then s1\<lparr>enable_pin := True\<rparr> else s1))"

definition bus_transfer :: "'m mux_call \<Rightarrow> 'm mux \<Rightarrow> 'm mux" where
  "bus_transfer k s = s\<lparr>bus_log := bus_log s @ [(connected_chan (mux_pins s), enable_pin s, call_data k)]\<rparr>"

definition mux_gpio_transfer :: "mux_config \<Rightarrow> 'm mux_call \<Rightarrow> 'm mux \<Rightarrow> int \<times> 'm mux" where
  "mux_gpio_transfer c k s =
    (if lock_ret k \<noteq> 0 then (lock_ret k, s)
     else
       let (res, s1) = mux_gpio_set_channel c k s
       in if res \<noteq> 0 then (res, s1)
          else
            let s2 = bus_transfer k s1
            in if \<not> has_enable_gpio c then (bus_ret k, s2)
               else if disable_ret k \<noteq> 0 then (- EIO, s2)
               else (bus_ret k, s2\<lparr>enable_pin := False\<rparr>))"

text \<open>Releasing the SPI bus takes the lock as well, and configuring the I2C bus does not: neither touches the pins.\<close>

definition spi_mux_gpio_release :: "int \<Rightarrow> int \<Rightarrow> int" where
  "spi_mux_gpio_release lock release = (if lock \<noteq> 0 then lock else release)"

definition i2c_mux_gpio_configure :: "(u32 \<Rightarrow> int) \<Rightarrow> u32 \<Rightarrow> int" where
  "i2c_mux_gpio_configure configure dev_config = configure dev_config"

fun mux_transfers :: "mux_config \<Rightarrow> 'm mux_call list \<Rightarrow> 'm mux \<Rightarrow> int list \<times> 'm mux" where
  "mux_transfers c [] s = ([], s)"
| "mux_transfers c (k # ks) s =
    (let (res, s1) = mux_gpio_transfer c k s; (rs, s2) = mux_transfers c ks s1 in (res # rs, s2))"

subsection \<open>Each transfer reaches its bus\<close>

lemma configure_pins_all:
  assumes "configure_mux_pins ret [k ..< n] pins = (True, pins')" and "n = length pins" and "k \<le> n"
  shows "pins' = take k pins @ replicate (n - k) False"
  using assms
proof (induction "n - k" arbitrary: k pins)
  case (Suc d)
  then have k: "k < n" and eq: "[k ..< n] = k # [Suc k ..< n]" by (simp_all add: upt_conv_Cons)
  have "configure_mux_pins ret [Suc k ..< n] (pins[k := False]) = (True, pins')"
    using Suc.prems(1) by (simp add: eq split: if_splits)
  then have "pins' = take (Suc k) (pins[k := False]) @ replicate (n - Suc k) False"
    using Suc.hyps k Suc.prems(2) by (intro Suc.hyps(1)) simp_all
  moreover have "replicate (n - k) False = False # replicate (n - Suc k) False"
    using k by (simp add: Suc_diff_Suc flip: replicate_Suc)
  ultimately show ?case using k Suc.prems(2) by (simp add: take_Suc_conv_app_nth)
qed simp

lemma set_pins_all:
  assumes "\<And>i. ret i = 0" and "n = length pins" and "k \<le> n"
  shows "set_mux_pins ret a [k ..< n] pins = (True, take k pins @ map (bit a) [k ..< n])"
  using assms(2,3)
proof (induction "n - k" arbitrary: k pins)
  case (Suc d)
  then have k: "k < n" and eq: "[k ..< n] = k # [Suc k ..< n]" by (simp_all add: upt_conv_Cons)
  have "set_mux_pins ret a [Suc k ..< n] (pins[k := bit a k]) =
      (True, take (Suc k) (pins[k := bit a k]) @ map (bit a) [Suc k ..< n])"
    using Suc.hyps k Suc.prems by (intro Suc.hyps(1)) simp_all
  then show ?case unfolding eq using k Suc.prems assms(1) by (simp add: take_Suc_conv_app_nth)
qed simp

lemma connected_pins: "connected_chan (map (bit a) [0 ..< n]) = take_bit n a"
  by (simp add: connected_chan_def horner_sum_bit_eq_take_bit)

lemma connected_off: "connected_chan (replicate n False) = 0"
  unfolding connected_chan_def by (induction n) simp_all

text \<open>The channel that is kept is the one that is connected, as long as the pins can be written.\<close>

definition mux_ok :: "mux_config \<Rightarrow> 'm mux \<Rightarrow> bool" where
  "mux_ok c s \<longleftrightarrow> length (mux_pins s) = number_of_mux_gpios c \<and> connected_chan (mux_pins s) = selected_chan s"

definition call_ok :: "mux_config \<Rightarrow> 'm mux_call \<Rightarrow> bool" where
  "call_ok c k \<longleftrightarrow> take_bit (number_of_mux_gpios c) (chan_addr k) = chan_addr k \<and> (\<forall>i. mux_set_ret k i = 0)"

text \<open>The call gets the lock and can set the enable pin.\<close>

definition call_reaches :: "mux_config \<Rightarrow> 'm mux_call \<Rightarrow> bool" where
  "call_reaches c k \<longleftrightarrow> lock_ret k = 0 \<and> (has_enable_gpio c \<longrightarrow> enable_ret k = 0)"

definition call_result :: "mux_config \<Rightarrow> 'm mux_call \<Rightarrow> int" where
  "call_result c k =
    (if lock_ret k \<noteq> 0 then lock_ret k
     else if has_enable_gpio c \<and> (enable_ret k \<noteq> 0 \<or> disable_ret k \<noteq> 0) then - EIO
     else bus_ret k)"

lemma set_channel_ok:
  assumes "mux_ok c s" and "call_ok c k"
  obtains t where "mux_gpio_set_channel c k s = (if has_enable_gpio c \<and> enable_ret k \<noteq> 0 then (- EIO, t)
      else (0, if has_enable_gpio c then t\<lparr>enable_pin := True\<rparr> else t))"
    and "mux_ok c t" and "selected_chan t = chan_addr k" and "bus_log t = bus_log s" and "enable_pin t = enable_pin s"
proof (cases "selected_chan s = chan_addr k")
  case True
  then show thesis using assms by (intro that [of s]) (simp_all add: mux_gpio_set_channel_def)
next
  case False
  let ?t = "s\<lparr>mux_pins := map (bit (chan_addr k)) [0 ..< number_of_mux_gpios c], selected_chan := chan_addr k\<rparr>"
  have "set_mux_pins (mux_set_ret k) (chan_addr k) [0 ..< number_of_mux_gpios c] (mux_pins s) =
      (True, map (bit (chan_addr k)) [0 ..< number_of_mux_gpios c])"
    using assms set_pins_all [of "mux_set_ret k" "number_of_mux_gpios c" "mux_pins s" 0 "chan_addr k"]
    by (simp add: mux_ok_def call_ok_def)
  moreover have "mux_ok c ?t" using assms(2) by (simp add: mux_ok_def call_ok_def connected_pins)
  ultimately show thesis using False
    by (intro that [of ?t]) (simp_all add: mux_gpio_set_channel_def)
qed

text \<open>What the parent bus has carried: the bus each transfer reached and the data.\<close>

definition carried :: "'m mux \<Rightarrow> (u8 \<times> 'm) list" where
  "carried s = map (\<lambda>(chan, en, m). (chan, m)) (bus_log s)"

definition carried_enabled :: "'m mux \<Rightarrow> bool" where
  "carried_enabled s = list_all (\<lambda>(chan, en, m). en) (bus_log s)"

lemma transfer_ok:
  assumes "mux_ok c s" and "call_ok c k"
  shows "mux_ok c (snd (mux_gpio_transfer c k s))" and "fst (mux_gpio_transfer c k s) = call_result c k"
    and "carried (snd (mux_gpio_transfer c k s)) =
      carried s @ (if call_reaches c k then [(chan_addr k, call_data k)] else [])"
    and "has_enable_gpio c \<Longrightarrow> carried_enabled s \<Longrightarrow> carried_enabled (snd (mux_gpio_transfer c k s))"
proof -
  from set_channel_ok [OF assms] obtain t where t: "mux_gpio_set_channel c k s = (if has_enable_gpio c \<and> enable_ret k \<noteq> 0
      then (- EIO, t) else (0, if has_enable_gpio c then t\<lparr>enable_pin := True\<rparr> else t))"
    and ok: "mux_ok c t" "selected_chan t = chan_addr k" "bus_log t = bus_log s" "enable_pin t = enable_pin s" .
  have con: "connected_chan (mux_pins t) = chan_addr k" using ok(1,2) by (simp add: mux_ok_def)
  note defs = mux_gpio_transfer_def t call_result_def call_reaches_def bus_transfer_def Let_def con ok
    carried_def carried_enabled_def
  show "mux_ok c (snd (mux_gpio_transfer c k s))" using assms(1) ok(1) by (simp add: defs mux_ok_def)
  show "fst (mux_gpio_transfer c k s) = call_result c k" by (simp add: defs)
  show "carried (snd (mux_gpio_transfer c k s)) =
      carried s @ (if call_reaches c k then [(chan_addr k, call_data k)] else [])"
    by (simp add: defs)
  show "carried_enabled (snd (mux_gpio_transfer c k s))" if "has_enable_gpio c" "carried_enabled s"
    using that by (simp add: defs)
qed

lemma mux_transfers_simps [simp]:
  "fst (mux_transfers c (k # ks) s) =
    fst (mux_gpio_transfer c k s) # fst (mux_transfers c ks (snd (mux_gpio_transfer c k s)))"
  "snd (mux_transfers c (k # ks) s) = snd (mux_transfers c ks (snd (mux_gpio_transfer c k s)))"
  by (simp_all add: split_def Let_def)

lemma transfers_ok:
  assumes "mux_ok c s" and "list_all (call_ok c) ks"
  shows "fst (mux_transfers c ks s) = map (call_result c) ks"
    and "carried (snd (mux_transfers c ks s)) =
      carried s @ map (\<lambda>k. (chan_addr k, call_data k)) (filter (call_reaches c) ks)"
    and "has_enable_gpio c \<Longrightarrow> carried_enabled s \<Longrightarrow> carried_enabled (snd (mux_transfers c ks s))"
  using assms
proof (induction ks arbitrary: s)
  case (Cons k ks)
  {
    case 1
    then have "call_ok c k" "list_all (call_ok c) ks" by simp_all
    with 1(1) show ?case by (simp add: transfer_ok Cons.IH(1) del: mux_transfers.simps(2))
  next
    case 2
    then have "call_ok c k" "list_all (call_ok c) ks" by simp_all
    with 2(1) show ?case by (simp add: transfer_ok Cons.IH(2) del: mux_transfers.simps(2))
  next
    case 3
    then have "call_ok c k" "list_all (call_ok c) ks" by simp_all
    with 3 show ?case by (simp add: transfer_ok Cons.IH(3) del: mux_transfers.simps(2))
  }
qed simp_all

lemma mux_init_ok:
  assumes "mux_gpio_root_init c e s = Some (0, s')" and "length (mux_pins s) = number_of_mux_gpios c"
  shows "mux_ok c s' \<and> bus_log s' = bus_log s"
proof -
  have init: "mux_init_pins c e s = (0, s')"
    using assms(1) by (cases "mux_bus c") (simp_all split: if_split_asm)
  define t where "t = (if has_enable_gpio c then s\<lparr>enable_pin := False\<rparr> else s)"
  have same: "mux_pins t = mux_pins s" "bus_log t = bus_log s" by (simp_all add: t_def)
  obtain ok pins where p: "configure_mux_pins (mux_cfg_ret e) [0 ..< number_of_mux_gpios c] (mux_pins s) = (ok, pins)"
    by (cases "configure_mux_pins (mux_cfg_ret e) [0 ..< number_of_mux_gpios c] (mux_pins s)")
  have ne: "\<not> (has_enable_gpio c \<and> enable_cfg_ret e \<noteq> 0)"
  proof
    assume "has_enable_gpio c \<and> enable_cfg_ret e \<noteq> 0"
    then have "mux_init_pins c e s = (- EIO, s)" unfolding mux_init_pins_def by (rule if_P)
    with init show False by simp
  qed
  have eq: "mux_init_pins c e s = (if \<not> ok then (- EIO, t\<lparr>mux_pins := pins\<rparr>)
      else (0, t\<lparr>mux_pins := pins, selected_chan := 0\<rparr>))"
    unfolding mux_init_pins_def Let_def t_def [symmetric] same p if_not_P [OF ne] by simp
  have ok: ok and s': "s' = t\<lparr>mux_pins := pins, selected_chan := 0\<rparr>"
    using eq unfolding init by (simp_all split: if_split_asm)
  have "pins = replicate (number_of_mux_gpios c) False"
    using configure_pins_all [of "mux_cfg_ret e" 0 "number_of_mux_gpios c" "mux_pins s" pins] p ok
    by (simp add: assms(2) [symmetric])
  then show ?thesis by (simp add: s' same mux_ok_def connected_off)
qed

text \<open>
  C36. After the initialisation, in any series of transfers to the busses behind the pins in which the pins of the
  multiplexer can be written, whatever the lock, the enable pin and the parent bus return, the parent bus carries exactly the
  transfers whose call got the lock and could enable the multiplexer, in order, each while the pins select its
  own bus and, when there is an enable pin, while that pin is set; and each call returns what the lock, the pin or the bus
  returned.
\<close>

theorem mux_transfers_reach_channel:
  fixes s :: "'m mux"
  assumes "mux_gpio_root_init c e s = Some (0, s0)" and "length (mux_pins s) = number_of_mux_gpios c" and "bus_log s = []"
    and "list_all (call_ok c) ks"
  shows "let (rs, s') = mux_transfers c ks s0 in
    rs = map (call_result c) ks \<and>
    carried s' = map (\<lambda>k. (chan_addr k, call_data k)) (filter (call_reaches c) ks) \<and>
    (if has_enable_gpio c then carried_enabled s' else True)"
proof -
  have ok: "mux_ok c s0" "bus_log s0 = []" using mux_init_ok [OF assms(1,2)] assms(3) by simp_all
  then have "carried s0 = []" "carried_enabled s0" by (simp_all add: carried_def carried_enabled_def)
  then show ?thesis using transfers_ok [OF ok(1) assms(4)] by (simp add: split_def)
qed

text \<open>
  When a pin cannot be written, the pins before it have changed, and the channel that is kept has not. The next transfer
  to that channel leaves the pins as they are and reaches another bus, with success.
\<close>

lemma mux_wrong_channel:
  "let c = \<lparr>mux_bus = I2c_Bus, has_enable_gpio = True, number_of_mux_gpios = 2\<rparr>;
       call = \<lparr>chan_addr = 3, call_data = ''a'', lock_ret = 0, mux_set_ret = (\<lambda>i. if i = 1 then - EIO else 0),
         enable_ret = 0, bus_ret = 0, disable_ret = 0\<rparr>;
       retry = call\<lparr>chan_addr := 0, call_data := ''b'', mux_set_ret := (\<lambda>i. 0)\<rparr>;
       s = \<lparr>selected_chan = 0, mux_pins = [False, False], enable_pin = False, bus_log = []\<rparr>;
       (rs, s') = mux_transfers c [call, retry] s
   in rs = [- EIO, 0] \<and> bus_log s' = [(1, True, ''b'')]"
  by (simp add: mux_gpio_transfer_def mux_gpio_set_channel_def bus_transfer_def connected_chan_def upt_conv_Cons)

lemma mux_transfers_reach_channel_witness:
  "let c = \<lparr>mux_bus = Spi_Bus, has_enable_gpio = True, number_of_mux_gpios = 2\<rparr>;
       call = \<lparr>chan_addr = 3, call_data = ''a'', lock_ret = 0, mux_set_ret = (\<lambda>i. 0),
         enable_ret = 0, bus_ret = 0, disable_ret = 0\<rparr>;
       s = \<lparr>selected_chan = 7, mux_pins = [False, True], enable_pin = False, bus_log = []\<rparr>;
       e = \<lparr>bus_ready = True, enable_port_ready = True, enable_cfg_ret = 0, mux_cfg_ret = (\<lambda>i. 0)\<rparr>;
       s0 = snd (the (mux_gpio_root_init c e s));
       (rs, s') = mux_transfers c [call, call\<lparr>chan_addr := 1, call_data := ''b'', enable_ret := - EIO\<rparr>, call\<lparr>chan_addr := 2\<rparr>] s0
   in rs = [0, - EIO, 0] \<and> carried s' = [(3, ''a''), (2, ''a'')]"
  using mux_transfers_reach_channel [of "\<lparr>mux_bus = Spi_Bus, has_enable_gpio = True, number_of_mux_gpios = 2\<rparr>"
      "\<lparr>bus_ready = True, enable_port_ready = True, enable_cfg_ret = 0, mux_cfg_ret = (\<lambda>i. 0)\<rparr>"
      "\<lparr>selected_chan = 7, mux_pins = [False, True], enable_pin = False, bus_log = []\<rparr>"
      "\<lparr>selected_chan = 0, mux_pins = [False, False], enable_pin = False, bus_log = []\<rparr>"
      "[\<lparr>chan_addr = 3, call_data = ''a'', lock_ret = 0, mux_set_ret = (\<lambda>i. 0), enable_ret = 0, bus_ret = 0, disable_ret = 0\<rparr>,
        \<lparr>chan_addr = 1, call_data = ''b'', lock_ret = 0, mux_set_ret = (\<lambda>i. 0), enable_ret = - EIO, bus_ret = 0, disable_ret = 0\<rparr>,
        \<lparr>chan_addr = 2, call_data = ''a'', lock_ret = 0, mux_set_ret = (\<lambda>i. 0), enable_ret = 0, bus_ret = 0, disable_ret = 0\<rparr>]"]
  by (simp add: mux_init_pins_def upt_conv_Cons call_ok_def call_result_def call_reaches_def split_def Let_def
      take_bit_eq_mod)

text \<open>An SPI multiplexer without enable pin, which the transfers allow for, does not come up.\<close>

lemma spi_mux_needs_enable:
  "mux_bus c = Spi_Bus \<Longrightarrow> \<not> has_enable_gpio c \<Longrightarrow> bus_ready e \<Longrightarrow> mux_gpio_root_init c e s = None"
  by simp

end
