(* ===== verification/Rgb_Leds.thy ===== *)
theory Rgb_Leds
  imports Orb_Prelude
begin

text \<open>
  Colours and colour sequences (\<^verbatim>\<open>main_board/src/ui/rgb_leds/rgb_leds.c\<close>, \<^verbatim>\<open>rgb_leds.h\<close>): the bytes of a message, three or four for each
  LED, are copied into the buffer of a strip.

  The LEDs of Diamond have a brightness of their own, \<open>scratch\<close> (\<^verbatim>\<open>CONFIG_LED_STRIP_RGB_SCRATCH\<close> and
  \<^verbatim>\<open>CONFIG_SPI_RGB_LED_DIMMING\<close>). The ones of Pearl do not: there the field is not used.
\<close>

subsection \<open>Colours\<close>

record led_rgb =
  scratch :: u8
  led_r :: u8
  led_g :: u8
  led_b :: u8

definition RGB_BRIGHTNESS_MAX :: u8 where "RGB_BRIGHTNESS_MAX = 31"
definition MINIMUM_WHITE_BRIGHTNESS :: u8 where "MINIMUM_WHITE_BRIGHTNESS = 9"

definition RGB_OFF :: led_rgb where
  "RGB_OFF = \<lparr>scratch = 0, led_r = 0, led_g = 0, led_b = 0\<rparr>"

fun RGB_WHITE :: "board \<Rightarrow> led_rgb" where
  "RGB_WHITE Pearl = \<lparr>scratch = 0, led_r = MINIMUM_WHITE_BRIGHTNESS, led_g = MINIMUM_WHITE_BRIGHTNESS,
     led_b = MINIMUM_WHITE_BRIGHTNESS\<rparr>"
| "RGB_WHITE Diamond = \<lparr>scratch = 15, led_r = 80, led_g = 80, led_b = 50\<rparr>"

fun RGB_WHITE_OPERATOR_LEDS :: "board \<Rightarrow> led_rgb" where
  "RGB_WHITE_OPERATOR_LEDS Pearl = \<lparr>scratch = 0, led_r = 20, led_g = 20, led_b = 20\<rparr>"
| "RGB_WHITE_OPERATOR_LEDS Diamond = \<lparr>scratch = 10, led_r = 30, led_g = 27, led_b = 25\<rparr>"

text \<open>A colour of a message.\<close>

record rgb_color =
  red :: u8
  green :: u8
  blue :: u8
  dimming :: u8

definition led_rgb_values :: "led_rgb \<Rightarrow> u8 \<times> u8 \<times> u8" where
  "led_rgb_values l = (led_r l, led_g l, led_b l)"

subsection \<open>Sequences\<close>

text \<open>The LED with index \<open>i\<close> of a sequence. \<open>fmt\<close> is \<^verbatim>\<open>enum led_format\<close>: 3 bytes for each LED, or 4 with the brightness first.\<close>

definition sequence_led :: "board \<Rightarrow> nat \<Rightarrow> u8 list \<Rightarrow> nat \<Rightarrow> led_rgb \<Rightarrow> led_rgb" where
  "sequence_led b fmt input_bytes i old =
    (let rgb_offset = (if fmt = 4 then 1 else 0)
     in \<lparr>scratch = (case b of
            Pearl \<Rightarrow> scratch old
          | Diamond \<Rightarrow> if fmt = 4 then input_bytes ! (i * fmt + 0) else RGB_BRIGHTNESS_MAX),
        led_r = input_bytes ! (i * fmt + rgb_offset), led_g = input_bytes ! (i * fmt + rgb_offset + 1),
        led_b = input_bytes ! (i * fmt + rgb_offset + 2)\<rparr>)"

text \<open>
  The two loops, with the flag for a difference: over the LEDs the sequence has, and over the rest of the buffer. On
  Diamond the flag is set from the start, so that the brightness, which only that board has, is never compared.
\<close>

fun sequence_loop :: "board \<Rightarrow> nat \<Rightarrow> u8 list \<Rightarrow> nat list \<Rightarrow> bool \<times> led_rgb list \<Rightarrow> bool \<times> led_rgb list" where
  "sequence_loop b fmt input_bytes [] s = s"
| "sequence_loop b fmt input_bytes (i # is) (diff, leds) =
    (let new = sequence_led b fmt input_bytes i (leds ! i)
     in sequence_loop b fmt input_bytes is (diff \<or> led_rgb_values (leds ! i) \<noteq> led_rgb_values new, leds[i := new]))"

fun turn_off_loop :: "nat list \<Rightarrow> bool \<times> led_rgb list \<Rightarrow> bool \<times> led_rgb list" where
  "turn_off_loop [] s = s"
| "turn_off_loop (i # is) (diff, leds) =
    turn_off_loop is (diff \<or> led_rgb_values (leds ! i) \<noteq> (0, 0, 0), leds[i := RGB_OFF])"

text \<open>\<open>write_sem\<close>: no semaphore, or whether it can be taken.\<close>

definition rgb_leds_set_leds_sequence ::
    "board \<Rightarrow> u8 list \<Rightarrow> nat \<Rightarrow> led_rgb list \<Rightarrow> bool option \<Rightarrow> ret_code_t \<times> led_rgb list" where
  "rgb_leds_set_leds_sequence b input_bytes fmt led_buffer write_sem =
    (if fmt \<noteq> 3 \<and> fmt \<noteq> 4 then (RET_ERROR_INVALID_PARAM, led_buffer)
     else if length input_bytes mod fmt \<noteq> 0 then (RET_ERROR_INVALID_PARAM, led_buffer)
     else
       let input_size_bytes = min (length input_bytes) (length led_buffer * fmt)
       in if write_sem = Some False then (RET_ERROR_INTERNAL, led_buffer)
          else
            let n = input_size_bytes div fmt;
                (found_a_difference, leds) = turn_off_loop [n ..< length led_buffer]
                  (sequence_loop b fmt input_bytes [0 ..< n] (b = Diamond, led_buffer))
            in (if \<not> found_a_difference then RET_ERROR_ALREADY_INITIALIZED else RET_SUCCESS, leds))"

subsection \<open>The buffer after a sequence\<close>

lemma length_sequence_loop [simp]: "length (snd (sequence_loop b fmt bs is s)) = length (snd s)"
  by (induction b fmt bs "is" s rule: sequence_loop.induct) (simp_all add: Let_def)

lemma length_turn_off_loop [simp]: "length (snd (turn_off_loop is s)) = length (snd s)"
  by (induction "is" s rule: turn_off_loop.induct) simp_all

lemma ex_range_Suc: "m < n \<Longrightarrow> (\<exists>j. m \<le> j \<and> j < n \<and> P j) \<longleftrightarrow> P m \<or> (\<exists>j. Suc m \<le> j \<and> j < n \<and> P j)"
  by (metis Suc_leD Suc_leI le_neq_implies_less order_refl)

lemma ex_if_range:
  assumes "(n :: nat) \<le> k"
  shows "(\<exists>j < k. if j < n then P j else Q j) \<longleftrightarrow> (\<exists>j < n. P j) \<or> (\<exists>j. n \<le> j \<and> j < k \<and> Q j)" (is "?l \<longleftrightarrow> ?r")
proof
  assume ?l
  then obtain j where "j < k" "if j < n then P j else Q j" by blast
  then show ?r by (cases "j < n") (auto simp: not_less)
next
  assume ?r
  then obtain j where "j < n \<and> P j \<or> n \<le> j \<and> j < k \<and> Q j" by blast
  then have "j < k \<and> (if j < n then P j else Q j)" using assms by auto
  then show ?l by blast
qed

lemma map_neq_iff:
  "length xs = length ys \<Longrightarrow> map f xs \<noteq> map f ys \<longleftrightarrow> (\<exists>j < length ys. f (xs ! j) \<noteq> f (ys ! j))"
  by (auto simp: list_eq_iff_nth_eq)

lemma ex_range_update:
  "(\<exists>j. Suc m \<le> j \<and> j < n \<and> P (xs[m := x] ! j) j) \<longleftrightarrow> (\<exists>j. Suc m \<le> j \<and> j < n \<and> P (xs ! j) j)"
  by (rule ex_cong1) auto

lemma sequence_loop_effect:
  assumes "m \<le> n" "n \<le> length leds" "sequence_loop b fmt bs [m ..< n] (d, leds) = (d', leds')"
  shows "length leds' = length leds" and "\<forall>j. m \<le> j \<and> j < n \<longrightarrow> leds' ! j = sequence_led b fmt bs j (leds ! j)"
    and "\<forall>j. j < m \<or> n \<le> j \<longrightarrow> leds' ! j = leds ! j"
    and "d' \<longleftrightarrow> d \<or> (\<exists>j. m \<le> j \<and> j < n \<and> led_rgb_values (leds ! j) \<noteq> led_rgb_values (leds' ! j))"
proof -
  have "length leds' = length leds \<and> (\<forall>j. m \<le> j \<and> j < n \<longrightarrow> leds' ! j = sequence_led b fmt bs j (leds ! j)) \<and>
    (\<forall>j. j < m \<or> n \<le> j \<longrightarrow> leds' ! j = leds ! j) \<and>
    (d' \<longleftrightarrow> d \<or> (\<exists>j. m \<le> j \<and> j < n \<and> led_rgb_values (leds ! j) \<noteq> led_rgb_values (leds' ! j)))"
    using assms
  proof (induction "n - m" arbitrary: m d leds)
    case (Suc k)
    let ?new = "sequence_led b fmt bs m (leds ! m)"
    have m: "m < n" and eq: "[m ..< n] = m # [Suc m ..< n]" using Suc.hyps(2) by (simp_all add: upt_conv_Cons)
    have "sequence_loop b fmt bs [Suc m ..< n]
        (d \<or> led_rgb_values (leds ! m) \<noteq> led_rgb_values ?new, leds[m := ?new]) = (d', leds')"
      using Suc.prems(3) by (simp add: eq Let_def)
    from Suc.hyps(1) [OF _ _ _ this] Suc.hyps(2) m Suc.prems(2)
    have len: "length leds' = length leds"
      and new: "\<forall>j. Suc m \<le> j \<and> j < n \<longrightarrow> leds' ! j = sequence_led b fmt bs j (leds[m := ?new] ! j)"
      and old: "\<forall>j. j < Suc m \<or> n \<le> j \<longrightarrow> leds' ! j = leds[m := ?new] ! j"
      and d': "d' \<longleftrightarrow> (d \<or> led_rgb_values (leds ! m) \<noteq> led_rgb_values ?new) \<or>
        (\<exists>j. Suc m \<le> j \<and> j < n \<and> led_rgb_values (leds[m := ?new] ! j) \<noteq> led_rgb_values (leds' ! j))" by simp_all
    have at: "leds' ! m = ?new" using old m Suc.prems(2) by simp
    have split: "(\<exists>j. m \<le> j \<and> j < n \<and> led_rgb_values (leds ! j) \<noteq> led_rgb_values (leds' ! j)) \<longleftrightarrow>
        led_rgb_values (leds ! m) \<noteq> led_rgb_values ?new \<or>
        (\<exists>j. Suc m \<le> j \<and> j < n \<and> led_rgb_values (leds[m := ?new] ! j) \<noteq> led_rgb_values (leds' ! j))"
      unfolding ex_range_Suc [OF m] at
      using ex_range_update [of m n "\<lambda>l j. led_rgb_values l \<noteq> led_rgb_values (leds' ! j)" leds ?new] by simp
    have "leds' ! j = sequence_led b fmt bs j (leds ! j)" if "m \<le> j" "j < n" for j
      using that new at by (cases "j = m") auto
    moreover have "leds' ! j = leds ! j" if "j < m \<or> n \<le> j" for j
      using that old m by auto
    ultimately show ?case using len d' split by blast
  qed auto
  then show "length leds' = length leds" and "\<forall>j. m \<le> j \<and> j < n \<longrightarrow> leds' ! j = sequence_led b fmt bs j (leds ! j)"
    and "\<forall>j. j < m \<or> n \<le> j \<longrightarrow> leds' ! j = leds ! j"
    and "d' \<longleftrightarrow> d \<or> (\<exists>j. m \<le> j \<and> j < n \<and> led_rgb_values (leds ! j) \<noteq> led_rgb_values (leds' ! j))" by blast+
qed

lemma turn_off_loop_effect:
  assumes "m \<le> length leds"
  shows "turn_off_loop [m ..< length leds] (d, leds) =
    (d \<or> (\<exists>j. m \<le> j \<and> j < length leds \<and> led_rgb_values (leds ! j) \<noteq> (0, 0, 0)),
     take m leds @ replicate (length leds - m) RGB_OFF)"
  using assms
proof (induction "length leds - m" arbitrary: m d leds)
  case (Suc k)
  let ?l = "leds[m := RGB_OFF]"
  have m: "m < length leds" and eq: "[m ..< length leds] = m # [Suc m ..< length leds]"
    using Suc.hyps(2) by (simp_all add: upt_conv_Cons)
  have "turn_off_loop [Suc m ..< length ?l] (d \<or> led_rgb_values (leds ! m) \<noteq> (0, 0, 0), ?l) =
      ((d \<or> led_rgb_values (leds ! m) \<noteq> (0, 0, 0)) \<or>
        (\<exists>j. Suc m \<le> j \<and> j < length ?l \<and> led_rgb_values (?l ! j) \<noteq> (0, 0, 0)),
       take (Suc m) ?l @ replicate (length ?l - Suc m) RGB_OFF)"
    using Suc.hyps(2) m by (intro Suc.hyps(1)) simp_all
  moreover have "(\<exists>j. m \<le> j \<and> j < length leds \<and> led_rgb_values (leds ! j) \<noteq> (0, 0, 0)) \<longleftrightarrow>
      led_rgb_values (leds ! m) \<noteq> (0, 0, 0) \<or>
      (\<exists>j. Suc m \<le> j \<and> j < length leds \<and> led_rgb_values (?l ! j) \<noteq> (0, 0, 0))"
    unfolding ex_range_Suc [OF m]
    using ex_range_update [of m "length leds" "\<lambda>l j. led_rgb_values l \<noteq> (0, 0, 0)" leds RGB_OFF] by simp
  moreover have "take (Suc m) ?l @ replicate (length leds - Suc m) RGB_OFF =
      take m leds @ replicate (length leds - m) RGB_OFF"
    using m by (simp add: take_Suc_conv_app_nth Suc_diff_Suc flip: replicate_Suc)
  ultimately show ?case unfolding eq by (simp del: upt_Suc)
qed auto

text \<open>The LED with index \<open>i\<close> once a sequence has been set.\<close>

definition shown_led :: "board \<Rightarrow> nat \<Rightarrow> u8 list \<Rightarrow> led_rgb list \<Rightarrow> nat \<Rightarrow> led_rgb" where
  "shown_led b fmt bs leds i =
    (if (i + 1) * fmt \<le> length bs then sequence_led b fmt bs i (leds ! i) else RGB_OFF)"

text \<open>
  A sequence of three or four bytes for each LED, as many as fit, gives each LED of the buffer the colour at its
  place and turns off the others. It is reported as already set exactly on Pearl when no colour has changed. With
  any other number of bytes, or when the buffer is in use, the buffer stays as it is and an error is returned.
\<close>

theorem sequence_sets_leds:
  "let (ret, leds') = rgb_leds_set_leds_sequence b bs fmt leds sem in
    if (fmt = 3 \<or> fmt = 4) \<and> fmt dvd length bs \<and> sem \<noteq> Some False
    then leds' = map (shown_led b fmt bs leds) [0 ..< length leds] \<and>
      ret = (if b = Pearl \<and> map led_rgb_values leds' = map led_rgb_values leds
        then RET_ERROR_ALREADY_INITIALIZED else RET_SUCCESS)
    else leds' = leds \<and> ret = (if (fmt = 3 \<or> fmt = 4) \<and> fmt dvd length bs then RET_ERROR_INTERNAL else RET_ERROR_INVALID_PARAM)"
proof (cases "(fmt = 3 \<or> fmt = 4) \<and> fmt dvd length bs \<and> sem \<noteq> Some False")
  case False
  then show ?thesis by (auto simp: rgb_leds_set_leds_sequence_def mod_eq_0_iff_dvd)
next
  case True
  let ?N = "length leds" and ?n = "min (length bs) (length leds * fmt) div fmt"
  have f: "0 < fmt" using True by auto
  have n: "?n = min (length bs div fmt) ?N"
    using f min_of_mono [of "\<lambda>x. x div fmt" "length bs" "?N * fmt"] by (simp add: mono_def div_le_mono)
  obtain d1 l1 where s1: "sequence_loop b fmt bs [0 ..< ?n] (b = Diamond, leds) = (d1, l1)"
    by (cases "sequence_loop b fmt bs [0 ..< ?n] (b = Diamond, leds)")
  have le: "?n \<le> ?N" by (simp add: n)
  note seq = sequence_loop_effect [OF _ le s1]
  let ?l2 = "take ?n l1 @ replicate (?N - ?n) RGB_OFF"
  have off: "turn_off_loop [?n ..< ?N] (d1, l1) =
      (d1 \<or> (\<exists>j. ?n \<le> j \<and> j < ?N \<and> led_rgb_values (l1 ! j) \<noteq> (0, 0, 0)), ?l2)"
    using turn_off_loop_effect [of ?n l1 d1] seq(1) le by simp
  have shown: "?l2 ! j = shown_led b fmt bs leds j" if "j < ?N" for j
  proof -
    have "(j + 1) * fmt \<le> length bs \<longleftrightarrow> j < ?n"
      using f that True by (auto simp: n less_eq_div_iff_mult_less_eq Suc_le_eq [symmetric] simp del: mult_Suc)
    then show ?thesis using that le seq(1,2) by (simp add: shown_led_def nth_append)
  qed
  have l2: "?l2 = map (shown_led b fmt bs leds) [0 ..< ?N]"
    using shown seq(1) le by (intro nth_equalityI) simp_all
  have offv: "led_rgb_values RGB_OFF = (0, 0, 0)" by (simp add: RGB_OFF_def led_rgb_values_def)
  have diff: "d1 \<or> (\<exists>j. ?n \<le> j \<and> j < ?N \<and> led_rgb_values (l1 ! j) \<noteq> (0, 0, 0)) \<longleftrightarrow>
      b = Diamond \<or> map led_rgb_values ?l2 \<noteq> map led_rgb_values leds"
  proof -
    have "map led_rgb_values ?l2 \<noteq> map led_rgb_values leds \<longleftrightarrow>
        (\<exists>j < ?N. led_rgb_values (?l2 ! j) \<noteq> led_rgb_values (leds ! j))"
      using seq(1) le by (intro map_neq_iff) simp
    also have "\<dots> \<longleftrightarrow> (\<exists>j < ?N. if j < ?n then led_rgb_values (leds ! j) \<noteq> led_rgb_values (l1 ! j)
        else led_rgb_values (l1 ! j) \<noteq> (0, 0, 0))"
    proof (rule ex_cong1, rule conj_cong [OF refl])
      fix j assume "j < ?N"
      then show "led_rgb_values (?l2 ! j) \<noteq> led_rgb_values (leds ! j) \<longleftrightarrow>
          (if j < ?n then led_rgb_values (leds ! j) \<noteq> led_rgb_values (l1 ! j) else led_rgb_values (l1 ! j) \<noteq> (0, 0, 0))"
        using seq(1,3) le offv by (simp add: nth_append eq_commute)
    qed
    also have "\<dots> \<longleftrightarrow> (\<exists>j < ?n. led_rgb_values (leds ! j) \<noteq> led_rgb_values (l1 ! j)) \<or>
        (\<exists>j. ?n \<le> j \<and> j < ?N \<and> led_rgb_values (l1 ! j) \<noteq> (0, 0, 0))"
      by (rule ex_if_range [OF le])
    finally show ?thesis using seq(4) by auto
  qed
  have "rgb_leds_set_leds_sequence b bs fmt leds sem =
      (if \<not> (b = Diamond \<or> map led_rgb_values ?l2 \<noteq> map led_rgb_values leds) then RET_ERROR_ALREADY_INITIALIZED
       else RET_SUCCESS, ?l2)"
    unfolding rgb_leds_set_leds_sequence_def Let_def s1 off diff prod.case
    using True by (simp only: mod_eq_0_iff_dvd) simp
  then show ?thesis unfolding l2 using True by (cases b) simp_all
qed

end
