(* ===== verification/Front_Leds.thy ===== *)
theory Front_Leds
  imports Rgb_Leds C_Float
begin

text \<open>
  The front LEDs (\<^verbatim>\<open>main_board/src/ui/rgb_leds/front_leds/front_leds.c\<close>): a ring and a centre that show a pattern, or a sequence of
  colours received for each of the two parts.

  The state is the static variables of the file, the semaphores, what the thread waits for and the buffers that have been
  sent to the strip. One step is a call of the interface or one turn of the thread; the critical sections make the
  reading of the parameters atomic, and whether another thread holds the semaphore of the buffer is an argument
  of each attempt to take it. The table \<^verbatim>\<open>SINE_LUT\<close> is written by the build: it is the argument \<open>sine\<close>, of which the lemmas use that it
  has no number above one.

  The scale of a message is taken as a number that is not negative, the type of numbers of \<^verbatim>\<open>C_Float\<close>; the code takes any
  float of the message, a negative one and NaN included, which is not modelled.
\<close>

subsection \<open>Numbers\<close>

fun single_add :: "double \<Rightarrow> double \<Rightarrow> double" where
  "single_add (Dbl m e) (Dbl m' e') = single_of_ratio (m * 2 ^ e' + m' * 2 ^ e) (2 ^ (e + e'))"

text \<open>\<^verbatim>\<open>MAX(0.0f, x - y)\<close>\<close>

fun single_diff :: "double \<Rightarrow> double \<Rightarrow> double" where
  "single_diff (Dbl m e) (Dbl m' e') = single_of_ratio (m * 2 ^ e' - m' * 2 ^ e) (2 ^ (e + e'))"

fun single_less :: "double \<Rightarrow> double \<Rightarrow> bool" where
  "single_less (Dbl m e) (Dbl m' e') \<longleftrightarrow> m * 2 ^ e' < m' * 2 ^ e"

fun single_eq :: "double \<Rightarrow> double \<Rightarrow> bool" where
  "single_eq (Dbl m e) (Dbl m' e') \<longleftrightarrow> m * 2 ^ e' = m' * 2 ^ e"

text \<open>\<^verbatim>\<open>roundf\<close> and \<^verbatim>\<open>lroundf\<close>: halves are rounded up.\<close>

fun single_roundf :: "double \<Rightarrow> nat" where
  "single_roundf (Dbl m e) = (2 * m + 2 ^ e) div 2 ^ (e + 1)"

definition single_of_u8 :: "u8 \<Rightarrow> double" where
  "single_of_u8 x = Dbl (unat x) 0"

subsection \<open>State\<close>

fun NUM_CENTER_LEDS :: "board \<Rightarrow> nat" where
  "NUM_CENTER_LEDS Pearl = 9"
| "NUM_CENTER_LEDS Diamond = 64"

fun NUM_RING_LEDS :: "board \<Rightarrow> nat" where
  "NUM_RING_LEDS Pearl = 233 - 9"
| "NUM_RING_LEDS Diamond = 118 - 64"

definition INDEX_RING_ZERO :: "board \<Rightarrow> int" where
  "INDEX_RING_ZERO b = (case b of Pearl \<Rightarrow> int (NUM_RING_LEDS Pearl) * 3 div 4 | Diamond \<Rightarrow> 41)"

definition SINE_TABLE_LENGTH :: nat where "SINE_TABLE_LENGTH = 150"
definition INITIAL_PULSING_PERIOD_MS :: nat where "INITIAL_PULSING_PERIOD_MS = 5000"
definition PULSING_SCALE_DEFAULT :: double where "PULSING_SCALE_DEFAULT = Dbl 1 0"

datatype front_pattern =
    Front_Off | Front_All_White | Front_All_White_No_Center | Front_Random_Rainbow | Front_All_White_Only_Center
  | Front_All_Red | Front_All_Green | Front_All_Blue | Front_Pulsing_White | Front_Pulsing_Rgb
  | Front_Pulsing_Rgb_Only_Center | Front_Rgb | Front_Rgb_Only_Center | Front_Boot_Animation
  | Front_Other nat

record front_leds =
  fl_pattern :: front_pattern
  fl_start_angle :: nat
  fl_angle_length :: int
  fl_intensity :: u8
  fl_color :: led_rgb
  fl_scale :: double
  fl_period_ms :: nat
  fl_delay_ms :: nat
  fl_use_sequence :: bool
  fl_pulsing_index :: nat
  fl_ring :: "led_rgb list"
  fl_center :: "led_rgb list"
  ring_dirty :: bool
  center_dirty :: bool
  sem_kept :: bool
  final_done :: bool
  boot_progress_current :: nat
  boot_progress_target :: nat
  leds_refresh :: bool
  wait_until :: "nat option"
  wait_for_interrupt :: bool
  strip_log :: "(led_rgb list \<times> led_rgb list) list"

definition front_leds_zero :: "board \<Rightarrow> front_leds" where
  "front_leds_zero b = \<lparr>fl_pattern = (if b = Diamond then Front_Boot_Animation else Front_Off), fl_start_angle = 0,
     fl_angle_length = int FULL_RING_DEGREES, fl_intensity = 25, fl_color = RGB_WHITE b, fl_scale = PULSING_SCALE_DEFAULT,
     fl_period_ms = INITIAL_PULSING_PERIOD_MS, fl_delay_ms = INITIAL_PULSING_PERIOD_MS div SINE_TABLE_LENGTH,
     fl_use_sequence = False, fl_pulsing_index = 0, fl_ring = replicate (NUM_RING_LEDS b) RGB_OFF,
     fl_center = replicate (NUM_CENTER_LEDS b) RGB_OFF, ring_dirty = False, center_dirty = False, sem_kept = False,
     final_done = False, boot_progress_current = 0, boot_progress_target = 0, leds_refresh = True, wait_until = None, wait_for_interrupt = False,
     strip_log = []\<rparr>"

text \<open>\<open>free\<close>: no other thread holds \<^verbatim>\<open>leds_update_sem\<close>; \<open>sem_kept\<close>: the thread of the LEDs has taken it and does not give it back.\<close>

definition sem_taken :: "bool \<Rightarrow> front_leds \<Rightarrow> bool" where
  "sem_taken free s \<longleftrightarrow> free \<and> \<not> sem_kept s"

definition update_strip :: "front_leds \<Rightarrow> front_leds" where
  "update_strip s = s\<lparr>strip_log := strip_log s @ [(fl_ring s, fl_center s)]\<rparr>"

definition all_dirty :: "front_leds \<Rightarrow> front_leds" where
  "all_dirty s = s\<lparr>ring_dirty := True, center_dirty := True\<rparr>"

subsection \<open>Filling the buffer\<close>

definition set_center :: "bool \<Rightarrow> led_rgb \<Rightarrow> front_leds \<Rightarrow> front_leds" where
  "set_center free color s =
    (if sem_taken free s then s\<lparr>fl_center := replicate (length (fl_center s)) color\<rparr> else s)"

definition ring_next :: "bool \<Rightarrow> nat \<Rightarrow> nat \<Rightarrow> nat" where
  "ring_next up n led_index =
    (if up then (led_index + 1) mod n else if led_index = 0 then n - 1 else led_index - 1)"

fun ring_loop :: "bool \<Rightarrow> led_rgb \<Rightarrow> led_rgb option \<Rightarrow> nat \<Rightarrow> nat list \<Rightarrow> nat \<times> led_rgb list \<Rightarrow> nat \<times> led_rgb list" where
  "ring_loop up color bg lit [] s = s"
| "ring_loop up color bg lit (i # is) (led_index, ring) =
    ring_loop up color bg lit is (ring_next up (length ring) led_index,
      if i < lit then ring[led_index := color]
      else case bg of Some c \<Rightarrow> ring[led_index := c] | None \<Rightarrow> ring)"

text \<open>The first LED of a sector, and the number of LEDs it has.\<close>

definition ring_start :: "board \<Rightarrow> nat \<Rightarrow> int" where
  "ring_start b start_angle =
    (let i = INDEX_RING_ZERO b - int (NUM_RING_LEDS b) * int start_angle div int FULL_RING_DEGREES
     in if i < 0 then i + int (NUM_RING_LEDS b) else i)"

definition ring_lit :: "board \<Rightarrow> int \<Rightarrow> nat" where
  "ring_lit b angle_length = nat (int (NUM_RING_LEDS b) * \<bar>angle_length\<bar> div int FULL_RING_DEGREES)"

definition ring_up :: "board \<Rightarrow> int \<Rightarrow> bool" where
  "ring_up b angle_length \<longleftrightarrow> (0 \<le> angle_length) = (b = Pearl)"

definition set_ring ::
    "board \<Rightarrow> bool \<Rightarrow> led_rgb \<Rightarrow> led_rgb option \<Rightarrow> nat \<Rightarrow> int \<Rightarrow> front_leds \<Rightarrow> front_leds" where
  "set_ring b free color bg start_angle angle_length s =
    (if start_angle \<ge> FULL_RING_DEGREES \<or> angle_length > int FULL_RING_DEGREES \<or> angle_length < - int FULL_RING_DEGREES then s
     else if sem_taken free s then
       s\<lparr>fl_ring := snd (ring_loop (ring_up b angle_length) color bg (ring_lit b angle_length) [0 ..< NUM_RING_LEDS b]
           (nat (ring_start b start_angle), fl_ring s))\<rparr>
     else s)"

subsection \<open>Pulsing\<close>

text \<open>The index into the table, as the code computes it, modulo \<open>2 ^ 32\<close>.\<close>

definition sine_index :: "nat \<Rightarrow> nat" where
  "sine_index p =
    (if p < SINE_TABLE_LENGTH then p
     else nat ((int SINE_TABLE_LENGTH - 1 - (int p - int SINE_TABLE_LENGTH)) mod 2 ^ 32))"

definition BOOT_ANIMATION_BRIGHTNESS_CUTOFF :: double where "BOOT_ANIMATION_BRIGHTNESS_CUTOFF = single_of_ratio 2 10"
definition BOOT_ANIMATION_TRANSITION_THRESHOLD :: double where "BOOT_ANIMATION_TRANSITION_THRESHOLD = single_of_ratio 6 100"

definition boot_scaler :: "(nat \<Rightarrow> double) \<Rightarrow> front_leds \<Rightarrow> double" where
  "boot_scaler sine s =
    single_diff (single_mult (sine (sine_index (fl_pulsing_index s))) PULSING_SCALE_DEFAULT) BOOT_ANIMATION_BRIGHTNESS_CUTOFF"

text \<open>On Diamond the animation goes to the next segment when the present one is nearly at its full brightness.\<close>

definition boot_transition :: "board \<Rightarrow> (nat \<Rightarrow> double) \<Rightarrow> front_leds \<Rightarrow> bool" where
  "boot_transition b sine s \<longleftrightarrow> b = Diamond \<and>
     single_less (single_diff (single_diff (Dbl 1 0) BOOT_ANIMATION_BRIGHTNESS_CUTOFF) BOOT_ANIMATION_TRANSITION_THRESHOLD)
       (boot_scaler sine s) \<and> boot_progress_current s < boot_progress_target s"

text \<open>The factor and the colour it is applied to, for the patterns that pulsate.\<close>

definition front_pulse :: "board \<Rightarrow> (nat \<Rightarrow> double) \<Rightarrow> front_leds \<Rightarrow> (double \<times> led_rgb) option" where
  "front_pulse b sine s =
    (let sin = sine (sine_index (fl_pulsing_index s))
     in case fl_pattern s of
          Front_Pulsing_White \<Rightarrow>
            Some (single_mult sin PULSING_SCALE_DEFAULT, (fl_color s)\<lparr>led_r := MINIMUM_WHITE_BRIGHTNESS,
              led_g := MINIMUM_WHITE_BRIGHTNESS, led_b := MINIMUM_WHITE_BRIGHTNESS\<rparr>)
        | Front_Pulsing_Rgb \<Rightarrow> Some (single_mult sin (fl_scale s), fl_color s)
        | Front_Pulsing_Rgb_Only_Center \<Rightarrow> Some (single_mult sin PULSING_SCALE_DEFAULT, fl_color s)
        | Front_Boot_Animation \<Rightarrow> Some (if boot_transition b sine s then Dbl 0 0 else boot_scaler sine s, fl_color s)
        | _ \<Rightarrow> None)"

text \<open>The three values before they are stored in a byte.\<close>

definition scaled_values :: "double \<Rightarrow> led_rgb \<Rightarrow> nat list" where
  "scaled_values k c = map (\<lambda>x. single_roundf (single_mult k (single_of_u8 x))) [led_r c, led_g c, led_b c]"

definition scaled_color :: "double \<Rightarrow> led_rgb \<Rightarrow> led_rgb" where
  "scaled_color k c = (let v = scaled_values k c
     in c\<lparr>led_r := word_of_nat (v ! 0), led_g := word_of_nat (v ! 1), led_b := word_of_nat (v ! 2)\<rparr>)"

definition pulse_color :: "board \<Rightarrow> (nat \<Rightarrow> double) \<Rightarrow> front_leds \<Rightarrow> led_rgb" where
  "pulse_color b sine s = (case front_pulse b sine s of Some (k, c) \<Rightarrow> scaled_color k c | None \<Rightarrow> fl_color s)"

subsection \<open>The thread\<close>

text \<open>
  What one turn meets: whether the semaphore is free at each attempt to take it (the centre, the ring, the second sector of
  the boot animation, the update), the numbers of \<^verbatim>\<open>rand\<close>, and on Pearl whether the update has to wait until the infrared
  LEDs are off.
\<close>

record front_env =
  sem_free :: "nat \<Rightarrow> bool"
  rnd :: "nat \<Rightarrow> nat"
  ir_pulse_close :: bool

definition SHADES_PER_COLOR :: nat where "SHADES_PER_COLOR = 4"

fun rainbow_leds :: "(nat \<Rightarrow> nat) \<Rightarrow> nat \<Rightarrow> nat \<Rightarrow> nat \<Rightarrow> led_rgb list \<Rightarrow> led_rgb list" where
  "rainbow_leds r shades intensity k [] = []"
| "rainbow_leds r shades intensity k (l # ls) =
    (let v = (\<lambda>j. word_of_nat (r (k + j) mod shades * (intensity div shades)))
     in l\<lparr>led_r := v 0, led_g := v 1, led_b := v 2\<rparr> # rainbow_leds r shades intensity (k + 3) ls)"

text \<open>The two parts follow each other in one array: the centre first on Pearl, the ring first on Diamond.\<close>

definition rainbow :: "board \<Rightarrow> (nat \<Rightarrow> nat) \<Rightarrow> front_leds \<Rightarrow> front_leds" where
  "rainbow b r s =
    (let intensity = unat (fl_intensity s);
         shades = (if intensity > SHADES_PER_COLOR then SHADES_PER_COLOR else intensity);
         first = 3 * (case b of Pearl \<Rightarrow> length (fl_center s) | Diamond \<Rightarrow> length (fl_ring s));
         (ring_from, center_from) = (case b of Pearl \<Rightarrow> (first, 0) | Diamond \<Rightarrow> (0, first))
     in s\<lparr>fl_ring := rainbow_leds r shades intensity ring_from (fl_ring s),
          fl_center := rainbow_leds r shades intensity center_from (fl_center s)\<rparr>)"

definition leds_off :: "front_leds \<Rightarrow> front_leds" where
  "leds_off s = s\<lparr>fl_ring := replicate (length (fl_ring s)) RGB_OFF, fl_center := replicate (length (fl_center s)) RGB_OFF\<rparr>"

definition BOOT_PROGRESS_PERCENTAGE_STEP :: nat where
  "BOOT_PROGRESS_PERCENTAGE_STEP = 95 div BOOT_PROGRESS_STEP_DONE"

text \<open>\<^verbatim>\<open>-BOOT_ANIMATION_STEP_ANGLE\<close> is converted from \<^verbatim>\<open>float\<close>: the fraction is cut off.\<close>

definition BOOT_ANIMATION_STEP_ANGLE :: int where
  "BOOT_ANIMATION_STEP_ANGLE =
    int (double_trunc (single_mult (Dbl 360 0) (single_div (Dbl BOOT_PROGRESS_PERCENTAGE_STEP 0) (Dbl 100 0))))"

definition boot_animation :: "board \<Rightarrow> (nat \<Rightarrow> double) \<Rightarrow> front_env \<Rightarrow> front_leds \<Rightarrow> front_leds" where
  "boot_animation b sine e s =
    (let color = pulse_color b sine s;
         s1 = (if boot_transition b sine s
               then s\<lparr>boot_progress_current := boot_progress_target s, fl_pulsing_index := 0\<rparr> else s);
         s2 = set_center (sem_free e 0) RGB_OFF s1
     in case b of
          Diamond \<Rightarrow>
            (let angle_progress = boot_progress_current s2 * BOOT_PROGRESS_PERCENTAGE_STEP * FULL_RING_DEGREES div 100;
                 s3 = set_ring b (sem_free e 1) (fl_color s2) (Some RGB_OFF) 90 (- int angle_progress) s2
             in if boot_progress_current s3 < BOOT_PROGRESS_STEP_DONE
                then set_ring b (sem_free e 2) color None (nat ((90 - int angle_progress + 360) mod 2 ^ 32 mod 360))
                  (- BOOT_ANIMATION_STEP_ANGLE) s3
                else s3)
        | Pearl \<Rightarrow> set_ring b (sem_free e 1) color (Some RGB_OFF) 0 360 s2)"

text \<open>
  The switch on the pattern: the buffer, and after how many milliseconds the thread looks again when it is not woken before.
  An unknown pattern ends the turn.
\<close>

definition show_pattern ::
    "board \<Rightarrow> (nat \<Rightarrow> double) \<Rightarrow> front_env \<Rightarrow> front_leds \<Rightarrow> (nat option \<times> front_leds) option" where
  "show_pattern b sine e s =
    (let c = fl_color s;
         x = fl_intensity s;
         white = c\<lparr>led_r := x, led_g := x, led_b := x\<rparr>;
         center = set_center (sem_free e 0);
         ring = (\<lambda>c. set_ring b (sem_free e 1) c (Some RGB_OFF) (fl_start_angle s) (fl_angle_length s));
         ring_off = set_ring b (sem_free e 1) RGB_OFF None 0 (int FULL_RING_DEGREES)
     in case fl_pattern s of
          Front_Off \<Rightarrow> Some (None, ring_off (center RGB_OFF s))
        | Front_All_White \<Rightarrow> Some (None, ring white (center white s))
        | Front_All_White_No_Center \<Rightarrow> Some (None, ring white (center RGB_OFF s))
        | Front_Random_Rainbow \<Rightarrow> Some (if x > 0 then (Some 50, rainbow b (rnd e) s) else (None, leds_off s))
        | Front_All_White_Only_Center \<Rightarrow> Some (None, ring_off (center white s))
        | Front_All_Red \<Rightarrow> (let red = c\<lparr>led_r := x, led_g := 0, led_b := 0\<rparr> in Some (None, center red (ring red s)))
        | Front_All_Green \<Rightarrow> (let green = c\<lparr>led_r := 0, led_g := x, led_b := 0\<rparr> in Some (None, center green (ring green s)))
        | Front_All_Blue \<Rightarrow> (let blue = c\<lparr>led_r := 0, led_g := 0, led_b := x\<rparr> in Some (None, center blue (ring blue s)))
        | Front_Pulsing_White \<Rightarrow> Some (Some (fl_delay_ms s), center RGB_OFF (ring (pulse_color b sine s) s))
        | Front_Pulsing_Rgb \<Rightarrow> Some (Some (fl_delay_ms s), center RGB_OFF (ring (pulse_color b sine s) s))
        | Front_Pulsing_Rgb_Only_Center \<Rightarrow> Some (Some (fl_delay_ms s), ring_off (center (pulse_color b sine s) s))
        | Front_Rgb \<Rightarrow> Some (None, center RGB_OFF (ring c s))
        | Front_Rgb_Only_Center \<Rightarrow> Some (None, ring_off (center c s))
        | Front_Boot_Animation \<Rightarrow> Some (Some (fl_delay_ms s), boot_animation b sine e s)
        | Front_Other _ \<Rightarrow> None)"

text \<open>
  The update of the strip. Once the LEDs have been turned off for good the semaphore is taken and not given back; on
  Pearl the thread may wait for the end of an infrared pulse, with the semaphore.
\<close>

definition show_leds :: "front_leds \<Rightarrow> front_leds" where
  "show_leds s = all_dirty (update_strip s)"

definition update_leds :: "board \<Rightarrow> front_env \<Rightarrow> front_leds \<Rightarrow> front_leds" where
  "update_leds b e s =
    (if \<not> sem_taken (sem_free e 3) s then s
     else if final_done s then s\<lparr>sem_kept := True\<rparr>
     else if b = Pearl \<and> ir_pulse_close e then s\<lparr>sem_kept := True, wait_for_interrupt := True\<rparr>
     else show_leds s)"

definition front_leds_turn :: "board \<Rightarrow> (nat \<Rightarrow> double) \<Rightarrow> front_env \<Rightarrow> front_leds \<Rightarrow> front_leds" where
  "front_leds_turn b sine e s =
    (let s0 = s\<lparr>leds_refresh := False, wait_until := None\<rparr>
     in case (if fl_use_sequence s then Some (None, s0) else show_pattern b sine e s0) of
          None \<Rightarrow> s0
        | Some (wait, s1) \<Rightarrow>
            update_leds b e (s1\<lparr>wait_until := wait,
              fl_pulsing_index := (fl_pulsing_index s1 + 2) mod (SINE_TABLE_LENGTH * 2)\<rparr>))"

text \<open>The thread runs when it has been woken or when its time is over, and not while it waits for the infrared LEDs.\<close>

definition thread_ready :: "front_leds \<Rightarrow> bool" where
  "thread_ready s \<longleftrightarrow> \<not> wait_for_interrupt s \<and> (leds_refresh s \<or> wait_until s \<noteq> None)"

definition front_leds_notify_ir_leds_off :: "front_leds \<Rightarrow> front_leds" where
  "front_leds_notify_ir_leds_off s =
    (if wait_for_interrupt s then (show_leds s)\<lparr>sem_kept := False, wait_for_interrupt := False\<rparr> else s)"

subsection \<open>The interface\<close>

definition front_leds_boot_progress_set :: "board \<Rightarrow> nat \<Rightarrow> front_leds \<Rightarrow> ret_code_t \<times> front_leds" where
  "front_leds_boot_progress_set b step s =
    (case b of
       Pearl \<Rightarrow> (RET_SUCCESS, s)
     | Diamond \<Rightarrow>
         (if step > BOOT_PROGRESS_STEP_DONE then (RET_ERROR_INVALID_PARAM, s)
          else if boot_progress_target s \<ge> step then (RET_SUCCESS, s)
          else
            let s1 = (if boot_progress_current s = 0 \<and> step > 0 then s\<lparr>fl_pulsing_index := 0\<rparr> else s);
                s2 = s1\<lparr>boot_progress_target := step\<rparr>
            in (RET_SUCCESS, if step = BOOT_PROGRESS_STEP_DONE then s2\<lparr>boot_progress_current := step\<rparr> else s2)))"

definition pulsing_rgb_check_range :: "rgb_color option \<Rightarrow> double \<Rightarrow> ret_code_t" where
  "pulsing_rgb_check_range color pulsing_scale =
    (case color of
       None \<Rightarrow> RET_ERROR_INVALID_PARAM
     | Some c \<Rightarrow>
         (let v = (\<lambda>x. single_roundf (single_mult (single_of_u8 x) (single_add pulsing_scale (Dbl 1 0))))
          in if v (red c) > 255 \<or> v (green c) > 255 \<or> v (blue c) > 255 then RET_ERROR_INVALID_PARAM else RET_SUCCESS))"

definition previous_settings_are_identical ::
    "board \<Rightarrow> front_pattern \<Rightarrow> nat \<Rightarrow> int \<Rightarrow> rgb_color option \<Rightarrow> nat \<Rightarrow> double \<Rightarrow> front_leds \<Rightarrow> bool" where
  "previous_settings_are_identical b pattern start_angle angle_length color period scale s \<longleftrightarrow>
    single_eq (fl_scale s) scale \<and> fl_period_ms s = period \<and> fl_delay_ms s = fl_period_ms s div SINE_TABLE_LENGTH \<and>
    fl_pattern s = pattern \<and> fl_start_angle s = start_angle \<and> fl_angle_length s = angle_length \<and>
    (case color of
       Some c \<Rightarrow> led_rgb_values (fl_color s) = (red c, green c, blue c) \<and> (b = Diamond \<longrightarrow> scratch (fl_color s) = dimming c)
     | None \<Rightarrow> True)"

definition update_parameters ::
    "board \<Rightarrow> front_pattern \<Rightarrow> nat \<Rightarrow> int \<Rightarrow> rgb_color option \<Rightarrow> nat \<Rightarrow> double \<Rightarrow> front_leds \<Rightarrow> front_leds" where
  "update_parameters b pattern start_angle angle_length color period scale s =
    (let period = (if period = 0 then INITIAL_PULSING_PERIOD_MS else period);
         scale = (if single_eq scale (Dbl 0 0) then PULSING_SCALE_DEFAULT else scale);
         s1 = s\<lparr>fl_scale := scale, fl_period_ms := period, fl_delay_ms := period div SINE_TABLE_LENGTH, fl_pattern := pattern,
           fl_start_angle := start_angle, fl_angle_length := angle_length, fl_use_sequence := False\<rparr>
     in case color of
          None \<Rightarrow> s1
        | Some c \<Rightarrow> s1\<lparr>fl_color := \<lparr>scratch = (case b of
              Pearl \<Rightarrow> scratch (fl_color s) | Diamond \<Rightarrow> if dimming c \<noteq> 0 then dimming c else RGB_BRIGHTNESS_MAX),
              led_r = red c, led_g = green c, led_b = blue c\<rparr>\<rparr>)"

definition front_leds_set_pattern ::
    "board \<Rightarrow> front_pattern \<Rightarrow> nat \<Rightarrow> int \<Rightarrow> rgb_color option \<Rightarrow> nat \<Rightarrow> double \<Rightarrow> front_leds \<Rightarrow> ret_code_t \<times> front_leds" where
  "front_leds_set_pattern b pattern start_angle angle_length color period scale s =
    (if pattern = Front_Pulsing_Rgb \<and> pulsing_rgb_check_range color scale \<noteq> RET_SUCCESS then (RET_ERROR_INVALID_PARAM, s)
     else
       let color = (case b of
             Pearl \<Rightarrow> color
           | Diamond \<Rightarrow> map_option (\<lambda>c. if dimming c = 0 \<or> dimming c > RGB_BRIGHTNESS_MAX
               then c\<lparr>dimming := RGB_BRIGHTNESS_MAX\<rparr> else c) color)
       in if previous_settings_are_identical b pattern start_angle angle_length color period scale s then (RET_SUCCESS, s)
          else (RET_SUCCESS,
            (update_parameters b pattern start_angle angle_length color period scale s)\<lparr>leds_refresh := True\<rparr>))"

datatype front_part = Center_Leds | Ring_Leds

text \<open>The four functions for the sequences of a part, with three or four bytes for each LED.\<close>

definition front_leds_set_leds_sequence ::
    "board \<Rightarrow> front_part \<Rightarrow> nat \<Rightarrow> bool \<Rightarrow> u8 list \<Rightarrow> front_leds \<Rightarrow> ret_code_t \<times> front_leds" where
  "front_leds_set_leds_sequence b part fmt free bytes s =
    (if b = Diamond \<and> boot_progress_current s \<noteq> BOOT_PROGRESS_STEP_DONE then (RET_SUCCESS, s)
     else
       let leds = (case part of Center_Leds \<Rightarrow> fl_center s | Ring_Leds \<Rightarrow> fl_ring s);
           (ret, leds') = rgb_leds_set_leds_sequence b bytes fmt leds (Some (sem_taken free s));
           s1 = (case part of Center_Leds \<Rightarrow> s\<lparr>fl_center := leds'\<rparr> | Ring_Leds \<Rightarrow> s\<lparr>fl_ring := leds'\<rparr>)
       in if ret = RET_SUCCESS \<or> ret = RET_ERROR_ALREADY_INITIALIZED then
            let s2 = s1\<lparr>fl_use_sequence := True\<rparr>;
                s3 = (case part of Center_Leds \<Rightarrow> s2\<lparr>center_dirty := False\<rparr> | Ring_Leds \<Rightarrow> s2\<lparr>ring_dirty := False\<rparr>)
            in (RET_SUCCESS, if \<not> center_dirty s3 \<and> \<not> ring_dirty s3 then s3\<lparr>leds_refresh := True\<rparr> else s3)
          else (ret, s1))"

definition front_leds_set_brightness :: "nat \<Rightarrow> front_leds \<Rightarrow> front_leds" where
  "front_leds_set_brightness brightness s = s\<lparr>fl_intensity := word_of_nat (min 255 brightness), leds_refresh := True\<rparr>"

definition front_leds_turn_off_blocking :: "bool \<Rightarrow> front_leds \<Rightarrow> front_leds" where
  "front_leds_turn_off_blocking free s =
    (if sem_taken free s then all_dirty (update_strip (update_strip (leds_off (s\<lparr>final_done := True\<rparr>)))) else s)"

definition front_leds_is_shroud_on :: "bool \<Rightarrow> front_leds \<Rightarrow> bool" where
  "front_leds_is_shroud_on free s =
    (if sem_taken free s then list_ex (\<lambda>l. scratch l \<noteq> 0 \<and> led_rgb_values l \<noteq> (0, 0, 0)) (fl_center s) else True)"

text \<open>At boot: whether the strip is ready and whether the semaphore is free at the three attempts.\<close>

definition front_leds_initial_state :: "board \<Rightarrow> bool \<Rightarrow> (nat \<Rightarrow> bool) \<Rightarrow> front_leds \<Rightarrow> ret_code_t \<times> front_leds" where
  "front_leds_initial_state b ready free s =
    (if \<not> ready then (RET_ERROR_INTERNAL, s)
     else
       let s1 = set_ring b (free 1) RGB_OFF None 0 (int FULL_RING_DEGREES) (set_center (free 0) RGB_OFF s)
       in (RET_SUCCESS, if sem_taken (free 2) s1 then all_dirty (update_strip s1) else s1))"

subsection \<open>Self-test (Diamond)\<close>

text \<open>
  One of the hundred attempts: whether the semaphore is free, what the strip returns and what the four test pins read (data low and
  high, clock low and high); the counters are the readings of data and clock that have passed.
\<close>

record led_test_env =
  test_sem_free :: bool
  strip_ret :: int
  data_low :: int
  data_high :: int
  clock_low :: int
  clock_high :: int

definition test_count_pass_threshold :: nat where "test_count_pass_threshold = 2"

definition test_count :: "nat \<Rightarrow> int \<Rightarrow> int \<Rightarrow> nat" where
  "test_count n low high = (if n < test_count_pass_threshold \<and> low = 0 \<and> high = 1 then n + 1 else n)"

fun self_test_attempts :: "led_test_env list \<Rightarrow> nat \<Rightarrow> nat \<Rightarrow> front_leds \<Rightarrow> ret_code_t \<times> front_leds" where
  "self_test_attempts [] dout cout s = (RET_ERROR_INVALID_STATE, s)"
| "self_test_attempts (e # es) dout cout s =
    (if sem_taken (test_sem_free e) s then
       let s1 = update_strip (leds_off s)
       in if strip_ret e \<noteq> 0 then (RET_ERROR_INVALID_STATE, s1)
          else
            let dout' = test_count dout (data_low e) (data_high e);
                cout' = test_count cout (clock_low e) (clock_high e)
            in if cout' \<ge> test_count_pass_threshold \<and> dout' \<ge> test_count_pass_threshold then (RET_SUCCESS, s1)
               else self_test_attempts es dout' cout' s1
     else self_test_attempts es dout cout s)"

definition front_leds_self_test :: "board \<Rightarrow> led_test_env list \<Rightarrow> front_leds \<Rightarrow> ret_code_t \<times> front_leds" where
  "front_leds_self_test b es s =
    (case b of Pearl \<Rightarrow> (RET_SUCCESS, s) | Diamond \<Rightarrow> self_test_attempts (take 100 es) 0 0 s)"

text \<open>The result of the self-test is not used by the initialisation; the thread starts in both cases.\<close>

definition front_leds_init :: "board \<Rightarrow> bool \<Rightarrow> led_test_env list \<Rightarrow> front_leds \<Rightarrow> ret_code_t \<times> front_leds" where
  "front_leds_init b ready es s =
    (if \<not> ready then (RET_ERROR_INTERNAL, s) else (RET_SUCCESS, snd (front_leds_self_test b es s)))"

subsection \<open>Histories\<close>

datatype front_event =
    Front_Initial_State bool "nat \<Rightarrow> bool"
  | Front_Init bool "led_test_env list"
  | Front_Boot_Progress nat
  | Front_Set_Pattern front_pattern nat int "rgb_color option" nat double
  | Front_Sequence front_part nat bool "u8 list"
  | Front_Brightness nat
  | Front_Turn_Off bool
  | Front_Ir_Leds_Off
  | Front_Turn front_env

fun front_step :: "board \<Rightarrow> (nat \<Rightarrow> double) \<Rightarrow> front_event \<Rightarrow> front_leds \<Rightarrow> front_leds" where
  "front_step b sine (Front_Initial_State ready free) s = snd (front_leds_initial_state b ready free s)"
| "front_step b sine (Front_Init ready es) s = snd (front_leds_init b ready es s)"
| "front_step b sine (Front_Boot_Progress step) s = snd (front_leds_boot_progress_set b step s)"
| "front_step b sine (Front_Set_Pattern p start len color period scale) s =
    snd (front_leds_set_pattern b p start len color period scale s)"
| "front_step b sine (Front_Sequence part fmt free bytes) s = snd (front_leds_set_leds_sequence b part fmt free bytes s)"
| "front_step b sine (Front_Brightness x) s = front_leds_set_brightness x s"
| "front_step b sine (Front_Turn_Off free) s = front_leds_turn_off_blocking free s"
| "front_step b sine Front_Ir_Leds_Off s = front_leds_notify_ir_leds_off s"
| "front_step b sine (Front_Turn e) s = (if thread_ready s then front_leds_turn b sine e s else s)"

definition front_run :: "board \<Rightarrow> (nat \<Rightarrow> double) \<Rightarrow> front_event list \<Rightarrow> front_leds \<Rightarrow> front_leds" where
  "front_run b sine evs s = fold (front_step b sine) evs s"

subsection \<open>Sectors of the ring\<close>

text \<open>The place of an LED in the order in which the ring is filled.\<close>

definition ring_distance :: "bool \<Rightarrow> nat \<Rightarrow> nat \<Rightarrow> nat \<Rightarrow> nat" where
  "ring_distance up n i0 j = (if up then (j + n - i0) mod n else (i0 + n - j) mod n)"

definition ring_position :: "bool \<Rightarrow> nat \<Rightarrow> nat \<Rightarrow> nat \<Rightarrow> nat" where
  "ring_position up n i0 k = (if up then (i0 + k) mod n else (i0 + n - k) mod n)"

lemma mod_small: "(a :: nat) < 2 * n \<Longrightarrow> a mod n = (if a < n then a else a - n)"
  by (simp add: mod_if)

lemma ring_position_0 [simp]: "i0 < n \<Longrightarrow> ring_position up n i0 0 = i0"
  by (simp add: ring_position_def)

lemma ring_position_less: "i0 < n \<Longrightarrow> ring_position up n i0 k < n"
  by (simp add: ring_position_def)

lemma ring_next_position:
  assumes "i0 < n" "k < n"
  shows "ring_next up n (ring_position up n i0 k) = ring_position up n i0 (Suc k)"
proof (cases up)
  case True
  then show ?thesis by (simp add: ring_next_def ring_position_def mod_Suc_eq)
next
  case False
  then show ?thesis using assms by (auto simp: ring_next_def ring_position_def mod_small split: if_splits)
qed

lemma ring_position_distance:
  assumes "i0 < n" "k < n" "j < n"
  shows "ring_position up n i0 k = j \<longleftrightarrow> ring_distance up n i0 j = k"
  using assms by (cases up) (auto simp: ring_position_def ring_distance_def mod_small split: if_splits)

lemma ring_loop_effect:
  assumes "i0 < n" "k \<le> n" "length r = n"
  shows "snd (ring_loop up c bg lit [k ..< n] (ring_position up n i0 k, r)) =
    map (\<lambda>j. if ring_distance up n i0 j < k then r ! j
      else if ring_distance up n i0 j < lit then c else case bg of Some x \<Rightarrow> x | None \<Rightarrow> r ! j) [0 ..< n]"
  using assms(2,3)
proof (induction "n - k" arbitrary: k r)
  case 0
  have "ring_distance up n i0 j < n" if "j < n" for j using that by (simp add: ring_distance_def)
  then show ?case using 0 by (intro nth_equalityI) simp_all
next
  case (Suc m)
  let ?i = "ring_position up n i0 k"
  have k: "k < n" and eq: "[k ..< n] = k # [Suc k ..< n]" using Suc.hyps(2) by (simp_all add: upt_conv_Cons)
  define r' where "r' = (if k < lit then r[?i := c] else case bg of Some x \<Rightarrow> r[?i := x] | None \<Rightarrow> r)"
  have len: "length r' = n" using Suc.prems(2) by (simp add: r'_def split: option.split)
  have i: "?i < length r" using ring_position_less [OF assms(1)] Suc.prems(2) by simp
  have at: "r' ! j = (if ring_distance up n i0 j = k
      then (if k < lit then c else case bg of Some x \<Rightarrow> x | None \<Rightarrow> r ! j) else r ! j)" if "j < n" for j
    using ring_position_distance [OF assms(1) k that, of up] i Suc.prems(2) that
    by (auto simp: r'_def nth_list_update split: option.split)
  have "snd (ring_loop up c bg lit [k ..< n] (?i, r)) =
      snd (ring_loop up c bg lit [Suc k ..< n] (ring_position up n i0 (Suc k), r'))"
    unfolding eq using ring_next_position [OF assms(1) k, of up] Suc.prems(2) by (simp add: r'_def)
  also have "\<dots> = map (\<lambda>j. if ring_distance up n i0 j < Suc k then r' ! j
      else if ring_distance up n i0 j < lit then c else case bg of Some x \<Rightarrow> x | None \<Rightarrow> r' ! j) [0 ..< n]"
    using Suc.hyps(2) k len by (intro Suc.hyps(1)) simp_all
  also have "\<dots> = map (\<lambda>j. if ring_distance up n i0 j < k then r ! j
      else if ring_distance up n i0 j < lit then c else case bg of Some x \<Rightarrow> x | None \<Rightarrow> r ! j) [0 ..< n]"
    by (rule map_cong [OF refl]) (auto simp: at less_Suc_eq split: option.split)
  finally show ?case .
qed

lemma ring_start_range:
  assumes "start < FULL_RING_DEGREES"
  shows "0 \<le> ring_start b start" "ring_start b start < int (NUM_RING_LEDS b)"
proof -
  have "n * int start div 360 \<le> n * 359 div 360" "0 \<le> n * int start div 360" if "0 \<le> n" for n
    using assms that by (auto simp: FULL_RING_DEGREES_def pos_imp_zdiv_nonneg_iff intro!: zdiv_mono1 mult_left_mono)
  from this [of 224] this [of 54] show "0 \<le> ring_start b start" "ring_start b start < int (NUM_RING_LEDS b)"
    by (cases b; simp add: ring_start_def INDEX_RING_ZERO_def FULL_RING_DEGREES_def Let_def)+
qed

text \<open>
  C38. Setting a sector of the ring gives the colour to as many LEDs as the angle has, rounded down, counted from the LED at the start angle in
  the direction of the sign, and the background colour, if there is one, to all others. An angle out of range or a buffer
  in use leaves the ring as it is. The centre is never touched.
\<close>

theorem set_ring_sector:
  assumes "length (fl_ring s) = NUM_RING_LEDS b"
  shows "set_ring b free color bg start len s =
    (if start < FULL_RING_DEGREES \<and> \<bar>len\<bar> \<le> int FULL_RING_DEGREES \<and> sem_taken free s
     then s\<lparr>fl_ring := map (\<lambda>j.
         if ring_distance (ring_up b len) (NUM_RING_LEDS b) (nat (ring_start b start)) j < ring_lit b len then color
         else case bg of Some c \<Rightarrow> c | None \<Rightarrow> fl_ring s ! j) [0 ..< NUM_RING_LEDS b]\<rparr>
     else s)"
proof -
  have "snd (ring_loop (ring_up b len) color bg (ring_lit b len) [0 ..< NUM_RING_LEDS b] (nat (ring_start b start), fl_ring s)) =
      map (\<lambda>j. if ring_distance (ring_up b len) (NUM_RING_LEDS b) (nat (ring_start b start)) j < ring_lit b len then color
        else case bg of Some c \<Rightarrow> c | None \<Rightarrow> fl_ring s ! j) [0 ..< NUM_RING_LEDS b]"
    if "start < FULL_RING_DEGREES"
  proof -
    have "nat (ring_start b start) < NUM_RING_LEDS b" using ring_start_range [OF that, of b] by linarith
    then show ?thesis using ring_loop_effect [of "nat (ring_start b start)" "NUM_RING_LEDS b" 0] assms by simp
  qed
  then show ?thesis by (auto simp: set_ring_def)
qed

text \<open>A start angle of 360 degrees is refused, though the interface and the command handler allow it.\<close>

lemma set_ring_360: "set_ring b free color bg 360 len s = s"
  by (simp add: set_ring_def FULL_RING_DEGREES_def)

subsection \<open>Colours and indices stay in range\<close>

lemma single_roundf_floor: "int (single_roundf x) = \<lfloor>double_real x + 1 / 2\<rfloor>"
proof (cases x)
  case (Dbl m e)
  have "double_real x + 1 / 2 = real (2 * m + 2 ^ e) / real (2 ^ (e + 1))" by (simp add: Dbl field_simps)
  then show ?thesis using floor_divide_of_nat_eq [of "2 * m + 2 ^ e" "2 ^ (e + 1)", where 'a = real]
    by (simp only: Dbl single_roundf.simps)
qed

lemma single_roundf_mono: "double_real x \<le> double_real y \<Longrightarrow> single_roundf x \<le> single_roundf y"
  using floor_mono [of "double_real x + 1 / 2" "double_real y + 1 / 2"] by (simp flip: single_roundf_floor)

lemma single_of_small:
  assumes "n < 2 ^ 8"
  shows "double_real (single_of_ratio n 1) = real n"
proof -
  have "log2 n \<le> 7" using assms by (intro log2_bound) simp
  then show ?thesis by (simp add: single_of_ratio_def Let_def round_even_def)
qed

lemma u8_less: "unat (x :: u8) < 256"
proof -
  have "unat x < 2 ^ LENGTH(8)" by (rule unsigned_less)
  then show ?thesis by simp
qed

lemma single_mult_one: "double_real x \<le> 1 \<Longrightarrow> double_real (single_mult x (single_of_u8 y)) \<le> real (unat y)"
  using single_mult_mono [of x "Dbl 1 0" "single_of_u8 y"] single_of_small [of "unat y"] u8_less [of y]
  by (simp add: single_of_u8_def)

lemma scaled_by_one: "double_real k \<le> 1 \<Longrightarrow> list_all (\<lambda>v. v \<le> 255) (scaled_values k c)"
proof -
  assume k: "double_real k \<le> 1"
  have "single_roundf (single_mult k (single_of_u8 y)) \<le> 255" for y
  proof -
    have "single_roundf (single_mult k (single_of_u8 y)) \<le> single_roundf (single_of_u8 y)"
      using single_mult_one [OF k, of y] by (intro single_roundf_mono) (simp add: single_of_u8_def)
    then show ?thesis using u8_less [of y] by (simp add: single_of_u8_def)
  qed
  then show ?thesis by (simp add: scaled_values_def)
qed

lemma sine_scaled_one: "double_real x \<le> 1 \<Longrightarrow> double_real (single_mult x PULSING_SCALE_DEFAULT) \<le> 1"
  using single_mult_mono [of x "Dbl 1 0" "Dbl 1 0"] single_of_small [of 1] by (simp add: PULSING_SCALE_DEFAULT_def)

lemma single_diff_one: "double_real x \<le> 1 \<Longrightarrow> double_real (single_diff x y) \<le> 1"
proof (cases x; cases y)
  fix m e m' e' assume xy: "x = Dbl m e" "y = Dbl m' e'" and "double_real x \<le> 1"
  then have "real m \<le> 2 ^ e" by (simp add: pos_divide_le_eq)
  then have "real (m * 2 ^ e') \<le> 2 ^ (e + e')" by (simp add: power_add)
  moreover have "real (m * 2 ^ e' - m' * 2 ^ e) \<le> real (m * 2 ^ e')" by (simp only: of_nat_le_iff diff_le_self)
  ultimately have "real (m * 2 ^ e' - m' * 2 ^ e) \<le> 2 ^ (e + e')" by linarith
  then have "real (m * 2 ^ e' - m' * 2 ^ e) / real (2 ^ (e + e')) \<le> real 1 / real 1" by (simp add: pos_divide_le_eq)
  from single_of_ratio_mono [OF _ _ this] single_of_small [of 1] show "double_real (single_diff x y) \<le> 1"
    by (simp add: xy)
qed

text \<open>What the check of the range says of a value, which the default scale satisfies as well.\<close>

definition scale_fits :: "double \<Rightarrow> led_rgb \<Rightarrow> bool" where
  "scale_fits k c \<longleftrightarrow> k = PULSING_SCALE_DEFAULT \<or>
     (\<forall>x \<in> {led_r c, led_g c, led_b c}. single_roundf (single_mult (single_of_u8 x) (single_add k (Dbl 1 0))) \<le> 255)"

lemma single_mult_commute: "single_mult x y = single_mult y x"
  by (cases x; cases y) (simp add: ac_simps)

lemma sine_scaled_add:
  assumes "double_real x \<le> 1"
  shows "double_real (single_mult x k) \<le> double_real (single_add k (Dbl 1 0))"
proof (cases x; cases k)
  fix m e m' e' assume xk: "x = Dbl m e" "k = Dbl m' e'"
  have "double_real x * double_real k \<le> 1 * double_real k"
    using assms by (intro mult_right_mono) (simp_all add: xk)
  then have "real (m * m') / real (2 ^ (e + e')) \<le> real (m' * 2 ^ 0 + 1 * 2 ^ e') / real (2 ^ (e' + 0))"
    by (simp add: xk power_add add_divide_distrib)
  from single_of_ratio_mono [OF _ _ this] show ?thesis by (simp add: xk)
qed

lemma scaled_by_scale:
  assumes "double_real x \<le> 1" "scale_fits k c"
  shows "list_all (\<lambda>v. v \<le> 255) (scaled_values (single_mult x k) c)"
proof (cases "k = PULSING_SCALE_DEFAULT")
  case True
  then show ?thesis using scaled_by_one sine_scaled_one [OF assms(1)] by simp
next
  case False
  have "single_roundf (single_mult (single_mult x k) (single_of_u8 y)) \<le> 255" if "y \<in> {led_r c, led_g c, led_b c}" for y
  proof -
    have "single_roundf (single_mult (single_mult x k) (single_of_u8 y)) \<le>
        single_roundf (single_mult (single_of_u8 y) (single_add k (Dbl 1 0)))"
      unfolding single_mult_commute [of "single_of_u8 y"]
      by (intro single_roundf_mono single_mult_mono sine_scaled_add assms(1))
    then show ?thesis using assms(2) False that unfolding scale_fits_def by fastforce
  qed
  then show ?thesis by (simp add: scaled_values_def)
qed

text \<open>The invariant: the sizes of the buffers, the index into the table, and a scale that fits while the pattern uses it.\<close>

definition front_ok :: "board \<Rightarrow> front_leds \<Rightarrow> bool" where
  "front_ok b s \<longleftrightarrow> length (fl_ring s) = NUM_RING_LEDS b \<and> length (fl_center s) = NUM_CENTER_LEDS b \<and>
     fl_pulsing_index s < SINE_TABLE_LENGTH * 2 \<and>
     (fl_pattern s = Front_Pulsing_Rgb \<longrightarrow> scale_fits (fl_scale s) (fl_color s))"

lemma length_ring_loop [simp]: "length (snd (ring_loop up c bg lit is s)) = length (snd s)"
  by (induction up c bg lit "is" s rule: ring_loop.induct) (simp_all split: option.split)

lemma length_rainbow_leds [simp]: "length (rainbow_leds r shades x k ls) = length ls"
  by (induction r shades x k ls rule: rainbow_leds.induct) (simp_all add: Let_def)

lemma length_sequence [simp]: "length (snd (rgb_leds_set_leds_sequence b bs fmt leds sem)) = length leds"
proof -
  have "length (snd (turn_off_loop is (sequence_loop b fmt bs js (d, leds)))) = length leds" for "is" js d by simp
  then show ?thesis by (simp add: rgb_leds_set_leds_sequence_def Let_def split_def)
qed

lemma front_ok_parts [simp]:
  "front_ok b (set_center free c s) = front_ok b s" "front_ok b (set_ring b' free c bg start len s) = front_ok b s"
  "front_ok b (rainbow b' r s) = front_ok b s" "front_ok b (leds_off s) = front_ok b s"
  "front_ok b (all_dirty s) = front_ok b s" "front_ok b (update_strip s) = front_ok b s" "front_ok b (show_leds s) = front_ok b s"
  "front_ok b (update_leds b' e s) = front_ok b s"
  by (simp_all add: front_ok_def set_center_def set_ring_def rainbow_def leds_off_def all_dirty_def update_strip_def
      show_leds_def update_leds_def Let_def split: board.split)

lemma front_ok_boot: "front_ok b s \<Longrightarrow> front_ok b (boot_animation b' sine e s)"
proof -
  assume ok: "front_ok b s"
  let ?s = "if boot_transition b' sine s then s\<lparr>boot_progress_current := boot_progress_target s, fl_pulsing_index := 0\<rparr> else s"
  have "front_ok b ?s" using ok by (simp add: front_ok_def SINE_TABLE_LENGTH_def)
  then show ?thesis by (cases b') (auto simp: boot_animation_def Let_def split: if_split_asm)
qed

lemma front_ok_pattern: "show_pattern b' sine e s = Some (w, s') \<Longrightarrow> front_ok b s \<Longrightarrow> front_ok b s'"
  by (auto simp: show_pattern_def Let_def front_ok_boot split: front_pattern.splits if_splits)

lemma front_ok_turn: "front_ok b s \<Longrightarrow> front_ok b (front_leds_turn b' sine e s)"
proof -
  assume ok: "front_ok b s"
  let ?s = "s\<lparr>leds_refresh := False, wait_until := None\<rparr>"
  let ?p = "if fl_use_sequence s then Some (None, ?s) else show_pattern b' sine e ?s"
  have s0: "front_ok b ?s" using ok by (simp add: front_ok_def)
  have updated: "front_ok b (t\<lparr>wait_until := w, fl_pulsing_index := n mod (SINE_TABLE_LENGTH * 2)\<rparr>) \<longleftrightarrow>
      front_ok b (t\<lparr>fl_pulsing_index := 0\<rparr>)" for t w n
    by (simp add: front_ok_def SINE_TABLE_LENGTH_def)
  show ?thesis
  proof (cases ?p)
    case None
    then show ?thesis using s0 unfolding front_leds_turn_def Let_def by simp
  next
    case (Some wt)
    obtain w t where p: "?p = Some (w, t)" using Some by (cases wt) simp
    have "front_ok b t" using p s0 by (auto split: if_splits intro: front_ok_pattern)
    then have "front_ok b (t\<lparr>fl_pulsing_index := 0\<rparr>)" by (simp add: front_ok_def)
    then show ?thesis unfolding front_leds_turn_def Let_def p by (simp add: updated)
  qed
qed

lemma front_ok_sequence: "front_ok b s \<Longrightarrow> front_ok b (snd (front_leds_set_leds_sequence b' part fmt free bytes s))"
  by (cases part) (simp_all add: front_leds_set_leds_sequence_def front_ok_def Let_def split_def)

lemma front_ok_set_pattern: "front_ok b s \<Longrightarrow> front_ok b (snd (front_leds_set_pattern b' p start len color period scale s))"
proof -
  assume ok: "front_ok b s"
  let ?color = "case b' of Pearl \<Rightarrow> color | Diamond \<Rightarrow> map_option (\<lambda>c. if dimming c = 0 \<or> dimming c > RGB_BRIGHTNESS_MAX
    then c\<lparr>dimming := RGB_BRIGHTNESS_MAX\<rparr> else c) color"
  let ?u = "update_parameters b' p start len ?color period scale s"
  have "front_ok b ?u" if check: "p = Front_Pulsing_Rgb \<Longrightarrow> pulsing_rgb_check_range color scale = RET_SUCCESS"
  proof -
    have "scale_fits (fl_scale ?u) (fl_color ?u)" if pulsing: "p = Front_Pulsing_Rgb"
    proof -
      obtain c where c: "color = Some c"
        using check [OF pulsing] by (cases color) (simp_all add: pulsing_rgb_check_range_def)
      let ?v = "\<lambda>x. single_roundf (single_mult (single_of_u8 x) (single_add scale (Dbl 1 0)))"
      have v: "?v (red c) \<le> 255" "?v (green c) \<le> 255" "?v (blue c) \<le> 255"
        using check [OF pulsing] by (auto simp: c pulsing_rgb_check_range_def Let_def not_less split: if_split_asm)
      obtain c' where c': "?color = Some c'" "red c' = red c" "green c' = green c" "blue c' = blue c"
        using c by (cases b') auto
      have "led_r (fl_color ?u) = red c" "led_g (fl_color ?u) = green c" "led_b (fl_color ?u) = blue c"
        using c' by (simp_all add: update_parameters_def Let_def)
      moreover have "fl_scale ?u = PULSING_SCALE_DEFAULT \<or> fl_scale ?u = scale"
        using c' by (simp add: update_parameters_def Let_def)
      ultimately show ?thesis using v by (auto simp: scale_fits_def)
    qed
    moreover have "fl_pattern ?u = p" "fl_ring ?u = fl_ring s" "fl_center ?u = fl_center s" "fl_pulsing_index ?u = fl_pulsing_index s"
      by (simp_all add: update_parameters_def Let_def split: option.split)
    ultimately show ?thesis using ok by (simp add: front_ok_def)
  qed
  then have "front_ok b (?u\<lparr>leds_refresh := True\<rparr>)"
    if "p = Front_Pulsing_Rgb \<Longrightarrow> pulsing_rgb_check_range color scale = RET_SUCCESS"
    using that by (simp add: front_ok_def)
  then show ?thesis using ok by (auto simp: front_leds_set_pattern_def Let_def)
qed

lemma front_ok_self_test: "front_ok b s \<Longrightarrow> front_ok b (snd (self_test_attempts es dout cout s))"
  by (induction es dout cout s rule: self_test_attempts.induct) (simp_all add: Let_def)

lemma front_ok_step: "front_ok b s \<Longrightarrow> front_ok b (front_step b sine ev s)"
proof (cases ev)
  case (Front_Boot_Progress step)
  then show "front_ok b s \<Longrightarrow> ?thesis"
    by (simp add: front_leds_boot_progress_set_def front_ok_def SINE_TABLE_LENGTH_def Let_def split: board.split)
next
  case (Front_Init ready es)
  then show "front_ok b s \<Longrightarrow> ?thesis"
    by (cases b) (simp_all add: front_leds_init_def front_leds_self_test_def front_ok_self_test)
next
  case Front_Ir_Leds_Off
  have "front_ok b (t\<lparr>sem_kept := k, wait_for_interrupt := w\<rparr>) = front_ok b t" for t k w by (simp add: front_ok_def)
  then show "front_ok b s \<Longrightarrow> ?thesis" using Front_Ir_Leds_Off by (simp add: front_leds_notify_ir_leds_off_def)
next
  case (Front_Turn_Off free)
  have "front_ok b (t\<lparr>final_done := k\<rparr>) = front_ok b t" for t k by (simp add: front_ok_def)
  then show "front_ok b s \<Longrightarrow> ?thesis" using Front_Turn_Off by (simp add: front_leds_turn_off_blocking_def)
next
  case (Front_Brightness x)
  then show "front_ok b s \<Longrightarrow> ?thesis" by (simp add: front_leds_set_brightness_def front_ok_def)
qed (simp_all add: front_ok_turn front_ok_sequence front_ok_set_pattern front_leds_initial_state_def Let_def)

lemma front_ok_run: "front_ok b s \<Longrightarrow> front_ok b (front_run b sine evs s)"
  unfolding front_run_def by (induction evs arbitrary: s) (simp_all add: front_ok_step)

lemma front_ok_zero: "front_ok b (front_leds_zero b)"
  by (cases b) (simp_all add: front_ok_def front_leds_zero_def SINE_TABLE_LENGTH_def)

lemma sine_index_less: "p < SINE_TABLE_LENGTH * 2 \<Longrightarrow> sine_index p < SINE_TABLE_LENGTH"
  by (auto simp: sine_index_def SINE_TABLE_LENGTH_def nat_less_iff)

text \<open>
  C37. Whatever patterns, sequences, brightness and boot progress are set, with scales that are numbers and not negative, in any
  order and with the turns of the thread anywhere between: the index into the table of sines is one of its entries, and the values of a pulsating colour, computed in
  single precision, are at most 255 before they are stored in bytes. The check of the range is what excludes a scale that is too
  large.
\<close>

theorem front_leds_in_range:
  assumes "list_all (\<lambda>i. double_real (sine i) \<le> 1) [0 ..< SINE_TABLE_LENGTH]"
  shows "let s = front_run b sine evs (front_leds_zero b) in
    sine_index (fl_pulsing_index s) < SINE_TABLE_LENGTH \<and>
    (case front_pulse b sine s of Some (k, c) \<Rightarrow> list_all (\<lambda>v. v \<le> 255) (scaled_values k c) | None \<Rightarrow> True)"
proof -
  let ?s = "front_run b sine evs (front_leds_zero b)"
  have ok: "front_ok b ?s" by (rule front_ok_run [OF front_ok_zero])
  then have i: "sine_index (fl_pulsing_index ?s) < SINE_TABLE_LENGTH" by (simp add: front_ok_def sine_index_less)
  then have sin: "double_real (sine (sine_index (fl_pulsing_index ?s))) \<le> 1" using assms by (simp add: list_all_iff)
  have "list_all (\<lambda>v. v \<le> 255) (scaled_values k c)" if "front_pulse b sine ?s = Some (k, c)" for k c
  proof (cases "fl_pattern ?s = Front_Pulsing_Rgb")
    case True
    then show ?thesis using that ok scaled_by_scale [OF sin] by (auto simp: front_pulse_def Let_def front_ok_def)
  next
    case False
    then have "double_real k \<le> 1" using that sin
      by (auto simp: front_pulse_def Let_def boot_scaler_def intro!: single_diff_one sine_scaled_one split: front_pattern.splits if_splits)
    then show ?thesis by (rule scaled_by_one)
  qed
  then show ?thesis using i by (auto simp: Let_def split: option.split)
qed

subsection \<open>Patterns and sequences\<close>

text \<open>The settings a request is compared with; the thread and the sequences do not change them.\<close>

definition front_settings :: "front_leds \<Rightarrow> double \<times> nat \<times> nat \<times> front_pattern \<times> nat \<times> int \<times> led_rgb" where
  "front_settings s = (fl_scale s, fl_period_ms s, fl_delay_ms s, fl_pattern s, fl_start_angle s, fl_angle_length s, fl_color s)"

lemma front_settings_parts [simp]:
  "front_settings (set_center free c s) = front_settings s"
  "front_settings (set_ring b' free c bg start len s) = front_settings s"
  "front_settings (rainbow b' r s) = front_settings s" "front_settings (leds_off s) = front_settings s"
  "front_settings (update_leds b' e s) = front_settings s"
  "front_settings (s\<lparr>wait_until := w, fl_pulsing_index := i\<rparr>) = front_settings s"
  "front_settings (s\<lparr>leds_refresh := False, wait_until := w\<rparr>) = front_settings s"
  by (simp_all add: front_settings_def set_center_def set_ring_def rainbow_def leds_off_def all_dirty_def update_strip_def
      show_leds_def update_leds_def Let_def split: board.split)

lemma front_settings_boot: "front_settings (boot_animation b sine e s) = front_settings s"
proof -
  have "front_settings (s\<lparr>boot_progress_current := n, fl_pulsing_index := 0\<rparr>) = front_settings s" for n
    by (simp add: front_settings_def)
  then show ?thesis by (cases b) (simp_all add: boot_animation_def Let_def)
qed

lemma front_settings_pattern: "show_pattern b sine e s = Some (w, s') \<Longrightarrow> front_settings s' = front_settings s"
  by (auto simp: show_pattern_def Let_def front_settings_boot split: front_pattern.splits if_splits)

lemma front_settings_turn: "front_settings (front_leds_turn b sine e s) = front_settings s"
proof -
  let ?s = "s\<lparr>leds_refresh := False, wait_until := None\<rparr>"
  let ?p = "if fl_use_sequence s then Some (None, ?s) else show_pattern b sine e ?s"
  show ?thesis
  proof (cases ?p)
    case None
    then show ?thesis unfolding front_leds_turn_def Let_def by simp
  next
    case (Some wt)
    obtain w t where p: "?p = Some (w, t)" using Some by (cases wt) simp
    then have "front_settings t = front_settings s"
      using front_settings_pattern [of b sine e ?s w t] by (auto split: if_splits)
    then show ?thesis unfolding front_leds_turn_def Let_def p by simp
  qed
qed

lemma front_settings_sequence: "front_settings (snd (front_leds_set_leds_sequence b part fmt free bytes s)) = front_settings s"
  by (cases part) (simp_all add: front_leds_set_leds_sequence_def front_settings_def Let_def split_def)

fun sequence_or_turn :: "front_event \<Rightarrow> bool" where
  "sequence_or_turn (Front_Sequence part fmt free bytes) \<longleftrightarrow> True"
| "sequence_or_turn (Front_Turn e) \<longleftrightarrow> True"
| "sequence_or_turn _ \<longleftrightarrow> False"

lemma front_settings_run: "list_all sequence_or_turn evs \<Longrightarrow> front_settings (front_run b sine evs s) = front_settings s"
  unfolding front_run_def
proof (induction evs arbitrary: s)
  case (Cons ev evs)
  then show ?case by (cases ev) (simp_all add: front_settings_turn front_settings_sequence)
qed simp

lemma identical_cong:
  "front_settings s = front_settings t \<Longrightarrow> previous_settings_are_identical b p start len color period scale s \<longleftrightarrow>
    previous_settings_are_identical b p start len color period scale t"
  by (cases color) (simp_all add: previous_settings_are_identical_def front_settings_def)

lemma single_eq_refl [simp]: "single_eq x x"
  by (cases x) simp

lemma identical_update:
  "period \<noteq> 0 \<Longrightarrow> \<not> single_eq scale (Dbl 0 0) \<Longrightarrow> (\<And>c. color = Some c \<Longrightarrow> b = Diamond \<Longrightarrow> dimming c \<noteq> 0) \<Longrightarrow>
    previous_settings_are_identical b p start len color period scale
      ((update_parameters b p start len color period scale s)\<lparr>leds_refresh := True\<rparr>)"
  by (cases color; cases b) (simp_all add: previous_settings_are_identical_def update_parameters_def led_rgb_values_def Let_def)

text \<open>
  A request for the pattern that has last been accepted, with the same settings, is answered with success and
  changes nothing, however many sequences have been shown since: the LEDs keep the colours of the sequence.
\<close>

theorem front_pattern_lost_after_sequence:
  assumes "fst (front_leds_set_pattern b p start len color period scale s) = RET_SUCCESS"
    and "period \<noteq> 0" and "\<not> single_eq scale (Dbl 0 0)" and "list_all sequence_or_turn evs"
  shows "let s1 = snd (front_leds_set_pattern b p start len color period scale s);
      s2 = front_run b sine evs s1
    in front_leds_set_pattern b p start len color period scale s2 = (RET_SUCCESS, s2)"
proof -
  let ?c = "case b of Pearl \<Rightarrow> color | Diamond \<Rightarrow> map_option (\<lambda>c. if dimming c = 0 \<or> dimming c > RGB_BRIGHTNESS_MAX
    then c\<lparr>dimming := RGB_BRIGHTNESS_MAX\<rparr> else c) color"
  let ?s1 = "snd (front_leds_set_pattern b p start len color period scale s)"
  have check: "\<not> (p = Front_Pulsing_Rgb \<and> pulsing_rgb_check_range color scale \<noteq> RET_SUCCESS)"
  proof
    assume "p = Front_Pulsing_Rgb \<and> pulsing_rgb_check_range color scale \<noteq> RET_SUCCESS"
    then have "front_leds_set_pattern b p start len color period scale s = (RET_ERROR_INVALID_PARAM, s)"
      unfolding front_leds_set_pattern_def by (rule if_P)
    then show False using assms(1) by simp
  qed
  have dim: "dimming c \<noteq> 0" if "?c = Some c" "b = Diamond" for c
  proof -
    obtain c0 where "c = (if dimming c0 = 0 \<or> dimming c0 > RGB_BRIGHTNESS_MAX then c0\<lparr>dimming := RGB_BRIGHTNESS_MAX\<rparr> else c0)"
      using \<open>?c = Some c\<close> \<open>b = Diamond\<close> by auto
    then have "dimming c = (if dimming c0 = 0 \<or> dimming c0 > RGB_BRIGHTNESS_MAX then RGB_BRIGHTNESS_MAX else dimming c0)"
      by simp
    then show ?thesis by (simp add: RGB_BRIGHTNESS_MAX_def split: if_splits)
  qed
  have "previous_settings_are_identical b p start len ?c period scale ?s1"
    using identical_update [OF assms(2,3) dim, where p = p and start = start and len = len and s = s and color = "?c" and b = b] check
    unfolding front_leds_set_pattern_def Let_def if_not_P [OF check] by auto
  then have "previous_settings_are_identical b p start len ?c period scale (front_run b sine evs ?s1)"
    using identical_cong [OF front_settings_run [OF assms(4)]] by blast
  then show ?thesis unfolding Let_def front_leds_set_pattern_def [of b p start len color period scale "front_run b sine evs ?s1"]
    if_not_P [OF check] by simp
qed

text \<open>
  The strip is sent whatever the buffers hold: a turn with a sequence sends them even when they have not been written since
  the last time, as after a change of the brightness, which is what the dirty flags are to prevent.
\<close>

lemma dirty_leds_sent:
  assumes "fl_use_sequence s" "\<not> final_done s" "sem_taken (sem_free e 3) s" "\<not> ir_pulse_close e"
  shows "strip_log (front_leds_turn b sine e (front_leds_set_brightness x s)) = strip_log s @ [(fl_ring s, fl_center s)]"
  using assms
  by (simp add: front_leds_turn_def front_leds_set_brightness_def update_leds_def sem_taken_def show_leds_def all_dirty_def
      update_strip_def)

text \<open>
  After the LEDs have been turned off for good, the next turn of the thread keeps the semaphore: from then on every sequence is
  refused with an internal error, and the centre counts as lit.
\<close>

lemma semaphore_kept:
  assumes "fl_use_sequence s" "final_done s" "sem_taken (sem_free e 3) s"
  shows "let s' = front_leds_turn b sine e s in sem_kept s' \<and> front_leds_is_shroud_on free s' \<and>
    (boot_progress_current s' = BOOT_PROGRESS_STEP_DONE \<and> (fmt = 3 \<or> fmt = 4) \<and> fmt dvd length bs \<longrightarrow>
      fst (front_leds_set_leds_sequence b part fmt free bs s') = RET_ERROR_INTERNAL)"
  using assms
  by (cases part) (auto simp: front_leds_turn_def update_leds_def sem_taken_def front_leds_is_shroud_on_def
      front_leds_set_leds_sequence_def rgb_leds_set_leds_sequence_def mod_eq_0_iff_dvd Let_def)

text \<open>The progress that is aimed at never goes back, and a step that is out of range is refused.\<close>

lemma boot_progress_increases:
  "boot_progress_target s \<le> boot_progress_target (snd (front_leds_boot_progress_set b step s))"
  "front_leds_boot_progress_set Diamond step s = (RET_ERROR_INVALID_PARAM, s) \<longleftrightarrow> step > BOOT_PROGRESS_STEP_DONE"
  by (cases b; simp add: front_leds_boot_progress_set_def Let_def; fail)
    (simp add: front_leds_boot_progress_set_def Let_def)

subsection \<open>Concrete runs\<close>

text \<open>A quarter of the ring of Diamond, from the top: the first LED is the one with index 28.\<close>

lemma set_ring_sector_witness:
  "let red = \<lparr>scratch = 31, led_r = 255, led_g = 0, led_b = 0\<rparr>;
       s = set_ring Diamond True red (Some RGB_OFF) 90 (- 90) (front_leds_zero Diamond)
   in ring_lit Diamond (- 90) = 13 \<and> ring_start Diamond 90 = 28 \<and>
      fl_ring s = map (\<lambda>j. if (26 + j) mod 54 < 13 then red else RGB_OFF) [0 ..< 54]"
  using set_ring_sector [of "front_leds_zero Diamond" Diamond True "\<lparr>scratch = 31, led_r = 255, led_g = 0, led_b = 0\<rparr>"
      "Some RGB_OFF" 90 "- 90"]
  by (simp add: front_leds_zero_def FULL_RING_DEGREES_def sem_taken_def ring_distance_def ring_up_def ring_lit_def
      ring_start_def INDEX_RING_ZERO_def Let_def)

lemma front_leds_in_range_witness:
  "let sine = (\<lambda>i. Dbl i 8);
       evs = [Front_Set_Pattern Front_Pulsing_Rgb 0 360 (Some \<lparr>red = 60, green = 60, blue = 0, dimming = 5\<rparr>) 1000 (Dbl 3 0),
         Front_Turn \<lparr>sem_free = (\<lambda>i. True), rnd = (\<lambda>i. 0), ir_pulse_close = False\<rparr>];
       s = front_run Pearl sine evs (front_leds_zero Pearl)
   in sine_index (fl_pulsing_index s) < SINE_TABLE_LENGTH \<and>
      (case front_pulse Pearl sine s of Some (k, c) \<Rightarrow> list_all (\<lambda>v. v \<le> 255) (scaled_values k c) | None \<Rightarrow> True)"
  unfolding Let_def
  by (rule front_leds_in_range [unfolded Let_def]) (simp add: list_all_iff SINE_TABLE_LENGTH_def)

lemma front_pattern_lost_after_sequence_witness:
  "let request = front_leds_set_pattern Pearl Front_Rgb 0 360 (Some \<lparr>red = 60, green = 60, blue = 0, dimming = 0\<rparr>) 1000 (Dbl 1 0);
       evs = [Front_Sequence Center_Leds 3 True [1, 2, 3], Front_Sequence Ring_Leds 3 True [1, 2, 3],
         Front_Turn \<lparr>sem_free = (\<lambda>i. True), rnd = (\<lambda>i. 0), ir_pulse_close = False\<rparr>];
       s2 = front_run Pearl (\<lambda>i. Dbl 0 0) evs (snd (request (front_leds_zero Pearl)))
   in request s2 = (RET_SUCCESS, s2)"
  unfolding Let_def
  by (rule front_pattern_lost_after_sequence [unfolded Let_def])
    (simp_all add: front_leds_set_pattern_def Let_def)

end
