(* ===== verification/Operator_Leds.thy ===== *)
theory Operator_Leds
  imports Front_Leds
begin

text \<open>
  The operator LEDs (\<^verbatim>\<open>main_board/src/ui/rgb_leds/operator_leds/operator_leds.c\<close>): five on Pearl, one on Diamond. A thread shows
  a pattern or leaves a received sequence as it is; at boot and at shutdown they are set directly, and on Diamond their
  supply is switched.

  The state is the static variables of the file, the two variables the thread keeps from turn to turn and the buffers
  sent to the strip. The thread runs at least every \<open>operator_delay_ms\<close> milliseconds, so that a turn may happen at any point of a
  history; the two halves of setting a sequence, which is not protected, are two events.
\<close>

subsection \<open>State\<close>

fun OPERATOR_LEDS_COUNT :: "board \<Rightarrow> nat" where
  "OPERATOR_LEDS_COUNT Pearl = 5"
| "OPERATOR_LEDS_COUNT Diamond = 1"

definition operator_delay_ms :: nat where
  "operator_delay_ms = INITIAL_PULSING_PERIOD_MS div 2 div SINE_TABLE_LENGTH"

datatype operator_pattern =
    Op_Off | Op_All_White | Op_All_Red | Op_All_Green | Op_All_Blue | Op_Rgb | Op_Pulsing_Rgb | Op_Boot_Animation
  | Op_Other nat

record operator_leds =
  op_pattern :: operator_pattern
  op_intensity :: u8
  op_mask :: u32
  op_color :: led_rgb
  op_use_sequence :: bool
  op_leds :: "led_rgb list"
  op_shown_pattern :: operator_pattern
  op_pulsing_index :: nat
  op_previous_mask :: u32
  op_supply :: bool
  op_log :: "led_rgb list list"

definition operator_leds_zero :: "board \<Rightarrow> operator_leds" where
  "operator_leds_zero b = \<lparr>op_pattern = Op_Boot_Animation, op_intensity = 20, op_mask = 31,
     op_color = RGB_WHITE_OPERATOR_LEDS b, op_use_sequence = False,
     op_leds = replicate (OPERATOR_LEDS_COUNT b) RGB_OFF, op_shown_pattern = Op_Boot_Animation,
     op_pulsing_index = SINE_TABLE_LENGTH, op_previous_mask = - 1, op_supply = False, op_log = []\<rparr>"

definition operator_update :: "operator_leds \<Rightarrow> operator_leds" where
  "operator_update s = s\<lparr>op_log := op_log s @ [op_leds s]\<rparr>"

text \<open>The LED on the left is the most significant bit on Pearl and the least significant on Diamond.\<close>

definition apply_pattern :: "board \<Rightarrow> u32 \<Rightarrow> led_rgb \<Rightarrow> operator_leds \<Rightarrow> operator_leds" where
  "apply_pattern b led_mask color s =
    s\<lparr>op_leds := map (\<lambda>i. if bit led_mask (case b of Pearl \<Rightarrow> OPERATOR_LEDS_COUNT b - 1 - i | Diamond \<Rightarrow> i)
        then color else RGB_OFF) [0 ..< length (op_leds s)]\<rparr>"

subsection \<open>The thread\<close>

definition solid_iterations :: nat where "solid_iterations = 1000 div operator_delay_ms"

text \<open>The entry of the table the boot animation uses; \<open>None\<close> while the LEDs are at full brightness.\<close>

definition boot_sine_index :: "nat \<Rightarrow> nat option" where
  "boot_sine_index p =
    (if p < SINE_TABLE_LENGTH then Some p
     else if p < SINE_TABLE_LENGTH + solid_iterations then None
     else Some (nat ((int SINE_TABLE_LENGTH - 1 - (int p - int solid_iterations - int SINE_TABLE_LENGTH)) mod 2 ^ 32)))"

definition operator_sine_index :: "operator_leds \<Rightarrow> nat option" where
  "operator_sine_index s =
    (case op_shown_pattern s of
       Op_Pulsing_Rgb \<Rightarrow> Some (sine_index (op_pulsing_index s))
     | Op_Boot_Animation \<Rightarrow> boot_sine_index (op_pulsing_index s)
     | _ \<Rightarrow> None)"

definition operator_scaler :: "(nat \<Rightarrow> double) \<Rightarrow> operator_leds \<Rightarrow> double" where
  "operator_scaler sine s =
    (case operator_sine_index s of
       Some i \<Rightarrow> single_mult (sine i) PULSING_SCALE_DEFAULT
     | None \<Rightarrow> PULSING_SCALE_DEFAULT)"

text \<open>On Diamond the brightness of the LED is scaled, on Pearl the colours.\<close>

definition operator_scaled :: "board \<Rightarrow> double \<Rightarrow> led_rgb \<Rightarrow> led_rgb" where
  "operator_scaled b k c =
    (case b of
       Diamond \<Rightarrow> c\<lparr>scratch := word_of_nat (single_roundf (single_mult k (single_of_u8 (scratch c))))\<rparr>
     | Pearl \<Rightarrow> scaled_color k c)"

text \<open>A turn first takes over the settings: with a new pattern the pulse starts at its maximum.\<close>

definition operator_take_settings :: "operator_leds \<Rightarrow> operator_leds" where
  "operator_take_settings s =
    (if op_shown_pattern s \<noteq> op_pattern s
     then s\<lparr>op_pulsing_index := SINE_TABLE_LENGTH, op_shown_pattern := op_pattern s\<rparr> else s)"

definition operator_leds_turn :: "board \<Rightarrow> (nat \<Rightarrow> double) \<Rightarrow> operator_leds \<Rightarrow> operator_leds" where
  "operator_leds_turn b sine s =
    (let s1 = operator_take_settings s;
         c = op_color s1;
         x = op_intensity s1;
         color = (case op_shown_pattern s1 of
             Op_Off \<Rightarrow> RGB_OFF
           | Op_All_White \<Rightarrow> c\<lparr>led_r := x, led_g := x, led_b := x\<rparr>
           | Op_All_Red \<Rightarrow> c\<lparr>led_r := x, led_g := 0, led_b := 0\<rparr>
           | Op_All_Green \<Rightarrow> c\<lparr>led_r := 0, led_g := x, led_b := 0\<rparr>
           | Op_All_Blue \<Rightarrow> c\<lparr>led_r := 0, led_g := 0, led_b := x\<rparr>
           | Op_Rgb \<Rightarrow> c
           | Op_Pulsing_Rgb \<Rightarrow> operator_scaled b (operator_scaler sine s1) c
           | Op_Boot_Animation \<Rightarrow> operator_scaled b (operator_scaler sine s1) c
           | Op_Other _ \<Rightarrow> c);
         s2 = (case op_shown_pattern s1 of
             Op_Pulsing_Rgb \<Rightarrow> s1\<lparr>op_pulsing_index := (op_pulsing_index s1 + 1) mod (SINE_TABLE_LENGTH * 2)\<rparr>
           | Op_Boot_Animation \<Rightarrow>
               s1\<lparr>op_pulsing_index := (op_pulsing_index s1 + 1) mod (SINE_TABLE_LENGTH * 2 + solid_iterations)\<rparr>
           | _ \<Rightarrow> s1)
     in operator_update (if op_use_sequence s2 then s2 else apply_pattern b (op_mask s2) color s2))"

subsection \<open>The interface\<close>

definition operator_leds_set_brightness :: "u8 \<Rightarrow> operator_leds \<Rightarrow> operator_leds" where
  "operator_leds_set_brightness brightness s = s\<lparr>op_intensity := brightness\<rparr>"

text \<open>The brightness of a colour: on Diamond a value of zero or out of range is the maximum.\<close>

definition led_dimming :: "board \<Rightarrow> rgb_color \<Rightarrow> u8 \<Rightarrow> u8" where
  "led_dimming b c old =
    (case b of
       Pearl \<Rightarrow> old
     | Diamond \<Rightarrow> if dimming c = 0 \<or> dimming c > RGB_BRIGHTNESS_MAX then RGB_BRIGHTNESS_MAX else dimming c)"

definition operator_leds_set_pattern ::
    "board \<Rightarrow> operator_pattern \<Rightarrow> u32 \<Rightarrow> rgb_color option \<Rightarrow> operator_leds \<Rightarrow> operator_leds" where
  "operator_leds_set_pattern b pattern led_mask color s =
    (let s1 = s\<lparr>op_pattern := pattern, op_mask := led_mask, op_use_sequence := False\<rparr>
     in case color of
          None \<Rightarrow> s1
        | Some c \<Rightarrow> s1\<lparr>op_color := \<lparr>scratch = led_dimming b c (scratch (op_color s)),
            led_r = red c, led_g = green c, led_b = blue c\<rparr>\<rparr>)"

text \<open>Setting a sequence writes the buffer, and then sets the flag.\<close>

definition operator_write_sequence :: "board \<Rightarrow> nat \<Rightarrow> u8 list \<Rightarrow> operator_leds \<Rightarrow> ret_code_t \<times> operator_leds" where
  "operator_write_sequence b fmt bytes s =
    (let (ret, leds) = rgb_leds_set_leds_sequence b bytes fmt (op_leds s) None in (ret, s\<lparr>op_leds := leds\<rparr>))"

definition operator_use_sequence :: "ret_code_t \<Rightarrow> operator_leds \<Rightarrow> ret_code_t \<times> operator_leds" where
  "operator_use_sequence ret s =
    (if ret = RET_SUCCESS then (RET_SUCCESS, s\<lparr>op_use_sequence := True\<rparr>)
     else if ret \<noteq> RET_ERROR_ALREADY_INITIALIZED then (ret, s)
     else (RET_SUCCESS, s))"

definition operator_leds_set_leds_sequence :: "board \<Rightarrow> nat \<Rightarrow> u8 list \<Rightarrow> operator_leds \<Rightarrow> ret_code_t \<times> operator_leds" where
  "operator_leds_set_leds_sequence b fmt bytes s =
    (let (ret, s1) = operator_write_sequence b fmt bytes s in operator_use_sequence ret s1)"

definition operator_leds_init :: "bool \<Rightarrow> ret_code_t" where
  "operator_leds_init ready = (if \<not> ready then RET_ERROR_INTERNAL else RET_SUCCESS)"

definition operator_leds_set_blocking ::
    "board \<Rightarrow> bool \<Rightarrow> rgb_color option \<Rightarrow> u32 \<Rightarrow> operator_leds \<Rightarrow> operator_leds" where
  "operator_leds_set_blocking b ready color led_mask s =
    (if \<not> ready then s
     else case color of
       None \<Rightarrow> s
     | Some col \<Rightarrow>
         (let s1 = (if b = Diamond \<and> op_previous_mask s = 0 \<and> led_mask \<noteq> 0 then s\<lparr>op_supply := True\<rparr> else s);
              c = \<lparr>scratch = led_dimming b col 0, led_r = red col, led_g = green col, led_b = blue col\<rparr>;
              s2 = operator_update (apply_pattern b led_mask c s1)
          in case b of
               Pearl \<Rightarrow> s2
             | Diamond \<Rightarrow>
                 (let s3 = (if led_mask = 0 \<and> op_previous_mask s2 \<noteq> 0 then s2\<lparr>op_supply := False\<rparr> else s2)
                  in s3\<lparr>op_previous_mask := led_mask\<rparr>)))"

definition low_battery_color :: "board \<Rightarrow> rgb_color" where
  "low_battery_color b = \<lparr>red = 5, green = 0, blue = 0, dimming = (if b = Diamond then RGB_BRIGHTNESS_MAX else 0)\<rparr>"

definition operator_leds_indicate_low_battery_blocking :: "board \<Rightarrow> bool \<Rightarrow> operator_leds \<Rightarrow> operator_leds" where
  "operator_leds_indicate_low_battery_blocking b ready s =
    ((\<lambda>s. operator_leds_set_blocking b ready (Some (low_battery_color b)) 0
       (operator_leds_set_blocking b ready (Some (low_battery_color b)) 31 s)) ^^ 3) s"

definition operator_leds_initial_state :: "board \<Rightarrow> bool \<Rightarrow> operator_leds \<Rightarrow> ret_code_t \<times> operator_leds" where
  "operator_leds_initial_state b ready s =
    (if \<not> ready then (RET_ERROR_INTERNAL, s)
     else
       let s1 = (if b = Diamond then s\<lparr>op_supply := True\<rparr> else s)
       in (RET_SUCCESS, operator_update (apply_pattern b (op_mask s1) (op_color s1) s1)))"

subsection \<open>Histories\<close>

datatype operator_event =
    Op_Initial_State bool
  | Op_Set_Brightness u8
  | Op_Set_Pattern operator_pattern u32 "rgb_color option"
  | Op_Write_Sequence nat "u8 list"
  | Op_Use_Sequence ret_code_t
  | Op_Set_Blocking bool "rgb_color option" u32
  | Op_Low_Battery bool
  | Op_Turn

fun operator_step :: "board \<Rightarrow> (nat \<Rightarrow> double) \<Rightarrow> operator_event \<Rightarrow> operator_leds \<Rightarrow> operator_leds" where
  "operator_step b sine (Op_Initial_State ready) s = snd (operator_leds_initial_state b ready s)"
| "operator_step b sine (Op_Set_Brightness x) s = operator_leds_set_brightness x s"
| "operator_step b sine (Op_Set_Pattern p led_mask color) s = operator_leds_set_pattern b p led_mask color s"
| "operator_step b sine (Op_Write_Sequence fmt bytes) s = snd (operator_write_sequence b fmt bytes s)"
| "operator_step b sine (Op_Use_Sequence ret) s = snd (operator_use_sequence ret s)"
| "operator_step b sine (Op_Set_Blocking ready color led_mask) s = operator_leds_set_blocking b ready color led_mask s"
| "operator_step b sine (Op_Low_Battery ready) s = operator_leds_indicate_low_battery_blocking b ready s"
| "operator_step b sine Op_Turn s = operator_leds_turn b sine s"

definition operator_run :: "board \<Rightarrow> (nat \<Rightarrow> double) \<Rightarrow> operator_event list \<Rightarrow> operator_leds \<Rightarrow> operator_leds" where
  "operator_run b sine evs s = fold (operator_step b sine) evs s"

subsection \<open>The index into the table\<close>

definition operator_ok :: "board \<Rightarrow> operator_leds \<Rightarrow> bool" where
  "operator_ok b s \<longleftrightarrow> length (op_leds s) = OPERATOR_LEDS_COUNT b \<and>
     (op_shown_pattern s = Op_Boot_Animation \<longrightarrow> op_pulsing_index s < SINE_TABLE_LENGTH * 2 + solid_iterations) \<and>
     (op_shown_pattern s = Op_Pulsing_Rgb \<longrightarrow> op_pulsing_index s < SINE_TABLE_LENGTH * 2)"

lemma solid_iterations_value [simp]: "solid_iterations = 62"
  by (simp add: solid_iterations_def operator_delay_ms_def INITIAL_PULSING_PERIOD_MS_def SINE_TABLE_LENGTH_def)

lemma operator_ok_parts [simp]:
  "operator_ok b (operator_update s) = operator_ok b s" "operator_ok b (apply_pattern b' m c s) = operator_ok b s"
  "operator_ok b (s\<lparr>op_supply := x\<rparr>) = operator_ok b s" "operator_ok b (s\<lparr>op_previous_mask := y\<rparr>) = operator_ok b s"
  "operator_ok b (s\<lparr>op_supply := x, op_previous_mask := y\<rparr>) = operator_ok b s"
  "operator_ok b (s\<lparr>op_use_sequence := u\<rparr>) = operator_ok b s"
  by (simp_all add: operator_ok_def operator_update_def apply_pattern_def)

lemma operator_ok_take: "operator_ok b s \<Longrightarrow> operator_ok b (operator_take_settings s)"
  by (simp add: operator_ok_def operator_take_settings_def SINE_TABLE_LENGTH_def)

lemma operator_ok_turn: "operator_ok b s \<Longrightarrow> operator_ok b (operator_leds_turn b' sine s)"
proof -
  assume "operator_ok b s"
  then have ok: "operator_ok b (operator_take_settings s)" by (rule operator_ok_take)
  have "operator_ok b (t\<lparr>op_pulsing_index := n mod (SINE_TABLE_LENGTH * 2)\<rparr>)"
    if "operator_ok b t" "op_shown_pattern t = Op_Pulsing_Rgb" for t n
    using that by (simp add: operator_ok_def SINE_TABLE_LENGTH_def)
  moreover have "operator_ok b (t\<lparr>op_pulsing_index := n mod (SINE_TABLE_LENGTH * 2 + solid_iterations)\<rparr>)"
    if "operator_ok b t" "op_shown_pattern t = Op_Boot_Animation" for t n
    using that by (simp add: operator_ok_def SINE_TABLE_LENGTH_def)
  ultimately show ?thesis using ok
    by (simp add: operator_leds_turn_def Let_def del: solid_iterations_value split: operator_pattern.split)
qed

lemma operator_ok_blocking: "operator_ok b (operator_leds_set_blocking b' ready color led_mask s) = operator_ok b s"
  by (cases b') (simp_all add: operator_leds_set_blocking_def Let_def split: option.split)

lemma operator_ok_step: "operator_ok b s \<Longrightarrow> operator_ok b (operator_step b sine ev s)"
proof (cases ev)
  case (Op_Low_Battery ready)
  then show "operator_ok b s \<Longrightarrow> ?thesis"
    by (simp add: operator_leds_indicate_low_battery_blocking_def operator_ok_blocking eval_nat_numeral)
next
  case (Op_Set_Pattern p led_mask color)
  then show "operator_ok b s \<Longrightarrow> ?thesis"
    by (simp add: operator_leds_set_pattern_def operator_ok_def Let_def split: option.split)
next
  case (Op_Write_Sequence fmt bytes)
  then show "operator_ok b s \<Longrightarrow> ?thesis"
    by (simp add: operator_write_sequence_def operator_ok_def split_def Let_def)
next
  case (Op_Initial_State ready)
  then show "operator_ok b s \<Longrightarrow> ?thesis" by (cases b) (simp_all add: operator_leds_initial_state_def Let_def)
next
  case (Op_Set_Brightness x)
  then show "operator_ok b s \<Longrightarrow> ?thesis" by (simp add: operator_leds_set_brightness_def operator_ok_def)
qed (simp_all add: operator_ok_turn operator_ok_blocking operator_use_sequence_def Let_def)

lemma operator_ok_run: "operator_ok b s \<Longrightarrow> operator_ok b (operator_run b sine evs s)"
  unfolding operator_run_def by (induction evs arbitrary: s) (simp_all add: operator_ok_step)

lemma boot_sine_index_less:
  assumes "p < SINE_TABLE_LENGTH * 2 + solid_iterations" "boot_sine_index p = Some i"
  shows "i < SINE_TABLE_LENGTH"
proof -
  have "(361 - int p) mod 2 ^ 32 = 361 - int p" if "212 \<le> p"
    using that assms(1) by (intro mod_pos_pos_trivial) (simp_all add: SINE_TABLE_LENGTH_def)
  then show ?thesis using assms by (auto simp: boot_sine_index_def SINE_TABLE_LENGTH_def split: if_splits)
qed

text \<open>
  Whatever is requested, in any order and with the turns of the thread anywhere between, even between the two halves of
  setting a sequence, the entry of the table the next turn reads exists: though the boot animation counts further than the
  pulsating pattern, the counter is set back when the pattern changes.
\<close>

theorem operator_sine_in_range:
  "let s = operator_take_settings (operator_run b sine evs (operator_leds_zero b)) in
    case operator_sine_index s of Some i \<Rightarrow> i < SINE_TABLE_LENGTH | None \<Rightarrow> True"
proof -
  have "operator_ok b (operator_leds_zero b)"
    by (simp add: operator_ok_def operator_leds_zero_def SINE_TABLE_LENGTH_def)
  from operator_ok_take [OF operator_ok_run [OF this]] show ?thesis
    by (auto simp: Let_def operator_sine_index_def operator_ok_def sine_index_less intro: boot_sine_index_less
        simp del: solid_iterations_value split: operator_pattern.splits option.splits)
qed

subsection \<open>Sequences\<close>

text \<open>
  A turn of the thread between the two halves of setting a sequence replaces the buffer by the pattern; the flag then keeps it
  there, and the sequence, for which success is returned, is never shown.
\<close>

lemma operator_sequence_lost:
  assumes "op_pattern s = Op_Rgb" "op_shown_pattern s = Op_Rgb" "\<not> op_use_sequence s"
    and "operator_write_sequence b fmt bytes s = (RET_SUCCESS, s1)"
  shows "let (ret, s2) = operator_use_sequence RET_SUCCESS (operator_leds_turn b sine s1);
      shown = op_leds (apply_pattern b (op_mask s) (op_color s) s)
    in ret = RET_SUCCESS \<and> op_leds s2 = shown \<and> op_leds (operator_leds_turn b sine s2) = shown"
proof -
  obtain leds where leds: "rgb_leds_set_leds_sequence b bytes fmt (op_leds s) None = (RET_SUCCESS, leds)" and s1: "s1 = s\<lparr>op_leds := leds\<rparr>"
    using assms(4) by (cases "rgb_leds_set_leds_sequence b bytes fmt (op_leds s) None") (simp add: operator_write_sequence_def)
  have "length leds = length (op_leds s)"
    using length_sequence [of b bytes fmt "op_leds s" None] by (simp add: leds)
  then show ?thesis using assms(1-3)
    by (simp add: s1 operator_leds_turn_def operator_take_settings_def operator_use_sequence_def operator_update_def
        apply_pattern_def Let_def)
qed

subsection \<open>The supply (Diamond)\<close>

text \<open>While the LEDs are set directly, the supply is on exactly when some LED is.\<close>

lemma blocking_supply:
  assumes "op_previous_mask s \<noteq> 0 \<longleftrightarrow> op_supply s"
  shows "let s' = operator_leds_set_blocking Diamond True (Some c) led_mask s in
    op_supply s' = (led_mask \<noteq> 0) \<and> op_previous_mask s' = led_mask"
  using assms by (auto simp: operator_leds_set_blocking_def operator_update_def apply_pattern_def Let_def)

text \<open>After the low-battery animation the supply is off, and the pattern of the thread is sent to LEDs without supply.\<close>

lemma low_battery_supply_off:
  "op_supply (operator_leds_turn Diamond sine (operator_leds_indicate_low_battery_blocking Diamond True s)) = False"
  if "op_previous_mask s \<noteq> 0 \<longleftrightarrow> op_supply s"
proof -
  define blink where "blink = (\<lambda>s. operator_leds_set_blocking Diamond True (Some (low_battery_color Diamond)) 0
    (operator_leds_set_blocking Diamond True (Some (low_battery_color Diamond)) 31 s))"
  have "op_supply (operator_leds_turn Diamond sine t) = op_supply t" for t
    by (simp add: operator_leds_turn_def operator_take_settings_def operator_update_def apply_pattern_def Let_def
        split: operator_pattern.split)
  moreover have "op_supply (blink t) = False \<and> op_previous_mask (blink t) = 0"
    if "op_previous_mask t \<noteq> 0 \<longleftrightarrow> op_supply t" for t
    using that blocking_supply [of t] blocking_supply [of "operator_leds_set_blocking Diamond True (Some (low_battery_color Diamond)) 31 t"]
    by (simp add: blink_def Let_def)
  ultimately show ?thesis using that
    by (simp add: operator_leds_indicate_low_battery_blocking_def eval_nat_numeral flip: blink_def)
qed

end
