(* ===== verification/Battery_Common.thy ===== *)
theory Battery_Common
  imports Pubsub
begin

text \<open>
  What the two battery modules have in common: the limits of \<^verbatim>\<open>battery.h\<close>, the values of the
  messages to the Jetson and the effects of the threads, in the order in which they happen. The
  value \<^verbatim>\<open>voltage_measurement_get\<close> returns for the battery rail, and what publishing a message
  returns, are inputs of a turn.
\<close>

unbundle bit_operations_syntax

definition BATTERY_MINIMUM_VOLTAGE_STARTUP_MV :: int where "BATTERY_MINIMUM_VOLTAGE_STARTUP_MV = 13750"
definition BATTERY_MINIMUM_VOLTAGE_RUNTIME_MV :: int where "BATTERY_MINIMUM_VOLTAGE_RUNTIME_MV = 12500"
definition BATTERY_MINIMUM_CAPACITY_STARTUP_PERCENT :: nat where "BATTERY_MINIMUM_CAPACITY_STARTUP_PERCENT = 5"

record battery_voltage =
  corded_power_supply_mv :: int
  battery_cells_mv :: "int list"

record diag_common =
  diag_flags :: u8
  bq769_control_status :: u16
  battery_status :: u16
  fet_status :: u8
  balancer_state :: u8
  diag_current_ma :: int

record info_hw_fw =
  mcu_id :: "u8 list"
  info_hw_version :: "u8 option"
  fw_version :: "nat \<times> nat \<times> nat \<times> u32"

record info_soc =
  soc_state :: "(u8 \<times> u8) option"
  number_of_charges :: nat
  number_of_written_flash_variables :: u32
  number_of_button_presses :: u32
  number_of_insertions :: u32

record info_max_values =
  maximum_capacity_mah :: nat
  maximum_cell_temp_decidegrees :: nat
  maximum_pcb_temp_decidegrees :: nat
  maximum_charge_current_ma :: nat
  maximum_discharge_current_ma :: int

datatype battery_msg =
    PUB_RESET_REASON u8
  | PUB_VOLTAGE battery_voltage
  | PUB_CAPACITY nat
  | PUB_IS_CHARGING bool
  | PUB_DIAG_COMMON diag_common
  | PUB_DIAG_SAFETY "u8 list"
  | PUB_DIAG_PERMANENT_FAIL "u8 list"
  | PUB_INFO_HW_FW info_hw_fw
  | PUB_INFO_SOC info_soc
  | PUB_INFO_MAX_VALUES info_max_values
  | PUB_STATE_OF_HEALTH nat
  | PUB_SHUTDOWN_BATTERY_REMOVED u32

datatype battery_temperature = BATTERY_CELL | BATTERY_PCB | BATTERY_PACK

datatype battery_effect =
    PUBLISH battery_msg
  | TEMPERATURE_REPORT battery_temperature int
  | LOW_BATTERY_LEDS
  | REBOOT nat
  | SYSTEM_RESET
  | ORB_STATE ret_code_t string
  | CAN_RESTART
  | RTR nat

text \<open>Division as C has it: towards zero.\<close>

definition c_div :: "int \<Rightarrow> int \<Rightarrow> int" where
  "c_div x y = sgn x * sgn y * (\<bar>x\<bar> div \<bar>y\<bar>)"

definition i16_of :: "u8 \<Rightarrow> u8 \<Rightarrow> int" where
  "i16_of lo hi = sint (u16_of lo hi)"

text \<open>The pack voltage is passed on in 16 bits.\<close>

definition check_battery_voltage :: "int \<Rightarrow> battery_effect list" where
  "check_battery_voltage pack_voltage_mv =
    (if pack_voltage_mv mod 65536 < BATTERY_MINIMUM_VOLTAGE_RUNTIME_MV then [LOW_BATTERY_LEDS, REBOOT 1] else [])"

definition cells_quarter :: "int \<Rightarrow> int list" where
  "cells_quarter mv = replicate 4 (c_div mv 4)"

text \<open>The part of the two threads that watches the link to the battery.\<close>

record battery_link =
  corded_power_supply :: bool
  battery_messages_timeout :: u32
  shutdown_scheduled_sent :: ret_code_t

definition link_alive :: "battery_link \<Rightarrow> battery_effect list \<times> battery_link" where
  "link_alive l =
    (if battery_messages_timeout l \<noteq> 0 \<or> corded_power_supply l then [ORB_STATE RET_SUCCESS ''battery comm ok''] else [],
     l\<lparr>corded_power_supply := False, battery_messages_timeout := 0,
       shutdown_scheduled_sent := RET_ERROR_NOT_INITIALIZED\<rparr>)"

definition link_lost :: "battery_link \<Rightarrow> battery_effect list" where
  "link_lost l =
    (if battery_messages_timeout l = 0
     then [ORB_STATE RET_ERROR_INVALID_STATE ''battery link lost, not inserted?''] else [])"

text \<open>
  What the link watch should do: count the turns in which the battery is missing and the rail is
  low, from the last turn with a message of the battery, and announce the shutdown from turn
  \<open>removed\<close> on until an announcement is accepted. The pair is the count and whether the
  shutdown has been announced.
\<close>

type_synonym absence = "nat \<times> bool"

fun absence_step :: "nat \<Rightarrow> bool \<Rightarrow> bool \<Rightarrow> ret_code_t \<Rightarrow> absence \<Rightarrow> absence" where
  "absence_step removed heard low ret (n, sent) =
    (if heard then (0, False)
     else if low then (Suc n, if removed \<le> Suc n \<and> \<not> sent then ret = RET_SUCCESS else sent)
     else (n, sent))"

definition link_absence :: "u32 \<Rightarrow> battery_link \<Rightarrow> absence \<Rightarrow> bool" where
  "link_absence period l a \<longleftrightarrow>
    battery_messages_timeout l = period * of_nat (fst a) \<and> (shutdown_scheduled_sent l = RET_SUCCESS \<longleftrightarrow> snd a)"

text \<open>Effects that neither force a reboot nor announce one.\<close>

definition quiet :: "battery_effect list \<Rightarrow> bool" where
  "quiet es \<longleftrightarrow> REBOOT 0 \<notin> set es \<and> (\<forall>m. PUBLISH (PUB_SHUTDOWN_BATTERY_REMOVED m) \<notin> set es)"

lemma quiet_simps [simp]:
  "quiet []" "quiet (es @ es') \<longleftrightarrow> quiet es \<and> quiet es'"
  "quiet (e # es) \<longleftrightarrow> e \<noteq> REBOOT 0 \<and> (\<forall>m. e \<noteq> PUBLISH (PUB_SHUTDOWN_BATTERY_REMOVED m)) \<and> quiet es"
  by (auto simp: quiet_def)

lemma quiet_reboot [simp]: "quiet es \<Longrightarrow> REBOOT 0 \<notin> set es"
  by (simp add: quiet_def)

lemma quiet_check [simp]: "quiet (check_battery_voltage mv)"
  by (simp add: check_battery_voltage_def)

lemma quiet_link [simp]: "quiet (link_lost l)" "quiet (fst (link_alive l))"
  by (simp_all add: link_lost_def link_alive_def)

text \<open>The announcements among the effects.\<close>

definition announced :: "battery_effect list \<Rightarrow> u32 set" where
  "announced es = {m. PUBLISH (PUB_SHUTDOWN_BATTERY_REMOVED m) \<in> set es}"

lemma announced_simps [simp]:
  "announced [] = {}" "announced (es @ es') = announced es \<union> announced es'"
  "quiet es \<Longrightarrow> announced es = {}"
  "announced [PUBLISH (PUB_SHUTDOWN_BATTERY_REMOVED m)] = {m}" "announced [REBOOT n] = {}"
  by (auto simp: announced_def quiet_def)

lemma word_of_count_le:
  assumes "n * p < 2 ^ 32" "m * p < 2 ^ 32" "0 < p"
  shows "of_nat p * of_nat m \<le> (of_nat p * of_nat n :: u32) \<longleftrightarrow> m \<le> n"
proof -
  have "unat (of_nat (p * m) :: u32) = p * m" "unat (of_nat (p * n) :: u32) = p * n"
    using assms by (simp_all add: unat_of_nat take_bit_nat_eq_self mult.commute del: of_nat_mult)
  then show ?thesis using assms(3) by (simp add: word_le_nat_alt flip: of_nat_mult)
qed

end
