(* ===== verification/Battery_Ruby.thy ===== *)
theory Battery_Ruby
  imports Battery_Common
begin

text \<open>
  The battery of Pearl (\<^verbatim>\<open>battery_ruby.c\<close>): CAN messages the battery sends on its own, messages it
  sends on request, the thread that passes everything on to the Jetson every 1.1 seconds and
  reboots the system when the battery is gone, and the initialization. A message is kept as
  the bytes of its frame, as the packed structures of \<^verbatim>\<open>battery_can.h\<close> alias them.
\<close>

subsection \<open>Messages of the battery\<close>

definition battery_messages :: "(nat \<times> nat) list" where
  "battery_messages =
    [(0x400, 1), (0x410, 6), (0x411, 6), (0x412, 8), (0x414, 8), (0x415, 4), (0x490, 8), (0x491, 8), (0x492, 8),
     (0x499, 6), (0x522, 4), (0x523, 8), (0x524, 4), (0x525, 8)]"

datatype can_state = CAN_STATE_ERROR_ACTIVE | CAN_STATE_ERROR_WARNING | CAN_STATE_ERROR_PASSIVE | CAN_STATE_BUS_OFF | CAN_STATE_STOPPED

record ruby =
  can_data :: "nat \<Rightarrow> u8 list"
  can_received :: "nat \<Rightarrow> bool"
  can_controller_state :: can_state
  can_controller_state_changed :: bool
  battery_cap_percentage :: nat
  battery_is_charging :: bool
  publish_battery_info_request :: bool
  request_battery_info_left_attempts :: nat
  battery_mcu_id_request_pending :: bool
  ruby_link :: battery_link
  ruby_filters :: "nat list"
  ruby_thread :: bool

definition BATTERY_ID_REQUEST_ATTEMPTS :: nat where "BATTERY_ID_REQUEST_ATTEMPTS = 3"

definition ruby_zero :: ruby where
  "ruby_zero =
    \<lparr>can_data = (\<lambda>i. case map_of battery_messages i of None \<Rightarrow> [] | Some n \<Rightarrow> replicate n 0),
     can_received = (\<lambda>_. False), can_controller_state = CAN_STATE_STOPPED, can_controller_state_changed = False,
     battery_cap_percentage = 0, battery_is_charging = False, publish_battery_info_request = False,
     request_battery_info_left_attempts = BATTERY_ID_REQUEST_ATTEMPTS, battery_mcu_id_request_pending = False,
     ruby_link = \<lparr>corded_power_supply = False, battery_messages_timeout = 0,
                  shutdown_scheduled_sent = RET_ERROR_NOT_INITIALIZED\<rparr>,
     ruby_filters = [], ruby_thread = False\<rparr>"

text \<open>Interrupts: a frame that passed the filters, or a change of the state of the controller.\<close>

datatype can_irq = CAN_FRAME nat "u8 list" | CAN_STATE_CHANGE can_state

definition message_checker :: "nat \<Rightarrow> u8 list \<Rightarrow> ruby \<Rightarrow> ruby" where
  "message_checker can_id bytes s =
    (case map_of battery_messages can_id of
       None \<Rightarrow> s
     | Some msg_len \<Rightarrow>
         if length bytes = msg_len
         then s\<lparr>can_data := (can_data s)(can_id := bytes), can_received := (can_received s)(can_id := True)\<rparr>
         else s)"

fun ruby_irq :: "can_irq \<Rightarrow> ruby \<Rightarrow> ruby" where
  "ruby_irq (CAN_FRAME can_id bytes) s = message_checker can_id bytes s"
| "ruby_irq (CAN_STATE_CHANGE st) s = s\<lparr>can_controller_state_changed := True, can_controller_state := st\<rparr>"

definition ruby_irqs :: "can_irq list \<Rightarrow> ruby \<Rightarrow> ruby" where
  "ruby_irqs evs s = fold ruby_irq evs s"

text \<open>The fields of the packed structures.\<close>

definition u8_at :: "nat \<Rightarrow> nat \<Rightarrow> ruby \<Rightarrow> u8" where "u8_at can_id i s = can_data s can_id ! i"
definition u16_at :: "nat \<Rightarrow> nat \<Rightarrow> ruby \<Rightarrow> u16" where
  "u16_at can_id i s = u16_of (can_data s can_id ! i) (can_data s can_id ! (i + 1))"
definition i16_at :: "nat \<Rightarrow> nat \<Rightarrow> ruby \<Rightarrow> int" where "i16_at can_id i s = sint (u16_at can_id i s)"
definition u24_at :: "nat \<Rightarrow> nat \<Rightarrow> ruby \<Rightarrow> u32" where
  "u24_at can_id i s = ucast (u16_at can_id i s) OR push_bit 16 (ucast (u8_at can_id (i + 2) s))"
definition u32_at :: "nat \<Rightarrow> nat \<Rightarrow> ruby \<Rightarrow> u32" where "u32_at can_id i s = u32_of (drop i (can_data s can_id))"

definition cell_voltages :: "ruby \<Rightarrow> int list" where
  "cell_voltages s = map (\<lambda>k. i16_at 0x414 (2 * k) s) [0..<4]"

definition clear_can_message_buffers :: "ruby \<Rightarrow> ruby" where
  "clear_can_message_buffers s =
    s\<lparr>can_data := (\<lambda>i. if i \<in> {0x410, 0x411, 0x412, 0x414, 0x415, 0x490, 0x491, 0x492, 0x499, 0x522, 0x523, 0x524, 0x525}
                       then map (\<lambda>_. 0) (can_data s i) else can_data s i),
      can_received := (\<lambda>i. if i \<in> {0x410, 0x411, 0x412, 0x414, 0x415, 0x499, 0x522, 0x523, 0x524, 0x525}
                           then False else can_received s i)\<rparr>"

subsection \<open>Requests\<close>

text \<open>
  The inputs of one request: what sending returns, whether the transmission has completed at each
  millisecond and the change of the controller state then.
\<close>

datatype can_send_result = CAN_SENT | CAN_ENETUNREACH | CAN_EAGAIN | CAN_SEND_ERROR

record rtr_inputs =
  rtr_send :: can_send_result
  rtr_completed :: "nat \<Rightarrow> bool"
  rtr_state :: "nat \<Rightarrow> can_state option"

text \<open>The wait for the end of the transmission; \<open>t\<close> is the rest of the timeout in milliseconds.\<close>

function rtr_wait :: "rtr_inputs \<Rightarrow> nat \<Rightarrow> ruby \<Rightarrow> ret_code_t \<times> battery_effect list \<times> ruby" where
  "rtr_wait inp t s =
    (if rtr_completed inp (100 - t) then (RET_SUCCESS, [], s)
     else
      let t1 = t - 1;
          s1 = (case rtr_state inp (100 - t) of None \<Rightarrow> s | Some st \<Rightarrow> ruby_irq (CAN_STATE_CHANGE st) s);
          changed = can_controller_state_changed s1;
          s2 = s1\<lparr>can_controller_state_changed := False\<rparr>
      in if changed \<and> can_controller_state s2 = CAN_STATE_BUS_OFF then (RET_ERROR_INTERNAL, [CAN_RESTART], s2)
         else if t1 = 0 then (RET_ERROR_INTERNAL, [CAN_RESTART], s2)
         else rtr_wait inp t1 s2)"
  by auto
termination
  by (relation "measure (\<lambda>(_, t, _). t)") auto

declare rtr_wait.simps [simp del]

definition send_rtr_message :: "rtr_inputs \<Rightarrow> nat \<Rightarrow> ruby \<Rightarrow> ret_code_t \<times> battery_effect list \<times> ruby" where
  "send_rtr_message inp message_id s =
    (if rtr_send inp \<noteq> CAN_SENT then
       (RET_ERROR_INTERNAL, if rtr_send inp = CAN_ENETUNREACH \<or> rtr_send inp = CAN_EAGAIN then [CAN_RESTART] else [], s)
     else
      let (ret, effs, s1) = rtr_wait inp 100 s in (ret, RTR message_id # effs, s1))"

text \<open>\<open>inp k\<close>: the inputs of request \<open>k\<close>; the loop stops at the first that fails.\<close>

fun request_battery_info_from :: "(nat \<Rightarrow> rtr_inputs) \<Rightarrow> nat list \<Rightarrow> ruby \<Rightarrow> ret_code_t \<times> battery_effect list \<times> ruby" where
  "request_battery_info_from inp [] s = (RET_SUCCESS, [], s)"
| "request_battery_info_from inp (can_id # ids) s =
    (let (ret, effs, s1) = send_rtr_message (inp can_id) can_id s
     in if ret \<noteq> RET_SUCCESS then (ret, effs, s1)
        else let (ret', effs', s2) = request_battery_info_from inp ids s1 in (ret', effs @ effs', s2))"

definition request_battery_info :: "(nat \<Rightarrow> rtr_inputs) \<Rightarrow> ruby \<Rightarrow> ret_code_t \<times> battery_effect list \<times> ruby" where
  "request_battery_info inp s = request_battery_info_from inp [0x522, 0x523, 0x524, 0x525] s"

subsection \<open>What is published\<close>

definition publish_battery_diagnostics :: "ruby \<Rightarrow> battery_effect list" where
  "publish_battery_diagnostics s =
    (if can_received s 0x410 \<and> can_received s 0x411 \<and> can_received s 0x412 \<and> can_received s 0x415 \<and> can_received s 0x499 then
       [PUBLISH (PUB_DIAG_COMMON
          \<lparr>diag_flags = u8_at 0x499 4 s, bq769_control_status = u16_at 0x410 0 s, battery_status = u16_at 0x410 2 s,
           fet_status = u8_at 0x410 4 s, balancer_state = u8_at 0x410 5 s, diag_current_ma = i16_at 0x415 0 s\<rparr>),
        PUBLISH (PUB_DIAG_SAFETY (map (\<lambda>i. u8_at 0x411 i s) [0..<6])),
        PUBLISH (PUB_DIAG_PERMANENT_FAIL (map (\<lambda>i. u8_at 0x412 i s) [0..<8]))]
     else [])"

text \<open>
  \<^verbatim>\<open>strtol\<close> with base 16 and a 32-bit \<^verbatim>\<open>long\<close>: white space, a sign, the prefix 0x, then digits; values out of
  range are replaced by the nearest. The string is not terminated: the model reads its eight bytes.
\<close>

fun hex_digits :: "nat \<Rightarrow> u8 list \<Rightarrow> nat" where
  "hex_digits acc [] = acc"
| "hex_digits acc (c # cs) = (case hex_digit c of None \<Rightarrow> acc | Some d \<Rightarrow> hex_digits (16 * acc + d) cs)"

definition strtol_16 :: "u8 list \<Rightarrow> int" where
  "strtol_16 bs =
    (let cs = dropWhile is_space bs;
         neg = (cs \<noteq> [] \<and> hd cs = 45);
         cs1 = (if cs \<noteq> [] \<and> (hd cs = 43 \<or> hd cs = 45) then tl cs else cs);
         cs2 = (if 3 \<le> length cs1 \<and> cs1 ! 0 = 48 \<and> (cs1 ! 1 = 120 \<or> cs1 ! 1 = 88) \<and> hex_digit (cs1 ! 2) \<noteq> None
                then drop 2 cs1 else cs1);
         v = int (hex_digits 0 cs2)
     in if neg then max (- (2 ^ 31)) (- v) else min (2 ^ 31 - 1) v)"

definition battery_commit_hash :: "ruby \<Rightarrow> u32" where
  "battery_commit_hash s = word_of_int (strtol_16 (can_data s 0x523))"

definition battery_mcu_id :: "ruby \<Rightarrow> u8 list" where
  "battery_mcu_id s = u32_bytes (u32_at 0x524 0 s) @ u32_bytes (u32_at 0x525 0 s) @ u32_bytes (u32_at 0x525 4 s)"

text \<open>The hardware version is \<open>None\<close> while it is undetected; likewise the states of charge.\<close>

definition publish_battery_info :: "ruby \<Rightarrow> battery_effect list" where
  "publish_battery_info s =
    [PUBLISH (PUB_INFO_HW_FW
       \<lparr>mcu_id = battery_mcu_id s,
        info_hw_version =
          (if can_received s 0x522 then Some (u8_at 0x522 0 s)
           else if can_received s 0x491 then Some (u8_at 0x491 7 s) else None),
        fw_version = (unat (u8_at 0x522 1 s), unat (u8_at 0x522 2 s), unat (u8_at 0x522 3 s), battery_commit_hash s)\<rparr>),
     PUBLISH (PUB_INFO_SOC
       \<lparr>soc_state = (if can_received s 0x492 then Some (u8_at 0x492 0 s, u8_at 0x492 1 s) else None),
        number_of_charges = unat (u16_at 0x490 0 s), number_of_written_flash_variables = u24_at 0x491 4 s,
        number_of_button_presses = u24_at 0x492 2 s, number_of_insertions = u24_at 0x492 5 s\<rparr>),
     PUBLISH (PUB_INFO_MAX_VALUES
       \<lparr>maximum_capacity_mah = unat (u16_at 0x490 2 s), maximum_cell_temp_decidegrees = unat (u16_at 0x490 4 s),
        maximum_pcb_temp_decidegrees = unat (u16_at 0x490 6 s), maximum_charge_current_ma = unat (u16_at 0x491 0 s),
        maximum_discharge_current_ma = int (unat (u16_at 0x491 2 s))\<rparr>)]"

subsection \<open>The thread\<close>

text \<open>
  The inputs of a turn: the interrupts before it, the battery rail at the two places where it is
  measured, the interrupts before the flag of the voltage message is read and cleared, whether
  the Jetson is connected, the inputs of the requests, and what publishing the shutdown returns.
\<close>

record ruby_turn =
  turn_irqs :: "can_irq list"
  turn_vbat_corded :: "ret_code_t + int"
  turn_late_irqs :: "can_irq list"
  turn_started :: bool
  turn_rtr :: "nat \<Rightarrow> rtr_inputs"
  turn_vbat :: "ret_code_t + int"
  turn_shutdown :: ret_code_t

definition ruby_check_can_state :: "ruby \<Rightarrow> battery_effect list \<times> ruby" where
  "ruby_check_can_state s =
    (if can_controller_state_changed s
     then (if can_controller_state s = CAN_STATE_BUS_OFF then [CAN_RESTART] else [], s\<lparr>can_controller_state_changed := False\<rparr>)
     else ([], s))"

text \<open>
  On a corded supply the whole structure is assigned from the cell voltages, which clears the
  voltage of the supply.
\<close>

definition ruby_voltages :: "ret_code_t + int \<Rightarrow> ruby \<Rightarrow> battery_effect list" where
  "ruby_voltages vbat s =
    (if can_received s 0x414 then
       check_battery_voltage (sum_list (cell_voltages s)) @
       [PUBLISH (PUB_VOLTAGE \<lparr>corded_power_supply_mv = 0, battery_cells_mv = cell_voltages s\<rparr>)]
     else if corded_power_supply (ruby_link s) then
       (case vbat of
          Inl _ \<Rightarrow> []
        | Inr mv \<Rightarrow> [PUBLISH (PUB_VOLTAGE \<lparr>corded_power_supply_mv = 0, battery_cells_mv = cells_quarter mv\<rparr>)])
     else [])"

definition ruby_capacity :: "ruby \<Rightarrow> battery_effect list \<times> ruby" where
  "ruby_capacity s =
    (if can_received s 0x499 then
       (let soc = unat (u8_at 0x499 5 s); charging = bit (u8_at 0x499 4 s) 3;
            s1 = (if battery_cap_percentage s \<noteq> soc
                  then s\<lparr>request_battery_info_left_attempts := BATTERY_ID_REQUEST_ATTEMPTS\<rparr> else s);
            s2 = s1\<lparr>battery_cap_percentage := soc, battery_is_charging := charging\<rparr>
        in ([PUBLISH (PUB_CAPACITY soc), PUBLISH (PUB_IS_CHARGING charging),
             TEMPERATURE_REPORT BATTERY_PCB (c_div (i16_at 0x499 0 s) 10),
             TEMPERATURE_REPORT BATTERY_PACK (c_div (i16_at 0x499 2 s) 10)], s2))
     else if corded_power_supply (ruby_link s) then
       ([PUBLISH (PUB_CAPACITY 100), PUBLISH (PUB_IS_CHARGING True)],
        s\<lparr>battery_cap_percentage := 100, battery_is_charging := True\<rparr>)
     else ([], s))"

definition ruby_cell_temperature :: "ruby \<Rightarrow> battery_effect list" where
  "ruby_cell_temperature s =
    (if can_received s 0x415 then [TEMPERATURE_REPORT BATTERY_CELL (c_div (i16_at 0x415 2 s) 10)] else [])"

definition ruby_info :: "ruby \<Rightarrow> battery_effect list \<times> ruby" where
  "ruby_info s =
    (if publish_battery_info_request s
     then (publish_battery_info s, s\<lparr>publish_battery_info_request := False\<rparr>) else ([], s))"

definition ruby_reset_reason :: "ruby \<Rightarrow> battery_effect list \<times> ruby" where
  "ruby_reset_reason s =
    (if can_received s 0x400
     then ([PUBLISH (PUB_RESET_REASON (u8_at 0x400 0 s))], s\<lparr>can_received := (can_received s)(0x400 := False)\<rparr>)
     else ([], s))"

definition ruby_answers :: "ruby \<Rightarrow> ruby" where
  "ruby_answers s =
    (if can_received s 0x522 \<and> can_received s 0x523 \<and> can_received s 0x524 \<and> can_received s 0x525
     then s\<lparr>can_received := (can_received s)(0x522 := False, 0x523 := False, 0x524 := False, 0x525 := False),
            request_battery_info_left_attempts := 0, battery_mcu_id_request_pending := False,
            publish_battery_info_request := True\<rparr>
     else s)"

definition ruby_no_answer :: "ruby \<Rightarrow> ruby" where
  "ruby_no_answer s =
    (if battery_mcu_id_request_pending s \<and> request_battery_info_left_attempts s = 0
     then s\<lparr>battery_mcu_id_request_pending := False, publish_battery_info_request := True\<rparr> else s)"

definition ruby_request :: "bool \<Rightarrow> (nat \<Rightarrow> rtr_inputs) \<Rightarrow> ruby \<Rightarrow> battery_effect list \<times> ruby" where
  "ruby_request started rtr s =
    (if request_battery_info_left_attempts s \<noteq> 0 \<and> started then
       (let s1 = (clear_can_message_buffers s)\<lparr>battery_mcu_id_request_pending := True\<rparr>;
            (_, effs, s2) = request_battery_info rtr s1
        in (effs, s2\<lparr>request_battery_info_left_attempts := request_battery_info_left_attempts s2 - 1\<rparr>))
     else ([], s))"

definition BATTERY_INFO_SEND_PERIOD_MS :: u32 where "BATTERY_INFO_SEND_PERIOD_MS = 1100"
definition BATTERY_MESSAGES_REMOVED_TIMEOUT_MS :: u32 where "BATTERY_MESSAGES_REMOVED_TIMEOUT_MS = BATTERY_INFO_SEND_PERIOD_MS * 3"
definition BATTERY_MESSAGES_FORCE_REBOOT_TIMEOUT_MS :: u32 where
  "BATTERY_MESSAGES_FORCE_REBOOT_TIMEOUT_MS = BATTERY_INFO_SEND_PERIOD_MS * 10"

text \<open>Without a message from the battery: \<open>vbat\<close> is the voltage of the rail, \<open>sent\<close> what publishing the shutdown returns.\<close>

definition vbat_low :: "ret_code_t + int \<Rightarrow> bool" where
  "vbat_low vbat = (case vbat of Inl _ \<Rightarrow> True | Inr mv \<Rightarrow> mv < BATTERY_MINIMUM_VOLTAGE_RUNTIME_MV)"

definition vbat_above_startup :: "ret_code_t + int \<Rightarrow> bool" where
  "vbat_above_startup vbat = (case vbat of Inl _ \<Rightarrow> False | Inr mv \<Rightarrow> mv > BATTERY_MINIMUM_VOLTAGE_STARTUP_MV)"

definition ruby_removed :: "ret_code_t \<Rightarrow> battery_link \<Rightarrow> battery_effect list \<times> battery_link" where
  "ruby_removed sent l =
    (let timeout = battery_messages_timeout l + BATTERY_INFO_SEND_PERIOD_MS;
         announce = (timeout \<ge> BATTERY_MESSAGES_REMOVED_TIMEOUT_MS \<and> shutdown_scheduled_sent l \<noteq> RET_SUCCESS)
     in ((if announce then [PUBLISH (PUB_SHUTDOWN_BATTERY_REMOVED (BATTERY_MESSAGES_FORCE_REBOOT_TIMEOUT_MS - timeout))] else []) @
         (if timeout \<ge> BATTERY_MESSAGES_FORCE_REBOOT_TIMEOUT_MS then [REBOOT 0] else []),
         l\<lparr>battery_messages_timeout := timeout,
           shutdown_scheduled_sent := (if announce then sent else shutdown_scheduled_sent l)\<rparr>))"

definition ruby_link_lost :: "ret_code_t + int \<Rightarrow> ret_code_t \<Rightarrow> ruby \<Rightarrow> battery_effect list \<times> ruby" where
  "ruby_link_lost vbat sent s =
    (if vbat_low vbat then
       (let (effs, l) = ruby_removed sent (ruby_link s)
        in (link_lost (ruby_link s) @ effs,
            s\<lparr>ruby_link := l, request_battery_info_left_attempts := BATTERY_ID_REQUEST_ATTEMPTS\<rparr>))
     else if vbat_above_startup vbat \<and> \<not> corded_power_supply (ruby_link s)
     then (link_lost (ruby_link s) @ [ORB_STATE RET_SUCCESS ''corded''], s\<lparr>ruby_link := (ruby_link s)\<lparr>corded_power_supply := True\<rparr>\<rparr>)
     else (link_lost (ruby_link s), s))"

definition ruby_link_check :: "ruby_turn \<Rightarrow> ruby \<Rightarrow> battery_effect list \<times> ruby" where
  "ruby_link_check t s =
    (let got = can_received s 0x414; s1 = s\<lparr>can_received := (can_received s)(0x414 := False)\<rparr>
     in if got then
          (let (effs, s2) = ruby_request (turn_started t) (turn_rtr t) s1; (effs', l) = link_alive (ruby_link s2)
           in (effs @ effs', s2\<lparr>ruby_link := l\<rparr>))
        else ruby_link_lost (turn_vbat t) (turn_shutdown t) s1)"

definition battery_rx_turn :: "ruby_turn \<Rightarrow> ruby \<Rightarrow> battery_effect list \<times> ruby" where
  "battery_rx_turn t s =
    (let (e1, s1) = ruby_check_can_state (ruby_irqs (turn_irqs t) s);
         e2 = ruby_voltages (turn_vbat_corded t) s1;
         (e3, s2) = ruby_capacity s1;
         e4 = ruby_cell_temperature s2 @ publish_battery_diagnostics s2;
         (e5, s3) = ruby_info s2;
         (e6, s4) = ruby_reset_reason s3;
         s5 = ruby_irqs (turn_late_irqs t) (ruby_no_answer (ruby_answers s4));
         (e7, s6) = ruby_link_check t s5
     in (e1 @ e2 @ e3 @ e4 @ e5 @ e6 @ e7, s6))"

fun battery_rx_run :: "ruby_turn list \<Rightarrow> ruby \<Rightarrow> battery_effect list \<times> ruby" where
  "battery_rx_run [] s = ([], s)"
| "battery_rx_run (t # ts) s =
    (let (e, s1) = battery_rx_turn t s; (es, s2) = battery_rx_run ts s1 in (e @ es, s2))"

subsection \<open>Initialization\<close>

record ruby_init_inputs =
  ri_ready :: bool
  ri_filters :: "nat \<Rightarrow> int"
  ri_start :: int
  ri_irqs :: "nat \<Rightarrow> can_irq list"
  ri_vbat :: "ret_code_t + int"

text \<open>Filters are added until one is refused.\<close>

fun setup_filters :: "(nat \<Rightarrow> int) \<Rightarrow> (nat \<times> nat) list \<Rightarrow> nat list \<Rightarrow> ret_code_t \<times> nat list" where
  "setup_filters add [] fs = (RET_SUCCESS, fs)"
| "setup_filters add ((can_id, len) # ms) fs =
    (if add can_id < 0 then (RET_ERROR_INTERNAL, fs) else setup_filters add ms (fs @ [can_id]))"

text \<open>
  The polls for the voltage, \<open>n\<close> of them at most: the last voltage, capacity and whether a voltage
  message has arrived. \<open>irqs k\<close> are the interrupts before poll \<open>k\<close>.
\<close>

definition startup_ok :: "u32 \<Rightarrow> nat \<Rightarrow> bool" where
  "startup_ok mv soc \<longleftrightarrow>
    mv \<ge> word_of_int BATTERY_MINIMUM_VOLTAGE_STARTUP_MV \<and> soc \<ge> BATTERY_MINIMUM_CAPACITY_STARTUP_PERCENT"

fun await_battery :: "(nat \<Rightarrow> can_irq list) \<Rightarrow> nat \<Rightarrow> nat \<Rightarrow> u32 \<times> nat \<times> bool \<Rightarrow> ruby \<Rightarrow> (u32 \<times> nat \<times> bool) \<times> ruby" where
  "await_battery irqs 0 k v s = (v, s)"
| "await_battery irqs (Suc n) k v s =
    (let s1 = ruby_irqs (irqs k) s; mv = word_of_int (sum_list (cell_voltages s1)); soc = unat (u8_at 0x499 5 s1)
     in if startup_ok mv soc then ((mv, soc, can_received s1 0x414), s1)
        else await_battery irqs n (k + 1) (mv, soc, can_received s1 0x414) s1)"

definition ruby_corded :: "ruby \<Rightarrow> ruby" where
  "ruby_corded s =
    s\<lparr>ruby_link := (ruby_link s)\<lparr>corded_power_supply := True\<rparr>,
      can_data := (can_data s)(0x414 := concat (replicate 4 (u16_bytes 4000)), 0x499 := (can_data s 0x499)[5 := 100]),
      can_received := (can_received s)(0x414 := True, 0x499 := True)\<rparr>"

definition battery_init :: "ruby_init_inputs \<Rightarrow> ruby \<Rightarrow> ret_code_t option \<times> battery_effect list \<times> ruby" where
  "battery_init inp s =
    (if \<not> ri_ready inp then (Some RET_ERROR_INVALID_STATE, [], s)
     else
      let (ret, fs) = setup_filters (ri_filters inp) battery_messages (ruby_filters s); s1 = s\<lparr>ruby_filters := fs\<rparr> in
      if ret \<noteq> RET_SUCCESS then (Some RET_ERROR_INTERNAL, [], s1)
      else if ri_start inp \<noteq> 0 then (Some RET_ERROR_INTERNAL, [], s1)
      else
       let ((mv, soc, got), s2) = await_battery (ri_irqs inp) 20 0 (0, 0, False) s1;
           full_voltage_mv = (if got then mv else (case ri_vbat inp of Inl _ \<Rightarrow> mv | Inr v \<Rightarrow> word_of_int v));
           corded = (\<not> got \<and> full_voltage_mv \<ge> word_of_int BATTERY_MINIMUM_VOLTAGE_STARTUP_MV);
           s3 = (if corded then ruby_corded s2 else s2);
           capacity = (if corded then 100 else soc);
           effs = (if corded then [ORB_STATE RET_SUCCESS ''corded''] else if got then [ORB_STATE RET_SUCCESS ''battery comm ok''] else [])
       in if \<not> startup_ok full_voltage_mv capacity
          then (None, effs @ [LOW_BATTERY_LEDS, SYSTEM_RESET], s3)
          else (Some RET_SUCCESS, effs, s3\<lparr>ruby_thread := True\<rparr>))"

subsection \<open>Frames of the parts of a turn\<close>

lemma ruby_irq_frame [simp]:
  "ruby_link (ruby_irq e s) = ruby_link s"
  "publish_battery_info_request (ruby_irq e s) = publish_battery_info_request s"
  by (cases e; simp add: message_checker_def split: option.splits)+

lemma ruby_irqs_frame [simp]:
  "ruby_link (ruby_irqs evs s) = ruby_link s"
  "publish_battery_info_request (ruby_irqs evs s) = publish_battery_info_request s"
  unfolding ruby_irqs_def by (induction evs arbitrary: s) simp_all

text \<open>A message is received when a frame with its identifier and size arrives.\<close>

fun is_frame :: "nat \<Rightarrow> can_irq \<Rightarrow> bool" where
  "is_frame can_id (CAN_FRAME i bytes) \<longleftrightarrow> i = can_id \<and> map_of battery_messages i = Some (length bytes)"
| "is_frame can_id (CAN_STATE_CHANGE st) \<longleftrightarrow> False"

lemma ruby_irqs_received: "can_received (ruby_irqs evs s) i \<longleftrightarrow> can_received s i \<or> list_ex (is_frame i) evs"
proof -
  have "can_received (ruby_irq e s) i \<longleftrightarrow> can_received s i \<or> is_frame i e" for e s
    by (cases e) (auto simp: message_checker_def split: option.splits)
  then show ?thesis unfolding ruby_irqs_def by (induction evs arbitrary: s) auto
qed

lemma ruby_parts_frame [simp]:
  "ruby_link (snd (ruby_check_can_state s)) = ruby_link s" "can_received (snd (ruby_check_can_state s)) = can_received s"
  "ruby_link (snd (ruby_capacity s)) = ruby_link s" "can_received (snd (ruby_capacity s)) = can_received s"
  "ruby_link (snd (ruby_info s)) = ruby_link s" "can_received (snd (ruby_info s)) = can_received s"
  "ruby_link (snd (ruby_reset_reason s)) = ruby_link s"
  "ruby_link (ruby_answers s) = ruby_link s" "ruby_link (ruby_no_answer s) = ruby_link s"
  "can_received (ruby_no_answer s) = can_received s"
  by (simp_all add: ruby_check_can_state_def ruby_capacity_def ruby_info_def ruby_reset_reason_def ruby_answers_def
      ruby_no_answer_def Let_def)

lemma ruby_parts_414 [simp]:
  "can_received (snd (ruby_reset_reason s)) 0x414 = can_received s 0x414"
  "can_received (ruby_answers s) 0x414 = can_received s 0x414"
  by (simp_all add: ruby_reset_reason_def ruby_answers_def)

lemma ruby_parts_quiet [simp]:
  "quiet (fst (ruby_check_can_state s))" "quiet (ruby_voltages vbat s)" "quiet (fst (ruby_capacity s))"
  "quiet (ruby_cell_temperature s)" "quiet (publish_battery_diagnostics s)" "quiet (fst (ruby_info s))"
  "quiet (fst (ruby_reset_reason s))"
  by (auto simp: ruby_check_can_state_def ruby_voltages_def ruby_capacity_def ruby_cell_temperature_def
      publish_battery_diagnostics_def ruby_info_def publish_battery_info_def ruby_reset_reason_def Let_def split: sum.splits)

lemma rtr_wait_frame:
  "quiet (fst (snd (rtr_wait inp t s))) \<and> ruby_link (snd (snd (rtr_wait inp t s))) = ruby_link s \<and>
    can_received (snd (snd (rtr_wait inp t s))) = can_received s"
proof (induction inp t s rule: rtr_wait.induct)
  case (1 inp t s)
  then show ?case
    by (subst (1 2 3) rtr_wait.simps) (simp add: Let_def split: option.splits)
qed

lemma request_frame:
  "quiet (fst (snd (request_battery_info_from inp ids s))) \<and>
    ruby_link (snd (snd (request_battery_info_from inp ids s))) = ruby_link s \<and>
    can_received (snd (snd (request_battery_info_from inp ids s))) = can_received s"
proof (induction ids arbitrary: s)
  case (Cons i ids)
  have "quiet (fst (snd (send_rtr_message (inp i) i s)))"
    "ruby_link (snd (snd (send_rtr_message (inp i) i s))) = ruby_link s"
    "can_received (snd (snd (send_rtr_message (inp i) i s))) = can_received s"
    using rtr_wait_frame [of "inp i" 100 s] by (auto simp: send_rtr_message_def split_def Let_def)
  then show ?case using Cons.IH [of "snd (snd (send_rtr_message (inp i) i s))"] by (simp add: Let_def split_def)
qed simp

lemma request_info_frame [simp]:
  "quiet (fst (snd (request_battery_info inp s)))"
  "ruby_link (snd (snd (request_battery_info inp s))) = ruby_link s"
  "can_received (snd (snd (request_battery_info inp s))) = can_received s"
  unfolding request_battery_info_def using request_frame by blast+

lemma ruby_request_frame [simp]:
  "quiet (fst (ruby_request started rtr s))" "ruby_link (snd (ruby_request started rtr s)) = ruby_link s"
  "\<not> can_received s 0x414 \<Longrightarrow> \<not> can_received (snd (ruby_request started rtr s)) 0x414"
  by (simp_all add: ruby_request_def clear_can_message_buffers_def Let_def split_def)

subsection \<open>A battery that is gone\<close>

definition heard :: "ruby_turn \<Rightarrow> bool" where
  "heard t \<longleftrightarrow> list_ex (is_frame 0x414) (turn_irqs t @ turn_late_irqs t)"

lemma turn_link:
  assumes "battery_rx_turn t s = (es, s')"
  obtains s5 where "ruby_link s5 = ruby_link s" "can_received s5 0x414 \<longleftrightarrow> can_received s 0x414 \<or> heard t"
    "s' = snd (ruby_link_check t s5)" "announced es = announced (fst (ruby_link_check t s5))"
    "REBOOT 0 \<in> set es \<longleftrightarrow> REBOOT 0 \<in> set (fst (ruby_link_check t s5))"
proof -
  define s1 where "s1 = snd (ruby_check_can_state (ruby_irqs (turn_irqs t) s))"
  define s2 where "s2 = snd (ruby_capacity s1)"
  define s3 where "s3 = snd (ruby_info s2)"
  define s4 where "s4 = snd (ruby_reset_reason s3)"
  define s5 where "s5 = ruby_irqs (turn_late_irqs t) (ruby_no_answer (ruby_answers s4))"
  define es' where "es' = fst (ruby_check_can_state (ruby_irqs (turn_irqs t) s)) @ ruby_voltages (turn_vbat_corded t) s1 @
    fst (ruby_capacity s1) @ (ruby_cell_temperature s2 @ publish_battery_diagnostics s2) @ fst (ruby_info s2) @
    fst (ruby_reset_reason s3)"
  have "es = es' @ fst (ruby_link_check t s5)" "s' = snd (ruby_link_check t s5)"
    using assms by (simp_all add: battery_rx_turn_def Let_def split_def es'_def s1_def s2_def s3_def s4_def s5_def)
  moreover have "quiet es'" by (simp add: es'_def)
  moreover have "ruby_link s5 = ruby_link s" by (simp add: s5_def s4_def s3_def s2_def s1_def)
  moreover have "can_received s5 0x414 \<longleftrightarrow> can_received s 0x414 \<or> heard t"
    by (auto simp: s5_def s4_def s3_def s2_def s1_def ruby_irqs_received heard_def)
  ultimately show thesis using that by (auto simp: quiet_def)
qed

text \<open>The watch of the link does what the count of missing turns says.\<close>

lemma ruby_removed_effect:
  assumes "link_absence BATTERY_INFO_SEND_PERIOD_MS l (n, sent)" "n < 3000000"
  shows "link_absence BATTERY_INFO_SEND_PERIOD_MS (snd (ruby_removed ret l)) (absence_step 3 False True ret (n, sent))"
    "REBOOT 0 \<in> set (fst (ruby_removed ret l)) \<longleftrightarrow> 10 \<le> Suc n"
    "announced (fst (ruby_removed ret l)) =
      (if 3 \<le> Suc n \<and> \<not> sent then {1100 * 10 - 1100 * of_nat (Suc n)} else {})"
proof -
  define w where "w = BATTERY_INFO_SEND_PERIOD_MS * of_nat (Suc n)"
  have sent: "shutdown_scheduled_sent l = RET_SUCCESS \<longleftrightarrow> sent" using assms(1) by (simp add: link_absence_def)
  have w: "battery_messages_timeout l + BATTERY_INFO_SEND_PERIOD_MS = w"
    using assms(1) by (simp add: w_def link_absence_def BATTERY_INFO_SEND_PERIOD_MS_def distrib_left)
  have "1100 * of_nat m \<le> w \<longleftrightarrow> m \<le> Suc n" if "m \<le> 10" for m
    using word_of_count_le [of "Suc n" 1100 m] assms(2) that
    by (simp add: w_def BATTERY_INFO_SEND_PERIOD_MS_def del: of_nat_Suc)
  from this [of 3] this [of 10]
  have le: "BATTERY_MESSAGES_REMOVED_TIMEOUT_MS \<le> w \<longleftrightarrow> 3 \<le> Suc n"
    "BATTERY_MESSAGES_FORCE_REBOOT_TIMEOUT_MS \<le> w \<longleftrightarrow> 10 \<le> Suc n"
    by (simp_all add: BATTERY_MESSAGES_REMOVED_TIMEOUT_MS_def BATTERY_MESSAGES_FORCE_REBOOT_TIMEOUT_MS_def
        BATTERY_INFO_SEND_PERIOD_MS_def)
  have eq: "BATTERY_MESSAGES_FORCE_REBOOT_TIMEOUT_MS - w = 1100 * 10 - 1100 * of_nat (Suc n)"
    by (simp add: w_def BATTERY_MESSAGES_FORCE_REBOOT_TIMEOUT_MS_def BATTERY_INFO_SEND_PERIOD_MS_def)
  show "link_absence BATTERY_INFO_SEND_PERIOD_MS (snd (ruby_removed ret l)) (absence_step 3 False True ret (n, sent))"
    using sent by (auto simp: ruby_removed_def Let_def w le link_absence_def w_def [symmetric] simp del: of_nat_Suc)
  show "REBOOT 0 \<in> set (fst (ruby_removed ret l)) \<longleftrightarrow> 10 \<le> Suc n"
    by (simp add: ruby_removed_def Let_def w le)
  show "announced (fst (ruby_removed ret l)) =
      (if 3 \<le> Suc n \<and> \<not> sent then {1100 * 10 - 1100 * of_nat (Suc n)} else {})"
    using sent by (simp add: ruby_removed_def Let_def w le eq del: of_nat_Suc)
qed

definition ruby_absence :: "ruby_turn list \<Rightarrow> absence \<Rightarrow> absence" where
  "ruby_absence ts a = fold (\<lambda>t. absence_step 3 (heard t) (vbat_low (turn_vbat t)) (turn_shutdown t)) ts a"

text \<open>A message that came before the first turn counts for it.\<close>

definition ruby_absence_from :: "bool \<Rightarrow> ruby_turn list \<Rightarrow> absence \<Rightarrow> absence" where
  "ruby_absence_from received ts a =
    (case ts of
       [] \<Rightarrow> a
     | t # ts' \<Rightarrow> ruby_absence ts' (absence_step 3 (received \<or> heard t) (vbat_low (turn_vbat t)) (turn_shutdown t) a))"

lemma ruby_turn_absence:
  assumes "battery_rx_turn t s = (es, s')" "link_absence BATTERY_INFO_SEND_PERIOD_MS (ruby_link s) (n, sent)" "n < 3000000"
    and h: "h \<longleftrightarrow> can_received s 0x414 \<or> heard t"
  shows "link_absence BATTERY_INFO_SEND_PERIOD_MS (ruby_link s') (absence_step 3 h (vbat_low (turn_vbat t)) (turn_shutdown t) (n, sent)) \<and>
    \<not> can_received s' 0x414 \<and>
    (REBOOT 0 \<in> set es \<longleftrightarrow> \<not> h \<and> vbat_low (turn_vbat t) \<and> 10 \<le> Suc n) \<and>
    announced es = (if \<not> h \<and> vbat_low (turn_vbat t) \<and> 3 \<le> Suc n \<and> \<not> sent then {1100 * 10 - 1100 * of_nat (Suc n)} else {})"
proof -
  obtain s5 where s5: "ruby_link s5 = ruby_link s" "can_received s5 0x414 \<longleftrightarrow> h"
    "s' = snd (ruby_link_check t s5)" "announced es = announced (fst (ruby_link_check t s5))"
    "REBOOT 0 \<in> set es \<longleftrightarrow> REBOOT 0 \<in> set (fst (ruby_link_check t s5))"
    using turn_link [OF assms(1)] h by metis
  have l: "link_absence BATTERY_INFO_SEND_PERIOD_MS (ruby_link s5) (n, sent)" using assms(2) s5(1) by simp
  show ?thesis
  proof (cases h)
    case True
    then show ?thesis using s5
      by (auto simp: ruby_link_check_def Let_def split_def link_alive_def link_absence_def)
  next
    case False
    then show ?thesis using s5 ruby_removed_effect [OF l assms(3), of "turn_shutdown t"] assms(2)
      by (auto simp: ruby_link_check_def ruby_link_lost_def Let_def split_def link_absence_def)
  qed
qed

lemma ruby_run_absence:
  assumes "link_absence BATTERY_INFO_SEND_PERIOD_MS (ruby_link s) a" "fst a + length ts < 3000000" "\<not> can_received s 0x414"
  shows "link_absence BATTERY_INFO_SEND_PERIOD_MS (ruby_link (snd (battery_rx_run ts s))) (ruby_absence ts a) \<and>
    \<not> can_received (snd (battery_rx_run ts s)) 0x414 \<and> fst (ruby_absence ts a) \<le> fst a + length ts"
  using assms
proof (induction ts arbitrary: s a)
  case (Cons t ts)
  obtain n sent where a: "a = (n, sent)" by (cases a)
  obtain es s1 where t: "battery_rx_turn t s = (es, s1)" by (cases "battery_rx_turn t s")
  have step: "link_absence BATTERY_INFO_SEND_PERIOD_MS (ruby_link s1) (ruby_absence [t] a)" "\<not> can_received s1 0x414"
    using ruby_turn_absence [OF t, of n sent "heard t"] Cons.prems unfolding a by (simp_all add: ruby_absence_def)
  have "fst (ruby_absence [t] a) \<le> Suc (fst a)" by (simp add: ruby_absence_def a)
  then show ?case using Cons.IH [OF step(1) _ step(2)] Cons.prems(2)
    by (auto simp: t Let_def split_def ruby_absence_def)
qed (simp add: ruby_absence_def)

lemma ruby_run_absence_from:
  assumes "link_absence BATTERY_INFO_SEND_PERIOD_MS (ruby_link s) (0, False)" "length ts < 2999999"
  shows "link_absence BATTERY_INFO_SEND_PERIOD_MS (ruby_link (snd (battery_rx_run ts s)))
      (ruby_absence_from (can_received s 0x414) ts (0, False)) \<and>
    can_received (snd (battery_rx_run ts s)) 0x414 = (ts = [] \<and> can_received s 0x414) \<and>
    fst (ruby_absence_from (can_received s 0x414) ts (0, False)) < 3000000"
proof (cases ts)
  case Nil
  then show ?thesis using assms(1) by (simp add: ruby_absence_from_def)
next
  case (Cons t ts')
  obtain es s1 where t: "battery_rx_turn t s = (es, s1)" by (cases "battery_rx_turn t s")
  let ?a = "absence_step 3 (can_received s 0x414 \<or> heard t) (vbat_low (turn_vbat t)) (turn_shutdown t) (0, False)"
  have step: "link_absence BATTERY_INFO_SEND_PERIOD_MS (ruby_link s1) ?a" "\<not> can_received s1 0x414"
    using ruby_turn_absence [OF t assms(1) _ refl] by simp_all
  have "fst ?a \<le> 1" by simp
  then have "fst ?a + length ts' < 2999999 + 1" using assms(2) Cons by simp
  then show ?thesis using ruby_run_absence [OF step(1) _ step(2), of ts'] Cons
    by (auto simp: t Let_def split_def ruby_absence_from_def)
qed

text \<open>
  C29. A battery that is gone reboots the system on Pearl: in every sequence of turns, with whatever
  interrupts, measurements and publications, and a voltage message received before the first turn or not, the last turn forces the
  reboot of a removed battery (\<^verbatim>\<open>reboot(0)\<close>) exactly when it
  heard no voltage message, the rail is low or cannot be measured, and it is at least the tenth
  such turn since the last voltage message; from the third on the shutdown is announced with
  the time left to the tenth, until an announcement is accepted. The reboot for a low pack
  (\<^verbatim>\<open>reboot(1)\<close>), which a voltage message can cause, is another one.
\<close>

theorem battery_removed_reboots:
  assumes "battery_messages_timeout (ruby_link s) = 0" "shutdown_scheduled_sent (ruby_link s) \<noteq> RET_SUCCESS"
    "length ts < 2999999" "ruby_absence_from (can_received s 0x414) ts (0, False) = (n, sent)"
    "battery_rx_turn t (snd (battery_rx_run ts s)) = (es, s')"
    and h: "h \<longleftrightarrow> heard t \<or> ts = [] \<and> can_received s 0x414"
  shows "(REBOOT 0 \<in> set es \<longleftrightarrow> \<not> h \<and> vbat_low (turn_vbat t) \<and> 10 \<le> Suc n) \<and>
    announced es = (if \<not> h \<and> vbat_low (turn_vbat t) \<and> 3 \<le> Suc n \<and> \<not> sent then {1100 * 10 - 1100 * of_nat (Suc n)} else {})"
proof -
  have "link_absence BATTERY_INFO_SEND_PERIOD_MS (ruby_link s) (0, False)" using assms(1,2) by (simp add: link_absence_def)
  from ruby_run_absence_from [OF this assms(3)]
  have "link_absence BATTERY_INFO_SEND_PERIOD_MS (ruby_link (snd (battery_rx_run ts s))) (n, sent)" "n < 3000000"
    "h \<longleftrightarrow> can_received (snd (battery_rx_run ts s)) 0x414 \<or> heard t"
    using assms(4) h by auto
  from ruby_turn_absence [OF assms(5) this] show ?thesis by simp
qed

subsection \<open>Battery information\<close>

text \<open>
  The hardware version that message 0x522 carries is not published: the turn that takes the four
  answers clears their flags, and the turn after it, which publishes the information, finds the
  version of message 0x491, or none.
\<close>

lemma ruby_hw_version_lost:
  assumes "can_received s 0x522 \<and> can_received s 0x523 \<and> can_received s 0x524 \<and> can_received s 0x525"
    "\<not> list_ex (is_frame 0x522) evs" "PUBLISH (PUB_INFO_HW_FW h) \<in> set (publish_battery_info (ruby_irqs evs (ruby_answers s)))"
  shows "info_hw_version h =
    (if can_received (ruby_irqs evs (ruby_answers s)) 0x491 then Some (u8_at 0x491 7 (ruby_irqs evs (ruby_answers s))) else None)"
proof -
  have "\<not> can_received (ruby_irqs evs (ruby_answers s)) 0x522"
    using assms(1,2) by (simp add: ruby_irqs_received ruby_answers_def)
  then show ?thesis using assms(3) by (auto simp: publish_battery_info_def)
qed

text \<open>A commit hash of eight digits is published as it is only below \<open>2 ^ 31\<close>, else as the largest number.\<close>

lemma hex_digits_acc: "list_all (\<lambda>c. hex_digit c \<noteq> None) cs \<Longrightarrow> hex_digits acc cs = acc * 16 ^ length cs + hex_digits 0 cs"
proof (induction cs arbitrary: acc)
  case (Cons c cs)
  then obtain d where d: "hex_digit c = Some d" by auto
  show ?case using Cons.IH [of "16 * acc + d"] Cons.IH [of d] Cons.prems d by (simp add: algebra_simps)
qed simp

lemma commit_hash_clamped:
  assumes "list_all (\<lambda>c. hex_digit c \<noteq> None) (can_data s 0x523)" "can_data s 0x523 \<noteq> []" "hex_digits 0 (can_data s 0x523) \<ge> 2 ^ 31"
  shows "battery_commit_hash s = 0x7FFFFFFF"
proof -
  obtain c cs where cs: "can_data s 0x523 = c # cs" using assms(2) by (cases "can_data s 0x523") auto
  have c: "hex_digit c \<noteq> None" "list_all (\<lambda>c. hex_digit c \<noteq> None) cs" using assms(1) by (simp_all add: cs)
  have "\<not> is_space c" "c \<noteq> 43" "c \<noteq> 45" using c(1)
    by (auto simp: hex_digit_def is_space_def word_le_nat_alt Let_def split: if_splits)
  moreover have "hex_digit 120 = None" "hex_digit 88 = None" by (simp_all add: hex_digit_def)
  then have "\<not> (cs \<noteq> [] \<and> (cs ! 0 = 120 \<or> cs ! 0 = 88))" using c(2) by (cases cs) auto
  ultimately have "strtol_16 (can_data s 0x523) = min (2 ^ 31 - 1) (int (hex_digits 0 (can_data s 0x523)))"
    by (cases cs) (auto simp: strtol_16_def cs Let_def)
  then have "strtol_16 (can_data s 0x523) = 2 ^ 31 - 1" using assms(3) by simp
  then show ?thesis by (simp add: battery_commit_hash_def)
qed

subsection \<open>Starting up\<close>

text \<open>The state and the values of poll \<open>k\<close>, had the loop not ended before.\<close>

definition poll_state :: "(nat \<Rightarrow> can_irq list) \<Rightarrow> ruby \<Rightarrow> nat \<Rightarrow> ruby" where
  "poll_state irqs s k = ruby_irqs (concat (map irqs [0..<Suc k])) s"

definition poll_values :: "ruby \<Rightarrow> u32 \<times> nat \<times> bool" where
  "poll_values s = (word_of_int (sum_list (cell_voltages s)), unat (u8_at 0x499 5 s), can_received s 0x414)"

definition poll_ok :: "ruby \<Rightarrow> bool" where
  "poll_ok s \<longleftrightarrow> startup_ok (fst (poll_values s)) (fst (snd (poll_values s)))"

lemma poll_state_Suc: "poll_state irqs s (Suc k) = ruby_irqs (irqs (Suc k)) (poll_state irqs s k)"
  by (simp add: poll_state_def ruby_irqs_def)

lemma await_battery_from:
  assumes "list_all (\<lambda>j. \<not> poll_ok (poll_state irqs s j)) [0..<Suc k]"
  shows "await_battery irqs n (Suc k) v (poll_state irqs s k) =
    (case filter (\<lambda>j. poll_ok (poll_state irqs s j)) [Suc k..<Suc k + n] of
       [] \<Rightarrow> (if n = 0 then v else poll_values (poll_state irqs s (k + n)), poll_state irqs s (k + n))
     | j # _ \<Rightarrow> (poll_values (poll_state irqs s j), poll_state irqs s j))"
  using assms
proof (induction n arbitrary: k v)
  case (Suc n)
  have un: "[Suc k..<Suc k + Suc n] = Suc k # [Suc (Suc k)..<Suc (Suc k) + n]" by (simp add: upt_conv_Cons)
  show ?case
  proof (cases "poll_ok (poll_state irqs s (Suc k))")
    case True
    then show ?thesis unfolding un by (simp add: poll_ok_def poll_values_def poll_state_Suc Let_def)
  next
    case False
    then have "list_all (\<lambda>j. \<not> poll_ok (poll_state irqs s j)) [0..<Suc (Suc k)]" using Suc.prems by simp
    from Suc.IH [OF this, of "poll_values (poll_state irqs s (Suc k))"] False show ?thesis
      unfolding un by (simp add: poll_ok_def poll_values_def poll_state_Suc Let_def split: list.splits)
  qed
qed simp

lemma await_battery_result:
  assumes "0 < n"
  shows "await_battery irqs n 0 v s =
    (\<lambda>j. (poll_values (poll_state irqs s j), poll_state irqs s j))
      (case filter (\<lambda>j. poll_ok (poll_state irqs s j)) [0..<n] of [] \<Rightarrow> n - 1 | j # _ \<Rightarrow> j)"
proof -
  obtain m where n: "n = Suc m" using assms by (cases n) auto
  have un: "[0..<Suc m] = 0 # [Suc 0..<Suc 0 + m]" by (simp add: upt_conv_Cons)
  have st: "poll_state irqs s 0 = ruby_irqs (irqs 0) s" by (simp add: poll_state_def)
  show ?thesis
  proof (cases "poll_ok (poll_state irqs s 0)")
    case True
    then show ?thesis unfolding n un by (simp add: poll_ok_def poll_values_def st Let_def)
  next
    case False
    then show ?thesis using await_battery_from [of irqs s 0 m "poll_values (poll_state irqs s 0)"] unfolding n un
      by (auto simp: poll_ok_def poll_values_def st Let_def split: list.splits)
  qed
qed

text \<open>A voltage other than zero comes from a message.\<close>

lemma poll_voltage_zero:
  assumes "\<not> can_received (poll_state irqs s k) 0x414" "can_data s 0x414 = replicate 8 0"
  shows "cell_voltages (poll_state irqs s k) = [0, 0, 0, 0]"
proof -
  have "can_data (ruby_irqs evs s) 0x414 = can_data s 0x414" if "\<not> list_ex (is_frame 0x414) evs" for evs
  proof -
    have "can_data (ruby_irq e s) 0x414 = can_data s 0x414" if "\<not> is_frame 0x414 e" for e s
      using that by (cases e) (auto simp: message_checker_def split: option.splits)
    then show ?thesis using that unfolding ruby_irqs_def by (induction evs arbitrary: s) auto
  qed
  then have "can_data (poll_state irqs s k) 0x414 = replicate 8 0"
    using assms by (simp add: poll_state_def ruby_irqs_received)
  then show ?thesis by (simp add: cell_voltages_def i16_at_def u16_at_def u16_of_def upt_rec)
qed

lemma poll_ok_received:
  assumes "poll_ok (poll_state irqs s k)" "can_data s 0x414 = replicate 8 0"
  shows "can_received (poll_state irqs s k) 0x414"
proof (rule ccontr)
  assume "\<not> can_received (poll_state irqs s k) 0x414"
  from poll_voltage_zero [OF this assms(2)] assms(1) show False
    by (simp add: poll_ok_def poll_values_def startup_ok_def BATTERY_MINIMUM_VOLTAGE_STARTUP_MV_def)
qed

lemma setup_filters_result: "fst (setup_filters add ms fs) = RET_SUCCESS \<longleftrightarrow> list_all (\<lambda>(i, _). 0 \<le> add i) ms"
  by (induction ms arbitrary: fs) (auto split: if_splits)

lemma poll_state_filters: "poll_state irqs (s\<lparr>ruby_filters := fs\<rparr>) k = (poll_state irqs s k)\<lparr>ruby_filters := fs\<rparr>"
proof -
  have "ruby_irq e (s\<lparr>ruby_filters := fs\<rparr>) = (ruby_irq e s)\<lparr>ruby_filters := fs\<rparr>" for e s
    by (cases e) (simp_all add: message_checker_def split: option.splits)
  then have "ruby_irqs evs (s\<lparr>ruby_filters := fs\<rparr>) = (ruby_irqs evs s)\<lparr>ruby_filters := fs\<rparr>" for evs
    unfolding ruby_irqs_def by (induction evs arbitrary: s) simp_all
  then show ?thesis by (simp add: poll_state_def)
qed

lemma poll_values_filters [simp]: "poll_values (s\<lparr>ruby_filters := fs\<rparr>) = poll_values s"
  by (simp add: poll_values_def cell_voltages_def i16_at_def u16_at_def u8_at_def)

definition rail_starts :: "ret_code_t + int \<Rightarrow> bool" where
  "rail_starts vbat = (case vbat of Inl _ \<Rightarrow> False | Inr v \<Rightarrow> (13750 :: u32) \<le> word_of_int v)"

text \<open>What the initialization does once the bus works, given the poll at which the loop ended.\<close>

lemma battery_init_polled:
  assumes "ri_ready inp" "setup_filters (ri_filters inp) battery_messages (ruby_filters s) = (RET_SUCCESS, fs)" "ri_start inp = 0"
    "j = (case filter (\<lambda>j. poll_ok (poll_state (ri_irqs inp) s j)) [0..<20] of [] \<Rightarrow> 19 | j # _ \<Rightarrow> j)"
    "can_data s 0x414 = replicate 8 0" "\<not> can_received s 0x414"
  shows "(fst (battery_init inp s) = Some RET_SUCCESS \<longleftrightarrow>
      poll_ok (poll_state (ri_irqs inp) s j) \<or>
      \<not> can_received (poll_state (ri_irqs inp) s j) 0x414 \<and> rail_starts (ri_vbat inp)) \<and>
    (SYSTEM_RESET \<in> set (fst (snd (battery_init inp s))) \<longleftrightarrow> fst (battery_init inp s) = None)"
proof -
  have ok: "poll_ok (s'\<lparr>ruby_filters := fs\<rparr>) = poll_ok s'" for s' by (simp add: poll_ok_def)
  have "await_battery (ri_irqs inp) 20 0 (0, 0, False) (s\<lparr>ruby_filters := fs\<rparr>) =
      (poll_values (poll_state (ri_irqs inp) s j), (poll_state (ri_irqs inp) s j)\<lparr>ruby_filters := fs\<rparr>)"
    unfolding assms(4) by (simp add: await_battery_result poll_state_filters ok split: list.splits)
  moreover have zero: "fst (poll_values (poll_state (ri_irqs inp) s j)) = 0"
    if "\<not> can_received (poll_state (ri_irqs inp) s j) 0x414"
    using poll_voltage_zero [OF that assms(5)] by (simp add: poll_values_def)
  moreover have "\<not> poll_ok (poll_state (ri_irqs inp) s j)" if "\<not> can_received (poll_state (ri_irqs inp) s j) 0x414"
    using poll_ok_received [of "ri_irqs inp" s j] assms(5) that by blast
  ultimately show ?thesis
    using assms(1-3) by (auto simp: battery_init_def Let_def split_def poll_ok_def poll_values_def rail_starts_def startup_ok_def
        BATTERY_MINIMUM_VOLTAGE_STARTUP_MV_def BATTERY_MINIMUM_CAPACITY_STARTUP_PERCENT_def split: sum.splits)
qed

text \<open>
  When the system starts on Pearl: the battery module returns success exactly when the bus is
  ready and started with all its filters and, in one of the twenty polls, the battery reports at
  least 13.75 V and 5 %, or no voltage message has arrived in all of them and the rail is at
  13.75 V or more, which is taken for a corded supply; in every other case in which the bus
  works the system is reset.
\<close>

theorem battery_init_starts:
  "(fst (battery_init inp ruby_zero) = Some RET_SUCCESS \<longleftrightarrow>
      ri_ready inp \<and> list_all (\<lambda>(i, _). 0 \<le> ri_filters inp i) battery_messages \<and> ri_start inp = 0 \<and>
      (list_ex (\<lambda>k. poll_ok (poll_state (ri_irqs inp) ruby_zero k)) [0..<20] \<or>
       \<not> can_received (poll_state (ri_irqs inp) ruby_zero 19) 0x414 \<and> rail_starts (ri_vbat inp))) \<and>
   (SYSTEM_RESET \<in> set (fst (snd (battery_init inp ruby_zero))) \<longleftrightarrow> fst (battery_init inp ruby_zero) = None)"
proof -
  obtain ret fs where f: "setup_filters (ri_filters inp) battery_messages (ruby_filters ruby_zero) = (ret, fs)"
    by (cases "setup_filters (ri_filters inp) battery_messages (ruby_filters ruby_zero)")
  have ret: "ret = RET_SUCCESS \<longleftrightarrow> list_all (\<lambda>(i, _). 0 \<le> ri_filters inp i) battery_messages"
    using setup_filters_result [of "ri_filters inp" battery_messages "ruby_filters ruby_zero"] f by simp
  let ?p = "\<lambda>j. poll_state (ri_irqs inp) ruby_zero j"
  let ?js = "filter (\<lambda>j. poll_ok (?p j)) [0..<20]"
  define j where "j = (case ?js of [] \<Rightarrow> 19 | j # _ \<Rightarrow> j)"
  have zero: "can_data ruby_zero 0x414 = replicate 8 0" "\<not> can_received ruby_zero 0x414"
    by (simp_all add: ruby_zero_def battery_messages_def)
  have j: "(poll_ok (?p j) \<or> \<not> can_received (?p j) 0x414 \<and> rail_starts (ri_vbat inp)) \<longleftrightarrow>
      (list_ex (\<lambda>k. poll_ok (?p k)) [0..<20] \<or> \<not> can_received (?p 19) 0x414 \<and> rail_starts (ri_vbat inp))"
  proof (cases ?js)
    case Nil
    then have "\<not> list_ex (\<lambda>k. poll_ok (?p k)) [0..<20]" "\<not> poll_ok (?p 19)"
      by (auto simp: filter_empty_conv list_ex_iff)
    then show ?thesis by (simp add: j_def Nil)
  next
    case (Cons k ks)
    then have "k \<in> set ?js" by simp
    then have "k \<in> set [0..<20]" "poll_ok (?p k)" by simp_all
    then show ?thesis by (auto simp: j_def Cons list_ex_iff simp del: set_upt)
  qed
  show ?thesis
  proof (cases "ri_ready inp \<and> ret = RET_SUCCESS \<and> ri_start inp = 0")
    case True
    then show ?thesis using battery_init_polled [OF _ _ _ j_def zero] f ret j by simp
  next
    case False
    then show ?thesis using f ret by (auto simp: battery_init_def)
  qed
qed

subsection \<open>Witnesses\<close>

definition silent_turn :: ruby_turn where
  "silent_turn = \<lparr>turn_irqs = [], turn_vbat_corded = Inl RET_ERROR_NOT_INITIALIZED, turn_late_irqs = [], turn_started = True,
    turn_rtr = (\<lambda>_. \<lparr>rtr_send = CAN_SENT, rtr_completed = (\<lambda>_. True), rtr_state = (\<lambda>_. None)\<rparr>),
    turn_vbat = Inr 5000, turn_shutdown = RET_SUCCESS\<rparr>"

lemma silent_turn_simps: "\<not> heard silent_turn" "vbat_low (turn_vbat silent_turn)" "turn_shutdown silent_turn = RET_SUCCESS"
  by (simp_all add: heard_def silent_turn_def vbat_low_def BATTERY_MINIMUM_VOLTAGE_RUNTIME_MV_def)

theorem battery_removed_reboots_witness:
  "REBOOT 0 \<in> set (fst (battery_rx_turn silent_turn (snd (battery_rx_run (replicate 9 silent_turn) ruby_zero)))) \<and>
   announced (fst (battery_rx_turn silent_turn (snd (battery_rx_run (replicate 2 silent_turn) ruby_zero)))) = {7700}"
proof -
  have s: "battery_messages_timeout (ruby_link ruby_zero) = 0" "shutdown_scheduled_sent (ruby_link ruby_zero) \<noteq> RET_SUCCESS"
    by (simp_all add: ruby_zero_def)
  have "ruby_absence_from (can_received ruby_zero 0x414) (replicate 9 silent_turn) (0, False) = (9, True)"
    "ruby_absence_from (can_received ruby_zero 0x414) (replicate 2 silent_turn) (0, False) = (2, False)"
    by (simp_all add: ruby_absence_from_def ruby_absence_def silent_turn_simps eval_nat_numeral ruby_zero_def)
  note a = this
  from battery_removed_reboots [OF s _ a(1) surjective_pairing refl, of silent_turn]
    battery_removed_reboots [OF s _ a(2) surjective_pairing refl, of silent_turn]
  show ?thesis by (simp add: silent_turn_simps)
qed

end
