(* ===== verification/Battery_Amber.thy ===== *)
theory Battery_Amber
  imports Battery_Ruby
begin

text \<open>
  The battery of Diamond (\<^verbatim>\<open>battery_amber.c\<close>): the registers of the gas gauge BQ4050, read over I2C by
  a thread every second, passed on to the Jetson, and the watch of the link. What the bus
  returns for each command is an input of a turn.
\<close>

subsection \<open>The gas gauge\<close>

text \<open>
  \<open>bq_write\<close>: what writing these bytes returns; \<open>bq_block\<close>: the answer to a block command, an error or
  as many bytes as asked for; \<open>bq_word\<close>: the two bytes of a register.
\<close>

record bq4050 =
  bq_write :: "u8 list \<Rightarrow> int"
  bq_block :: "u16 \<Rightarrow> nat \<Rightarrow> int + u8 list"
  bq_word :: "u8 \<Rightarrow> int + u8 \<times> u8"

definition bq4050_read_block :: "bq4050 \<Rightarrow> u16 \<Rightarrow> nat \<Rightarrow> int + u8 list" where
  "bq4050_read_block bus command len =
    (let tx_data = [0x44, 2, ucast command, ucast (drop_bit 8 command)]; ret = bq_write bus tx_data
     in if ret \<noteq> 0 then Inl ret
        else case bq_block bus command (3 + len) of Inl err \<Rightarrow> Inl err | Inr bytes \<Rightarrow> Inr (drop 3 bytes))"

definition bq4050_read_word :: "bq4050 \<Rightarrow> u8 \<Rightarrow> int + u16" where
  "bq4050_read_word bus command =
    (case bq_word bus command of Inl err \<Rightarrow> Inl err | Inr (b0, b1) \<Rightarrow> Inr (push_bit 8 (ucast b1) OR ucast b0))"

definition bq_result :: "(int + 'a) \<Rightarrow> ret_code_t + 'a" where
  "bq_result r = (case r of Inl _ \<Rightarrow> Inl RET_ERROR_INTERNAL | Inr x \<Rightarrow> Inr x)"

definition bq4050_read_firmware_build_number :: "bq4050 \<Rightarrow> ret_code_t + u16" where
  "bq4050_read_firmware_build_number bus =
    (case bq4050_read_block bus 0x0002 6 of
       Inl _ \<Rightarrow> Inl RET_ERROR_INTERNAL
     | Inr bytes \<Rightarrow> Inr (push_bit 8 (ucast (bytes ! 5)) OR ucast (bytes ! 4)))"

definition bq4050_read_cycle_count :: "bq4050 \<Rightarrow> ret_code_t + u16" where
  "bq4050_read_cycle_count bus = bq_result (bq4050_read_word bus 0x17)"

definition bq4050_read_current :: "bq4050 \<Rightarrow> ret_code_t + int" where
  "bq4050_read_current bus = map_sum id sint (bq_result (bq4050_read_word bus 0x0A))"

definition bq4050_read_relative_state_of_charge :: "bq4050 \<Rightarrow> ret_code_t + u8" where
  "bq4050_read_relative_state_of_charge bus = map_sum id ucast (bq_result (bq4050_read_word bus 0x0D))"

definition bq4050_read_full_charge_capacity :: "bq4050 \<Rightarrow> ret_code_t + u16" where
  "bq4050_read_full_charge_capacity bus = bq_result (bq4050_read_word bus 0x10)"

definition bq4050_read_serial_number :: "bq4050 \<Rightarrow> ret_code_t + u16" where
  "bq4050_read_serial_number bus = bq_result (bq4050_read_word bus 0x1C)"

definition bq4050_read_state_of_health :: "bq4050 \<Rightarrow> ret_code_t + u8" where
  "bq4050_read_state_of_health bus = map_sum id ucast (bq_result (bq4050_read_word bus 0x4F))"

subsection \<open>The thread\<close>

record amber =
  amber_cap_percentage :: nat
  amber_is_charging :: bool
  amber_link :: battery_link
  amber_thread :: bool

definition amber_zero :: amber where
  "amber_zero = \<lparr>amber_cap_percentage = 0, amber_is_charging = False,
    amber_link = \<lparr>corded_power_supply = False, battery_messages_timeout = 0, shutdown_scheduled_sent = RET_ERROR_NOT_INITIALIZED\<rparr>,
    amber_thread = False\<rparr>"

record amber_turn =
  at_bus :: bq4050
  at_vbat_corded :: "ret_code_t + int"
  at_vbat :: "ret_code_t + int"
  at_shutdown :: ret_code_t

text \<open>
  Every part returns whether the gauge has answered, with the effects.
\<close>

definition u16_field :: "u8 list \<Rightarrow> nat \<Rightarrow> u16" where
  "u16_field bytes i = u16_of (bytes ! i) (bytes ! (i + 1))"

definition amber_voltages :: "amber_turn \<Rightarrow> amber \<Rightarrow> bool \<times> battery_effect list" where
  "amber_voltages t s =
    (case bq4050_read_block (at_bus t) 0x0071 8 of
       Inr bytes \<Rightarrow>
         (let cells = map (\<lambda>k. int (unat (u16_field bytes (2 * k)))) [0..<4]
          in (True, check_battery_voltage (sum_list cells) @
                    [PUBLISH (PUB_VOLTAGE \<lparr>corded_power_supply_mv = 0, battery_cells_mv = cells\<rparr>)]))
     | Inl _ \<Rightarrow>
         (False,
          if corded_power_supply (amber_link s) then
            (case at_vbat_corded t of
               Inl _ \<Rightarrow> []
             | Inr mv \<Rightarrow> [PUBLISH (PUB_VOLTAGE \<lparr>corded_power_supply_mv = mv, battery_cells_mv = cells_quarter mv\<rparr>)])
          else []))"

definition amber_capacity :: "amber_turn \<Rightarrow> amber \<Rightarrow> bool \<times> battery_effect list \<times> amber" where
  "amber_capacity t s =
    (case bq4050_read_relative_state_of_charge (at_bus t) of
       Inr soc \<Rightarrow> (True, [PUBLISH (PUB_CAPACITY (unat soc))], s\<lparr>amber_cap_percentage := unat soc\<rparr>)
     | Inl _ \<Rightarrow>
         if corded_power_supply (amber_link s) then (False, [PUBLISH (PUB_CAPACITY 100)], s\<lparr>amber_cap_percentage := 100\<rparr>)
         else (False, [], s))"

text \<open>The offset from Kelvin is added in 16 bits.\<close>

definition decidegrees :: "u16 \<Rightarrow> int" where
  "decidegrees decikelvin = sint (word_of_int (sint decikelvin - 2732) :: u16)"

definition amber_temperatures :: "amber_turn \<Rightarrow> bool \<times> battery_effect list" where
  "amber_temperatures t =
    (case bq4050_read_block (at_bus t) 0x0072 14 of
       Inr bytes \<Rightarrow> (True, [TEMPERATURE_REPORT BATTERY_PCB (c_div (decidegrees (u16_field bytes 4)) 10),
                           TEMPERATURE_REPORT BATTERY_CELL (c_div (decidegrees (u16_field bytes 6)) 10)])
     | Inl _ \<Rightarrow> (False, []))"

definition amber_charging :: "amber_turn \<Rightarrow> amber \<Rightarrow> bool \<times> battery_effect list \<times> amber" where
  "amber_charging t s =
    (case bq4050_read_current (at_bus t) of
       Inr current_ma \<Rightarrow>
         (True, [PUBLISH (PUB_DIAG_COMMON \<lparr>diag_flags = 0, bq769_control_status = 0, battery_status = 0, fet_status = 0,
                    balancer_state = 0, diag_current_ma = current_ma\<rparr>), PUBLISH (PUB_IS_CHARGING (current_ma > 0))],
          s\<lparr>amber_is_charging := current_ma > 0\<rparr>)
     | Inl _ \<Rightarrow>
         (let s1 = (if corded_power_supply (amber_link s) then s\<lparr>amber_is_charging := True\<rparr> else s)
          in (False, [PUBLISH (PUB_IS_CHARGING (amber_is_charging s1))], s1)))"

text \<open>The revision of the board, from the string the manufacturer has stored.\<close>

definition pcb_version :: "u8 list \<Rightarrow> u8 option" where
  "pcb_version info =
    (if take 11 info = map (\<lambda>c. of_char c) ''IDU139GA-R0'' \<and> info ! 11 \<in> {48, 49, 50, 51} then Some (info ! 11 - 48) else None)"

definition amber_hw_fw :: "amber_turn \<Rightarrow> bool \<times> battery_effect list" where
  "amber_hw_fw t =
    (let serial = bq4050_read_serial_number (at_bus t);
         serial_number = (case serial of Inr x \<Rightarrow> x | Inl _ \<Rightarrow> 0xFFFF);
         info = bq4050_read_block (at_bus t) 0x0070 32;
         build = bq4050_read_firmware_build_number (at_bus t)
     in (\<not> isl serial \<or> \<not> isl info \<or> \<not> isl build,
         case build of
           Inl _ \<Rightarrow> []
         | Inr build_number \<Rightarrow>
             [PUBLISH (PUB_INFO_HW_FW
                \<lparr>mcu_id = replicate 10 0 @ [ucast (drop_bit 8 serial_number), ucast serial_number],
                 info_hw_version = (case info of Inl _ \<Rightarrow> None | Inr bytes \<Rightarrow> pcb_version bytes),
                 fw_version = (unat build_number, 0, 0, 0)\<rparr>)]))"

definition amber_cycles :: "amber_turn \<Rightarrow> bool \<times> battery_effect list" where
  "amber_cycles t =
    (case bq4050_read_cycle_count (at_bus t) of
       Inl _ \<Rightarrow> (False, [])
     | Inr cycle_count \<Rightarrow>
         (True, [PUBLISH (PUB_INFO_SOC \<lparr>soc_state = Some (0, 0), number_of_charges = unat cycle_count,
            number_of_written_flash_variables = 0, number_of_button_presses = 0, number_of_insertions = 0\<rparr>)]))"

definition i8_field :: "u8 list \<Rightarrow> nat \<Rightarrow> int" where "i8_field bytes i = sint (bytes ! i)"

definition amber_max_values :: "amber_turn \<Rightarrow> bool \<times> battery_effect list" where
  "amber_max_values t =
    (let capacity = bq4050_read_full_charge_capacity (at_bus t); lifetime = bq4050_read_block (at_bus t) 0x0060 32
     in (\<not> isl capacity \<or> \<not> isl lifetime,
         case lifetime of
           Inl _ \<Rightarrow> []
         | Inr bytes \<Rightarrow>
             (let max_discharge = sint (u16_field bytes 20)
              in [PUBLISH (PUB_INFO_MAX_VALUES
                    \<lparr>maximum_capacity_mah = (case capacity of Inl _ \<Rightarrow> 0 | Inr mah \<Rightarrow> unat mah),
                     maximum_cell_temp_decidegrees = nat (max (i8_field bytes 26) 0) * 10,
                     maximum_pcb_temp_decidegrees = nat (max (i8_field bytes 31) 0) * 10,
                     maximum_charge_current_ma = unat (u16_field bytes 18),
                     maximum_discharge_current_ma = (if max_discharge > 0 then 0 else - max_discharge)\<rparr>)])))"

definition amber_health :: "amber_turn \<Rightarrow> bool \<times> battery_effect list" where
  "amber_health t =
    (case bq4050_read_state_of_health (at_bus t) of
       Inl _ \<Rightarrow> (False, []) | Inr soh \<Rightarrow> (True, [PUBLISH (PUB_STATE_OF_HEALTH (unat soh))]))"

text \<open>The watch of the link. The forced reboot is inside the branch that announces the shutdown.\<close>

definition amber_removed :: "ret_code_t \<Rightarrow> battery_link \<Rightarrow> battery_effect list \<times> battery_link" where
  "amber_removed sent l =
    (let timeout = battery_messages_timeout l + 1000; l1 = l\<lparr>battery_messages_timeout := timeout\<rparr>
     in if timeout \<ge> 4000 \<and> shutdown_scheduled_sent l1 \<noteq> RET_SUCCESS then
          (PUBLISH (PUB_SHUTDOWN_BATTERY_REMOVED (10000 - timeout)) # (if timeout \<ge> 10000 then [REBOOT 0] else []),
           l1\<lparr>shutdown_scheduled_sent := sent\<rparr>)
        else ([], l1))"

definition amber_link_check :: "amber_turn \<Rightarrow> bool \<Rightarrow> amber \<Rightarrow> battery_effect list \<times> amber" where
  "amber_link_check t answered s =
    (if answered then (let (effs, l) = link_alive (amber_link s) in (effs, s\<lparr>amber_link := l\<rparr>))
     else if vbat_low (at_vbat t) then
       (let (effs, l) = amber_removed (at_shutdown t) (amber_link s) in (link_lost (amber_link s) @ effs, s\<lparr>amber_link := l\<rparr>))
     else if vbat_above_startup (at_vbat t) then
       (link_lost (amber_link s) @ [ORB_STATE RET_SUCCESS ''corded''], s\<lparr>amber_link := (amber_link s)\<lparr>corded_power_supply := True\<rparr>\<rparr>)
     else (link_lost (amber_link s), s))"

definition amber_rx_turn :: "amber_turn \<Rightarrow> amber \<Rightarrow> battery_effect list \<times> amber" where
  "amber_rx_turn t s =
    (let (a1, e1) = amber_voltages t s;
         (a2, e2, s1) = amber_capacity t s;
         (a3, e3) = amber_temperatures t;
         (a4, e4, s2) = amber_charging t s1;
         (a5, e5) = amber_hw_fw t;
         (a6, e6) = amber_cycles t;
         (a7, e7) = amber_max_values t;
         (a8, e8) = amber_health t;
         (e9, s3) = amber_link_check t (a1 \<or> a2 \<or> a3 \<or> a4 \<or> a5 \<or> a6 \<or> a7 \<or> a8) s2
     in (e1 @ e2 @ e3 @ e4 @ e5 @ e6 @ e7 @ e8 @ e9, s3))"

fun amber_rx_run :: "amber_turn list \<Rightarrow> amber \<Rightarrow> battery_effect list \<times> amber" where
  "amber_rx_run [] s = ([], s)"
| "amber_rx_run (t # ts) s =
    (let (e, s1) = amber_rx_turn t s; (es, s2) = amber_rx_run ts s1 in (e @ es, s2))"

subsection \<open>Initialization\<close>

record amber_init_inputs =
  ai_ready :: bool
  ai_bus :: "nat \<Rightarrow> bq4050"
  ai_vbat :: "ret_code_t + int"

text \<open>
  The polls. The voltage is that of the last poll, 0 if it failed; the capacity is the last one
  that was read; \<open>got\<close>: the voltages have been read in some poll.
\<close>

definition amber_poll :: "bq4050 \<Rightarrow> nat \<times> nat \<times> bool \<Rightarrow> nat \<times> nat \<times> bool" where
  "amber_poll bus v =
    (let (_, soc, got) = v;
         block = bq4050_read_block bus 0x0071 8;
         mv = (case block of Inl _ \<Rightarrow> 0 | Inr bytes \<Rightarrow> sum_list (map (\<lambda>k. unat (u16_field bytes (2 * k))) [0..<4]))
     in (mv, case bq4050_read_relative_state_of_charge bus of Inl _ \<Rightarrow> soc | Inr x \<Rightarrow> unat x, got \<or> \<not> isl block))"

fun amber_await :: "(nat \<Rightarrow> bq4050) \<Rightarrow> nat \<Rightarrow> nat \<Rightarrow> nat \<times> nat \<times> bool \<Rightarrow> nat \<times> nat \<times> bool" where
  "amber_await bus 0 k v = v"
| "amber_await bus (Suc n) k v =
    (let (mv, soc, got) = amber_poll (bus k) v
     in if startup_ok (of_nat mv) soc then (mv, soc, got) else amber_await bus n (k + 1) (mv, soc, got))"

definition amber_battery_init :: "amber_init_inputs \<Rightarrow> amber \<Rightarrow> ret_code_t option \<times> battery_effect list \<times> amber" where
  "amber_battery_init inp s =
    (if \<not> ai_ready inp then (Some RET_ERROR_INTERNAL, [], s)
     else
      let (mv, soc, got) = amber_await (ai_bus inp) 20 0 (0, 0, False);
          full_voltage_mv = (if got then of_nat mv else case ai_vbat inp of Inl _ \<Rightarrow> of_nat mv | Inr v \<Rightarrow> word_of_int v) :: u32;
          corded = (\<not> got \<and> full_voltage_mv \<ge> word_of_int BATTERY_MINIMUM_VOLTAGE_STARTUP_MV);
          s1 = (if corded then s\<lparr>amber_link := (amber_link s)\<lparr>corded_power_supply := True\<rparr>\<rparr> else s);
          capacity = (if corded then 100 else soc);
          effs = (if corded then [ORB_STATE RET_SUCCESS ''corded''] else if got then [ORB_STATE RET_SUCCESS ''battery comm ok''] else [])
      in if \<not> startup_ok full_voltage_mv capacity then (None, effs @ [LOW_BATTERY_LEDS, SYSTEM_RESET], s1)
         else (Some RET_SUCCESS, effs, s1\<lparr>amber_thread := True\<rparr>))"

subsection \<open>A battery that is gone\<close>

definition answered :: "amber_turn \<Rightarrow> amber \<Rightarrow> bool" where
  "answered t s \<longleftrightarrow> fst (amber_voltages t s) \<or> fst (amber_capacity t s) \<or> fst (amber_temperatures t) \<or>
    fst (amber_charging t s) \<or> fst (amber_hw_fw t) \<or> fst (amber_cycles t) \<or> fst (amber_max_values t) \<or> fst (amber_health t)"

text \<open>Whether the gauge answers does not depend on the state.\<close>

lemma answered_any: "answered t s = answered t s'"
  by (simp add: answered_def amber_voltages_def amber_capacity_def amber_charging_def Let_def split: sum.splits)

definition gauge_answers :: "amber_turn \<Rightarrow> bool" where "gauge_answers t = answered t amber_zero"

lemma amber_parts_frame [simp]:
  "amber_link (snd (snd (amber_capacity t s))) = amber_link s" "amber_link (snd (snd (amber_charging t s))) = amber_link s"
  by (simp_all add: amber_capacity_def amber_charging_def Let_def split: sum.splits)

lemma amber_parts_quiet [simp]:
  "quiet (snd (amber_voltages t s))" "quiet (fst (snd (amber_capacity t s)))" "quiet (snd (amber_temperatures t))"
  "quiet (fst (snd (amber_charging t s)))" "quiet (snd (amber_hw_fw t))" "quiet (snd (amber_cycles t))"
  "quiet (snd (amber_max_values t))" "quiet (snd (amber_health t))"
  by (auto simp: amber_voltages_def amber_capacity_def amber_temperatures_def amber_charging_def amber_hw_fw_def
      amber_cycles_def amber_max_values_def amber_health_def Let_def split: sum.splits)

lemma amber_turn_link:
  assumes "amber_rx_turn t s = (es, s')"
  obtains s2 where "amber_link s2 = amber_link s" "s' = snd (amber_link_check t (gauge_answers t) s2)"
    "announced es = announced (fst (amber_link_check t (gauge_answers t) s2))"
    "REBOOT 0 \<in> set es \<longleftrightarrow> REBOOT 0 \<in> set (fst (amber_link_check t (gauge_answers t) s2))"
proof -
  define s1 where "s1 = snd (snd (amber_capacity t s))"
  define s2 where "s2 = snd (snd (amber_charging t s1))"
  define es' where "es' = snd (amber_voltages t s) @ fst (snd (amber_capacity t s)) @ snd (amber_temperatures t) @
    fst (snd (amber_charging t s1)) @ snd (amber_hw_fw t) @ snd (amber_cycles t) @ snd (amber_max_values t) @ snd (amber_health t)"
  have "fst (amber_charging t s1) = fst (amber_charging t s)"
    by (simp add: amber_charging_def Let_def split: sum.splits)
  then have eq: "(fst (amber_voltages t s) \<or> fst (amber_capacity t s) \<or> fst (amber_temperatures t) \<or>
      fst (amber_charging t s1) \<or> fst (amber_hw_fw t) \<or> fst (amber_cycles t) \<or> fst (amber_max_values t) \<or> fst (amber_health t)) =
      gauge_answers t"
    using answered_any [of t s amber_zero] by (simp add: gauge_answers_def answered_def)
  have "es = es' @ fst (amber_link_check t (gauge_answers t) s2)" "s' = snd (amber_link_check t (gauge_answers t) s2)"
    using assms by (simp_all add: amber_rx_turn_def split_def Let_def es'_def s1_def s2_def eq [unfolded s1_def])
  moreover have "quiet es'" by (simp add: es'_def)
  moreover have "amber_link s2 = amber_link s" by (simp add: s2_def s1_def)
  ultimately show thesis using that by (auto simp: quiet_def)
qed

lemma amber_removed_effect:
  assumes "link_absence 1000 l (n, sent)" "n < 3000000"
  shows "link_absence 1000 (snd (amber_removed ret l)) (absence_step 4 False True ret (n, sent))"
    "REBOOT 0 \<in> set (fst (amber_removed ret l)) \<longleftrightarrow> 10 \<le> Suc n \<and> \<not> sent"
    "announced (fst (amber_removed ret l)) = (if 4 \<le> Suc n \<and> \<not> sent then {1000 * 10 - 1000 * of_nat (Suc n)} else {})"
proof -
  define w :: u32 where "w = 1000 * of_nat (Suc n)"
  have sent: "shutdown_scheduled_sent l = RET_SUCCESS \<longleftrightarrow> sent" using assms(1) by (simp add: link_absence_def)
  have w: "battery_messages_timeout l + 1000 = w"
    using assms(1) by (simp add: w_def link_absence_def distrib_left)
  have "1000 * of_nat m \<le> w \<longleftrightarrow> m \<le> Suc n" if "m \<le> 10" for m
    using word_of_count_le [of "Suc n" 1000 m] assms(2) that by (simp add: w_def del: of_nat_Suc)
  from this [of 4] this [of 10] have le: "4000 \<le> w \<longleftrightarrow> 4 \<le> Suc n" "10000 \<le> w \<longleftrightarrow> 10 \<le> Suc n" by simp_all
  show "link_absence 1000 (snd (amber_removed ret l)) (absence_step 4 False True ret (n, sent))"
    using sent by (auto simp: amber_removed_def Let_def w le link_absence_def w_def [symmetric] simp del: of_nat_Suc)
  show "REBOOT 0 \<in> set (fst (amber_removed ret l)) \<longleftrightarrow> 10 \<le> Suc n \<and> \<not> sent"
    using sent by (auto simp: amber_removed_def Let_def w le)
  show "announced (fst (amber_removed ret l)) = (if 4 \<le> Suc n \<and> \<not> sent then {1000 * 10 - 1000 * of_nat (Suc n)} else {})"
    using sent by (auto simp: amber_removed_def Let_def w le announced_def w_def [symmetric] simp del: of_nat_Suc)
qed

definition amber_absence :: "amber_turn list \<Rightarrow> absence \<Rightarrow> absence" where
  "amber_absence ts a = fold (\<lambda>t. absence_step 4 (gauge_answers t) (vbat_low (at_vbat t)) (at_shutdown t)) ts a"

lemma amber_turn_absence:
  assumes "amber_rx_turn t s = (es, s')" "link_absence 1000 (amber_link s) (n, sent)" "n < 3000000"
  shows "link_absence 1000 (amber_link s') (amber_absence [t] (n, sent)) \<and>
    (REBOOT 0 \<in> set es \<longleftrightarrow> \<not> gauge_answers t \<and> vbat_low (at_vbat t) \<and> 10 \<le> Suc n \<and> \<not> sent) \<and>
    announced es =
      (if \<not> gauge_answers t \<and> vbat_low (at_vbat t) \<and> 4 \<le> Suc n \<and> \<not> sent then {1000 * 10 - 1000 * of_nat (Suc n)} else {})"
proof -
  obtain s2 where s2: "amber_link s2 = amber_link s" "s' = snd (amber_link_check t (gauge_answers t) s2)"
    "announced es = announced (fst (amber_link_check t (gauge_answers t) s2))"
    "REBOOT 0 \<in> set es \<longleftrightarrow> REBOOT 0 \<in> set (fst (amber_link_check t (gauge_answers t) s2))"
    using amber_turn_link [OF assms(1)] by metis
  have l: "link_absence 1000 (amber_link s2) (n, sent)" using assms(2) s2(1) by simp
  show ?thesis
  proof (cases "gauge_answers t")
    case True
    then show ?thesis using s2
      by (auto simp: amber_link_check_def split_def link_alive_def link_absence_def amber_absence_def)
  next
    case False
    then show ?thesis using s2 amber_removed_effect [OF l assms(3), of "at_shutdown t"] assms(2)
      by (auto simp: amber_link_check_def Let_def split_def link_absence_def amber_absence_def)
  qed
qed

lemma amber_run_absence:
  assumes "link_absence 1000 (amber_link s) a" "fst a + length ts < 3000000"
  shows "link_absence 1000 (amber_link (snd (amber_rx_run ts s))) (amber_absence ts a) \<and>
    fst (amber_absence ts a) \<le> fst a + length ts"
  using assms
proof (induction ts arbitrary: s a)
  case (Cons t ts)
  obtain n sent where a: "a = (n, sent)" by (cases a)
  obtain es s1 where t: "amber_rx_turn t s = (es, s1)" by (cases "amber_rx_turn t s")
  have step: "link_absence 1000 (amber_link s1) (amber_absence [t] a)"
    using amber_turn_absence [OF t] Cons.prems unfolding a by auto
  have "fst (amber_absence [t] a) \<le> Suc (fst a)" by (simp add: amber_absence_def a)
  then show ?case using Cons.IH [OF step] Cons.prems(2) by (auto simp: t Let_def split_def amber_absence_def)
qed (simp add: amber_absence_def)

text \<open>
  C30. A battery that is gone need not reboot the system on Diamond: in every sequence of turns the
  last one forces a reboot exactly when the gauge answered nothing, the rail is low, it is at
  least the tenth such turn since the last answer, and no announcement of the shutdown has been
  accepted meanwhile. Once the Jetson has accepted the announcement, with the time until the
  shutdown in it, the shutdown does not come.
\<close>

theorem battery_removed_unless_announced:
  assumes "battery_messages_timeout (amber_link s) = 0" "shutdown_scheduled_sent (amber_link s) \<noteq> RET_SUCCESS"
    "length ts < 2999999" "amber_absence ts (0, False) = (n, sent)" "amber_rx_turn t (snd (amber_rx_run ts s)) = (es, s')"
  shows "(REBOOT 0 \<in> set es \<longleftrightarrow> \<not> gauge_answers t \<and> vbat_low (at_vbat t) \<and> 10 \<le> Suc n \<and> \<not> sent) \<and>
    announced es =
      (if \<not> gauge_answers t \<and> vbat_low (at_vbat t) \<and> 4 \<le> Suc n \<and> \<not> sent then {1000 * 10 - 1000 * of_nat (Suc n)} else {})"
proof -
  have "link_absence 1000 (amber_link s) (0, False)" using assms(1,2) by (simp add: link_absence_def)
  from amber_run_absence [OF this, of ts]
  have "link_absence 1000 (amber_link (snd (amber_rx_run ts s))) (n, sent)" "n < 3000000"
    using assms(3,4) by auto
  from amber_turn_absence [OF assms(5) this] show ?thesis by simp
qed

definition dead_bus :: bq4050 where
  "dead_bus = \<lparr>bq_write = (\<lambda>_. - 5), bq_block = (\<lambda>_ _. Inl (- 5)), bq_word = (\<lambda>_. Inl (- 5))\<rparr>"

definition dead_turn :: "ret_code_t \<Rightarrow> amber_turn" where
  "dead_turn ret = \<lparr>at_bus = dead_bus, at_vbat_corded = Inr 5000, at_vbat = Inr 5000, at_shutdown = ret\<rparr>"

lemma dead_turn_simps: "\<not> gauge_answers (dead_turn ret)" "vbat_low (at_vbat (dead_turn ret))" "at_shutdown (dead_turn ret) = ret"
  by (simp_all add: gauge_answers_def answered_def dead_turn_def dead_bus_def amber_voltages_def amber_capacity_def
      amber_temperatures_def amber_charging_def amber_hw_fw_def amber_cycles_def amber_max_values_def amber_health_def
      bq4050_read_block_def bq4050_read_word_def bq_result_def bq4050_read_firmware_build_number_def
      bq4050_read_cycle_count_def bq4050_read_current_def bq4050_read_relative_state_of_charge_def
      bq4050_read_full_charge_capacity_def bq4050_read_serial_number_def bq4050_read_state_of_health_def
      vbat_low_def BATTERY_MINIMUM_VOLTAGE_RUNTIME_MV_def Let_def)

text \<open>With a deaf Jetson the tenth turn reboots, with a listening one no later turn does, the twenty-first for example.\<close>

theorem battery_removed_unless_announced_witness:
  "REBOOT 0 \<in> set (fst (amber_rx_turn (dead_turn RET_ERROR_OFFLINE)
      (snd (amber_rx_run (replicate 9 (dead_turn RET_ERROR_OFFLINE)) amber_zero)))) \<and>
   REBOOT 0 \<notin> set (fst (amber_rx_turn (dead_turn RET_SUCCESS) (snd (amber_rx_run (replicate 20 (dead_turn RET_SUCCESS)) amber_zero))))"
proof -
  have s: "battery_messages_timeout (amber_link amber_zero) = 0" "shutdown_scheduled_sent (amber_link amber_zero) \<noteq> RET_SUCCESS"
    by (simp_all add: amber_zero_def)
  have a: "amber_absence (replicate 9 (dead_turn RET_ERROR_OFFLINE)) (0, False) = (9, False)"
    "amber_absence (replicate 20 (dead_turn RET_SUCCESS)) (0, False) = (20, True)"
    by (simp_all add: amber_absence_def dead_turn_simps eval_nat_numeral)
  from battery_removed_unless_announced [OF s _ a(1) surjective_pairing, of "dead_turn RET_ERROR_OFFLINE"]
    battery_removed_unless_announced [OF s _ a(2) surjective_pairing, of "dead_turn RET_SUCCESS"]
  show ?thesis by (simp add: dead_turn_simps)
qed

subsection \<open>Starting up\<close>

text \<open>
  A gauge that answers in some poll but not in the last leaves the voltage at zero, and the system
  is reset even though the rail is fine: it is measured only when no poll has succeeded.
\<close>

lemma amber_last_poll_lost:
  assumes "ai_ready inp" "amber_await (ai_bus inp) 20 0 (0, 0, False) = (mv, soc, True)" "\<not> startup_ok (of_nat mv) soc"
  shows "fst (amber_battery_init inp s) = None"
  using assms by (simp add: amber_battery_init_def Let_def)

lemma amber_await_result:
  "case amber_await bus n k v of (mv, soc, got) \<Rightarrow> startup_ok (of_nat mv) soc \<or>
    (mv, soc, got) = fold (\<lambda>j. amber_poll (bus j)) [k..<k + n] v"
proof (induction n arbitrary: k v)
  case (Suc n)
  have "[k..<k + Suc n] = k # [Suc k..<Suc k + n]" by (simp add: upt_conv_Cons)
  then show ?case using Suc [of "Suc k" "amber_poll (bus k) v"] by (auto simp: Let_def split: prod.splits if_splits)
qed (simp add: split_def)

end
