(* ===== verification/Gnss.thy ===== *)
theory Gnss
  imports Orb_Prelude
begin

unbundle bit_operations_syntax

text \<open>
  GNSS receiver (\<^verbatim>\<open>main_board/src/gnss/gnss.c\<close>): an interrupt queues the characters of a UART, and a thread looks for NMEA sentences
  among them, checks their checksum and publishes each in two messages.

  The thread is a function on the characters it gets from the queue; what it does when there are no more is to wait. The
  buffer of the sentence has its size, and a write outside of it is a result of its own. The size of a part of a message
  belongs to the message definitions, which are not part of the repository, and is a parameter.
\<close>

definition NMEA_MAX_SIZE :: nat where "NMEA_MAX_SIZE = 82"
definition uart_buffer_size :: nat where "uart_buffer_size = NMEA_MAX_SIZE * 2"
definition uart_queue_size :: nat where "uart_queue_size = uart_buffer_size * 2"

subsection \<open>Reception\<close>

text \<open>The callback puts the characters it is given into the queue, and drops those that do not fit.\<close>

fun queue_chars :: "u8 list \<Rightarrow> u8 list \<Rightarrow> u8 list" where
  "queue_chars q [] = q"
| "queue_chars q (c # cs) = queue_chars (if length q < uart_queue_size then q @ [c] else q) cs"

text \<open>\<open>next_buffer\<close> is the buffer the driver gets when it asks for one, \<open>buf_rsp\<close> the ones it has got.\<close>

record gnss_uart =
  uart_chars_q :: "u8 list"
  next_buffer :: nat
  buf_rsp :: "nat list"

datatype gnss_uart_event = Gnss_Rx_Buf_Request | Gnss_Rx_Rdy "u8 list" | Gnss_Rx_Buf_Released nat | Gnss_Other

fun gnss_receive_callback :: "gnss_uart_event \<Rightarrow> gnss_uart \<Rightarrow> gnss_uart" where
  "gnss_receive_callback Gnss_Rx_Buf_Request s = s\<lparr>buf_rsp := buf_rsp s @ [next_buffer s]\<rparr>"
| "gnss_receive_callback (Gnss_Rx_Rdy rx) s = s\<lparr>uart_chars_q := queue_chars (uart_chars_q s) (take uart_buffer_size rx)\<rparr>"
| "gnss_receive_callback (Gnss_Rx_Buf_Released b) s = s\<lparr>next_buffer := b\<rparr>"
| "gnss_receive_callback Gnss_Other s = s"

definition gnss_init :: "bool \<Rightarrow> int \<Rightarrow> int \<Rightarrow> ret_code_t" where
  "gnss_init ready callback_ret enable_ret =
    (if \<not> ready then RET_ERROR_INVALID_STATE
     else if callback_ret \<noteq> 0 then RET_ERROR_INVALID_STATE
     else if enable_ret \<noteq> 0 then RET_ERROR_INVALID_STATE
     else RET_SUCCESS)"

lemma queue_chars_keeps: "length q + length rx \<le> uart_queue_size \<Longrightarrow> queue_chars q rx = q @ rx"
  by (induction q rx rule: queue_chars.induct) simp_all

lemma reception_keeps:
  "length (uart_chars_q s) + length rx \<le> uart_queue_size \<Longrightarrow> length rx \<le> uart_buffer_size \<Longrightarrow>
    uart_chars_q (gnss_receive_callback (Gnss_Rx_Rdy rx) s) = uart_chars_q s @ rx"
  by (simp add: queue_chars_keeps)

subsection \<open>Sentences\<close>

text \<open>\<open>strtoul\<close> to the base 16 on the string of two characters: the value, when the whole string is read.\<close>

definition strtoul16 :: "u8 list \<Rightarrow> int option" where
  "strtoul16 chars =
    (let s = takeWhile (\<lambda>c. c \<noteq> 0) chars;
         t = dropWhile is_space s;
         (neg, ds) = (case t of [] \<Rightarrow> (False, []) | c # t' \<Rightarrow> if c = 45 then (True, t') else if c = 43 then (False, t') else (False, t));
         v = foldl (\<lambda>a c. 16 * a + int (the (hex_digit c))) 0 ds
     in if ds = [] \<or> hex_digit (hd ds) = None then (if s = [] then Some 0 else None)
        else if list_all (\<lambda>c. hex_digit c \<noteq> None) ds then Some (if neg then - v else v) else None)"

text \<open>What parsing comes to: it waits, it has written outside of the buffer, or it has ended with the rest of the characters.\<close>

datatype nmea = Nmea_Wait | Nmea_Overflow | Nmea ret_code_t "u8 list" "u8 list"

text \<open>The loop up to the checksum: the index, the checksum, the buffer and the last character.\<close>

fun nmea_body :: "nat \<Rightarrow> u8 \<Rightarrow> u8 list \<Rightarrow> u8 \<Rightarrow> u8 list \<Rightarrow> (nat \<times> u8 \<times> u8 list \<times> u8 \<times> u8 list) option" where
  "nmea_body index calculated msg ch [] =
    (if index < NMEA_MAX_SIZE \<and> ch \<noteq> 42 then None else Some (index, calculated, msg, ch, []))"
| "nmea_body index calculated msg ch (c # rest) =
    (if index < NMEA_MAX_SIZE \<and> ch \<noteq> 42 then nmea_body (index + 1) (calculated XOR ch) (msg[index := ch]) c rest
     else Some (index, calculated, msg, ch, c # rest))"

text \<open>The rest, from the star on.\<close>

definition nmea_tail :: "nat \<Rightarrow> u8 \<Rightarrow> u8 list \<Rightarrow> u8 list \<Rightarrow> nmea" where
  "nmea_tail index calculated msg rest =
    (case rest of
       c0 # c1 # rest1 \<Rightarrow>
         (case strtoul16 [c0, c1] of
            None \<Rightarrow> Nmea RET_ERROR_NOT_FOUND msg rest1
          | Some v \<Rightarrow>
              (if c0 = 45 then Nmea RET_ERROR_NOT_FOUND msg rest1
               else if index + 1 \<ge> length msg then Nmea_Overflow
               else
                 let msg1 = msg[index := c0, index + 1 := c1]
                 in if calculated \<noteq> word_of_int v then Nmea RET_ERROR_NOT_FOUND msg1 rest1
                    else
                      (case rest1 of
                         [] \<Rightarrow> Nmea_Wait
                       | cr # rest2 \<Rightarrow>
                           (if cr \<noteq> 13 then Nmea RET_ERROR_NOT_FOUND msg1 rest2
                            else if index + 2 \<ge> length msg then Nmea_Overflow
                            else
                              (case rest2 of
                                 [] \<Rightarrow> Nmea_Wait
                               | lf # rest3 \<Rightarrow>
                                   (if lf \<noteq> 10 then Nmea RET_ERROR_NOT_FOUND (msg1[index + 2 := cr]) rest3
                                    else if index + 4 \<ge> length msg then Nmea_Overflow
                                    else Nmea RET_SUCCESS (msg1[index + 2 := cr, index + 3 := lf, index + 4 := 0]) rest3))))))
     | _ \<Rightarrow> Nmea_Wait)"

definition parse_nmea :: "u8 list \<Rightarrow> u8 list \<Rightarrow> nmea" where
  "parse_nmea msg input =
    (case input of
       [] \<Rightarrow> Nmea_Wait
     | ch # rest \<Rightarrow>
         (case nmea_body 1 0 (msg[0 := 36]) ch rest of
            None \<Rightarrow> Nmea_Wait
          | Some (index, calculated, msg1, ch', rest1) \<Rightarrow>
              (if index = NMEA_MAX_SIZE then Nmea RET_ERROR_NOT_FOUND msg1 rest1
               else nmea_tail (index + 1) calculated (msg1[index := ch']) rest1)))"

subsection \<open>Messages\<close>

record gnss_partial =
  nmea_part :: "u8 list"
  nmea_counter :: u32

definition c_string :: "u8 list \<Rightarrow> u8 list" where
  "c_string m = takeWhile (\<lambda>c. c \<noteq> 0) m"

text \<open>
  \<open>part_size\<close> is the size of the field. The second part is copied over the first, whose last byte is zero in
  both cases. \<open>ret1\<close> and \<open>ret2\<close> are what the two publications return; each publication that is made is listed with its
  result.
\<close>

definition send_nmea_message ::
    "nat \<Rightarrow> int \<Rightarrow> int \<Rightarrow> u8 list \<Rightarrow> u32 \<Rightarrow> int \<times> (gnss_partial \<times> int) list \<times> u32" where
  "send_nmea_message part_size ret1 ret2 nmea_str counter0 =
    (let counter1 = (if odd counter0 then counter0 + 1 else counter0);
         len = length (c_string nmea_str);
         m = min len (part_size - 1);
         first = \<lparr>nmea_part = take m (c_string nmea_str), nmea_counter = counter1\<rparr>;
         second = \<lparr>nmea_part = take (part_size - 1) (drop m (c_string nmea_str)), nmea_counter = counter1 + 1\<rparr>
     in if ret1 = 0 then (ret2, [(first, ret1), (second, ret2)], counter1 + 2) else (ret1, [(first, ret1)], counter1 + 2))"

text \<open>
  The thread on all characters it gets, with the results of its publications in turn (\<open>rets n\<close> for the sentence number \<open>n\<close>): the
  publications it has made, and whether it has written outside of its buffer, after which nothing is said.
\<close>

lemma nmea_body_shorter: "nmea_body i k msg ch rest = Some (i', k', msg', ch', rest') \<Longrightarrow> length rest' \<le> length rest"
  by (induction i k msg ch rest rule: nmea_body.induct) (auto split: if_splits)

lemma nmea_tail_shorter: "nmea_tail i k msg rest = Nmea ret msg' rest' \<Longrightarrow> length rest' \<le> length rest"
  by (auto simp: nmea_tail_def Let_def split: list.splits option.splits if_splits)

lemma parse_nmea_shorter: "parse_nmea msg input = Nmea ret msg' rest \<Longrightarrow> length rest \<le> length input"
  by (auto simp: parse_nmea_def split: list.splits option.splits if_splits dest!: nmea_body_shorter nmea_tail_shorter)

function gnss_thread ::
    "nat \<Rightarrow> (nat \<Rightarrow> int \<times> int) \<Rightarrow> u8 list \<Rightarrow> nat \<Rightarrow> u32 \<Rightarrow> u8 list \<Rightarrow> (gnss_partial \<times> int) list \<times> bool" where
  "gnss_thread part_size rets msg n k [] = ([], False)"
| "gnss_thread part_size rets msg n k (ch # input) =
    (if ch = 36 then
       (case parse_nmea msg input of
          Nmea_Wait \<Rightarrow> ([], False)
        | Nmea_Overflow \<Rightarrow> ([], True)
        | Nmea ret msg' rest \<Rightarrow>
            (if ret = RET_SUCCESS then
               let (_, sent, k') = send_nmea_message part_size (fst (rets n)) (snd (rets n)) msg' k;
                   (sents, over) = gnss_thread part_size rets msg' (n + 1) k' rest
               in (sent @ sents, over)
             else gnss_thread part_size rets msg' n k rest))
     else gnss_thread part_size rets msg n k input)"
  by pat_completeness auto
termination
  by (relation "measure (\<lambda>(_, _, _, _, _, input). length input)") (auto dest: parse_nmea_shorter)

definition nmea_buffer :: "u8 list" where
  "nmea_buffer = replicate (NMEA_MAX_SIZE + 1) 0"

subsection \<open>Sentences arrive whole\<close>

definition nmea_checksum :: "u8 list \<Rightarrow> u8" where
  "nmea_checksum body = foldl (XOR) 0 body"

definition hex_char :: "nat \<Rightarrow> u8" where
  "hex_char d = (if d < 10 then word_of_nat (48 + d) else word_of_nat (55 + d))"

text \<open>
  A sentence with any two characters for its checksum, one with its checksum in capital digits, and the bodies a sentence
  of at most 82 characters can have.
\<close>

definition nmea_frame :: "u8 list \<Rightarrow> u8 \<Rightarrow> u8 \<Rightarrow> u8 list" where
  "nmea_frame body h0 h1 = [36] @ body @ [42, h0, h1, 13, 10]"

definition nmea_sentence :: "u8 list \<Rightarrow> u8 list" where
  "nmea_sentence body = nmea_frame body (hex_char (unat (nmea_checksum body) div 16)) (hex_char (unat (nmea_checksum body) mod 16))"

definition nmea_frame_ok :: "u8 list \<Rightarrow> u8 \<Rightarrow> u8 \<Rightarrow> bool" where
  "nmea_frame_ok body h0 h1 \<longleftrightarrow>
     length (nmea_frame body h0 h1) \<le> NMEA_MAX_SIZE \<and> 42 \<notin> set body \<and> 0 \<notin> set body \<and> h0 \<noteq> 0 \<and> h1 \<noteq> 0"

text \<open>The two characters of the checksum read as the checksum of the body.\<close>

definition checksum_right :: "u8 list \<Rightarrow> u8 \<Rightarrow> u8 \<Rightarrow> bool" where
  "checksum_right body h0 h1 \<longleftrightarrow> h0 \<noteq> 45 \<and>
     (case strtoul16 [h0, h1] of Some v \<Rightarrow> nmea_checksum body = word_of_int v | None \<Rightarrow> False)"

lemma less_16:
  "d < 16 \<Longrightarrow> d = 0 \<or> d = 1 \<or> d = 2 \<or> d = 3 \<or> d = 4 \<or> d = 5 \<or> d = 6 \<or> d = 7 \<or> d = 8 \<or> d = 9 \<or> d = 10 \<or> d = 11 \<or>
    d = 12 \<or> d = 13 \<or> d = 14 \<or> d = (15 :: nat)"
  by presburger

lemma hex_char_digit: "d < 16 \<Longrightarrow> hex_digit (hex_char d) = Some d"
  by (drule less_16, elim disjE) (simp_all add: hex_char_def hex_digit_def)

lemma hex_char_plain: "d < 16 \<Longrightarrow> hex_char d \<noteq> 0 \<and> hex_char d \<noteq> 45 \<and> hex_char d \<noteq> 43 \<and> \<not> is_space (hex_char d)"
  by (drule less_16, elim disjE) (simp_all add: hex_char_def is_space_def)

lemma strtoul_hex: "a < 16 \<Longrightarrow> b < 16 \<Longrightarrow> strtoul16 [hex_char a, hex_char b] = Some (int (16 * a + b))"
  using hex_char_plain [of a] hex_char_plain [of b] hex_char_digit [of a] hex_char_digit [of b]
  by (simp add: strtoul16_def Let_def)

text \<open>For two capital digits the checksum is right when it is the number they write.\<close>

lemma checksum_right_hex:
  assumes "a < 16" "b < 16"
  shows "checksum_right body (hex_char a) (hex_char b) \<longleftrightarrow> unat (nmea_checksum body) = 16 * a + b"
proof -
  have "unat (word_of_nat (16 * a + b) :: u8) = 16 * a + b"
    using assms by (simp add: unsigned_of_nat take_bit_nat_eq_self del: of_nat_add of_nat_mult)
  then have "nmea_checksum body = word_of_nat (16 * a + b) \<longleftrightarrow> unat (nmea_checksum body) = 16 * a + b"
    by (simp only: word_unat_eq_iff)
  then show ?thesis using assms hex_char_plain [of a] by (simp add: checksum_right_def strtoul_hex)
qed

lemma checksum_digits: "unat (nmea_checksum body) div 16 < 16" "unat (nmea_checksum body) mod 16 < 16"
proof -
  have "unat (nmea_checksum body) < 2 ^ LENGTH(8)" by (rule unsigned_less)
  then show "unat (nmea_checksum body) div 16 < 16" "unat (nmea_checksum body) mod 16 < 16" by auto
qed

lemma checksum_right_sentence:
  "checksum_right body (hex_char (unat (nmea_checksum body) div 16)) (hex_char (unat (nmea_checksum body) mod 16))"
  using checksum_right_hex [OF checksum_digits] by simp

lemma nmea_body_loop:
  assumes "42 \<notin> set (ch # body)" "index + length body < NMEA_MAX_SIZE" "length msg = NMEA_MAX_SIZE + 1"
  shows "nmea_body index k msg ch (body @ 42 # rest) =
    Some (index + length (ch # body), foldl (XOR) k (ch # body),
      take index msg @ (ch # body) @ drop (index + length (ch # body)) msg, 42, rest)"
  using assms
proof (induction body arbitrary: index k msg ch)
  case Nil
  then show ?case by (cases rest) (simp_all add: upd_conv_take_nth_drop)
next
  case (Cons c body)
  have "nmea_body index k msg ch ((c # body) @ 42 # rest) =
      nmea_body (index + 1) (k XOR ch) (msg[index := ch]) c (body @ 42 # rest)"
    using Cons.prems by simp
  also have "\<dots> = Some (index + 1 + length (c # body), foldl (XOR) (k XOR ch) (c # body),
      take (index + 1) (msg[index := ch]) @ (c # body) @ drop (index + 1 + length (c # body)) (msg[index := ch]), 42, rest)"
    using Cons.prems by (intro Cons.IH) simp_all
  finally show ?case using Cons.prems by (simp add: take_Suc_conv_app_nth)
qed

lemma nmea_body_all:
  assumes "42 \<notin> set body" "length body + 1 < NMEA_MAX_SIZE" "length msg = NMEA_MAX_SIZE + 1"
  shows "(case body @ 42 # rest of ch # rest' \<Rightarrow> nmea_body 1 0 (msg[0 := 36]) ch rest') =
    Some (length body + 1, nmea_checksum body, 36 # body @ drop (length body + 1) msg, 42, rest)"
proof (cases body)
  case Nil
  have "msg = hd msg # tl msg" using assms(3) by (cases msg) simp_all
  then have "msg[0 := 36] = 36 # tl msg" by (metis list_update_code(2))
  then show ?thesis using Nil by (cases rest) (simp_all add: nmea_checksum_def drop_Suc)
next
  case (Cons ch body')
  have "take 1 (msg[0 := 36]) = [36 :: u8]" using assms(3) by (cases msg) simp_all
  then show ?thesis using assms Cons nmea_body_loop [of ch body' 1 "msg[0 := 36]" 0 rest]
    by (simp add: nmea_checksum_def)
qed

lemma nmea_tail_ok:
  assumes "strtoul16 [h0, h1] = Some v" "h0 \<noteq> 45" "k = word_of_int v" "i + 4 < length msg"
  shows "nmea_tail i k msg ([h0, h1, 13, 10] @ rest) =
    Nmea RET_SUCCESS (msg[i := h0, i + 1 := h1, i + 2 := 13, i + 3 := 10, i + 4 := 0]) rest"
  using assms by (simp add: nmea_tail_def Let_def)

lemma length_6: "length xs = 6 \<Longrightarrow> \<exists>a0 a1 a2 a3 a4 a5. xs = [a0, a1, a2, a3, a4, a5]"
  by (auto simp: length_Suc_conv eval_nat_numeral)

text \<open>The whole sentence: with a right checksum its length decides, with a wrong one the end of the line is left.\<close>

lemma parse_until_star:
  assumes "42 \<notin> set body" "length body + 1 < NMEA_MAX_SIZE" "length msg = NMEA_MAX_SIZE + 1"
  shows "parse_nmea msg (tl (nmea_frame body h0 h1) @ rest) =
    nmea_tail (length body + 2) (nmea_checksum body) ((36 # body @ drop (length body + 1) msg)[length body + 1 := 42]) ([h0, h1, 13, 10] @ rest)"
proof -
  obtain ch rest' where in': "body @ 42 # [h0, h1, 13, 10] @ rest = ch # rest'" by (cases body) simp_all
  have body: "nmea_body 1 0 (msg[0 := 36]) ch rest' =
      Some (length body + 1, nmea_checksum body, 36 # body @ drop (length body + 1) msg, 42, [h0, h1, 13, 10] @ rest)"
    using nmea_body_all [OF assms, of "[h0, h1, 13, 10] @ rest"] unfolding in' by simp
  have "tl (nmea_frame body h0 h1) @ rest = ch # rest'" using in' by (simp add: nmea_frame_def)
  then show ?thesis using body assms(2) by (simp add: parse_nmea_def)
qed

lemma parse_wrong:
  assumes "42 \<notin> set body" "length (nmea_frame body h0 h1) \<le> NMEA_MAX_SIZE" "length msg = NMEA_MAX_SIZE + 1"
    and "\<not> checksum_right body h0 h1"
  shows "\<exists>msg'. length msg' = NMEA_MAX_SIZE + 1 \<and>
    parse_nmea msg (tl (nmea_frame body h0 h1) @ rest) = Nmea RET_ERROR_NOT_FOUND msg' (13 # 10 # rest)"
proof -
  have l: "length body \<le> 76" using assms(2) by (simp add: nmea_frame_def NMEA_MAX_SIZE_def)
  show ?thesis
    using assms(4) l assms(3) parse_until_star [OF assms(1) _ assms(3), of h0 h1 rest]
    by (auto simp: nmea_tail_def checksum_right_def NMEA_MAX_SIZE_def Let_def split: option.splits)
qed

lemma parse_right:
  assumes "42 \<notin> set body" "length body + 1 < NMEA_MAX_SIZE" "length msg = NMEA_MAX_SIZE + 1" "checksum_right body h0 h1"
  shows "parse_nmea msg (tl (nmea_frame body h0 h1) @ rest) =
    (if length (nmea_frame body h0 h1) \<le> NMEA_MAX_SIZE
     then Nmea RET_SUCCESS (nmea_frame body h0 h1 @ 0 # drop (length body + 7) msg) rest
     else Nmea_Overflow)"
proof -
  let ?k = "nmea_checksum body" and ?m = "36 # body @ drop (length body + 1) msg"
  obtain v where hex: "strtoul16 [h0, h1] = Some v" and plain: "h0 \<noteq> 45" and k: "?k = word_of_int v"
    using assms(4) by (auto simp: checksum_right_def split: option.splits)
  note parse = parse_until_star [OF assms(1-3), of h0 h1 rest]
  have m: "length ?m = 83" using assms(2,3) by (simp add: NMEA_MAX_SIZE_def)
  show ?thesis
  proof (cases "length (nmea_frame body h0 h1) \<le> NMEA_MAX_SIZE")
    case False
    then show ?thesis using m assms(2) hex plain k unfolding parse
      by (auto simp: nmea_tail_def nmea_frame_def NMEA_MAX_SIZE_def Let_def)
  next
    case True
    then have l: "length body \<le> 76" by (simp add: nmea_frame_def NMEA_MAX_SIZE_def)
    have split: "drop (length body + 1) msg = take 6 (drop (length body + 1) msg) @ drop (length body + 7) msg"
    proof -
      have "drop (length body + 7) msg = drop 6 (drop (length body + 1) msg)" by (simp add: add.commute)
      then show ?thesis by (simp only: append_take_drop_id)
    qed
    obtain a0 a1 a2 a3 a4 a5 where six: "take 6 (drop (length body + 1) msg) = [a0, a1, a2, a3, a4, a5]"
      using length_6 [of "take 6 (drop (length body + 1) msg)"] l assms(3) by (auto simp: NMEA_MAX_SIZE_def)
    have end6: "drop (length body + 1) msg = [a0, a1, a2, a3, a4, a5] @ drop (length body + 7) msg"
      using split six by simp
    have tail: "nmea_tail (length body + 2) ?k (?m[length body + 1 := 42]) ([h0, h1, 13, 10] @ rest) =
        Nmea RET_SUCCESS ((?m[length body + 1 := 42])[length body + 2 := h0, length body + 2 + 1 := h1,
          length body + 2 + 2 := 13, length body + 2 + 3 := 10, length body + 2 + 4 := 0]) rest"
      using m l by (intro nmea_tail_ok [OF hex plain k]) simp
    have "(?m[length body + 1 := 42])[length body + 2 := h0, length body + 2 + 1 := h1,
        length body + 2 + 2 := 13, length body + 2 + 3 := 10, length body + 2 + 4 := 0] =
        nmea_frame body h0 h1 @ 0 # drop (length body + 7) msg"
      unfolding end6 by (simp add: nmea_frame_def list_update_append)
    then show ?thesis using True tail parse by simp
  qed
qed

subsection \<open>The stream\<close>

text \<open>The receiver of the messages: a part with an even counter and the next one are a sentence.\<close>

fun join_parts :: "gnss_partial list \<Rightarrow> u8 list list" where
  "join_parts (a # b # ms) =
    (if even (nmea_counter a) \<and> nmea_counter b = nmea_counter a + 1 then (nmea_part a @ nmea_part b) # join_parts ms else join_parts (b # ms))"
| "join_parts _ = []"

lemma even_u32_add: "even (k + 1 :: u32) = odd k" "even (k + 2 :: u32) = even k"
  by (simp_all add: even_word_iff) 

text \<open>What the receiver gets of the publications: those that succeed.\<close>

definition published :: "(gnss_partial \<times> int) list \<Rightarrow> gnss_partial list" where
  "published calls = map fst (filter (\<lambda>(m, ret). ret = 0) calls)"

lemma published_simps [simp]:
  "published [] = []" "published ((m, ret) # calls) = (if ret = 0 then m # published calls else published calls)"
  "published (xs @ ys) = published xs @ published ys"
  by (simp_all add: published_def)

text \<open>A list that does not begin in the middle of a sentence, and a first part without its second in front of one.\<close>

definition starts_even :: "gnss_partial list \<Rightarrow> bool" where
  "starts_even ms \<longleftrightarrow> (case ms of [] \<Rightarrow> True | m # _ \<Rightarrow> even (nmea_counter m))"

lemma join_alone: "even (nmea_counter a) \<Longrightarrow> starts_even ms \<Longrightarrow> join_parts (a # ms) = join_parts ms"
  by (cases ms) (auto simp: starts_even_def even_u32_add)

lemma c_string_frame: "nmea_frame_ok body h0 h1 \<Longrightarrow> c_string (nmea_frame body h0 h1 @ 0 # xs) = nmea_frame body h0 h1"
proof -
  assume "nmea_frame_ok body h0 h1"
  then have "\<forall>c \<in> set (nmea_frame body h0 h1). c \<noteq> 0" by (auto simp: nmea_frame_def nmea_frame_ok_def)
  then show ?thesis by (simp add: c_string_def takeWhile_append)
qed

lemma send_frame:
  assumes "nmea_frame_ok body h0 h1" "NMEA_MAX_SIZE \<le> 2 * (part_size - 1)"
  obtains ret calls k' where
    "send_nmea_message part_size ret1 ret2 (nmea_frame body h0 h1 @ 0 # xs) k = (ret, calls, k')"
    "\<And>ms. starts_even ms \<Longrightarrow> starts_even (published calls @ ms)"
    "\<And>ms. starts_even ms \<Longrightarrow> join_parts (published calls @ ms) =
      (if ret1 = 0 \<and> ret2 = 0 then nmea_frame body h0 h1 # join_parts ms else join_parts ms)"
proof -
  let ?f = "nmea_frame body h0 h1" and ?m = "min (length (nmea_frame body h0 h1)) (part_size - 1)"
  let ?k = "if odd k then k + 1 else k"
  have "length ?f \<le> 2 * (part_size - 1)" using assms by (simp add: nmea_frame_ok_def)
  then have "length (drop ?m ?f) \<le> part_size - 1" by simp
  then have whole: "take ?m ?f @ take (part_size - 1) (drop ?m ?f) = ?f" by simp
  have even: "even ?k" by (simp add: even_u32_add)
  define a b where "a = \<lparr>nmea_part = take ?m ?f, nmea_counter = ?k\<rparr>"
    and "b = \<lparr>nmea_part = take (part_size - 1) (drop ?m ?f), nmea_counter = ?k + 1\<rparr>"
  have two: "join_parts (a # b # ms) = ?f # join_parts ms" for ms using whole even by (simp add: a_def b_def)
  have one: "starts_even (a # ms)" "starts_even ms \<Longrightarrow> join_parts (a # ms) = join_parts ms" for ms
    using even by (simp add: starts_even_def a_def, intro join_alone) (simp_all add: a_def)
  let ?calls = "(a, ret1) # (if ret1 = 0 then [(b, ret2)] else [])"
  have send: "send_nmea_message part_size ret1 ret2 (?f @ 0 # xs) k = (if ret1 = 0 then ret2 else ret1, ?calls, ?k + 2)"
    by (simp add: send_nmea_message_def c_string_frame [OF assms(1)] a_def b_def Let_def)
  show thesis
  proof (rule that [OF send])
    fix ms assume even_ms: "starts_even ms"
    show "starts_even (published ?calls @ ms)" using even_ms one(1) by simp
    show "join_parts (published ?calls @ ms) = (if ret1 = 0 \<and> ret2 = 0 then ?f # join_parts ms else join_parts ms)"
      using two one(2) [OF even_ms] by (simp del: join_parts.simps)
  qed
qed

lemma gnss_noise: "36 \<notin> set noise \<Longrightarrow> gnss_thread ps rets msg n k (noise @ input) = gnss_thread ps rets msg n k input"
  by (induction noise) auto

lemma frame_input: "nmea_frame body h0 h1 @ input = 36 # (tl (nmea_frame body h0 h1) @ input)"
  by (simp add: nmea_frame_def)

lemma gnss_wrong:
  assumes "nmea_frame_ok body h0 h1" "length msg = NMEA_MAX_SIZE + 1" "\<not> checksum_right body h0 h1"
  shows "\<exists>msg'. length msg' = NMEA_MAX_SIZE + 1 \<and>
    gnss_thread ps rets msg n k (nmea_frame body h0 h1 @ input) = gnss_thread ps rets msg' n k input"
proof -
  obtain msg' where m: "length msg' = NMEA_MAX_SIZE + 1"
    "parse_nmea msg (tl (nmea_frame body h0 h1) @ input) = Nmea RET_ERROR_NOT_FOUND msg' (13 # 10 # input)"
    using parse_wrong [OF _ _ assms(2,3)] assms(1) by (auto simp: nmea_frame_ok_def)
  then show ?thesis unfolding frame_input by (intro exI [of _ msg']) simp
qed

lemma gnss_right:
  assumes "nmea_frame_ok body h0 h1" "length msg = NMEA_MAX_SIZE + 1" "checksum_right body h0 h1"
  defines "msg' \<equiv> nmea_frame body h0 h1 @ 0 # drop (length body + 7) msg"
  shows "length msg' = NMEA_MAX_SIZE + 1"
    "gnss_thread ps rets msg n k (nmea_frame body h0 h1 @ input) =
      (let (_, sent, k') = send_nmea_message ps (fst (rets n)) (snd (rets n)) msg' k;
           (sents, over) = gnss_thread ps rets msg' (n + 1) k' input
       in (sent @ sents, over))"
proof -
  have b: "42 \<notin> set body" "length body + 1 < NMEA_MAX_SIZE" "length (nmea_frame body h0 h1) \<le> NMEA_MAX_SIZE"
    using assms(1) by (auto simp: nmea_frame_ok_def nmea_frame_def)
  show "length msg' = NMEA_MAX_SIZE + 1"
    using assms(2) b(3) by (simp add: msg'_def nmea_frame_def NMEA_MAX_SIZE_def)
  have "parse_nmea msg (tl (nmea_frame body h0 h1) @ input) = Nmea RET_SUCCESS msg' input"
    using parse_right [OF b(1,2) assms(2,3), of input] b(3) by (simp add: msg'_def)
  then show "gnss_thread ps rets msg n k (nmea_frame body h0 h1 @ input) =
      (let (_, sent, k') = send_nmea_message ps (fst (rets n)) (snd (rets n)) msg' k;
           (sents, over) = gnss_thread ps rets msg' (n + 1) k' input
       in (sent @ sents, over))" unfolding frame_input by simp
qed

text \<open>A stream of sentences, each with what comes before it, and the sentences of it whose checksum is right.\<close>

type_synonym gnss_item = "u8 list \<times> u8 list \<times> u8 \<times> u8"

definition gnss_stream :: "gnss_item list \<Rightarrow> u8 list" where
  "gnss_stream items = concat (map (\<lambda>(noise, body, h0, h1). noise @ nmea_frame body h0 h1) items)"

definition gnss_item_ok :: "gnss_item \<Rightarrow> bool" where
  "gnss_item_ok = (\<lambda>(noise, body, h0, h1). 36 \<notin> set noise \<and> nmea_frame_ok body h0 h1)"

definition right_sentences :: "gnss_item list \<Rightarrow> u8 list list" where
  "right_sentences items =
    map (\<lambda>(noise, body, h0, h1). nmea_frame body h0 h1) (filter (\<lambda>(noise, body, h0, h1). checksum_right body h0 h1) items)"

text \<open>Those of them, counted from \<open>n\<close>, whose two publications succeed.\<close>

definition sent_sentences :: "(nat \<Rightarrow> int \<times> int) \<Rightarrow> nat \<Rightarrow> u8 list list \<Rightarrow> u8 list list" where
  "sent_sentences rets n ss = map snd (filter (\<lambda>(n, s). rets n = (0, 0)) (enumerate n ss))"

lemma gnss_stream_all:
  fixes rets :: "nat \<Rightarrow> int \<times> int"
  assumes "list_all gnss_item_ok items" "36 \<notin> set rest" "NMEA_MAX_SIZE \<le> 2 * (part_size - 1)" "length msg = NMEA_MAX_SIZE + 1"
  shows "\<exists>calls. gnss_thread part_size rets msg n k (gnss_stream items @ rest) = (calls, False) \<and>
    starts_even (published calls) \<and> join_parts (published calls) = sent_sentences rets n (right_sentences items)"
  using assms(1,4)
proof (induction items arbitrary: msg n k)
  case Nil
  then show ?case using gnss_noise [of rest part_size rets msg n k "[]"] assms(2)
    by (simp add: gnss_stream_def starts_even_def right_sentences_def sent_sentences_def)
next
  case (Cons item items)
  obtain noise body h0 h1 where item: "item = (noise, body, h0, h1)" by (cases item)
  have ok: "36 \<notin> set noise" "nmea_frame_ok body h0 h1" "list_all gnss_item_ok items"
    using Cons.prems(1) item by (simp_all add: gnss_item_ok_def)
  let ?f = "nmea_frame body h0 h1"
  have start: "gnss_thread part_size rets msg n k (gnss_stream (item # items) @ rest) =
      gnss_thread part_size rets msg n k (?f @ gnss_stream items @ rest)"
    using gnss_noise [OF ok(1)] by (simp add: gnss_stream_def item)
  show ?case
  proof (cases "checksum_right body h0 h1")
    case False
    obtain msg' where m: "length msg' = NMEA_MAX_SIZE + 1" "gnss_thread part_size rets msg n k (?f @ gnss_stream items @ rest) =
        gnss_thread part_size rets msg' n k (gnss_stream items @ rest)"
      using gnss_wrong [OF ok(2) Cons.prems(2) False] by blast
    then show ?thesis using Cons.IH [OF ok(3) m(1), of n k] False start by (simp add: right_sentences_def item)
  next
    case True
    note right = gnss_right [OF ok(2) Cons.prems(2) True]
    obtain ret calls k' where send: "send_nmea_message part_size (fst (rets n)) (snd (rets n)) (?f @ 0 # drop (length body + 7) msg) k = (ret, calls, k')"
      and even: "\<And>ms. starts_even ms \<Longrightarrow> starts_even (published calls @ ms)"
      and join: "\<And>ms. starts_even ms \<Longrightarrow> join_parts (published calls @ ms) =
        (if fst (rets n) = 0 \<and> snd (rets n) = 0 then ?f # join_parts ms else join_parts ms)"
      by (rule send_frame [OF ok(2) assms(3), where ?ret1.0 = "fst (rets n)" and ?ret2.0 = "snd (rets n)" and k = k
          and xs = "drop (length body + 7) msg"]) (rule that; blast)
    obtain calls' where IH: "gnss_thread part_size rets (?f @ 0 # drop (length body + 7) msg) (n + 1) k' (gnss_stream items @ rest) = (calls', False)"
      "starts_even (published calls')" "join_parts (published calls') = sent_sentences rets (n + 1) (right_sentences items)"
      using Cons.IH [OF ok(3) right(1), of "n + 1" k'] by blast
    have "sent_sentences rets n (right_sentences (item # items)) =
        (if fst (rets n) = 0 \<and> snd (rets n) = 0 then ?f # sent_sentences rets (n + 1) (right_sentences items)
         else sent_sentences rets (n + 1) (right_sentences items))"
      using True by (simp add: sent_sentences_def right_sentences_def item prod_eq_iff)
    then show ?thesis using IH even [OF IH(2)] join [OF IH(2)] unfolding start right(2) send by simp
  qed
qed

text \<open>
  C39. The characters the thread gets from its queue are sentences of at most 82 characters, without a zero or a second
  star, among characters other than the start of a sentence. Whatever the publications return, no write leaves the buffer,
  and the receiver, which gets what is published with success and puts the parts together by their counters, has exactly the
  sentences with a right checksum of which both publications succeed, each once, whole and in order.
\<close>

theorem gnss_sentences_roundtrip:
  assumes "list_all gnss_item_ok items" and "36 \<notin> set rest" and "NMEA_MAX_SIZE \<le> 2 * (part_size - 1)"
  shows "let (calls, over) = gnss_thread part_size rets nmea_buffer 0 k (gnss_stream items @ rest) in
    \<not> over \<and> join_parts (published calls) = sent_sentences rets 0 (right_sentences items)"
  using gnss_stream_all [OF assms, of nmea_buffer rets 0 k] by (auto simp: nmea_buffer_def)

text \<open>
  A sentence of 83 to 86 characters passes the check of the length, which is made before the star, the checksum and
  the end are stored: the thread writes up to four bytes behind its buffer.
\<close>

lemma gnss_overflow:
  assumes "42 \<notin> set body" "83 \<le> length (nmea_sentence body)" "length (nmea_sentence body) \<le> 86"
  shows "gnss_thread part_size rets nmea_buffer n k (nmea_sentence body @ rest) = ([], True)"
proof -
  have "parse_nmea nmea_buffer (tl (nmea_sentence body) @ rest) = Nmea_Overflow"
    using assms checksum_right_sentence [of body] unfolding nmea_sentence_def
    by (subst parse_right) (simp_all add: nmea_frame_def NMEA_MAX_SIZE_def nmea_buffer_def)
  then show ?thesis unfolding nmea_sentence_def frame_input by simp
qed

text \<open>A checksum with a sign or a blank, and one that ends with a zero byte, count as numbers.\<close>

lemma strtoul_lenient: "strtoul16 [43, 53] = Some 5" "strtoul16 [32, 53] = Some 5" "strtoul16 [0, 90] = Some 0"
  by (simp_all add: strtoul16_def hex_digit_def is_space_def)

text \<open>Three sentences, of which the second has a wrong checksum and the last loses its second part.\<close>

lemma gnss_sentences_roundtrip_witness:
  "let items = [([10, 13], [71, 80], 49, 55), ([], [71, 80], 49, 56), ([1, 42, 0], replicate 76 65, 48, 48)];
       rets = (\<lambda>n. if n = 1 then (0, - 1) else (0, 0));
       (calls, over) = gnss_thread 50 rets nmea_buffer 0 7 (gnss_stream items @ [1])
   in \<not> over \<and> join_parts (published calls) = sent_sentences rets 0 (right_sentences items)"
  using gnss_sentences_roundtrip [of "[([10, 13], [71, 80], 49, 55), ([], [71, 80], 49, 56), ([1, 42, 0], replicate 76 65, 48, 48)]"
      "[1]" 50 "\<lambda>n. if n = 1 then (0, - 1) else (0, 0)" 7]
  by (simp add: gnss_item_ok_def nmea_frame_ok_def nmea_frame_def NMEA_MAX_SIZE_def)

lemma gnss_witness_value:
  "sent_sentences (\<lambda>n. if n = 1 then (0, - 1) else (0, 0)) 0
      (right_sentences [([10, 13], [71, 80], 49, 55), ([], [71, 80], 49, 56), ([1, 42, 0], replicate 76 65, 48, 48)]) =
    [nmea_sentence [71, 80]]"
  by code_simp

end
