(* ===== verification/Led_Strip.thy ===== *)
theory Led_Strip
  imports Rgb_Leds
begin

unbundle bit_operations_syntax

text \<open>
  The drivers of the LED strips: pulses of a timer on Pearl (\<^verbatim>\<open>drivers/led_strip/ws2812_pwm_stm32.c\<close>), words over SPI on Diamond
  (\<^verbatim>\<open>drivers/led_strip/spi_rgb_led.c\<close>). Both turn a buffer of colours into the bytes a controller sends by itself; what the LEDs make
  of them is stated as a decoder.

  The registers of timer and controller are not modelled, and what the calls of the kernel and of the vendor's library return is an
  argument.
\<close>

subsection \<open>Pulses (Pearl)\<close>

definition WS2812_PERIOD_NS :: nat where "WS2812_PERIOD_NS = 1250"
definition WS2812_PERIOD_1_BIT_NS :: nat where "WS2812_PERIOD_1_BIT_NS = 600"
definition WS2812_PERIOD_0_BIT_NS :: nat where "WS2812_PERIOD_0_BIT_NS = 300"
definition NUM_RESET_PIXELS :: nat where "NUM_RESET_PIXELS = 65"

definition nsec_to_cycles :: "nat \<Rightarrow> nat \<Rightarrow> nat" where
  "nsec_to_cycles ns tim_clk = ns * tim_clk div 1000000000 mod 2 ^ 32"

text \<open>The state of the driver: the clock of the timer and one byte for each pulse.\<close>

record ws2812_data =
  tim_clk :: nat
  pixel_bits :: "u8 list"

definition color_pulses :: "u8 \<Rightarrow> u8 \<Rightarrow> u8 \<Rightarrow> u8 list" where
  "color_pulses one_bit zero_bit c = map (\<lambda>j. if bit c (7 - j) then one_bit else zero_bit) [0 ..< 8]"

definition pixel_pulses :: "u8 \<Rightarrow> u8 \<Rightarrow> led_rgb list \<Rightarrow> u8 list" where
  "pixel_pulses one_bit zero_bit pixels =
    concat (map (\<lambda>p. color_pulses one_bit zero_bit (led_g p) @ color_pulses one_bit zero_bit (led_r p) @
      color_pulses one_bit zero_bit (led_b p)) pixels)"

definition rgb_to_dma_pixels :: "led_rgb list \<Rightarrow> ws2812_data \<Rightarrow> ws2812_data" where
  "rgb_to_dma_pixels pixels d =
    (let zero_bit = word_of_nat (nsec_to_cycles WS2812_PERIOD_0_BIT_NS (tim_clk d));
         one_bit = word_of_nat (nsec_to_cycles WS2812_PERIOD_1_BIT_NS (tim_clk d))
     in d\<lparr>pixel_bits := mem_put (length pixels * 24) (replicate NUM_RESET_PIXELS 0)
       (mem_put 0 (pixel_pulses one_bit zero_bit pixels) (pixel_bits d))\<rparr>)"

text \<open>
  An update: the result, the state and the pulses the controller transfers. \<open>sem_ret\<close> is what waiting for the end of the
  transfer returns.
\<close>

definition ws2812_pwm_stm32_update_rgb ::
    "nat \<Rightarrow> int \<Rightarrow> led_rgb list \<Rightarrow> ws2812_data \<Rightarrow> int \<times> ws2812_data \<times> u8 list" where
  "ws2812_pwm_stm32_update_rgb num_leds sem_ret pixels d =
    (if length pixels > num_leds then (- EINVAL, d, [])
     else
       let d' = rgb_to_dma_pixels pixels d
       in (if sem_ret \<noteq> 0 then - 11 else 0, d', take (NUM_RESET_PIXELS + length pixels * 24) (pixel_bits d')))"

text \<open>The clock of the timer: what reading the rate of the bus returns, and the divider of the bus.\<close>

definition get_tim_clk :: "int \<Rightarrow> nat \<Rightarrow> nat \<Rightarrow> int + nat" where
  "get_tim_clk r bus_clk apb_psc =
    (if r < 0 then Inl r else Inr (if apb_psc = 1 then bus_clk else bus_clk * 2))"

text \<open>The table of the requests of the timers has holes; a timer without one is refused.\<close>

definition timer_number2dma_up_event :: "nat option list" where
  "timer_number2dma_up_event =
    [Some 1, Some 2, Some 3, Some 4, Some 5, None, None, Some 8, None, None, None, None, None, None, Some 15, Some 16, Some 17,
     None, None, Some 20]"

definition TIMER_MAX_CH :: nat where "TIMER_MAX_CH = 6"

record ws2812_env =
  sem_init_ret :: int
  clock_on_ret :: int
  clock_rate :: "int \<times> nat"
  apb_prescaler :: nat
  pinctrl_ret :: int
  tim_init_ok :: bool
  oc_init_ok :: bool
  dma_ready :: bool
  dma_max_ch :: nat

text \<open>
  The initialisation: its result and the clock, and the number of the request of the timer. \<open>None\<close>: the table is read outside of
  its entries.
\<close>

definition ws2812_pwm_stm32_init :: "nat \<Rightarrow> nat \<Rightarrow> nat \<Rightarrow> ws2812_env \<Rightarrow> (int \<times> (nat \<times> nat) option) option" where
  "ws2812_pwm_stm32_init timer_number timer_channel dma_channel e =
    (if sem_init_ret e < 0 then Some (sem_init_ret e, None)
     else if clock_on_ret e < 0 then Some (clock_on_ret e, None)
     else case get_tim_clk (fst (clock_rate e)) (snd (clock_rate e)) (apb_prescaler e) of
       Inl r \<Rightarrow> Some (r, None)
     | Inr clk \<Rightarrow>
         (if pinctrl_ret e < 0 then Some (pinctrl_ret e, None)
          else if \<not> tim_init_ok e then Some (- EIO, None)
          else if timer_channel < 1 \<or> timer_channel > TIMER_MAX_CH then Some (- EINVAL, None)
          else if \<not> oc_init_ok e then Some (- EIO, None)
          else if timer_number > length timer_number2dma_up_event + 1 then Some (- EINVAL, None)
          else if timer_number < 1 \<or> timer_number > length timer_number2dma_up_event then None
          else case timer_number2dma_up_event ! (timer_number - 1) of
            None \<Rightarrow> Some (- EINVAL, None)
          | Some request \<Rightarrow>
              (if \<not> dma_ready e then Some (- 16, None)
               else if dma_channel < 1 \<or> dma_channel > dma_max_ch e then Some (- EINVAL, None)
               else Some (0, Some (clk, request)))))"

subsection \<open>What the LEDs show (Pearl)\<close>

text \<open>
  An LED takes a pulse of more than 450 ns for a one, keeps 24 pulses, green, red and blue with the most significant bit first,
  and passes the following on until the line rests.
\<close>

definition one_pulse :: "nat \<Rightarrow> u8 \<Rightarrow> bool" where
  "one_pulse clk p \<longleftrightarrow> 450 * clk < unat p * 1000000000"

definition pulses_byte :: "nat \<Rightarrow> u8 list \<Rightarrow> u8" where
  "pulses_byte clk ps = horner_sum of_bool 2 (rev (map (one_pulse clk) ps))"

fun ws2812_shown :: "nat \<Rightarrow> nat \<Rightarrow> u8 list \<Rightarrow> (u8 \<times> u8 \<times> u8) list" where
  "ws2812_shown clk 0 ps = []"
| "ws2812_shown clk (Suc n) ps =
    (pulses_byte clk (take 8 (drop 8 ps)), pulses_byte clk (take 8 ps), pulses_byte clk (take 8 (drop 16 ps))) #
      ws2812_shown clk n (drop 24 ps)"

lemma length_color_pulses [simp]: "length (color_pulses o1 z c) = 8"
  by (simp add: color_pulses_def)

lemma upt_8: "[0 ..< 8] = [0, 1, 2, 3, 4, 5, 6, 7 :: nat]"
  by (simp add: upt_conv_Cons)

lemma pulses_byte_color:
  assumes "one_pulse clk o1" "\<not> one_pulse clk z"
  shows "pulses_byte clk (color_pulses o1 z c) = c"
proof -
  have "rev (map (one_pulse clk) (color_pulses o1 z c)) = map (bit c) [0 ..< 8]"
    using assms unfolding color_pulses_def upt_8 by simp
  moreover have "take_bit 8 c = c" using take_bit_length_eq [of c] by simp
  ultimately show ?thesis by (simp only: pulses_byte_def horner_sum_bit_eq_take_bit)
qed

text \<open>For the clocks of the boards the two pulses fit into a byte and are told apart.\<close>

lemma pulses_apart:
  assumes "10000000 \<le> clk" "clk \<le> 400000000"
  shows "one_pulse clk (word_of_nat (nsec_to_cycles WS2812_PERIOD_1_BIT_NS clk))"
    and "\<not> one_pulse clk (word_of_nat (nsec_to_cycles WS2812_PERIOD_0_BIT_NS clk))"
proof -
  have le: "ns * clk div 1000000000 \<le> 255" if "ns \<le> 600" for ns
  proof -
    have "ns * clk \<le> 600 * 400000000" using that assms by (intro mult_le_mono) simp_all
    then show ?thesis by (simp add: div_le_mono [of _ _ 1000000000, THEN order_trans])
  qed
  have cycles: "unat (word_of_nat (nsec_to_cycles ns clk) :: u8) = ns * clk div 1000000000" if "ns \<le> 600" for ns
    using le [OF that] by (simp add: nsec_to_cycles_def unat_of_nat)
  have "ns * clk div 1000000000 * 1000000000 \<le> ns * clk" for ns by (rule div_times_less_eq_dividend)
  moreover have "ns * clk < (ns * clk div 1000000000 + 1) * 1000000000" for ns
    using dividend_less_div_times [of 1000000000 "ns * clk"] by simp
  ultimately show "one_pulse clk (word_of_nat (nsec_to_cycles WS2812_PERIOD_1_BIT_NS clk))"
    "\<not> one_pulse clk (word_of_nat (nsec_to_cycles WS2812_PERIOD_0_BIT_NS clk))"
    using assms le [of 600] le [of 300]
    by (simp_all add: one_pulse_def cycles WS2812_PERIOD_1_BIT_NS_def WS2812_PERIOD_0_BIT_NS_def)
qed

lemma ws2812_shown_pulses:
  assumes "one_pulse clk o1" "\<not> one_pulse clk z"
  shows "ws2812_shown clk (length pixels) (pixel_pulses o1 z pixels @ rest) = map led_rgb_values pixels"
  by (induction pixels) (simp_all add: pixel_pulses_def pulses_byte_color [OF assms] led_rgb_values_def)

lemma length_pixel_pulses [simp]: "length (pixel_pulses o1 z pixels) = 24 * length pixels"
  by (induction pixels) (simp_all add: pixel_pulses_def)

text \<open>
  C40. An update of at most as many LEDs as the strip has sends 24 pulses for each and then holds the line low for the reset;
  every LED, which keeps the pulses that reach it first, shows the colour it has been given. More LEDs are refused, and
  nothing is sent.
\<close>

theorem ws2812_shows_pixels:
  assumes "10000000 \<le> tim_clk d" and "tim_clk d \<le> 400000000"
    and "length (pixel_bits d) = NUM_RESET_PIXELS + 24 * num_leds"
  shows "let (ret, d', sent) = ws2812_pwm_stm32_update_rgb num_leds 0 pixels d in
    if length pixels \<le> num_leds
    then ret = 0 \<and> length sent = 24 * length pixels + NUM_RESET_PIXELS \<and>
      ws2812_shown (tim_clk d) (length pixels) sent = map led_rgb_values pixels \<and>
      drop (24 * length pixels) sent = replicate NUM_RESET_PIXELS 0 \<and> length (pixel_bits d') = length (pixel_bits d)
    else ret = - EINVAL \<and> d' = d \<and> sent = []"
proof (cases "length pixels \<le> num_leds")
  case True
  let ?z = "word_of_nat (nsec_to_cycles WS2812_PERIOD_0_BIT_NS (tim_clk d)) :: u8"
  let ?o = "word_of_nat (nsec_to_cycles WS2812_PERIOD_1_BIT_NS (tim_clk d)) :: u8"
  let ?bits = "pixel_pulses ?o ?z pixels"
  have room: "24 * length pixels + NUM_RESET_PIXELS \<le> length (pixel_bits d)" using True assms(3) by simp
  have put: "mem_put (24 * length pixels) (replicate NUM_RESET_PIXELS 0) (mem_put 0 ?bits (pixel_bits d)) =
      ?bits @ replicate NUM_RESET_PIXELS 0 @ drop (24 * length pixels + NUM_RESET_PIXELS) (pixel_bits d)"
    using mem_put_append [of 0 ?bits "pixel_bits d" "replicate NUM_RESET_PIXELS 0"] room by (simp add: mem_put_def)
  have sent: "snd (snd (ws2812_pwm_stm32_update_rgb num_leds 0 pixels d)) = ?bits @ replicate NUM_RESET_PIXELS 0"
    using True unfolding ws2812_pwm_stm32_update_rgb_def rgb_to_dma_pixels_def Let_def
    by (simp add: mult.commute [of _ 24] put)
  have "ws2812_shown (tim_clk d) (length pixels) (?bits @ replicate NUM_RESET_PIXELS 0) = map led_rgb_values pixels"
    by (rule ws2812_shown_pulses [OF pulses_apart [OF assms(1,2)]])
  moreover have "length (pixel_bits (fst (snd (ws2812_pwm_stm32_update_rgb num_leds 0 pixels d)))) = length (pixel_bits d)"
    using True room unfolding ws2812_pwm_stm32_update_rgb_def rgb_to_dma_pixels_def Let_def
    by (simp add: mult.commute [of _ 24] put)
  moreover have "fst (ws2812_pwm_stm32_update_rgb num_leds 0 pixels d) = 0"
    using True by (simp add: ws2812_pwm_stm32_update_rgb_def Let_def)
  ultimately show ?thesis using True sent by (simp add: split_def Let_def)
qed (simp add: ws2812_pwm_stm32_update_rgb_def)

text \<open>A timer with the number after the last of the table passes the check, and the table is read behind its end.\<close>

lemma ws2812_timer_table:
  assumes "sem_init_ret e = 0" "clock_on_ret e = 0" "fst (clock_rate e) = 0" "pinctrl_ret e = 0" "tim_init_ok e" "oc_init_ok e"
    "1 \<le> channel" "channel \<le> TIMER_MAX_CH"
  shows "ws2812_pwm_stm32_init 21 channel dma e = None"
  using assms by (simp add: ws2812_pwm_stm32_init_def get_tim_clk_def timer_number2dma_up_event_def)

subsection \<open>Words over SPI (Diamond)\<close>

definition CONFIG_SPI_RGB_LED_BUFFER_SIZE :: nat where "CONFIG_SPI_RGB_LED_BUFFER_SIZE = 544"

text \<open>What is written to the bus: the start, four bytes for each LED, and the end.\<close>

definition spi_rgb_led_update :: "u8 list \<Rightarrow> u8 list" where
  "spi_rgb_led_update buf = [0, 0, 0, 0] @ buf @ replicate (length buf div 4 div 8 div 2 + 1) 255"

definition led_word :: "led_rgb \<Rightarrow> u8 list" where
  "led_word p = [0xE0 OR (scratch p AND 0x1F), led_g p, led_b p, led_r p]"

text \<open>
  An update: the result and what is written. \<open>None\<close>: the buffer of the driver is too small, which only an assertion for
  debugging looks at. \<open>sem_ret\<close> and \<open>spi_ret\<close> are what taking the semaphore and writing to the bus return.
\<close>

definition spi_rgb_led_update_rgb :: "int \<Rightarrow> int \<Rightarrow> led_rgb list \<Rightarrow> (int \<times> u8 list) option" where
  "spi_rgb_led_update_rgb sem_ret spi_ret pixels =
    (if sem_ret \<noteq> 0 then Some (sem_ret, [])
     else if length pixels * 4 > CONFIG_SPI_RGB_LED_BUFFER_SIZE then None
     else Some (spi_ret, spi_rgb_led_update (concat (map led_word pixels))))"

definition spi_rgb_led_init :: "bool \<Rightarrow> int" where
  "spi_rgb_led_init ready = (if \<not> ready then - ENODEV else 0)"

text \<open>
  After 32 zeros each LED takes the first word that starts with three ones: brightness, green, blue and red. A word reaches
  the next LED half a clock later, so that after the words of \<open>n\<close> LEDs \<open>n / 2\<close> more clocks are needed.
\<close>

fun spi_leds_shown :: "nat \<Rightarrow> u8 list \<Rightarrow> (u8 \<times> u8 \<times> u8 \<times> u8) list option" where
  "spi_leds_shown 0 bs = Some []"
| "spi_leds_shown (Suc n) (p # g # b # r # bs) =
    (if p AND 0xE0 = 0xE0 then map_option ((#) (p AND 0x1F, r, g, b)) (spi_leds_shown n bs) else None)"
| "spi_leds_shown (Suc n) _ = None"

lemma led_word_prefix: "(0xE0 OR (x AND 0x1F)) AND 0xE0 = (0xE0 :: u8)" "(0xE0 OR (x AND 0x1F)) AND 0x1F = (x :: u8) AND 0x1F"
proof -
  have disjoint: "0xE0 AND 0x1F = (0 :: u8)" "0x1F AND 0xE0 = (0 :: u8)" by simp_all
  show "(0xE0 OR (x AND 0x1F)) AND 0xE0 = (0xE0 :: u8)"
    by (simp only: bit.conj_disj_distrib2 and.assoc disjoint and_zero_eq or.right_neutral and.idem)
  show "(0xE0 OR (x AND 0x1F)) AND 0x1F = (x :: u8) AND 0x1F"
    by (simp only: bit.conj_disj_distrib2 and.assoc disjoint and.idem or.left_neutral)
qed

lemma spi_leds_shown_words:
  "spi_leds_shown (length pixels) (concat (map led_word pixels) @ rest) =
    Some (map (\<lambda>p. (scratch p AND 0x1F, led_rgb_values p)) pixels)"
  by (induction pixels) (simp_all add: led_word_def led_word_prefix led_rgb_values_def)

text \<open>Both strips of Diamond fit, each LED shows its brightness and its colour, and there are enough clocks for the last one.\<close>

lemma spi_leds_show_pixels:
  assumes "length pixels \<le> 136"
  obtains end_frame where "spi_rgb_led_update_rgb 0 ret pixels = Some (ret, [0, 0, 0, 0] @ concat (map led_word pixels) @ end_frame)"
    and "spi_leds_shown (length pixels) (concat (map led_word pixels) @ end_frame) =
      Some (map (\<lambda>p. (scratch p AND 0x1F, led_rgb_values p)) pixels)"
    and "length pixels \<le> 2 * (8 * length end_frame)"
proof -
  have "length (concat (map led_word pixels)) = 4 * length pixels"
    by (induction pixels) (simp_all add: led_word_def)
  then show thesis using assms
    by (intro that [of "replicate (length pixels div 8 div 2 + 1) 255"])
      (simp_all add: spi_rgb_led_update_rgb_def CONFIG_SPI_RGB_LED_BUFFER_SIZE_def spi_rgb_led_update_def spi_leds_shown_words
        flip: div_mult2_eq)
qed

lemma ws2812_shows_pixels_witness:
  "let d = \<lparr>tim_clk = 170000000, pixel_bits = replicate 113 7\<rparr>;
       pixels = [\<lparr>scratch = 0, led_r = 255, led_g = 1, led_b = 0\<rparr>];
       (ret, d', sent) = ws2812_pwm_stm32_update_rgb 2 0 pixels d
   in ret = 0 \<and> length sent = 89 \<and> ws2812_shown 170000000 1 sent = [(255, 1, 0)]"
  using ws2812_shows_pixels [of "\<lparr>tim_clk = 170000000, pixel_bits = replicate 113 7\<rparr>" 2
      "[\<lparr>scratch = 0, led_r = 255, led_g = 1, led_b = 0\<rparr>]"]
  by (simp add: NUM_RESET_PIXELS_def led_rgb_values_def split_def Let_def)

end
