(* ===== verification/Als.thy ===== *)
theory Als
  imports Front_Leds
begin

text \<open>
  Ambient light (\<^verbatim>\<open>main_board/src/ui/ambient_light/als.c\<close>): a thread reads the sensor once a second, marks what it cannot trust and
  publishes it. A turn of the thread is a function of what the lock, the front LEDs and the sensor return.
\<close>

datatype als_flag = ALS_OK | ALS_ERR_RANGE | ALS_ERR_LEDS_INTERFERENCE

text \<open>
  The message is a local variable of the thread: \<open>als_lux\<close> is \<open>None\<close> until it is first written. \<open>als_state\<close> is what the component has
  last reported of itself.
\<close>

record als =
  als_flag :: als_flag
  als_lux :: "int option"
  error_count :: nat
  als_state :: "ret_code_t option"
  als_log :: "(als_flag \<times> int option) list"

record als_env =
  mutex_free :: bool
  shroud_free :: bool
  fetch_ret :: int
  get_ret :: int
  lux :: int

definition ERROR_STATE_COUNT :: nat where "ERROR_STATE_COUNT = 3"
definition ERANGE :: int where "ERANGE = 34"

definition als_error :: "als \<Rightarrow> als" where
  "als_error s = (let s1 = s\<lparr>error_count := error_count s + 1\<rparr>
     in if error_count s1 > ERROR_STATE_COUNT then s1\<lparr>als_state := Some RET_ERROR_INTERNAL\<rparr> else s1)"

definition als_publish :: "als \<Rightarrow> als" where
  "als_publish s =
    (let s1 = s\<lparr>als_log := als_log s @ [(als_flag s, als_lux s)]\<rparr>
     in if error_count s1 > 0 then s1\<lparr>als_state := Some RET_SUCCESS, error_count := 0\<rparr> else s1)"

text \<open>One turn, with the front LEDs as they are.\<close>

definition als_turn :: "board \<Rightarrow> als_env \<Rightarrow> front_leds \<Rightarrow> als \<Rightarrow> als" where
  "als_turn b e leds s =
    (if \<not> mutex_free e then s
     else
       let s1 = s\<lparr>als_flag := (if b = Diamond \<and> front_leds_is_shroud_on (shroud_free e) leds
             then ALS_ERR_LEDS_INTERFERENCE else ALS_OK)\<rparr>
       in if fetch_ret e \<noteq> 0 then als_error s1
          else if get_ret e = - ERANGE then als_publish (s1\<lparr>als_flag := ALS_ERR_RANGE\<rparr>)
          else if get_ret e \<noteq> 0 then (als_error s1)\<lparr>error_count := error_count (als_error s1) + 1\<rparr>
          else als_publish (s1\<lparr>als_lux := Some (lux e)\<rparr>))"

definition als_thread :: "board \<Rightarrow> (als_env \<times> front_leds) list \<Rightarrow> als \<Rightarrow> als" where
  "als_thread b es s = fold (\<lambda>(e, leds). als_turn b e leds) es s"

text \<open>
  The start: whether there is a sensor, the version of the front unit (of which some have none), and whether the sensor is ready. The
  result, what is reported and whether the thread starts.
\<close>

definition als_init :: "bool \<Rightarrow> bool \<Rightarrow> bool \<Rightarrow> ret_code_t \<times> ret_code_t \<times> bool" where
  "als_init present fu_without_als ready =
    (if \<not> present \<or> fu_without_als then (RET_SUCCESS, RET_SUCCESS, False)
     else if \<not> ready then (RET_ERROR_INTERNAL, RET_ERROR_NOT_INITIALIZED, False)
     else (RET_SUCCESS, RET_SUCCESS, True))"

subsection \<open>Properties\<close>

lemma als_turns_simps [simp]:
  "als_thread b [] s = s" "als_thread b ((e, leds) # es) s = als_thread b es (als_turn b e leds s)"
  by (simp_all add: als_thread_def)

text \<open>A value is published as valid exactly when it has been read and the centre of the front LEDs is dark.\<close>

definition reads_value :: "als_env \<Rightarrow> bool" where
  "reads_value e \<longleftrightarrow> mutex_free e \<and> fetch_ret e = 0 \<and> get_ret e = 0"

lemma als_valid_only_dark:
  "als_log (als_turn b e leds s) = als_log s @ [(ALS_OK, x)] \<longleftrightarrow>
    reads_value e \<and> \<not> (b = Diamond \<and> front_leds_is_shroud_on (shroud_free e) leds) \<and> x = Some (lux e)"
  by (auto simp: als_turn_def als_error_def als_publish_def reads_value_def ERANGE_def Let_def)

text \<open>A reading that is out of range is published with the value of the last reading that was not, or with none.\<close>

lemma als_range_stale:
  assumes "mutex_free e" "fetch_ret e = 0" "get_ret e = - ERANGE"
  shows "als_log (als_turn b e leds s) = als_log s @ [(ALS_ERR_RANGE, als_lux s)]"
  using assms by (simp add: als_turn_def als_publish_def Let_def)

text \<open>The error is reported at the fourth failed fetch in a row, and at the third failed conversion, which counts twice.\<close>

lemma als_error_reported:
  assumes "error_count s = 0" "als_state s = None" "mutex_free e" "mutex_free e'" "fetch_ret e \<noteq> 0" "fetch_ret e' = 0"
    "get_ret e' \<noteq> 0" "get_ret e' \<noteq> - ERANGE"
  shows "als_state (als_thread b (replicate n (e, leds)) s) = (if n < 4 then None else Some RET_ERROR_INTERNAL)"
    and "als_state (als_thread b (replicate n (e', leds)) s) = (if n < 3 then None else Some RET_ERROR_INTERNAL)"
proof -
  have "error_count (als_thread b (replicate n (e, leds)) s) = error_count s + n \<and>
    als_state (als_thread b (replicate n (e, leds)) s) =
      (if error_count s + n > 3 \<and> 0 < n then Some RET_ERROR_INTERNAL else als_state s)" for s
    using assms(3,5)
    by (induction n arbitrary: s) (auto simp: als_turn_def als_error_def ERROR_STATE_COUNT_def Let_def)
  from this [of s] show "als_state (als_thread b (replicate n (e, leds)) s) = (if n < 4 then None else Some RET_ERROR_INTERNAL)"
    using assms(1,2) by auto
  have "error_count (als_thread b (replicate n (e', leds)) s) = error_count s + 2 * n \<and>
    als_state (als_thread b (replicate n (e', leds)) s) =
      (if error_count s + 2 * n > 4 \<and> 0 < n then Some RET_ERROR_INTERNAL else als_state s)" for s
    using assms(4,6-8)
    by (induction n arbitrary: s) (auto simp: als_turn_def als_error_def ERROR_STATE_COUNT_def Let_def)
  from this [of s] show "als_state (als_thread b (replicate n (e', leds)) s) = (if n < 3 then None else Some RET_ERROR_INTERNAL)"
    using assms(1,2) by auto
qed

end
