(* ===== verification/Spec2Isabelle.thy ===== *)
theory Spec2Isabelle
  imports Runner_Jobs Proximity Button Liquid_Lens Drv8434s Config Version Mux Operator_Leds Battery_Amber Gnss Led_Strip Als
begin

text \<open>
  A verification library for the firmware of the Orb (\<^verbatim>\<open>orb-firmware\<close>, C on Zephyr).

  \<^bold>\<open>The program.\<close> The main board of the Orb is a microcontroller next to a Jetson computer and a
  security microcontroller. Commands arrive over CAN (\<^verbatim>\<open>lib/can_messaging\<close>), over a UART
  (\<^verbatim>\<open>lib/uart_messaging\<close>) or from the shell, and the runner (\<^verbatim>\<open>main_board/src/runner\<close>) hands each
  to the component it is for and acknowledges it. What the board has to say goes through
  \<^verbatim>\<open>main_board/src/pubsub\<close>, which sends it, drops it or keeps it in the flash store
  (\<^verbatim>\<open>lib/storage\<close>) while the remote is not listening. Optics (camera timing and infrared LEDs,
  mirror, distance sensor, liquid lens, polarizer wheel), temperature and fans, batteries and supplies, LEDs and
  the GNSS receiver each run interrupts and a thread of their own. Both microcontrollers are updated through
  \<^verbatim>\<open>lib/dfu\<close>. A fatal condition, a heartbeat or a watchdog that runs out and the power button reset the board.

  \<^bold>\<open>Theories\<close>, in the order of imports. Below, \<^verbatim>\<open>mb\<close> is \<^verbatim>\<open>src/main_board/src\<close>, \<^verbatim>\<open>lib\<close> is \<^verbatim>\<open>src/lib\<close>.

  \<^item> \<^theory_text>\<open>Orb_Prelude\<close>: C integer types as words, the codes of \<^verbatim>\<open>lib/include/errors.h\<close>, the boards,
    generic lemmas. \<^theory_text>\<open>Kernel\<close>: semaphores, queues, pools as records of functions with locales for what they promise.
  \<^item> \<^theory_text>\<open>Flash_Driver\<close>, \<^theory_text>\<open>Storage\<close> (\<^verbatim>\<open>lib/storage/storage.c\<close>): the state is the flash and the two indices
    of \<^verbatim>\<open>struct storage_area_s\<close>; each operation is the definition of its name. \<open>represents\<close> relates the
    flash to the queue of records it holds; the store refines a bounded queue, and \<open>storage_init\<close> finds the
    indices again. The laws of the flash driver are the locales \<open>nor_flash\<close> and \<open>reliable_flash\<close>.
  \<^item> \<^theory_text>\<open>Dfu\<close> (\<^verbatim>\<open>lib/dfu/dfu.c\<close>): the calls and the single transitions of the thread (\<open>dfu_thread_step\<close>, with a program counter,
    since the runner preempts it) are the steps of an inductive relation over the receive buffer and the two semaphores;
    \<open>thread_run_turn\<close> puts the transitions together to a turn; buffer safety outside the window in which an activation
    overruns the buffer (\<open>dfu_activation_overruns\<close>), the functional result of a whole transfer,
    the image check, activation.
  \<^item> \<^theory_text>\<open>Can_Messaging\<close> (\<^verbatim>\<open>lib/can_messaging/*.c\<close>): senders, thread, driver callbacks and resets are the steps of
    \<open>can_tx_step\<close>; order and integrity of the frames; reassembly of ISO-TP messages.
  \<^item> \<^theory_text>\<open>Pubsub\<close> (\<^verbatim>\<open>mb/pubsub/pubsub.c\<close>): publishing by priority, subscribers, and the thread that flushes the store.
  \<^item> \<^theory_text>\<open>C_Float\<close>: rounding of C \<^verbatim>\<open>double\<close> and \<^verbatim>\<open>float\<close> as an exact function on reals with its error and monotonicity.
    \<^theory_text>\<open>Ir_Timer_Settings\<close>, \<^theory_text>\<open>Ir_Camera\<close>, \<^theory_text>\<open>Ir_Camera_Safety\<close> (\<^verbatim>\<open>mb/optics/ir_camera_system\<close>): the timer registers, the
    commands and interrupt handlers, sweeps; limits of the LED pulses in every order of events.
  \<^item> \<^theory_text>\<open>Proximity\<close> (\<^verbatim>\<open>mb/optics/1d_tof/tof_1d.c\<close>, \<^verbatim>\<open>mb/optics/optics.c\<close>): the distance sensor and the callback that
    turns the LEDs off, composed with the camera system. \<^theory_text>\<open>Mirror\<close> (\<^verbatim>\<open>mb/optics/mirror\<close>): positions and homing.
    \<^theory_text>\<open>Polarizer\<close> (\<^verbatim>\<open>mb/optics/polarizer_wheel\<close>): stepper interrupts, ramps, homing, calibration. \<^theory_text>\<open>Drv8434s\<close>
    (\<^verbatim>\<open>polarizer_wheel/drv8434s\<close>): the registers of its driver chip. \<^theory_text>\<open>Liquid_Lens\<close> (\<^verbatim>\<open>mb/optics/liquid_lens\<close>): the current
    controller and its timer. \<^theory_text>\<open>Mux\<close> (\<^verbatim>\<open>src/drivers/mux_gpio\<close>): the multiplexers of the buses.
  \<^item> \<^theory_text>\<open>Fan\<close>, \<^theory_text>\<open>Temperature\<close> (\<^verbatim>\<open>mb/temperature\<close>): fan settings in single precision, tachometers, averages, and the
    over-temperature counter that takes the fan over.
  \<^item> \<^theory_text>\<open>Uart\<close> (\<^verbatim>\<open>lib/uart_messaging\<close>): the framing over a ring buffer, and \<open>uart_system\<close>, the reception together with the queue of
    six messages and the thread that decodes them. \<^theory_text>\<open>Health\<close> (\<^verbatim>\<open>lib/health_monitoring\<close>,
    \<^verbatim>\<open>lib/watchdog\<close>, \<^verbatim>\<open>mb/system/ping_sec.c\<close>): heartbeat, ping, component states, watchdog.
  \<^item> \<^theory_text>\<open>Boot\<close> (\<^verbatim>\<open>mb/power/boot/boot.c\<close>, \<^verbatim>\<open>lib/storage/backup_regs.c\<close>), \<^theory_text>\<open>Button\<close> (\<^verbatim>\<open>mb/ui/button/button.c\<close>): supplies as a
    map from pins to their configuration, the decision to boot, delayed reboots, the power button.
  \<^item> \<^theory_text>\<open>Runner\<close>, \<^theory_text>\<open>Runner_Jobs\<close> (\<^verbatim>\<open>mb/runner/runner.c\<close>): \<open>runner\<close> gathers the states of the components the
    handlers call; one definition per handler; the threads that bring jobs.
  \<^item> \<^theory_text>\<open>Voltage\<close> (\<^verbatim>\<open>mb/voltage_measurement\<close>): converter callbacks, statistics, publication, super capacitors, self test.
  \<^item> \<^theory_text>\<open>Battery_Common\<close>, \<^theory_text>\<open>Battery_Ruby\<close>, \<^theory_text>\<open>Battery_Amber\<close> (\<^verbatim>\<open>mb/power/battery\<close>): frames of the battery's CAN bus and registers
    of the gas gauge, the turn of the thread, the watch of the link, the start-up.

  \<^item> \<^theory_text>\<open>Config\<close> (\<^verbatim>\<open>mb/system/config\<close>): the configuration over the flash store, a power loss between any two flash calls of
    a setting (\<open>config_set_interrupted\<close>); it refines a cell that loses or keeps the value in question. \<^theory_text>\<open>Version\<close>
    (\<^verbatim>\<open>mb/system/version\<close>): reading and keeping the versions of the boards.
  \<^item> \<^theory_text>\<open>Rgb_Leds\<close>, \<^theory_text>\<open>Front_Leds\<close>, \<^theory_text>\<open>Operator_Leds\<close> (\<^verbatim>\<open>mb/ui/rgb_leds\<close>): patterns, sequences and the threads that show them.
    \<^theory_text>\<open>Led_Strip\<close> (\<^verbatim>\<open>src/drivers/led_strip\<close>): what is sent on the line. \<^theory_text>\<open>Als\<close> (\<^verbatim>\<open>mb/ui/ambient_light\<close>): the light sensor.
  \<^item> \<^theory_text>\<open>Gnss\<close> (\<^verbatim>\<open>mb/gnss/gnss.c\<close>): the parser of the receiver's sentences and their publication in two parts.

  \<^bold>\<open>How code becomes definitions.\<close> A module's static variables are a record, an operation is a function from
  state (and the results of the drivers it calls) to state and return code. Where several threads
  and interrupts share state, the places where they can alternate are the steps of an inductive relation
  or the entries of an event list, and properties hold for every sequence of them. Machine integers are
  words where wrap-around matters. Calls with no effect on the modelled state (log
  output, LED patterns, pins not read back) are left out; calls into a part without a model are recorded in a list of
  outputs. A failed hard assertion is the value \<open>None\<close> or an output that resets the board.
  Sources outside the repository are parameters: kernel, drivers, CAN and ISO-TP stack, message encoder,
  boot loader, checksums, and values of devicetree and message definitions. What they promise
  is in locales, each interpreted on a concrete instance, or in named hypotheses with a witness.

  \<^bold>\<open>Termination.\<close> Loops are structural or well-founded recursions. Where a loop need not
  end it is a \<^theory_text>\<open>partial_function\<close> into \<open>option\<close> (waiting for the button, reconfiguring the distance sensor,
  scanning the UART's ring buffer), and returning is a theorem. Waits on hardware take what the hardware
  says as a function of the number of waits. Retries are bounded by the constants of the code; no
  definition has fuel of its own.

  \<^bold>\<open>What the properties show.\<close> C1 and C2: the store keeps its records, over operations and over power cycles. C3 to C5: updates
  are written whole, the buffer is safe, images are checked. C6 to C9 and C17: messages are sent, published, stored and
  received in order and whole. C10 to C16: camera timing, mirror, distance sensor and temperature stay within limits, loops end.
  C18 to C20: boot, reboot and button. C21 and C22: the runner. C23 and C34, which span components, are in this theory. C24 to C27,
  C31, C32 and C36: polarizer wheel, liquid lens, driver chip, multiplexers. C28 to C30: voltages and batteries. C33: configuration.
  C35: versions. C37, C38 and C40: LEDs. C39: GNSS. Several state behaviours that depart from the intention of the code
  or from its comments, listed as findings of the manifest; lemmas beside the properties show what happens outside their
  hypotheses (lost records, overruns, dropped frames).
  \<^bold>\<open>Not modelled\<close>: cone LEDs, white LEDs, sound and NFC, the date, the shell commands, logging, diagnostics and metrics, the
  scan of the I2C bus, fatal errors, the flash map, the tables of timer registers, the coarse tachometer, the other drivers under
  \<^verbatim>\<open>src/drivers\<close> (register access of chips), the boot loader (\<^verbatim>\<open>src/bootloader\<close>, MCUboot with small changes), the start-up
  sequence of \<^verbatim>\<open>main.c\<close> and of \<^verbatim>\<open>optics_init\<close>, and unit tests. The effect of the compiler's options and of stack
  sizes is not modelled, nor are faults of memory; where priorities of threads are not part of a model, every order is allowed.
\<close>

text \<open>
  C23. With backup registers of at least four bytes, a reboot of the orb that is acknowledged as successful makes the next boot go on without the button, and one
  acknowledged as failed or out of range leaves the flag cleared, so that by the flag alone it does not.
\<close>

theorem reboot_orb_latches:
  assumes "remote job = CAN_JETSON_MESSAGING"
    and bb: "4 \<le> length (r_bbram s)" "bbram_size e = (0, length (r_bbram s))" "bbram_write e = sim_bbram_write"
    and s': "s' = handle_reboot_orb e delay job s"
    and i: "bb_size i = (0, length (r_bbram s))" "bb_read i = sim_bbram_read (r_bbram s')"
  shows "if acked [ACK_SUCCESS] job s s'
    then latched_reboot_cmd (read_boot_flags i) \<and>
      app_init_state b leds gpio reads i ps =
        Some (config_init_ret i, read_boot_flags i, DFU_PRIMARY_CONFIRM, power_vbat_5v_3v3_supplies_on gpio ps)
    else \<not> latched_reboot_cmd (read_boot_flags i)"
proof (cases "acked [ACK_SUCCESS] job s s'")
  case True
  then have "r_bbram s' = mem_put 0 [REBOOT_INSTABOOT] (r_bbram s)"
    using reboot_orb_result [OF assms(1-4), of delay] s' by blast
  then have "latched_reboot_cmd (read_boot_flags i)" using latched_after_write [OF bb(1) i(1)] i(2) by simp
  then show ?thesis using True by (simp add: app_init_state_def Let_def)
next
  case False
  then have "r_bbram s' = mem_put 0 [0] (r_bbram s)"
    using reboot_orb_result [OF assms(1-4), of delay] s' by blast
  then show ?thesis using False latched_after_write [OF bb(1) i(1)] i(2) by (simp add: REBOOT_INSTABOOT_def)
qed

lemma reboot_orb_latches_witness:
  "\<forall>(e0 :: (bool, bool) runner_env) (s0 :: (bool, bool) runner) (i0 :: boot_inputs).
    let job = \<lparr>remote = CAN_JETSON_MESSAGING, remote_addr = 0x80, ack_number = 7, job_msg = Jetson_cmd (Msg_reboot_orb 0)\<rparr>;
        s' = handle_reboot_orb (e0\<lparr>bbram_size := (0, 4), bbram_write := sim_bbram_write\<rparr>) 0 job (s0\<lparr>r_bbram := [0, 0, 0, 0]\<rparr>)
    in latched_reboot_cmd (read_boot_flags (i0\<lparr>bb_size := (0, 4), bb_read := sim_bbram_read (r_bbram s')\<rparr>))"
proof (intro allI)
  fix e0 :: "(bool, bool) runner_env" and s0 :: "(bool, bool) runner" and i0 :: boot_inputs
  let ?job = "\<lparr>remote = CAN_JETSON_MESSAGING, remote_addr = 0x80, ack_number = 7, job_msg = Jetson_cmd (Msg_reboot_orb 0)\<rparr>"
  let ?e = "e0\<lparr>bbram_size := (0, 4), bbram_write := sim_bbram_write\<rparr>" and ?s = "s0\<lparr>r_bbram := [0, 0, 0, 0]\<rparr>"
  have "acked [ACK_SUCCESS] ?job ?s (handle_reboot_orb ?e 0 ?job ?s)"
    by (simp add: handle_reboot_orb_def backup_regs_write_byte_def sim_bbram_write_def REBOOT_FLAG_OFFSET_BYTE_def acked_def job_ack_def)
  then show "let job = ?job; s' = handle_reboot_orb ?e 0 job ?s
      in latched_reboot_cmd (read_boot_flags (i0\<lparr>bb_size := (0, 4), bb_read := sim_bbram_read (r_bbram s')\<rparr>))"
    using reboot_orb_latches [of ?job ?s ?e "handle_reboot_orb ?e 0 ?job ?s" 0
        "i0\<lparr>bb_size := (0, 4), bb_read := sim_bbram_read (r_bbram (handle_reboot_orb ?e 0 ?job ?s))\<rparr>"]
    by simp
qed

text \<open>
  C34. Whatever initializations, settings, readings and losses of power there have been since the partition was erased: when no setting has failed,
  and the behaviour is set and the system restarted, the board goes on without the button
  exactly when the automatic behaviour was set, after an update, on a latched reboot or by the build; otherwise it waits for the button.
\<close>

theorem config_decides_boot:
  assumes "config_platform d mem crc"
    and "mem (area_flash (config_storage_area s)) = replicate (fa_size d) erased_byte"
    and b: "valid_behavior on b" "on \<noteq> BOOT_BUTTON_PRESS"
    and run: "config_run (\<lambda>s op. config_step d crc on op s) (Reboot # ops @ [Set_behavior b, Reboot]) s = Some (rs, s')"
    and ok: "Ret RET_ERROR_INTERNAL \<notin> set rs"
    and i: "last rs = Ret r" "config_init_ret i = rc r" "boot_auto_always_on i = (config_get_reboot_behavior s' = Some on)"
  shows "app_init_state bd leds gpio reads i ps =
    (if b = on \<or> post_update (read_boot_flags i) \<or> latched_reboot_cmd (read_boot_flags i) \<or> insta_boot i
     then Some (0, read_boot_flags i, DFU_PRIMARY_CONFIRM, power_vbat_5v_3v3_supplies_on gpio ps)
     else map_option (\<lambda>(ret, ps'). (rc ret, read_boot_flags i, DFU_READBACK_PROTECTION, ps'))
       (power_until_button_press bd leds gpio reads ps))"
proof -
  obtain c' where c': "(rs, c') \<in> set (cell_runs on ((Reboot # ops) @ [Set_behavior b, Reboot]) (cell_start BOOT_BUTTON_PRESS False))"
    and holds: "config_holds d crc mem s' c'"
    using config_platform.history_holds [OF assms(1,2), of on "ops @ [Set_behavior b, Reboot]"] run
    unfolding append_Cons by (metis option.inject prod.inject)
  obtain rs1 c1 rs2 where 1: "(rs1, c1) \<in> set (cell_runs on (Reboot # ops) (cell_start BOOT_BUTTON_PRESS False))"
    and 2: "(rs2, c') \<in> set (cell_runs on [Set_behavior b, Reboot] c1)" and rs: "rs = rs1 @ rs2"
    using cell_runs_append [OF c'] by blast
  have "cell_value c1 = cell_kept c1"
    by (rule cell_runs_kept [OF 1]) (use ok rs in \<open>simp_all add: cell_start_def\<close>)
  then have "last rs2 = Ret RET_SUCCESS \<and> rs2 \<noteq> [] \<and> cell_value c' = b"
    using 2 b(1) ok rs by (auto simp: cell_start_def split: if_splits)
  then have "r = RET_SUCCESS" "config_get_reboot_behavior s' = Some b"
    using i(1) rs holds by (simp_all add: config_holds_def config_get_reboot_behavior_def)
  then have "config_init_ret i = 0" "config_auto_boot (read_boot_flags i) = (b = on)"
    using i(2,3) by (simp_all add: read_boot_flags_def split_def Let_def)
  then show ?thesis by (auto simp: app_init_state_def Let_def)
qed

lemma config_decides_boot_witness:
  "\<forall>(i0 :: boot_inputs) bd leds gpio reads ps.
    let run = config_run (\<lambda>s op. config_step (sim_flash 4096 8) sim_crc 1 op s)
          [Reboot, Set_behavior 1, Set_behavior 0, Set_behavior 1, Reboot] config_erased;
        i = i0\<lparr>config_init_ret := 0, boot_auto_always_on := (config_get_reboot_behavior (snd (the run)) = Some 1)\<rparr>
    in app_init_state bd leds gpio reads i ps =
      Some (0, read_boot_flags i, DFU_PRIMARY_CONFIRM, power_vbat_5v_3v3_supplies_on gpio ps)"
proof (intro allI)
  fix i0 :: boot_inputs and bd leds gpio reads ps
  let ?run = "config_run (\<lambda>s op. config_step (sim_flash 4096 8) sim_crc 1 op s)
          [Reboot, Set_behavior 1, Set_behavior 0, Set_behavior 1, Reboot] config_erased"
  let ?i = "i0\<lparr>config_init_ret := 0, boot_auto_always_on := (config_get_reboot_behavior (snd (the ?run)) = Some 1)\<rparr>"
  have flash: "sim_mem 4096 (area_flash (config_storage_area config_erased)) = replicate (fa_size (sim_flash 4096 8)) erased_byte"
    by (simp add: config_erased_def)
  obtain s' where run: "?run = Some ([Ret RET_SUCCESS, Ret RET_SUCCESS, Ret RET_SUCCESS, Ret RET_SUCCESS, Ret RET_SUCCESS], s')"
    using pearl_config.history_holds [OF flash, of 1 "[Set_behavior 1, Set_behavior 0, Set_behavior 1, Reboot]"]
    by (auto simp: valid_behavior_def BOOT_BUTTON_PRESS_def cell_start_def simp del: config_run.simps)
  have run': "config_run (\<lambda>s op. config_step (sim_flash 4096 8) sim_crc 1 op s)
      (Reboot # [Set_behavior 1, Set_behavior 0] @ [Set_behavior 1, Reboot]) config_erased =
      Some ([Ret RET_SUCCESS, Ret RET_SUCCESS, Ret RET_SUCCESS, Ret RET_SUCCESS, Ret RET_SUCCESS], s')"
    using run by (simp del: config_run.simps)
  have "valid_behavior (1 :: u8) 1" "(1 :: u8) \<noteq> BOOT_BUTTON_PRESS" by (simp_all add: valid_behavior_def BOOT_BUTTON_PRESS_def)
  from config_decides_boot [OF pearl_config.config_platform_axioms flash this run', of RET_SUCCESS ?i bd leds gpio reads ps]
  show "let run = ?run; i = i0\<lparr>config_init_ret := 0, boot_auto_always_on := (config_get_reboot_behavior (snd (the run)) = Some 1)\<rparr>
    in app_init_state bd leds gpio reads i ps =
      Some (0, read_boot_flags i, DFU_PRIMARY_CONFIRM, power_vbat_5v_3v3_supplies_on gpio ps)"
    by (simp add: run Let_def del: config_run.simps)
qed

end
